(* ===== verification/Starlight_Prelude.thy ===== *)
theory Starlight_Prelude
  imports Main "HOL-Library.Word" "HOL-Library.Monad_Syntax"
begin

text \<open>
  Shared vocabulary of the development: the machine integers of the source, the result type of
  fallible operations, the collections of rewrite rules the components add to, and the generic
  lemmas on words, lists and maps that more than one component uses.
\<close>

unbundle bit_operations_syntax

type_synonym u8 = "8 word"
type_synonym u16 = "16 word"
type_synonym u32 = "32 word"
type_synonym u64 = "64 word"

text \<open>A Rust panic (a failed assertion, \<open>unwrap\<close> on \<open>None\<close>, an index out of range) is
  \<^term>\<open>None\<close>; an operation that may panic has an option type.\<close>

type_synonym 'a panics = "'a option"

named_theorems flag_bits \<open>the single bit each flag constant sets\<close>
named_theorems flag_simps \<open>flag predicates as bit tests, flag updates bit by bit\<close>

section \<open>Words\<close>

lemma bit_word_less: "bit (w :: 'a::len word) n \<Longrightarrow> n < LENGTH('a)"
  by (rule bit_imp_le_length)

lemma unat_bound: "unat (w :: 'a::len word) < 2 ^ LENGTH('a)"
  by (rule unsigned_less)

lemma unat_drop_bit_div: "unat (drop_bit n (w :: 'a::len word)) = unat w div 2 ^ n"
  by (simp only: unat_drop_bit_eq) (rule drop_bit_eq_div)

lemma and_flag_eq_0: "(w :: 'a::len word) AND 2 ^ n = 0 \<longleftrightarrow> \<not> bit w n"
  by (rule and_exp_eq_0_iff_not_bit)

lemma bit_word_unat: "bit (w :: 'a::len word) n \<longleftrightarrow> odd (unat w div 2 ^ n)"
proof -
  have "bit w n \<longleftrightarrow> bit (unat w) n"
    using bit_word_less [of w n] by (auto simp: bit_unsigned_iff)
  then show ?thesis by (simp add: bit_iff_odd)
qed

lemma unat_word_of_nat_less: "n < 2 ^ LENGTH('a) \<Longrightarrow> unat (word_of_nat n :: 'a::len word) = n"
  by (simp add: unat_of_nat)

lemma and_eq_mask_iff: "(w :: 'a::len word) AND m = m \<longleftrightarrow> (\<forall>n. bit m n \<longrightarrow> bit w n)"
proof -
  have "w AND m = m \<longleftrightarrow> (\<forall>n. bit (w AND m) n \<longleftrightarrow> bit m n)"
    by (auto intro: bit_eqI)
  then show ?thesis by (auto simp: bit_and_iff)
qed

lemma and_not_mask_eq_0:
  fixes v :: "'a::len word"
  shows "v AND NOT (mask k) = 0 \<longleftrightarrow> unat v < 2 ^ k"
proof -
  have "v AND NOT (mask k) = 0 \<longleftrightarrow> take_bit k v = v"
    by (auto simp: bit_eq_iff bit_simps)
  also have "\<dots> \<longleftrightarrow> take_bit k (unat v) = unat v"
    by (metis unsigned_take_bit_eq word_unat_eq_iff)
  finally show ?thesis by (simp add: take_bit_nat_eq_self_iff)
qed

lemma unat_not: "unat (NOT (v :: 'a::len word)) = 2 ^ LENGTH('a) - 1 - unat v"
proof -
  have "NOT v = - 1 - v" by (simp add: not_eq_complement)
  moreover have "unat (- 1 :: 'a word) = 2 ^ LENGTH('a) - 1"
    by (simp add: unsigned_minus_1_eq_mask mask_eq_exp_minus_1)
  ultimately show ?thesis by (simp add: unat_sub)
qed

lemma and_not_mask_eq_self:
  fixes v :: "'a::len word"
  assumes that: "k \<le> LENGTH('a)"
  shows "v AND NOT (mask k) = NOT (mask k) \<longleftrightarrow> 2 ^ LENGTH('a) - 2 ^ k \<le> unat v"
proof -
  have "v AND NOT (mask k) = NOT (mask k) \<longleftrightarrow> NOT v AND NOT (mask k) = 0"
    by (auto simp: bit_eq_iff bit_simps)
  also have "\<dots> \<longleftrightarrow> 2 ^ LENGTH('a) - 1 - unat v < 2 ^ k"
    by (simp add: and_not_mask_eq_0 unat_not)
  also have "\<dots> \<longleftrightarrow> 2 ^ LENGTH('a) - 2 ^ k \<le> unat v"
  proof -
    have "unat v < 2 ^ LENGTH('a)" by (rule unsigned_less)
    moreover have "(2::nat) ^ k \<le> 2 ^ LENGTH('a)" "0 < (2::nat) ^ k"
      using that by simp_all
    ultimately show ?thesis by arith
  qed
  finally show ?thesis .
qed
section \<open>Lists and maps\<close>

lemma nth_default_update_other:
  "i \<noteq> j \<Longrightarrow> xs[j := x] ! i = xs ! i"
  by simp

lemma card_dom_upd_new:
  "finite (dom m) \<Longrightarrow> m k = None \<Longrightarrow> card (dom (m(k \<mapsto> v))) = Suc (card (dom m))"
  by (simp add: domIff)

lemma card_dom_upd_old:
  "m k = Some u \<Longrightarrow> dom (m(k \<mapsto> v)) = dom m"
  by (auto simp: domIff)

end
