(* ===== verification/F64.thy ===== *)
theory F64
  imports Starlight_Prelude
begin

text \<open>
  IEEE 754 binary64 numbers as the bit patterns the engine stores (Rust's \<open>f64::to_bits\<close>):
  classification, the comparison operators, and the \<open>as\<close> conversions between floats and
  integers (exact or rounded to nearest even towards a float, truncating and saturating towards
  an integer). This is the part of the language's float semantics the value representation uses;
  no float arithmetic is modelled. A signed 32-bit integer is its two's complement word, read
  with \<^const>\<open>sint\<close>.
\<close>

type_synonym f64 = u64

definition f64_exponent :: "f64 \<Rightarrow> nat" where
  "f64_exponent x = unat x div 2 ^ 52 mod 2 ^ 11"
definition f64_mantissa :: "f64 \<Rightarrow> nat" where
  "f64_mantissa x = unat x mod 2 ^ 52"
definition f64_negative :: "f64 \<Rightarrow> bool" where
  "f64_negative x = (2 ^ 63 \<le> unat x)"

definition f64_magnitude :: "f64 \<Rightarrow> nat" where
  "f64_magnitude x = unat x mod 2 ^ 63"

definition f64_is_nan :: "f64 \<Rightarrow> bool" where
  "f64_is_nan x = (f64_exponent x = 2047 \<and> f64_mantissa x \<noteq> 0)"
definition f64_is_infinite :: "f64 \<Rightarrow> bool" where
  "f64_is_infinite x = (f64_exponent x = 2047 \<and> f64_mantissa x = 0)"

text \<open>The sign-magnitude key orders all floats that are not NaN, and identifies the two zeros.\<close>

definition f64_key :: "f64 \<Rightarrow> int" where
  "f64_key x = (if f64_negative x then - int (f64_magnitude x) else int (f64_magnitude x))"
definition f64_eq :: "f64 \<Rightarrow> f64 \<Rightarrow> bool" where
  "f64_eq x y = (\<not> f64_is_nan x \<and> \<not> f64_is_nan y \<and> f64_key x = f64_key y)"
definition f64_less :: "f64 \<Rightarrow> f64 \<Rightarrow> bool" where
  "f64_less x y = (\<not> f64_is_nan x \<and> \<not> f64_is_nan y \<and> f64_key x < f64_key y)"

section \<open>From integers\<close>

fun log2_nat :: "nat \<Rightarrow> nat" where
  "log2_nat n = (if n \<le> 1 then 0 else Suc (log2_nat (n div 2)))"

declare log2_nat.simps [simp del]

text \<open>Rounding to nearest, ties to even; a carry out of the mantissa moves into the exponent.\<close>

definition f64_of_nat :: "nat \<Rightarrow> f64" where
  "f64_of_nat m =
     (if m = 0 then 0
      else let k = log2_nat m in
        if k \<le> 52 then word_of_nat ((k + 1023) * 2 ^ 52 + (m * 2 ^ (52 - k) - 2 ^ 52))
        else let s = k - 52; q = m div 2 ^ s; r = m mod 2 ^ s; half = 2 ^ (s - 1);
                 q' = (if half < r \<or> r = half \<and> odd q then q + 1 else q)
             in word_of_nat ((k + 1023) * 2 ^ 52 + (q' - 2 ^ 52)))"

definition f64_of_int :: "int \<Rightarrow> f64" where
  "f64_of_int n = (if n < 0 then f64_of_nat (nat (- n)) OR 0x8000000000000000 else f64_of_nat (nat n))"

section \<open>To integers\<close>

text \<open>The integer part of a finite float (rounded towards zero), and whether anything was cut.\<close>

definition f64_significand :: "f64 \<Rightarrow> nat" where
  "f64_significand x =
     (if f64_exponent x = 0 then f64_mantissa x else 2 ^ 52 + f64_mantissa x)"
definition f64_trunc_magnitude :: "f64 \<Rightarrow> nat" where
  "f64_trunc_magnitude x =
     (let e = max 1 (f64_exponent x); m = f64_significand x
      in if 1075 \<le> e then m * 2 ^ (e - 1075) else m div 2 ^ (1075 - e))"
definition f64_trunc :: "f64 \<Rightarrow> int" where
  "f64_trunc x =
     (if f64_negative x then - int (f64_trunc_magnitude x) else int (f64_trunc_magnitude x))"
definition f64_has_fraction :: "f64 \<Rightarrow> bool" where
  "f64_has_fraction x =
     (let e = max 1 (f64_exponent x); m = f64_significand x
      in e < 1075 \<and> m mod 2 ^ (1075 - e) \<noteq> 0)"
definition f64_floor :: "f64 \<Rightarrow> int" where
  "f64_floor x = (if f64_negative x \<and> f64_has_fraction x then f64_trunc x - 1 else f64_trunc x)"

text \<open>Rust's \<open>as u32\<close> and \<open>as i32\<close> saturate; NaN becomes 0.\<close>

definition clamp_int :: "int \<Rightarrow> int \<Rightarrow> int \<Rightarrow> int" where
  "clamp_int lo hi n = max lo (min hi n)"
definition f64_as_u32 :: "f64 \<Rightarrow> u32" where
  "f64_as_u32 x =
     (if f64_is_nan x then 0
      else if f64_is_infinite x then (if f64_negative x then 0 else word_of_int (2 ^ 32 - 1))
      else word_of_int (clamp_int 0 (2 ^ 32 - 1) (f64_trunc x)))"

text \<open>The signed conversions as integers.\<close>

definition f64_as_int :: "int \<Rightarrow> int \<Rightarrow> f64 \<Rightarrow> int" where
  "f64_as_int lo hi x =
     (if f64_is_nan x then 0
      else if f64_is_infinite x then (if f64_negative x then lo else hi)
      else clamp_int lo hi (f64_trunc x))"
definition f64_as_i32 :: "f64 \<Rightarrow> int" where "f64_as_i32 = f64_as_int (- (2 ^ 31)) (2 ^ 31 - 1)"
definition f64_as_i64 :: "f64 \<Rightarrow> int" where "f64_as_i64 = f64_as_int (- (2 ^ 63)) (2 ^ 63 - 1)"

section \<open>Comparison\<close>

lemma f64_eq_refl [simp]: "f64_eq x x \<longleftrightarrow> \<not> f64_is_nan x"
  by (simp add: f64_eq_def)
lemma f64_eq_sym: "f64_eq x y \<longleftrightarrow> f64_eq y x"
  by (auto simp: f64_eq_def)
lemma f64_eq_trans: "f64_eq x y \<Longrightarrow> f64_eq y z \<Longrightarrow> f64_eq x z"
  by (simp add: f64_eq_def)
lemma f64_eq_nan: "f64_eq x y \<Longrightarrow> \<not> f64_is_nan x \<and> \<not> f64_is_nan y"
  by (simp add: f64_eq_def)
lemma f64_trichotomy:
  "\<not> f64_is_nan x \<Longrightarrow> \<not> f64_is_nan y \<Longrightarrow> f64_less x y \<or> f64_eq x y \<or> f64_less y x"
  by (auto simp: f64_eq_def f64_less_def)

section \<open>Integers are represented exactly\<close>

lemma log2_nat_bounds: "0 < n \<Longrightarrow> 2 ^ log2_nat n \<le> n \<and> n < 2 ^ Suc (log2_nat n)"
proof (induction n rule: log2_nat.induct)
  case (1 n)
  show ?case
  proof (cases "n \<le> 1")
    case True
    with "1.prems" show ?thesis by (simp add: log2_nat.simps [of n])
  next
    case False
    then have "2 ^ log2_nat (n div 2) \<le> n div 2 \<and> n div 2 < 2 ^ Suc (log2_nat (n div 2))"
      using "1.IH" by simp
    with False show ?thesis by (auto simp: log2_nat.simps [of n])
  qed
qed

lemma log2_nat_less: "0 < n \<Longrightarrow> n < 2 ^ k \<Longrightarrow> log2_nat n < k"
  using log2_nat_bounds [of n]
  by (meson le_less_trans linorder_not_less power_increasing one_le_numeral)

lemma f64_of_nat_parts:
  assumes "0 < m" "m < 2 ^ 53"
  defines "k \<equiv> log2_nat m"
  shows "unat (f64_of_nat m) = (k + 1023) * 2 ^ 52 + (m * 2 ^ (52 - k) - 2 ^ 52)"
    and "k \<le> 52" and "2 ^ 52 \<le> m * 2 ^ (52 - k)" and "m * 2 ^ (52 - k) < 2 ^ 53"
proof -
  have b: "2 ^ k \<le> m" "m < 2 ^ Suc k"
    using log2_nat_bounds [OF assms(1)] by (auto simp: k_def)
  show k: "k \<le> 52"
    using log2_nat_less [OF assms(1,2)] by (simp add: k_def)
  have e: "2 ^ k * 2 ^ (52 - k) = (2::nat) ^ 52" "2 ^ Suc k * 2 ^ (52 - k) = (2::nat) ^ 53"
    using power_add [of "2::nat" k "52 - k"] power_add [of "2::nat" "Suc k" "52 - k"] k
    by simp_all
  show lo: "2 ^ 52 \<le> m * 2 ^ (52 - k)"
    using mult_le_mono1 [OF b(1), of "2 ^ (52 - k)"] e(1) by simp
  show hi: "m * 2 ^ (52 - k) < 2 ^ 53"
  proof -
    have "m * 2 ^ (52 - k) < 2 ^ Suc k * 2 ^ (52 - k)"
      using b(2) by (intro mult_less_mono1) simp_all
    then show ?thesis by (simp only: e(2))
  qed
  have "(k + 1023) * 2 ^ 52 + (m * 2 ^ (52 - k) - 2 ^ 52) < 2 ^ 64"
  proof -
    have "(k + 1023) * 2 ^ 52 \<le> (52 + 1023) * (2::nat) ^ 52"
      using k by (intro mult_le_mono1) simp
    with hi show ?thesis by simp
  qed
  then show "unat (f64_of_nat m) = (k + 1023) * 2 ^ 52 + (m * 2 ^ (52 - k) - 2 ^ 52)"
    using assms(1) k unat_word_of_nat_less [where 'a = 64, of "(k + 1023) * 2 ^ 52 + (m * 2 ^ (52 - k) - 2 ^ 52)"]
    unfolding f64_of_nat_def Let_def k_def [symmetric] by simp
qed

lemma f64_fields:
  assumes "unat x = e * 2 ^ 52 + m" "m < 2 ^ 52" "e < 2047"
  shows "f64_exponent x = e" "f64_mantissa x = m" "\<not> f64_negative x" "\<not> f64_is_nan x"
    "f64_magnitude x = unat x"
proof -
  have d: "(e * 2 ^ 52 + m) div 2 ^ 52 = e" "(e * 2 ^ 52 + m) mod 2 ^ 52 = m"
    using assms(2) by simp_all
  have "e * 2 ^ 52 \<le> 2046 * (2::nat) ^ 52"
    using assms(3) by (intro mult_le_mono1) simp
  then have lt: "unat x < 2 ^ 63"
    using assms(1,2) by simp
  show e: "f64_exponent x = e"
    unfolding f64_exponent_def assms(1) d using assms(3) by simp
  show "f64_mantissa x = m"
    unfolding f64_mantissa_def assms(1) d ..
  show "\<not> f64_negative x"
    using lt by (simp add: f64_negative_def)
  show "\<not> f64_is_nan x"
    using assms(3) by (simp add: f64_is_nan_def e)
  show "f64_magnitude x = unat x"
    using lt by (simp add: f64_magnitude_def)
qed

lemma f64_of_nat_facts:
  assumes "m < 2 ^ 53"
  shows "\<not> f64_negative (f64_of_nat m) \<and> \<not> f64_is_nan (f64_of_nat m) \<and>
    f64_trunc_magnitude (f64_of_nat m) = m \<and> \<not> f64_has_fraction (f64_of_nat m) \<and>
    f64_exponent (f64_of_nat m) < 2047"
proof (cases "m = 0")
  case True
  then show ?thesis
    by (simp add: f64_of_nat_def f64_negative_def f64_is_nan_def f64_exponent_def
        f64_mantissa_def f64_trunc_magnitude_def f64_significand_def f64_has_fraction_def)
next
  case False
  define k where "k = log2_nat m"
  note parts = f64_of_nat_parts [OF _ assms, folded k_def]
  have u: "unat (f64_of_nat m) = (k + 1023) * 2 ^ 52 + (m * 2 ^ (52 - k) - 2 ^ 52)"
    and k: "k \<le> 52" and lo: "2 ^ 52 \<le> m * 2 ^ (52 - k)" and hi: "m * 2 ^ (52 - k) < 2 ^ 53"
    using False parts by simp_all
  have mant: "m * 2 ^ (52 - k) - 2 ^ 52 < 2 ^ 52"
    using lo hi by simp
  note f = f64_fields [OF u mant]
  have e: "f64_exponent (f64_of_nat m) = k + 1023"
    and s: "f64_significand (f64_of_nat m) = m * 2 ^ (52 - k)"
    using f k lo by (simp_all add: f64_significand_def)
  have sh: "1075 - (k + 1023) = 52 - k" by simp
  show ?thesis
    using f k by (auto simp: f64_trunc_magnitude_def f64_has_fraction_def e s Let_def sh)
qed

lemma unat_or_sign:
  assumes "unat (x :: u64) < 2 ^ 63"
  shows "unat (x OR 0x8000000000000000) = unat x + 2 ^ 63"
proof -
  have s: "(0x8000000000000000 :: u64) = 2 ^ 63" by simp
  have "\<not> bit x 63"
    using assms by (simp add: bit_word_unat)
  then have "x AND 2 ^ 63 = 0"
    by (simp add: and_flag_eq_0 del: power_numeral)
  then have "x OR 2 ^ 63 = x + 2 ^ 63"
    by (simp add: disjunctive_add_eq_or)
  moreover have "unat (x + 2 ^ 63) = unat x + 2 ^ 63"
    using assms by (simp add: unat_word_ariths)
  ultimately show ?thesis
    by (simp only: s)
qed

lemma sign_bit_fields:
  assumes "unat (x :: f64) < 2 ^ 63"
  defines "y \<equiv> x OR 0x8000000000000000"
  shows "f64_exponent y = f64_exponent x" "f64_mantissa y = f64_mantissa x" "f64_negative y"
    "f64_magnitude y = f64_magnitude x"
proof -
  have u: "unat y = unat x + 2 ^ 63"
    using unat_or_sign [OF assms(1)] by (simp add: y_def)
  have "(unat x + 2 ^ 63) div 2 ^ 52 = unat x div 2 ^ 52 + 2 ^ 11"
    using div_mult_self2 [of "2 ^ 52" "unat x" "2 ^ 11"] by simp
  then show "f64_exponent y = f64_exponent x"
    by (simp add: f64_exponent_def u)
  have "(unat x + 2 ^ 63) mod 2 ^ 52 = unat x mod 2 ^ 52"
    using mod_mult_self2 [of "unat x" "2 ^ 52" "2 ^ 11"] by simp
  then show "f64_mantissa y = f64_mantissa x"
    by (simp add: f64_mantissa_def u)
  show "f64_negative y" "f64_magnitude y = f64_magnitude x"
    by (simp_all add: f64_negative_def f64_magnitude_def u)
qed

lemma same_bit_fields:
  assumes "f64_exponent y = f64_exponent x" "f64_mantissa y = f64_mantissa x"
  shows "f64_is_nan y = f64_is_nan x" "f64_trunc_magnitude y = f64_trunc_magnitude x"
    "f64_has_fraction y = f64_has_fraction x"
  unfolding f64_is_nan_def f64_trunc_magnitude_def f64_has_fraction_def f64_significand_def assms
  by (rule refl)+

lemma f64_of_int_facts:
  assumes "\<bar>n\<bar> < 2 ^ 53"
  shows "\<not> f64_is_nan (f64_of_int n)" "\<not> f64_is_infinite (f64_of_int n)"
    "f64_trunc (f64_of_int n) = n" "\<not> f64_has_fraction (f64_of_int n)"
proof -
  let ?m = "nat \<bar>n\<bar>" let ?x = "f64_of_nat ?m"
  have m: "?m < 2 ^ 53" using assms by simp
  note f = f64_of_nat_facts [OF m]
  have small: "unat ?x < 2 ^ 63" using f by (simp add: f64_negative_def not_le)
  note s = sign_bit_fields [OF small]
  have x: "f64_of_int n = (if n < 0 then ?x OR 0x8000000000000000 else ?x)"
    by (simp add: f64_of_int_def)
  show "\<not> f64_is_nan (f64_of_int n)" "\<not> f64_is_infinite (f64_of_int n)"
    "f64_trunc (f64_of_int n) = n" "\<not> f64_has_fraction (f64_of_int n)"
    using f s(1,3) same_bit_fields [OF s(1,2)]
    by (auto simp: x f64_is_infinite_def f64_trunc_def)
qed

lemma magnitude_fields:
  "f64_magnitude x = f64_magnitude y \<Longrightarrow> f64_exponent x = f64_exponent y \<and> f64_mantissa x = f64_mantissa y"
proof -
  assume m: "f64_magnitude x = f64_magnitude y"
  have e: "f64_exponent z = f64_magnitude z div 2 ^ 52" for z
    using div_exp_mod_exp_eq [of "unat z" 52 11] by (simp add: f64_exponent_def f64_magnitude_def)
  have a: "f64_mantissa z = f64_magnitude z mod 2 ^ 52" for z
    using mod_exp_eq [of "unat z" 63 52] by (simp add: f64_mantissa_def f64_magnitude_def)
  from m show ?thesis by (simp add: e a)
qed

text \<open>Equal floats have the same integer part; the two zeros are the only equal floats that
  differ as bit patterns.\<close>

lemma f64_eq_trunc:
  assumes "f64_eq x y"
  shows "f64_trunc x = f64_trunc y"
proof -
  have k: "f64_key x = f64_key y" using assms by (simp add: f64_eq_def)
  then have m: "f64_magnitude x = f64_magnitude y"
    by (auto simp: f64_key_def split: if_splits)
  note fields = magnitude_fields [OF m]
  show ?thesis
  proof (cases "f64_negative x = f64_negative y")
    case True
    with fields same_bit_fields(2) [of x y] show ?thesis
      by (simp add: f64_trunc_def)
  next
    case False
    with k m have z: "f64_magnitude x = 0" "f64_magnitude y = 0"
      by (auto simp: f64_key_def split: if_splits)
    have "f64_trunc_magnitude w = 0" if "f64_magnitude w = 0" for w
    proof -
      have "f64_exponent w = 0" "f64_mantissa w = 0"
        using magnitude_fields [of w 0] that
        by (simp_all add: f64_exponent_def f64_mantissa_def f64_magnitude_def)
      then show ?thesis
        by (simp add: f64_trunc_magnitude_def f64_significand_def)
    qed
    with z show ?thesis by (simp add: f64_trunc_def)
  qed
qed

lemma f64_eq_of_int:
  assumes "\<bar>a\<bar> < 2 ^ 53" "\<bar>b\<bar> < 2 ^ 53"
  shows "f64_eq (f64_of_int a) (f64_of_int b) \<longleftrightarrow> a = b"
  using f64_eq_trunc [of "f64_of_int a" "f64_of_int b"] f64_of_int_facts [OF assms(1)]
    f64_of_int_facts [OF assms(2)] by auto

lemma f64_as_u32_of_int:
  assumes "0 \<le> n" "n < 2 ^ 32"
  shows "f64_as_u32 (f64_of_int n) = word_of_int n"
  using assms f64_of_int_facts [of n] by (simp add: f64_as_u32_def clamp_int_def)

end
