(* ===== verification/Js_Value.thy ===== *)
theory Js_Value
  imports F64
begin

text \<open>
  JavaScript values on 64-bit targets (vm/value.rs, module \<open>new_value\<close>, with the NaN handling of
  wtf-rs/src/pure_nan.rs): one 64-bit word, in which a double is shifted by \<open>2 ^ 49\<close>, an int32
  carries the tag \<open>0xfffe\<close>, a heap cell is its address, and the remaining primitives are small
  invalid addresses. Each operation is modelled on the word; a release build's wrapping addition
  is taken where a debug build would check for overflow. The view at the end is the abstract
  value: which primitive or cell a word stands for.
\<close>

type_synonym js_value = u64

section \<open>pure_nan.rs\<close>

definition pure_nan :: f64 where
  "pure_nan = 0x7ff8000000000000"
definition is_impure_nan :: "f64 \<Rightarrow> bool" where
  "is_impure_nan value = (0xfffe000000000000 \<le> value)"
definition purify_nan :: "f64 \<Rightarrow> f64" where
  "purify_nan value = (if \<not> f64_eq value value then pure_nan else value)"

section \<open>Encoding constants\<close>

definition DOUBLE_ENCODE_OFFSET :: u64 where "DOUBLE_ENCODE_OFFSET = 2 ^ 49"
definition NUMBER_TAG :: u64 where "NUMBER_TAG = 0xfffe000000000000"
definition OTHER_TAG :: u64 where "OTHER_TAG = 0x2"
definition BOOL_TAG :: u64 where "BOOL_TAG = 0x4"
definition UNDEFINED_TAG :: u64 where "UNDEFINED_TAG = 0x8"
definition NATIVE32_TAG :: u64 where "NATIVE32_TAG = 0x12"
definition NATIVE32_MASK :: u64 where "NATIVE32_MASK = NUMBER_TAG OR NATIVE32_TAG"
definition VALUE_FALSE :: u64 where "VALUE_FALSE = OTHER_TAG OR BOOL_TAG OR 0"
definition VALUE_TRUE :: u64 where "VALUE_TRUE = OTHER_TAG OR BOOL_TAG OR 1"
definition VALUE_UNDEFINED :: u64 where "VALUE_UNDEFINED = OTHER_TAG OR UNDEFINED_TAG"
definition VALUE_NULL :: u64 where "VALUE_NULL = OTHER_TAG"
definition NOT_CELL_MASK :: u64 where "NOT_CELL_MASK = NUMBER_TAG OR OTHER_TAG"
definition VALUE_EMPTY :: u64 where "VALUE_EMPTY = 0x0"

lemmas value_consts = DOUBLE_ENCODE_OFFSET_def NUMBER_TAG_def OTHER_TAG_def BOOL_TAG_def
  UNDEFINED_TAG_def NATIVE32_TAG_def NATIVE32_MASK_def VALUE_FALSE_def VALUE_TRUE_def
  VALUE_UNDEFINED_def VALUE_NULL_def NOT_CELL_MASK_def VALUE_EMPTY_def

section \<open>Encoders\<close>

definition encode_empty_value :: js_value where "encode_empty_value = VALUE_EMPTY"
definition encode_object_value :: "u64 \<Rightarrow> js_value" where "encode_object_value gc = gc"
definition encode_undefined_value :: js_value where "encode_undefined_value = VALUE_UNDEFINED"
definition encode_null_value :: js_value where "encode_null_value = VALUE_NULL"
definition encode_bool_value :: "bool \<Rightarrow> js_value" where
  "encode_bool_value x = (if x then VALUE_TRUE else VALUE_FALSE)"
definition encode_f64_value :: "f64 \<Rightarrow> js_value" where
  "encode_f64_value x = x + DOUBLE_ENCODE_OFFSET"
definition encode_untrusted_f64_value :: "f64 \<Rightarrow> js_value" where
  "encode_untrusted_f64_value x = encode_f64_value (purify_nan x)"
definition encode_nan_value :: js_value where
  "encode_nan_value = encode_f64_value pure_nan"
definition encode_int32 :: "u32 \<Rightarrow> js_value" where
  "encode_int32 x = NUMBER_TAG OR ucast x"
definition encode_native_u32 :: "u32 \<Rightarrow> js_value" where
  "encode_native_u32 x = push_bit 16 (ucast x) OR NATIVE32_TAG"

section \<open>Tests\<close>

definition is_empty :: "js_value \<Rightarrow> bool" where "is_empty v = (v = VALUE_EMPTY)"
definition is_undefined :: "js_value \<Rightarrow> bool" where "is_undefined v = (v = encode_undefined_value)"
definition is_null :: "js_value \<Rightarrow> bool" where "is_null v = (v = encode_null_value)"
definition is_true :: "js_value \<Rightarrow> bool" where "is_true v = (v = encode_bool_value True)"
definition is_false :: "js_value \<Rightarrow> bool" where "is_false v = (v = encode_bool_value False)"
definition is_bool :: "js_value \<Rightarrow> bool" where "is_bool v = (v AND NOT 1 = VALUE_FALSE)"
definition is_pointer :: "js_value \<Rightarrow> bool" where "is_pointer v = (v AND NOT_CELL_MASK = 0)"
definition is_int32 :: "js_value \<Rightarrow> bool" where "is_int32 v = (v AND NUMBER_TAG = NUMBER_TAG)"
definition is_number :: "js_value \<Rightarrow> bool" where "is_number v = (v AND NUMBER_TAG \<noteq> 0)"
definition is_double :: "js_value \<Rightarrow> bool" where "is_double v = (is_number v \<and> \<not> is_int32 v)"
definition is_object :: "js_value \<Rightarrow> bool" where "is_object v = (is_pointer v \<and> \<not> is_empty v)"
definition is_native_value :: "js_value \<Rightarrow> bool" where
  "is_native_value v = (v AND NATIVE32_MASK = NATIVE32_TAG)"

section \<open>Decoders\<close>

text \<open>The decoders of objects, doubles and booleans assert the tag.\<close>

definition get_object :: "js_value \<Rightarrow> u64 panics" where
  "get_object v = (if is_object v then Some v else None)"
definition get_int32 :: "js_value \<Rightarrow> u32" where "get_int32 v = ucast v"
definition get_double :: "js_value \<Rightarrow> f64 panics" where
  "get_double v = (if is_double v then Some (v - DOUBLE_ENCODE_OFFSET) else None)"
definition get_number :: "js_value \<Rightarrow> f64 panics" where
  "get_number v = (if is_int32 v then Some (f64_of_int (sint (get_int32 v))) else get_double v)"
definition get_bool :: "js_value \<Rightarrow> bool panics" where
  "get_bool v = (if is_bool v then Some (v = encode_bool_value True) else None)"
definition get_native_u32 :: "js_value \<Rightarrow> u32" where
  "get_native_u32 v = ucast (drop_bit 16 v)"

section \<open>Conversions into values\<close>

text \<open>
  The macro \<open>from_primitive\<close> tests \<open>x as i32 as t == x\<close> and stores an int32 when it holds. For
  \<open>t = i32\<close> and the narrower types the casts return the value unchanged; for \<open>u32\<close> they are both
  the identity on the bits, and for the 64-bit types the second cast extends the sign.
\<close>

definition from_i32 :: "u32 \<Rightarrow> js_value" where
  "from_i32 x = encode_int32 x"
definition from_u32 :: "u32 \<Rightarrow> js_value" where
  "from_u32 x =
     (if (ucast (ucast x :: u32) :: u32) = x then encode_int32 (ucast x)
      else encode_f64_value (f64_of_int (uint x)))"
definition from_u64 :: "u64 \<Rightarrow> js_value" where
  "from_u64 x =
     (let i = ucast x :: u32 in
      if (scast i :: u64) = x then encode_int32 i else encode_f64_value (f64_of_int (uint x)))"
definition from_i64 :: "u64 \<Rightarrow> js_value" where
  "from_i64 x =
     (let i = ucast x :: u32 in
      if (scast i :: u64) = x then encode_int32 i else encode_f64_value (f64_of_int (sint x)))"
definition from_f64 :: "f64 \<Rightarrow> js_value" where
  "from_f64 x = encode_untrusted_f64_value x"
definition from_bool :: "bool \<Rightarrow> js_value" where
  "from_bool x = encode_bool_value x"

section \<open>The tests as ranges of words\<close>

lemma number_tag_eq: "NUMBER_TAG = NOT (mask 49)"
  by (simp add: NUMBER_TAG_def mask_eq_exp_minus_1)

lemma is_number_iff: "is_number v \<longleftrightarrow> 2 ^ 49 \<le> unat v"
  using and_not_mask_eq_0 [of v 49] by (simp add: is_number_def number_tag_eq not_less)

lemma is_int32_iff: "is_int32 v \<longleftrightarrow> 0xfffe000000000000 \<le> unat v"
  using and_not_mask_eq_self [of 49 v] by (simp add: is_int32_def number_tag_eq)

lemma is_double_iff: "is_double v \<longleftrightarrow> 2 ^ 49 \<le> unat v \<and> unat v < 0xfffe000000000000"
  by (auto simp: is_double_def is_number_iff is_int32_iff)

lemma is_pointer_iff: "is_pointer v \<longleftrightarrow> unat v < 2 ^ 49 \<and> \<not> bit v 1"
proof -
  have "v AND OTHER_TAG = 0 \<longleftrightarrow> \<not> bit v 1"
    using and_flag_eq_0 [of v 1] by (simp add: OTHER_TAG_def)
  then show ?thesis
    using is_number_iff [of v]
    by (auto simp: is_pointer_def NOT_CELL_MASK_def bit.conj_disj_distrib or_eq_0_iff is_number_def)
qed

lemma is_bool_iff: "is_bool v \<longleftrightarrow> v = VALUE_TRUE \<or> v = VALUE_FALSE"
proof
  assume b: "is_bool v"
  have "v = (v AND NOT 1) OR (v AND 1)"
    by (auto simp: bit_eq_iff bit_simps)
  also have "\<dots> = VALUE_FALSE OR of_bool (odd v)"
    using b by (simp add: is_bool_def and_one_eq mod_2_eq_odd)
  finally show "v = VALUE_TRUE \<or> v = VALUE_FALSE"
    by (cases "odd v") (simp_all add: VALUE_TRUE_def VALUE_FALSE_def OTHER_TAG_def BOOL_TAG_def)
qed (auto simp: is_bool_def VALUE_TRUE_def VALUE_FALSE_def OTHER_TAG_def BOOL_TAG_def)

lemma encode_f64_range:
  assumes "unat b < 0xfffc000000000000"
  shows "unat (encode_f64_value b) = unat b + 2 ^ 49"
  using assms unat_add_lem [of b "2 ^ 49"]
  by (simp add: encode_f64_value_def DOUBLE_ENCODE_OFFSET_def)

lemma not_nan_range:
  assumes "\<not> f64_is_nan x"
  shows "unat x \<le> 0xfff0000000000000"
proof (rule ccontr)
  assume "\<not> unat x \<le> 0xfff0000000000000"
  moreover have "unat x < 2 ^ 64" using unat_bound [of x] by simp
  ultimately have d: "unat x div 2 ^ 52 = 4095" and gt: "4095 * 2 ^ 52 < unat x"
    by (simp_all add: div_nat_eqI)
  have m: "unat x = 4095 * 2 ^ 52 + unat x mod 2 ^ 52"
    using div_mult_mod_eq [of "unat x" "2 ^ 52"] unfolding d by (rule sym)
  have "f64_exponent x = 2047" using d by (simp add: f64_exponent_def)
  moreover have "f64_mantissa x \<noteq> 0" using m gt by (simp add: f64_mantissa_def)
  ultimately show False using assms by (simp add: f64_is_nan_def)
qed

lemma pure_nan_is_nan: "f64_is_nan pure_nan"
  by (simp add: pure_nan_def f64_is_nan_def f64_exponent_def f64_mantissa_def)

lemma purify_nan_range: "unat (purify_nan x) < 0xfffc000000000000"
  using not_nan_range [of x] by (cases "f64_is_nan x") (simp_all add: purify_nan_def pure_nan_def)

lemma unat_encode_int32: "unat (encode_int32 x) = 0xfffe000000000000 + unat x"
proof -
  have "NUMBER_TAG AND (ucast x :: u64) = 0"
    by (auto simp: number_tag_eq bit_eq_iff bit_simps dest: bit_word_less)
  then have "encode_int32 x = NUMBER_TAG + ucast x"
    by (simp add: encode_int32_def disjunctive_add_eq_or)
  moreover have "unat (ucast x :: u64) = unat x"
    by (simp add: unsigned_ucast_eq take_bit_nat_eq_self_iff order_less_trans [OF unat_bound [of x]])
  ultimately show ?thesis
    using unat_bound [of x] by (simp add: unat_word_ariths NUMBER_TAG_def)
qed

lemma get_int32_encode: "get_int32 (encode_int32 x) = x"
  by (auto simp: get_int32_def encode_int32_def number_tag_eq bit_eq_iff bit_simps
      dest: bit_word_less)

lemma unat_encode_native: "unat (encode_native_u32 x) = unat x * 2 ^ 16 + 0x12"
proof -
  have u: "unat (push_bit 16 (ucast x :: u64)) = unat x * 2 ^ 16"
    using unat_bound [of x]
    by (simp add: push_bit_eq_mult unat_word_ariths unsigned_ucast_eq take_bit_nat_def)
  have "push_bit 16 (ucast x :: u64) AND NATIVE32_TAG = 0"
  proof -
    have "\<not> bit (0x12 :: u64) n" if n: "16 \<le> n" for n
    proof -
      have "(18::nat) < 2 ^ 16" by simp
      also have "\<dots> \<le> 2 ^ n" by (rule power_increasing [OF n]) simp
      finally have "(18::nat) div 2 ^ n = 0" by (rule div_less)
      then show ?thesis by (simp add: bit_word_unat)
    qed
    then show ?thesis by (auto simp: bit_eq_iff bit_simps NATIVE32_TAG_def)
  qed
  then have "encode_native_u32 x = push_bit 16 (ucast x) + NATIVE32_TAG"
    by (simp add: encode_native_u32_def disjunctive_add_eq_or)
  then show ?thesis
    using u unat_bound [of x] by (simp add: unat_word_ariths NATIVE32_TAG_def)
qed

lemma get_native_encode: "get_native_u32 (encode_native_u32 x) = x"
proof -
  have "unat (drop_bit 16 (encode_native_u32 x)) = unat x"
    by (simp only: unat_drop_bit_div unat_encode_native) simp
  then have "unat (get_native_u32 (encode_native_u32 x)) = unat x"
    unfolding get_native_u32_def unsigned_ucast_eq by (simp only: take_bit_nat_eq_self unat_bound)
  then show ?thesis by (simp only: word_unat_eq_iff)
qed

section \<open>The abstract value\<close>

datatype js_view =
    V_Empty | V_Undefined | V_Null | V_Bool bool | V_Int32 u32 | V_Double f64
  | V_Object u64 | V_Native u32

fun encode_view :: "js_view \<Rightarrow> js_value" where
  "encode_view V_Empty = encode_empty_value"
| "encode_view V_Undefined = encode_undefined_value"
| "encode_view V_Null = encode_null_value"
| "encode_view (V_Bool b) = encode_bool_value b"
| "encode_view (V_Int32 i) = encode_int32 i"
| "encode_view (V_Double x) = encode_f64_value x"
| "encode_view (V_Object p) = encode_object_value p"
| "encode_view (V_Native n) = encode_native_u32 n"

text \<open>What the engine may box: doubles whose pattern the shift keeps below the int32 tag (every
  float is, once purified), and the addresses of cells.\<close>

definition cell_address :: "u64 \<Rightarrow> bool" where
  "cell_address p = (p \<noteq> 0 \<and> unat p < 2 ^ 49 \<and> \<not> bit p 1)"

fun boxable :: "js_view \<Rightarrow> bool" where
  "boxable (V_Double x) = (unat x < 0xfffc000000000000)"
| "boxable (V_Object p) = cell_address p"
| "boxable _ = True"

text \<open>The immediates are small words with bit 1 set.\<close>

lemma immediates:
  "encode_empty_value = 0" "encode_undefined_value = 10" "encode_null_value = 2"
  "encode_bool_value True = 7" "encode_bool_value False = 6"
  by (simp_all add: encode_empty_value_def encode_undefined_value_def encode_null_value_def
      encode_bool_value_def value_consts)

lemma small_not_number: "unat v < 2 ^ 49 \<Longrightarrow> \<not> is_number v \<and> \<not> is_int32 v \<and> \<not> is_double v"
  by (auto simp: is_number_iff is_int32_iff is_double_iff)

lemma word_neq_unat: "unat v \<noteq> unat w \<Longrightarrow> v \<noteq> w"
  by blast

lemma bit_native_tag: "bit NATIVE32_TAG n \<longleftrightarrow> n = 1 \<or> n = 4"
proof -
  have e: "NATIVE32_TAG = 2 ^ 1 OR 2 ^ 4"
    by (simp add: NATIVE32_TAG_def)
  show ?thesis
    unfolding e bit_or_iff bit_exp_iff possible_bit_word by auto
qed

lemma is_native_iff: "is_native_value v \<longleftrightarrow> unat v < 2 ^ 49 \<and> bit v 1 \<and> bit v 4"
proof -
  have nt: "bit NUMBER_TAG n \<longleftrightarrow> 49 \<le> n \<and> n < 64" for n
    by (auto simp: number_tag_eq bit_simps)
  have "is_native_value v \<longleftrightarrow> (\<forall>n. bit (v AND NATIVE32_MASK) n \<longleftrightarrow> bit NATIVE32_TAG n)"
    unfolding is_native_value_def by (auto intro: bit_eqI)
  also have "\<dots> \<longleftrightarrow> (\<forall>n. \<not> bit (v AND NUMBER_TAG) n) \<and> bit v 1 \<and> bit v 4"
    (is "?L \<longleftrightarrow> ?R")
  proof
    assume L: ?L
    have "\<not> bit (v AND NUMBER_TAG) n" for n
      using L [rule_format, of n]
      by (auto simp: NATIVE32_MASK_def bit_and_iff bit_or_iff nt bit_native_tag)
    moreover have "bit v 1" "bit v 4"
      using L [rule_format, of 1] L [rule_format, of 4]
      by (auto simp: NATIVE32_MASK_def bit_and_iff bit_or_iff nt bit_native_tag)
    ultimately show ?R by blast
  next
    assume R: ?R
    show ?L
      using R by (auto simp: NATIVE32_MASK_def bit_and_iff bit_or_iff bit_native_tag)
  qed
  also have "(\<forall>n. \<not> bit (v AND NUMBER_TAG) n) \<longleftrightarrow> v AND NUMBER_TAG = 0"
    by (auto intro: bit_eqI)
  finally show ?thesis
    using is_number_iff [of v] by (auto simp: is_number_def)
qed

lemma is_object_iff: "is_object v \<longleftrightarrow> cell_address v"
  by (auto simp: is_object_def is_pointer_iff is_empty_def cell_address_def VALUE_EMPTY_def)

lemma immediate_words:
  "is_undefined v \<longleftrightarrow> v = 10" "is_null v \<longleftrightarrow> v = 2" "is_empty v \<longleftrightarrow> v = 0"
  "is_bool v \<longleftrightarrow> v = 7 \<or> v = 6"
  by (simp_all add: is_undefined_def is_null_def is_empty_def is_bool_iff immediates value_consts)

text \<open>The tests agree with the abstract value, and the word determines it.\<close>

definition value_of :: "js_value \<Rightarrow> js_view option" where
  "value_of v =
     (if is_empty v then Some V_Empty
      else if is_undefined v then Some V_Undefined
      else if is_null v then Some V_Null
      else if is_bool v then map_option V_Bool (get_bool v)
      else if is_int32 v then Some (V_Int32 (get_int32 v))
      else if is_number v then map_option V_Double (get_double v)
      else if is_object v then map_option V_Object (get_object v)
      else if is_native_value v then Some (V_Native (get_native_u32 v))
      else None)"

lemma unat_small: "unat (10 :: u64) = 10" "unat (2 :: u64) = 2" "unat (7 :: u64) = 7" "unat (6 :: u64) = 6"
  by simp_all

lemma double_not_small:
  "2 ^ 49 \<le> unat v \<Longrightarrow> v \<noteq> 0 \<and> v \<noteq> 10 \<and> v \<noteq> 2 \<and> v \<noteq> 7 \<and> v \<noteq> 6 \<and> \<not> cell_address v
     \<and> \<not> is_native_value v"
  by (auto simp: cell_address_def is_native_iff)

lemma number_view:
  assumes "w = V_Int32 i \<or> w = V_Double x \<and> boxable w"
  shows "2 ^ 49 \<le> unat (encode_view w)"
  using assms encode_f64_range [of x] unat_encode_int32 [of i] by auto

lemma cell_not_immediate:
  "cell_address p \<Longrightarrow> p \<noteq> 10 \<and> p \<noteq> 2 \<and> p \<noteq> 7 \<and> p \<noteq> 6 \<and> \<not> is_native_value p"
proof -
  assume c: "cell_address p"
  have "bit (10 :: u64) 1" "bit (2 :: u64) 1" "bit (7 :: u64) 1" "bit (6 :: u64) 1"
    by (simp_all add: bit_word_unat)
  with c show ?thesis by (auto simp: cell_address_def is_native_iff)
qed

lemma native_view:
  "is_native_value (encode_native_u32 n)" "unat (encode_native_u32 n) < 2 ^ 49"
  "18 \<le> unat (encode_native_u32 n)" "bit (encode_native_u32 n) 1"
proof -
  show lt: "unat (encode_native_u32 n) < 2 ^ 49" and ge: "18 \<le> unat (encode_native_u32 n)"
    using unat_bound [of n] by (simp_all add: unat_encode_native)
  have d: "(unat n * 2 ^ 16 + 18) div 2 ^ 1 = 2 * (unat n * 2 ^ 14 + 4) + 1"
    "(unat n * 2 ^ 16 + 18) div 2 ^ 4 = 2 * (unat n * 2 ^ 11) + 1"
    by simp_all
  show b: "bit (encode_native_u32 n) 1"
    unfolding bit_word_unat unat_encode_native d(1) by simp
  show "is_native_value (encode_native_u32 n)"
    using lt b unfolding is_native_iff bit_word_unat [of _ 4] unat_encode_native d(2) by simp
qed

section \<open>Properties\<close>

lemmas view_simps = immediates immediate_words is_object_iff is_number_iff is_int32_iff
  is_double_iff

lemma tests_immediate [simp]:
  "\<not> is_int32 0" "\<not> is_int32 10" "\<not> is_int32 2" "\<not> is_int32 7" "\<not> is_int32 6"
  "\<not> is_double 0" "\<not> is_double 10" "\<not> is_double 2" "\<not> is_double 7" "\<not> is_double 6"
  "\<not> is_number 0" "\<not> is_number 10" "\<not> is_number 2" "\<not> is_number 7" "\<not> is_number 6"
  "\<not> is_object 0" "\<not> is_object 10" "\<not> is_object 2" "\<not> is_object 7" "\<not> is_object 6"
  "\<not> is_native_value 0" "\<not> is_native_value 10" "\<not> is_native_value 2"
  "\<not> is_native_value 7" "\<not> is_native_value 6"
  by (simp_all add: is_number_iff is_int32_iff is_double_iff is_object_iff is_native_iff
      cell_address_def bit_word_unat)

lemma tests_number:
  assumes "2 ^ 49 \<le> unat v"
  shows "\<not> is_empty v" "\<not> is_undefined v" "\<not> is_null v" "\<not> is_bool v" "\<not> is_object v"
    "\<not> is_native_value v" "is_number v"
  using double_not_small [OF assms] assms
  by (auto simp: immediate_words is_object_iff is_number_iff)

lemma tests_int32 [simp]:
  "\<not> is_empty (encode_int32 i)" "\<not> is_undefined (encode_int32 i)" "\<not> is_null (encode_int32 i)"
  "\<not> is_bool (encode_int32 i)" "is_int32 (encode_int32 i)" "\<not> is_double (encode_int32 i)"
  "\<not> is_object (encode_int32 i)" "\<not> is_native_value (encode_int32 i)" "is_number (encode_int32 i)"
proof -
  have "2 ^ 49 \<le> unat (encode_int32 i)" and i: "is_int32 (encode_int32 i)"
    by (simp_all add: unat_encode_int32 is_int32_iff)
  from tests_number [OF this(1)] i
  show "\<not> is_empty (encode_int32 i)" "\<not> is_undefined (encode_int32 i)" "\<not> is_null (encode_int32 i)"
    "\<not> is_bool (encode_int32 i)" "is_int32 (encode_int32 i)" "\<not> is_double (encode_int32 i)"
    "\<not> is_object (encode_int32 i)" "\<not> is_native_value (encode_int32 i)" "is_number (encode_int32 i)"
    by (simp_all add: is_double_def)
qed

lemma tests_double [simp]:
  assumes "unat x < 0xfffc000000000000"
  shows "\<not> is_empty (encode_f64_value x)" "\<not> is_undefined (encode_f64_value x)"
    "\<not> is_null (encode_f64_value x)" "\<not> is_bool (encode_f64_value x)"
    "\<not> is_int32 (encode_f64_value x)" "is_double (encode_f64_value x)"
    "\<not> is_object (encode_f64_value x)" "\<not> is_native_value (encode_f64_value x)"
    "is_number (encode_f64_value x)"
proof -
  note u = encode_f64_range [OF assms]
  have "2 ^ 49 \<le> unat (encode_f64_value x)" and d: "is_double (encode_f64_value x)"
    using assms by (simp_all add: u is_double_iff)
  from tests_number [OF this(1)] d
  show "\<not> is_empty (encode_f64_value x)" "\<not> is_undefined (encode_f64_value x)"
    "\<not> is_null (encode_f64_value x)" "\<not> is_bool (encode_f64_value x)"
    "\<not> is_int32 (encode_f64_value x)" "is_double (encode_f64_value x)"
    "\<not> is_object (encode_f64_value x)" "\<not> is_native_value (encode_f64_value x)"
    "is_number (encode_f64_value x)"
    by (simp_all add: is_double_def)
qed

lemma tests_cell [simp]:
  assumes "cell_address p"
  shows "\<not> is_empty p" "\<not> is_undefined p" "\<not> is_null p" "\<not> is_bool p" "\<not> is_int32 p"
    "\<not> is_double p" "\<not> is_number p" "is_object p" "\<not> is_native_value p"
proof -
  have "p \<noteq> 0" "unat p < 2 ^ 49" using assms by (simp_all add: cell_address_def)
  then show "\<not> is_empty p" "\<not> is_undefined p" "\<not> is_null p" "\<not> is_bool p" "\<not> is_int32 p"
    "\<not> is_double p" "\<not> is_number p" "is_object p" "\<not> is_native_value p"
    using assms cell_not_immediate [OF assms]
    by (simp_all add: immediate_words is_object_iff is_number_iff is_int32_iff is_double_iff)
qed

lemma tests_native [simp]:
  "\<not> is_empty (encode_native_u32 n)" "\<not> is_undefined (encode_native_u32 n)"
  "\<not> is_null (encode_native_u32 n)" "\<not> is_bool (encode_native_u32 n)"
  "\<not> is_int32 (encode_native_u32 n)" "\<not> is_double (encode_native_u32 n)"
  "\<not> is_object (encode_native_u32 n)" "is_native_value (encode_native_u32 n)"
  "\<not> is_number (encode_native_u32 n)"
proof -
  have "encode_native_u32 n \<noteq> 0" "encode_native_u32 n \<noteq> 10" "encode_native_u32 n \<noteq> 2"
    "encode_native_u32 n \<noteq> 7" "encode_native_u32 n \<noteq> 6"
    using native_view(3) [of n] by auto
  then show "\<not> is_empty (encode_native_u32 n)" "\<not> is_undefined (encode_native_u32 n)"
    "\<not> is_null (encode_native_u32 n)" "\<not> is_bool (encode_native_u32 n)"
    "\<not> is_int32 (encode_native_u32 n)" "\<not> is_double (encode_native_u32 n)"
    "\<not> is_object (encode_native_u32 n)" "is_native_value (encode_native_u32 n)"
    "\<not> is_number (encode_native_u32 n)"
    using native_view [of n]
    by (simp_all add: immediate_words is_object_iff is_number_iff is_int32_iff is_double_iff
        cell_address_def)
qed

lemma encode_bool_words: "encode_bool_value b = (if b then 7 else 6)"
  by (simp add: immediates)

lemma get_encoded [simp]:
  "get_int32 (encode_int32 i) = i"
  "unat x < 0xfffc000000000000 \<Longrightarrow> get_double (encode_f64_value x) = Some x"
  "cell_address p \<Longrightarrow> get_object p = Some p"
  "get_native_u32 (encode_native_u32 n) = n"
  by (simp_all add: get_int32_encode get_native_encode get_double_def get_object_def)
    (simp add: encode_f64_value_def)

lemma get_number_encoded [simp]:
  "get_number (encode_int32 i) = Some (f64_of_int (sint i))"
  "unat x < 0xfffc000000000000 \<Longrightarrow> get_number (encode_f64_value x) = Some x"
  by (simp_all add: get_number_def)

text \<open>
  C28. The type tests of a value are exact: for every abstract value the engine boxes (any
  primitive, any double whose pattern is below the int32 tag once shifted, any cell address) each
  test answers yes on the encoding precisely when the abstract value has that constructor.
\<close>

theorem value_tests_exact:
  assumes "boxable w"
  shows "(is_empty (encode_view w) \<longleftrightarrow> w = V_Empty)
    \<and> (is_undefined (encode_view w) \<longleftrightarrow> w = V_Undefined)
    \<and> (is_null (encode_view w) \<longleftrightarrow> w = V_Null)
    \<and> (is_bool (encode_view w) \<longleftrightarrow> (\<exists>b. w = V_Bool b))
    \<and> (is_int32 (encode_view w) \<longleftrightarrow> (\<exists>i. w = V_Int32 i))
    \<and> (is_double (encode_view w) \<longleftrightarrow> (\<exists>x. w = V_Double x))
    \<and> (is_object (encode_view w) \<longleftrightarrow> (\<exists>p. w = V_Object p))
    \<and> (is_native_value (encode_view w) \<longleftrightarrow> (\<exists>n. w = V_Native n))"
  using assms
  by (cases w) (simp_all add: immediates encode_bool_words immediate_words encode_object_value_def
      tests_cell [unfolded immediate_words] tests_int32 [unfolded immediate_words]
      tests_double [unfolded immediate_words] tests_native [unfolded immediate_words])

theorem value_tests_exact_witness:
  "is_object (encode_view (V_Object 4096)) \<and> \<not> is_double (encode_view (V_Object 4096))"
  using value_tests_exact [of "V_Object 4096"]
  by (simp add: cell_address_def bit_word_unat)

text \<open>
  C27. Boxing loses nothing: decoding the word that encodes an abstract value gives that value
  back, so the encodings of two different values differ.
\<close>

theorem value_roundtrip:
  assumes "boxable w"
  shows "value_of (encode_view w) = Some w"
proof (cases w)
  case (V_Double x)
  then show ?thesis using assms by (simp add: value_of_def)
next
  case (V_Object p)
  then show ?thesis using assms by (simp add: value_of_def encode_object_value_def)
qed (auto simp: value_of_def immediates encode_bool_words immediate_words get_bool_def
    tests_int32 [unfolded immediate_words] tests_native [unfolded immediate_words])

theorem value_roundtrip_witness:
  "value_of (encode_view (V_Double 0xfff0000000000000)) = Some (V_Double 0xfff0000000000000)"
  by (rule value_roundtrip) simp

lemma purify_nan_simp: "purify_nan x = (if f64_is_nan x then pure_nan else x)"
  by (simp add: purify_nan_def)

text \<open>
  Converting any float to a value is sound: the result is a double, and reading it back gives
  the same float, except that every NaN becomes the one canonical NaN.
\<close>

theorem from_f64_sound:
  "is_double (from_f64 x) \<and> get_number (from_f64 x) = Some (if f64_is_nan x then pure_nan else x)"
  using purify_nan_range [of x]
  by (simp add: from_f64_def encode_untrusted_f64_value_def purify_nan_simp)

lemma sint_u32_cases: "sint (x :: u32) = (if uint x < 2 ^ 31 then uint x else uint x - 2 ^ 32)"
proof -
  have u: "0 \<le> uint x" "uint x < 2 ^ 32"
    using uint_lt2p [of x] by simp_all
  have "sint x = (uint x + 2 ^ 31) mod 2 ^ 32 - 2 ^ 31"
    by (simp add: sint_uint signed_take_bit_eq_take_bit_shift take_bit_eq_mod)
  also have "\<dots> = (if uint x < 2 ^ 31 then uint x else uint x - 2 ^ 32)"
  proof (cases "uint x < 2 ^ 31")
    case True
    then show ?thesis using u by simp
  next
    case False
    have "(uint x + 2 ^ 31) mod 2 ^ 32 = (uint x + 2 ^ 31 - 2 ^ 32) mod 2 ^ 32"
      by (rule minus_mod_self2 [symmetric])
    also have "\<dots> = uint x + 2 ^ 31 - 2 ^ 32"
      using u False by (intro mod_pos_pos_trivial) simp_all
    finally show ?thesis using False by simp
  qed
  finally show ?thesis .
qed

text \<open>
  Converting a \<open>u32\<close> to a value always stores an int32, because the test
  \<open>x as i32 as u32 == x\<close> holds for every \<open>x\<close>: from \<open>2 ^ 31\<close> on, the number read back is
  \<open>x - 2 ^ 32\<close> and not \<open>x\<close>.
\<close>

theorem from_u32_reads_signed:
  "is_int32 (from_u32 x) \<and>
   get_number (from_u32 x) = Some (f64_of_int (if uint x < 2 ^ 31 then uint x else uint x - 2 ^ 32))"
  by (simp add: from_u32_def sint_u32_cases)

text \<open>
  \<open>is_impure_nan\<close> does not describe the NaNs the encoding cannot hold: the shift is \<open>2 ^ 49\<close>,
  so the patterns from \<open>0xfffc000000000000\<close> on, which the test accepts, already read as int32.
\<close>

theorem impure_nan_test_too_weak:
  "\<not> is_impure_nan 0xfffc000000000000 \<and> f64_is_nan 0xfffc000000000000 \<and>
   is_int32 (encode_f64_value 0xfffc000000000000)"
  by (simp add: is_impure_nan_def f64_is_nan_def f64_exponent_def f64_mantissa_def is_int32_iff
      encode_f64_value_def DOUBLE_ENCODE_OFFSET_def)

end
