(* ===== verification/Attributes.thy ===== *)
theory Attributes
  imports Starlight_Prelude
begin

text \<open>
  Property attributes (vm/attributes.rs): a 32-bit set of flags, with one bit for each attribute
  (writable, enumerable, configurable), one for each kind of property (data, accessor, empty) and
  one \<open>UNDEF\<close> bit for each field a property descriptor may leave absent. \<open>AttrExternal\<close> and
  \<open>AttrSafe\<close> are one-field wrappers of the raw word and are modelled by the word itself; what
  distinguishes an \<open>AttrSafe\<close> is that \<open>attr_safe_new\<close> has removed the \<open>UNDEF\<close> bits.
\<close>

type_synonym attr_external = u32
type_synonym attr_safe = u32

definition NONE :: u32 where "NONE = 0"
definition WRITABLE :: u32 where "WRITABLE = 1"
definition ENUMERABLE :: u32 where "ENUMERABLE = 2"
definition CONFIGURABLE :: u32 where "CONFIGURABLE = 4"
definition DATA :: u32 where "DATA = 8"
definition ACCESSOR :: u32 where "ACCESSOR = 16"
definition EMPTY :: u32 where "EMPTY = 32"
definition UNDEF_WRITABLE :: u32 where "UNDEF_WRITABLE = 64"
definition UNDEF_ENUMERABLE :: u32 where "UNDEF_ENUMERABLE = 128"
definition UNDEF_CONFIGURABLE :: u32 where "UNDEF_CONFIGURABLE = 256"
definition UNDEF_VALUE :: u32 where "UNDEF_VALUE = 512"
definition UNDEF_GETTER :: u32 where "UNDEF_GETTER = 1024"
definition UNDEF_SETTER :: u32 where "UNDEF_SETTER = 2048"

definition TYPE_MASK :: u32 where "TYPE_MASK = DATA OR ACCESSOR"
definition DEFAULT :: u32 where
  "DEFAULT = UNDEF_WRITABLE OR UNDEF_ENUMERABLE OR UNDEF_CONFIGURABLE OR
     UNDEF_VALUE OR UNDEF_GETTER OR UNDEF_SETTER"
definition UNDEFS :: u32 where "UNDEFS = EMPTY OR DEFAULT"

lemmas attr_const_defs = NONE_def WRITABLE_def ENUMERABLE_def CONFIGURABLE_def DATA_def
  ACCESSOR_def EMPTY_def UNDEF_WRITABLE_def UNDEF_ENUMERABLE_def UNDEF_CONFIGURABLE_def
  UNDEF_VALUE_def UNDEF_GETTER_def UNDEF_SETTER_def TYPE_MASK_def DEFAULT_def UNDEFS_def

definition is_stored :: "u32 \<Rightarrow> bool" where
  "is_stored attrs =
     (if attrs AND UNDEFS \<noteq> 0 then False
      else if attrs AND DATA \<noteq> 0 then attrs AND ACCESSOR = 0
      else if attrs AND ACCESSOR \<noteq> 0 then attrs AND WRITABLE = 0
      else False)"

definition remove_undefs :: "u32 \<Rightarrow> u32" where
  "remove_undefs attrs = attrs AND NOT UNDEFS"

section \<open>AttrExternal\<close>

definition attr_external_new :: "u32 option \<Rightarrow> attr_external" where
  "attr_external_new attrs = (case attrs of None \<Rightarrow> NONE | Some a \<Rightarrow> a)"

definition attr_ty :: "attr_external \<Rightarrow> u32" where
  "attr_ty raw = raw AND TYPE_MASK"

definition is_enumerable :: "attr_external \<Rightarrow> bool" where
  "is_enumerable raw = (raw AND ENUMERABLE \<noteq> 0)"
definition is_enumerable_absent :: "attr_external \<Rightarrow> bool" where
  "is_enumerable_absent raw = (raw AND UNDEF_ENUMERABLE \<noteq> 0)"
definition set_enumerable :: "bool \<Rightarrow> attr_external \<Rightarrow> attr_external" where
  "set_enumerable val raw =
     (if val then (raw AND NOT UNDEF_ENUMERABLE) OR ENUMERABLE
      else (raw AND NOT UNDEF_ENUMERABLE) AND NOT ENUMERABLE)"

definition is_configurable :: "attr_external \<Rightarrow> bool" where
  "is_configurable raw = (raw AND CONFIGURABLE \<noteq> 0)"
definition is_configurable_absent :: "attr_external \<Rightarrow> bool" where
  "is_configurable_absent raw = (raw AND UNDEF_CONFIGURABLE \<noteq> 0)"
definition set_configurable :: "bool \<Rightarrow> attr_external \<Rightarrow> attr_external" where
  "set_configurable val raw =
     (if val then (raw AND NOT UNDEF_CONFIGURABLE) OR CONFIGURABLE
      else (raw AND NOT UNDEF_CONFIGURABLE) AND NOT CONFIGURABLE)"

definition is_writable :: "attr_external \<Rightarrow> bool" where
  "is_writable raw = (raw AND WRITABLE \<noteq> 0)"
definition is_writable_absent :: "attr_external \<Rightarrow> bool" where
  "is_writable_absent raw = (raw AND UNDEF_WRITABLE \<noteq> 0)"
definition set_writable :: "bool \<Rightarrow> attr_external \<Rightarrow> attr_external" where
  "set_writable val raw =
     (if val then (raw AND NOT UNDEF_WRITABLE) OR WRITABLE
      else (raw AND NOT UNDEF_WRITABLE) AND NOT WRITABLE)"

definition is_accessor :: "attr_external \<Rightarrow> bool" where
  "is_accessor raw = (raw AND ACCESSOR \<noteq> 0)"
definition set_accessor :: "attr_external \<Rightarrow> attr_external" where
  "set_accessor raw = (raw AND NOT (DATA OR WRITABLE)) OR ACCESSOR"

definition is_data :: "attr_external \<Rightarrow> bool" where
  "is_data raw = (raw AND DATA \<noteq> 0)"
definition set_data :: "attr_external \<Rightarrow> attr_external" where
  "set_data raw = (raw AND NOT ACCESSOR) OR DATA"

definition is_generic :: "attr_external \<Rightarrow> bool" where
  "is_generic raw = (raw AND (DATA OR ACCESSOR OR EMPTY) = 0)"
definition is_empty_attr :: "attr_external \<Rightarrow> bool" where
  "is_empty_attr raw = (raw AND EMPTY \<noteq> 0)"
definition is_value_absent :: "attr_external \<Rightarrow> bool" where
  "is_value_absent raw = (raw AND UNDEF_VALUE \<noteq> 0)"
definition is_getter_absent :: "attr_external \<Rightarrow> bool" where
  "is_getter_absent raw = (raw AND UNDEF_GETTER \<noteq> 0)"
definition is_setter_absent :: "attr_external \<Rightarrow> bool" where
  "is_setter_absent raw = (raw AND UNDEF_SETTER \<noteq> 0)"
definition is_absent :: "attr_external \<Rightarrow> bool" where
  "is_absent raw = (is_configurable_absent raw \<and> is_enumerable_absent raw \<and> is_generic raw)"
definition is_default :: "attr_external \<Rightarrow> bool" where
  "is_default raw =
     (let def = CONFIGURABLE OR ENUMERABLE OR DATA OR WRITABLE in raw AND def = def)"

definition fill_enumerable_and_configurable :: "attr_external \<Rightarrow> attr_external" where
  "fill_enumerable_and_configurable raw =
     (let raw1 = (if is_configurable_absent raw then raw AND NOT UNDEF_CONFIGURABLE else raw)
      in if is_enumerable_absent raw1 then raw1 AND NOT UNDEF_ENUMERABLE else raw1)"

section \<open>AttrSafe\<close>

definition attr_safe_new :: "u32 \<Rightarrow> attr_safe" where
  "attr_safe_new attr = attr_external_new (Some (remove_undefs attr))"
definition attr_not_found :: attr_safe where
  "attr_not_found = attr_external_new None"
definition is_simple_data :: "attr_safe \<Rightarrow> bool" where
  "is_simple_data raw = (let value = DATA OR WRITABLE in raw AND value = value)"
definition attr_un_safe :: "attr_external \<Rightarrow> attr_safe" where
  "attr_un_safe attr = attr_safe_new attr"
definition is_not_found :: "attr_safe \<Rightarrow> bool" where
  "is_not_found raw = (raw = NONE)"

definition create_data :: "attr_external \<Rightarrow> attr_safe" where
  "create_data attrs =
     (let a1 = fill_enumerable_and_configurable attrs;
          a2 = set_data a1;
          a3 = (if is_writable_absent a2 then set_writable False a2 else a2)
      in attr_safe_new a3)"

definition create_accessor :: "attr_external \<Rightarrow> attr_safe" where
  "create_accessor attrs =
     (let a1 = fill_enumerable_and_configurable attrs;
          a2 = set_accessor a1
      in attr_safe_new a2)"

definition object_data :: attr_safe where
  "object_data = create_data (attr_external_new (Some (WRITABLE OR ENUMERABLE OR CONFIGURABLE)))"
definition object_accessor :: attr_safe where
  "object_accessor = create_accessor (attr_external_new (Some (ENUMERABLE OR CONFIGURABLE)))"
definition string_length :: attr_safe where
  "string_length = create_data (attr_external_new None)"
definition string_indexed :: attr_safe where
  "string_indexed = create_data (attr_external_new (Some ENUMERABLE))"

section \<open>The flags, bit by bit\<close>

lemma flag_const_bits [flag_bits]:
  "bit NONE n \<longleftrightarrow> False"
  "bit WRITABLE n \<longleftrightarrow> n = 0"
  "bit ENUMERABLE n \<longleftrightarrow> n = 1"
  "bit CONFIGURABLE n \<longleftrightarrow> n = 2"
  "bit DATA n \<longleftrightarrow> n = 3"
  "bit ACCESSOR n \<longleftrightarrow> n = 4"
  "bit EMPTY n \<longleftrightarrow> n = 5"
  "bit UNDEF_WRITABLE n \<longleftrightarrow> n = 6"
  "bit UNDEF_ENUMERABLE n \<longleftrightarrow> n = 7"
  "bit UNDEF_CONFIGURABLE n \<longleftrightarrow> n = 8"
  "bit UNDEF_VALUE n \<longleftrightarrow> n = 9"
  "bit UNDEF_GETTER n \<longleftrightarrow> n = 10"
  "bit UNDEF_SETTER n \<longleftrightarrow> n = 11"
proof -
  have e: "bit ((2::u32) ^ m) n \<longleftrightarrow> n = m" if "m < 32" for m
    using that by (auto simp: bit_exp_iff possible_bit_word)
  show "bit NONE n \<longleftrightarrow> False" "bit WRITABLE n \<longleftrightarrow> n = 0" "bit ENUMERABLE n \<longleftrightarrow> n = 1"
    "bit CONFIGURABLE n \<longleftrightarrow> n = 2" "bit DATA n \<longleftrightarrow> n = 3" "bit ACCESSOR n \<longleftrightarrow> n = 4"
    "bit EMPTY n \<longleftrightarrow> n = 5" "bit UNDEF_WRITABLE n \<longleftrightarrow> n = 6"
    "bit UNDEF_ENUMERABLE n \<longleftrightarrow> n = 7" "bit UNDEF_CONFIGURABLE n \<longleftrightarrow> n = 8"
    "bit UNDEF_VALUE n \<longleftrightarrow> n = 9" "bit UNDEF_GETTER n \<longleftrightarrow> n = 10"
    "bit UNDEF_SETTER n \<longleftrightarrow> n = 11"
    using e [of 0] e [of 1] e [of 2] e [of 3] e [of 4] e [of 5] e [of 6] e [of 7] e [of 8]
      e [of 9] e [of 10] e [of 11]
    unfolding NONE_def WRITABLE_def ENUMERABLE_def CONFIGURABLE_def DATA_def ACCESSOR_def
      EMPTY_def UNDEF_WRITABLE_def UNDEF_ENUMERABLE_def UNDEF_CONFIGURABLE_def UNDEF_VALUE_def
      UNDEF_GETTER_def UNDEF_SETTER_def
    by simp_all
qed

lemma and_flag_nonzero:
  "(w :: u32) AND WRITABLE \<noteq> 0 \<longleftrightarrow> bit w 0"
  "w AND ENUMERABLE \<noteq> 0 \<longleftrightarrow> bit w 1"
  "w AND CONFIGURABLE \<noteq> 0 \<longleftrightarrow> bit w 2"
  "w AND DATA \<noteq> 0 \<longleftrightarrow> bit w 3"
  "w AND ACCESSOR \<noteq> 0 \<longleftrightarrow> bit w 4"
  "w AND EMPTY \<noteq> 0 \<longleftrightarrow> bit w 5"
  "w AND UNDEF_WRITABLE \<noteq> 0 \<longleftrightarrow> bit w 6"
  "w AND UNDEF_ENUMERABLE \<noteq> 0 \<longleftrightarrow> bit w 7"
  "w AND UNDEF_CONFIGURABLE \<noteq> 0 \<longleftrightarrow> bit w 8"
  "w AND UNDEF_VALUE \<noteq> 0 \<longleftrightarrow> bit w 9"
  "w AND UNDEF_GETTER \<noteq> 0 \<longleftrightarrow> bit w 10"
  "w AND UNDEF_SETTER \<noteq> 0 \<longleftrightarrow> bit w 11"
  using and_flag_eq_0 [of w 0] and_flag_eq_0 [of w 1] and_flag_eq_0 [of w 2]
    and_flag_eq_0 [of w 3] and_flag_eq_0 [of w 4] and_flag_eq_0 [of w 5] and_flag_eq_0 [of w 6]
    and_flag_eq_0 [of w 7] and_flag_eq_0 [of w 8] and_flag_eq_0 [of w 9] and_flag_eq_0 [of w 10]
    and_flag_eq_0 [of w 11]
  by (simp_all add: attr_const_defs)

lemma flag_tests [flag_simps]:
  "is_writable raw \<longleftrightarrow> bit raw 0"
  "is_enumerable raw \<longleftrightarrow> bit raw 1"
  "is_configurable raw \<longleftrightarrow> bit raw 2"
  "is_data raw \<longleftrightarrow> bit raw 3"
  "is_accessor raw \<longleftrightarrow> bit raw 4"
  "is_empty_attr raw \<longleftrightarrow> bit raw 5"
  "is_writable_absent raw \<longleftrightarrow> bit raw 6"
  "is_enumerable_absent raw \<longleftrightarrow> bit raw 7"
  "is_configurable_absent raw \<longleftrightarrow> bit raw 8"
  "is_value_absent raw \<longleftrightarrow> bit raw 9"
  "is_getter_absent raw \<longleftrightarrow> bit raw 10"
  "is_setter_absent raw \<longleftrightarrow> bit raw 11"
  by (simp_all only: is_writable_def is_enumerable_def is_configurable_def is_data_def
      is_accessor_def is_empty_attr_def is_writable_absent_def is_enumerable_absent_def
      is_configurable_absent_def is_value_absent_def is_getter_absent_def is_setter_absent_def
      and_flag_nonzero)

lemma flag_masks [flag_simps]:
  "is_generic raw \<longleftrightarrow> \<not> bit raw 3 \<and> \<not> bit raw 4 \<and> \<not> bit raw 5"
  "is_default raw \<longleftrightarrow> bit raw 0 \<and> bit raw 1 \<and> bit raw 2 \<and> bit raw 3"
  "is_simple_data raw \<longleftrightarrow> bit raw 0 \<and> bit raw 3"
  "is_absent raw \<longleftrightarrow> bit raw 8 \<and> bit raw 7 \<and> \<not> bit raw 3 \<and> \<not> bit raw 4 \<and> \<not> bit raw 5"
proof -
  show g: "is_generic raw \<longleftrightarrow> \<not> bit raw 3 \<and> \<not> bit raw 4 \<and> \<not> bit raw 5"
    unfolding is_generic_def bit.conj_disj_distrib or_eq_0_iff
    using and_flag_nonzero [of raw] by blast
  show "is_default raw \<longleftrightarrow> bit raw 0 \<and> bit raw 1 \<and> bit raw 2 \<and> bit raw 3"
    unfolding is_default_def Let_def and_eq_mask_iff bit_or_iff flag_bits by auto
  show "is_simple_data raw \<longleftrightarrow> bit raw 0 \<and> bit raw 3"
    unfolding is_simple_data_def Let_def and_eq_mask_iff bit_or_iff flag_bits by auto
  show "is_absent raw \<longleftrightarrow>
      bit raw 8 \<and> bit raw 7 \<and> \<not> bit raw 3 \<and> \<not> bit raw 4 \<and> \<not> bit raw 5"
    by (simp add: is_absent_def g flag_tests)
qed

lemmas attr_bit_ops = bit_and_iff bit_or_iff bit_not_iff possible_bit_word flag_bits

lemma flag_updates [flag_simps]:
  "bit (set_writable v raw) n \<longleftrightarrow> (if n = 0 then v else n \<noteq> 6 \<and> bit raw n)"
  "bit (set_enumerable v raw) n \<longleftrightarrow> (if n = 1 then v else n \<noteq> 7 \<and> bit raw n)"
  "bit (set_configurable v raw) n \<longleftrightarrow> (if n = 2 then v else n \<noteq> 8 \<and> bit raw n)"
  "bit (set_data raw) n \<longleftrightarrow> n = 3 \<or> n \<noteq> 4 \<and> bit raw n"
  "bit (set_accessor raw) n \<longleftrightarrow> n = 4 \<or> n \<noteq> 0 \<and> n \<noteq> 3 \<and> bit raw n"
  "bit (remove_undefs raw) n \<longleftrightarrow> (n < 5 \<or> 11 < n) \<and> bit raw n"
  "bit (fill_enumerable_and_configurable raw) n \<longleftrightarrow> n \<noteq> 7 \<and> n \<noteq> 8 \<and> bit raw n"
  using bit_word_less [of raw n]
  by (auto simp: set_writable_def set_enumerable_def set_configurable_def set_data_def
      set_accessor_def remove_undefs_def UNDEFS_def DEFAULT_def flag_tests attr_bit_ops
      fill_enumerable_and_configurable_def Let_def)

lemma flag_wrappers [flag_simps]:
  "bit (attr_safe_new raw) n \<longleftrightarrow> (n < 5 \<or> 11 < n) \<and> bit raw n"
  "bit (attr_un_safe raw) n \<longleftrightarrow> (n < 5 \<or> 11 < n) \<and> bit raw n"
  "attr_external_new (Some a) = a"
  "attr_external_new None = 0"
  "attr_not_found = 0"
  "is_not_found raw \<longleftrightarrow> raw = 0"
  by (simp_all add: attr_safe_new_def attr_un_safe_def attr_external_new_def flag_updates
      attr_not_found_def NONE_def is_not_found_def)

lemma create_bits [flag_simps]:
  "bit (create_data a) n \<longleftrightarrow>
     n = 3 \<or> (n = 0 \<and> bit a 0 \<and> \<not> bit a 6) \<or> ((n = 1 \<or> n = 2 \<or> 11 < n) \<and> bit a n)"
  "bit (create_accessor a) n \<longleftrightarrow> n = 4 \<or> ((n = 1 \<or> n = 2 \<or> 11 < n) \<and> bit a n)"
proof -
  have lt5: "n < 5 \<longleftrightarrow> n = 0 \<or> n = 1 \<or> n = 2 \<or> n = 3 \<or> n = 4" for n :: nat by auto
  show "bit (create_data a) n \<longleftrightarrow>
     n = 3 \<or> (n = 0 \<and> bit a 0 \<and> \<not> bit a 6) \<or> ((n = 1 \<or> n = 2 \<or> 11 < n) \<and> bit a n)"
    by (auto simp: create_data_def Let_def flag_tests flag_updates flag_wrappers lt5)
  show "bit (create_accessor a) n \<longleftrightarrow> n = 4 \<or> ((n = 1 \<or> n = 2 \<or> 11 < n) \<and> bit a n)"
    by (auto simp: create_accessor_def Let_def flag_tests flag_updates flag_wrappers lt5)
qed

lemma is_stored_iff:
  "is_stored a \<longleftrightarrow> (\<forall>n \<in> {5..11}. \<not> bit a n) \<and> (bit a 3 \<noteq> bit a 4) \<and> (bit a 4 \<longrightarrow> \<not> bit a 0)"
proof -
  have "a AND UNDEFS \<noteq> 0 \<longleftrightarrow> (\<exists>n \<in> {5..11}. bit a n)"
  proof -
    have "a AND UNDEFS \<noteq> 0 \<longleftrightarrow> (\<exists>n. bit (a AND UNDEFS) n)"
      by (metis bit_eqI bit_0_eq bot_apply bot_bool_def)
    also have "\<dots> \<longleftrightarrow> (\<exists>n. bit a n \<and> n \<in> {5..11})"
      by (intro ex_cong1) (auto simp: bit_and_iff bit_or_iff UNDEFS_def DEFAULT_def flag_bits)
    finally show ?thesis by blast
  qed
  then show ?thesis
    using and_flag_nonzero [of a] unfolding is_stored_def by (simp split: if_split) blast
qed

end
