(* ===== verification/Cells.thy ===== *)
theory Cells
  imports Js_Value Attributes
begin

text \<open>
  The part of the heap a JavaScript value can point to, and the value operations that look through
  a pointer (vm/value.rs). A cell is reached by its address; the collector's type test
  \<open>is::<T>()\<close> is whether the address is in the map of cells of that type. \<open>next_cell\<close> counts the
  cells allocated so far: the allocator is represented by its contract only, that the \<open>n\<close>-th cell
  gets a fresh, non-null, 16-byte aligned address (theory \<open>Gc_Block\<close> models how blocks hand
  such addresses out). A JavaScript exception is the value thrown; an error object the engine
  itself creates is represented by its class and message.
\<close>

datatype symbol = Key u32 | Private u32 | Index u32

record accessor =
  getter :: js_value
  setter :: js_value

record cells =
  jsstrings :: "u64 \<Rightarrow> string option"
  jssymbols :: "u64 \<Rightarrow> symbol option"
  accessors :: "u64 \<Rightarrow> accessor option"
  next_cell :: nat

datatype js_throw = TypeError string | Thrown js_value

definition empty_cells :: cells where
  "empty_cells = \<lparr>jsstrings = (\<lambda>_. None), jssymbols = (\<lambda>_. None), accessors = (\<lambda>_. None),
     next_cell = 0\<rparr>"

definition cell_addr :: "nat \<Rightarrow> u64" where
  "cell_addr n = word_of_nat (16 * (n + 1))"

definition is_jsstring :: "'a cells_scheme \<Rightarrow> js_value \<Rightarrow> bool" where
  "is_jsstring h v = (is_object v \<and> jsstrings h v \<noteq> None)"
definition is_symbol :: "'a cells_scheme \<Rightarrow> js_value \<Rightarrow> bool" where
  "is_symbol h v = (is_object v \<and> jssymbols h v \<noteq> None)"

text \<open>\<open>get_number\<close> asserts that a non-int32 is a double; the callers test \<open>is_number\<close> first.\<close>

definition number_of :: "js_value \<Rightarrow> f64" where
  "number_of v = (case get_number v of Some x \<Rightarrow> x | None \<Rightarrow> 0)"

definition CMP_FALSE :: int where "CMP_FALSE = 0"
definition CMP_TRUE :: int where "CMP_TRUE = 1"
definition CMP_UNDEF :: int where "CMP_UNDEF = -1"

definition number_compare :: "f64 \<Rightarrow> f64 \<Rightarrow> int" where
  "number_compare x y =
     (if f64_is_nan x \<or> f64_is_nan y then CMP_UNDEF
      else if f64_eq x y then CMP_FALSE
      else if f64_less x y then CMP_TRUE else CMP_FALSE)"

text \<open>\<open>slow_string_cmp\<close> in \<open>JsValue::compare\<close>; its \<open>unreachable!()\<close> is \<^term>\<open>None\<close>.\<close>

fun starts_with :: "string \<Rightarrow> string \<Rightarrow> bool" where
  "starts_with xs [] = True"
| "starts_with [] (y # ys) = False"
| "starts_with (x # xs) (y # ys) = (x = y \<and> starts_with xs ys)"

definition char_less :: "char \<Rightarrow> char \<Rightarrow> bool" where
  "char_less c d = ((of_char c :: nat) < of_char d)"

fun zip_cmp :: "(char \<times> char) list \<Rightarrow> int panics" where
  "zip_cmp [] = None"
| "zip_cmp ((x, y) # ps) =
     (if x \<noteq> y then Some (if char_less x y then CMP_TRUE else CMP_FALSE) else zip_cmp ps)"

definition slow_string_cmp :: "string \<Rightarrow> string \<Rightarrow> int panics" where
  "slow_string_cmp x y =
     (if starts_with x y then Some CMP_FALSE
      else if starts_with y x then Some CMP_TRUE
      else zip_cmp (zip x y))"

definition same_value_impl :: "'a cells_scheme \<Rightarrow> js_value \<Rightarrow> js_value \<Rightarrow> bool \<Rightarrow> bool" where
  "same_value_impl h lhs rhs zero =
     (if is_number lhs then
        (if \<not> is_number rhs then False
         else let lhsn = number_of lhs; rhsn = number_of rhs in
           if f64_eq lhsn rhsn then True else f64_is_nan lhsn \<and> f64_is_nan rhsn)
      else if \<not> is_object lhs \<or> \<not> is_object rhs then lhs = rhs
      else if is_object lhs \<and> is_object rhs \<and> jsstrings h lhs \<noteq> None \<and> jsstrings h rhs \<noteq> None
        then jsstrings h lhs = jsstrings h rhs
      else lhs = rhs)"
definition same_value :: "'a cells_scheme \<Rightarrow> js_value \<Rightarrow> js_value \<Rightarrow> bool" where
  "same_value h x y = same_value_impl h x y False"
definition same_value_zero :: "'a cells_scheme \<Rightarrow> js_value \<Rightarrow> js_value \<Rightarrow> bool" where
  "same_value_zero h lhs rhs = same_value_impl h lhs rhs True"

definition strict_equal :: "'a cells_scheme \<Rightarrow> js_value \<Rightarrow> js_value \<Rightarrow> bool" where
  "strict_equal h self other =
     (if is_number self \<and> is_number other then f64_eq (number_of self) (number_of other)
      else if \<not> is_object self \<or> \<not> is_object other then self = other
      else if is_jsstring h self \<and> is_jsstring h other
        then jsstrings h self = jsstrings h other
      else self = other)"

definition to_boolean :: "'a cells_scheme \<Rightarrow> js_value \<Rightarrow> bool" where
  "to_boolean h v =
     (if is_number v then let num = number_of v in \<not> f64_eq num 0 \<and> \<not> f64_is_nan num
      else if is_jsstring h v then jsstrings h v \<noteq> Some []
      else if is_null v \<or> is_undefined v then False
      else if is_bool v then get_bool v = Some True
      else True)"

definition is_primitive :: "'a cells_scheme \<Rightarrow> js_value \<Rightarrow> bool" where
  "is_primitive h v =
     (is_number v \<or> is_bool v \<or> is_object v \<and> jsstrings h v \<noteq> None
      \<or> is_object v \<and> jssymbols h v \<noteq> None)"

definition check_object_coercible :: "js_value \<Rightarrow> js_throw + unit" where
  "check_object_coercible v =
     (if is_null v \<or> is_undefined v then Inl (TypeError ''null or undefined has no properties'')
      else Inr ())"

text \<open>What \<open>HashValueZero\<close> feeds to the hasher: the type of the hashed data matters as well.\<close>

datatype hash_input = Hash_I32 u32 | Hash_Bits u64 | Hash_Str string | Hash_Raw u64

definition hash_value_zero :: "'a cells_scheme \<Rightarrow> js_value \<Rightarrow> hash_input" where
  "hash_value_zero h v =
     (if is_int32 v then Hash_I32 (get_int32 v)
      else if is_number v then
        (let d = number_of v in
         if f64_is_nan d then Hash_Bits 0x7ff8000000000000
         else if f64_eq d 0 then Hash_I32 0
         else Hash_Bits d)
      else if is_jsstring h v then
        (case jsstrings h v of Some s \<Rightarrow> Hash_Str s | None \<Rightarrow> Hash_Raw v)
      else Hash_Raw v)"

section \<open>Lemmas\<close>

lemma get_number_number: "is_number v \<Longrightarrow> get_number v \<noteq> None"
  by (simp add: get_number_def get_double_def is_double_def)

lemma same_value_refl [simp]: "same_value h v v"
  by (auto simp: same_value_def same_value_impl_def Let_def)

lemma same_value_impl_zero: "same_value_impl h x y z = same_value h x y"
  by (simp add: same_value_def same_value_impl_def)

lemma number_not_object: "is_number v \<Longrightarrow> \<not> is_object v"
  by (auto simp: is_number_iff is_object_iff cell_address_def)

lemma same_value_sym: "same_value h x y \<Longrightarrow> same_value h y x"
  by (auto simp: same_value_def same_value_impl_def Let_def f64_eq_sym number_not_object
      split: if_splits)

definition same_number :: "f64 \<Rightarrow> f64 \<Rightarrow> bool" where
  "same_number x y \<longleftrightarrow> f64_eq x y \<or> f64_is_nan x \<and> f64_is_nan y"

lemma same_number_trans: "same_number x y \<Longrightarrow> same_number y z \<Longrightarrow> same_number x z"
  using f64_eq_trans [of x y z] f64_eq_nan [of x y] f64_eq_nan [of y z]
  by (auto simp: same_number_def)

lemma same_value_cases:
  "same_value h x y \<longleftrightarrow>
    (if is_number x \<and> is_number y then same_number (number_of x) (number_of y)
     else if is_jsstring h x \<and> is_jsstring h y then jsstrings h x = jsstrings h y
     else x = y)"
  by (auto simp: same_value_def same_value_impl_def Let_def number_not_object same_number_def
      is_jsstring_def)

lemma number_not_string: "is_number v \<Longrightarrow> \<not> is_jsstring h v"
  by (simp add: is_jsstring_def number_not_object)

lemma same_value_trans: "same_value h x y \<Longrightarrow> same_value h y z \<Longrightarrow> same_value h x z"
  unfolding same_value_cases
  using number_not_string [of x h] number_not_string [of y h] number_not_string [of z h]
    same_number_trans [of "number_of x" "number_of y" "number_of z"]
  by (cases "is_number x"; cases "is_number y"; cases "is_number z";
      cases "is_jsstring h x"; cases "is_jsstring h y"; cases "is_jsstring h z") simp_all

text \<open>Two doubles that compare equal are the same bits, unless both are zeros.\<close>

lemma f64_eq_bits:
  assumes "f64_eq x y" "\<not> f64_eq x 0"
  shows "x = y"
proof -
  have z: "f64_key 0 = 0" "\<not> f64_is_nan 0"
    by (simp_all add: f64_key_def f64_magnitude_def f64_is_nan_def f64_exponent_def)
  then have k: "f64_key x = f64_key y" "f64_key x \<noteq> 0"
    using assms by (auto simp: f64_eq_def)
  then have m: "f64_magnitude x = f64_magnitude y" "f64_negative x = f64_negative y"
    by (auto simp: f64_key_def split: if_splits)
  have split: "unat w = (if f64_negative w then 2 ^ 63 else 0) + f64_magnitude w" for w :: f64
  proof (cases "f64_negative w")
    case True
    then have "2 ^ 63 \<le> unat w" by (simp add: f64_negative_def)
    moreover have "unat w < 2 ^ 64" using unat_bound [of w] by simp
    ultimately have "unat w mod 2 ^ 63 = unat w - 2 ^ 63"
      using mod_if [of "unat w - 2 ^ 63" "2 ^ 63"] le_mod_geq [of "2 ^ 63" "unat w"] by simp
    with True \<open>2 ^ 63 \<le> unat w\<close> show ?thesis by (simp add: f64_magnitude_def)
  qed (simp add: f64_negative_def f64_magnitude_def)
  have "unat x = unat y" using split [of x] split [of y] m by simp
  then show ?thesis by (simp add: word_unat_eq_iff)
qed

lemma number_of_int32: "is_int32 v \<Longrightarrow> number_of v = f64_of_int (sint (get_int32 v))"
  by (simp add: number_of_def get_number_def)

lemma number_of_double: "is_number v \<Longrightarrow> \<not> is_int32 v \<Longrightarrow> number_of v = v - DOUBLE_ENCODE_OFFSET"
  by (simp add: number_of_def get_number_def get_double_def is_double_def)

lemma int32_number: "is_int32 v \<Longrightarrow> is_number v"
  by (auto simp: is_int32_iff is_number_iff)

lemma sint_u32_small: "\<bar>sint (i :: u32)\<bar> < 2 ^ 53"
  using sint_u32_cases [of i] uint_lt2p [of i] uint_ge_0 [of i] by (simp split: if_splits)

lemma encode_view_number:
  "boxable w \<Longrightarrow> is_number (encode_view w) \<longleftrightarrow> (\<exists>i. w = V_Int32 i) \<or> (\<exists>x. w = V_Double x)"
  by (cases w) (simp_all add: immediates encode_bool_words encode_object_value_def)

lemma number_of_encoded [simp]:
  "number_of (encode_int32 i) = f64_of_int (sint i)"
  "unat x < 0xfffc000000000000 \<Longrightarrow> number_of (encode_f64_value x) = x"
  by (simp_all add: number_of_def)

lemma is_jsstring_encoded [simp]:
  "\<not> is_jsstring h (encode_int32 i)"
  "unat x < 0xfffc000000000000 \<Longrightarrow> \<not> is_jsstring h (encode_f64_value x)"
  "\<not> is_jsstring h (encode_native_u32 n)"
  "\<not> is_jsstring h 0" "\<not> is_jsstring h 2" "\<not> is_jsstring h 6" "\<not> is_jsstring h 7" "\<not> is_jsstring h 10"
  "cell_address p \<Longrightarrow> is_jsstring h p \<longleftrightarrow> jsstrings h p \<noteq> None"
  by (simp_all add: is_jsstring_def)

text \<open>A value is well formed when some boxable abstract value encodes to it.\<close>

definition valid_value :: "js_value \<Rightarrow> bool" where
  "valid_value v = (case value_of v of None \<Rightarrow> False | Some w \<Rightarrow> boxable w \<and> encode_view w = v)"

lemma valid_valueE:
  assumes "valid_value v"
  obtains w where "boxable w" "v = encode_view w"
  using assms by (auto simp: valid_value_def split: option.splits)

lemma valid_number_cases:
  assumes "valid_value v" "is_number v"
  obtains (int32) i where "v = encode_int32 i"
    | (double) x where "v = encode_f64_value x" "unat x < 0xfffc000000000000"
proof -
  obtain w where w: "boxable w" "v = encode_view w" using assms(1) by (rule valid_valueE)
  with assms(2) have "(\<exists>i. w = V_Int32 i) \<or> (\<exists>x. w = V_Double x)"
    using encode_view_number by blast
  with w show ?thesis using that by auto
qed

lemma f64_zero_of_int: "f64_of_int 0 = 0"
  by (simp add: f64_of_int_def f64_of_nat_def)

lemma to_boolean_int32: "to_boolean h (encode_int32 i) \<longleftrightarrow> i \<noteq> 0"
  using f64_eq_of_int [of "sint i" 0] sint_u32_small [of i] f64_of_int_facts(1) [of "sint i"]
  by (simp add: to_boolean_def Let_def f64_zero_of_int signed_eq_0_iff)

section \<open>Properties\<close>

text \<open>
  C29. SameValue is an equivalence relation on all words, whatever strings the heap holds.
\<close>

theorem same_value_equivalence: "equivp (same_value h)"
  by (rule equivpI)
    (auto intro!: reflpI sympI transpI intro: same_value_sym same_value_trans)


text \<open>
  \<open>HashValueZero\<close>, the key type of JavaScript maps and sets, keeps the contract of \<open>Hash\<close> and
  \<open>Eq\<close> between two int32 keys and between two keys that are not int32: equal keys feed the
  hasher the same data.
\<close>

theorem hash_agrees_on_one_representation:
  assumes "valid_value x" "valid_value y" "same_value_zero h x y" "is_int32 x = is_int32 y"
  shows "hash_value_zero h x = hash_value_zero h y"
proof (cases "is_number x \<and> is_number y")
  case True
  have sn: "same_number (number_of x) (number_of y)"
    using assms(3) True by (simp add: same_value_zero_def same_value_impl_zero same_value_cases)
  from assms(1) True have "is_number x" by simp
  with assms(1) show ?thesis
  proof (cases rule: valid_number_cases)
    case (int32 i)
    with assms(4) have "is_int32 y" by simp
    with assms(2) True obtain j where j: "y = encode_int32 j"
      by (metis valid_number_cases tests_double(5))
    have "sint i = sint j"
      using sn f64_eq_of_int [OF sint_u32_small sint_u32_small, of i j]
        f64_of_int_facts(1) [OF sint_u32_small] by (auto simp: int32 j same_number_def)
    then have "i = j" by (rule signed_word_eqI)
    then show ?thesis by (simp add: int32 j)
  next
    case (double a)
    with assms(4) have "\<not> is_int32 y" by simp
    with assms(2) True obtain b where b: "y = encode_f64_value b" "unat b < 0xfffc000000000000"
      by (metis valid_number_cases tests_int32(5))
    have "same_number a b" using sn double b by simp
    then show ?thesis
      using double b f64_eq_bits [of a b] f64_eq_nan [of a b] f64_eq_sym f64_eq_trans
      by (auto simp: hash_value_zero_def Let_def same_number_def)
  qed
next
  case False
  have sv: "same_value h x y"
    using assms(3) by (simp add: same_value_zero_def same_value_impl_zero)
  then have "x = y \<or> is_jsstring h x \<and> is_jsstring h y \<and> jsstrings h x = jsstrings h y"
    using False by (auto simp: same_value_cases split: if_splits)
  then show ?thesis
    using False number_not_string [of x h] number_not_string [of y h] int32_number [of x]
      int32_number [of y]
    by (auto simp: hash_value_zero_def is_jsstring_def)
qed

theorem hash_agrees_on_one_representation_witness:
  "hash_value_zero empty_cells (encode_f64_value 0) =
   hash_value_zero empty_cells (encode_f64_value 0x8000000000000000)"
  by (rule hash_agrees_on_one_representation)
    (simp_all add: valid_value_def value_of_def same_value_zero_def same_value_impl_zero
      same_value_cases same_number_def f64_eq_def f64_is_nan_def f64_exponent_def f64_mantissa_def
      f64_key_def f64_magnitude_def)

lemma f64_of_one: "f64_of_int 1 = 0x3ff0000000000000"
  by (simp add: f64_of_int_def f64_of_nat_def Let_def log2_nat.simps)

text \<open>
  Between the two representations of one number the contract fails: the int32 1 and the double
  1.0 are equal keys, and the hasher is fed different data for them.
\<close>

theorem hash_differs_across_representations:
  "same_value_zero h (encode_int32 1) (from_f64 0x3ff0000000000000) \<and>
   hash_value_zero h (encode_int32 1) \<noteq> hash_value_zero h (from_f64 0x3ff0000000000000)"
proof -
  have n: "\<not> f64_is_nan 0x3ff0000000000000"
    by (simp add: f64_is_nan_def f64_exponent_def)
  have v: "from_f64 0x3ff0000000000000 = encode_f64_value 0x3ff0000000000000"
    by (simp add: from_f64_def encode_untrusted_f64_value_def purify_nan_simp n)
  have z: "\<not> f64_eq 0x3ff0000000000000 0"
    by (simp add: f64_eq_def f64_key_def f64_magnitude_def f64_negative_def)
  show ?thesis
    by (simp add: v same_value_zero_def same_value_impl_zero same_value_cases same_number_def
        f64_of_one n hash_value_zero_def Let_def z)
qed

lemma starts_with_eq: "starts_with x y \<longleftrightarrow> (\<exists>z. x = y @ z)"
  by (induction x y rule: starts_with.induct) auto

lemma starts_with_irrefl_lexord:
  "starts_with x y \<Longrightarrow> (x, y) \<notin> lexord {(a, b). char_less a b}"
  by (induction x y rule: starts_with.induct) (auto simp: char_less_def)

lemma zip_cmp_lexord:
  "\<not> starts_with x y \<Longrightarrow> \<not> starts_with y x \<Longrightarrow>
   zip_cmp (zip x y) =
     Some (if (x, y) \<in> lexord {(a, b). char_less a b} then CMP_TRUE else CMP_FALSE)"
  by (induction x y rule: starts_with.induct) (auto simp: char_less_def)

text \<open>
  C31. The comparison of two strings by \<open>slow_string_cmp\<close> never reaches its \<open>unreachable!()\<close>, and
  answers \<open>CMP_TRUE\<close> exactly when the first string comes before the second in lexicographic order.
\<close>

theorem slow_string_cmp_lexicographic:
  "slow_string_cmp x y =
     Some (if (x, y) \<in> lexord {(a, b). char_less a b} then CMP_TRUE else CMP_FALSE)"
proof (cases "starts_with x y \<or> starts_with y x")
  case False
  then show ?thesis by (simp add: slow_string_cmp_def zip_cmp_lexord)
next
  case True
  show ?thesis
  proof (cases "starts_with x y")
    case True
    then show ?thesis by (simp add: slow_string_cmp_def starts_with_irrefl_lexord)
  next
    case False
    with \<open>starts_with x y \<or> starts_with y x\<close> obtain z where z: "y = x @ z"
      by (auto simp: starts_with_eq)
    with False have "z \<noteq> []" by (auto simp: starts_with_eq)
    then have "(x, y) \<in> lexord {(a, b). char_less a b}"
      by (auto simp: z neq_Nil_conv intro: lexord_append_rightI)
    with False z show ?thesis
      by (simp add: slow_string_cmp_def starts_with_eq)
  qed
qed

lemma zero_bits_iff: "f64_eq x 0 \<longleftrightarrow> \<not> f64_is_nan x \<and> f64_magnitude x = 0"
  by (auto simp: f64_eq_def f64_key_def f64_is_nan_def f64_exponent_def f64_mantissa_def
      f64_magnitude_def)

text \<open>
  \<open>ToBoolean\<close> is false for exactly the falsy values: undefined, null, false, the int32 0, a
  double that is zero of either sign or NaN, and the empty string.
\<close>

theorem to_boolean_falsy:
  assumes "boxable w"
  shows "\<not> to_boolean h (encode_view w) \<longleftrightarrow>
    w = V_Undefined \<or> w = V_Null \<or> w = V_Bool False \<or> w = V_Int32 0 \<or>
    (\<exists>x. w = V_Double x \<and> (f64_eq x 0 \<or> f64_is_nan x)) \<or>
    (\<exists>p. w = V_Object p \<and> jsstrings h p = Some [])"
proof (cases w)
  case (V_Int32 i)
  then show ?thesis by (simp add: to_boolean_int32)
next
  case (V_Double x)
  with assms show ?thesis by (auto simp: to_boolean_def Let_def)
next
  case (V_Object p)
  with assms show ?thesis
    by (auto simp: to_boolean_def encode_object_value_def)
qed (auto simp: to_boolean_def immediates encode_bool_words immediate_words get_bool_def
    tests_native [unfolded immediate_words])

theorem to_boolean_falsy_witness:
  "\<not> to_boolean empty_cells (encode_view (V_Double 0x8000000000000000))"
  using to_boolean_falsy [of "V_Double 0x8000000000000000" empty_cells]
  by (simp add: zero_bits_iff f64_is_nan_def f64_exponent_def f64_magnitude_def)

end
