(* ===== verification/Property.thy ===== *)
theory Property
  imports Cells
begin

text \<open>
  Property descriptors, stored properties and lookup slots (vm/property_descriptor.rs,
  vm/slot.rs). A descriptor is what \<open>defineProperty\<close> is asked for, with absent fields; a stored
  slot is the value and the attributes of an existing property; a lookup slot carries a stored
  slot out of a lookup, with the object it was found on and the offset of its value.

  An accessor property stores a pointer to an accessor cell, which \<open>merge\<close> updates in place: the
  operations take and return the heap. \<open>accessor()\<close> asserts the accessor flag and then reads the
  cell, so what calls it may panic (\<^term>\<open>None\<close>).
\<close>

section \<open>Descriptors\<close>

text \<open>The union \<open>PropertyLayout\<close>: reading the variant that was not written yields the bytes that
  are there, which the first word shares; the second word of a data layout was never written.\<close>

datatype property_layout = Layout_Data js_value | Layout_Accessors js_value js_value

record property_descriptor =
  desc_attrs :: attr_external
  desc_layout :: property_layout

definition data_descriptor :: "js_value \<Rightarrow> u32 \<Rightarrow> property_descriptor" where
  "data_descriptor val attrs =
     \<lparr>desc_attrs = attr_external_new (Some (attrs OR DATA OR UNDEF_GETTER OR UNDEF_SETTER)),
      desc_layout = Layout_Data val\<rparr>"
definition accessor_descriptor :: "js_value \<Rightarrow> js_value \<Rightarrow> u32 \<Rightarrow> property_descriptor" where
  "accessor_descriptor g s attrs =
     \<lparr>desc_attrs = attr_external_new (Some (attrs OR ACCESSOR OR UNDEF_VALUE OR UNDEF_WRITABLE)),
      desc_layout = Layout_Accessors g s\<rparr>"
definition accessor_setter :: "js_value \<Rightarrow> u32 \<Rightarrow> property_descriptor" where
  "accessor_setter s attrs =
     \<lparr>desc_attrs = attr_external_new
        (Some (attrs OR ACCESSOR OR UNDEF_VALUE OR UNDEF_SETTER OR UNDEF_WRITABLE)),
      desc_layout = Layout_Accessors encode_undefined_value s\<rparr>"
definition accessor_getter :: "js_value \<Rightarrow> u32 \<Rightarrow> property_descriptor" where
  "accessor_getter g attrs =
     \<lparr>desc_attrs = attr_external_new
        (Some (attrs OR ACCESSOR OR UNDEF_VALUE OR UNDEF_SETTER OR UNDEF_WRITABLE)),
      desc_layout = Layout_Accessors g encode_undefined_value\<rparr>"
definition generic_descriptor :: "u32 \<Rightarrow> property_descriptor" where
  "generic_descriptor attrs =
     \<lparr>desc_attrs = attr_external_new
        (Some (attrs OR UNDEF_VALUE OR UNDEF_GETTER OR UNDEF_SETTER OR UNDEF_WRITABLE)),
      desc_layout = Layout_Data encode_empty_value\<rparr>"
definition new_val :: "js_value \<Rightarrow> attr_safe \<Rightarrow> property_descriptor" where
  "new_val val attrs =
     \<lparr>desc_attrs = attr_external_new (Some attrs), desc_layout = Layout_Data val\<rparr>"
definition new_getter_setter :: "js_value \<Rightarrow> js_value \<Rightarrow> attr_safe \<Rightarrow> property_descriptor" where
  "new_getter_setter g s attrs =
     \<lparr>desc_attrs = attr_external_new (Some attrs), desc_layout = Layout_Accessors g s\<rparr>"

primrec layout_value :: "property_layout \<Rightarrow> js_value" where
  "layout_value (Layout_Data v) = v"
| "layout_value (Layout_Accessors g s) = g"
primrec layout_setter :: "property_layout \<Rightarrow> js_value" where
  "layout_setter (Layout_Data v) = encode_empty_value"
| "layout_setter (Layout_Accessors g s) = s"

definition desc_value :: "property_descriptor \<Rightarrow> js_value" where
  "desc_value d = layout_value (desc_layout d)"
definition desc_getter :: "property_descriptor \<Rightarrow> js_value" where
  "desc_getter d = layout_value (desc_layout d)"
definition desc_setter :: "property_descriptor \<Rightarrow> js_value" where
  "desc_setter d = layout_setter (desc_layout d)"

section \<open>Stored slots\<close>

record stored_slot =
  slot_value :: js_value
  slot_attrs :: attr_safe

definition stored_slot_set :: "js_value \<Rightarrow> attr_safe \<Rightarrow> 'a stored_slot_scheme \<Rightarrow> 'a stored_slot_scheme" where
  "stored_slot_set v a s = s\<lparr>slot_value := v, slot_attrs := a\<rparr>"
definition stored_slot_empty :: stored_slot where
  "stored_slot_empty = \<lparr>slot_value = encode_empty_value, slot_attrs = object_data\<rparr>"
definition stored_slot_new_raw :: "js_value \<Rightarrow> attr_safe \<Rightarrow> stored_slot" where
  "stored_slot_new_raw v a = \<lparr>slot_value = v, slot_attrs = a\<rparr>"

definition accessor_new :: "js_value \<Rightarrow> js_value \<Rightarrow> 'h cells_scheme \<Rightarrow> u64 \<times> 'h cells_scheme" where
  "accessor_new g s h =
     (let p = cell_addr (next_cell h) in
      (p, h\<lparr>accessors := (accessors h)(p \<mapsto> \<lparr>getter = g, setter = s\<rparr>),
            next_cell := next_cell h + 1\<rparr>))"

definition slot_accessor_ptr :: "'a stored_slot_scheme \<Rightarrow> u64 panics" where
  "slot_accessor_ptr s = (if is_accessor (slot_attrs s) then get_object (slot_value s) else None)"
definition slot_accessor :: "'h cells_scheme \<Rightarrow> 'a stored_slot_scheme \<Rightarrow> accessor panics" where
  "slot_accessor h s = Option.bind (slot_accessor_ptr s) (accessors h)"

definition to_descriptor :: "'h cells_scheme \<Rightarrow> 'a stored_slot_scheme \<Rightarrow> property_descriptor panics" where
  "to_descriptor h s =
     (if is_data (slot_attrs s) then Some (data_descriptor (slot_value s) (slot_attrs s))
      else do {
        ac \<leftarrow> slot_accessor h s;
        Some (accessor_descriptor (getter ac) (setter ac) (slot_attrs s)) })"

definition merge_with_no_effect ::
  "'h cells_scheme \<Rightarrow> 'a stored_slot_scheme \<Rightarrow> property_descriptor \<Rightarrow> bool panics" where
  "merge_with_no_effect h s desc =
     (let d = desc_attrs desc; a = slot_attrs s in
      if \<not> is_configurable_absent d \<and> is_configurable d \<noteq> is_configurable a then Some False
      else if \<not> is_enumerable_absent d \<and> is_enumerable d \<noteq> is_enumerable a then Some False
      else if attr_ty d \<noteq> attr_ty a then Some False
      else if is_data d then
        (if \<not> is_writable_absent d \<and> is_writable d \<noteq> is_writable a then Some False
         else if is_value_absent d then Some True
         else Some (same_value h (desc_value desc) (slot_value s)))
      else if is_accessor d then
        do { ac \<leftarrow> slot_accessor h s;
             Some (desc_getter desc = getter ac \<and> desc_setter desc = setter ac) }
      else Some True)"

text \<open>The result of \<open>is_defined_property_accepted\<close> is whether to merge, with the out-parameter
  \<open>returned\<close>; a rejection throws when \<open>throwable\<close> is set.\<close>

definition reject :: "bool \<Rightarrow> string \<Rightarrow> (js_throw + bool \<times> bool) panics" where
  "reject throwable msg = Some (if throwable then Inl (TypeError msg) else Inr (False, False))"

definition is_defined_property_accepted ::
  "'h cells_scheme \<Rightarrow> 'a stored_slot_scheme \<Rightarrow> property_descriptor \<Rightarrow> bool
     \<Rightarrow> (js_throw + bool \<times> bool) panics" where
  "is_defined_property_accepted h s desc throwable =
     (let d = desc_attrs desc; a = slot_attrs s in
      if is_absent d then Some (Inr (False, True))
      else do {
        noeff \<leftarrow> merge_with_no_effect h s desc;
        if noeff then Some (Inr (False, True))
        else if \<not> is_configurable a \<and> is_configurable d then
          reject throwable ''changing [[Configurable]] of unconfigurable property not allowed''
        else if \<not> is_configurable a \<and> \<not> is_enumerable_absent d \<and> is_enumerable a \<noteq> is_enumerable d then
          reject throwable ''changing [[Enumerable]] of unconfigurable property not allowed''
        else if is_generic d then Some (Inr (True, True))
        else if is_data a \<noteq> is_data d then
          (if \<not> is_configurable a then
             reject throwable ''changing descriptor type of unconfigurable property not allowed''
           else Some (Inr (True, True)))
        else if is_data a then
          (if \<not> is_configurable a \<and> \<not> is_writable a then
             (if is_writable d then
                reject throwable ''changing [[Writable]] of unconfigurable property not allowed''
              else if \<not> same_value h (slot_value s) (desc_value desc) then
                reject throwable ''changing [[Value]] of readonly property not allowed''
              else Some (Inr (True, True)))
           else Some (Inr (True, True)))
        else if \<not> is_configurable a then
          do {
            lhs \<leftarrow> slot_accessor h s;
            if \<not> is_setter_absent d \<and> setter lhs \<noteq> desc_setter desc
               \<or> \<not> is_getter_absent d \<and> getter lhs \<noteq> desc_getter desc then
              reject throwable ''changing [[Set]] or [[Get]] of unconfigurable property not allowed''
            else Some (Inr (True, True)) }
        else Some (Inr (True, True)) })"

text \<open>\<open>merge\<close> writes the present fields of the descriptor into the slot. The accessor branch reuses
  the slot's accessor cell, or allocates one when the property was a data property.\<close>

definition merge ::
  "'h cells_scheme \<Rightarrow> 'a stored_slot_scheme \<Rightarrow> property_descriptor
     \<Rightarrow> ('a stored_slot_scheme \<times> 'h cells_scheme) panics" where
  "merge h s desc =
     (let d = desc_attrs desc;
          a0 = attr_external_new (Some (slot_attrs s));
          a1 = (if \<not> is_configurable_absent d then set_configurable (is_configurable d) a0 else a0);
          a2 = (if \<not> is_enumerable_absent d then set_enumerable (is_enumerable d) a1 else a1)
      in
      if is_generic d then Some (s\<lparr>slot_attrs := attr_un_safe a2\<rparr>, h)
      else if is_data d then
        (let a3 = set_data a2;
             s' = (if \<not> is_value_absent d then s\<lparr>slot_value := desc_value desc\<rparr> else s);
             a4 = (if \<not> is_writable_absent d then set_writable (is_writable d) a3 else a3)
         in Some (s'\<lparr>slot_attrs := attr_un_safe a4\<rparr>, h))
      else
        (let a3 = set_accessor a2 in
         do {
           (p, s', h') \<leftarrow>
             (if is_accessor (slot_attrs s) then
                do { p \<leftarrow> slot_accessor_ptr s; Some (p, s, h) }
              else
                (let (p, h1) = accessor_new encode_undefined_value encode_undefined_value h
                 in Some (p, s\<lparr>slot_value := encode_object_value p\<rparr>, h1)));
           ac \<leftarrow> accessors h' p;
           let ac1 = (if \<not> is_getter_absent d then ac\<lparr>getter := desc_getter desc\<rparr> else ac);
               ac2 = (if \<not> is_setter_absent d then ac1\<lparr>setter := desc_setter desc\<rparr> else ac1)
           in Some (s'\<lparr>slot_attrs := attr_un_safe a3\<rparr>, h'\<lparr>accessors := (accessors h')(p \<mapsto> ac2)\<rparr>) }))"

definition stored_slot_new ::
  "'h cells_scheme \<Rightarrow> property_descriptor \<Rightarrow> stored_slot \<times> 'h cells_scheme" where
  "stored_slot_new h desc =
     (let d = desc_attrs desc;
          a = set_enumerable (is_enumerable d)
                (set_configurable (is_configurable d) (attr_external_new None))
      in
      if is_data d then
        (\<lparr>slot_value = (if \<not> is_value_absent d then desc_value desc else encode_undefined_value),
          slot_attrs = create_data (set_writable (is_writable d) a)\<rparr>, h)
      else if is_accessor d then
        (let (p, h') = accessor_new (desc_getter desc) (desc_setter desc) h
         in (\<lparr>slot_value = encode_object_value p, slot_attrs = create_accessor a\<rparr>, h'))
      else
        (\<lparr>slot_value = encode_undefined_value, slot_attrs = create_data a\<rparr>, h))"

section \<open>Lookup slots\<close>

record slot = stored_slot +
  slot_base :: "u64 option"
  slot_offset :: u32
  slot_flags :: u32

datatype put_result_type = PutNone | PutReplace | PutNew | PutIndexedOptimized

primrec put_result_code :: "put_result_type \<Rightarrow> u32" where
  "put_result_code PutNone = 0"
| "put_result_code PutReplace = 1"
| "put_result_code PutNew = 2"
| "put_result_code PutIndexedOptimized = 3"

definition FLAG_USED :: u32 where "FLAG_USED = 1"
definition FLAG_CACHEABLE :: u32 where "FLAG_CACHEABLE = 2"
definition FLAG_PUT_CACHEABLE :: u32 where "FLAG_PUT_CACHEABLE = 4"
definition FLAG_FORCE_PUT_UNCACHEABLE :: u32 where "FLAG_FORCE_PUT_UNCACHEABLE = 8"
definition PUT_SHIFT :: nat where "PUT_SHIFT = 4"
definition PUT_MASK :: u32 where "PUT_MASK = 3"
definition NO_OFFSET :: u32 where "NO_OFFSET = - 1"

text \<open>Whether a base pointer is a \<open>JsObject\<close> is asked of the heap, through \<open>isobj\<close>.\<close>

definition slot_is_cacheable :: "(u64 \<Rightarrow> bool) \<Rightarrow> slot \<Rightarrow> bool" where
  "slot_is_cacheable isobj s =
     (slot_flags s AND FLAG_CACHEABLE \<noteq> 0 \<and>
      (case slot_base s of None \<Rightarrow> False | Some obj \<Rightarrow> isobj obj))"
definition slot_is_put_force_uncacheable :: "slot \<Rightarrow> bool" where
  "slot_is_put_force_uncacheable s = (slot_flags s AND FLAG_FORCE_PUT_UNCACHEABLE \<noteq> 0)"
definition set_put_result_type :: "put_result_type \<Rightarrow> slot \<Rightarrow> slot" where
  "set_put_result_type ty s =
     s\<lparr>slot_flags := (slot_flags s AND NOT (push_bit PUT_SHIFT PUT_MASK))
                     OR push_bit PUT_SHIFT (put_result_code ty)\<rparr>"

text \<open>The \<open>transmute\<close> of two bits into the enumeration.\<close>

definition put_result_type_of :: "slot \<Rightarrow> put_result_type" where
  "put_result_type_of s =
     (let c = drop_bit PUT_SHIFT (slot_flags s) AND PUT_MASK in
      if c = 0 then PutNone else if c = 1 then PutReplace else if c = 2 then PutNew
      else PutIndexedOptimized)"
definition mark_put_result :: "put_result_type \<Rightarrow> u32 \<Rightarrow> slot \<Rightarrow> slot" where
  "mark_put_result ty off s =
     (let s1 = set_put_result_type ty s; s2 = s1\<lparr>slot_offset := off\<rparr>
      in s2\<lparr>slot_flags := slot_flags s2 OR FLAG_PUT_CACHEABLE\<rparr>)"
definition slot_is_used :: "slot \<Rightarrow> bool" where
  "slot_is_used s = (slot_flags s AND FLAG_USED \<noteq> 0)"
definition slot_clear :: "slot \<Rightarrow> slot" where
  "slot_clear s =
     (stored_slot_set encode_empty_value attr_not_found s)
       \<lparr>slot_flags := FLAG_CACHEABLE, slot_base := None, slot_offset := NO_OFFSET\<rparr>"
definition make_used :: "slot \<Rightarrow> slot" where
  "make_used s = s\<lparr>slot_flags := slot_flags s AND NOT FLAG_USED\<rparr>"
definition slot_is_put_cacheable :: "slot \<Rightarrow> bool" where
  "slot_is_put_cacheable s =
     (slot_flags s AND FLAG_PUT_CACHEABLE \<noteq> 0 \<and> \<not> slot_is_put_force_uncacheable s)"
definition make_put_uncacheable :: "slot \<Rightarrow> slot" where
  "make_put_uncacheable s = s\<lparr>slot_flags := slot_flags s OR FLAG_FORCE_PUT_UNCACHEABLE\<rparr>"
definition make_uncacheable :: "slot \<Rightarrow> slot" where
  "make_uncacheable s = s\<lparr>slot_flags := slot_flags s AND NOT FLAG_CACHEABLE\<rparr>"
definition slot_set_1 :: "js_value \<Rightarrow> attr_safe \<Rightarrow> u64 option \<Rightarrow> slot \<Rightarrow> slot" where
  "slot_set_1 v a obj s =
     (let s1 = stored_slot_set v a s; s2 = make_used s1; s3 = make_uncacheable s2
      in s3\<lparr>slot_base := obj, slot_offset := NO_OFFSET\<rparr>)"
definition slot_set_woffset :: "js_value \<Rightarrow> attr_safe \<Rightarrow> u64 option \<Rightarrow> u32 \<Rightarrow> slot \<Rightarrow> slot" where
  "slot_set_woffset v a obj off s =
     (let s1 = stored_slot_set v a s; s2 = make_used s1
      in s2\<lparr>slot_base := obj, slot_offset := off\<rparr>)"
definition slot_set_from_slot :: "'a stored_slot_scheme \<Rightarrow> u64 option \<Rightarrow> slot \<Rightarrow> slot" where
  "slot_set_from_slot st obj s = slot_set_1 (slot_value st) (slot_attrs st) obj s"
definition slot_is_load_cacheable :: "(u64 \<Rightarrow> bool) \<Rightarrow> slot \<Rightarrow> bool" where
  "slot_is_load_cacheable isobj s = (slot_is_cacheable isobj s \<and> is_data (slot_attrs s))"
definition slot_is_store_cacheable :: "(u64 \<Rightarrow> bool) \<Rightarrow> slot \<Rightarrow> bool" where
  "slot_is_store_cacheable isobj s = (slot_is_cacheable isobj s \<and> is_simple_data (slot_attrs s))"
definition slot_has_offset :: "slot \<Rightarrow> bool" where
  "slot_has_offset s = (slot_offset s \<noteq> NO_OFFSET)"
definition slot_is_not_found :: "slot \<Rightarrow> bool" where
  "slot_is_not_found s = is_not_found (slot_attrs s)"
definition slot_new :: slot where
  "slot_new =
     \<lparr>slot_value = encode_undefined_value, slot_attrs = attr_not_found, slot_base = None,
      slot_offset = NO_OFFSET, slot_flags = FLAG_CACHEABLE\<rparr>"

section \<open>Well-formed stored properties\<close>

text \<open>A stored property has stored attributes, and its accessor cell exists when it is an accessor.
  The machine has fewer than \<open>2 ^ 44\<close> cells, as an address of a cell has 48 bits.\<close>

definition slot_wf :: "'h cells_scheme \<Rightarrow> 'a stored_slot_scheme \<Rightarrow> bool" where
  "slot_wf h s \<longleftrightarrow>
     is_stored (slot_attrs s) \<and> (is_accessor (slot_attrs s) \<longrightarrow> slot_accessor h s \<noteq> None)"

definition heap_room :: "'h cells_scheme \<Rightarrow> bool" where
  "heap_room h \<longleftrightarrow> next_cell h < 2 ^ 44"

lemma attr_eqI: "(\<And>n. bit a n \<longleftrightarrow> bit b n) \<Longrightarrow> a = (b :: u32)"
  by (rule bit_eqI)

lemma stored_bits:
  assumes "is_stored a"
  shows "bit a 3 \<longleftrightarrow> \<not> bit a 4" "bit a 4 \<Longrightarrow> \<not> bit a 0"
    "\<not> bit a 5" "\<not> bit a 6" "\<not> bit a 7" "\<not> bit a 8" "\<not> bit a 9" "\<not> bit a 10" "\<not> bit a 11"
  using assms by (auto simp: is_stored_iff)

lemma stored_bits_undef: "is_stored a \<Longrightarrow> bit a n \<Longrightarrow> n < 5 \<or> 11 < n"
  by (rule ccontr) (auto simp: is_stored_iff)

lemma stored_by_bits:
  assumes "\<And>n. 5 \<le> n \<Longrightarrow> n \<le> 11 \<Longrightarrow> \<not> bit a n" "bit a 3 \<longleftrightarrow> \<not> bit a 4" "bit a 4 \<longrightarrow> \<not> bit a 0"
  shows "is_stored a"
  using assms by (auto simp: is_stored_iff)

lemma create_stored: "is_stored (create_data a)" "is_stored (create_accessor a)"
  by (auto intro!: stored_by_bits simp: flag_simps)

lemma cell_addr_unat: "n < 2 ^ 44 \<Longrightarrow> unat (cell_addr n) = 16 * (n + 1)"
  unfolding cell_addr_def by (rule unat_word_of_nat_less) simp

lemma cell_addr_is_address: "n < 2 ^ 44 \<Longrightarrow> cell_address (cell_addr n)"
proof -
  assume n: "n < 2 ^ 44"
  have "\<not> bit (cell_addr n) 1"
    by (simp add: bit_word_unat cell_addr_unat [OF n])
  moreover have "cell_addr n \<noteq> 0"
    using cell_addr_unat [OF n] by (auto simp flip: unat_0)
  ultimately show ?thesis
    using n by (simp add: cell_address_def cell_addr_unat)
qed

lemma get_object_new [simp]:
  "n < 2 ^ 44 \<Longrightarrow> get_object (encode_object_value (cell_addr n)) = Some (cell_addr n)"
  using cell_addr_is_address by (simp add: encode_object_value_def)

lemma accessor_upd_same:
  "accessors h p = Some ac \<Longrightarrow> h\<lparr>accessors := (accessors h)(p \<mapsto> ac)\<rparr> = h"
  by (simp add: fun_upd_idem)

lemmas desc_flags = flag_simps

lemma slot_accessor_Some:
  "slot_accessor h s = Some ac \<Longrightarrow> \<exists>p. slot_accessor_ptr s = Some p \<and> accessors h p = Some ac"
  by (simp add: slot_accessor_def bind_eq_Some_conv)

text \<open>What \<open>merge\<close> does to an accessor property it merges accessor fields into.\<close>

lemma merge_accessor:
  assumes "slot_accessor_ptr s = Some p" "accessors h p = Some ac" "is_accessor (slot_attrs s)"
    "\<not> is_generic (desc_attrs d)" "\<not> is_data (desc_attrs d)" "merge h s d = Some (s', h')"
  shows "slot_value s' = slot_value s"
    and "h' = h\<lparr>accessors := (accessors h)(p \<mapsto>
        \<lparr>getter = if is_getter_absent (desc_attrs d) then getter ac else desc_getter d,
         setter = if is_setter_absent (desc_attrs d) then setter ac else desc_setter d\<rparr>)\<rparr>"
  using assms by (cases ac; auto simp: merge_def Let_def)+

text \<open>The attributes after a merge, bit by bit.\<close>

definition merged_bit :: "attr_external \<Rightarrow> attr_safe \<Rightarrow> nat \<Rightarrow> bool" where
  "merged_bit d a n =
     (if n = 2 \<and> \<not> bit d 8 then bit d 2
      else if n = 1 \<and> \<not> bit d 7 then bit d 1
      else if is_generic d then (n < 5 \<or> 11 < n) \<and> bit a n
      else if is_data d then
        (if n = 3 then True else if n = 4 then False
         else if n = 0 \<and> \<not> bit d 6 then bit d 0 else (n < 5 \<or> 11 < n) \<and> bit a n)
      else (if n = 4 then True else if n = 3 \<or> n = 0 then False else (n < 5 \<or> 11 < n) \<and> bit a n))"

definition merged_attrs :: "attr_external \<Rightarrow> attr_safe \<Rightarrow> attr_safe" where
  "merged_attrs d a =
     (let a1 = (if is_configurable_absent d then a else set_configurable (is_configurable d) a);
          a2 = (if is_enumerable_absent d then a1 else set_enumerable (is_enumerable d) a1)
      in attr_un_safe
        (if is_generic d then a2
         else if is_data d then
           (if is_writable_absent d then set_data a2 else set_writable (is_writable d) (set_data a2))
         else set_accessor a2))"

lemma merge_attrs:
  "merge h s d = Some (s', h') \<Longrightarrow> slot_attrs s' = merged_attrs (desc_attrs d) (slot_attrs s)"
  by (simp add: merge_def merged_attrs_def Let_def flag_wrappers bind_eq_Some_conv if_distrib
      split: if_split_asm prod.split_asm) auto

lemma merged_bits: "bit (merged_attrs d a) n = merged_bit d a n"
proof -
  have lt5: "n < 5 \<longleftrightarrow> n = 0 \<or> n = 1 \<or> n = 2 \<or> n = 3 \<or> n = 4" by auto
  show ?thesis
    by (cases "bit d 8"; cases "bit d 7"; cases "is_generic d"; cases "is_data d"; cases "bit d 6")
      (auto simp: merged_attrs_def merged_bit_def Let_def flag_tests flag_updates flag_wrappers lt5)
qed

lemma merge_generic:
  "is_generic (desc_attrs d) \<Longrightarrow> merge h s d = Some (s', h') \<Longrightarrow>
     slot_value s' = slot_value s \<and> h' = h"
  by (auto simp: merge_def Let_def)

lemma data_not_generic: "is_data d \<Longrightarrow> \<not> is_generic d"
  by (simp add: flag_simps)

lemma merge_data:
  "is_data (desc_attrs d) \<Longrightarrow> merge h s d = Some (s', h') \<Longrightarrow>
     slot_value s' = (if is_value_absent (desc_attrs d) then slot_value s else desc_value d) \<and> h' = h"
  by (auto simp: merge_def Let_def data_not_generic)

lemma slot_wf_accessor:
  assumes "slot_wf h s" "is_accessor (slot_attrs s)"
  obtains p ac where "slot_accessor_ptr s = Some p" "accessors h p = Some ac" "slot_accessor h s = Some ac"
  using assms slot_accessor_Some [of h s] by (auto simp: slot_wf_def)

text \<open>What acceptance of a descriptor for an unconfigurable property says.\<close>

lemma acceptedD:
  assumes acc: "is_defined_property_accepted h s desc thr = Some (Inr (True, r))"
    and uc: "\<not> is_configurable (slot_attrs s)"
  shows "r" "\<not> is_configurable (desc_attrs desc)"
    "is_enumerable_absent (desc_attrs desc) \<or> is_enumerable (desc_attrs desc) = is_enumerable (slot_attrs s)"
    "is_generic (desc_attrs desc) \<or> is_data (slot_attrs s) = is_data (desc_attrs desc)"
    "is_data (slot_attrs s) \<Longrightarrow> is_data (desc_attrs desc) \<Longrightarrow> \<not> is_writable (slot_attrs s) \<Longrightarrow>
       \<not> is_writable (desc_attrs desc) \<and> same_value h (slot_value s) (desc_value desc)"
    "\<not> is_data (slot_attrs s) \<Longrightarrow> \<not> is_generic (desc_attrs desc) \<Longrightarrow> slot_accessor h s = Some ac \<Longrightarrow>
       (is_setter_absent (desc_attrs desc) \<or> setter ac = desc_setter desc) \<and>
       (is_getter_absent (desc_attrs desc) \<or> getter ac = desc_getter desc)"
  using acc uc
  by (auto simp: is_defined_property_accepted_def Let_def reject_def bind_eq_Some_conv flag_simps
      split: if_split_asm)

text \<open>
  C23. Accepted redefinitions respect the attributes of an unconfigurable property
  ([[DefineOwnProperty]], ECMA-262 8.12.9): when \<open>is_defined_property_accepted\<close> lets a descriptor
  be merged into a property that is not configurable, the merged property is still not
  configurable, has the same enumerability and the same kind; a read-only data property stays
  read-only and keeps its value; an accessor property keeps its getter and its setter.
\<close>

theorem accept_unconfigurable_sound:
  assumes "slot_wf h s" "\<not> is_configurable (slot_attrs s)"
    and "is_defined_property_accepted h s desc thr = Some (Inr (True, r))"
    and "merge h s desc = Some (s', h')"
  shows "\<not> is_configurable (slot_attrs s') \<and>
    is_enumerable (slot_attrs s') = is_enumerable (slot_attrs s) \<and>
    is_data (slot_attrs s') = is_data (slot_attrs s) \<and>
    (\<not> is_writable (slot_attrs s) \<longrightarrow> \<not> is_writable (slot_attrs s')) \<and>
    (is_data (slot_attrs s) \<and> \<not> is_writable (slot_attrs s) \<longrightarrow>
      same_value h' (slot_value s) (slot_value s')) \<and>
    (is_accessor (slot_attrs s) \<longrightarrow> slot_accessor h' s' = slot_accessor h s)"
proof -
  let ?d = "desc_attrs desc" and ?a = "slot_attrs s"
  have st: "is_stored ?a" using assms(1) by (simp add: slot_wf_def)
  note acc = acceptedD [OF assms(3,2)]
  have attrs: "slot_attrs s' = merged_attrs ?d ?a" by (rule merge_attrs [OF assms(4)])
  have "\<not> is_configurable (slot_attrs s')" "is_enumerable (slot_attrs s') = is_enumerable ?a"
    "is_data (slot_attrs s') = is_data ?a" "\<not> is_writable ?a \<longrightarrow> \<not> is_writable (slot_attrs s')"
    using acc(2-5) assms(2) stored_bits [OF st]
    by (auto simp: attrs flag_simps merged_bits merged_bit_def)
  moreover have "same_value h' (slot_value s) (slot_value s')"
    if "is_data ?a" "\<not> is_writable ?a"
  proof (cases "is_generic ?d")
    case True
    then show ?thesis using merge_generic [OF True assms(4)] by simp
  next
    case False
    then have d: "is_data ?d" using acc(4) that by simp
    show ?thesis using merge_data [OF d assms(4)] acc(5) [OF that(1) d that(2)] by simp
  qed
  moreover have "slot_accessor h' s' = slot_accessor h s" if acc_a: "is_accessor ?a"
  proof (cases "is_generic ?d")
    case True
    have "is_accessor (slot_attrs s') = is_accessor ?a"
      using True by (simp add: attrs flag_simps merged_bits merged_bit_def)
    then show ?thesis
      using merge_generic [OF True assms(4)] by (simp add: slot_accessor_def slot_accessor_ptr_def)
  next
    case False
    have nd: "\<not> is_data ?a" using stored_bits(1) [OF st] acc_a by (simp add: flag_simps)
    with False acc(4) have d: "\<not> is_data ?d" by simp
    obtain p ac where p: "slot_accessor_ptr s = Some p" "accessors h p = Some ac" "slot_accessor h s = Some ac"
      using slot_wf_accessor [OF assms(1) acc_a] .
    note m = merge_accessor [OF p(1,2) acc_a False d assms(4)]
    have "h' = h" using m(2) acc(6) [OF nd False p(3)] p(2)
      by (auto simp: accessor_upd_same split: if_splits)
    moreover have "is_accessor (slot_attrs s')"
      using False d by (auto simp: attrs flag_simps merged_bits merged_bit_def)
    ultimately show ?thesis
      using m(1) acc_a by (simp add: slot_accessor_def slot_accessor_ptr_def)
  qed
  ultimately show ?thesis by blast
qed

text \<open>A merge into a well-formed slot returns, with a well-formed slot.\<close>

lemma merged_stored: "is_stored a \<Longrightarrow> is_stored (merged_attrs d a)"
proof (rule stored_by_bits)
  assume a: "is_stored a"
  note b = stored_bits [OF a]
  show "\<not> bit (merged_attrs d a) n" if "5 \<le> n" "n \<le> 11" for n
    using that by (simp add: merged_bits merged_bit_def)
  show "bit (merged_attrs d a) 3 \<longleftrightarrow> \<not> bit (merged_attrs d a) 4"
    using b by (simp add: merged_bits merged_bit_def)
  show "bit (merged_attrs d a) 4 \<longrightarrow> \<not> bit (merged_attrs d a) 0"
    using b by (auto simp: merged_bits merged_bit_def)
qed

lemma merge_returns:
  assumes wf: "slot_wf h s" and room: "heap_room h"
  shows "\<exists>s' h'. merge h s d = Some (s', h')"
proof (cases "is_generic (desc_attrs d) \<or> is_data (desc_attrs d)")
  case True
  then show ?thesis by (auto simp: merge_def Let_def)
next
  case False
  show ?thesis
  proof (cases "is_accessor (slot_attrs s)")
    case True
    with wf obtain p ac where "slot_accessor_ptr s = Some p" "accessors h p = Some ac"
      using slot_wf_accessor by blast
    with True False show ?thesis by (simp add: merge_def Let_def)
  next
    case no: False
    with False show ?thesis by (simp add: merge_def Let_def accessor_new_def)
  qed
qed

lemma merged_accessor_iff:
  "is_stored a \<Longrightarrow> is_accessor (merged_attrs d a) \<longleftrightarrow>
     (if is_generic d then is_accessor a else \<not> is_data d)"
  by (auto simp: flag_simps merged_bits merged_bit_def)

lemma merge_keeps_wf:
  assumes "slot_wf h s" "heap_room h"
  shows "\<exists>s' h'. merge h s d = Some (s', h') \<and> slot_wf h' s'"
proof -
  let ?d = "desc_attrs d"
  obtain s' h' where m: "merge h s d = Some (s', h')" using merge_returns [OF assms] by blast
  have st: "is_stored (slot_attrs s)" using assms(1) by (simp add: slot_wf_def)
  note attrs = merge_attrs [OF m]
  have "slot_accessor h' s' \<noteq> None" if acc: "is_accessor (slot_attrs s')"
  proof (cases "is_generic ?d")
    case True
    then show ?thesis
      using that merge_generic [OF True m] assms(1) merged_accessor_iff [OF st, of ?d]
      by (auto simp: slot_wf_def slot_accessor_def slot_accessor_ptr_def attrs)
  next
    case ng: False
    with acc have nd: "\<not> is_data ?d" by (auto simp: attrs merged_accessor_iff [OF st])
    show ?thesis
    proof (cases "is_accessor (slot_attrs s)")
      case True
      with assms(1) obtain p ac where "slot_accessor_ptr s = Some p" "accessors h p = Some ac"
        using slot_wf_accessor by blast
      with True show ?thesis
        using merge_accessor [OF _ _ True ng nd m] acc
        by (simp add: slot_accessor_def slot_accessor_ptr_def)
    next
      case False
      then show ?thesis
        using m ng nd acc assms(2)
        by (auto simp: merge_def Let_def accessor_new_def slot_accessor_def slot_accessor_ptr_def
            heap_room_def)
    qed
  qed
  with m merged_stored [OF st] show ?thesis by (auto simp: slot_wf_def attrs)
qed

text \<open>
  C24. \<open>merge\<close> never panics on a well-formed property and keeps it well formed: the attributes
  stay in the stored normal form (exactly one of data and accessor, no undefined flag, no writable
  accessor), and an accessor property points to an accessor cell, allocated when the property
  was a data property before.
\<close>

theorem merge_preserves_wf:
  assumes "slot_wf h s" "heap_room h"
  shows "\<exists>s' h'. merge h s d = Some (s', h') \<and> slot_wf h' s'"
  using assms by (rule merge_keeps_wf)

definition readonly_slot :: stored_slot where
  "readonly_slot = stored_slot_new_raw encode_null_value (create_data (attr_external_new None))"
definition writable_slot :: stored_slot where
  "writable_slot = stored_slot_new_raw encode_null_value (create_data (attr_external_new (Some WRITABLE)))"
definition assign_descriptor :: property_descriptor where
  "assign_descriptor =
     data_descriptor (encode_bool_value True) (UNDEF_WRITABLE OR UNDEF_ENUMERABLE OR UNDEF_CONFIGURABLE)"

lemma example_slots_wf:
  "slot_wf empty_cells readonly_slot" "slot_wf empty_cells writable_slot" "heap_room empty_cells"
  by (simp_all add: slot_wf_def readonly_slot_def writable_slot_def stored_slot_new_raw_def
      create_stored flag_simps heap_room_def empty_cells_def)

theorem accept_unconfigurable_sound_witness:
  "\<exists>s' h'. merge empty_cells writable_slot assign_descriptor = Some (s', h') \<and>
     \<not> is_configurable (slot_attrs s')"
proof -
  obtain s' h' where m: "merge empty_cells writable_slot assign_descriptor = Some (s', h')"
    using merge_returns [OF example_slots_wf(2,3)] by blast
  have "is_defined_property_accepted empty_cells writable_slot assign_descriptor False =
      Some (Inr (True, True))"
    by (simp add: is_defined_property_accepted_def merge_with_no_effect_def writable_slot_def
        stored_slot_new_raw_def assign_descriptor_def data_descriptor_def attr_ty_def Let_def
        flag_simps flag_bits bit_or_iff desc_value_def same_value_cases immediate_words immediates
        is_jsstring_def)
  moreover have "\<not> is_configurable (slot_attrs writable_slot)"
    by (simp add: writable_slot_def stored_slot_new_raw_def flag_simps flag_bits)
  ultimately show ?thesis
    using accept_unconfigurable_sound [OF example_slots_wf(2) _ _ m] m by blast
qed

theorem merge_preserves_wf_witness:
  "\<exists>s' h'. merge empty_cells readonly_slot (accessor_descriptor 16 32 0) = Some (s', h') \<and> slot_wf h' s'"
  by (rule merge_preserves_wf [OF example_slots_wf(1,3)])



text \<open>
  C26. A property descriptor read out of a property and defined on a fresh slot gives the property
  back: same flags (the bits above the five stored ones are dropped), same value for a data
  property, and an accessor cell with the same getter and setter for an accessor property.
\<close>

theorem descriptor_roundtrip:
  assumes "slot_wf h s" "heap_room h"
  shows "\<exists>d s' h'. to_descriptor h s = Some d \<and> stored_slot_new h d = (s', h') \<and>
     slot_attrs s' = slot_attrs s AND mask 5 \<and> slot_wf h' s' \<and>
     (is_data (slot_attrs s) \<longrightarrow> slot_value s' = slot_value s \<and> h' = h) \<and>
     (is_accessor (slot_attrs s) \<longrightarrow> slot_accessor h' s' = slot_accessor h s)"
proof -
  let ?a = "slot_attrs s"
  have st: "is_stored ?a" using assms(1) by (simp add: slot_wf_def)
  note b = stored_bits [OF st]
  have low: "n < 5 \<longleftrightarrow> n = 0 \<or> n = 1 \<or> n = 2 \<or> n = 3 \<or> n = 4" for n :: nat by auto
  show ?thesis
  proof (cases "is_data ?a")
    case True
    let ?d = "data_descriptor (slot_value s) ?a"
    let ?s = "fst (stored_slot_new h ?d)"
    have new: "stored_slot_new h ?d = (?s, h)" "slot_value ?s = slot_value s"
      "slot_attrs ?s = create_data (set_writable (is_writable ?a)
         (set_enumerable (is_enumerable ?a) (set_configurable (is_configurable ?a) (attr_external_new None))))"
      using b True
      by (simp_all add: stored_slot_new_def data_descriptor_def Let_def flag_simps flag_bits bit_or_iff
          desc_value_def)
    have "slot_attrs ?s = ?a AND mask 5"
      unfolding new(3) by (rule bit_eqI, unfold bit_and_iff bit_mask_iff low flag_simps)
        (use b True [unfolded flag_simps] in auto)
    moreover have "slot_wf h ?s" "\<not> is_accessor ?a"
      using b True by (auto simp: slot_wf_def new(3) create_stored flag_simps)
    moreover have "to_descriptor h s = Some ?d" using True by (simp add: to_descriptor_def)
    ultimately show ?thesis using new(1,2) by blast
  next
    case False
    with b have acc: "is_accessor ?a" by (simp add: flag_simps)
    obtain p ac where p: "slot_accessor_ptr s = Some p" "accessors h p = Some ac" "slot_accessor h s = Some ac"
      using slot_wf_accessor [OF assms(1) acc] .
    let ?d = "accessor_descriptor (getter ac) (setter ac) ?a"
    let ?h = "snd (accessor_new (getter ac) (setter ac) h)"
    let ?s = "fst (stored_slot_new h ?d)"
    have new: "stored_slot_new h ?d = (?s, ?h)" "slot_value ?s = encode_object_value (cell_addr (next_cell h))"
      "slot_attrs ?s = create_accessor
         (set_enumerable (is_enumerable ?a) (set_configurable (is_configurable ?a) (attr_external_new None)))"
      using b acc
      by (simp_all add: stored_slot_new_def accessor_descriptor_def Let_def flag_simps flag_bits
          bit_or_iff desc_getter_def desc_setter_def accessor_new_def)
    have sa: "slot_accessor ?h ?s = Some ac"
      using assms(2)
      by (simp add: slot_accessor_def slot_accessor_ptr_def new(2,3) flag_simps heap_room_def accessor_new_def Let_def)
    have "slot_attrs ?s = ?a AND mask 5"
      unfolding new(3) by (rule bit_eqI, unfold bit_and_iff bit_mask_iff low flag_simps)
        (use b acc [unfolded flag_simps] in auto)
    moreover have "slot_wf ?h ?s" using sa by (simp add: slot_wf_def new(3) create_stored)
    moreover have "to_descriptor h s = Some ?d" using False p(3) by (simp add: to_descriptor_def)
    ultimately show ?thesis using new(1) sa p(3) False by metis
  qed
qed

theorem descriptor_roundtrip_witness:
  "\<exists>d s' h'. to_descriptor empty_cells readonly_slot = Some d \<and> stored_slot_new empty_cells d = (s', h')"
  using descriptor_roundtrip [OF example_slots_wf(1,3)] by blast

text \<open>
  \<open>accessor_setter\<close> builds a descriptor that does the opposite of its name when merged into an
  existing accessor property: it flags the setter, not the getter, as absent, so the merge
  leaves the setter as it was and replaces the getter by undefined.
\<close>

theorem accessor_setter_clears_getter:
  assumes "slot_wf h s" "is_accessor (slot_attrs s)" "slot_accessor h s = Some ac"
    and "attrs AND (DATA OR UNDEF_GETTER) = 0"
    and "merge h s (accessor_setter f attrs) = Some (s', h')"
  shows "slot_accessor h' s' = Some \<lparr>getter = encode_undefined_value, setter = setter ac\<rparr>"
proof -
  let ?d = "accessor_setter f attrs"
  obtain p where p: "slot_accessor_ptr s = Some p" "accessors h p = Some ac"
    using slot_wf_accessor [OF assms(1,2)] assms(3) by auto
  have nb: "\<not> bit attrs 3" "\<not> bit attrs 10"
    using assms(4) by (auto simp: bit.conj_disj_distrib or_eq_0_iff simp flip: and_flag_nonzero)
  have k: "\<not> is_generic (desc_attrs ?d)" "\<not> is_data (desc_attrs ?d)"
    "is_setter_absent (desc_attrs ?d)" "\<not> is_getter_absent (desc_attrs ?d)"
    "desc_getter ?d = encode_undefined_value"
    using nb by (simp_all add: accessor_setter_def flag_simps flag_bits bit_or_iff desc_getter_def)
  have "is_accessor (slot_attrs s')"
    using merged_accessor_iff [of "slot_attrs s" "desc_attrs ?d"] k assms(1)
    by (simp add: merge_attrs [OF assms(5)] slot_wf_def)
  with merge_accessor [OF p assms(2) k(1,2) assms(5)] k(3-5) p(1) assms(2)
  show ?thesis by (simp add: slot_accessor_def slot_accessor_ptr_def)
qed

section \<open>Lookup slots\<close>

lemma slot_flag_consts:
  "bit FLAG_USED n \<longleftrightarrow> n = 0" "bit FLAG_CACHEABLE n \<longleftrightarrow> n = 1" "bit FLAG_PUT_CACHEABLE n \<longleftrightarrow> n = 2"
  "bit FLAG_FORCE_PUT_UNCACHEABLE n \<longleftrightarrow> n = 3"
proof -
  have e: "bit ((2::u32) ^ m) n \<longleftrightarrow> n = m" if "m < 32" for m
    using that by (auto simp: bit_exp_iff possible_bit_word)
  show "bit FLAG_USED n \<longleftrightarrow> n = 0" "bit FLAG_CACHEABLE n \<longleftrightarrow> n = 1" "bit FLAG_PUT_CACHEABLE n \<longleftrightarrow> n = 2"
    "bit FLAG_FORCE_PUT_UNCACHEABLE n \<longleftrightarrow> n = 3"
    using e [of 0] e [of 1] e [of 2] e [of 3]
    by (simp_all add: FLAG_USED_def FLAG_CACHEABLE_def FLAG_PUT_CACHEABLE_def FLAG_FORCE_PUT_UNCACHEABLE_def)
qed

lemma slot_flag_tests:
  "slot_is_used s \<longleftrightarrow> bit (slot_flags s) 0"
  "slot_is_put_force_uncacheable s \<longleftrightarrow> bit (slot_flags s) 3"
  "slot_is_put_cacheable s \<longleftrightarrow> bit (slot_flags s) 2 \<and> \<not> bit (slot_flags s) 3"
  using and_flag_eq_0 [of "slot_flags s" 0] and_flag_eq_0 [of "slot_flags s" 2]
    and_flag_eq_0 [of "slot_flags s" 3]
  by (simp_all add: slot_is_used_def slot_is_put_cacheable_def slot_is_put_force_uncacheable_def
      FLAG_USED_def FLAG_PUT_CACHEABLE_def FLAG_FORCE_PUT_UNCACHEABLE_def)

lemma put_code_bit:
  "bit (put_result_code ty) n \<longleftrightarrow>
     n = 0 \<and> (ty = PutReplace \<or> ty = PutIndexedOptimized) \<or>
     n = 1 \<and> (ty = PutNew \<or> ty = PutIndexedOptimized)"
  "bit PUT_MASK n \<longleftrightarrow> n = 0 \<or> n = 1"
proof -
  have three: "(3 :: u32) = mask 2" by (simp add: mask_eq_exp_minus_1)
  have two: "bit (2 :: u32) n \<longleftrightarrow> n = 1"
    using bit_exp_iff [where ?'a = u32, of 1 n] by (auto simp: possible_bit_word)
  have m: "bit (mask 2 :: u32) n \<longleftrightarrow> n = 0 \<or> n = 1" by (auto simp: bit_mask_iff possible_bit_word)
  show "bit (put_result_code ty) n \<longleftrightarrow>
     n = 0 \<and> (ty = PutReplace \<or> ty = PutIndexedOptimized) \<or>
     n = 1 \<and> (ty = PutNew \<or> ty = PutIndexedOptimized)"
    by (cases ty) (simp_all only: put_result_code.simps two three m bit_1_iff bit_0_eq bot_apply, auto)
  show "bit PUT_MASK n \<longleftrightarrow> n = 0 \<or> n = 1"
    by (simp only: PUT_MASK_def three m)
qed

lemma put_mask_bits: "bit (push_bit PUT_SHIFT PUT_MASK :: u32) n \<longleftrightarrow> n = 4 \<or> n = 5"
  by (auto simp: bit_push_bit_iff put_code_bit(2) PUT_SHIFT_def possible_bit_word)

lemma put_code_bits:
  "bit (push_bit PUT_SHIFT (put_result_code ty) :: u32) n \<longleftrightarrow>
     n = 4 \<and> bit (put_result_code ty) 0 \<or> n = 5 \<and> bit (put_result_code ty) 1"
  by (auto simp: bit_push_bit_iff put_code_bit(1) PUT_SHIFT_def possible_bit_word)

text \<open>The operations the engine applies to a lookup slot between its creation and its last use.\<close>

inductive slot_step :: "slot \<Rightarrow> slot \<Rightarrow> bool" where
  "slot_step s (slot_clear s)"
| "slot_step s (mark_put_result ty off s)"
| "slot_step s (make_used s)"
| "slot_step s (make_put_uncacheable s)"
| "slot_step s (make_uncacheable s)"
| "slot_step s (slot_set_1 v a b s)"
| "slot_step s (slot_set_woffset v a b off s)"
| "slot_step s (slot_set_from_slot (st :: stored_slot) b s)"

inductive slot_reach :: "slot \<Rightarrow> bool" where
  slot_reach_new: "slot_reach slot_new"
| slot_reach_step: "slot_reach s \<Longrightarrow> slot_step s t \<Longrightarrow> slot_reach t"

lemmas slot_op_defs = slot_clear_def mark_put_result_def make_used_def make_put_uncacheable_def
  make_uncacheable_def slot_set_1_def slot_set_woffset_def slot_set_from_slot_def
  set_put_result_type_def stored_slot_set_def Let_def slot_new_def

lemma mark_put_flags:
  "bit (slot_flags (mark_put_result ty off s)) n \<longleftrightarrow>
     (if n = 2 then True else if n = 4 then bit (put_result_code ty) 0
      else if n = 5 then bit (put_result_code ty) 1 else bit (slot_flags s) n)"
  using bit_word_less [of "slot_flags s" n]
  by (auto simp: slot_op_defs bit_or_iff bit_and_iff bit_not_iff possible_bit_word put_mask_bits
      put_code_bits slot_flag_consts)

lemma slot_step_unused: "slot_step s t \<Longrightarrow> \<not> slot_is_used s \<Longrightarrow> \<not> slot_is_used t"
  by (induction rule: slot_step.induct)
    (auto simp: slot_flag_tests mark_put_flags, auto simp: slot_op_defs bit_or_iff bit_and_iff bit_not_iff slot_flag_consts)

text \<open>
  No lookup slot ever reports that it is used: \<open>make_used\<close> clears the flag instead of setting
  it, and no other operation sets it, so \<open>is_used\<close> is false in every state a slot can reach.
\<close>

theorem slot_never_used: "slot_reach s \<Longrightarrow> \<not> slot_is_used s"
  by (induction rule: slot_reach.induct)
    (auto simp: slot_new_def slot_flag_tests slot_flag_consts dest: slot_step_unused)

theorem slot_never_used_witness: "\<not> slot_is_used (make_used slot_new)"
  by (rule slot_never_used [OF slot_reach_step [OF slot_reach_new slot_step.intros(3)]])

text \<open>
  \<open>mark_put_result\<close> stores a put result that \<open>put_result_type\<close> reads back, with its offset; it
  makes the slot put-cacheable unless caching was forced off, and leaves the other flags, the
  value, the attributes and the base as they were.
\<close>

theorem put_result_roundtrip:
  "put_result_type_of (mark_put_result ty off s) = ty \<and>
   slot_offset (mark_put_result ty off s) = off \<and>
   slot_is_put_cacheable (mark_put_result ty off s) = (\<not> slot_is_put_force_uncacheable s) \<and>
   (\<forall>n. n \<notin> {2, 4, 5} \<longrightarrow> bit (slot_flags (mark_put_result ty off s)) n = bit (slot_flags s) n) \<and>
   slot_value (mark_put_result ty off s) = slot_value s \<and>
   slot_attrs (mark_put_result ty off s) = slot_attrs s \<and>
   slot_base (mark_put_result ty off s) = slot_base s"
proof -
  have "drop_bit PUT_SHIFT (slot_flags (mark_put_result ty off s)) AND PUT_MASK = put_result_code ty"
    by (rule bit_eqI)
      (auto simp: bit_and_iff bit_drop_bit_eq PUT_SHIFT_def mark_put_flags put_code_bit)
  then have "put_result_type_of (mark_put_result ty off s) = ty"
    by (cases ty) (simp_all add: put_result_type_of_def)
  then show ?thesis
    by (simp add: slot_flag_tests mark_put_flags) (simp add: slot_op_defs)
qed

theorem put_result_roundtrip_witness:
  "put_result_type_of (mark_put_result PutNew 5 slot_new) = PutNew \<and>
   bit (slot_flags (mark_put_result PutNew 5 slot_new)) 1 = bit (slot_flags slot_new) 1"
  using put_result_roundtrip [of PutNew 5 slot_new] by simp

end
