(* ===== verification/Structure.thy ===== *)
theory Structure
  imports Property "HOL-Library.AList"
begin

text \<open>
  Hidden classes (vm/structure.rs). A \<open>Structure\<close> maps property names to offsets in the slots of
  the objects that have it. Structures are heap cells: a structure is a number here, and so is a
  \<open>TargetTable\<close>, because several structures can hold a pointer to one table and update it in
  place. A \<open>HashMap\<close> is an association list with distinct keys. The linked list of deleted
  offsets is immutable but for its head, so each structure has its own list.

  Sizes and offsets are natural numbers with the casts to 32 bits written out (\<open>as_u32\<close>). A
  transition holds a weak reference: it upgrades while the structure is still in the heap.
\<close>

definition as_u32 :: "nat \<Rightarrow> nat" where
  "as_u32 n = n mod 2 ^ 32"

section \<open>Data\<close>

record map_entry =
  me_offset :: nat
  me_attrs :: attr_safe

definition U32_MAX :: nat where "U32_MAX = 2 ^ 32 - 1"

definition entry_not_found :: map_entry where
  "entry_not_found = \<lparr>me_offset = U32_MAX, me_attrs = attr_not_found\<rparr>"
definition entry_is_not_found :: "map_entry \<Rightarrow> bool" where
  "entry_is_not_found e = is_not_found (me_attrs e)"

type_synonym target_table = "(symbol \<times> map_entry) list"
type_synonym transition_key = "symbol \<times> u32"

datatype transition =
    Transition_None
  | Transition_Table "(transition_key \<times> nat) list"
  | Transition_Pair transition_key nat

record transitions_table =
  tt_var :: transition
  tt_enabled :: bool
  tt_unique :: bool
  tt_indexed :: bool

definition DUMMY_SYMBOL :: symbol where "DUMMY_SYMBOL = Key 0"

record struct =
  st_id :: u32
  st_transitions :: transitions_table
  st_table :: "nat option"
  st_deleted :: "nat list"
  st_deleted_size :: nat
  st_added :: "symbol \<times> map_entry"
  st_previous :: "nat option"
  st_prototype :: "u64 option"
  st_calculated_size :: nat
  st_transit_count :: nat
  st_flattened :: bool
  st_chain :: "nat list option"

record shapes = cells +
  structs :: "nat \<Rightarrow> struct option"
  tables :: "nat \<Rightarrow> target_table option"
  next_struct :: nat
  next_table :: nat

definition empty_shapes :: shapes where
  "empty_shapes = cells.extend empty_cells
     \<lparr>structs = (\<lambda>_. None), tables = (\<lambda>_. None), next_struct = 0, next_table = 0\<rparr>"

definition table_of :: "'h shapes_scheme \<Rightarrow> nat \<Rightarrow> target_table" where
  "table_of h t = (case tables h t of Some tb \<Rightarrow> tb | None \<Rightarrow> [])"
definition alloc_table :: "target_table \<Rightarrow> 'h shapes_scheme \<Rightarrow> nat \<times> 'h shapes_scheme" where
  "alloc_table tb h =
     (next_table h, h\<lparr>tables := (tables h)(next_table h \<mapsto> tb), next_table := next_table h + 1\<rparr>)"
definition set_table :: "nat \<Rightarrow> target_table \<Rightarrow> 'h shapes_scheme \<Rightarrow> 'h shapes_scheme" where
  "set_table t tb h = h\<lparr>tables := (tables h)(t \<mapsto> tb)\<rparr>"
definition alloc_struct :: "struct \<Rightarrow> 'h shapes_scheme \<Rightarrow> nat \<times> 'h shapes_scheme" where
  "alloc_struct s h =
     (next_struct h, h\<lparr>structs := (structs h)(next_struct h \<mapsto> s), next_struct := next_struct h + 1\<rparr>)"
definition set_struct :: "nat \<Rightarrow> struct \<Rightarrow> 'h shapes_scheme \<Rightarrow> 'h shapes_scheme" where
  "set_struct i s h = h\<lparr>structs := (structs h)(i \<mapsto> s)\<rparr>"

section \<open>TransitionsTable and DeletedEntryHolder\<close>

definition transitions_new :: "bool \<Rightarrow> bool \<Rightarrow> transitions_table" where
  "transitions_new enabled indexed =
     \<lparr>tt_var = Transition_None, tt_enabled = enabled, tt_unique = False, tt_indexed = indexed\<rparr>"
definition set_indexed :: "bool \<Rightarrow> transitions_table \<Rightarrow> transitions_table" where
  "set_indexed b tt = tt\<lparr>tt_indexed := b\<rparr>"
definition enable_unique_transition :: "transitions_table \<Rightarrow> transitions_table" where
  "enable_unique_transition tt = tt\<lparr>tt_unique := True\<rparr>"
definition transitions_insert ::
  "symbol \<Rightarrow> attr_safe \<Rightarrow> nat \<Rightarrow> transitions_table \<Rightarrow> transitions_table" where
  "transitions_insert name attrs j tt =
     (let key = (name, attrs);
          var = (case tt_var tt of Transition_Pair x y \<Rightarrow> Transition_Table (AList.update x y [])
                 | v \<Rightarrow> v)
      in tt\<lparr>tt_var := (case var of Transition_Table tb \<Rightarrow> Transition_Table (AList.update key j tb)
                      | _ \<Rightarrow> Transition_Pair key j)\<rparr>)"
definition upgrade :: "'h shapes_scheme \<Rightarrow> nat \<Rightarrow> nat option" where
  "upgrade h j = (if structs h j = None then None else Some j)"
definition transitions_find ::
  "'h shapes_scheme \<Rightarrow> transitions_table \<Rightarrow> symbol \<Rightarrow> attr_safe \<Rightarrow> nat option" where
  "transitions_find h tt name attrs =
     (let key = (name, attrs) in
      case tt_var tt of
        Transition_Table tb \<Rightarrow> Option.bind (map_of tb key) (upgrade h)
      | Transition_Pair key' j \<Rightarrow> (if key = key' then upgrade h j else None)
      | Transition_None \<Rightarrow> None)"

definition deleted_push :: "nat \<Rightarrow> struct \<Rightarrow> struct" where
  "deleted_push off s = s\<lparr>st_deleted_size := as_u32 (st_deleted_size s + 1), st_deleted := off # st_deleted s\<rparr>"
definition deleted_pop :: "struct \<Rightarrow> (nat \<times> struct) panics" where
  "deleted_pop s =
     (case st_deleted s of [] \<Rightarrow> None
      | off # rest \<Rightarrow> Some (off, s\<lparr>st_deleted := rest, st_deleted_size := st_deleted_size s - 1\<rparr>))"
definition deleted_empty :: "struct \<Rightarrow> bool" where
  "deleted_empty s = (st_deleted_size s = 0)"

section \<open>Readers\<close>

definition is_unique :: "struct \<Rightarrow> bool" where
  "is_unique s = (\<not> tt_enabled (st_transitions s))"
definition st_is_indexed :: "struct \<Rightarrow> bool" where
  "st_is_indexed s = tt_indexed (st_transitions s)"
definition is_shaped :: "struct \<Rightarrow> bool" where
  "is_shaped s = (\<not> is_unique s \<or> tt_enabled (st_transitions s))"
definition has_table :: "struct \<Rightarrow> bool" where
  "has_table s = (st_table s \<noteq> None)"
definition is_adding_map :: "struct \<Rightarrow> bool" where
  "is_adding_map s = (fst (st_added s) \<noteq> DUMMY_SYMBOL)"
definition get_slots_size :: "'h shapes_scheme \<Rightarrow> struct \<Rightarrow> nat" where
  "get_slots_size h s =
     (case st_table s of Some t \<Rightarrow> length (table_of h t) + st_deleted_size s
      | None \<Rightarrow> st_calculated_size s)"

section \<open>Constructors\<close>

definition blank_struct :: "u64 option \<Rightarrow> bool \<Rightarrow> bool \<Rightarrow> struct" where
  "blank_struct proto unique indexed =
     \<lparr>st_id = 0, st_transitions = transitions_new (\<not> unique) indexed, st_table = None,
      st_deleted = [], st_deleted_size = 0, st_added = (DUMMY_SYMBOL, entry_not_found),
      st_previous = None, st_prototype = proto, st_calculated_size = 0, st_transit_count = 0,
      st_flattened = False, st_chain = None\<rparr>"

definition ctor :: "nat \<Rightarrow> bool \<Rightarrow> 'h shapes_scheme \<Rightarrow> (nat \<times> 'h shapes_scheme) panics" where
  "ctor prev unique h =
     do {
       p \<leftarrow> structs h prev;
       let this = \<lparr>st_id = 0, st_transitions = transitions_new (\<not> unique) (st_is_indexed p),
             st_table = (if unique \<and> is_unique p then st_table p else None),
             st_deleted = st_deleted p, st_deleted_size = st_deleted_size p,
             st_added = (DUMMY_SYMBOL, entry_not_found), st_previous = Some prev,
             st_prototype = st_prototype p, st_calculated_size = as_u32 (get_slots_size h p),
             st_transit_count = 0, st_flattened = st_flattened p, st_chain = None\<rparr>;
           this' = this\<lparr>st_calculated_size := as_u32 (get_slots_size h this)\<rparr>
       in Some (alloc_struct this' h) }"
definition ctor1 :: "u64 option \<Rightarrow> bool \<Rightarrow> bool \<Rightarrow> 'h shapes_scheme \<Rightarrow> nat \<times> 'h shapes_scheme" where
  "ctor1 proto unique indexed h = alloc_struct (blank_struct proto unique indexed) h"
definition ctor2 ::
  "nat option \<Rightarrow> u64 option \<Rightarrow> bool \<Rightarrow> bool \<Rightarrow> 'h shapes_scheme \<Rightarrow> nat \<times> 'h shapes_scheme" where
  "ctor2 tb proto unique indexed h =
     (let s = (blank_struct proto unique indexed)\<lparr>st_table := tb\<rparr>
      in alloc_struct (s\<lparr>st_calculated_size := as_u32 (get_slots_size h s)\<rparr>) h)"

text \<open>\<open>collect\<close> into a hash map: a later entry of the slice replaces an earlier one.\<close>

definition collect_table :: "(symbol \<times> map_entry) list \<Rightarrow> target_table" where
  "collect_table it = fold (\<lambda>(k, e) tb. AList.update k e tb) it []"
definition ctor3 :: "(symbol \<times> map_entry) list \<Rightarrow> 'h shapes_scheme \<Rightarrow> nat \<times> 'h shapes_scheme" where
  "ctor3 it h =
     (let (t, h1) = alloc_table (collect_table it) h;
          s = (blank_struct None False False)\<lparr>st_table := Some t\<rparr>
      in alloc_struct (s\<lparr>st_calculated_size := as_u32 (get_slots_size h1 s)\<rparr>) h1)"

definition new_shape :: "nat \<Rightarrow> 'h shapes_scheme \<Rightarrow> (nat \<times> 'h shapes_scheme) panics" where
  "new_shape prev h = ctor prev False h"
definition new_unique :: "nat \<Rightarrow> 'h shapes_scheme \<Rightarrow> (nat \<times> 'h shapes_scheme) panics" where
  "new_unique prev h = ctor prev True h"
definition new_unique_with_proto :: "u64 option \<Rightarrow> bool \<Rightarrow> 'h shapes_scheme \<Rightarrow> nat \<times> 'h shapes_scheme" where
  "new_unique_with_proto proto indexed h = ctor2 None proto True indexed h"
definition new_from_slice :: "(symbol \<times> map_entry) list \<Rightarrow> 'h shapes_scheme \<Rightarrow> nat \<times> 'h shapes_scheme" where
  "new_from_slice it h = ctor3 it h"
definition new_from_table ::
  "target_table option \<Rightarrow> u64 option \<Rightarrow> bool \<Rightarrow> bool \<Rightarrow> 'h shapes_scheme \<Rightarrow> nat \<times> 'h shapes_scheme" where
  "new_from_table tb proto unique indexed h =
     (case tb of None \<Rightarrow> ctor2 None proto unique indexed h
      | Some b \<Rightarrow> (let (t, h1) = alloc_table b h in ctor2 (Some t) proto unique indexed h1))"
definition new_indexed :: "u64 option \<Rightarrow> bool \<Rightarrow> 'h shapes_scheme \<Rightarrow> nat \<times> 'h shapes_scheme" where
  "new_indexed proto indexed h = ctor1 proto False indexed h"
definition new_unique_indexed :: "u64 option \<Rightarrow> bool \<Rightarrow> 'h shapes_scheme \<Rightarrow> nat \<times> 'h shapes_scheme" where
  "new_unique_indexed proto indexed h = ctor1 proto True indexed h"
definition new_from_point :: "nat \<Rightarrow> 'h shapes_scheme \<Rightarrow> (nat \<times> 'h shapes_scheme) panics" where
  "new_from_point pt h =
     do { s \<leftarrow> structs h pt; if is_unique s then new_unique pt h else Some (pt, h) }"

section \<open>The lazily built table\<close>

text \<open>The loop of \<open>allocate_table\<close> over the previous structures: it stops at the first one that has
  a table, or at the root, with the adding structures met on the way.\<close>

partial_function (option) walk_chain ::
  "'h shapes_scheme \<Rightarrow> nat option \<Rightarrow> nat list \<Rightarrow> (nat list \<times> target_table) option" where
  "walk_chain h current stack =
     (case current of
        None \<Rightarrow> Some (stack, [])
      | Some c \<Rightarrow>
          (case structs h c of
             None \<Rightarrow> None
           | Some cur \<Rightarrow>
               (case st_table cur of
                  Some t \<Rightarrow> Some (stack, table_of h t)
                | None \<Rightarrow> walk_chain h (st_previous cur)
                    (if is_adding_map cur then stack @ [c] else stack))))"

fun insert_added :: "'h shapes_scheme \<Rightarrow> nat list \<Rightarrow> target_table \<Rightarrow> target_table" where
  "insert_added h [] tb = tb"
| "insert_added h (i # stack) tb =
     (case structs h i of
        None \<Rightarrow> insert_added h stack tb
      | Some s \<Rightarrow> insert_added h stack (AList.update (fst (st_added s)) (snd (st_added s)) tb))"

definition allocate_table :: "nat \<Rightarrow> 'h shapes_scheme \<Rightarrow> 'h shapes_scheme panics" where
  "allocate_table i h =
     do {
       s \<leftarrow> structs h i;
       (stack, base) \<leftarrow> walk_chain h (st_previous s) (if is_adding_map s then [i] else []);
       let (t, h1) = alloc_table (insert_added h stack base) h
       in Some (set_struct i (s\<lparr>st_table := Some t, st_previous := None\<rparr>) h1) }"

definition allocate_table_if_needed :: "nat \<Rightarrow> 'h shapes_scheme \<Rightarrow> (bool \<times> 'h shapes_scheme) panics" where
  "allocate_table_if_needed i h =
     do {
       s \<leftarrow> structs h i;
       if \<not> has_table s then
         (if st_previous s = None then Some (False, h)
          else do { h1 \<leftarrow> allocate_table i h; Some (True, h1) })
       else Some (True, h) }"

definition struct_table :: "nat \<Rightarrow> 'h shapes_scheme \<Rightarrow> target_table panics" where
  "struct_table i h = do { s \<leftarrow> structs h i; t \<leftarrow> st_table s; tables h t }"

definition structure_get ::
  "nat \<Rightarrow> symbol \<Rightarrow> 'h shapes_scheme \<Rightarrow> (map_entry \<times> 'h shapes_scheme) panics" where
  "structure_get i name h =
     (let lookup = (\<lambda>h'. do { tb \<leftarrow> struct_table i h';
             Some (case map_of tb name of Some e \<Rightarrow> e | None \<Rightarrow> entry_not_found, h') })
      in do {
        s \<leftarrow> structs h i;
        if \<not> has_table s then
          (if st_previous s = None then Some (entry_not_found, h)
           else if is_adding_map s \<and> fst (st_added s) = name then Some (snd (st_added s), h)
           else do { h1 \<leftarrow> allocate_table i h; lookup h1 })
        else lookup h })"

section \<open>Transitions\<close>

definition structure_delete :: "nat \<Rightarrow> symbol \<Rightarrow> 'h shapes_scheme \<Rightarrow> 'h shapes_scheme panics" where
  "structure_delete i name h =
     do {
       s \<leftarrow> structs h i;
       t \<leftarrow> st_table s;
       tb \<leftarrow> tables h t;
       e \<leftarrow> map_of tb name;
       Some (set_struct i (deleted_push (me_offset e) s) (set_table t (AList.delete name tb) h)) }"

definition change_attributes :: "nat \<Rightarrow> symbol \<Rightarrow> attr_safe \<Rightarrow> 'h shapes_scheme \<Rightarrow> 'h shapes_scheme panics" where
  "change_attributes i name attrs h =
     do {
       s \<leftarrow> structs h i;
       t \<leftarrow> st_table s;
       tb \<leftarrow> tables h t;
       e \<leftarrow> map_of tb name;
       Some (set_table t (AList.update name (e\<lparr>me_attrs := attrs\<rparr>) tb) h) }"

definition flatten :: "nat \<Rightarrow> 'h shapes_scheme \<Rightarrow> 'h shapes_scheme panics" where
  "flatten i h =
     do {
       s \<leftarrow> structs h i;
       Some (if is_unique s then
               set_struct i (s\<lparr>st_transitions := enable_unique_transition (st_transitions s),
                               st_flattened := True\<rparr>) h
             else h) }"

definition ensure_table :: "nat \<Rightarrow> 'h shapes_scheme \<Rightarrow> 'h shapes_scheme panics" where
  "ensure_table i h = do { s \<leftarrow> structs h i; if \<not> has_table s then allocate_table i h else Some h }"

definition delete_property_transition ::
  "nat \<Rightarrow> symbol \<Rightarrow> 'h shapes_scheme \<Rightarrow> (nat \<times> 'h shapes_scheme) panics" where
  "delete_property_transition i name h =
     do {
       (m, h1) \<leftarrow> new_unique i h;
       h2 \<leftarrow> ensure_table m h1;
       h3 \<leftarrow> structure_delete m name h2;
       Some (m, h3) }"

text \<open>\<open>self\<close>, or a new unique structure when unique transitions are enabled.\<close>

definition unique_target :: "nat \<Rightarrow> 'h shapes_scheme \<Rightarrow> (nat \<times> 'h shapes_scheme) panics" where
  "unique_target i h =
     do { s \<leftarrow> structs h i; if tt_unique (st_transitions s) then new_unique i h else Some (i, h) }"

text \<open>The recursive calls below are on the structure \<open>new_unique\<close> returns, which is unique.\<close>

definition change_indexed_unique :: "nat \<Rightarrow> 'h shapes_scheme \<Rightarrow> (nat \<times> 'h shapes_scheme) panics" where
  "change_indexed_unique i h =
     do {
       (m, h1) \<leftarrow> unique_target i h;
       s \<leftarrow> structs h1 m;
       Some (m, set_struct m (s\<lparr>st_transitions := set_indexed True (st_transitions s)\<rparr>) h1) }"
definition change_indexed_transition :: "nat \<Rightarrow> 'h shapes_scheme \<Rightarrow> (nat \<times> 'h shapes_scheme) panics" where
  "change_indexed_transition i h =
     do {
       s \<leftarrow> structs h i;
       if is_unique s then change_indexed_unique i h
       else do { (m, h1) \<leftarrow> new_unique i h; change_indexed_unique m h1 } }"

definition change_prototype_unique ::
  "nat \<Rightarrow> u64 option \<Rightarrow> 'h shapes_scheme \<Rightarrow> (nat \<times> 'h shapes_scheme) panics" where
  "change_prototype_unique i proto h =
     do {
       (m, h1) \<leftarrow> unique_target i h;
       s \<leftarrow> structs h1 m;
       Some (m, set_struct m (s\<lparr>st_prototype := proto\<rparr>) h1) }"
definition change_prototype_transition ::
  "nat \<Rightarrow> u64 option \<Rightarrow> 'h shapes_scheme \<Rightarrow> (nat \<times> 'h shapes_scheme) panics" where
  "change_prototype_transition i proto h =
     do {
       s \<leftarrow> structs h i;
       if is_unique s then change_prototype_unique i proto h
       else do { (m, h1) \<leftarrow> new_unique i h; change_prototype_unique m proto h1 } }"
definition change_prototype_with_no_transition ::
  "nat \<Rightarrow> u64 \<Rightarrow> 'h shapes_scheme \<Rightarrow> (nat \<times> 'h shapes_scheme) panics" where
  "change_prototype_with_no_transition i proto h =
     do { s \<leftarrow> structs h i; Some (i, set_struct i (s\<lparr>st_prototype := Some proto\<rparr>) h) }"

definition change_extensible_transition :: "nat \<Rightarrow> 'h shapes_scheme \<Rightarrow> (nat \<times> 'h shapes_scheme) panics" where
  "change_extensible_transition i h = new_unique i h"
definition change_attributes_transition ::
  "nat \<Rightarrow> symbol \<Rightarrow> attr_safe \<Rightarrow> 'h shapes_scheme \<Rightarrow> (nat \<times> 'h shapes_scheme) panics" where
  "change_attributes_transition i name attrs h =
     do {
       (m, h1) \<leftarrow> new_unique i h;
       h2 \<leftarrow> ensure_table m h1;
       h3 \<leftarrow> change_attributes m name attrs h2;
       Some (m, h3) }"

text \<open>The names \<open>get_own_property_names\<close> hands to the collector, with their offsets.\<close>

definition get_own_property_names ::
  "nat \<Rightarrow> bool \<Rightarrow> 'h shapes_scheme \<Rightarrow> ((symbol \<times> nat) list \<times> 'h shapes_scheme) panics" where
  "get_own_property_names i include h =
     do {
       (ok, h1) \<leftarrow> allocate_table_if_needed i h;
       if ok then
         do { tb \<leftarrow> struct_table i h1;
              Some (map (\<lambda>(k, e). (k, me_offset e))
                      (filter (\<lambda>(k, e). include \<or> is_enumerable (me_attrs e)) tb), h1) }
       else Some ([], h1) }"

definition add_property_unique ::
  "nat \<Rightarrow> symbol \<Rightarrow> attr_safe \<Rightarrow> 'h shapes_scheme \<Rightarrow> (nat \<times> nat \<times> 'h shapes_scheme) panics" where
  "add_property_unique i name attrs h =
     do {
       h1 \<leftarrow> ensure_table i h;
       (m, h2) \<leftarrow> unique_target i h1;
       ms \<leftarrow> structs h2 m;
       (off, h3) \<leftarrow>
         (if \<not> deleted_empty ms then
            do { (off, ms') \<leftarrow> deleted_pop ms; Some (off, set_struct m ms' h2) }
          else do { self \<leftarrow> structs h2 i; Some (as_u32 (get_slots_size h2 self), h2) });
       t \<leftarrow> st_table ms;
       tb \<leftarrow> tables h3 t;
       Some (m, off, set_table t (AList.update name \<lparr>me_offset = off, me_attrs = attrs\<rparr> tb) h3) }"

definition add_property_new ::
  "nat \<Rightarrow> symbol \<Rightarrow> attr_safe \<Rightarrow> 'h shapes_scheme \<Rightarrow> (nat \<times> nat \<times> 'h shapes_scheme) panics" where
  "add_property_new i name attrs h =
     do {
       (m, h1) \<leftarrow> new_shape i h;
       ms \<leftarrow> structs h1 m;
       self \<leftarrow> structs h1 i;
       ms1 \<leftarrow>
         (if \<not> deleted_empty ms then
            do { (off, ms') \<leftarrow> deleted_pop ms;
                 Some (ms'\<lparr>st_added := (name, \<lparr>me_offset = off, me_attrs = attrs\<rparr>),
                           st_calculated_size := as_u32 (get_slots_size h1 self)\<rparr>) }
          else
            Some (ms\<lparr>st_added := (name, \<lparr>me_offset = as_u32 (get_slots_size h1 self), me_attrs = attrs\<rparr>),
                     st_calculated_size := as_u32 (as_u32 (get_slots_size h1 self) + 1)\<rparr>));
       let ms2 = ms1\<lparr>st_transit_count := as_u32 (st_transit_count ms1 + 1)\<rparr>;
           self' = self\<lparr>st_transitions := transitions_insert name attrs m (st_transitions self)\<rparr>;
           h2 = set_struct i self' (set_struct m ms2 h1);
           off = me_offset (snd (st_added ms2))
       in if as_u32 (get_slots_size h2 ms2) > off then Some (m, off, h2) else None }"

definition add_property_transition ::
  "nat \<Rightarrow> symbol \<Rightarrow> attr_safe \<Rightarrow> 'h shapes_scheme \<Rightarrow> (nat \<times> nat \<times> 'h shapes_scheme) panics" where
  "add_property_transition i name attrs h =
     do {
       s \<leftarrow> structs h i;
       if is_unique s then add_property_unique i name attrs h
       else
         (case transitions_find h (st_transitions s) name attrs of
            Some m \<Rightarrow> do { ms \<leftarrow> structs h m; Some (m, me_offset (snd (st_added ms)), h) }
          | None \<Rightarrow>
              if st_transit_count s > 64 then
                do { (m, h1) \<leftarrow> new_unique i h; add_property_unique m name attrs h1 }
              else add_property_new i name attrs h) }"

section \<open>Storage capacity\<close>

definition clp2 :: "u64 \<Rightarrow> u64" where
  "clp2 number =
     (let x = number - 1;
          x = x OR drop_bit 1 x;
          x = x OR drop_bit 2 x;
          x = x OR drop_bit 4 x;
          x = x OR drop_bit 8 x;
          x = x OR drop_bit 16 x
      in x + 1)"
definition storage_capacity :: "'h shapes_scheme \<Rightarrow> struct \<Rightarrow> nat" where
  "storage_capacity h s =
     (let sz = get_slots_size h s in
      if sz = 0 then 0 else if sz < 8 then 8 else unat (clp2 (word_of_nat sz)))"

section \<open>StructureBuilder\<close>

record structure_builder =
  sb_table :: target_table
  sb_prototype :: "u64 option"

definition builder_new :: "u64 option \<Rightarrow> structure_builder" where
  "builder_new proto = \<lparr>sb_table = [], sb_prototype = proto\<rparr>"
definition builder_find :: "structure_builder \<Rightarrow> symbol \<Rightarrow> map_entry option" where
  "builder_find b name = map_of (sb_table b) name"
definition builder_add_at ::
  "structure_builder \<Rightarrow> symbol \<Rightarrow> nat \<Rightarrow> attr_safe \<Rightarrow> (map_entry \<times> structure_builder) panics" where
  "builder_add_at b name index attrs =
     (if builder_find b name \<noteq> None then None
      else let e = \<lparr>me_offset = as_u32 index, me_attrs = attrs\<rparr>
        in Some (e, b\<lparr>sb_table := AList.update name e (sb_table b)\<rparr>))"
definition builder_add ::
  "structure_builder \<Rightarrow> symbol \<Rightarrow> attr_safe \<Rightarrow> (map_entry \<times> structure_builder) panics" where
  "builder_add b name attrs = builder_add_at b name (length (sb_table b)) attrs"
definition builder_override ::
  "structure_builder \<Rightarrow> symbol \<Rightarrow> map_entry \<Rightarrow> structure_builder panics" where
  "builder_override b name e =
     (if map_of (sb_table b) name = None then None
      else Some (b\<lparr>sb_table := AList.update name e (sb_table b)\<rparr>))"
definition builder_build ::
  "structure_builder \<Rightarrow> bool \<Rightarrow> bool \<Rightarrow> 'h shapes_scheme \<Rightarrow> nat \<times> 'h shapes_scheme" where
  "builder_build b unique indexed h =
     new_from_table (Some (sb_table b)) (sb_prototype b) unique indexed h"

end
