(* ===== verification/Shape_Facts.thy ===== *)
theory Shape_Facts
  imports Structure
begin

text \<open>
  What a structure means, and that the lazily built and shared tables of theory \<open>Structure\<close>
  implement it. \<open>shape_map\<close> is the abstract view: the property map of a structure is that of its
  table, or else that of the previous structure extended by the added property. \<open>shapes_wf\<close> is the
  invariant of the heap of structures, and \<open>tight\<close> says that the offsets of a structure and its
  deleted offsets are exactly the slots \<open>0 .. size - 1\<close>, each used once.
\<close>

section \<open>The abstract view\<close>

partial_function (option) shape_map :: "'h shapes_scheme \<Rightarrow> nat \<Rightarrow> (symbol \<Rightarrow> map_entry option) option" where
  "shape_map h i =
     (case structs h i of
        None \<Rightarrow> None
      | Some s \<Rightarrow>
          (case st_table s of
             Some t \<Rightarrow> Some (map_of (table_of h t))
           | None \<Rightarrow>
               (case st_previous s of
                  None \<Rightarrow> Some Map.empty
                | Some p \<Rightarrow>
                    Option.bind (shape_map h p)
                      (\<lambda>m. Some (if is_adding_map s then m(fst (st_added s) \<mapsto> snd (st_added s)) else m)))))"

definition slot_of :: "(symbol \<Rightarrow> map_entry option) \<Rightarrow> symbol \<Rightarrow> nat" where
  "slot_of m k = me_offset (the (m k))"

definition tight :: "'h shapes_scheme \<Rightarrow> nat \<Rightarrow> bool" where
  "tight h i \<longleftrightarrow>
     (\<exists>s m. structs h i = Some s \<and> shape_map h i = Some m \<and> finite (dom m) \<and>
        st_deleted_size s = length (st_deleted s) \<and> distinct (st_deleted s) \<and>
        set (st_deleted s) \<subseteq> {..<get_slots_size h s} \<and>
        bij_betw (slot_of m) (dom m) ({..<get_slots_size h s} - set (st_deleted s)) \<and>
        get_slots_size h s < 2 ^ 32)"

definition transition_list :: "transitions_table \<Rightarrow> (transition_key \<times> nat) list" where
  "transition_list tt =
     (case tt_var tt of Transition_None \<Rightarrow> [] | Transition_Table tb \<Rightarrow> tb | Transition_Pair k j \<Rightarrow> [(k, j)])"

definition links_ok :: "'h shapes_scheme \<Rightarrow> bool" where
  "links_ok h \<longleftrightarrow>
     (\<forall>i s. structs h i = Some s \<longrightarrow>
        i < next_struct h \<and>
        (\<forall>p. st_previous s = Some p \<longrightarrow> p < i \<and> structs h p \<noteq> None) \<and>
        (\<forall>t. st_table s = Some t \<longrightarrow> t < next_table h \<and> (\<exists>tb. tables h t = Some tb \<and> distinct (map fst tb))))"

definition sharing_ok :: "'h shapes_scheme \<Rightarrow> bool" where
  "sharing_ok h \<longleftrightarrow>
     (\<forall>i s. structs h i = Some s \<and> \<not> is_unique s \<longrightarrow>
        (\<forall>p ps. st_previous s = Some p \<and> structs h p = Some ps \<longrightarrow> \<not> is_unique ps) \<and>
        (\<forall>j sj t. structs h j = Some sj \<and> j \<noteq> i \<and> st_table s = Some t \<longrightarrow> st_table sj \<noteq> Some t))"

definition adding_ok :: "'h shapes_scheme \<Rightarrow> bool" where
  "adding_ok h \<longleftrightarrow>
     (\<forall>i s. structs h i = Some s \<and> is_adding_map s \<longrightarrow>
        \<not> is_unique s \<and>
        (st_table s = None \<longrightarrow>
          (\<exists>p m. st_previous s = Some p \<and> shape_map h p = Some m \<and> m (fst (st_added s)) = None)))"

definition transitions_ok :: "'h shapes_scheme \<Rightarrow> bool" where
  "transitions_ok h \<longleftrightarrow>
     (\<forall>i s k j. structs h i = Some s \<and> (k, j) \<in> set (transition_list (st_transitions s)) \<longrightarrow>
        \<not> is_unique s \<and> j < next_struct h \<and>
        (\<forall>sj. structs h j = Some sj \<longrightarrow>
          \<not> is_unique sj \<and> fst (st_added sj) = fst k \<and> me_attrs (snd (st_added sj)) = snd k \<and>
          (\<exists>m. shape_map h i = Some m \<and> m (fst k) = None \<and> shape_map h j = Some (m(fst k \<mapsto> snd (st_added sj))))))"

definition counts_ok :: "'h shapes_scheme \<Rightarrow> bool" where
  "counts_ok h \<longleftrightarrow>
     (\<forall>i s. structs h i = Some s \<longrightarrow>
        st_transit_count s \<le> 1 \<and> (\<not> is_unique s \<longrightarrow> st_deleted s = [] \<and> st_deleted_size s = 0))"

definition tight_ok :: "'h shapes_scheme \<Rightarrow> bool" where
  "tight_ok h \<longleftrightarrow> (\<forall>i s. structs h i = Some s \<and> \<not> is_unique s \<longrightarrow> tight h i)"

definition shapes_wf :: "'h shapes_scheme \<Rightarrow> bool" where
  "shapes_wf h \<longleftrightarrow> links_ok h \<and> sharing_ok h \<and> adding_ok h \<and> transitions_ok h \<and> counts_ok h \<and> tight_ok h"

lemmas shape_ops = alloc_table_def set_table_def alloc_struct_def set_struct_def

section \<open>Chains\<close>

lemma linksD:
  assumes "links_ok h" "structs h i = Some s"
  shows "i < next_struct h"
    and "st_previous s = Some p \<Longrightarrow> p < i \<and> structs h p \<noteq> None"
    and "st_table s = Some t \<Longrightarrow> t < next_table h \<and> (\<exists>tb. tables h t = Some tb \<and> distinct (map fst tb))"
  using assms unfolding links_ok_def by blast+

lemma addingD:
  assumes "adding_ok h" "structs h i = Some s" "is_adding_map s"
  shows "\<not> is_unique s"
    and "st_table s = None \<Longrightarrow> \<exists>p m. st_previous s = Some p \<and> shape_map h p = Some m \<and> m (fst (st_added s)) = None"
  using assms unfolding adding_ok_def by blast+

lemma shape_map_table: "structs h i = Some s \<Longrightarrow> st_table s = Some t \<Longrightarrow> shape_map h i = Some (map_of (table_of h t))"
  by (subst shape_map.simps) simp

lemma shape_map_root: "structs h i = Some s \<Longrightarrow> st_table s = None \<Longrightarrow> st_previous s = None \<Longrightarrow> shape_map h i = Some Map.empty"
  by (subst shape_map.simps) simp

lemma shape_map_link:
  "structs h i = Some s \<Longrightarrow> st_table s = None \<Longrightarrow> st_previous s = Some p \<Longrightarrow>
   shape_map h i = Option.bind (shape_map h p)
     (\<lambda>m. Some (if is_adding_map s then m(fst (st_added s) \<mapsto> snd (st_added s)) else m))"
  by (subst shape_map.simps) simp

lemma chain_induct [consumes 2, case_names table root link]:
  assumes "links_ok h" "structs h i = Some s"
    and "\<And>i s t. structs h i = Some s \<Longrightarrow> st_table s = Some t \<Longrightarrow> P i s"
    and "\<And>i s. structs h i = Some s \<Longrightarrow> st_table s = None \<Longrightarrow> st_previous s = None \<Longrightarrow> P i s"
    and "\<And>i s p ps. structs h i = Some s \<Longrightarrow> st_table s = None \<Longrightarrow> st_previous s = Some p \<Longrightarrow>
        structs h p = Some ps \<Longrightarrow> P p ps \<Longrightarrow> P i s"
  shows "P i s"
  using assms(2)
proof (induction i arbitrary: s rule: less_induct)
  case (less i)
  show ?case
  proof (cases "st_table s")
    case None
    show ?thesis
    proof (cases "st_previous s")
      case (Some p)
      with linksD(2) [OF assms(1) less.prems] obtain ps where "p < i" "structs h p = Some ps" by auto
      with less None Some assms(5) show ?thesis by blast
    qed (use None less.prems assms(4) in blast)
  qed (use less.prems assms(3) in blast)
qed

lemma shape_map_exists: "links_ok h \<Longrightarrow> structs h i = Some s \<Longrightarrow> \<exists>m. shape_map h i = Some m"
  by (induction rule: chain_induct) (auto simp: shape_map_table shape_map_root shape_map_link)

text \<open>Two heaps agree on the meaning of a structure when they agree on its chain.\<close>

lemma shape_map_cong:
  assumes "links_ok h" "structs h i = Some s" "P i"
    and step: "\<And>k ks. P k \<Longrightarrow> structs h k = Some ks \<Longrightarrow>
      shape_map h' k = shape_map h k \<or>
      (\<exists>ks'. structs h' k = Some ks' \<and> st_table ks' = st_table ks \<and> st_previous ks' = st_previous ks \<and>
        st_added ks' = st_added ks \<and> (\<forall>t. st_table ks = Some t \<longrightarrow> table_of h' t = table_of h t) \<and>
        (\<forall>p. st_previous ks = Some p \<longrightarrow> P p))"
  shows "shape_map h' i = shape_map h i"
  using assms(1-3)
proof (induction rule: chain_induct)
  case (table i s t)
  with step [of i s] show ?case by (auto simp: shape_map_table)
next
  case (root i s)
  with step [of i s] show ?case by (auto simp: shape_map_root)
next
  case (link i s p ps)
  with step [of i s] show ?case by (auto simp: shape_map_link is_adding_map_def cong: if_cong)
qed

section \<open>Building a table\<close>

lemma map_of_update [simp]: "map_of (AList.update k v al) = (map_of al)(k \<mapsto> v)"
  by (rule ext) (simp add: update_conv)

lemma insert_added_distinct: "distinct (map fst tb) \<Longrightarrow> distinct (map fst (insert_added h xs tb))"
  by (induction h xs tb rule: insert_added.induct) (auto simp: distinct_update split: option.splits)

definition added_names :: "'h shapes_scheme \<Rightarrow> nat list \<Rightarrow> symbol set" where
  "added_names h xs = {n. \<exists>i\<in>set xs. \<exists>s. structs h i = Some s \<and> n = fst (st_added s)}"

lemma insert_added_dom:
  "n \<in> added_names h xs \<or> map_of tb n \<noteq> None \<Longrightarrow> map_of (insert_added h xs tb) n \<noteq> None"
proof (induction xs arbitrary: tb)
  case (Cons i xs)
  show ?case
  proof (cases "structs h i")
    case None
    with Cons show ?thesis by (auto simp: added_names_def)
  next
    case (Some s)
    have "n \<in> added_names h xs \<or> map_of (AList.update (fst (st_added s)) (snd (st_added s)) tb) n \<noteq> None"
      using Cons.prems Some by (auto simp: added_names_def)
    from Cons.IH [OF this] Some show ?thesis by simp
  qed
qed (simp add: added_names_def)

lemma insert_added_update:
  "n \<notin> added_names h xs \<Longrightarrow>
   map_of (insert_added h xs (AList.update n e tb)) = (map_of (insert_added h xs tb))(n \<mapsto> e)"
proof -
  have cong: "map_of tb1 = map_of tb2 \<Longrightarrow> map_of (insert_added h xs tb1) = map_of (insert_added h xs tb2)" for xs tb1 tb2
  proof (induction xs arbitrary: tb1 tb2)
    case (Cons i xs)
    show ?case
    proof (cases "structs h i")
      case None
      with Cons.IH [OF Cons.prems] show ?thesis by simp
    next
      case (Some s)
      have "map_of (AList.update (fst (st_added s)) (snd (st_added s)) tb1) =
          map_of (AList.update (fst (st_added s)) (snd (st_added s)) tb2)"
        using Cons.prems by simp
      from Cons.IH [OF this] Some show ?thesis by simp
    qed
  qed simp
  show "n \<notin> added_names h xs \<Longrightarrow>
      map_of (insert_added h xs (AList.update n e tb)) = (map_of (insert_added h xs tb))(n \<mapsto> e)"
  proof (induction xs arbitrary: tb)
    case (Cons i xs)
    show ?case
    proof (cases "structs h i")
      case None
      with Cons show ?thesis by (auto simp: added_names_def)
    next
      case (Some s)
      with Cons.prems have "fst (st_added s) \<noteq> n" "n \<notin> added_names h xs" by (auto simp: added_names_def)
      then have "map_of (insert_added h xs (AList.update (fst (st_added s)) (snd (st_added s)) (AList.update n e tb)))
          = map_of (insert_added h xs (AList.update n e (AList.update (fst (st_added s)) (snd (st_added s)) tb)))"
        by (intro cong) (simp only: map_of_update fun_upd_twist [OF \<open>fst (st_added s) \<noteq> n\<close>])
      with Some Cons.IH [OF \<open>n \<notin> added_names h xs\<close>] show ?thesis by simp
    qed
  qed simp
qed

lemma walk_chain_spec:
  assumes "links_ok h" "adding_ok h" "structs h c = Some s"
  shows "\<exists>rest base. (\<forall>stack. walk_chain h (Some c) stack = Some (stack @ rest, base)) \<and> distinct (map fst base) \<and>
    shape_map h c = Some (map_of (insert_added h rest base))"
  using assms(1,3)
proof (induction rule: chain_induct)
  case (table i s t)
  with linksD(3) [OF assms(1) table] show ?case
    by (intro exI [of _ "[] :: nat list"] exI [of _ "table_of h t"])
      (auto simp: walk_chain.simps [of h "Some i"] shape_map_table table_of_def)
next
  case (root i s)
  then have "\<not> is_adding_map s" using addingD(2) [OF assms(2), of i s] by auto
  with root show ?case
    by (intro exI [of _ "[]"])
      (auto simp: walk_chain.simps [of h "Some i"] walk_chain.simps [of h None] shape_map_root)
next
  case (link i s p ps)
  then obtain rest base where ih: "\<And>stack. walk_chain h (Some p) stack = Some (stack @ rest, base)"
    "distinct (map fst base)" "shape_map h p = Some (map_of (insert_added h rest base))"
    by blast
  show ?case
  proof (cases "is_adding_map s")
    case False
    with link ih show ?thesis
      by (intro exI [of _ rest] exI [of _ base])
        (simp add: walk_chain.simps [of h "Some i"] shape_map_link)
  next
    case True
    with link assms(2) ih(3) have "map_of (insert_added h rest base) (fst (st_added s)) = None"
      using addingD(2) [OF assms(2), of i s] by auto
    then have "fst (st_added s) \<notin> added_names h rest"
      using insert_added_dom [of _ h rest base] by blast
    with True link ih show ?thesis
      by (intro exI [of _ "i # rest"] exI [of _ base])
        (simp add: walk_chain.simps [of h "Some i"] shape_map_link insert_added_update fun_upd_def)
  qed
qed

section \<open>Preservation, in general\<close>

lemma wfD:
  assumes "shapes_wf h"
  shows "links_ok h" "sharing_ok h" "adding_ok h" "transitions_ok h" "counts_ok h" "tight_ok h"
  using assms unfolding shapes_wf_def by simp_all

lemma transitionsD:
  assumes "transitions_ok h" "structs h i = Some s" "(k, j) \<in> set (transition_list (st_transitions s))"
  shows "\<not> is_unique s" "j < next_struct h"
    and "structs h j = Some sj \<Longrightarrow> \<not> is_unique sj \<and> fst (st_added sj) = fst k \<and> me_attrs (snd (st_added sj)) = snd k \<and>
        (\<exists>m. shape_map h i = Some m \<and> m (fst k) = None \<and> shape_map h j = Some (m(fst k \<mapsto> snd (st_added sj))))"
  using assms unfolding transitions_ok_def by blast+

lemma sharingD:
  assumes "sharing_ok h" "structs h i = Some s" "\<not> is_unique s"
  shows "st_previous s = Some p \<Longrightarrow> structs h p = Some ps \<Longrightarrow> \<not> is_unique ps"
    and "structs h j = Some sj \<Longrightarrow> j \<noteq> i \<Longrightarrow> st_table s = Some t \<Longrightarrow> st_table sj \<noteq> Some t"
  using assms unfolding sharing_ok_def by blast+

text \<open>The structure \<open>k\<close> has the same meaning and the same slots in both heaps.\<close>

definition same_at :: "'h shapes_scheme \<Rightarrow> 'h shapes_scheme \<Rightarrow> nat \<Rightarrow> struct \<Rightarrow> struct \<Rightarrow> bool" where
  "same_at h h' k s s' \<longleftrightarrow>
     is_unique s' = is_unique s \<and> st_added s' = st_added s \<and> st_deleted s' = st_deleted s \<and>
     st_deleted_size s' = st_deleted_size s \<and>
     transition_list (st_transitions s') = transition_list (st_transitions s) \<and>
     get_slots_size h' s' = get_slots_size h s \<and> shape_map h' k = shape_map h k"

lemma tight_same:
  assumes "tight h k" "structs h k = Some s" "structs h' k = Some s'" "same_at h h' k s s'"
  shows "tight h' k"
proof -
  have e: "shape_map h' k = shape_map h k" "st_deleted s' = st_deleted s"
    "st_deleted_size s' = st_deleted_size s" "get_slots_size h' s' = get_slots_size h s"
    using assms(4) by (simp_all add: same_at_def)
  show ?thesis using assms(1-3) unfolding tight_def by (simp add: e)
qed

lemma wf_frame:
  assumes wf: "shapes_wf h" and base: "links_ok h'" "counts_ok h'" "sharing_ok h'" "next_struct h \<le> next_struct h'"
    and uniq: "\<And>k s. structs h' k = Some s \<Longrightarrow> is_unique s \<Longrightarrow> \<not> is_adding_map s \<and> transition_list (st_transitions s) = []"
    and old: "\<And>k s. structs h k = Some s \<Longrightarrow> \<not> is_unique s \<Longrightarrow> \<exists>s'. structs h' k = Some s'"
    and same: "\<And>k s'. structs h' k = Some s' \<Longrightarrow> \<not> is_unique s' \<Longrightarrow>
      \<exists>s. structs h k = Some s \<and> same_at h h' k s s' \<and>
        (st_table s' = None \<longrightarrow> st_table s = None \<and> st_previous s' = st_previous s)"
    and fresh: "\<And>k s. structs h' k = Some s \<Longrightarrow> structs h k = None \<Longrightarrow> next_struct h \<le> k"
    and keep: "\<And>k s s'. structs h k = Some s \<Longrightarrow> structs h' k = Some s' \<Longrightarrow> is_unique s' = is_unique s"
  shows "shapes_wf h'"
proof -
  note h = wfD [OF wf]
  have "adding_ok h'"
    unfolding adding_ok_def
  proof (intro allI impI, elim conjE)
    fix i s' assume s': "structs h' i = Some s'" "is_adding_map s'"
    then have nu: "\<not> is_unique s'" using uniq by blast
    obtain s where s: "structs h i = Some s" "same_at h h' i s s'"
      "st_table s' = None \<longrightarrow> st_table s = None \<and> st_previous s' = st_previous s"
      using same [OF s'(1) nu] by (elim exE conjE)
    have "is_adding_map s" "\<not> is_unique s" using s'(2) s(2) nu by (simp_all add: is_adding_map_def same_at_def)
    moreover
    { assume t: "st_table s' = None"
      with s addingD(2) [OF h(3) s(1) \<open>is_adding_map s\<close>] obtain p m where
        p: "st_previous s = Some p" "shape_map h p = Some m" "m (fst (st_added s)) = None" by blast
      obtain ps where ps: "structs h p = Some ps" using linksD(2) [OF h(1) s(1) p(1)] by blast
      have "\<not> is_unique ps" by (rule sharingD(1) [OF h(2) s(1) \<open>\<not> is_unique s\<close> p(1) ps])
      from old [OF ps this] obtain ps' where ps': "structs h' p = Some ps'" ..
      have "\<not> is_unique ps'" using keep [OF ps ps'] \<open>\<not> is_unique ps\<close> by simp
      from same [OF ps' this] obtain q where "same_at h h' p q ps'" by (elim exE conjE)
      then have "shape_map h' p = shape_map h p" by (simp add: same_at_def)
      with p s t have "\<exists>p m. st_previous s' = Some p \<and> shape_map h' p = Some m \<and> m (fst (st_added s')) = None"
        by (auto simp: same_at_def) }
    ultimately show "\<not> is_unique s' \<and> (st_table s' = None \<longrightarrow>
        (\<exists>p m. st_previous s' = Some p \<and> shape_map h' p = Some m \<and> m (fst (st_added s')) = None))"
      using nu by blast
  qed
  moreover have "transitions_ok h'"
    unfolding transitions_ok_def
  proof (intro allI impI, elim conjE)
    fix i s' k j assume s': "structs h' i = Some s'" "(k, j) \<in> set (transition_list (st_transitions s'))"
    then have nu: "\<not> is_unique s'" using uniq by fastforce
    obtain s where s: "structs h i = Some s" "same_at h h' i s s'"
      using same [OF s'(1) nu] by (elim exE conjE)
    have kj: "(k, j) \<in> set (transition_list (st_transitions s))" using s'(2) s(2) by (simp add: same_at_def)
    note t = transitionsD [OF h(4) s(1) kj]
    have target: "\<not> is_unique sj' \<and> fst (st_added sj') = fst k \<and> me_attrs (snd (st_added sj')) = snd k \<and>
        (\<exists>m. shape_map h' i = Some m \<and> m (fst k) = None \<and> shape_map h' j = Some (m(fst k \<mapsto> snd (st_added sj'))))"
      if sj': "structs h' j = Some sj'" for sj'
    proof -
      obtain sj where sj: "structs h j = Some sj" using fresh [OF sj'] t(2) by fastforce
      have nj: "\<not> is_unique sj'" using keep [OF sj sj'] t(3) [OF sj] by simp
      from same [OF sj' nj] sj have "same_at h h' j sj sj'" by auto
      then have e: "st_added sj' = st_added sj" "shape_map h' j = shape_map h j" "shape_map h' i = shape_map h i"
        using s(2) by (simp_all add: same_at_def)
      show ?thesis using t(3) [OF sj] nj by (simp add: e)
    qed
    then show "\<not> is_unique s' \<and> j < next_struct h' \<and> (\<forall>sj. structs h' j = Some sj \<longrightarrow> \<not> is_unique sj \<and>
        fst (st_added sj) = fst k \<and> me_attrs (snd (st_added sj)) = snd k \<and>
        (\<exists>m. shape_map h' i = Some m \<and> m (fst k) = None \<and> shape_map h' j = Some (m(fst k \<mapsto> snd (st_added sj)))))"
      using nu t(2) base(4) by auto
  qed
  moreover have "tight_ok h'"
    unfolding tight_ok_def
  proof (intro allI impI, elim conjE)
    fix i s' assume s': "structs h' i = Some s'" "\<not> is_unique s'"
    obtain s where s: "structs h i = Some s" "same_at h h' i s s'"
      using same [OF s'] by (elim exE conjE)
    with s'(2) h(6) have "tight h i" by (auto simp: tight_ok_def same_at_def)
    then show "tight h' i" by (rule tight_same [OF _ s(1) s'(1) s(2)])
  qed
  ultimately show ?thesis using base by (simp add: shapes_wf_def)
qed

lemma bij_slot_add:
  assumes "bij_betw (slot_of m) (dom m) A" "m name = None" "off \<notin> A"
  shows "bij_betw (slot_of (m(name \<mapsto> \<lparr>me_offset = off, me_attrs = attrs\<rparr>))) (insert name (dom m)) (insert off A)"
proof -
  let ?m = "m(name \<mapsto> \<lparr>me_offset = off, me_attrs = attrs\<rparr>)"
  have "bij_betw (slot_of ?m) (dom m) A"
    using assms(1,2) by (subst bij_betw_cong [of _ _ "slot_of m"]) (auto simp: slot_of_def)
  moreover have "slot_of ?m name = off" by (simp add: slot_of_def)
  ultimately show ?thesis
    using assms(2,3) notIn_Un_bij_betw [of name "dom m" "slot_of ?m" A] by (auto simp: domIff)
qed

section \<open>Allocating the table\<close>

definition with_table :: "nat \<Rightarrow> struct \<Rightarrow> target_table \<Rightarrow> 'h shapes_scheme \<Rightarrow> 'h shapes_scheme" where
  "with_table i s tb h =
     set_struct i (s\<lparr>st_table := Some (next_table h), st_previous := None\<rparr>) (snd (alloc_table tb h))"

lemma allocate_table_spec:
  assumes "links_ok h" "adding_ok h" "structs h i = Some s" "st_table s = None"
  shows "\<exists>tb. distinct (map fst tb) \<and> shape_map h i = Some (map_of tb) \<and>
    allocate_table i h = Some (with_table i s tb h)"
proof (cases "st_previous s")
  case None
  then have "\<not> is_adding_map s" using addingD(2) [OF assms(2,3)] assms(4) by auto
  with None assms show ?thesis
    by (intro exI [of _ "[]"])
      (simp add: allocate_table_def walk_chain.simps [of h None] with_table_def alloc_table_def shape_map_root)
next
  case (Some p)
  with linksD(2) [OF assms(1,3)] obtain ps where "structs h p = Some ps" by blast
  from walk_chain_spec [OF assms(1,2) this] obtain rest base where
    w: "\<And>stack. walk_chain h (Some p) stack = Some (stack @ rest, base)"
    "distinct (map fst base)" "shape_map h p = Some (map_of (insert_added h rest base))" by blast
  let ?xs = "(if is_adding_map s then [i] else []) @ rest"
  have "shape_map h i = Some (map_of (insert_added h ?xs base))"
  proof (cases "is_adding_map s")
    case True
    then have "map_of (insert_added h rest base) (fst (st_added s)) = None"
      using addingD(2) [OF assms(2,3)] assms(4) Some w(3) by auto
    then have "fst (st_added s) \<notin> added_names h rest"
      using insert_added_dom [of _ h rest base] by blast
    with True Some assms(3,4) w(3) show ?thesis
      by (simp add: shape_map_link insert_added_update fun_upd_def)
  qed (use Some assms(3,4) w(3) in \<open>simp add: shape_map_link\<close>)
  with Some w(1,2) assms(3) insert_added_distinct [OF w(2), of h ?xs] show ?thesis
    by (intro exI [of _ "insert_added h ?xs base"])
      (auto simp: allocate_table_def with_table_def alloc_table_def)
qed

lemma struct_with_table:
  "structs (with_table i s tb h) k =
     (if k = i then Some (s\<lparr>st_table := Some (next_table h), st_previous := None\<rparr>) else structs h k)"
  "next_struct (with_table i s tb h) = next_struct h" "next_table (with_table i s tb h) = Suc (next_table h)"
  "table_of (with_table i s tb h) t = (if t = next_table h then tb else table_of h t)"
  "tables (with_table i s tb h) t = (if t = next_table h then Some tb else tables h t)"
  by (simp_all add: with_table_def shape_ops table_of_def)

lemma with_table_shape:
  assumes "links_ok h" "structs h i = Some s" "shape_map h i = Some (map_of tb)"
  shows "shape_map (with_table i s tb h) k = shape_map h k"
proof (cases "structs h k")
  case None
  with assms(2) have "structs (with_table i s tb h) k = None" by (auto simp: struct_with_table)
  with None show ?thesis by (simp add: shape_map.simps)
next
  case (Some ks)
  show ?thesis
  proof (rule shape_map_cong [OF assms(1) Some, of "\<lambda>_. True"])
    fix k ks assume k: "structs h k = Some ks"
    show "shape_map (with_table i s tb h) k = shape_map h k \<or>
      (\<exists>ks'. structs (with_table i s tb h) k = Some ks' \<and> st_table ks' = st_table ks \<and>
        st_previous ks' = st_previous ks \<and> st_added ks' = st_added ks \<and>
        (\<forall>t. st_table ks = Some t \<longrightarrow> table_of (with_table i s tb h) t = table_of h t) \<and>
        (\<forall>p. st_previous ks = Some p \<longrightarrow> True))"
    proof (cases "k = i")
      case True
      have "shape_map (with_table i s tb h) i = Some (map_of tb)"
        by (subst shape_map.simps) (simp add: struct_with_table)
      with True assms(3) show ?thesis by simp
    next
      case False
      with k linksD(3) [OF assms(1) k] show ?thesis by (auto simp: struct_with_table)
    qed
  qed simp
qed

lemma bij_slots_card:
  assumes "bij_betw f A ({..<n} - set d)" "distinct d" "set d \<subseteq> {..<n}"
  shows "card A + length d = n"
proof -
  have "card A = card ({..<n} - set d)" by (rule bij_betw_same_card [OF assms(1)])
  also have "\<dots> = n - length d"
    using assms(2,3) by (simp add: card_Diff_subset distinct_card)
  finally show ?thesis
    using card_mono [OF finite_lessThan assms(3)] assms(2) by (simp add: distinct_card)
qed

lemma length_distinct_table: "distinct (map fst tb) \<Longrightarrow> length tb = card (dom (map_of tb))"
  by (metis distinct_card length_map dom_map_of_conv_image_fst list.set_map)

lemma tight_size:
  assumes "tight h i" "structs h i = Some s" "shape_map h i = Some (map_of tb)" "distinct (map fst tb)"
  shows "get_slots_size h s = length tb + st_deleted_size s"
  using assms bij_slots_card [of "slot_of (map_of tb)" "dom (map_of tb)" "get_slots_size h s" "st_deleted s"]
  by (auto simp: tight_def length_distinct_table)

lemma with_table_same:
  assumes "links_ok h" "structs h i = Some s" "shape_map h i = Some (map_of tb)" "distinct (map fst tb)"
    and "structs h k = Some ks" "k = i \<Longrightarrow> tight h i"
  shows "\<exists>ks'. structs (with_table i s tb h) k = Some ks' \<and> same_at h (with_table i s tb h) k ks ks'"
proof (cases "k = i")
  case True
  with assms tight_size [OF assms(6) assms(2-4)] show ?thesis
    by (auto simp: same_at_def struct_with_table is_unique_def get_slots_size_def with_table_shape)
next
  case False
  with assms(5) linksD(3) [OF assms(1,5)] have "get_slots_size (with_table i s tb h) ks = get_slots_size h ks"
    by (auto simp: get_slots_size_def struct_with_table split: option.splits)
  with False assms show ?thesis by (auto simp: same_at_def struct_with_table with_table_shape)
qed

lemma with_table_wf:
  assumes wf: "shapes_wf h" and i: "structs h i = Some s" "st_table s = None"
    and tb: "shape_map h i = Some (map_of tb)" "distinct (map fst tb)"
  shows "shapes_wf (with_table i s tb h)"
proof -
  let ?h = "with_table i s tb h"
  note h = wfD [OF wf]
  have links: "links_ok ?h"
    unfolding links_ok_def
  proof (intro allI impI)
    fix k ks assume k: "structs ?h k = Some ks"
    show "k < next_struct ?h \<and> (\<forall>p. st_previous ks = Some p \<longrightarrow> p < k \<and> structs ?h p \<noteq> None) \<and>
      (\<forall>t. st_table ks = Some t \<longrightarrow> t < next_table ?h \<and> (\<exists>tb. tables ?h t = Some tb \<and> distinct (map fst tb)))"
    proof (cases "k = i")
      case True
      with k tb(2) linksD(1) [OF h(1) i(1)] show ?thesis by (auto simp: struct_with_table)
    next
      case False
      with k have "structs h k = Some ks" by (simp add: struct_with_table)
      from linksD [OF h(1) this] False show ?thesis
        by (auto simp: struct_with_table less_Suc_eq)
    qed
  qed
  have count: "counts_ok ?h"
    using h(5) i(1) by (auto simp: counts_ok_def struct_with_table is_unique_def)
  have shar: "sharing_ok ?h"
    unfolding sharing_ok_def
  proof (intro allI impI, elim conjE)
    fix k ks assume k: "structs ?h k = Some ks" "\<not> is_unique ks"
    have tlt: "t < next_table h" if "structs h j = Some sj" "st_table sj = Some t" for j sj t
      using linksD(3) [OF h(1) that] by simp
    show "(\<forall>p ps. st_previous ks = Some p \<and> structs ?h p = Some ps \<longrightarrow> \<not> is_unique ps) \<and>
        (\<forall>j sj t. structs ?h j = Some sj \<and> j \<noteq> k \<and> st_table ks = Some t \<longrightarrow> st_table sj \<noteq> Some t)"
    proof (cases "k = i")
      case True
      with k tlt show ?thesis by (fastforce simp: struct_with_table)
    next
      case False
      with k(1) have ks: "structs h k = Some ks" by (simp add: struct_with_table)
      note d = sharingD [OF h(2) ks k(2)]
      have "\<not> is_unique ps" if "st_previous ks = Some p" "structs ?h p = Some ps" for p ps
        using d(1) [OF that(1)] that(2) i(1) by (auto simp: struct_with_table is_unique_def split: if_splits)
      moreover have "st_table sj \<noteq> Some t" if "structs ?h j = Some sj" "j \<noteq> k" "st_table ks = Some t" for j sj t
        using d(2) [of j] that tlt [OF ks that(3)] by (auto simp: struct_with_table split: if_splits)
      ultimately show ?thesis by blast
    qed
  qed
  show ?thesis
  proof (rule wf_frame [OF wf links count shar])
    fix k s' assume s': "structs ?h k = Some s'" "\<not> is_unique s'"
    then obtain ks where ks: "structs h k = Some ks" using i(1) by (auto simp: struct_with_table split: if_splits)
    have "is_unique s' = is_unique ks"
      using s' ks i(1) by (auto simp: struct_with_table is_unique_def split: if_splits)
    with s'(2) ks h(6) have "tight h k" by (auto simp: tight_ok_def)
    with with_table_same [OF h(1) i(1) tb ks] s'(1) have "same_at h ?h k ks s'" by auto
    with ks s' i(1) show "\<exists>s. structs h k = Some s \<and> same_at h ?h k s s' \<and>
        (st_table s' = None \<longrightarrow> st_table s = None \<and> st_previous s' = st_previous s)"
      by (auto simp: struct_with_table split: if_splits)
  next
    fix k s' assume s': "structs ?h k = Some s'" "is_unique s'"
    then obtain ks where ks: "structs h k = Some ks" "is_unique ks" "st_added s' = st_added ks" "st_transitions s' = st_transitions ks"
      using i(1) by (auto simp: struct_with_table is_unique_def split: if_splits)
    then show "\<not> is_adding_map s' \<and> transition_list (st_transitions s') = []"
      using addingD(1) [OF h(3) ks(1)] transitionsD(1) [OF h(4) ks(1)]
      by (auto simp: is_adding_map_def) (metis list.set_intros(1) neq_Nil_conv surj_pair)
  qed (use i(1) in \<open>auto simp: struct_with_table is_unique_def split: if_splits\<close>)
qed

section \<open>A new structure\<close>

lemma struct_alloc:
  "structs (snd (alloc_struct s h)) k = (if k = next_struct h then Some s else structs h k)"
  "tables (snd (alloc_struct s h)) = tables h" "next_struct (snd (alloc_struct s h)) = Suc (next_struct h)"
  "next_table (snd (alloc_struct s h)) = next_table h" "table_of (snd (alloc_struct s h)) = table_of h"
  "get_slots_size (snd (alloc_struct s h)) = get_slots_size h"
  by (simp_all add: shape_ops table_of_def get_slots_size_def fun_eq_iff cong: option.case_cong)

lemma alloc_struct_old:
  assumes "links_ok h" "structs h k = Some ks"
  shows "structs (snd (alloc_struct s h)) k = Some ks" "shape_map (snd (alloc_struct s h)) k = shape_map h k"
    "same_at h (snd (alloc_struct s h)) k ks ks"
proof -
  show s: "structs (snd (alloc_struct s h)) k = Some ks"
    using assms(2) linksD(1) [OF assms] by (simp add: struct_alloc)
  show m: "shape_map (snd (alloc_struct s h)) k = shape_map h k"
  proof (rule shape_map_cong [OF assms, of "\<lambda>k. structs h k \<noteq> None"])
    fix k ks assume k: "structs h k = Some ks"
    show "shape_map (snd (alloc_struct s h)) k = shape_map h k \<or>
       (\<exists>ks'. structs (snd (alloc_struct s h)) k = Some ks' \<and> st_table ks' = st_table ks \<and>
          st_previous ks' = st_previous ks \<and> st_added ks' = st_added ks \<and>
          (\<forall>t. st_table ks = Some t \<longrightarrow> table_of (snd (alloc_struct s h)) t = table_of h t) \<and>
          (\<forall>p. st_previous ks = Some p \<longrightarrow> structs h p \<noteq> None))"
      using k linksD(1,2) [OF assms(1) k] by (simp add: struct_alloc)
  qed (use assms(2) in simp)
  show "same_at h (snd (alloc_struct s h)) k ks ks"
    by (simp add: same_at_def m struct_alloc)
qed

lemma alloc_links:
  assumes "links_ok h" "\<And>p. st_previous s = Some p \<Longrightarrow> structs h p \<noteq> None"
    "\<And>t. st_table s = Some t \<Longrightarrow> t < next_table h \<and> (\<exists>tb. tables h t = Some tb \<and> distinct (map fst tb))"
  shows "links_ok (snd (alloc_struct s h))"
  unfolding links_ok_def
proof (intro allI impI)
  let ?h = "snd (alloc_struct s h)"
  fix k ks assume k: "structs ?h k = Some ks"
  show "k < next_struct ?h \<and> (\<forall>p. st_previous ks = Some p \<longrightarrow> p < k \<and> structs ?h p \<noteq> None) \<and>
      (\<forall>t. st_table ks = Some t \<longrightarrow> t < next_table ?h \<and> (\<exists>tb. tables ?h t = Some tb \<and> distinct (map fst tb)))"
  proof (cases "k = next_struct h")
    case True
    with k have "ks = s" by (simp add: struct_alloc)
    with True assms(2,3) linksD(1) [OF assms(1)] show ?thesis by (auto simp: struct_alloc)
  next
    case False
    with k have "structs h k = Some ks" by (simp add: struct_alloc)
    from linksD [OF assms(1) this] show ?thesis by (auto simp: struct_alloc less_Suc_eq)
  qed
qed

lemma unique_plain:
  assumes "shapes_wf h" "structs h k = Some s" "is_unique s"
  shows "\<not> is_adding_map s" "transition_list (st_transitions s) = []"
proof -
  note h = wfD [OF assms(1)]
  show "\<not> is_adding_map s" using addingD(1) [OF h(3) assms(2)] assms(3) by blast
  show "transition_list (st_transitions s) = []"
    using transitionsD(1) [OF h(4) assms(2)] assms(3) by (metis list.set_intros(1) neq_Nil_conv surj_pair)
qed

lemma alloc_unique_wf:
  assumes wf: "shapes_wf h" and s: "is_unique s" "\<not> is_adding_map s" "transition_list (st_transitions s) = []"
    "st_transit_count s \<le> 1"
    and prev: "\<And>p. st_previous s = Some p \<Longrightarrow> structs h p \<noteq> None"
    and tb: "\<And>t. st_table s = Some t \<Longrightarrow> t < next_table h \<and> (\<exists>tb. tables h t = Some tb \<and> distinct (map fst tb))"
    and shared: "\<And>t j sj. st_table s = Some t \<Longrightarrow> structs h j = Some sj \<Longrightarrow> st_table sj = Some t \<Longrightarrow> is_unique sj"
  shows "shapes_wf (snd (alloc_struct s h))"
proof -
  let ?h = "snd (alloc_struct s h)"
  note h = wfD [OF wf]
  have links: "links_ok ?h" using alloc_links [OF h(1) prev tb] .
  have count: "counts_ok ?h" using h(5) s(1,4) by (auto simp: counts_ok_def struct_alloc)
  have shar: "sharing_ok ?h"
    unfolding sharing_ok_def
  proof (intro allI impI, elim conjE)
    fix k ks assume k: "structs ?h k = Some ks" "\<not> is_unique ks"
    with s(1) have ks: "structs h k = Some ks" by (auto simp: struct_alloc split: if_splits)
    note d = sharingD [OF h(2) ks k(2)]
    have "\<not> is_unique ps" if p: "st_previous ks = Some p" "structs ?h p = Some ps" for p ps
    proof -
      have "structs h p = Some ps"
        using linksD(1,2) [OF h(1) ks] p by (auto simp: struct_alloc split: if_splits)
      with d(1) p(1) show ?thesis by blast
    qed
    moreover have "st_table sj \<noteq> Some t" if "structs ?h j = Some sj" "j \<noteq> k" "st_table ks = Some t" for j sj t
      using d(2) [of j] that shared [OF _ ks] k(2) by (auto simp: struct_alloc split: if_splits)
    ultimately show "(\<forall>p ps. st_previous ks = Some p \<and> structs ?h p = Some ps \<longrightarrow> \<not> is_unique ps) \<and>
        (\<forall>j sj t. structs ?h j = Some sj \<and> j \<noteq> k \<and> st_table ks = Some t \<longrightarrow> st_table sj \<noteq> Some t)"
      by blast
  qed
  show ?thesis
  proof (rule wf_frame [OF wf links count shar])
    fix k ks assume k: "structs ?h k = Some ks" "is_unique ks"
    show "\<not> is_adding_map ks \<and> transition_list (st_transitions ks) = []"
      using k s unique_plain [OF wf, of k ks] by (auto simp: struct_alloc split: if_splits)
  next
    fix k ks assume k: "structs ?h k = Some ks" "\<not> is_unique ks"
    with s(1) have ks: "structs h k = Some ks" by (auto simp: struct_alloc split: if_splits)
    from alloc_struct_old(3) [OF h(1) ks] ks
    show "\<exists>s'. structs h k = Some s' \<and> same_at h ?h k s' ks \<and>
        (st_table ks = None \<longrightarrow> st_table s' = None \<and> st_previous ks = st_previous s')" by blast
  next
    fix k ks ks' assume "structs h k = Some ks" "structs ?h k = Some ks'"
    with alloc_struct_old(1) [OF h(1)] show "is_unique ks' = is_unique ks" by auto
  qed (use alloc_struct_old(1) [OF h(1)] in \<open>auto simp: struct_alloc split: if_splits\<close>)
qed

lemma as_u32_small [simp]: "n < 2 ^ 32 \<Longrightarrow> as_u32 n = n"
  by (simp add: as_u32_def)

lemma as_u32_idem [simp]: "as_u32 (as_u32 n) = as_u32 n"
  by (simp add: as_u32_def)

lemma tight_bound: "tight h i \<Longrightarrow> structs h i = Some s \<Longrightarrow> get_slots_size h s < 2 ^ 32"
  by (auto simp: tight_def)

text \<open>The structure \<open>new_unique\<close> makes: unique, with the meaning and the slots of the old one.\<close>

lemma new_unique_spec:
  assumes wf: "shapes_wf h" and i: "structs h i = Some s"
  shows "\<exists>h' s'. new_unique i h = Some (next_struct h, h') \<and> h' = snd (alloc_struct s' h) \<and> shapes_wf h' \<and>
    structs h' (next_struct h) = Some s' \<and> is_unique s' \<and> \<not> tt_unique (st_transitions s') \<and>
    st_table s' = (if is_unique s then st_table s else None) \<and> st_previous s' = Some i \<and>
    st_deleted s' = st_deleted s \<and> st_deleted_size s' = st_deleted_size s \<and>
    shape_map h' (next_struct h) = shape_map h i \<and> (tight h i \<longrightarrow> tight h' (next_struct h))"
proof -
  note h = wfD [OF wf]
  define s0 where "s0 = \<lparr>st_id = 0, st_transitions = transitions_new False (st_is_indexed s),
     st_table = (if is_unique s then st_table s else None), st_deleted = st_deleted s,
     st_deleted_size = st_deleted_size s, st_added = (DUMMY_SYMBOL, entry_not_found), st_previous = Some i,
     st_prototype = st_prototype s, st_calculated_size = as_u32 (get_slots_size h s), st_transit_count = 0,
     st_flattened = st_flattened s, st_chain = None\<rparr>"
  define s' where "s' = s0\<lparr>st_calculated_size := as_u32 (get_slots_size h s0)\<rparr>"
  let ?h = "snd (alloc_struct s' h)" and ?m = "next_struct h"
  have f: "is_unique s'" "\<not> is_adding_map s'" "transition_list (st_transitions s') = []" "st_transit_count s' \<le> 1"
    "st_table s' = (if is_unique s then st_table s else None)" "st_previous s' = Some i"
    "\<not> tt_unique (st_transitions s')" "st_deleted s' = st_deleted s" "st_deleted_size s' = st_deleted_size s"
    by (simp_all add: s'_def s0_def is_unique_def is_adding_map_def transitions_new_def transition_list_def)
  have wf': "shapes_wf ?h"
  proof (rule alloc_unique_wf [OF wf f(1-4)])
    fix t j sj assume "st_table s' = Some t" "structs h j = Some sj" "st_table sj = Some t"
    then show "is_unique sj"
      using sharingD(2) [OF h(2), of j sj i s t] i f(5) by (cases "j = i") (auto split: if_splits)
  qed (use f(5,6) linksD(3) [OF h(1) i] i in \<open>auto split: if_splits\<close>)
  have m: "structs ?h ?m = Some s'" by (simp add: struct_alloc)
  have old: "shape_map ?h i = shape_map h i" by (rule alloc_struct_old(2) [OF h(1) i])
  have sh: "shape_map ?h ?m = shape_map h i"
  proof (cases "st_table s'")
    case None
    with f(2,6) shape_map_link [OF m None] old show ?thesis by (simp add: bind_eq_Some_conv)
  next
    case (Some t)
    with f(5) have "st_table s = Some t" by (auto split: if_splits)
    with Some i show ?thesis by (simp add: shape_map_table [OF m Some] shape_map_table struct_alloc)
  qed
  have "tight ?h ?m" if t: "tight h i"
  proof -
    have n: "get_slots_size h s < 2 ^ 32" by (rule tight_bound [OF t i])
    have "get_slots_size ?h s' = get_slots_size h s"
    proof (cases "is_unique s")
      case True
      then show ?thesis
        using n by (cases "st_table s") (simp_all add: struct_alloc s'_def s0_def get_slots_size_def)
    next
      case False
      with n show ?thesis by (simp add: struct_alloc s'_def s0_def get_slots_size_def [of h s0] get_slots_size_def [of h "s0\<lparr>st_calculated_size := _\<rparr>"] get_slots_size_def)
    qed
    with t i m sh f(8,9) show ?thesis by (simp add: tight_def)
  qed
  moreover have "new_unique i h = Some (?m, ?h)"
    by (simp add: new_unique_def ctor_def i Let_def s'_def s0_def alloc_struct_def)
  ultimately show ?thesis using wf' m f sh by blast
qed

section \<open>Updates in place\<close>

text \<open>An update of the fields that say nothing about properties.\<close>

definition same_fields :: "struct \<Rightarrow> struct \<Rightarrow> bool" where
  "same_fields s s' \<longleftrightarrow>
     is_unique s' = is_unique s \<and> st_table s' = st_table s \<and> st_previous s' = st_previous s \<and>
     st_added s' = st_added s \<and> st_deleted s' = st_deleted s \<and> st_deleted_size s' = st_deleted_size s \<and>
     st_calculated_size s' = st_calculated_size s \<and> st_transit_count s' = st_transit_count s \<and>
     transition_list (st_transitions s') = transition_list (st_transitions s)"

lemma struct_set:
  "structs (set_struct i s h) k = (if k = i then Some s else structs h k)" "tables (set_struct i s h) = tables h"
  "next_struct (set_struct i s h) = next_struct h" "next_table (set_struct i s h) = next_table h"
  "table_of (set_struct i s h) = table_of h" "get_slots_size (set_struct i s h) = get_slots_size h"
  by (simp_all add: shape_ops table_of_def get_slots_size_def fun_eq_iff cong: option.case_cong)

lemma cosmetic_same:
  assumes "links_ok h" "structs h i = Some s" "same_fields s s'" "structs h k = Some ks"
  shows "shape_map (set_struct i s' h) k = shape_map h k"
    and "\<exists>ks'. structs (set_struct i s' h) k = Some ks' \<and> same_fields ks ks' \<and> same_at h (set_struct i s' h) k ks ks'"
proof -
  show m: "shape_map (set_struct i s' h) k = shape_map h k"
    using assms(1,4)
    by (rule shape_map_cong [of _ _ _ "\<lambda>_. True"]) (use assms(2,3) in \<open>auto simp: struct_set same_fields_def\<close>)
  show "\<exists>ks'. structs (set_struct i s' h) k = Some ks' \<and> same_fields ks ks' \<and> same_at h (set_struct i s' h) k ks ks'"
    using assms m
    by (cases "k = i") (auto simp: struct_set same_fields_def same_at_def get_slots_size_def split: option.splits)
qed

lemma cosmetic_wf:
  assumes wf: "shapes_wf h" and i: "structs h i = Some s" and f: "same_fields s s'"
  shows "shapes_wf (set_struct i s' h)"
proof -
  let ?h = "set_struct i s' h"
  note h = wfD [OF wf]
  have orig: "\<exists>ks. structs h k = Some ks \<and> same_fields ks ks' \<and> same_at h ?h k ks ks'"
    if k: "structs ?h k = Some ks'" for k ks'
  proof -
    obtain ks where "structs h k = Some ks" using k i by (auto simp: struct_set split: if_splits)
    with cosmetic_same(2) [OF h(1) i f this] k show ?thesis by auto
  qed
  have forth: "structs ?h k \<noteq> None" if "structs h k = Some ks" for k ks
    using that by (simp add: struct_set)
  have "links_ok ?h"
    unfolding links_ok_def
  proof (intro allI impI)
    fix k ks' assume "structs ?h k = Some ks'"
    with orig obtain ks where "structs h k = Some ks" "same_fields ks ks'" by blast
    with linksD [OF h(1) this(1)] forth
    show "k < next_struct ?h \<and> (\<forall>p. st_previous ks' = Some p \<longrightarrow> p < k \<and> structs ?h p \<noteq> None) \<and>
      (\<forall>t. st_table ks' = Some t \<longrightarrow> t < next_table ?h \<and> (\<exists>tb. tables ?h t = Some tb \<and> distinct (map fst tb)))"
      by (auto simp: struct_set same_fields_def)
  qed
  moreover have "counts_ok ?h"
    using h(5) orig by (fastforce simp: counts_ok_def same_fields_def)
  moreover have "sharing_ok ?h"
    unfolding sharing_ok_def
  proof (intro allI impI, elim conjE)
    fix k ks' assume k: "structs ?h k = Some ks'" "\<not> is_unique ks'"
    with orig obtain ks where ks: "structs h k = Some ks" "same_fields ks ks'" by blast
    then have "\<not> is_unique ks" using k(2) by (simp add: same_fields_def)
    note d = sharingD [OF h(2) ks(1) this]
    have "\<not> is_unique ps'" if p: "st_previous ks' = Some p" "structs ?h p = Some ps'" for p ps'
    proof -
      obtain ps where "structs h p = Some ps" "same_fields ps ps'" using orig [OF p(2)] by blast
      with d(1) [of p ps] p(1) ks(2) show ?thesis by (simp add: same_fields_def)
    qed
    moreover have "st_table sj' \<noteq> Some t" if q: "structs ?h j = Some sj'" "j \<noteq> k" "st_table ks' = Some t" for j sj' t
    proof -
      obtain sj where "structs h j = Some sj" "same_fields sj sj'" using orig [OF q(1)] by blast
      with d(2) [of j sj t] q(2,3) ks(2) show ?thesis by (simp add: same_fields_def)
    qed
    ultimately show "(\<forall>p ps. st_previous ks' = Some p \<and> structs ?h p = Some ps \<longrightarrow> \<not> is_unique ps) \<and>
        (\<forall>j sj t. structs ?h j = Some sj \<and> j \<noteq> k \<and> st_table ks' = Some t \<longrightarrow> st_table sj \<noteq> Some t)"
      by blast
  qed
  ultimately show ?thesis
  proof (rule wf_frame [OF wf])
    fix k ks' assume k: "structs ?h k = Some ks'" "is_unique ks'"
    obtain ks where ks: "structs h k = Some ks" "same_fields ks ks'" using orig [OF k(1)] by blast
    with unique_plain [OF wf ks(1)] k(2)
    show "\<not> is_adding_map ks' \<and> transition_list (st_transitions ks') = []"
      by (simp add: same_fields_def is_adding_map_def)
  next
    fix k ks' assume k: "structs ?h k = Some ks'"
    obtain ks where ks: "structs h k = Some ks" "same_fields ks ks'" "same_at h ?h k ks ks'"
      using orig [OF k] by blast
    then show "\<exists>s. structs h k = Some s \<and> same_at h ?h k s ks' \<and>
        (st_table ks' = None \<longrightarrow> st_table s = None \<and> st_previous ks' = st_previous s)"
      by (intro exI [of _ ks]) (simp add: same_fields_def)
  next
    fix k ks ks' assume k: "structs h k = Some ks" "structs ?h k = Some ks'"
    with orig [OF k(2)] show "is_unique ks' = is_unique ks" by (auto simp: same_fields_def)
  next
    fix k ks' assume "structs ?h k = Some ks'" "structs h k = None"
    with orig show "next_struct h \<le> k" by fastforce
  qed (use forth in \<open>auto simp: struct_set\<close>)
qed

text \<open>An update of the table of a unique structure, with its deleted offsets.\<close>

definition with_entry :: "nat \<Rightarrow> struct \<Rightarrow> nat \<Rightarrow> target_table \<Rightarrow> 'h shapes_scheme \<Rightarrow> 'h shapes_scheme" where
  "with_entry i s t tb h = set_struct i s (set_table t tb h)"

lemma struct_entry:
  "structs (with_entry i s t tb h) k = (if k = i then Some s else structs h k)"
  "tables (with_entry i s t tb h) u = (if u = t then Some tb else tables h u)"
  "next_struct (with_entry i s t tb h) = next_struct h" "next_table (with_entry i s t tb h) = next_table h"
  "table_of (with_entry i s t tb h) u = (if u = t then tb else table_of h u)"
  by (simp_all add: with_entry_def shape_ops table_of_def)

lemma entry_nonunique:
  assumes wf: "shapes_wf h" and i: "structs h i = Some s" "is_unique s" "st_table s = Some t"
    and k: "structs h k = Some ks" "\<not> is_unique ks"
  shows "shape_map (with_entry i s' t tb h) k = shape_map h k"
    and "structs (with_entry i s' t tb h) k = Some ks"
    and "get_slots_size (with_entry i s' t tb h) ks = get_slots_size h ks"
proof -
  note h = wfD [OF wf]
  have nt: "st_table q \<noteq> Some t" if "structs h j = Some q" "\<not> is_unique q" for j q
    using sharingD(2) [OF h(2) that, of i s t] i that by (cases "i = j") auto
  show "structs (with_entry i s' t tb h) k = Some ks" using i k by (auto simp: struct_entry)
  show "get_slots_size (with_entry i s' t tb h) ks = get_slots_size h ks"
    using nt [OF k] by (auto simp: get_slots_size_def struct_entry split: option.splits)
  show "shape_map (with_entry i s' t tb h) k = shape_map h k"
  proof (rule shape_map_cong [OF h(1) k(1), of "\<lambda>j. \<exists>q. structs h j = Some q \<and> \<not> is_unique q"])
    fix j q assume q: "\<exists>q. structs h j = Some q \<and> \<not> is_unique q" "structs h j = Some q"
    then have u: "\<not> is_unique q" by simp
    with i q(2) have "structs (with_entry i s' t tb h) j = Some q" by (auto simp: struct_entry)
    moreover have "\<exists>q. structs h p = Some q \<and> \<not> is_unique q" if "st_previous q = Some p" for p
      using linksD(2) [OF h(1) q(2) that] sharingD(1) [OF h(2) q(2) u that] by auto
    ultimately show "shape_map (with_entry i s' t tb h) j = shape_map h j \<or>
       (\<exists>ks'. structs (with_entry i s' t tb h) j = Some ks' \<and> st_table ks' = st_table q \<and>
          st_previous ks' = st_previous q \<and> st_added ks' = st_added q \<and>
          (\<forall>u. st_table q = Some u \<longrightarrow> table_of (with_entry i s' t tb h) u = table_of h u) \<and>
          (\<forall>p. st_previous q = Some p \<longrightarrow> (\<exists>q. structs h p = Some q \<and> \<not> is_unique q)))"
      using nt [OF q(2) u] by (auto simp: struct_entry)
  qed (use k in blast)
qed

lemma entry_wf:
  assumes wf: "shapes_wf h" and i: "structs h i = Some s" "is_unique s" "st_table s = Some t"
    and tb: "distinct (map fst tb)"
    and s': "is_unique s'" "\<not> is_adding_map s'" "transition_list (st_transitions s') = []" "st_transit_count s' \<le> 1"
      "st_table s' = Some t" "st_previous s' = st_previous s"
  shows "shapes_wf (with_entry i s' t tb h)"
proof -
  let ?h = "with_entry i s' t tb h"
  note h = wfD [OF wf]
  note non = entry_nonunique [OF wf i]
  have "links_ok ?h"
    unfolding links_ok_def
  proof (intro allI impI)
    fix k ks assume k: "structs ?h k = Some ks"
    show "k < next_struct ?h \<and> (\<forall>p. st_previous ks = Some p \<longrightarrow> p < k \<and> structs ?h p \<noteq> None) \<and>
      (\<forall>t. st_table ks = Some t \<longrightarrow> t < next_table ?h \<and> (\<exists>tb. tables ?h t = Some tb \<and> distinct (map fst tb)))"
    proof (cases "k = i")
      case True
      with k s'(5,6) linksD [OF h(1) i(1)] i(3) tb show ?thesis by (auto simp: struct_entry)
    next
      case False
      with k have "structs h k = Some ks" by (simp add: struct_entry)
      from linksD [OF h(1) this] tb show ?thesis by (auto simp: struct_entry)
    qed
  qed
  moreover have "counts_ok ?h" using h(5) s'(1,4) by (auto simp: counts_ok_def struct_entry)
  moreover have "sharing_ok ?h"
    unfolding sharing_ok_def
  proof (intro allI impI, elim conjE)
    fix k ks assume k: "structs ?h k = Some ks" "\<not> is_unique ks"
    with s'(1) have ks: "structs h k = Some ks" by (auto simp: struct_entry split: if_splits)
    note d = sharingD [OF h(2) ks k(2)]
    have "\<not> is_unique ps" if "st_previous ks = Some p" "structs ?h p = Some ps" for p ps
      using d(1) [OF that(1)] that(2) i by (auto simp: struct_entry split: if_splits)
    moreover have "st_table sj \<noteq> Some u" if "structs ?h j = Some sj" "j \<noteq> k" "st_table ks = Some u" for j sj u
      using d(2) [of j] that i s'(5) by (auto simp: struct_entry split: if_splits)
    ultimately show "(\<forall>p ps. st_previous ks = Some p \<and> structs ?h p = Some ps \<longrightarrow> \<not> is_unique ps) \<and>
        (\<forall>j sj t. structs ?h j = Some sj \<and> j \<noteq> k \<and> st_table ks = Some t \<longrightarrow> st_table sj \<noteq> Some t)"
      by blast
  qed
  ultimately show ?thesis
  proof (rule wf_frame [OF wf])
    fix k ks assume k: "structs ?h k = Some ks" "is_unique ks"
    then show "\<not> is_adding_map ks \<and> transition_list (st_transitions ks) = []"
      using s'(2,3) unique_plain [OF wf, of k ks] by (auto simp: struct_entry split: if_splits)
  next
    fix k ks assume k: "structs ?h k = Some ks" "\<not> is_unique ks"
    with s'(1) have ks: "structs h k = Some ks" by (auto simp: struct_entry split: if_splits)
    with non [OF ks k(2)] show "\<exists>s. structs h k = Some s \<and> same_at h ?h k s ks \<and>
        (st_table ks = None \<longrightarrow> st_table s = None \<and> st_previous ks = st_previous s)"
      by (intro exI [of _ ks]) (simp add: same_at_def)
  next
    fix k ks ks' assume "structs h k = Some ks" "structs ?h k = Some ks'"
    then show "is_unique ks' = is_unique ks" using s'(1) i by (auto simp: struct_entry split: if_splits)
  qed (use non i in \<open>auto simp: struct_entry split: if_splits\<close>)
qed

section \<open>A shared transition\<close>

lemma set_alist_update: "set (AList.update k v al) \<subseteq> insert (k, v) (set al)"
  by (induction al) auto

lemma transition_list_insert:
  "set (transition_list (transitions_insert name attrs j tt)) \<subseteq> insert ((name, attrs), j) (set (transition_list tt))"
proof (cases "tt_var tt")
  case (Transition_Table tb)
  with set_alist_update [of "(name, attrs)" j tb] show ?thesis
    by (simp add: transition_list_def transitions_insert_def Let_def)
qed (auto simp: transition_list_def transitions_insert_def Let_def)

lemma alloc_adding_wf:
  assumes wf: "shapes_wf h" and i: "structs h i = Some s" "\<not> is_unique s"
    and m: "shape_map h i = Some m" "m name = None" "name \<noteq> DUMMY_SYMBOL"
    and room: "get_slots_size h s + 1 < 2 ^ 32"
    and a: "\<not> is_unique a" "st_table a = None" "st_previous a = Some i" "st_deleted a = []" "st_deleted_size a = 0"
      "st_added a = (name, \<lparr>me_offset = get_slots_size h s, me_attrs = attrs\<rparr>)"
      "st_calculated_size a = get_slots_size h s + 1" "st_transit_count a \<le> 1" "transition_list (st_transitions a) = []"
  shows "shapes_wf (snd (alloc_struct a h))"
    and "shape_map (snd (alloc_struct a h)) (next_struct h) = Some (m(name \<mapsto> \<lparr>me_offset = get_slots_size h s, me_attrs = attrs\<rparr>))"
    and "get_slots_size h s \<notin> slot_of m ` dom m"
proof -
  let ?h = "snd (alloc_struct a h)" and ?n = "next_struct h" and ?e = "\<lparr>me_offset = get_slots_size h s, me_attrs = attrs\<rparr>"
  note h = wfD [OF wf]
  have new: "structs ?h ?n = Some a" by (simp add: struct_alloc)
  note old = alloc_struct_old [OF h(1), of _ _ a]
  have ad: "is_adding_map a" using m(3) a(6) by (simp add: is_adding_map_def)
  show sh: "shape_map ?h ?n = Some (m(name \<mapsto> ?e))"
    using shape_map_link [OF new a(2,3)] old(2) [OF i(1)] m(1) ad a(6) by simp
  have tn: "tight h i" using h(6) i by (auto simp: tight_ok_def)
  have d0: "st_deleted s = []" using h(5) i by (auto simp: counts_ok_def)
  from tn i(1) m(1) d0 have b: "bij_betw (slot_of m) (dom m) {..<get_slots_size h s}" "finite (dom m)"
    by (auto simp: tight_def)
  then have im: "slot_of m ` dom m = {..<get_slots_size h s}" by (simp add: bij_betw_def)
  then show "get_slots_size h s \<notin> slot_of m ` dom m" by simp
  have "bij_betw (slot_of (m(name \<mapsto> ?e))) (insert name (dom m)) (insert (get_slots_size h s) {..<get_slots_size h s})"
    by (rule bij_slot_add [OF b(1) m(2)]) simp
  then have "tight ?h ?n"
    unfolding tight_def using new sh a(4,5,7) room b(2) a(2)
    by (intro exI [of _ a] exI [of _ "m(name \<mapsto> ?e)"]) (simp add: get_slots_size_def lessThan_Suc a(2))
  then have tight: "tight_ok ?h"
    unfolding tight_ok_def
    using h(6) tight_same old(1,3) by (metis new struct_alloc(1) tight_ok_def option.inject)
  have links: "links_ok ?h"
    by (rule alloc_links [OF h(1)]) (use a(2,3) i(1) in auto)
  have count: "counts_ok ?h" using h(5) a(4,5,8) by (auto simp: counts_ok_def struct_alloc)
  have adding: "adding_ok ?h"
    unfolding adding_ok_def
  proof (intro allI impI, elim conjE)
    fix k ks assume k: "structs ?h k = Some ks" "is_adding_map ks"
    show "\<not> is_unique ks \<and> (st_table ks = None \<longrightarrow>
        (\<exists>p q. st_previous ks = Some p \<and> shape_map ?h p = Some q \<and> q (fst (st_added ks)) = None))"
    proof (cases "k = ?n")
      case True
      with k new have "ks = a" by simp
      with a m old(2) [OF i(1)] show ?thesis by auto
    next
      case False
      with k have ks: "structs h k = Some ks" by (simp add: struct_alloc)
      note d = addingD [OF h(3) ks k(2)]
      have "\<exists>p q. st_previous ks = Some p \<and> shape_map ?h p = Some q \<and> q (fst (st_added ks)) = None"
        if nt: "st_table ks = None"
      proof -
        obtain p q where p: "st_previous ks = Some p" "shape_map h p = Some q" "q (fst (st_added ks)) = None"
          using d(2) [OF nt] by blast
        obtain ps where "structs h p = Some ps" using linksD(2) [OF h(1) ks p(1)] by blast
        with p old(2) show ?thesis by auto
      qed
      with d(1) show ?thesis by blast
    qed
  qed
  have shar: "sharing_ok ?h"
    unfolding sharing_ok_def
  proof (intro allI impI, elim conjE)
    fix k ks assume k: "structs ?h k = Some ks" "\<not> is_unique ks"
    show "(\<forall>p ps. st_previous ks = Some p \<and> structs ?h p = Some ps \<longrightarrow> \<not> is_unique ps) \<and>
        (\<forall>j sj t. structs ?h j = Some sj \<and> j \<noteq> k \<and> st_table ks = Some t \<longrightarrow> st_table sj \<noteq> Some t)"
    proof (cases "k = ?n")
      case True
      with k new have "ks = a" by simp
      with a(2,3) i old(1) [OF i(1)] show ?thesis by auto
    next
      case False
      with k have ks: "structs h k = Some ks" by (simp add: struct_alloc)
      note d = sharingD [OF h(2) ks k(2)]
      have "\<not> is_unique ps" if "st_previous ks = Some p" "structs ?h p = Some ps" for p ps
        using d(1) [OF that(1)] that(2) a(1) by (auto simp: struct_alloc split: if_splits)
      moreover have "st_table sj \<noteq> Some t" if "structs ?h j = Some sj" "j \<noteq> k" "st_table ks = Some t" for j sj t
        using d(2) [of j] that a(2) by (auto simp: struct_alloc split: if_splits)
      ultimately show ?thesis by blast
    qed
  qed
  have trans: "transitions_ok ?h"
    unfolding transitions_ok_def
  proof (intro allI impI, elim conjE)
    fix k ks q j assume k: "structs ?h k = Some ks" "(q, j) \<in> set (transition_list (st_transitions ks))"
    with a(9) have "k \<noteq> ?n" using new by auto
    with k(1) have ks: "structs h k = Some ks" by (simp add: struct_alloc)
    note t = transitionsD [OF h(4) ks k(2)]
    have "\<not> is_unique sj \<and> fst (st_added sj) = fst q \<and> me_attrs (snd (st_added sj)) = snd q \<and>
        (\<exists>m. shape_map ?h k = Some m \<and> m (fst q) = None \<and> shape_map ?h j = Some (m(fst q \<mapsto> snd (st_added sj))))"
      if "structs ?h j = Some sj" for sj
    proof -
      have "structs h j = Some sj" using that t(2) by (simp add: struct_alloc split: if_splits)
      with t(3) old(2) ks show ?thesis by simp
    qed
    with t(1,2) show "\<not> is_unique ks \<and> j < next_struct ?h \<and> (\<forall>sj. structs ?h j = Some sj \<longrightarrow> \<not> is_unique sj \<and>
        fst (st_added sj) = fst q \<and> me_attrs (snd (st_added sj)) = snd q \<and>
        (\<exists>m. shape_map ?h k = Some m \<and> m (fst q) = None \<and> shape_map ?h j = Some (m(fst q \<mapsto> snd (st_added sj)))))"
      by (simp add: struct_alloc)
  qed
  show "shapes_wf ?h" using links shar adding trans count tight by (simp add: shapes_wf_def)
qed

definition linked :: "symbol \<Rightarrow> attr_safe \<Rightarrow> nat \<Rightarrow> struct \<Rightarrow> struct" where
  "linked name attrs j s = s\<lparr>st_transitions := transitions_insert name attrs j (st_transitions s)\<rparr>"

lemma linked_fields:
  "is_unique (linked name attrs j s) = is_unique s" "st_table (linked name attrs j s) = st_table s"
  "st_previous (linked name attrs j s) = st_previous s" "st_added (linked name attrs j s) = st_added s"
  "st_deleted (linked name attrs j s) = st_deleted s" "st_deleted_size (linked name attrs j s) = st_deleted_size s"
  "st_calculated_size (linked name attrs j s) = st_calculated_size s"
  "st_transit_count (linked name attrs j s) = st_transit_count s"
  "is_adding_map (linked name attrs j s) = is_adding_map s"
  "get_slots_size h (linked name attrs j s) = get_slots_size h s"
  by (simp_all add: linked_def is_unique_def transitions_insert_def is_adding_map_def Let_def get_slots_size_def
      split: option.split)

lemma linked_shape:
  assumes "links_ok h" "structs h i = Some s" "structs h k = Some ks"
  shows "shape_map (set_struct i (linked name attrs j s) h) k = shape_map h k"
  by (rule shape_map_cong [OF assms(1,3), of "\<lambda>_. True"])
    (use assms(2) in \<open>auto simp: struct_set linked_fields\<close>)

lemma linked_tight:
  assumes "links_ok h" "structs h i = Some s" "tight h k"
  shows "tight (set_struct i (linked name attrs j s) h) k"
proof -
  let ?h = "set_struct i (linked name attrs j s) h"
  obtain ks m where k: "structs h k = Some ks" using assms(3) by (auto simp: tight_def)
  define ks' where "ks' = (if k = i then linked name attrs j s else ks)"
  have e: "structs ?h k = Some ks'" "shape_map ?h k = shape_map h k" "st_deleted ks' = st_deleted ks"
    "st_deleted_size ks' = st_deleted_size ks" "get_slots_size ?h ks' = get_slots_size h ks"
    using k assms(2) linked_shape [OF assms(1,2) k] by (auto simp: ks'_def struct_set linked_fields)
  show ?thesis using assms(3) k e(1) unfolding tight_def by (simp add: e(2-5))
qed

lemma linked_wf:
  assumes wf: "shapes_wf h" and i: "structs h i = Some s" "\<not> is_unique s"
    and j: "structs h j = Some sj" "\<not> is_unique sj" "st_added sj = (name, e)" "me_attrs e = attrs"
    and m: "shape_map h i = Some m" "m name = None" "shape_map h j = Some (m(name \<mapsto> e))"
  shows "shapes_wf (set_struct i (linked name attrs j s) h)"
proof -
  let ?h = "set_struct i (linked name attrs j s) h"
  note h = wfD [OF wf]
  note sh = linked_shape [OF h(1) i(1), of _ _ name attrs j]
  have orig: "\<exists>ks. structs h k = Some ks \<and> ks' = (if k = i then linked name attrs j ks else ks)"
    if "structs ?h k = Some ks'" for k ks'
    using that i by (auto simp: struct_set split: if_splits)
  have "links_ok ?h"
    unfolding links_ok_def
  proof (intro allI impI)
    fix k ks' assume "structs ?h k = Some ks'"
    with orig obtain ks where "structs h k = Some ks" "ks' = (if k = i then linked name attrs j ks else ks)"
      by blast
    with linksD [OF h(1) this(1)]
    show "k < next_struct ?h \<and> (\<forall>p. st_previous ks' = Some p \<longrightarrow> p < k \<and> structs ?h p \<noteq> None) \<and>
      (\<forall>t. st_table ks' = Some t \<longrightarrow> t < next_table ?h \<and> (\<exists>tb. tables ?h t = Some tb \<and> distinct (map fst tb)))"
      by (auto simp: struct_set linked_fields split: if_splits)
  qed
  moreover have "counts_ok ?h"
    unfolding counts_ok_def
  proof (intro allI impI)
    fix k ks' assume "structs ?h k = Some ks'"
    with orig obtain ks where "structs h k = Some ks" "ks' = (if k = i then linked name attrs j ks else ks)" by blast
    with h(5) show "st_transit_count ks' \<le> 1 \<and> (\<not> is_unique ks' \<longrightarrow> st_deleted ks' = [] \<and> st_deleted_size ks' = 0)"
      by (auto simp: counts_ok_def linked_fields)
  qed
  moreover have "sharing_ok ?h"
    unfolding sharing_ok_def
  proof (intro allI impI, elim conjE)
    fix k ks' assume k: "structs ?h k = Some ks'" "\<not> is_unique ks'"
    obtain ks where ks: "structs h k = Some ks" "ks' = (if k = i then linked name attrs j ks else ks)"
      using orig [OF k(1)] by blast
    with k(2) have "\<not> is_unique ks" by (auto simp: linked_fields split: if_splits)
    note d = sharingD [OF h(2) ks(1) this]
    have "\<not> is_unique ps" if "st_previous ks' = Some p" "structs ?h p = Some ps" for p ps
      using d(1) [of p] that ks(2) i by (auto simp: struct_set linked_fields split: if_splits)
    moreover have "st_table sj \<noteq> Some t" if "structs ?h l = Some sj" "l \<noteq> k" "st_table ks' = Some t" for l sj t
      using d(2) [of l] that ks(2) i by (auto simp: struct_set linked_fields split: if_splits)
    ultimately show "(\<forall>p ps. st_previous ks' = Some p \<and> structs ?h p = Some ps \<longrightarrow> \<not> is_unique ps) \<and>
        (\<forall>j sj t. structs ?h j = Some sj \<and> j \<noteq> k \<and> st_table ks' = Some t \<longrightarrow> st_table sj \<noteq> Some t)"
      by blast
  qed
  moreover have "adding_ok ?h"
    unfolding adding_ok_def
  proof (intro allI impI, elim conjE)
    fix k ks' assume k: "structs ?h k = Some ks'" "is_adding_map ks'"
    obtain ks where ks: "structs h k = Some ks" "ks' = (if k = i then linked name attrs j ks else ks)"
      using orig [OF k(1)] by blast
    then have "is_adding_map ks" using k(2) by (auto simp: linked_fields split: if_splits)
    note d = addingD [OF h(3) ks(1) this]
    have "\<exists>p q. st_previous ks' = Some p \<and> shape_map ?h p = Some q \<and> q (fst (st_added ks')) = None"
      if nt: "st_table ks' = None"
    proof -
      have "st_table ks = None" using nt ks(2) by (auto simp: linked_fields split: if_splits)
      from d(2) [OF this] obtain p q where
        p: "st_previous ks = Some p" "shape_map h p = Some q" "q (fst (st_added ks)) = None" by blast
      obtain ps where "structs h p = Some ps" using linksD(2) [OF h(1) ks(1) p(1)] by blast
      with p sh [OF this] ks(2) show ?thesis by (auto simp: linked_fields)
    qed
    with d(1) ks(2) show "\<not> is_unique ks' \<and> (st_table ks' = None \<longrightarrow>
        (\<exists>p q. st_previous ks' = Some p \<and> shape_map ?h p = Some q \<and> q (fst (st_added ks')) = None))"
      by (auto simp: linked_fields)
  qed
  moreover have "transitions_ok ?h"
    unfolding transitions_ok_def
  proof (intro allI impI, elim conjE)
    fix k ks' q l assume k: "structs ?h k = Some ks'" "(q, l) \<in> set (transition_list (st_transitions ks'))"
    obtain ks where ks: "structs h k = Some ks" "ks' = (if k = i then linked name attrs j ks else ks)"
      using orig [OF k(1)] by blast
    have "(k = i \<and> q = (name, attrs) \<and> l = j) \<or> (q, l) \<in> set (transition_list (st_transitions ks))"
      using k(2) ks(2) transition_list_insert [of name attrs j "st_transitions ks"]
      by (auto simp: linked_def split: if_splits)
    then show "\<not> is_unique ks' \<and> l < next_struct ?h \<and> (\<forall>sl. structs ?h l = Some sl \<longrightarrow> \<not> is_unique sl \<and>
        fst (st_added sl) = fst q \<and> me_attrs (snd (st_added sl)) = snd q \<and>
        (\<exists>m. shape_map ?h k = Some m \<and> m (fst q) = None \<and> shape_map ?h l = Some (m(fst q \<mapsto> snd (st_added sl)))))"
    proof
      assume "k = i \<and> q = (name, attrs) \<and> l = j"
      with ks i j m sh [OF i(1)] sh [OF j(1)] linksD(1) [OF h(1) j(1)] show ?thesis
        by (auto simp: struct_set linked_fields)
    next
      assume "(q, l) \<in> set (transition_list (st_transitions ks))"
      note t = transitionsD [OF h(4) ks(1) this]
      have "\<not> is_unique sl' \<and> fst (st_added sl') = fst q \<and> me_attrs (snd (st_added sl')) = snd q \<and>
        (\<exists>m. shape_map ?h k = Some m \<and> m (fst q) = None \<and> shape_map ?h l = Some (m(fst q \<mapsto> snd (st_added sl'))))"
        if l: "structs ?h l = Some sl'" for sl'
      proof -
        obtain sl where sl: "structs h l = Some sl" "sl' = (if l = i then linked name attrs j sl else sl)"
          using orig [OF l] by blast
        with t(3) [OF sl(1)] sh [OF sl(1)] sh [OF ks(1)] show ?thesis by (auto simp: linked_fields)
      qed
      with t(1,2) ks(2) show ?thesis by (auto simp: struct_set linked_fields)
    qed
  qed
  moreover have "tight_ok ?h"
    unfolding tight_ok_def
  proof (intro allI impI, elim conjE)
    fix k ks' assume k: "structs ?h k = Some ks'" "\<not> is_unique ks'"
    obtain ks where "structs h k = Some ks" "ks' = (if k = i then linked name attrs j ks else ks)"
      using orig [OF k(1)] by blast
    with k(2) h(6) have "tight h k" by (auto simp: tight_ok_def linked_fields split: if_splits)
    then show "tight ?h k" by (rule linked_tight [OF h(1) i(1)])
  qed
  ultimately show ?thesis by (simp add: shapes_wf_def)
qed

end
