(* ===== verification/Shape_Ops.thy ===== *)
theory Shape_Ops
  imports Shape_Facts
begin

text \<open>
  Correctness of the operations on structures: every operation returns, keeps the invariant
  \<open>shapes_wf\<close>, leaves the meaning of all shared (non-unique) structures alone, and does to the
  abstract property map what its name says.
\<close>

text \<open>What a transition from \<open>h\<close> to \<open>h'\<close> may not change.\<close>

definition shared_kept :: "'h shapes_scheme \<Rightarrow> 'h shapes_scheme \<Rightarrow> bool" where
  "shared_kept h h' \<longleftrightarrow>
     (\<forall>k ks. structs h k = Some ks \<and> \<not> is_unique ks \<longrightarrow>
        shape_map h' k = shape_map h k \<and> (\<exists>ks'. structs h' k = Some ks' \<and> \<not> is_unique ks'))"

lemma shared_kept_refl [simp]: "shared_kept h h"
  by (auto simp: shared_kept_def)

lemma shared_kept_trans: "shared_kept h h1 \<Longrightarrow> shared_kept h1 h2 \<Longrightarrow> shared_kept h h2"
  unfolding shared_kept_def by metis

lemma shared_kept_alloc: "links_ok h \<Longrightarrow> shared_kept h (snd (alloc_struct s h))"
  by (simp add: shared_kept_def alloc_struct_old)

lemma shared_kept_with_table:
  "links_ok h \<Longrightarrow> structs h i = Some s \<Longrightarrow> shape_map h i = Some (map_of tb) \<Longrightarrow> shared_kept h (with_table i s tb h)"
  by (auto simp: shared_kept_def with_table_shape struct_with_table is_unique_def)

lemma shared_kept_cosmetic:
  "links_ok h \<Longrightarrow> structs h i = Some s \<Longrightarrow> same_fields s s' \<Longrightarrow> shared_kept h (set_struct i s' h)"
  using cosmetic_same by (fastforce simp: shared_kept_def same_fields_def)

lemma shared_kept_entry:
  "shapes_wf h \<Longrightarrow> structs h i = Some s \<Longrightarrow> is_unique s \<Longrightarrow> st_table s = Some t \<Longrightarrow> shared_kept h (with_entry i s' t tb h)"
  by (auto simp: shared_kept_def entry_nonunique)

lemma shared_kept_linked:
  "links_ok h \<Longrightarrow> structs h i = Some s \<Longrightarrow> shared_kept h (set_struct i (linked name attrs j s) h)"
  by (auto simp: shared_kept_def linked_shape struct_set linked_fields)

section \<open>Lookup\<close>

lemma ensure_table_spec:
  assumes wf: "shapes_wf h" and i: "structs h i = Some s"
  shows "\<exists>h1 s1 t tb. ensure_table i h = Some h1 \<and> shapes_wf h1 \<and> structs h1 i = Some s1 \<and>
    st_table s1 = Some t \<and> tables h1 t = Some tb \<and> distinct (map fst tb) \<and> shape_map h i = Some (map_of tb) \<and>
    (\<forall>k. shape_map h1 k = shape_map h k) \<and> (\<forall>k. tight h k \<longrightarrow> tight h1 k) \<and> shared_kept h h1 \<and>
    is_unique s1 = is_unique s \<and> st_transitions s1 = st_transitions s \<and> next_struct h1 = next_struct h \<and>
    (s1 = s \<and> h1 = h \<or> s1 = s\<lparr>st_table := st_table s1, st_previous := None\<rparr>)"
proof (cases "st_table s")
  case (Some t)
  with linksD(3) [OF wfD(1) [OF wf] i] obtain tb where "tables h t = Some tb" "distinct (map fst tb)" by blast
  with Some wf i show ?thesis by (auto simp: ensure_table_def has_table_def shape_map_table table_of_def)
next
  case None
  note h = wfD [OF wf]
  obtain tb where tb: "distinct (map fst tb)" "shape_map h i = Some (map_of tb)"
    "allocate_table i h = Some (with_table i s tb h)"
    using allocate_table_spec [OF h(1,3) i None] by blast
  let ?h = "with_table i s tb h"
  have "tight ?h k" if t: "tight h k" for k
  proof -
    obtain ks where ks: "structs h k = Some ks" using t by (auto simp: tight_def)
    with with_table_same [OF h(1) i tb(2,1) ks] t tight_same [OF t ks] show ?thesis by blast
  qed
  moreover have "ensure_table i h = Some ?h" using None i tb(3) by (simp add: ensure_table_def has_table_def)
  ultimately show ?thesis
    using with_table_wf [OF wf i None tb(2,1)] with_table_shape [OF h(1) i tb(2)] tb(1,2)
      shared_kept_with_table [OF h(1) i tb(2)]
    by (auto simp: struct_with_table is_unique_def)
qed

lemma structure_get_spec:
  assumes "shapes_wf h" "structs h i = Some s"
  shows "\<exists>m h'. shape_map h i = Some m \<and> shapes_wf h' \<and>
    structure_get i name h = Some (case m name of Some e \<Rightarrow> e | None \<Rightarrow> entry_not_found, h') \<and>
    (\<forall>k. shape_map h' k = shape_map h k) \<and> (\<forall>k. tight h k \<longrightarrow> tight h' k)"
proof -
  note h = wfD [OF assms(1)]
  obtain h1 s1 t tb where e: "ensure_table i h = Some h1" "shapes_wf h1" "structs h1 i = Some s1" "st_table s1 = Some t"
    "tables h1 t = Some tb" "shape_map h i = Some (map_of tb)" "\<forall>k. shape_map h1 k = shape_map h k"
    "\<forall>k. tight h k \<longrightarrow> tight h1 k"
    using ensure_table_spec [OF assms] by blast
  have found: "do { tb' \<leftarrow> struct_table i h1;
      Some (case map_of tb' name of Some e \<Rightarrow> e | None \<Rightarrow> entry_not_found, h1) } =
    Some (case map_of tb name of Some e \<Rightarrow> e | None \<Rightarrow> entry_not_found, h1)"
    using e by (simp add: struct_table_def)
  show ?thesis
  proof (cases "st_table s")
    case (Some u)
    with e(1) assms(2) have "h1 = h" by (simp add: ensure_table_def has_table_def)
    with Some found e assms(2) show ?thesis by (auto simp: structure_get_def has_table_def)
  next
    case None
    consider (root) "st_previous s = None" | (added) p where "st_previous s = Some p" "is_adding_map s \<and> fst (st_added s) = name"
      | (walk) p where "st_previous s = Some p" "\<not> (is_adding_map s \<and> fst (st_added s) = name)" by blast
    then show ?thesis
    proof cases
      case root
      with None assms show ?thesis
        by (simp add: structure_get_def has_table_def shape_map_root)
    next
      case added
      obtain m where "shape_map h i = Some m" using shape_map_exists [OF h(1) assms(2)] by blast
      then have "m name = Some (snd (st_added s))"
        using added shape_map_link [OF assms(2) None added(1)] by (auto simp: bind_eq_Some_conv)
      with added None assms \<open>shape_map h i = Some m\<close> show ?thesis
        by (simp add: structure_get_def has_table_def)
    next
      case walk
      with None assms(2) e(1) have "allocate_table i h = Some h1" by (simp add: ensure_table_def has_table_def)
      with walk None assms(2) found e show ?thesis by (auto simp: structure_get_def has_table_def)
    qed
  qed
qed

text \<open>
  C20. Lookup in a structure is correct and its lazy table allocation is invisible: \<open>get\<close> never
  panics, answers what the abstract property map says (not found included), and although it may
  build a table and cut the chain of previous structures, no structure's property map changes.
\<close>

theorem structure_get_correct:
  assumes "shapes_wf h" "structs h i = Some s"
  shows "\<exists>m h'. shape_map h i = Some m \<and> shapes_wf h' \<and>
    structure_get i name h = Some (case m name of Some e \<Rightarrow> e | None \<Rightarrow> entry_not_found, h') \<and>
    (\<forall>k. shape_map h' k = shape_map h k) \<and> (\<forall>k. tight h k \<longrightarrow> tight h' k)"
  using assms by (rule structure_get_spec)

section \<open>Adding a property\<close>

lemma unique_target_spec:
  assumes wf: "shapes_wf h" and i: "structs h i = Some s" "is_unique s"
  shows "\<exists>j h' ms. unique_target i h = Some (j, h') \<and> shapes_wf h' \<and> structs h' j = Some ms \<and> is_unique ms \<and>
    st_table ms = st_table s \<and> st_deleted_size ms = st_deleted_size s \<and> st_deleted ms = st_deleted s \<and>
    tables h' = tables h \<and> structs h' i = Some s \<and> shape_map h' j = shape_map h i \<and>
    (tight h i \<longrightarrow> tight h' j) \<and> shared_kept h h'"
proof (cases "tt_unique (st_transitions s)")
  case False
  with assms show ?thesis by (simp add: unique_target_def)
next
  case True
  note h = wfD [OF wf]
  obtain h' s' where n: "new_unique i h = Some (next_struct h, h')" "h' = snd (alloc_struct s' h)" "shapes_wf h'"
    "structs h' (next_struct h) = Some s'" "is_unique s'" "st_table s' = (if is_unique s then st_table s else None)"
    "st_deleted s' = st_deleted s" "st_deleted_size s' = st_deleted_size s"
    "shape_map h' (next_struct h) = shape_map h i" "tight h i \<longrightarrow> tight h' (next_struct h)"
    using new_unique_spec [OF assms(1,2)] by blast
  moreover have "unique_target i h = Some (next_struct h, h')" using True i n(1) by (simp add: unique_target_def)
  moreover have "structs h' i = Some s" "tables h' = tables h" "shared_kept h h'"
    using alloc_struct_old(1) [OF h(1) i(1)] shared_kept_alloc [OF h(1)] n(2) by (simp_all add: struct_alloc)
  ultimately show ?thesis using i(2) by auto
qed

lemma length_alist_update: "map_of tb k = None \<Longrightarrow> length (AList.update k v tb) = Suc (length tb)"
  by (induction tb) (auto split: if_splits)

lemma with_entry_idem: "structs h i = Some s \<Longrightarrow> with_entry i s t tb h = set_table t tb h"
  by (simp add: with_entry_def shape_ops fun_upd_idem)

lemma set_struct_table: "set_table t tb (set_struct i s h) = with_entry i s t tb h"
  by (simp add: with_entry_def shape_ops)

lemma tight_table:
  assumes "structs h i = Some s" "st_table s = Some t" "tables h t = Some tb" "distinct (map fst tb)"
  shows "tight h i \<longleftrightarrow>
    st_deleted_size s = length (st_deleted s) \<and> distinct (st_deleted s) \<and>
    set (st_deleted s) \<subseteq> {..<length tb + st_deleted_size s} \<and>
    bij_betw (slot_of (map_of tb)) (dom (map_of tb)) ({..<length tb + st_deleted_size s} - set (st_deleted s)) \<and>
    length tb + st_deleted_size s < 2 ^ 32"
proof -
  have "get_slots_size h s = length tb + st_deleted_size s"
    using assms by (simp add: get_slots_size_def table_of_def)
  moreover have "shape_map h i = Some (map_of tb)"
    using assms by (simp add: shape_map_table table_of_def)
  ultimately show ?thesis using assms(1) by (auto simp: tight_def finite_dom_map_of)
qed

lemma add_property_unique_spec:
  assumes wf: "shapes_wf h" and i: "structs h i = Some s" "is_unique s" and t: "tight h i"
    and m: "shape_map h i = Some m" "m name = None" and room: "get_slots_size h s + 1 < 2 ^ 32"
  shows "\<exists>j off h' js. add_property_unique i name attrs h = Some (j, off, h') \<and> shapes_wf h' \<and> shared_kept h h' \<and>
    shape_map h' j = Some (m(name \<mapsto> \<lparr>me_offset = off, me_attrs = attrs\<rparr>)) \<and> off \<notin> slot_of m ` dom m \<and>
    tight h' j \<and> structs h' j = Some js \<and> off < get_slots_size h' js \<and> get_slots_size h' js \<le> get_slots_size h s + 1"
proof -
  obtain h1 s1 t tb where e: "ensure_table i h = Some h1" "shapes_wf h1" "structs h1 i = Some s1" "st_table s1 = Some t"
    "tables h1 t = Some tb" "distinct (map fst tb)" "m = map_of tb" "tight h1 i" "shared_kept h h1" "is_unique s1"
    "shape_map h1 i = Some m"
    using ensure_table_spec [OF wf i(1)] m(1) t i(2) by auto
  obtain j h2 ms where u: "unique_target i h1 = Some (j, h2)" "shapes_wf h2" "structs h2 j = Some ms" "is_unique ms"
    "st_table ms = Some t" "st_deleted_size ms = st_deleted_size s1" "st_deleted ms = st_deleted s1"
    "tables h2 = tables h1" "structs h2 i = Some s1" "shape_map h2 j = Some m" "tight h2 j" "shared_kept h1 h2"
    using unique_target_spec [OF e(2,3,10)] e(4,8,11) by auto
  have tb: "tables h2 t = Some tb" using u(8) e(5) by simp
  note tight2 = u(11) [unfolded tight_table [OF u(3,5) tb e(6)]]
  have size: "get_slots_size h2 s1 = length tb + st_deleted_size ms"
    using e(4) u(6) tb by (simp add: get_slots_size_def table_of_def)
  have len: "length tb + st_deleted_size ms = get_slots_size h s"
    using bij_slots_card [of "slot_of m" "dom m" "get_slots_size h s" "st_deleted s"] t i(1) m(1)
      bij_slots_card [of "slot_of m" "dom m" "length tb + st_deleted_size ms" "st_deleted ms"] tight2
      ensure_table_spec [OF wf i(1)] e(1,3) u(6,7)
    by (auto simp: tight_def e(7))
  note plain = unique_plain [OF u(2,3,4)]
  have cnt: "st_transit_count ms \<le> 1" using wfD(5) [OF u(2)] u(3) by (auto simp: counts_ok_def)
  have final: "shapes_wf (with_entry j ms' t tb' h2) \<and> shared_kept h (with_entry j ms' t tb' h2) \<and>
      shape_map (with_entry j ms' t tb' h2) j = Some (m(name \<mapsto> e)) \<and>
      structs (with_entry j ms' t tb' h2) j = Some ms' \<and>
      get_slots_size (with_entry j ms' t tb' h2) ms' = Suc (length tb) + st_deleted_size ms' \<and>
      (tight (with_entry j ms' t tb' h2) j \<longleftrightarrow>
        st_deleted_size ms' = length (st_deleted ms') \<and> distinct (st_deleted ms') \<and>
        set (st_deleted ms') \<subseteq> {..<Suc (length tb) + st_deleted_size ms'} \<and>
        bij_betw (slot_of (m(name \<mapsto> e))) (insert name (dom m)) ({..<Suc (length tb) + st_deleted_size ms'} - set (st_deleted ms')) \<and>
        Suc (length tb) + st_deleted_size ms' < 2 ^ 32)"
    if tb': "tb' = AList.update name e tb"
      and ms': "ms' = ms\<lparr>st_deleted := d, st_deleted_size := n\<rparr>" for ms' tb' e d n
  proof -
    let ?h = "with_entry j ms' t tb' h2"
    have d': "distinct (map fst tb')" using tb' e(6) by (simp add: distinct_update)
    have f: "is_unique ms'" "\<not> is_adding_map ms'" "transition_list (st_transitions ms') = []" "st_transit_count ms' \<le> 1"
      "st_table ms' = Some t" "st_previous ms' = st_previous ms"
      using ms' u(4,5) plain cnt by (simp_all add: is_unique_def is_adding_map_def)
    have wf': "shapes_wf ?h" by (rule entry_wf [OF u(2-5) d' f])
    have j: "structs ?h j = Some ms'" "tables ?h t = Some tb'" by (simp_all add: struct_entry)
    have sh: "shape_map ?h j = Some (m(name \<mapsto> e))"
      using shape_map_table [OF j(1) f(5)] tb' e(7) by (simp add: struct_entry)
    have l: "length tb' = Suc (length tb)" using tb' m(2) e(7) by (simp add: length_alist_update)
    have dm: "map_of tb' = m(name \<mapsto> e)" using tb' e(7) by simp
    have "shared_kept h ?h"
      using e(9) u(12) shared_kept_entry [OF u(2-5)] shared_kept_trans by metis
    moreover have "get_slots_size ?h ms' = Suc (length tb) + st_deleted_size ms'"
      using f(5) l by (simp add: get_slots_size_def struct_entry)
    ultimately show ?thesis using wf' sh j tight_table [OF j(1) f(5) j(2) d'] l dm by simp
  qed
  show ?thesis
  proof (cases "st_deleted ms")
    case Nil
    let ?n = "length tb" let ?e = "\<lparr>me_offset = ?n, me_attrs = attrs\<rparr>"
    let ?h = "with_entry j ms t (AList.update name ?e tb) h2"
    have z: "st_deleted_size ms = 0" using tight2 Nil by simp
    then have "?n < 2 ^ 32" using tight2 by simp
    then have "add_property_unique i name attrs h = Some (j, ?n, ?h)"
      using e(1) u(1,3,5,9) tb size z
      by (simp add: add_property_unique_def deleted_empty_def with_entry_idem)
    moreover have "bij_betw (slot_of (m(name \<mapsto> ?e))) (insert name (dom m)) (insert ?n {..<?n})"
      using tight2 Nil z e(7) by (intro bij_slot_add m(2)) auto
    moreover have "slot_of m ` dom m = {..<?n}" using tight2 Nil z e(7) by (auto simp: bij_betw_def)
    moreover have "Suc ?n < 2 ^ 32" using room len z by simp
    ultimately show ?thesis
      using final [where ms' = ms and d = "[]" and n = 0 and e = ?e, OF refl] Nil z len
      by (intro exI [of _ j] exI [of _ ?n] exI [of _ ?h] exI [of _ ms]) (simp add: lessThan_Suc)
  next
    case (Cons off rest)
    let ?e = "\<lparr>me_offset = off, me_attrs = attrs\<rparr>"
    let ?ms = "ms\<lparr>st_deleted := rest, st_deleted_size := st_deleted_size ms - 1\<rparr>"
    let ?h = "with_entry j ?ms t (AList.update name ?e tb) h2"
    have z: "st_deleted_size ms = Suc (length rest)" using tight2 Cons by simp
    let ?n = "length tb + st_deleted_size ms"
    have "add_property_unique i name attrs h = Some (j, off, ?h)"
      using e(1) u(1,3,5,9) tb z Cons
      by (simp add: add_property_unique_def deleted_empty_def deleted_pop_def set_struct_table) (simp add: struct_set)
    moreover have b: "bij_betw (slot_of m) (dom m) ({..<?n} - set (st_deleted ms))"
      "distinct (off # rest)" "set (off # rest) \<subseteq> {..<?n}"
      using tight2 Cons e(7) by auto
    moreover have "bij_betw (slot_of (m(name \<mapsto> ?e))) (insert name (dom m)) (insert off ({..<?n} - set (st_deleted ms)))"
      by (rule bij_slot_add [OF b(1) m(2)]) (simp add: Cons)
    moreover have "insert off ({..<?n} - set (st_deleted ms)) = {..<?n} - set rest"
      using b(2,3) by (auto simp: Cons)
    moreover have "off \<notin> slot_of m ` dom m" using b(1) Cons by (auto simp: bij_betw_def)
    moreover have "Suc (length tb) + st_deleted_size ?ms = ?n" using z by simp
    ultimately show ?thesis
      using final [where ms' = ?ms and d = rest and n = "st_deleted_size ms - 1" and e = ?e, OF refl]
        room len z tight2
      by (intro exI [of _ j] exI [of _ off] exI [of _ ?h] exI [of _ ?ms]) simp
  qed
qed

lemma set_alloc: "set_struct (next_struct h) s' (snd (alloc_struct s h)) = snd (alloc_struct s' h)"
  by (simp add: shape_ops)

lemma add_property_new_spec:
  assumes wf: "shapes_wf h" and i: "structs h i = Some s" "\<not> is_unique s"
    and m: "shape_map h i = Some m" "m name = None" "name \<noteq> DUMMY_SYMBOL"
    and room: "get_slots_size h s + 1 < 2 ^ 32"
  shows "\<exists>j off h' js. add_property_new i name attrs h = Some (j, off, h') \<and> shapes_wf h' \<and> shared_kept h h' \<and>
    shape_map h' j = Some (m(name \<mapsto> \<lparr>me_offset = off, me_attrs = attrs\<rparr>)) \<and> off \<notin> slot_of m ` dom m \<and>
    tight h' j \<and> structs h' j = Some js \<and> off < get_slots_size h' js \<and> get_slots_size h' js \<le> get_slots_size h s + 1"
proof -
  note h = wfD [OF wf]
  have d0: "st_deleted s = []" "st_deleted_size s = 0" using h(5) i by (auto simp: counts_ok_def)
  let ?n = "get_slots_size h s" and ?m = "next_struct h"
  let ?e = "\<lparr>me_offset = ?n, me_attrs = attrs\<rparr>"
  have n: "?n < 2 ^ 32" "Suc ?n < 2 ^ 32" using room by simp_all
  define b where "b = \<lparr>st_id = 0, st_transitions = transitions_new True (st_is_indexed s), st_table = None,
     st_deleted = [], st_deleted_size = 0, st_added = (DUMMY_SYMBOL, entry_not_found), st_previous = Some i,
     st_prototype = st_prototype s, st_calculated_size = ?n, st_transit_count = 0,
     st_flattened = st_flattened s, st_chain = None\<rparr>"
  define a where "a = b\<lparr>st_added := (name, ?e), st_calculated_size := ?n + 1, st_transit_count := 1\<rparr>"
  have ctor: "new_shape i h = Some (?m, snd (alloc_struct b h))"
    using i n d0 by (simp add: new_shape_def ctor_def b_def alloc_struct_def get_slots_size_def Let_def)
  let ?h1 = "snd (alloc_struct a h)"
  let ?h2 = "set_struct i (linked name attrs ?m s) ?h1"
  have f: "\<not> is_unique a" "st_table a = None" "st_previous a = Some i" "st_deleted a = []" "st_deleted_size a = 0"
      "st_added a = (name, ?e)" "st_calculated_size a = ?n + 1" "st_transit_count a \<le> 1"
      "transition_list (st_transitions a) = []"
    by (simp_all add: a_def b_def is_unique_def transitions_new_def transition_list_def)
  note new = alloc_adding_wf [OF wf i m room f]
  have st: "structs ?h1 i = Some s" "structs ?h1 ?m = Some a" "i \<noteq> ?m"
    using alloc_struct_old(1) [OF h(1) i(1)] linksD(1) [OF h(1) i(1)] by (simp_all add: struct_alloc)
  have sh: "shape_map ?h1 i = Some m" using alloc_struct_old(2) [OF h(1) i(1)] m(1) by simp
  note l1 = wfD(1) [OF new(1)]
  have wf2: "shapes_wf ?h2"
    using linked_wf [OF new(1) st(1) i(2) st(2) f(1,6) _ sh m(2) new(2)] by simp
  have "tight ?h1 ?m" using wfD(6) [OF new(1)] st(2) f(1) by (auto simp: tight_ok_def)
  then have t2: "tight ?h2 ?m" by (rule linked_tight [OF l1 st(1)])
  have a2: "structs ?h2 ?m = Some a" using st by (simp add: struct_set)
  have size: "get_slots_size ?h2 a = ?n + 1" using f(2,7) by (simp add: get_slots_size_def)
  have "add_property_new i name attrs h = Some (?m, ?n, ?h2)"
  proof -
    have eq: "a = b\<lparr>st_added := (name, ?e), st_calculated_size := Suc ?n, st_transit_count := Suc 0\<rparr>"
      by (simp add: a_def)
    have fin: "as_u32 ?n = ?n" "as_u32 (Suc ?n) = Suc ?n" "as_u32 (Suc 0) = Suc 0"
      using n by (simp_all add: as_u32_def)
    have bf: "deleted_empty b" "st_transit_count b = 0" by (simp_all add: b_def deleted_empty_def)
    show ?thesis
      using size n
      by (simp add: add_property_new_def ctor i(1) st(3) st(3) [symmetric] bf fin struct_alloc Let_def set_alloc eq [symmetric]
          linked_def [symmetric] f)
  qed
  moreover have "shape_map ?h2 ?m = Some (m(name \<mapsto> ?e))"
    using linked_shape [OF l1 st(1) st(2)] new(2) by simp
  moreover have "shared_kept h ?h2"
    by (rule shared_kept_trans [OF shared_kept_alloc [OF h(1)] shared_kept_linked [OF l1 st(1)]])
  ultimately show ?thesis using wf2 t2 a2 size new(3)
    by (intro exI [of _ ?m] exI [of _ ?n] exI [of _ ?h2] exI [of _ a]) simp
qed

lemma add_property_spec:
  assumes "shapes_wf h" "structs h i = Some s" "tight h i"
    and "shape_map h i = Some m" "m name = None" "name \<noteq> DUMMY_SYMBOL"
    and "get_slots_size h s + 1 < 2 ^ 32"
  shows "\<exists>j off h' js. add_property_transition i name attrs h = Some (j, off, h') \<and> shapes_wf h' \<and>
    shared_kept h h' \<and> shape_map h' j = Some (m(name \<mapsto> \<lparr>me_offset = off, me_attrs = attrs\<rparr>)) \<and>
    off \<notin> slot_of m ` dom m \<and> tight h' j \<and> structs h' j = Some js \<and> off < get_slots_size h' js \<and> get_slots_size h' js \<le> get_slots_size h s + 1"
proof (cases "is_unique s")
  case True
  with add_property_unique_spec [OF assms(1,2) True assms(3-5,7)] assms(2) show ?thesis
    by (simp add: add_property_transition_def)
next
  case False
  note h = wfD [OF assms(1)]
  have count: "\<not> 64 < st_transit_count s" using h(5) assms(2) by (fastforce simp: counts_ok_def)
  show ?thesis
  proof (cases "transitions_find h (st_transitions s) name attrs")
    case None
    with False count assms(2) have "add_property_transition i name attrs h = add_property_new i name attrs h"
      by (simp add: add_property_transition_def)
    with add_property_new_spec [OF assms(1,2) False assms(4-7), of attrs] show ?thesis by simp
  next
    case (Some j)
    then have "((name, attrs), j) \<in> set (transition_list (st_transitions s)) \<and> structs h j \<noteq> None"
      by (auto simp: transitions_find_def transition_list_def upgrade_def bind_eq_Some_conv Let_def
          dest: map_of_SomeD split: transition.splits if_splits)
    then obtain sj where kj: "((name, attrs), j) \<in> set (transition_list (st_transitions s))" "structs h j = Some sj"
      by blast
    define e where "e = snd (st_added sj)"
    from transitionsD(3) [OF h(4) assms(2) kj] assms(4)
    have j: "\<not> is_unique sj" "me_attrs e = attrs" "shape_map h j = Some (m(name \<mapsto> e))"
      by (auto simp: e_def)
    have e: "e = \<lparr>me_offset = me_offset e, me_attrs = attrs\<rparr>" using j(2) by simp
    have tj: "tight h j" using h(6) kj(2) j(1) by (auto simp: tight_ok_def)
    have add: "add_property_transition i name attrs h = Some (j, me_offset e, h)"
      using False Some kj(2) assms(2) by (simp add: add_property_transition_def e_def)
    have inj: "inj_on (slot_of (m(name \<mapsto> e))) (dom (m(name \<mapsto> e)))"
      and rng: "slot_of (m(name \<mapsto> e)) ` dom (m(name \<mapsto> e)) \<subseteq> {..<get_slots_size h sj}"
      using tj kj(2) j(3) by (auto simp: tight_def bij_betw_def)
    have "me_offset e \<notin> slot_of m ` dom m"
    proof
      assume "me_offset e \<in> slot_of m ` dom m"
      then obtain k where k: "k \<in> dom m" "slot_of m k = me_offset e" by (metis imageE)
      with assms(5) have "k \<noteq> name" by auto
      with k have "slot_of (m(name \<mapsto> e)) k = slot_of (m(name \<mapsto> e)) name" by (simp add: slot_of_def)
      moreover have "k \<in> dom (m(name \<mapsto> e))" "name \<in> dom (m(name \<mapsto> e))" using k(1) by auto
      ultimately have "k = name" by (rule inj_onD [OF inj])
      with \<open>k \<noteq> name\<close> show False by simp
    qed
    moreover have "me_offset e < get_slots_size h sj"
      using rng by (force simp: slot_of_def)
    moreover have "get_slots_size h sj \<le> get_slots_size h s + 1"
    proof -
      have "card (dom m) + 0 = get_slots_size h s"
        using bij_slots_card [of "slot_of m" "dom m" "get_slots_size h s" "[]"] h(5) False assms(2-4)
        by (auto simp: tight_def counts_ok_def)
      moreover have "card (dom (m(name \<mapsto> e))) + 0 = get_slots_size h sj"
        using bij_slots_card [of "slot_of (m(name \<mapsto> e))" "dom (m(name \<mapsto> e))" "get_slots_size h sj" "[]"]
          h(5) j(1,3) kj(2) tj by (auto simp: tight_def counts_ok_def)
      moreover have "card (dom (m(name \<mapsto> e))) \<le> Suc (card (dom m))" using card_insert_le_m1 [of "Suc (card (dom m))" "dom m" name] by simp
      ultimately show ?thesis by simp
    qed
    ultimately show ?thesis using add tj kj(2) j(3) e assms(1)
      by (intro exI [of _ j] exI [of _ "me_offset e"] exI [of _ h] exI [of _ sj]) simp
  qed
qed

text \<open>
  C18. Adding a property to a structure is correct on every path (a table updated in place, a new
  unique structure, a new transition, a transition found in the weak table): the structure
  returned has the old properties at their old offsets and the new one at an offset no other
  property uses and that is below its slots size, which grows by one at most; its offsets stay
  exactly the slots in use; and no shared structure changes.
\<close>

theorem add_property_correct:
  assumes "shapes_wf h" "structs h i = Some s" "tight h i"
    and "shape_map h i = Some m" "m name = None" "name \<noteq> DUMMY_SYMBOL"
    and "get_slots_size h s + 1 < 2 ^ 32"
  shows "\<exists>j off h' js. add_property_transition i name attrs h = Some (j, off, h') \<and> shapes_wf h' \<and>
    shared_kept h h' \<and> shape_map h' j = Some (m(name \<mapsto> \<lparr>me_offset = off, me_attrs = attrs\<rparr>)) \<and>
    off \<notin> slot_of m ` dom m \<and> tight h' j \<and> structs h' j = Some js \<and> off < get_slots_size h' js \<and> get_slots_size h' js \<le> get_slots_size h s + 1"
  using assms by (rule add_property_spec)

section \<open>Deleting a property and changing its attributes\<close>

lemma length_alist_delete:
  "distinct (map fst tb) \<Longrightarrow> map_of tb k = Some e \<Longrightarrow> Suc (length (AList.delete k tb)) = length tb"
proof (induction tb)
  case (Cons x tb)
  have gone: "AList.delete k xs = xs" if "k \<notin> fst ` set xs" for xs :: "('a \<times> 'b) list"
    using that by (induction xs) auto
  show ?case
  proof (cases "fst x = k")
    case True
    with Cons.prems gone [of tb] show ?thesis by (cases x) auto
  next
    case False
    with Cons show ?thesis by (cases x) auto
  qed
qed simp

lemma bij_slot_delete:
  assumes "bij_betw (slot_of m) (dom m) A" "m name = Some e"
  shows "bij_betw (slot_of (m(name := None))) (dom m - {name}) (A - {me_offset e})" "me_offset e \<in> A"
proof -
  have off: "slot_of m name = me_offset e" "name \<in> dom m" using assms(2) by (auto simp: slot_of_def)
  have "bij_betw (slot_of m) (dom m - {name}) (A - {me_offset e})"
  proof (rule bij_betw_DiffI [OF assms(1)])
    show "bij_betw (slot_of m) {name} {me_offset e}" using off(1) by simp
    show "{me_offset e} \<subseteq> A" using bij_betw_imp_surj_on [OF assms(1)] off by (metis empty_subsetI imageI insert_subset)
  qed (use off(2) in simp)
  then show "bij_betw (slot_of (m(name := None))) (dom m - {name}) (A - {me_offset e})"
    by (subst bij_betw_cong [of _ _ "slot_of m"]) (auto simp: slot_of_def)
  show "me_offset e \<in> A" using bij_betw_imp_surj_on [OF assms(1)] off by (metis imageI)
qed

text \<open>A unique structure of its own, with a table, that has the properties and slots of \<open>i\<close>.\<close>

lemma unique_with_table_spec:
  assumes wf: "shapes_wf h" and i: "structs h i = Some s" and t: "tight h i" and m: "shape_map h i = Some m"
  shows "\<exists>j h1 h2 ms t tb. new_unique i h = Some (j, h1) \<and> ensure_table j h1 = Some h2 \<and> shapes_wf h2 \<and>
    shared_kept h h2 \<and> structs h2 j = Some ms \<and> is_unique ms \<and> st_table ms = Some t \<and> tables h2 t = Some tb \<and>
    distinct (map fst tb) \<and> m = map_of tb \<and> tight h2 j \<and> \<not> is_adding_map ms \<and>
    transition_list (st_transitions ms) = [] \<and> st_transit_count ms \<le> 1"
proof -
  note h = wfD [OF wf]
  obtain h1 s1 where n: "new_unique i h = Some (next_struct h, h1)" "h1 = snd (alloc_struct s1 h)" "shapes_wf h1"
    "structs h1 (next_struct h) = Some s1" "is_unique s1" "shape_map h1 (next_struct h) = Some m" "tight h1 (next_struct h)"
    using new_unique_spec [OF wf i] m t by auto
  obtain h2 ms t tb where e: "ensure_table (next_struct h) h1 = Some h2" "shapes_wf h2" "structs h2 (next_struct h) = Some ms"
    "st_table ms = Some t" "tables h2 t = Some tb" "distinct (map fst tb)" "m = map_of tb" "tight h2 (next_struct h)"
    "shared_kept h1 h2" "is_unique ms"
    using ensure_table_spec [OF n(3,4)] n(5,6,7) by auto
  have "shared_kept h h2"
    using shared_kept_trans [OF shared_kept_alloc [OF h(1)] e(9) [unfolded n(2)]] .
  moreover have "st_transit_count ms \<le> 1" using wfD(5) [OF e(2)] e(3) by (auto simp: counts_ok_def)
  ultimately show ?thesis using n(1) e unique_plain [OF e(2,3,10)] by blast
qed

lemma delete_property_spec:
  assumes "shapes_wf h" "structs h i = Some s" "tight h i" "shape_map h i = Some m" "m name = Some e"
  shows "\<exists>j h' js. delete_property_transition i name h = Some (j, h') \<and> shapes_wf h' \<and> shared_kept h h' \<and>
    shape_map h' j = Some (m(name := None)) \<and> tight h' j \<and> structs h' j = Some js \<and>
    me_offset e \<in> set (st_deleted js)"
proof -
  obtain j h1 h2 ms t tb where u: "new_unique i h = Some (j, h1)" "ensure_table j h1 = Some h2" "shapes_wf h2"
    "shared_kept h h2" "structs h2 j = Some ms" "is_unique ms" "st_table ms = Some t" "tables h2 t = Some tb"
    "distinct (map fst tb)" "m = map_of tb" "tight h2 j" "\<not> is_adding_map ms"
    "transition_list (st_transitions ms) = []" "st_transit_count ms \<le> 1"
    using unique_with_table_spec [OF assms(1-4)] by metis
  note t2 = u(11) [unfolded tight_table [OF u(5,7,8,9)]]
  let ?tb = "AList.delete name tb" and ?ms = "deleted_push (me_offset e) ms"
  let ?h = "with_entry j ?ms t ?tb h2"
  let ?n = "length tb + st_deleted_size ms"
  have len: "Suc (length ?tb) = length tb" using length_alist_delete [OF u(9), of name e] u(10) assms(5) by simp
  have small: "Suc (st_deleted_size ms) < 2 ^ 32" using t2 len by linarith
  have f: "is_unique ?ms" "\<not> is_adding_map ?ms" "transition_list (st_transitions ?ms) = []" "st_transit_count ?ms \<le> 1"
    "st_table ?ms = Some t" "st_previous ?ms = st_previous ms" "st_deleted ?ms = me_offset e # st_deleted ms"
    "st_deleted_size ?ms = Suc (st_deleted_size ms)"
    using u(6,7,12-14) small by (simp_all add: deleted_push_def is_unique_def is_adding_map_def)
  have d: "distinct (map fst ?tb)" using u(9) by (rule distinct_delete)
  have j: "structs ?h j = Some ?ms" "tables ?h t = Some ?tb" by (simp_all add: struct_entry)
  have mo: "map_of ?tb = m(name := None)" by (simp add: delete_conv' u(10))
  have "shapes_wf ?h" by (rule entry_wf [OF u(3,5-7) d f(1-6)])
  moreover have "delete_property_transition i name h = Some (j, ?h)"
    using u(1,2,5,7,8) assms(5) u(10)
    by (simp add: delete_property_transition_def structure_delete_def with_entry_def)
  moreover have "shared_kept h ?h" by (rule shared_kept_trans [OF u(4) shared_kept_entry [OF u(3,5-7)]])
  moreover have "shape_map ?h j = Some (m(name := None))"
    using shape_map_table [OF j(1) f(5)] mo by (simp add: struct_entry)
  moreover have "tight ?h j"
  proof -
    have b: "bij_betw (slot_of m) (dom m) ({..<?n} - set (st_deleted ms))" using t2 unfolding u(10) by blast
    note bd = bij_slot_delete [OF b assms(5)]
    have dm: "dom (m(name := None)) = dom m - {name}" by auto
    have st: "{..<?n} - set (st_deleted ms) - {me_offset e} = {..<?n} - set (me_offset e # st_deleted ms)" by auto
    have n: "length ?tb + Suc (st_deleted_size ms) = ?n" using len by simp
    show ?thesis
      unfolding tight_table [OF j(1) f(5) j(2) d] mo f(7,8) n dm
      using bd(1) [unfolded st] bd(2) t2 by auto
  qed
  ultimately show ?thesis using j(1) f(7) by auto
qed

text \<open>
  C19. Deleting a property yields a structure without it, whose other properties keep their offsets
  and whose freed offset is remembered: the offsets in use and the deleted ones are still
  exactly the slots. No shared structure changes.
\<close>

theorem delete_property_correct:
  assumes "shapes_wf h" "structs h i = Some s" "tight h i" "shape_map h i = Some m" "m name = Some e"
  shows "\<exists>j h' js. delete_property_transition i name h = Some (j, h') \<and> shapes_wf h' \<and> shared_kept h h' \<and>
    shape_map h' j = Some (m(name := None)) \<and> tight h' j \<and> structs h' j = Some js \<and>
    me_offset e \<in> set (st_deleted js)"
  using assms by (rule delete_property_spec)

lemma change_attributes_spec:
  assumes "shapes_wf h" "structs h i = Some s" "tight h i" "shape_map h i = Some m" "m name = Some e"
  shows "\<exists>j h'. change_attributes_transition i name attrs h = Some (j, h') \<and> shapes_wf h' \<and> shared_kept h h' \<and>
    shape_map h' j = Some (m(name \<mapsto> e\<lparr>me_attrs := attrs\<rparr>)) \<and> tight h' j"
proof -
  obtain j h1 h2 ms t tb where u: "new_unique i h = Some (j, h1)" "ensure_table j h1 = Some h2" "shapes_wf h2"
    "shared_kept h h2" "structs h2 j = Some ms" "is_unique ms" "st_table ms = Some t" "tables h2 t = Some tb"
    "distinct (map fst tb)" "m = map_of tb" "tight h2 j" "\<not> is_adding_map ms"
    "transition_list (st_transitions ms) = []" "st_transit_count ms \<le> 1"
    using unique_with_table_spec [OF assms(1-4)] by metis
  note t2 = u(11) [unfolded tight_table [OF u(5,7,8,9)]]
  let ?e = "e\<lparr>me_attrs := attrs\<rparr>"
  let ?tb = "AList.update name ?e tb"
  let ?h = "with_entry j ms t ?tb h2"
  have d: "distinct (map fst ?tb)" using u(9) by (simp add: distinct_update)
  have j: "structs ?h j = Some ms" "tables ?h t = Some ?tb" by (simp_all add: struct_entry)
  have mo: "map_of ?tb = m(name \<mapsto> ?e)" by (simp add: u(10))
  have dm: "dom (m(name \<mapsto> ?e)) = dom m" using assms(5) by auto
  have len: "length ?tb = length tb"
    using length_distinct_table [OF d] length_distinct_table [OF u(9)] dm by (simp only: mo u(10) [symmetric])
  have "tight ?h j"
  proof -
    have "bij_betw (slot_of (m(name \<mapsto> ?e))) (dom m) ({..<length tb + st_deleted_size ms} - set (st_deleted ms))"
      using t2 assms(5) unfolding u(10) [symmetric]
      by (subst bij_betw_cong [of _ _ "slot_of m"]) (auto simp: slot_of_def)
    with t2 show ?thesis unfolding tight_table [OF j(1) u(7) j(2) d] mo dm len by blast
  qed
  moreover have "shapes_wf ?h" using entry_wf [OF u(3,5-7) d u(6,12-14,7) refl] .
  moreover have "change_attributes_transition i name attrs h = Some (j, ?h)"
    using u(1,2,5,7,8) assms(5) u(10)
    by (simp add: change_attributes_transition_def change_attributes_def with_entry_idem)
  moreover have "shared_kept h ?h" by (rule shared_kept_trans [OF u(4) shared_kept_entry [OF u(3,5-7)]])
  moreover have "shape_map ?h j = Some (m(name \<mapsto> ?e))"
    using shape_map_table [OF j(1) u(7)] mo by (simp add: struct_entry)
  ultimately show ?thesis by blast
qed

text \<open>
  C21. Changing the attributes of a property changes just that: the new structure has the same
  properties at the same offsets, with the new attributes for the one named, and no shared
  structure changes.
\<close>

theorem change_attributes_correct:
  assumes "shapes_wf h" "structs h i = Some s" "tight h i" "shape_map h i = Some m" "m name = Some e"
  shows "\<exists>j h'. change_attributes_transition i name attrs h = Some (j, h') \<and> shapes_wf h' \<and> shared_kept h h' \<and>
    shape_map h' j = Some (m(name \<mapsto> e\<lparr>me_attrs := attrs\<rparr>)) \<and> tight h' j"
  using assms by (rule change_attributes_spec)

section \<open>Transitions that keep the properties\<close>

lemma unique_update_spec:
  assumes wf: "shapes_wf h" and i: "structs h i = Some s" "is_unique s" and m: "shape_map h i = Some m" and t: "tight h i"
    and f: "\<And>q. same_fields q (f q)"
  shows "\<exists>j h1 ms. unique_target i h = Some (j, h1) \<and> structs h1 j = Some ms \<and> shapes_wf (set_struct j (f ms) h1) \<and>
    shared_kept h (set_struct j (f ms) h1) \<and> shape_map (set_struct j (f ms) h1) j = Some m \<and>
    tight (set_struct j (f ms) h1) j \<and> structs (set_struct j (f ms) h1) j = Some (f ms) \<and> is_unique (f ms)"
proof -
  obtain j h1 ms where u: "unique_target i h = Some (j, h1)" "shapes_wf h1" "structs h1 j = Some ms" "is_unique ms"
    "shape_map h1 j = Some m" "tight h1 j" "shared_kept h h1"
    using unique_target_spec [OF wf i] m t by auto
  let ?h = "set_struct j (f ms) h1"
  note l = wfD(1) [OF u(2)]
  note c = cosmetic_same [OF l u(3) f u(3)]
  obtain ms' where "structs ?h j = Some ms'" "same_at h1 ?h j ms ms'" using c(2) by blast
  then have "tight ?h j" using tight_same [OF u(6,3)] by blast
  moreover have "is_unique (f ms)" using f [of ms] u(4) by (simp add: same_fields_def)
  moreover have "structs ?h j = Some (f ms)" by (simp add: struct_set)
  ultimately show ?thesis
    using u c(1) cosmetic_wf [OF u(2,3) f] shared_kept_trans [OF u(7) shared_kept_cosmetic [OF l u(3) f]] by metis
qed

lemma reshape_spec:
  assumes wf: "shapes_wf h" and i: "structs h i = Some s" and m: "shape_map h i = Some m" and t: "tight h i"
    and f: "\<And>q. same_fields q (f q)"
    and g: "\<And>k h'. g k h' = do { (j, h1) \<leftarrow> unique_target k h'; q \<leftarrow> structs h1 j; Some (j, set_struct j (f q) h1) }"
  shows "\<exists>j h' js. (if is_unique s then g i h else do { (k, h1) \<leftarrow> new_unique i h; g k h1 }) = Some (j, h') \<and>
    shapes_wf h' \<and> shared_kept h h' \<and> shape_map h' j = Some m \<and> tight h' j \<and>
    structs h' j = Some js \<and> is_unique js \<and> (\<exists>q. js = f q)"
proof (cases "is_unique s")
  case True
  obtain j h1 ms where u: "unique_target i h = Some (j, h1)" "structs h1 j = Some ms" "shapes_wf (set_struct j (f ms) h1)"
    "shared_kept h (set_struct j (f ms) h1)" "shape_map (set_struct j (f ms) h1) j = Some m"
    "tight (set_struct j (f ms) h1) j" "structs (set_struct j (f ms) h1) j = Some (f ms)" "is_unique (f ms)"
    using unique_update_spec [OF wf i True m t f] by blast
  then have "g i h = Some (j, set_struct j (f ms) h1)" by (simp add: g)
  with True u show ?thesis by auto
next
  case False
  note l = wfD(1) [OF wf]
  obtain h0 s0 where n: "new_unique i h = Some (next_struct h, h0)" "h0 = snd (alloc_struct s0 h)" "shapes_wf h0"
    "structs h0 (next_struct h) = Some s0" "is_unique s0" "shape_map h0 (next_struct h) = Some m" "tight h0 (next_struct h)"
    using new_unique_spec [OF wf i] m t by auto
  obtain j h1 ms where u: "unique_target (next_struct h) h0 = Some (j, h1)" "structs h1 j = Some ms"
    "shapes_wf (set_struct j (f ms) h1)"
    "shared_kept h0 (set_struct j (f ms) h1)" "shape_map (set_struct j (f ms) h1) j = Some m"
    "tight (set_struct j (f ms) h1) j" "structs (set_struct j (f ms) h1) j = Some (f ms)" "is_unique (f ms)"
    using unique_update_spec [OF n(3-7) f] by blast
  have "shared_kept h (set_struct j (f ms) h1)"
    using shared_kept_trans [OF shared_kept_alloc [OF l] u(4) [unfolded n(2)]] .
  moreover have "g (next_struct h) h0 = Some (j, set_struct j (f ms) h1)" using u by (simp add: g)
  ultimately show ?thesis using False n(1) u by auto
qed

lemma reshape_all_spec:
  assumes "shapes_wf h" "structs h i = Some s" "shape_map h i = Some m" "tight h i"
  shows "(\<exists>j h' js. change_prototype_transition i proto h = Some (j, h') \<and> shapes_wf h' \<and> shared_kept h h' \<and>
      shape_map h' j = Some m \<and> tight h' j \<and> structs h' j = Some js \<and> is_unique js \<and> st_prototype js = proto) \<and>
    (\<exists>j h' js. change_indexed_transition i h = Some (j, h') \<and> shapes_wf h' \<and> shared_kept h h' \<and>
      shape_map h' j = Some m \<and> tight h' j \<and> structs h' j = Some js \<and> is_unique js \<and> st_is_indexed js)"
proof
  have p: "same_fields q (q\<lparr>st_prototype := proto\<rparr>)" for q
    by (simp add: same_fields_def is_unique_def)
  show "\<exists>j h' js. change_prototype_transition i proto h = Some (j, h') \<and> shapes_wf h' \<and> shared_kept h h' \<and>
      shape_map h' j = Some m \<and> tight h' j \<and> structs h' j = Some js \<and> is_unique js \<and> st_prototype js = proto"
    using reshape_spec [OF assms p, where g = "\<lambda>k. change_prototype_unique k proto"] assms(2)
    by (auto simp: change_prototype_transition_def change_prototype_unique_def)
  have x: "same_fields q (q\<lparr>st_transitions := set_indexed True (st_transitions q)\<rparr>)" for q
    by (simp add: same_fields_def is_unique_def set_indexed_def transition_list_def)
  show "\<exists>j h' js. change_indexed_transition i h = Some (j, h') \<and> shapes_wf h' \<and> shared_kept h h' \<and>
      shape_map h' j = Some m \<and> tight h' j \<and> structs h' j = Some js \<and> is_unique js \<and> st_is_indexed js"
    using reshape_spec [OF assms x, where g = change_indexed_unique] assms(2)
    by (auto simp: change_indexed_transition_def change_indexed_unique_def st_is_indexed_def set_indexed_def)
qed

text \<open>
  C22. Changing the prototype or the indexed flag of a structure gives a unique structure with the
  same properties at the same offsets and with the new prototype or flag; no shared structure
  changes, so other objects of the old shape keep their prototype and their elements mode.
\<close>

theorem reshape_keeps_properties:
  assumes "shapes_wf h" "structs h i = Some s" "shape_map h i = Some m" "tight h i"
  shows "(\<exists>j h' js. change_prototype_transition i proto h = Some (j, h') \<and> shapes_wf h' \<and> shared_kept h h' \<and>
      shape_map h' j = Some m \<and> tight h' j \<and> structs h' j = Some js \<and> is_unique js \<and> st_prototype js = proto) \<and>
    (\<exists>j h' js. change_indexed_transition i h = Some (j, h') \<and> shapes_wf h' \<and> shared_kept h h' \<and>
      shape_map h' j = Some m \<and> tight h' j \<and> structs h' j = Some js \<and> is_unique js \<and> st_is_indexed js)"
  using assms by (rule reshape_all_spec)

end
