(* ===== verification/Shape_Reach.thy ===== *)
theory Shape_Reach
  imports Shape_Ops
begin

text \<open>
  Every heap of structures the engine can build satisfies the invariant: the roots, the builder
  (vm/structure_builder.rs), all transitions and the collection of structures by the garbage
  collector. Also the storage capacity, and the sharing of tables by \<open>new_from_point\<close>.
\<close>

section \<open>Roots\<close>

lemma empty_wf: "shapes_wf empty_shapes"
  by (simp add: shapes_wf_def links_ok_def sharing_ok_def adding_ok_def transitions_ok_def counts_ok_def
      tight_ok_def empty_shapes_def cells.defs)

lemma alloc_table_fields:
  "structs (snd (alloc_table tb h)) = structs h" "next_struct (snd (alloc_table tb h)) = next_struct h"
  "next_table (snd (alloc_table tb h)) = Suc (next_table h)"
  "tables (snd (alloc_table tb h)) t = (if t = next_table h then Some tb else tables h t)"
  "table_of (snd (alloc_table tb h)) t = (if t = next_table h then tb else table_of h t)"
  by (simp_all add: shape_ops table_of_def)

lemma alloc_table_wf:
  assumes "shapes_wf h"
  shows "shapes_wf (snd (alloc_table tb h))"
    and "\<And>k. shape_map (snd (alloc_table tb h)) k = shape_map h k"
    and "\<And>k. tight h k \<Longrightarrow> tight (snd (alloc_table tb h)) k"
proof -
  let ?h = "snd (alloc_table tb h)"
  note h = wfD [OF assms]
  have old: "table_of ?h t = table_of h t" if "structs h k = Some ks" "st_table ks = Some t" for k ks t
    using linksD(3) [OF h(1) that] by (simp add: alloc_table_fields)
  have "shape_map ?h k = shape_map h k" for k
  proof (cases "structs h k")
    case None
    then show ?thesis by (simp add: shape_map.simps alloc_table_fields)
  next
    case (Some ks)
    show ?thesis
      by (rule shape_map_cong [OF h(1) Some, of "\<lambda>_. True"]) (use old in \<open>auto simp: alloc_table_fields(1)\<close>)
  qed
  then show sh: "\<And>k. shape_map ?h k = shape_map h k" .
  have same: "same_at h ?h k ks ks" if "structs h k = Some ks" for k ks
    using old [OF that] by (auto simp: same_at_def sh get_slots_size_def split: option.splits)
  show "\<And>k. tight h k \<Longrightarrow> tight ?h k"
    using tight_same same by (metis alloc_table_fields(1) tight_def)
  have "links_ok ?h"
    unfolding links_ok_def alloc_table_fields(1,2)
  proof (intro allI impI)
    fix i s assume "structs h i = Some s"
    with linksD [OF h(1) this]
    show "i < next_struct h \<and> (\<forall>p. st_previous s = Some p \<longrightarrow> p < i \<and> structs h p \<noteq> None) \<and>
        (\<forall>t. st_table s = Some t \<longrightarrow> t < next_table ?h \<and> (\<exists>tb. tables ?h t = Some tb \<and> distinct (map fst tb)))"
      by (auto simp: alloc_table_fields less_Suc_eq)
  qed
  moreover have "counts_ok ?h" "sharing_ok ?h"
    using h(2,5) by (simp_all add: counts_ok_def sharing_ok_def alloc_table_fields(1))
  ultimately show "shapes_wf ?h"
    by (rule wf_frame [OF assms]) (use same unique_plain [OF assms] in \<open>auto simp: alloc_table_fields(1,2)\<close>)
qed

text \<open>A root structure: no previous one, and a table of its own or none.\<close>

lemma alloc_root_wf:
  assumes wf: "shapes_wf h"
    and s: "st_previous s = None" "\<not> is_adding_map s" "transition_list (st_transitions s) = []"
      "st_transit_count s \<le> 1" "st_deleted s = []" "st_deleted_size s = 0"
    and none: "st_table s = None \<Longrightarrow> st_calculated_size s = 0"
    and tab: "\<And>t. st_table s = Some t \<Longrightarrow> t < next_table h \<and> (\<forall>j sj. structs h j = Some sj \<longrightarrow> st_table sj \<noteq> Some t) \<and>
      (\<exists>tb. tables h t = Some tb \<and> distinct (map fst tb) \<and> length tb < 2 ^ 32 \<and>
        bij_betw (slot_of (map_of tb)) (dom (map_of tb)) {..<length tb})"
  shows "shapes_wf (snd (alloc_struct s h))"
    and "tight (snd (alloc_struct s h)) (next_struct h)"
    and "shape_map (snd (alloc_struct s h)) (next_struct h) =
      Some (case st_table s of None \<Rightarrow> Map.empty | Some t \<Rightarrow> map_of (table_of h t))"
proof -
  let ?h = "snd (alloc_struct s h)" and ?n = "next_struct h"
  note h = wfD [OF wf]
  note old = alloc_struct_old [OF h(1), of _ _ s]
  have new: "structs ?h ?n = Some s" by (simp add: struct_alloc)
  show sh: "shape_map ?h ?n = Some (case st_table s of None \<Rightarrow> Map.empty | Some t \<Rightarrow> map_of (table_of h t))"
    using new s(1) by (cases "st_table s") (simp_all add: shape_map_root shape_map_table struct_alloc)
  show t: "tight ?h ?n"
  proof (cases "st_table s")
    case None
    with new sh none s show ?thesis by (simp add: tight_def get_slots_size_def bij_betw_def)
  next
    case (Some t)
    from tab [OF Some] obtain tb where tb: "tables h t = Some tb" "distinct (map fst tb)" "length tb < 2 ^ 32"
      "bij_betw (slot_of (map_of tb)) (dom (map_of tb)) {..<length tb}" by blast
    have "tables ?h t = Some tb" using tb(1) by (simp add: struct_alloc)
    from tight_table [OF new Some this tb(2)] tb s(5,6) show ?thesis by simp
  qed
  have "links_ok ?h"
    using tab s(1) by (intro alloc_links [OF h(1)]) auto
  moreover have "counts_ok ?h" using h(5) s(4-6) by (auto simp: counts_ok_def struct_alloc)
  moreover have "sharing_ok ?h"
    unfolding sharing_ok_def
  proof (intro allI impI, elim conjE)
    fix k ks assume k: "structs ?h k = Some ks" "\<not> is_unique ks"
    show "(\<forall>p ps. st_previous ks = Some p \<and> structs ?h p = Some ps \<longrightarrow> \<not> is_unique ps) \<and>
        (\<forall>j sj t. structs ?h j = Some sj \<and> j \<noteq> k \<and> st_table ks = Some t \<longrightarrow> st_table sj \<noteq> Some t)"
    proof (cases "k = ?n")
      case True
      with k new have "ks = s" by simp
      with s(1) tab True show ?thesis by (fastforce simp: struct_alloc)
    next
      case False
      with k have ks: "structs h k = Some ks" by (simp add: struct_alloc)
      note d = sharingD [OF h(2) ks k(2)]
      have "\<not> is_unique ps" if p: "st_previous ks = Some p" "structs ?h p = Some ps" for p ps
      proof -
        have "structs h p = Some ps"
          using linksD(1,2) [OF h(1) ks] p by (auto simp: struct_alloc split: if_splits)
        with d(1) p(1) show ?thesis by blast
      qed
      moreover have "st_table sj \<noteq> Some t" if "structs ?h j = Some sj" "j \<noteq> k" "st_table ks = Some t" for j sj t
        using d(2) [of j] that tab [of t] ks by (auto simp: struct_alloc split: if_splits)
      ultimately show ?thesis by blast
    qed
  qed
  moreover have "adding_ok ?h"
    unfolding adding_ok_def
  proof (intro allI impI, elim conjE)
    fix k ks assume k: "structs ?h k = Some ks" "is_adding_map ks"
    with s(2) have ks: "structs h k = Some ks" by (auto simp: struct_alloc split: if_splits)
    note d = addingD [OF h(3) ks k(2)]
    have "\<exists>p q. st_previous ks = Some p \<and> shape_map ?h p = Some q \<and> q (fst (st_added ks)) = None"
      if nt: "st_table ks = None"
    proof -
      obtain p q where p: "st_previous ks = Some p" "shape_map h p = Some q" "q (fst (st_added ks)) = None"
        using d(2) [OF nt] by blast
      obtain ps where "structs h p = Some ps" using linksD(2) [OF h(1) ks p(1)] by blast
      with p old(2) show ?thesis by auto
    qed
    with d(1) show "\<not> is_unique ks \<and> (st_table ks = None \<longrightarrow>
        (\<exists>p q. st_previous ks = Some p \<and> shape_map ?h p = Some q \<and> q (fst (st_added ks)) = None))" by blast
  qed
  moreover have "transitions_ok ?h"
    unfolding transitions_ok_def
  proof (intro allI impI, elim conjE)
    fix k ks q j assume k: "structs ?h k = Some ks" "(q, j) \<in> set (transition_list (st_transitions ks))"
    with s(3) have "k \<noteq> ?n" using new by auto
    with k(1) have ks: "structs h k = Some ks" by (simp add: struct_alloc)
    note t = transitionsD [OF h(4) ks k(2)]
    have "\<not> is_unique sj \<and> fst (st_added sj) = fst q \<and> me_attrs (snd (st_added sj)) = snd q \<and>
        (\<exists>m. shape_map ?h k = Some m \<and> m (fst q) = None \<and> shape_map ?h j = Some (m(fst q \<mapsto> snd (st_added sj))))"
      if "structs ?h j = Some sj" for sj
    proof -
      have "structs h j = Some sj" using that t(2) by (simp add: struct_alloc split: if_splits)
      with t(3) old(2) ks show ?thesis by simp
    qed
    with t(1,2) show "\<not> is_unique ks \<and> j < next_struct ?h \<and> (\<forall>sj. structs ?h j = Some sj \<longrightarrow> \<not> is_unique sj \<and>
        fst (st_added sj) = fst q \<and> me_attrs (snd (st_added sj)) = snd q \<and>
        (\<exists>m. shape_map ?h k = Some m \<and> m (fst q) = None \<and> shape_map ?h j = Some (m(fst q \<mapsto> snd (st_added sj)))))"
      by (simp add: struct_alloc)
  qed
  moreover have "tight_ok ?h"
    unfolding tight_ok_def
  proof (intro allI impI, elim conjE)
    fix k ks assume k: "structs ?h k = Some ks" "\<not> is_unique ks"
    show "tight ?h k"
    proof (cases "k = ?n")
      case False
      with k have ks: "structs h k = Some ks" by (simp add: struct_alloc)
      with k(2) h(6) have "tight h k" by (auto simp: tight_ok_def)
      then show ?thesis using tight_same ks old(1,3) [OF ks] by blast
    qed (use t in simp)
  qed
  ultimately show "shapes_wf ?h" by (simp add: shapes_wf_def)
qed

lemma ctor1_root:
  assumes "shapes_wf h"
  shows "shapes_wf (snd (ctor1 proto unique indexed h))" "tight (snd (ctor1 proto unique indexed h)) (next_struct h)"
    "fst (ctor1 proto unique indexed h) = next_struct h"
  unfolding ctor1_def
  by (rule alloc_root_wf [OF assms];
      simp add: blank_struct_def is_adding_map_def transitions_new_def transition_list_def)+
    (simp add: alloc_struct_def)

lemma ctor2_root:
  "ctor2 None proto unique indexed h = ctor1 proto unique indexed h"
  by (simp add: ctor2_def ctor1_def get_slots_size_def blank_struct_def as_u32_def)

section \<open>StructureBuilder\<close>

definition builder_ok :: "structure_builder \<Rightarrow> bool" where
  "builder_ok b \<longleftrightarrow>
     distinct (map fst (sb_table b)) \<and>
     bij_betw (slot_of (map_of (sb_table b))) (dom (map_of (sb_table b))) {..<length (sb_table b)}"

lemma builder_new_ok: "builder_ok (builder_new proto)"
  by (simp add: builder_ok_def builder_new_def bij_betw_def)

lemma builder_add_spec:
  assumes "builder_ok b" "length (sb_table b) < 2 ^ 32" "builder_find b name = None"
  shows "\<exists>b'. builder_add b name attrs = Some (\<lparr>me_offset = length (sb_table b), me_attrs = attrs\<rparr>, b') \<and>
    builder_ok b' \<and> map_of (sb_table b') =
      (map_of (sb_table b))(name \<mapsto> \<lparr>me_offset = length (sb_table b), me_attrs = attrs\<rparr>) \<and>
    sb_prototype b' = sb_prototype b"
proof -
  let ?e = "\<lparr>me_offset = length (sb_table b), me_attrs = attrs\<rparr>"
  let ?b = "b\<lparr>sb_table := AList.update name ?e (sb_table b)\<rparr>"
  have n: "map_of (sb_table b) name = None" using assms(3) by (simp add: builder_find_def)
  have bij: "bij_betw (slot_of (map_of (sb_table b))) (dom (map_of (sb_table b))) {..<length (sb_table b)}"
    using assms(1) by (simp add: builder_ok_def)
  have "builder_ok ?b"
    using assms(1) bij_slot_add [OF bij n, of "length (sb_table b)" attrs] n
    by (simp add: builder_ok_def distinct_update length_alist_update lessThan_Suc)
  then show ?thesis
    using assms(2,3) by (simp add: builder_add_def builder_add_at_def Let_def)
qed

lemma builder_build_spec:
  assumes "shapes_wf h" "builder_ok b" "length (sb_table b) < 2 ^ 32"
  shows "\<exists>h'. builder_build b unique indexed h = (next_struct h, h') \<and> shapes_wf h' \<and> tight h' (next_struct h) \<and>
    shape_map h' (next_struct h) = Some (map_of (sb_table b))"
proof -
  let ?t = "next_table h" and ?h1 = "snd (alloc_table (sb_table b) h)"
  define s where "s = (blank_struct (sb_prototype b) unique indexed)
      \<lparr>st_table := Some ?t, st_calculated_size := as_u32 (length (sb_table b))\<rparr>"
  note wf1 = alloc_table_wf [OF assms(1)]
  have "builder_build b unique indexed h = alloc_struct s ?h1"
    by (simp add: builder_build_def new_from_table_def ctor2_def alloc_table_def s_def get_slots_size_def
        table_of_def blank_struct_def Let_def)
  moreover
  have tab: "t < next_table ?h1 \<and> (\<forall>j sj. structs ?h1 j = Some sj \<longrightarrow> st_table sj \<noteq> Some t) \<and>
      (\<exists>tb. tables ?h1 t = Some tb \<and> distinct (map fst tb) \<and> length tb < 2 ^ 32 \<and>
        bij_betw (slot_of (map_of tb)) (dom (map_of tb)) {..<length tb})" if "st_table s = Some t" for t
  proof -
    have t: "t = next_table h" using that by (simp add: s_def)
    have "\<forall>j sj. structs ?h1 j = Some sj \<longrightarrow> st_table sj \<noteq> Some t"
      using linksD(3) [OF wfD(1) [OF assms(1)]] t by (fastforce simp: alloc_table_fields)
    then show ?thesis using assms(2,3) t by (simp add: alloc_table_fields builder_ok_def)
  qed
  have f: "st_previous s = None" "\<not> is_adding_map s" "transition_list (st_transitions s) = []"
      "st_transit_count s \<le> 1" "st_deleted s = []" "st_deleted_size s = 0"
      "st_table s = None \<Longrightarrow> st_calculated_size s = 0"
    by (simp_all add: s_def blank_struct_def is_adding_map_def transitions_new_def transition_list_def)
  note alloc_root_wf [OF wf1(1) f tab]
  moreover have "alloc_struct s ?h1 = (next_struct h, snd (alloc_struct s ?h1))"
    by (simp add: alloc_struct_def alloc_table_fields)
  moreover have "st_table s = Some ?t" by (simp add: s_def)
  ultimately show ?thesis
    by (intro exI [of _ "snd (alloc_struct s ?h1)"]) (simp add: alloc_table_fields)
qed

text \<open>
  A structure made by the builder is well formed: when the properties were added by \<open>add\<close>, the
  structure has exactly these properties, each at its own offset below the number of
  properties, and the heap of structures keeps its invariant.
\<close>

theorem builder_build_correct:
  assumes "shapes_wf h" "builder_ok b" "length (sb_table b) < 2 ^ 32"
  shows "\<exists>h'. builder_build b unique indexed h = (next_struct h, h') \<and> shapes_wf h' \<and> tight h' (next_struct h) \<and>
    shape_map h' (next_struct h) = Some (map_of (sb_table b))"
  using assms by (rule builder_build_spec)

text \<open>
  \<open>StructureBuilder::add\<close> refuses (panics on) a name that is already there, and otherwise gives
  the new property the next free offset and keeps the builder well formed.
\<close>

theorem builder_add_correct:
  assumes "builder_ok b" "length (sb_table b) < 2 ^ 32"
  shows "case builder_add b name attrs of
      None \<Rightarrow> builder_find b name \<noteq> None
    | Some (e, b') \<Rightarrow> builder_find b name = None \<and> builder_ok b' \<and>
        e = \<lparr>me_offset = length (sb_table b), me_attrs = attrs\<rparr> \<and>
        (\<forall>k. builder_find b' k = (if k = name then Some e else builder_find b k))"
proof (cases "builder_find b name")
  case None
  with builder_add_spec [OF assms, of name attrs] show ?thesis by (auto simp: builder_find_def)
qed (simp add: builder_add_def builder_add_at_def)

section \<open>Reachable heaps\<close>

text \<open>The collector frees a set of structures that no remaining one has as its previous structure:
  the weak references of the transitions do not keep their target.\<close>

definition collect_structs :: "(nat \<Rightarrow> bool) \<Rightarrow> 'h shapes_scheme \<Rightarrow> 'h shapes_scheme" where
  "collect_structs live h = h\<lparr>structs := (\<lambda>i. if live i then structs h i else None)\<rparr>"

definition live_closed :: "(nat \<Rightarrow> bool) \<Rightarrow> 'h shapes_scheme \<Rightarrow> bool" where
  "live_closed live h \<longleftrightarrow> (\<forall>i s p. live i \<and> structs h i = Some s \<and> st_previous s = Some p \<longrightarrow> live p)"

lemma collect_shape:
  assumes "links_ok h" "live_closed live h" "structs h i = Some s" "live i"
  shows "shape_map (collect_structs live h) i = shape_map h i"
  by (rule shape_map_cong [OF assms(1,3), of live])
    (use assms in \<open>auto simp: collect_structs_def table_of_def live_closed_def\<close>)

lemma collect_wf:
  assumes wf: "shapes_wf h" and cl: "live_closed live h"
  shows "shapes_wf (collect_structs live h)"
proof -
  let ?h = "collect_structs live h"
  note h = wfD [OF wf]
  have st: "structs ?h k = Some ks \<longleftrightarrow> live k \<and> structs h k = Some ks" for k ks
    by (simp add: collect_structs_def)
  have fs: "next_struct ?h = next_struct h" "next_table ?h = next_table h" "tables ?h = tables h"
    "get_slots_size ?h s = get_slots_size h s" for s
    by (simp_all add: collect_structs_def get_slots_size_def table_of_def split: option.split)
  note sh = collect_shape [OF h(1) cl]
  have lp: "live p" if "live k" "structs h k = Some ks" "st_previous ks = Some p" for k ks p
    using cl that by (auto simp: live_closed_def)
  have "links_ok ?h"
    unfolding links_ok_def
  proof (intro allI impI)
    fix i s assume "structs ?h i = Some s"
    then have i: "live i" "structs h i = Some s" by (simp_all add: st)
    with linksD [OF h(1) i(2)] lp [OF i]
    show "i < next_struct ?h \<and> (\<forall>p. st_previous s = Some p \<longrightarrow> p < i \<and> structs ?h p \<noteq> None) \<and>
        (\<forall>t. st_table s = Some t \<longrightarrow> t < next_table ?h \<and> (\<exists>tb. tables ?h t = Some tb \<and> distinct (map fst tb)))"
      by (auto simp: fs collect_structs_def)
  qed
  moreover have "counts_ok ?h" using h(5) by (auto simp: counts_ok_def st)
  moreover have "sharing_ok ?h"
    unfolding sharing_ok_def
  proof (intro allI impI, elim conjE)
    fix k ks assume k: "structs ?h k = Some ks" "\<not> is_unique ks"
    then have ks: "structs h k = Some ks" by (simp add: st)
    note d = sharingD [OF h(2) ks k(2)]
    show "(\<forall>p ps. st_previous ks = Some p \<and> structs ?h p = Some ps \<longrightarrow> \<not> is_unique ps) \<and>
        (\<forall>j sj t. structs ?h j = Some sj \<and> j \<noteq> k \<and> st_table ks = Some t \<longrightarrow> st_table sj \<noteq> Some t)"
      using d by (auto simp: st)
  qed
  moreover have "adding_ok ?h"
    unfolding adding_ok_def
  proof (intro allI impI, elim conjE)
    fix k ks assume k: "structs ?h k = Some ks" "is_adding_map ks"
    then have ks: "live k" "structs h k = Some ks" by (simp_all add: st)
    note d = addingD [OF h(3) ks(2) k(2)]
    have "\<exists>p q. st_previous ks = Some p \<and> shape_map ?h p = Some q \<and> q (fst (st_added ks)) = None"
      if nt: "st_table ks = None"
    proof -
      obtain p q where p: "st_previous ks = Some p" "shape_map h p = Some q" "q (fst (st_added ks)) = None"
        using d(2) [OF nt] by blast
      obtain ps where "structs h p = Some ps" using linksD(2) [OF h(1) ks(2) p(1)] by blast
      with p sh lp [OF ks p(1)] show ?thesis by auto
    qed
    with d(1) show "\<not> is_unique ks \<and> (st_table ks = None \<longrightarrow>
        (\<exists>p q. st_previous ks = Some p \<and> shape_map ?h p = Some q \<and> q (fst (st_added ks)) = None))" by blast
  qed
  moreover have "transitions_ok ?h"
    unfolding transitions_ok_def
  proof (intro allI impI, elim conjE)
    fix k ks q j assume k: "structs ?h k = Some ks" "(q, j) \<in> set (transition_list (st_transitions ks))"
    then have ks: "live k" "structs h k = Some ks" by (simp_all add: st)
    note t = transitionsD [OF h(4) ks(2) k(2)]
    show "\<not> is_unique ks \<and> j < next_struct ?h \<and> (\<forall>sj. structs ?h j = Some sj \<longrightarrow> \<not> is_unique sj \<and>
        fst (st_added sj) = fst q \<and> me_attrs (snd (st_added sj)) = snd q \<and>
        (\<exists>m. shape_map ?h k = Some m \<and> m (fst q) = None \<and> shape_map ?h j = Some (m(fst q \<mapsto> snd (st_added sj)))))"
      using t sh [OF ks(2,1)] sh [of j] by (auto simp: fs st)
  qed
  moreover have "tight_ok ?h"
    unfolding tight_ok_def
  proof (intro allI impI, elim conjE)
    fix k ks assume k: "structs ?h k = Some ks" "\<not> is_unique ks"
    then have ks: "live k" "structs h k = Some ks" by (simp_all add: st)
    with k(2) h(6) have "tight h k" by (auto simp: tight_ok_def)
    then show "tight ?h k"
      by (rule tight_same [OF _ ks(2) k(1)]) (simp add: same_at_def fs sh [OF ks(2,1)])
  qed
  ultimately show ?thesis by (simp add: shapes_wf_def)
qed

section \<open>The invariant without tightness\<close>

text \<open>
  A unique structure that an object has left can be out of step with its table. The operations
  keep the invariant of the heap on such structures, too.
\<close>

lemma unique_table_wf:
  assumes wf: "shapes_wf h" and n: "new_unique i h = Some (j, h1)" and e: "ensure_table j h1 = Some h2"
  shows "\<exists>ms t tb. shapes_wf h2 \<and> structs h2 j = Some ms \<and> is_unique ms \<and> st_table ms = Some t \<and> tables h2 t = Some tb \<and>
    distinct (map fst tb)"
proof -
  obtain s where "structs h i = Some s" using n by (auto simp: new_unique_def ctor_def bind_eq_Some_conv)
  from new_unique_spec [OF wf this] n obtain s1 where "shapes_wf h1" "structs h1 j = Some s1" "is_unique s1" by auto
  from ensure_table_spec [OF this(1,2)] e this(3) show ?thesis by auto
qed

lemma unique_entry_wf:
  assumes "shapes_wf h" "structs h i = Some s" "is_unique s" "st_table s = Some t" "distinct (map fst tb)"
  shows "shapes_wf (with_entry i (s\<lparr>st_deleted := d, st_deleted_size := n\<rparr>) t tb h)"
proof -
  have "st_transit_count s \<le> 1" using wfD(5) [OF assms(1)] assms(2) by (auto simp: counts_ok_def)
  then show ?thesis
    using entry_wf [OF assms, of "s\<lparr>st_deleted := d, st_deleted_size := n\<rparr>"] unique_plain [OF assms(1-3)] assms(3,4)
    by (simp add: is_unique_def is_adding_map_def)
qed

lemma delete_keeps_wf:
  assumes wf: "shapes_wf h" and r: "delete_property_transition i name h = Some (j, h')"
  shows "shapes_wf h'"
proof -
  obtain h1 h2 where u: "new_unique i h = Some (j, h1)" "ensure_table j h1 = Some h2" "structure_delete j name h2 = Some h'"
    using r by (auto simp: delete_property_transition_def bind_eq_Some_conv)
  obtain ms t tb where m: "shapes_wf h2" "structs h2 j = Some ms" "is_unique ms" "st_table ms = Some t" "tables h2 t = Some tb"
    "distinct (map fst tb)" using unique_table_wf [OF wf u(1,2)] by blast
  obtain e where "map_of tb name = Some e" using u(3) m(2,4,5) by (cases "map_of tb name") (simp_all add: structure_delete_def)
  then have "h' = set_struct j (deleted_push (me_offset e) ms) (set_table t (AList.delete name tb) h2)"
    using u(3) m(2,4,5) by (simp add: structure_delete_def)
  then have "h' = with_entry j (deleted_push (me_offset e) ms) t (AList.delete name tb) h2" by (simp add: with_entry_def)
  moreover have "deleted_push (me_offset e) ms =
      ms\<lparr>st_deleted := me_offset e # st_deleted ms, st_deleted_size := as_u32 (st_deleted_size ms + 1)\<rparr>"
    by (simp add: deleted_push_def)
  ultimately show ?thesis using unique_entry_wf [OF m(1-4) distinct_delete [OF m(6)]] by simp
qed

lemma attributes_keep_wf:
  assumes wf: "shapes_wf h" and r: "change_attributes_transition i name attrs h = Some (j, h')"
  shows "shapes_wf h'"
proof -
  obtain h1 h2 where u: "new_unique i h = Some (j, h1)" "ensure_table j h1 = Some h2" "change_attributes j name attrs h2 = Some h'"
    using r by (auto simp: change_attributes_transition_def bind_eq_Some_conv)
  obtain ms t tb where m: "shapes_wf h2" "structs h2 j = Some ms" "is_unique ms" "st_table ms = Some t" "tables h2 t = Some tb"
    "distinct (map fst tb)" using unique_table_wf [OF wf u(1,2)] by blast
  obtain e where "h' = with_entry j ms t (AList.update name (e\<lparr>me_attrs := attrs\<rparr>) tb) h2"
    using u(3) m(2,4,5) by (cases "map_of tb name") (auto simp: change_attributes_def with_entry_idem)
  then show ?thesis
    using unique_entry_wf [OF m(1-4) distinct_update [OF m(6)], where d = "st_deleted ms" and n = "st_deleted_size ms"] by simp
qed

lemma unique_update_wf:
  assumes wf: "shapes_wf h" and i: "structs h i = Some s" "is_unique s" and f: "\<And>q. same_fields q (f q)"
    and u: "unique_target i h = Some (j, h1)" "structs h1 j = Some ms"
  shows "shapes_wf (set_struct j (f ms) h1)"
  using unique_target_spec [OF wf i] u cosmetic_wf [OF _ _ f] by auto

lemma reshape_keeps_wf:
  assumes wf: "shapes_wf h"
  shows "change_prototype_transition i proto h = Some (j, h') \<Longrightarrow> shapes_wf h'"
    "change_indexed_transition i h = Some (j, h') \<Longrightarrow> shapes_wf h'"
proof -
  have p: "same_fields q (q\<lparr>st_prototype := proto\<rparr>)" for q by (simp add: same_fields_def is_unique_def)
  have x: "same_fields q (q\<lparr>st_transitions := set_indexed True (st_transitions q)\<rparr>)" for q
    by (simp add: same_fields_def is_unique_def set_indexed_def transition_list_def)
  have n: "shapes_wf h2 \<and> (\<exists>q. structs h2 m = Some q \<and> is_unique q)" if nu: "new_unique i h = Some (m, h2)" for m h2
  proof -
    obtain s where "structs h i = Some s" using nu by (auto simp: new_unique_def ctor_def bind_eq_Some_conv)
    with new_unique_spec [OF wf this] nu show ?thesis by auto
  qed
  show "change_prototype_transition i proto h = Some (j, h') \<Longrightarrow> shapes_wf h'"
    using unique_update_wf [OF wf _ _ p] unique_update_wf [OF _ _ _ p] n
    by (fastforce simp: change_prototype_transition_def change_prototype_unique_def bind_eq_Some_conv split: if_splits)
  show "change_indexed_transition i h = Some (j, h') \<Longrightarrow> shapes_wf h'"
    using unique_update_wf [OF wf _ _ x] unique_update_wf [OF _ _ _ x] n
    by (fastforce simp: change_indexed_transition_def change_indexed_unique_def bind_eq_Some_conv split: if_splits)
qed

lemma add_unique_keeps_wf:
  assumes wf: "shapes_wf h" and i: "structs h i = Some s" "is_unique s" and r: "add_property_unique i name attrs h = Some (j, off, h')"
  shows "shapes_wf h'"
proof -
  obtain h1 h2 ms where u: "ensure_table i h = Some h1" "unique_target i h1 = Some (j, h2)" "structs h2 j = Some ms"
    using r by (auto simp: add_property_unique_def bind_eq_Some_conv)
  obtain s1 t tb where e: "shapes_wf h1" "structs h1 i = Some s1" "st_table s1 = Some t" "tables h1 t = Some tb" "distinct (map fst tb)" "is_unique s1"
    using ensure_table_spec [OF wf i(1)] u(1) i(2) by auto
  have m: "shapes_wf h2" "is_unique ms" "st_table ms = Some t" "tables h2 t = Some tb"
    using unique_target_spec [OF e(1,2,6)] u(2,3) e(3,4) by auto
  define tb' where "tb' = AList.update name \<lparr>me_offset = off, me_attrs = attrs\<rparr> tb"
  have d: "distinct (map fst tb')" using e(5) by (simp add: tb'_def distinct_update)
  have "\<exists>d n. h' = with_entry j (ms\<lparr>st_deleted := d, st_deleted_size := n\<rparr>) t tb' h2"
  proof (cases "deleted_empty ms")
    case True
    then have "h' = set_table t tb' h2" using r u m(3,4) by (auto simp: add_property_unique_def bind_eq_Some_conv tb'_def)
    then show ?thesis using with_entry_idem [OF u(3)] by (intro exI [of _ "st_deleted ms"] exI [of _ "st_deleted_size ms"]) simp
  next
    case False
    then obtain ms' where p: "deleted_pop ms = Some (off, ms')" "h' = set_table t tb' (set_struct j ms' h2)"
      using r u m(3,4) by (auto simp: add_property_unique_def bind_eq_Some_conv tb'_def set_struct_def)
    then have "\<exists>d n. ms' = ms\<lparr>st_deleted := d, st_deleted_size := n\<rparr>" by (auto simp: deleted_pop_def split: list.splits)
    then show ?thesis using p(2) by (auto simp: set_struct_table)
  qed
  then show ?thesis using unique_entry_wf [OF m(1) u(3) m(2,3) d] by auto
qed

lemma with_proto_wf:
  assumes "shapes_wf h" "change_prototype_with_no_transition i proto h = Some (j, h')"
  shows "shapes_wf h'"
proof -
  obtain s where s: "structs h i = Some s" "h' = set_struct i (s\<lparr>st_prototype := Some proto\<rparr>) h"
    using assms(2) by (auto simp: change_prototype_with_no_transition_def bind_eq_Some_conv)
  then show ?thesis using cosmetic_wf [OF assms(1) s(1), of "s\<lparr>st_prototype := Some proto\<rparr>"] by (simp add: same_fields_def is_unique_def)
qed

lemma names_keep_wf:
  assumes wf: "shapes_wf h" and r: "get_own_property_names i include h = Some (ns, h')"
  shows "shapes_wf h'"
proof -
  obtain s where s: "structs h i = Some s" using r by (auto simp: get_own_property_names_def allocate_table_if_needed_def bind_eq_Some_conv)
  show ?thesis
  proof (cases "\<not> has_table s \<and> st_previous s = None")
    case True
    then show ?thesis using r s wf by (simp add: get_own_property_names_def allocate_table_if_needed_def)
  next
    case False
    then obtain h1 where h1: "allocate_table_if_needed i h = Some (True, h1)" "ensure_table i h = Some h1"
      using r s by (auto simp: get_own_property_names_def allocate_table_if_needed_def ensure_table_def bind_eq_Some_conv split: if_splits)
    then have "h' = h1" using r by (auto simp: get_own_property_names_def bind_eq_Some_conv)
    then show ?thesis using ensure_table_spec [OF wf s] h1(2) by auto
  qed
qed

lemma slice_wf:
  assumes "shapes_wf h" "builder_ok \<lparr>sb_table = collect_table it, sb_prototype = None\<rparr>" "length (collect_table it) < 2 ^ 32"
  shows "shapes_wf (snd (new_from_slice it h))"
proof -
  have "new_from_slice it h = builder_build \<lparr>sb_table = collect_table it, sb_prototype = None\<rparr> False False h"
    by (simp add: new_from_slice_def ctor3_def builder_build_def new_from_table_def ctor2_def Let_def split: prod.split)
  then show ?thesis using builder_build_spec [OF assms(1,2), of False False] assms(3) by auto
qed

section \<open>The heaps the operations reach\<close>

text \<open>
  The heaps of structures that can be made, starting from none, by the constructors (a table that is given has its properties
  at distinct offsets from 0 on, as the builder makes it), the builder, lookups and enumerations (which
  build tables), all transitions, the change of a prototype in place, flattening, the caching of
  prototype chains, and collections. The engine adds a property to a shared structure after a lookup that
  did not find it; its slots must fit 32 bits. The other steps apply to every structure of the heap.
\<close>

inductive shapes_reach :: "shapes \<Rightarrow> bool" where
  reach_empty: "shapes_reach empty_shapes"
| reach_root: "shapes_reach h \<Longrightarrow> shapes_reach (snd (ctor1 proto unique indexed h))"
| reach_with_proto: "shapes_reach h \<Longrightarrow> shapes_reach (snd (new_unique_with_proto proto indexed h))"
| reach_slice: "shapes_reach h \<Longrightarrow> builder_ok \<lparr>sb_table = collect_table it, sb_prototype = None\<rparr> \<Longrightarrow>
    length (collect_table it) < 2 ^ 32 \<Longrightarrow> shapes_reach (snd (new_from_slice it h))"
| reach_no_table: "shapes_reach h \<Longrightarrow> shapes_reach (snd (new_from_table None proto unique indexed h))"
| reach_build: "shapes_reach h \<Longrightarrow> builder_ok b \<Longrightarrow> length (sb_table b) < 2 ^ 32 \<Longrightarrow>
    shapes_reach (snd (builder_build b unique indexed h))"
| reach_point: "shapes_reach h \<Longrightarrow> new_from_point i h = Some (j, h') \<Longrightarrow> shapes_reach h'"
| reach_unique: "shapes_reach h \<Longrightarrow> new_unique i h = Some (j, h') \<Longrightarrow> shapes_reach h'"
| reach_get: "shapes_reach h \<Longrightarrow> structure_get i name h = Some (e, h') \<Longrightarrow> shapes_reach h'"
| reach_names: "shapes_reach h \<Longrightarrow> get_own_property_names i include h = Some (ns, h') \<Longrightarrow> shapes_reach h'"
| reach_add: "shapes_reach h \<Longrightarrow> structs h i = Some s \<Longrightarrow>
    is_unique s \<or> name \<noteq> DUMMY_SYMBOL \<and> (\<exists>m. shape_map h i = Some m \<and> m name = None) \<and> get_slots_size h s + 1 < 2 ^ 32 \<Longrightarrow>
    add_property_transition i name attrs h = Some (j, off, h') \<Longrightarrow> shapes_reach h'"
| reach_delete: "shapes_reach h \<Longrightarrow> delete_property_transition i name h = Some (j, h') \<Longrightarrow> shapes_reach h'"
| reach_attrs: "shapes_reach h \<Longrightarrow> change_attributes_transition i name attrs h = Some (j, h') \<Longrightarrow> shapes_reach h'"
| reach_proto: "shapes_reach h \<Longrightarrow> change_prototype_transition i proto h = Some (j, h') \<Longrightarrow> shapes_reach h'"
| reach_indexed: "shapes_reach h \<Longrightarrow> change_indexed_transition i h = Some (j, h') \<Longrightarrow> shapes_reach h'"
| reach_extensible: "shapes_reach h \<Longrightarrow> change_extensible_transition i h = Some (j, h') \<Longrightarrow> shapes_reach h'"
| reach_in_place: "shapes_reach h \<Longrightarrow> change_prototype_with_no_transition i p h = Some (j, h') \<Longrightarrow> shapes_reach h'"
| reach_flatten: "shapes_reach h \<Longrightarrow> flatten i h = Some h' \<Longrightarrow> shapes_reach h'"
| reach_cached: "shapes_reach h \<Longrightarrow> structs h i = Some s \<Longrightarrow> shapes_reach (set_struct i (s\<lparr>st_chain := c, st_id := n\<rparr>) h)"
| reach_collect: "shapes_reach h \<Longrightarrow> live_closed live h \<Longrightarrow> shapes_reach (collect_structs live h)"

lemma new_unique_keeps_wf:
  assumes wf: "shapes_wf h" and n: "new_unique i h = Some (j, h')"
  shows "shapes_wf h'"
proof -
  obtain s where "structs h i = Some s" using n by (auto simp: new_unique_def ctor_def bind_eq_Some_conv)
  with new_unique_spec [OF wf this] n show ?thesis by auto
qed

lemma reachable_wf: "shapes_reach h \<Longrightarrow> shapes_wf h"
proof (induction rule: shapes_reach.induct)
  case reach_empty
  then show ?case by (rule empty_wf)
next
  case (reach_build h b unique indexed)
  with builder_build_spec [of h b unique indexed] show ?case by auto
next
  case (reach_point h i j h')
  then show ?case using new_unique_keeps_wf by (auto simp: new_from_point_def bind_eq_Some_conv split: if_splits)
next
  case (reach_get h i name e h')
  then obtain s where "structs h i = Some s" by (auto simp: structure_get_def bind_eq_Some_conv)
  with structure_get_spec [OF reach_get(3) this, of name] reach_get(2) show ?case by auto
next
  case (reach_add h i s name attrs j off h')
  show ?case
  proof (cases "is_unique s")
    case True
    with reach_add(2,4) have "add_property_unique i name attrs h = Some (j, off, h')" by (simp add: add_property_transition_def)
    then show ?thesis by (rule add_unique_keeps_wf [OF reach_add(5,2) True])
  next
    case False
    then have "tight h i" using wfD(6) [OF reach_add(5)] reach_add(2) by (auto simp: tight_ok_def)
    with False reach_add(2-5) add_property_spec [of h i s _ name attrs] show ?thesis by fastforce
  qed
next
  case (reach_flatten h i h')
  then obtain s where s: "structs h i = Some s" by (auto simp: flatten_def bind_eq_Some_conv)
  have "same_fields s (s\<lparr>st_transitions := enable_unique_transition (st_transitions s), st_flattened := True\<rparr>)"
    by (simp add: same_fields_def is_unique_def enable_unique_transition_def transition_list_def)
  from cosmetic_wf [OF reach_flatten(3) s this] reach_flatten(2,3) s show ?case
    by (auto simp: flatten_def split: if_splits)
next
  case (reach_cached h i s c n)
  then show ?case by (intro cosmetic_wf [OF reach_cached(3,2)]) (simp add: same_fields_def is_unique_def)
next
  case (reach_collect h live)
  then show ?case by (simp add: collect_wf)
next
  case (reach_root h proto unique indexed)
  then show ?case by (simp add: ctor1_root)
next
  case (reach_with_proto h proto indexed)
  then show ?case by (simp add: new_unique_with_proto_def ctor2_root ctor1_root)
next
  case (reach_no_table h proto unique indexed)
  then show ?case by (simp add: new_from_table_def ctor2_root ctor1_root)
next
  case (reach_slice h it)
  from this(4,2,3) show ?case by (rule slice_wf)
next
  case (reach_unique h i j h')
  from this(3,2) show ?case by (rule new_unique_keeps_wf)
next
  case (reach_names h i inc ns h')
  from this(3,2) show ?case by (rule names_keep_wf)
next
  case (reach_delete h i name j h')
  from this(3,2) show ?case by (rule delete_keeps_wf)
next
  case (reach_attrs h i name attrs j h')
  from this(3,2) show ?case by (rule attributes_keep_wf)
next
  case (reach_proto h i proto j h')
  from this(3,2) show ?case by (rule reshape_keeps_wf)
next
  case (reach_indexed h i j h')
  from this(3,2) show ?case by (rule reshape_keeps_wf)
next
  case (reach_extensible h i j h')
  from this(3) this(2)[unfolded change_extensible_transition_def] show ?case by (rule new_unique_keeps_wf)
next
  case (reach_in_place h i p j h')
  from this(3,2) show ?case by (rule with_proto_wf)
qed

text \<open>
  C17. Every heap of structures that the constructors, the builder, the lookups, the transitions, the
  changes in place and the collector can make out of the empty one (\<open>shapes_reach\<close>) satisfies the invariant:
  chains go down to a table or a root, tables are shared only between unique structures, a weak transition leads
  to the structure with exactly one property more, and the offsets of every shared structure are
  its slots, each used once. The steps apply to any structure of the heap; only to a shared structure
  is a property added that it does not have yet, as \<open>DefineOwnNonIndexedPropertySlot\<close> does after its lookup.
\<close>

theorem reachable_shapes_wf: "shapes_reach h \<Longrightarrow> shapes_wf h"
  by (rule reachable_wf)

text \<open>
  The limit of 64 transitions is never reached: a new structure starts counting at zero again,
  so no reachable structure has a transition count above one and \<open>add_property_transition\<close> never
  switches a shared structure to a unique one.
\<close>

theorem transition_limit_unreachable:
  "shapes_reach h \<Longrightarrow> structs h i = Some s \<Longrightarrow> st_transit_count s \<le> 1"
  using wfD(5) [OF reachable_wf] by (auto simp: counts_ok_def)

section \<open>The properties at a concrete heap\<close>

text \<open>One shared root, and the structure it goes to when the property \<open>Key 1\<close> is added.\<close>

definition root_heap :: shapes where
  "root_heap = snd (ctor1 None False False empty_shapes)"

lemma root_heap_facts:
  "shapes_wf root_heap" "tight root_heap 0" "structs root_heap 0 = Some (blank_struct None False False)"
  "shape_map root_heap 0 = Some Map.empty" "shapes_reach root_heap"
  using ctor1_root [OF empty_wf, of None False False] reach_root [OF reach_empty, of None False False]
  by (simp_all add: root_heap_def empty_shapes_def cells.defs ctor1_def struct_alloc shape_map_root blank_struct_def)

lemma grown_heap:
  "\<exists>(h :: shapes) j s e. shapes_wf h \<and> structs h j = Some s \<and> tight h j \<and> shape_map h j = Some [Key 1 \<mapsto> e]"
proof -
  have "Key 1 \<noteq> DUMMY_SYMBOL" "get_slots_size root_heap (blank_struct None False False) + 1 < 2 ^ 32"
    by (simp_all add: DUMMY_SYMBOL_def blank_struct_def get_slots_size_def)
  from add_property_spec [OF root_heap_facts(1,3,2,4) refl this, of DATA] show ?thesis by blast
qed

theorem structure_get_correct_witness:
  "\<exists>h'. structure_get 0 (Key 1) root_heap = Some (entry_not_found, h')"
  using structure_get_correct [OF root_heap_facts(1,3), of "Key 1"] root_heap_facts(4) by auto

theorem add_property_correct_witness:
  "\<exists>j off h'. add_property_transition 0 (Key 1) DATA root_heap = Some (j, off, h') \<and>
     shape_map h' j = Some [Key 1 \<mapsto> \<lparr>me_offset = off, me_attrs = DATA\<rparr>]"
  using add_property_correct [OF root_heap_facts(1,3,2,4), of "Key 1" DATA]
  by (auto simp: DUMMY_SYMBOL_def blank_struct_def get_slots_size_def)

theorem delete_property_correct_witness:
  "\<exists>(h :: shapes) i h' j. shape_map h i \<noteq> Some Map.empty \<and> delete_property_transition i (Key 1) h = Some (j, h') \<and>
     shape_map h' j = Some Map.empty"
proof -
  obtain h :: shapes and i s e where g: "shapes_wf h" "structs h i = Some s" "tight h i" "shape_map h i = Some [Key 1 \<mapsto> e]"
    using grown_heap by blast
  from delete_property_correct [OF g, of "Key 1" e] obtain h' j where
    "delete_property_transition i (Key 1) h = Some (j, h')" "shape_map h' j = Some Map.empty" by auto
  moreover have "shape_map h i \<noteq> Some Map.empty" using g(4) by simp
  ultimately show ?thesis by blast
qed

theorem change_attributes_correct_witness:
  "\<exists>(h :: shapes) i h' j e. change_attributes_transition i (Key 1) ACCESSOR h = Some (j, h') \<and>
     shape_map h' j = Some [Key 1 \<mapsto> e\<lparr>me_attrs := ACCESSOR\<rparr>]"
proof -
  obtain h :: shapes and i s e where g: "shapes_wf h" "structs h i = Some s" "tight h i" "shape_map h i = Some [Key 1 \<mapsto> e]"
    using grown_heap by blast
  from change_attributes_correct [OF g, of "Key 1" e ACCESSOR] show ?thesis by fastforce
qed

theorem reshape_keeps_properties_witness:
  "\<exists>j h' js. change_prototype_transition 0 (Some 16) root_heap = Some (j, h') \<and> structs h' j = Some js \<and>
     st_prototype js = Some 16"
  using reshape_keeps_properties [OF root_heap_facts(1,3,4,2), of "Some 16"] by blast

theorem builder_build_correct_witness:
  "\<exists>h'. builder_build (builder_new None) True False empty_shapes = (0, h') \<and> tight h' 0"
  using builder_build_correct [OF empty_wf builder_new_ok, of None True False]
  by (auto simp: builder_new_def empty_shapes_def cells.defs)

theorem builder_add_correct_witness:
  "case builder_add (builder_new None) (Key 1) DATA of None \<Rightarrow> False | Some (e, b') \<Rightarrow> me_offset e = 0"
  using builder_add_correct [OF builder_new_ok, of None "Key 1" DATA]
  by (auto simp: builder_new_def builder_find_def split: option.splits)

text \<open>A root, whose prototype is set in place, as at every start.\<close>

theorem reachable_shapes_wf_witness:
  "\<exists>h'. change_prototype_with_no_transition 0 16 root_heap = Some (0, h') \<and> shapes_wf h'"
proof -
  obtain h' where "change_prototype_with_no_transition 0 16 root_heap = Some (0, h')"
    using root_heap_facts(3) by (auto simp: change_prototype_with_no_transition_def)
  with reachable_shapes_wf [OF reach_in_place [OF root_heap_facts(5) this]] show ?thesis by blast
qed

theorem transition_limit_unreachable_witness: "st_transit_count (blank_struct None False False) \<le> 1"
  by (rule transition_limit_unreachable [OF root_heap_facts(5,3)])

section \<open>Storage capacity\<close>

lemma smear_bits:
  fixes x :: u64
  assumes "\<And>k. bit y k \<longleftrightarrow> (\<exists>j\<in>{k..<k + n}. bit x j)"
  shows "bit (y OR drop_bit n y) k \<longleftrightarrow> (\<exists>j\<in>{k..<k + 2 * n}. bit x j)"
proof -
  have "{k..<k + 2 * n} = {k..<k + n} \<union> {k + n..<k + n + n}" by auto
  then show ?thesis by (auto simp: bit_or_iff bit_drop_bit_eq assms add.commute)
qed

definition smear :: "u64 \<Rightarrow> u64" where
  "smear x =
     (let x = x OR drop_bit 1 x; x = x OR drop_bit 2 x; x = x OR drop_bit 4 x; x = x OR drop_bit 8 x
      in x OR drop_bit 16 x)"

lemma smear_all: "bit (smear x) k \<longleftrightarrow> (\<exists>j\<in>{k..<k + 32}. bit x j)"
proof -
  define y1 where "y1 = x OR drop_bit 1 x"
  define y2 where "y2 = y1 OR drop_bit 2 y1"
  define y3 where "y3 = y2 OR drop_bit 4 y2"
  define y4 where "y4 = y3 OR drop_bit 8 y3"
  have b1: "bit y1 k \<longleftrightarrow> (\<exists>j\<in>{k..<k + 2}. bit x j)" for k
    using smear_bits [of x 1 x k] by (simp add: y1_def)
  have b2: "bit y2 k \<longleftrightarrow> (\<exists>j\<in>{k..<k + 4}. bit x j)" for k
    using smear_bits [of y1 2 x k] b1 by (simp add: y2_def)
  have b3: "bit y3 k \<longleftrightarrow> (\<exists>j\<in>{k..<k + 8}. bit x j)" for k
    using smear_bits [of y2 4 x k] b2 by (simp add: y3_def)
  have b4: "bit y4 k \<longleftrightarrow> (\<exists>j\<in>{k..<k + 16}. bit x j)" for k
    using smear_bits [of y3 8 x k] b3 by (simp add: y4_def)
  have "smear x = y4 OR drop_bit 16 y4"
    by (simp add: smear_def Let_def y4_def y3_def y2_def y1_def)
  with smear_bits [of y4 16 x k] b4 show ?thesis by simp
qed

text \<open>Smearing fills every bit below the highest one of a word below \<open>2 ^ 32\<close>.\<close>

lemma smear_mask:
  assumes "0 < unat x" "unat x < 2 ^ 32"
  shows "smear x = mask (Suc (log2_nat (unat x)))"
proof (rule bit_eqI)
  fix k
  let ?l = "log2_nat (unat x)"
  have b: "2 ^ ?l \<le> unat x" "unat x < 2 ^ Suc ?l" "?l < 32"
    using log2_nat_bounds [OF assms(1)] log2_nat_less [OF assms] by auto
  have "unat x div 2 ^ ?l = 1"
    using b(1,2) by (simp add: div_nat_eqI)
  then have top: "bit x ?l" by (simp add: bit_word_unat)
  have none: "\<not> bit x j" if "?l < j" for j
  proof -
    have "unat x < 2 ^ j" using b(2) that power_increasing [of "Suc ?l" j "2::nat"] by linarith
    then show ?thesis by (simp add: bit_word_unat)
  qed
  show "bit (smear x) k \<longleftrightarrow> bit (mask (Suc ?l) :: u64) k"
  proof (cases "k \<le> ?l")
    case True
    with top b(3) have "\<exists>j\<in>{k..<k + 32}. bit x j" by (intro bexI [of _ ?l]) auto
    with True b(3) show ?thesis by (simp add: smear_all bit_mask_iff possible_bit_word)
  next
    case False
    with none have "\<not> (\<exists>j\<in>{k..<k + 32}. bit x j)" by auto
    with False show ?thesis by (simp add: smear_all bit_mask_iff)
  qed
qed

lemma clp2_next_power:
  assumes "1 < n" "n \<le> 2 ^ 32"
  shows "\<exists>k \<le> 32. unat (clp2 (word_of_nat n)) = 2 ^ k \<and> n \<le> 2 ^ k \<and> 2 ^ k < 2 * n"
proof -
  let ?x = "word_of_nat n - 1 :: u64"
  have un: "unat (word_of_nat n :: u64) = n" using assms(2) by (intro unat_word_of_nat_less) simp
  have x: "unat ?x = n - 1"
    using assms(1) un unat_minus_one [of "word_of_nat n :: u64"] by (metis less_numeral_extra(3) not_one_less_zero unat_0)
  let ?l = "log2_nat (n - 1)"
  have l: "2 ^ ?l \<le> n - 1" "n - 1 < 2 ^ Suc ?l" "?l < 32"
    using log2_nat_bounds [of "n - 1"] log2_nat_less [of "n - 1" 32] assms by auto
  have "clp2 (word_of_nat n) = smear ?x + 1"
    by (simp add: clp2_def smear_def Let_def)
  also have "\<dots> = mask (Suc ?l) + 1"
    using smear_mask [of ?x] x assms by simp
  also have "\<dots> = 2 ^ Suc ?l" by (simp add: mask_eq_exp_minus_1)
  finally have c: "clp2 (word_of_nat n) = 2 ^ Suc ?l" .
  have "(2::nat) ^ Suc ?l < 2 ^ LENGTH(64)" using l(3) by (intro power_strict_increasing) simp_all
  then have "unat (word_of_nat (2 ^ Suc ?l) :: u64) = 2 ^ Suc ?l" by (rule unat_word_of_nat_less)
  then have "unat (2 ^ Suc ?l :: u64) = 2 ^ Suc ?l" by (simp only: of_nat_power of_nat_numeral)
  with c l assms show ?thesis by (intro exI [of _ "Suc ?l"]) auto
qed

lemma storage_capacity_bounds:
  assumes "get_slots_size h s \<le> 2 ^ 32"
  shows "get_slots_size h s \<le> storage_capacity h s \<and>
    (storage_capacity h s = 0 \<or> (\<exists>k. storage_capacity h s = 2 ^ k)) \<and>
    (8 \<le> get_slots_size h s \<longrightarrow> storage_capacity h s < 2 * get_slots_size h s)"
proof (cases "get_slots_size h s < 8")
  case True
  have "(8::nat) = 2 ^ 3" by simp
  then have "\<exists>k. (8::nat) = 2 ^ k" by blast
  moreover from True have "storage_capacity h s = (if get_slots_size h s = 0 then 0 else 8)"
    by (simp add: storage_capacity_def)
  ultimately show ?thesis using True by (cases "get_slots_size h s = 0") simp_all
next
  case False
  then obtain k where k: "unat (clp2 (word_of_nat (get_slots_size h s))) = 2 ^ k"
    "get_slots_size h s \<le> 2 ^ k" "2 ^ k < 2 * get_slots_size h s"
    using clp2_next_power [of "get_slots_size h s"] assms by (auto simp del: power_Suc)
  from False have "storage_capacity h s = unat (clp2 (word_of_nat (get_slots_size h s)))"
    by (simp add: storage_capacity_def)
  with k show ?thesis by (metis less_imp_le)
qed

text \<open>
  The storage an object allocates for its slots is large enough: the capacity of a structure is
  at least its slots size (so every offset is in range), zero or a power of two, and less than
  twice the size once eight slots are in use.
\<close>

theorem storage_capacity_fits:
  assumes "get_slots_size h s \<le> 2 ^ 32"
  shows "get_slots_size h s \<le> storage_capacity h s \<and>
    (storage_capacity h s = 0 \<or> (\<exists>k. storage_capacity h s = 2 ^ k)) \<and>
    (8 \<le> get_slots_size h s \<longrightarrow> storage_capacity h s < 2 * get_slots_size h s)"
  using assms by (rule storage_capacity_bounds)

theorem storage_capacity_fits_witness:
  "storage_capacity root_heap ((blank_struct None False False)\<lparr>st_calculated_size := 9\<rparr>) < 18"
  using storage_capacity_fits [of root_heap "(blank_struct None False False)\<lparr>st_calculated_size := 9\<rparr>"]
  by (simp add: get_slots_size_def blank_struct_def)

end
