(* ===== verification/Vector_Spec.thy ===== *)
theory Vector_Spec
  imports Starlight_Prelude
begin

text \<open>
  The contract of the growable vectors of the engine: a state whose contents are a list, pushed
  and popped at the end and read by index. \<open>Array_Storage\<close>, \<open>Segmented_Vec\<close> and \<open>Interp_Stack\<close>
  provide it.
\<close>

locale vector =
  fixes inv :: "'s \<Rightarrow> bool"
    and room :: "'s \<Rightarrow> bool"
    and elems :: "'s \<Rightarrow> 'a list"
    and push :: "'a \<Rightarrow> 's \<Rightarrow> 's option"
    and pop :: "'s \<Rightarrow> ('a \<times> 's) option"
  assumes push_law: "inv s \<Longrightarrow> room s \<Longrightarrow> \<exists>s'. push v s = Some s' \<and> inv s' \<and> elems s' = elems s @ [v]"
    and pop_law: "inv s \<Longrightarrow> elems s \<noteq> [] \<Longrightarrow>
      \<exists>s'. pop s = Some (last (elems s), s') \<and> inv s' \<and> elems s' = butlast (elems s)"
begin

fun push_all :: "'a list \<Rightarrow> 's \<Rightarrow> 's option" where
  "push_all [] s = Some s"
| "push_all (v # vs) s = (if room s then Option.bind (push v s) (push_all vs) else None)"

fun pop_all :: "nat \<Rightarrow> 's \<Rightarrow> ('a list \<times> 's) option" where
  "pop_all 0 s = Some ([], s)"
| "pop_all (Suc n) s = do { (v, s') \<leftarrow> pop s; (vs, s'') \<leftarrow> pop_all n s'; Some (v # vs, s'') }"

lemma push_pop:
  assumes "inv s" "room s"
  shows "\<exists>s1 s2. push v s = Some s1 \<and> pop s1 = Some (v, s2) \<and> inv s2 \<and> elems s2 = elems s"
proof -
  obtain s1 where s1: "push v s = Some s1" "inv s1" "elems s1 = elems s @ [v]"
    using push_law [OF assms] by blast
  with pop_law [OF s1(2)] show ?thesis by auto
qed

lemma push_all_elems: "inv s \<Longrightarrow> push_all vs s = Some t \<Longrightarrow> inv t \<and> elems t = elems s @ vs"
proof (induction vs arbitrary: s)
  case (Cons v vs)
  then have r: "room s" by (auto split: if_splits)
  obtain s1 where "push v s = Some s1" "inv s1" "elems s1 = elems s @ [v]"
    using push_law [OF Cons.prems(1) r] by blast
  with Cons r show ?case by fastforce
qed simp

lemma pop_all_elems:
  "inv s \<Longrightarrow> n \<le> length (elems s) \<Longrightarrow>
   \<exists>t. pop_all n s = Some (rev (drop (length (elems s) - n) (elems s)), t) \<and> inv t \<and>
     elems t = take (length (elems s) - n) (elems s)"
proof (induction n arbitrary: s)
  case (Suc n)
  then have ne: "elems s \<noteq> []" by auto
  obtain s1 where s1: "pop s = Some (last (elems s), s1)" "inv s1" "elems s1 = butlast (elems s)"
    using pop_law [OF Suc.prems(1) ne] by blast
  obtain xs x where xs: "elems s = xs @ [x]" using ne by (metis rev_exhaust)
  with s1 Suc.prems(2) Suc.IH [of s1] show ?case by auto
qed simp

text \<open>Last in, first out: what was pushed comes back in reverse order and leaves the vector as it was.\<close>

lemma lifo:
  assumes "inv s" "push_all vs s = Some t"
  shows "\<exists>u. pop_all (length vs) t = Some (rev vs, u) \<and> inv u \<and> elems u = elems s"
  using push_all_elems [OF assms] pop_all_elems [of t "length vs"] by auto

end

end
