(* ===== verification/Array_Storage.thy ===== *)
theory Array_Storage
  imports Vector_Spec Js_Value
begin

text \<open>
  The resizable storage of property values and elements (vm/array_storage.rs) with the pointer
  loops it copies with (\<open>fill\<close>, \<open>copy\<close>, \<open>copy_backward\<close>, \<open>uninit_copy\<close> in vm/value.rs). The memory
  behind a storage is the list of its \<open>capacity\<close> words. An access outside of it, which the code
  does not check, is undefined behaviour and therefore \<^term>\<open>None\<close>, like a failed assertion. A
  storage is only reached through the one object that owns it, so it is a plain value here;
  memory that was never written holds the word \<open>UNINIT\<close>, about which nothing is used.
\<close>

definition UNINIT :: js_value where "UNINIT = 0xdeadbeefdeadbeef"

record array_storage =
  as_size :: nat
  as_capacity :: nat
  as_data :: "js_value list"

section \<open>Pointer loops\<close>

definition mem_read :: "js_value list \<Rightarrow> nat \<Rightarrow> js_value panics" where
  "mem_read d i = (if i < length d then Some (d ! i) else None)"
definition mem_write :: "nat \<Rightarrow> js_value \<Rightarrow> js_value list \<Rightarrow> js_value list panics" where
  "mem_write i v d = (if i < length d then Some (d[i := v]) else None)"

text \<open>The loops run from \<open>start\<close> to \<open>end\<close>: \<open>n\<close> is their distance.\<close>

fun mem_fill :: "nat \<Rightarrow> nat \<Rightarrow> js_value \<Rightarrow> js_value list \<Rightarrow> js_value list panics" where
  "mem_fill cur 0 v d = Some d"
| "mem_fill cur (Suc n) v d = do { d' \<leftarrow> mem_write cur v d; mem_fill (cur + 1) n v d' }"
fun mem_copy :: "nat \<Rightarrow> nat \<Rightarrow> nat \<Rightarrow> js_value list \<Rightarrow> js_value list panics" where
  "mem_copy first 0 result d = Some d"
| "mem_copy first (Suc n) result d =
     do { v \<leftarrow> mem_read d first; d' \<leftarrow> mem_write result v d; mem_copy (first + 1) n (result + 1) d' }"
fun mem_copy_backward :: "nat \<Rightarrow> nat \<Rightarrow> nat \<Rightarrow> js_value list \<Rightarrow> js_value list panics" where
  "mem_copy_backward first 0 result d = Some d"
| "mem_copy_backward first (Suc n) result d =
     (if result = 0 then None
      else do { v \<leftarrow> mem_read d (first + n); d' \<leftarrow> mem_write (result - 1) v d;
                mem_copy_backward first n (result - 1) d' })"
fun mem_uninit_copy :: "js_value list \<Rightarrow> nat \<Rightarrow> nat \<Rightarrow> nat \<Rightarrow> js_value list \<Rightarrow> js_value list panics" where
  "mem_uninit_copy src first 0 result d = Some d"
| "mem_uninit_copy src first (Suc n) result d =
     do { v \<leftarrow> mem_read src first; d' \<leftarrow> mem_write result v d;
          mem_uninit_copy src (first + 1) n (result + 1) d' }"

section \<open>ArrayStorage\<close>

definition max_elements :: nat where
  "max_elements = (2 ^ 32 - 1 - 8) div 8"

definition storage_new :: "nat \<Rightarrow> array_storage" where
  "storage_new capacity = \<lparr>as_size = 0, as_capacity = capacity, as_data = replicate capacity UNINIT\<rparr>"

definition resize_within_capacity :: "nat \<Rightarrow> array_storage \<Rightarrow> array_storage panics" where
  "resize_within_capacity new_size a =
     (if \<not> new_size \<le> as_capacity a then None
      else do {
        d \<leftarrow> (if new_size > as_size a
              then mem_fill (as_size a) (new_size - as_size a) encode_empty_value (as_data a)
              else Some (as_data a));
        Some (a\<lparr>as_data := d, as_size := new_size\<rparr>) })"

definition reallocate_to_larger :: "nat \<Rightarrow> nat \<Rightarrow> nat \<Rightarrow> nat \<Rightarrow> array_storage \<Rightarrow> array_storage panics" where
  "reallocate_to_larger capacity from_first to_first to_last a =
     (if \<not> capacity > as_capacity a then None
      else
        (let arr_res = storage_new capacity;
             copy_size = min (as_size a - from_first) (to_last - to_first)
         in do {
           d1 \<leftarrow> mem_uninit_copy (as_data a) from_first copy_size to_first (as_data arr_res);
           d2 \<leftarrow> mem_fill 0 to_first encode_empty_value d1;
           d3 \<leftarrow> (if to_first + copy_size < to_last
                  then mem_fill (to_first + copy_size) (to_last - (to_first + copy_size)) encode_empty_value d2
                  else Some d2);
           Some (arr_res\<lparr>as_data := d3, as_size := to_last\<rparr>) }))"

definition ensure_capacity :: "nat \<Rightarrow> array_storage \<Rightarrow> array_storage panics" where
  "ensure_capacity capacity a =
     (if \<not> capacity \<le> max_elements then None
      else if capacity \<le> as_capacity a then Some a
      else reallocate_to_larger capacity 0 0 (as_size a) a)"

definition shift :: "nat \<Rightarrow> nat \<Rightarrow> nat \<Rightarrow> array_storage \<Rightarrow> array_storage panics" where
  "shift from_first to_first to_last a =
     (if \<not> to_first \<le> to_last \<or> \<not> from_first \<le> as_size a then None
      else if to_last \<le> as_capacity a then
        (let copy_size = min (as_size a - from_first) (to_last - to_first) in
         do {
           d1 \<leftarrow> (if from_first > to_first then mem_copy from_first copy_size to_first (as_data a)
                  else if from_first < to_first then mem_copy_backward from_first copy_size to_first (as_data a)
                  else Some (as_data a));
           d2 \<leftarrow> mem_fill (to_first + copy_size) (to_last - (to_first + copy_size)) encode_empty_value d1;
           Some (a\<lparr>as_data := d2, as_size := to_last\<rparr>) })
      else
        (let capacity =
           (if as_capacity a < max_elements div 2 then max (as_capacity a * 2) to_last else max_elements)
         in reallocate_to_larger capacity from_first to_first to_last a))"

definition storage_resize :: "nat \<Rightarrow> array_storage \<Rightarrow> array_storage panics" where
  "storage_resize new_size a = shift 0 0 new_size a"

definition storage_at :: "array_storage \<Rightarrow> nat \<Rightarrow> js_value panics" where
  "storage_at a index = (if \<not> index < as_size a then None else mem_read (as_data a) index)"
definition storage_put :: "nat \<Rightarrow> js_value \<Rightarrow> array_storage \<Rightarrow> array_storage panics" where
  "storage_put index v a =
     (if \<not> index < as_size a then None
      else do { d \<leftarrow> mem_write index v (as_data a); Some (a\<lparr>as_data := d\<rparr>) })"

definition push_back_slowpath :: "js_value \<Rightarrow> array_storage \<Rightarrow> array_storage panics" where
  "push_back_slowpath v a =
     (let sz = as_size a in do { a1 \<leftarrow> storage_resize (as_size a + 1) a; storage_put sz v a1 })"
definition push_back :: "js_value \<Rightarrow> array_storage \<Rightarrow> array_storage panics" where
  "push_back v a =
     (let currsz = as_size a in
      if currsz < as_capacity a then
        do { d \<leftarrow> mem_write currsz v (as_data a); Some (a\<lparr>as_data := d, as_size := currsz + 1\<rparr>) }
      else push_back_slowpath v a)"
definition pop_back :: "array_storage \<Rightarrow> (js_value \<times> array_storage) panics" where
  "pop_back a =
     (let sz = as_size a in
      if \<not> sz > 0 then None
      else do { v \<leftarrow> mem_read (as_data a) (sz - 1); Some (v, a\<lparr>as_size := sz - 1\<rparr>) })"

definition storage_with_size :: "nat \<Rightarrow> nat \<Rightarrow> array_storage panics" where
  "storage_with_size sz capacity = resize_within_capacity sz (storage_new capacity)"

section \<open>The contents\<close>

definition storage_elems :: "array_storage \<Rightarrow> js_value list" where
  "storage_elems a = take (as_size a) (as_data a)"
definition storage_ok :: "array_storage \<Rightarrow> bool" where
  "storage_ok a \<longleftrightarrow> as_size a \<le> as_capacity a \<and> length (as_data a) = as_capacity a \<and> as_capacity a \<le> max_elements"

lemma length_storage_elems [simp]: "storage_ok a \<Longrightarrow> length (storage_elems a) = as_size a"
  by (simp add: storage_elems_def storage_ok_def)

lemma mem_fill_eq:
  "cur + n \<le> length d \<Longrightarrow> mem_fill cur n v d = Some (take cur d @ replicate n v @ drop (cur + n) d)"
proof (induction n arbitrary: cur d)
  case (Suc n)
  then have "mem_fill (cur + 1) n v (d[cur := v]) =
      Some (take (cur + 1) (d[cur := v]) @ replicate n v @ drop (cur + 1 + n) (d[cur := v]))"
    by (intro Suc.IH) simp
  with Suc.prems show ?case
    by (simp add: mem_write_def take_Suc_conv_app_nth)
qed simp

lemma mem_uninit_copy_eq:
  "first + n \<le> length src \<Longrightarrow> result + n \<le> length d \<Longrightarrow>
   mem_uninit_copy src first n result d = Some (take result d @ take n (drop first src) @ drop (result + n) d)"
proof (induction n arbitrary: first result d)
  case (Suc n)
  then have "mem_uninit_copy src (first + 1) n (result + 1) (d[result := src ! first]) =
      Some (take (result + 1) (d[result := src ! first]) @ take n (drop (first + 1) src)
        @ drop (result + 1 + n) (d[result := src ! first]))"
    by (intro Suc.IH) simp_all
  moreover have "take (Suc n) (drop first src) = src ! first # take n (drop (Suc first) src)"
    using Suc.prems(1) by (simp add: Cons_nth_drop_Suc [symmetric])
  ultimately show ?case
    using Suc.prems by (simp add: mem_write_def mem_read_def take_Suc_conv_app_nth)
qed simp

lemma resize_spec:
  assumes "storage_ok a" "n \<le> max_elements"
  shows "\<exists>a'. storage_resize n a = Some a' \<and> storage_ok a' \<and> as_size a' = n \<and>
    storage_elems a' = take n (storage_elems a) @ replicate (n - as_size a) encode_empty_value"
proof (cases "n \<le> as_capacity a")
  case True
  let ?c = "min (as_size a) n"
  have c: "?c + (n - ?c) \<le> length (as_data a)" using True assms(1) by (simp add: storage_ok_def)
  let ?d = "take ?c (as_data a) @ replicate (n - ?c) encode_empty_value @ drop (?c + (n - ?c)) (as_data a)"
  have "storage_resize n a = Some (a\<lparr>as_data := ?d, as_size := n\<rparr>)"
    using True assms(1) mem_fill_eq [OF c, of encode_empty_value]
    by (simp add: storage_resize_def shift_def Let_def)
  moreover have "length ?d = as_capacity a" using True assms(1) by (auto simp: storage_ok_def)
  moreover have "take n ?d = take n (storage_elems a) @ replicate (n - as_size a) encode_empty_value"
    using assms(1) by (auto simp: storage_elems_def storage_ok_def min_def)
  ultimately show ?thesis
    using True assms(1) by (simp add: storage_ok_def storage_elems_def)
next
  case False
  let ?cap = "if as_capacity a < max_elements div 2 then max (as_capacity a * 2) n else max_elements"
  have cap: "n \<le> ?cap" "?cap \<le> max_elements" "as_capacity a < ?cap"
    using False assms(2) by (auto simp: max_def max_elements_def)
  have sz: "as_size a < n" "as_size a \<le> length (as_data a)" using False assms(1) by (auto simp: storage_ok_def)
  let ?d1 = "take (as_size a) (as_data a) @ drop (as_size a) (replicate ?cap UNINIT)"
  let ?d = "take (as_size a) ?d1 @ replicate (n - as_size a) encode_empty_value @ drop n ?d1"
  have "mem_uninit_copy (as_data a) 0 (as_size a) 0 (replicate ?cap UNINIT) = Some ?d1"
    using mem_uninit_copy_eq [of 0 "as_size a" "as_data a" 0 "replicate ?cap UNINIT"] sz cap by simp
  moreover have "mem_fill (as_size a) (n - as_size a) encode_empty_value ?d1 = Some ?d"
    using mem_fill_eq [of "as_size a" "n - as_size a" ?d1 encode_empty_value] sz cap by simp
  ultimately have "storage_resize n a = Some \<lparr>as_size = n, as_capacity = ?cap, as_data = ?d\<rparr>"
    using False cap sz assms(1)
    by (simp add: storage_resize_def shift_def reallocate_to_larger_def storage_new_def Let_def min_def storage_ok_def)
  moreover have "length ?d = ?cap" using sz cap by simp
  ultimately show ?thesis
    using sz cap by (simp add: storage_ok_def storage_elems_def)
qed

lemma storage_at_eq:
  "storage_ok a \<Longrightarrow> storage_at a i = (if i < length (storage_elems a) then Some (storage_elems a ! i) else None)"
  by (simp add: storage_at_def mem_read_def storage_ok_def storage_elems_def)

lemma storage_put_spec:
  assumes "storage_ok a" "i < as_size a"
  shows "\<exists>a'. storage_put i v a = Some a' \<and> storage_ok a' \<and> as_size a' = as_size a \<and>
    as_capacity a' = as_capacity a \<and> storage_elems a' = (storage_elems a)[i := v]"
  using assms by (simp add: storage_put_def mem_write_def storage_ok_def storage_elems_def take_update_swap)

lemma storage_new_ok: "n \<le> max_elements \<Longrightarrow> storage_ok (storage_new n) \<and> storage_elems (storage_new n) = []"
  by (simp add: storage_new_def storage_ok_def storage_elems_def)

lemma storage_with_size_spec:
  assumes "n \<le> capacity" "capacity \<le> max_elements"
  shows "\<exists>a. storage_with_size n capacity = Some a \<and> storage_ok a \<and> storage_elems a = replicate n encode_empty_value"
proof -
  have "mem_fill 0 n encode_empty_value (replicate capacity UNINIT) =
      Some (replicate n encode_empty_value @ drop n (replicate capacity UNINIT))"
    using mem_fill_eq [of 0 n "replicate capacity UNINIT" encode_empty_value] assms(1) by simp
  with assms show ?thesis
    by (auto simp: storage_with_size_def resize_within_capacity_def storage_new_def storage_ok_def storage_elems_def)
qed

lemma push_back_spec:
  assumes "storage_ok a" "as_size a < max_elements"
  shows "\<exists>a'. push_back v a = Some a' \<and> storage_ok a' \<and> storage_elems a' = storage_elems a @ [v]"
proof (cases "as_size a < as_capacity a")
  case True
  with assms(1) show ?thesis
    by (simp add: push_back_def mem_write_def storage_ok_def storage_elems_def take_Suc_conv_app_nth Let_def)
next
  case False
  have le: "Suc (as_size a) \<le> max_elements" using assms(2) by simp
  obtain a1 where a1: "storage_resize (Suc (as_size a)) a = Some a1" "storage_ok a1" "as_size a1 = Suc (as_size a)"
    "storage_elems a1 = storage_elems a @ [encode_empty_value]"
    using resize_spec [OF assms(1) le] assms(1) by auto
  with storage_put_spec [OF a1(2), of "as_size a" v] False show ?thesis
    using assms(1) by (auto simp: push_back_def push_back_slowpath_def list_update_append)
qed

lemma pop_back_spec:
  assumes "storage_ok a" "storage_elems a \<noteq> []"
  shows "\<exists>a'. pop_back a = Some (last (storage_elems a), a') \<and> storage_ok a' \<and>
    storage_elems a' = butlast (storage_elems a)"
proof -
  have sz: "0 < as_size a" "as_size a \<le> length (as_data a)"
    using assms by (auto simp: storage_elems_def storage_ok_def)
  moreover have "last (storage_elems a) = as_data a ! (as_size a - 1)"
    using assms(2) sz by (subst last_conv_nth) (auto simp: storage_elems_def)
  ultimately show ?thesis
    using assms(1)
    by (auto simp: pop_back_def mem_read_def storage_ok_def storage_elems_def butlast_take Let_def)
qed

interpretation storage: vector storage_ok "\<lambda>a. as_size a < max_elements" storage_elems push_back pop_back
  by unfold_locales (use push_back_spec pop_back_spec in blast)+

lemma mem_copy_eq:
  "result \<le> first \<Longrightarrow> first + n \<le> length d \<Longrightarrow>
   mem_copy first n result d = Some (take result d @ take n (drop first d) @ drop (result + n) d)"
proof (induction n arbitrary: first result d)
  case (Suc n)
  let ?d = "d[result := d ! first]"
  have "mem_copy (first + 1) n (result + 1) ?d =
      Some (take (result + 1) ?d @ take n (drop (first + 1) ?d) @ drop (result + 1 + n) ?d)"
    using Suc.prems by (intro Suc.IH) simp_all
  moreover have "take (Suc n) (drop first d) = d ! first # take n (drop (Suc first) d)"
    using Suc.prems(2) by (simp add: Cons_nth_drop_Suc [symmetric])
  ultimately show ?case
    using Suc.prems by (simp add: mem_write_def mem_read_def take_Suc_conv_app_nth)
qed simp

section \<open>Properties\<close>

text \<open>
  C32. Resizing a storage keeps its elements up to the new size and fills the rest with the empty
  value, whether it fits the capacity or moves to a larger block, and never writes outside of
  the block.
\<close>

theorem storage_resize_correct:
  assumes "storage_ok a" "n \<le> max_elements"
  shows "\<exists>a'. storage_resize n a = Some a' \<and> storage_ok a' \<and>
    storage_elems a' = take n (storage_elems a) @ replicate (n - as_size a) encode_empty_value"
  using resize_spec [OF assms] by blast

theorem storage_resize_correct_witness:
  "\<exists>a'. storage_resize 3 (storage_new 0) = Some a' \<and> storage_elems a' = [0, 0, 0]"
  using storage_resize_correct [of "storage_new 0" 3] storage_new_ok [of 0]
  by (auto simp: max_elements_def encode_empty_value_def VALUE_EMPTY_def numeral_3_eq_3 storage_new_def)

text \<open>
  C33. The storage is a stack: values pushed by \<open>push_back\<close>, through any number of reallocations,
  come back from \<open>pop_back\<close> in reverse order and leave the elements that were there before.
\<close>

theorem storage_push_pop:
  assumes "storage_ok a" "storage.push_all vs a = Some b"
  shows "storage_elems b = storage_elems a @ vs \<and>
    (\<exists>c. storage.pop_all (length vs) b = Some (rev vs, c) \<and> storage_elems c = storage_elems a)"
  using storage.push_all_elems [OF assms] storage.lifo [OF assms] by blast

theorem storage_push_pop_witness:
  "\<exists>b c. storage.push_all [7] (storage_new 0) = Some b \<and> storage.pop_all 1 b = Some ([7], c) \<and> storage_elems c = []"
proof -
  have new: "storage_ok (storage_new 0)" "storage_elems (storage_new 0) = []" using storage_new_ok [of 0] by simp_all
  have room: "as_size (storage_new 0) < max_elements" by (simp add: storage_new_def max_elements_def)
  obtain b where "push_back 7 (storage_new 0) = Some b" using push_back_spec [OF new(1) room] by blast
  with room have b: "storage.push_all [7] (storage_new 0) = Some b" by simp
  from storage_push_pop [OF new(1) b] b new(2) show ?thesis by auto
qed

text \<open>
  Shifting a storage to the right is broken: \<open>copy_backward\<close> takes the end of the destination,
  and \<open>shift\<close> passes it the start, so the copy runs below the destination. When more elements
  are moved than there are slots before it, it writes in front of the block (undefined
  behaviour).
\<close>

theorem shift_right_out_of_bounds:
  assumes "storage_ok a" "from_first < to_first" "to_first \<le> to_last" "to_last \<le> as_capacity a"
    and "from_first \<le> as_size a" "to_first < min (as_size a - from_first) (to_last - to_first)"
  shows "shift from_first to_first to_last a = None"
proof -
  have b: "mem_copy_backward f n r d = None" if "r < n" for f n r d
    using that by (induction n arbitrary: r d) (auto split: Option.bind_splits)
  show ?thesis using assms b by (simp add: shift_def Let_def)
qed

theorem shift_right_out_of_bounds_witness:
  "shift 0 1 4 \<lparr>as_size = 3, as_capacity = 8, as_data = replicate 8 2\<rparr> = None"
  by (rule shift_right_out_of_bounds) (simp_all add: storage_ok_def max_elements_def)

text \<open>
  Shifting to the left within the capacity moves the elements as meant: those from
  \<open>from_first\<close> on start at \<open>to_first\<close>, the ones before stay, and the rest up to \<open>to_last\<close> is empty.
\<close>

theorem shift_left_correct:
  assumes "storage_ok a" "to_first \<le> from_first" "from_first \<le> as_size a" "to_first \<le> to_last"
    and "to_last \<le> as_capacity a"
  shows "\<exists>a'. shift from_first to_first to_last a = Some a' \<and> storage_ok a' \<and>
    storage_elems a' = take to_last (take to_first (storage_elems a) @ drop from_first (storage_elems a)
      @ replicate to_last encode_empty_value)"
proof -
  let ?n = "min (as_size a - from_first) (to_last - to_first)" and ?d = "as_data a" and ?e = encode_empty_value
  have l: "as_size a \<le> as_capacity a" "length ?d = as_capacity a" "as_capacity a \<le> max_elements"
    using assms(1) by (simp_all add: storage_ok_def)
  define d1 where "d1 = take to_first ?d @ take ?n (drop from_first ?d) @ drop (to_first + ?n) ?d"
  have ld1: "length d1 = as_capacity a" using l assms(2-5) by (auto simp: d1_def)
  have mv: "(if from_first > to_first then mem_copy from_first ?n to_first ?d
      else if from_first < to_first then mem_copy_backward from_first ?n to_first ?d else Some ?d) = Some d1"
  proof (cases "from_first > to_first")
    case True
    then show ?thesis using mem_copy_eq [of to_first from_first ?n ?d] l assms(3) by (simp add: d1_def)
  next
    case False
    with assms(2) have "from_first = to_first" by simp
    moreover have "take ?n (drop to_first ?d) @ drop (to_first + ?n) ?d = drop to_first ?d"
      by (metis add.commute append_take_drop_id drop_drop)
    ultimately show ?thesis by (simp add: d1_def)
  qed
  define d2 where "d2 = take (to_first + ?n) d1 @ replicate (to_last - (to_first + ?n)) ?e @ drop to_last d1"
  have fl: "mem_fill (to_first + ?n) (to_last - (to_first + ?n)) ?e d1 = Some d2"
    using mem_fill_eq [of "to_first + ?n" "to_last - (to_first + ?n)" d1 ?e] ld1 assms(4,5) by (simp add: d2_def)
  have "shift from_first to_first to_last a = Some (a\<lparr>as_data := d2, as_size := to_last\<rparr>)"
    using mv fl assms(3-5) by (simp add: shift_def Let_def)
  moreover have "length d2 = as_capacity a" using ld1 assms(4,5) by (auto simp: d2_def)
  moreover have t1: "take (to_first + ?n) d1 = take to_first ?d @ take ?n (drop from_first ?d)"
    using l assms(2-5) by (simp add: d1_def)
  moreover have "take to_last d2 = take to_last (take to_first (storage_elems a) @ drop from_first (storage_elems a)
      @ replicate to_last ?e)"
  proof -
    have "take to_last d2 = take to_first ?d @ take ?n (drop from_first ?d) @ replicate (to_last - (to_first + ?n)) ?e"
      using l assms(2-5) by (simp add: d2_def t1)
    also have "\<dots> = take to_last (take to_first (storage_elems a) @ drop from_first (storage_elems a) @ replicate to_last ?e)"
    proof -
      have A: "take to_first (storage_elems a) = take to_first ?d" "length (take to_first ?d) = to_first"
        using l assms(2,3) by (simp_all add: storage_elems_def min_def)
      have B: "drop from_first (storage_elems a) = take (as_size a - from_first) (drop from_first ?d)"
        "length (take (as_size a - from_first) (drop from_first ?d)) = as_size a - from_first"
        using l assms(3) by (simp_all add: storage_elems_def drop_take)
      show ?thesis
      proof (cases "as_size a - from_first \<le> to_last - to_first")
        case True
        then have n: "?n = as_size a - from_first" "as_size a - from_first + to_first \<le> to_last"
          using assms(4) by simp_all
        show ?thesis unfolding A B n(1) using n(2) assms(4) True
          by (auto simp: A(2) B(2) add.commute min_def dest: order_antisym simp del: length_take)
      next
        case False
        then have "?n = to_last - to_first" by simp
        then show ?thesis using False assms(4) by (simp add: A B min_def del: length_take)
      qed
    qed
    finally show ?thesis .
  qed
  ultimately show ?thesis using l assms(5) by (simp add: storage_ok_def storage_elems_def)
qed

theorem shift_left_correct_witness:
  "\<exists>a'. shift 1 0 2 \<lparr>as_size = 3, as_capacity = 4, as_data = [2, 6, 7, 10]\<rparr> = Some a' \<and> storage_elems a' = [6, 7]"
  using shift_left_correct [of "\<lparr>as_size = 3, as_capacity = 4, as_data = [2, 6, 7, 10]\<rparr>" 0 1 2]
  by (auto simp: storage_ok_def storage_elems_def max_elements_def)

end
