(* ===== verification/Indexed_Elements.thy ===== *)
theory Indexed_Elements
  imports Property Array_Storage "HOL-Library.AList"
begin

text \<open>
  The indexed elements of an object (vm/indexed_elements.rs): a dense vector with holes (the
  empty value), or a sparse map from index to stored slot, and the array length. The sparse
  \<open>HashMap\<close> is an association list with distinct keys. Indices are 32-bit numbers.
\<close>

definition FLAG_DENSE :: u32 where "FLAG_DENSE = 1"
definition FLAG_WRITABLE :: u32 where "FLAG_WRITABLE = 2"
definition MAX_VECTOR_SIZE :: nat where "MAX_VECTOR_SIZE = 65536"

type_synonym sparse_array_map = "(nat \<times> stored_slot) list"

record indexed_elements =
  ie_map :: "sparse_array_map option"
  ie_vector :: array_storage
  ie_length :: nat
  ie_flags :: u32
  ie_non_gc :: bool

definition ensure_map :: "indexed_elements \<Rightarrow> sparse_array_map \<times> indexed_elements" where
  "ensure_map e = (case ie_map e of Some m \<Rightarrow> (m, e) | None \<Rightarrow> ([], e\<lparr>ie_map := Some []\<rparr>))"

text \<open>The two loops of \<open>make_sparse\<close> over the vector; its map is the one \<open>ensure_map\<close> returned.\<close>

fun sparse_insert :: "nat \<Rightarrow> js_value list \<Rightarrow> sparse_array_map \<Rightarrow> sparse_array_map" where
  "sparse_insert index [] m = m"
| "sparse_insert index (v # vs) m =
     sparse_insert (index + 1) vs
       (if \<not> is_empty v then AList.update index (stored_slot_new_raw v object_data) m else m)"
definition make_sparse :: "indexed_elements \<Rightarrow> indexed_elements" where
  "make_sparse e =
     (let e1 = e\<lparr>ie_flags := ie_flags e AND NOT FLAG_DENSE\<rparr>;
          (m, e2) = ensure_map e1;
          vs = storage_elems (ie_vector e2)
      in e2\<lparr>ie_map := Some (sparse_insert 0 vs m),
            ie_vector := (ie_vector e2)\<lparr>as_data :=
              replicate (length vs) encode_empty_value @ drop (length vs) (as_data (ie_vector e2))\<rparr>\<rparr>)"
definition make_dense :: "indexed_elements \<Rightarrow> indexed_elements" where
  "make_dense e = e\<lparr>ie_flags := ie_flags e OR FLAG_DENSE, ie_map := None\<rparr>"
definition set_length :: "nat \<Rightarrow> indexed_elements \<Rightarrow> indexed_elements" where
  "set_length len e = e\<lparr>ie_length := len\<rparr>"
definition is_dense :: "indexed_elements \<Rightarrow> bool" where
  "is_dense e = (ie_flags e AND FLAG_DENSE \<noteq> 0)"
definition is_sparse :: "indexed_elements \<Rightarrow> bool" where
  "is_sparse e = (\<not> is_dense e)"
definition elements_writable :: "indexed_elements \<Rightarrow> bool" where
  "elements_writable e = (ie_flags e AND FLAG_WRITABLE \<noteq> 0)"
definition make_readonly :: "indexed_elements \<Rightarrow> indexed_elements" where
  "make_readonly e = e\<lparr>ie_flags := ie_flags e AND NOT FLAG_WRITABLE\<rparr>"
definition elements_new :: indexed_elements where
  "elements_new =
     \<lparr>ie_map = None, ie_vector = storage_new 0, ie_length = 0, ie_flags = FLAG_DENSE OR FLAG_WRITABLE,
      ie_non_gc = True\<rparr>"

section \<open>Flags\<close>

lemma element_flag_bits [flag_bits]: "bit FLAG_DENSE n \<longleftrightarrow> n = 0" "bit FLAG_WRITABLE n \<longleftrightarrow> n = 1"
proof -
  have e: "bit ((2::u32) ^ m) n \<longleftrightarrow> n = m" if "m < 32" for m
    using that by (auto simp: bit_exp_iff possible_bit_word)
  show "bit FLAG_DENSE n \<longleftrightarrow> n = 0" "bit FLAG_WRITABLE n \<longleftrightarrow> n = 1"
    using e [of 0] e [of 1] by (simp_all add: FLAG_DENSE_def FLAG_WRITABLE_def)
qed

lemma element_flag_tests [flag_simps]:
  "is_dense e \<longleftrightarrow> bit (ie_flags e) 0" "elements_writable e \<longleftrightarrow> bit (ie_flags e) 1"
  using and_flag_eq_0 [of "ie_flags e" 0] and_flag_eq_0 [of "ie_flags e" 1]
  by (simp_all add: is_dense_def elements_writable_def FLAG_DENSE_def FLAG_WRITABLE_def)

section \<open>The abstract view\<close>

text \<open>The own element at an index, as \<open>GetOwnIndexedPropertySlot\<close> reads it.\<close>

definition element_at :: "indexed_elements \<Rightarrow> nat \<Rightarrow> stored_slot option" where
  "element_at e i =
     (if is_dense e \<and> i < as_size (ie_vector e) then
        (let v = storage_elems (ie_vector e) ! i
         in if is_empty v then None else Some (stored_slot_new_raw v object_data))
      else (case ie_map e of None \<Rightarrow> None | Some m \<Rightarrow> if i < ie_length e then map_of m i else None))"

definition elements_ok :: "indexed_elements \<Rightarrow> bool" where
  "elements_ok e \<longleftrightarrow>
     storage_ok (ie_vector e) \<and> as_size (ie_vector e) \<le> ie_length e \<and> as_size (ie_vector e) \<le> MAX_VECTOR_SIZE \<and>
     (\<forall>m. ie_map e = Some m \<longrightarrow> distinct (map fst m) \<and>
        (is_dense e \<longrightarrow> (\<forall>k \<in> fst ` set m. MAX_VECTOR_SIZE \<le> k))) \<and>
     (\<not> is_dense e \<longrightarrow> (\<forall>v \<in> set (storage_elems (ie_vector e)). is_empty v))"

lemma sparse_insert_map:
  "map_of (sparse_insert k vs m) i =
     (if k \<le> i \<and> i < k + length vs \<and> \<not> is_empty (vs ! (i - k))
      then Some (stored_slot_new_raw (vs ! (i - k)) object_data) else map_of m i)"
proof (induction vs arbitrary: k m)
  case (Cons v vs)
  show ?case
  proof (cases "i = k")
    case False
    then have "k \<le> i \<and> i < k + length (v # vs) \<longleftrightarrow> Suc k \<le> i \<and> i < Suc k + length vs" by auto
    moreover have "(v # vs) ! (i - k) = vs ! (i - Suc k)" if "Suc k \<le> i"
      using that by (simp add: nth_Cons')
    ultimately show ?thesis using False by (auto simp: Cons.IH update_conv)
  next
    case True
    then have k: "k = i" by simp
    show ?thesis unfolding k by (simp add: Cons.IH update_conv)
  qed
qed auto

lemma sparse_insert_distinct: "distinct (map fst m) \<Longrightarrow> distinct (map fst (sparse_insert k vs m))"
  by (induction vs arbitrary: k m) (simp_all add: distinct_update)

lemma make_sparse_fields:
  "\<not> is_dense (make_sparse e)" "elements_writable (make_sparse e) = elements_writable e"
  "ie_length (make_sparse e) = ie_length e"
  "as_size (ie_vector (make_sparse e)) = as_size (ie_vector e)"
  by (auto simp: make_sparse_def ensure_map_def Let_def flag_simps bit_and_iff bit_not_iff possible_bit_word
      flag_bits split: option.splits)

lemma make_sparse_vector:
  assumes "storage_ok (ie_vector e)"
  shows "storage_ok (ie_vector (make_sparse e))"
    and "storage_elems (ie_vector (make_sparse e)) = replicate (as_size (ie_vector e)) encode_empty_value"
  using assms
  by (auto simp: make_sparse_def ensure_map_def Let_def storage_ok_def storage_elems_def split: option.splits)



end
