(* ===== verification/Js_Object.thy ===== *)
theory Js_Object
  imports Shape_Reach Indexed_Elements
begin

text \<open>
  Objects and their internal methods (vm/object.rs): own lookup and lookup along the prototype
  chain, [[Put]], [[DefineOwnProperty]], [[Delete]] and the names of properties, for named and
  for indexed properties. The model covers objects whose class has the method table of
  \<open>JsObject\<close>, so the calls through the table are calls to the methods here and the comparisons of
  its \<open>GetOwnIndexedPropertySlot\<close> entry with \<open>JsObject\<close>'s own are true.

  An object is reached by its address. Calling a function (a getter or setter) is the parameter
  \<open>call\<close>: the interpreter is another component. A method returns \<^term>\<open>None\<close> on a panic, and
  otherwise an exception or a result, with the heap; the lookup slot it fills is part of the
  result. A loop along the prototype chain need not end.
\<close>

record js_object =
  ob_struct :: nat
  ob_slots :: array_storage
  ob_indexed :: indexed_elements
  ob_flags :: u32

record heap = shapes +
  objs :: "u64 \<Rightarrow> js_object option"

type_synonym 'a outcome = "((js_throw + 'a) \<times> heap) panics"

definition ret :: "'a \<Rightarrow> heap \<Rightarrow> 'a outcome" where
  "ret x h = Some (Inr x, h)"
definition throw :: "js_throw \<Rightarrow> heap \<Rightarrow> 'a outcome" where
  "throw e h = Some (Inl e, h)"

text \<open>The \<open>?\<close> operator.\<close>

definition attempt :: "'a outcome \<Rightarrow> ('a \<Rightarrow> heap \<Rightarrow> 'b outcome) \<Rightarrow> 'b outcome" where
  "attempt r f = (case r of None \<Rightarrow> None | Some (Inl e, h) \<Rightarrow> Some (Inl e, h) | Some (Inr x, h) \<Rightarrow> f x h)"

text \<open>\<open>call f this args callee\<close>: the last one is the third argument of \<open>JsFunction::call\<close>.\<close>

type_synonym call_fun = "js_value \<Rightarrow> js_value \<Rightarrow> js_value list \<Rightarrow> js_value \<Rightarrow> heap \<Rightarrow> js_value outcome"

definition set_obj :: "u64 \<Rightarrow> js_object \<Rightarrow> heap \<Rightarrow> heap" where
  "set_obj o1 ob h = h\<lparr>objs := (objs h)(o1 \<mapsto> ob)\<rparr>"

section \<open>Flags and fields\<close>

definition OBJ_FLAG_CALLABLE :: u32 where "OBJ_FLAG_CALLABLE = 2"
definition OBJ_FLAG_EXTENSIBLE :: u32 where "OBJ_FLAG_EXTENSIBLE = 1"

definition is_extensible :: "js_object \<Rightarrow> bool" where
  "is_extensible ob = (ob_flags ob AND OBJ_FLAG_EXTENSIBLE \<noteq> 0)"
definition ob_is_callable :: "js_object \<Rightarrow> bool" where
  "ob_is_callable ob = (ob_flags ob AND OBJ_FLAG_CALLABLE \<noteq> 0)"
definition set_callable :: "bool \<Rightarrow> js_object \<Rightarrow> js_object" where
  "set_callable val ob =
     (if val then ob\<lparr>ob_flags := ob_flags ob OR OBJ_FLAG_CALLABLE\<rparr>
      else ob\<lparr>ob_flags := ob_flags ob AND NOT OBJ_FLAG_CALLABLE\<rparr>)"
definition is_callable :: "heap \<Rightarrow> js_value \<Rightarrow> bool" where
  "is_callable h v =
     (is_object v \<and> (case get_object v of None \<Rightarrow> False
        | Some p \<Rightarrow> (case objs h p of None \<Rightarrow> False | Some ob \<Rightarrow> ob_is_callable ob)))"
definition direct :: "js_object \<Rightarrow> nat \<Rightarrow> js_value panics" where
  "direct ob n = storage_at (ob_slots ob) n"
definition direct_put :: "u64 \<Rightarrow> nat \<Rightarrow> js_value \<Rightarrow> heap \<Rightarrow> heap panics" where
  "direct_put o1 n v h =
     do { ob \<leftarrow> objs h o1; sl \<leftarrow> storage_put n v (ob_slots ob); Some (set_obj o1 (ob\<lparr>ob_slots := sl\<rparr>) h) }"
definition object_prototype :: "heap \<Rightarrow> u64 \<Rightarrow> u64 option panics" where
  "object_prototype h o1 = do { ob \<leftarrow> objs h o1; s \<leftarrow> structs h (ob_struct ob); Some (st_prototype s) }"

definition is_absent_descriptor :: "property_descriptor \<Rightarrow> bool" where
  "is_absent_descriptor desc =
     (let d = desc_attrs desc in
      if \<not> is_enumerable d \<and> \<not> is_enumerable_absent d then False
      else if \<not> is_configurable d \<and> \<not> is_configurable_absent d then False
      else if is_accessor d then False
      else if is_data d then is_writable d \<and> is_writable_absent d
      else True)"

section \<open>Own lookup\<close>

definition get_own_non_indexed_property_slot ::
  "u64 \<Rightarrow> symbol \<Rightarrow> slot \<Rightarrow> heap \<Rightarrow> (bool \<times> slot \<times> heap) panics" where
  "get_own_non_indexed_property_slot o1 name sl h =
     do {
       ob \<leftarrow> objs h o1;
       (e, h1) \<leftarrow> structure_get (ob_struct ob) name h;
       if \<not> entry_is_not_found e then
         do { v \<leftarrow> direct ob (me_offset e);
              Some (True, slot_set_woffset v (me_attrs e) (Some o1) (word_of_nat (me_offset e)) sl, h1) }
       else Some (False, sl, h1) }"

definition get_own_indexed_property_slot ::
  "u64 \<Rightarrow> nat \<Rightarrow> slot \<Rightarrow> heap \<Rightarrow> (bool \<times> slot \<times> heap) panics" where
  "get_own_indexed_property_slot o1 index sl h =
     do {
       ob \<leftarrow> objs h o1;
       let ie = ob_indexed ob in
       if is_dense ie \<and> index < as_size (ie_vector ie) then
         do { v \<leftarrow> storage_at (ie_vector ie) index;
              if is_empty v then Some (False, sl, h)
              else Some (True, slot_set_1 v object_data (Some o1) sl, h) }
       else
         (case ie_map ie of
            None \<Rightarrow> Some (False, sl, h)
          | Some m \<Rightarrow>
              if index < ie_length ie then
                (case map_of m index of
                   Some it \<Rightarrow> Some (True, slot_set_from_slot it (Some o1) sl, h)
                 | None \<Rightarrow> Some (False, sl, h))
              else Some (False, sl, h)) }"

definition get_own_property_slot :: "u64 \<Rightarrow> symbol \<Rightarrow> slot \<Rightarrow> heap \<Rightarrow> (bool \<times> slot \<times> heap) panics" where
  "get_own_property_slot o1 name sl h =
     (case name of Index i \<Rightarrow> get_own_indexed_property_slot o1 (unat i) sl h
      | _ \<Rightarrow> get_own_non_indexed_property_slot o1 name sl h)"

section \<open>Lookup along the prototype chain\<close>

partial_function (option) get_non_indexed_property_slot ::
  "u64 \<Rightarrow> symbol \<Rightarrow> slot \<Rightarrow> heap \<Rightarrow> (bool \<times> slot \<times> heap) option" where
  "get_non_indexed_property_slot o1 name sl h =
     Option.bind (get_own_non_indexed_property_slot o1 name sl h) (\<lambda>(found, sl1, h1).
       if found then Some (True, sl1, h1)
       else Option.bind (object_prototype h1 o1) (\<lambda>p.
         case p of Some proto \<Rightarrow> get_non_indexed_property_slot proto name sl1 h1
         | None \<Rightarrow> Some (False, sl1, h1)))"

partial_function (option) get_indexed_property_slot ::
  "u64 \<Rightarrow> nat \<Rightarrow> slot \<Rightarrow> heap \<Rightarrow> (bool \<times> slot \<times> heap) option" where
  "get_indexed_property_slot o1 index sl h =
     Option.bind (get_own_indexed_property_slot o1 index sl h) (\<lambda>(found, sl1, h1).
       if found then Some (True, sl1, h1)
       else Option.bind (object_prototype h1 o1) (\<lambda>p.
         case p of Some proto \<Rightarrow> get_indexed_property_slot proto index sl1 h1
         | None \<Rightarrow> Some (False, sl1, h1)))"

definition get_property_slot :: "u64 \<Rightarrow> symbol \<Rightarrow> slot \<Rightarrow> heap \<Rightarrow> (bool \<times> slot \<times> heap) panics" where
  "get_property_slot o1 name sl h =
     (case name of Index i \<Rightarrow> get_indexed_property_slot o1 (unat i) sl h
      | _ \<Rightarrow> get_non_indexed_property_slot o1 name sl h)"

partial_function (option) has_indexed_property :: "u64 \<Rightarrow> heap \<Rightarrow> bool option" where
  "has_indexed_property o1 h =
     Option.bind (objs h o1) (\<lambda>ob. Option.bind (structs h (ob_struct ob)) (\<lambda>s.
       if st_is_indexed s then Some True
       else (case st_prototype s of Some proto \<Rightarrow> has_indexed_property proto h | None \<Rightarrow> Some False)))"

definition invoke_getter :: "call_fun \<Rightarrow> accessor \<Rightarrow> js_value \<Rightarrow> heap \<Rightarrow> js_value outcome" where
  "invoke_getter call ac this h =
     (if is_callable h (getter ac) then call (getter ac) this [] (getter ac) h else ret encode_undefined_value h)"
definition stored_slot_get :: "call_fun \<Rightarrow> 'a stored_slot_scheme \<Rightarrow> js_value \<Rightarrow> heap \<Rightarrow> js_value outcome" where
  "stored_slot_get call s this h =
     (if is_accessor (slot_attrs s) then do { ac \<leftarrow> slot_accessor h s; invoke_getter call ac this h }
      else ret (slot_value s) h)"

definition get_non_indexed_slot :: "call_fun \<Rightarrow> u64 \<Rightarrow> symbol \<Rightarrow> slot \<Rightarrow> heap \<Rightarrow> js_value outcome" where
  "get_non_indexed_slot call o1 name sl h =
     do {
       (found, sl1, h1) \<leftarrow> get_non_indexed_property_slot o1 name sl h;
       if found then stored_slot_get call sl1 (encode_object_value o1) h1
       else ret encode_undefined_value h1 }"
definition get_indexed_slot :: "call_fun \<Rightarrow> u64 \<Rightarrow> nat \<Rightarrow> slot \<Rightarrow> heap \<Rightarrow> js_value outcome" where
  "get_indexed_slot call o1 index sl h =
     do {
       (found, sl1, h1) \<leftarrow> get_indexed_property_slot o1 index sl h;
       if found then stored_slot_get call sl1 (encode_object_value o1) h1
       else ret encode_undefined_value h1 }"
definition get_slot :: "call_fun \<Rightarrow> u64 \<Rightarrow> symbol \<Rightarrow> slot \<Rightarrow> heap \<Rightarrow> js_value outcome" where
  "get_slot call o1 name sl h =
     (case name of Index i \<Rightarrow> get_indexed_slot call o1 (unat i) sl h
      | _ \<Rightarrow> get_non_indexed_slot call o1 name sl h)"
definition object_get :: "call_fun \<Rightarrow> u64 \<Rightarrow> symbol \<Rightarrow> heap \<Rightarrow> js_value outcome" where
  "object_get call o1 name h = get_slot call o1 name slot_new h"

definition get_own_property :: "u64 \<Rightarrow> symbol \<Rightarrow> heap \<Rightarrow> (property_descriptor option \<times> heap) panics" where
  "get_own_property o1 name h =
     do {
       (found, sl, h1) \<leftarrow> get_own_property_slot o1 name slot_new h;
       if found then do { d \<leftarrow> to_descriptor h1 sl; Some (Some d, h1) } else Some (None, h1) }"
definition get_property :: "u64 \<Rightarrow> symbol \<Rightarrow> heap \<Rightarrow> (property_descriptor \<times> heap) panics" where
  "get_property o1 name h =
     do {
       (found, sl, h1) \<leftarrow> get_property_slot o1 name slot_new h;
       if found then do { d \<leftarrow> to_descriptor h1 sl; Some (d, h1) }
       else Some (new_val encode_empty_value attr_not_found, h1) }"
definition has_property :: "u64 \<Rightarrow> symbol \<Rightarrow> heap \<Rightarrow> (bool \<times> heap) panics" where
  "has_property o1 name h =
     do { (found, sl, h1) \<leftarrow> get_property_slot o1 name slot_new h; Some (found, h1) }"
definition has_own_property :: "u64 \<Rightarrow> symbol \<Rightarrow> heap \<Rightarrow> (bool \<times> heap) panics" where
  "has_own_property o1 name h =
     do { (found, sl, h1) \<leftarrow> get_own_property_slot o1 name slot_new h; Some (found, h1) }"

section \<open>[[CanPut]]\<close>

definition can_put_found :: "u64 \<Rightarrow> (bool \<times> slot \<times> heap) \<Rightarrow> (bool \<times> slot \<times> heap) panics" where
  "can_put_found o1 r =
     (case r of (found, sl, h) \<Rightarrow>
        if found then
          (if is_accessor (slot_attrs sl) then
             do { ac \<leftarrow> slot_accessor h sl;
                  Some (is_pointer (setter ac) \<and> \<not> is_empty (setter ac), sl, h) }
           else Some (is_writable (slot_attrs sl), sl, h))
        else do { ob \<leftarrow> objs h o1; Some (is_extensible ob, sl, h) })"
definition can_put_non_indexed :: "u64 \<Rightarrow> symbol \<Rightarrow> slot \<Rightarrow> heap \<Rightarrow> (bool \<times> slot \<times> heap) panics" where
  "can_put_non_indexed o1 name sl h =
     Option.bind (get_non_indexed_property_slot o1 name sl h) (can_put_found o1)"
definition can_put_indexed :: "u64 \<Rightarrow> nat \<Rightarrow> slot \<Rightarrow> heap \<Rightarrow> (bool \<times> slot \<times> heap) panics" where
  "can_put_indexed o1 index sl h =
     Option.bind (get_indexed_property_slot o1 index sl h) (can_put_found o1)"
definition can_put :: "u64 \<Rightarrow> symbol \<Rightarrow> slot \<Rightarrow> heap \<Rightarrow> (bool \<times> slot \<times> heap) panics" where
  "can_put o1 name sl h =
     (case name of Index i \<Rightarrow> can_put_indexed o1 (unat i) sl h | _ \<Rightarrow> can_put_non_indexed o1 name sl h)"

section \<open>[[DefineOwnProperty]]\<close>

definition reject_or :: "bool \<Rightarrow> string \<Rightarrow> 'a \<Rightarrow> heap \<Rightarrow> 'a outcome" where
  "reject_or throwable msg x h = (if throwable then throw (TypeError msg) h else ret x h)"

text \<open>The structure after a transition of the object's structure.\<close>

definition set_structure :: "u64 \<Rightarrow> nat \<Rightarrow> heap \<Rightarrow> heap panics" where
  "set_structure o1 j h = do { ob \<leftarrow> objs h o1; Some (set_obj o1 (ob\<lparr>ob_struct := j\<rparr>) h) }"

text \<open>A new property: the transition, the slots resized to the new capacity, the value.\<close>

definition add_own_slot :: "u64 \<Rightarrow> symbol \<Rightarrow> attr_safe \<Rightarrow> js_value \<Rightarrow> heap \<Rightarrow> (nat \<times> heap) panics" where
  "add_own_slot o1 name attrs v h =
     do {
       ob \<leftarrow> objs h o1;
       (j, off, h1) \<leftarrow> add_property_transition (ob_struct ob) name attrs h;
       h2 \<leftarrow> set_structure o1 j h1;
       js \<leftarrow> structs h2 j;
       ob2 \<leftarrow> objs h2 o1;
       sl \<leftarrow> storage_resize (as_u32 (storage_capacity h2 js)) (ob_slots ob2);
       h3 \<leftarrow> direct_put o1 off v (set_obj o1 (ob2\<lparr>ob_slots := sl\<rparr>) h2);
       Some (off, h3) }"

definition define_own_non_indexed_property_slot ::
  "u64 \<Rightarrow> symbol \<Rightarrow> property_descriptor \<Rightarrow> slot \<Rightarrow> bool \<Rightarrow> heap \<Rightarrow> (bool \<times> slot) outcome" where
  "define_own_non_indexed_property_slot o1 name desc sl throwable h =
     do {
       (sl1, h1) \<leftarrow> (if \<not> slot_is_used sl
          then do { (found, sl1, h1) \<leftarrow> get_own_property_slot o1 name sl h; Some (sl1, h1) }
          else Some (sl, h));
       if \<not> slot_is_not_found sl1 \<and> slot_base sl1 = Some o1 then
         do {
           acc \<leftarrow> is_defined_property_accepted h1 sl1 desc throwable;
           (case acc of
              Inl e \<Rightarrow> throw e h1
            | Inr (go, returned) \<Rightarrow>
                if \<not> go then ret (returned, sl1) h1
                else if slot_has_offset sl1 then
                  do {
                    let old = slot_attrs sl1;
                    (sl2, h2) \<leftarrow> merge h1 sl1 desc;
                    h3 \<leftarrow> (if old \<noteq> slot_attrs sl2 then
                             do { ob \<leftarrow> objs h2 o1;
                                  (j, h3) \<leftarrow> change_attributes_transition (ob_struct ob) name (slot_attrs sl2) h2;
                                  set_structure o1 j h3 }
                           else Some h2);
                    h4 \<leftarrow> direct_put o1 (unat (slot_offset sl2)) (slot_value sl2) h3;
                    ret (returned, mark_put_result PutReplace (slot_offset sl2) sl2) h4 }
                else
                  do {
                    (sl2, h2) \<leftarrow> merge h1 sl1 desc;
                    (off, h3) \<leftarrow> add_own_slot o1 name (slot_attrs sl2) (slot_value sl2) h2;
                    ret (returned, mark_put_result PutNew (word_of_nat off) sl2) h3 }) }
       else
         do {
           ob \<leftarrow> objs h1 o1;
           if \<not> is_extensible ob then reject_or throwable ''Object non extensible'' (False, sl1) h1
           else
             do {
               let (stored, h2) = stored_slot_new h1 desc;
               (off, h3) \<leftarrow> add_own_slot o1 name (slot_attrs stored) (slot_value stored) h2;
               ret (True, (mark_put_result PutNew (word_of_nat off) sl1)\<lparr>slot_base := Some o1\<rparr>) h3 } } }"

text \<open>The write both branches of the dense path end with.\<close>

definition dense_write :: "nat \<Rightarrow> js_value \<Rightarrow> bool \<Rightarrow> indexed_elements \<Rightarrow> indexed_elements panics" where
  "dense_write index val absent ie =
     (if \<not> absent then
        do { v \<leftarrow> storage_put index val (ie_vector ie);
             Some (ie\<lparr>ie_non_gc := (ie_non_gc ie \<and> \<not> is_object val), ie_vector := v\<rparr>) }
      else
        do { v \<leftarrow> storage_put index encode_undefined_value (ie_vector ie); Some (ie\<lparr>ie_vector := v\<rparr>) })"

text \<open>\<open>if !self.structure.is_indexed()\<close> change the structure.\<close>

definition make_indexed :: "u64 \<Rightarrow> heap \<Rightarrow> heap panics" where
  "make_indexed o1 h =
     do {
       ob \<leftarrow> objs h o1;
       s \<leftarrow> structs h (ob_struct ob);
       if \<not> st_is_indexed s then
         do { (j, h1) \<leftarrow> change_indexed_transition (ob_struct ob) h; set_structure o1 j h1 }
       else Some h }"

definition define_own_indexed_value_dense_internal ::
  "u64 \<Rightarrow> nat \<Rightarrow> js_value \<Rightarrow> bool \<Rightarrow> heap \<Rightarrow> heap panics" where
  "define_own_indexed_value_dense_internal o1 index val absent h =
     do {
       ob \<leftarrow> objs h o1;
       h1 \<leftarrow>
         (if index < as_size (ie_vector (ob_indexed ob)) then
            do { ie \<leftarrow> dense_write index val absent (ob_indexed ob); Some (set_obj o1 (ob\<lparr>ob_indexed := ie\<rparr>) h) }
          else
            do { h0 \<leftarrow> make_indexed o1 h;
                 ob0 \<leftarrow> objs h0 o1;
                 v \<leftarrow> storage_resize (as_u32 (index + 1)) (ie_vector (ob_indexed ob0));
                 Some (set_obj o1 (ob0\<lparr>ob_indexed := (ob_indexed ob0)\<lparr>ie_vector := v\<rparr>\<rparr>) h0) });
       ob1 \<leftarrow> objs h1 o1;
       ie1 \<leftarrow> dense_write index val absent (ob_indexed ob1);
       let ie2 = (if index \<ge> ie_length ie1 then set_length (as_u32 (index + 1)) ie1 else ie1)
       in Some (set_obj o1 (ob1\<lparr>ob_indexed := ie2\<rparr>) h1) }"

definition set_elements :: "u64 \<Rightarrow> indexed_elements \<Rightarrow> heap \<Rightarrow> heap panics" where
  "set_elements o1 ie h = do { ob \<leftarrow> objs h o1; Some (set_obj o1 (ob\<lparr>ob_indexed := ie\<rparr>) h) }"

text \<open>The part of \<open>define_own_indexed_property_internal\<close> that works on the sparse map.\<close>

definition define_sparse :: "u64 \<Rightarrow> nat \<Rightarrow> property_descriptor \<Rightarrow> bool \<Rightarrow> heap \<Rightarrow> bool outcome" where
  "define_sparse o1 index desc throwable h =
     do {
       ob \<leftarrow> objs h o1;
       let (m, ie) = ensure_map (ob_indexed ob);
       h1 \<leftarrow> set_elements o1 ie h;
       (case map_of m index of
          Some entry \<Rightarrow>
            do {
              acc \<leftarrow> is_defined_property_accepted h1 entry desc throwable;
              (case acc of
                 Inl e \<Rightarrow> throw e h1
               | Inr (go, returned) \<Rightarrow>
                   if go then
                     do {
                       (entry', h2) \<leftarrow> merge h1 entry desc;
                       h3 \<leftarrow> set_elements o1
                         (ie\<lparr>ie_non_gc := (ie_non_gc ie \<and> \<not> is_object (desc_value desc)),
                             ie_map := Some (AList.update index entry' m)\<rparr>) h2;
                       ret returned h3 }
                   else ret returned h1) }
        | None \<Rightarrow>
            if \<not> is_extensible ob then reject_or throwable ''object not extensible'' False h1
            else
              do {
                h2 \<leftarrow> make_indexed o1 h1;
                let ie1 = (if index \<ge> ie_length ie then set_length (as_u32 (index + 1)) ie else ie);
                let (stored, h3) = stored_slot_new h2 desc;
                h4 \<leftarrow> set_elements o1
                  (ie1\<lparr>ie_non_gc := (ie_non_gc ie1 \<and> \<not> is_object (desc_value desc)),
                       ie_map := Some (AList.update index stored m)\<rparr>) h3;
                ret True h4 }) }"

definition define_own_indexed_property_internal ::
  "u64 \<Rightarrow> nat \<Rightarrow> property_descriptor \<Rightarrow> bool \<Rightarrow> heap \<Rightarrow> bool outcome" where
  "define_own_indexed_property_internal o1 index desc throwable h =
     do {
       ob \<leftarrow> objs h o1;
       let ie = ob_indexed ob;
       let d = desc_attrs desc;
       if index \<ge> ie_length ie \<and> \<not> elements_writable ie then
         reject_or throwable
           ''adding an element to the array which length is not writable is rejected'' False h
       else if is_dense ie then
         (if is_default d then
            (if index < MAX_VECTOR_SIZE then
               do { h1 \<leftarrow> define_own_indexed_value_dense_internal o1 index (desc_value desc) (is_value_absent d) h;
                    ret True h1 }
             else define_sparse o1 index desc throwable h)
          else
            do {
              hole \<leftarrow> (if is_absent_descriptor desc \<and> index < as_size (ie_vector ie)
                       then do { v \<leftarrow> storage_at (ie_vector ie) index; Some (is_empty v) } else Some True);
              if \<not> hole then
                (if \<not> is_value_absent d then
                   do { v \<leftarrow> storage_put index (desc_value desc) (ie_vector ie);
                        h1 \<leftarrow> set_elements o1
                          (ie\<lparr>ie_non_gc := (ie_non_gc ie \<and> \<not> is_object (desc_value desc)), ie_vector := v\<rparr>) h;
                        ret True h1 }
                 else ret True h)
              else
                do {
                  h1 \<leftarrow> (if index < MAX_VECTOR_SIZE then set_elements o1 (make_sparse ie) h else Some h);
                  define_sparse o1 index desc throwable h1 } })
       else define_sparse o1 index desc throwable h }"

definition define_own_indexed_property_slot ::
  "u64 \<Rightarrow> nat \<Rightarrow> property_descriptor \<Rightarrow> slot \<Rightarrow> bool \<Rightarrow> heap \<Rightarrow> (bool \<times> slot) outcome" where
  "define_own_indexed_property_slot o1 index desc sl throwable h =
     attempt (define_own_indexed_property_internal o1 index desc throwable h) (\<lambda>r. ret (r, sl))"

definition define_own_property_slot ::
  "u64 \<Rightarrow> symbol \<Rightarrow> property_descriptor \<Rightarrow> slot \<Rightarrow> bool \<Rightarrow> heap \<Rightarrow> (bool \<times> slot) outcome" where
  "define_own_property_slot o1 name desc sl throwable h =
     (case name of Index i \<Rightarrow> define_own_indexed_property_slot o1 (unat i) desc sl throwable h
      | _ \<Rightarrow> define_own_non_indexed_property_slot o1 name desc sl throwable h)"
definition define_own_property ::
  "u64 \<Rightarrow> symbol \<Rightarrow> property_descriptor \<Rightarrow> bool \<Rightarrow> heap \<Rightarrow> bool outcome" where
  "define_own_property o1 name desc throwable h =
     attempt (define_own_property_slot o1 name desc slot_new throwable h) (\<lambda>(r, sl). ret r)"

section \<open>[[Put]]\<close>

definition call_setter :: "call_fun \<Rightarrow> js_value \<Rightarrow> js_value \<Rightarrow> js_value \<Rightarrow> js_value \<Rightarrow> slot \<Rightarrow> heap \<Rightarrow> slot outcome" where
  "call_setter call f this val callee sl h =
     do {
       p \<leftarrow> get_object f;
       fo \<leftarrow> objs h p;
       attempt (call f this [val] callee h) (\<lambda>_. ret sl) }"

definition put_non_indexed_slot ::
  "call_fun \<Rightarrow> u64 \<Rightarrow> symbol \<Rightarrow> js_value \<Rightarrow> slot \<Rightarrow> bool \<Rightarrow> heap \<Rightarrow> slot outcome" where
  "put_non_indexed_slot call o1 name val sl throwable h =
     do {
       (ok, sl1, h1) \<leftarrow> can_put o1 name sl h;
       if \<not> ok then reject_or throwable ''put failed'' sl1 h1
       else if \<not> slot_is_not_found sl1 \<and> slot_base sl1 = Some o1 \<and> is_data (slot_attrs sl1) then
         attempt (define_own_non_indexed_property_slot o1 name
             (data_descriptor val (UNDEF_ENUMERABLE OR UNDEF_CONFIGURABLE OR UNDEF_WRITABLE)) sl1 throwable h1)
           (\<lambda>(r, sl2). ret sl2)
       else if \<not> slot_is_not_found sl1 \<and> is_accessor (slot_attrs sl1) then
         do { ac \<leftarrow> slot_accessor h1 sl1;
              call_setter call (setter ac) (encode_object_value o1) val (encode_object_value o1) sl1 h1 }
       else
         attempt (define_own_non_indexed_property_slot o1 name
             (data_descriptor val (WRITABLE OR CONFIGURABLE OR ENUMERABLE)) sl1 throwable h1)
           (\<lambda>(r, sl2). ret sl2) }"

definition put_indexed_slot ::
  "call_fun \<Rightarrow> u64 \<Rightarrow> nat \<Rightarrow> js_value \<Rightarrow> slot \<Rightarrow> bool \<Rightarrow> heap \<Rightarrow> slot outcome" where
  "put_indexed_slot call o1 index val sl throwable h =
     do {
       ob \<leftarrow> objs h o1;
       proto \<leftarrow> object_prototype h o1;
       fast \<leftarrow> (if index < MAX_VECTOR_SIZE \<and> is_dense (ob_indexed ob)
                then (case proto of None \<Rightarrow> Some True | Some p \<Rightarrow> has_indexed_property p h)
                else Some False);
       if fast then
         do { h1 \<leftarrow> define_own_indexed_value_dense_internal o1 index val False h;
              ret (mark_put_result PutIndexedOptimized (word_of_nat index) sl) h1 }
       else do {
         (ok, sl1, h1) \<leftarrow> can_put_indexed o1 index sl h;
         if \<not> ok then reject_or throwable ''put failed'' sl1 h1
         else if \<not> slot_is_not_found sl1 \<and> slot_base sl1 = Some o1 \<and> is_data (slot_attrs sl1) then
           attempt (define_own_indexed_property_slot o1 index
               (data_descriptor val (UNDEF_ENUMERABLE OR UNDEF_CONFIGURABLE OR UNDEF_WRITABLE)) sl1 throwable h1)
             (\<lambda>(r, sl2). ret sl2)
         else if \<not> slot_is_not_found sl1 \<and> is_accessor (slot_attrs sl1) then
           do { ac \<leftarrow> slot_accessor h1 sl1;
                call_setter call (setter ac) (encode_object_value o1) val (setter ac) sl1 h1 }
         else
           attempt (define_own_indexed_property_slot o1 index
               (data_descriptor val (WRITABLE OR ENUMERABLE OR CONFIGURABLE)) sl1 throwable h1)
             (\<lambda>(r, sl2). ret sl2) } }"

definition put_slot :: "call_fun \<Rightarrow> u64 \<Rightarrow> symbol \<Rightarrow> js_value \<Rightarrow> slot \<Rightarrow> bool \<Rightarrow> heap \<Rightarrow> slot outcome" where
  "put_slot call o1 name val sl throwable h =
     (case name of Index i \<Rightarrow> put_indexed_slot call o1 (unat i) val sl throwable h
      | _ \<Rightarrow> put_non_indexed_slot call o1 name val sl throwable h)"
definition object_put :: "call_fun \<Rightarrow> u64 \<Rightarrow> symbol \<Rightarrow> js_value \<Rightarrow> bool \<Rightarrow> heap \<Rightarrow> unit outcome" where
  "object_put call o1 name val throwable h =
     attempt (put_slot call o1 name val slot_new throwable h) (\<lambda>sl. ret ())"

section \<open>[[Delete]]\<close>

definition delete_non_indexed :: "u64 \<Rightarrow> symbol \<Rightarrow> bool \<Rightarrow> heap \<Rightarrow> bool outcome" where
  "delete_non_indexed o1 name throwable h =
     do {
       (found, sl, h1) \<leftarrow> get_own_property_slot o1 name slot_new h;
       if \<not> found then ret True h1
       else if \<not> is_configurable (slot_attrs sl) then
         reject_or throwable ''Can not delete non configurable property'' False h1
       else do {
         ob \<leftarrow> objs h1 o1;
         (entry, h2) \<leftarrow>
           (if slot_has_offset sl then Some (Some (unat (slot_offset sl)), h1)
            else do { (e, h2) \<leftarrow> structure_get (ob_struct ob) name h1;
                      Some (if entry_is_not_found e then None else Some (me_offset e), h2) });
         (case entry of
            None \<Rightarrow> ret True h2
          | Some off \<Rightarrow>
              do {
                (j, h3) \<leftarrow> delete_property_transition (ob_struct ob) name h2;
                h4 \<leftarrow> set_structure o1 j h3;
                h5 \<leftarrow> direct_put o1 off encode_empty_value h4;
                ret True h5 }) } }"

definition delete_indexed_internal :: "u64 \<Rightarrow> nat \<Rightarrow> bool \<Rightarrow> heap \<Rightarrow> bool outcome" where
  "delete_indexed_internal o1 index throwable h =
     do {
       ob \<leftarrow> objs h o1;
       let ie = ob_indexed ob;
       if ie_length ie \<le> index then ret True h
       else if is_dense ie \<and> index < as_size (ie_vector ie) then
         do { v \<leftarrow> storage_put index encode_empty_value (ie_vector ie);
              h1 \<leftarrow> set_elements o1 (ie\<lparr>ie_vector := v\<rparr>) h;
              ret True h1 }
       else if is_dense ie \<and> index < MAX_VECTOR_SIZE then ret True h
       else
         (case ie_map ie of
            None \<Rightarrow> ret True h
          | Some m \<Rightarrow>
              (case map_of m index of
                 None \<Rightarrow> ret True h
               | Some x \<Rightarrow>
                   if \<not> is_configurable (slot_attrs x) then
                     reject_or throwable ''trying to delete non-configurable property'' False h
                   else
                     (let m' = AList.delete index m; ie1 = ie\<lparr>ie_map := Some m'\<rparr>;
                          ie2 = (if m' = [] then make_dense ie1 else ie1)
                      in do { h1 \<leftarrow> set_elements o1 ie2 h; ret True h1 }))) }"

definition object_delete :: "u64 \<Rightarrow> symbol \<Rightarrow> bool \<Rightarrow> heap \<Rightarrow> bool outcome" where
  "object_delete o1 name throwable h =
     (case name of Index i \<Rightarrow> delete_indexed_internal o1 (unat i) throwable h
      | _ \<Rightarrow> delete_non_indexed o1 name throwable h)"

section \<open>Names, extensibility, freezing\<close>

definition own_property_names :: "u64 \<Rightarrow> bool \<Rightarrow> heap \<Rightarrow> (symbol list \<times> heap) panics" where
  "own_property_names o1 include h =
     do {
       ob \<leftarrow> objs h o1;
       let ie = ob_indexed ob;
       let vs = storage_elems (ie_vector ie);
       let dense = (if is_dense ie
          then map (\<lambda>i. Index (word_of_nat i)) (filter (\<lambda>i. \<not> is_empty (vs ! i)) [0..<length vs]) else []);
       let sparse = (case ie_map ie of None \<Rightarrow> []
          | Some m \<Rightarrow> map (\<lambda>(i, s). Index (word_of_nat i))
              (filter (\<lambda>(i, s). include \<or> is_enumerable (slot_attrs s)) m));
       (names, h1) \<leftarrow> get_own_property_names (ob_struct ob) include h;
       Some (dense @ sparse @ map fst names, h1) }"

definition change_extensible :: "u64 \<Rightarrow> bool \<Rightarrow> heap \<Rightarrow> heap panics" where
  "change_extensible o1 val h =
     do {
       ob \<leftarrow> objs h o1;
       let fl = (if val then ob_flags ob OR OBJ_FLAG_EXTENSIBLE else ob_flags ob AND NOT OBJ_FLAG_EXTENSIBLE);
       (j, h1) \<leftarrow> change_extensible_transition (ob_struct ob) h;
       Some (set_obj o1 (ob\<lparr>ob_flags := fl, ob_struct := j, ob_indexed := make_sparse (ob_indexed ob)\<rparr>) h1) }"

text \<open>The loops of \<open>freeze\<close> and \<open>seal\<close> over the own names.\<close>

fun redefine_all ::
  "(property_descriptor \<Rightarrow> property_descriptor) \<Rightarrow> u64 \<Rightarrow> symbol list \<Rightarrow> heap \<Rightarrow> unit outcome" where
  "redefine_all f o1 [] h = ret () h"
| "redefine_all f o1 (name # names) h =
     do {
       (d, h1) \<leftarrow> get_own_property o1 name h;
       desc \<leftarrow> d;
       attempt (define_own_property o1 name (f desc) True h1) (\<lambda>_. redefine_all f o1 names) }"

definition freeze_desc :: "property_descriptor \<Rightarrow> property_descriptor" where
  "freeze_desc desc =
     (let d1 = (if is_data (desc_attrs desc) then set_writable False (desc_attrs desc) else desc_attrs desc);
          d2 = (if is_configurable d1 then set_configurable False d1 else d1)
      in desc\<lparr>desc_attrs := d2\<rparr>)"
definition seal_desc :: "property_descriptor \<Rightarrow> property_descriptor" where
  "seal_desc desc =
     (if is_configurable (desc_attrs desc) then desc\<lparr>desc_attrs := set_configurable False (desc_attrs desc)\<rparr> else desc)"

definition freeze :: "u64 \<Rightarrow> heap \<Rightarrow> bool outcome" where
  "freeze o1 h =
     do {
       (names, h1) \<leftarrow> own_property_names o1 True h;
       attempt (redefine_all freeze_desc o1 names h1)
         (\<lambda>_ h2. do { h3 \<leftarrow> change_extensible o1 False h2; ret True h3 }) }"
definition seal :: "u64 \<Rightarrow> heap \<Rightarrow> bool outcome" where
  "seal o1 h =
     do {
       (names, h1) \<leftarrow> own_property_names o1 True h;
       attempt (redefine_all seal_desc o1 names h1)
         (\<lambda>_ h2. do { h3 \<leftarrow> change_extensible o1 False h2; ret True h3 }) }"

section \<open>New objects\<close>

definition object_new :: "nat \<Rightarrow> heap \<Rightarrow> (u64 \<times> heap) panics" where
  "object_new i h =
     do {
       s \<leftarrow> structs h i;
       let cap = as_u32 (storage_capacity h s);
       sl \<leftarrow> storage_with_size cap cap;
       let p = cell_addr (next_cell h);
       Some (p, (set_obj p \<lparr>ob_struct = i, ob_slots = sl, ob_indexed = elements_new,
                            ob_flags = OBJ_FLAG_EXTENSIBLE\<rparr> h)\<lparr>next_cell := next_cell h + 1\<rparr>) }"

end
