(* ===== verification/Object_View.thy ===== *)
theory Object_View
  imports Js_Object
begin

text \<open>
  What the internal methods of theory \<open>Js_Object\<close> do to the own properties of an object.
  \<open>own_props\<close> is the abstract view: the named own properties with their values and attributes.
\<close>

section \<open>Structure operations leave the rest of the heap alone\<close>

definition same_rest :: "heap \<Rightarrow> heap \<Rightarrow> bool" where
  "same_rest h h' \<longleftrightarrow>
     jsstrings h' = jsstrings h \<and> jssymbols h' = jssymbols h \<and> accessors h' = accessors h \<and>
     next_cell h' = next_cell h \<and> objs h' = objs h"

lemma same_rest_refl [simp]: "same_rest h h"
  by (simp add: same_rest_def)

lemma same_rest_trans: "same_rest h h1 \<Longrightarrow> same_rest h1 h2 \<Longrightarrow> same_rest h h2"
  by (simp add: same_rest_def)

lemma same_rest_prims [simp]:
  "same_rest h (set_struct i s h)" "same_rest h (set_table t tb h)"
  "same_rest h (snd (alloc_struct s h))" "same_rest h (snd (alloc_table tb h))"
  by (simp_all add: same_rest_def shape_ops)

lemma rest_ctor: "ctor p u h = Some (j, h') \<Longrightarrow> same_rest h h'"
  by (auto simp: ctor_def bind_eq_Some_conv Let_def alloc_struct_def same_rest_def)

lemma rest_allocate: "allocate_table i h = Some h' \<Longrightarrow> same_rest h h'"
  by (auto simp: allocate_table_def bind_eq_Some_conv alloc_table_def set_struct_def same_rest_def
      split: prod.splits)

lemma rest_ensure: "ensure_table i h = Some h' \<Longrightarrow> same_rest h h'"
  by (auto simp: ensure_table_def bind_eq_Some_conv rest_allocate split: if_splits)

lemma rest_get: "structure_get i name h = Some (e, h') \<Longrightarrow> same_rest h h'"
  by (auto simp: structure_get_def bind_eq_Some_conv rest_allocate Let_def split: if_splits)

lemma rest_target: "unique_target i h = Some (j, h') \<Longrightarrow> same_rest h h'"
  by (auto simp: unique_target_def bind_eq_Some_conv new_unique_def rest_ctor split: if_splits)

lemma rest_delete: "delete_property_transition i name h = Some (j, h') \<Longrightarrow> same_rest h h'"
  by (auto simp: delete_property_transition_def structure_delete_def bind_eq_Some_conv new_unique_def
      dest!: rest_ctor rest_ensure)
    (auto simp: same_rest_def shape_ops)

lemma rest_attrs: "change_attributes_transition i name a h = Some (j, h') \<Longrightarrow> same_rest h h'"
  by (auto simp: change_attributes_transition_def change_attributes_def bind_eq_Some_conv new_unique_def
      dest!: rest_ctor rest_ensure)
    (auto simp: same_rest_def shape_ops)

lemma rest_add_unique: "add_property_unique i name a h = Some (j, off, h') \<Longrightarrow> same_rest h h'"
  by (auto simp: add_property_unique_def bind_eq_Some_conv dest!: rest_target rest_ensure split: if_splits)
    (auto simp: same_rest_def shape_ops)

lemma rest_add: "add_property_transition i name a h = Some (j, off, h') \<Longrightarrow> same_rest h h'"
proof -
  have new: "same_rest h h'" if "add_property_new i name a h = Some (j, off, h')"
    using that
    by (auto simp: add_property_new_def new_shape_def bind_eq_Some_conv Let_def dest!: rest_ctor split: if_splits)
      (auto simp: same_rest_def shape_ops)
  show "add_property_transition i name a h = Some (j, off, h') \<Longrightarrow> same_rest h h'"
    by (auto simp: add_property_transition_def bind_eq_Some_conv new_unique_def
        dest!: rest_ctor rest_add_unique new split: if_splits option.splits intro: same_rest_trans)
qed

lemma rest_indexed: "change_indexed_transition i h = Some (j, h') \<Longrightarrow> same_rest h h'"
  by (auto simp: change_indexed_transition_def change_indexed_unique_def bind_eq_Some_conv new_unique_def
      dest!: rest_ctor rest_target split: if_splits)
    (auto simp: same_rest_def shape_ops)

section \<open>The own properties of an object\<close>

definition own_props :: "heap \<Rightarrow> u64 \<Rightarrow> symbol \<Rightarrow> stored_slot option" where
  "own_props h o1 name =
     (case objs h o1 of
        None \<Rightarrow> None
      | Some ob \<Rightarrow>
          (case shape_map h (ob_struct ob) of
             None \<Rightarrow> None
           | Some m \<Rightarrow>
               map_option (\<lambda>e. \<lparr>slot_value = storage_elems (ob_slots ob) ! me_offset e, slot_attrs = me_attrs e\<rparr>)
                 (m name)))"

text \<open>A well-formed object: its structure is tight, its slots hold all the offsets, all its
  attributes are in the stored form and its accessor properties have their cells.\<close>

definition object_ok :: "heap \<Rightarrow> u64 \<Rightarrow> bool" where
  "object_ok h o1 \<longleftrightarrow>
     shapes_wf h \<and>
     (\<exists>ob s m. objs h o1 = Some ob \<and> structs h (ob_struct ob) = Some s \<and> shape_map h (ob_struct ob) = Some m \<and>
        tight h (ob_struct ob) \<and> storage_ok (ob_slots ob) \<and>
        (\<forall>k e. m k = Some e \<longrightarrow> me_offset e < as_size (ob_slots ob))) \<and>
     (\<forall>name st. own_props h o1 name = Some st \<longrightarrow> slot_wf h st)"

lemma object_okE:
  assumes "object_ok h o1"
  obtains ob s m where "shapes_wf h" "objs h o1 = Some ob" "structs h (ob_struct ob) = Some s"
    "shape_map h (ob_struct ob) = Some m" "tight h (ob_struct ob)" "storage_ok (ob_slots ob)"
    "\<And>k e. m k = Some e \<Longrightarrow> me_offset e < as_size (ob_slots ob)"
    "\<And>name st. own_props h o1 name = Some st \<Longrightarrow> slot_wf h st"
  using assms unfolding object_ok_def by blast

lemma object_okI:
  assumes "shapes_wf h" "objs h o1 = Some ob" "structs h (ob_struct ob) = Some s" "shape_map h (ob_struct ob) = Some m"
    "tight h (ob_struct ob)" "storage_ok (ob_slots ob)" "\<And>k e. m k = Some e \<Longrightarrow> me_offset e < as_size (ob_slots ob)"
    "\<And>name st. own_props h o1 name = Some st \<Longrightarrow> slot_wf h st"
  shows "object_ok h o1"
  using assms unfolding object_ok_def by blast

lemma own_props_eq:
  "objs h o1 = Some ob \<Longrightarrow> shape_map h (ob_struct ob) = Some m \<Longrightarrow>
   own_props h o1 name = map_option (\<lambda>e. \<lparr>slot_value = storage_elems (ob_slots ob) ! me_offset e, slot_attrs = me_attrs e\<rparr>) (m name)"
  by (simp add: own_props_def)

lemma stored_found: "is_stored a \<Longrightarrow> \<not> is_not_found a"
  using stored_bits(1) [of a] by (auto simp: flag_simps)

text \<open>Names of named properties: not indices, and not the marker of a structure that adds nothing.\<close>

definition named :: "symbol \<Rightarrow> bool" where
  "named name \<longleftrightarrow> name \<noteq> DUMMY_SYMBOL \<and> (case name of Index i \<Rightarrow> False | _ \<Rightarrow> True)"

text \<open>Heaps that look the same: lookups only move between them.\<close>

definition same_view :: "heap \<Rightarrow> heap \<Rightarrow> bool" where
  "same_view h h' \<longleftrightarrow>
     same_rest h h' \<and> (\<forall>k. shape_map h' k = shape_map h k) \<and> own_props h' = own_props h \<and>
     (\<forall>p. object_ok h p \<longrightarrow> object_ok h' p)"

lemma slot_wf_rest: "same_rest h h' \<Longrightarrow> slot_wf h' s = slot_wf h s"
  by (simp add: slot_wf_def slot_accessor_def same_rest_def)

lemma same_viewI:
  assumes "same_rest h h'" "shapes_wf h'" "\<forall>k. shape_map h' k = shape_map h k" "\<forall>k. tight h k \<longrightarrow> tight h' k"
  shows "same_view h h'"
proof -
  have own: "own_props h' = own_props h"
  proof -
    have "shape_map h' = shape_map h" using assms(3) by auto
    moreover have "objs h' = objs h" using assms(1) by (simp add: same_rest_def)
    ultimately show ?thesis by (intro ext) (simp add: own_props_def split: option.split)
  qed
  have "object_ok h' p" if "object_ok h p" for p
  proof (rule object_okE [OF that])
    fix ob s m
    assume ok: "objs h p = Some ob" "shape_map h (ob_struct ob) = Some m" "tight h (ob_struct ob)"
      "storage_ok (ob_slots ob)" "\<And>k e. m k = Some e \<Longrightarrow> me_offset e < as_size (ob_slots ob)"
      "\<And>name st. own_props h p name = Some st \<Longrightarrow> slot_wf h st"
    have t: "tight h' (ob_struct ob)" using assms(4) ok(3) by blast
    then obtain s' where s': "structs h' (ob_struct ob) = Some s'" by (auto simp: tight_def)
    show ?thesis
    proof (rule object_okI [OF assms(2) _ s' _ t ok(4)])
      show "objs h' p = Some ob" using assms(1) ok(1) by (simp add: same_rest_def)
      show "shape_map h' (ob_struct ob) = Some m" using assms(3) ok(2) by simp
      show "me_offset e < as_size (ob_slots ob)" if "m k = Some e" for k e using ok(5) that .
      show "slot_wf h' st" if "own_props h' p name = Some st" for name st
        using ok(6) [of name st] that own slot_wf_rest [OF assms(1), of st] by simp
    qed
  qed
  with own assms(1,3) show ?thesis by (simp add: same_view_def)
qed


lemma same_view_refl [simp]: "same_view h h"
  by (simp add: same_view_def)

lemma same_viewD:
  assumes "same_view h h'"
  shows "objs h' = objs h" "own_props h' = own_props h" "object_ok h p \<Longrightarrow> object_ok h' p" "same_rest h h'"
    "shape_map h' k = shape_map h k"
  using assms by (auto simp: same_view_def same_rest_def)

lemma same_view_trans: "same_view h h1 \<Longrightarrow> same_view h1 h2 \<Longrightarrow> same_view h h2"
  using same_rest_trans by (auto simp: same_view_def)

section \<open>Own lookup\<close>

lemma named_dispatch:
  "named name \<Longrightarrow> (case name of Index i \<Rightarrow> f i | _ \<Rightarrow> g) = g"
  by (cases name) (simp_all add: named_def)

text \<open>What the lookup leaves in the slot it is given.\<close>

definition found_slot :: "u64 \<Rightarrow> nat \<Rightarrow> stored_slot \<Rightarrow> slot \<Rightarrow> slot" where
  "found_slot o1 off st sl = slot_set_woffset (slot_value st) (slot_attrs st) (Some o1) (word_of_nat off) sl"

lemma found_slot_simps [simp]:
  "slot_value (found_slot o1 off st sl) = slot_value st" "slot_attrs (found_slot o1 off st sl) = slot_attrs st"
  "slot_base (found_slot o1 off st sl) = Some o1" "slot_offset (found_slot o1 off st sl) = word_of_nat off"
  by (simp_all add: found_slot_def slot_op_defs)

definition own_offset :: "heap \<Rightarrow> u64 \<Rightarrow> symbol \<Rightarrow> nat" where
  "own_offset h o1 name =
     (case objs h o1 of None \<Rightarrow> 0 | Some ob \<Rightarrow>
        (case shape_map h (ob_struct ob) of None \<Rightarrow> 0 | Some m \<Rightarrow> slot_of m name))"

lemma own_lookup:
  assumes ok: "object_ok h o1"
  shows "\<exists>h'. get_own_non_indexed_property_slot o1 name sl h =
      Some (case own_props h o1 name of None \<Rightarrow> (False, sl, h')
        | Some st \<Rightarrow> (True, found_slot o1 (own_offset h o1 name) st sl, h')) \<and>
    same_view h h' \<and> shapes_wf h'"
proof -
  obtain ob s m where o: "shapes_wf h" "objs h o1 = Some ob" "structs h (ob_struct ob) = Some s"
    "shape_map h (ob_struct ob) = Some m" "storage_ok (ob_slots ob)"
    "\<And>k e. m k = Some e \<Longrightarrow> me_offset e < as_size (ob_slots ob)"
    "\<And>name st. own_props h o1 name = Some st \<Longrightarrow> slot_wf h st"
    using object_okE [OF ok] by metis
  obtain h' where g: "shapes_wf h'"
    "structure_get (ob_struct ob) name h = Some (case m name of Some e \<Rightarrow> e | None \<Rightarrow> entry_not_found, h')"
    "\<forall>k. shape_map h' k = shape_map h k" "\<forall>k. tight h k \<longrightarrow> tight h' k"
    using structure_get_spec [OF o(1,3), of name] o(4) by auto
  have v: "same_view h h'" by (rule same_viewI [OF rest_get [OF g(2)] g(1,3,4)])
  have p: "own_props h o1 name =
      map_option (\<lambda>e. \<lparr>slot_value = storage_elems (ob_slots ob) ! me_offset e, slot_attrs = me_attrs e\<rparr>) (m name)"
    by (rule own_props_eq [OF o(2,4)])
  show ?thesis
  proof (cases "m name")
    case None
    with g v o(2) p show ?thesis
      by (simp add: get_own_non_indexed_property_slot_def entry_is_not_found_def entry_not_found_def flag_simps)
  next
    case (Some e)
    then have "is_stored (me_attrs e)" using o(7) [of name] p by (simp add: slot_wf_def)
    then have "\<not> entry_is_not_found e" by (simp add: entry_is_not_found_def stored_found)
    moreover have "own_offset h o1 name = me_offset e" by (simp add: own_offset_def o(2,4) slot_of_def Some)
    ultimately show ?thesis
      using g v o(2,5) p Some o(6) [OF Some]
      by (simp add: get_own_non_indexed_property_slot_def direct_def storage_at_eq found_slot_def)
  qed
qed


lemma own_lookup_slot:
  assumes "object_ok h o1" "named name"
  shows "\<exists>h'. get_own_property_slot o1 name sl h =
      Some (case own_props h o1 name of None \<Rightarrow> (False, sl, h')
        | Some st \<Rightarrow> (True, found_slot o1 (own_offset h o1 name) st sl, h')) \<and>
    same_view h h' \<and> shapes_wf h'"
  using own_lookup [OF assms(1)] assms(2) by (simp add: get_own_property_slot_def named_dispatch)

text \<open>
  C9. [[GetOwnProperty]] of a named property is correct: on a well-formed object it never panics,
  answers whether the object has the property, and fills the slot with its value, its attributes,
  the object itself and the property's offset; and it changes no object's properties, though it
  may build a property table.
\<close>

theorem get_own_property_slot_correct:
  assumes "object_ok h o1" "named name"
  shows "\<exists>found sl' h'. get_own_property_slot o1 name sl h = Some (found, sl', h') \<and>
    own_props h' = own_props h \<and> (\<forall>p. object_ok h p \<longrightarrow> object_ok h' p) \<and>
    (case own_props h o1 name of
       None \<Rightarrow> \<not> found \<and> sl' = sl
     | Some st \<Rightarrow> found \<and> slot_value sl' = slot_value st \<and> slot_attrs sl' = slot_attrs st \<and>
         slot_base sl' = Some o1 \<and> slot_offset sl' = word_of_nat (own_offset h o1 name))"
proof -
  obtain h' where "same_view h h'" "get_own_property_slot o1 name sl h =
      Some (case own_props h o1 name of None \<Rightarrow> (False, sl, h')
        | Some st \<Rightarrow> (True, found_slot o1 (own_offset h o1 name) st sl, h'))"
    using own_lookup_slot [OF assms] by blast
  then show ?thesis using same_viewD by (cases "own_props h o1 name") auto
qed

section \<open>Adding a property\<close>

text \<open>What a method does to one object: the new heap and the new properties.\<close>

lemma set_obj_simps [simp]:
  "objs (set_obj o1 ob h) = (objs h)(o1 \<mapsto> ob)" "structs (set_obj o1 ob h) = structs h"
  "tables (set_obj o1 ob h) = tables h" "next_struct (set_obj o1 ob h) = next_struct h"
  "next_table (set_obj o1 ob h) = next_table h" "accessors (set_obj o1 ob h) = accessors h"
  "next_cell (set_obj o1 ob h) = next_cell h"
  by (simp_all add: set_obj_def)

definition same_shapes :: "'g shapes_scheme \<Rightarrow> 'g shapes_scheme \<Rightarrow> bool" where
  "same_shapes h h' \<longleftrightarrow>
     structs h' = structs h \<and> tables h' = tables h \<and> next_struct h' = next_struct h \<and> next_table h' = next_table h"

lemma same_shapes_map_le:
  assumes "shape_map h i = Some m"
  shows "\<forall>h'. same_shapes h h' \<longrightarrow> shape_map h' i = Some m"
proof (rule shape_map.raw_induct [OF _ assms])
  fix f h i m
  assume IH: "\<And>h i m. f h i = Some m \<Longrightarrow> \<forall>h'. same_shapes h h' \<longrightarrow> shape_map h' i = Some m"
    and eq: "(case structs h i of None \<Rightarrow> None
      | Some s \<Rightarrow> (case st_table s of Some t \<Rightarrow> Some (map_of (table_of h t))
          | None \<Rightarrow> (case st_previous s of None \<Rightarrow> Some Map.empty
                | Some p \<Rightarrow> Option.bind (f h p)
                    (\<lambda>m. Some (if is_adding_map s then m(fst (st_added s) \<mapsto> snd (st_added s)) else m))))) = Some m"
  show "\<forall>h'. same_shapes h h' \<longrightarrow> shape_map h' i = Some m"
  proof (intro allI impI)
    fix h' assume same: "same_shapes h h'"
    then have st: "structs h' i = structs h i" "\<And>t. table_of h' t = table_of h t"
      by (simp_all add: same_shapes_def table_of_def)
    obtain s where s: "structs h i = Some s" using eq by (cases "structs h i") simp_all
    have IH': "shape_map h' p = Some n" if "f h p = Some n" for p n using IH [OF that] same by blast
    show "shape_map h' i = Some m"
    proof (cases "st_table s")
      case (Some t)
      with eq s st show ?thesis by (subst shape_map.simps) simp
    next
      case None
      show ?thesis
      proof (cases "st_previous s")
        case None
        with \<open>st_table s = None\<close> eq s st show ?thesis by (subst shape_map.simps) simp
      next
        case (Some p)
        then obtain n where "f h p = Some n" "(if is_adding_map s then n(fst (st_added s) \<mapsto> snd (st_added s)) else n) = m"
          using \<open>st_table s = None\<close> eq s by (cases "f h p") simp_all
        with Some IH' \<open>st_table s = None\<close> s st show ?thesis by (subst shape_map.simps) simp
      qed
    qed
  qed
qed

lemma same_shapes_sym: "same_shapes h h' \<Longrightarrow> same_shapes h' h"
  by (simp add: same_shapes_def)

lemma same_shapes_map:
  assumes "same_shapes h h'"
  shows "shape_map h' = shape_map h"
proof
  fix i
  show "shape_map h' i = shape_map h i"
  proof (cases "shape_map h i")
    case (Some m)
    with same_shapes_map_le [OF Some] assms show ?thesis by auto
  next
    case None
    show ?thesis
    proof (cases "shape_map h' i")
      case (Some m)
      from same_shapes_map_le [OF Some] same_shapes_sym [OF assms] have "shape_map h i = Some m" by blast
      with None show ?thesis by simp
    qed (use None in simp)
  qed
qed

lemma same_shapes_facts:
  assumes "same_shapes h h'"
  shows "get_slots_size h' = get_slots_size h" "tight h' = tight h" "shapes_wf h' = shapes_wf h"
    "storage_capacity h' = storage_capacity h"
proof -
  note m = same_shapes_map [OF assms]
  have "table_of h' = table_of h" using assms by (simp add: same_shapes_def table_of_def fun_eq_iff)
  then show g: "get_slots_size h' = get_slots_size h"
    by (intro ext) (simp add: get_slots_size_def split: option.split)
  show t: "tight h' = tight h"
    using assms by (intro ext) (simp add: tight_def g m same_shapes_def)
  show "storage_capacity h' = storage_capacity h"
    by (intro ext) (simp add: storage_capacity_def g)
  show "shapes_wf h' = shapes_wf h"
    using assms
    by (simp add: shapes_wf_def links_ok_def sharing_ok_def adding_ok_def transitions_ok_def counts_ok_def
        tight_ok_def t m same_shapes_def)
qed

end
