(* ===== verification/Object_Props.thy ===== *)
theory Object_Props
  imports Object_View
begin

text \<open>
  What defining and deleting a named property do to the own properties of an object (vm/object.rs):
  on every branch of [[DefineOwnProperty]] and [[Delete]], the new properties are the old ones
  with the one change the method is for, and the object stays well formed.
\<close>

section \<open>Objects and their shapes\<close>

definition fits :: "heap \<Rightarrow> js_object \<Rightarrow> (symbol \<Rightarrow> map_entry option) \<Rightarrow> bool" where
  "fits h ob m \<longleftrightarrow>
     shape_map h (ob_struct ob) = Some m \<and> tight h (ob_struct ob) \<and> storage_ok (ob_slots ob) \<and>
     (\<forall>k e. m k = Some e \<longrightarrow> me_offset e < as_size (ob_slots ob))"

definition read_slots :: "js_object \<Rightarrow> (symbol \<Rightarrow> map_entry option) \<Rightarrow> symbol \<Rightarrow> stored_slot option" where
  "read_slots ob m name =
     map_option (\<lambda>e. \<lparr>slot_value = storage_elems (ob_slots ob) ! me_offset e, slot_attrs = me_attrs e\<rparr>) (m name)"

text \<open>The number of slots of an object's structure.\<close>

definition own_slots :: "heap \<Rightarrow> u64 \<Rightarrow> nat" where
  "own_slots h o1 =
     (case objs h o1 of None \<Rightarrow> 0 | Some ob \<Rightarrow>
        (case structs h (ob_struct ob) of None \<Rightarrow> 0 | Some s \<Rightarrow> get_slots_size h s))"

lemma own_props_fits: "objs h o1 = Some ob \<Longrightarrow> fits h ob m \<Longrightarrow> own_props h o1 = read_slots ob m"
  by (intro ext) (simp add: fits_def own_props_eq read_slots_def)

lemma object_ok_fits:
  "object_ok h o1 \<longleftrightarrow> shapes_wf h \<and> (\<exists>ob m. objs h o1 = Some ob \<and> fits h ob m) \<and>
     (\<forall>name st. own_props h o1 name = Some st \<longrightarrow> slot_wf h st)"
proof -
  have "tight h i \<Longrightarrow> \<exists>s. structs h i = Some s" for i by (auto simp: tight_def)
  then show ?thesis unfolding object_ok_def fits_def by blast
qed

lemma fits_structs: "fits h ob m \<Longrightarrow> \<exists>s. structs h (ob_struct ob) = Some s"
  by (auto simp: fits_def tight_def)

lemma fits_inj:
  assumes "fits h ob m" "m k = Some e" "m k' = Some e'" "me_offset e = me_offset e'"
  shows "k = k'"
proof -
  have "inj_on (slot_of m) (dom m)" using assms(1) by (auto simp: fits_def tight_def bij_betw_def)
  moreover have "slot_of m k = slot_of m k'" using assms by (simp add: slot_of_def)
  ultimately show ?thesis using assms(2,3) by (auto dest: inj_onD)
qed

lemma fits_shapes: "same_shapes h h' \<Longrightarrow> fits h' ob m = fits h ob m"
  by (simp add: fits_def same_shapes_map same_shapes_facts)

lemma same_shapes_set [simp]: "same_shapes h (set_obj o1 ob h)"
  by (simp add: same_shapes_def)

lemma same_shapes_shared:
  assumes "same_shapes h h'"
  shows "shared_kept h h'"
  using assms unfolding shared_kept_def same_shapes_map [OF assms] same_shapes_def by simp

text \<open>What a change of one object must not do to the others: their cells stay, and those that have a
  structure which is shared (not unique) keep their properties.\<close>

definition others_kept :: "heap \<Rightarrow> u64 \<Rightarrow> heap \<Rightarrow> bool" where
  "others_kept h o1 h' \<longleftrightarrow>
     (\<forall>p. p \<noteq> o1 \<longrightarrow> objs h' p = objs h p \<and>
        (\<forall>ob s. objs h p = Some ob \<and> structs h (ob_struct ob) = Some s \<and> \<not> is_unique s \<longrightarrow>
           own_props h' p = own_props h p))"

lemma others_keptI:
  assumes "shared_kept h h'" "\<And>p. p \<noteq> o1 \<Longrightarrow> objs h' p = objs h p"
  shows "others_kept h o1 h'"
proof -
  have "own_props h' p = own_props h p"
    if "p \<noteq> o1" "objs h p = Some ob" "structs h (ob_struct ob) = Some s" "\<not> is_unique s" for p ob s
  proof -
    have "shape_map h' (ob_struct ob) = shape_map h (ob_struct ob)"
      using assms(1) that(3,4) by (simp add: shared_kept_def)
    then show ?thesis using assms(2) [OF that(1)] that(2) by (intro ext) (simp add: own_props_def)
  qed
  with assms(2) show ?thesis unfolding others_kept_def by blast
qed

lemma rest_cells: "same_rest h h' \<Longrightarrow> accessors h' = accessors h \<and> next_cell h' = next_cell h \<and> objs h' = objs h"
  by (simp add: same_rest_def)

lemma slot_wf_cells: "accessors h' = accessors h \<Longrightarrow> slot_wf h' s = slot_wf h s"
  by (simp add: slot_wf_def slot_accessor_def)

section \<open>Adding a property\<close>

lemma add_own_slot_spec:
  assumes wf: "shapes_wf h" and ob: "objs h o1 = Some ob" and fits: "fits h ob m"
    and new: "m name = None" "name \<noteq> DUMMY_SYMBOL" and room: "own_slots h o1 < 2 ^ 27"
  shows "\<exists>off h' ob' e. add_own_slot o1 name attrs v h = Some (off, h') \<and> shapes_wf h' \<and> shared_kept h h' \<and>
    objs h' = (objs h)(o1 \<mapsto> ob') \<and> accessors h' = accessors h \<and> next_cell h' = next_cell h \<and>
    fits h' ob' (m(name \<mapsto> e)) \<and> read_slots ob' (m(name \<mapsto> e)) = (read_slots ob m)(name \<mapsto> \<lparr>slot_value = v, slot_attrs = attrs\<rparr>) \<and>
    ob' = ob\<lparr>ob_struct := ob_struct ob', ob_slots := ob_slots ob'\<rparr>"
proof -
  obtain s where s: "structs h (ob_struct ob) = Some s" using fits_structs [OF fits] by blast
  have m: "shape_map h (ob_struct ob) = Some m" "tight h (ob_struct ob)" "storage_ok (ob_slots ob)"
    "\<And>k e. m k = Some e \<Longrightarrow> me_offset e < as_size (ob_slots ob)"
    using fits by (auto simp: fits_def)
  have size: "get_slots_size h s < 2 ^ 27" using room ob s by (simp add: own_slots_def)
  then have "get_slots_size h s + 1 < 2 ^ 32" by simp
  from add_property_spec [OF wf s m(2,1) new this, of attrs]
  obtain j off h1 js where a: "add_property_transition (ob_struct ob) name attrs h = Some (j, off, h1)"
    "shapes_wf h1" "shape_map h1 j = Some (m(name \<mapsto> \<lparr>me_offset = off, me_attrs = attrs\<rparr>))"
    "off \<notin> slot_of m ` dom m" "tight h1 j" "structs h1 j = Some js" "off < get_slots_size h1 js"
    "get_slots_size h1 js \<le> get_slots_size h s + 1" "shared_kept h h1"
    by metis
  let ?e = "\<lparr>me_offset = off, me_attrs = attrs\<rparr>"
  note r = rest_cells [OF rest_add [OF a(1)]]
  have o1: "objs h1 o1 = Some ob" using r ob by simp
  let ?h2 = "set_obj o1 (ob\<lparr>ob_struct := j\<rparr>) h1"
  let ?cap = "storage_capacity h1 js"
  have cap: "get_slots_size h1 js \<le> ?cap" "?cap \<le> max_elements"
  proof -
    have b: "get_slots_size h1 js \<le> 2 ^ 32" using a(8) size by simp
    note c = storage_capacity_bounds [OF b]
    show "get_slots_size h1 js \<le> ?cap" using c by blast
    have "?cap < 2 ^ 28 + 8"
    proof (cases "8 \<le> get_slots_size h1 js")
      case True
      with c have "?cap < 2 * get_slots_size h1 js" by blast
      with a(8) size show ?thesis by simp
    qed (auto simp: storage_capacity_def Let_def)
    then show "?cap \<le> max_elements" by (simp add: max_elements_def)
  qed
  have "as_u32 ?cap = ?cap" using cap(2) by (simp add: as_u32_def max_elements_def)
  have cap2: "storage_capacity ?h2 js = ?cap" using same_shapes_facts(4) [OF same_shapes_set] by metis
  obtain sl where sl: "storage_resize ?cap (ob_slots ob) = Some sl" "storage_ok sl" "as_size sl = ?cap"
    "storage_elems sl = take ?cap (storage_elems (ob_slots ob)) @ replicate (?cap - as_size (ob_slots ob)) encode_empty_value"
    using resize_spec [OF m(3) cap(2)] by blast
  have off: "off < as_size sl" using a(7) cap(1) sl(3) by simp
  obtain sl' where sl': "storage_put off v sl = Some sl'" "storage_ok sl'" "as_size sl' = as_size sl"
    "storage_elems sl' = (storage_elems sl)[off := v]"
    using storage_put_spec [OF sl(2) off] by blast
  let ?ob = "ob\<lparr>ob_struct := j, ob_slots := sl'\<rparr>"
  have "add_own_slot o1 name attrs v h = Some (off, set_obj o1 ?ob (set_obj o1 (ob\<lparr>ob_struct := j, ob_slots := sl\<rparr>) ?h2))"
    using ob a(1,6) o1 sl(1) sl'(1) \<open>as_u32 ?cap = ?cap\<close>
    by (simp add: add_own_slot_def set_structure_def direct_put_def cap2)
  then have run: "add_own_slot o1 name attrs v h = Some (off, set_obj o1 ?ob h1)"
    by (simp add: set_obj_def)
  have bound: "me_offset e < ?cap" if "(m(name \<mapsto> ?e)) k = Some e" for k e
  proof -
    have "slot_of (m(name \<mapsto> ?e)) ` dom (m(name \<mapsto> ?e)) \<subseteq> {..<get_slots_size h1 js}"
    proof -
      from a(5) obtain n d where "bij_betw (slot_of (m(name \<mapsto> ?e))) (dom (m(name \<mapsto> ?e))) ({..<n} - d)" "n = get_slots_size h1 js"
        unfolding tight_def by (metis a(3,6) option.inject)
      then show ?thesis by (metis Diff_subset bij_betw_imp_surj_on)
    qed
    moreover have "k \<in> dom (m(name \<mapsto> ?e))" using that by blast
    ultimately have "slot_of (m(name \<mapsto> ?e)) k \<in> {..<get_slots_size h1 js}" by blast
    with that cap(1) show ?thesis by (simp add: slot_of_def)
  qed
  have fits': "fits (set_obj o1 ?ob h1) ?ob (m(name \<mapsto> ?e))"
    using a(3,5) sl'(2,3) sl(3) bound
    by (simp add: fits_shapes [OF same_shapes_set]) (simp add: fits_def)
  have read: "read_slots ?ob (m(name \<mapsto> ?e)) = (read_slots ob m)(name \<mapsto> \<lparr>slot_value = v, slot_attrs = attrs\<rparr>)"
  proof (intro ext)
    fix k
    have "storage_elems sl' ! me_offset e = storage_elems (ob_slots ob) ! me_offset e" if "m k = Some e" "k \<noteq> name" for e
    proof -
      have "me_offset e \<noteq> off" using a(4) that(1) by (force simp: slot_of_def)
      moreover have "me_offset e < ?cap" using bound [of k e] that by simp
      moreover have "me_offset e < as_size (ob_slots ob)" using m(4) [OF that(1)] .
      ultimately show ?thesis using m(3) by (simp add: sl'(4) sl(4) nth_append)
    qed
    moreover have "storage_elems sl' ! off = v" using off sl(2) by (simp add: sl'(4))
    ultimately show "read_slots ?ob (m(name \<mapsto> ?e)) k = ((read_slots ob m)(name \<mapsto> \<lparr>slot_value = v, slot_attrs = attrs\<rparr>)) k"
      by (cases "m k") (auto simp: read_slots_def)
  qed
  have "shapes_wf (set_obj o1 ?ob h1)" using same_shapes_facts(3) [OF same_shapes_set] a(2) by metis
  moreover have "shared_kept h (set_obj o1 ?ob h1)"
    using shared_kept_trans [OF a(9) same_shapes_shared [OF same_shapes_set]] .
  ultimately show ?thesis using run fits' read r
    by (intro exI [of _ off] exI [of _ "set_obj o1 ?ob h1"] exI [of _ ?ob] exI [of _ ?e]) simp
qed


lemma slot_wf_grow:
  assumes "dom (accessors h) \<subseteq> dom (accessors h')" "slot_wf h s"
  shows "slot_wf h' s"
proof -
  have "accessors h' p \<noteq> None" if "accessors h p \<noteq> None" for p using assms(1) that by blast
  then show ?thesis using assms(2)
    by (cases "slot_accessor_ptr s") (simp_all add: slot_wf_def slot_accessor_def)
qed

definition only_accessors :: "heap \<Rightarrow> heap \<Rightarrow> bool" where
  "only_accessors h h' \<longleftrightarrow> same_shapes h h' \<and> objs h' = objs h \<and> dom (accessors h) \<subseteq> dom (accessors h')"

lemma only_accessors_simps [simp]:
  "only_accessors h h" "only_accessors h (snd (accessor_new g st h))"
  "p \<in> dom (accessors h) \<Longrightarrow> only_accessors h (h\<lparr>accessors := (accessors h)(p \<mapsto> ac)\<rparr>)"
  by (auto simp: only_accessors_def same_shapes_def accessor_new_def Let_def)

lemma only_accessors_trans: "only_accessors h h1 \<Longrightarrow> only_accessors h1 h2 \<Longrightarrow> only_accessors h h2"
  by (auto simp: only_accessors_def same_shapes_def)

lemma new_slot_spec:
  fixes h :: heap
  assumes "heap_room h"
  obtains st h' where "stored_slot_new h desc = (st, h')" "slot_wf h' st" "only_accessors h h'"
proof (cases "is_data (desc_attrs desc) \<or> \<not> is_accessor (desc_attrs desc)")
  case True
  then show ?thesis
    by (intro that [of "fst (stored_slot_new h desc)" h])
      (auto simp: stored_slot_new_def Let_def slot_wf_def create_stored, auto simp: flag_simps)
next
  case False
  let ?h' = "snd (accessor_new (desc_getter desc) (desc_setter desc) h)"
  show ?thesis
  proof (rule that)
    show "stored_slot_new h desc = (fst (stored_slot_new h desc), ?h')"
      using False by (simp add: stored_slot_new_def Let_def split: prod.split)
    show "slot_wf ?h' (fst (stored_slot_new h desc))"
      using False assms
      by (auto simp: stored_slot_new_def Let_def slot_wf_def create_stored accessor_new_def heap_room_def
          slot_accessor_def slot_accessor_ptr_def)
  qed simp
qed

lemma merge_frame:
  fixes h :: heap
  assumes "merge h s d = Some (s', h')"
  shows "only_accessors h h'"
proof (cases "is_generic (desc_attrs d) \<or> is_data (desc_attrs d)")
  case True
  then have "h' = h" using merge_generic [OF _ assms] merge_data [OF _ assms] by blast
  then show ?thesis by simp
next
  case False
  then have f: "\<not> is_generic (desc_attrs d)" "\<not> is_data (desc_attrs d)" by simp_all
  show ?thesis
  proof (cases "is_accessor (slot_attrs s)")
    case True
    then obtain p ac where "accessors h p = Some ac"
      "h' = h\<lparr>accessors := (accessors h)(p \<mapsto> (if \<not> is_setter_absent (desc_attrs d)
        then (if \<not> is_getter_absent (desc_attrs d) then ac\<lparr>getter := desc_getter d\<rparr> else ac)\<lparr>setter := desc_setter d\<rparr>
        else (if \<not> is_getter_absent (desc_attrs d) then ac\<lparr>getter := desc_getter d\<rparr> else ac)))\<rparr>"
      using assms f by (simp add: merge_def Let_def bind_eq_Some_conv del: not_not) blast
    then show ?thesis by (simp add: domI)
  next
    case no: False
    let ?r = "accessor_new encode_undefined_value encode_undefined_value h"
    have "accessors (snd ?r) (fst ?r) \<noteq> None" by (simp add: accessor_new_def Let_def)
    then have "only_accessors (snd ?r) (snd ?r\<lparr>accessors := (accessors (snd ?r))(fst ?r \<mapsto> ac)\<rparr>)" for ac
      by (intro only_accessors_simps(3)) (simp add: domIff)
    moreover obtain ac where "h' = snd ?r\<lparr>accessors := (accessors (snd ?r))(fst ?r \<mapsto> ac)\<rparr>"
      using assms f no by (cases ?r) (simp add: merge_def Let_def bind_eq_Some_conv, blast)
    ultimately show ?thesis using only_accessors_trans [OF only_accessors_simps(2)] by blast
  qed
qed

lemma merge_slot:
  "merge h (sl :: slot) d =
     map_option (\<lambda>(t, h'). (sl\<lparr>slot_value := slot_value t, slot_attrs := slot_attrs t\<rparr>, h'))
       (merge h \<lparr>slot_value = slot_value sl, slot_attrs = slot_attrs sl\<rparr> d)"
proof (cases "is_generic (desc_attrs d) \<or> is_data (desc_attrs d)")
  case True
  then show ?thesis by (auto simp: merge_def Let_def)
next
  case False
  show ?thesis
  proof (cases "is_accessor (slot_attrs sl)")
    case True
    with False show ?thesis
      by (cases "get_object (slot_value sl)") (auto simp: merge_def Let_def slot_accessor_ptr_def split: Option.bind_splits)
  next
    case no: False
    with False show ?thesis by (simp add: merge_def Let_def accessor_new_def del: not_not if_image_distrib)
  qed
qed

text \<open>Acceptance reads only the value and the attributes of the slot.\<close>

lemma slot_accessor_slot:
  "slot_accessor h (sl :: slot) = slot_accessor h \<lparr>slot_value = slot_value sl, slot_attrs = slot_attrs sl\<rparr>"
  by (simp add: slot_accessor_def slot_accessor_ptr_def)

lemma no_effect_slot:
  "merge_with_no_effect h (sl :: slot) d =
     merge_with_no_effect h \<lparr>slot_value = slot_value sl, slot_attrs = slot_attrs sl\<rparr> d"
  unfolding merge_with_no_effect_def by (simp only: slot_accessor_slot [symmetric] stored_slot.simps)

lemma accepted_slot:
  "is_defined_property_accepted h (sl :: slot) d t =
     is_defined_property_accepted h \<lparr>slot_value = slot_value sl, slot_attrs = slot_attrs sl\<rparr> d t"
  unfolding is_defined_property_accepted_def
  by (simp only: slot_accessor_slot [symmetric] no_effect_slot [symmetric] stored_slot.simps)


section \<open>The lookup before a change\<close>

lemma get_is_ensure:
  "structure_get i name h = Some (e, h') \<Longrightarrow> h' = h \<or> ensure_table i h = Some h'"
  by (auto simp: structure_get_def ensure_table_def bind_eq_Some_conv split: if_splits option.splits)

lemma own_slots_get:
  assumes wf: "shapes_wf h" and ob: "objs h o1 = Some ob" "fits h ob m"
    and get: "structure_get (ob_struct ob) name h = Some (e, h')"
  shows "own_slots h' o1 = own_slots h o1"
proof (cases "h' = h")
  case False
  obtain s where s: "structs h (ob_struct ob) = Some s" using fits_structs [OF ob(2)] by blast
  with False get_is_ensure [OF get] ensure_table_spec [OF wf s]
  obtain s1 where e: "structs h' (ob_struct ob) = Some s1" "\<forall>k. shape_map h' k = shape_map h k"
    "tight h' (ob_struct ob)" "s1 = s\<lparr>st_table := st_table s1, st_previous := None\<rparr>"
    using ob(2) by (auto simp: fits_def)
  from e(4) have "st_deleted s1 = st_deleted (s\<lparr>st_table := st_table s1, st_previous := None\<rparr>)" by (rule arg_cong)
  then have d: "st_deleted s1 = st_deleted s" by simp
  have size: "card (dom m) + length (st_deleted q) = get_slots_size k q"
    if "tight k (ob_struct ob)" "structs k (ob_struct ob) = Some q" "shape_map k (ob_struct ob) = Some m" for k :: heap and q
    using bij_slots_card [of "slot_of m" "dom m" "get_slots_size k q" "st_deleted q"] that by (auto simp: tight_def)
  have "get_slots_size h' s1 = get_slots_size h s"
    using size [of h s] size [of h' s1] ob(2) s e(1-3) d by (simp add: fits_def)
  with ob(1) s e(1) rest_cells [OF rest_get [OF get]] show ?thesis by (simp add: own_slots_def)
qed simp

lemma lookup_first:
  assumes ok: "object_ok h o1" and name: "named name" and ob: "objs h o1 = Some ob"
  obtains h1 m where "get_own_property_slot o1 name sl h =
      Some (case own_props h o1 name of None \<Rightarrow> (False, sl, h1)
        | Some st \<Rightarrow> (True, found_slot o1 (own_offset h o1 name) st sl, h1))"
    "shapes_wf h1" "objs h1 = objs h" "accessors h1 = accessors h" "next_cell h1 = next_cell h"
    "jsstrings h1 = jsstrings h" "own_props h1 = own_props h" "object_ok h1 o1" "fits h1 ob m" "own_slots h1 o1 = own_slots h o1"
    "shared_kept h h1" "\<And>e. m name = Some e \<Longrightarrow> own_offset h o1 name = me_offset e"
proof -
  obtain h1 where g: "get_own_property_slot o1 name sl h =
      Some (case own_props h o1 name of None \<Rightarrow> (False, sl, h1)
        | Some st \<Rightarrow> (True, found_slot o1 (own_offset h o1 name) st sl, h1))" "same_view h h1" "shapes_wf h1"
    using own_lookup_slot [OF ok name] by blast
  note v = same_viewD [OF g(2)] and r = rest_cells [OF same_viewD(4) [OF g(2)]] same_viewD(4) [OF g(2), unfolded same_rest_def]
  obtain m where m: "fits h ob m" using ok ob by (auto simp: object_ok_fits)
  obtain m1 where m1: "fits h1 ob m1" using v(1) v(3) [OF ok] ob by (auto simp: object_ok_fits)
  with m v(5) have "m1 = m" by (simp add: fits_def)
  have "get_own_non_indexed_property_slot o1 name sl h = get_own_property_slot o1 name sl h"
    using name by (simp add: get_own_property_slot_def named_dispatch)
  with g(1) obtain e where "structure_get (ob_struct ob) name h = Some (e, h1)"
    using ob by (auto simp: get_own_non_indexed_property_slot_def bind_eq_Some_conv split: option.splits if_splits)
  note get = this
  have wf: "shapes_wf h" using ok by (simp add: object_ok_fits)
  have "shared_kept h h1"
    using fits_structs [OF m] get_is_ensure [OF get] ensure_table_spec [OF wf, of "ob_struct ob"] by auto
  moreover have "own_slots h1 o1 = own_slots h o1" by (rule own_slots_get [OF wf ob m get])
  moreover have "own_offset h o1 name = me_offset e" if "m name = Some e" for e
    using m ob that by (simp add: own_offset_def fits_def slot_of_def)
  ultimately show ?thesis using that [OF g(1,3) v(1) _ _ _ v(2) v(3) [OF ok]] r m1 \<open>m1 = m\<close> by blast
qed


section \<open>Defining a property\<close>

lemma slot_new_fresh [simp]: "\<not> slot_is_used slot_new" "slot_is_not_found slot_new"
  using and_flag_eq_0 [of "FLAG_CACHEABLE" 0]
  by (simp_all add: slot_flag_tests slot_new_def slot_flag_consts slot_is_not_found_def flag_simps)

lemma stored_slot_new_cells:
  fixes h h1 :: heap
  assumes "next_cell h1 = next_cell h"
  shows "fst (stored_slot_new h1 desc) = fst (stored_slot_new h desc)"
    "next_cell (snd (stored_slot_new h1 desc)) = next_cell (snd (stored_slot_new h desc))"
  using assms by (simp_all add: stored_slot_new_def Let_def accessor_new_def)

lemma object_ok_update:
  assumes "shapes_wf h'" "objs h' = (objs h)(o1 \<mapsto> ob')" "fits h' ob' m'" "dom (accessors h) \<subseteq> dom (accessors h')"
    and "object_ok h o1" "read_slots ob' m' = (own_props h o1)(name := x)" "\<And>st. x = Some st \<Longrightarrow> slot_wf h' st"
  shows "object_ok h' o1" "own_props h' o1 = (own_props h o1)(name := x)"
proof -
  show p: "own_props h' o1 = (own_props h o1)(name := x)"
    using own_props_fits [OF _ assms(3), of o1] assms(2,6) by simp
  have "slot_wf h' st" if "own_props h' o1 k = Some st" for k st
    using that assms(5,7) slot_wf_grow [OF assms(4), of st] p by (auto simp: object_ok_fits split: if_splits)
  with assms(1-3) show "object_ok h' o1" by (auto simp: object_ok_fits)
qed

lemma stored_slot_eta: "\<lparr>slot_value = slot_value st, slot_attrs = slot_attrs st\<rparr> = (st :: stored_slot)"
  by simp

lemma only_accessors_object:
  assumes "only_accessors h h'"
  shows "own_slots h' o1 = own_slots h o1" "own_props h' = own_props h" "object_ok h o1 \<Longrightarrow> object_ok h' o1"
    "shapes_wf h \<Longrightarrow> shapes_wf h'" "fits h ob m \<Longrightarrow> fits h' ob m" "objs h' = objs h"
proof -
  from assms have s: "same_shapes h h'" and o: "objs h' = objs h" and d: "dom (accessors h) \<subseteq> dom (accessors h')"
    by (simp_all add: only_accessors_def)
  show "own_slots h' o1 = own_slots h o1"
    using s by (simp add: own_slots_def o same_shapes_facts(1) [OF s] same_shapes_def split: option.split)
  show p: "own_props h' = own_props h"
    using o by (intro ext) (simp add: own_props_def same_shapes_map [OF s] split: option.split)
  show "object_ok h' o1" if "object_ok h o1"
    using that slot_wf_grow [OF d] unfolding object_ok_fits o p fits_shapes [OF s] same_shapes_facts(3) [OF s] by blast
  show "shapes_wf h \<Longrightarrow> shapes_wf h'" "fits h ob m \<Longrightarrow> fits h' ob m" "objs h' = objs h"
    using o by (simp_all add: fits_shapes [OF s] same_shapes_facts(3) [OF s])
qed

lemma define_new_spec:
  assumes ok: "object_ok h o1" and ob: "objs h o1 = Some ob" and name: "named name"
    and new: "own_props h o1 name = None" and room: "heap_room h" "own_slots h o1 < 2 ^ 27"
  shows "\<exists>h'. object_ok h' o1 \<and> others_kept h o1 h' \<and>
    (if is_extensible ob then
       define_own_property o1 name desc t h = ret True h' \<and>
       own_props h' o1 = (own_props h o1)(name \<mapsto> fst (stored_slot_new h desc)) \<and>
       next_cell h' = next_cell (snd (stored_slot_new h desc))
     else
       define_own_property o1 name desc t h = reject_or t ''Object non extensible'' False h' \<and>
       own_props h' o1 = own_props h o1)"
proof -
  obtain h1 m where l: "get_own_property_slot o1 name slot_new h = Some (False, slot_new, h1)"
    "shapes_wf h1" "objs h1 = objs h" "accessors h1 = accessors h" "next_cell h1 = next_cell h"
    "own_props h1 = own_props h" "object_ok h1 o1" "fits h1 ob m" "own_slots h1 o1 = own_slots h o1" "shared_kept h h1"
    by (rule lookup_first [OF ok name ob, of slot_new, unfolded new option.case]) blast
  have run: "define_own_property o1 name desc t h = attempt (define_own_non_indexed_property_slot o1 name desc slot_new t h) (\<lambda>(r, sl). ret r)"
    using name by (simp add: define_own_property_def define_own_property_slot_def named_dispatch)
  show ?thesis
  proof (cases "is_extensible ob")
    case False
    then show ?thesis
      using l ob run others_keptI [OF l(10)]
      by (intro exI [of _ h1])
        (simp add: define_own_non_indexed_property_slot_def reject_or_def attempt_def ret_def throw_def)
  next
    case True
    obtain st h2 where st: "stored_slot_new h1 desc = (st, h2)" "slot_wf h2 st" "only_accessors h1 h2"
      using new_slot_spec [of h1 desc] room(1) l(5) by (auto simp: heap_room_def)
    have h2: "shapes_wf h2" "objs h2 o1 = Some ob" "fits h2 ob m" "own_slots h2 o1 < 2 ^ 27"
      using only_accessors_object [OF st(3)] l(2,3,8,9) ob room(2) by simp_all
    have none: "m name = None" using own_props_fits [OF _ l(8), of o1] l(3,6) ob new by (simp add: read_slots_def)
    obtain off h3 ob' e where a: "add_own_slot o1 name (slot_attrs st) (slot_value st) h2 = Some (off, h3)" "shapes_wf h3"
      "shared_kept h2 h3"
      "objs h3 = (objs h2)(o1 \<mapsto> ob')" "accessors h3 = accessors h2" "next_cell h3 = next_cell h2" "fits h3 ob' (m(name \<mapsto> e))"
      "read_slots ob' (m(name \<mapsto> e)) = (read_slots ob m)(name \<mapsto> \<lparr>slot_value = slot_value st, slot_attrs = slot_attrs st\<rparr>)"
      using add_own_slot_spec [OF h2(1-3) none _ h2(4), of "slot_attrs st" "slot_value st"] name
      unfolding named_def by blast
    have "read_slots ob' (m(name \<mapsto> e)) = (own_props h2 o1)(name := Some st)"
      using own_props_fits [OF h2(2,3)] a(8) stored_slot_eta [of st] by simp
    moreover have "object_ok h2 o1" using only_accessors_object(3) [OF st(3) l(7)] .
    ultimately have fin: "object_ok h3 o1" "own_props h3 o1 = (own_props h2 o1)(name := Some st)"
      using object_ok_update [OF a(2,4,7)] a(5) slot_wf_cells [of h3 h2 st] st(2) by auto
    have "own_props h2 o1 = own_props h o1" using only_accessors_object(2) [OF st(3)] l(6) by simp
    moreover have "next_cell h3 = next_cell (snd (stored_slot_new h desc))"
      using stored_slot_new_cells(2) [OF l(5), of desc] st(1) a(6) by simp
    moreover have "st = fst (stored_slot_new h desc)"
      using stored_slot_new_cells(1) [OF l(5), of desc] st(1) by simp
    moreover have "define_own_property o1 name desc t h = ret True h3"
      using l(1,3) ob run True st(1) a(1)
      by (simp add: define_own_non_indexed_property_slot_def attempt_def ret_def)
    moreover have "others_kept h o1 h3"
    proof (rule others_keptI)
      have "shared_kept h1 h2" using st(3) same_shapes_shared [of h1 h2] by (simp add: only_accessors_def)
      then show "shared_kept h h3" using shared_kept_trans [OF l(10)] shared_kept_trans [OF _ a(3)] by blast
      show "objs h3 p = objs h p" if "p \<noteq> o1" for p using that a(4) st(3) l(3) by (simp add: only_accessors_def)
    qed
    ultimately show ?thesis using True fin by (intro exI [of _ h3]) simp
  qed
qed


section \<open>Redefining a property\<close>

lemma direct_put_spec:
  assumes ob: "objs h o1 = Some ob" and fits: "fits h ob m" and off: "off < as_size (ob_slots ob)"
  shows "\<exists>ob'. direct_put o1 off v h = Some (set_obj o1 ob' h) \<and> fits (set_obj o1 ob' h) ob' m \<and>
    (\<forall>k. read_slots ob' m k =
       (case m k of None \<Rightarrow> None
        | Some e \<Rightarrow> if me_offset e = off then Some \<lparr>slot_value = v, slot_attrs = me_attrs e\<rparr> else read_slots ob m k))"
proof -
  have ok: "storage_ok (ob_slots ob)" using fits by (simp add: fits_def)
  obtain sl where sl: "storage_put off v (ob_slots ob) = Some sl" "storage_ok sl" "as_size sl = as_size (ob_slots ob)"
    "storage_elems sl = (storage_elems (ob_slots ob))[off := v]"
    using storage_put_spec [OF ok off] by blast
  let ?ob = "ob\<lparr>ob_slots := sl\<rparr>"
  have "direct_put o1 off v h = Some (set_obj o1 ?ob h)" using ob sl(1) by (simp add: direct_put_def)
  moreover have "fits (set_obj o1 ?ob h) ?ob m"
    using fits sl(2,3) by (simp add: fits_shapes [OF same_shapes_set]) (simp add: fits_def)
  moreover have "read_slots ?ob m k = (case m k of None \<Rightarrow> None
      | Some e \<Rightarrow> if me_offset e = off then Some \<lparr>slot_value = v, slot_attrs = me_attrs e\<rparr> else read_slots ob m k)" for k
    using off ok by (simp add: read_slots_def sl(4) split: option.split)
  ultimately show ?thesis by (intro exI [of _ ?ob]) simp
qed

lemma offset_word:
  assumes "fits h ob m" "off < as_size (ob_slots ob)"
  shows "unat (word_of_nat off :: u32) = off" "word_of_nat off \<noteq> NO_OFFSET"
proof -
  from assms have "off < 2 ^ 32 - 1" by (auto simp: fits_def storage_ok_def max_elements_def)
  then show u: "unat (word_of_nat off :: u32) = off" by (intro unat_word_of_nat_less) simp
  have "unat NO_OFFSET = 2 ^ 32 - 1" by (simp add: NO_OFFSET_def unsigned_minus_1_eq_mask mask_eq_exp_minus_1)
  with u \<open>off < 2 ^ 32 - 1\<close> show "word_of_nat off \<noteq> NO_OFFSET" by auto
qed


lemma accepted_cells:
  fixes h h1 :: heap
  assumes "jsstrings h1 = jsstrings h" "accessors h1 = accessors h"
  shows "is_defined_property_accepted h1 s d t = is_defined_property_accepted h s d t"
proof -
  have v: "same_value h1 = same_value h"
    by (simp add: fun_eq_iff same_value_def same_value_impl_def assms(1))
  have a: "slot_accessor h1 s = slot_accessor h s" by (simp add: slot_accessor_def assms(2))
  have "merge_with_no_effect h1 s d = merge_with_no_effect h s d"
    by (simp only: merge_with_no_effect_def v a)
  then show ?thesis by (simp only: is_defined_property_accepted_def v a)
qed

lemma merge_cells:
  fixes h h1 :: heap
  assumes "next_cell h1 = next_cell h" "accessors h1 = accessors h"
  shows "map_option fst (merge h1 s d) = map_option fst (merge h s d)"
proof (cases "is_generic (desc_attrs d) \<or> is_data (desc_attrs d)")
  case True
  then show ?thesis by (auto simp: merge_def Let_def)
next
  case False
  show ?thesis
  proof (cases "is_accessor (slot_attrs s)")
    case True
    with False show ?thesis
      by (cases "slot_accessor_ptr s"; cases "accessors h (the (slot_accessor_ptr s))")
        (simp_all add: merge_def Let_def assms(2))
  next
    case no: False
    with False show ?thesis by (simp add: merge_def Let_def accessor_new_def assms(1))
  qed
qed

lemma some_if:
  "(b \<Longrightarrow> \<exists>r. x = Some r) \<Longrightarrow> (\<not> b \<Longrightarrow> \<exists>r. y = Some r) \<Longrightarrow> \<exists>r. (if b then x else y) = Some r"
  by simp

lemma accepted_returns:
  assumes wf: "slot_wf h s"
  shows "\<exists>r. is_defined_property_accepted h s d t = Some r"
proof -
  let ?a = "slot_attrs s" and ?d = "desc_attrs d"
  have acc: "\<exists>ac. slot_accessor h s = Some ac" if "\<not> is_data ?a"
    using wf that stored_bits(1) [of ?a] by (auto simp: slot_wf_def flag_simps)
  have ty: "\<not> is_data ?a" if "attr_ty ?d = attr_ty ?a" "\<not> is_data ?d"
    using that(2) arg_cong [OF that(1), of "\<lambda>x. bit x 3"]
    by (simp add: attr_ty_def TYPE_MASK_def bit_and_iff bit_or_iff flag_bits flag_simps)
  have "\<exists>b. merge_with_no_effect h s d = Some b"
    unfolding merge_with_no_effect_def Let_def
    by (intro some_if) (use acc ty in auto)
  then obtain b where b: "merge_with_no_effect h s d = Some b" by blast
  show ?thesis
    unfolding is_defined_property_accepted_def Let_def b bind.bind_lunit reject_def
    by (intro some_if) (use acc in \<open>auto simp: reject_def intro!: some_if\<close>)
qed

lemma change_own_attributes:
  assumes wf: "shapes_wf h" and ob: "objs h o1 = Some ob" and fits: "fits h ob m" and e: "m name = Some e"
  shows "\<exists>h' ob'. (if me_attrs e \<noteq> a then
      do { ob \<leftarrow> objs h o1; (j, h3) \<leftarrow> change_attributes_transition (ob_struct ob) name a h; set_structure o1 j h3 }
      else Some h) = Some h' \<and>
    shapes_wf h' \<and> shared_kept h h' \<and> objs h' = (objs h)(o1 \<mapsto> ob') \<and> accessors h' = accessors h \<and>
    ob_slots ob' = ob_slots ob \<and> fits h' ob' (m(name \<mapsto> e\<lparr>me_attrs := a\<rparr>))"
proof (cases "a = me_attrs e")
  case True
  then have "m(name \<mapsto> e\<lparr>me_attrs := a\<rparr>) = m" using e by (simp add: fun_upd_idem)
  with True wf ob fits show ?thesis
    by (intro exI [of _ h] exI [of _ ob]) (simp add: fun_upd_idem)
next
  case False
  obtain s where s: "structs h (ob_struct ob) = Some s" using fits_structs [OF fits] by blast
  have m: "shape_map h (ob_struct ob) = Some m" "tight h (ob_struct ob)" using fits by (simp_all add: fits_def)
  obtain j h1 where c: "change_attributes_transition (ob_struct ob) name a h = Some (j, h1)" "shapes_wf h1"
    "shape_map h1 j = Some (m(name \<mapsto> e\<lparr>me_attrs := a\<rparr>))" "tight h1 j" "shared_kept h h1"
    using change_attributes_spec [OF wf s m(2,1) e, of a] by blast
  note r = rest_cells [OF rest_attrs [OF c(1)]]
  let ?ob = "ob\<lparr>ob_struct := j\<rparr>"
  have "fits (set_obj o1 ?ob h1) ?ob (m(name \<mapsto> e\<lparr>me_attrs := a\<rparr>))"
    using c(3,4) fits e by (simp add: fits_shapes [OF same_shapes_set]) (auto simp: fits_def)
  then show ?thesis
    using False ob c(1,2) r same_shapes_facts(3) [OF same_shapes_set [of h1 o1 ?ob]]
      shared_kept_trans [OF c(5) same_shapes_shared [OF same_shapes_set [of h1 o1 ?ob]]]
    by (intro exI [of _ "set_obj o1 ?ob h1"] exI [of _ ?ob]) (simp add: set_structure_def)
qed


lemma define_existing_spec:
  assumes ok: "object_ok h o1" and name: "named name" and own: "own_props h o1 name = Some st" and room: "heap_room h"
  shows "\<exists>h'. object_ok h' o1 \<and> others_kept h o1 h' \<and>
    (case is_defined_property_accepted h st desc t of
       None \<Rightarrow> False
     | Some (Inl e) \<Rightarrow> define_own_property o1 name desc t h = throw e h' \<and> own_props h' o1 = own_props h o1
     | Some (Inr (go, r)) \<Rightarrow> define_own_property o1 name desc t h = ret r h' \<and>
         (if go then \<exists>st' h''. merge h st desc = Some (st', h'') \<and> own_props h' o1 = (own_props h o1)(name \<mapsto> st')
          else own_props h' o1 = own_props h o1))"
proof -
  obtain ob where ob: "objs h o1 = Some ob" using ok by (auto simp: object_ok_fits)
  let ?sl = "found_slot o1 (own_offset h o1 name) st slot_new"
  obtain h1 m where l: "get_own_property_slot o1 name slot_new h = Some (True, ?sl, h1)"
    "shapes_wf h1" "objs h1 = objs h" "accessors h1 = accessors h" "next_cell h1 = next_cell h"
    "jsstrings h1 = jsstrings h" "own_props h1 = own_props h" "object_ok h1 o1" "fits h1 ob m" "\<And>e. m name = Some e \<Longrightarrow> own_offset h o1 name = me_offset e"
    "shared_kept h h1"
    by (rule lookup_first [OF ok name ob, of slot_new, unfolded own option.case]) blast

  have m: "own_props h1 o1 = read_slots ob m" using own_props_fits [OF _ l(9)] l(3) ob by simp
  then obtain e where e: "m name = Some e" using own l(7) by (auto simp: read_slots_def)
  then have st: "slot_attrs st = me_attrs e" using own m l(7) by (auto simp: read_slots_def)
  have off: "own_offset h o1 name = me_offset e" "me_offset e < as_size (ob_slots ob)"
    using l(9) e l(10) by (auto simp: fits_def)
  have wf: "slot_wf h st" "slot_wf h1 st" using ok l(7,8) own by (auto simp: object_ok_fits)
  obtain acc where acc: "is_defined_property_accepted h st desc t = Some acc" using accepted_returns [OF wf(1)] by blast
  then have acc1: "is_defined_property_accepted h1 ?sl desc t = Some acc"
    using accepted_slot [of h1 ?sl] accepted_cells [OF l(6,4), of st] stored_slot_eta [of st] by simp
  have found: "\<not> slot_is_not_found ?sl" using wf(1) by (simp add: slot_is_not_found_def slot_wf_def stored_found)
  have run: "define_own_property o1 name desc t h = attempt (define_own_non_indexed_property_slot o1 name desc slot_new t h) (\<lambda>(r, sl). ret r)"
    using name by (simp add: define_own_property_def define_own_property_slot_def named_dispatch)
  show ?thesis
  proof (cases "\<exists>r. acc = Inr (True, r)")
    case False
    then show ?thesis
      using l(1,3,7,8) found acc acc1 run others_keptI [OF l(11)]
      by (intro exI [of _ h1])
        (auto simp: define_own_non_indexed_property_slot_def attempt_def ret_def throw_def split: sum.split)
  next
    case True
    then obtain r where r: "acc = Inr (True, r)" by blast
    have room1: "heap_room h1" using room l(5) by (simp add: heap_room_def)
    obtain st' h'' where mg: "merge h st desc = Some (st', h'')" using merge_returns [OF wf(1) room] by blast
    obtain h2 where mg1: "merge h1 st desc = Some (st', h2)" "slot_wf h2 st'"
      using merge_keeps_wf [OF wf(2) room1, of desc] merge_cells [OF l(5,4), of st desc] mg by auto
    let ?sl2 = "?sl\<lparr>slot_value := slot_value st', slot_attrs := slot_attrs st'\<rparr>"
    have mg2: "merge h1 ?sl desc = Some (?sl2, h2)"
      using merge_slot [of h1 ?sl desc] mg1(1) stored_slot_eta [of st] by simp
    note oa = only_accessors_object [OF merge_frame [OF mg1(1)]]
    have h2: "shapes_wf h2" "objs h2 o1 = Some ob" "fits h2 ob m" "object_ok h2 o1"
      using oa l(2,3,8,9) ob by simp_all
    obtain h3 ob3 where c: "(if me_attrs e \<noteq> slot_attrs st' then
        do { ob \<leftarrow> objs h2 o1; (j, h3) \<leftarrow> change_attributes_transition (ob_struct ob) name (slot_attrs st') h2; set_structure o1 j h3 }
        else Some h2) = Some h3"
      "shapes_wf h3" "objs h3 = (objs h2)(o1 \<mapsto> ob3)" "accessors h3 = accessors h2" "ob_slots ob3 = ob_slots ob"
      "fits h3 ob3 (m(name \<mapsto> e\<lparr>me_attrs := slot_attrs st'\<rparr>))" "shared_kept h2 h3"
      using change_own_attributes [OF h2(1-3) e, of "slot_attrs st'"] by blast
    let ?m = "m(name \<mapsto> e\<lparr>me_attrs := slot_attrs st'\<rparr>)"
    have o3: "objs h3 o1 = Some ob3" "me_offset e < as_size (ob_slots ob3)" using c(3,5) off(2) by simp_all
    obtain ob4 where d: "direct_put o1 (me_offset e) (slot_value st') h3 = Some (set_obj o1 ob4 h3)"
      "fits (set_obj o1 ob4 h3) ob4 ?m"
      "\<And>k. read_slots ob4 ?m k = (case ?m k of None \<Rightarrow> None
        | Some e' \<Rightarrow> if me_offset e' = me_offset e then Some \<lparr>slot_value = slot_value st', slot_attrs = me_attrs e'\<rparr>
                    else read_slots ob3 ?m k)"
      using direct_put_spec [OF o3(1) c(6) o3(2)] by blast
    have read: "read_slots ob4 ?m = (own_props h2 o1)(name := Some st')"
    proof
      fix k
      have "me_offset e' \<noteq> me_offset e" if "k \<noteq> name" "m k = Some e'" for e'
        using fits_inj [OF l(9) that(2) e] that(1) by blast
      moreover have "read_slots ob3 ?m k = read_slots ob m k" if "k \<noteq> name"
        using that c(5) by (simp add: read_slots_def)
      moreover have "read_slots ob m k = None" if "m k = None" using that by (simp add: read_slots_def)
      ultimately show "read_slots ob4 ?m k = ((own_props h2 o1)(name := Some st')) k"
        using own_props_fits [OF h2(2,3)] stored_slot_eta [of st'] by (cases "m k") (auto simp: d(3))
    qed
    let ?h4 = "set_obj o1 ob4 h3"
    have "shapes_wf ?h4" using c(2) same_shapes_facts(3) [OF same_shapes_set] by metis
    moreover have "objs ?h4 = (objs h2)(o1 \<mapsto> ob4)" using c(3) by simp
    ultimately have fin: "object_ok ?h4 o1" "own_props ?h4 o1 = (own_props h2 o1)(name := Some st')"
      using object_ok_update [OF _ _ d(2) _ h2(4) read] c(4) slot_wf_cells [of ?h4 h2 st'] mg1(2) by auto
    have w: "unat (word_of_nat (me_offset e) :: u32) = me_offset e" "word_of_nat (me_offset e) \<noteq> NO_OFFSET"
      using offset_word [OF l(9) off(2)] .
    have "define_own_property o1 name desc t h = ret r ?h4"
    proof (cases "me_attrs e = slot_attrs st'")
      case True
      with c(1) have "h3 = h2" by simp
      with True show ?thesis
        using l(1) found acc1 r run mg2 w d(1)
        by (simp add: define_own_non_indexed_property_slot_def attempt_def ret_def off(1) slot_has_offset_def st Let_def)
    next
      case False
      with c(1) h2(2) obtain j h3' where "change_attributes_transition (ob_struct ob) name (slot_attrs st') h2 = Some (j, h3')"
        "set_structure o1 j h3' = Some h3"
        by (auto simp: bind_eq_Some_conv)
      with False show ?thesis
        using l(1) found acc1 r run mg2 w d(1) h2(2)
        by (simp add: define_own_non_indexed_property_slot_def attempt_def ret_def off(1) slot_has_offset_def st Let_def)
    qed
    moreover have "own_props h2 o1 = own_props h o1" using oa(2) l(7) by simp
    moreover have "others_kept h o1 ?h4"
    proof (rule others_keptI)
      have "shared_kept h1 h2" using merge_frame [OF mg1(1)] same_shapes_shared [of h1 h2] by (simp add: only_accessors_def)
      then have "shared_kept h h3" using shared_kept_trans [OF l(11)] shared_kept_trans [OF _ c(7)] by blast
      then show "shared_kept h ?h4" using shared_kept_trans same_shapes_shared [OF same_shapes_set] by blast
      show "objs ?h4 p = objs h p" if "p \<noteq> o1" for p using that c(3) oa(6) l(3) by simp
    qed
    ultimately show ?thesis using fin acc r mg by (intro exI [of _ ?h4]) simp
  qed
qed


section \<open>Deleting a property\<close>

lemma delete_spec:
  assumes ok: "object_ok h o1" and name: "named name"
  shows "\<exists>h'. object_ok h' o1 \<and> others_kept h o1 h' \<and>
    (case own_props h o1 name of
       None \<Rightarrow> object_delete o1 name t h = ret True h' \<and> own_props h' o1 = own_props h o1
     | Some st \<Rightarrow>
         if is_configurable (slot_attrs st) then
           object_delete o1 name t h = ret True h' \<and> own_props h' o1 = (own_props h o1)(name := None)
         else
           object_delete o1 name t h = reject_or t ''Can not delete non configurable property'' False h' \<and>
           own_props h' o1 = own_props h o1)"
proof -
  obtain ob where ob: "objs h o1 = Some ob" using ok by (auto simp: object_ok_fits)
  have run: "object_delete o1 name t h = delete_non_indexed o1 name t h"
    using name by (simp add: object_delete_def named_dispatch)
  obtain h1 m where l: "get_own_property_slot o1 name slot_new h =
      Some (case own_props h o1 name of None \<Rightarrow> (False, slot_new, h1)
        | Some st \<Rightarrow> (True, found_slot o1 (own_offset h o1 name) st slot_new, h1))"
    "shapes_wf h1" "objs h1 = objs h" "own_props h1 = own_props h" "object_ok h1 o1" "fits h1 ob m"
    "\<And>e. m name = Some e \<Longrightarrow> own_offset h o1 name = me_offset e" "shared_kept h h1"
    by (rule lookup_first [OF ok name ob, of slot_new]) blast
  show ?thesis
  proof (cases "own_props h o1 name")
    case None
    with l run others_keptI [OF l(8)] show ?thesis by (intro exI [of _ h1]) (simp add: delete_non_indexed_def)
  next
    case (Some st)
    show ?thesis
    proof (cases "is_configurable (slot_attrs st)")
      case False
      with Some l run others_keptI [OF l(8)] show ?thesis by (intro exI [of _ h1]) (simp add: delete_non_indexed_def)
    next
      case True
      have m: "own_props h1 o1 = read_slots ob m" using own_props_fits [OF _ l(6)] l(3) ob by simp
      then obtain e where e: "m name = Some e" using Some l(4) by (auto simp: read_slots_def)
      have off: "me_offset e < as_size (ob_slots ob)" using l(6) e by (auto simp: fits_def)
      obtain s where s: "structs h1 (ob_struct ob) = Some s" using fits_structs [OF l(6)] by blast
      have sh: "shape_map h1 (ob_struct ob) = Some m" "tight h1 (ob_struct ob)" using l(6) by (simp_all add: fits_def)
      obtain j h3 where d: "delete_property_transition (ob_struct ob) name h1 = Some (j, h3)" "shapes_wf h3"
        "shape_map h3 j = Some (m(name := None))" "tight h3 j" "shared_kept h1 h3"
        using delete_property_spec [OF l(2) s sh(2,1) e] by blast
      note r = rest_cells [OF rest_delete [OF d(1)]]
      let ?ob = "ob\<lparr>ob_struct := j\<rparr>" let ?m = "m(name := None)"
      let ?h4 = "set_obj o1 ?ob h3"
      have fits4: "fits ?h4 ?ob ?m"
        using d(3,4) l(6) by (simp add: fits_shapes [OF same_shapes_set]) (auto simp: fits_def)
      obtain ob5 where p: "direct_put o1 (me_offset e) encode_empty_value ?h4 = Some (set_obj o1 ob5 ?h4)"
        "fits (set_obj o1 ob5 ?h4) ob5 ?m"
        "\<And>k. read_slots ob5 ?m k = (case ?m k of None \<Rightarrow> None
          | Some e' \<Rightarrow> if me_offset e' = me_offset e then Some \<lparr>slot_value = encode_empty_value, slot_attrs = me_attrs e'\<rparr>
                      else read_slots ?ob ?m k)"
        using direct_put_spec [OF _ fits4, of o1 "me_offset e" encode_empty_value] off by auto
      have read: "read_slots ob5 ?m = (own_props h1 o1)(name := None)"
      proof
        fix k
        have "me_offset e' \<noteq> me_offset e" if "k \<noteq> name" "m k = Some e'" for e'
          using fits_inj [OF l(6) that(2) e] that(1) by blast
        moreover have "read_slots ?ob ?m k = read_slots ob m k" if "k \<noteq> name"
          using that by (simp add: read_slots_def)
        moreover have "read_slots ob m k = None" if "m k = None" using that by (simp add: read_slots_def)
        ultimately show "read_slots ob5 ?m k = ((own_props h1 o1)(name := None)) k"
          using m by (cases "m k") (auto simp: p(3))
      qed
      let ?h5 = "set_obj o1 ob5 ?h4"
      have "shapes_wf ?h5" using d(2) same_shapes_facts(3) [OF same_shapes_set] by metis
      moreover have "objs ?h5 = (objs h1)(o1 \<mapsto> ob5)" using r by simp
      ultimately have fin: "object_ok ?h5 o1" "own_props ?h5 o1 = (own_props h1 o1)(name := None)"
        using object_ok_update [OF _ _ p(2) _ l(5) read] r by auto
      note w = offset_word [OF l(6) off]
      have "object_delete o1 name t h = ret True ?h5"
        using run l(1,3,7) e Some True w ob d(1) r p(1)
        by (simp add: delete_non_indexed_def slot_has_offset_def set_structure_def)
      moreover have "others_kept h o1 ?h5"
      proof (rule others_keptI)
        have "shared_kept h3 ?h4" "shared_kept ?h4 ?h5" by (simp_all add: same_shapes_shared)
        then show "shared_kept h ?h5"
          using shared_kept_trans [OF l(8) d(5)] shared_kept_trans by blast
        show "objs ?h5 p = objs h p" if "p \<noteq> o1" for p using that r l(3) by simp
      qed
      ultimately show ?thesis using fin True Some l(4) by (intro exI [of _ ?h5]) simp
    qed
  qed
qed


section \<open>The properties\<close>

text \<open>A heap with one plain object, at address 16, and the root structure.\<close>

definition one_object :: heap where
  "one_object =
     set_obj 16 \<lparr>ob_struct = 0, ob_slots = storage_new 0, ob_indexed = elements_new, ob_flags = OBJ_FLAG_EXTENSIBLE\<rparr>
       ((snd (ctor1 None False False (shapes.extend empty_shapes \<lparr>objs = (\<lambda>_. None)\<rparr>)))\<lparr>next_cell := 1\<rparr>)"

lemma one_object_ok:
  "object_ok one_object 16" "own_props one_object 16 = Map.empty" "heap_room one_object" "own_slots one_object 16 = 0"
  "\<exists>ob. objs one_object 16 = Some ob \<and> is_extensible ob"
proof -
  let ?h0 = "shapes.extend empty_shapes \<lparr>objs = (\<lambda>_. None)\<rparr> :: heap"
  let ?h1 = "snd (ctor1 None False False ?h0)"
  let ?h2 = "?h1\<lparr>next_cell := 1\<rparr>"
  let ?ob = "\<lparr>ob_struct = 0, ob_slots = storage_new 0, ob_indexed = elements_new, ob_flags = OBJ_FLAG_EXTENSIBLE\<rparr>"
  have "shapes_wf ?h0"
    by (simp add: shapes_wf_def links_ok_def sharing_ok_def adding_ok_def transitions_ok_def counts_ok_def
        tight_ok_def empty_shapes_def cells.defs shapes.defs)
  from ctor1_root [OF this, of None False False]
  have r: "shapes_wf ?h1" "tight ?h1 0"
    by (simp_all add: empty_shapes_def cells.defs shapes.defs)
  have st: "structs ?h1 0 = Some (blank_struct None False False)"
    by (simp add: ctor1_def struct_alloc empty_shapes_def cells.defs shapes.defs)
  have sh: "shape_map ?h1 0 = Some Map.empty"
    using st by (simp add: shape_map_root blank_struct_def)
  have same: "same_shapes ?h1 one_object" by (simp add: same_shapes_def one_object_def)
  have o: "objs one_object 16 = Some ?ob" by (simp add: one_object_def)
  have f: "fits one_object ?ob Map.empty"
    using r sh same_shapes_map [OF same] same_shapes_facts [OF same] storage_new_ok [of 0] by (simp add: fits_def)
  show p: "own_props one_object 16 = Map.empty" using own_props_fits [OF o f] by (simp add: read_slots_def fun_eq_iff)
  show "object_ok one_object 16"
    using o f p r(1) same_shapes_facts(3) [OF same] by (auto simp: object_ok_fits)
  show "heap_room one_object" by (simp add: heap_room_def one_object_def)
  show "own_slots one_object 16 = 0"
    using o st same same_shapes_facts(1) [OF same]
    by (simp add: own_slots_def same_shapes_def get_slots_size_def blank_struct_def)
  show "\<exists>ob. objs one_object 16 = Some ob \<and> is_extensible ob"
    using o and_flag_eq_0 [of 1 0] by (simp add: is_extensible_def OBJ_FLAG_EXTENSIBLE_def)
qed

lemma named_key: "n \<noteq> 0 \<Longrightarrow> named (Key n)"
  by (simp add: named_def DUMMY_SYMBOL_def)

text \<open>
  C6. Defining a new named property (the last branch of \<open>DefineOwnNonIndexedPropertySlot\<close>): an
  extensible object has afterwards exactly its old properties and the new one, with the value and
  the attributes the descriptor gives it; an object that is not extensible keeps its properties
  and the definition is rejected. The object stays well formed. All other objects keep their cells, and
  those whose structure is not unique keep their properties. Nothing is said about the properties of
  another object whose structure is unique: it can be the same structure (\<open>JsObject::copy\<close> gives the copy
  the structure of its source), and \<open>add_property_unique\<close> changes a unique structure in place.
\<close>

theorem define_new_property:
  assumes "object_ok h o1" "objs h o1 = Some ob" "named name" "own_props h o1 name = None"
    and "heap_room h" "own_slots h o1 < 2 ^ 27"
  shows "\<exists>h'. object_ok h' o1 \<and> others_kept h o1 h' \<and>
    (if is_extensible ob then
       define_own_property o1 name desc t h = ret True h' \<and>
       own_props h' o1 = (own_props h o1)(name \<mapsto> fst (stored_slot_new h desc))
     else
       define_own_property o1 name desc t h = reject_or t ''Object non extensible'' False h' \<and>
       own_props h' o1 = own_props h o1)"
  using define_new_spec [OF assms, of desc t] by (cases "is_extensible ob") auto

text \<open>A heap whose object at 16 has one property.\<close>

lemma grown_object:
  "\<exists>h'. define_own_property 16 (Key 1) (data_descriptor 4 (WRITABLE OR CONFIGURABLE)) False one_object = ret True h' \<and>
     object_ok h' 16 \<and> next_cell h' < 2 ^ 44 \<and>
     own_props h' 16 = [Key 1 \<mapsto> fst (stored_slot_new one_object (data_descriptor 4 (WRITABLE OR CONFIGURABLE)))]"
proof -
  obtain ob where "objs one_object 16 = Some ob" "is_extensible ob" using one_object_ok(5) by blast
  then show ?thesis
    using define_new_spec [OF one_object_ok(1) _ named_key, of ob 1 "data_descriptor 4 (WRITABLE OR CONFIGURABLE)" False]
      one_object_ok(2-4)
    by (auto simp: stored_slot_new_def data_descriptor_def one_object_def Let_def flag_simps flag_bits bit_or_iff)
qed

theorem define_new_property_witness:
  "\<exists>h'. define_own_property 16 (Key 1) (data_descriptor 4 0) False one_object = ret True h' \<and>
     own_props h' 16 = [Key 1 \<mapsto> fst (stored_slot_new one_object (data_descriptor 4 0))]"
proof -
  obtain ob where "objs one_object 16 = Some ob" "is_extensible ob" using one_object_ok(5) by blast
  then show ?thesis
    using define_new_property [OF one_object_ok(1) _ named_key, of ob 1 "data_descriptor 4 0" False]
      one_object_ok(2-4) by auto
qed

text \<open>
  C7. Redefining a named property (the first branch of \<open>DefineOwnNonIndexedPropertySlot\<close>) never
  panics and does what \<open>is_defined_property_accepted\<close> and \<open>merge\<close> say: a rejected descriptor throws
  or returns false and changes nothing; an accepted one puts the merged value and attributes in
  the property's slot, through a structure transition when the attributes change, and changes no
  other property of the object and no other object with a shared structure.
\<close>

theorem redefine_property:
  assumes "object_ok h o1" "named name" "own_props h o1 name = Some st" "heap_room h"
  shows "\<exists>h'. object_ok h' o1 \<and> others_kept h o1 h' \<and>
    (case is_defined_property_accepted h st desc t of
       None \<Rightarrow> False
     | Some (Inl e) \<Rightarrow> define_own_property o1 name desc t h = throw e h' \<and> own_props h' o1 = own_props h o1
     | Some (Inr (go, r)) \<Rightarrow> define_own_property o1 name desc t h = ret r h' \<and>
         (if go then \<exists>st' h''. merge h st desc = Some (st', h'') \<and> own_props h' o1 = (own_props h o1)(name \<mapsto> st')
          else own_props h' o1 = own_props h o1))"
  using assms by (rule define_existing_spec)

text \<open>
  C8. [[Delete]] of a named property: an absent property is deleted with success and nothing
  changes; a configurable property is gone afterwards and every other property is kept; a property
  that is not configurable stays, and the deletion throws or returns false. No panic, and the
  other objects are kept as before.
\<close>

theorem delete_named_property:
  assumes "object_ok h o1" "named name"
  shows "\<exists>h'. object_ok h' o1 \<and> others_kept h o1 h' \<and>
    (case own_props h o1 name of
       None \<Rightarrow> object_delete o1 name t h = ret True h' \<and> own_props h' o1 = own_props h o1
     | Some st \<Rightarrow>
         if is_configurable (slot_attrs st) then
           object_delete o1 name t h = ret True h' \<and> own_props h' o1 = (own_props h o1)(name := None)
         else
           object_delete o1 name t h = reject_or t ''Can not delete non configurable property'' False h' \<and>
           own_props h' o1 = own_props h o1)"
  using assms by (rule delete_spec)

theorem delete_named_property_witness:
  "\<exists>h1 h2. define_own_property 16 (Key 1) (data_descriptor 4 (WRITABLE OR CONFIGURABLE)) False one_object = ret True h1 \<and>
     object_delete 16 (Key 1) False h1 = ret True h2 \<and> own_props h2 16 = Map.empty"
proof -
  obtain h1 where h1: "define_own_property 16 (Key 1) (data_descriptor 4 (WRITABLE OR CONFIGURABLE)) False one_object = ret True h1"
    "object_ok h1 16"
    "own_props h1 16 = [Key 1 \<mapsto> fst (stored_slot_new one_object (data_descriptor 4 (WRITABLE OR CONFIGURABLE)))]"
    using grown_object by blast
  have "is_configurable (slot_attrs (fst (stored_slot_new one_object (data_descriptor 4 (WRITABLE OR CONFIGURABLE)))))"
    by (simp add: stored_slot_new_def Let_def data_descriptor_def flag_simps flag_bits bit_or_iff)
  then obtain h2 where "object_delete 16 (Key 1) False h1 = ret True h2" "own_props h2 16 = (own_props h1 16)(Key 1 := None)"
    using delete_named_property [OF h1(2) named_key, of 1 False] h1(3) by auto
  moreover have "(own_props h1 16)(Key 1 := None) = Map.empty" using h1(3) by (simp add: fun_eq_iff)
  ultimately show ?thesis using h1(1) by auto
qed

theorem redefine_property_witness:
  "\<exists>h1 h2 r. define_own_property 16 (Key 1) (data_descriptor 4 (WRITABLE OR CONFIGURABLE)) False one_object = ret True h1 \<and>
     define_own_property 16 (Key 1) (data_descriptor 6 ENUMERABLE) True h1 = Some (r, h2) \<and> object_ok h2 16"
proof -
  obtain h1 where h1: "define_own_property 16 (Key 1) (data_descriptor 4 (WRITABLE OR CONFIGURABLE)) False one_object = ret True h1"
    "object_ok h1 16" "next_cell h1 < 2 ^ 44"
    "own_props h1 16 = [Key 1 \<mapsto> fst (stored_slot_new one_object (data_descriptor 4 (WRITABLE OR CONFIGURABLE)))]"
    using grown_object by blast
  let ?d = "data_descriptor 6 ENUMERABLE"
  let ?st = "fst (stored_slot_new one_object (data_descriptor 4 (WRITABLE OR CONFIGURABLE)))"
  have own: "own_props h1 16 (Key 1) = Some ?st" by (simp add: h1(4))
  have "heap_room h1" using h1(3) by (simp add: heap_room_def)
  note this' = redefine_property [OF h1(2) named_key own this, of ?d True]
  have "\<exists>r h2. define_own_property 16 (Key 1) ?d True h1 = Some (r, h2) \<and> object_ok h2 16"
  proof (cases "is_defined_property_accepted h1 ?st ?d True")
    case None
    with this' show ?thesis by simp
  next
    case (Some a)
    with this' show ?thesis by (cases a) (auto simp: ret_def throw_def split: prod.splits)
  qed
  with h1(1) show ?thesis by blast
qed


theorem get_own_property_slot_correct_witness:
  "\<exists>sl' h'. get_own_property_slot 16 (Key 1) slot_new one_object = Some (False, sl', h')"
  using get_own_property_slot_correct [OF one_object_ok(1) named_key, of 1 slot_new] one_object_ok(2) by auto

end
