(* ===== verification/Tagged_Ptr.thy ===== *)
theory Tagged_Ptr
  imports Starlight_Prelude
begin

text \<open>
  Tagged pointers (wtf-rs, tagged_ptr.rs) and the state of a garbage collected cell, which is the
  tag of its vtable pointer (gc/cell.rs). \<open>compare_exchange_weak\<close> may fail although the comparison
  succeeds; the parameter \<open>spurious\<close> says whether it does.
\<close>

section \<open>TaggedPointer with three tag bits\<close>

type_synonym tagged_pointer = u64

definition TAG_BITS :: u64 where "TAG_BITS = 8"
definition TAG_MASK :: u64 where "TAG_MASK = TAG_BITS - 1"
definition PTR_MASK :: u64 where "PTR_MASK = NOT TAG_MASK"

definition tp_get_ptr :: "tagged_pointer \<Rightarrow> u64" where
  "tp_get_ptr v = v AND PTR_MASK"
definition tp_tag :: "tagged_pointer \<Rightarrow> u64" where
  "tp_tag v = v AND TAG_MASK"
definition tp_new :: "u64 \<Rightarrow> u64 \<Rightarrow> tagged_pointer" where
  "tp_new ptr tag = ptr OR tag"
definition tp_set_ptr :: "u64 \<Rightarrow> tagged_pointer \<Rightarrow> tagged_pointer" where
  "tp_set_ptr ptr v = ptr OR (v AND TAG_MASK)"
definition tp_set_tag :: "u64 \<Rightarrow> tagged_pointer \<Rightarrow> tagged_pointer" where
  "tp_set_tag tag v = tp_get_ptr v OR tag"
definition tp_compare_and_set_tag :: "bool \<Rightarrow> u64 \<Rightarrow> u64 \<Rightarrow> tagged_pointer \<Rightarrow> bool \<times> tagged_pointer" where
  "tp_compare_and_set_tag spurious current new v =
     (let ptr = tp_get_ptr v in
      if v = ptr OR current \<and> \<not> spurious then (True, ptr OR new) else (False, v))"

section \<open>The state of a cell\<close>

definition POSSIBLY_BLACK :: u64 where "POSSIBLY_BLACK = 0"
definition POSSIBLY_GREY :: u64 where "POSSIBLY_GREY = 2"
definition DEFINETELY_WHITE :: u64 where "DEFINETELY_WHITE = 1"

record gc_pointer_base =
  base_vtable :: tagged_pointer
  base_type_id :: u64

definition base_new :: "u64 \<Rightarrow> u64 \<Rightarrow> gc_pointer_base" where
  "base_new vtable type_id = \<lparr>base_vtable = tp_new vtable DEFINETELY_WHITE, base_type_id = type_id\<rparr>"
definition cell_state :: "gc_pointer_base \<Rightarrow> u64" where
  "cell_state c = tp_tag (base_vtable c)"
definition cell_vtable :: "gc_pointer_base \<Rightarrow> u64" where
  "cell_vtable c = tp_get_ptr (base_vtable c)"
definition set_state :: "bool \<Rightarrow> u64 \<Rightarrow> u64 \<Rightarrow> gc_pointer_base \<Rightarrow> bool \<times> gc_pointer_base" where
  "set_state spurious old new c =
     (let (ok, v) = tp_compare_and_set_tag spurious old new (base_vtable c) in (ok, c\<lparr>base_vtable := v\<rparr>))"
definition force_set_state :: "u64 \<Rightarrow> gc_pointer_base \<Rightarrow> gc_pointer_base" where
  "force_set_state s c = c\<lparr>base_vtable := tp_set_tag s (base_vtable c)\<rparr>"

section \<open>The tag and the pointer are independent\<close>

lemma tag_mask_bits: "bit TAG_MASK n \<longleftrightarrow> n < 3"
proof -
  have "TAG_MASK = mask 3" by (simp add: TAG_MASK_def TAG_BITS_def mask_eq_exp_minus_1)
  moreover have "bit (mask 3 :: u64) n \<longleftrightarrow> n < 3" by (auto simp: bit_mask_iff possible_bit_word)
  ultimately show ?thesis by simp
qed

lemma tag_of_less: "tag < 8 \<Longrightarrow> bit (tag :: u64) n \<Longrightarrow> n < 3"
proof (rule ccontr)
  assume "tag < 8" "bit tag n" "\<not> n < 3"
  have "tag = take_bit 3 tag"
  proof -
    have "unat tag < 8" using \<open>tag < 8\<close> by (simp add: word_less_nat_alt)
    then have "unat (take_bit 3 tag) = unat tag" by (simp add: take_bit_eq_mod unat_mod)
    then show ?thesis by (metis word_unat_eq_iff)
  qed
  with \<open>bit tag n\<close> \<open>\<not> n < 3\<close> show False by (metis bit_take_bit_iff)
qed

lemma tagged_bits:
  assumes "tag < 8"
  shows "tp_get_ptr (tp_get_ptr v OR tag) = tp_get_ptr v" "tp_tag (tp_get_ptr v OR tag) = tag"
proof -
  have t: "bit tag n \<longrightarrow> n < 3" for n using tag_of_less [OF assms] by blast
  show "tp_get_ptr (tp_get_ptr v OR tag) = tp_get_ptr v"
    by (rule bit_eqI) (use t in \<open>auto simp: tp_get_ptr_def PTR_MASK_def bit_and_iff bit_or_iff bit_not_iff tag_mask_bits possible_bit_word\<close>)
  show "tp_tag (tp_get_ptr v OR tag) = tag"
    by (rule bit_eqI) (use t in \<open>auto simp: tp_tag_def tp_get_ptr_def PTR_MASK_def bit_and_iff bit_or_iff bit_not_iff tag_mask_bits possible_bit_word\<close>)
qed

lemma tagged_split: "tp_get_ptr v OR tp_tag v = v"
  by (rule bit_eqI) (auto simp: tp_tag_def tp_get_ptr_def PTR_MASK_def bit_and_iff bit_or_iff bit_not_iff possible_bit_word)

lemma compare_and_set_iff:
  assumes "current < 8" "new < 8"
  shows "tp_compare_and_set_tag spurious current new v =
    (if tp_tag v = current \<and> \<not> spurious then (True, tp_set_tag new v) else (False, v))"
proof -
  have "v = tp_get_ptr v OR current \<longleftrightarrow> tp_tag v = current"
    using tagged_bits(2) [OF assms(1), of v] tagged_split [of v] by metis
  then show ?thesis by (auto simp: tp_compare_and_set_tag_def Let_def tp_set_tag_def)
qed

text \<open>The three states are tags.\<close>

lemma states_small [simp]:
  "POSSIBLY_BLACK < 8" "POSSIBLY_GREY < 8" "DEFINETELY_WHITE < 8"
  by (simp_all add: POSSIBLY_BLACK_def POSSIBLY_GREY_def DEFINETELY_WHITE_def)

lemma states_differ [simp]:
  "POSSIBLY_BLACK \<noteq> POSSIBLY_GREY" "POSSIBLY_GREY \<noteq> POSSIBLY_BLACK" "POSSIBLY_BLACK \<noteq> DEFINETELY_WHITE"
  "DEFINETELY_WHITE \<noteq> POSSIBLY_BLACK" "DEFINETELY_WHITE \<noteq> POSSIBLY_GREY" "POSSIBLY_GREY \<noteq> DEFINETELY_WHITE"
  by (simp_all add: POSSIBLY_BLACK_def POSSIBLY_GREY_def DEFINETELY_WHITE_def)

text \<open>
  C38. The state of a cell is independent of its vtable pointer: an exchange of states succeeds
  exactly when the cell is in the expected state and the exchange does not fail spuriously; then
  the cell is in the new state with the same vtable and type, and otherwise nothing changes.
\<close>

theorem set_state_exact:
  assumes "old < 8" "new < 8"
  shows "fst (set_state spurious old new c) = (cell_state c = old \<and> \<not> spurious) \<and>
    cell_state (snd (set_state spurious old new c)) = (if cell_state c = old \<and> \<not> spurious then new else cell_state c) \<and>
    cell_vtable (snd (set_state spurious old new c)) = cell_vtable c \<and>
    base_type_id (snd (set_state spurious old new c)) = base_type_id c"
  using compare_and_set_iff [OF assms, of spurious "base_vtable c"] tagged_bits [OF assms(2), of "base_vtable c"]
  by (auto simp: set_state_def cell_state_def cell_vtable_def tp_set_tag_def)

theorem set_state_exact_witness:
  "cell_state (snd (set_state False DEFINETELY_WHITE POSSIBLY_GREY (base_new 4096 7))) = POSSIBLY_GREY"
proof -
  have "cell_state (base_new 4096 7) = DEFINETELY_WHITE"
    by (simp add: cell_state_def base_new_def tp_new_def tp_tag_def TAG_MASK_def TAG_BITS_def DEFINETELY_WHITE_def)
  then show ?thesis
    using set_state_exact [of DEFINETELY_WHITE POSSIBLY_GREY False "base_new 4096 7"] by simp
qed

end
