(* ===== verification/Gc_Block.thy ===== *)
theory Gc_Block
  imports Starlight_Prelude
begin

text \<open>
  Blocks of cells (gc/block.rs) and the allocator of blocks (gc/block_allocator.rs). A block is 16
  KB of memory with a header and cells of one size. A free list is linked through the free cells:
  here it is the list of its cells, head first, and the blocks of a chain are the list of their
  addresses. Pages that were never used, or were given back, hold no block.
\<close>

definition BLOCK_SIZE :: nat where "BLOCK_SIZE = 16 * 1024"

text \<open>The offset of \<open>data_start\<close>: a pointer, a flag, a 16-bit size and a pointer come before it.\<close>

definition DATA_START :: nat where "DATA_START = 24"

definition align_usize :: "nat \<Rightarrow> nat \<Rightarrow> nat" where
  "align_usize v align = (if align = 0 then v else (v + align - 1) div align * align)"
definition is_aligned :: "nat \<Rightarrow> nat \<Rightarrow> bool" where
  "is_aligned v align = (align_usize v align = v)"

type_synonym free_list = "nat list"

definition freelist_new :: free_list where "freelist_new = []"
definition freelist_get :: "free_list \<Rightarrow> nat option \<times> free_list" where
  "freelist_get fl = (case fl of [] \<Rightarrow> (None, []) | p # fl' \<Rightarrow> (Some p, fl'))"
definition freelist_add :: "nat \<Rightarrow> free_list \<Rightarrow> free_list" where
  "freelist_add ptr fl = ptr # fl"

record block =
  blk_allocated :: bool
  blk_cell_size :: nat
  blk_freelist :: free_list

definition get_block_ptr :: "nat \<Rightarrow> nat" where
  "get_block_ptr obj = obj - obj mod BLOCK_SIZE"
definition block_new :: "nat \<Rightarrow> block panics" where
  "block_new at =
     (if at mod BLOCK_SIZE \<noteq> 0 then None
      else Some \<lparr>blk_allocated = False, blk_cell_size = 65535, blk_freelist = freelist_new\<rparr>)"
definition block_begin :: "nat \<Rightarrow> nat" where
  "block_begin at = at + DATA_START"
definition block_end :: "nat \<Rightarrow> nat" where
  "block_end at = at + BLOCK_SIZE"
definition is_in_block :: "nat \<Rightarrow> block \<Rightarrow> nat \<Rightarrow> bool" where
  "is_in_block at b p =
     (if blk_allocated b then
        (let bg = block_begin at; e = bg + BLOCK_SIZE in bg < p \<and> p \<le> e)
      else False)"
definition block_allocate :: "block \<Rightarrow> nat option \<times> block" where
  "block_allocate b = (let (p, fl) = freelist_get (blk_freelist b) in (p, b\<lparr>blk_freelist := fl\<rparr>))"
definition block_deallocate :: "nat \<Rightarrow> block \<Rightarrow> block" where
  "block_deallocate ptr b = b\<lparr>blk_freelist := freelist_add ptr (blk_freelist b)\<rparr>"
definition cell_count :: "block \<Rightarrow> nat" where
  "cell_count b = (BLOCK_SIZE - DATA_START) div blk_cell_size b"
definition block_cell :: "nat \<Rightarrow> block \<Rightarrow> nat \<Rightarrow> nat" where
  "block_cell at b idx = block_begin at + idx * blk_cell_size b"
definition block_walk :: "nat \<Rightarrow> block \<Rightarrow> nat list" where
  "block_walk at b = map (block_cell at b) [0..<cell_count b]"
definition block_init :: "nat \<Rightarrow> nat \<Rightarrow> block \<Rightarrow> block panics" where
  "block_init cell_size at b =
     (if \<not> (cell_size \<ge> 16 \<and> is_aligned cell_size 16) then None
      else
        (let b1 = b\<lparr>blk_cell_size := cell_size\<rparr>
         in Some (b1\<lparr>blk_freelist := fold freelist_add (block_walk at b1) freelist_new\<rparr>)))"
definition cell_from_ptr :: "nat \<Rightarrow> block \<Rightarrow> nat \<Rightarrow> nat option" where
  "cell_from_ptr at b ptr =
     (if ptr < block_begin at then None
      else
        (let index = (ptr - block_begin at) div blk_cell_size b
         in if index \<ge> cell_count b then None else Some (block_cell at b index)))"

section \<open>The block allocator\<close>

record block_space =
  bs_blocks :: "nat \<Rightarrow> block option"
  bs_free_blocks :: "nat list"
  bs_data :: nat
  bs_data_bound :: nat
  bs_start :: nat

definition mmap_aligned :: "nat \<Rightarrow> nat" where
  "mmap_aligned start = start + (BLOCK_SIZE - start mod BLOCK_SIZE)"

text \<open>The mapping starts at \<open>start\<close>, which the operating system chooses.\<close>

definition block_allocator_new :: "nat \<Rightarrow> nat \<Rightarrow> block_space panics" where
  "block_allocator_new start sz =
     (let this = \<lparr>bs_blocks = (\<lambda>_. None), bs_free_blocks = [], bs_data = mmap_aligned start,
                  bs_data_bound = start + sz, bs_start = start\<rparr>
      in if bs_data this mod BLOCK_SIZE \<noteq> 0 then None else Some this)"
definition total_blocks :: "block_space \<Rightarrow> nat panics" where
  "total_blocks s =
     (if bs_data_bound s < mmap_aligned (bs_start s) then None
      else Some ((bs_data_bound s - mmap_aligned (bs_start s)) div BLOCK_SIZE))"

text \<open>The header of a block on pages that were never written: all zero.\<close>

definition zero_block :: block where
  "zero_block = \<lparr>blk_allocated = False, blk_cell_size = 0, blk_freelist = []\<rparr>"

definition build_block :: "block_space \<Rightarrow> (nat option \<times> block_space) panics" where
  "build_block s =
     (let old = bs_data s; new = old + BLOCK_SIZE in
      if new > bs_data_bound s then Some (None, s)
      else if old mod BLOCK_SIZE \<noteq> 0 then None
      else Some (Some old, s\<lparr>bs_data := new, bs_blocks := (bs_blocks s)(old \<mapsto> zero_block)\<rparr>))"
definition get_block :: "block_space \<Rightarrow> (nat option \<times> block_space) panics" where
  "get_block s =
     (if bs_free_blocks s = [] then build_block s
      else
        (let x = last (bs_free_blocks s) in
         do { b \<leftarrow> block_new x;
              Some (Some x, s\<lparr>bs_free_blocks := butlast (bs_free_blocks s), bs_blocks := (bs_blocks s)(x \<mapsto> b)\<rparr>) }))"
definition return_block :: "nat \<Rightarrow> block_space \<Rightarrow> block_space" where
  "return_block b s = s\<lparr>bs_blocks := (bs_blocks s)(b := None), bs_free_blocks := bs_free_blocks s @ [b]\<rparr>"
definition return_blocks :: "nat list \<Rightarrow> block_space \<Rightarrow> block_space" where
  "return_blocks bs s = fold return_block bs s"
definition available_blocks :: "block_space \<Rightarrow> nat panics" where
  "available_blocks s =
     (if bs_data_bound s < bs_data s then None
      else Some ((bs_data_bound s - bs_data s) div BLOCK_SIZE + length (bs_free_blocks s)))"
definition is_in_space :: "block_space \<Rightarrow> nat \<Rightarrow> bool" where
  "is_in_space s obj = (bs_start s < obj \<and> obj \<le> bs_data_bound s)"

section \<open>Cells of a block\<close>

lemma aligned_16: "is_aligned n 16 \<longleftrightarrow> n mod 16 = 0"
proof
  assume "n mod 16 = 0"
  then obtain k where "n = 16 * k" by auto
  then show "is_aligned n 16" by (simp add: is_aligned_def align_usize_def)
next
  assume "is_aligned n 16"
  then have "(n + 15) div 16 * 16 = n" by (simp add: is_aligned_def align_usize_def add.commute)
  then show "n mod 16 = 0" by (metis mod_mult_self2_is_0)
qed

lemma fold_add: "fold freelist_add xs ys = rev xs @ ys"
  by (induction xs arbitrary: ys) (simp_all add: freelist_add_def)

lemma block_init_eq:
  assumes "block_init cs at b = Some b'"
  shows "16 \<le> cs" "cs mod 16 = 0" "b' = b\<lparr>blk_cell_size := cs, blk_freelist := rev (block_walk at b')\<rparr>"
    "blk_cell_size b' = cs"
  using assms
  by (auto simp: block_init_def aligned_16 fold_add freelist_new_def Let_def block_walk_def block_cell_def cell_count_def
      split: if_splits cong: map_cong)

lemma cells_distinct: "0 < blk_cell_size b \<Longrightarrow> distinct (block_walk at b)"
  by (auto simp: block_walk_def distinct_map inj_on_def block_cell_def)

lemma cell_in_block:
  assumes "c \<in> set (block_walk at b)"
  shows "at < c" "c + blk_cell_size b \<le> at + BLOCK_SIZE"
proof -
  from assms obtain i where i: "i < cell_count b" "c = block_cell at b i" by (auto simp: block_walk_def)
  then show "at < c" by (simp add: block_cell_def block_begin_def DATA_START_def)
  have "Suc i * blk_cell_size b \<le> cell_count b * blk_cell_size b" using i(1) by (intro mult_le_mono1) simp
  also have "\<dots> \<le> BLOCK_SIZE - DATA_START" by (simp add: cell_count_def div_times_less_eq_dividend)
  finally show "c + blk_cell_size b \<le> at + BLOCK_SIZE"
    by (simp add: i(2) block_cell_def block_begin_def DATA_START_def BLOCK_SIZE_def)
qed

lemma cell_block_ptr:
  assumes "at mod BLOCK_SIZE = 0" "c \<in> set (block_walk at b)" "c \<le> p" "p < c + blk_cell_size b"
  shows "get_block_ptr p = at"
proof -
  have p: "at \<le> p" "p - at < BLOCK_SIZE" using cell_in_block [OF assms(2)] assms(3,4) by linarith+
  have "p mod BLOCK_SIZE = (at + (p - at)) mod BLOCK_SIZE" using p(1) by simp
  also have "\<dots> = (p - at) mod BLOCK_SIZE" using assms(1) by (metis mod_add_left_eq add_0)
  also have "\<dots> = p - at" using p(2) by (rule mod_less)
  finally show ?thesis using p(1) by (simp add: get_block_ptr_def)
qed

lemma cells_apart:
  assumes "c \<in> set (block_walk at b)" "d \<in> set (block_walk at b)" "c < d"
  shows "c + blk_cell_size b \<le> d"
proof -
  from assms obtain i j where ij: "c = block_cell at b i" "d = block_cell at b j" by (auto simp: block_walk_def)
  with assms(3) have "i < j" by (metis block_cell_def add_left_mono mult_le_mono1 not_less)
  then have "Suc i * blk_cell_size b \<le> j * blk_cell_size b" by (intro mult_le_mono1) simp
  then show ?thesis by (simp add: ij block_cell_def)
qed

text \<open>
  C36. A block that was initialised is carved up correctly: its free list has every cell once, all
  cells lie inside the block behind the header, two cells never overlap, and the block of an object
  is found again from any address inside its cell.
\<close>

theorem block_init_carves:
  assumes "at mod BLOCK_SIZE = 0" "block_init cs at b = Some b'"
  shows "distinct (blk_freelist b') \<and> set (blk_freelist b') = set (block_walk at b') \<and>
    (\<forall>c \<in> set (blk_freelist b'). at + DATA_START \<le> c \<and> c + cs \<le> at + BLOCK_SIZE \<and>
       (\<forall>d \<in> set (blk_freelist b'). c < d \<longrightarrow> c + cs \<le> d) \<and>
       (\<forall>p. c \<le> p \<and> p < c + cs \<longrightarrow> get_block_ptr p = at))"
proof -
  note e = block_init_eq [OF assms(2)]
  have fl: "blk_freelist b' = rev (block_walk at b')" by (subst e(3)) simp
  have "at + DATA_START \<le> c" if "c \<in> set (block_walk at b')" for c
    using that by (auto simp: block_walk_def block_cell_def block_begin_def)
  with fl e(1,4) show ?thesis
    using cells_distinct [of b' at] cell_in_block(2) [of _ at b'] cells_apart [of _ at b'] cell_block_ptr [OF assms(1), of _ b']
    by simp
qed

theorem block_init_carves_witness:
  "\<exists>b'. block_init 4096 0 zero_block = Some b' \<and> distinct (blk_freelist b')"
proof -
  have "block_init 4096 0 zero_block \<noteq> None" by (simp add: block_init_def aligned_16 Let_def)
  then obtain b' where b': "block_init 4096 0 zero_block = Some b'" by blast
  with block_init_carves [OF _ b'] show ?thesis by simp
qed

section \<open>Blocks are handed out once\<close>

definition aligned_block :: "block_space \<Rightarrow> nat \<Rightarrow> bool" where
  "aligned_block s b \<longleftrightarrow> b mod BLOCK_SIZE = 0 \<and> mmap_aligned (bs_start s) \<le> b \<and> b + BLOCK_SIZE \<le> bs_data s"

text \<open>\<open>used\<close> are the blocks that are handed out.\<close>

definition space_ok :: "block_space \<Rightarrow> nat set \<Rightarrow> bool" where
  "space_ok s used \<longleftrightarrow>
     bs_data s mod BLOCK_SIZE = 0 \<and> mmap_aligned (bs_start s) \<le> bs_data s \<and> bs_data s \<le> bs_data_bound s \<and>
     distinct (bs_free_blocks s) \<and> set (bs_free_blocks s) \<inter> used = {} \<and> finite used \<and>
     (\<forall>b \<in> set (bs_free_blocks s) \<union> used. aligned_block s b) \<and> (\<forall>b. bs_blocks s b \<noteq> None \<longleftrightarrow> b \<in> used)"

lemma mmap_aligned_mod: "mmap_aligned start mod BLOCK_SIZE = 0" "start < mmap_aligned start" "mmap_aligned start \<le> start + BLOCK_SIZE"
proof -
  have pos: "(0::nat) < BLOCK_SIZE" by (simp add: BLOCK_SIZE_def)
  have "start + (BLOCK_SIZE - start mod BLOCK_SIZE) = start div BLOCK_SIZE * BLOCK_SIZE + BLOCK_SIZE"
    using mod_less_divisor [OF pos, of start] div_mult_mod_eq [of start BLOCK_SIZE] by linarith
  then show "mmap_aligned start mod BLOCK_SIZE = 0" by (simp add: mmap_aligned_def)
  show "start < mmap_aligned start" "mmap_aligned start \<le> start + BLOCK_SIZE"
    using mod_less_divisor [OF pos, of start] by (simp_all add: mmap_aligned_def)
qed

lemma allocator_new_ok:
  assumes "BLOCK_SIZE \<le> sz"
  shows "\<exists>s. block_allocator_new start sz = Some s \<and> space_ok s {}"
  using assms mmap_aligned_mod [of start]
  by (simp add: block_allocator_new_def space_ok_def Let_def)

lemma get_block_spec:
  assumes ok: "space_ok s used"
  shows "\<exists>r s'. get_block s = Some (r, s') \<and>
    (case r of
       None \<Rightarrow> s' = s \<and> available_blocks s = Some 0
     | Some b \<Rightarrow> b \<notin> used \<and> aligned_block s' b \<and> space_ok s' (insert b used) \<and>
         (\<exists>n. available_blocks s = Some (Suc n) \<and> available_blocks s' = Some n) \<and>
         bs_blocks s' = (bs_blocks s)(b := bs_blocks s' b) \<and> bs_start s' = bs_start s \<and> bs_data_bound s' = bs_data_bound s)"
proof (cases "bs_free_blocks s = []")
  case True
  show ?thesis
  proof (cases "bs_data s + BLOCK_SIZE > bs_data_bound s")
    case full: True
    then have "bs_data_bound s - bs_data s < BLOCK_SIZE" using ok by (auto simp: space_ok_def)
    with True full ok show ?thesis
      by (simp add: get_block_def build_block_def Let_def available_blocks_def space_ok_def)
  next
    case room: False
    let ?b = "bs_data s"
    let ?s = "s\<lparr>bs_data := ?b + BLOCK_SIZE, bs_blocks := (bs_blocks s)(?b \<mapsto> zero_block)\<rparr>"
    have get: "get_block s = Some (Some ?b, ?s)"
      using True room ok by (simp add: get_block_def build_block_def Let_def space_ok_def)
    have fresh: "?b \<notin> used"
    proof
      assume "?b \<in> used"
      with ok have "?b + BLOCK_SIZE \<le> ?b" unfolding space_ok_def aligned_block_def by blast
      then show False by (simp add: BLOCK_SIZE_def)
    qed
    have "space_ok ?s (insert ?b used)"
      using ok True room by (auto simp: space_ok_def aligned_block_def mod_add_self2)
    moreover have "\<exists>n. available_blocks s = Some (Suc n) \<and> available_blocks ?s = Some n"
    proof -
      have "bs_data_bound s - bs_data s = BLOCK_SIZE + (bs_data_bound s - (bs_data s + BLOCK_SIZE))" using room by simp
      moreover have "0 < BLOCK_SIZE" by (simp add: BLOCK_SIZE_def)
      ultimately have "(bs_data_bound s - bs_data s) div BLOCK_SIZE = Suc ((bs_data_bound s - (bs_data s + BLOCK_SIZE)) div BLOCK_SIZE)"
        by (metis div_add_self1 Suc_eq_plus1 less_numeral_extra(3) add.commute)
      then show ?thesis using room True ok by (simp add: available_blocks_def space_ok_def)
    qed
    moreover have "aligned_block ?s ?b" using ok by (simp add: space_ok_def aligned_block_def)
    ultimately show ?thesis using get fresh by (intro exI [of _ "Some ?b"] exI [of _ ?s]) simp
  qed
next
  case False
  let ?x = "last (bs_free_blocks s)"
  have x: "?x \<in> set (bs_free_blocks s)" "bs_free_blocks s = butlast (bs_free_blocks s) @ [?x]" using False by simp_all
  then have "?x mod BLOCK_SIZE = 0" using ok by (auto simp: space_ok_def aligned_block_def)
  then obtain b where b: "block_new ?x = Some b" by (simp add: block_new_def)
  let ?s = "s\<lparr>bs_free_blocks := butlast (bs_free_blocks s), bs_blocks := (bs_blocks s)(?x \<mapsto> b)\<rparr>"
  have get: "get_block s = Some (Some ?x, ?s)" using False b by (simp add: get_block_def Let_def)
  have d: "distinct (butlast (bs_free_blocks s) @ [?x])" using ok x(2) by (simp add: space_ok_def)
  have sub: "set (bs_free_blocks s) = insert ?x (set (butlast (bs_free_blocks s)))" using x(2) by (metis set_append list.simps(15) Un_insert_right append_Nil2 empty_set sup_bot.right_neutral)
  have "space_ok ?s (insert ?x used)"
    using ok d sub by (auto simp: space_ok_def aligned_block_def)
  moreover have "?x \<notin> used" "aligned_block ?s ?x" using ok x(1) by (auto simp: space_ok_def aligned_block_def)
  moreover have "\<exists>n. available_blocks s = Some (Suc n) \<and> available_blocks ?s = Some n"
  proof -
    have "length (bs_free_blocks s) = Suc (length (butlast (bs_free_blocks s)))" using False by (cases "bs_free_blocks s") simp_all
    then show ?thesis using ok by (simp add: available_blocks_def space_ok_def)
  qed
  ultimately show ?thesis using get by (intro exI [of _ "Some ?x"] exI [of _ ?s]) simp
qed

lemma return_block_spec:
  assumes "space_ok s used" "b \<in> used"
  shows "space_ok (return_block b s) (used - {b})"
    "available_blocks (return_block b s) = map_option Suc (available_blocks s)"
  using assms by (auto simp: space_ok_def return_block_def aligned_block_def available_blocks_def)

text \<open>
  The block allocator never hands a block out twice: with any set of blocks in use, \<open>get_block\<close>
  returns (no assertion fails) a block that is not in use, aligned and inside the mapping, and one
  block fewer is available; it answers none exactly when no block is available; and a block that
  is given back is available again.
\<close>

theorem get_block_fresh:
  assumes "space_ok s used"
  shows "\<exists>r s'. get_block s = Some (r, s') \<and>
    (case r of
       None \<Rightarrow> available_blocks s = Some 0
     | Some b \<Rightarrow> b \<notin> used \<and> b mod BLOCK_SIZE = 0 \<and> bs_start s < b \<and> b + BLOCK_SIZE \<le> bs_data_bound s \<and>
         space_ok s' (insert b used) \<and> available_blocks s = map_option Suc (available_blocks s') \<and>
         space_ok (return_block b s') used \<and> available_blocks (return_block b s') = available_blocks s)"
proof -
  obtain r s' where g: "get_block s = Some (r, s')"
    "case r of None \<Rightarrow> s' = s \<and> available_blocks s = Some 0
      | Some b \<Rightarrow> b \<notin> used \<and> aligned_block s' b \<and> space_ok s' (insert b used) \<and>
         (\<exists>n. available_blocks s = Some (Suc n) \<and> available_blocks s' = Some n) \<and>
         bs_blocks s' = (bs_blocks s)(b := bs_blocks s' b) \<and> bs_start s' = bs_start s \<and> bs_data_bound s' = bs_data_bound s"
    using get_block_spec [OF assms] by blast
  show ?thesis
  proof (cases r)
    case None
    with g show ?thesis by simp
  next
    case (Some b)
    with g have b: "b \<notin> used" "aligned_block s' b" "space_ok s' (insert b used)" "bs_start s' = bs_start s"
      "bs_data_bound s' = bs_data_bound s" "\<exists>n. available_blocks s = Some (Suc n) \<and> available_blocks s' = Some n"
      by auto
    have "space_ok (return_block b s') used"
      using return_block_spec(1) [OF b(3), of b] b(1) by simp
    moreover have "available_blocks (return_block b s') = available_blocks s"
      using return_block_spec(2) [OF b(3), of b] b(6) by auto
    moreover have "bs_start s < b" "b + BLOCK_SIZE \<le> bs_data_bound s"
      using b(2-5) mmap_aligned_mod(2) [of "bs_start s"] by (auto simp: aligned_block_def space_ok_def)
    ultimately show ?thesis using g Some b by (auto simp: aligned_block_def)
  qed
qed

theorem get_block_fresh_witness:
  "\<exists>s. block_allocator_new 4096 65536 = Some s \<and> (\<exists>r s'. get_block s = Some (r, s'))"
proof -
  obtain s where s: "block_allocator_new 4096 65536 = Some s" "space_ok s {}"
    using allocator_new_ok [of 65536 4096] by (auto simp: BLOCK_SIZE_def)
  with get_block_fresh [OF s(2)] show ?thesis by blast
qed

end
