(* ===== verification/Mark_Bits.thy ===== *)
theory Mark_Bits
  imports Starlight_Prelude
begin

text \<open>
  What the collector relies on in a set of mark bits: \<open>test\<close> answers on the addresses that are
  covered, and writing the bit of an address changes the answer for the addresses of the same
  granule and for no others. The lemmas for sequences of writes are proved once here.
\<close>

locale mark_bits =
  fixes ok :: "'b \<Rightarrow> bool" and covers :: "'b \<Rightarrow> nat \<Rightarrow> bool" and granule :: "'b \<Rightarrow> nat \<Rightarrow> nat"
    and test :: "'b \<Rightarrow> nat \<Rightarrow> bool option" and modify :: "bool \<Rightarrow> nat \<Rightarrow> 'b \<Rightarrow> (bool \<times> 'b) option"
  assumes test_returns: "ok b \<Longrightarrow> covers b p \<Longrightarrow> \<exists>v. test b p = Some v"
    and modify_returns: "ok b \<Longrightarrow> covers b p \<Longrightarrow> \<exists>b'. modify v p b = Some (the (test b p), b')"
    and modify_keeps: "ok b \<Longrightarrow> covers b p \<Longrightarrow> modify v p b = Some (old, b') \<Longrightarrow>
      ok b' \<and> covers b' = covers b \<and> granule b' = granule b"
    and modify_test: "ok b \<Longrightarrow> covers b p \<Longrightarrow> covers b q \<Longrightarrow> modify v p b = Some (old, b') \<Longrightarrow>
      test b' q = (if granule b q = granule b p then Some v else test b q)"
begin

text \<open>A sequence of writes, each with the value it writes; setting and clearing can be mixed.\<close>

fun modify_all :: "(bool \<times> nat) list \<Rightarrow> 'b \<Rightarrow> 'b option" where
  "modify_all [] b = Some b"
| "modify_all ((v, p) # ws) b = (case modify v p b of None \<Rightarrow> None | Some (old, b') \<Rightarrow> modify_all ws b')"

text \<open>The last value written to a granule, if there is one.\<close>

definition last_write :: "'b \<Rightarrow> (bool \<times> nat) list \<Rightarrow> nat \<Rightarrow> bool option" where
  "last_write b ws q = map_of (rev (map (\<lambda>(v, p). (granule b p, v)) ws)) (granule b q)"

lemma last_write_simps:
  "last_write b [] q = None"
  "last_write b ((v, p) # ws) q = (case last_write b ws q of None \<Rightarrow> if granule b q = granule b p then Some v else None | Some u \<Rightarrow> Some u)"
  by (auto simp: last_write_def map_add_def split: option.split)

lemma modify_all_exact:
  assumes "ok b" "\<forall>(v, p) \<in> set ws. covers b p"
  shows "\<exists>b'. modify_all ws b = Some b' \<and> ok b' \<and> covers b' = covers b \<and> granule b' = granule b \<and>
    (\<forall>q. covers b q \<longrightarrow> test b' q = (case last_write b ws q of Some v \<Rightarrow> Some v | None \<Rightarrow> test b q))"
  using assms
proof (induction ws b rule: modify_all.induct)
  case (1 b)
  then show ?case by (simp add: last_write_simps)
next
  case (2 v p ws b)
  then have p: "covers b p" by simp
  obtain old b1 where w: "modify v p b = Some (old, b1)" using modify_returns [OF 2(2) p] by blast
  note k = modify_keeps [OF 2(2) p w]
  have "\<forall>(v, p) \<in> set ws. covers b1 p" using 2(3) k by simp
  with k obtain b2 where b2: "modify_all ws b1 = Some b2" "ok b2" "covers b2 = covers b1" "granule b2 = granule b1"
    "\<forall>q. covers b1 q \<longrightarrow> test b2 q = (case last_write b1 ws q of Some v \<Rightarrow> Some v | None \<Rightarrow> test b1 q)"
    using 2(1) [OF w refl] by blast
  have "test b2 q = (case last_write b ((v, p) # ws) q of Some v \<Rightarrow> Some v | None \<Rightarrow> test b q)" if "covers b q" for q
    using b2(5) k modify_test [OF 2(2) p that w] that
    by (auto simp: last_write_simps last_write_def split: option.split)
  with w b2 k show ?case by auto
qed

end

end
