(* ===== verification/Gc_Bitmap.thy ===== *)
theory Gc_Bitmap
  imports Mark_Bits
begin

text \<open>
  The bitmaps of the collector (gc/space_bitmap.rs, with the alignment 16 the heap uses): one bit
  for every 16 bytes of the heap, in words of 64 bits. Addresses are natural numbers below
  \<open>2 ^ 64\<close>. A failed assertion, and an access outside the map, is \<^term>\<open>None\<close>.
\<close>

definition BITMAP_ALIGN :: nat where "BITMAP_ALIGN = 16"
definition BITS_PER_INTPTR :: nat where "BITS_PER_INTPTR = 64"

definition wrapping_sub :: "nat \<Rightarrow> nat \<Rightarrow> nat" where
  "wrapping_sub a b = (if b \<le> a then a - b else 2 ^ 64 - (b - a))"

record space_bitmap =
  bm_words :: "u64 list"
  bm_size :: nat
  bm_heap_begin :: nat
  bm_heap_limit :: nat

definition offset_to_index :: "nat \<Rightarrow> nat" where
  "offset_to_index offset = offset div BITMAP_ALIGN div BITS_PER_INTPTR"
definition index_to_offset :: "nat \<Rightarrow> nat" where
  "index_to_offset index = index * BITMAP_ALIGN * BITS_PER_INTPTR"
definition offset_bit_index :: "nat \<Rightarrow> nat" where
  "offset_bit_index offset = (offset div BITMAP_ALIGN) mod BITS_PER_INTPTR"
definition offset_to_mask :: "nat \<Rightarrow> u64" where
  "offset_to_mask offset = push_bit (offset_bit_index offset) 1"

definition bm_heap_size :: "space_bitmap \<Rightarrow> nat" where
  "bm_heap_size b = index_to_offset (bm_size b div 8)"
definition set_heap_size :: "nat \<Rightarrow> space_bitmap \<Rightarrow> space_bitmap panics" where
  "set_heap_size bytes b =
     (let b' = b\<lparr>bm_size := offset_to_index bytes * 8\<rparr> in if bm_heap_size b' = bytes then Some b' else None)"
definition has_address :: "space_bitmap \<Rightarrow> nat \<Rightarrow> bool" where
  "has_address b obj = (offset_to_index (wrapping_sub obj (bm_heap_begin b)) < bm_size b div 8)"

definition bm_load :: "nat \<Rightarrow> space_bitmap \<Rightarrow> u64 panics" where
  "bm_load index b = (if index < length (bm_words b) then Some (bm_words b ! index) else None)"
definition bm_store :: "nat \<Rightarrow> u64 \<Rightarrow> space_bitmap \<Rightarrow> space_bitmap panics" where
  "bm_store index w b = (if index < length (bm_words b) then Some (b\<lparr>bm_words := (bm_words b)[index := w]\<rparr>) else None)"

definition bm_test :: "space_bitmap \<Rightarrow> nat \<Rightarrow> bool panics" where
  "bm_test b obj =
     (if \<not> has_address b obj \<or> \<not> bm_heap_begin b \<le> obj then None
      else
        (let offset = wrapping_sub obj (bm_heap_begin b) in
         do { w \<leftarrow> bm_load (offset_to_index offset) b; Some (w AND offset_to_mask offset \<noteq> 0) }))"

definition bm_modify :: "bool \<Rightarrow> nat \<Rightarrow> space_bitmap \<Rightarrow> (bool \<times> space_bitmap) panics" where
  "bm_modify SET_BIT obj b =
     (if \<not> bm_heap_begin b \<le> obj \<or> \<not> has_address b obj then None
      else
        (let offset = wrapping_sub obj (bm_heap_begin b); index = offset_to_index offset; mask = offset_to_mask offset in
         if \<not> index < bm_size b div 8 then None
         else do {
           old \<leftarrow> bm_load index b;
           b1 \<leftarrow>
             (if SET_BIT then (if old AND mask = 0 then bm_store index (old OR mask) b else Some b)
              else bm_store index (old AND NOT mask) b);
           now \<leftarrow> bm_test b1 obj;
           if now \<noteq> SET_BIT then None else Some (old AND mask \<noteq> 0, b1) }))"
definition bm_set :: "nat \<Rightarrow> space_bitmap \<Rightarrow> (bool \<times> space_bitmap) panics" where
  "bm_set obj b = bm_modify True obj b"
definition bm_clear :: "nat \<Rightarrow> space_bitmap \<Rightarrow> (bool \<times> space_bitmap) panics" where
  "bm_clear obj b = bm_modify False obj b"

text \<open>The exchange of \<open>atomic_test_and_set\<close> is repeated until it succeeds.\<close>

definition atomic_test_and_set :: "nat \<Rightarrow> space_bitmap \<Rightarrow> (bool \<times> space_bitmap) panics" where
  "atomic_test_and_set obj b =
     (if \<not> bm_heap_begin b \<le> obj then None
      else
        (let offset = wrapping_sub obj (bm_heap_begin b); index = offset_to_index offset; mask = offset_to_mask offset in
         if \<not> index < bm_size b div 8 then None
         else do {
           old \<leftarrow> bm_load index b;
           if old AND mask \<noteq> 0 then Some (True, b)
           else do { b1 \<leftarrow> bm_store index (old OR mask) b; Some (False, b1) } }))"

section \<open>Creation\<close>

text \<open>\<open>round_down\<close> and \<open>round_up\<close> of gc.rs.\<close>

definition gc_round_down :: "u64 \<Rightarrow> u64 \<Rightarrow> u64" where
  "gc_round_down x n = x AND NOT n"
definition gc_round_up :: "u64 \<Rightarrow> u64 \<Rightarrow> u64" where
  "gc_round_up x n = gc_round_down (x + n - 1) n"

definition compute_bitmap_size :: "u64 \<Rightarrow> nat" where
  "compute_bitmap_size capacity =
     (let bytes_covered_per_word = BITMAP_ALIGN * BITS_PER_INTPTR in
      unat (gc_round_up capacity (word_of_nat bytes_covered_per_word)) div bytes_covered_per_word * 8)"
definition compute_heap_size :: "nat \<Rightarrow> nat" where
  "compute_heap_size bitmap_bytes = bitmap_bytes * 8 * BITMAP_ALIGN"
definition bm_create :: "nat \<Rightarrow> nat \<Rightarrow> space_bitmap" where
  "bm_create heap_begin heap_capacity =
     (let bitmap_size = compute_bitmap_size (word_of_nat heap_capacity) in
      \<lparr>bm_words = replicate (bitmap_size div 8) 0, bm_size = bitmap_size, bm_heap_begin = heap_begin,
       bm_heap_limit = heap_begin + heap_capacity\<rparr>)"

section \<open>One bit for every granule\<close>

text \<open>The granule of an address, and the abstract view of a bitmap: the set of marked granules.\<close>

definition granule :: "space_bitmap \<Rightarrow> nat \<Rightarrow> nat" where
  "granule b obj = (obj - bm_heap_begin b) div BITMAP_ALIGN"
definition marked :: "space_bitmap \<Rightarrow> nat \<Rightarrow> bool" where
  "marked b obj = bit (bm_words b ! (granule b obj div 64)) (granule b obj mod 64)"
definition bm_ok :: "space_bitmap \<Rightarrow> bool" where
  "bm_ok b \<longleftrightarrow> length (bm_words b) = bm_size b div 8"
definition covers :: "space_bitmap \<Rightarrow> nat \<Rightarrow> bool" where
  "covers b obj \<longleftrightarrow> bm_heap_begin b \<le> obj \<and> has_address b obj"

lemma covers_index: "covers b obj \<Longrightarrow> granule b obj div 64 < bm_size b div 8"
  by (auto simp: covers_def has_address_def wrapping_sub_def granule_def offset_to_index_def BITS_PER_INTPTR_def)

lemma one_bit: "bit (2 ^ k :: u64) n \<longleftrightarrow> n = k" if "k < 64"
  using that bit_exp_iff [where ?'a = u64, of k n] by (auto simp: possible_bit_word)

lemma and_one_bit: "(w AND 2 ^ k \<noteq> 0) \<longleftrightarrow> bit (w :: u64) k" if "k < 64"
proof
  assume "w AND 2 ^ k \<noteq> 0"
  then obtain n where "bit (w AND 2 ^ k) n" by (metis bit_0_eq bit_eqI bot_apply bot_bool_def)
  then show "bit w k" by (auto simp: bit_and_iff one_bit [OF that])
next
  assume "bit w k"
  then have "bit (w AND 2 ^ k) k" by (simp add: bit_and_iff one_bit [OF that])
  then show "w AND 2 ^ k \<noteq> 0" by auto
qed

lemma bm_test_eq: "bm_ok b \<Longrightarrow> covers b obj \<Longrightarrow> bm_test b obj = Some (marked b obj)"
  using covers_index [of b obj] and_one_bit [of "granule b obj mod 64"]
  by (simp add: bm_test_def covers_def bm_load_def bm_ok_def marked_def Let_def wrapping_sub_def granule_def
      offset_to_index_def offset_to_mask_def offset_bit_index_def BITS_PER_INTPTR_def)

lemma bm_test_none: "\<not> covers b obj \<Longrightarrow> bm_test b obj = None"
  by (auto simp: bm_test_def covers_def)

lemma granule_split: "granule b p = granule b q \<longleftrightarrow> granule b p div 64 = granule b q div 64 \<and> granule b p mod 64 = granule b q mod 64"
  by (metis mult_div_mod_eq)

text \<open>The word that is written.\<close>

definition put_bit :: "bool \<Rightarrow> nat \<Rightarrow> space_bitmap \<Rightarrow> space_bitmap" where
  "put_bit v obj b =
     (let i = granule b obj div 64; m = 2 ^ (granule b obj mod 64); w = bm_words b ! i in
      b\<lparr>bm_words := (bm_words b)[i := if v then w OR m else w AND NOT m]\<rparr>)"

lemma put_bit_frame [simp]:
  "bm_size (put_bit v obj b) = bm_size b" "bm_heap_begin (put_bit v obj b) = bm_heap_begin b"
  "bm_heap_limit (put_bit v obj b) = bm_heap_limit b"
  "granule (put_bit v obj b) = granule b" "covers (put_bit v obj b) = covers b" "has_address (put_bit v obj b) = has_address b"
  "bm_ok (put_bit v obj b) = bm_ok b"
  by (auto simp: put_bit_def Let_def granule_def covers_def has_address_def bm_ok_def fun_eq_iff)

lemma put_bit_marked:
  assumes "bm_ok b" "covers b obj"
  shows "marked (put_bit v obj b) q = (if granule b q = granule b obj then v else marked b q)"
proof -
  let ?i = "granule b obj div 64" and ?k = "granule b obj mod 64"
  have i: "?i < length (bm_words b)" using assms covers_index by (simp add: bm_ok_def)
  have "marked (put_bit v obj b) q = bit (bm_words (put_bit v obj b) ! (granule b q div 64)) (granule b q mod 64)"
    by (simp add: marked_def)
  also have "\<dots> = (if granule b q = granule b obj then v else marked b q)"
    using i granule_split [of b q obj] one_bit [of ?k "granule b q mod 64"]
    by (cases v; cases "granule b q div 64 = ?i")
      (simp_all add: put_bit_def Let_def marked_def bit_or_iff bit_and_iff bit_not_iff possible_bit_word)
  finally show ?thesis .
qed

lemma set_same_word: "k < 64 \<Longrightarrow> bit (w :: u64) k \<Longrightarrow> w OR 2 ^ k = w"
  by (rule bit_eqI) (auto simp: bit_or_iff one_bit)

lemma bm_modify_eq:
  assumes "bm_ok b" "covers b obj"
  shows "bm_modify v obj b = Some (marked b obj, put_bit v obj b)"
proof -
  let ?i = "granule b obj div 64" and ?m = "2 ^ (granule b obj mod 64) :: u64"
  let ?w = "bm_words b ! ?i"
  have off: "offset_to_index (wrapping_sub obj (bm_heap_begin b)) = ?i" "offset_to_mask (wrapping_sub obj (bm_heap_begin b)) = ?m"
    using assms(2)
    by (simp_all add: covers_def wrapping_sub_def granule_def offset_to_index_def offset_to_mask_def
        offset_bit_index_def BITS_PER_INTPTR_def)
  have i: "?i < length (bm_words b)" "?i < bm_size b div 8" using assms covers_index by (simp_all add: bm_ok_def)
  have load: "bm_load ?i b = Some ?w" using i(1) by (simp add: bm_load_def)
  have old: "(?w AND ?m \<noteq> 0) = marked b obj" using and_one_bit [of "granule b obj mod 64" ?w] by (simp add: marked_def)
  have put: "v \<Longrightarrow> ?w AND ?m = 0 \<Longrightarrow> bm_store ?i (?w OR ?m) b = Some (put_bit v obj b)"
    "v \<Longrightarrow> ?w AND ?m \<noteq> 0 \<Longrightarrow> put_bit v obj b = b"
    "\<not> v \<Longrightarrow> bm_store ?i (?w AND NOT ?m) b = Some (put_bit v obj b)"
    using i(1) old set_same_word [of "granule b obj mod 64" ?w]
    by (simp_all add: bm_store_def put_bit_def Let_def marked_def)
  have now: "bm_test (put_bit v obj b) obj = Some v"
    using bm_test_eq [of "put_bit v obj b" obj] assms put_bit_marked [OF assms, of v obj] by simp
  show ?thesis
    using assms(2) i(2) load put now old
    by (cases v; cases "?w AND ?m = 0") (simp_all add: bm_modify_def covers_def off Let_def)
qed

interpretation bits: mark_bits bm_ok covers granule bm_test bm_modify
proof
  fix b p q v old b'
  assume ok: "bm_ok b" "covers b p"
  show "\<exists>v. bm_test b p = Some v" using bm_test_eq [OF ok] by blast
  show "\<exists>b'. bm_modify v p b = Some (the (bm_test b p), b')"
    using bm_modify_eq [OF ok] bm_test_eq [OF ok] by simp
  assume w: "bm_modify v p b = Some (old, b')"
  then have b': "b' = put_bit v p b" using bm_modify_eq [OF ok] by simp
  show "bm_ok b' \<and> covers b' = covers b \<and> granule b' = granule b" using ok b' by simp
  assume q: "covers b q"
  show "bm_test b' q = (if granule b q = granule b p then Some v else bm_test b q)"
    using bm_test_eq [of "put_bit v p b" q] bm_test_eq [OF ok(1) q] put_bit_marked [OF ok] ok q by (simp add: b')
qed

text \<open>
  C37. The bitmap is exact: any sequence of writes, each a \<open>set\<close> (\<open>True\<close>) or a \<open>clear\<close> (\<open>False\<close>) of an address the bitmap
  covers, returns, no assertion fails, and afterwards \<open>test\<close> answers the value that was written last to an
  address of the same 16-byte granule, and what it answered before where there was no such write.
\<close>

theorem bitmap_writes_exact:
  assumes "bm_ok b" "\<forall>(v, p) \<in> set ws. covers b p"
  shows "\<exists>b'. bits.modify_all ws b = Some b' \<and> bm_ok b' \<and> covers b' = covers b \<and>
    (\<forall>q. covers b q \<longrightarrow> bm_test b' q =
       (case map_of (rev (map (\<lambda>(v, p). (granule b p, v)) ws)) (granule b q) of Some v \<Rightarrow> Some v | None \<Rightarrow> bm_test b q))"
  using bits.modify_all_exact [OF assms] unfolding bits.last_write_def by blast

theorem bitmap_writes_exact_witness:
  "\<exists>b'. bits.modify_all [(True, 0), (True, 40), (False, 8)] \<lparr>bm_words = [0, 0], bm_size = 16, bm_heap_begin = 0, bm_heap_limit = 2048\<rparr> = Some b' \<and>
     bm_test b' 47 = Some True \<and> bm_test b' 0 = Some False"
proof -
  let ?b = "\<lparr>bm_words = [0, 0], bm_size = 16, bm_heap_begin = 0, bm_heap_limit = 2048\<rparr>"
  have c: "bm_ok ?b" "covers ?b 0" "covers ?b 8" "covers ?b 40" "covers ?b 47"
    by (simp_all add: bm_ok_def covers_def has_address_def wrapping_sub_def offset_to_index_def BITMAP_ALIGN_def BITS_PER_INTPTR_def)
  have "granule ?b 47 = 2" "granule ?b 40 = 2" "granule ?b 8 = 0" "granule ?b 0 = 0" by (simp_all add: granule_def BITMAP_ALIGN_def)
  with bitmap_writes_exact [of ?b "[(True, 0), (True, 40), (False, 8)]"] c show ?thesis by fastforce
qed

lemma test_and_set_eq:
  assumes "bm_ok b" "covers b obj"
  shows "atomic_test_and_set obj b = Some (marked b obj, put_bit True obj b)"
proof -
  let ?i = "granule b obj div 64" and ?m = "2 ^ (granule b obj mod 64) :: u64"
  let ?w = "bm_words b ! ?i"
  have off: "offset_to_index (wrapping_sub obj (bm_heap_begin b)) = ?i" "offset_to_mask (wrapping_sub obj (bm_heap_begin b)) = ?m"
    using assms(2)
    by (simp_all add: covers_def wrapping_sub_def granule_def offset_to_index_def offset_to_mask_def
        offset_bit_index_def BITS_PER_INTPTR_def)
  have i: "?i < length (bm_words b)" "?i < bm_size b div 8" using assms covers_index by (simp_all add: bm_ok_def)
  have old: "(?w AND ?m \<noteq> 0) = marked b obj" using and_one_bit [of "granule b obj mod 64" ?w] by (simp add: marked_def)
  have same: "put_bit True obj b = b" if "marked b obj"
    using that set_same_word [of "granule b obj mod 64" ?w] by (simp add: put_bit_def Let_def marked_def)
  show ?thesis
    using assms(2) i old same
    by (auto simp: atomic_test_and_set_def covers_def off Let_def bm_load_def bm_store_def put_bit_def)
qed

section \<open>The size of a new bitmap\<close>

lemma clear_low_bit: "unat (w AND NOT 1 :: u64) = (if odd (unat w) then unat w - 1 else unat w)"
proof -
  have e: "w AND NOT 1 = push_bit 1 (drop_bit 1 w)"
    by (rule bit_eqI) (simp only: bit_push_bit_iff bit_drop_bit_eq bit_and_iff bit_not_iff bit_1_iff possible_bit_word, auto)
  have "unat w < 2 ^ 64" using unsigned_less [where ?'b = 64 and ?'a = nat, of w] by simp
  then have "2 * (unat w div 2) < 2 ^ 64" by linarith
  then have "unat (push_bit 1 (drop_bit 1 w)) = 2 * (unat w div 2)"
    by (simp only: unsigned_push_bit_eq unsigned_drop_bit_eq) (simp add: drop_bit_eq_div push_bit_eq_mult take_bit_nat_eq_self)
  then show ?thesis unfolding e by (simp add: odd_two_times_div_two_nat)
qed

lemma drop_cleared: "drop_bit 10 (x AND NOT 1024 :: u64) = drop_bit 10 x AND NOT 1"
proof -
  have k: "bit (1024 :: u64) n \<longleftrightarrow> n = 10" for n using one_bit [of 10 n] by simp
  show ?thesis
    by (rule bit_eqI)
      (simp only: bit_drop_bit_eq bit_and_iff bit_not_iff possible_bit_word bit_1_iff k o_def, auto dest: bit_word_less)
qed

lemma bitmap_size_multiple:
  assumes "n < 2 ^ 53"
  shows "compute_bitmap_size (word_of_nat (1024 * n)) = (if odd n then n - 1 else n) * 8"
proof -
  let ?x = "word_of_nat (1024 * n) + 1024 - 1 :: u64"
  have less: "1024 * n + 1023 < 2 ^ 64" using assms by simp
  have x: "?x = word_of_nat (1024 * n + 1023)" by simp
  have u: "unat ?x = 1024 * n + 1023" unfolding x using less by (intro unat_word_of_nat_less) simp
  have d: "drop_bit 10 ?x = word_of_nat n"
  proof -
    have "take_bit 64 (1024 * n + 1023) = 1024 * n + 1023" using less by (rule take_bit_nat_eq_self)
    then have "unat (drop_bit 10 ?x) = n" by (simp only: unsigned_drop_bit_eq u) (simp add: drop_bit_eq_div)
    moreover have "unat (word_of_nat n :: u64) = n" using assms by (intro unat_word_of_nat_less) simp
    ultimately show ?thesis by (simp only: word_unat_eq_iff)
  qed
  note b = drop_cleared [of ?x]
  have ud: "unat y div 1024 = unat (drop_bit 10 y)" for y :: u64
  proof -
    have "unat y < 2 ^ 64" using unsigned_less [where ?'b = 64 and ?'a = nat, of y] by simp
    then have "take_bit 64 (unat y) = unat y" by (rule take_bit_nat_eq_self)
    then show ?thesis by (simp only: unsigned_drop_bit_eq) (simp add: drop_bit_eq_div)
  qed
  have "unat (?x AND NOT 1024) div 1024 = unat (drop_bit 10 (?x AND NOT 1024))"
    by (rule ud)
  also have "\<dots> = (if odd n then n - 1 else n)"
  proof -
    have "unat (word_of_nat n :: u64) = n" using assms by (intro unat_word_of_nat_less) simp
    then show ?thesis unfolding b d clear_low_bit by simp
  qed
  finally show ?thesis
    by (simp add: compute_bitmap_size_def gc_round_up_def gc_round_down_def BITMAP_ALIGN_def BITS_PER_INTPTR_def Let_def)
qed

lemma covers_capacity:
  assumes "n < 2 ^ 53" "start + 1024 * n < 2 ^ 64" "start \<le> p" "p < start + 1024 * n"
  shows "covers (bm_create start (1024 * n)) p = (even n \<or> p < start + 1024 * (n - 1))"
proof -
  let ?m = "if odd n then n - 1 else n"
  have "covers (bm_create start (1024 * n)) p = ((p - start) div 1024 < ?m)"
    using assms(3) bitmap_size_multiple [OF assms(1)]
    by (simp add: covers_def has_address_def bm_create_def wrapping_sub_def offset_to_index_def BITMAP_ALIGN_def
        BITS_PER_INTPTR_def Let_def div_mult2_eq [symmetric])
  also have "\<dots> = (p - start < 1024 * ?m)" by (simp add: less_mult_imp_div_less div_less_iff_less_mult mult.commute)
  finally show ?thesis using assms(3,4) by auto
qed

text \<open>
  The bitmap of a heap whose capacity is an odd number of kilobytes does not cover its last
  kilobyte: \<open>round_down\<close> clears the single bit of the granularity instead of rounding, so one word
  is missing. For an even number of kilobytes the whole heap is covered.
\<close>

theorem bitmap_covers_capacity:
  assumes "n < 2 ^ 53" "start + 1024 * n < 2 ^ 64" "start \<le> p" "p < start + 1024 * n"
  shows "covers (bm_create start (1024 * n)) p = (even n \<or> p < start + 1024 * (n - 1))"
  using assms by (rule covers_capacity)

theorem bitmap_covers_capacity_witness:
  "\<not> covers (bm_create 4096 1024) 4096 \<and> covers (bm_create 4096 2048) 6143"
  using bitmap_covers_capacity [of 1 4096 4096] bitmap_covers_capacity [of 2 4096 6143] by simp

end
