(* ===== verification/Local_Allocator.thy ===== *)
theory Local_Allocator
  imports Gc_Block Gc_Bitmap Tagged_Ptr
begin

text \<open>
  The allocator of one size class (\<open>LocalAllocator\<close> of gc/allocation.rs): the blocks it allocates
  from (\<open>current\<close>, the head of the chain first) and the blocks that are full (\<open>unavail\<close>). The blocks
  themselves are in the block allocator all size classes share. \<open>gc_mem\<close> is what a sweep works on
  besides the blocks: the two bitmaps and the headers of the objects. A destructor that a sweep runs
  belongs to the object and is not part of the collector's state; a freed cell holds no object.
\<close>

record local_allocator =
  la_cell_size :: nat
  la_current :: "nat list"
  la_unavail :: "nat list"

record gc_mem =
  gm_live :: space_bitmap
  gm_mark :: space_bitmap
  gm_cells :: "nat \<Rightarrow> gc_pointer_base option"

definition local_allocator_new :: "nat \<Rightarrow> local_allocator" where
  "local_allocator_new cell_size = \<lparr>la_cell_size = cell_size, la_current = [], la_unavail = []\<rparr>"

text \<open>\<open>get_block\<close>, which must not answer none, and \<open>init\<close>. The next pointer of a new block is null.\<close>

definition fresh_block :: "nat \<Rightarrow> block_space \<Rightarrow> (nat \<times> block_space) panics" where
  "fresh_block cell_size bs =
     (case get_block bs of
        Some (Some b, bs1) \<Rightarrow>
          (case bs_blocks bs1 b of
             None \<Rightarrow> None
           | Some blk \<Rightarrow>
               (case block_init cell_size b blk of
                  None \<Rightarrow> None
                | Some blk1 \<Rightarrow> Some (b, bs1\<lparr>bs_blocks := (bs_blocks bs1)(b \<mapsto> blk1)\<rparr>)))
      | _ \<Rightarrow> None)"
definition pop_cell :: "nat \<Rightarrow> block_space \<Rightarrow> (nat option \<times> block_space) panics" where
  "pop_cell b bs =
     (case bs_blocks bs b of
        None \<Rightarrow> None
      | Some blk \<Rightarrow> (let (ptr, blk1) = block_allocate blk in Some (ptr, bs\<lparr>bs_blocks := (bs_blocks bs)(b \<mapsto> blk1)\<rparr>)))"

definition la_allocate :: "local_allocator \<Rightarrow> block_space \<Rightarrow> (nat option \<times> local_allocator \<times> block_space) panics" where
  "la_allocate la bs = do {
     (cur, bs1) \<leftarrow>
       (if la_current la = [] then map_option (\<lambda>(b, bs'). ([b], bs')) (fresh_block (la_cell_size la) bs)
        else Some (la_current la, bs));
     (ptr, bs2) \<leftarrow> pop_cell (hd cur) bs1;
     (case ptr of
        Some p \<Rightarrow> Some (Some p, la\<lparr>la_current := cur\<rparr>, bs2)
      | None \<Rightarrow> do {
          (cur', bs3) \<leftarrow>
            (if tl cur = [] then map_option (\<lambda>(b, bs'). ([b], bs')) (fresh_block (la_cell_size la) bs2)
             else Some (tl cur, bs2));
          (ptr', bs4) \<leftarrow> pop_cell (hd cur') bs3;
          Some (ptr', la\<lparr>la_current := cur', la_unavail := hd cur # la_unavail la\<rparr>, bs4) }) }"

text \<open>The body of \<open>walk\<close> in \<open>sweep\<close>: a marked cell stays, is unmarked and made white.\<close>

definition sweep_cell :: "nat \<Rightarrow> nat \<Rightarrow> gc_mem \<times> free_list \<times> bool \<times> nat \<Rightarrow> (gc_mem \<times> free_list \<times> bool \<times> nat) panics" where
  "sweep_cell cell_size c st =
     (let (m, freelist, fully_free, allocated) = st in
      do {
        live \<leftarrow> bm_test (gm_live m) c;
        if live then
          (case gm_cells m c of
             None \<Rightarrow> None
           | Some cell \<Rightarrow>
               if \<not> (cell_state cell = DEFINETELY_WHITE \<or> cell_state cell = POSSIBLY_BLACK) then None
               else do {
                 (was_marked, mk) \<leftarrow> bm_clear c (gm_mark m);
                 if was_marked then
                   Some (m\<lparr>gm_mark := mk, gm_cells := (gm_cells m)(c \<mapsto> force_set_state DEFINETELY_WHITE cell)\<rparr>,
                         freelist, False, allocated + cell_size)
                 else do {
                   still \<leftarrow> bm_test mk c;
                   if still then None
                   else do {
                     (_, lv) \<leftarrow> bm_clear c (gm_live m);
                     Some (m\<lparr>gm_mark := mk, gm_live := lv, gm_cells := (gm_cells m)(c := None)\<rparr>,
                           freelist_add c freelist, fully_free, allocated) } } })
        else do {
          mk \<leftarrow> bm_test (gm_mark m) c;
          if mk then None else Some (m, freelist_add c freelist, fully_free, allocated) } })"
fun sweep_cells :: "nat \<Rightarrow> nat list \<Rightarrow> gc_mem \<times> free_list \<times> bool \<times> nat \<Rightarrow> (gc_mem \<times> free_list \<times> bool \<times> nat) panics" where
  "sweep_cells cell_size [] st = Some st"
| "sweep_cells cell_size (c # cs) st = do { st' \<leftarrow> sweep_cell cell_size c st; sweep_cells cell_size cs st' }"

record sweep_state =
  sw_mem :: gc_mem
  sw_blocks :: block_space
  sw_available :: "nat list"
  sw_unavailable :: "nat list"
  sw_allocated :: nat

definition sweep_block :: "nat \<Rightarrow> sweep_state \<Rightarrow> sweep_state panics" where
  "sweep_block b s =
     (case bs_blocks (sw_blocks s) b of
        None \<Rightarrow> None
      | Some blk \<Rightarrow> do {
          (m, freelist, fully_free, allocated) \<leftarrow>
            sweep_cells (blk_cell_size blk) (block_walk b blk) (sw_mem s, freelist_new, True, sw_allocated s);
          let bs = (sw_blocks s)\<lparr>bs_blocks := (bs_blocks (sw_blocks s))(b \<mapsto> blk\<lparr>blk_freelist := freelist\<rparr>)\<rparr>;
              s' = s\<lparr>sw_mem := m, sw_blocks := bs, sw_allocated := allocated\<rparr>
          in if freelist = [] then Some (s'\<lparr>sw_unavailable := b # sw_unavailable s'\<rparr>)
             else if fully_free then Some (s'\<lparr>sw_blocks := return_block b bs\<rparr>)
             else Some (s'\<lparr>sw_available := b # sw_available s'\<rparr>) })"
fun sweep_chain :: "nat list \<Rightarrow> sweep_state \<Rightarrow> sweep_state panics" where
  "sweep_chain [] s = Some s"
| "sweep_chain (b # bs) s = do { s' \<leftarrow> sweep_block b s; sweep_chain bs s' }"
definition la_sweep :: "local_allocator \<Rightarrow> nat \<Rightarrow> gc_mem \<Rightarrow> block_space \<Rightarrow> (local_allocator \<times> nat \<times> gc_mem \<times> block_space) panics" where
  "la_sweep la allocated m bs = do {
     s1 \<leftarrow> sweep_chain (la_current la)
       \<lparr>sw_mem = m, sw_blocks = bs, sw_available = [], sw_unavailable = [], sw_allocated = allocated\<rparr>;
     s2 \<leftarrow> sweep_chain (la_unavail la) s1;
     Some (la\<lparr>la_current := sw_available s2, la_unavail := sw_unavailable s2\<rparr>, sw_allocated s2, sw_mem s2, sw_blocks s2) }"

section \<open>The invariant\<close>

text \<open>A block of cells of one size whose free list has exactly the cells that are not live.\<close>

definition block_good :: "(nat \<Rightarrow> bool) \<Rightarrow> nat \<Rightarrow> block_space \<Rightarrow> nat \<Rightarrow> bool" where
  "block_good live cs bs b \<longleftrightarrow>
     (\<exists>blk. bs_blocks bs b = Some blk \<and> b mod BLOCK_SIZE = 0 \<and> blk_cell_size blk = cs \<and> distinct (blk_freelist blk) \<and>
        set (blk_freelist blk) = {c \<in> set (block_walk b blk). \<not> live c})"
definition cells_of :: "block_space \<Rightarrow> nat \<Rightarrow> nat set" where
  "cells_of bs b = (case bs_blocks bs b of None \<Rightarrow> {} | Some blk \<Rightarrow> set (block_walk b blk))"
definition la_blocks :: "local_allocator \<Rightarrow> nat list" where
  "la_blocks la = la_current la @ la_unavail la"
definition has_free :: "block_space \<Rightarrow> nat \<Rightarrow> bool" where
  "has_free bs b \<longleftrightarrow> (\<exists>blk. bs_blocks bs b = Some blk \<and> blk_freelist blk \<noteq> [])"
definition la_ok :: "(nat \<Rightarrow> bool) \<Rightarrow> block_space \<Rightarrow> local_allocator \<Rightarrow> bool" where
  "la_ok live bs la \<longleftrightarrow>
     16 \<le> la_cell_size la \<and> la_cell_size la mod 16 = 0 \<and> la_cell_size la \<le> BLOCK_SIZE - DATA_START \<and> distinct (la_blocks la) \<and>
     (\<forall>b \<in> set (la_blocks la). block_good live (la_cell_size la) bs b) \<and> (\<forall>b \<in> set (tl (la_current la)). has_free bs b)"

lemma walk_cs: "blk_cell_size blk = blk_cell_size blk' \<Longrightarrow> block_walk b blk = block_walk b blk'"
  by (simp add: block_walk_def cell_count_def block_cell_def [abs_def])

lemma block_good_cong:
  "bs_blocks bs b = bs_blocks bs' b \<Longrightarrow> (\<And>c. c \<in> cells_of bs b \<Longrightarrow> live c = live' c) \<Longrightarrow>
    block_good live cs bs b = block_good live' cs bs' b"
  by (auto simp: block_good_def cells_of_def)

lemma cells_block:
  assumes "b mod BLOCK_SIZE = 0" "c \<in> cells_of bs b" "block_good live cs bs b" "0 < cs"
  shows "get_block_ptr c = b"
  using assms cell_block_ptr [of b c _ c] by (auto simp: block_good_def cells_of_def split: option.splits)


section \<open>Allocation\<close>

lemma pop_cell_spec:
  assumes "block_good live cs bs b"
  shows "(pop_cell b bs = Some (None, bs) \<and> \<not> has_free bs b) \<or>
    (\<exists>p bs'. pop_cell b bs = Some (Some p, bs') \<and> p \<in> cells_of bs b \<and> \<not> live p \<and> cells_of bs' b = cells_of bs b \<and>
       block_good (live(p := True)) cs bs' b \<and> (\<exists>blk. bs' = bs\<lparr>bs_blocks := (bs_blocks bs)(b \<mapsto> blk)\<rparr>))"
proof -
  obtain blk where blk: "bs_blocks bs b = Some blk" "b mod BLOCK_SIZE = 0" "blk_cell_size blk = cs" "distinct (blk_freelist blk)"
    "set (blk_freelist blk) = {c \<in> set (block_walk b blk). \<not> live c}"
    using assms by (auto simp: block_good_def)
  show ?thesis
  proof (cases "blk_freelist blk")
    case Nil
    then have "blk\<lparr>blk_freelist := []\<rparr> = blk" by simp
    then have "bs\<lparr>bs_blocks := (bs_blocks bs)(b \<mapsto> blk\<lparr>blk_freelist := []\<rparr>)\<rparr> = bs" using blk(1) by (simp add: fun_upd_idem)
    with Nil blk(1) show ?thesis by (simp add: pop_cell_def block_allocate_def freelist_get_def has_free_def)
  next
    case (Cons p fl)
    let ?blk = "blk\<lparr>blk_freelist := fl\<rparr>"
    have w: "block_walk b ?blk = block_walk b blk" by (rule walk_cs) simp
    have p: "p \<in> set (block_walk b blk)" "\<not> live p" "set fl = {c \<in> set (block_walk b blk). \<not> live c} - {p}"
      using Cons blk(4,5) by auto
    have "block_good (live(p := True)) cs (bs\<lparr>bs_blocks := (bs_blocks bs)(b \<mapsto> ?blk)\<rparr>) b"
      using blk Cons p w by (auto simp: block_good_def)
    moreover have "pop_cell b bs = Some (Some p, bs\<lparr>bs_blocks := (bs_blocks bs)(b \<mapsto> ?blk)\<rparr>)"
      using blk(1) Cons by (simp add: pop_cell_def block_allocate_def freelist_get_def)
    ultimately show ?thesis using p blk(1) w by (auto simp: cells_of_def)
  qed
qed

lemma space_ok_update:
  "space_ok bs used \<Longrightarrow> b \<in> used \<Longrightarrow> space_ok (bs\<lparr>bs_blocks := (bs_blocks bs)(b \<mapsto> blk)\<rparr>) used"
  by (auto simp: space_ok_def aligned_block_def)

lemma fresh_block_spec:
  assumes ok: "space_ok bs used" and cs: "16 \<le> cs" "cs mod 16 = 0" "cs \<le> BLOCK_SIZE - DATA_START"
    and live: "\<forall>c. live c \<longrightarrow> get_block_ptr c \<in> used"
  shows "(fresh_block cs bs = None \<and> available_blocks bs = Some 0) \<or>
    (\<exists>b bs'. fresh_block cs bs = Some (b, bs') \<and> b \<notin> used \<and> space_ok bs' (insert b used) \<and> block_good live cs bs' b \<and>
       has_free bs' b \<and> (\<forall>a. a \<noteq> b \<longrightarrow> bs_blocks bs' a = bs_blocks bs a))"
proof -
  obtain r s' where g: "get_block bs = Some (r, s')"
    "case r of None \<Rightarrow> s' = bs \<and> available_blocks bs = Some 0
      | Some b \<Rightarrow> b \<notin> used \<and> aligned_block s' b \<and> space_ok s' (insert b used) \<and>
         (\<exists>n. available_blocks bs = Some (Suc n) \<and> available_blocks s' = Some n) \<and>
         bs_blocks s' = (bs_blocks bs)(b := bs_blocks s' b) \<and> bs_start s' = bs_start bs \<and> bs_data_bound s' = bs_data_bound bs"
    using get_block_spec [OF ok] by blast
  show ?thesis
  proof (cases r)
    case None
    with g show ?thesis by (simp add: fresh_block_def)
  next
    case (Some b)
    with g have b: "b \<notin> used" "aligned_block s' b" "space_ok s' (insert b used)" "bs_blocks s' = (bs_blocks bs)(b := bs_blocks s' b)"
      by auto
    then have "bs_blocks s' b \<noteq> None" unfolding space_ok_def by blast
    then obtain blk where blk: "bs_blocks s' b = Some blk" by blast
    obtain blk1 where blk1: "block_init cs b blk = Some blk1"
      using cs by (simp add: block_init_def aligned_16 Let_def)
    note i = block_init_eq [OF blk1]
    have fl: "blk_freelist blk1 = rev (block_walk b blk1)" by (subst i(3)) simp
    let ?s = "s'\<lparr>bs_blocks := (bs_blocks s')(b \<mapsto> blk1)\<rparr>"
    have b0: "b mod BLOCK_SIZE = 0" using b(2) by (simp add: aligned_block_def)
    have dead: "\<not> live c" if "c \<in> set (block_walk b blk1)" for c
    proof
      assume "live c"
      then have "get_block_ptr c \<in> used" using live by blast
      moreover have "get_block_ptr c = b" using that b0 cs(1) i(4) by (intro cell_block_ptr [of b c blk1]) auto
      ultimately show False using b(1) by simp
    qed
    have "block_good live cs ?s b"
      using b0 i(4) fl dead cs(1) cells_distinct [of blk1 b] by (auto simp: block_good_def)
    moreover have "has_free ?s b"
    proof -
      have "0 < cell_count blk1" using cs i(4) by (simp add: cell_count_def div_greater_zero_iff)
      then have "block_walk b blk1 \<noteq> []" by (simp add: block_walk_def)
      with fl show ?thesis by (simp add: has_free_def)
    qed
    moreover have "fresh_block cs bs = Some (b, ?s)" using g(1) Some blk blk1 by (simp add: fresh_block_def)
    moreover have "\<forall>a. a \<noteq> b \<longrightarrow> bs_blocks ?s a = bs_blocks bs a" by (subst b(4)) simp
    ultimately show ?thesis using b(1) space_ok_update [OF b(3), of b blk1] by auto
  qed
qed

lemma la_ok_size: "la_ok live bs la \<Longrightarrow> 0 < la_cell_size la"
  by (auto simp: la_ok_def)

lemma good_blocks_apart:
  assumes "block_good live cs bs b" "block_good live' cs' bs b'" "0 < cs" "0 < cs'" "b \<noteq> b'" "c \<in> cells_of bs b"
  shows "c \<notin> cells_of bs b'"
proof
  assume "c \<in> cells_of bs b'"
  then have "get_block_ptr c = b'" using assms(2,4) cells_block by (auto simp: block_good_def)
  moreover have "get_block_ptr c = b" using assms(1,3,6) cells_block by (auto simp: block_good_def)
  ultimately show False using assms(5) by simp
qed

text \<open>Taking a cell from the head of the chain.\<close>

lemma pop_ok:
  assumes ok: "la_ok live bs la" and cur: "la_current la = b # rest" and sp: "space_ok bs used" "b \<in> used"
  shows "(pop_cell b bs = Some (None, bs) \<and> \<not> has_free bs b) \<or>
    (\<exists>p bs'. pop_cell b bs = Some (Some p, bs') \<and> \<not> live p \<and> get_block_ptr p = b \<and> p \<in> cells_of bs' b \<and>
       la_ok (live(p := True)) bs' la \<and> space_ok bs' used \<and> (\<forall>a. a \<noteq> b \<longrightarrow> bs_blocks bs' a = bs_blocks bs a))"
proof -
  have b: "b \<in> set (la_blocks la)" "b \<notin> set rest" using cur ok by (auto simp: la_blocks_def la_ok_def)
  have good: "block_good live (la_cell_size la) bs a" if "a \<in> set (la_blocks la)" for a using ok that by (simp add: la_ok_def)
  from pop_cell_spec [OF good [OF b(1)]] show ?thesis
  proof (elim disjE exE conjE)
    fix p bs' blk
    assume *: "pop_cell b bs = Some (Some p, bs')" "p \<in> cells_of bs b" "\<not> live p" "cells_of bs' b = cells_of bs b"
      "block_good (live(p := True)) (la_cell_size la) bs' b" "bs' = bs\<lparr>bs_blocks := (bs_blocks bs)(b \<mapsto> blk)\<rparr>"
    have "block_good (live(p := True)) (la_cell_size la) bs' a" if a: "a \<in> set (la_blocks la)" "a \<noteq> b" for a
    proof -
      have "p \<notin> cells_of bs a" using good_blocks_apart [OF good [OF b(1)] good [OF a(1)]] la_ok_size [OF ok] a(2) *(2) by auto
      then have "live c = (live(p := True)) c" if "c \<in> cells_of bs a" for c using that by auto
      then show ?thesis using good [OF a(1)] a(2) block_good_cong [of bs a bs' live "live(p := True)"] *(6) by simp
    qed
    then have "\<forall>a \<in> set (la_blocks la). block_good (live(p := True)) (la_cell_size la) bs' a" using *(5) by blast
    moreover have "\<forall>a \<in> set (tl (la_current la)). has_free bs' a"
      using ok cur b(2) *(6) by (auto simp: la_ok_def has_free_def)
    ultimately have "la_ok (live(p := True)) bs' la" using ok by (auto simp: la_ok_def)
    moreover have "b mod BLOCK_SIZE = 0" using good [OF b(1)] by (auto simp: block_good_def)
    then have "get_block_ptr p = b" using *(2) cells_block [OF _ _ good [OF b(1)]] la_ok_size [OF ok] by simp
    ultimately show ?thesis using * space_ok_update [OF sp, of blk] by auto
  qed blast
qed

lemma la_ok_retire:
  assumes "la_ok live bs la" "la_current la = b # rest"
  shows "la_ok live bs (la\<lparr>la_current := rest, la_unavail := b # la_unavail la\<rparr>)"
  using assms by (cases rest) (auto simp: la_ok_def la_blocks_def)

lemma la_ok_fresh:
  assumes ok: "la_ok live bs la" "la_current la = []" and sub: "set (la_blocks la) \<subseteq> used" and b: "b \<notin> used"
    and bs': "block_good live (la_cell_size la) bs' b" "\<forall>a. a \<noteq> b \<longrightarrow> bs_blocks bs' a = bs_blocks bs a"
  shows "la_ok live bs' (la\<lparr>la_current := [b]\<rparr>)"
proof -
  have "block_good live (la_cell_size la) bs' a" if "a \<in> set (la_blocks la)" for a
  proof -
    have "a \<noteq> b" using that sub b by blast
    moreover have "block_good live (la_cell_size la) bs a" using ok(1) that by (simp add: la_ok_def)
    ultimately show ?thesis using bs'(2) block_good_cong [of bs a bs' live live] by metis
  qed
  with ok sub b bs'(1) show ?thesis by (auto simp: la_ok_def la_blocks_def)
qed

text \<open>What an allocation from a good chain does, with the set of used blocks before and after.\<close>

definition la_allocated ::
  "(nat \<Rightarrow> bool) \<Rightarrow> nat set \<Rightarrow> block_space \<Rightarrow> local_allocator \<Rightarrow> nat \<Rightarrow> nat set \<Rightarrow> block_space \<Rightarrow> local_allocator \<Rightarrow> bool" where
  "la_allocated live used bs la p used' bs' la' \<longleftrightarrow>
     \<not> live p \<and> la_cell_size la' = la_cell_size la \<and> get_block_ptr p \<in> set (la_blocks la') \<and>
     p \<in> cells_of bs' (get_block_ptr p) \<and> used' = used \<union> set (la_blocks la') \<and>
     set (la_blocks la) \<subseteq> set (la_blocks la') \<and> (set (la_blocks la') - set (la_blocks la)) \<inter> used = {} \<and>
     space_ok bs' used' \<and> la_ok (live(p := True)) bs' la' \<and>
     (\<forall>b \<in> used - set (la_blocks la). bs_blocks bs' b = bs_blocks bs b)"

lemma la_allocated_same:
  assumes "set (la_blocks la) = set (la_blocks la2)" "la_cell_size la = la_cell_size la2"
  shows "la_allocated live used bs la p used' bs' la' = la_allocated live used bs la2 p used' bs' la'"
  unfolding la_allocated_def assms ..

text \<open>A head block with a free cell, after an optional new block.\<close>

lemma refill:
  assumes ok: "la_ok live bs la" and sp: "space_ok bs used" and sub: "set (la_blocks la) \<subseteq> used"
    and live: "\<forall>c. live c \<longrightarrow> get_block_ptr c \<in> used"
  shows "(la_current la = [] \<and> fresh_block (la_cell_size la) bs = None \<and> available_blocks bs = Some 0) \<or>
    (\<exists>cur bs1. (if la_current la = [] then map_option (\<lambda>(b, bs'). ([b], bs')) (fresh_block (la_cell_size la) bs)
        else Some (la_current la, bs)) = Some (cur, bs1) \<and> cur \<noteq> [] \<and>
       (la_current la = [] \<longrightarrow> has_free bs1 (hd cur) \<and> hd cur \<notin> used \<and> cur = [hd cur]) \<and>
       (la_current la \<noteq> [] \<longrightarrow> cur = la_current la \<and> bs1 = bs) \<and>
       la_ok live bs1 (la\<lparr>la_current := cur\<rparr>) \<and> space_ok bs1 (used \<union> set cur) \<and>
       (\<forall>b \<in> used. bs_blocks bs1 b = bs_blocks bs b))"
proof (cases "la_current la = []")
  case True
  from ok have cs: "16 \<le> la_cell_size la" "la_cell_size la mod 16 = 0" "la_cell_size la \<le> BLOCK_SIZE - DATA_START"
    by (simp_all add: la_ok_def)
  from fresh_block_spec [OF sp cs live] show ?thesis
  proof (elim disjE exE conjE)
    fix b bs'
    assume *: "fresh_block (la_cell_size la) bs = Some (b, bs')" "b \<notin> used" "space_ok bs' (insert b used)"
      "block_good live (la_cell_size la) bs' b" "has_free bs' b" "\<forall>a. a \<noteq> b \<longrightarrow> bs_blocks bs' a = bs_blocks bs a"
    have "\<forall>a \<in> used. bs_blocks bs' a = bs_blocks bs a" using *(2,6) by metis
    then show ?thesis using True la_ok_fresh [OF ok True sub *(2,4,6)] * by simp
  qed (use True in simp)
next
  case False
  have "used \<union> set (la_current la) = used" using sub by (auto simp: la_blocks_def)
  with False ok sp show ?thesis by simp
qed

lemma refill_pop:
  assumes ok: "la_ok live bs la" and sp: "space_ok bs used" and sub: "set (la_blocks la) \<subseteq> used"
    and live: "\<forall>c. live c \<longrightarrow> get_block_ptr c \<in> used" and free: "la_current la \<noteq> [] \<Longrightarrow> has_free bs (hd (la_current la))"
    and cur: "(if la_current la = [] then map_option (\<lambda>(b, bs'). ([b], bs')) (fresh_block (la_cell_size la) bs)
        else Some (la_current la, bs)) = Some (cur, bs1)"
  shows "\<exists>p bs2. pop_cell (hd cur) bs1 = Some (Some p, bs2) \<and>
    la_allocated live used bs la p (used \<union> set cur) bs2 (la\<lparr>la_current := cur\<rparr>)"
proof -
  from refill [OF ok sp sub live] cur
  have r: "cur \<noteq> []" "la_current la = [] \<longrightarrow> has_free bs1 (hd cur) \<and> hd cur \<notin> used \<and> cur = [hd cur]"
    "la_current la \<noteq> [] \<longrightarrow> cur = la_current la \<and> bs1 = bs" "la_ok live bs1 (la\<lparr>la_current := cur\<rparr>)"
    "space_ok bs1 (used \<union> set cur)" "\<forall>b \<in> used. bs_blocks bs1 b = bs_blocks bs b"
    by auto
  obtain b rest where b: "cur = b # rest" using r(1) by (cases cur) auto
  have free1: "has_free bs1 b" using r(2,3) free b by (cases "la_current la = []") (simp, metis list.sel(1))
  from pop_ok [OF r(4) _ r(5), of b rest] b free1 obtain p bs2 where
    p: "pop_cell b bs1 = Some (Some p, bs2)" "\<not> live p" "get_block_ptr p = b" "p \<in> cells_of bs2 b"
      "la_ok (live(p := True)) bs2 (la\<lparr>la_current := cur\<rparr>)" "space_ok bs2 (used \<union> set cur)"
      "\<forall>a. a \<noteq> b \<longrightarrow> bs_blocks bs2 a = bs_blocks bs1 a"
    by auto
  have blocks: "set (la_blocks la) \<subseteq> set (la_blocks (la\<lparr>la_current := cur\<rparr>))"
    "set (la_blocks (la\<lparr>la_current := cur\<rparr>)) \<subseteq> set (la_blocks la) \<union> set cur"
    "la_current la \<noteq> [] \<Longrightarrow> set cur \<subseteq> set (la_blocks la)"
    using r(3) by (cases "la_current la = []"; auto simp: la_blocks_def)+
  have "(set (la_blocks (la\<lparr>la_current := cur\<rparr>)) - set (la_blocks la)) \<inter> used = {}"
  proof (cases "la_current la = []")
    case True
    then have "set cur = {hd cur}" "hd cur \<notin> used" using r(2) by (metis list.simps(15) empty_set, blast)
    with blocks(2) show ?thesis by auto
  next
    case False
    with blocks show ?thesis by blast
  qed
  moreover have "bs_blocks bs2 a = bs_blocks bs a" if a: "a \<in> used - set (la_blocks la)" for a
  proof -
    have "a \<noteq> b"
    proof (cases "la_current la = []")
      case True
      then show ?thesis using a r(2) b by auto
    next
      case False
      then have "b \<in> set (la_current la)" using r(3) b by (metis list.set_intros(1))
      then show ?thesis using a by (auto simp: la_blocks_def)
    qed
    with p(7) r(6) a show ?thesis by auto
  qed
  moreover have "used \<union> set (la_blocks (la\<lparr>la_current := cur\<rparr>)) = used \<union> set cur"
    using sub blocks by (auto simp: la_blocks_def)
  ultimately show ?thesis
    using p b blocks(1) by (auto simp: la_allocated_def la_blocks_def)
qed

lemma la_allocate_spec:
  assumes ok: "la_ok live bs la" and sp: "space_ok bs used" and sub: "set (la_blocks la) \<subseteq> used"
    and live: "\<forall>c. live c \<longrightarrow> get_block_ptr c \<in> used"
  shows "(la_allocate la bs = None \<and> available_blocks bs = Some 0) \<or>
    (\<exists>p la' bs' used'. la_allocate la bs = Some (Some p, la', bs') \<and> la_allocated live used bs la p used' bs' la')"
proof (cases "la_current la \<noteq> [] \<and> \<not> has_free bs (hd (la_current la))")
  case False
  then have free: "la_current la \<noteq> [] \<Longrightarrow> has_free bs (hd (la_current la))" by blast
  from refill [OF ok sp sub live] show ?thesis
  proof (elim disjE exE conjE)
    assume *: "la_current la = []" "fresh_block (la_cell_size la) bs = None" "available_blocks bs = Some 0"
    then show ?thesis by (simp add: la_allocate_def)
  next
    fix cur bs1
    assume cur: "(if la_current la = [] then map_option (\<lambda>(b, bs'). ([b], bs')) (fresh_block (la_cell_size la) bs)
        else Some (la_current la, bs)) = Some (cur, bs1)"
    obtain p bs2 where "pop_cell (hd cur) bs1 = Some (Some p, bs2)"
      "la_allocated live used bs la p (used \<union> set cur) bs2 (la\<lparr>la_current := cur\<rparr>)"
      using refill_pop [OF ok sp sub live free cur] by blast
    with cur show ?thesis by (auto simp: la_allocate_def simp del: if_split_asm)
  qed
next
  case True
  then obtain b rest where b: "la_current la = b # rest" by (cases "la_current la") auto
  with True have full: "\<not> has_free bs b" by simp
  have bu: "b \<in> used" using sub b by (auto simp: la_blocks_def)
  have pop: "pop_cell b bs = Some (None, bs)"
  proof -
    have "block_good live (la_cell_size la) bs b" using ok b by (simp add: la_ok_def la_blocks_def)
    then obtain blk where blk: "bs_blocks bs b = Some blk" by (auto simp: block_good_def)
    with full have "blk_freelist blk = []" by (simp add: has_free_def)
    with pop_ok [OF ok b sp bu] blk show ?thesis by (auto simp: pop_cell_def block_allocate_def freelist_get_def)
  qed
  let ?la = "la\<lparr>la_current := rest, la_unavail := b # la_unavail la\<rparr>"
  have ok2: "la_ok live bs ?la" by (rule la_ok_retire [OF ok b])
  have same: "set (la_blocks ?la) = set (la_blocks la)" using b by (auto simp: la_blocks_def)
  then have sub2: "set (la_blocks ?la) \<subseteq> used" using sub by simp
  have free: "la_current ?la \<noteq> [] \<Longrightarrow> has_free bs (hd (la_current ?la))" using ok b by (auto simp: la_ok_def)
  from refill [OF ok2 sp sub2 live] show ?thesis
  proof (elim disjE exE conjE)
    assume *: "la_current ?la = []" "fresh_block (la_cell_size ?la) bs = None" "available_blocks bs = Some 0"
    then show ?thesis using b pop by (simp add: la_allocate_def)
  next
    fix cur bs1
    assume cur: "(if la_current ?la = [] then map_option (\<lambda>(b, bs'). ([b], bs')) (fresh_block (la_cell_size ?la) bs)
        else Some (la_current ?la, bs)) = Some (cur, bs1)"
    obtain p bs2 where p: "pop_cell (hd cur) bs1 = Some (Some p, bs2)"
      "la_allocated live used bs ?la p (used \<union> set cur) bs2 (?la\<lparr>la_current := cur\<rparr>)"
      using refill_pop [OF ok2 sp sub2 live free cur] by blast
    have "la_allocated live used bs la p (used \<union> set cur) bs2 (la\<lparr>la_current := cur, la_unavail := b # la_unavail la\<rparr>)"
      using p(2) la_allocated_same [OF same] by (cases la) simp
    moreover have "la_allocate la bs = Some (Some p, la\<lparr>la_current := cur, la_unavail := b # la_unavail la\<rparr>, bs2)"
      using b pop cur p(1) by (cases rest) (auto simp: la_allocate_def)
    ultimately show ?thesis by blast
  qed
qed

section \<open>Sweeping\<close>

abbreviation lv :: "gc_mem \<Rightarrow> nat \<Rightarrow> bool" where "lv m \<equiv> marked (gm_live m)"
abbreviation mk :: "gc_mem \<Rightarrow> nat \<Rightarrow> bool" where "mk m \<equiv> marked (gm_mark m)"

text \<open>Both bitmaps cover the cells \<open>C\<close>, and no two cells share a bit.\<close>

definition mem_ok :: "nat set \<Rightarrow> gc_mem \<Rightarrow> bool" where
  "mem_ok C m \<longleftrightarrow> bm_ok (gm_live m) \<and> bm_ok (gm_mark m) \<and>
     (\<forall>c \<in> C. covers (gm_live m) c \<and> covers (gm_mark m) c) \<and> inj_on (granule (gm_live m)) C \<and> inj_on (granule (gm_mark m)) C"
definition sweepable :: "gc_mem \<Rightarrow> nat \<Rightarrow> bool" where
  "sweepable m c \<longleftrightarrow> (mk m c \<longrightarrow> lv m c) \<and>
     (lv m c \<longrightarrow> (\<exists>h. gm_cells m c = Some h \<and> (cell_state h = DEFINETELY_WHITE \<or> cell_state h = POSSIBLY_BLACK)))"
definition survives :: "gc_mem \<Rightarrow> nat \<Rightarrow> bool" where
  "survives m c \<longleftrightarrow> lv m c \<and> mk m c"
definition swept_header :: "gc_mem \<Rightarrow> nat \<Rightarrow> gc_pointer_base option" where
  "swept_header m c =
     (if survives m c then map_option (force_set_state DEFINETELY_WHITE) (gm_cells m c) else if lv m c then None else gm_cells m c)"

text \<open>\<open>m'\<close> is \<open>m\<close> with the cells \<open>S\<close> swept.\<close>

definition swept :: "nat set \<Rightarrow> nat set \<Rightarrow> gc_mem \<Rightarrow> gc_mem \<Rightarrow> bool" where
  "swept C S m m' \<longleftrightarrow>
     bm_ok (gm_live m') \<and> bm_ok (gm_mark m') \<and>
     covers (gm_live m') = covers (gm_live m) \<and> granule (gm_live m') = granule (gm_live m) \<and>
     covers (gm_mark m') = covers (gm_mark m) \<and> granule (gm_mark m') = granule (gm_mark m) \<and>
     has_address (gm_live m') = has_address (gm_live m) \<and> has_address (gm_mark m') = has_address (gm_mark m) \<and>
     (\<forall>p. covers (gm_live m) p \<longrightarrow> (\<forall>c \<in> S. granule (gm_live m) p \<noteq> granule (gm_live m) c) \<longrightarrow> lv m' p = lv m p) \<and>
     (\<forall>p. covers (gm_mark m) p \<longrightarrow> mk m' p \<longrightarrow> mk m p) \<and>
     (\<forall>c \<in> C. lv m' c = (if c \<in> S then survives m c else lv m c) \<and> mk m' c = (mk m c \<and> c \<notin> S)) \<and>
     (\<forall>c. gm_cells m' c = (if c \<in> S then swept_header m c else gm_cells m c))"

lemma swept_frame:
  assumes "swept C S m m'"
  shows "bm_ok (gm_live m')" "bm_ok (gm_mark m')" "covers (gm_live m') = covers (gm_live m)"
    "granule (gm_live m') = granule (gm_live m)" "covers (gm_mark m') = covers (gm_mark m)"
    "granule (gm_mark m') = granule (gm_mark m)" "has_address (gm_live m') = has_address (gm_live m)"
    "has_address (gm_mark m') = has_address (gm_mark m)"
  using assms by (simp_all add: swept_def)

lemma swept_cell:
  assumes "swept C S m m'" "c \<in> C"
  shows "lv m' c = (if c \<in> S then survives m c else lv m c)" "mk m' c = (mk m c \<and> c \<notin> S)"
  using assms by (simp_all add: swept_def)

lemma swept_headers: "swept C S m m' \<Longrightarrow> gm_cells m' c = (if c \<in> S then swept_header m c else gm_cells m c)"
  by (simp add: swept_def)

lemma swept_other:
  "swept C S m m' \<Longrightarrow> covers (gm_live m) p \<Longrightarrow> (\<And>c. c \<in> S \<Longrightarrow> granule (gm_live m) p \<noteq> granule (gm_live m) c) \<Longrightarrow> lv m' p = lv m p"
  by (simp add: swept_def)

lemma swept_clears: "swept C S m m' \<Longrightarrow> covers (gm_mark m) p \<Longrightarrow> mk m' p \<Longrightarrow> mk m p"
  by (simp add: swept_def)

lemma swept_mem_ok: "mem_ok C m \<Longrightarrow> swept C S m m' \<Longrightarrow> mem_ok C m'"
  by (simp add: mem_ok_def swept_frame)

lemma swept_none: "mem_ok C m \<Longrightarrow> swept C {} m m"
  by (auto simp: mem_ok_def swept_def)

lemma swept_later:
  assumes "swept C S m m'" "c \<in> C" "c \<notin> S"
  shows "survives m' c = survives m c" "swept_header m' c = swept_header m c" "sweepable m' c = sweepable m c"
  using swept_cell [OF assms(1,2)] swept_headers [OF assms(1), of c] assms(3)
  by (simp_all add: survives_def swept_header_def sweepable_def)

lemma swept_trans:
  assumes s: "swept C S m m'" "swept C T m' m''" and sub: "T \<subseteq> C" "S \<inter> T = {}"
  shows "swept C (S \<union> T) m m''"
  unfolding swept_def
proof (intro conjI allI ballI impI)
  note f = swept_frame [OF s(1)] swept_frame [OF s(2)]
  show "bm_ok (gm_live m'')" "bm_ok (gm_mark m'')" "covers (gm_live m'') = covers (gm_live m)"
    "granule (gm_live m'') = granule (gm_live m)" "covers (gm_mark m'') = covers (gm_mark m)"
    "granule (gm_mark m'') = granule (gm_mark m)" "has_address (gm_live m'') = has_address (gm_live m)"
    "has_address (gm_mark m'') = has_address (gm_mark m)"
    by (simp_all add: f)
  show "lv m'' p = lv m p" if "covers (gm_live m) p" "\<forall>c \<in> S \<union> T. granule (gm_live m) p \<noteq> granule (gm_live m) c" for p
    using swept_other [OF s(1), of p] swept_other [OF s(2), of p] that by (simp add: f)
  show "mk m p" if "covers (gm_mark m) p" "mk m'' p" for p
    using swept_clears [OF s(1), of p] swept_clears [OF s(2), of p] that by (simp add: f)
  fix c
  have late: "c \<notin> S" "survives m' c = survives m c" "swept_header m' c = swept_header m c" if "c \<in> T"
    using swept_later [OF s(1), of c] sub that by auto
  show "gm_cells m'' c = (if c \<in> S \<union> T then swept_header m c else gm_cells m c)"
    using swept_headers [OF s(1), of c] swept_headers [OF s(2), of c] late by auto
  assume c: "c \<in> C"
  show "lv m'' c = (if c \<in> S \<union> T then survives m c else lv m c)" "mk m'' c = (mk m c \<and> c \<notin> S \<union> T)"
    using swept_cell [OF s(1) c] swept_cell [OF s(2) c] late by auto
qed

lemma sweep_cell_spec:
  assumes ok: "mem_ok C m" "c \<in> C" "sweepable m c"
  shows "\<exists>m'. sweep_cell cs c (m, fl, ff, a) =
      Some (m', if survives m c then fl else c # fl, ff \<and> \<not> survives m c, a + (if survives m c then cs else 0)) \<and>
    swept C {c} m m'"
proof -
  have b: "bm_ok (gm_live m)" "bm_ok (gm_mark m)" "covers (gm_live m) c" "covers (gm_mark m) c"
    using ok by (auto simp: mem_ok_def)
  note t = bm_test_eq [OF b(1,3)] bm_test_eq [OF b(2,4)]
  note w = bm_modify_eq [OF b(1,3), of False] bm_modify_eq [OF b(2,4), of False]
  note pm = put_bit_marked [OF b(1,3), of False] put_bit_marked [OF b(2,4), of False]
  have gran: "granule (gm_live m) d = granule (gm_live m) c \<longleftrightarrow> d = c" "granule (gm_mark m) d = granule (gm_mark m) c \<longleftrightarrow> d = c"
    if "d \<in> C" for d
    using ok that by (auto simp: mem_ok_def inj_on_def)
  have still: "bm_test (put_bit False c (gm_mark m)) c = Some False"
    using bm_test_eq [of "put_bit False c (gm_mark m)" c] b pm(2) by simp
  consider "survives m c" | "lv m c" "\<not> mk m c" | "\<not> lv m c" "\<not> mk m c"
    using ok(3) by (auto simp: survives_def sweepable_def)
  then show ?thesis
  proof cases
    case 1
    then obtain h where h: "gm_cells m c = Some h" "cell_state h = DEFINETELY_WHITE \<or> cell_state h = POSSIBLY_BLACK" "lv m c" "mk m c"
      using ok(3) by (auto simp: survives_def sweepable_def)
    let ?m = "m\<lparr>gm_mark := put_bit False c (gm_mark m), gm_cells := (gm_cells m)(c \<mapsto> force_set_state DEFINETELY_WHITE h)\<rparr>"
    have "sweep_cell cs c (m, fl, ff, a) = Some (?m, fl, False, a + cs)"
      using h t w by (auto simp: sweep_cell_def bm_clear_def)
    moreover have "swept C {c} m ?m"
      using b h pm gran ok(3) by (auto simp: swept_def survives_def swept_header_def sweepable_def)
    ultimately show ?thesis using 1 by auto
  next
    case 2
    then obtain h where h: "gm_cells m c = Some h" "cell_state h = DEFINETELY_WHITE \<or> cell_state h = POSSIBLY_BLACK"
      using ok(3) by (auto simp: sweepable_def)
    let ?m = "m\<lparr>gm_mark := put_bit False c (gm_mark m), gm_live := put_bit False c (gm_live m), gm_cells := (gm_cells m)(c := None)\<rparr>"
    have "sweep_cell cs c (m, fl, ff, a) = Some (?m, c # fl, ff, a)"
      using h 2 t w still by (auto simp: sweep_cell_def bm_clear_def freelist_add_def)
    moreover have "swept C {c} m ?m"
      using b h 2 pm gran by (auto simp: swept_def survives_def swept_header_def)
    ultimately show ?thesis using 2 by (auto simp: survives_def)
  next
    case 3
    then have "sweep_cell cs c (m, fl, ff, a) = Some (m, c # fl, ff, a)"
      using t by (auto simp: sweep_cell_def freelist_add_def)
    moreover have "swept C {c} m m" using b 3 by (auto simp: swept_def survives_def swept_header_def)
    ultimately show ?thesis using 3 by (auto simp: survives_def)
  qed
qed

lemma sweep_cells_spec:
  assumes "mem_ok C m" "set xs \<subseteq> C" "distinct xs" "\<forall>c \<in> set xs. sweepable m c"
  shows "\<exists>m'. sweep_cells cs xs (m, fl, ff, a) =
      Some (m', rev (filter (\<lambda>c. \<not> survives m c) xs) @ fl, ff \<and> (\<forall>c \<in> set xs. \<not> survives m c),
            a + cs * length (filter (survives m) xs)) \<and>
    swept C (set xs) m m'"
  using assms
proof (induction xs arbitrary: m fl ff a)
  case (Cons c xs)
  obtain m1 where m1: "sweep_cell cs c (m, fl, ff, a) =
      Some (m1, if survives m c then fl else c # fl, ff \<and> \<not> survives m c, a + (if survives m c then cs else 0))"
    "swept C {c} m m1"
    using sweep_cell_spec [OF Cons.prems(1), of c cs fl ff a] Cons.prems(2,4) by (auto simp del: split_paired_Ex)
  have late: "survives m1 d = survives m d" "sweepable m1 d = sweepable m d" if "d \<in> set xs" for d
    using swept_later [OF m1(2), of d] Cons.prems(2,3) that by auto
  obtain m2 where m2: "sweep_cells cs xs (m1, if survives m c then fl else c # fl, ff \<and> \<not> survives m c,
        a + (if survives m c then cs else 0)) =
      Some (m2, rev (filter (\<lambda>c. \<not> survives m1 c) xs) @ (if survives m c then fl else c # fl),
        (ff \<and> \<not> survives m c) \<and> (\<forall>c \<in> set xs. \<not> survives m1 c),
        a + (if survives m c then cs else 0) + cs * length (filter (survives m1) xs))"
    "swept C (set xs) m1 m2"
    using Cons.IH [OF swept_mem_ok [OF Cons.prems(1) m1(2)], of "if survives m c then fl else c # fl"
        "ff \<and> \<not> survives m c" "a + (if survives m c then cs else 0)"] Cons.prems(2,3,4) late
    by (simp, blast)
  have filters: "filter (survives m1) xs = filter (survives m) xs" "filter (\<lambda>c. \<not> survives m1 c) xs = filter (\<lambda>c. \<not> survives m c) xs"
    using late(1) by (auto intro: filter_cong)
  have "swept C (set (c # xs)) m m2" using swept_trans [OF m1(2) m2(2)] Cons.prems(2,3) by simp
  moreover have "sweep_cells cs (c # xs) (m, fl, ff, a) =
      Some (m2, rev (filter (\<lambda>c. \<not> survives m c) (c # xs)) @ fl, ff \<and> (\<forall>c \<in> set (c # xs). \<not> survives m c),
            a + cs * length (filter (survives m) (c # xs)))"
    using m1(1) m2(1) late(1) filters by auto
  ultimately show ?case by blast
qed (simp add: swept_none)

text \<open>The state of a sweep that started in \<open>m0\<close>, \<open>bs0\<close>, after the blocks \<open>D\<close>.\<close>

definition kept :: "gc_mem \<Rightarrow> block_space \<Rightarrow> nat set \<Rightarrow> nat set" where
  "kept m0 bs0 D = {b \<in> D. \<exists>c \<in> cells_of bs0 b. survives m0 c}"
definition live_bytes :: "gc_mem \<Rightarrow> block_space \<Rightarrow> nat \<Rightarrow> nat set \<Rightarrow> nat" where
  "live_bytes m0 bs0 cs D = (\<Sum>b \<in> D. cs * card {c \<in> cells_of bs0 b. survives m0 c})"
definition sweeping :: "nat set \<Rightarrow> gc_mem \<Rightarrow> block_space \<Rightarrow> nat set \<Rightarrow> nat \<Rightarrow> nat \<Rightarrow> nat set \<Rightarrow> sweep_state \<Rightarrow> bool" where
  "sweeping C m0 bs0 used cs a0 D s \<longleftrightarrow>
     swept C (\<Union>b \<in> D. cells_of bs0 b) m0 (sw_mem s) \<and>
     distinct (sw_available s @ sw_unavailable s) \<and> set (sw_available s @ sw_unavailable s) = kept m0 bs0 D \<and>
     (\<forall>b \<in> kept m0 bs0 D. block_good (lv (sw_mem s)) cs (sw_blocks s) b) \<and> (\<forall>b \<in> set (sw_available s). has_free (sw_blocks s) b) \<and>
     (\<forall>b. b \<notin> D \<longrightarrow> bs_blocks (sw_blocks s) b = bs_blocks bs0 b) \<and> space_ok (sw_blocks s) (used - (D - kept m0 bs0 D)) \<and>
     sw_allocated s = a0 + live_bytes m0 bs0 cs D"

text \<open>The blocks of one size class before a sweep.\<close>

definition sweep_pre :: "nat set \<Rightarrow> gc_mem \<Rightarrow> block_space \<Rightarrow> nat set \<Rightarrow> nat \<Rightarrow> nat set \<Rightarrow> bool" where
  "sweep_pre C m0 bs0 used cs B \<longleftrightarrow>
     mem_ok C m0 \<and> space_ok bs0 used \<and> finite B \<and> B \<subseteq> used \<and> 0 < cs \<and> cs \<le> BLOCK_SIZE - DATA_START \<and>
     (\<forall>b \<in> B. block_good (lv m0) cs bs0 b \<and> cells_of bs0 b \<subseteq> C \<and> (\<forall>c \<in> cells_of bs0 b. sweepable m0 c))"

lemma block_walk_nonempty:
  "0 < blk_cell_size blk \<Longrightarrow> blk_cell_size blk \<le> BLOCK_SIZE - DATA_START \<Longrightarrow> block_walk b blk \<noteq> []"
  by (simp add: block_walk_def cell_count_def div_greater_zero_iff)

lemma walk_freelist [simp]: "block_walk b (blk\<lparr>blk_freelist := fl\<rparr>) = block_walk b blk"
  by (rule walk_cs) simp

lemma sweep_block_spec:
  assumes pre: "sweep_pre C m0 bs0 used cs B" and st: "sweeping C m0 bs0 used cs a0 D s" and D: "insert b D \<subseteq> B" "b \<notin> D"
  shows "\<exists>s'. sweep_block b s = Some s' \<and> sweeping C m0 bs0 used cs a0 (insert b D) s'"
proof -
  have cs: "0 < cs" "cs \<le> BLOCK_SIZE - DATA_START" using pre by (simp_all add: sweep_pre_def)
  have good: "block_good (lv m0) cs bs0 d" "cells_of bs0 d \<subseteq> C" "\<And>c. c \<in> cells_of bs0 d \<Longrightarrow> sweepable m0 c" "d \<in> used"
    if "d \<in> B" for d
    using pre that by (auto simp: sweep_pre_def)
  have bB: "b \<in> B" using D by simp
  obtain blk where blk: "bs_blocks bs0 b = Some blk" "b mod BLOCK_SIZE = 0" "blk_cell_size blk = cs"
    using good(1) [OF bB] by (auto simp: block_good_def)
  let ?S = "\<Union>d \<in> D. cells_of bs0 d" and ?X = "block_walk b blk"
  have cells: "cells_of bs0 b = set ?X" using blk(1) by (simp add: cells_of_def)
  have sw: "swept C ?S m0 (sw_mem s)" using st by (simp add: sweeping_def)
  have apart: "c \<notin> ?S" if "c \<in> set ?X" for c
    using good_blocks_apart [OF good(1) good(1) cs(1) cs(1)] D bB that cells by blast
  have X: "set ?X \<subseteq> C" "distinct ?X" "?X \<noteq> []" using good(2) [OF bB] cells cells_distinct [of blk b] block_walk_nonempty [of blk b] blk(3) cs by auto
  have late: "survives (sw_mem s) c = survives m0 c" "sweepable (sw_mem s) c" if "c \<in> set ?X" for c
    using swept_later [OF sw, of c] apart X(1) good(3) [OF bB] cells that by auto
  have here: "bs_blocks (sw_blocks s) b = Some blk" using st blk(1) D(2) by (simp add: sweeping_def)
  have ok: "mem_ok C (sw_mem s)" using swept_mem_ok [OF _ sw] pre by (simp add: sweep_pre_def)
  obtain m where m: "sweep_cells cs ?X (sw_mem s, freelist_new, True, sw_allocated s) =
      Some (m, rev (filter (\<lambda>c. \<not> survives m0 c) ?X), \<forall>c \<in> set ?X. \<not> survives m0 c,
            sw_allocated s + cs * length (filter (survives m0) ?X))"
    "swept C (set ?X) (sw_mem s) m"
    using sweep_cells_spec [OF ok X(1,2), of cs freelist_new True "sw_allocated s"] late
    by (auto simp: freelist_new_def cong: filter_cong)
  let ?fl = "rev (filter (\<lambda>c. \<not> survives m0 c) ?X)"
  let ?bs = "(sw_blocks s)\<lparr>bs_blocks := (bs_blocks (sw_blocks s))(b \<mapsto> blk\<lparr>blk_freelist := ?fl\<rparr>)\<rparr>"
  have S': "swept C (\<Union>d \<in> insert b D. cells_of bs0 d) m0 m"
  proof -
    have "swept C (?S \<union> set ?X) m0 m" using swept_trans [OF sw m(2) X(1)] apart by blast
    moreover have "?S \<union> set ?X = (\<Union>d \<in> insert b D. cells_of bs0 d)" using cells by blast
    ultimately show ?thesis by simp
  qed
  have lvX: "lv m c = survives m0 c" if "c \<in> set ?X" for c
    using swept_cell(1) [OF S', of c] that X(1) cells by auto
  have gb: "block_good (lv m) cs ?bs b"
    using blk X(2) lvX by (auto simp: block_good_def)
  have gd: "block_good (lv m) cs bs' d" if d: "d \<in> kept m0 bs0 D" and "bs_blocks bs' d = bs_blocks (sw_blocks s) d" for d bs'
  proof -
    have dD: "d \<in> D" "d \<in> B" "d \<noteq> b" using d D by (auto simp: kept_def)
    have g: "block_good (lv (sw_mem s)) cs (sw_blocks s) d" using st d by (simp add: sweeping_def)
    then obtain blkd blkd0 where e: "bs_blocks (sw_blocks s) d = Some blkd" "blk_cell_size blkd = cs"
      "bs_blocks bs0 d = Some blkd0" "blk_cell_size blkd0 = cs"
      using good(1) [OF dD(2)] by (auto simp: block_good_def)
    have same: "cells_of (sw_blocks s) d = cells_of bs0 d" using e walk_cs [of blkd blkd0 d] by (simp add: cells_of_def)
    have "lv (sw_mem s) c = lv m c" if c: "c \<in> cells_of (sw_blocks s) d" for c
    proof -
      have "c \<in> ?S" using c same dD(1) by blast
      then have "c \<notin> set ?X" "c \<in> C" using apart good(2) D by blast+
      then show ?thesis using swept_cell(1) [OF m(2)] by simp
    qed
    then show ?thesis using g that(2) block_good_cong [of "sw_blocks s" d bs' "lv (sw_mem s)" "lv m"] by simp
  qed
  have kept_iff: "kept m0 bs0 (insert b D) = (if \<forall>c \<in> set ?X. \<not> survives m0 c then kept m0 bs0 D else insert b (kept m0 bs0 D))"
    using cells by (auto simp: kept_def)
  have bK: "b \<notin> kept m0 bs0 D" using D(2) by (simp add: kept_def)
  have bytes: "live_bytes m0 bs0 cs (insert b D) = live_bytes m0 bs0 cs D + cs * length (filter (survives m0) ?X)"
  proof -
    have "finite D" using pre D(1) by (auto simp: sweep_pre_def intro: finite_subset)
    moreover have "card {c \<in> cells_of bs0 b. survives m0 c} = length (filter (survives m0) ?X)"
      using X(2) cells distinct_card [of "filter (survives m0) ?X"] by simp
    ultimately show ?thesis using D(2) by (simp add: live_bytes_def)
  qed
  let ?s = "s\<lparr>sw_mem := m, sw_blocks := ?bs, sw_allocated := sw_allocated s + cs * length (filter (survives m0) ?X)\<rparr>"
  have step: "sweep_block b s =
      (if ?fl = [] then Some (?s\<lparr>sw_unavailable := b # sw_unavailable s\<rparr>)
       else if \<forall>c \<in> set ?X. \<not> survives m0 c then Some (?s\<lparr>sw_blocks := return_block b ?bs\<rparr>)
       else Some (?s\<lparr>sw_available := b # sw_available s\<rparr>))"
    using here blk(3) m(1) by (simp add: sweep_block_def Let_def)
  let ?K = "kept m0 bs0 D" and ?K' = "kept m0 bs0 (insert b D)"
  have stD: "distinct (sw_available s @ sw_unavailable s)" "set (sw_available s @ sw_unavailable s) = ?K"
    "\<forall>b \<in> set (sw_available s). has_free (sw_blocks s) b" "\<forall>d. d \<notin> D \<longrightarrow> bs_blocks (sw_blocks s) d = bs_blocks bs0 d"
    "space_ok (sw_blocks s) (used - (D - ?K))" "sw_allocated s = a0 + live_bytes m0 bs0 cs D"
    using st by (simp_all add: sweeping_def)
  have bu: "b \<in> used - (D - ?K)" using good(4) [OF bB] D(2) by simp
  have sp: "space_ok ?bs (used - (D - ?K))" by (rule space_ok_update [OF stD(5) bu])
  have frees: "has_free bs' d" if "d \<in> set (sw_available s)" "\<forall>d. d \<noteq> b \<longrightarrow> bs_blocks bs' d = bs_blocks (sw_blocks s) d" for d bs'
  proof -
    have "d \<noteq> b" using that(1) stD(2) bK by auto
    then show ?thesis using stD(3) that by (simp add: has_free_def)
  qed
  have goods: "block_good (lv m) cs bs' d" if "d \<in> ?K" "\<forall>d. d \<noteq> b \<longrightarrow> bs_blocks bs' d = bs_blocks (sw_blocks s) d" for d bs'
    using gd [OF that(1)] that bK by metis
  have alloc: "sw_allocated s + cs * length (filter (survives m0) ?X) = a0 + live_bytes m0 bs0 cs (insert b D)"
    using stD(6) bytes by simp
  show ?thesis
  proof (cases "\<forall>c \<in> set ?X. \<not> survives m0 c")
    case empty: True
    let ?r = "return_block b ?bs"
    have "?fl \<noteq> []" using X(3) empty by (cases ?X) auto
    with step empty have "sweep_block b s = Some (?s\<lparr>sw_blocks := ?r\<rparr>)" by simp
    moreover have "sweeping C m0 bs0 used cs a0 (insert b D) (?s\<lparr>sw_blocks := ?r\<rparr>)"
    proof -
      have K: "?K' = ?K" using kept_iff empty by simp
      have others: "\<forall>d. d \<noteq> b \<longrightarrow> bs_blocks ?r d = bs_blocks (sw_blocks s) d" by (simp add: return_block_def)
      have "used - (insert b D - ?K) = used - (D - ?K) - {b}" using bK by blast
      then have "space_ok ?r (used - (insert b D - ?K))" using return_block_spec(1) [OF sp bu] by simp
      then show ?thesis
        unfolding sweeping_def K using S' stD alloc goods [OF _ others] frees [OF _ others] others by simp
    qed
    ultimately show ?thesis by blast
  next
    case False
    then have K: "?K' = insert b ?K" "insert b D - insert b ?K = D - ?K" using kept_iff bK D(2) by auto
    have others: "\<forall>d. d \<noteq> b \<longrightarrow> bs_blocks ?bs d = bs_blocks (sw_blocks s) d" by simp
    have bnew: "b \<notin> set (sw_available s)" "b \<notin> set (sw_unavailable s)" using stD(2) bK by auto
    show ?thesis
    proof (cases "?fl = []")
      case True
      let ?t = "?s\<lparr>sw_unavailable := b # sw_unavailable s\<rparr>"
      have "sweeping C m0 bs0 used cs a0 (insert b D) ?t"
        unfolding sweeping_def K using S' stD alloc goods [OF _ others] frees [OF _ others] others gb sp bnew bK by (simp add: K(2))
      moreover have "sweep_block b s = Some ?t" unfolding step by (rule if_P [OF True])
      ultimately show ?thesis by blast
    next
      case fl: False
      let ?t = "?s\<lparr>sw_available := b # sw_available s\<rparr>"
      have "has_free ?bs b" using fl by (simp add: has_free_def)
      then have "sweeping C m0 bs0 used cs a0 (insert b D) ?t"
        unfolding sweeping_def K using S' stD alloc goods [OF _ others] frees [OF _ others] others gb sp bnew bK by (simp add: K(2))
      moreover have "sweep_block b s = Some ?t" unfolding step if_not_P [OF fl] by (rule if_not_P [OF False])
      ultimately show ?thesis by blast
    qed
  qed
qed

lemma sweep_chain_spec:
  assumes "sweep_pre C m0 bs0 used cs B" "sweeping C m0 bs0 used cs a0 D s" "set bs \<union> D \<subseteq> B" "set bs \<inter> D = {}" "distinct bs"
  shows "\<exists>s'. sweep_chain bs s = Some s' \<and> sweeping C m0 bs0 used cs a0 (set bs \<union> D) s'"
  using assms(2-5)
proof (induction bs arbitrary: s D)
  case (Cons b bs)
  obtain s1 where s1: "sweep_block b s = Some s1" "sweeping C m0 bs0 used cs a0 (insert b D) s1"
    using sweep_block_spec [OF assms(1) Cons.prems(1), of b] Cons.prems(2-4) by auto
  moreover obtain s2 where "sweep_chain bs s1 = Some s2" "sweeping C m0 bs0 used cs a0 (set bs \<union> insert b D) s2"
    using Cons.IH [OF s1(2)] Cons.prems(2-4) by auto
  ultimately show ?case by auto
qed auto

text \<open>What the sweep of one allocator does: \<open>B\<close> are its blocks.\<close>

definition la_swept ::
  "nat set \<Rightarrow> gc_mem \<Rightarrow> block_space \<Rightarrow> nat set \<Rightarrow> local_allocator \<Rightarrow> nat \<Rightarrow> local_allocator \<Rightarrow> nat \<Rightarrow> gc_mem \<Rightarrow> block_space \<Rightarrow> bool" where
  "la_swept C m bs used la a la' a' m' bs' \<longleftrightarrow>
     (let B = set (la_blocks la); K = kept m bs B in
      la_ok (lv m') bs' la' \<and> la_cell_size la' = la_cell_size la \<and> set (la_blocks la') = K \<and>
      swept C (\<Union>b \<in> B. cells_of bs b) m m' \<and> space_ok bs' (used - (B - K)) \<and>
      (\<forall>b. b \<notin> B \<longrightarrow> bs_blocks bs' b = bs_blocks bs b) \<and> a' = a + live_bytes m bs (la_cell_size la) B)"

lemma la_sweep_spec:
  assumes ok: "la_ok (lv m) bs la" "mem_ok C m" "space_ok bs used" "set (la_blocks la) \<subseteq> used"
    and cells: "\<forall>b \<in> set (la_blocks la). cells_of bs b \<subseteq> C \<and> (\<forall>c \<in> cells_of bs b. sweepable m c)"
  shows "\<exists>la' a' m' bs'. la_sweep la a m bs = Some (la', a', m', bs') \<and> la_swept C m bs used la a la' a' m' bs'"
proof -
  let ?cs = "la_cell_size la" and ?B = "set (la_blocks la)"
  have pre: "sweep_pre C m bs used ?cs ?B"
    using assms by (auto simp: sweep_pre_def la_ok_def)
  let ?s0 = "\<lparr>sw_mem = m, sw_blocks = bs, sw_available = [], sw_unavailable = [], sw_allocated = a\<rparr>"
  have "sweeping C m bs used ?cs a {} ?s0"
    using ok(2,3) swept_none by (simp add: sweeping_def kept_def live_bytes_def)
  then obtain s1 where s1: "sweep_chain (la_current la) ?s0 = Some s1" "sweeping C m bs used ?cs a (set (la_current la)) s1"
    using sweep_chain_spec [OF pre, of a "{}" ?s0 "la_current la"] ok(1) by (auto simp: la_ok_def la_blocks_def)
  then obtain s2 where s2: "sweep_chain (la_unavail la) s1 = Some s2" "sweeping C m bs used ?cs a ?B s2"
    using sweep_chain_spec [OF pre s1(2), of "la_unavail la"] ok(1) by (auto simp: la_ok_def la_blocks_def Un_commute)
  let ?la = "la\<lparr>la_current := sw_available s2, la_unavail := sw_unavailable s2\<rparr>"
  have "la_ok (lv (sw_mem s2)) (sw_blocks s2) ?la"
  proof -
    have "\<forall>b \<in> set (tl (sw_available s2)). has_free (sw_blocks s2) b"
      using s2(2) by (cases "sw_available s2") (auto simp: sweeping_def)
    then show ?thesis using s2(2) ok(1) by (simp add: sweeping_def la_ok_def la_blocks_def)
  qed
  then have "la_swept C m bs used la a ?la (sw_allocated s2) (sw_mem s2) (sw_blocks s2)"
    using s2(2) by (simp add: la_swept_def sweeping_def la_blocks_def Let_def)
  with s1(1) s2(1) show ?thesis by (auto simp: la_sweep_def)
qed

end
