(* ===== verification/Large_Objects.thy ===== *)
theory Large_Objects
  imports Gc_Block Gc_Bitmap Tagged_Ptr
begin

text \<open>
  The space of large objects (gc/large_object_space.rs). Each object has a header in front of it,
  and the space is the list of the headers' addresses. What the allocator mimalloc answers is a
  parameter: \<open>malloc\<close>, the address of a new region, and \<open>mi_contains\<close>, whether an address is a block
  of the heap. \<open>cells\<close> are the headers of the objects.
\<close>

record precise_allocation =
  pa_cell_size :: nat
  pa_is_marked :: bool
  pa_index_in_space :: u32
  pa_adjusted_alignment :: bool
  pa_has_valid_cell :: bool

definition PA_ALIGNMENT :: nat where "PA_ALIGNMENT = 16"
definition HALF_ALIGNMENT :: nat where "HALF_ALIGNMENT = PA_ALIGNMENT div 2"

text \<open>\<open>size_of::<PreciseAllocation>()\<close>, and \<open>(24 + 7) & !7 | 8\<close>.\<close>

definition PA_SIZE :: nat where "PA_SIZE = 24"
definition header_size :: nat where
  "header_size = ((PA_SIZE + HALF_ALIGNMENT - 1) - ((PA_SIZE + HALF_ALIGNMENT - 1) AND (HALF_ALIGNMENT - 1))) OR HALF_ALIGNMENT"
definition is_precise :: "nat \<Rightarrow> bool" where
  "is_precise raw_ptr = (raw_ptr AND HALF_ALIGNMENT \<noteq> 0)"
definition from_cell :: "nat \<Rightarrow> nat" where
  "from_cell ptr = wrapping_sub ptr header_size"
definition base_pointer :: "nat \<Rightarrow> precise_allocation \<Rightarrow> nat" where
  "base_pointer at p = (if pa_adjusted_alignment p then at - HALF_ALIGNMENT else at)"
definition clear_marked :: "precise_allocation \<Rightarrow> precise_allocation" where
  "clear_marked p = p\<lparr>pa_is_marked := False\<rparr>"
definition test_and_set_marked :: "precise_allocation \<Rightarrow> bool \<times> precise_allocation" where
  "test_and_set_marked p = (if pa_is_marked p then (True, p) else (False, p\<lparr>pa_is_marked := True\<rparr>))"
definition pa_cell :: "nat \<Rightarrow> nat" where
  "pa_cell at = at + header_size"
definition above_lower_bound :: "nat \<Rightarrow> nat \<Rightarrow> bool" where
  "above_lower_bound at raw_ptr = (raw_ptr \<ge> pa_cell at)"
definition below_upper_bound :: "nat \<Rightarrow> precise_allocation \<Rightarrow> nat \<Rightarrow> bool" where
  "below_upper_bound at p raw_ptr = (raw_ptr \<le> pa_cell at + pa_cell_size p + 8)"
definition pa_contains :: "nat \<Rightarrow> precise_allocation \<Rightarrow> nat \<Rightarrow> bool" where
  "pa_contains at p raw_ptr = (above_lower_bound at raw_ptr \<and> below_upper_bound at p raw_ptr)"
definition is_live :: "precise_allocation \<Rightarrow> bool" where
  "is_live p = pa_is_marked p"
definition pa_flip :: "precise_allocation \<Rightarrow> precise_allocation" where
  "pa_flip p = clear_marked p"
definition pa_is_empty :: "precise_allocation \<Rightarrow> bool" where
  "pa_is_empty p = (\<not> pa_is_marked p)"
definition pa_sweep :: "precise_allocation \<Rightarrow> bool \<times> precise_allocation" where
  "pa_sweep p = (if \<not> pa_is_marked p then (False, p\<lparr>pa_has_valid_cell := False\<rparr>) else (True, p))"
definition is_aligned_for_precise_allocation :: "nat \<Rightarrow> bool" where
  "is_aligned_for_precise_allocation mem = (mem AND (PA_ALIGNMENT - 1) = 0)"

record large_space =
  ls_allocations :: "nat list"
  ls_current_live_mark :: bool
  ls_headers :: "nat \<Rightarrow> precise_allocation option"

definition large_space_new :: large_space where
  "large_space_new = \<lparr>ls_allocations = [], ls_current_live_mark = False, ls_headers = (\<lambda>_. None)\<rparr>"

definition try_create :: "(nat \<Rightarrow> nat) \<Rightarrow> nat \<Rightarrow> nat \<Rightarrow> large_space \<Rightarrow> (nat \<times> large_space) panics" where
  "try_create malloc sz index_in_space ls =
     (let space0 = malloc (header_size + sz + HALF_ALIGNMENT);
          adjusted = \<not> is_aligned_for_precise_allocation space0;
          space = (if adjusted then space0 + HALF_ALIGNMENT else space0)
      in if adjusted \<and> \<not> is_aligned_for_precise_allocation space then None
         else if sz = 0 then None
         else Some (space, ls\<lparr>ls_headers := (ls_headers ls)(space \<mapsto>
           \<lparr>pa_cell_size = sz, pa_is_marked = False, pa_index_in_space = word_of_nat index_in_space,
            pa_adjusted_alignment = adjusted, pa_has_valid_cell = True\<rparr>)\<rparr>))"
definition ls_alloc :: "(nat \<Rightarrow> nat) \<Rightarrow> nat \<Rightarrow> nat \<Rightarrow> large_space \<Rightarrow> (nat \<times> nat \<times> large_space) panics" where
  "ls_alloc malloc sz th ls =
     (let ix = length (ls_allocations ls) in
      case try_create malloc sz ix ls of
        None \<Rightarrow> None
      | Some (cell, ls1) \<Rightarrow>
          if cell = 0 then Some (0, th, ls1)
          else
            (case ls_headers ls1 cell of
               None \<Rightarrow> None
             | Some p \<Rightarrow> Some (pa_cell cell, th + pa_cell_size p, ls1\<lparr>ls_allocations := ls_allocations ls1 @ [cell]\<rparr>)))"
definition ls_contains :: "(nat \<Rightarrow> bool) \<Rightarrow> large_space \<Rightarrow> nat \<Rightarrow> bool" where
  "ls_contains mi_contains ls p =
     (if ls_allocations ls = [] then False
      else (let alloc = from_cell p in mi_contains alloc \<and> alloc \<in> set (ls_allocations ls)))"

text \<open>The closure of \<open>retain\<close>: a dropped object loses its header and its memory.\<close>

fun ls_retain ::
  "nat list \<Rightarrow> large_space \<times> (nat \<Rightarrow> gc_pointer_base option) \<times> nat \<Rightarrow>
     (nat list \<times> large_space \<times> (nat \<Rightarrow> gc_pointer_base option) \<times> nat) panics" where
  "ls_retain [] (ls, cells, swept) = Some ([], ls, cells, swept)"
| "ls_retain (a # as) (ls, cells, swept) =
     (case (ls_headers ls a, cells (pa_cell a)) of
        (Some p, Some c) \<Rightarrow>
          (let (retain, p1) = pa_sweep p in
           if \<not> retain then
             ls_retain as (ls\<lparr>ls_headers := (ls_headers ls)(a := None)\<rparr>, cells(pa_cell a := None), swept)
           else
             map_option (\<lambda>(kept, r). (a # kept, r))
               (ls_retain as (ls\<lparr>ls_headers := (ls_headers ls)(a \<mapsto> p1)\<rparr>,
                  cells(pa_cell a \<mapsto> force_set_state DEFINETELY_WHITE c), swept + pa_cell_size p1)))
      | _ \<Rightarrow> None)"
definition ls_sweep ::
  "large_space \<Rightarrow> (nat \<Rightarrow> gc_pointer_base option) \<Rightarrow> (nat \<times> large_space \<times> (nat \<Rightarrow> gc_pointer_base option)) panics" where
  "ls_sweep ls cells =
     (case ls_retain (ls_allocations ls) (ls, cells, 0) of
        None \<Rightarrow> None
      | Some (kept, ls1, cells1, swept) \<Rightarrow> Some (swept, ls1\<lparr>ls_allocations := kept\<rparr>, cells1))"

section \<open>Sweeping\<close>

lemma header_size_eq: "header_size = 24"
  by (simp add: header_size_def PA_SIZE_def HALF_ALIGNMENT_def PA_ALIGNMENT_def)

lemma pa_cell_inj [simp]: "pa_cell a = pa_cell b \<longleftrightarrow> a = b"
  by (simp add: pa_cell_def)

lemma force_twice: "force_set_state DEFINETELY_WHITE (force_set_state DEFINETELY_WHITE c) = force_set_state DEFINETELY_WHITE c"
  using tagged_bits(1) [OF states_small(3), of "base_vtable c"] by (simp add: force_set_state_def tp_set_tag_def)

text \<open>Every allocation has its header and an object.\<close>

definition ls_ok :: "large_space \<Rightarrow> (nat \<Rightarrow> gc_pointer_base option) \<Rightarrow> bool" where
  "ls_ok ls cells \<longleftrightarrow> distinct (ls_allocations ls) \<and> 0 \<notin> set (ls_allocations ls) \<and>
     (\<forall>a. (\<exists>p. ls_headers ls a = Some p) \<longleftrightarrow> a \<in> set (ls_allocations ls)) \<and>
     (\<forall>a \<in> set (ls_allocations ls). cells (pa_cell a) \<noteq> None)"
definition ls_marked :: "large_space \<Rightarrow> nat \<Rightarrow> bool" where
  "ls_marked ls a = (case ls_headers ls a of None \<Rightarrow> False | Some p \<Rightarrow> pa_is_marked p)"
definition large_size :: "large_space \<Rightarrow> nat \<Rightarrow> nat" where
  "large_size ls a = (case ls_headers ls a of None \<Rightarrow> 0 | Some p \<Rightarrow> pa_cell_size p)"

definition kept_headers :: "large_space \<Rightarrow> nat list \<Rightarrow> nat \<Rightarrow> precise_allocation option" where
  "kept_headers ls as a = (if a \<in> set as \<and> \<not> ls_marked ls a then None else ls_headers ls a)"
definition kept_cells :: "large_space \<Rightarrow> nat list \<Rightarrow> (nat \<Rightarrow> gc_pointer_base option) \<Rightarrow> nat \<Rightarrow> gc_pointer_base option" where
  "kept_cells ls as cells c =
     (if c \<in> pa_cell ` set as
      then if ls_marked ls (c - header_size) then map_option (force_set_state DEFINETELY_WHITE) (cells c) else None
      else cells c)"

lemma ls_retain_eq:
  assumes "distinct as" "\<forall>a \<in> set as. ls_headers ls a \<noteq> None \<and> cells (pa_cell a) \<noteq> None"
  shows "ls_retain as (ls, cells, n) =
    Some (filter (ls_marked ls) as, ls\<lparr>ls_headers := kept_headers ls as\<rparr>, kept_cells ls as cells,
      n + (\<Sum>a \<leftarrow> filter (ls_marked ls) as. large_size ls a))"
  using assms
proof (induction as arbitrary: ls cells n)
  case Nil
  have "kept_headers ls [] = ls_headers ls" "kept_cells ls [] cells = cells"
    by (simp_all add: kept_headers_def [abs_def] kept_cells_def [abs_def])
  then show ?case by simp
next
  case (Cons a as)
  then obtain p c where pc: "ls_headers ls a = Some p" "cells (pa_cell a) = Some c" by auto
  have m: "ls_marked ls a = pa_is_marked p" "large_size ls a = pa_cell_size p" using pc by (simp_all add: ls_marked_def large_size_def)
  have inv_cell: "pa_cell b - header_size = b" for b by (simp add: pa_cell_def)
  show ?case
  proof (cases "pa_is_marked p")
    case True
    let ?cells = "cells(pa_cell a \<mapsto> force_set_state DEFINETELY_WHITE c)"
    have "kept_headers ls (a # as) = kept_headers ls as" using True m by (auto simp: kept_headers_def)
    moreover have "kept_cells ls (a # as) cells = kept_cells ls as ?cells"
      using Cons.prems(1) True m pc inv_cell by (auto simp: kept_cells_def fun_eq_iff)
    moreover have "ls_retain as (ls, ?cells, n + pa_cell_size p) =
        Some (filter (ls_marked ls) as, ls\<lparr>ls_headers := kept_headers ls as\<rparr>, kept_cells ls as ?cells,
          n + pa_cell_size p + (\<Sum>a \<leftarrow> filter (ls_marked ls) as. large_size ls a))"
      using Cons.prems by (intro Cons.IH) auto
    ultimately show ?thesis using True m pc by (simp add: pa_sweep_def fun_upd_idem)
  next
    case False
    let ?cells = "cells(pa_cell a := None)" and ?ls = "ls\<lparr>ls_headers := (ls_headers ls)(a := None)\<rparr>"
    have same: "ls_marked ?ls b = ls_marked ls b" "large_size ?ls b = large_size ls b" if "b \<noteq> a" for b
      using that by (auto simp: ls_marked_def large_size_def)
    have "b \<noteq> a" if "b \<in> set as" for b using Cons.prems(1) that by auto
    then have f: "filter (ls_marked ?ls) as = filter (ls_marked ls) as"
      "map (large_size ?ls) (filter (ls_marked ls) as) = map (large_size ls) (filter (ls_marked ls) as)"
      using same by (auto intro: filter_cong)
    have "kept_headers ls (a # as) = kept_headers ?ls as" using False m same by (auto simp: kept_headers_def fun_eq_iff)
    moreover have "kept_cells ls (a # as) cells = kept_cells ?ls as ?cells"
      using Cons.prems(1) False m pc inv_cell same(1) by (auto simp: kept_cells_def fun_eq_iff)
    moreover have "ls_retain as (?ls, ?cells, n) =
        Some (filter (ls_marked ?ls) as, ?ls\<lparr>ls_headers := kept_headers ?ls as\<rparr>, kept_cells ?ls as ?cells,
          n + (\<Sum>a \<leftarrow> filter (ls_marked ?ls) as. large_size ?ls a))"
      using Cons.prems by (intro Cons.IH) auto
    ultimately show ?thesis using False m pc f by (simp add: pa_sweep_def)
  qed
qed

lemma ls_sweep_eq:
  assumes "ls_ok ls cells"
  shows "ls_sweep ls cells = Some (\<Sum>a \<leftarrow> filter (ls_marked ls) (ls_allocations ls). large_size ls a,
    ls\<lparr>ls_headers := kept_headers ls (ls_allocations ls), ls_allocations := filter (ls_marked ls) (ls_allocations ls)\<rparr>,
    kept_cells ls (ls_allocations ls) cells)"
proof -
  have "\<forall>a \<in> set (ls_allocations ls). ls_headers ls a \<noteq> None \<and> cells (pa_cell a) \<noteq> None"
    using assms by (auto simp: ls_ok_def)
  with ls_retain_eq [of "ls_allocations ls" ls cells 0] assms show ?thesis by (simp add: ls_sweep_def ls_ok_def)
qed

lemma large_sweep_twice:
  assumes "ls_ok ls cells"
  shows "\<exists>ls' cells'. ls_sweep ls cells = Some (\<Sum>a \<leftarrow> filter (ls_marked ls) (ls_allocations ls). large_size ls a, ls', cells') \<and>
    ls_allocations ls' = filter (ls_marked ls) (ls_allocations ls) \<and> ls_ok ls' cells' \<and>
    (\<forall>a \<in> set (ls_allocations ls'). ls_marked ls' a \<and> cells' (pa_cell a) = map_option (force_set_state DEFINETELY_WHITE) (cells (pa_cell a))) \<and>
    ls_sweep ls' cells' = Some (\<Sum>a \<leftarrow> ls_allocations ls'. large_size ls' a, ls', cells')"
proof -
  let ?as = "filter (ls_marked ls) (ls_allocations ls)" and ?cells = "kept_cells ls (ls_allocations ls) cells"
  let ?ls = "ls\<lparr>ls_headers := kept_headers ls (ls_allocations ls), ls_allocations := ?as\<rparr>"
  have marked: "a \<in> set (ls_allocations ls)" if "ls_marked ls a" for a
    using assms that by (auto simp: ls_ok_def ls_marked_def split: option.splits)
  have same: "ls_marked ?ls a = ls_marked ls a" "ls_marked ls a \<Longrightarrow> large_size ?ls a = large_size ls a" for a
    using marked by (auto simp: ls_marked_def large_size_def kept_headers_def split: option.split)
  have cells: "?cells (pa_cell a) = map_option (force_set_state DEFINETELY_WHITE) (cells (pa_cell a))" if "a \<in> set ?as" for a
    using that by (auto simp: kept_cells_def) (simp_all add: pa_cell_def)
  have ok: "ls_ok ?ls ?cells"
    unfolding ls_ok_def
  proof (intro conjI allI ballI)
    have hd: "(\<exists>p. ls_headers ls a = Some p) = (a \<in> set (ls_allocations ls))" for a using assms by (simp add: ls_ok_def)
    show "(\<exists>p. ls_headers ?ls a = Some p) = (a \<in> set (ls_allocations ?ls))" for a
      using hd [of a] by (cases "ls_marked ls a") (auto simp: kept_headers_def)
    show "?cells (pa_cell a) \<noteq> None" if "a \<in> set (ls_allocations ?ls)" for a
      using that cells [of a] assms by (auto simp: ls_ok_def)
  qed (use assms in \<open>auto simp: ls_ok_def\<close>)
  have same1: "ls_marked ?ls = ls_marked ls" using same(1) by blast
  have f: "filter (ls_marked ?ls) ?as = ?as" unfolding same1 by simp
  have h: "kept_headers ?ls ?as = kept_headers ls (ls_allocations ls)"
    by (rule ext) (simp add: kept_headers_def [of ?ls ?as] same1)
  have c: "kept_cells ?ls ?as ?cells = ?cells"
  proof
    fix d
    show "kept_cells ?ls ?as ?cells d = ?cells d"
    proof (cases "d \<in> pa_cell ` set ?as")
      case True
      then obtain a where a: "d = pa_cell a" "a \<in> set ?as" by blast
      then show ?thesis using cells [OF a(2)] same1 True
        by (simp add: kept_cells_def [of ?ls]) (simp add: pa_cell_def option.map_comp o_def force_twice)
    next
      case False
      then show ?thesis by (simp add: kept_cells_def [of ?ls])
    qed
  qed
  show ?thesis using ls_sweep_eq [OF assms] ls_sweep_eq [OF ok] ok same cells f h c by simp
qed

text \<open>
  A sweep of the large objects keeps exactly the objects that are marked and returns their
  size. It never clears a mark: the marked objects are still marked afterwards, so an object that
  was reached once survives every later sweep.
\<close>

theorem large_marks_stay:
  assumes "ls_ok ls cells"
  shows "\<exists>ls' cells'. ls_sweep ls cells = Some (\<Sum>a \<leftarrow> filter (ls_marked ls) (ls_allocations ls). large_size ls a, ls', cells') \<and>
    ls_allocations ls' = filter (ls_marked ls) (ls_allocations ls) \<and> ls_ok ls' cells' \<and>
    (\<forall>a \<in> set (ls_allocations ls'). ls_marked ls' a \<and> cells' (pa_cell a) = map_option (force_set_state DEFINETELY_WHITE) (cells (pa_cell a))) \<and>
    ls_sweep ls' cells' = Some (\<Sum>a \<leftarrow> ls_allocations ls'. large_size ls' a, ls', cells')"
  using assms by (rule large_sweep_twice)

theorem large_marks_stay_witness:
  "\<exists>ls' cells'. ls_sweep \<lparr>ls_allocations = [4096], ls_current_live_mark = False,
       ls_headers = [4096 \<mapsto> \<lparr>pa_cell_size = 9000, pa_is_marked = True, pa_index_in_space = 0,
         pa_adjusted_alignment = False, pa_has_valid_cell = True\<rparr>]\<rparr> [4120 \<mapsto> base_new 8 1] = Some (9000, ls', cells') \<and>
     ls_marked ls' 4096"
proof -
  let ?ls = "\<lparr>ls_allocations = [4096], ls_current_live_mark = False,
       ls_headers = [4096 \<mapsto> \<lparr>pa_cell_size = 9000, pa_is_marked = True, pa_index_in_space = 0,
         pa_adjusted_alignment = False, pa_has_valid_cell = True\<rparr>]\<rparr>" and ?cells = "[4120 \<mapsto> base_new 8 1]"
  have "ls_ok ?ls ?cells" by (simp add: ls_ok_def pa_cell_def header_size_eq)
  moreover have "ls_marked ?ls 4096" "large_size ?ls 4096 = 9000" by (simp_all add: ls_marked_def large_size_def)
  ultimately show ?thesis using large_marks_stay [of ?ls ?cells] by auto
qed

lemma large_sweep_facts:
  assumes "ls_ok ls cells"
  shows "\<exists>ls1 cells1. ls_sweep ls cells =
      Some (\<Sum>a \<leftarrow> filter (ls_marked ls) (ls_allocations ls). large_size ls a, ls1, cells1) \<and>
    ls_allocations ls1 = filter (ls_marked ls) (ls_allocations ls) \<and> ls_ok ls1 cells1 \<and>
    (\<forall>a \<in> set (ls_allocations ls1). large_size ls1 a = large_size ls a \<and>
       cells1 (pa_cell a) = map_option (force_set_state DEFINETELY_WHITE) (cells (pa_cell a))) \<and>
    (\<forall>c. c \<notin> pa_cell ` set (ls_allocations ls) \<longrightarrow> cells1 c = cells c)"
  using ls_sweep_eq [OF assms] large_sweep_twice [OF assms]
  by (auto simp: large_size_def kept_headers_def kept_cells_def)

section \<open>Allocation and addresses\<close>

lemma align_mask: "(mem :: nat) AND 15 = mem mod 16"
proof -
  have "mem AND 15 = mem AND mask 4" by (simp add: mask_eq_exp_minus_1)
  then show ?thesis by (simp flip: take_bit_eq_mask add: take_bit_eq_mod)
qed

lemma align_mod: "is_aligned_for_precise_allocation a \<longleftrightarrow> a mod 16 = 0"
  using align_mask [of a] by (simp add: is_aligned_for_precise_allocation_def PA_ALIGNMENT_def)

text \<open>Where the header goes in the region that \<open>malloc\<close> gives for an object of \<open>sz\<close> bytes.\<close>

definition large_header_at :: "(nat \<Rightarrow> nat) \<Rightarrow> nat \<Rightarrow> nat" where
  "large_header_at malloc sz =
     (let r = malloc (header_size + sz + HALF_ALIGNMENT) in if r mod 16 = 0 then r else r + HALF_ALIGNMENT)"

lemma ls_alloc_spec:
  assumes "ls_ok ls cells" "0 < sz" "malloc (header_size + sz + HALF_ALIGNMENT) mod 8 = 0" "large_header_at malloc sz = a"
    "a \<noteq> 0" "a \<notin> set (ls_allocations ls)"
  shows "\<exists>ls'. ls_alloc malloc sz th ls = Some (pa_cell a, th + sz, ls') \<and> ls_allocations ls' = ls_allocations ls @ [a] \<and>
    ls_ok ls' (cells(pa_cell a \<mapsto> h)) \<and> large_size ls' a = sz \<and> \<not> ls_marked ls' a \<and>
    (\<forall>b. b \<noteq> a \<longrightarrow> ls_headers ls' b = ls_headers ls b)"
proof -
  have "(r + 8) mod 16 = 0" if "r mod 8 = 0" "r mod 16 \<noteq> 0" for r :: nat using that by presburger
  then have "is_aligned_for_precise_allocation a"
    using assms(3,4) by (auto simp: align_mod large_header_at_def Let_def HALF_ALIGNMENT_def PA_ALIGNMENT_def split: if_splits)
  with assms show ?thesis
    by (auto simp: ls_alloc_def try_create_def Let_def ls_ok_def large_size_def ls_marked_def large_header_at_def align_mod split: if_splits)
qed

text \<open>The cells of the blocks have the bit that is said to tell large objects apart, too.\<close>

lemma small_cells_look_precise:
  assumes "at mod BLOCK_SIZE = 0" "blk_cell_size b mod 16 = 0" "c \<in> set (block_walk at b)"
  shows "is_precise c"
proof -
  obtain i where c: "c = at + 24 + i * blk_cell_size b"
    using assms(3) by (auto simp: block_walk_def block_cell_def block_begin_def DATA_START_def)
  obtain k where k: "at = 16 * k" using assms(1) by (auto simp: BLOCK_SIZE_def elim!: dvdE)
  obtain m where m: "blk_cell_size b = 16 * m" using assms(2) by auto
  have "c = 8 * (2 * (k + i * m) + 3)" unfolding c k m by (simp add: algebra_simps)
  then have "c div 8 = 2 * (k + i * m) + 3" by simp
  then have "bit c 3" by (simp add: bit_iff_odd)
  moreover have "c AND 8 = 0 \<longleftrightarrow> \<not> bit c 3" using and_exp_eq_0_iff_not_bit [of c 3] by simp
  ultimately show ?thesis by (simp add: is_precise_def HALF_ALIGNMENT_def PA_ALIGNMENT_def)
qed

end
