(* ===== verification/Size_Classes.thy ===== *)
theory Size_Classes
  imports Gc_Block
begin

text \<open>
  The size classes of small objects (gc/allocation.rs). The approximate size of step \<open>i\<close>,
  \<open>80.0 * progression.powi(i)\<close> cut to an integer, is the parameter \<open>approx\<close>: \<open>powi\<close> has no exact
  specification. The loop over the steps ends only when the approximate sizes reach the cutoff, so
  it is a partial function whose outer \<^term>\<open>None\<close> is divergence; the inner one is a panic.
\<close>

definition PRECISE_CUTOFF :: nat where "PRECISE_CUTOFF = 80"
definition SIZE_STEP :: nat where "SIZE_STEP = 16"

text \<open>\<open>size_of::<Block>()\<close> is 32: \<open>data_start\<close> is one byte at offset 24.\<close>

definition BLOCK_HEADER :: nat where "BLOCK_HEADER = 32"
definition and_not :: "nat \<Rightarrow> nat \<Rightarrow> nat" where
  "and_not x m = x - (x AND m)"
definition LARGE_CUTOFF :: nat where
  "LARGE_CUTOFF = and_not ((BLOCK_SIZE - BLOCK_HEADER) div 2) (SIZE_STEP - 1)"
definition BLOCK_PAYLOAD :: nat where "BLOCK_PAYLOAD = BLOCK_SIZE - BLOCK_HEADER"
definition round_up_usize :: "nat \<Rightarrow> nat \<Rightarrow> nat" where
  "round_up_usize x y = and_not (x + (y - 1)) (y - 1)"

definition add_class :: "nat list \<Rightarrow> nat \<Rightarrow> nat list panics" where
  "add_class result sz =
     (if result = [] \<and> sz \<noteq> 16 then None else Some (result @ [sz]))"
function small_loop :: "nat \<Rightarrow> nat list \<Rightarrow> nat list panics" where
  "small_loop sz result =
     (if sz < PRECISE_CUTOFF then do { r \<leftarrow> add_class result sz; small_loop (sz + SIZE_STEP) r } else Some result)"
  by pat_completeness auto
termination by (relation "measure (\<lambda>(sz, result). PRECISE_CUTOFF - sz)") (simp_all add: SIZE_STEP_def)

declare small_loop.simps [simp del]

text \<open>The subtraction of the wastage panics on underflow.\<close>

definition better_size_class :: "nat \<Rightarrow> nat panics" where
  "better_size_class approximate_size_in_bytes =
     (let sz = round_up_usize approximate_size_in_bytes SIZE_STEP;
          cells_per_block = BLOCK_PAYLOAD div sz;
          possibly_better_size_class = and_not (BLOCK_PAYLOAD div cells_per_block) (SIZE_STEP - 1)
      in if sz = 0 \<or> cells_per_block = 0 \<or> BLOCK_PAYLOAD < cells_per_block * sz \<or>
            possibly_better_size_class < sz then None
         else
           (let original_wastage = BLOCK_PAYLOAD - cells_per_block * sz;
                new_wastage = (possibly_better_size_class - sz) * cells_per_block
            in Some (if new_wastage > original_wastage then sz else possibly_better_size_class)))"

partial_function (option) class_loop :: "(nat \<Rightarrow> nat) \<Rightarrow> nat \<Rightarrow> nat list \<Rightarrow> nat list panics option" where
  "class_loop approx i result =
     (if approx i < PRECISE_CUTOFF then Some None
      else if approx i \<ge> LARGE_CUTOFF then Some (Some result)
      else
        (case better_size_class (approx i) of
           None \<Rightarrow> Some None
         | Some better \<Rightarrow>
             if result \<noteq> [] \<and> last result = better then class_loop approx (i + 1) result
             else if better > LARGE_CUTOFF then Some (Some result)
             else
               (case add_class result better of
                  None \<Rightarrow> Some None
                | Some r \<Rightarrow> class_loop approx (i + 1) r)))"

definition generate_size_classes :: "(nat \<Rightarrow> nat) \<Rightarrow> nat list panics option" where
  "generate_size_classes approx =
     (case small_loop 16 [] of
        None \<Rightarrow> Some None
      | Some r0 \<Rightarrow>
          (case class_loop approx 0 r0 of
             None \<Rightarrow> None
           | Some None \<Rightarrow> Some None
           | Some (Some r1) \<Rightarrow>
               Some (case add_class r1 256 of None \<Rightarrow> None | Some r2 \<Rightarrow> Some (remdups_adj (sort r2)))))"

definition NUM_SIZE_CLASSES :: nat where "NUM_SIZE_CLASSES = LARGE_CUTOFF div SIZE_STEP + 1"
definition size_class_to_index :: "nat \<Rightarrow> nat" where
  "size_class_to_index sz = (sz + SIZE_STEP - 1) div SIZE_STEP"
definition index_to_size_class :: "nat \<Rightarrow> nat panics" where
  "index_to_size_class index =
     (let result = index * SIZE_STEP in if size_class_to_index result = index then Some result else None)"

text \<open>The entries \<open>table[i]\<close> of the indices of a list, out of range panics.\<close>

fun fill :: "(nat \<Rightarrow> nat panics) \<Rightarrow> nat list \<Rightarrow> nat list \<Rightarrow> nat list panics" where
  "fill entry [] table = Some table"
| "fill entry (i # is) table =
     do { e \<leftarrow> entry i; if i < length table then fill entry is (table[i := e]) else None }"
fun fill_classes :: "nat list \<Rightarrow> nat \<Rightarrow> nat list \<Rightarrow> (nat \<times> nat list) panics" where
  "fill_classes [] next_index table = Some (next_index, table)"
| "fill_classes (sz # szs) next_index table =
     (let index = size_class_to_index sz in
      do { t \<leftarrow> fill (\<lambda>_. Some sz) [next_index..<index + 1] table; fill_classes szs (index + 1) t })"
definition build_size_class_table :: "(nat \<Rightarrow> nat) \<Rightarrow> nat list \<Rightarrow> nat list panics option" where
  "build_size_class_table approx table =
     map_option (\<lambda>r. do {
         classes \<leftarrow> r;
         (next_index, t) \<leftarrow> fill_classes classes 0 table;
         fill index_to_size_class [next_index..<NUM_SIZE_CLASSES] t })
       (generate_size_classes approx)"

section \<open>The classes\<close>

lemma cutoff: "LARGE_CUTOFF = 8176" "BLOCK_PAYLOAD = 16352" "NUM_SIZE_CLASSES = 512"
  by (simp_all add: LARGE_CUTOFF_def BLOCK_PAYLOAD_def NUM_SIZE_CLASSES_def and_not_def SIZE_STEP_def BLOCK_SIZE_def BLOCK_HEADER_def)

lemma and_not_15: "and_not x 15 = 16 * (x div 16)"
proof -
  have "x AND 15 = x AND mask 4" by (simp add: mask_eq_exp_minus_1)
  also have "\<dots> = x mod 16" by (simp flip: take_bit_eq_mask add: take_bit_eq_mod)
  finally show ?thesis by (simp add: and_not_def minus_mod_eq_mult_div)
qed

lemma round_up_16: "round_up_usize x 16 = 16 * ((x + 15) div 16)"
  using and_not_15 by (simp add: round_up_usize_def)

definition size_class_ok :: "nat \<Rightarrow> bool" where
  "size_class_ok c \<longleftrightarrow> 16 \<le> c \<and> c \<le> LARGE_CUTOFF \<and> c mod 16 = 0"

lemma better_returns:
  assumes "PRECISE_CUTOFF \<le> a" "a < LARGE_CUTOFF"
  shows "\<exists>c. better_size_class a = Some c \<and> a \<le> c \<and> c mod 16 = 0"
proof -
  define sc where "sc = 16 * ((a + 15) div 16)"
  have sc: "a \<le> sc" "sc \<le> 8176" "sc mod 16 = 0" "0 < sc" using assms by (simp_all add: sc_def cutoff PRECISE_CUTOFF_def)
  define cells where "cells = 16352 div sc"
  have "sc * 2 \<le> 16352" using sc(2) by simp
  then have cells: "0 < cells" using sc(4) by (simp add: cells_def div_greater_zero_iff)
  have fits: "cells * sc \<le> 16352" by (simp add: cells_def)
  then have "sc \<le> 16352 div cells" using cells by (simp add: less_eq_div_iff_mult_less_eq mult.commute)
  then have "sc div 16 \<le> 16352 div cells div 16" by (rule div_le_mono)
  moreover have "sc = 16 * (sc div 16)" using sc(3) by auto
  ultimately have "sc \<le> 16 * (16352 div cells div 16)" by linarith
  then show ?thesis
    using sc cells fits
    by (simp add: better_size_class_def cutoff round_up_16 and_not_15 SIZE_STEP_def Let_def flip: sc_def cells_def)
qed

lemma class_loop_returns:
  assumes "\<forall>j. PRECISE_CUTOFF \<le> approx j" "LARGE_CUTOFF \<le> approx n" "result \<noteq> []" "\<forall>c \<in> set result. size_class_ok c" "i \<le> n"
  shows "\<exists>r. class_loop approx i result = Some (Some r) \<and> r \<noteq> [] \<and> (\<forall>c \<in> set r. size_class_ok c)"
  using assms(3-5)
proof (induction "n - i" arbitrary: i result)
  case 0
  then show ?case using assms(1,2) by (subst class_loop.simps) (auto simp: not_less)
next
  case (Suc k)
  have ge: "\<not> approx i < PRECISE_CUTOFF" using assms(1) by (simp add: not_less)
  show ?case
  proof (cases "approx i \<ge> LARGE_CUTOFF")
    case True
    with Suc ge show ?thesis by (subst class_loop.simps) simp
  next
    case False
    with ge obtain c where c: "better_size_class (approx i) = Some c" "approx i \<le> c" "c mod 16 = 0"
      using better_returns [of "approx i"] by auto
    have ih: "\<exists>r. class_loop approx (i + 1) rs = Some (Some r) \<and> r \<noteq> [] \<and> (\<forall>c \<in> set r. size_class_ok c)"
      if "rs \<noteq> []" "\<forall>c \<in> set rs. size_class_ok c" for rs
      using Suc.hyps(1) [of "i + 1" rs] Suc.hyps(2) that by simp
    have "size_class_ok c" if "c \<le> LARGE_CUTOFF" using that c ge by (simp add: size_class_ok_def PRECISE_CUTOFF_def)
    then show ?thesis
      using ge False c(1) Suc.prems ih [of result] ih [of "result @ [c]"]
      by (subst class_loop.simps) (auto simp: add_class_def)
  qed
qed

lemma small_loop_eq: "small_loop 16 [] = Some [16, 32, 48, 64]"
  by (subst small_loop.simps, simp add: PRECISE_CUTOFF_def SIZE_STEP_def add_class_def)+

lemma generate_returns:
  assumes "\<forall>j. PRECISE_CUTOFF \<le> approx j" "LARGE_CUTOFF \<le> approx n"
  shows "\<exists>cs. generate_size_classes approx = Some (Some cs) \<and> sorted cs \<and> (\<forall>c \<in> set cs. size_class_ok c)"
proof -
  have "\<forall>c \<in> set [16, 32, 48, 64]. size_class_ok c" by (simp add: size_class_ok_def cutoff)
  then obtain r where r: "class_loop approx 0 [16, 32, 48, 64] = Some (Some r)" "r \<noteq> []" "\<forall>c \<in> set r. size_class_ok c"
    using class_loop_returns [OF assms, of "[16, 32, 48, 64]" 0] by auto
  have "size_class_ok 256" by (simp add: size_class_ok_def cutoff)
  with r show ?thesis by (simp add: generate_size_classes_def small_loop_eq add_class_def)
qed

section \<open>The table\<close>

lemma fill_const:
  assumes "\<forall>i \<in> set is. i < length t" "\<And>i. i \<in> set is \<Longrightarrow> entry i = Some (f i)"
  shows "\<exists>t'. fill entry is t = Some t' \<and> length t' = length t \<and> (\<forall>i < length t. t' ! i = (if i \<in> set is then f i else t ! i))"
  using assms
proof (induction "is" arbitrary: t)
  case (Cons i "is")
  then obtain t' where "fill entry is (t[i := f i]) = Some t'" "length t' = length t"
    "\<forall>j < length t. t' ! j = (if j \<in> set is then f j else t[i := f i] ! j)"
    using Cons.IH [of "t[i := f i]"] by auto
  with Cons.prems show ?case by (auto simp: nth_list_update)
qed simp

lemma fill_upt:
  assumes "k \<le> length t" "\<And>i. entry i = Some (f i)"
  shows "\<exists>t'. fill entry [m..<k] t = Some t' \<and> length t' = length t \<and>
    (\<forall>i < length t. t' ! i = (if m \<le> i \<and> i < k then f i else t ! i))"
  using fill_const [of "[m..<k]" t entry f] assms by (simp del: upt_Suc)

text \<open>The entries below \<open>next\<close> are settled with respect to the classes \<open>cs\<close>.\<close>

definition settled :: "nat set \<Rightarrow> nat \<Rightarrow> nat list \<Rightarrow> bool" where
  "settled cs n t \<longleftrightarrow>
     (\<forall>i < n. size_class_ok (t ! i) \<and> 16 * i \<le> t ! i \<and> (\<forall>c \<in> cs. 16 * i \<le> c \<longrightarrow> t ! i \<le> c) \<and> t ! i div 16 < n \<and>
       t ! (t ! i div 16) = t ! i)"

lemma class_index: "c mod 16 = 0 \<Longrightarrow> size_class_to_index c = c div 16"
proof -
  assume "c mod 16 = 0"
  then obtain k where "c = 16 * k" by auto
  then show ?thesis by (simp add: size_class_to_index_def SIZE_STEP_def)
qed


lemma fill_classes_settled:
  assumes "sorted cs" "\<forall>c \<in> set cs. size_class_ok c" "\<forall>c \<in> set cs. n \<le> c div 16 + 1"
    "\<forall>c \<in> past. c < 16 * n" "settled (past \<union> set cs) n t" "length t = NUM_SIZE_CLASSES" "n \<le> NUM_SIZE_CLASSES"
  shows "\<exists>n' t'. fill_classes cs n t = Some (n', t') \<and> settled (past \<union> set cs) n' t' \<and>
    (\<forall>c \<in> past \<union> set cs. c < 16 * n') \<and> length t' = NUM_SIZE_CLASSES \<and> n' \<le> NUM_SIZE_CLASSES"
  using assms
proof (induction cs arbitrary: n t past)
  case (Cons c cs)
  let ?k = "c div 16"
  have c: "size_class_ok c" "size_class_to_index c = ?k" "c = 16 * ?k" "?k < NUM_SIZE_CLASSES" "n \<le> ?k + 1"
    using Cons.prems(2,3) class_index [of c] by (auto simp: size_class_ok_def cutoff)
  obtain t' where t': "fill (\<lambda>_. Some c) [n..<?k + 1] t = Some t'" "length t' = length t"
    "\<forall>i < length t. t' ! i = (if n \<le> i \<and> i < ?k + 1 then c else t ! i)"
    using fill_upt [of "?k + 1" t "\<lambda>_. Some c" "\<lambda>_. c" n] c(4) Cons.prems(6) by (auto simp del: upt_Suc)
  have later: "\<forall>d \<in> set cs. c \<le> d" using Cons.prems(1) by simp
  have "settled (insert c past \<union> set cs) (?k + 1) t'"
    unfolding settled_def
  proof (intro allI impI)
    fix i assume i: "i < ?k + 1"
    then have il: "i < length t" "?k < length t" using c(4) Cons.prems(6) by simp_all
    show "size_class_ok (t' ! i) \<and> 16 * i \<le> t' ! i \<and> (\<forall>d \<in> insert c past \<union> set cs. 16 * i \<le> d \<longrightarrow> t' ! i \<le> d) \<and>
      t' ! i div 16 < ?k + 1 \<and> t' ! (t' ! i div 16) = t' ! i"
    proof (cases "n \<le> i")
      case True
      then have "t' ! i = c" "t' ! ?k = c" using t'(3) i il by simp_all
      moreover have "\<not> 16 * i \<le> d" if "d \<in> past" for d using Cons.prems(4) that True by fastforce
      ultimately show ?thesis using c(1,3) i later by auto
    next
      case False
      then have old: "t' ! i = t ! i" using t'(3) il by simp
      have s: "size_class_ok (t ! i)" "16 * i \<le> t ! i" "\<forall>d \<in> past \<union> set (c # cs). 16 * i \<le> d \<longrightarrow> t ! i \<le> d"
        "t ! i div 16 < n" "t ! (t ! i div 16) = t ! i"
        using Cons.prems(5) False by (auto simp: settled_def)
      then have "t' ! (t ! i div 16) = t ! i" using t'(3) Cons.prems(6,7) by simp
      with s old c(5) show ?thesis by auto
    qed
  qed
  moreover have "\<forall>d \<in> insert c past. d < 16 * (?k + 1)" using Cons.prems(4) c(3,5) by fastforce
  moreover have "\<forall>d \<in> set cs. ?k + 1 \<le> d div 16 + 1" using later by (auto intro: div_le_mono)
  ultimately show ?case
    using Cons.IH [of "?k + 1" "insert c past" t'] Cons.prems(1,2,6) c(2,4) t'(1,2) by simp
qed auto

lemma build_table:
  assumes "\<forall>j. PRECISE_CUTOFF \<le> approx j" "LARGE_CUTOFF \<le> approx n" "length table = NUM_SIZE_CLASSES"
  shows "\<exists>cs t. generate_size_classes approx = Some (Some cs) \<and> build_size_class_table approx table = Some (Some t) \<and>
    length t = NUM_SIZE_CLASSES \<and>
    (\<forall>i < NUM_SIZE_CLASSES. 16 * i \<le> t ! i \<and> t ! i \<le> LARGE_CUTOFF \<and> t ! i mod 16 = 0 \<and> (0 < i \<longrightarrow> 16 \<le> t ! i) \<and>
       (\<forall>c \<in> set cs. 16 * i \<le> c \<longrightarrow> t ! i \<le> c) \<and> t ! (t ! i div 16) = t ! i)"
proof -
  obtain cs where cs: "generate_size_classes approx = Some (Some cs)" "sorted cs" "\<forall>c \<in> set cs. size_class_ok c"
    using generate_returns [OF assms(1,2)] by blast
  obtain m t where t: "fill_classes cs 0 table = Some (m, t)" "settled (set cs) m t" "\<forall>c \<in> set cs. c < 16 * m"
    "length t = NUM_SIZE_CLASSES" "m \<le> NUM_SIZE_CLASSES"
    using fill_classes_settled [of cs 0 "{}" table] cs(2,3) assms(3) by (auto simp: settled_def)
  have "index_to_size_class i = Some (i * 16)" for i
    by (simp add: index_to_size_class_def size_class_to_index_def SIZE_STEP_def Let_def)
  then obtain t' where t': "fill index_to_size_class [m..<NUM_SIZE_CLASSES] t = Some t'" "length t' = length t"
    "\<forall>i < length t. t' ! i = (if m \<le> i \<and> i < NUM_SIZE_CLASSES then i * 16 else t ! i)"
    using fill_upt [of NUM_SIZE_CLASSES t index_to_size_class "\<lambda>i. i * 16" m] t(4) by auto
  have "16 * i \<le> t' ! i \<and> t' ! i \<le> LARGE_CUTOFF \<and> t' ! i mod 16 = 0 \<and> (0 < i \<longrightarrow> 16 \<le> t' ! i) \<and>
       (\<forall>c \<in> set cs. 16 * i \<le> c \<longrightarrow> t' ! i \<le> c) \<and> t' ! (t' ! i div 16) = t' ! i" if i: "i < NUM_SIZE_CLASSES" for i
  proof (cases "m \<le> i")
    case True
    then have "t' ! i = i * 16" using t'(3) t(4) i by simp
    moreover have "\<not> 16 * i \<le> c" if "c \<in> set cs" for c using t(3) that True by fastforce
    ultimately show ?thesis using i by (auto simp: cutoff)
  next
    case False
    then have e: "t' ! i = t ! i" using t'(3) t(4) i by simp
    have s: "size_class_ok (t ! i)" "16 * i \<le> t ! i" "\<forall>d \<in> set cs. 16 * i \<le> d \<longrightarrow> t ! i \<le> d" "t ! i div 16 < m" "t ! (t ! i div 16) = t ! i"
      using t(2) False by (auto simp: settled_def)
    then have "t' ! (t ! i div 16) = t ! i" using t'(3) t(4,5) by simp
    with s e show ?thesis by (simp add: size_class_ok_def)
  qed
  with cs(1) t(1,4) t'(1,2) show ?thesis by (simp add: build_size_class_table_def)
qed

text \<open>
  C35. The table of size classes is right for every small size: as soon as the approximate sizes
  reach the cutoff the generation ends and no assertion, subtraction or table access fails; the
  entry for a size up to \<open>LARGE_CUTOFF\<close> is large enough for it, a multiple of 16 up to the
  cutoff, no larger than any generated class that fits, and is its own size class.
\<close>

theorem size_table_correct:
  assumes "\<forall>j. PRECISE_CUTOFF \<le> approx j" "LARGE_CUTOFF \<le> approx n" "length table = NUM_SIZE_CLASSES" "sz \<le> LARGE_CUTOFF"
  shows "\<exists>cs t. generate_size_classes approx = Some (Some cs) \<and> build_size_class_table approx table = Some (Some t) \<and>
    size_class_to_index sz < length t \<and>
    (let c = t ! size_class_to_index sz in
       sz \<le> c \<and> c \<le> LARGE_CUTOFF \<and> c mod 16 = 0 \<and> (0 < sz \<longrightarrow> 16 \<le> c) \<and>
       (\<forall>d \<in> set cs. sz \<le> d \<longrightarrow> c \<le> d) \<and> t ! size_class_to_index c = c)"
proof -
  obtain cs t where t: "generate_size_classes approx = Some (Some cs)" "build_size_class_table approx table = Some (Some t)"
    "length t = NUM_SIZE_CLASSES"
    "\<forall>i < NUM_SIZE_CLASSES. 16 * i \<le> t ! i \<and> t ! i \<le> LARGE_CUTOFF \<and> t ! i mod 16 = 0 \<and> (0 < i \<longrightarrow> 16 \<le> t ! i) \<and>
       (\<forall>c \<in> set cs. 16 * i \<le> c \<longrightarrow> t ! i \<le> c) \<and> t ! (t ! i div 16) = t ! i"
    using build_table [OF assms(1-3)] by blast
  let ?i = "size_class_to_index sz"
  have i: "?i < NUM_SIZE_CLASSES" "sz \<le> 16 * ?i" "0 < sz \<Longrightarrow> 0 < ?i"
    using assms(4) unfolding size_class_to_index_def SIZE_STEP_def cutoff by simp_all
  have up: "16 * ?i \<le> d" if "sz \<le> d" "d mod 16 = 0" for d
  proof -
    have "(sz + 15) div 16 \<le> (d + 15) div 16" using that(1) by (intro div_le_mono) simp
    also have "\<dots> = d div 16" using class_index [OF that(2)] by (simp add: size_class_to_index_def SIZE_STEP_def)
    finally show ?thesis using that(2) by (auto simp: size_class_to_index_def SIZE_STEP_def)
  qed
  have "\<forall>d \<in> set cs. d mod 16 = 0" using t(1) generate_returns [OF assms(1,2)] by (auto simp: size_class_ok_def)
  with t i up class_index [of "t ! ?i"] show ?thesis by (auto simp: Let_def)
qed

theorem size_table_correct_witness:
  "\<exists>cs t. build_size_class_table (\<lambda>i. 80 + 1000 * i) (replicate NUM_SIZE_CLASSES 0) = Some (Some t) \<and>
     generate_size_classes (\<lambda>i. 80 + 1000 * i) = Some (Some cs) \<and> 100 \<le> t ! size_class_to_index 100"
  using size_table_correct [of "\<lambda>i. 80 + 1000 * i" 9 "replicate NUM_SIZE_CLASSES 0" 100]
  by (auto simp: PRECISE_CUTOFF_def cutoff Let_def)

end
