(* ===== verification/Gc_Space.thy ===== *)
theory Gc_Space
  imports Local_Allocator Large_Objects Size_Classes
begin

text \<open>
  The heap space (\<open>Space\<close> of gc/allocation.rs): one local allocator per size step, created on first
  use, the large objects, the two bitmaps. \<open>sp_chain\<close> is the linked list of the allocators that exist,
  by their index. Headers of objects and bitmaps are in \<open>sp_mem\<close>.
\<close>

record gc_space =
  sp_precise :: large_space
  sp_allocators :: "nat \<Rightarrow> local_allocator option"
  sp_size_table :: "nat list"
  sp_blocks :: block_space
  sp_chain :: "nat list"
  sp_mem :: gc_mem

definition nth_checked :: "'a list \<Rightarrow> nat \<Rightarrow> 'a panics" where
  "nth_checked xs i = (if i < length xs then Some (xs ! i) else None)"

text \<open>\<open>Space::new\<close>. The outer \<^term>\<open>None\<close> is a size class table that never ends.\<close>

definition space_new :: "nat \<Rightarrow> nat \<Rightarrow> (nat \<Rightarrow> nat) \<Rightarrow> gc_space panics option" where
  "space_new start sz approx =
     map_option (\<lambda>t. do {
         table \<leftarrow> t;
         blocks \<leftarrow> block_allocator_new start sz;
         Some \<lparr>sp_precise = large_space_new, sp_allocators = (\<lambda>_. None), sp_size_table = table, sp_blocks = blocks,
               sp_chain = [], sp_mem = \<lparr>gm_live = bm_create start sz, gm_mark = bm_create start sz, gm_cells = (\<lambda>_. None)\<rparr>\<rparr> })
       (build_size_class_table approx (replicate NUM_SIZE_CLASSES 0))"

definition allocator_for_slow :: "nat \<Rightarrow> gc_space \<Rightarrow> (nat option \<times> gc_space) panics" where
  "allocator_for_slow sz sp =
     (let index = size_class_to_index sz in
      do {
        cls \<leftarrow> nth_checked (sp_size_table sp) index;
        if cls = 0 then Some (None, sp)
        else
          (case sp_allocators sp index of
             Some _ \<Rightarrow> Some (Some index, sp)
           | None \<Rightarrow>
               Some (Some index, sp\<lparr>sp_allocators := (sp_allocators sp)(index \<mapsto> local_allocator_new cls),
                                    sp_chain := index # sp_chain sp\<rparr>)) })"

text \<open>\<open>allocate\<close> of the local allocator with an index.\<close>

definition allocate_at :: "nat \<Rightarrow> gc_space \<Rightarrow> (nat option \<times> gc_space) panics" where
  "allocate_at index sp =
     (case sp_allocators sp index of
        None \<Rightarrow> None
      | Some la \<Rightarrow> do {
          (p, la', bs) \<leftarrow> la_allocate la (sp_blocks sp);
          Some (p, sp\<lparr>sp_allocators := (sp_allocators sp)(index \<mapsto> la'), sp_blocks := bs\<rparr>) })"
definition allocate_small :: "nat \<Rightarrow> nat \<Rightarrow> gc_space \<Rightarrow> (nat option \<times> nat \<times> gc_space) panics" where
  "allocate_small sz threshold sp = do {
     cls \<leftarrow> nth_checked (sp_size_table sp) (size_class_to_index sz);
     (case sp_allocators sp (size_class_to_index sz) of
        Some _ \<Rightarrow> do { (p, sp') \<leftarrow> allocate_at (size_class_to_index sz) sp; Some (p, threshold + cls, sp') }
      | None \<Rightarrow> do {
          (r, sp1) \<leftarrow> allocator_for_slow sz sp;
          index \<leftarrow> r;
          (p, sp') \<leftarrow> allocate_at index sp1;
          Some (p, threshold + cls, sp') }) }"
definition space_allocate :: "(nat \<Rightarrow> nat) \<Rightarrow> nat \<Rightarrow> nat \<Rightarrow> gc_space \<Rightarrow> (nat \<times> nat \<times> gc_space) panics" where
  "space_allocate malloc sz threshold sp =
     (if sz \<le> LARGE_CUTOFF then do {
        (r, th, sp1) \<leftarrow> allocate_small sz threshold sp;
        p \<leftarrow> r;
        was \<leftarrow> bm_test (gm_live (sp_mem sp1)) p;
        if was then None
        else do {
          (_, lvb) \<leftarrow> bm_set p (gm_live (sp_mem sp1));
          now \<leftarrow> bm_test lvb p;
          if \<not> now then None else Some (p, th, sp1\<lparr>sp_mem := (sp_mem sp1)\<lparr>gm_live := lvb\<rparr>\<rparr>) } }
      else do {
        (p, th, ls) \<leftarrow> ls_alloc malloc sz threshold (sp_precise sp);
        Some (p, th, sp\<lparr>sp_precise := ls\<rparr>) })"

fun sweep_allocators :: "nat list \<Rightarrow> nat \<Rightarrow> gc_space \<Rightarrow> (nat \<times> gc_space) panics" where
  "sweep_allocators [] allocated sp = Some (allocated, sp)"
| "sweep_allocators (i # is) allocated sp =
     (case sp_allocators sp i of
        None \<Rightarrow> None
      | Some la \<Rightarrow> do {
          (la', allocated', m, bs) \<leftarrow> la_sweep la allocated (sp_mem sp) (sp_blocks sp);
          sweep_allocators is allocated'
            (sp\<lparr>sp_allocators := (sp_allocators sp)(i \<mapsto> la'), sp_mem := m, sp_blocks := bs\<rparr>) })"
definition space_sweep :: "gc_space \<Rightarrow> (nat \<times> gc_space) panics" where
  "space_sweep sp = do {
     (allocated, ls, cells) \<leftarrow> ls_sweep (sp_precise sp) (gm_cells (sp_mem sp));
     sweep_allocators (sp_chain sp) allocated
       (sp\<lparr>sp_precise := ls, sp_mem := (sp_mem sp)\<lparr>gm_cells := cells\<rparr>\<rparr>) }"

text \<open>The calls of the callback of \<open>for_each_cell\<close>, in order.\<close>

fun live_of :: "space_bitmap \<Rightarrow> nat \<Rightarrow> nat list \<Rightarrow> (nat \<times> nat) list panics" where
  "live_of b cs [] = Some []"
| "live_of b cs (c # xs) =
     do { t \<leftarrow> bm_test b c; r \<leftarrow> live_of b cs xs; Some (if t then (c, cs) # r else r) }"
fun block_cells :: "gc_space \<Rightarrow> nat list \<Rightarrow> (nat \<times> nat) list panics" where
  "block_cells sp [] = Some []"
| "block_cells sp (b # bs) =
     (case bs_blocks (sp_blocks sp) b of
        None \<Rightarrow> None
      | Some blk \<Rightarrow> do {
          xs \<leftarrow> live_of (gm_live (sp_mem sp)) (blk_cell_size blk) (block_walk b blk);
          ys \<leftarrow> block_cells sp bs;
          Some (xs @ ys) })"
fun allocator_cells :: "gc_space \<Rightarrow> nat list \<Rightarrow> (nat \<times> nat) list panics" where
  "allocator_cells sp [] = Some []"
| "allocator_cells sp (i # is) =
     (case sp_allocators sp i of
        None \<Rightarrow> None
      | Some la \<Rightarrow> do { xs \<leftarrow> block_cells sp (la_current la @ la_unavail la); ys \<leftarrow> allocator_cells sp is; Some (xs @ ys) })"
definition for_each_cell :: "gc_space \<Rightarrow> (nat \<times> nat) list panics" where
  "for_each_cell sp = do {
     xs \<leftarrow> allocator_cells sp (sp_chain sp);
     Some (xs @ map (\<lambda>a. (pa_cell a, large_size (sp_precise sp) a)) (ls_allocations (sp_precise sp))) }"

definition is_heap_pointer :: "(nat \<Rightarrow> bool) \<Rightarrow> gc_space \<Rightarrow> nat \<Rightarrow> bool panics" where
  "is_heap_pointer mi_contains sp ptr =
     (if has_address (gm_live (sp_mem sp)) ptr then bm_test (gm_live (sp_mem sp)) ptr
      else Some (ls_contains mi_contains (sp_precise sp) ptr))"
definition space_mark :: "nat \<Rightarrow> gc_space \<Rightarrow> (bool \<times> gc_space) panics" where
  "space_mark ptr sp =
     (if has_address (gm_live (sp_mem sp)) ptr then do {
        (r, b) \<leftarrow> bm_set ptr (gm_mark (sp_mem sp));
        Some (r, sp\<lparr>sp_mem := (sp_mem sp)\<lparr>gm_mark := b\<rparr>\<rparr>) }
      else
        (case ls_headers (sp_precise sp) (from_cell ptr) of
           None \<Rightarrow> None
         | Some h \<Rightarrow>
             (let (r, h') = test_and_set_marked h in
              Some (r, sp\<lparr>sp_precise := (sp_precise sp)\<lparr>ls_headers := (ls_headers (sp_precise sp))(from_cell ptr \<mapsto> h')\<rparr>\<rparr>))))"

section \<open>The invariant\<close>

definition all_blocks :: "gc_space \<Rightarrow> nat set" where
  "all_blocks sp = (\<Union>i \<in> dom (sp_allocators sp). set (la_blocks (the (sp_allocators sp i))))"
definition all_cells :: "gc_space \<Rightarrow> nat set" where
  "all_cells sp = (\<Union>b \<in> all_blocks sp. cells_of (sp_blocks sp) b)"
definition in_region :: "block_space \<Rightarrow> nat \<Rightarrow> bool" where
  "in_region bs p \<longleftrightarrow> bs_start bs \<le> p \<and> p < bs_data_bound bs"
definition table_ok :: "nat list \<Rightarrow> bool" where
  "table_ok t \<longleftrightarrow> length t = NUM_SIZE_CLASSES \<and>
     (\<forall>i < NUM_SIZE_CLASSES. 16 * i \<le> t ! i \<and> t ! i \<le> LARGE_CUTOFF \<and> t ! i mod 16 = 0)"

text \<open>A bitmap of the heap: it covers exactly the mapping, one bit for 16 bytes.\<close>

definition map_ok :: "block_space \<Rightarrow> space_bitmap \<Rightarrow> bool" where
  "map_ok bs m \<longleftrightarrow> bm_ok m \<and> (\<forall>p. has_address m p = in_region bs p \<and> covers m p = in_region bs p \<and>
     (in_region bs p \<longrightarrow> granule m p = (p - bs_start bs) div 16))"
text \<open>The structure of the blocks, with \<open>live\<close> the cells that are not free.\<close>

definition blocks_inv :: "(nat \<Rightarrow> bool) \<Rightarrow> gc_space \<Rightarrow> bool" where
  "blocks_inv live sp \<longleftrightarrow>
     space_ok (sp_blocks sp) (all_blocks sp) \<and> table_ok (sp_size_table sp) \<and>
     distinct (sp_chain sp) \<and> set (sp_chain sp) = dom (sp_allocators sp) \<and>
     (\<forall>i la. sp_allocators sp i = Some la \<longrightarrow> i < NUM_SIZE_CLASSES \<and> la_cell_size la = sp_size_table sp ! i \<and>
        la_ok live (sp_blocks sp) la) \<and>
     (\<forall>i j la lb. sp_allocators sp i = Some la \<longrightarrow> sp_allocators sp j = Some lb \<longrightarrow> i \<noteq> j \<longrightarrow>
        set (la_blocks la) \<inter> set (la_blocks lb) = {})"
definition maps_inv :: "gc_space \<Rightarrow> bool" where
  "maps_inv sp \<longleftrightarrow> map_ok (sp_blocks sp) (gm_live (sp_mem sp)) \<and> map_ok (sp_blocks sp) (gm_mark (sp_mem sp)) \<and>
     (\<forall>p. in_region (sp_blocks sp) p \<longrightarrow> lv (sp_mem sp) p \<longrightarrow>
        (\<exists>c \<in> all_cells sp. granule (gm_live (sp_mem sp)) p = granule (gm_live (sp_mem sp)) c))"
definition live_cell :: "gc_space \<Rightarrow> nat \<Rightarrow> bool" where
  "live_cell sp c \<longleftrightarrow> c \<in> all_cells sp \<and> lv (sp_mem sp) c"
definition space_inv :: "gc_space \<Rightarrow> bool" where
  "space_inv sp \<longleftrightarrow> blocks_inv (live_cell sp) sp \<and> maps_inv sp"

section \<open>The region never moves\<close>

definition same_region :: "block_space \<Rightarrow> block_space \<Rightarrow> bool" where
  "same_region bs bs' \<longleftrightarrow> bs_start bs' = bs_start bs \<and> bs_data_bound bs' = bs_data_bound bs"

lemma same_region_in: "same_region bs bs' \<Longrightarrow> in_region bs' = in_region bs"
  by (auto simp: same_region_def in_region_def)

lemma same_region_trans: "same_region a b \<Longrightarrow> same_region b c \<Longrightarrow> same_region a c"
  by (simp add: same_region_def)

lemma get_block_region: "get_block bs = Some (r, bs') \<Longrightarrow> same_region bs bs'"
  by (auto simp: get_block_def build_block_def Let_def same_region_def bind_eq_Some_conv split: if_splits)

lemma fresh_block_region: "fresh_block cs bs = Some (b, bs') \<Longrightarrow> same_region bs bs'"
  using get_block_region [of bs] by (fastforce simp: fresh_block_def same_region_def split: option.splits prod.splits)

lemma pop_cell_region: "pop_cell b bs = Some (r, bs') \<Longrightarrow> same_region bs bs'"
  by (auto simp: pop_cell_def same_region_def split: option.splits prod.splits)

lemma refill_region:
  "(if xs = [] then map_option (\<lambda>(b, bs'). ([b], bs')) (fresh_block cs bs) else Some (xs, bs)) = Some (cur, bs1) \<Longrightarrow>
    same_region bs bs1"
  by (auto split: if_splits intro: fresh_block_region) (simp add: same_region_def)

lemma la_allocate_region:
  assumes "la_allocate la bs = Some (r, la', bs')"
  shows "same_region bs bs'"
proof -
  let ?refill = "\<lambda>xs bs. if xs = [] then map_option (\<lambda>(b, bs'). ([b], bs')) (fresh_block (la_cell_size la) bs) else Some (xs, bs)"
  obtain cur bs1 where 1: "?refill (la_current la) bs = Some (cur, bs1)"
    using assms by (auto simp: la_allocate_def bind_eq_Some_conv simp del: if_split_asm)
  then obtain ptr bs2 where 2: "pop_cell (hd cur) bs1 = Some (ptr, bs2)"
    using assms by (auto simp: la_allocate_def bind_eq_Some_conv)
  have bs2: "same_region bs bs2" using refill_region [OF 1] pop_cell_region [OF 2] by (rule same_region_trans)
  show ?thesis
  proof (cases ptr)
    case (Some p)
    with 1 2 assms bs2 show ?thesis by (simp add: la_allocate_def)
  next
    case None
    with 1 2 assms obtain cur' bs3 where 3: "?refill (tl cur) bs2 = Some (cur', bs3)"
      "pop_cell (hd cur') bs3 = Some (r, bs')"
      by (auto simp: la_allocate_def bind_eq_Some_conv)
    then show ?thesis using bs2 refill_region [OF 3(1)] pop_cell_region [OF 3(2)] by (simp add: same_region_def)
  qed
qed

lemma sweep_chain_region: "sweep_chain bs s = Some s' \<Longrightarrow> same_region (sw_blocks s) (sw_blocks s')"
proof (induction bs arbitrary: s)
  case (Cons b bs)
  then obtain s1 where s1: "sweep_block b s = Some s1" "sweep_chain bs s1 = Some s'" by (auto simp: bind_eq_Some_conv)
  have "same_region (sw_blocks s) (sw_blocks s1)"
    using s1(1) by (auto simp: sweep_block_def bind_eq_Some_conv Let_def same_region_def return_block_def split: option.splits if_splits)
  with Cons.IH [OF s1(2)] show ?case by (rule same_region_trans [rotated])
qed (simp add: same_region_def)

lemma la_sweep_region:
  assumes "la_sweep la a m bs = Some (la', a', m', bs')"
  shows "same_region bs bs'"
proof -
  let ?s = "\<lparr>sw_mem = m, sw_blocks = bs, sw_available = [], sw_unavailable = [], sw_allocated = a\<rparr>"
  obtain s1 s2 where s: "sweep_chain (la_current la) ?s = Some s1" "sweep_chain (la_unavail la) s1 = Some s2" "bs' = sw_blocks s2"
    using assms by (auto simp: la_sweep_def bind_eq_Some_conv)
  from sweep_chain_region [OF s(1)] sweep_chain_region [OF s(2)] s(3) show ?thesis
    by (simp add: same_region_def)
qed

section \<open>Cells do not overlap\<close>

definition cell_size_at :: "gc_space \<Rightarrow> nat \<Rightarrow> nat" where
  "cell_size_at sp c = (case bs_blocks (sp_blocks sp) (get_block_ptr c) of None \<Rightarrow> 0 | Some blk \<Rightarrow> blk_cell_size blk)"

lemma inv_block:
  assumes "blocks_inv L sp" "b \<in> all_blocks sp"
  obtains i la blk where "sp_allocators sp i = Some la" "b \<in> set (la_blocks la)" "i < NUM_SIZE_CLASSES"
    "la_cell_size la = sp_size_table sp ! i" "la_ok (L) (sp_blocks sp) la"
    "block_good (L) (la_cell_size la) (sp_blocks sp) b" "bs_blocks (sp_blocks sp) b = Some blk"
    "blk_cell_size blk = la_cell_size la" "16 \<le> la_cell_size la" "la_cell_size la mod 16 = 0" "aligned_block (sp_blocks sp) b"
proof -
  obtain i la where la: "sp_allocators sp i = Some la" "b \<in> set (la_blocks la)"
    using assms(2) by (auto simp: all_blocks_def)
  moreover have inv: "i < NUM_SIZE_CLASSES" "la_cell_size la = sp_size_table sp ! i" "la_ok (L) (sp_blocks sp) la"
    using assms(1) la(1) by (auto simp: blocks_inv_def)
  moreover have good: "block_good (L) (la_cell_size la) (sp_blocks sp) b" using inv(3) la(2) by (simp add: la_ok_def)
  moreover obtain blk where "bs_blocks (sp_blocks sp) b = Some blk" "blk_cell_size blk = la_cell_size la"
    using good by (auto simp: block_good_def)
  moreover have "16 \<le> la_cell_size la" "la_cell_size la mod 16 = 0" using inv(3) by (simp_all add: la_ok_def)
  moreover have "aligned_block (sp_blocks sp) b" using assms by (auto simp: blocks_inv_def space_ok_def)
  ultimately show ?thesis by (rule that)
qed

lemma inv_cell:
  assumes "blocks_inv L sp" "c \<in> all_cells sp"
  shows "get_block_ptr c \<in> all_blocks sp" "c \<in> cells_of (sp_blocks sp) (get_block_ptr c)" "16 \<le> cell_size_at sp c"
    "get_block_ptr c < c" "c + cell_size_at sp c \<le> get_block_ptr c + BLOCK_SIZE"
    "in_region (sp_blocks sp) c" "c + cell_size_at sp c \<le> bs_data_bound (sp_blocks sp)"
proof -
  obtain b where b: "b \<in> all_blocks sp" "c \<in> cells_of (sp_blocks sp) b" using assms(2) by (auto simp: all_cells_def)
  obtain j la blk where la: "sp_allocators sp j = Some la" "b \<in> set (la_blocks la)" "j < NUM_SIZE_CLASSES"
    "la_cell_size la = sp_size_table sp ! j" "la_ok (L) (sp_blocks sp) la"
    and i: "block_good (L) (la_cell_size la) (sp_blocks sp) b" "bs_blocks (sp_blocks sp) b = Some blk"
    "blk_cell_size blk = la_cell_size la" "16 \<le> la_cell_size la" "la_cell_size la mod 16 = 0" "aligned_block (sp_blocks sp) b"
    by (rule inv_block [OF assms(1) b(1)])
  have "b mod BLOCK_SIZE = 0" using i(1) by (auto simp: block_good_def)
  then have ptr: "get_block_ptr c = b" using cells_block [OF _ b(2) i(1)] i(4) by simp
  have w: "c \<in> set (block_walk b blk)" using b(2) i(2) by (simp add: cells_of_def)
  show "get_block_ptr c \<in> all_blocks sp" "c \<in> cells_of (sp_blocks sp) (get_block_ptr c)" using ptr b by simp_all
  have sz: "cell_size_at sp c = la_cell_size la" using ptr i(2,3) by (simp add: cell_size_at_def)
  then show "16 \<le> cell_size_at sp c" using i(4) by simp
  show lo: "get_block_ptr c < c" and hi: "c + cell_size_at sp c \<le> get_block_ptr c + BLOCK_SIZE"
    using cell_in_block [OF w] ptr sz i(3) by simp_all
  have "bs_start (sp_blocks sp) < b" using i(6) mmap_aligned_mod(2) [of "bs_start (sp_blocks sp)"] by (simp add: aligned_block_def)
  moreover have "b + BLOCK_SIZE \<le> bs_data_bound (sp_blocks sp)"
    using i(6) assms(1) by (simp add: aligned_block_def blocks_inv_def space_ok_def)
  ultimately show "in_region (sp_blocks sp) c" "c + cell_size_at sp c \<le> bs_data_bound (sp_blocks sp)"
    using lo hi ptr i(4) sz by (simp_all add: in_region_def)
qed

lemma cells_separate:
  assumes "blocks_inv L sp" "c \<in> all_cells sp" "d \<in> all_cells sp" "c < d"
  shows "c + cell_size_at sp c \<le> d"
proof (cases "get_block_ptr c = get_block_ptr d")
  case True
  then obtain blk where "bs_blocks (sp_blocks sp) (get_block_ptr c) = Some blk" "c \<in> set (block_walk (get_block_ptr c) blk)"
    "d \<in> set (block_walk (get_block_ptr c) blk)"
    using inv_cell(2) [OF assms(1,2)] inv_cell(2) [OF assms(1,3)] by (auto simp: cells_of_def split: option.splits)
  then show ?thesis using cells_apart assms(4) by (simp add: cell_size_at_def)
next
  case False
  note c = inv_cell [OF assms(1,2)] and d = inv_cell [OF assms(1,3)]
  have m: "get_block_ptr c mod BLOCK_SIZE = 0" "get_block_ptr d mod BLOCK_SIZE = 0"
    by (simp_all add: get_block_ptr_def minus_mod_eq_mult_div)
  obtain j k where jk: "get_block_ptr c = BLOCK_SIZE * j" "get_block_ptr d = BLOCK_SIZE * k" using m by (auto elim!: dvdE)
  have "j \<noteq> k" using False jk by auto
  show ?thesis
  proof (cases "j < k")
    case True
    then have "BLOCK_SIZE * Suc j \<le> BLOCK_SIZE * k" by (intro mult_le_mono2) simp
    then show ?thesis using c(5) d(4) jk by simp
  next
    case False
    then have "BLOCK_SIZE * Suc k \<le> BLOCK_SIZE * j" using \<open>j \<noteq> k\<close> by (intro mult_le_mono2) simp
    then show ?thesis using c(4) d(3,5) jk assms(4) by simp
  qed
qed

lemma div16_less: "a + 16 \<le> b \<Longrightarrow> a div 16 < b div (16 :: nat)"
  by linarith

lemma inv_granule:
  assumes "blocks_inv L sp" "c \<in> all_cells sp" "d \<in> all_cells sp" "map_ok (sp_blocks sp) m" "granule m c = granule m d"
  shows "c = d"
proof (rule ccontr)
  assume "c \<noteq> d"
  have g: "granule m x = (x - bs_start (sp_blocks sp)) div 16" "bs_start (sp_blocks sp) \<le> x" if "x \<in> all_cells sp" for x
    using assms(1,4) inv_cell(6) [OF assms(1) that] by (auto simp: map_ok_def in_region_def)
  have "granule m x < granule m y" if "x < y" "x \<in> all_cells sp" "y \<in> all_cells sp" for x y
    using cells_separate [OF assms(1) that(2,3,1)] inv_cell(3) [OF assms(1) that(2)] g [OF that(2)] g [OF that(3)]
      div16_less [of "x - bs_start (sp_blocks sp)" "y - bs_start (sp_blocks sp)"] by simp
  with \<open>c \<noteq> d\<close> assms(2,3,5) show False by (metis linorder_neqE_nat less_irrefl)
qed

lemma blocks_mem_ok:
  assumes "blocks_inv L sp" "maps_inv sp"
  shows "mem_ok (all_cells sp) (sp_mem sp)"
proof -
  have "map_ok (sp_blocks sp) (gm_live (sp_mem sp))" "map_ok (sp_blocks sp) (gm_mark (sp_mem sp))"
    using assms(2) by (simp_all add: maps_inv_def)
  moreover have "inj_on (granule m) (all_cells sp)" if "map_ok (sp_blocks sp) m" for m
    using inv_granule [OF assms(1) _ _ that] by (blast intro: inj_onI)
  ultimately show ?thesis
    using inv_cell(6) [OF assms(1)] by (simp add: mem_ok_def map_ok_def)
qed

section \<open>Allocation\<close>

lemma la_ok_frame:
  assumes "la_ok live bs la" "\<And>b. b \<in> set (la_blocks la) \<Longrightarrow> bs_blocks bs b = bs_blocks bs' b"
    "\<And>b c. b \<in> set (la_blocks la) \<Longrightarrow> c \<in> cells_of bs b \<Longrightarrow> live c = live' c"
  shows "la_ok live' bs' la"
proof -
  have "block_good live' (la_cell_size la) bs' b" if b: "b \<in> set (la_blocks la)" for b
  proof -
    have "block_good live (la_cell_size la) bs b" using assms(1) b by (simp add: la_ok_def)
    then show ?thesis using block_good_cong [of bs b bs' live live' "la_cell_size la"] assms(2,3) b by simp
  qed
  moreover have "has_free bs' b" if "b \<in> set (tl (la_current la))" for b
  proof -
    have "b \<in> set (la_blocks la)" using that by (cases "la_current la") (auto simp: la_blocks_def)
    moreover have "has_free bs b" using assms(1) that by (simp add: la_ok_def)
    ultimately show ?thesis using assms(2) [of b] by (simp add: has_free_def)
  qed
  ultimately show ?thesis using assms(1) by (simp add: la_ok_def)
qed

lemma good_same_cells:
  assumes "block_good live cs bs b" "block_good live' cs bs' b"
  shows "cells_of bs b = cells_of bs' b"
proof -
  obtain blk blk' where "bs_blocks bs b = Some blk" "bs_blocks bs' b = Some blk'" "blk_cell_size blk = blk_cell_size blk'"
    using assms by (auto simp: block_good_def)
  then show ?thesis using walk_cs [of blk blk' b] by (simp add: cells_of_def)
qed

lemma all_blocks_iff: "b \<in> all_blocks sp \<longleftrightarrow> (\<exists>i la. sp_allocators sp i = Some la \<and> b \<in> set (la_blocks la))"
  by (force simp: all_blocks_def)

lemma live_in_used:
  assumes "blocks_inv (live_cell sp) sp"
  shows "\<forall>c. live_cell sp c \<longrightarrow> get_block_ptr c \<in> all_blocks sp"
  using inv_cell(1) [OF assms] by (simp add: live_cell_def)

text \<open>A cell of size class \<open>i\<close> is handed out; \<open>sp'\<close> has its live bit not yet set.\<close>

lemma allocate_at_spec:
  assumes inv: "blocks_inv (live_cell sp) sp" and la: "sp_allocators sp i = Some la"
  shows "(allocate_at i sp = None \<and> available_blocks (sp_blocks sp) = Some 0) \<or>
    (\<exists>p sp'. allocate_at i sp = Some (Some p, sp') \<and> \<not> live_cell sp p \<and> p \<in> all_cells sp' \<and> all_cells sp \<subseteq> all_cells sp' \<and>
       blocks_inv ((live_cell sp)(p := True)) sp' \<and> cell_size_at sp' p = sp_size_table sp ! i \<and>
       sp_precise sp' = sp_precise sp \<and> sp_size_table sp' = sp_size_table sp \<and> sp_mem sp' = sp_mem sp \<and>
       same_region (sp_blocks sp) (sp_blocks sp') \<and> (\<forall>c \<in> all_cells sp. cell_size_at sp' c = cell_size_at sp c))"
proof -
  let ?L = "live_cell sp"
  have ok: "la_ok ?L (sp_blocks sp) la" "space_ok (sp_blocks sp) (all_blocks sp)" "set (la_blocks la) \<subseteq> all_blocks sp"
    using inv la by (auto simp: blocks_inv_def all_blocks_def)
  from la_allocate_spec [OF ok live_in_used [OF inv]] show ?thesis
  proof (elim disjE exE conjE)
    assume "la_allocate la (sp_blocks sp) = None" "available_blocks (sp_blocks sp) = Some 0"
    with la show ?thesis by (simp add: allocate_at_def)
  next
    fix p la' bs' used'
    assume al: "la_allocate la (sp_blocks sp) = Some (Some p, la', bs')" and
      A: "la_allocated ?L (all_blocks sp) (sp_blocks sp) la p used' bs' la'"
    let ?sp = "sp\<lparr>sp_allocators := (sp_allocators sp)(i \<mapsto> la'), sp_blocks := bs'\<rparr>"
    have A': "\<not> ?L p" "la_cell_size la' = la_cell_size la" "get_block_ptr p \<in> set (la_blocks la')" "p \<in> cells_of bs' (get_block_ptr p)"
      "used' = all_blocks sp \<union> set (la_blocks la')" "set (la_blocks la) \<subseteq> set (la_blocks la')"
      "(set (la_blocks la') - set (la_blocks la)) \<inter> all_blocks sp = {}" "space_ok bs' used'" "la_ok (?L(p := True)) bs' la'"
      "\<forall>b \<in> all_blocks sp - set (la_blocks la). bs_blocks bs' b = bs_blocks (sp_blocks sp) b"
      using A unfolding la_allocated_def by blast+
    have cs: "0 < la_cell_size la" using la_ok_size [OF ok(1)] .
    have own: "block_good (?L(p := True)) (la_cell_size la) bs' b" if "b \<in> set (la_blocks la')" for b
      using A'(2,9) that by (simp add: la_ok_def)
    have blocks: "all_blocks ?sp = used'"
    proof (rule set_eqI)
      fix b
      have "b \<in> all_blocks ?sp \<longleftrightarrow> b \<in> set (la_blocks la') \<or> (\<exists>j lb. j \<noteq> i \<and> sp_allocators sp j = Some lb \<and> b \<in> set (la_blocks lb))"
        by (auto simp: all_blocks_iff)
      moreover have "b \<in> all_blocks sp \<longleftrightarrow> b \<in> set (la_blocks la) \<or> (\<exists>j lb. j \<noteq> i \<and> sp_allocators sp j = Some lb \<and> b \<in> set (la_blocks lb))"
        using la by (metis all_blocks_iff option.inject)
      ultimately show "b \<in> all_blocks ?sp \<longleftrightarrow> b \<in> used'" using A'(5,6) by auto
    qed
    have other: "set (la_blocks lb) \<inter> set (la_blocks la') = {}" "la_ok (?L(p := True)) bs' lb" "set (la_blocks lb) \<subseteq> all_blocks sp"
      if lb: "sp_allocators sp j = Some lb" "j \<noteq> i" for j lb
    proof -
      show sub: "set (la_blocks lb) \<subseteq> all_blocks sp" using lb(1) by (auto simp: all_blocks_def)
      have "set (la_blocks lb) \<inter> set (la_blocks la) = {}" using inv la lb by (simp add: blocks_inv_def)
      with sub A'(7) show d: "set (la_blocks lb) \<inter> set (la_blocks la') = {}" by blast
      have lbok: "la_ok ?L (sp_blocks sp) lb" using inv lb(1) by (simp add: blocks_inv_def)
      show "la_ok (?L(p := True)) bs' lb"
      proof (rule la_ok_frame [OF lbok])
        fix b assume b: "b \<in> set (la_blocks lb)"
        then show same: "bs_blocks (sp_blocks sp) b = bs_blocks bs' b" using A'(6,10) d sub by (metis Diff_iff disjoint_iff subsetD)
        fix c assume c: "c \<in> cells_of (sp_blocks sp) b"
        have g: "block_good ?L (la_cell_size lb) (sp_blocks sp) b" "0 < la_cell_size lb" using lbok b la_ok_size by (auto simp: la_ok_def)
        then have "get_block_ptr c = b" using cells_block [OF _ c g(1)] by (auto simp: block_good_def)
        then have "c \<noteq> p" using A'(3) b d by auto
        then show "?L c = (?L(p := True)) c" by simp
      qed
    qed
    have inv': "blocks_inv (?L(p := True)) ?sp"
      unfolding blocks_inv_def
    proof (intro conjI allI impI)
      show "space_ok (sp_blocks ?sp) (all_blocks ?sp)" using blocks A'(8) by simp
      show "table_ok (sp_size_table ?sp)" "distinct (sp_chain ?sp)" using inv by (simp_all add: blocks_inv_def)
      show "set (sp_chain ?sp) = dom (sp_allocators ?sp)" using inv la by (auto simp: blocks_inv_def)
    next
      fix j lb assume j: "sp_allocators ?sp j = Some lb"
      show "j < NUM_SIZE_CLASSES" "la_cell_size lb = sp_size_table ?sp ! j"
        using j inv la A'(2) by (auto simp: blocks_inv_def split: if_splits)
      show "la_ok (?L(p := True)) (sp_blocks ?sp) lb" using j other(2) [of j lb] A'(9) by (auto split: if_splits)
    next
      fix j k lb lc assume "sp_allocators ?sp j = Some lb" "sp_allocators ?sp k = Some lc" "j \<noteq> k"
      then show "set (la_blocks lb) \<inter> set (la_blocks lc) = {}"
        using inv other(1) [of j lb] other(1) [of k lc] by (auto simp: blocks_inv_def split: if_splits)
    qed
    have keep: "cells_of bs' b = cells_of (sp_blocks sp) b" "map_option blk_cell_size (bs_blocks bs' b) = map_option blk_cell_size (bs_blocks (sp_blocks sp) b)"
      if b: "b \<in> all_blocks sp" for b
    proof -
      have "cells_of bs' b = cells_of (sp_blocks sp) b \<and>
        map_option blk_cell_size (bs_blocks bs' b) = map_option blk_cell_size (bs_blocks (sp_blocks sp) b)"
      proof (cases "b \<in> set (la_blocks la)")
        case True
        then have g: "block_good ?L (la_cell_size la) (sp_blocks sp) b" "block_good (?L(p := True)) (la_cell_size la) bs' b"
          using ok(1) own A'(6) by (auto simp: la_ok_def)
        then obtain blk blk' where "bs_blocks (sp_blocks sp) b = Some blk" "bs_blocks bs' b = Some blk'" "blk_cell_size blk = blk_cell_size blk'"
          unfolding block_good_def by metis
        then show ?thesis using good_same_cells [OF g] by simp
      next
        case False
        then show ?thesis using A'(10) b by (simp add: cells_of_def)
      qed
      then show "cells_of bs' b = cells_of (sp_blocks sp) b" "map_option blk_cell_size (bs_blocks bs' b) = map_option blk_cell_size (bs_blocks (sp_blocks sp) b)"
        by simp_all
    qed
    have "all_cells sp \<subseteq> all_cells ?sp" using keep(1) blocks A'(5) by (auto simp: all_cells_def)
    moreover have "p \<in> all_cells ?sp" using A'(3,4,5) blocks by (auto simp: all_cells_def)
    moreover have "cell_size_at ?sp p = sp_size_table sp ! i"
      using own [OF A'(3)] inv la by (auto simp: cell_size_at_def block_good_def blocks_inv_def)
    moreover have "cell_size_at ?sp c = cell_size_at sp c" if "c \<in> all_cells sp" for c
      using keep(2) [OF inv_cell(1) [OF inv that]] by (auto simp: cell_size_at_def split: option.splits)
    moreover have "allocate_at i sp = Some (Some p, ?sp)" using la al by (simp add: allocate_at_def)
    moreover have "same_region (sp_blocks sp) (sp_blocks ?sp)" using la_allocate_region [OF al] by simp
    ultimately show ?thesis using A'(1) inv' by (intro disjI2 exI [of _ p] exI [of _ ?sp]) simp
  qed
qed

text \<open>Setting the live bit of the new cell.\<close>

lemma bits_only_at_cells:
  assumes "maps_inv sp" "blocks_inv L sp'" "map_ok (sp_blocks sp') (gm_live (sp_mem sp))" "same_region (sp_blocks sp) (sp_blocks sp')"
    "all_cells sp \<subseteq> all_cells sp'" "c \<in> all_cells sp'" "lv (sp_mem sp) c"
  shows "c \<in> all_cells sp"
proof -
  have "in_region (sp_blocks sp) c" using inv_cell(6) [OF assms(2,6)] same_region_in [OF assms(4)] by simp
  then obtain d where d: "d \<in> all_cells sp" "granule (gm_live (sp_mem sp)) c = granule (gm_live (sp_mem sp)) d"
    using assms(1,7) by (auto simp: maps_inv_def)
  then have "c = d" using inv_granule [OF assms(2,6) _ assms(3)] assms(5) by blast
  with d(1) show ?thesis by simp
qed

lemma set_live_bit:
  assumes inv: "space_inv sp" and inv': "blocks_inv ((live_cell sp)(p := True)) sp'" and p: "\<not> live_cell sp p" "p \<in> all_cells sp'"
    and sub: "all_cells sp \<subseteq> all_cells sp'" and same: "sp_mem sp' = sp_mem sp" "same_region (sp_blocks sp) (sp_blocks sp')"
  shows "\<exists>b. bm_test (gm_live (sp_mem sp')) p = Some False \<and> bm_set p (gm_live (sp_mem sp')) = Some (False, b) \<and>
    bm_test b p = Some True \<and>
    (let sp2 = sp'\<lparr>sp_mem := (sp_mem sp')\<lparr>gm_live := b\<rparr>\<rparr> in space_inv sp2 \<and> live_cell sp2 = (live_cell sp)(p := True) \<and>
       all_cells sp2 = all_cells sp')"
proof -
  let ?m = "gm_live (sp_mem sp)" and ?b = "put_bit True p (gm_live (sp_mem sp))"
  let ?sp2 = "sp'\<lparr>sp_mem := (sp_mem sp')\<lparr>gm_live := ?b\<rparr>\<rparr>"
  have maps: "maps_inv sp" using inv by (simp add: space_inv_def)
  have mo: "map_ok (sp_blocks sp') ?m" "map_ok (sp_blocks sp') (gm_mark (sp_mem sp))"
    using maps same(2) same_region_in [OF same(2)] by (simp_all add: maps_inv_def map_ok_def same_region_def)
  have old: "c \<in> all_cells sp" if "c \<in> all_cells sp'" "lv (sp_mem sp) c" for c
    using bits_only_at_cells [OF maps inv' mo(1) same(2) sub that] .
  have ok: "bm_ok ?m" "covers ?m p" using mo(1) inv_cell(6) [OF inv' p(2)] by (simp_all add: map_ok_def)
  have dead: "\<not> lv (sp_mem sp) p" using old p by (auto simp: live_cell_def)
  have t: "bm_test ?m p = Some False" "bm_set p ?m = Some (False, ?b)" "bm_test ?b p = Some True"
    using bm_test_eq [OF ok] bm_modify_eq [OF ok, of True] bm_test_eq [of ?b p] ok put_bit_marked [OF ok, of True p] dead
    by (simp_all add: bm_set_def)
  have mk2: "marked ?b c = (granule ?m c = granule ?m p \<or> lv (sp_mem sp) c)" for c
    using put_bit_marked [OF ok, of True c] by simp
  have cells2: "all_cells ?sp2 = all_cells sp'" by (simp add: all_cells_def all_blocks_def)
  have live2: "live_cell ?sp2 = (live_cell sp)(p := True)"
  proof
    fix c
    show "live_cell ?sp2 c = ((live_cell sp)(p := True)) c"
      using mk2 [of c] inv_granule [OF inv' _ p(2) mo(1), of c] p(2) old [of c] sub cells2
      by (auto simp: live_cell_def)
  qed
  have "map_ok (sp_blocks sp') ?b" using mo(1) by (simp add: map_ok_def)
  moreover have "\<exists>c \<in> all_cells sp'. granule ?b q = granule ?b c" if q: "in_region (sp_blocks sp') q" "marked ?b q" for q
  proof (cases "granule ?m q = granule ?m p")
    case True
    then show ?thesis using p(2) by auto
  next
    case False
    then have "lv (sp_mem sp) q" using mk2 q(2) by simp
    then obtain c where "c \<in> all_cells sp" "granule ?m q = granule ?m c"
      using maps q(1) same_region_in [OF same(2)] by (auto simp: maps_inv_def)
    then show ?thesis using sub by auto
  qed
  ultimately have "maps_inv ?sp2" using mo(2) same(1) cells2 by (simp add: maps_inv_def)
  moreover have "blocks_inv ((live_cell sp)(p := True)) ?sp2" using inv' by (simp add: blocks_inv_def all_blocks_def)
  ultimately have "space_inv ?sp2" using live2 by (simp add: space_inv_def)
  with t live2 cells2 show ?thesis by (simp add: same(1) Let_def)
qed

text \<open>The allocator of a size step, created when it does not exist.\<close>

lemma table_entry:
  assumes "table_ok t" "0 < sz" "sz \<le> LARGE_CUTOFF"
  shows "size_class_to_index sz < NUM_SIZE_CLASSES" "nth_checked t (size_class_to_index sz) = Some (t ! size_class_to_index sz)"
    "sz \<le> t ! size_class_to_index sz" "16 \<le> t ! size_class_to_index sz" "t ! size_class_to_index sz mod 16 = 0"
    "t ! size_class_to_index sz \<le> BLOCK_SIZE - DATA_START"
proof -
  let ?i = "size_class_to_index sz"
  have i: "?i < NUM_SIZE_CLASSES" "sz \<le> 16 * ?i" "1 \<le> ?i"
    using assms(2,3) unfolding size_class_to_index_def SIZE_STEP_def cutoff by simp_all
  then show "?i < NUM_SIZE_CLASSES" "nth_checked t ?i = Some (t ! ?i)" "sz \<le> t ! ?i" "16 \<le> t ! ?i" "t ! ?i mod 16 = 0"
    "t ! ?i \<le> BLOCK_SIZE - DATA_START"
    using assms(1) by (force simp: table_ok_def nth_checked_def cutoff BLOCK_SIZE_def DATA_START_def)+
qed

lemma add_allocator:
  assumes inv: "blocks_inv L sp" and i: "sp_allocators sp i = None" "i < NUM_SIZE_CLASSES" "cls = sp_size_table sp ! i" "16 \<le> cls"
    "cls mod 16 = 0" "cls \<le> BLOCK_SIZE - DATA_START"
  defines "sp' \<equiv> sp\<lparr>sp_allocators := (sp_allocators sp)(i \<mapsto> local_allocator_new cls), sp_chain := i # sp_chain sp\<rparr>"
  shows "blocks_inv L sp'" "all_cells sp' = all_cells sp" "live_cell sp' = live_cell sp" "cell_size_at sp' = cell_size_at sp"
    "all_blocks sp' = all_blocks sp"
proof -
  have new: "la_blocks (local_allocator_new cls) = []" "la_cell_size (local_allocator_new cls) = cls"
    by (simp_all add: la_blocks_def local_allocator_new_def)
  have "b \<in> all_blocks sp' \<longleftrightarrow> b \<in> all_blocks sp" for b
  proof -
    have "b \<in> all_blocks sp' \<longleftrightarrow> (\<exists>j la. j \<noteq> i \<and> sp_allocators sp j = Some la \<and> b \<in> set (la_blocks la))"
      using new(1) by (auto simp: all_blocks_iff sp'_def)
    moreover have "b \<in> all_blocks sp \<longleftrightarrow> (\<exists>j la. j \<noteq> i \<and> sp_allocators sp j = Some la \<and> b \<in> set (la_blocks la))"
      using i(1) by (metis all_blocks_iff option.distinct(1))
    ultimately show ?thesis by simp
  qed
  then show ab: "all_blocks sp' = all_blocks sp" by blast
  then show ac: "all_cells sp' = all_cells sp" by (simp add: all_cells_def sp'_def)
  then show "live_cell sp' = live_cell sp" by (simp add: live_cell_def [abs_def] sp'_def)
  show "cell_size_at sp' = cell_size_at sp" by (simp add: cell_size_at_def [abs_def] sp'_def)
  have la: "la_ok L bs (local_allocator_new cls)" for bs
    using i(4-6) by (simp add: la_ok_def new local_allocator_new_def la_blocks_def)
  show "blocks_inv L sp'"
    unfolding blocks_inv_def
  proof (intro conjI allI impI)
    show "space_ok (sp_blocks sp') (all_blocks sp')" "table_ok (sp_size_table sp')" "distinct (sp_chain sp')"
      "set (sp_chain sp') = dom (sp_allocators sp')"
      using inv i(1) ab by (auto simp: blocks_inv_def sp'_def)
    fix j lb assume j: "sp_allocators sp' j = Some lb"
    show "j < NUM_SIZE_CLASSES" "la_cell_size lb = sp_size_table sp' ! j" "la_ok L (sp_blocks sp') lb"
      using j inv i(2,3) new la by (auto simp: blocks_inv_def sp'_def split: if_splits)
    fix k lc assume "sp_allocators sp' k = Some lc" "j \<noteq> k"
    then show "set (la_blocks lb) \<inter> set (la_blocks lc) = {}"
      using j inv new(1) by (auto simp: blocks_inv_def sp'_def split: if_splits)
  qed
qed

lemma allocate_small_spec:
  assumes inv: "space_inv sp" and sz: "0 < sz" "sz \<le> LARGE_CUTOFF"
  shows "(allocate_small sz th sp = None \<and> available_blocks (sp_blocks sp) = Some 0) \<or>
    (\<exists>p sp'. allocate_small sz th sp = Some (Some p, th + cell_size_at sp' p, sp') \<and> sz \<le> cell_size_at sp' p \<and>
       \<not> live_cell sp p \<and> p \<in> all_cells sp' \<and> all_cells sp \<subseteq> all_cells sp' \<and> blocks_inv ((live_cell sp)(p := True)) sp' \<and>
       sp_precise sp' = sp_precise sp \<and> sp_mem sp' = sp_mem sp \<and> same_region (sp_blocks sp) (sp_blocks sp') \<and>
       (\<forall>c \<in> all_cells sp. cell_size_at sp' c = cell_size_at sp c))"
proof -
  let ?i = "size_class_to_index sz"
  have b: "blocks_inv (live_cell sp) sp" using inv by (simp add: space_inv_def)
  then have t: "table_ok (sp_size_table sp)" by (simp add: blocks_inv_def)
  note e = table_entry [OF t sz]
  show ?thesis
  proof (cases "sp_allocators sp ?i")
    case (Some la)
    with allocate_at_spec [OF b Some] e(2,3) show ?thesis by (fastforce simp: allocate_small_def)
  next
    case None
    let ?sp = "sp\<lparr>sp_allocators := (sp_allocators sp)(?i \<mapsto> local_allocator_new (sp_size_table sp ! ?i)), sp_chain := ?i # sp_chain sp\<rparr>"
    note a = add_allocator [OF b None e(1) refl e(4-6)]
    have slow: "allocator_for_slow sz sp = Some (Some ?i, ?sp)"
      using None e(2,4) by (simp add: allocator_for_slow_def Let_def)
    have "blocks_inv (live_cell ?sp) ?sp" using a(1,3) by simp
    from allocate_at_spec [OF this, of ?i "local_allocator_new (sp_size_table sp ! ?i)"] a e(2,3) None slow
    show ?thesis by (fastforce simp: allocate_small_def)
  qed
qed

lemma space_allocate_small:
  assumes "space_inv sp" "0 < sz" "sz \<le> LARGE_CUTOFF"
  shows "(space_allocate malloc sz th sp = None \<and> available_blocks (sp_blocks sp) = Some 0) \<or>
    (\<exists>p sp'. space_allocate malloc sz th sp = Some (p, th + cell_size_at sp' p, sp') \<and> space_inv sp' \<and>
       \<not> live_cell sp p \<and> live_cell sp' = (live_cell sp)(p := True) \<and> sz \<le> cell_size_at sp' p \<and>
       (\<forall>d. live_cell sp d \<longrightarrow> d + cell_size_at sp d \<le> p \<or> p + cell_size_at sp' p \<le> d) \<and>
       gm_cells (sp_mem sp') = gm_cells (sp_mem sp) \<and> gm_mark (sp_mem sp') = gm_mark (sp_mem sp) \<and> sp_precise sp' = sp_precise sp \<and>
       same_region (sp_blocks sp) (sp_blocks sp'))"
  using allocate_small_spec [OF assms, of th]
proof (elim disjE exE conjE)
  assume "allocate_small sz th sp = None" "available_blocks (sp_blocks sp) = Some 0"
  with assms(3) show ?thesis by (simp add: space_allocate_def)
next
  fix p sp'
  assume s: "allocate_small sz th sp = Some (Some p, th + cell_size_at sp' p, sp')" "sz \<le> cell_size_at sp' p" "\<not> live_cell sp p"
    "p \<in> all_cells sp'" "all_cells sp \<subseteq> all_cells sp'" "blocks_inv ((live_cell sp)(p := True)) sp'" "sp_precise sp' = sp_precise sp"
    "sp_mem sp' = sp_mem sp" "same_region (sp_blocks sp) (sp_blocks sp')" "\<forall>c \<in> all_cells sp. cell_size_at sp' c = cell_size_at sp c"
  obtain b where b: "bm_test (gm_live (sp_mem sp')) p = Some False" "bm_set p (gm_live (sp_mem sp')) = Some (False, b)"
    "bm_test b p = Some True"
    "let sp2 = sp'\<lparr>sp_mem := (sp_mem sp')\<lparr>gm_live := b\<rparr>\<rparr> in space_inv sp2 \<and> live_cell sp2 = (live_cell sp)(p := True) \<and>
       all_cells sp2 = all_cells sp'"
    using set_live_bit [OF assms(1) s(6,3,4,5,8,9)] by blast
  let ?sp2 = "sp'\<lparr>sp_mem := (sp_mem sp')\<lparr>gm_live := b\<rparr>\<rparr>"
  have i: "space_inv ?sp2" "live_cell ?sp2 = (live_cell sp)(p := True)" "all_cells ?sp2 = all_cells sp'"
    using b(4) by (simp_all add: Let_def)
  have sz: "cell_size_at ?sp2 = cell_size_at sp'" by (simp add: cell_size_at_def [abs_def])
  have "d + cell_size_at sp d \<le> p \<or> p + cell_size_at sp' p \<le> d" if d: "live_cell sp d" for d
  proof -
    have "d \<in> all_cells sp" "d \<noteq> p" using d s(3) by (auto simp: live_cell_def)
    then show ?thesis using cells_separate [OF s(6), of d p] cells_separate [OF s(6), of p d] s(4,5,10) by fastforce
  qed
  moreover have "space_allocate malloc sz th sp = Some (p, th + cell_size_at ?sp2 p, ?sp2)"
    using assms(3) s(1) b(1-3) sz by (simp add: space_allocate_def)
  ultimately show ?thesis using i s(2,3,7,8,9) sz by (intro disjI2 exI [of _ p] exI [of _ ?sp2]) simp
qed

text \<open>
  C14. Allocating a small object never hands out memory that is in use: unless the heap is exhausted
  (then it panics), every assertion of \<open>allocate\<close> holds, the new cell was not live and is as large as
  was asked for, it overlaps no live cell, exactly it becomes live, the threshold grows by its size,
  the region stays, and the invariant of the space is kept.
\<close>

theorem small_allocation_fresh:
  assumes "space_inv sp" "0 < sz" "sz \<le> LARGE_CUTOFF"
  shows "(space_allocate malloc sz th sp = None \<and> available_blocks (sp_blocks sp) = Some 0) \<or>
    (\<exists>p sp'. space_allocate malloc sz th sp = Some (p, th + cell_size_at sp' p, sp') \<and> space_inv sp' \<and>
       \<not> live_cell sp p \<and> live_cell sp' = (live_cell sp)(p := True) \<and> sz \<le> cell_size_at sp' p \<and>
       (\<forall>d. live_cell sp d \<longrightarrow> d + cell_size_at sp d \<le> p \<or> p + cell_size_at sp' p \<le> d) \<and>
       gm_cells (sp_mem sp') = gm_cells (sp_mem sp) \<and> gm_mark (sp_mem sp') = gm_mark (sp_mem sp) \<and> sp_precise sp' = sp_precise sp \<and>
       same_region (sp_blocks sp) (sp_blocks sp'))"
  using assms by (rule space_allocate_small)

section \<open>A new space\<close>

lemma new_map_ok:
  assumes n: "n < 2 ^ 53" "even n" "start + 1024 * n < 2 ^ 64"
    and bs: "bs_start bs = start" "bs_data_bound bs = start + 1024 * n"
  shows "map_ok bs (bm_create start (1024 * n))" "in_region bs p \<Longrightarrow> \<not> marked (bm_create start (1024 * n)) p"
proof -
  let ?b = "bm_create start (1024 * n)"
  have sz: "compute_bitmap_size (word_of_nat (1024 * n)) = n * 8" using bitmap_size_multiple [OF n(1)] n(2) by simp
  then have b: "bm_size ?b = n * 8" "bm_words ?b = replicate n 0" "bm_heap_begin ?b = start"
    by (simp_all add: bm_create_def Let_def)
  have ok: "bm_ok ?b" by (simp add: bm_ok_def b)
  have addr: "has_address ?b q = in_region bs q" for q
  proof (cases "start \<le> q")
    case True
    then have "has_address ?b q = ((q - start) div 1024 < n)"
      by (simp add: has_address_def b wrapping_sub_def offset_to_index_def BITMAP_ALIGN_def BITS_PER_INTPTR_def div_mult2_eq [symmetric])
    also have "\<dots> = (q - start < 1024 * n)" by (simp add: div_less_iff_less_mult mult.commute)
    finally show ?thesis using True bs by (auto simp: in_region_def)
  next
    case False
    then have "1024 * n \<le> 2 ^ 64 - (start - q)" using n(3) by linarith
    then have "n \<le> (2 ^ 64 - (start - q)) div 1024" by (simp add: less_eq_div_iff_mult_less_eq mult.commute)
    then show ?thesis using False bs
      by (simp add: has_address_def b wrapping_sub_def offset_to_index_def BITMAP_ALIGN_def BITS_PER_INTPTR_def in_region_def
          div_mult2_eq [symmetric])
  qed
  moreover have "covers ?b q = in_region bs q" for q
    using addr [of q] bs by (auto simp: covers_def b in_region_def)
  ultimately show "map_ok bs ?b" using ok by (simp add: map_ok_def granule_def b BITMAP_ALIGN_def bs(1))
  show "\<not> marked ?b p" if "in_region bs p"
  proof -
    have "covers ?b p" using addr [of p] that bs by (auto simp: covers_def b in_region_def)
    then have "granule ?b p div 64 < n" using covers_index [of ?b p] b(1) by simp
    then show ?thesis by (simp add: marked_def b(2))
  qed
qed

lemma space_new_spec:
  assumes n: "n < 2 ^ 53" "even n" "start + 1024 * n < 2 ^ 64" "BLOCK_SIZE \<le> 1024 * n"
    and approx: "\<forall>j. PRECISE_CUTOFF \<le> approx j" "LARGE_CUTOFF \<le> approx k"
  shows "\<exists>sp. space_new start (1024 * n) approx = Some (Some sp) \<and> space_inv sp \<and> all_cells sp = {} \<and>
    sp_precise sp = large_space_new \<and> gm_cells (sp_mem sp) = (\<lambda>_. None)"
proof -
  obtain t where t: "build_size_class_table approx (replicate NUM_SIZE_CLASSES 0) = Some (Some t)" "length t = NUM_SIZE_CLASSES"
    "\<forall>i < NUM_SIZE_CLASSES. 16 * i \<le> t ! i \<and> t ! i \<le> LARGE_CUTOFF \<and> t ! i mod 16 = 0"
    using build_table [OF approx, of "replicate NUM_SIZE_CLASSES 0"] by auto
  obtain bs where bs: "block_allocator_new start (1024 * n) = Some bs" "space_ok bs {}"
    using allocator_new_ok [OF n(4)] by blast
  have reg: "bs_start bs = start" "bs_data_bound bs = start + 1024 * n"
    using bs(1) by (auto simp: block_allocator_new_def Let_def split: if_splits)
  let ?b = "bm_create start (1024 * n)"
  let ?sp = "\<lparr>sp_precise = large_space_new, sp_allocators = (\<lambda>_. None), sp_size_table = t, sp_blocks = bs,
    sp_chain = [], sp_mem = \<lparr>gm_live = ?b, gm_mark = ?b, gm_cells = (\<lambda>_. None)\<rparr>\<rparr>"
  have none: "all_blocks ?sp = {}" "all_cells ?sp = {}" by (simp_all add: all_blocks_def all_cells_def)
  have "blocks_inv L ?sp" for L using bs(2) t(2,3) none by (simp add: blocks_inv_def table_ok_def)
  moreover have "maps_inv ?sp" using new_map_ok [OF n(1-3) reg] by (auto simp: maps_inv_def)
  ultimately have "space_inv ?sp" by (simp add: space_inv_def)
  moreover have "space_new start (1024 * n) approx = Some (Some ?sp)"
    using t(1) bs(1) by (simp add: space_new_def)
  ultimately show ?thesis using none by (intro exI [of _ ?sp]) simp
qed

lemma example_space:
  "\<exists>sp. space_new 4096 65536 (\<lambda>i. 80 + 1000 * i) = Some (Some sp) \<and> space_inv sp \<and> all_cells sp = {} \<and>
    sp_precise sp = large_space_new \<and> gm_cells (sp_mem sp) = (\<lambda>_. None) \<and> available_blocks (sp_blocks sp) \<noteq> Some 0"
proof -
  obtain sp where sp: "space_new 4096 65536 (\<lambda>i. 80 + 1000 * i) = Some (Some sp)" "space_inv sp" "all_cells sp = {}"
    "sp_precise sp = large_space_new" "gm_cells (sp_mem sp) = (\<lambda>_. None)"
    using space_new_spec [of 64 4096 "\<lambda>i. 80 + 1000 * i" 9] by (auto simp: PRECISE_CUTOFF_def cutoff BLOCK_SIZE_def)
  have "sp_blocks sp = \<lparr>bs_blocks = (\<lambda>_. None), bs_free_blocks = [], bs_data = 16384, bs_data_bound = 69632, bs_start = 4096\<rparr>"
    using sp(1) by (auto simp: space_new_def bind_eq_Some_conv block_allocator_new_def mmap_aligned_def BLOCK_SIZE_def Let_def split: if_splits)
  then have "available_blocks (sp_blocks sp) = Some 3" by (simp add: available_blocks_def BLOCK_SIZE_def)
  with sp show ?thesis by auto
qed

text \<open>
  A new space satisfies the invariant of the space: for a capacity that is an even number of
  kilobytes and holds a block, and approximate sizes that reach the cutoff, \<open>Space::new\<close> ends, no
  assertion fails, and nothing is live.
\<close>

theorem space_new_inv:
  assumes "n < 2 ^ 53" "even n" "start + 1024 * n < 2 ^ 64" "BLOCK_SIZE \<le> 1024 * n"
    "\<forall>j. PRECISE_CUTOFF \<le> approx j" "LARGE_CUTOFF \<le> approx k"
  shows "\<exists>sp. space_new start (1024 * n) approx = Some (Some sp) \<and> space_inv sp \<and> (\<forall>c. \<not> live_cell sp c) \<and>
    ls_allocations (sp_precise sp) = []"
  using space_new_spec [OF assms] by (auto simp: live_cell_def large_space_new_def)

theorem space_new_inv_witness:
  "\<exists>sp. space_new 4096 (1024 * 64) (\<lambda>i. 80 + 1000 * i) = Some (Some sp) \<and> space_inv sp"
  using space_new_inv [of 64 4096 "\<lambda>i. 80 + 1000 * i" 9] by (auto simp: PRECISE_CUTOFF_def cutoff BLOCK_SIZE_def)

theorem small_allocation_fresh_witness:
  "\<exists>sp p sp'. space_new 4096 65536 (\<lambda>i. 80 + 1000 * i) = Some (Some sp) \<and>
     space_allocate (\<lambda>_. 0) 40 0 sp = Some (p, cell_size_at sp' p, sp') \<and> live_cell sp' p \<and> 40 \<le> cell_size_at sp' p"
proof -
  obtain sp where "space_new 4096 65536 (\<lambda>i. 80 + 1000 * i) = Some (Some sp)" "space_inv sp" "available_blocks (sp_blocks sp) \<noteq> Some 0"
    using example_space by blast
  with small_allocation_fresh [of sp 40 "\<lambda>_. 0" 0] show ?thesis by (auto simp: cutoff)
qed

end
