(* ===== verification/Space_Sweep.thy ===== *)
theory Space_Sweep
  imports Gc_Space
begin

text \<open>
  A sweep of the whole space: every local allocator is swept in turn, the invariant of the space
  holds after each, and at the end exactly the marked cells are live.
\<close>

definition cells_at :: "gc_space \<Rightarrow> nat \<Rightarrow> nat set" where
  "cells_at sp i = (case sp_allocators sp i of None \<Rightarrow> {} | Some la \<Rightarrow> (\<Union>b \<in> set (la_blocks la). cells_of (sp_blocks sp) b))"

lemma cells_at_iff:
  "c \<in> cells_at sp i \<longleftrightarrow> (\<exists>la b. sp_allocators sp i = Some la \<and> b \<in> set (la_blocks la) \<and> c \<in> cells_of (sp_blocks sp) b)"
  by (auto simp: cells_at_def split: option.splits)

lemma all_cells_iff: "c \<in> all_cells sp \<longleftrightarrow> (\<exists>i. c \<in> cells_at sp i)"
  unfolding all_cells_def UN_iff all_blocks_iff cells_at_iff Bex_def by blast

definition bytes_in :: "gc_space \<Rightarrow> nat set \<Rightarrow> nat" where
  "bytes_in sp C = (\<Sum>c \<in> C. cell_size_at sp c)"

lemma all_cells_at: "(\<Union>i \<in> dom (sp_allocators sp). cells_at sp i) = all_cells sp"
proof (rule set_eqI)
  fix c
  have "i \<in> dom (sp_allocators sp)" if "c \<in> cells_at sp i" for i using that by (auto simp: cells_at_iff)
  then show "c \<in> (\<Union>i \<in> dom (sp_allocators sp). cells_at sp i) \<longleftrightarrow> c \<in> all_cells sp"
    unfolding UN_iff all_cells_iff by blast
qed

text \<open>A marked cell is live, a live cell has a header in a state a sweep expects.\<close>

definition space_sweepable :: "gc_space \<Rightarrow> bool" where
  "space_sweepable sp \<longleftrightarrow> (\<forall>c \<in> all_cells sp. sweepable (sp_mem sp) c)"

lemma cells_at_apart:
  assumes "blocks_inv L sp" "c \<in> cells_at sp i" "c \<in> cells_at sp j"
  shows "i = j"
proof (rule ccontr)
  assume "i \<noteq> j"
  obtain la lb where la: "sp_allocators sp i = Some la" "sp_allocators sp j = Some lb"
    using assms(2,3) by (auto simp: cells_at_def split: option.splits)
  have ptr: "get_block_ptr c \<in> set (la_blocks lc)" if k: "sp_allocators sp k = Some lc" "c \<in> cells_at sp k" for k lc
  proof -
    obtain b where b: "b \<in> set (la_blocks lc)" "c \<in> cells_of (sp_blocks sp) b" using k by (auto simp: cells_at_def)
    have "la_ok L (sp_blocks sp) lc" using assms(1) k(1) by (simp add: blocks_inv_def)
    then have "block_good L (la_cell_size lc) (sp_blocks sp) b" "0 < la_cell_size lc" using b(1) la_ok_size by (auto simp: la_ok_def)
    then have "get_block_ptr c = b" using cells_block [OF _ b(2)] by (auto simp: block_good_def)
    with b(1) show ?thesis by simp
  qed
  have "set (la_blocks la) \<inter> set (la_blocks lb) = {}" using assms(1) la \<open>i \<noteq> j\<close> by (simp add: blocks_inv_def)
  with ptr [OF la(1) assms(2)] ptr [OF la(2) assms(3)] show False by blast
qed

lemma finite_cells: "blocks_inv L sp \<Longrightarrow> finite (all_cells sp)"
  by (auto simp: all_cells_def blocks_inv_def space_ok_def cells_of_def split: option.splits)

lemma inv_allocator: "blocks_inv L sp \<Longrightarrow> sp_allocators sp i = Some la \<Longrightarrow> la_ok L (sp_blocks sp) la"
  by (simp add: blocks_inv_def)

lemma la_in_all: "sp_allocators sp i = Some la \<Longrightarrow> set (la_blocks la) \<subseteq> all_blocks sp"
  by (metis all_blocks_iff subsetI)

lemma live_bytes_eq:
  assumes inv: "blocks_inv L sp" and la: "sp_allocators sp i = Some la"
  shows "live_bytes m (sp_blocks sp) (la_cell_size la) (set (la_blocks la)) = bytes_in sp {c \<in> cells_at sp i. survives m c}"
proof -
  let ?bs = "sp_blocks sp" and ?B = "set (la_blocks la)"
  have good: "block_good L (la_cell_size la) ?bs b" "0 < la_cell_size la" if "b \<in> ?B" for b
    using inv_allocator [OF inv la] that la_ok_size by (simp_all add: la_ok_def)
  have fin: "finite (cells_of ?bs b)" for b by (simp add: cells_of_def split: option.split)
  have "cell_size_at sp c = la_cell_size la" if "b \<in> ?B" "c \<in> cells_of ?bs b" for b c
  proof -
    have "get_block_ptr c = b" using cells_block [OF _ that(2) good(1) [OF that(1)]] good [OF that(1)] by (auto simp: block_good_def)
    then show ?thesis using good(1) [OF that(1)] by (auto simp: cell_size_at_def block_good_def)
  qed
  then have e: "la_cell_size la * card {c \<in> cells_of ?bs b. survives m c} = bytes_in sp {c \<in> cells_of ?bs b. survives m c}" if "b \<in> ?B" for b
    using that by (simp add: bytes_in_def)
  have "bytes_in sp (\<Union>b \<in> ?B. {c \<in> cells_of ?bs b. survives m c}) = (\<Sum>b \<in> ?B. bytes_in sp {c \<in> cells_of ?bs b. survives m c})"
    unfolding bytes_in_def
  proof (rule sum.UNION_disjoint)
    show "\<forall>b \<in> ?B. \<forall>d \<in> ?B. b \<noteq> d \<longrightarrow> {c \<in> cells_of ?bs b. survives m c} \<inter> {c \<in> cells_of ?bs d. survives m c} = {}"
    proof (intro ballI impI)
      fix b d assume bd: "b \<in> ?B" "d \<in> ?B" "b \<noteq> d"
      from good_blocks_apart [OF good(1) [OF bd(1)] good(1) [OF bd(2)] good(2) [OF bd(1)] good(2) [OF bd(1)] bd(3)]
      show "{c \<in> cells_of ?bs b. survives m c} \<inter> {c \<in> cells_of ?bs d. survives m c} = {}" by blast
    qed
  qed (use fin in simp_all)
  moreover have "(\<Union>b \<in> ?B. {c \<in> cells_of ?bs b. survives m c}) = {c \<in> cells_at sp i. survives m c}"
    using la by (auto simp: cells_at_def)
  ultimately show ?thesis using e by (simp add: live_bytes_def)
qed

text \<open>One allocator is swept.\<close>

lemma sweep_one:
  assumes inv: "space_inv sp" "space_sweepable sp" and la: "sp_allocators sp i = Some la"
  shows "\<exists>la' a' m bs. la_sweep la a (sp_mem sp) (sp_blocks sp) = Some (la', a', m, bs) \<and>
    a' = a + bytes_in sp {c \<in> cells_at sp i. survives (sp_mem sp) c} \<and>
    (let sp1 = sp\<lparr>sp_allocators := (sp_allocators sp)(i \<mapsto> la'), sp_mem := m, sp_blocks := bs\<rparr> in
       space_inv sp1 \<and> all_cells sp1 \<subseteq> all_cells sp \<and>
       (\<forall>c. live_cell sp1 c = (live_cell sp c \<and> (c \<in> cells_at sp i \<longrightarrow> mk (sp_mem sp) c))) \<and>
       (\<forall>c \<in> all_cells sp. mk m c = (mk (sp_mem sp) c \<and> c \<notin> cells_at sp i)) \<and>
       (\<forall>c. gm_cells m c = (if c \<in> cells_at sp i then swept_header (sp_mem sp) c else gm_cells (sp_mem sp) c)) \<and>
       (\<forall>p. in_region (sp_blocks sp) p \<longrightarrow> mk m p \<longrightarrow> mk (sp_mem sp) p) \<and>
       (\<forall>j. j \<noteq> i \<longrightarrow> cells_at sp1 j = cells_at sp j) \<and> (\<forall>c \<in> all_cells sp1. cell_size_at sp1 c = cell_size_at sp c) \<and>
       same_region (sp_blocks sp) bs)"
proof -
  let ?C = "all_cells sp" and ?L = "live_cell sp" and ?m0 = "sp_mem sp" and ?bs0 = "sp_blocks sp" and ?B = "set (la_blocks la)"
  have b: "blocks_inv ?L sp" and maps: "maps_inv sp" using inv(1) by (simp_all add: space_inv_def)
  have sub: "cells_of ?bs0 d \<subseteq> ?C" if "d \<in> ?B" for d
  proof -
    have "d \<in> all_blocks sp" using la_in_all [OF la] that by blast
    then show ?thesis by (auto simp: all_cells_def)
  qed
  have Lok: "la_ok ?L ?bs0 lb" if "sp_allocators sp j = Some lb" for j lb using b that by (simp add: blocks_inv_def)
  have lvok: "la_ok (lv ?m0) ?bs0 la"
  proof (rule la_ok_frame [OF Lok [OF la] refl])
    show "?L c = lv ?m0 c" if "d \<in> ?B" "c \<in> cells_of ?bs0 d" for d c using sub [OF that(1)] that(2) by (auto simp: live_cell_def)
  qed
  have used: "space_ok ?bs0 (all_blocks sp)" "?B \<subseteq> all_blocks sp" using b la_in_all [OF la] by (simp_all add: blocks_inv_def)
  have mo: "mem_ok ?C ?m0" by (rule blocks_mem_ok [OF b maps])
  obtain la' a' m bs where sw: "la_sweep la a ?m0 ?bs0 = Some (la', a', m, bs)"
    "la_swept ?C ?m0 ?bs0 (all_blocks sp) la a la' a' m bs"
  proof -
    have "\<forall>d \<in> ?B. cells_of ?bs0 d \<subseteq> ?C \<and> (\<forall>c \<in> cells_of ?bs0 d. sweepable ?m0 c)"
      using sub inv(2) unfolding space_sweepable_def by blast
    from la_sweep_spec [OF lvok mo used this, of a] that show ?thesis by blast
  qed
  let ?K = "kept ?m0 ?bs0 ?B" and ?sp = "sp\<lparr>sp_allocators := (sp_allocators sp)(i \<mapsto> la'), sp_mem := m, sp_blocks := bs\<rparr>"
  have S: "la_ok (lv m) bs la'" "la_cell_size la' = la_cell_size la" "set (la_blocks la') = ?K"
    "swept ?C (\<Union>d \<in> ?B. cells_of ?bs0 d) ?m0 m" "space_ok bs (all_blocks sp - (?B - ?K))"
    "\<forall>d. d \<notin> ?B \<longrightarrow> bs_blocks bs d = bs_blocks ?bs0 d" "a' = a + live_bytes ?m0 ?bs0 (la_cell_size la) ?B"
    using sw(2) unfolding la_swept_def Let_def by blast+
  have ci: "(\<Union>d \<in> ?B. cells_of ?bs0 d) = cells_at sp i" using la by (simp add: cells_at_def)
  note sw4 = S(4) [unfolded ci]
  have K: "?K \<subseteq> ?B" by (auto simp: kept_def)
  have reg: "same_region ?bs0 bs" by (rule la_sweep_region [OF sw(1)])
  have others: "set (la_blocks lb) \<inter> ?B = {}" if "sp_allocators sp j = Some lb" "j \<noteq> i" for j lb
    using b la that by (simp add: blocks_inv_def)
  have kcells: "cells_of bs d = cells_of ?bs0 d" "map_option blk_cell_size (bs_blocks bs d) = map_option blk_cell_size (bs_blocks ?bs0 d)"
    if d: "d \<in> ?K \<or> d \<notin> ?B" for d
  proof -
    have "cells_of bs d = cells_of ?bs0 d \<and> map_option blk_cell_size (bs_blocks bs d) = map_option blk_cell_size (bs_blocks ?bs0 d)"
    proof (cases "d \<in> ?B")
      case True
      then have g: "block_good (lv ?m0) (la_cell_size la) ?bs0 d" "block_good (lv m) (la_cell_size la) bs d"
        using d lvok S(1-3) by (auto simp: la_ok_def)
      then obtain blk blk' where "bs_blocks ?bs0 d = Some blk" "bs_blocks bs d = Some blk'" "blk_cell_size blk = blk_cell_size blk'"
        unfolding block_good_def by metis
      then show ?thesis using good_same_cells [OF g] by simp
    next
      case False
      then show ?thesis using S(6) by (simp add: cells_of_def)
    qed
    then show "cells_of bs d = cells_of ?bs0 d" "map_option blk_cell_size (bs_blocks bs d) = map_option blk_cell_size (bs_blocks ?bs0 d)"
      by simp_all
  qed
  have blocks: "all_blocks ?sp = all_blocks sp - (?B - ?K)"
  proof (rule set_eqI)
    fix d
    have "d \<in> all_blocks ?sp \<longleftrightarrow> d \<in> ?K \<or> (\<exists>j lb. j \<noteq> i \<and> sp_allocators sp j = Some lb \<and> d \<in> set (la_blocks lb))"
      using S(3) by (auto simp: all_blocks_iff)
    moreover have "d \<in> all_blocks sp \<longleftrightarrow> d \<in> ?B \<or> (\<exists>j lb. j \<noteq> i \<and> sp_allocators sp j = Some lb \<and> d \<in> set (la_blocks lb))"
      using la by (metis all_blocks_iff option.inject)
    moreover have "d \<notin> ?B" if "j \<noteq> i" "sp_allocators sp j = Some lb" "d \<in> set (la_blocks lb)" for j lb
      using others [OF that(2,1)] that(3) by blast
    ultimately show "d \<in> all_blocks ?sp \<longleftrightarrow> d \<in> all_blocks sp - (?B - ?K)" using K by blast
  qed
  have bk: "d \<in> ?K \<or> d \<notin> ?B" if "d \<in> all_blocks ?sp" for d using that blocks by blast
  have cells: "all_cells ?sp = (\<Union>d \<in> all_blocks ?sp. cells_of ?bs0 d)"
    using kcells(1) bk by (auto simp: all_cells_def)
  then have csub: "all_cells ?sp \<subseteq> ?C" using blocks by (auto simp: all_cells_def)
  have marked_granule: "marked w q = marked w c" if "granule w q = granule w c" for w q c using that by (simp add: marked_def)
  have lvC: "lv m c = (if c \<in> cells_at sp i then survives ?m0 c else lv ?m0 c)" if "c \<in> ?C" for c
    using swept_cell(1) [OF sw4 that] .
  have live_in: "c \<in> all_cells ?sp" if c: "c \<in> ?C" "c \<in> cells_at sp i \<longrightarrow> survives ?m0 c" for c
  proof -
    obtain d where d: "d \<in> all_blocks sp" "c \<in> cells_of ?bs0 d" using c(1) by (auto simp: all_cells_def)
    have "d \<in> ?K" if "d \<in> ?B"
      using that d(2) c(2) ci by (auto simp: kept_def)
    then have "d \<in> all_blocks ?sp" using blocks d(1) by blast
    with cells d(2) show ?thesis by blast
  qed
  have live1: "live_cell ?sp c = (?L c \<and> (c \<in> cells_at sp i \<longrightarrow> mk ?m0 c))" for c
  proof (cases "c \<in> ?C")
    case True
    then show ?thesis using lvC [OF True] live_in [OF True] by (auto simp: live_cell_def survives_def)
  next
    case False
    then show ?thesis using csub by (auto simp: live_cell_def)
  qed
  have b1: "blocks_inv (live_cell ?sp) ?sp"
    unfolding blocks_inv_def
  proof (intro conjI allI impI)
    show "space_ok (sp_blocks ?sp) (all_blocks ?sp)" unfolding blocks using S(5) by simp
    show "table_ok (sp_size_table ?sp)" "distinct (sp_chain ?sp)" "set (sp_chain ?sp) = dom (sp_allocators ?sp)"
      using b la by (auto simp: blocks_inv_def)
  next
    fix j lb assume j: "sp_allocators ?sp j = Some lb"
    show "j < NUM_SIZE_CLASSES" "la_cell_size lb = sp_size_table ?sp ! j"
      using j b la S(2) by (auto simp: blocks_inv_def split: if_splits)
    show "la_ok (live_cell ?sp) (sp_blocks ?sp) lb"
    proof (cases "j = i")
      case True
      have "la_ok (live_cell ?sp) bs la'"
      proof (rule la_ok_frame [OF S(1) refl])
        fix d c assume d: "d \<in> set (la_blocks la')" "c \<in> cells_of bs d"
        then have "d \<in> all_blocks ?sp" using S(3) K blocks used(2) by auto
        then have "c \<in> all_cells ?sp" using d(2) by (auto simp: all_cells_def)
        then show "lv m c = live_cell ?sp c" by (simp add: live_cell_def)
      qed
      with True j show ?thesis by simp
    next
      case False
      with j have lb: "sp_allocators sp j = Some lb" by simp
      have "la_ok (live_cell ?sp) bs lb"
      proof (rule la_ok_frame [OF Lok [OF lb]])
        fix d assume d: "d \<in> set (la_blocks lb)"
        then have "d \<notin> ?B" using others [OF lb False] by blast
        then show "bs_blocks ?bs0 d = bs_blocks bs d" using S(6) by simp
        fix c assume "c \<in> cells_of ?bs0 d"
        then have "c \<in> cells_at sp j" using lb d by (auto simp: cells_at_def)
        then have "c \<notin> cells_at sp i" using cells_at_apart [OF b] False by blast
        then show "?L c = live_cell ?sp c" using live1 by simp
      qed
      then show ?thesis by simp
    qed
  next
    fix j k lb lc assume "sp_allocators ?sp j = Some lb" "sp_allocators ?sp k = Some lc" "j \<noteq> k"
    then show "set (la_blocks lb) \<inter> set (la_blocks lc) = {}"
      using b S(3) K others [of j lb] others [of k lc] by (auto simp: blocks_inv_def split: if_splits)
  qed
  have m1: "maps_inv ?sp"
    unfolding maps_inv_def
  proof (intro conjI allI impI)
    show "map_ok (sp_blocks ?sp) (gm_live (sp_mem ?sp))" "map_ok (sp_blocks ?sp) (gm_mark (sp_mem ?sp))"
      using maps swept_frame [OF S(4)] same_region_in [OF reg] reg by (simp_all add: maps_inv_def map_ok_def same_region_def)
    fix q assume "in_region (sp_blocks ?sp) q" "lv (sp_mem ?sp) q"
    then have q: "in_region ?bs0 q" "lv m q" using same_region_in [OF reg] by simp_all
    note gr = swept_frame(4) [OF S(4)]
    show "\<exists>c \<in> all_cells ?sp. granule (gm_live (sp_mem ?sp)) q = granule (gm_live (sp_mem ?sp)) c"
    proof (cases "\<exists>c \<in> cells_at sp i. granule (gm_live ?m0) q = granule (gm_live ?m0) c")
      case True
      then obtain c where c: "c \<in> cells_at sp i" "granule (gm_live ?m0) q = granule (gm_live ?m0) c" by blast
      have "c \<in> ?C" using c(1) sub ci by blast
      moreover have "lv m c" using q(2) marked_granule [of "gm_live m" q c] c(2) gr by simp
      ultimately have "c \<in> all_cells ?sp" using lvC live_in c(1) by simp
      then show ?thesis using c(2) gr by auto
    next
      case False
      then have "lv ?m0 q" using swept_other [OF sw4, of q] q maps by (auto simp: maps_inv_def map_ok_def)
      then obtain c where c: "c \<in> ?C" "granule (gm_live ?m0) q = granule (gm_live ?m0) c" using maps q(1) by (auto simp: maps_inv_def)
      then have "c \<in> all_cells ?sp" using False live_in by blast
      then show ?thesis using c(2) gr by auto
    qed
  qed
  have inv1: "space_inv ?sp" using b1 m1 by (simp add: space_inv_def)
  have cat: "cells_at ?sp j = cells_at sp j" if "j \<noteq> i" for j
  proof (cases "sp_allocators sp j")
    case (Some lb)
    have "cells_of bs d = cells_of ?bs0 d" if d: "d \<in> set (la_blocks lb)" for d
      using kcells(1) [of d] others [OF Some \<open>j \<noteq> i\<close>] d by blast
    then show ?thesis using Some that by (simp add: cells_at_def)
  qed (use that in \<open>simp add: cells_at_def\<close>)
  have csz: "cell_size_at ?sp c = cell_size_at sp c" if c: "c \<in> all_cells ?sp" for c
    using kcells(2) [OF bk [OF inv_cell(1) [OF b1 c]]] by (auto simp: cell_size_at_def split: option.splits)
  have bytes: "a' = a + bytes_in sp {c \<in> cells_at sp i. survives ?m0 c}" using S(7) live_bytes_eq [OF b la] by simp
  have mkC: "\<forall>c \<in> ?C. mk m c = (mk ?m0 c \<and> c \<notin> cells_at sp i)" using swept_cell(2) [OF sw4] by blast
  have hd: "\<forall>c. gm_cells m c = (if c \<in> cells_at sp i then swept_header ?m0 c else gm_cells ?m0 c)" using swept_headers [OF sw4] by blast
  have mono: "\<forall>p. in_region ?bs0 p \<longrightarrow> mk m p \<longrightarrow> mk ?m0 p"
    using swept_clears [OF sw4] maps by (simp add: maps_inv_def map_ok_def)
  from sw(1) bytes inv1 csub live1 mkC hd mono cat csz reg show ?thesis
    unfolding Let_def by (intro exI [of _ la'] exI [of _ a'] exI [of _ m] exI [of _ bs]) simp
qed

lemma white_state [simp]: "cell_state (force_set_state DEFINETELY_WHITE h) = DEFINETELY_WHITE"
  using tagged_bits(2) [OF states_small(3), of "base_vtable h"] by (simp add: cell_state_def force_set_state_def tp_set_tag_def)

text \<open>What a sweep of the cells \<open>D\<close> does to the space.\<close>

definition space_swept :: "nat set \<Rightarrow> gc_space \<Rightarrow> gc_space \<Rightarrow> bool" where
  "space_swept D sp sp' \<longleftrightarrow>
     space_inv sp' \<and> all_cells sp' \<subseteq> all_cells sp \<and>
     (\<forall>c. live_cell sp' c = (live_cell sp c \<and> (c \<in> D \<longrightarrow> mk (sp_mem sp) c))) \<and>
     (\<forall>c \<in> all_cells sp'. mk (sp_mem sp') c = (mk (sp_mem sp) c \<and> c \<notin> D)) \<and>
     (\<forall>p. in_region (sp_blocks sp) p \<longrightarrow> mk (sp_mem sp') p \<longrightarrow> mk (sp_mem sp) p) \<and>
     (\<forall>c \<in> D. in_region (sp_blocks sp) c \<and> \<not> mk (sp_mem sp') c) \<and>
     (\<forall>c. gm_cells (sp_mem sp') c = (if c \<in> D then swept_header (sp_mem sp) c else gm_cells (sp_mem sp) c)) \<and>
     (\<forall>c \<in> all_cells sp'. cell_size_at sp' c = cell_size_at sp c) \<and>
     sp_precise sp' = sp_precise sp \<and> sp_chain sp' = sp_chain sp \<and> dom (sp_allocators sp') = dom (sp_allocators sp) \<and>
     same_region (sp_blocks sp) (sp_blocks sp')"

lemma space_sweptD:
  assumes "space_swept D sp sp'"
  shows "space_inv sp'" "all_cells sp' \<subseteq> all_cells sp" "live_cell sp' c = (live_cell sp c \<and> (c \<in> D \<longrightarrow> mk (sp_mem sp) c))"
    "c \<in> all_cells sp' \<Longrightarrow> mk (sp_mem sp') c = (mk (sp_mem sp) c \<and> c \<notin> D)"
    "gm_cells (sp_mem sp') c = (if c \<in> D then swept_header (sp_mem sp) c else gm_cells (sp_mem sp) c)"
    "c \<in> all_cells sp' \<Longrightarrow> cell_size_at sp' c = cell_size_at sp c"
    "sp_precise sp' = sp_precise sp" "sp_chain sp' = sp_chain sp" "dom (sp_allocators sp') = dom (sp_allocators sp)"
    "same_region (sp_blocks sp) (sp_blocks sp')" "in_region (sp_blocks sp) c \<Longrightarrow> mk (sp_mem sp') c \<Longrightarrow> mk (sp_mem sp) c"
    "c \<in> D \<Longrightarrow> in_region (sp_blocks sp) c \<and> \<not> mk (sp_mem sp') c"
  using assms unfolding space_swept_def by blast+

lemma swept_same:
  assumes "space_swept D sp sp'" "c \<in> all_cells sp'" "c \<notin> D"
  shows "lv (sp_mem sp') c = lv (sp_mem sp) c" "survives (sp_mem sp') c = survives (sp_mem sp) c"
    "swept_header (sp_mem sp') c = swept_header (sp_mem sp) c" "sweepable (sp_mem sp') c = sweepable (sp_mem sp) c"
proof -
  note d = space_sweptD [OF assms(1)]
  have c: "c \<in> all_cells sp" using assms(2) d(2) by blast
  show lv: "lv (sp_mem sp') c = lv (sp_mem sp) c" using d(3) [of c] assms(2,3) c by (simp add: live_cell_def)
  show "survives (sp_mem sp') c = survives (sp_mem sp) c" "swept_header (sp_mem sp') c = swept_header (sp_mem sp) c"
    "sweepable (sp_mem sp') c = sweepable (sp_mem sp) c"
    using lv d(4) [OF assms(2)] d(5) [of c] assms(3) by (simp_all add: survives_def swept_header_def sweepable_def)
qed

lemma swept_sweepable:
  assumes "space_swept D sp sp'" "space_sweepable sp"
  shows "space_sweepable sp'"
  unfolding space_sweepable_def
proof
  fix c assume c: "c \<in> all_cells sp'"
  note d = space_sweptD [OF assms(1)]
  have old: "c \<in> all_cells sp" "sweepable (sp_mem sp) c" using c d(2) assms(2) by (auto simp: space_sweepable_def)
  show "sweepable (sp_mem sp') c"
  proof (cases "c \<in> D")
    case True
    have "lv (sp_mem sp') c = survives (sp_mem sp) c" using d(3) [of c] c old(1) True by (simp add: live_cell_def survives_def)
    then show ?thesis using True d(4) [OF c] d(5) [of c] old(2) by (auto simp: sweepable_def swept_header_def survives_def)
  next
    case False
    then show ?thesis using swept_same(4) [OF assms(1) c] old(2) by simp
  qed
qed

lemma space_swept_trans:
  assumes s: "space_swept D sp sp1" "space_swept E sp1 sp2" and sub: "E \<subseteq> all_cells sp1" "D \<inter> E = {}"
  shows "space_swept (D \<union> E) sp sp2"
  unfolding space_swept_def
proof (intro conjI allI ballI)
  note d = space_sweptD [OF s(1)] and e = space_sweptD [OF s(2)]
  have late: "c \<notin> D" "c \<in> all_cells sp1" if "c \<in> E" for c using that sub by auto
  show "space_inv sp2" "all_cells sp2 \<subseteq> all_cells sp" "sp_precise sp2 = sp_precise sp" "sp_chain sp2 = sp_chain sp"
    "dom (sp_allocators sp2) = dom (sp_allocators sp)" "same_region (sp_blocks sp) (sp_blocks sp2)"
    using d(2,7-10) e(1,2,7-10) by (auto simp: same_region_def)
  show "live_cell sp2 c = (live_cell sp c \<and> (c \<in> D \<union> E \<longrightarrow> mk (sp_mem sp) c))" for c
    using d(3) [of c] e(3) [of c] d(4) [of c] late [of c] by auto
  show "gm_cells (sp_mem sp2) c = (if c \<in> D \<union> E then swept_header (sp_mem sp) c else gm_cells (sp_mem sp) c)" for c
    using d(5) [of c] e(5) [of c] swept_same(3) [OF s(1)] late [of c] by auto
  have reg: "in_region (sp_blocks sp1) = in_region (sp_blocks sp)" by (rule same_region_in [OF d(10)])
  show "in_region (sp_blocks sp) p \<longrightarrow> mk (sp_mem sp2) p \<longrightarrow> mk (sp_mem sp) p" for p
    using d(11) [of p] e(11) [of p] reg by simp
  show "in_region (sp_blocks sp) c" if "c \<in> D \<union> E" for c
    using d(12) [of c] e(12) [of c] that reg by auto
  show "\<not> mk (sp_mem sp2) c" if "c \<in> D \<union> E" for c
    using d(12) [of c] e(11) [of c] e(12) [of c] that reg by auto
  fix c assume c: "c \<in> all_cells sp2"
  then have c1: "c \<in> all_cells sp1" using e(2) by blast
  show "mk (sp_mem sp2) c = (mk (sp_mem sp) c \<and> c \<notin> D \<union> E)" using d(4) [OF c1] e(4) [OF c] by auto
  show "cell_size_at sp2 c = cell_size_at sp c" using d(6) [OF c1] e(6) [OF c] by simp
qed

lemma sweep_allocators_spec:
  assumes "space_inv sp" "space_sweepable sp" "distinct is" "set is \<subseteq> dom (sp_allocators sp)"
  shows "\<exists>sp'. sweep_allocators is a sp =
      Some (a + bytes_in sp {c \<in> (\<Union>i \<in> set is. cells_at sp i). survives (sp_mem sp) c}, sp') \<and>
    space_swept (\<Union>i \<in> set is. cells_at sp i) sp sp'"
  using assms
proof (induction "is" arbitrary: a sp)
  case Nil
  then show ?case by (simp add: bytes_in_def space_swept_def same_region_def)
next
  case (Cons i "is")
  then obtain la where la: "sp_allocators sp i = Some la" by auto
  let ?D = "cells_at sp i"
  obtain la' a1 m bs where one: "la_sweep la a (sp_mem sp) (sp_blocks sp) = Some (la', a1, m, bs)"
    "a1 = a + bytes_in sp {c \<in> ?D. survives (sp_mem sp) c}"
    "let sp1 = sp\<lparr>sp_allocators := (sp_allocators sp)(i \<mapsto> la'), sp_mem := m, sp_blocks := bs\<rparr> in
       space_inv sp1 \<and> all_cells sp1 \<subseteq> all_cells sp \<and>
       (\<forall>c. live_cell sp1 c = (live_cell sp c \<and> (c \<in> ?D \<longrightarrow> mk (sp_mem sp) c))) \<and>
       (\<forall>c \<in> all_cells sp. mk m c = (mk (sp_mem sp) c \<and> c \<notin> ?D)) \<and>
       (\<forall>c. gm_cells m c = (if c \<in> ?D then swept_header (sp_mem sp) c else gm_cells (sp_mem sp) c)) \<and>
       (\<forall>p. in_region (sp_blocks sp) p \<longrightarrow> mk m p \<longrightarrow> mk (sp_mem sp) p) \<and>
       (\<forall>j. j \<noteq> i \<longrightarrow> cells_at sp1 j = cells_at sp j) \<and> (\<forall>c \<in> all_cells sp1. cell_size_at sp1 c = cell_size_at sp c) \<and>
       same_region (sp_blocks sp) bs"
    using sweep_one [OF Cons.prems(1,2) la, of a] by blast
  define sp1 where "sp1 = sp\<lparr>sp_allocators := (sp_allocators sp)(i \<mapsto> la'), sp_mem := m, sp_blocks := bs\<rparr>"
  have b: "blocks_inv (live_cell sp) sp" using Cons.prems(1) by (simp add: space_inv_def)
  have D: "c \<in> all_cells sp \<and> in_region (sp_blocks sp) c" if "c \<in> ?D" for c
  proof -
    have "c \<in> all_cells sp" using that unfolding all_cells_iff by blast
    then show ?thesis using inv_cell(6) [OF b] by blast
  qed
  have sw1: "space_swept ?D sp sp1"
    using one(3) la D unfolding space_swept_def Let_def by (auto simp: sp1_def)
  have cat: "\<And>j. j \<noteq> i \<Longrightarrow> cells_at sp1 j = cells_at sp j"
    using one(3) by (simp add: Let_def sp1_def)
  note d1 = space_sweptD [OF sw1]
  have dist: "distinct is" "set is \<subseteq> dom (sp_allocators sp1)" using Cons.prems(3,4) d1(9) by auto
  obtain sp2 where sp2: "sweep_allocators is a1 sp1 =
      Some (a1 + bytes_in sp1 {c \<in> (\<Union>j \<in> set is. cells_at sp1 j). survives (sp_mem sp1) c}, sp2)"
    "space_swept (\<Union>j \<in> set is. cells_at sp1 j) sp1 sp2"
    using Cons.IH [OF d1(1) swept_sweepable [OF sw1 Cons.prems(2)] dist, of a1] by blast
  let ?E = "\<Union>j \<in> set is. cells_at sp j"
  have E: "(\<Union>j \<in> set is. cells_at sp1 j) = ?E"
  proof (rule SUP_cong [OF refl])
    fix j assume "j \<in> set is"
    then have "j \<noteq> i" using Cons.prems(3) by auto
    then show "cells_at sp1 j = cells_at sp j" by (rule cat)
  qed
  have Esub: "?E \<subseteq> all_cells sp1" unfolding E [symmetric] by (auto simp: all_cells_iff)
  have apart: "?D \<inter> ?E = {}" using cells_at_apart [OF b] Cons.prems(3) by auto
  have sw2: "space_swept (?D \<union> ?E) sp sp2"
    using space_swept_trans [OF sw1 sp2(2) _ ] Esub apart unfolding E by blast
  have surv: "{c \<in> ?E. survives (sp_mem sp1) c} = {c \<in> ?E. survives (sp_mem sp) c}"
    using swept_same(2) [OF sw1] Esub apart by blast
  have "bytes_in sp1 {c \<in> ?E. survives (sp_mem sp) c} = bytes_in sp {c \<in> ?E. survives (sp_mem sp) c}"
    unfolding bytes_in_def using d1(6) Esub by (intro sum.cong) auto
  moreover have "bytes_in sp ({c \<in> ?D. survives (sp_mem sp) c} \<union> {c \<in> ?E. survives (sp_mem sp) c}) =
      bytes_in sp {c \<in> ?D. survives (sp_mem sp) c} + bytes_in sp {c \<in> ?E. survives (sp_mem sp) c}"
    unfolding bytes_in_def
  proof (rule sum.union_disjoint)
    have "?D \<union> ?E \<subseteq> all_cells sp" by (auto simp: all_cells_iff)
    then show "finite {c \<in> ?D. survives (sp_mem sp) c}" "finite {c \<in> ?E. survives (sp_mem sp) c}"
      using finite_cells [OF b] by (auto intro: finite_subset)
  qed (use apart in blast)
  moreover have "{c \<in> ?D. survives (sp_mem sp) c} \<union> {c \<in> ?E. survives (sp_mem sp) c} = {c \<in> ?D \<union> ?E. survives (sp_mem sp) c}"
    by blast
  moreover have "sweep_allocators (i # is) a sp = sweep_allocators is a1 sp1"
    using la one(1) by (simp add: sp1_def)
  then have "sweep_allocators (i # is) a sp = Some (a1 + bytes_in sp1 {c \<in> ?E. survives (sp_mem sp) c}, sp2)"
    using sp2(1) unfolding E surv by simp
  ultimately have "sweep_allocators (i # is) a sp = Some (a + bytes_in sp {c \<in> ?D \<union> ?E. survives (sp_mem sp) c}, sp2)"
    using one(2) by simp
  with sw2 show ?case by simp
qed

section \<open>The sweep of the space\<close>

definition large_apart :: "gc_space \<Rightarrow> bool" where
  "large_apart sp \<longleftrightarrow> (\<forall>a \<in> set (ls_allocations (sp_precise sp)). pa_cell a \<notin> all_cells sp)"

lemma space_sweep_spec:
  assumes "space_inv sp" "space_sweepable sp" "ls_ok (sp_precise sp) (gm_cells (sp_mem sp))" "large_apart sp"
  shows "\<exists>sp'. space_sweep sp =
      Some (bytes_in sp' {c. live_cell sp' c} + (\<Sum>a \<leftarrow> ls_allocations (sp_precise sp'). large_size (sp_precise sp') a), sp') \<and>
    (\<forall>c. live_cell sp' c = (live_cell sp c \<and> mk (sp_mem sp) c)) \<and>
    ls_allocations (sp_precise sp') = filter (ls_marked (sp_precise sp)) (ls_allocations (sp_precise sp)) \<and>
    (\<forall>c. live_cell sp' c \<longrightarrow> \<not> mk (sp_mem sp') c \<and> cell_size_at sp' c = cell_size_at sp c \<and>
       gm_cells (sp_mem sp') c = map_option (force_set_state DEFINETELY_WHITE) (gm_cells (sp_mem sp) c)) \<and>
    (\<forall>a \<in> set (ls_allocations (sp_precise sp')).
       gm_cells (sp_mem sp') (pa_cell a) = map_option (force_set_state DEFINETELY_WHITE) (gm_cells (sp_mem sp) (pa_cell a))) \<and>
    (\<forall>c \<in> all_cells sp. \<not> mk (sp_mem sp') c) \<and>
    (\<forall>p. in_region (sp_blocks sp) p \<longrightarrow> mk (sp_mem sp') p \<longrightarrow> mk (sp_mem sp) p) \<and> same_region (sp_blocks sp) (sp_blocks sp') \<and>
    space_inv sp' \<and> space_sweepable sp' \<and> ls_ok (sp_precise sp') (gm_cells (sp_mem sp')) \<and> large_apart sp'"
proof -
  let ?ls = "sp_precise sp" and ?cells = "gm_cells (sp_mem sp)"
  let ?n = "\<Sum>a \<leftarrow> filter (ls_marked ?ls) (ls_allocations ?ls). large_size ?ls a"
  obtain ls1 cells1 where large: "ls_sweep ?ls ?cells = Some (?n, ls1, cells1)"
    "ls_allocations ls1 = filter (ls_marked ?ls) (ls_allocations ?ls)" "ls_ok ls1 cells1"
    "\<forall>a \<in> set (ls_allocations ls1). large_size ls1 a = large_size ?ls a \<and>
       cells1 (pa_cell a) = map_option (force_set_state DEFINETELY_WHITE) (?cells (pa_cell a))"
    "\<forall>c. c \<notin> pa_cell ` set (ls_allocations ?ls) \<longrightarrow> cells1 c = ?cells c"
    using large_sweep_facts [OF assms(3)] by blast
  have n: "?n = (\<Sum>a \<leftarrow> ls_allocations ls1. large_size ls1 a)"
    using large(2,4) by (auto intro!: arg_cong [where f = sum_list])
  define sp0 where "sp0 = sp\<lparr>sp_precise := ls1, sp_mem := (sp_mem sp)\<lparr>gm_cells := cells1\<rparr>\<rparr>"
  have e0: "all_cells sp0 = all_cells sp" "live_cell sp0 = live_cell sp" "cell_size_at sp0 = cell_size_at sp" "all_blocks sp0 = all_blocks sp"
    by (simp_all add: sp0_def all_cells_def all_blocks_def live_cell_def [abs_def] cell_size_at_def [abs_def])
  have f0: "sp_blocks sp0 = sp_blocks sp" "gm_live (sp_mem sp0) = gm_live (sp_mem sp)" "gm_mark (sp_mem sp0) = gm_mark (sp_mem sp)"
    "sp_chain sp0 = sp_chain sp" "sp_allocators sp0 = sp_allocators sp" "sp_precise sp0 = ls1" "gm_cells (sp_mem sp0) = cells1"
    "sp_size_table sp0 = sp_size_table sp"
    by (simp_all add: sp0_def)
  have inv0: "space_inv sp0" using assms(1) by (simp add: space_inv_def blocks_inv_def maps_inv_def e0 f0)
  have same: "cells1 c = ?cells c" if "c \<in> all_cells sp" for c
    
  proof -
    have "c \<notin> pa_cell ` set (ls_allocations ?ls)"
    proof
      assume "c \<in> pa_cell ` set (ls_allocations ?ls)"
      then obtain a where "a \<in> set (ls_allocations ?ls)" "c = pa_cell a" by (elim imageE)
      with assms(4) that show False by (simp add: large_apart_def)
    qed
    with large(5) show ?thesis by simp
  qed
  have sw0: "space_sweepable sp0"
    using assms(2) same by (simp add: space_sweepable_def sweepable_def e0 f0)
  have chain: "distinct (sp_chain sp0)" "set (sp_chain sp0) = dom (sp_allocators sp0)"
    using inv0 by (simp_all add: space_inv_def blocks_inv_def)
  have D: "(\<Union>i \<in> set (sp_chain sp0). cells_at sp0 i) = all_cells sp0"
    unfolding chain(2) by (rule all_cells_at)
  obtain sp' where sp': "sweep_allocators (sp_chain sp0) ?n sp0 =
      Some (?n + bytes_in sp0 {c \<in> all_cells sp0. survives (sp_mem sp0) c}, sp')" "space_swept (all_cells sp0) sp0 sp'"
    using sweep_allocators_spec [OF inv0 sw0 chain(1), of ?n] chain(2) unfolding D by auto
  note d = space_sweptD [OF sp'(2)]
  have live: "live_cell sp' c = (live_cell sp c \<and> mk (sp_mem sp) c)" for c
    using d(3) [of c] e0 f0 by (auto simp: live_cell_def)
  have alive: "c \<in> all_cells sp'" "c \<in> all_cells sp" if "live_cell sp' c" for c
    using that live [of c] by (auto simp: live_cell_def)
  have "{c \<in> all_cells sp0. survives (sp_mem sp0) c} = {c. live_cell sp' c}"
    using live e0 f0 by (auto simp: live_cell_def survives_def)
  moreover have "bytes_in sp0 {c. live_cell sp' c} = bytes_in sp' {c. live_cell sp' c}"
    unfolding bytes_in_def using d(6) alive(1) by (intro sum.cong) auto
  ultimately have "space_sweep sp = Some (bytes_in sp' {c. live_cell sp' c} + (\<Sum>a \<leftarrow> ls_allocations (sp_precise sp'). large_size (sp_precise sp') a), sp')"
    using large(1) sp'(1) n d(7) f0(4,6) by (simp add: space_sweep_def sp0_def)
  moreover have "\<not> mk (sp_mem sp') c \<and> cell_size_at sp' c = cell_size_at sp c \<and>
      gm_cells (sp_mem sp') c = map_option (force_set_state DEFINETELY_WHITE) (?cells c)" if "live_cell sp' c" for c
    using d(4-6) [of c] alive [OF that] e0 f0 same [of c] that live [of c]
    by (auto simp: swept_header_def survives_def live_cell_def)
  moreover have "large_apart sp'"
    using assms(4) large(2) d(2,7) e0 f0 by (auto simp: large_apart_def)
  moreover have lc: "gm_cells (sp_mem sp') (pa_cell a) = cells1 (pa_cell a)" if "a \<in> set (ls_allocations ls1)" for a
    using d(5) [of "pa_cell a"] assms(4) large(2) that e0 f0 by (auto simp: large_apart_def)
  moreover have "ls_ok (sp_precise sp') (gm_cells (sp_mem sp'))"
    using lc large(3) d(7) f0 by (simp add: ls_ok_def)
  moreover have "\<forall>a \<in> set (ls_allocations (sp_precise sp')).
      gm_cells (sp_mem sp') (pa_cell a) = map_option (force_set_state DEFINETELY_WHITE) (?cells (pa_cell a))"
    using lc large(4) d(7) f0 by simp
  moreover have "\<forall>c \<in> all_cells sp. \<not> mk (sp_mem sp') c" using d(12) e0 by simp
  moreover have "\<forall>p. in_region (sp_blocks sp) p \<longrightarrow> mk (sp_mem sp') p \<longrightarrow> mk (sp_mem sp) p" using d(11) f0 by simp
  moreover have "same_region (sp_blocks sp) (sp_blocks sp')" using d(10) f0 by simp
  ultimately show ?thesis
    using live large(2) d(1,7) f0 swept_sweepable [OF sp'(2) sw0] by (intro exI [of _ sp']) simp
qed

text \<open>
  C13. A sweep frees exactly the unmarked objects: it returns without a failed assertion; afterwards
  a small cell is live exactly if it was live and marked, a large object is kept exactly if it was
  marked, the surviving small cells are unmarked and white with the vtable they had, the result is
  the size of everything that survived, and the invariant of the space holds, ready for the next
  allocation and the next sweep.
\<close>

theorem space_sweep_exact:
  assumes "space_inv sp" "space_sweepable sp" "ls_ok (sp_precise sp) (gm_cells (sp_mem sp))" "large_apart sp"
  shows "\<exists>sp'. space_sweep sp =
      Some (bytes_in sp' {c. live_cell sp' c} + (\<Sum>a \<leftarrow> ls_allocations (sp_precise sp'). large_size (sp_precise sp') a), sp') \<and>
    (\<forall>c. live_cell sp' c = (live_cell sp c \<and> mk (sp_mem sp) c)) \<and>
    ls_allocations (sp_precise sp') = filter (ls_marked (sp_precise sp)) (ls_allocations (sp_precise sp)) \<and>
    (\<forall>c. live_cell sp' c \<longrightarrow> \<not> mk (sp_mem sp') c \<and> cell_size_at sp' c = cell_size_at sp c \<and>
       gm_cells (sp_mem sp') c = map_option (force_set_state DEFINETELY_WHITE) (gm_cells (sp_mem sp) c)) \<and>
    (\<forall>a \<in> set (ls_allocations (sp_precise sp')).
       gm_cells (sp_mem sp') (pa_cell a) = map_option (force_set_state DEFINETELY_WHITE) (gm_cells (sp_mem sp) (pa_cell a))) \<and>
    (\<forall>c \<in> all_cells sp. \<not> mk (sp_mem sp') c) \<and>
    (\<forall>p. in_region (sp_blocks sp) p \<longrightarrow> mk (sp_mem sp') p \<longrightarrow> mk (sp_mem sp) p) \<and> same_region (sp_blocks sp) (sp_blocks sp') \<and>
    space_inv sp' \<and> space_sweepable sp' \<and> ls_ok (sp_precise sp') (gm_cells (sp_mem sp')) \<and> large_apart sp'"
  using assms by (rule space_sweep_spec)

end
