(* ===== verification/Gc_Heap.thy ===== *)
theory Gc_Heap
  imports Space_Sweep
begin

text \<open>
  The heap and the collector (gc.rs): allocation, the marker \<open>SlotVisitor\<close>, a collection, weak
  references and the walks over the heap. The parameters are what the collector calls or reads
  outside of it: \<open>trace\<close>, the cells the \<open>trace\<close> method of an object visits, in order; \<open>roots\<close>, the
  cells each marking constraint visits; \<open>word_at\<close>, the words of the stack; \<open>mi\<close>, whether mimalloc
  knows an address; \<open>spur\<close>, whether the n-th weak compare-exchange fails spuriously. Marking is the
  sequential one; the thread pool is not modelled. An access to a header where no object is has
  undefined behaviour and is \<^term>\<open>None\<close> here, as a panic is.
\<close>

record gc_heap =
  hp_space :: gc_space
  hp_allocated :: nat
  hp_max_heap_size :: nat
  hp_defers :: nat
  hp_weak_refs :: "nat list"
  hp_weak_value :: "nat \<Rightarrow> nat option"
  hp_allocation_color :: u64

definition heap_new :: "nat \<Rightarrow> nat \<Rightarrow> (nat \<Rightarrow> nat) \<Rightarrow> gc_heap panics option" where
  "heap_new start heap_size approx =
     map_option (map_option (\<lambda>sp.
       \<lparr>hp_space = sp, hp_allocated = 0, hp_max_heap_size = 256 * 1024, hp_defers = 0, hp_weak_refs = [],
        hp_weak_value = (\<lambda>_. None), hp_allocation_color = DEFINETELY_WHITE\<rparr>))
     (space_new start heap_size approx)"

definition put_header :: "nat \<Rightarrow> gc_pointer_base \<Rightarrow> gc_space \<Rightarrow> gc_space" where
  "put_header c h sp = sp\<lparr>sp_mem := (sp_mem sp)\<lparr>gm_cells := (gm_cells (sp_mem sp))(c \<mapsto> h)\<rparr>\<rparr>"
definition header_of :: "gc_space \<Rightarrow> nat \<Rightarrow> gc_pointer_base option" where
  "header_of sp c = gm_cells (sp_mem sp) c"

section \<open>Marking\<close>

record visitor =
  vs_queue :: "nat list"
  vs_space :: gc_space
  vs_tick :: nat

definition visitor_new :: "gc_space \<Rightarrow> visitor" where
  "visitor_new sp = \<lparr>vs_queue = [], vs_space = sp, vs_tick = 0\<rparr>"

text \<open>\<open>visit_raw\<close>; the body of \<open>visit\<close> is the same.\<close>

definition visit_raw :: "(nat \<Rightarrow> bool) \<Rightarrow> (nat \<Rightarrow> bool) \<Rightarrow> nat \<Rightarrow> visitor \<Rightarrow> visitor panics" where
  "visit_raw spur mi cell v = do {
     known \<leftarrow> is_heap_pointer mi (vs_space v) cell;
     if \<not> known then Some v
     else
       (case header_of (vs_space v) cell of
          None \<Rightarrow> None
        | Some base \<Rightarrow>
            (let (ok, base') = set_state (spur (vs_tick v)) DEFINETELY_WHITE POSSIBLY_GREY base;
                 v1 = v\<lparr>vs_space := put_header cell base' (vs_space v), vs_tick := vs_tick v + 1\<rparr>
             in if \<not> ok then Some v1
                else do {
                  (_, sp) \<leftarrow> space_mark cell (vs_space v1);
                  Some (v1\<lparr>vs_space := sp, vs_queue := vs_queue v1 @ [cell]\<rparr>) })) }"
fun visit_list :: "(nat \<Rightarrow> bool) \<Rightarrow> (nat \<Rightarrow> bool) \<Rightarrow> nat list \<Rightarrow> visitor \<Rightarrow> visitor panics" where
  "visit_list spur mi [] v = Some v"
| "visit_list spur mi (c # cs) v = do { v' \<leftarrow> visit_raw spur mi c v; visit_list spur mi cs v' }"

text \<open>The loop of \<open>add_conservative\<close>: \<open>to\<close> is \<open>end - size_of::<usize>()\<close>.\<close>

function scan_words :: "(nat \<Rightarrow> bool) \<Rightarrow> (nat \<Rightarrow> bool) \<Rightarrow> (nat \<Rightarrow> nat) \<Rightarrow> nat \<Rightarrow> nat \<Rightarrow> visitor \<Rightarrow> visitor panics" where
  "scan_words spur mi word_at scan to v =
     (if scan < to then
        (let ptr = word_at scan in
         do {
           known \<leftarrow> is_heap_pointer mi (vs_space v) ptr;
           v' \<leftarrow> (if known then visit_raw spur mi ptr v else Some v);
           scan_words spur mi word_at (scan + 8) to v' })
      else Some v)"
  by pat_completeness auto
termination by (relation "measure (\<lambda>(spur, mi, word_at, scan, to, v). to - scan)") auto

declare scan_words.simps [simp del]

definition add_conservative ::
  "(nat \<Rightarrow> bool) \<Rightarrow> (nat \<Rightarrow> bool) \<Rightarrow> (nat \<Rightarrow> nat) \<Rightarrow> nat \<Rightarrow> nat \<Rightarrow> visitor \<Rightarrow> visitor panics" where
  "add_conservative spur mi word_at from to v =
     (let scan = min from to; e = max from to in
      if e < 8 then None else scan_words spur mi word_at scan (e - 8) v)"

definition pop_grey :: "(nat \<Rightarrow> bool) \<Rightarrow> visitor \<Rightarrow> (nat \<times> visitor) panics" where
  "pop_grey spur v =
     (let ptr = last (vs_queue v) in
      case header_of (vs_space v) ptr of
        None \<Rightarrow> None
      | Some base \<Rightarrow>
          Some (ptr, v\<lparr>vs_queue := butlast (vs_queue v),
             vs_space := put_header ptr (snd (set_state (spur (vs_tick v)) POSSIBLY_GREY POSSIBLY_BLACK base)) (vs_space v),
             vs_tick := vs_tick v + 1\<rparr>))"

text \<open>The loop ends when the queue is empty; the outer \<^term>\<open>None\<close> is a loop that does not end.\<close>

partial_function (option) process_worklist ::
  "(nat \<Rightarrow> bool) \<Rightarrow> (nat \<Rightarrow> bool) \<Rightarrow> (nat \<Rightarrow> nat list) \<Rightarrow> visitor \<Rightarrow> visitor panics option" where
  "process_worklist spur mi trace v =
     (if vs_queue v = [] then Some (Some v)
      else
        (case pop_grey spur v of
           None \<Rightarrow> Some None
         | Some (ptr, v1) \<Rightarrow>
             (case visit_list spur mi (trace ptr) v1 of
                None \<Rightarrow> Some None
              | Some v2 \<Rightarrow> process_worklist spur mi trace v2)))"

section \<open>A collection\<close>

fun update_weak :: "space_bitmap \<Rightarrow> nat list \<Rightarrow> (nat \<Rightarrow> nat option) \<Rightarrow> (nat \<Rightarrow> nat option) panics" where
  "update_weak b [] val = Some val"
| "update_weak b (w # ws) val =
     (case val w of
        None \<Rightarrow> update_weak b ws (val(w := None))
      | Some t \<Rightarrow> do { live \<leftarrow> bm_test b t; update_weak b ws (if live then val else val(w := None)) })"
fun retain_weak :: "space_bitmap \<Rightarrow> nat list \<Rightarrow> nat list panics" where
  "retain_weak b [] = Some []"
| "retain_weak b (w # ws) = do { live \<leftarrow> bm_test b w; r \<leftarrow> retain_weak b ws; Some (if live then w # r else r) }"

text \<open>\<open>(allocated as f64 * 1.5) as usize\<close>, which is exact for sizes below \<open>2 ^ 51\<close>.\<close>

definition new_threshold :: "nat \<Rightarrow> nat" where
  "new_threshold allocated = allocated * 3 div 2"

definition finish_collection :: "visitor \<Rightarrow> gc_heap \<Rightarrow> gc_heap panics" where
  "finish_collection v hp = do {
     let marks = gm_mark (sp_mem (vs_space v));
     val \<leftarrow> update_weak marks (hp_weak_refs hp) (hp_weak_value hp);
     refs \<leftarrow> retain_weak marks (hp_weak_refs hp);
     (allocated, sp) \<leftarrow> space_sweep (vs_space v);
     Some (hp\<lparr>hp_space := sp, hp_weak_value := val, hp_weak_refs := refs, hp_allocated := allocated,
              hp_max_heap_size := (if allocated > hp_max_heap_size hp then new_threshold allocated else hp_max_heap_size hp)\<rparr>) }"
definition collect_internal ::
  "(nat \<Rightarrow> bool) \<Rightarrow> (nat \<Rightarrow> bool) \<Rightarrow> (nat \<Rightarrow> nat list) \<Rightarrow> (nat \<Rightarrow> nat) \<Rightarrow> nat \<Rightarrow> nat \<Rightarrow> nat list list \<Rightarrow> gc_heap \<Rightarrow> gc_heap panics option" where
  "collect_internal spur mi trace word_at origin sp roots hp =
     (if hp_defers hp > 0 then Some (Some hp)
      else
        (case add_conservative spur mi word_at origin sp (visitor_new (hp_space hp)) of
           None \<Rightarrow> Some None
         | Some v1 \<Rightarrow>
             (case visit_list spur mi (concat roots) v1 of
                None \<Rightarrow> Some None
              | Some v2 \<Rightarrow> map_option (\<lambda>r. r \<bind> (\<lambda>v. finish_collection v hp)) (process_worklist spur mi trace v2))))"
definition collect_if_necessary ::
  "(nat \<Rightarrow> bool) \<Rightarrow> (nat \<Rightarrow> bool) \<Rightarrow> (nat \<Rightarrow> nat list) \<Rightarrow> (nat \<Rightarrow> nat) \<Rightarrow> nat \<Rightarrow> nat \<Rightarrow> nat list list \<Rightarrow> gc_heap \<Rightarrow> gc_heap panics option" where
  "collect_if_necessary spur mi trace word_at origin sp roots hp =
     (if hp_allocated hp \<ge> hp_max_heap_size hp then collect_internal spur mi trace word_at origin sp roots hp else Some (Some hp))"
definition heap_defer :: "gc_heap \<Rightarrow> gc_heap" where
  "heap_defer hp = hp\<lparr>hp_defers := hp_defers hp + 1\<rparr>"
definition heap_undefer :: "gc_heap \<Rightarrow> gc_heap panics" where
  "heap_undefer hp = (if hp_defers hp = 0 then None else Some (hp\<lparr>hp_defers := hp_defers hp - 1\<rparr>))"

section \<open>Allocation\<close>

definition BASE_SIZE :: nat where "BASE_SIZE = 16"

definition heap_allocate :: "(nat \<Rightarrow> nat) \<Rightarrow> nat \<Rightarrow> u64 \<Rightarrow> u64 \<Rightarrow> gc_heap \<Rightarrow> (nat \<times> gc_heap) panics" where
  "heap_allocate malloc sz vtable type_id hp = do {
     (ptr, th, sp) \<leftarrow> space_allocate malloc (sz + 16) (hp_allocated hp) (hp_space hp);
     if ptr = 0 then None
     else Some (ptr, hp\<lparr>hp_allocated := th,
       hp_space := put_header ptr (force_set_state (hp_allocation_color hp) (base_new vtable type_id)) sp\<rparr>) }"
definition allocate_raw :: "(nat \<Rightarrow> nat) \<Rightarrow> u64 \<Rightarrow> nat \<Rightarrow> u64 \<Rightarrow> gc_heap \<Rightarrow> (nat \<times> gc_heap) panics" where
  "allocate_raw malloc vtable sz type_id hp = heap_allocate malloc (sz + BASE_SIZE) vtable type_id hp"

text \<open>\<open>allocate\<close> of a value whose \<open>compute_size\<close> is \<open>sz\<close>; the value itself belongs to the object.\<close>

definition allocate_value :: "(nat \<Rightarrow> nat) \<Rightarrow> u64 \<Rightarrow> nat \<Rightarrow> u64 \<Rightarrow> gc_heap \<Rightarrow> (nat \<times> gc_heap) panics" where
  "allocate_value malloc vtable sz type_id hp = allocate_raw malloc vtable (sz + BASE_SIZE) type_id hp"

text \<open>A \<open>WeakSlot\<close> holds an optional \<open>GcPointer\<close>, which is one pointer.\<close>

definition WEAK_SIZE :: nat where "WEAK_SIZE = 8"
definition make_weak :: "(nat \<Rightarrow> nat) \<Rightarrow> u64 \<Rightarrow> u64 \<Rightarrow> nat option \<Rightarrow> gc_heap \<Rightarrow> (nat \<times> gc_heap) panics" where
  "make_weak malloc vtable type_id target hp = do {
     (weak, hp1) \<leftarrow> allocate_value malloc vtable WEAK_SIZE type_id hp;
     Some (weak, hp1\<lparr>hp_weak_refs := hp_weak_refs hp1 @ [weak], hp_weak_value := (hp_weak_value hp1)(weak := target)\<rparr>) }"

section \<open>Walks\<close>

partial_function (option) drain ::
  "(nat \<Rightarrow> bool) \<Rightarrow> (nat \<Rightarrow> bool) \<Rightarrow> (nat \<Rightarrow> nat list) \<Rightarrow> nat list \<Rightarrow> visitor \<Rightarrow> (nat list \<times> visitor) panics option" where
  "drain spur mi trace ptrs v =
     (if vs_queue v = [] then Some (Some (ptrs, v))
      else
        (case pop_grey spur v of
           None \<Rightarrow> Some None
         | Some (ptr, v1) \<Rightarrow>
             (case visit_list spur mi (trace ptr) v1 of
                None \<Rightarrow> Some None
              | Some v2 \<Rightarrow> drain spur mi trace (ptrs @ [ptr]) v2)))"
fun whiten :: "(nat \<Rightarrow> bool) \<Rightarrow> nat list \<Rightarrow> visitor \<Rightarrow> visitor panics" where
  "whiten spur [] v = Some v"
| "whiten spur (c # cs) v =
     (case header_of (vs_space v) c of
        None \<Rightarrow> None
      | Some base \<Rightarrow>
          whiten spur cs (v\<lparr>vs_space := put_header c (snd (set_state (spur (vs_tick v)) POSSIBLY_BLACK DEFINETELY_WHITE base)) (vs_space v),
                            vs_tick := vs_tick v + 1\<rparr>))"

text \<open>\<open>walk_in_context\<close>: the callback is called on the result, in order.\<close>

definition walk_in_context ::
  "(nat \<Rightarrow> bool) \<Rightarrow> (nat \<Rightarrow> bool) \<Rightarrow> (nat \<Rightarrow> nat list) \<Rightarrow> nat \<Rightarrow> gc_heap \<Rightarrow> (nat list \<times> gc_heap) panics option" where
  "walk_in_context spur mi trace context hp =
     (case visit_list spur mi (trace context) (visitor_new (hp_space hp)) of
        None \<Rightarrow> Some None
      | Some v1 \<Rightarrow>
          map_option (\<lambda>r. do {
              (ptrs, v2) \<leftarrow> r;
              v3 \<leftarrow> whiten spur (rev ptrs) v2;
              Some (rev ptrs, hp\<lparr>hp_space := vs_space v3\<rparr>) })
            (drain spur mi trace [] v1))"

end
