(* ===== verification/Mark_Worklist.thy ===== *)
theory Mark_Worklist
  imports Starlight_Prelude
begin

text \<open>
  Marking with a worklist. The collector relies on two operations of its marker: a visit greys a
  white object and queues it, and a pop takes the last queued object and blackens it. From these
  laws the locale derives that a run ends with exactly the reachable objects black.
\<close>

datatype colour = White | Grey | Black

inductive_set reachable :: "(nat \<Rightarrow> bool) \<Rightarrow> (nat \<Rightarrow> nat list) \<Rightarrow> nat set \<Rightarrow> nat set" for obj trace roots where
  root: "r \<in> roots \<Longrightarrow> obj r \<Longrightarrow> r \<in> reachable obj trace roots"
| child: "c \<in> reachable obj trace roots \<Longrightarrow> d \<in> set (trace c) \<Longrightarrow> obj d \<Longrightarrow> d \<in> reachable obj trace roots"

lemma reachable_obj: "c \<in> reachable obj trace roots \<Longrightarrow> obj c"
  by (induction rule: reachable.induct) auto

text \<open>A set of objects that has the roots and is closed under \<open>trace\<close> has everything reachable.\<close>

lemma reachable_least:
  assumes "\<And>r. r \<in> roots \<Longrightarrow> obj r \<Longrightarrow> r \<in> B" "\<And>c d. c \<in> B \<Longrightarrow> d \<in> set (trace c) \<Longrightarrow> obj d \<Longrightarrow> d \<in> B"
  shows "reachable obj trace roots \<subseteq> B"
proof
  fix c assume "c \<in> reachable obj trace roots"
  then show "c \<in> B" by (induction rule: reachable.induct) (use assms in auto)
qed

locale worklist =
  fixes inv :: "'s \<Rightarrow> bool" and obj :: "'s \<Rightarrow> nat \<Rightarrow> bool" and exact :: "'s \<Rightarrow> nat \<Rightarrow> bool"
    and colour :: "'s \<Rightarrow> nat \<Rightarrow> colour" and queue :: "'s \<Rightarrow> nat list" and trace :: "nat \<Rightarrow> nat list"
    and visit :: "nat \<Rightarrow> 's \<Rightarrow> 's option" and pop :: "'s \<Rightarrow> (nat \<times> 's) option"
  assumes finite_objects: "inv s \<Longrightarrow> finite {c. obj s c}"
    and trace_exact: "inv s \<Longrightarrow> obj s c \<Longrightarrow> d \<in> set (trace c) \<Longrightarrow> exact s d"
    and visit_spec: "inv s \<Longrightarrow> exact s c \<Longrightarrow>
      \<exists>s'. visit c s = Some s' \<and> inv s' \<and> obj s' = obj s \<and> exact s' = exact s \<and>
        (if obj s c \<and> colour s c = White then colour s' = (colour s)(c := Grey) \<and> queue s' = queue s @ [c]
         else colour s' = colour s \<and> queue s' = queue s)"
    and pop_spec: "inv s \<Longrightarrow> queue s = q @ [c] \<Longrightarrow> obj s c \<Longrightarrow> colour s c = Grey \<Longrightarrow>
      \<exists>s'. pop s = Some (c, s') \<and> inv s' \<and> obj s' = obj s \<and> exact s' = exact s \<and>
        colour s' = (colour s)(c := Black) \<and> queue s' = q"
begin

fun visit_all :: "nat list \<Rightarrow> 's \<Rightarrow> 's option" where
  "visit_all [] s = Some s"
| "visit_all (c # cs) s = do { s' \<leftarrow> visit c s; visit_all cs s' }"
fun run :: "nat \<Rightarrow> 's \<Rightarrow> 's option" where
  "run 0 s = None"
| "run (Suc n) s =
     (if queue s = [] then Some s else do { (c, s1) \<leftarrow> pop s; s2 \<leftarrow> visit_all (trace c) s1; run n s2 })"

text \<open>The grey objects are the queued ones.\<close>

definition greys_queued :: "'s \<Rightarrow> bool" where
  "greys_queued s \<longleftrightarrow> distinct (queue s) \<and> (\<forall>c \<in> set (queue s). obj s c) \<and> (\<forall>c. obj s c \<longrightarrow> (colour s c = Grey \<longleftrightarrow> c \<in> set (queue s)))"
definition whites :: "'s \<Rightarrow> nat set" where
  "whites s = {c. obj s c \<and> colour s c = White}"

lemma visit_all_spec:
  assumes "inv s" "greys_queued s" "\<forall>c \<in> set cs. exact s c"
  shows "\<exists>s'. visit_all cs s = Some s' \<and> inv s' \<and> obj s' = obj s \<and> exact s' = exact s \<and> greys_queued s' \<and>
    (\<forall>c. obj s c \<longrightarrow> colour s' c = (if c \<in> set cs \<and> colour s c = White then Grey else colour s c))"
  using assms
proof (induction cs arbitrary: s)
  case (Cons c cs)
  then obtain s1 where s1: "visit c s = Some s1" "inv s1" "obj s1 = obj s" "exact s1 = exact s"
    "if obj s c \<and> colour s c = White then colour s1 = (colour s)(c := Grey) \<and> queue s1 = queue s @ [c]
     else colour s1 = colour s \<and> queue s1 = queue s"
    using visit_spec [of s c] by auto
  have g: "greys_queued s1"
  proof (cases "obj s c \<and> colour s c = White")
    case True
    then have "c \<notin> set (queue s)" using Cons.prems(2) by (auto simp: greys_queued_def)
    with True s1(3,5) Cons.prems(2) show ?thesis by (auto simp: greys_queued_def)
  next
    case False
    with s1(3,5) Cons.prems(2) show ?thesis by (auto simp: greys_queued_def)
  qed
  obtain s2 where s2: "visit_all cs s1 = Some s2" "inv s2" "obj s2 = obj s1" "exact s2 = exact s1" "greys_queued s2"
    "\<forall>c. obj s1 c \<longrightarrow> colour s2 c = (if c \<in> set cs \<and> colour s1 c = White then Grey else colour s1 c)"
    using Cons.IH [OF s1(2) g] Cons.prems(3) s1(4) by auto
  have "colour s2 d = (if d \<in> set (c # cs) \<and> colour s d = White then Grey else colour s d)" if "obj s d" for d
    using s2(6) s1(3,5) that by (auto split: if_splits)
  with s1(1,3,4) s2 show ?case by auto
qed simp

text \<open>Black objects only point to objects that are not white, and nothing unreachable is coloured.\<close>

definition marking :: "nat set \<Rightarrow> 's \<Rightarrow> bool" where
  "marking roots s \<longleftrightarrow> inv s \<and> greys_queued s \<and>
     (\<forall>r \<in> roots. obj s r \<longrightarrow> colour s r \<noteq> White) \<and>
     (\<forall>c d. obj s c \<longrightarrow> colour s c = Black \<longrightarrow> d \<in> set (trace c) \<longrightarrow> obj s d \<longrightarrow> colour s d \<noteq> White) \<and>
     (\<forall>c. obj s c \<longrightarrow> colour s c \<noteq> White \<longrightarrow> c \<in> reachable (obj s) trace roots)"

lemma run_step:
  assumes m: "marking roots s" and q: "queue s \<noteq> []"
  shows "\<exists>c s1 s2. pop s = Some (c, s1) \<and> visit_all (trace c) s1 = Some s2 \<and> marking roots s2 \<and> obj s2 = obj s \<and>
    (card (whites s2) < card (whites s) \<or> card (whites s2) = card (whites s) \<and> length (queue s2) < length (queue s))"
proof -
  have inv: "inv s" and g: "greys_queued s" using m by (simp_all add: marking_def)
  obtain c where c: "queue s = butlast (queue s) @ [c]" using q by (metis append_butlast_last_id)
  then have cq: "c \<in> set (queue s)" "obj s c" "colour s c = Grey" "c \<notin> set (butlast (queue s))"
    using g by (metis in_set_conv_decomp, metis greys_queued_def in_set_conv_decomp, metis greys_queued_def in_set_conv_decomp,
      metis distinct_append disjoint_insert(2) greys_queued_def list.simps(15))
  obtain s1 where s1: "pop s = Some (c, s1)" "inv s1" "obj s1 = obj s" "exact s1 = exact s"
    "colour s1 = (colour s)(c := Black)" "queue s1 = butlast (queue s)"
    using pop_spec [OF inv c cq(2,3)] by blast
  have qs: "set (queue s) = insert c (set (butlast (queue s)))" by (subst c) simp
  have g1: "greys_queued s1"
    using g s1(3,5,6) cq(4) qs by (auto simp: greys_queued_def distinct_butlast)
  have ex: "\<forall>d \<in> set (trace c). exact s1 d" using trace_exact [OF inv cq(2)] s1(4) by simp
  obtain s2 where s2: "visit_all (trace c) s1 = Some s2" "inv s2" "obj s2 = obj s1" "exact s2 = exact s1" "greys_queued s2"
    "\<forall>d. obj s1 d \<longrightarrow> colour s2 d = (if d \<in> set (trace c) \<and> colour s1 d = White then Grey else colour s1 d)"
    using visit_all_spec [OF s1(2) g1 ex] by blast
  have col: "colour s2 d = (if d = c then Black else if d \<in> set (trace c) \<and> colour s d = White then Grey else colour s d)"
    if "obj s d" for d
    using s2(6) s1(3,5) that by auto
  have "marking roots s2"
    unfolding marking_def
  proof (intro conjI allI ballI impI)
    show "inv s2" "greys_queued s2" using s2 by simp_all
    show "colour s2 r \<noteq> White" if "r \<in> roots" "obj s2 r" for r
      using m that col [of r] s1(3) s2(3) by (auto simp: marking_def)
    show "colour s2 d \<noteq> White" if "obj s2 b" "colour s2 b = Black" "d \<in> set (trace b)" "obj s2 d" for b d
      using m that col [of b] col [of d] s1(3) s2(3) by (auto simp: marking_def split: if_splits)
    fix d assume d: "obj s2 d" "colour s2 d \<noteq> White"
    have r: "c \<in> reachable (obj s) trace roots" using m cq(2,3) by (simp add: marking_def)
    show "d \<in> reachable (obj s2) trace roots"
    proof (cases "colour s d = White \<and> d \<noteq> c")
      case True
      then have "d \<in> set (trace c)" using col [of d] d s1(3) s2(3) by (auto split: if_splits)
      then show ?thesis using r d(1) s1(3) s2(3) by (auto intro: reachable.child)
    next
      case False
      then show ?thesis using m d r s1(3) s2(3) by (auto simp: marking_def)
    qed
  qed
  moreover have "whites s2 = whites s - set (trace c)"
    using col cq(3) s1(3) s2(3) by (auto simp: whites_def split: if_splits)
  moreover have "finite (whites s)" using finite_objects [OF inv] by (simp add: whites_def)
  moreover have "length (queue s2) < length (queue s)" if "whites s2 = whites s"
  proof -
    have "set (queue s2) = set (butlast (queue s))"
    proof -
      have "d \<in> set (queue s2) \<longleftrightarrow> d \<in> set (queue s1)" if "obj s d" for d
      proof -
        have "colour s2 d = colour s1 d"
          using s2(6) that s1(3,5) \<open>whites s2 = whites s\<close> \<open>whites s2 = whites s - set (trace c)\<close>
          by (auto simp: whites_def split: if_splits)
        moreover have "colour s2 d = Grey \<longleftrightarrow> d \<in> set (queue s2)" "colour s1 d = Grey \<longleftrightarrow> d \<in> set (queue s1)"
          using s2(3,5) g1 s1(3) that by (simp_all add: greys_queued_def)
        ultimately show ?thesis by simp
      qed
      then show ?thesis using s2(3,5) g1 s1(3,6) by (auto simp: greys_queued_def)
    qed
    then have "length (queue s2) = length (butlast (queue s))"
      using s2(5) g by (metis distinct_butlast distinct_card greys_queued_def)
    then show ?thesis using q by simp
  qed
  ultimately have "card (whites s2) < card (whites s) \<or> card (whites s2) = card (whites s) \<and> length (queue s2) < length (queue s)"
    by (cases "whites s2 = whites s") (auto intro: psubset_card_mono)
  with \<open>marking roots s2\<close> s1(1,3) s2(1,3) show ?thesis by auto
qed

lemma run_ends:
  assumes "marking roots s"
  shows "\<exists>n s'. run n s = Some s' \<and> marking roots s' \<and> obj s' = obj s \<and> queue s' = []"
  using assms
proof (induction s rule: wf_induct [OF wf_measures [of "[\<lambda>s. card (whites s), \<lambda>s. length (queue s)]"]])
  case (1 s)
  show ?case
  proof (cases "queue s = []")
    case True
    then have "run (Suc 0) s = Some s" by simp
    with 1(2) True show ?thesis by blast
  next
    case False
    obtain c s1 s2 where s: "pop s = Some (c, s1)" "visit_all (trace c) s1 = Some s2" "marking roots s2" "obj s2 = obj s"
      "card (whites s2) < card (whites s) \<or> card (whites s2) = card (whites s) \<and> length (queue s2) < length (queue s)"
      using run_step [OF 1(2) False] by blast
    moreover have "(s2, s) \<in> measures [\<lambda>s. card (whites s), \<lambda>s. length (queue s)]" using s(5) by auto
    ultimately obtain n s' where "run n s2 = Some s'" "marking roots s'" "obj s' = obj s2" "queue s' = []"
      using 1(1) by blast
    then have "run (Suc n) s = Some s'" "marking roots s'" "obj s' = obj s" "queue s' = []" using s False by simp_all
    then show ?thesis by blast
  qed
qed

text \<open>At the end exactly the reachable objects are black.\<close>

theorem marks_reachable:
  assumes "inv s" "queue s = []" "\<forall>c. obj s c \<longrightarrow> colour s c = White" "\<forall>r \<in> set roots. exact s r"
  shows "\<exists>s1 n s'. visit_all roots s = Some s1 \<and> run n s1 = Some s' \<and> inv s' \<and> obj s' = obj s \<and> queue s' = [] \<and>
    (\<forall>c. obj s c \<longrightarrow> colour s' c = (if c \<in> reachable (obj s) trace (set roots) then Black else White))"
proof -
  have "greys_queued s" using assms(2,3) by (simp add: greys_queued_def)
  then obtain s1 where s1: "visit_all roots s = Some s1" "inv s1" "obj s1 = obj s" "greys_queued s1"
    "\<forall>c. obj s c \<longrightarrow> colour s1 c = (if c \<in> set roots then Grey else White)"
    using visit_all_spec [OF assms(1) _ assms(4)] assms(3) by auto
  have "marking (set roots) s1"
    using s1 by (auto simp: marking_def intro: reachable.root split: if_splits)
  then obtain n s' where s': "run n s1 = Some s'" "marking (set roots) s'" "obj s' = obj s1" "queue s' = []"
    using run_ends by blast
  have grey: "colour s' c \<noteq> Grey" if "obj s' c" for c using s'(2,4) that by (auto simp: marking_def greys_queued_def)
  let ?B = "{c. obj s' c \<and> colour s' c \<noteq> White}"
  have "reachable (obj s') trace (set roots) \<subseteq> ?B"
  proof (rule reachable_least)
    show "d \<in> ?B" if "c \<in> ?B" "d \<in> set (trace c)" "obj s' d" for c d
      using s'(2) that grey [of c] by (cases "colour s' c") (auto simp: marking_def)
  qed (use s'(2) in \<open>auto simp: marking_def\<close>)
  then have "colour s' c = (if c \<in> reachable (obj s') trace (set roots) then Black else White)" if "obj s' c" for c
    using s'(2) that grey [of c] by (cases "colour s' c") (auto simp: marking_def)
  then have res: "\<forall>c. obj s c \<longrightarrow> colour s' c = (if c \<in> reachable (obj s) trace (set roots) then Black else White)"
    using s1(3) s'(3) by simp
  have "inv s'" "obj s' = obj s" using s'(2,3) s1(3) by (simp_all add: marking_def)
  with s1(1) s'(1,4) res show ?thesis by blast
qed

end

end
