(* ===== verification/Gc_Marking.thy ===== *)
theory Gc_Marking
  imports Gc_Heap Mark_Worklist
begin

text \<open>
  The marker implements the marking worklist: \<open>visit_raw\<close> and the pop of \<open>process_worklist\<close> satisfy
  the laws of the locale \<open>worklist\<close> for a heap that was quiescent when marking started.
\<close>

section \<open>Objects and their colours\<close>

definition is_gc_object :: "gc_space \<Rightarrow> nat \<Rightarrow> bool" where
  "is_gc_object sp c \<longleftrightarrow> live_cell sp c \<or> c \<in> pa_cell ` set (ls_allocations (sp_precise sp))"

text \<open>An address that is not inside an object: what it leads to is the object at that address.\<close>

definition exact_address :: "gc_space \<Rightarrow> nat \<Rightarrow> bool" where
  "exact_address sp c \<longleftrightarrow>
     (in_region (sp_blocks sp) c \<longrightarrow> lv (sp_mem sp) c \<longrightarrow> c \<in> all_cells sp) \<and>
     (\<not> in_region (sp_blocks sp) c \<longrightarrow> from_cell c \<in> set (ls_allocations (sp_precise sp)) \<longrightarrow> c = pa_cell (from_cell c))"
definition state_colour :: "u64 \<Rightarrow> colour" where
  "state_colour s = (if s = DEFINETELY_WHITE then White else if s = POSSIBLY_GREY then Grey else Black)"
definition cell_colour :: "gc_space \<Rightarrow> nat \<Rightarrow> colour" where
  "cell_colour sp c = (case header_of sp c of None \<Rightarrow> White | Some h \<Rightarrow> state_colour (cell_state h))"

text \<open>Large objects lie outside of the region, and mimalloc knows them.\<close>

definition large_outside :: "(nat \<Rightarrow> bool) \<Rightarrow> gc_space \<Rightarrow> bool" where
  "large_outside mi sp \<longleftrightarrow> (\<forall>a \<in> set (ls_allocations (sp_precise sp)). \<not> in_region (sp_blocks sp) (pa_cell a) \<and> mi a)"

text \<open>The same object, up to the state of its header.\<close>

definition same_object :: "gc_pointer_base option \<Rightarrow> gc_pointer_base option \<Rightarrow> bool" where
  "same_object h0 h = (case (h0, h) of
     (None, None) \<Rightarrow> True
   | (Some a, Some b) \<Rightarrow> cell_vtable b = cell_vtable a \<and> base_type_id b = base_type_id a
   | _ \<Rightarrow> False)"

text \<open>\<open>sp\<close> is \<open>sp0\<close> up to the states of the headers and the marks.\<close>

definition same_but_marks :: "gc_space \<Rightarrow> gc_space \<Rightarrow> bool" where
  "same_but_marks sp0 sp \<longleftrightarrow>
     sp_blocks sp = sp_blocks sp0 \<and> sp_allocators sp = sp_allocators sp0 \<and> sp_chain sp = sp_chain sp0 \<and>
     sp_size_table sp = sp_size_table sp0 \<and> gm_live (sp_mem sp) = gm_live (sp_mem sp0) \<and>
     bm_ok (gm_mark (sp_mem sp)) \<and> covers (gm_mark (sp_mem sp)) = covers (gm_mark (sp_mem sp0)) \<and>
     granule (gm_mark (sp_mem sp)) = granule (gm_mark (sp_mem sp0)) \<and> has_address (gm_mark (sp_mem sp)) = has_address (gm_mark (sp_mem sp0)) \<and>
     ls_allocations (sp_precise sp) = ls_allocations (sp_precise sp0) \<and>
     (\<forall>a. map_option pa_cell_size (ls_headers (sp_precise sp) a) = map_option pa_cell_size (ls_headers (sp_precise sp0) a)) \<and>
     (\<forall>c. same_object (header_of sp0 c) (header_of sp c))"

lemma same_objectD: "same_object (Some a) h \<Longrightarrow> \<exists>b. h = Some b \<and> cell_vtable b = cell_vtable a \<and> base_type_id b = base_type_id a"
  by (auto simp: same_object_def split: option.splits)

lemma same_but_marks_space:
  assumes "same_but_marks sp0 sp"
  shows "all_cells sp = all_cells sp0" "live_cell sp = live_cell sp0" "is_gc_object sp = is_gc_object sp0"
    "exact_address sp = exact_address sp0" "cell_size_at sp = cell_size_at sp0" "space_inv sp0 \<Longrightarrow> space_inv sp"
    "large_outside mi sp = large_outside mi sp0"
proof -
  have e: "sp_blocks sp = sp_blocks sp0" "sp_allocators sp = sp_allocators sp0" "gm_live (sp_mem sp) = gm_live (sp_mem sp0)"
    "sp_chain sp = sp_chain sp0" "sp_size_table sp = sp_size_table sp0" "ls_allocations (sp_precise sp) = ls_allocations (sp_precise sp0)"
    using assms by (simp_all add: same_but_marks_def)
  have ab: "all_blocks sp = all_blocks sp0" by (simp add: all_blocks_def e)
  show ac: "all_cells sp = all_cells sp0" by (simp add: all_cells_def ab e)
  show lc: "live_cell sp = live_cell sp0" by (simp add: live_cell_def [abs_def] ac e)
  show "is_gc_object sp = is_gc_object sp0" by (simp add: is_gc_object_def [abs_def] lc e)
  show "exact_address sp = exact_address sp0" by (simp add: exact_address_def [abs_def] ac e)
  show "cell_size_at sp = cell_size_at sp0" by (simp add: cell_size_at_def [abs_def] e)
  show "large_outside mi sp = large_outside mi sp0" by (simp add: large_outside_def e)
  assume inv: "space_inv sp0"
  then have "map_ok (sp_blocks sp) (gm_mark (sp_mem sp))"
    using assms unfolding space_inv_def maps_inv_def map_ok_def same_but_marks_def by simp
  then have "maps_inv sp" using inv unfolding space_inv_def maps_inv_def ac e by blast
  moreover have "blocks_inv (live_cell sp) sp" using inv by (simp add: space_inv_def blocks_inv_def lc ab e)
  ultimately show "space_inv sp" by (simp add: space_inv_def)
qed

text \<open>The heap when no collection runs: every object is white and nothing in the region is marked.\<close>

definition quiet :: "(nat \<Rightarrow> bool) \<Rightarrow> gc_space \<Rightarrow> bool" where
  "quiet mi sp \<longleftrightarrow> space_inv sp \<and> large_outside mi sp \<and> ls_ok (sp_precise sp) (gm_cells (sp_mem sp)) \<and>
     (\<forall>c. is_gc_object sp c \<longrightarrow> (\<exists>h. header_of sp c = Some h \<and> cell_state h = DEFINETELY_WHITE)) \<and>
     (\<forall>p. in_region (sp_blocks sp) p \<longrightarrow> \<not> mk (sp_mem sp) p)"

text \<open>The mark bits that are set belong to cells.\<close>

definition marks_on_cells :: "gc_space \<Rightarrow> gc_space \<Rightarrow> bool" where
  "marks_on_cells sp0 sp \<longleftrightarrow> (\<forall>p. in_region (sp_blocks sp0) p \<longrightarrow> mk (sp_mem sp) p \<longrightarrow>
     (\<exists>c \<in> all_cells sp0. granule (gm_mark (sp_mem sp0)) p = granule (gm_mark (sp_mem sp0)) c))"

text \<open>What holds of a visitor that started in the quiet space \<open>sp0\<close>.\<close>

definition visiting :: "(nat \<Rightarrow> bool) \<Rightarrow> (nat \<Rightarrow> bool) \<Rightarrow> (nat \<Rightarrow> nat list) \<Rightarrow> gc_space \<Rightarrow> visitor \<Rightarrow> bool" where
  "visiting spur mi trace sp0 v \<longleftrightarrow>
     quiet mi sp0 \<and> (\<forall>n. \<not> spur n) \<and> (\<forall>c d. is_gc_object sp0 c \<longrightarrow> d \<in> set (trace c) \<longrightarrow> exact_address sp0 d) \<and>
     same_but_marks sp0 (vs_space v) \<and> marks_on_cells sp0 (vs_space v) \<and>
     (\<forall>c. is_gc_object sp0 c \<longrightarrow> (\<exists>h. header_of (vs_space v) c = Some h \<and>
        (cell_state h = DEFINETELY_WHITE \<or> cell_state h = POSSIBLY_GREY \<or> cell_state h = POSSIBLY_BLACK))) \<and>
     (\<forall>c \<in> all_cells sp0. mk (sp_mem (vs_space v)) c = (live_cell sp0 c \<and> cell_colour (vs_space v) c \<noteq> White)) \<and>
     (\<forall>a \<in> set (ls_allocations (sp_precise sp0)).
        ls_marked (sp_precise (vs_space v)) a = (ls_marked (sp_precise sp0) a \<or> cell_colour (vs_space v) (pa_cell a) \<noteq> White))"

lemma state_colours [simp]:
  "state_colour DEFINETELY_WHITE = White" "state_colour POSSIBLY_GREY = Grey" "state_colour POSSIBLY_BLACK = Black"
  by (simp_all add: state_colour_def)

lemma from_pa_cell [simp]: "from_cell (pa_cell a) = a"
  by (simp add: from_cell_def pa_cell_def wrapping_sub_def)

lemma quiet_finite:
  assumes "quiet mi sp"
  shows "finite {c. is_gc_object sp c}"
proof -
  have "finite (all_cells sp)" using assms finite_cells by (auto simp: quiet_def space_inv_def)
  moreover have "{c. is_gc_object sp c} \<subseteq> all_cells sp \<union> pa_cell ` set (ls_allocations (sp_precise sp))"
    by (auto simp: is_gc_object_def live_cell_def)
  ultimately show ?thesis by (meson finite_Un finite_imageI finite_set finite_subset)
qed

text \<open>\<open>is_heap_pointer\<close> is exactly the objects, on exact addresses.\<close>

lemma heap_pointer_iff:
  assumes inv: "space_inv sp" and out: "large_outside mi sp" and ex: "exact_address sp c"
  shows "is_heap_pointer mi sp c = Some (is_gc_object sp c)"
proof -
  have m: "map_ok (sp_blocks sp) (gm_live (sp_mem sp))" using inv by (simp add: space_inv_def maps_inv_def)
  have b: "blocks_inv (live_cell sp) sp" using inv by (simp add: space_inv_def)
  show ?thesis
  proof (cases "in_region (sp_blocks sp) c")
    case True
    then have "bm_test (gm_live (sp_mem sp)) c = Some (lv (sp_mem sp) c)"
      using m by (simp add: map_ok_def bm_test_eq)
    moreover have "lv (sp_mem sp) c = live_cell sp c" using ex True by (auto simp: exact_address_def live_cell_def)
    moreover have "c \<notin> pa_cell ` set (ls_allocations (sp_precise sp))" using out True by (auto simp: large_outside_def)
    ultimately show ?thesis using True m by (simp add: is_heap_pointer_def map_ok_def is_gc_object_def)
  next
    case False
    then have "\<not> live_cell sp c" using inv_cell(6) [OF b] by (auto simp: live_cell_def)
    moreover have "from_cell c \<in> set (ls_allocations (sp_precise sp)) \<longleftrightarrow> c \<in> pa_cell ` set (ls_allocations (sp_precise sp))"
      using ex False by (auto simp: exact_address_def)
    moreover have "mi (from_cell c)" if "from_cell c \<in> set (ls_allocations (sp_precise sp))"
      using out that by (simp add: large_outside_def)
    ultimately show ?thesis
      using False m by (auto simp: is_heap_pointer_def map_ok_def ls_contains_def is_gc_object_def Let_def)
  qed
qed

section \<open>The two operations\<close>

lemma white_iff: "cell_colour sp c = White \<longleftrightarrow> cell_state h = DEFINETELY_WHITE" if "header_of sp c = Some h"
  using that by (simp add: cell_colour_def state_colour_def)

lemma header_put [simp]: "header_of (put_header c h sp) d = (if d = c then Some h else header_of sp d)"
  by (simp add: header_of_def put_header_def)

lemma put_header_frame [simp]:
  "sp_blocks (put_header c h sp) = sp_blocks sp" "sp_precise (put_header c h sp) = sp_precise sp"
  "gm_live (sp_mem (put_header c h sp)) = gm_live (sp_mem sp)" "gm_mark (sp_mem (put_header c h sp)) = gm_mark (sp_mem sp)"
  "sp_allocators (put_header c h sp) = sp_allocators sp" "sp_chain (put_header c h sp) = sp_chain sp"
  "sp_size_table (put_header c h sp) = sp_size_table sp"
  by (simp_all add: put_header_def)

lemma set_state_result:
  assumes "s < 8" "t < 8" "cell_state h = s"
  shows "set_state False s t h = (True, snd (set_state False s t h))" "cell_state (snd (set_state False s t h)) = t"
    "cell_vtable (snd (set_state False s t h)) = cell_vtable h" "base_type_id (snd (set_state False s t h)) = base_type_id h"
  using compare_and_set_iff [OF assms(1,2), of False "base_vtable h"] tagged_bits [OF assms(2), of "base_vtable h"] assms(3)
  by (auto simp: set_state_def cell_state_def cell_vtable_def tp_set_tag_def)

lemma put_header_same:
  assumes "same_but_marks sp0 sp" "header_of sp c = Some h" "cell_vtable h' = cell_vtable h" "base_type_id h' = base_type_id h"
  shows "same_but_marks sp0 (put_header c h' sp)"
proof -
  have "same_object (header_of sp0 d) (header_of (put_header c h' sp) d)" for d
  proof -
    have "same_object (header_of sp0 d) (header_of sp d)" using assms(1) by (simp add: same_but_marks_def)
    then show ?thesis using assms(2-4) by (auto simp: same_object_def split: option.splits)
  qed
  with assms(1) show ?thesis by (simp add: same_but_marks_def)
qed

text \<open>Greying an object: its header and its mark change, nothing else.\<close>

lemma visit_grey:
  assumes v: "visiting spur mi trace sp0 v" and c: "exact_address sp0 c" "is_gc_object sp0 c" "cell_colour (vs_space v) c = White"
  shows "\<exists>v'. visit_raw spur mi c v = Some v' \<and> visiting spur mi trace sp0 v' \<and>
    cell_colour (vs_space v') = (cell_colour (vs_space v))(c := Grey) \<and> vs_queue v' = vs_queue v @ [c]"
proof -
  let ?sp = "vs_space v"
  have q: "quiet mi sp0" and sm: "same_but_marks sp0 ?sp" and ns: "\<not> spur n" for n using v by (simp_all add: visiting_def)
  note same = same_but_marks_space [OF sm]
  have inv0: "space_inv sp0" and out0: "large_outside mi sp0" and ls0: "ls_ok (sp_precise sp0) (gm_cells (sp_mem sp0))"
    using q by (simp_all add: quiet_def)
  have b0: "blocks_inv (live_cell sp0) sp0" using inv0 by (simp add: space_inv_def)
  obtain h where h: "header_of ?sp c = Some h" "cell_state h = DEFINETELY_WHITE"
    using v c(2,3) white_iff unfolding visiting_def by metis
  define h' where "h' = snd (set_state False DEFINETELY_WHITE POSSIBLY_GREY h)"
  note h' = set_state_result [OF states_small(3,2) h(2), folded h'_def]
  have known: "is_heap_pointer mi ?sp c = Some True"
    using heap_pointer_iff [of ?sp mi c] same inv0 out0 c(1,2) by simp
  define sp1 where "sp1 = put_header c h' ?sp"
  have sm1: "same_but_marks sp0 sp1" unfolding sp1_def by (rule put_header_same [OF sm h(1) h'(3,4)])
  have col1: "cell_colour sp1 = (cell_colour ?sp)(c := Grey)"
    using h'(2) by (auto simp: sp1_def cell_colour_def)
  have hdr1: "\<exists>h. header_of sp1 d = Some h \<and> (cell_state h = DEFINETELY_WHITE \<or> cell_state h = POSSIBLY_GREY \<or> cell_state h = POSSIBLY_BLACK)"
    if "is_gc_object sp0 d" for d
    using v h'(2) that by (auto simp: sp1_def visiting_def)
  have addr: "has_address (gm_live (sp_mem sp1)) d = in_region (sp_blocks sp0) d" for d
    using inv0 sm1 by (simp add: space_inv_def maps_inv_def map_ok_def same_but_marks_def)
  have mk1: "\<forall>d \<in> all_cells sp0. mk (sp_mem sp1) d = (live_cell sp0 d \<and> cell_colour ?sp d \<noteq> White)"
    using v by (simp add: visiting_def sp1_def)
  have on1: "marks_on_cells sp0 sp1" using v by (simp add: visiting_def sp1_def marks_on_cells_def)
  have lm1: "\<forall>a \<in> set (ls_allocations (sp_precise sp0)). ls_marked (sp_precise sp1) a = (ls_marked (sp_precise sp0) a \<or> cell_colour ?sp (pa_cell a) \<noteq> White)"
    using v by (simp add: visiting_def sp1_def)
  have grey: "visit_raw spur mi c v = Some (v\<lparr>vs_space := sp2, vs_tick := vs_tick v + 1, vs_queue := vs_queue v @ [c]\<rparr>)"
    if "space_mark c sp1 = Some (r, sp2)" for r sp2
    using that known h(1) h'(1) ns by (simp add: visit_raw_def sp1_def)
  have fin: "\<exists>v'. visit_raw spur mi c v = Some v' \<and> visiting spur mi trace sp0 v' \<and>
    cell_colour (vs_space v') = (cell_colour (vs_space v))(c := Grey) \<and> vs_queue v' = vs_queue v @ [c]"
    if m: "space_mark c sp1 = Some (r, sp2)" "same_but_marks sp0 sp2" "header_of sp2 = header_of sp1"
      "marks_on_cells sp0 sp2"
      "\<forall>d \<in> all_cells sp0. mk (sp_mem sp2) d = (live_cell sp0 d \<and> (d = c \<or> cell_colour ?sp d \<noteq> White))"
      "\<forall>a \<in> set (ls_allocations (sp_precise sp0)). ls_marked (sp_precise sp2) a = (ls_marked (sp_precise sp0) a \<or> pa_cell a = c \<or> cell_colour ?sp (pa_cell a) \<noteq> White)"
    for r sp2
  proof -
    have col2: "cell_colour sp2 = (cell_colour ?sp)(c := Grey)" using m(3) col1 by (simp add: cell_colour_def [abs_def])
    have "visiting spur mi trace sp0 (v\<lparr>vs_space := sp2, vs_tick := vs_tick v + 1, vs_queue := vs_queue v @ [c]\<rparr>)"
      using v m(2-6) hdr1 col2 by (auto simp: visiting_def)
    with grey [OF m(1)] col2 show ?thesis by simp
  qed
  show ?thesis
  proof (cases "in_region (sp_blocks sp0) c")
    case True
    then have lc: "live_cell sp0 c" using c(2) out0 by (auto simp: is_gc_object_def large_outside_def)
    then have ca: "c \<in> all_cells sp0" by (simp add: live_cell_def)
    let ?b = "gm_mark (sp_mem sp1)"
    have ok: "bm_ok ?b" "covers ?b c" using sm1 True inv0 by (simp_all add: same_but_marks_def space_inv_def maps_inv_def map_ok_def)
    let ?sp2 = "sp1\<lparr>sp_mem := (sp_mem sp1)\<lparr>gm_mark := put_bit True c ?b\<rparr>\<rparr>"
    have mark: "space_mark c sp1 = Some (marked ?b c, ?sp2)"
      using bm_modify_eq [OF ok, of True] addr True by (simp add: space_mark_def bm_set_def)
    have gr: "granule ?b d = granule ?b c \<longleftrightarrow> d = c" if "d \<in> all_cells sp0" for d
      using inv_granule [OF b0 that ca, of ?b] sm1 inv0 by (auto simp: same_but_marks_def space_inv_def maps_inv_def map_ok_def)
    have mk2: "\<forall>d \<in> all_cells sp0. mk (sp_mem ?sp2) d = (live_cell sp0 d \<and> (d = c \<or> cell_colour ?sp d \<noteq> White))"
      using put_bit_marked [OF ok, of True] gr mk1 lc by auto
    have "marks_on_cells sp0 ?sp2"
      unfolding marks_on_cells_def
    proof (intro allI impI)
      fix p assume p: "in_region (sp_blocks sp0) p" "mk (sp_mem ?sp2) p"
      show "\<exists>d \<in> all_cells sp0. granule (gm_mark (sp_mem sp0)) p = granule (gm_mark (sp_mem sp0)) d"
      proof (cases "granule ?b p = granule ?b c")
        case True
        then show ?thesis using ca sm1 by (auto simp: same_but_marks_def)
      next
        case False
        then have "mk (sp_mem sp1) p" using p(2) put_bit_marked [OF ok, of True p] by simp
        then show ?thesis using on1 p(1) by (simp add: marks_on_cells_def)
      qed
    qed
    moreover have "same_but_marks sp0 ?sp2" using sm1 by (simp add: same_but_marks_def header_of_def)
    moreover have "header_of ?sp2 = header_of sp1" by (simp add: header_of_def [abs_def])
    moreover have "pa_cell a \<noteq> c" if "a \<in> set (ls_allocations (sp_precise sp0))" for a
      using out0 True that by (auto simp: large_outside_def)
    then have "\<forall>a \<in> set (ls_allocations (sp_precise sp0)). ls_marked (sp_precise ?sp2) a = (ls_marked (sp_precise sp0) a \<or> pa_cell a = c \<or> cell_colour ?sp (pa_cell a) \<noteq> White)"
      using lm1 by simp
    ultimately show ?thesis using fin [OF mark] mk2 by blast
  next
    case False
    then have "\<not> live_cell sp0 c" using inv_cell(6) [OF b0] by (auto simp: live_cell_def)
    then obtain a where a: "c = pa_cell a" "a \<in> set (ls_allocations (sp_precise sp0))" using c(2) by (auto simp: is_gc_object_def)
    have "(\<exists>p. ls_headers (sp_precise sp0) a = Some p)" using ls0 a(2) by (simp add: ls_ok_def)
    then obtain p where p: "ls_headers (sp_precise sp1) a = Some p"
      using sm1 unfolding same_but_marks_def by (metis map_option_eq_Some)
    let ?p = "snd (test_and_set_marked p)"
    let ?sp2 = "sp1\<lparr>sp_precise := (sp_precise sp1)\<lparr>ls_headers := (ls_headers (sp_precise sp1))(a \<mapsto> ?p)\<rparr>\<rparr>"
    have pp: "pa_is_marked ?p" "pa_cell_size ?p = pa_cell_size p" by (simp_all add: test_and_set_marked_def)
    have mark: "space_mark c sp1 = Some (fst (test_and_set_marked p), ?sp2)"
      using addr False p a(1) by (simp add: space_mark_def split: prod.split)
    have sz: "map_option pa_cell_size (ls_headers (sp_precise ?sp2) b) = map_option pa_cell_size (ls_headers (sp_precise sp0) b)" for b
    proof -
      have "map_option pa_cell_size (ls_headers (sp_precise sp1) b) = map_option pa_cell_size (ls_headers (sp_precise sp0) b)"
        using sm1 unfolding same_but_marks_def by blast
      then show ?thesis using p pp(2) by (cases "b = a") auto
    qed
    have "marks_on_cells sp0 ?sp2" using on1 by (simp add: marks_on_cells_def)
    moreover have "same_but_marks sp0 ?sp2" using sm1 sz by (simp add: same_but_marks_def header_of_def)
    moreover have "header_of ?sp2 = header_of sp1" by (simp add: header_of_def [abs_def])
    moreover have "\<forall>d \<in> all_cells sp0. mk (sp_mem ?sp2) d = (live_cell sp0 d \<and> (d = c \<or> cell_colour ?sp d \<noteq> White))"
      using mk1 \<open>\<not> live_cell sp0 c\<close> by auto
    moreover have "ls_marked (sp_precise ?sp2) b = (b = a \<or> ls_marked (sp_precise sp1) b)" for b
      using pp(1) by (simp add: ls_marked_def)
    then have "\<forall>b \<in> set (ls_allocations (sp_precise sp0)). ls_marked (sp_precise ?sp2) b = (ls_marked (sp_precise sp0) b \<or> pa_cell b = c \<or> cell_colour ?sp (pa_cell b) \<noteq> White)"
      using lm1 a(1) by auto
    ultimately show ?thesis using fin [OF mark] by blast
  qed
qed

lemma put_header_idem: "header_of sp c = Some h \<Longrightarrow> put_header c h sp = sp"
  by (simp add: put_header_def header_of_def fun_upd_idem)

lemma visit_skip:
  assumes v: "visiting spur mi trace sp0 v" and c: "exact_address sp0 c" "\<not> (is_gc_object sp0 c \<and> cell_colour (vs_space v) c = White)"
  shows "\<exists>v'. visit_raw spur mi c v = Some v' \<and> visiting spur mi trace sp0 v' \<and> vs_space v' = vs_space v \<and> vs_queue v' = vs_queue v"
proof -
  let ?sp = "vs_space v"
  have sm: "same_but_marks sp0 ?sp" and ns: "\<not> spur n" for n using v by (simp_all add: visiting_def)
  note same = same_but_marks_space [OF sm]
  have known: "is_heap_pointer mi ?sp c = Some (is_gc_object sp0 c)"
    using heap_pointer_iff [of ?sp mi c] same v c(1) by (simp add: visiting_def quiet_def)
  show ?thesis
  proof (cases "is_gc_object sp0 c")
    case False
    with known v show ?thesis by (simp add: visit_raw_def)
  next
    case True
    then obtain h where h: "header_of ?sp c = Some h" using v by (auto simp: visiting_def)
    then have "cell_state h \<noteq> DEFINETELY_WHITE" using c(2) True white_iff by blast
    then have "set_state False DEFINETELY_WHITE POSSIBLY_GREY h = (False, h)"
      using compare_and_set_iff [of DEFINETELY_WHITE POSSIBLY_GREY False "base_vtable h"] by (simp add: set_state_def cell_state_def)
    then have "visit_raw spur mi c v = Some (v\<lparr>vs_space := ?sp, vs_tick := vs_tick v + 1\<rparr>)"
      using known True h ns put_header_idem [OF h] by (simp add: visit_raw_def)
    moreover have "visiting spur mi trace sp0 (v\<lparr>vs_space := ?sp, vs_tick := vs_tick v + 1\<rparr>)" using v by (simp add: visiting_def)
    ultimately show ?thesis by simp
  qed
qed

lemma pop_black:
  assumes v: "visiting spur mi trace sp0 v" and c: "vs_queue v = q @ [c]" "is_gc_object sp0 c" "cell_colour (vs_space v) c = Grey"
  shows "\<exists>v'. pop_grey spur v = Some (c, v') \<and> visiting spur mi trace sp0 v' \<and>
    cell_colour (vs_space v') = (cell_colour (vs_space v))(c := Black) \<and> vs_queue v' = q"
proof -
  let ?sp = "vs_space v"
  have sm: "same_but_marks sp0 ?sp" and ns: "\<not> spur n" for n using v by (simp_all add: visiting_def)
  obtain h where h: "header_of ?sp c = Some h"
    "cell_state h = DEFINETELY_WHITE \<or> cell_state h = POSSIBLY_GREY \<or> cell_state h = POSSIBLY_BLACK"
    using v c(2) by (auto simp: visiting_def)
  then have grey: "cell_state h = POSSIBLY_GREY" using c(3) by (auto simp: cell_colour_def)
  define h' where "h' = snd (set_state False POSSIBLY_GREY POSSIBLY_BLACK h)"
  note h' = set_state_result [OF states_small(2,1) grey, folded h'_def]
  let ?sp1 = "put_header c h' ?sp"
  let ?v = "v\<lparr>vs_queue := q, vs_space := ?sp1, vs_tick := vs_tick v + 1\<rparr>"
  have pop: "pop_grey spur v = Some (c, ?v)" using c(1) h(1) ns by (simp add: pop_grey_def h'_def Let_def)
  have sm1: "same_but_marks sp0 ?sp1" by (rule put_header_same [OF sm h(1) h'(3,4)])
  have col: "cell_colour ?sp1 = (cell_colour ?sp)(c := Black)" using h'(2) by (auto simp: cell_colour_def)
  have "visiting spur mi trace sp0 ?v"
    unfolding visiting_def
  proof (intro conjI allI ballI impI)
    show "quiet mi sp0" "\<not> spur n" for n using v by (simp_all add: visiting_def)
    show "exact_address sp0 d" if "is_gc_object sp0 b" "d \<in> set (trace b)" for b d using v that by (auto simp: visiting_def)
    show "same_but_marks sp0 (vs_space ?v)" using sm1 by simp
    show "marks_on_cells sp0 (vs_space ?v)" using v by (simp add: visiting_def marks_on_cells_def)
    show "\<exists>h. header_of (vs_space ?v) d = Some h \<and>
        (cell_state h = DEFINETELY_WHITE \<or> cell_state h = POSSIBLY_GREY \<or> cell_state h = POSSIBLY_BLACK)" if "is_gc_object sp0 d" for d
      using v h'(2) that by (auto simp: visiting_def)
    show "mk (sp_mem (vs_space ?v)) d = (live_cell sp0 d \<and> cell_colour (vs_space ?v) d \<noteq> White)" if "d \<in> all_cells sp0" for d
      using v that col c(3) by (auto simp: visiting_def)
    show "ls_marked (sp_precise (vs_space ?v)) a = (ls_marked (sp_precise sp0) a \<or> cell_colour (vs_space ?v) (pa_cell a) \<noteq> White)"
      if "a \<in> set (ls_allocations (sp_precise sp0))" for a
      using v that col c(3) by (auto simp: visiting_def)
  qed
  with pop col show ?thesis by auto
qed

interpretation marker: worklist "visiting spur mi trace sp0" "\<lambda>v. is_gc_object sp0" "\<lambda>v. exact_address sp0"
  "\<lambda>v. cell_colour (vs_space v)" vs_queue trace "visit_raw spur mi" "pop_grey spur"
  for spur mi trace sp0
proof
  fix v c d q
  assume v: "visiting spur mi trace sp0 v"
  show "finite {c. is_gc_object sp0 c}" using v quiet_finite by (auto simp: visiting_def)
  show "exact_address sp0 d" if "is_gc_object sp0 c" "d \<in> set (trace c)" using v that by (auto simp: visiting_def)
  show "\<exists>v'. visit_raw spur mi c v = Some v' \<and> visiting spur mi trace sp0 v' \<and> is_gc_object sp0 = is_gc_object sp0 \<and>
      exact_address sp0 = exact_address sp0 \<and>
      (if is_gc_object sp0 c \<and> cell_colour (vs_space v) c = White
       then cell_colour (vs_space v') = (cell_colour (vs_space v))(c := Grey) \<and> vs_queue v' = vs_queue v @ [c]
       else cell_colour (vs_space v') = cell_colour (vs_space v) \<and> vs_queue v' = vs_queue v)"
    if c: "exact_address sp0 c"
    using visit_grey [OF v c] visit_skip [OF v c] by (cases "is_gc_object sp0 c \<and> cell_colour (vs_space v) c = White") auto
  show "\<exists>v'. pop_grey spur v = Some (c, v') \<and> visiting spur mi trace sp0 v' \<and> is_gc_object sp0 = is_gc_object sp0 \<and>
      exact_address sp0 = exact_address sp0 \<and> cell_colour (vs_space v') = (cell_colour (vs_space v))(c := Black) \<and> vs_queue v' = q"
    if "vs_queue v = q @ [c]" "is_gc_object sp0 c" "cell_colour (vs_space v) c = Grey"
    using pop_black [OF v that] by simp
qed

section \<open>The loops of the collector are the worklist's\<close>

lemma visit_list_all: "visit_list spur mi cs = worklist.visit_all (visit_raw spur mi) cs"
proof (induction cs)
  case (Cons c cs)
  then show ?case by (intro ext) simp
qed (intro ext, simp)

lemma process_run:
  "worklist.run vs_queue trace (visit_raw spur mi) (pop_grey spur) n v = Some v' \<Longrightarrow> process_worklist spur mi trace v = Some (Some v')"
proof (induction n arbitrary: v)
  case (Suc n)
  show ?case
  proof (cases "vs_queue v = []")
    case True
    with Suc.prems show ?thesis by (subst process_worklist.simps) simp
  next
    case False
    with Suc.prems obtain c v1 v2 where s: "pop_grey spur v = Some (c, v1)" "worklist.visit_all (visit_raw spur mi) (trace c) v1 = Some v2"
      "worklist.run vs_queue trace (visit_raw spur mi) (pop_grey spur) n v2 = Some v'"
      by (auto simp: bind_eq_Some_conv)
    then show ?thesis using False Suc.IH [OF s(3)] by (subst process_worklist.simps) (simp add: visit_list_all)
  qed
qed simp

text \<open>The words of the stack that are scanned.\<close>

fun stack_words :: "(nat \<Rightarrow> nat) \<Rightarrow> nat \<Rightarrow> nat \<Rightarrow> nat list" where
  "stack_words word_at scan 0 = []"
| "stack_words word_at scan (Suc n) = word_at scan # stack_words word_at (scan + 8) n"

lemma visit_unknown: "is_heap_pointer mi (vs_space v) c = Some False \<Longrightarrow> visit_raw spur mi c v = Some v"
  by (simp add: visit_raw_def)

lemma scan_words_list:
  "scan_words spur mi word_at scan to v = visit_list spur mi (stack_words word_at scan ((to - scan + 7) div 8)) v"
proof (induction "to - scan" arbitrary: scan v rule: less_induct)
  case less
  show ?case
  proof (cases "scan < to")
    case False
    then show ?thesis by (subst scan_words.simps) simp
  next
    case True
    have n: "(to - scan + 7) div 8 = Suc ((to - (scan + 8) + 7) div 8)"
    proof (cases "8 \<le> to - scan")
      case True
      then have "to - scan + 7 = (to - (scan + 8) + 7) + 8" by simp
      then show ?thesis by (metis div_add_self2 Suc_eq_plus1 zero_neq_numeral)
    next
      case False
      then show ?thesis using True by simp
    qed
    have ih: "scan_words spur mi word_at (scan + 8) to v' = visit_list spur mi (stack_words word_at (scan + 8) ((to - (scan + 8) + 7) div 8)) v'" for v'
      using less.hyps [of "scan + 8"] True by simp
    have step: "(do { known \<leftarrow> is_heap_pointer mi (vs_space v) (word_at scan); if known then visit_raw spur mi (word_at scan) v else Some v }) =
        visit_raw spur mi (word_at scan) v"
      by (cases "is_heap_pointer mi (vs_space v) (word_at scan)") (simp_all add: visit_raw_def)
    have "scan_words spur mi word_at scan to v =
        (do { known \<leftarrow> is_heap_pointer mi (vs_space v) (word_at scan); if known then visit_raw spur mi (word_at scan) v else Some v })
          \<bind> (\<lambda>v'. scan_words spur mi word_at (scan + 8) to v')"
      using True by (subst scan_words.simps) (simp add: Let_def)
    then show ?thesis unfolding n step by (simp add: ih)
  qed
qed

lemma visit_list_append: "visit_list spur mi (xs @ ys) v = visit_list spur mi xs v \<bind> visit_list spur mi ys"
  by (induction xs arbitrary: v) (simp_all split: bind_split)

end
