(* ===== verification/Gc_Collect.thy ===== *)
theory Gc_Collect
  imports Gc_Marking
begin

text \<open>
  A whole collection: mark from the stack and the roots, clear the weak references, sweep. Exactly
  the reachable small objects survive, with their headers unchanged; of the large ones, the reachable ones
  and those that still carry the mark of an earlier collection.
\<close>

section \<open>Weak references\<close>

lemma update_weak_spec:
  assumes "\<And>w t. w \<in> set ws \<Longrightarrow> val w = Some t \<Longrightarrow> bm_test b t = Some (P t)"
  shows "update_weak b ws val = Some (\<lambda>w. if w \<in> set ws \<and> (\<forall>t. val w = Some t \<longrightarrow> \<not> P t) then None else val w)"
  using assms
proof (induction ws arbitrary: val)
  case (Cons w ws)
  let ?new = "\<lambda>ws (val :: nat \<Rightarrow> nat option) v. if v \<in> set ws \<and> (\<forall>t. val v = Some t \<longrightarrow> \<not> P t) then None else val v"
  show ?case
  proof (cases "\<exists>t. val w = Some t \<and> \<not> P t")
    case True
    then obtain t where t: "val w = Some t" "\<not> P t" by blast
    then have "update_weak b (w # ws) val = update_weak b ws (val(w := None))" using Cons.prems [of w] by auto
    also have "\<dots> = Some (?new ws (val(w := None)))" using Cons.prems by (intro Cons.IH) (auto split: if_splits)
    also have "?new ws (val(w := None)) = ?new (w # ws) val"
    proof
      fix v
      show "?new ws (val(w := None)) v = ?new (w # ws) val v" using t by (cases "v = w") auto
    qed
    finally show ?thesis .
  next
    case False
    have "val(w := None) = val" if "val w = None" using that by (simp add: fun_upd_idem)
    then have "update_weak b (w # ws) val = update_weak b ws val" using Cons.prems [of w] False by (cases "val w") auto
    also have "\<dots> = Some (?new ws val)" using Cons.prems by (intro Cons.IH) auto
    also have "?new ws val = ?new (w # ws) val"
    proof
      fix v
      show "?new ws val v = ?new (w # ws) val v" using False by (cases "v = w"; cases "val v") auto
    qed
    finally show ?thesis .
  qed
qed auto

lemma retain_weak_spec: "(\<And>w. w \<in> set ws \<Longrightarrow> bm_test b w = Some (P w)) \<Longrightarrow> retain_weak b ws = Some (filter P ws)"
  by (induction ws) auto

section \<open>The collection\<close>

text \<open>Weak slots and their targets are small objects.\<close>

definition heap_quiet :: "(nat \<Rightarrow> bool) \<Rightarrow> gc_heap \<Rightarrow> bool" where
  "heap_quiet mi hp \<longleftrightarrow> quiet mi (hp_space hp) \<and>
     (\<forall>w \<in> set (hp_weak_refs hp). live_cell (hp_space hp) w \<and> (\<forall>t. hp_weak_value hp w = Some t \<longrightarrow> live_cell (hp_space hp) t))"

text \<open>The addresses marking starts from, and what it reaches.\<close>

definition start_set :: "(nat \<Rightarrow> nat) \<Rightarrow> nat \<Rightarrow> nat \<Rightarrow> nat list list \<Rightarrow> nat list" where
  "start_set word_at origin sp roots =
     stack_words word_at (min origin sp) ((max origin sp - 8 - min origin sp + 7) div 8) @ concat roots"
definition survivors :: "(nat \<Rightarrow> nat list) \<Rightarrow> nat list \<Rightarrow> gc_heap \<Rightarrow> nat set" where
  "survivors trace starts hp = reachable (is_gc_object (hp_space hp)) trace (set starts)"

lemma same_white_header:
  assumes "same_object (Some h0) h" "cell_state h0 = DEFINETELY_WHITE"
  shows "map_option (force_set_state DEFINETELY_WHITE) h = Some h0"
proof -
  obtain h1 where h: "h = Some h1" "cell_vtable h1 = cell_vtable h0" "base_type_id h1 = base_type_id h0"
    using same_objectD [OF assms(1)] by blast
  have "base_vtable h0 = tp_get_ptr (base_vtable h0) OR DEFINETELY_WHITE"
    using tagged_split [of "base_vtable h0"] assms(2) by (simp add: cell_state_def)
  then have "base_vtable (force_set_state DEFINETELY_WHITE h1) = base_vtable h0"
    using h(2) by (simp add: force_set_state_def tp_set_tag_def cell_vtable_def)
  moreover have "base_type_id (force_set_state DEFINETELY_WHITE h1) = base_type_id h0" using h(3) by (simp add: force_set_state_def)
  ultimately show ?thesis using h(1) by simp
qed

text \<open>The end of the marking, as the sweep sees it.\<close>

lemma marking_done:
  assumes v: "visiting spur mi trace sp0 v" and col: "\<forall>c. is_gc_object sp0 c \<longrightarrow> cell_colour (vs_space v) c = (if c \<in> R then Black else White)"
  shows "space_inv (vs_space v)" "space_sweepable (vs_space v)" "ls_ok (sp_precise (vs_space v)) (gm_cells (sp_mem (vs_space v)))"
    "large_apart (vs_space v)" "live_cell sp0 c \<Longrightarrow> bm_test (gm_mark (sp_mem (vs_space v))) c = Some (c \<in> R)"
    "live_cell sp0 c \<Longrightarrow> mk (sp_mem (vs_space v)) c = (c \<in> R)"
    "a \<in> set (ls_allocations (sp_precise sp0)) \<Longrightarrow> ls_marked (sp_precise (vs_space v)) a = (ls_marked (sp_precise sp0) a \<or> pa_cell a \<in> R)"
proof -
  let ?sp = "vs_space v"
  have sm: "same_but_marks sp0 ?sp" and q: "quiet mi sp0" using v by (simp_all add: visiting_def)
  note same = same_but_marks_space [OF sm]
  have inv0: "space_inv sp0" and out0: "large_outside mi sp0" and ls0: "ls_ok (sp_precise sp0) (gm_cells (sp_mem sp0))"
    using q by (simp_all add: quiet_def)
  have b0: "blocks_inv (live_cell sp0) sp0" using inv0 by (simp add: space_inv_def)
  have obj: "is_gc_object sp0 c" if "live_cell sp0 c" for c using that by (simp add: is_gc_object_def)
  show inv: "space_inv ?sp" by (rule same(6) [OF inv0])
  show mkR: "mk (sp_mem ?sp) c = (c \<in> R)" if "live_cell sp0 c" for c
    using v col obj [OF that] that by (auto simp: visiting_def live_cell_def split: if_splits)
  show "bm_test (gm_mark (sp_mem ?sp)) c = Some (c \<in> R)" if c: "live_cell sp0 c"
  proof -
    have "in_region (sp_blocks sp0) c" using inv_cell(6) [OF b0] c by (simp add: live_cell_def)
    then have "bm_ok (gm_mark (sp_mem ?sp))" "covers (gm_mark (sp_mem ?sp)) c"
      using sm inv0 by (simp_all add: same_but_marks_def space_inv_def maps_inv_def map_ok_def)
    then show ?thesis using bm_test_eq mkR [OF c] by simp
  qed
  show "ls_marked (sp_precise ?sp) a = (ls_marked (sp_precise sp0) a \<or> pa_cell a \<in> R)" if a: "a \<in> set (ls_allocations (sp_precise sp0))"
  proof -
    have "is_gc_object sp0 (pa_cell a)" using a by (auto simp: is_gc_object_def)
    then show ?thesis using v col a by (auto simp: visiting_def split: if_splits)
  qed
  show "large_apart ?sp"
  proof -
    have "pa_cell a \<notin> all_cells sp0" if "a \<in> set (ls_allocations (sp_precise sp0))" for a
      using out0 that inv_cell(6) [OF b0] unfolding large_outside_def by blast
    then show ?thesis using same(1) sm by (simp add: large_apart_def same_but_marks_def)
  qed
  show "space_sweepable ?sp"
    unfolding space_sweepable_def same(1)
  proof
    fix d assume d: "d \<in> all_cells sp0"
    have lvd: "lv (sp_mem ?sp) d = live_cell sp0 d" using sm d by (simp add: same_but_marks_def live_cell_def)
    show "sweepable (sp_mem ?sp) d"
    proof (cases "live_cell sp0 d")
      case True
      then obtain h where h: "header_of ?sp d = Some h"
        "cell_state h = DEFINETELY_WHITE \<or> cell_state h = POSSIBLY_GREY \<or> cell_state h = POSSIBLY_BLACK"
        using v obj unfolding visiting_def by metis
      moreover have "cell_state h \<noteq> POSSIBLY_GREY" using col obj [OF True] h(1) by (auto simp: cell_colour_def split: if_splits)
      ultimately show ?thesis using lvd True by (auto simp: sweepable_def header_of_def)
    next
      case False
      then show ?thesis using v d lvd by (simp add: visiting_def sweepable_def)
    qed
  qed
  show "ls_ok (sp_precise ?sp) (gm_cells (sp_mem ?sp))"
    unfolding ls_ok_def
  proof (intro conjI allI ballI)
    show "distinct (ls_allocations (sp_precise ?sp))" "0 \<notin> set (ls_allocations (sp_precise ?sp))"
      using ls0 sm by (simp_all add: ls_ok_def same_but_marks_def)
    show "(\<exists>p. ls_headers (sp_precise ?sp) a = Some p) = (a \<in> set (ls_allocations (sp_precise ?sp)))" for a
    proof -
      have "map_option pa_cell_size (ls_headers (sp_precise ?sp) a) = map_option pa_cell_size (ls_headers (sp_precise sp0) a)"
        using sm by (simp add: same_but_marks_def)
      then have "(\<exists>p. ls_headers (sp_precise ?sp) a = Some p) = (\<exists>p. ls_headers (sp_precise sp0) a = Some p)"
        by (cases "ls_headers (sp_precise ?sp) a"; cases "ls_headers (sp_precise sp0) a") auto
      then show ?thesis using ls0 sm by (simp add: ls_ok_def same_but_marks_def)
    qed
    show "gm_cells (sp_mem ?sp) (pa_cell a) \<noteq> None" if "a \<in> set (ls_allocations (sp_precise ?sp))" for a
    proof -
      have "is_gc_object sp0 (pa_cell a)" using that sm by (simp add: is_gc_object_def same_but_marks_def)
      then show ?thesis using v by (auto simp: visiting_def header_of_def)
    qed
  qed
qed

text \<open>Marking from the start set ends, with exactly the survivors black.\<close>

lemma marking_ends:
  assumes q: "quiet mi sp" and ns: "\<forall>n. \<not> spur n"
    and tr: "\<forall>c d. is_gc_object sp c \<longrightarrow> d \<in> set (trace c) \<longrightarrow> exact_address sp d" and st: "\<forall>d \<in> set starts. exact_address sp d"
  shows "\<exists>v1 v. visit_list spur mi starts (visitor_new sp) = Some v1 \<and> process_worklist spur mi trace v1 = Some (Some v) \<and>
    visiting spur mi trace sp v \<and>
    (\<forall>c. is_gc_object sp c \<longrightarrow> cell_colour (vs_space v) c = (if c \<in> reachable (is_gc_object sp) trace (set starts) then Black else White))"
proof -
  let ?v0 = "visitor_new sp"
  have hd: "\<exists>h. header_of sp c = Some h \<and> cell_state h = DEFINETELY_WHITE" if "is_gc_object sp c" for c using q that by (simp add: quiet_def)
  have white: "cell_colour sp c = White" if "is_gc_object sp c" for c using hd [OF that] white_iff by blast
  have unmarked: "\<not> mk (sp_mem sp) c" if "c \<in> all_cells sp" for c
    using q that inv_cell(6) unfolding quiet_def space_inv_def by blast
  have "same_but_marks sp sp"
    using q by (auto simp: same_but_marks_def quiet_def space_inv_def maps_inv_def map_ok_def same_object_def split: option.split)
  then have v0: "visiting spur mi trace sp ?v0"
    unfolding visiting_def
  proof (intro conjI)
    show "\<forall>c. is_gc_object sp c \<longrightarrow> (\<exists>h. header_of (vs_space ?v0) c = Some h \<and>
        (cell_state h = DEFINETELY_WHITE \<or> cell_state h = POSSIBLY_GREY \<or> cell_state h = POSSIBLY_BLACK))"
      using hd by (auto simp: visitor_new_def)
    show "\<forall>c \<in> all_cells sp. mk (sp_mem (vs_space ?v0)) c = (live_cell sp c \<and> cell_colour (vs_space ?v0) c \<noteq> White)"
      using unmarked white by (auto simp: visitor_new_def is_gc_object_def)
    show "marks_on_cells sp (vs_space ?v0)"
      using q by (simp add: quiet_def marks_on_cells_def visitor_new_def)
    show "\<forall>a \<in> set (ls_allocations (sp_precise sp)). ls_marked (sp_precise (vs_space ?v0)) a =
        (ls_marked (sp_precise sp) a \<or> cell_colour (vs_space ?v0) (pa_cell a) \<noteq> White)"
      using white by (auto simp: visitor_new_def is_gc_object_def)
  qed (use q ns tr in \<open>simp_all add: visitor_new_def\<close>)
  obtain v1 n v where v: "worklist.visit_all (visit_raw spur mi) starts ?v0 = Some v1"
    "worklist.run vs_queue trace (visit_raw spur mi) (pop_grey spur) n v1 = Some v" "visiting spur mi trace sp v"
    "\<forall>c. is_gc_object sp c \<longrightarrow> cell_colour (vs_space v) c = (if c \<in> reachable (is_gc_object sp) trace (set starts) then Black else White)"
  proof -
    have "vs_queue ?v0 = []" "\<forall>c. is_gc_object sp c \<longrightarrow> cell_colour (vs_space ?v0) c = White" using white by (simp_all add: visitor_new_def)
    from marker.marks_reachable [OF v0 this st] that show ?thesis by blast
  qed
  with process_run [OF v(2)] show ?thesis by (auto simp: visit_list_all)
qed

lemma collect_spec:
  assumes hq: "heap_quiet mi hp" and ns: "\<forall>n. \<not> spur n" and df: "hp_defers hp = 0" and st8: "8 \<le> max origin sp"
    and tr: "\<forall>c d. is_gc_object (hp_space hp) c \<longrightarrow> d \<in> set (trace c) \<longrightarrow> exact_address (hp_space hp) d"
    and st: "\<forall>d \<in> set (start_set word_at origin sp roots). exact_address (hp_space hp) d"
  defines "R \<equiv> survivors trace (start_set word_at origin sp roots) hp"
  shows "\<exists>hp'. collect_internal spur mi trace word_at origin sp roots hp = Some (Some hp') \<and>
    (\<forall>c. live_cell (hp_space hp') c = (live_cell (hp_space hp) c \<and> c \<in> R)) \<and>
    ls_allocations (sp_precise (hp_space hp')) =
      filter (\<lambda>a. ls_marked (sp_precise (hp_space hp)) a \<or> pa_cell a \<in> R) (ls_allocations (sp_precise (hp_space hp))) \<and>
    (\<forall>c. is_gc_object (hp_space hp') c \<longrightarrow> header_of (hp_space hp') c = header_of (hp_space hp) c) \<and>
    hp_weak_refs hp' = filter (\<lambda>w. w \<in> R) (hp_weak_refs hp) \<and>
    (\<forall>w \<in> set (hp_weak_refs hp). hp_weak_value hp' w = (case hp_weak_value hp w of None \<Rightarrow> None | Some t \<Rightarrow> if t \<in> R then Some t else None)) \<and>
    hp_allocated hp' = bytes_in (hp_space hp') {c. live_cell (hp_space hp') c} +
      (\<Sum>a \<leftarrow> ls_allocations (sp_precise (hp_space hp')). large_size (sp_precise (hp_space hp')) a) \<and>
    heap_quiet mi hp'"
proof -
  let ?sp0 = "hp_space hp"
  have q: "quiet mi ?sp0" using hq by (simp add: heap_quiet_def)
  obtain v1 v where v: "visit_list spur mi (start_set word_at origin sp roots) (visitor_new ?sp0) = Some v1"
    "process_worklist spur mi trace v1 = Some (Some v)" "visiting spur mi trace ?sp0 v"
    "\<forall>c. is_gc_object ?sp0 c \<longrightarrow> cell_colour (vs_space v) c = (if c \<in> R then Black else White)"
    using marking_ends [OF q ns tr st] by (auto simp: R_def survivors_def)
  note d = marking_done [OF v(3,4)]
  have sm: "same_but_marks ?sp0 (vs_space v)" using v(3) by (simp add: visiting_def)
  note same = same_but_marks_space [OF sm]
  let ?S = "vs_space v" and ?b = "gm_mark (sp_mem (vs_space v))"
  obtain n sp' where sw: "space_sweep ?S = Some (n, sp')"
    "n = bytes_in sp' {c. live_cell sp' c} + (\<Sum>a \<leftarrow> ls_allocations (sp_precise sp'). large_size (sp_precise sp') a)"
    "\<forall>c. live_cell sp' c = (live_cell ?S c \<and> mk (sp_mem ?S) c)"
    "ls_allocations (sp_precise sp') = filter (ls_marked (sp_precise ?S)) (ls_allocations (sp_precise ?S))"
    "\<forall>c. live_cell sp' c \<longrightarrow> \<not> mk (sp_mem sp') c \<and> cell_size_at sp' c = cell_size_at ?S c \<and>
       gm_cells (sp_mem sp') c = map_option (force_set_state DEFINETELY_WHITE) (gm_cells (sp_mem ?S) c)"
    "\<forall>a \<in> set (ls_allocations (sp_precise sp')).
       gm_cells (sp_mem sp') (pa_cell a) = map_option (force_set_state DEFINETELY_WHITE) (gm_cells (sp_mem ?S) (pa_cell a))"
    "\<forall>c \<in> all_cells ?S. \<not> mk (sp_mem sp') c" "\<forall>p. in_region (sp_blocks ?S) p \<longrightarrow> mk (sp_mem sp') p \<longrightarrow> mk (sp_mem ?S) p"
    "same_region (sp_blocks ?S) (sp_blocks sp')"
    "space_inv sp'" "ls_ok (sp_precise sp') (gm_cells (sp_mem sp'))"
    using space_sweep_spec [OF d(1-4)] by blast
  have weak: "live_cell ?sp0 w" "hp_weak_value hp w = Some t \<Longrightarrow> live_cell ?sp0 t" if "w \<in> set (hp_weak_refs hp)" for w t
    using hq that by (simp_all add: heap_quiet_def)
  have up: "update_weak ?b (hp_weak_refs hp) (hp_weak_value hp) =
      Some (\<lambda>w. if w \<in> set (hp_weak_refs hp) \<and> (\<forall>t. hp_weak_value hp w = Some t \<longrightarrow> \<not> t \<in> R) then None else hp_weak_value hp w)"
    by (rule update_weak_spec) (use weak d(5) in blast)
  have re: "retain_weak ?b (hp_weak_refs hp) = Some (filter (\<lambda>w. w \<in> R) (hp_weak_refs hp))"
    by (rule retain_weak_spec) (use weak d(5) in blast)
  let ?val = "\<lambda>w. if w \<in> set (hp_weak_refs hp) \<and> (\<forall>t. hp_weak_value hp w = Some t \<longrightarrow> \<not> t \<in> R) then None else hp_weak_value hp w"
  let ?hp = "hp\<lparr>hp_space := sp', hp_weak_value := ?val, hp_weak_refs := filter (\<lambda>w. w \<in> R) (hp_weak_refs hp), hp_allocated := n,
      hp_max_heap_size := (if n > hp_max_heap_size hp then new_threshold n else hp_max_heap_size hp)\<rparr>"
  have fin: "finish_collection v hp = Some ?hp" using up re sw(1) by (simp add: finish_collection_def)
  have col: "collect_internal spur mi trace word_at origin sp roots hp = Some (Some ?hp)"
  proof -
    obtain u where u: "visit_list spur mi (stack_words word_at (min origin sp) ((max origin sp - 8 - min origin sp + 7) div 8)) (visitor_new ?sp0) = Some u"
      "visit_list spur mi (concat roots) u = Some v1"
      using v(1) by (auto simp: start_set_def visit_list_append bind_eq_Some_conv)
    then have "add_conservative spur mi word_at origin sp (visitor_new ?sp0) = Some u"
    proof -
      have "\<not> max origin sp < 8" using st8 unfolding not_less .
      then show ?thesis using u(1) by (simp only: add_conservative_def Let_def scan_words_list if_False)
    qed
    then show ?thesis using df u(2) v(2) fin by (simp add: collect_internal_def)
  qed
  have live: "live_cell sp' c = (live_cell ?sp0 c \<and> c \<in> R)" for c using sw(3) d(6) [of c] same(2) by auto
  have large: "ls_allocations (sp_precise sp') = filter (\<lambda>a. ls_marked (sp_precise ?sp0) a \<or> pa_cell a \<in> R) (ls_allocations (sp_precise ?sp0))"
    using sw(4) d(7) sm by (auto simp: same_but_marks_def intro: filter_cong)
  have old: "is_gc_object ?sp0 c" if "is_gc_object sp' c" for c
    using that live large by (auto simp: is_gc_object_def)
  have header: "header_of sp' c = header_of ?sp0 c \<and> (\<exists>h. header_of ?sp0 c = Some h \<and> cell_state h = DEFINETELY_WHITE)"
    if c: "is_gc_object sp' c" for c
  proof -
    obtain h0 where h0: "header_of ?sp0 c = Some h0" "cell_state h0 = DEFINETELY_WHITE"
      using q old [OF c] by (auto simp: quiet_def)
    have "header_of sp' c = map_option (force_set_state DEFINETELY_WHITE) (header_of ?S c)"
      using c sw(5,6) by (auto simp: is_gc_object_def header_of_def)
    moreover have "same_object (Some h0) (header_of ?S c)" using sm h0(1) by (metis same_but_marks_def)
    ultimately show ?thesis using same_white_header h0 by simp
  qed
  have on: "marks_on_cells ?sp0 ?S" using v(3) by (simp add: visiting_def)
  have unmarked: "\<not> mk (sp_mem sp') p" if p: "in_region (sp_blocks sp') p" for p
  proof
    assume m: "mk (sp_mem sp') p"
    have p0: "in_region (sp_blocks ?S) p" "in_region (sp_blocks ?sp0) p"
      using p same_region_in [OF sw(9)] sm by (simp_all add: same_but_marks_def)
    then have "mk (sp_mem ?S) p" using sw(8) m by blast
    then obtain c where c: "c \<in> all_cells ?sp0" "granule (gm_mark (sp_mem ?sp0)) p = granule (gm_mark (sp_mem ?sp0)) c"
      using on p0(2) unfolding marks_on_cells_def by blast
    have st: "bs_start (sp_blocks sp') = bs_start (sp_blocks ?sp0)"
      using sw(9) sm by (simp add: same_region_def same_but_marks_def)
    have c0: "in_region (sp_blocks ?sp0) c" "in_region (sp_blocks sp') c"
      using q c(1) inv_cell(6) same_region_in [OF sw(9)] sm unfolding quiet_def space_inv_def same_but_marks_def by metis+
    have g0: "granule (gm_mark (sp_mem ?sp0)) x = (x - bs_start (sp_blocks ?sp0)) div 16" if "in_region (sp_blocks ?sp0) x" for x
      using q that by (simp add: quiet_def space_inv_def maps_inv_def map_ok_def)
    have g1: "granule (gm_mark (sp_mem sp')) x = (x - bs_start (sp_blocks ?sp0)) div 16" if "in_region (sp_blocks sp') x" for x
      using sw(10) that st by (simp add: space_inv_def maps_inv_def map_ok_def)
    have "granule (gm_mark (sp_mem sp')) p = granule (gm_mark (sp_mem sp')) c"
      using c(2) g0 [OF p0(2)] g0 [OF c0(1)] g1 [OF p] g1 [OF c0(2)] by simp
    then have "mk (sp_mem sp') c" using m by (simp add: marked_def)
    then show False using sw(7) c(1) same(1) by simp
  qed
  have "quiet mi sp'"
    unfolding quiet_def
  proof (intro conjI)
    show "large_outside mi sp'"
      using q large sw(9) sm same_region_in [OF sw(9)] by (auto simp: quiet_def large_outside_def same_but_marks_def)
    show "\<forall>c. is_gc_object sp' c \<longrightarrow> (\<exists>h. header_of sp' c = Some h \<and> cell_state h = DEFINETELY_WHITE)" using header by auto
  qed (use sw(10,11) unmarked in simp_all)
  moreover have "\<forall>w \<in> set (hp_weak_refs ?hp). live_cell sp' w \<and> (\<forall>t. hp_weak_value ?hp w = Some t \<longrightarrow> live_cell sp' t)"
    using weak live by (auto split: if_splits)
  ultimately have "heap_quiet mi ?hp" by (simp add: heap_quiet_def)
  with col live large header sw(2) show ?thesis
    by (intro exI [of _ ?hp]) (auto split: option.split)
qed


section \<open>Allocation between collections\<close>

lemma heap_allocate_small:
  assumes hq: "heap_quiet mi hp" and white: "hp_allocation_color hp = DEFINETELY_WHITE" and sz: "sz + 16 \<le> LARGE_CUTOFF"
  shows "(heap_allocate malloc sz vt ty hp = None \<and> available_blocks (sp_blocks (hp_space hp)) = Some 0) \<or>
    (\<exists>p hp'. heap_allocate malloc sz vt ty hp = Some (p, hp') \<and> p \<noteq> 0 \<and> \<not> is_gc_object (hp_space hp) p \<and>
       live_cell (hp_space hp') = (live_cell (hp_space hp))(p := True) \<and> sz + 16 \<le> cell_size_at (hp_space hp') p \<and>
       header_of (hp_space hp') = (header_of (hp_space hp))(p \<mapsto> force_set_state DEFINETELY_WHITE (base_new vt ty)) \<and>
       sp_precise (hp_space hp') = sp_precise (hp_space hp) \<and>
       hp' = hp\<lparr>hp_allocated := hp_allocated hp + cell_size_at (hp_space hp') p, hp_space := hp_space hp'\<rparr> \<and>
       same_region (sp_blocks (hp_space hp)) (sp_blocks (hp_space hp')) \<and> heap_quiet mi hp')"
proof -
  let ?sp = "hp_space hp" and ?h = "force_set_state DEFINETELY_WHITE (base_new vt ty)"
  have q: "quiet mi ?sp" and inv: "space_inv ?sp" using hq by (simp_all add: heap_quiet_def quiet_def)
  have alloc: "(space_allocate malloc (sz + 16) (hp_allocated hp) ?sp = None \<and> available_blocks (sp_blocks ?sp) = Some 0) \<or>
    (\<exists>p sp'. space_allocate malloc (sz + 16) (hp_allocated hp) ?sp = Some (p, hp_allocated hp + cell_size_at sp' p, sp') \<and> space_inv sp' \<and>
       \<not> live_cell ?sp p \<and> live_cell sp' = (live_cell ?sp)(p := True) \<and> sz + 16 \<le> cell_size_at sp' p \<and>
       (\<forall>d. live_cell ?sp d \<longrightarrow> d + cell_size_at ?sp d \<le> p \<or> p + cell_size_at sp' p \<le> d) \<and>
       gm_cells (sp_mem sp') = gm_cells (sp_mem ?sp) \<and> gm_mark (sp_mem sp') = gm_mark (sp_mem ?sp) \<and> sp_precise sp' = sp_precise ?sp \<and>
       same_region (sp_blocks ?sp) (sp_blocks sp'))"
    using sz by (intro space_allocate_small [OF inv]) simp_all
  then show ?thesis
  proof (elim disjE exE conjE)
    assume "space_allocate malloc (sz + 16) (hp_allocated hp) ?sp = None" "available_blocks (sp_blocks ?sp) = Some 0"
    then show ?thesis by (simp add: heap_allocate_def)
  next
    fix p sp1
    assume s: "space_allocate malloc (sz + 16) (hp_allocated hp) ?sp = Some (p, hp_allocated hp + cell_size_at sp1 p, sp1)" "space_inv sp1"
      "\<not> live_cell ?sp p" "live_cell sp1 = (live_cell ?sp)(p := True)" "sz + 16 \<le> cell_size_at sp1 p"
      "gm_cells (sp_mem sp1) = gm_cells (sp_mem ?sp)" "gm_mark (sp_mem sp1) = gm_mark (sp_mem ?sp)" "sp_precise sp1 = sp_precise ?sp"
      "same_region (sp_blocks ?sp) (sp_blocks sp1)"
    have lp: "live_cell sp1 p" using s(4) by simp
    then have pc: "p \<in> all_cells sp1" "blocks_inv (live_cell sp1) sp1" using s(2) by (simp_all add: live_cell_def space_inv_def)
    then have pos: "p \<noteq> 0" using inv_cell(4) by fastforce
    let ?sp2 = "put_header p ?h sp1" and ?hp = "hp\<lparr>hp_allocated := hp_allocated hp + cell_size_at sp1 p, hp_space := put_header p ?h sp1\<rparr>"
    have run: "heap_allocate malloc sz vt ty hp = Some (p, ?hp)"
      using s(1) pos white by (simp add: heap_allocate_def)
    have reg: "in_region (sp_blocks sp1) = in_region (sp_blocks ?sp)"
      using same_region_in [OF s(9)] by simp
    have e: "all_cells ?sp2 = all_cells sp1" "live_cell ?sp2 = live_cell sp1" "cell_size_at ?sp2 = cell_size_at sp1" "all_blocks ?sp2 = all_blocks sp1"
      by (simp_all add: all_cells_def all_blocks_def live_cell_def [abs_def] cell_size_at_def [abs_def])
    have inv2: "space_inv ?sp2" using s(2) by (simp add: space_inv_def blocks_inv_def maps_inv_def e)
    have "in_region (sp_blocks ?sp) p" using inv_cell(6) pc reg by metis
    then have notlarge: "p \<noteq> pa_cell a" if "a \<in> set (ls_allocations (sp_precise ?sp))" for a
      using q that by (auto simp: quiet_def large_outside_def)
    have hdr: "header_of ?sp2 = (header_of ?sp)(p \<mapsto> ?h)" using s(6) by (auto simp: header_of_def put_header_def)
    have obj: "is_gc_object ?sp2 c = (is_gc_object ?sp c \<or> c = p)" for c using s(4,8) e by (auto simp: is_gc_object_def)
    have q2: "quiet mi ?sp2"
      unfolding quiet_def
    proof (intro conjI inv2)
      show "large_outside mi ?sp2" using q s(8) reg by (simp add: quiet_def large_outside_def)
      show "ls_ok (sp_precise ?sp2) (gm_cells (sp_mem ?sp2))"
        using q s(6,8) by (auto simp: quiet_def ls_ok_def put_header_def)
      show "\<forall>c. is_gc_object ?sp2 c \<longrightarrow> (\<exists>h. header_of ?sp2 c = Some h \<and> cell_state h = DEFINETELY_WHITE)"
        using q hdr obj by (auto simp: quiet_def)
      show "\<forall>c. in_region (sp_blocks ?sp2) c \<longrightarrow> \<not> mk (sp_mem ?sp2) c"
        using q s(7) reg by (simp add: quiet_def)
    qed
    have "heap_quiet mi ?hp" using hq q2 e s(4) by (auto simp: heap_quiet_def)
    moreover have "\<not> is_gc_object ?sp p" using s(3) notlarge by (auto simp: is_gc_object_def)
    ultimately show ?thesis using run pos e s(4,5,8,9) hdr
      by (intro disjI2 exI [of _ p] exI [of _ ?hp]) simp
  qed
qed

text \<open>
  What a request for a large object relies on: mimalloc answers with a region that is not null and
  aligned to eight bytes, and that is new: not the place of a large object that is still allocated,
  not inside the region of the blocks, and known to \<open>mi_heap_contains_block\<close>.
\<close>

definition malloc_gives_new :: "(nat \<Rightarrow> nat) \<Rightarrow> (nat \<Rightarrow> bool) \<Rightarrow> nat \<Rightarrow> gc_space \<Rightarrow> bool" where
  "malloc_gives_new malloc mi n sp \<longleftrightarrow> malloc (header_size + n + HALF_ALIGNMENT) mod 8 = 0 \<and>
     (let a = large_header_at malloc n in
      a \<noteq> 0 \<and> a \<notin> set (ls_allocations (sp_precise sp)) \<and> \<not> in_region (sp_blocks sp) (pa_cell a) \<and> mi a)"

lemma heap_allocate_large:
  assumes hq: "heap_quiet mi hp" and white: "hp_allocation_color hp = DEFINETELY_WHITE" and sz: "LARGE_CUTOFF < sz + 16"
    and new: "malloc_gives_new malloc mi (sz + 16) (hp_space hp)"
  shows "\<exists>a hp'. heap_allocate malloc sz vt ty hp = Some (pa_cell a, hp') \<and> \<not> is_gc_object (hp_space hp) (pa_cell a) \<and>
       live_cell (hp_space hp') = live_cell (hp_space hp) \<and>
       ls_allocations (sp_precise (hp_space hp')) = ls_allocations (sp_precise (hp_space hp)) @ [a] \<and>
       large_size (sp_precise (hp_space hp')) a = sz + 16 \<and> \<not> ls_marked (sp_precise (hp_space hp')) a \<and>
       (\<forall>b. b \<noteq> a \<longrightarrow> ls_headers (sp_precise (hp_space hp')) b = ls_headers (sp_precise (hp_space hp)) b) \<and>
       header_of (hp_space hp') = (header_of (hp_space hp))(pa_cell a \<mapsto> force_set_state DEFINETELY_WHITE (base_new vt ty)) \<and>
       hp_allocated hp' = hp_allocated hp + (sz + 16) \<and> heap_quiet mi hp'"
proof -
  let ?sp = "hp_space hp" and ?h = "force_set_state DEFINETELY_WHITE (base_new vt ty)"
  obtain a where a: "large_header_at malloc (sz + 16) = a" by blast
  have q: "quiet mi ?sp" using hq by (simp add: heap_quiet_def)
  have n: "malloc (header_size + (sz + 16) + HALF_ALIGNMENT) mod 8 = 0" "a \<noteq> 0" "a \<notin> set (ls_allocations (sp_precise ?sp))"
    "\<not> in_region (sp_blocks ?sp) (pa_cell a)" "mi a"
    using new a by (simp_all add: malloc_gives_new_def)
  have ok: "ls_ok (sp_precise ?sp) (gm_cells (sp_mem ?sp))" using q by (simp add: quiet_def)
  obtain ls where ls: "ls_alloc malloc (sz + 16) (hp_allocated hp) (sp_precise ?sp) = Some (pa_cell a, hp_allocated hp + (sz + 16), ls)"
    "ls_allocations ls = ls_allocations (sp_precise ?sp) @ [a]" "ls_ok ls ((gm_cells (sp_mem ?sp))(pa_cell a \<mapsto> ?h))"
    "large_size ls a = sz + 16" "\<not> ls_marked ls a" "\<forall>b. b \<noteq> a \<longrightarrow> ls_headers ls b = ls_headers (sp_precise ?sp) b"
    using ls_alloc_spec [OF ok _ n(1) a n(2,3), of "hp_allocated hp" ?h] by auto
  let ?sp2 = "put_header (pa_cell a) ?h (?sp\<lparr>sp_precise := ls\<rparr>)"
  let ?hp = "hp\<lparr>hp_allocated := hp_allocated hp + (sz + 16), hp_space := ?sp2\<rparr>"
  have run: "heap_allocate malloc sz vt ty hp = Some (pa_cell a, ?hp)"
    using ls(1) sz white n(2) by (simp add: heap_allocate_def space_allocate_def pa_cell_def)
  have e: "all_cells ?sp2 = all_cells ?sp" "live_cell ?sp2 = live_cell ?sp" "cell_size_at ?sp2 = cell_size_at ?sp" "all_blocks ?sp2 = all_blocks ?sp"
    by (simp_all add: all_cells_def all_blocks_def live_cell_def [abs_def] cell_size_at_def [abs_def] put_header_def)
  have f: "sp_blocks ?sp2 = sp_blocks ?sp" "sp_precise ?sp2 = ls" "gm_mark (sp_mem ?sp2) = gm_mark (sp_mem ?sp)"
    "gm_live (sp_mem ?sp2) = gm_live (sp_mem ?sp)" by (simp_all add: put_header_def)
  have inv: "space_inv ?sp" using q by (simp add: quiet_def)
  then have inv2: "space_inv ?sp2"
    by (simp add: space_inv_def blocks_inv_def maps_inv_def e)
  have hdr: "header_of ?sp2 = (header_of ?sp)(pa_cell a \<mapsto> ?h)" by (auto simp: header_of_def put_header_def)
  have obj: "is_gc_object ?sp2 c = (is_gc_object ?sp c \<or> c = pa_cell a)" for c using e ls(2) f(2) by (auto simp: is_gc_object_def)
  have "\<not> live_cell ?sp (pa_cell a)" using inv n(4) inv_cell(6) by (auto simp: space_inv_def live_cell_def)
  then have fresh: "\<not> is_gc_object ?sp (pa_cell a)" using n(3) by (auto simp: is_gc_object_def)
  have "quiet mi ?sp2"
    unfolding quiet_def
  proof (intro conjI inv2)
    show "large_outside mi ?sp2" using q n(4,5) ls(2) f by (auto simp: quiet_def large_outside_def)
    show "ls_ok (sp_precise ?sp2) (gm_cells (sp_mem ?sp2))" using ls(3) by (simp add: put_header_def)
    show "\<forall>c. is_gc_object ?sp2 c \<longrightarrow> (\<exists>h. header_of ?sp2 c = Some h \<and> cell_state h = DEFINETELY_WHITE)"
      using q hdr obj by (auto simp: quiet_def)
    show "\<forall>c. in_region (sp_blocks ?sp2) c \<longrightarrow> \<not> mk (sp_mem ?sp2) c" using q f by (simp add: quiet_def)
  qed
  then have "heap_quiet mi ?hp" using hq e by (auto simp: heap_quiet_def)
  then show ?thesis using run fresh e(2) ls(2,4,5,6) hdr f(2)
    by (intro exI [of _ a] exI [of _ ?hp]) simp
qed

end
