(* ===== verification/Gc_Props.thy ===== *)
theory Gc_Props
  imports Gc_Collect
begin

text \<open>
  The properties of the collector over the whole heap: a new heap is quiet, allocation keeps it so,
  and a collection keeps exactly what is reachable.
\<close>

section \<open>A new heap\<close>

lemma space_new_region:
  "space_new start cap approx = Some (Some sp) \<Longrightarrow>
     bs_start (sp_blocks sp) = start \<and> bs_data_bound (sp_blocks sp) = start + cap \<and> gm_mark (sp_mem sp) = bm_create start cap"
  by (auto simp: space_new_def bind_eq_Some_conv block_allocator_new_def Let_def split: if_splits)

lemma quiet_new:
  assumes n: "n < 2 ^ 53" "even n" "start + 1024 * n < 2 ^ 64" "BLOCK_SIZE \<le> 1024 * n"
    and approx: "\<forall>j. PRECISE_CUTOFF \<le> approx j" "LARGE_CUTOFF \<le> approx k"
  shows "\<exists>hp. heap_new start (1024 * n) approx = Some (Some hp) \<and> heap_quiet mi hp \<and> (\<forall>c. \<not> is_gc_object (hp_space hp) c) \<and>
    hp_allocation_color hp = DEFINETELY_WHITE \<and> hp_defers hp = 0 \<and> hp_weak_refs hp = [] \<and>
    space_new start (1024 * n) approx = Some (Some (hp_space hp))"
proof -
  obtain sp where sp: "space_new start (1024 * n) approx = Some (Some sp)" "space_inv sp" "all_cells sp = {}"
    "sp_precise sp = large_space_new" "gm_cells (sp_mem sp) = (\<lambda>_. None)"
    using space_new_spec [OF assms] by blast
  note reg = space_new_region [OF sp(1)]
  have no: "\<not> is_gc_object sp c" for c using sp(3,4) by (simp add: is_gc_object_def live_cell_def large_space_new_def)
  have "\<not> mk (sp_mem sp) p" if "in_region (sp_blocks sp) p" for p
    using new_map_ok(2) [OF n(1-3), of "sp_blocks sp" p] that reg by simp
  then have "quiet mi sp"
    using sp(2,4) no by (simp add: quiet_def large_outside_def large_space_new_def ls_ok_def)
  then show ?thesis using sp(1) no by (simp add: heap_new_def heap_quiet_def)
qed

text \<open>
  A new heap is quiet: \<open>Heap::new\<close> on a capacity that is an even number of kilobytes and holds a
  block returns a heap with no object, no mark in the region and no weak reference.
\<close>

theorem heap_new_quiet:
  assumes "n < 2 ^ 53" "even n" "start + 1024 * n < 2 ^ 64" "BLOCK_SIZE \<le> 1024 * n"
    "\<forall>j. PRECISE_CUTOFF \<le> approx j" "LARGE_CUTOFF \<le> approx k"
  shows "\<exists>hp. heap_new start (1024 * n) approx = Some (Some hp) \<and> heap_quiet mi hp \<and>
    (\<forall>c. \<not> is_gc_object (hp_space hp) c) \<and> hp_weak_refs hp = [] \<and> hp_allocated hp < hp_max_heap_size hp"
proof -
  obtain hp where "heap_new start (1024 * n) approx = Some (Some hp)" "heap_quiet mi hp" "\<forall>c. \<not> is_gc_object (hp_space hp) c" "hp_weak_refs hp = []"
    using quiet_new [OF assms] by metis
  moreover from this have "hp_allocated hp < hp_max_heap_size hp" by (auto simp: heap_new_def)
  ultimately show ?thesis by blast
qed

theorem heap_new_quiet_witness:
  "\<exists>hp. heap_new 4096 (1024 * 64) (\<lambda>i. 80 + 1000 * i) = Some (Some hp) \<and> heap_quiet (\<lambda>_. True) hp"
  using heap_new_quiet [of 64 4096 "\<lambda>i. 80 + 1000 * i" 9] by (auto simp: PRECISE_CUTOFF_def cutoff BLOCK_SIZE_def)

section \<open>Allocation\<close>

text \<open>
  C16. Allocating from a quiet heap gives a new white object and keeps the heap quiet, for a value
  of any size. Up to \<open>LARGE_CUTOFF\<close> bytes with the header the object is a cell: unless the heap is
  exhausted (then it panics), the address was no object, the cell becomes live and has room for the
  header and the value. Above, the object is appended to the large objects, with a header that has its
  exact size and no mark, given that mimalloc answers with a new region (\<open>malloc_gives_new\<close>). In both
  cases the header carries the vtable and the type id in the white state, the headers of all other
  objects are as they were, and \<open>allocated\<close> grows by the size of the object.
\<close>

theorem allocation_keeps_quiet:
  assumes "heap_quiet mi hp" "hp_allocation_color hp = DEFINETELY_WHITE"
    "LARGE_CUTOFF < sz + 16 \<Longrightarrow> malloc_gives_new malloc mi (sz + 16) (hp_space hp)"
  shows "(heap_allocate malloc sz vt ty hp = None \<and> sz + 16 \<le> LARGE_CUTOFF \<and> available_blocks (sp_blocks (hp_space hp)) = Some 0) \<or>
    (\<exists>p hp'. heap_allocate malloc sz vt ty hp = Some (p, hp') \<and> heap_quiet mi hp' \<and> \<not> is_gc_object (hp_space hp) p \<and>
       header_of (hp_space hp') = (header_of (hp_space hp))(p \<mapsto> force_set_state DEFINETELY_WHITE (base_new vt ty)) \<and>
       (if sz + 16 \<le> LARGE_CUTOFF
        then live_cell (hp_space hp') = (live_cell (hp_space hp))(p := True) \<and> sz + 16 \<le> cell_size_at (hp_space hp') p \<and>
          hp_allocated hp' = hp_allocated hp + cell_size_at (hp_space hp') p \<and> sp_precise (hp_space hp') = sp_precise (hp_space hp)
        else live_cell (hp_space hp') = live_cell (hp_space hp) \<and> hp_allocated hp' = hp_allocated hp + (sz + 16) \<and>
          (\<exists>a. p = pa_cell a \<and> ls_allocations (sp_precise (hp_space hp')) = ls_allocations (sp_precise (hp_space hp)) @ [a] \<and>
             large_size (sp_precise (hp_space hp')) a = sz + 16 \<and> \<not> ls_marked (sp_precise (hp_space hp')) a \<and>
             (\<forall>b. b \<noteq> a \<longrightarrow> ls_headers (sp_precise (hp_space hp')) b = ls_headers (sp_precise (hp_space hp)) b))))"
proof (cases "sz + 16 \<le> LARGE_CUTOFF")
  case True
  have "hp_allocated hp' = hp_allocated hp + n" if "hp' = hp\<lparr>hp_allocated := hp_allocated hp + n, hp_space := s\<rparr>" for hp' n s
    using that by simp
  then show ?thesis using heap_allocate_small [OF assms(1,2) True, of malloc vt ty] True unfolding if_P [OF True] by blast
next
  case False
  then have large: "LARGE_CUTOFF < sz + 16" by simp
  obtain a hp' where "heap_allocate malloc sz vt ty hp = Some (pa_cell a, hp')" "\<not> is_gc_object (hp_space hp) (pa_cell a)"
    "live_cell (hp_space hp') = live_cell (hp_space hp)"
    "ls_allocations (sp_precise (hp_space hp')) = ls_allocations (sp_precise (hp_space hp)) @ [a]"
    "large_size (sp_precise (hp_space hp')) a = sz + 16" "\<not> ls_marked (sp_precise (hp_space hp')) a"
    "\<forall>b. b \<noteq> a \<longrightarrow> ls_headers (sp_precise (hp_space hp')) b = ls_headers (sp_precise (hp_space hp)) b"
    "header_of (hp_space hp') = (header_of (hp_space hp))(pa_cell a \<mapsto> force_set_state DEFINETELY_WHITE (base_new vt ty))"
    "hp_allocated hp' = hp_allocated hp + (sz + 16)" "heap_quiet mi hp'"
    using heap_allocate_large [OF assms(1,2) large assms(3) [OF large], of vt ty] by blast
  with False show ?thesis by (intro disjI2 exI [of _ "pa_cell a"] exI [of _ hp']) simp
qed

text \<open>A heap with one object.\<close>

lemma example_heap:
  "\<exists>hp p hp'. heap_new 4096 65536 (\<lambda>i. 80 + 1000 * i) = Some (Some hp) \<and> heap_quiet mi hp \<and>
     heap_allocate malloc 40 64 1 hp = Some (p, hp') \<and> heap_quiet mi hp' \<and> live_cell (hp_space hp') p \<and>
     (\<forall>c. is_gc_object (hp_space hp') c \<longrightarrow> c = p) \<and> hp_defers hp' = 0 \<and> \<not> in_region (sp_blocks (hp_space hp')) 0 \<and>
     bs_start (sp_blocks (hp_space hp')) = 4096 \<and>
     ls_allocations (sp_precise (hp_space hp')) = [] \<and> hp_allocation_color hp = DEFINETELY_WHITE \<and>
     bs_data_bound (sp_blocks (hp_space hp')) = 69632 \<and> hp_allocation_color hp' = DEFINETELY_WHITE"
proof -
  have a: "(64::nat) < 2 ^ 53" "even (64::nat)" "4096 + 1024 * 64 < (2::nat) ^ 64" "BLOCK_SIZE \<le> 1024 * 64"
    "\<forall>j::nat. PRECISE_CUTOFF \<le> 80 + 1000 * j" "LARGE_CUTOFF \<le> 80 + 1000 * (9::nat)"
    by (simp_all add: PRECISE_CUTOFF_def cutoff BLOCK_SIZE_def)
  obtain hp where hp: "heap_new 4096 (1024 * 64) (\<lambda>i. 80 + 1000 * i) = Some (Some hp)" "heap_quiet mi hp"
    "\<forall>c. \<not> is_gc_object (hp_space hp) c" "hp_allocation_color hp = DEFINETELY_WHITE" "hp_defers hp = 0"
    "space_new 4096 (1024 * 64) (\<lambda>i. 80 + 1000 * i) = Some (Some (hp_space hp))"
    using quiet_new [OF a, of mi] by blast
  obtain sp where sp: "space_new 4096 65536 (\<lambda>i. 80 + 1000 * i) = Some (Some sp)" "available_blocks (sp_blocks sp) \<noteq> Some 0"
      "sp_precise sp = large_space_new"
    using example_space by blast
  then have sp': "sp = hp_space hp" using hp(6) by simp
  have sz: "40 + 16 \<le> LARGE_CUTOFF" by (simp add: cutoff)
  obtain p hp' where p: "heap_allocate malloc 40 64 1 hp = Some (p, hp')" "live_cell (hp_space hp') = (live_cell (hp_space hp))(p := True)"
    "sp_precise (hp_space hp') = sp_precise (hp_space hp)" "heap_quiet mi hp'"
    "hp' = hp\<lparr>hp_allocated := hp_allocated hp + cell_size_at (hp_space hp') p, hp_space := hp_space hp'\<rparr>"
    "same_region (sp_blocks (hp_space hp)) (sp_blocks (hp_space hp'))"
    using heap_allocate_small [OF hp(2,4) sz, of malloc 64 1] sp(2) sp' by blast
  have start: "bs_start (sp_blocks (hp_space hp')) = 4096" "bs_data_bound (sp_blocks (hp_space hp')) = 69632"
    using space_new_region [OF hp(6)] p(6) by (simp_all add: same_region_def)
  have "hp_allocation_color hp' = DEFINETELY_WHITE" using arg_cong [OF p(5), of hp_allocation_color] hp(4) by simp
  moreover
  have "hp_defers hp' = 0" using p(5) hp(5) by (metis gc_heap.select_convs(4) gc_heap.update_convs(1,2) gc_heap.surjective)
  moreover have "is_gc_object (hp_space hp') c \<longrightarrow> c = p" for c using p(2,3) hp(3) by (auto simp: is_gc_object_def split: if_splits)
  moreover have "\<not> in_region (sp_blocks (hp_space hp')) 0" using start(1) by (simp add: in_region_def)
  moreover have "ls_allocations (sp_precise (hp_space hp')) = []" using p(3) sp(3) sp' by (simp add: large_space_new_def)
  moreover have "live_cell (hp_space hp') p" using p(2) by simp
  ultimately show ?thesis using hp(1,2,4) p(1,4) start by (intro exI [of _ hp] exI [of _ p] exI [of _ hp']) simp
qed

text \<open>A small object first, then a large one, whose header mimalloc puts at 999984.\<close>

theorem allocation_keeps_quiet_witness:
  "\<exists>hp p hp1 q hp2. heap_new 4096 65536 (\<lambda>i. 80 + 1000 * i) = Some (Some hp) \<and>
     heap_allocate (\<lambda>_. 999976) 40 64 1 hp = Some (p, hp1) \<and> heap_quiet (\<lambda>_. True) hp1 \<and> is_gc_object (hp_space hp1) p \<and>
     heap_allocate (\<lambda>_. 999976) 9000 72 2 hp1 = Some (q, hp2) \<and> heap_quiet (\<lambda>_. True) hp2 \<and>
     ls_allocations (sp_precise (hp_space hp2)) = [999984] \<and> header_of (hp_space hp2) p = header_of (hp_space hp1) p"
proof -
  obtain hp p hp1 where hp: "heap_new 4096 65536 (\<lambda>i. 80 + 1000 * i) = Some (Some hp)" "heap_quiet (\<lambda>_. True) hp"
    "heap_allocate (\<lambda>_. 999976) 40 64 1 hp = Some (p, hp1)" "hp_allocation_color hp = DEFINETELY_WHITE"
    "heap_quiet (\<lambda>_. True) hp1" "hp_allocation_color hp1 = DEFINETELY_WHITE" "bs_start (sp_blocks (hp_space hp1)) = 4096"
    "bs_data_bound (sp_blocks (hp_space hp1)) = 69632"
    "ls_allocations (sp_precise (hp_space hp1)) = []"
    using example_heap by blast
  have small: "\<not> LARGE_CUTOFF < 40 + 16" "LARGE_CUTOFF < 9000 + 16" by (simp_all add: cutoff)
  have p: "is_gc_object (hp_space hp1) p"
    using allocation_keeps_quiet [of "\<lambda>_. True" hp 40 "\<lambda>_. 999976" 64 1] hp(2,3,4) small by (auto simp: is_gc_object_def)
  have new: "malloc_gives_new (\<lambda>_. 999976) (\<lambda>_. True) (9000 + 16) (hp_space hp1)"
    using hp(8,9) by (simp add: malloc_gives_new_def large_header_at_def Let_def HALF_ALIGNMENT_def PA_ALIGNMENT_def
      in_region_def pa_cell_def header_size_eq)
  have a: "a = 999984" if "heap_allocate (\<lambda>_. 999976) 9000 72 2 hp1 = Some (pa_cell a, hp2)" for a hp2
    using that small(2)
    by (auto simp: heap_allocate_def space_allocate_def ls_alloc_def try_create_def align_mod Let_def HALF_ALIGNMENT_def
      PA_ALIGNMENT_def split: if_splits)
  obtain q hp2 where r: "heap_allocate (\<lambda>_. 999976) 9000 72 2 hp1 = Some (q, hp2)" "heap_quiet (\<lambda>_. True) hp2"
    "\<not> is_gc_object (hp_space hp1) q" "\<exists>a. q = pa_cell a \<and> ls_allocations (sp_precise (hp_space hp2)) = [a]"
    "header_of (hp_space hp2) = (header_of (hp_space hp1))(q \<mapsto> force_set_state DEFINETELY_WHITE (base_new 72 2))"
    using allocation_keeps_quiet [of "\<lambda>_. True" hp1 9000 "\<lambda>_. 999976" 72 2] hp(5,6,9) new small by auto
  have "q \<noteq> p" using p r(3) by blast
  then show ?thesis using hp(1,3,5) p r a by (intro exI [of _ hp] exI [of _ p] exI [of _ hp1] exI [of _ q] exI [of _ hp2]) auto
qed

section \<open>Collection\<close>

text \<open>
  C3. What a collection keeps, exactly. Started in a quiet heap, with no spurious failure of a
  compare-exchange, it ends without a failed assertion, and then: a small object is live exactly if it
  was live and is reachable from the scanned words of the stack and the roots through traced
  references; a large object is kept exactly if it is reachable or carries the mark of an earlier
  collection, which no sweep clears, so that when no large object carries such a mark the objects of
  the heap are exactly the reachable ones; the headers of the survivors are unchanged; the weak
  slots that die are dropped, and the slots whose target dies are emptied; \<open>allocated\<close> is the size of
  the survivors; and the heap is quiet again.

  Reachable means through addresses of objects, as the code has it: a word that points into an object
  behind its first granule leads nowhere, because \<open>is_heap_pointer\<close> tests the live bit of its own
  granule, so such a word does not keep the object (docs/gc/gc.md says that it does). A word inside the
  granule of an object that is not its address is excluded by \<open>exact_address\<close>: the code takes it
  for an object (\<open>interior_pointer_accepted\<close>). The slots and targets of weak references are small
  objects (\<open>heap_quiet\<close>): for a large one the code fails an assertion.
\<close>

theorem collection_exact:
  assumes "heap_quiet mi hp" "\<forall>n. \<not> spur n" "hp_defers hp = 0" "8 \<le> max origin sp"
    "\<forall>c d. is_gc_object (hp_space hp) c \<longrightarrow> d \<in> set (trace c) \<longrightarrow> exact_address (hp_space hp) d"
    "\<forall>d \<in> set (start_set word_at origin sp roots). exact_address (hp_space hp) d"
  shows "\<exists>hp'. collect_internal spur mi trace word_at origin sp roots hp = Some (Some hp') \<and>
    (\<forall>c. live_cell (hp_space hp') c = (live_cell (hp_space hp) c \<and> c \<in> survivors trace (start_set word_at origin sp roots) hp)) \<and>
    ls_allocations (sp_precise (hp_space hp')) =
      filter (\<lambda>a. ls_marked (sp_precise (hp_space hp)) a \<or> pa_cell a \<in> survivors trace (start_set word_at origin sp roots) hp)
        (ls_allocations (sp_precise (hp_space hp))) \<and>
    ((\<forall>a \<in> set (ls_allocations (sp_precise (hp_space hp))). \<not> ls_marked (sp_precise (hp_space hp)) a) \<longrightarrow>
       is_gc_object (hp_space hp') = (\<lambda>c. is_gc_object (hp_space hp) c \<and> c \<in> survivors trace (start_set word_at origin sp roots) hp)) \<and>
    (\<forall>c. is_gc_object (hp_space hp') c \<longrightarrow> header_of (hp_space hp') c = header_of (hp_space hp) c) \<and>
    hp_weak_refs hp' = filter (\<lambda>w. w \<in> survivors trace (start_set word_at origin sp roots) hp) (hp_weak_refs hp) \<and>
    (\<forall>w \<in> set (hp_weak_refs hp). hp_weak_value hp' w =
       (case hp_weak_value hp w of None \<Rightarrow> None
        | Some t \<Rightarrow> if t \<in> survivors trace (start_set word_at origin sp roots) hp then Some t else None)) \<and>
    hp_allocated hp' = bytes_in (hp_space hp') {c. live_cell (hp_space hp') c} +
      (\<Sum>a \<leftarrow> ls_allocations (sp_precise (hp_space hp')). large_size (sp_precise (hp_space hp')) a) \<and>
    heap_quiet mi hp'"
proof -
  have obj: "is_gc_object s' = (\<lambda>c. is_gc_object s c \<and> c \<in> S)"
    if "\<forall>c. live_cell s' c = (live_cell s c \<and> c \<in> S)" "\<forall>a \<in> set (ls_allocations (sp_precise s)). \<not> m a"
      "ls_allocations (sp_precise s') = filter (\<lambda>a. m a \<or> pa_cell a \<in> S) (ls_allocations (sp_precise s))" for s s' S m
    using that by (auto simp: is_gc_object_def fun_eq_iff)
  show ?thesis using collect_spec [OF assms] by (elim exE conjE) (intro exI conjI impI obj; assumption)
qed

lemma reach_nothing: "c \<in> reachable obj (\<lambda>_. []) S \<Longrightarrow> c \<in> S"
  by (induction rule: reachable.induct) simp_all

theorem collection_exact_witness:
  "\<exists>hp p. heap_quiet (\<lambda>_. True) hp \<and> live_cell (hp_space hp) p \<and>
     (\<exists>hp'. collect_internal (\<lambda>_. False) (\<lambda>_. True) (\<lambda>_. []) (\<lambda>_. 0) 8 24 [[p]] hp = Some (Some hp') \<and> live_cell (hp_space hp') p) \<and>
     (\<exists>hp'. collect_internal (\<lambda>_. False) (\<lambda>_. True) (\<lambda>_. []) (\<lambda>_. p) 8 24 [] hp = Some (Some hp') \<and> live_cell (hp_space hp') p) \<and>
     (\<exists>hp'. collect_internal (\<lambda>_. False) (\<lambda>_. True) (\<lambda>_. []) (\<lambda>_. 0) 8 24 [] hp = Some (Some hp') \<and> \<not> live_cell (hp_space hp') p)"
proof -
  obtain hp p where hp: "heap_quiet (\<lambda>_. True) hp" "live_cell (hp_space hp) p" "hp_defers hp = 0"
    "\<not> in_region (sp_blocks (hp_space hp)) 0" "ls_allocations (sp_precise (hp_space hp)) = []"
    using example_heap [of "\<lambda>_. True" "\<lambda>_. 0"] by blast
  have ex: "exact_address (hp_space hp) 0" "exact_address (hp_space hp) p"
    using hp(2,4,5) by (simp_all add: exact_address_def live_cell_def)
  have st: "start_set f 8 24 roots = f 8 # concat roots" for f roots
  proof -
    have "stack_words f 8 (Suc 0) = [f 8]" by simp
    then show ?thesis by (simp add: start_set_def)
  qed
  have pz: "p \<noteq> 0" using hp(2,4) inv_cell(6) hp(1) unfolding heap_quiet_def quiet_def space_inv_def live_cell_def by metis
  have obj: "is_gc_object (hp_space hp) p" using hp(2) by (simp add: is_gc_object_def)
  have run: "\<exists>hp'. collect_internal (\<lambda>_. False) (\<lambda>_. True) (\<lambda>_. []) f 8 24 roots hp = Some (Some hp') \<and>
      live_cell (hp_space hp') p = (p \<in> set (f 8 # concat roots))" if s: "set (f 8 # concat roots) \<subseteq> {0, p}" for f roots
  proof -
    have e: "\<forall>d \<in> set (start_set f 8 24 roots). exact_address (hp_space hp) d" using s ex st by auto
    have m: "(8::nat) \<le> max 8 24" by simp
    have "p \<in> survivors (\<lambda>_. []) (start_set f 8 24 roots) hp \<longleftrightarrow> p \<in> set (f 8 # concat roots)"
      using reach_nothing [of p "is_gc_object (hp_space hp)"] obj reachable.root [of p "set (f 8 # concat roots)" "is_gc_object (hp_space hp)" "\<lambda>_. []"]
      unfolding survivors_def st by blast
    then show ?thesis
      using collection_exact [OF hp(1) _ hp(3) m _ e, of "\<lambda>_. False" "\<lambda>_. []"] hp(2) by fastforce
  qed
  show ?thesis
    using hp(1,2) pz run [of "\<lambda>_. 0" "[[p]]"] run [of "\<lambda>_. p" "[]"] run [of "\<lambda>_. 0" "[]"]
    by simp blast
qed

section \<open>Marking\<close>

text \<open>
  C15. Marking ends: in a quiet heap with no spurious failure of a compare-exchange, visiting the
  starts and running \<open>process_worklist\<close>, a loop with no bound of its own, returns for every object
  graph, cyclic ones included; then the reachable objects are black, all others white, and the
  mark bitmap has exactly the reachable small objects.
\<close>

theorem marking_terminates:
  assumes "quiet mi sp" "\<forall>n. \<not> spur n" "\<forall>c d. is_gc_object sp c \<longrightarrow> d \<in> set (trace c) \<longrightarrow> exact_address sp d"
    "\<forall>d \<in> set starts. exact_address sp d"
  shows "\<exists>v1 v. visit_list spur mi starts (visitor_new sp) = Some v1 \<and> process_worklist spur mi trace v1 = Some (Some v) \<and>
    (\<forall>c. is_gc_object sp c \<longrightarrow> cell_colour (vs_space v) c = (if c \<in> reachable (is_gc_object sp) trace (set starts) then Black else White)) \<and>
    (\<forall>c. live_cell sp c \<longrightarrow> bm_test (gm_mark (sp_mem (vs_space v))) c = Some (c \<in> reachable (is_gc_object sp) trace (set starts)))"
  using marking_ends [OF assms] marking_done(5) by (elim exE conjE) (intro exI conjI; assumption | blast)+

text \<open>An object that refers to itself.\<close>

theorem marking_terminates_witness:
  "\<exists>(hp :: gc_heap) p v1 v. live_cell (hp_space hp) p \<and>
     visit_list (\<lambda>_. False) (\<lambda>_. True) [p] (visitor_new (hp_space hp)) = Some v1 \<and>
     process_worklist (\<lambda>_. False) (\<lambda>_. True) (\<lambda>c. [c]) v1 = Some (Some v) \<and> cell_colour (vs_space v) p = Black"
proof -
  obtain hp p where hp: "heap_quiet (\<lambda>_. True) hp" "live_cell (hp_space hp) p" "\<forall>c. is_gc_object (hp_space hp) c \<longrightarrow> c = p"
    using example_heap [of "\<lambda>_. True" "\<lambda>_. 0"] by blast
  have q: "quiet (\<lambda>_. True) (hp_space hp)" using hp(1) by (simp add: heap_quiet_def)
  have obj: "is_gc_object (hp_space hp) p" using hp(2) by (simp add: is_gc_object_def)
  have "in_region (sp_blocks (hp_space hp)) p"
    using hp(2) inv_cell(6) q unfolding quiet_def space_inv_def live_cell_def by metis
  then have ex: "exact_address (hp_space hp) p" using hp(2) by (simp add: exact_address_def live_cell_def)
  have r: "p \<in> reachable (is_gc_object (hp_space hp)) (\<lambda>c. [c]) (set [p])" using obj by (intro reachable.root) simp_all
  have tr: "\<forall>c d. is_gc_object (hp_space hp) c \<longrightarrow> d \<in> set [c] \<longrightarrow> exact_address (hp_space hp) d" using hp(3) ex by auto
  have st: "\<forall>d \<in> set [p]. exact_address (hp_space hp) d" using ex by simp
  obtain v1 v where "visit_list (\<lambda>_. False) (\<lambda>_. True) [p] (visitor_new (hp_space hp)) = Some v1"
    "process_worklist (\<lambda>_. False) (\<lambda>_. True) (\<lambda>c. [c]) v1 = Some (Some v)" "cell_colour (vs_space v) p = Black"
    using marking_terminates [OF q _ tr st, of "\<lambda>_. False"] obj r by fastforce
  with hp(2) show ?thesis by blast
qed

section \<open>The sweep alone\<close>

lemma quiet_sweepable:
  assumes "quiet mi sp"
  shows "space_inv sp" "space_sweepable sp" "ls_ok (sp_precise sp) (gm_cells (sp_mem sp))" "large_apart sp"
    "c \<in> all_cells sp \<Longrightarrow> \<not> mk (sp_mem sp) c"
proof -
  have b: "blocks_inv (live_cell sp) sp" using assms by (simp add: quiet_def space_inv_def)
  show "space_inv sp" "ls_ok (sp_precise sp) (gm_cells (sp_mem sp))" using assms by (simp_all add: quiet_def)
  show um: "\<not> mk (sp_mem sp) c" if "c \<in> all_cells sp" for c using assms inv_cell(6) [OF b that] by (simp add: quiet_def)
  show "large_apart sp" using assms inv_cell(6) [OF b] by (auto simp: quiet_def large_outside_def large_apart_def)
  show "space_sweepable sp"
    unfolding space_sweepable_def sweepable_def
  proof (intro ballI conjI impI)
    fix c assume c: "c \<in> all_cells sp"
    show "lv (sp_mem sp) c" if "mk (sp_mem sp) c" using um [OF c] that by simp
    show "\<exists>h. gm_cells (sp_mem sp) c = Some h \<and> (cell_state h = DEFINETELY_WHITE \<or> cell_state h = POSSIBLY_BLACK)" if "lv (sp_mem sp) c"
    proof -
      have "is_gc_object sp c" using c that by (simp add: is_gc_object_def live_cell_def)
      then show ?thesis using assms by (auto simp: quiet_def header_of_def)
    qed
  qed
qed

theorem space_sweep_exact_witness:
  "\<exists>(hp :: gc_heap) p n sp'. live_cell (hp_space hp) p \<and> space_sweep (hp_space hp) = Some (n, sp') \<and> \<not> live_cell sp' p \<and> space_inv sp'"
proof -
  obtain hp p where hp: "heap_quiet (\<lambda>_. True) hp" "live_cell (hp_space hp) p"
    using example_heap [of "\<lambda>_. True" "\<lambda>_. 0"] by blast
  have q: "quiet (\<lambda>_. True) (hp_space hp)" using hp(1) by (simp add: heap_quiet_def)
  note ready = quiet_sweepable [OF q]
  have "\<not> mk (sp_mem (hp_space hp)) p" using ready(5) hp(2) by (simp add: live_cell_def)
  moreover obtain n sp' where "space_sweep (hp_space hp) = Some (n, sp')" "space_inv sp'"
    "\<forall>c. live_cell sp' c = (live_cell (hp_space hp) c \<and> mk (sp_mem (hp_space hp)) c)"
    using space_sweep_exact [OF ready(1-4)] by (elim exE conjE)
  ultimately show ?thesis using hp(2) by (intro exI [of _ hp] exI [of _ p] exI [of _ n] exI [of _ sp']) simp
qed

section \<open>Interior pointers\<close>

lemma small_cell_address:
  assumes b: "blocks_inv L sp" and c: "c \<in> all_cells sp"
  shows "c mod 16 = 8"
proof -
  let ?p = "get_block_ptr c"
  obtain blk where blk: "bs_blocks (sp_blocks sp) ?p = Some blk" "blk_cell_size blk mod 16 = 0" "aligned_block (sp_blocks sp) ?p"
    by (rule inv_block [OF b inv_cell(1) [OF b c]]) auto
  then have "c \<in> set (block_walk ?p blk)" using inv_cell(2) [OF b c] by (simp add: cells_of_def)
  then obtain i where i: "c = ?p + 24 + i * blk_cell_size blk"
    unfolding block_walk_def block_cell_def block_begin_def DATA_START_def set_map by (elim imageE)
  have "?p mod 16384 = 0" using blk(3) by (simp add: aligned_block_def BLOCK_SIZE_def)
  then obtain k where k: "?p = 16 * k" by (auto elim!: dvdE)
  obtain m where m: "blk_cell_size blk = 16 * m" using blk(2) by auto
  have "c = 16 * (k + i * m + 1) + 8" using i unfolding k m by (simp add: algebra_simps)
  then show ?thesis by (metis mod_mult_self4 mod_less numeral_less_iff semiring_norm(76,78))
qed

text \<open>
  The conservative scan takes an interior word for an object: the cells start in the middle of a
  granule of the live bitmap, so the last word of the memory before a live cell tests as live with
  it, and \<open>is_heap_pointer\<close> accepts that address, where no header is.
\<close>

theorem interior_pointer_accepted:
  assumes "space_inv sp" "live_cell sp c" "bs_start (sp_blocks sp) mod 16 = 0"
  shows "is_heap_pointer mi sp (c - 8) = Some True \<and> c - 8 \<notin> all_cells sp"
proof -
  let ?s = "bs_start (sp_blocks sp)"
  have m: "map_ok (sp_blocks sp) (gm_live (sp_mem sp))" and b: "blocks_inv (live_cell sp) sp"
    using assms(1) by (simp_all add: space_inv_def maps_inv_def)
  have c: "c \<in> all_cells sp" "lv (sp_mem sp) c" using assms(2) by (simp_all add: live_cell_def)
  have r: "in_region (sp_blocks sp) c" by (rule inv_cell(6) [OF b c(1)])
  obtain s where s: "?s = 16 * s" using assms(3) by auto
  obtain x where x: "c = 16 * x + 8" using small_cell_address [OF b c(1)] by (metis div_mult_mod_eq mult.commute)
  have "?s \<le> c" using r by (simp add: in_region_def)
  then have sx: "s \<le> x" using s x by linarith
  have r8: "in_region (sp_blocks sp) (c - 8)" using r s x sx by (simp add: in_region_def)
  have "granule (gm_live (sp_mem sp)) (c - 8) = granule (gm_live (sp_mem sp)) c"
    using m r r8 s x sx by (simp add: map_ok_def diff_mult_distrib2 [symmetric])
  then have "lv (sp_mem sp) (c - 8)" using c(2) by (simp add: marked_def)
  then have "is_heap_pointer mi sp (c - 8) = Some True"
    using m r8 by (simp add: is_heap_pointer_def map_ok_def bm_test_eq)
  moreover have "c - 8 \<notin> all_cells sp" using small_cell_address [OF b, of "c - 8"] x by auto
  ultimately show ?thesis by simp
qed

theorem interior_pointer_accepted_witness:
  "\<exists>(hp :: gc_heap) p. live_cell (hp_space hp) p \<and> is_heap_pointer (\<lambda>_. False) (hp_space hp) (p - 8) = Some True"
proof -
  obtain hp p where hp: "heap_quiet (\<lambda>_. True) hp" "live_cell (hp_space hp) p" "bs_start (sp_blocks (hp_space hp)) = 4096"
    using example_heap [of "\<lambda>_. True" "\<lambda>_. 0"] by blast
  then have "space_inv (hp_space hp)" "bs_start (sp_blocks (hp_space hp)) mod 16 = 0" by (simp_all add: heap_quiet_def quiet_def)
  with interior_pointer_accepted [of "hp_space hp" p "\<lambda>_. False"] hp(2) show ?thesis by blast
qed

end
