(* ===== verification/Promise.thy ===== *)
theory Promise
  imports Starlight_Prelude
begin

text \<open>
  Promises (vm/promise.rs) and the functions of the global \<open>Promise\<close> (jsrt/promise.rs). The state is
  the store of promises and the queue of the jobs that were handed to \<open>schedule_async\<close>: a job is
  named by the promise whose reactions it runs. A built-in closure is a constructor of \<open>pfun\<close>. User
  code is a tree of the calls it makes on promises (\<open>script\<close>), a parameter of the model: \<open>user k args\<close>
  is what the \<open>k\<close>-th user function does on \<open>args\<close>. A cast of an object that is no promise is undefined
  behaviour, \<^term>\<open>None\<close> as a panic is.
\<close>

section \<open>Values and promises\<close>

datatype tracking_mode = All | Race | AllSettled | Any

datatype pfun =
    PassVal
  | ResolveOf nat
  | RejectOf nat
  | FinallyTrack nat nat nat
  | UserFun nat

datatype pvalue =
    PUndefined
  | PNull
  | PString string
  | PFun pfun
  | PPromise nat
  | PArray "pvalue list"
  | PPlain nat

text \<open>\<open>Result<JsValue, JsValue>\<close>\<close>

type_synonym presult = "pvalue + pvalue"

text \<open>One entry of \<open>subs\<close>: the handlers of \<open>then\<close>, \<open>catch\<close> and \<open>finally\<close>, and the promise of the result.\<close>

type_synonym psub = "pfun option \<times> pfun option \<times> pfun option \<times> nat"

record promise =
  pr_subs :: "psub list"
  pr_mode :: "tracking_mode option"
  pr_results :: "presult option list option"
  pr_resolution :: "presult option"

text \<open>\<open>ps_proto\<close> is the outcome of looking up \<open>Promise.prototype\<close> in the global object.\<close>

record pstate =
  ps_promises :: "nat \<Rightarrow> promise option"
  ps_next :: nat
  ps_jobs :: "nat list"
  ps_scheduler :: bool
  ps_proto :: "pvalue + unit"

type_synonym 'a pexec = "pstate \<Rightarrow> ((pvalue + 'a) \<times> pstate) panics"

definition arg_at :: "nat \<Rightarrow> pvalue list \<Rightarrow> pvalue" where
  "arg_at i args = (if i < length args then args ! i else PUndefined)"
definition p_is_callable :: "pvalue \<Rightarrow> bool" where
  "p_is_callable v = (case v of PFun _ \<Rightarrow> True | _ \<Rightarrow> False)"
definition put_promise :: "nat \<Rightarrow> promise \<Rightarrow> pstate \<Rightarrow> pstate" where
  "put_promise p x st = st\<lparr>ps_promises := (ps_promises st)(p \<mapsto> x)\<rparr>"
definition new_promise :: "tracking_mode option \<Rightarrow> presult option list option \<Rightarrow> pstate \<Rightarrow> nat \<times> pstate" where
  "new_promise mode results st =
     (ps_next st,
      (put_promise (ps_next st) \<lparr>pr_subs = [], pr_mode = mode, pr_results = results, pr_resolution = None\<rparr> st)\<lparr>ps_next := ps_next st + 1\<rparr>)"
definition push_sub :: "psub \<Rightarrow> promise \<Rightarrow> promise" where
  "push_sub s x = x\<lparr>pr_subs := pr_subs x @ [s]\<rparr>"

section \<open>Resolution\<close>

definition new_unresolving :: "nat pexec" where
  "new_unresolving st =
     (case ps_proto st of
        Inl e \<Rightarrow> Some (Inl e, st)
      | Inr _ \<Rightarrow> (let (p, st') = new_promise None None st in Some (Inr p, st')))"

definition schedule_async :: "nat \<Rightarrow> unit pexec" where
  "schedule_async p st =
     Some (if ps_scheduler st then (Inr (), st\<lparr>ps_jobs := ps_jobs st @ [p]\<rparr>)
           else (Inl (PString ''In order to use async you have to init the RuntimeOptions with with_async_scheduler()''), st))"

definition do_resolve :: "nat \<Rightarrow> presult \<Rightarrow> unit pexec" where
  "do_resolve this resolution st = do {
     x \<leftarrow> ps_promises st this;
     if pr_resolution x \<noteq> None then Some (Inl (PString ''Promise was already resolved''), st)
     else
       (case resolution of
          Inr (PPromise q) \<Rightarrow> do {
            y \<leftarrow> ps_promises st q;
            Some (Inr (), put_promise q (push_sub (Some PassVal, Some PassVal, None, this) y) st) }
        | _ \<Rightarrow> schedule_async this (put_promise this (x\<lparr>pr_resolution := Some resolution\<rparr>) st)) }"
definition promise_resolve :: "nat \<Rightarrow> pvalue \<Rightarrow> unit pexec" where
  "promise_resolve this v = do_resolve this (Inr v)"
definition promise_reject :: "nat \<Rightarrow> pvalue \<Rightarrow> unit pexec" where
  "promise_reject this v = do_resolve this (Inl v)"

definition promise_then :: "nat \<Rightarrow> pfun option \<Rightarrow> pfun option \<Rightarrow> pfun option \<Rightarrow> nat pexec" where
  "promise_then this on_resolved on_rejected on_finally st = do {
     (r, st1) \<leftarrow> new_unresolving st;
     (case r of
        Inl e \<Rightarrow> Some (Inl e, st1)
      | Inr sub \<Rightarrow> do {
          x \<leftarrow> ps_promises st1 this;
          Some (Inr sub, put_promise this (push_sub (on_resolved, on_rejected, on_finally, sub) x) st1) }) }"

section \<open>Tracking\<close>

definition ok_value :: "presult option \<Rightarrow> pvalue option" where
  "ok_value r = (case r of Some (Inr v) \<Rightarrow> Some v | _ \<Rightarrow> None)"

definition resolve_single_tracked :: "nat \<Rightarrow> nat \<Rightarrow> presult \<Rightarrow> pvalue pexec" where
  "resolve_single_tracked this index resolution st = do {
     x \<leftarrow> ps_promises st this;
     if pr_resolution x \<noteq> None then Some (Inr PNull, st)
     else do {
       results0 \<leftarrow> pr_results x;
       if \<not> index < length results0 then None
       else do {
         let results = results0[index := Some resolution];
         let st1 = put_promise this (x\<lparr>pr_results := Some results\<rparr>) st;
         mode \<leftarrow> pr_mode x;
         (case mode of
            All \<Rightarrow>
              (case resolution of
                 Inr _ \<Rightarrow>
                   if None \<in> set results then Some (Inr PNull, st1)
                   else do {
                     vs \<leftarrow> those (map ok_value results);
                     (r, st2) \<leftarrow> promise_resolve this (PArray vs) st1;
                     Some (case r of Inl e \<Rightarrow> Inl e | Inr _ \<Rightarrow> Inr PNull, st2) }
               | Inl e \<Rightarrow> do {
                   (r, st2) \<leftarrow> promise_reject this e st1;
                   Some (case r of Inl e \<Rightarrow> Inl e | Inr _ \<Rightarrow> Inr PNull, st2) })
          | Race \<Rightarrow> do {
              (r, st2) \<leftarrow> (case resolution of Inr v \<Rightarrow> promise_resolve this v st1 | Inl e \<Rightarrow> promise_reject this e st1);
              Some (case r of Inl e \<Rightarrow> Inl e | Inr _ \<Rightarrow> Inr PNull, st2) }
          | AllSettled \<Rightarrow> Some (Inr PNull, st1)
          | Any \<Rightarrow> Some (Inr PNull, st1)) } } }"

fun track_all :: "nat \<Rightarrow> nat \<Rightarrow> pvalue list \<Rightarrow> unit pexec" where
  "track_all outer i [] st = Some (Inr (), st)"
| "track_all outer i (v # vs) st =
     (case v of
        PPromise sub \<Rightarrow> do {
          (r, st1) \<leftarrow> promise_then sub None None (Some (FinallyTrack outer i sub)) st;
          (case r of Inl e \<Rightarrow> Some (Inl e, st1) | Inr _ \<Rightarrow> track_all outer (i + 1) vs st1) }
      | _ \<Rightarrow> None)"

definition new_tracking :: "tracking_mode \<Rightarrow> pvalue \<Rightarrow> pvalue pexec" where
  "new_tracking mode promises st =
     (case ps_proto st of
        Inl e \<Rightarrow> Some (Inl e, st)
      | Inr _ \<Rightarrow>
          (case promises of
             PArray vs \<Rightarrow> do {
               let (outer, st1) = new_promise (Some mode) (Some (replicate (length vs) None)) st;
               (r, st2) \<leftarrow> track_all outer 0 vs st1;
               Some (case r of Inl e \<Rightarrow> Inl e | Inr _ \<Rightarrow> Inr (PPromise outer), st2) }
           | _ \<Rightarrow> Some (Inl (PString ''argument was not an Array''), st)))"

section \<open>The global functions\<close>

definition with_prom :: "pvalue \<Rightarrow> (nat \<Rightarrow> pvalue pexec) \<Rightarrow> pvalue pexec" where
  "with_prom this consumer st =
     (case this of
        PPromise p \<Rightarrow> consumer p st
      | _ \<Rightarrow> Some (Inl (PString ''method not called on a Promise''), st))"

definition as_handler :: "pvalue \<Rightarrow> pfun option" where
  "as_handler v = (case v of PFun f \<Rightarrow> Some f | _ \<Rightarrow> None)"
definition then_value :: "nat \<Rightarrow> pfun option \<Rightarrow> pfun option \<Rightarrow> pfun option \<Rightarrow> pvalue pexec" where
  "then_value p a b c st = do { (r, st1) \<leftarrow> promise_then p a b c st; Some (map_sum id PPromise r, st1) }"

definition jsrt_then :: "pvalue \<Rightarrow> pvalue list \<Rightarrow> pvalue pexec" where
  "jsrt_then this args = with_prom this (\<lambda>p st.
     if length args \<ge> 1 \<and> \<not> p_is_callable (arg_at 0 args) then Some (Inl (PString ''resolved argument is not a Function''), st)
     else if length args \<ge> 2 \<and> \<not> p_is_callable (arg_at 1 args) then Some (Inl (PString ''rejected argument is not a Function''), st)
     else then_value p (if length args \<ge> 1 then as_handler (arg_at 0 args) else None)
            (if length args \<ge> 2 then as_handler (arg_at 1 args) else None) None st)"
definition jsrt_catch :: "pvalue \<Rightarrow> pvalue list \<Rightarrow> pvalue pexec" where
  "jsrt_catch this args = with_prom this (\<lambda>p st.
     if length args = 1 then
       if \<not> p_is_callable (arg_at 0 args) then Some (Inl (PString ''rejected argument is not a Function''), st)
       else then_value p None (as_handler (arg_at 0 args)) None st
     else Some (Inl (PString ''resolved argument is not a Function''), st))"
definition jsrt_finally :: "pvalue \<Rightarrow> pvalue list \<Rightarrow> pvalue pexec" where
  "jsrt_finally this args = with_prom this (\<lambda>p st.
     if length args = 1 then
       if \<not> p_is_callable (arg_at 0 args) then Some (Inl (PString ''finally argument is not a Function''), st)
       else then_value p None None (as_handler (arg_at 0 args)) st
     else Some (Inl (PString ''resolved argument is not a Function''), st))"

text \<open>What is returned after \<open>resolve(..)?\<close> or \<open>reject(..)?\<close>.\<close>

definition returning :: "pvalue \<Rightarrow> ((pvalue + unit) \<times> pstate) panics \<Rightarrow> ((pvalue + pvalue) \<times> pstate) panics" where
  "returning v o1 = map_option (map_prod (map_sum id (\<lambda>_. v)) id) o1"

definition jsrt_resolve :: "pvalue \<Rightarrow> pvalue list \<Rightarrow> pvalue pexec" where
  "jsrt_resolve this args = with_prom this (\<lambda>p st.
     if length args = 1 then returning PUndefined (promise_resolve p (arg_at 0 args) st)
     else Some (Inl (PString ''resolve should be called with a single argument''), st))"
definition jsrt_reject :: "pvalue \<Rightarrow> pvalue list \<Rightarrow> pvalue pexec" where
  "jsrt_reject this args = with_prom this (\<lambda>p st.
     if length args = 1 then returning PUndefined (promise_reject p (arg_at 0 args) st)
     else Some (Inl (PString ''reject should be called with a single argument''), st))"
definition static_settle :: "(pvalue \<Rightarrow> presult) \<Rightarrow> pvalue list \<Rightarrow> pvalue pexec" where
  "static_settle wrap args st =
     (if length args \<noteq> 1 then Some (Inl (PString ''resolve needs exactly one argument''), st)
      else do {
        (r, st1) \<leftarrow> new_unresolving st;
        (case r of
           Inl e \<Rightarrow> Some (Inl e, st1)
         | Inr p \<Rightarrow> returning (PPromise p) (do_resolve p (wrap (arg_at 0 args)) st1)) })"
definition jsrt_static_resolve :: "pvalue list \<Rightarrow> pvalue pexec" where "jsrt_static_resolve = static_settle Inr"
definition jsrt_static_reject :: "pvalue list \<Rightarrow> pvalue pexec" where "jsrt_static_reject = static_settle Inl"

definition static_tracking :: "tracking_mode \<Rightarrow> string \<Rightarrow> pvalue list \<Rightarrow> pvalue pexec" where
  "static_tracking mode msg args st =
     (case args of
        [PArray vs] \<Rightarrow> new_tracking mode (PArray vs) st
      | _ \<Rightarrow> Some (Inl (PString msg), st))"
definition jsrt_race :: "pvalue list \<Rightarrow> pvalue pexec" where
  "jsrt_race = static_tracking Race ''race needs exactly one Array argument''"
definition jsrt_all :: "pvalue list \<Rightarrow> pvalue pexec" where
  "jsrt_all = static_tracking All ''all needs exactly one Array argument''"
definition jsrt_all_settled :: "pvalue list \<Rightarrow> pvalue pexec" where
  "jsrt_all_settled = static_tracking AllSettled ''allSettled needs exactly one Array argument''"
definition jsrt_any :: "pvalue list \<Rightarrow> pvalue pexec" where
  "jsrt_any = static_tracking Any ''any needs exactly one Array argument''"

section \<open>Calls\<close>

text \<open>The bodies of the built-in closures.\<close>

definition call_builtin :: "pfun \<Rightarrow> pvalue list \<Rightarrow> pvalue pexec" where
  "call_builtin f args st =
     (case f of
        PassVal \<Rightarrow> Some (Inr (arg_at 0 args), st)
      | ResolveOf p \<Rightarrow> returning PUndefined (promise_resolve p (arg_at 0 args) st)
      | RejectOf p \<Rightarrow> returning PUndefined (promise_reject p (arg_at 0 args) st)
      | FinallyTrack outer i sub \<Rightarrow> do {
          x \<leftarrow> ps_promises st sub;
          resolution \<leftarrow> pr_resolution x;
          (r, st1) \<leftarrow> resolve_single_tracked outer i resolution st;
          Some (case r of Inl e \<Rightarrow> Inl e | Inr _ \<Rightarrow> Inr PNull, st1) }
      | UserFun k \<Rightarrow> None)"

text \<open>
  The calls user code can make; \<open>CNew\<close> is the creation of the promise by \<open>new Promise\<close>, the function
  that is passed to it continues the script with \<open>ResolveOf\<close> and \<open>RejectOf\<close> of the new promise.
\<close>

datatype pcall =
    CNew
  | CThen pvalue "pvalue list"
  | CCatch pvalue "pvalue list"
  | CFinally pvalue "pvalue list"
  | CResolve pvalue "pvalue list"
  | CReject pvalue "pvalue list"
  | CStaticResolve "pvalue list"
  | CStaticReject "pvalue list"
  | CStaticTrack tracking_mode "pvalue list"
  | CInvoke pfun "pvalue list"

definition run_call :: "pcall \<Rightarrow> pvalue pexec" where
  "run_call c =
     (case c of
        CNew \<Rightarrow> (\<lambda>st. map_option (map_prod (map_sum id PPromise) id) (new_unresolving st))
      | CThen this args \<Rightarrow> jsrt_then this args
      | CCatch this args \<Rightarrow> jsrt_catch this args
      | CFinally this args \<Rightarrow> jsrt_finally this args
      | CResolve this args \<Rightarrow> jsrt_resolve this args
      | CReject this args \<Rightarrow> jsrt_reject this args
      | CStaticResolve args \<Rightarrow> jsrt_static_resolve args
      | CStaticReject args \<Rightarrow> jsrt_static_reject args
      | CStaticTrack m args \<Rightarrow>
          (case m of All \<Rightarrow> jsrt_all args | Race \<Rightarrow> jsrt_race args | AllSettled \<Rightarrow> jsrt_all_settled args | Any \<Rightarrow> jsrt_any args)
      | CInvoke f args \<Rightarrow> call_builtin f args)"

datatype script = Return presult | Step pcall "presult \<Rightarrow> script"

primrec run_script :: "script \<Rightarrow> pvalue pexec" where
  "run_script (Return r) = (\<lambda>st. Some (r, st))"
| "run_script (Step c k) = (\<lambda>st. do { (r, st1) \<leftarrow> run_call c st; run_script (k r) st1 })"

type_synonym user_code = "nat \<Rightarrow> pvalue list \<Rightarrow> script"

definition call_fn :: "user_code \<Rightarrow> pfun \<Rightarrow> pvalue list \<Rightarrow> pvalue pexec" where
  "call_fn user f args = (case f of UserFun k \<Rightarrow> run_script (user k args) | _ \<Rightarrow> call_builtin f args)"

definition promise_new :: "user_code \<Rightarrow> pfun \<Rightarrow> pvalue pexec" where
  "promise_new user f st = do {
     (r, st1) \<leftarrow> new_unresolving st;
     (case r of
        Inl e \<Rightarrow> Some (Inl e, st1)
      | Inr p \<Rightarrow> do {
          (res, st2) \<leftarrow> call_fn user f [PFun (ResolveOf p), PFun (RejectOf p)] st1;
          Some (map_sum id (\<lambda>_. PPromise p) res, st2) }) }"
definition promise_constructor :: "user_code \<Rightarrow> pvalue list \<Rightarrow> pvalue pexec" where
  "promise_constructor user args st =
     (case arg_at 0 args of
        PFun f \<Rightarrow> promise_new user f st
      | _ \<Rightarrow> Some (Inl (PString ''arg 1 should be a function''), st))"

section \<open>Jobs\<close>

definition on_resolved :: "psub \<Rightarrow> pfun option" where "on_resolved s = fst s"
definition on_rejected :: "psub \<Rightarrow> pfun option" where "on_rejected s = fst (snd s)"
definition on_finally :: "psub \<Rightarrow> pfun option" where "on_finally s = fst (snd (snd s))"
definition sub_promise :: "psub \<Rightarrow> nat" where "sub_promise s = snd (snd (snd s))"

text \<open>The loops of the job over \<open>subs\<close>; an error of \<open>do_resolve\<close> is printed and ignored.\<close>

fun deliver :: "user_code \<Rightarrow> (psub \<Rightarrow> pfun option) \<Rightarrow> pvalue list \<Rightarrow> psub list \<Rightarrow> pstate \<Rightarrow> pstate panics" where
  "deliver user sel args [] st = Some st"
| "deliver user sel args (s # ss) st =
     (case sel s of
        None \<Rightarrow> deliver user sel args ss st
      | Some f \<Rightarrow> do {
          (res, st1) \<leftarrow> call_fn user f args st;
          (_, st2) \<leftarrow> do_resolve (sub_promise s) res st1;
          deliver user sel args ss st2 })"

definition run_job :: "user_code \<Rightarrow> nat \<Rightarrow> pstate \<Rightarrow> pstate panics" where
  "run_job user p st = do {
     x \<leftarrow> ps_promises st p;
     resolution \<leftarrow> pr_resolution x;
     st1 \<leftarrow> (case resolution of
               Inr v \<Rightarrow> deliver user on_resolved [v] (pr_subs x) st
             | Inl e \<Rightarrow> deliver user on_rejected [e] (pr_subs x) st);
     y \<leftarrow> ps_promises st1 p;
     deliver user on_finally [] (pr_subs y) st1 }"

text \<open>The host runs the jobs in the order they were scheduled.\<close>

definition next_job :: "user_code \<Rightarrow> pstate \<Rightarrow> pstate panics" where
  "next_job user st =
     (case ps_jobs st of [] \<Rightarrow> Some st | p # js \<Rightarrow> run_job user p (st\<lparr>ps_jobs := js\<rparr>))"

partial_function (option) run_jobs :: "user_code \<Rightarrow> pstate \<Rightarrow> pstate panics option" where
  "run_jobs user st =
     (if ps_jobs st = [] then Some (Some st)
      else (case next_job user st of None \<Rightarrow> Some None | Some st' \<Rightarrow> run_jobs user st'))"

definition initial_state :: pstate where
  "initial_state = \<lparr>ps_promises = (\<lambda>_. None), ps_next = 0, ps_jobs = [], ps_scheduler = True, ps_proto = Inr ()\<rparr>"

end
