(* ===== verification/Promise_Facts.thy ===== *)
theory Promise_Facts
  imports Promise "HOL-Library.Sublist"
begin

text \<open>
  What every operation on promises does to the state, user code included: promises stay, a
  resolution never changes, subscriptions are only appended, and with a scheduler exactly the
  promises that become settled are queued, each once.
\<close>

named_theorems pext_intros \<open>operations that extend the state\<close>

definition resolution_of :: "pstate \<Rightarrow> nat \<Rightarrow> presult option" where
  "resolution_of st p = (case ps_promises st p of None \<Rightarrow> None | Some x \<Rightarrow> pr_resolution x)"
definition newly_settled :: "pstate \<Rightarrow> pstate \<Rightarrow> nat set" where
  "newly_settled st st' = {p. resolution_of st p = None \<and> resolution_of st' p \<noteq> None}"
definition grows :: "promise \<Rightarrow> promise \<Rightarrow> bool" where
  "grows x x' \<longleftrightarrow> (pr_resolution x \<noteq> None \<longrightarrow> pr_resolution x' = pr_resolution x) \<and> prefix (pr_subs x) (pr_subs x') \<and> pr_mode x' = pr_mode x"
definition wf_promises :: "pstate \<Rightarrow> bool" where
  "wf_promises st \<longleftrightarrow> (\<forall>p. ps_next st \<le> p \<longrightarrow> ps_promises st p = None)"
definition extends :: "pstate \<Rightarrow> pstate \<Rightarrow> bool" where
  "extends st st' \<longleftrightarrow> wf_promises st' \<and> ps_scheduler st' = ps_scheduler st \<and> ps_proto st' = ps_proto st \<and> ps_next st \<le> ps_next st' \<and>
     (\<forall>p x. ps_promises st p = Some x \<longrightarrow> (\<exists>x'. ps_promises st' p = Some x' \<and> grows x x')) \<and>
     (\<exists>new. ps_jobs st' = ps_jobs st @ new \<and> distinct new \<and>
        set new = (if ps_scheduler st then newly_settled st st' else {}))"

lemma grows_refl [simp]: "grows x x"
  by (simp add: grows_def)

lemma grows_trans: "grows x y \<Longrightarrow> grows y z \<Longrightarrow> grows x z"
  unfolding grows_def by (metis prefix_order.trans)

lemma grows_push [simp]: "grows x (push_sub s x)" "grows x (x\<lparr>pr_results := r\<rparr>)"
  by (simp_all add: grows_def push_sub_def)

lemma extends_refl: "wf_promises st \<Longrightarrow> extends st st"
  by (auto simp: extends_def newly_settled_def)

lemma extends_resolution:
  assumes "extends st st'" "resolution_of st p = Some r"
  shows "resolution_of st' p = Some r"
proof -
  obtain x where x: "ps_promises st p = Some x" "pr_resolution x = Some r"
    using assms(2) by (auto simp: resolution_of_def split: option.splits)
  then obtain x' where "ps_promises st' p = Some x'" "grows x x'" using assms(1) unfolding extends_def by blast
  with x(2) show ?thesis by (simp add: resolution_of_def grows_def)
qed

lemma extends_trans:
  assumes a: "extends st st1" and b: "extends st1 st2"
  shows "extends st st2"
proof -
  have new: "newly_settled st st2 = newly_settled st st1 \<union> newly_settled st1 st2"
    using extends_resolution [OF a] extends_resolution [OF b] unfolding newly_settled_def by (auto; metis option.exhaust)
  have apart: "newly_settled st st1 \<inter> newly_settled st1 st2 = {}" by (auto simp: newly_settled_def)
  have old: "\<exists>x2. ps_promises st2 p = Some x2 \<and> grows x x2" if "ps_promises st p = Some x" for p x
    using a b that grows_trans unfolding extends_def by metis
  obtain n1 where n1: "ps_jobs st1 = ps_jobs st @ n1" "distinct n1" "set n1 = (if ps_scheduler st then newly_settled st st1 else {})"
    using a by (auto simp: extends_def)
  obtain n2 where n2: "ps_jobs st2 = ps_jobs st1 @ n2" "distinct n2" "set n2 = (if ps_scheduler st1 then newly_settled st1 st2 else {})"
    using b by (auto simp: extends_def)
  have s: "ps_scheduler st1 = ps_scheduler st" using a by (simp add: extends_def)
  have "ps_jobs st2 = ps_jobs st @ (n1 @ n2)" "distinct (n1 @ n2)"
    "set (n1 @ n2) = (if ps_scheduler st then newly_settled st st2 else {})"
    using n1 n2 s new apart by auto
  then show ?thesis using a b old unfolding extends_def by auto
qed

section \<open>Operations that extend the state\<close>

definition extending :: "'a pexec \<Rightarrow> bool" where
  "extending f \<longleftrightarrow> (\<forall>st r st'. wf_promises st \<longrightarrow> f st = Some (r, st') \<longrightarrow> extends st st')"

lemma extendingD: "extending f \<Longrightarrow> wf_promises st \<Longrightarrow> f st = Some (r, st') \<Longrightarrow> extends st st'"
  by (simp add: extending_def)

lemma extends_wf: "extends st st' \<Longrightarrow> wf_promises st'"
  by (simp add: extends_def)

lemma extending_return [pext_intros]: "extending (\<lambda>st. Some (r, st))" "extending (\<lambda>st. None)"
  by (simp_all add: extending_def extends_refl)

lemma extending_bind [pext_intros]:
  assumes "extending f" "\<And>r. extending (g r)"
  shows "extending (\<lambda>st. do { (r, st1) \<leftarrow> f st; g r st1 })"
  unfolding extending_def
proof (intro allI impI)
  fix st r st' assume w: "wf_promises st" and run: "do { (r, st1) \<leftarrow> f st; g r st1 } = Some (r, st')"
  then obtain r1 st1 where 1: "f st = Some (r1, st1)" "g r1 st1 = Some (r, st')" by (auto simp: bind_eq_Some_conv)
  have e: "extends st st1" by (rule extendingD [OF assms(1) w 1(1)])
  show "extends st st'" by (rule extends_trans [OF e extendingD [OF assms(2) extends_wf [OF e] 1(2)]])
qed

lemma extending_if [pext_intros]:
  assumes "extending f" "extending g"
  shows "extending (\<lambda>st. if b st then f st else g st)"
  using assms unfolding extending_def by auto

lemma extending_sum [pext_intros]:
  assumes "\<And>e. extending (f e)" "\<And>v. extending (g v)"
  shows "extending (\<lambda>st. case r of Inl e \<Rightarrow> f e st | Inr v \<Rightarrow> g v st)"
  using assms by (cases r) simp_all

lemma extending_map [pext_intros]:
  assumes "extending f"
  shows "extending (\<lambda>st. map_option (map_prod h id) (f st))"
  using assms unfolding extending_def by (auto simp: map_prod_def)

lemma put_extends:
  assumes w: "wf_promises st" and p: "ps_promises st p = Some x" "grows x x'" "pr_resolution x' = pr_resolution x"
  shows "extends st (put_promise p x' st)"
proof -
  have "resolution_of (put_promise p x' st) = resolution_of st"
    using p by (intro ext) (simp add: resolution_of_def put_promise_def)
  then show ?thesis using w p by (auto simp: extends_def put_promise_def wf_promises_def newly_settled_def)
qed

lemma new_extends:
  assumes "wf_promises st" "new_promise m rs st = (p, st')"
  shows "extends st st' \<and> ps_promises st p = None \<and>
    ps_promises st' = (ps_promises st)(p \<mapsto> \<lparr>pr_subs = [], pr_mode = m, pr_results = rs, pr_resolution = None\<rparr>) \<and> ps_jobs st' = ps_jobs st \<and>
    ps_proto st' = ps_proto st"
proof -
  have n: "ps_promises st (ps_next st) = None" using assms(1) by (simp add: wf_promises_def)
  have "resolution_of st' = resolution_of st"
    using assms n by (intro ext) (auto simp: resolution_of_def new_promise_def put_promise_def)
  moreover have "wf_promises st'" using assms by (auto simp: wf_promises_def new_promise_def put_promise_def)
  ultimately show ?thesis using assms n by (auto simp: extends_def new_promise_def put_promise_def newly_settled_def)
qed

lemma extending_new [pext_intros]: "extending new_unresolving"
  using new_extends unfolding extending_def new_unresolving_def
  by (fastforce simp: extends_refl split: sum.splits prod.splits)

lemma settle_extends:
  assumes w: "wf_promises st" and p: "ps_promises st p = Some x" "pr_resolution x = None"
    and s: "schedule_async p (put_promise p (x\<lparr>pr_resolution := Some res\<rparr>) st) = Some (r, st')"
  shows "extends st st'"
proof -
  let ?st = "put_promise p (x\<lparr>pr_resolution := Some res\<rparr>) st"
  have st': "st' = (if ps_scheduler st then ?st\<lparr>ps_jobs := ps_jobs st @ [p]\<rparr> else ?st)"
    using s by (auto simp: schedule_async_def put_promise_def split: if_splits)
  have "newly_settled st st' = {p}"
    using p by (auto simp: newly_settled_def resolution_of_def st' put_promise_def split: if_splits)
  moreover have "grows x (x\<lparr>pr_resolution := Some res\<rparr>)" using p by (simp add: grows_def)
  moreover have "p < ps_next st" using w p by (auto simp: wf_promises_def not_le [symmetric])
  ultimately show ?thesis using w p
    by (auto simp: extends_def st' put_promise_def wf_promises_def)
qed

lemma extending_do_resolve [pext_intros]: "extending (do_resolve p res)"
proof -
  have "extends st st'" if w: "wf_promises st" and d: "do_resolve p res st = Some (r, st')" for st r st'
  proof -
    obtain x where x: "ps_promises st p = Some x" using d by (auto simp: do_resolve_def bind_eq_Some_conv)
    show ?thesis
    proof (cases "pr_resolution x")
      case (Some r0)
      then show ?thesis using d x extends_refl [OF w] by (simp add: do_resolve_def)
    next
      case None
      show ?thesis
      proof (cases "\<exists>q. res = Inr (PPromise q)")
        case True
        then obtain q y where "ps_promises st q = Some y" "st' = put_promise q (push_sub (Some PassVal, Some PassVal, None, p) y) st"
          using d x None by (auto simp: do_resolve_def bind_eq_Some_conv)
        then show ?thesis using put_extends [OF w] by (simp add: push_sub_def grows_def)
      next
        case False
        then have "schedule_async p (put_promise p (x\<lparr>pr_resolution := Some res\<rparr>) st) = Some (r, st')"
          using d x None by (auto simp: do_resolve_def split: sum.splits pvalue.splits)
        then show ?thesis using settle_extends [OF w x None] by blast
      qed
    qed
  qed
  then show ?thesis by (simp add: extending_def)
qed

lemma extending_then [pext_intros]: "extending (promise_then p a b c)"
proof -
  have "extending (\<lambda>st1. do { x \<leftarrow> ps_promises st1 p; Some (Inr sub, put_promise p (push_sub s x) st1) })" for s and sub :: nat
    using put_extends unfolding extending_def by (fastforce simp: bind_eq_Some_conv push_sub_def grows_def)
  then show ?thesis unfolding promise_then_def [abs_def]
    by (intro extending_bind extending_new extending_sum extending_return(1))
qed


lemma extending_returning [pext_intros]: "extending f \<Longrightarrow> extending (\<lambda>st. returning v (f st))"
  unfolding returning_def by (rule extending_map)

lemma extending_resolve [pext_intros]: "extending (promise_resolve p v)" "extending (promise_reject p v)"
  by (simp_all add: promise_resolve_def [abs_def] promise_reject_def [abs_def] extending_do_resolve)

text \<open>What \<open>resolve_single_tracked\<close> does: it stores the result and settles the outer promise, or not.\<close>

lemma tracked_cases:
  assumes "resolve_single_tracked this i res st = Some (r, st')"
  shows "st' = st \<or> (\<exists>x rs. ps_promises st this = Some x \<and>
    (let st1 = put_promise this (x\<lparr>pr_results := rs\<rparr>) st in
     st' = st1 \<or> (\<exists>v r2. do_resolve this v st1 = Some (r2, st'))))"
proof -
  obtain x where x: "ps_promises st this = Some x"
    using assms by (auto simp: resolve_single_tracked_def bind_eq_Some_conv)
  show ?thesis
  proof (cases "pr_resolution x = None")
    case False
    then show ?thesis using assms x by (auto simp: resolve_single_tracked_def)
  next
    case True
    then obtain rs0 mode where m: "pr_results x = Some rs0" "i < length rs0" "pr_mode x = Some mode"
      using assms x by (auto simp: resolve_single_tracked_def bind_eq_Some_conv Let_def split: if_splits)
    let ?st1 = "put_promise this (x\<lparr>pr_results := Some (rs0[i := Some res])\<rparr>) st"
    have "st' = ?st1 \<or> (\<exists>v r2. do_resolve this v ?st1 = Some (r2, st'))"
      using assms x True m
      by (cases mode; cases res)
        (auto simp: resolve_single_tracked_def promise_resolve_def promise_reject_def bind_eq_Some_conv Let_def split: if_splits)
    then show ?thesis using x by (auto simp: Let_def)
  qed
qed

lemma extending_tracked [pext_intros]: "extending (resolve_single_tracked this i res)"
  unfolding extending_def
proof (intro allI impI)
  fix st r st' assume w: "wf_promises st" and run: "resolve_single_tracked this i res st = Some (r, st')"
  consider "st' = st" | x rs where "ps_promises st this = Some x"
    "st' = put_promise this (x\<lparr>pr_results := rs\<rparr>) st \<or> (\<exists>v r2. do_resolve this v (put_promise this (x\<lparr>pr_results := rs\<rparr>) st) = Some (r2, st'))"
    using tracked_cases [OF run] by (auto simp: Let_def)
  then show "extends st st'"
  proof cases
    case 1
    then show ?thesis using extends_refl [OF w] by simp
  next
    case 2
    have e: "extends st (put_promise this (x\<lparr>pr_results := rs\<rparr>) st)" using put_extends [OF w 2(1)] by simp
    then show ?thesis
      using 2(2) extendingD [OF extending_do_resolve extends_wf [OF e]] extends_trans [OF e] by blast
  qed
qed

lemma extending_track_all [pext_intros]: "extending (track_all outer i vs)"
proof (induction vs arbitrary: i)
  case Nil
  have "track_all outer i [] = (\<lambda>st. Some (Inr (), st))" by (intro ext) simp
  then show ?case by (simp add: pext_intros)
next
  case (Cons v vs)
  show ?case
  proof (cases v)
    case (PPromise sub)
    have "track_all outer i (v # vs) = (\<lambda>st. do {
          (r, st1) \<leftarrow> promise_then sub None None (Some (FinallyTrack outer i sub)) st;
          (case r of Inl e \<Rightarrow> Some (Inl e, st1) | Inr _ \<Rightarrow> track_all outer (i + 1) vs st1) })"
      using PPromise by (intro ext) simp
    then show ?thesis using Cons.IH by (simp only:) (intro extending_bind extending_then extending_sum extending_return)
  qed (auto simp: extending_def)
qed

lemma extending_tracking [pext_intros]: "extending (new_tracking mode v)"
proof (cases v)
  case (PArray vs)
  have "extends st st'" if w: "wf_promises st" and run: "new_tracking mode v st = Some (r, st')" for st r st'
  proof (cases "ps_proto st")
    case (Inl e)
    then show ?thesis using run w by (simp add: new_tracking_def extends_refl)
  next
    case (Inr u)
    obtain outer st1 where o: "new_promise (Some mode) (Some (replicate (length vs) None)) st = (outer, st1)"
      by (cases "new_promise (Some mode) (Some (replicate (length vs) None)) st")
    then obtain r2 where "track_all outer 0 vs st1 = Some (r2, st')"
      using run Inr PArray by (auto simp: new_tracking_def bind_eq_Some_conv)
    moreover have "extends st st1" using new_extends [OF w o] by simp
    ultimately show ?thesis using extends_trans extends_wf extendingD [OF extending_track_all] by blast
  qed
  then show ?thesis by (simp add: extending_def)
qed (auto simp: extending_def new_tracking_def extends_refl split: sum.splits)

section \<open>The functions of the global object, and user code\<close>

lemma extending_with_prom [pext_intros]: "(\<And>p. extending (f p)) \<Longrightarrow> extending (with_prom this f)"
  by (cases this) (simp_all add: with_prom_def [abs_def] pext_intros)

lemma extending_then_value [pext_intros]: "extending (then_value p a b c)"
proof -
  have "extending (\<lambda>st1. Some (map_sum id PPromise r, st1))" for r :: "pvalue + nat" by (rule extending_return)
  then show ?thesis unfolding then_value_def [abs_def] by (intro extending_bind extending_then)
qed

lemmas jsrt_defs = jsrt_then_def jsrt_catch_def jsrt_finally_def jsrt_resolve_def jsrt_reject_def
  jsrt_static_resolve_def jsrt_static_reject_def jsrt_race_def jsrt_all_def jsrt_all_settled_def jsrt_any_def

lemma extending_settle [pext_intros]: "extending (static_settle wrap args)"
proof -
  have "extending (\<lambda>st1. returning (PPromise p) (do_resolve p x st1))" for p x by (intro pext_intros)
  then show ?thesis
    unfolding static_settle_def [abs_def] by (intro extending_if extending_return extending_bind extending_new extending_sum)
qed

lemma extending_static_tracking [pext_intros]: "extending (static_tracking mode msg args)"
  using extendingD [OF extending_tracking]
  by (auto simp: extending_def static_tracking_def extends_refl split: list.splits pvalue.splits)

lemma extending_builtin [pext_intros]: "extending (call_builtin f args)"
proof (cases f)
  case (FinallyTrack outer i sub)
  have "extends st st'" if w: "wf_promises st" and run: "call_builtin f args st = Some (r, st')" for st r st'
  proof -
    obtain res r2 where "resolve_single_tracked outer i res st = Some (r2, st')"
      using run FinallyTrack by (auto simp: call_builtin_def bind_eq_Some_conv)
    then show ?thesis using extendingD [OF extending_tracked w] by blast
  qed
  then show ?thesis by (simp add: extending_def)
qed (simp_all add: call_builtin_def [abs_def] pext_intros)

lemma extending_call [pext_intros]: "extending (run_call c)"
  by (cases c) (auto simp: run_call_def jsrt_defs split: tracking_mode.split intro!: pext_intros)

lemma extending_script [pext_intros]: "extending (run_script s)"
proof (induction s)
  case (Step c k)
  have "run_script (Step c k) = (\<lambda>st. do { (r, st1) \<leftarrow> run_call c st; run_script (k r) st1 })" by simp
  then show ?case using Step.IH by (simp only:) (intro extending_bind extending_call, blast)
qed (simp add: pext_intros)

lemma extending_call_fn [pext_intros]: "extending (call_fn user f args)"
  by (cases f) (simp_all add: call_fn_def pext_intros)

lemma extending_promise_new [pext_intros]: "extending (promise_new user f)"
proof -
  have "extending (\<lambda>st2. Some (map_sum id (\<lambda>_. PPromise p) res, st2))" for p and res :: presult by (rule extending_return)
  then show ?thesis unfolding promise_new_def [abs_def]
    by (intro extending_bind extending_new extending_sum extending_return extending_call_fn)
qed

lemma extending_constructor [pext_intros]: "extending (promise_constructor user args)"
  using extendingD [OF extending_promise_new]
  by (auto simp: extending_def promise_constructor_def extends_refl split: pvalue.splits)

section \<open>Jobs\<close>

lemma deliver_extends:
  "wf_promises st \<Longrightarrow> deliver user sel args ss st = Some st' \<Longrightarrow> extends st st'"
proof (induction ss arbitrary: st)
  case Nil
  then show ?case by (simp add: extends_refl)
next
  case (Cons s ss)
  show ?case
  proof (cases "sel s")
    case None
    then show ?thesis using Cons by simp
  next
    case (Some f)
    obtain res st1 r st2 where 1: "call_fn user f args st = Some (res, st1)" "do_resolve (sub_promise s) res st1 = Some (r, st2)"
      "deliver user sel args ss st2 = Some st'"
      using Cons.prems(2) Some by (auto simp: bind_eq_Some_conv)
    have e1: "extends st st1" by (rule extendingD [OF extending_call_fn Cons.prems(1) 1(1)])
    have e2: "extends st1 st2" by (rule extendingD [OF extending_do_resolve extends_wf [OF e1] 1(2)])
    show ?thesis using extends_trans [OF extends_trans [OF e1 e2] Cons.IH [OF extends_wf [OF e2] 1(3)]] .
  qed
qed

lemma run_job_extends:
  assumes "wf_promises st" "run_job user p st = Some st'"
  shows "extends st st'"
proof -
  obtain sel args ss st1 ss' where 1: "deliver user sel args ss st = Some st1" "deliver user on_finally [] ss' st1 = Some st'"
  proof -
    obtain x res where x: "ps_promises st p = Some x" "pr_resolution x = Some res"
      using assms(2) by (auto simp: run_job_def bind_eq_Some_conv)
    show ?thesis
    proof (cases res)
      case (Inl e)
      then show ?thesis using assms(2) x that by (auto simp: run_job_def bind_eq_Some_conv)
    next
      case (Inr v)
      then show ?thesis using assms(2) x that by (auto simp: run_job_def bind_eq_Some_conv)
    qed
  qed
  have e: "extends st st1" by (rule deliver_extends [OF assms(1) 1(1)])
  show ?thesis by (rule extends_trans [OF e deliver_extends [OF extends_wf [OF e] 1(2)]])
qed

end
