(* ===== verification/Promise_Props.thy ===== *)
theory Promise_Props
  imports Promise_Facts
begin

text \<open>
  The properties of promises along every run of the event loop: a promise settles once, its job runs
  once, a chain of handlers delivers its result, \<open>Promise.all\<close> collects in order. The loop either
  runs the job at the head of the queue or a piece of user code.
\<close>

inductive loop_step :: "user_code \<Rightarrow> pstate \<Rightarrow> pstate \<Rightarrow> bool" for user where
  job: "ps_jobs st = p # js \<Longrightarrow> run_job user p (st\<lparr>ps_jobs := js\<rparr>) = Some st' \<Longrightarrow> loop_step user st st'"
| code: "run_script s st = Some (r, st') \<Longrightarrow> loop_step user st st'"
| construct: "promise_constructor user args st = Some (r, st') \<Longrightarrow> loop_step user st st'"

inductive_cases loop_stepE: "loop_step user st st'"

text \<open>What every step keeps: each queued promise is settled, and no promise is queued twice.\<close>

definition loop_inv :: "pstate \<Rightarrow> bool" where
  "loop_inv st \<longleftrightarrow> wf_promises st \<and> distinct (ps_jobs st) \<and> (\<forall>p \<in> set (ps_jobs st). resolution_of st p \<noteq> None)"

lemma resolution_jobs [simp]: "resolution_of (st\<lparr>ps_jobs := js\<rparr>) = resolution_of st"
  by (intro ext) (simp add: resolution_of_def)

lemma extends_inv:
  assumes e: "extends st st'" and i: "loop_inv st"
  shows "loop_inv st'"
proof -
  obtain new where new: "ps_jobs st' = ps_jobs st @ new" "distinct new" "set new \<subseteq> newly_settled st st'"
    using e unfolding extends_def by (metis empty_subsetI order_refl)
  then show ?thesis using e i extends_resolution [OF e] unfolding loop_inv_def newly_settled_def
    by (auto simp: extends_def; blast)
qed

text \<open>What a step does to a settled promise that is not queued.\<close>

lemma loop_step_facts:
  assumes "loop_step user st st'" "loop_inv st"
  shows "loop_inv st'" "resolution_of st p = Some r \<Longrightarrow> resolution_of st' p = Some r"
    "resolution_of st p \<noteq> None \<Longrightarrow> p \<notin> set (ps_jobs st) \<Longrightarrow> p \<notin> set (ps_jobs st')"
proof -
  obtain js where js: "js = ps_jobs st \<or> (\<exists>q. ps_jobs st = q # js)" and e: "extends (st\<lparr>ps_jobs := js\<rparr>) st'"
    using assms(1)
  proof cases
    case (job q js)
    have "wf_promises (st\<lparr>ps_jobs := js\<rparr>)" using assms(2) by (simp add: loop_inv_def wf_promises_def)
    then show ?thesis using run_job_extends job that [of js] by blast
  next
    case code
    then show ?thesis using assms(2) extendingD [OF extending_script] that [of "ps_jobs st"] by (simp add: loop_inv_def)
  next
    case construct
    then show ?thesis using assms(2) extendingD [OF extending_constructor] that [of "ps_jobs st"] by (simp add: loop_inv_def)
  qed
  have "loop_inv (st\<lparr>ps_jobs := js\<rparr>)" using assms(2) js by (auto simp: loop_inv_def wf_promises_def)
  then show "loop_inv st'" by (rule extends_inv [OF e])
  show "resolution_of st' p = Some r" if "resolution_of st p = Some r" using extends_resolution [OF e] that by simp
  show "p \<notin> set (ps_jobs st')" if p: "resolution_of st p \<noteq> None" "p \<notin> set (ps_jobs st)"
  proof -
    obtain new where "ps_jobs st' = js @ new" "set new \<subseteq> newly_settled (st\<lparr>ps_jobs := js\<rparr>) st'"
      using e unfolding extends_def by (auto split: if_splits)
    then show ?thesis using p js by (auto simp: newly_settled_def)
  qed
qed

lemma loop_steps_facts:
  assumes "(loop_step user)\<^sup>*\<^sup>* st st'" "loop_inv st"
  shows "loop_inv st'" "resolution_of st p = Some r \<Longrightarrow> resolution_of st' p = Some r"
    "resolution_of st p \<noteq> None \<Longrightarrow> p \<notin> set (ps_jobs st) \<Longrightarrow> p \<notin> set (ps_jobs st')"
  using assms
  by (induction rule: converse_rtranclp_induct; use loop_step_facts in blast)+

lemma initial_inv: "loop_inv initial_state"
  by (simp add: loop_inv_def initial_state_def wf_promises_def)

lemma reached_inv: "(loop_step user)\<^sup>*\<^sup>* initial_state st \<Longrightarrow> loop_inv st"
  using loop_steps_facts(1) initial_inv by blast

text \<open>
  C4. A promise settles once and its job is queued once: in every state the event loop reaches, with
  any user code, no promise is queued twice and every queued promise is settled; and a promise that
  has a resolution keeps it in every later state.
\<close>

theorem promise_settles_once:
  assumes "(loop_step user)\<^sup>*\<^sup>* initial_state st" "(loop_step user)\<^sup>*\<^sup>* st st'" "resolution_of st p = Some r"
  shows "resolution_of st' p = Some r \<and> distinct (ps_jobs st') \<and> (\<forall>q \<in> set (ps_jobs st'). resolution_of st' q \<noteq> None)"
  using loop_steps_facts(1,2) [OF assms(2) reached_inv [OF assms(1)]] assms(3) by (simp add: loop_inv_def)

text \<open>
  C11. A handler that is registered too late is never called: when \<open>then\<close> is called on a promise that is
  settled and whose job is not queued any more, no later state of the event loop has a job of that
  promise in its queue, and only the job of a promise calls its handlers.
\<close>

theorem late_then_never_runs:
  assumes "(loop_step user)\<^sup>*\<^sup>* initial_state st" "resolution_of st p \<noteq> None" "p \<notin> set (ps_jobs st)"
    "promise_then p a b c st = Some (Inr sub, st1)" "(loop_step user)\<^sup>*\<^sup>* st1 st2"
  shows "p \<notin> set (ps_jobs st2) \<and> resolution_of st1 sub = None"
proof -
  have i: "loop_inv st" by (rule reached_inv [OF assms(1)])
  have e: "extends st st1" using i extendingD [OF extending_then _ assms(4)] by (simp add: loop_inv_def)
  have "ps_jobs st1 = ps_jobs st"
    using assms(4) by (auto simp: promise_then_def new_unresolving_def new_promise_def put_promise_def bind_eq_Some_conv split: sum.splits)
  moreover have "resolution_of st1 p \<noteq> None" using extends_resolution [OF e] assms(2) by auto
  moreover have "resolution_of st1 sub = None"
  proof -
    have n: "ps_promises st (ps_next st) = None" using i by (simp add: loop_inv_def wf_promises_def)
    then show ?thesis using assms(2,4)
      by (auto simp: promise_then_def new_unresolving_def new_promise_def put_promise_def push_sub_def resolution_of_def bind_eq_Some_conv Let_def
          split: sum.splits if_splits)
  qed
  ultimately show ?thesis using loop_steps_facts(3) [OF assms(5) extends_inv [OF e i]] assms(3) by simp
qed


section \<open>A settled promise\<close>

definition settled_example :: pstate where
  "settled_example = initial_state\<lparr>ps_promises := [0 \<mapsto> \<lparr>pr_subs = [], pr_mode = None, pr_results = None, pr_resolution = Some (Inr PNull)\<rparr>],
     ps_next := 1\<rparr>"

lemmas promise_defs = run_call_def jsrt_defs static_settle_def new_unresolving_def new_promise_def put_promise_def returning_def
  do_resolve_def schedule_async_def arg_at_def run_job_def call_fn_def call_builtin_def promise_resolve_def promise_reject_def
  promise_then_def push_sub_def Let_def

lemma settled_example_steps:
  "loop_step user initial_state (settled_example\<lparr>ps_jobs := [0]\<rparr>)" "loop_step user (settled_example\<lparr>ps_jobs := [0]\<rparr>) settled_example"
proof -
  have "run_script (Step (CStaticResolve [PNull]) Return) initial_state = Some (Inr (PPromise 0), settled_example\<lparr>ps_jobs := [0]\<rparr>)"
    by (simp add: initial_state_def settled_example_def promise_defs)
  then show "loop_step user initial_state (settled_example\<lparr>ps_jobs := [0]\<rparr>)" by (rule loop_step.code)
  have "settled_example\<lparr>ps_jobs := [0], ps_jobs := []\<rparr> = settled_example" by (simp add: settled_example_def initial_state_def)
  then show "loop_step user (settled_example\<lparr>ps_jobs := [0]\<rparr>) settled_example"
    by (intro loop_step.job [of _ 0 "[]"]) (simp_all add: settled_example_def initial_state_def promise_defs)
qed

lemma settled_example_reached: "(loop_step user)\<^sup>*\<^sup>* initial_state settled_example"
  using settled_example_steps by (meson converse_rtranclp_into_rtranclp rtranclp.rtrancl_refl)

lemma settled_example_simps: "resolution_of settled_example 0 = Some (Inr PNull)" "ps_jobs settled_example = []"
  "resolution_of (settled_example\<lparr>ps_jobs := [0]\<rparr>) 0 = Some (Inr PNull)"
  by (simp_all add: settled_example_def initial_state_def resolution_of_def)

theorem promise_settles_once_witness:
  "\<exists>st st'. loop_step (\<lambda>_ _. Return (Inr PNull)) st st' \<and> ps_jobs st = [0] \<and> resolution_of st 0 = Some (Inr PNull) \<and> resolution_of st' 0 = Some (Inr PNull)"
  using promise_settles_once [of "\<lambda>_ _. Return (Inr PNull)" "settled_example\<lparr>ps_jobs := [0]\<rparr>" settled_example 0 "Inr PNull"] settled_example_steps settled_example_simps
  by (intro exI [of _ "settled_example\<lparr>ps_jobs := [0]\<rparr>"] exI [of _ settled_example]) auto

theorem late_then_never_runs_witness:
  "\<exists>st1. promise_then 0 (Some PassVal) None None settled_example = Some (Inr 1, st1) \<and> 0 \<notin> set (ps_jobs st1)"
proof -
  obtain st1 where "promise_then 0 (Some PassVal) None None settled_example = Some (Inr 1, st1)"
    by (simp add: promise_defs settled_example_def initial_state_def)
  then show ?thesis
    using late_then_never_runs [OF settled_example_reached [of "\<lambda>_ _. Return (Inr PNull)"], of 0 "Some PassVal" None None 1 st1 st1] settled_example_simps
    by simp
qed

section \<open>Chains of handlers\<close>

text \<open>\<open>p.then(f1).then(f2) ..\<close>: \<open>qs\<close> are the promises that \<open>then\<close> returned.\<close>

fun chained :: "pstate \<Rightarrow> nat \<Rightarrow> nat list \<Rightarrow> nat list \<Rightarrow> bool" where
  "chained st p [] [] = (\<exists>x. ps_promises st p = Some x \<and> pr_subs x = [])"
| "chained st p (f # fs) (q # qs) =
     ((\<exists>x. ps_promises st p = Some x \<and> pr_subs x = [(Some (UserFun f), None, None, q)]) \<and> resolution_of st q = None \<and> chained st q fs qs)"
| "chained st p _ _ = False"

definition plain :: "pvalue \<Rightarrow> bool" where
  "plain v \<longleftrightarrow> (\<forall>q. v \<noteq> PPromise q)"

lemma settle_plain:
  assumes "ps_promises st p = Some x" "pr_resolution x = None" "plain v" "ps_scheduler st"
  shows "do_resolve p (Inr v) st =
    Some (Inr (), st\<lparr>ps_promises := (ps_promises st)(p \<mapsto> x\<lparr>pr_resolution := Some (Inr v)\<rparr>), ps_jobs := ps_jobs st @ [p]\<rparr>)"
  using assms by (cases v) (simp_all add: do_resolve_def schedule_async_def put_promise_def plain_def)

lemma chained_cong:
  assumes "chained st p fs qs" "\<forall>q \<in> set (p # qs). ps_promises st' q = ps_promises st q"
  shows "chained st' p fs qs"
  using assms by (induction st p fs qs rule: chained.induct) (auto simp: resolution_of_def)

lemma chain_runs:
  assumes "chained st p fs qs" "distinct (p # qs)" "ps_jobs st = [p]" "resolution_of st p = Some (Inr v)" "ps_scheduler st"
    and pure: "\<And>f v. user f [v] = Return (Inr (g f v)) \<and> plain (g f v)"
  shows "\<exists>st'. run_jobs user st = Some (Some st') \<and> ps_jobs st' = [] \<and>
    resolution_of st' (last (p # qs)) = Some (Inr (fold g fs v))"
  using assms(1-5)
proof (induction fs arbitrary: p qs st v)
  case Nil
  then have qs: "qs = []" by (cases qs) simp_all
  obtain x where x: "ps_promises st p = Some x" "pr_subs x = []" "pr_resolution x = Some (Inr v)"
    using Nil.prems(1,4) qs by (auto simp: resolution_of_def)
  then have "next_job user st = Some (st\<lparr>ps_jobs := []\<rparr>)"
    using Nil.prems(3) by (simp add: next_job_def run_job_def)
  then have "run_jobs user st = Some (Some (st\<lparr>ps_jobs := []\<rparr>))"
    using Nil.prems(3) by (subst run_jobs.simps, simp, subst run_jobs.simps, simp)
  then show ?case using Nil.prems(4) qs by simp
next
  case (Cons f fs)
  obtain q qs' where qs: "qs = q # qs'" using Cons.prems(1) by (cases qs) auto
  obtain x where x: "ps_promises st p = Some x" "pr_subs x = [(Some (UserFun f), None, None, q)]" "pr_resolution x = Some (Inr v)"
    using Cons.prems(1,4) qs by (auto simp: resolution_of_def)
  have c: "resolution_of st q = None" "chained st q fs qs'" using Cons.prems(1) qs by simp_all
  obtain y where y: "ps_promises st q = Some y" "pr_resolution y = None"
    using c by (cases fs; cases qs') (auto simp: resolution_of_def)
  let ?v = "g f v" and ?st0 = "st\<lparr>ps_jobs := []\<rparr>"
  let ?st1 = "?st0\<lparr>ps_promises := (ps_promises st)(q \<mapsto> y\<lparr>pr_resolution := Some (Inr ?v)\<rparr>), ps_jobs := [q]\<rparr>"
  have pq: "p \<noteq> q" using Cons.prems(2) qs by auto
  have call: "call_fn user (UserFun f) [v] ?st0 = Some (Inr ?v, ?st0)" using pure [of f v] by (simp add: call_fn_def)
  have "do_resolve q (Inr ?v) ?st0 = Some (Inr (), ?st1)"
    using settle_plain [of ?st0 q y ?v] y pure [of f v] Cons.prems(5) by simp
  then have "run_job user p ?st0 = Some ?st1"
    using x call pq by (simp add: run_job_def on_resolved_def on_finally_def sub_promise_def)
  then have "next_job user st = Some ?st1" using Cons.prems(3) by (simp add: next_job_def)
  then have step: "run_jobs user st = run_jobs user ?st1" using Cons.prems(3) by (subst run_jobs.simps) simp
  have "chained ?st1 q fs qs'"
  proof -
    have d: "q \<notin> set qs'" using Cons.prems(2) qs by simp
    show ?thesis
    proof (cases fs)
      case Nil
      then show ?thesis using c(2) y by (cases qs') auto
    next
      case (Cons f' fs')
      then obtain r rs where r: "qs' = r # rs" using c(2) by (cases qs') auto
      have "chained ?st1 r fs' rs" by (rule chained_cong [of st]) (use c(2) Cons r d in auto)
      then show ?thesis using c(2) Cons r y d by (auto simp: resolution_of_def)
    qed
  qed
  moreover have "distinct (q # qs')" "ps_jobs ?st1 = [q]" "resolution_of ?st1 q = Some (Inr ?v)" "ps_scheduler ?st1"
    using Cons.prems(2,5) qs by (simp_all add: resolution_of_def)
  ultimately show ?case using Cons.IH [of ?st1 q qs' ?v] step qs by simp
qed

text \<open>
  C5. A chain of handlers ends and delivers its result: when a promise at the head of
  \<open>p.then(f1).then(f2)..\<close> is resolved with a plain value and the handlers return plain values, the event
  loop empties its queue, and the last promise of the chain is fulfilled with the handlers applied
  in order to the value.
\<close>

theorem chain_delivers:
  assumes "chained st p fs qs" "distinct (p # qs)" "ps_jobs st = []" "resolution_of st p = None" "ps_scheduler st" "plain v"
    "\<forall>f v. user f [v] = Return (Inr (g f v)) \<and> plain (g f v)"
  shows "\<exists>st1 st2. promise_resolve p v st = Some (Inr (), st1) \<and> run_jobs user st1 = Some (Some st2) \<and> ps_jobs st2 = [] \<and>
    resolution_of st2 (last (p # qs)) = Some (Inr (fold g fs v))"
proof -
  obtain x where x: "ps_promises st p = Some x" "pr_resolution x = None"
    using assms(1,4) by (cases fs; cases qs) (auto simp: resolution_of_def)
  let ?st1 = "st\<lparr>ps_promises := (ps_promises st)(p \<mapsto> x\<lparr>pr_resolution := Some (Inr v)\<rparr>), ps_jobs := [p]\<rparr>"
  have "promise_resolve p v st = Some (Inr (), ?st1)"
    using settle_plain [OF x assms(6,5)] assms(3) by (simp add: promise_resolve_def)
  moreover have "chained ?st1 p fs qs"
  proof (cases fs)
    case Nil
    then show ?thesis using assms(1) x by (cases qs) auto
  next
    case (Cons f fs')
    then obtain q qs' where q: "qs = q # qs'" using assms(1) by (cases qs) auto
    have "chained ?st1 q fs' qs'" by (rule chained_cong [of st]) (use assms(1,2) Cons q in auto)
    then show ?thesis using assms(1,2) Cons q x by (auto simp: resolution_of_def)
  qed
  moreover have "resolution_of ?st1 p = Some (Inr v)" by (simp add: resolution_of_def)
  ultimately show ?thesis using chain_runs [of ?st1 p fs qs v user g] assms(2,5,7) by auto
qed


definition pending :: "psub list \<Rightarrow> promise" where
  "pending subs = \<lparr>pr_subs = subs, pr_mode = None, pr_results = None, pr_resolution = None\<rparr>"
definition example_of :: "(nat \<rightharpoonup> promise) \<Rightarrow> pstate" where
  "example_of ps = initial_state\<lparr>ps_promises := ps, ps_next := 10\<rparr>"

text \<open>Two handlers that wrap their argument in an array.\<close>

definition wrap_user :: user_code where
  "wrap_user f args = Return (Inr (PArray (PPlain f # args)))"

theorem chain_delivers_witness:
  "\<exists>st1 st2. promise_resolve 0 (PPlain 7) (example_of [0 \<mapsto> pending [(Some (UserFun 3), None, None, 1)],
       1 \<mapsto> pending [(Some (UserFun 4), None, None, 2)], 2 \<mapsto> pending []]) = Some (Inr (), st1) \<and>
     run_jobs wrap_user st1 = Some (Some st2) \<and> resolution_of st2 2 = Some (Inr (PArray [PPlain 4, PArray [PPlain 3, PPlain 7]]))"
  using chain_delivers [of "example_of [0 \<mapsto> pending [(Some (UserFun 3), None, None, 1)],
       1 \<mapsto> pending [(Some (UserFun 4), None, None, 2)], 2 \<mapsto> pending []]" 0 "[3, 4]" "[1, 2]" "PPlain 7" wrap_user "\<lambda>f v. PArray [PPlain f, v]"]
  by (auto simp: example_of_def initial_state_def pending_def resolution_of_def plain_def wrap_user_def)

section \<open>Promise.all\<close>

definition tracking :: "nat \<Rightarrow> pvalue list \<Rightarrow> nat set \<Rightarrow> pstate \<Rightarrow> bool" where
  "tracking outer vs done1 st \<longleftrightarrow> (\<exists>x. ps_promises st outer = Some x \<and> pr_mode x = Some All \<and> pr_resolution x = None \<and>
     pr_results x = Some (map (\<lambda>i. if i \<in> done1 then Some (Inr (vs ! i)) else None) [0..<length vs]))"

lemma those_Some: "those (map (\<lambda>i. Some (f i)) xs) = Some (map f xs)"
  by (induction xs) simp_all

lemma collected: "those (map (\<lambda>i. Some (vs ! i)) [0..<length vs]) = Some vs"
  by (simp add: those_Some map_nth)

lemma track_one:
  assumes t: "tracking outer vs D st" and i: "i < length vs" "i \<notin> D" and sub: "resolution_of st sub = Some (Inr (vs ! i))"
    and sch: "ps_scheduler st"
  shows "\<exists>st'. call_builtin (FinallyTrack outer i sub) [] st = Some (Inr PNull, st') \<and> ps_scheduler st' \<and>
    (\<forall>p. p \<noteq> outer \<longrightarrow> ps_promises st' p = ps_promises st p) \<and>
    map_option pr_subs (ps_promises st' outer) = map_option pr_subs (ps_promises st outer) \<and>
    (if {..<length vs} \<subseteq> insert i D then resolution_of st' outer = Some (Inr (PArray vs)) \<and> ps_jobs st' = ps_jobs st @ [outer]
     else tracking outer vs (insert i D) st' \<and> ps_jobs st' = ps_jobs st)"
proof -
  obtain x where x: "ps_promises st outer = Some x" "pr_mode x = Some All" "pr_resolution x = None"
    "pr_results x = Some (map (\<lambda>i. if i \<in> D then Some (Inr (vs ! i)) else None) [0..<length vs])"
    using t by (auto simp: tracking_def)
  obtain y where y: "ps_promises st sub = Some y" "pr_resolution y = Some (Inr (vs ! i))"
    using sub by (auto simp: resolution_of_def split: option.splits)
  let ?rs = "map (\<lambda>j. if j \<in> insert i D then Some (Inr (vs ! j)) else None) [0..<length vs] :: presult option list"
  have rs: "(map (\<lambda>i. if i \<in> D then Some (Inr (vs ! i)) else None) [0..<length vs])[i := Some (Inr (vs ! i))] = ?rs"
    using i by (intro nth_equalityI) (auto simp: nth_list_update)
  have full: "None \<in> set ?rs \<longleftrightarrow> \<not> {..<length vs} \<subseteq> insert i D" by auto
  show ?thesis
  proof (cases "{..<length vs} \<subseteq> insert i D")
    case False
    then show ?thesis using x y i sch rs full
      by (auto simp: call_builtin_def resolve_single_tracked_def put_promise_def tracking_def Let_def)
  next
    case True
    then have vals: "map ok_value ?rs = map (\<lambda>j. Some (vs ! j)) [0..<length vs]" by (auto simp: ok_value_def)
    have "those (map ok_value ?rs) = Some vs" unfolding vals by (rule collected)
    then show ?thesis using True x y i sch rs full
      by (auto simp: call_builtin_def resolve_single_tracked_def put_promise_def Let_def promise_resolve_def do_resolve_def
          schedule_async_def resolution_of_def)
  qed
qed

text \<open>
  The promises of a call of \<open>Promise.all\<close>, while the ones in \<open>S\<close> are settled and the closures of the ones in \<open>D\<close>
  have run: \<open>ps\<close> are the promises of the input, \<open>q i\<close> is the promise that \<open>then\<close> made for the \<open>i\<close>-th.
\<close>

definition all_fresh :: "nat \<Rightarrow> nat list \<Rightarrow> (nat \<Rightarrow> nat) \<Rightarrow> bool" where
  "all_fresh outer ps q \<longleftrightarrow> distinct ps \<and> inj_on q {..<length ps} \<and> outer \<notin> set ps \<and>
     (\<forall>i < length ps. q i \<noteq> outer \<and> q i \<notin> set ps)"
definition all_state :: "nat \<Rightarrow> nat list \<Rightarrow> (nat \<Rightarrow> nat) \<Rightarrow> pvalue list \<Rightarrow> nat set \<Rightarrow> nat set \<Rightarrow> pstate \<Rightarrow> bool" where
  "all_state outer ps q vs S D st \<longleftrightarrow> ps_scheduler st \<and> map_option pr_subs (ps_promises st outer) = Some [] \<and>
     (if {..<length vs} \<subseteq> D then resolution_of st outer = Some (Inr (PArray vs)) else tracking outer vs D st) \<and>
     (\<forall>i < length ps.
        (\<exists>x. ps_promises st (ps ! i) = Some x \<and> pr_subs x = [(None, None, Some (FinallyTrack outer i (ps ! i)), q i)] \<and>
           pr_resolution x = (if i \<in> S then Some (Inr (vs ! i)) else None)) \<and>
        (\<exists>y. ps_promises st (q i) = Some y \<and> pr_subs y = [] \<and> pr_resolution y = (if i \<in> D then Some (Inr PNull) else None)))"

lemma all_state_cong:
  assumes "all_state outer ps q vs S D st" "ps_promises st' = ps_promises st" "ps_scheduler st' = ps_scheduler st"
  shows "all_state outer ps q vs S D st'"
proof -
  have "resolution_of st' = resolution_of st" "tracking outer vs D st' = tracking outer vs D st"
    using assms(2) by (simp_all add: resolution_of_def [abs_def] tracking_def)
  then show ?thesis using assms by (simp add: all_state_def)
qed

text \<open>The job of a promise that is settled and has no handlers does nothing.\<close>

definition idle :: "pstate \<Rightarrow> nat \<Rightarrow> bool" where
  "idle st p \<longleftrightarrow> (\<exists>x r. ps_promises st p = Some x \<and> pr_resolution x = Some r \<and> pr_subs x = [])"

lemma idle_drains:
  "\<forall>p \<in> set (ps_jobs st). idle st p \<Longrightarrow> run_jobs user st = Some (Some (st\<lparr>ps_jobs := []\<rparr>))"
proof (induction "ps_jobs st" arbitrary: st)
  case Nil
  then show ?case by (subst run_jobs.simps) simp
next
  case (Cons p js)
  let ?st = "st\<lparr>ps_jobs := js\<rparr>"
  have j: "ps_jobs st = p # js" using Cons.hyps(2) by simp
  have "run_job user p ?st = Some ?st" using Cons.prems j by (auto simp: idle_def run_job_def split: sum.split)
  then have "run_jobs user st = run_jobs user ?st" by (subst run_jobs.simps) (simp add: next_job_def j)
  moreover have "run_jobs user ?st = Some (Some (?st\<lparr>ps_jobs := []\<rparr>))" using Cons.hyps(1) [of ?st] Cons.prems j by (simp add: idle_def)
  ultimately show ?case by simp
qed

lemma tracked_job:
  assumes f: "all_fresh outer ps q" and st: "all_state outer ps q vs {..<length vs} D st" and i: "i < length vs" "i \<notin> D"
    and n: "length ps = length vs"
  shows "\<exists>st'. run_job user (ps ! i) st = Some st' \<and> all_state outer ps q vs {..<length vs} (insert i D) st' \<and>
    ps_jobs st' = ps_jobs st @ (if {..<length vs} \<subseteq> insert i D then [outer] else []) @ [q i]"
proof -
  obtain x where x: "ps_promises st (ps ! i) = Some x" "pr_subs x = [(None, None, Some (FinallyTrack outer i (ps ! i)), q i)]"
    "pr_resolution x = Some (Inr (vs ! i))"
    using st i n by (auto simp: all_state_def)
  have "\<not> {..<length vs} \<subseteq> D" using i by blast
  then have t: "tracking outer vs D st" "ps_scheduler st" using st by (simp_all add: all_state_def)
  have "resolution_of st (ps ! i) = Some (Inr (vs ! i))" using x by (simp add: resolution_of_def)
  then obtain st1 where st1: "call_builtin (FinallyTrack outer i (ps ! i)) [] st = Some (Inr PNull, st1)" "ps_scheduler st1"
    "\<forall>p. p \<noteq> outer \<longrightarrow> ps_promises st1 p = ps_promises st p"
    "map_option pr_subs (ps_promises st1 outer) = map_option pr_subs (ps_promises st outer)"
    "if {..<length vs} \<subseteq> insert i D then resolution_of st1 outer = Some (Inr (PArray vs)) \<and> ps_jobs st1 = ps_jobs st @ [outer]
     else tracking outer vs (insert i D) st1 \<and> ps_jobs st1 = ps_jobs st"
    using track_one [OF t(1) i _ t(2)] by blast
  have qi: "q i \<noteq> outer" "q i \<notin> set ps" "ps ! i \<noteq> outer" using f i(1) n by (auto simp: all_fresh_def)
  obtain y where y: "ps_promises st1 (q i) = Some y" "pr_resolution y = None" "pr_subs y = []"
    using st st1(3) i n qi(1) by (auto simp: all_state_def)
  let ?st2 = "st1\<lparr>ps_promises := (ps_promises st1)(q i \<mapsto> y\<lparr>pr_resolution := Some (Inr PNull)\<rparr>), ps_jobs := ps_jobs st1 @ [q i]\<rparr>"
  have "do_resolve (q i) (Inr PNull) st1 = Some (Inr (), ?st2)" by (rule settle_plain [OF y(1,2) _ st1(2)]) (simp add: plain_def)
  then have "run_job user (ps ! i) st = Some ?st2"
    using x st1(1) by (simp add: run_job_def on_resolved_def on_finally_def sub_promise_def call_fn_def)
  moreover have "all_state outer ps q vs {..<length vs} (insert i D) ?st2"
    unfolding all_state_def
  proof (intro conjI allI impI)
    show "map_option pr_subs (ps_promises ?st2 outer) = Some []" using st st1(4) qi(1) by (simp add: all_state_def)
    show "if {..<length vs} \<subseteq> insert i D then resolution_of ?st2 outer = Some (Inr (PArray vs)) else tracking outer vs (insert i D) ?st2"
      using st1(5) qi(1) by (cases "{..<length vs} \<subseteq> insert i D") (simp_all add: resolution_of_def tracking_def)
  next
    fix k assume k: "k < length ps"
    have m: "ps ! k \<in> set ps" using k by simp
    have "ps ! k \<noteq> q i" "ps ! k \<noteq> outer" "q k \<noteq> outer" "q k = q i \<longleftrightarrow> k = i"
      using f k m qi i n by (auto simp: all_fresh_def inj_on_def simp del: nth_mem)
    note ne = this
    show "\<exists>x. ps_promises ?st2 (ps ! k) = Some x \<and> pr_subs x = [(None, None, Some (FinallyTrack outer k (ps ! k)), q k)] \<and>
        pr_resolution x = (if k \<in> {..<length vs} then Some (Inr (vs ! k)) else None)"
      using st st1(3) k ne(1,2) by (simp add: all_state_def)
    show "\<exists>y. ps_promises ?st2 (q k) = Some y \<and> pr_subs y = [] \<and> pr_resolution y = (if k \<in> insert i D then Some (Inr PNull) else None)"
      using st st1(3) k ne(3,4) y(3) by (cases "k = i") (simp_all add: all_state_def)
  qed (use st1(2) in simp)
  moreover have "ps_jobs ?st2 = ps_jobs st @ (if {..<length vs} \<subseteq> insert i D then [outer] else []) @ [q i]"
    using st1(5) by (simp split: if_splits)
  ultimately show ?thesis by blast
qed

lemma all_loop:
  assumes f: "all_fresh outer ps q" and n: "length ps = length vs"
    and "all_state outer ps q vs {..<length vs} D st" "ps_jobs st = map ((!) ps) is @ rest" "distinct is" "set is = {..<length vs} - D"
      "set rest \<subseteq> q ` (D \<inter> {..<length vs}) \<union> (if is = [] then {outer} else {})"
  shows "\<exists>st'. run_jobs user st = Some (Some st') \<and> ps_jobs st' = [] \<and> resolution_of st' outer = Some (Inr (PArray vs))"
  using assms(3-)
proof (induction "is" arbitrary: st D rest)
  case Nil
  then have full: "{..<length vs} \<subseteq> D" by auto
  have o: "idle st outer" "resolution_of st outer = Some (Inr (PArray vs))"
    using Nil.prems(1) full by (auto simp: all_state_def idle_def resolution_of_def split: option.splits)
  have "idle st (q i)" if i: "i < length vs" for i
  proof -
    have "i \<in> D" using full i by blast
    then show ?thesis using Nil.prems(1) i n unfolding all_state_def idle_def by fastforce
  qed
  then have "\<forall>p \<in> set (ps_jobs st). idle st p" using Nil.prems(2,5) o(1) by auto
  from idle_drains [OF this] show ?case using o(2) by simp
next
  case (Cons i "is")
  let ?st = "st\<lparr>ps_jobs := map ((!) ps) is @ rest\<rparr>"
  have i: "i < length vs" "i \<notin> D" using Cons.prems(4) by auto
  have "all_state outer ps q vs {..<length vs} D ?st" by (rule all_state_cong [OF Cons.prems(1)]) simp_all
  then obtain st' where st': "run_job user (ps ! i) ?st = Some st'" "all_state outer ps q vs {..<length vs} (insert i D) st'"
    "ps_jobs st' = map ((!) ps) is @ rest @ (if {..<length vs} \<subseteq> insert i D then [outer] else []) @ [q i]"
    using tracked_job [OF f _ i n] by fastforce
  have iff: "{..<length vs} \<subseteq> insert i D \<longleftrightarrow> is = []" using Cons.prems(3,4) by (cases "is") auto
  have "run_jobs user st = run_jobs user st'" using Cons.prems(2) st'(1) by (subst run_jobs.simps) (simp add: next_job_def)
  moreover have "\<exists>st2. run_jobs user st' = Some (Some st2) \<and> ps_jobs st2 = [] \<and> resolution_of st2 outer = Some (Inr (PArray vs))"
    by (rule Cons.IH [OF st'(2,3)]) (use Cons.prems(3-5) i iff in auto)
  ultimately show ?case by simp
qed

text \<open>Settling the promises of the input, one after the other.\<close>

fun resolve_each :: "(nat \<times> pvalue) list \<Rightarrow> pstate \<Rightarrow> pstate panics" where
  "resolve_each [] st = Some st"
| "resolve_each ((p, v) # pvs) st = do { (_, st1) \<leftarrow> promise_resolve p v st; resolve_each pvs st1 }"

lemma all_settles:
  assumes f: "all_fresh outer ps q" and n: "length ps = length vs" "\<forall>v \<in> set vs. plain v" "vs \<noteq> []"
    and "all_state outer ps q vs S {} st" "distinct is" "set is \<subseteq> {..<length vs} - S"
  shows "\<exists>st'. resolve_each (map (\<lambda>i. (ps ! i, vs ! i)) is) st = Some st' \<and> all_state outer ps q vs (S \<union> set is) {} st' \<and>
    ps_jobs st' = ps_jobs st @ map ((!) ps) is"
  using assms(5-)
proof (induction "is" arbitrary: st S)
  case (Cons i "is")
  have i: "i < length vs" "i \<notin> S" using Cons.prems(3) by auto
  obtain x where x: "ps_promises st (ps ! i) = Some x" "pr_subs x = [(None, None, Some (FinallyTrack outer i (ps ! i)), q i)]" "pr_resolution x = None"
    using Cons.prems(1) i n by (auto simp: all_state_def)
  have sch: "ps_scheduler st" using Cons.prems(1) by (simp add: all_state_def)
  let ?st = "st\<lparr>ps_promises := (ps_promises st)(ps ! i \<mapsto> x\<lparr>pr_resolution := Some (Inr (vs ! i))\<rparr>), ps_jobs := ps_jobs st @ [ps ! i]\<rparr>"
  have r: "promise_resolve (ps ! i) (vs ! i) st = Some (Inr (), ?st)"
    unfolding promise_resolve_def by (rule settle_plain [OF x(1,3) _ sch]) (use n(2) i in simp)
  have po: "outer \<noteq> ps ! i" using f i n(1) by (auto simp: all_fresh_def)
  have ne: "\<not> {..<length vs} \<subseteq> {}" using n(3) by auto
  have "all_state outer ps q vs (insert i S) {} ?st"
    unfolding all_state_def
  proof (intro conjI allI impI)
    show "map_option pr_subs (ps_promises ?st outer) = Some []" using Cons.prems(1) po by (simp add: all_state_def)
    show "if {..<length vs} \<subseteq> {} then resolution_of ?st outer = Some (Inr (PArray vs)) else tracking outer vs {} ?st"
      using Cons.prems(1) ne po by (simp add: all_state_def tracking_def)
  next
    fix k assume k: "k < length ps"
    have ne: "ps ! k = ps ! i \<longleftrightarrow> k = i" "q k \<noteq> ps ! i"
      using f k i n(1) by (auto simp: all_fresh_def nth_eq_iff_index_eq)
    show "\<exists>x. ps_promises ?st (ps ! k) = Some x \<and> pr_subs x = [(None, None, Some (FinallyTrack outer k (ps ! k)), q k)] \<and>
        pr_resolution x = (if k \<in> insert i S then Some (Inr (vs ! k)) else None)"
      using Cons.prems(1) k ne(1) x(2) by (cases "k = i") (simp_all add: all_state_def)
    show "\<exists>y. ps_promises ?st (q k) = Some y \<and> pr_subs y = [] \<and> pr_resolution y = (if k \<in> {} then Some (Inr PNull) else None)"
      using Cons.prems(1) k ne(2) by (simp add: all_state_def)
  qed (use sch in simp)
  from Cons.IH [OF this] Cons.prems(2,3) obtain st' where st': "resolve_each (map (\<lambda>i. (ps ! i, vs ! i)) is) ?st = Some st'"
    "all_state outer ps q vs (insert i S \<union> set is) {} st'" "ps_jobs st' = ps_jobs ?st @ map ((!) ps) is"
    by auto
  then show ?case using r by simp
qed simp

text \<open>What \<open>track_all\<close> makes of the promises of the input.\<close>

lemma track_all_spec:
  assumes "wf_promises st" "ps_proto st = Inr ()" "distinct ps" "\<forall>p \<in> set ps. \<exists>x. ps_promises st p = Some x"
  shows "\<exists>st'. track_all outer i (map PPromise ps) st = Some (Inr (), st') \<and> ps_scheduler st' = ps_scheduler st \<and> ps_jobs st' = ps_jobs st \<and>
    (\<forall>p. p < ps_next st \<longrightarrow> p \<notin> set ps \<longrightarrow> ps_promises st' p = ps_promises st p) \<and>
    (\<forall>k < length ps. ps_promises st' (ps ! k) =
        map_option (push_sub (None, None, Some (FinallyTrack outer (i + k) (ps ! k)), ps_next st + k)) (ps_promises st (ps ! k)) \<and>
      ps_promises st' (ps_next st + k) = Some \<lparr>pr_subs = [], pr_mode = None, pr_results = None, pr_resolution = None\<rparr>)"
  using assms
proof (induction ps arbitrary: i st)
  case (Cons p ps)
  let ?n = "ps_next st" and ?blank = "\<lparr>pr_subs = [], pr_mode = None, pr_results = None, pr_resolution = None\<rparr>"
  let ?s = "(None, None, Some (FinallyTrack outer i p), ?n)"
  obtain x where x: "ps_promises st p = Some x" using Cons.prems(4) by auto
  have old: "a < ?n" if "ps_promises st a = Some y" for a y using Cons.prems(1) that by (auto simp: wf_promises_def not_le [symmetric])
  have pn: "p < ?n" using old [OF x] .
  let ?st = "st\<lparr>ps_promises := (ps_promises st)(?n \<mapsto> ?blank, p \<mapsto> push_sub ?s x), ps_next := ?n + 1\<rparr>"
  have t: "promise_then p None None (Some (FinallyTrack outer i p)) st = Some (Inr ?n, ?st)"
    using x pn Cons.prems(2) by (simp add: promise_then_def new_unresolving_def new_promise_def put_promise_def)
  have w: "wf_promises ?st" "ps_proto ?st = Inr ()" "distinct ps" "\<forall>a \<in> set ps. \<exists>x. ps_promises ?st a = Some x"
    using Cons.prems pn by (auto simp: wf_promises_def)
  from Cons.IH [OF w, of "i + 1"] obtain st' where st': "track_all outer (i + 1) (map PPromise ps) ?st = Some (Inr (), st')"
    "ps_scheduler st' = ps_scheduler st" "ps_jobs st' = ps_jobs st"
    "\<forall>a. a < ?n + 1 \<longrightarrow> a \<notin> set ps \<longrightarrow> ps_promises st' a = ps_promises ?st a"
    "\<forall>k < length ps. ps_promises st' (ps ! k) =
        map_option (push_sub (None, None, Some (FinallyTrack outer (i + 1 + k) (ps ! k)), ?n + 1 + k)) (ps_promises ?st (ps ! k)) \<and>
      ps_promises st' (?n + 1 + k) = Some ?blank"
    by auto
  have new: "?n \<notin> set ps" "p \<notin> set ps" using Cons.prems(3,4) old [of ?n] by auto
  have "ps_promises st' a = ps_promises st a" if "a < ?n" "a \<notin> set (p # ps)" for a using st'(4) that by simp
  moreover have "ps_promises st' ((p # ps) ! k) =
        map_option (push_sub (None, None, Some (FinallyTrack outer (i + k) ((p # ps) ! k)), ?n + k)) (ps_promises st ((p # ps) ! k)) \<and>
      ps_promises st' (?n + k) = Some ?blank" if k: "k < length (p # ps)" for k
  proof (cases k)
    case 0
    then show ?thesis using st'(4) new pn x by simp
  next
    case (Suc j)
    have j: "j < length ps" using Suc k by simp
    then have m: "ps ! j \<in> set ps" by simp
    then have "ps ! j \<noteq> p" "ps ! j \<noteq> ?n" using new by fastforce+
    then show ?thesis using st'(5) j Suc by simp
  qed
  ultimately show ?case using t st'(1-3) by (intro exI [of _ st']) simp
qed simp

lemma all_starts:
  assumes "wf_promises st" "ps_scheduler st" "ps_proto st = Inr ()" "distinct ps" "ps \<noteq> []" "length vs = length ps"
    "\<forall>p \<in> set ps. \<exists>x. ps_promises st p = Some x \<and> pr_subs x = [] \<and> pr_resolution x = None"
  shows "\<exists>outer q st1. jsrt_all [PArray (map PPromise ps)] st = Some (Inr (PPromise outer), st1) \<and> all_fresh outer ps q \<and>
    all_state outer ps q vs {} {} st1 \<and> ps_jobs st1 = ps_jobs st"
proof -
  let ?o = "ps_next st" and ?x = "\<lparr>pr_subs = [], pr_mode = Some All, pr_results = Some (replicate (length ps) None), pr_resolution = None\<rparr>"
  let ?st = "st\<lparr>ps_promises := (ps_promises st)(?o \<mapsto> ?x), ps_next := ?o + 1\<rparr>"
  have old: "p < ?o" if "p \<in> set ps" for p using assms(1,7) that by (metis wf_promises_def not_le option.distinct(1))
  have w: "wf_promises ?st" "ps_proto ?st = Inr ()" "\<forall>p \<in> set ps. \<exists>x. ps_promises ?st p = Some x"
    using assms(1,3,7) by (auto simp: wf_promises_def)
  obtain st1 where st1: "track_all ?o 0 (map PPromise ps) ?st = Some (Inr (), st1)" "ps_scheduler st1" "ps_jobs st1 = ps_jobs st"
    "ps_promises st1 ?o = Some ?x"
    "\<forall>k < length ps. ps_promises st1 (ps ! k) =
        map_option (push_sub (None, None, Some (FinallyTrack ?o k (ps ! k)), ?o + 1 + k)) (ps_promises ?st (ps ! k)) \<and>
      ps_promises st1 (?o + 1 + k) = Some \<lparr>pr_subs = [], pr_mode = None, pr_results = None, pr_resolution = None\<rparr>"
    using track_all_spec [OF w(1,2) assms(4) w(3), of ?o 0] assms(2) old by fastforce
  have run: "jsrt_all [PArray (map PPromise ps)] st = Some (Inr (PPromise ?o), st1)"
    using st1(1) assms(3) by (simp add: jsrt_all_def static_tracking_def new_tracking_def new_promise_def put_promise_def)
  let ?q = "\<lambda>i. ?o + 1 + i"
  have fresh: "all_fresh ?o ps ?q" using old assms(4) by (fastforce simp: all_fresh_def inj_on_def)
  have "tracking ?o vs {} st1" using st1(4) assms(6) by (simp add: tracking_def map_replicate_const)
  moreover have "\<not> {..<length vs} \<subseteq> {}" using assms(5,6) by auto
  moreover have "\<exists>x. ps_promises st1 (ps ! k) = Some x \<and> pr_subs x = [(None, None, Some (FinallyTrack ?o k (ps ! k)), ?q k)] \<and> pr_resolution x = None"
    if k: "k < length ps" for k
  proof -
    obtain x where "ps_promises st (ps ! k) = Some x" "pr_subs x = []" "pr_resolution x = None" using assms(7) nth_mem [OF k] by blast
    then show ?thesis using st1(5) k old [OF nth_mem [OF k]] by (simp add: push_sub_def)
  qed
  ultimately have "all_state ?o ps ?q vs {} {} st1" using st1(2,4,5) by (simp add: all_state_def)
  then show ?thesis using run fresh st1(3) by blast
qed

text \<open>
  C10. \<open>Promise.all\<close> collects the values in order: called on a non-empty array of distinct pending promises without
  handlers, it returns a promise; when the promises of the array are then resolved with
  values that are no promises, in any order, and the event loop runs, the loop ends, and the
  promise is fulfilled with the array of the values in the order of the input. (For an empty array the promise
  that is returned is never settled.)
\<close>

theorem all_collects_in_order:
  assumes "wf_promises st" "ps_scheduler st" "ps_proto st = Inr ()" "ps_jobs st = []"
    "ps \<noteq> []" "distinct ps" "\<forall>p \<in> set ps. \<exists>x. ps_promises st p = Some x \<and> pr_subs x = [] \<and> pr_resolution x = None"
    "length vs = length ps" "\<forall>v \<in> set vs. plain v" "distinct is" "set is = {..<length ps}"
  shows "\<exists>outer st1 st2 st3. jsrt_all [PArray (map PPromise ps)] st = Some (Inr (PPromise outer), st1) \<and>
    resolution_of st1 outer = None \<and> resolve_each (map (\<lambda>i. (ps ! i, vs ! i)) is) st1 = Some st2 \<and>
    run_jobs user st2 = Some (Some st3) \<and> ps_jobs st3 = [] \<and> resolution_of st3 outer = Some (Inr (PArray vs))"
proof -
  obtain outer q st1 where 1: "jsrt_all [PArray (map PPromise ps)] st = Some (Inr (PPromise outer), st1)" "all_fresh outer ps q"
    "all_state outer ps q vs {} {} st1" "ps_jobs st1 = []"
    using all_starts [OF assms(1-3,6,5,8,7)] assms(4) by auto
  have v: "vs \<noteq> []" "length ps = length vs" using assms(5,8) by auto
  obtain st2 where 2: "resolve_each (map (\<lambda>i. (ps ! i, vs ! i)) is) st1 = Some st2" "all_state outer ps q vs {..<length vs} {} st2"
    "ps_jobs st2 = map ((!) ps) is @ []"
    using all_settles [OF 1(2) v(2) assms(9) v(1) 1(3) assms(10)] assms(11) 1(4) v(2) by auto
  have "\<exists>st3. run_jobs user st2 = Some (Some st3) \<and> ps_jobs st3 = [] \<and> resolution_of st3 outer = Some (Inr (PArray vs))"
    by (rule all_loop [OF 1(2) v(2) 2(2,3) assms(10)]) (use assms(11) v(2) in auto)
  moreover have "\<not> {..<length vs} \<subseteq> {}" using v(1) by auto
  then have "tracking outer vs {} st1" using 1(3) by (simp only: all_state_def if_False)
  then have "resolution_of st1 outer = None" by (auto simp: tracking_def resolution_of_def)
  ultimately show ?thesis using 1(1) 2(1) by blast
qed

theorem all_collects_in_order_witness:
  "\<exists>outer st1 st2 st3. jsrt_all [PArray [PPromise 4, PPromise 5]] (example_of [4 \<mapsto> pending [], 5 \<mapsto> pending []]) =
      Some (Inr (PPromise outer), st1) \<and>
    resolve_each [(5, PPlain 1), (4, PNull)] st1 = Some st2 \<and> run_jobs wrap_user st2 = Some (Some st3) \<and>
    resolution_of st3 outer = Some (Inr (PArray [PNull, PPlain 1]))"
proof -
  let ?st = "example_of [4 \<mapsto> pending [], 5 \<mapsto> pending []]"
  have "wf_promises ?st" "ps_scheduler ?st" "ps_proto ?st = Inr ()" "ps_jobs ?st = []"
    by (simp_all add: example_of_def initial_state_def wf_promises_def)
  moreover have "\<forall>p \<in> set [4, 5]. \<exists>x. ps_promises ?st p = Some x \<and> pr_subs x = [] \<and> pr_resolution x = None"
    by (simp add: example_of_def initial_state_def pending_def)
  moreover have "set [1, 0] = {..<length [4, 5 :: nat]}" by (auto simp: lessThan_Suc)
  ultimately show ?thesis
    using all_collects_in_order [of ?st "[4, 5]" "[PNull, PPlain 1]" "[1, 0]" wrap_user] by (auto simp: plain_def)
qed

section \<open>What the code gets wrong\<close>

text \<open>
  A promise that is resolved with another promise is fulfilled when that one is rejected: the
  closure \<open>pass_val\<close> stands for both handlers and returns the reason as a value, so the reason of the
  rejection becomes the value of a fulfilled promise.
\<close>

theorem adopted_rejection_fulfils:
  assumes "ps_promises st p = Some x" "pr_resolution x = None" "ps_promises st q = Some y" "pr_resolution y = None" "pr_subs y = []"
    "p \<noteq> q" "plain e" "ps_scheduler st" "ps_jobs st = []"
  shows "\<exists>st1 st2 st3. promise_resolve p (PPromise q) st = Some (Inr (), st1) \<and> promise_reject q e st1 = Some (Inr (), st2) \<and>
    next_job user st2 = Some st3 \<and> resolution_of st3 q = Some (Inl e) \<and> resolution_of st3 p = Some (Inr e)"
proof -
  let ?s = "(Some PassVal, Some PassVal, None, p)"
  let ?y1 = "push_sub ?s y"
  let ?y2 = "?y1\<lparr>pr_resolution := Some (Inl e)\<rparr>"
  let ?st1 = "put_promise q ?y1 st"
  let ?st2 = "(put_promise q ?y2 ?st1)\<lparr>ps_jobs := [q]\<rparr>"
  have 1: "promise_resolve p (PPromise q) st = Some (Inr (), ?st1)"
    using assms by (simp add: promise_resolve_def do_resolve_def)
  have 2: "promise_reject q e ?st1 = Some (Inr (), ?st2)"
    using assms by (simp add: promise_reject_def do_resolve_def schedule_async_def put_promise_def push_sub_def)
  have x: "ps_promises (?st2\<lparr>ps_jobs := []\<rparr>) p = Some x" "ps_scheduler (?st2\<lparr>ps_jobs := []\<rparr>)"
    using assms by (simp_all add: put_promise_def)
  note 3 = settle_plain [OF x(1) assms(2,7) x(2)]
  let ?st3 = "?st2\<lparr>ps_promises := (ps_promises ?st2)(p \<mapsto> x\<lparr>pr_resolution := Some (Inr e)\<rparr>), ps_jobs := [p]\<rparr>"
  have run: "next_job user ?st2 = Some ?st3"
    using 3 assms(5,6)
    by (simp add: next_job_def run_job_def put_promise_def push_sub_def on_rejected_def on_finally_def sub_promise_def
        call_fn_def call_builtin_def arg_at_def)
  have "resolution_of ?st3 q = Some (Inl e)" "resolution_of ?st3 p = Some (Inr e)"
    using assms(6) by (simp_all add: resolution_of_def put_promise_def)
  with 1 2 run show ?thesis by blast
qed

theorem adopted_rejection_fulfils_witness:
  "\<exists>st1 st2 st3. promise_resolve 0 (PPromise 1) (example_of [0 \<mapsto> pending [], 1 \<mapsto> pending []]) = Some (Inr (), st1) \<and>
    promise_reject 1 (PPlain 5) st1 = Some (Inr (), st2) \<and> next_job wrap_user st2 = Some st3 \<and>
    resolution_of st3 0 = Some (Inr (PPlain 5))"
  using adopted_rejection_fulfils [of "example_of [0 \<mapsto> pending [], 1 \<mapsto> pending []]" 0 "pending []" 1 "pending []" "PPlain 5" wrap_user]
  by (auto simp: example_of_def initial_state_def pending_def plain_def)


lemma deliver_none: "\<forall>s \<in> set ss. sel s = None \<Longrightarrow> deliver user sel args ss st = Some st"
  by (induction ss) simp_all

text \<open>
  A rejection is not passed on: the job of a rejected promise whose subscribers have no handler
  for it changes nothing, so the promises that \<open>then\<close> returned stay pending.
\<close>

theorem rejection_not_propagated:
  assumes "ps_promises st p = Some x" "pr_resolution x = Some (Inl e)"
    "\<forall>s \<in> set (pr_subs x). on_rejected s = None \<and> on_finally s = None"
  shows "run_job user p st = Some st"
  using assms deliver_none by (simp add: run_job_def)

theorem rejection_not_propagated_witness:
  "\<exists>st. run_job wrap_user 0 st = Some st \<and> resolution_of st 0 = Some (Inl PNull) \<and> ps_promises st 1 = Some (pending []) \<and>
    map sub_promise (pr_subs (the (ps_promises st 0))) = [1]"
proof -
  let ?x = "(pending [(Some (UserFun 3), None, None, 1)])\<lparr>pr_resolution := Some (Inl PNull)\<rparr>"
  let ?st = "example_of [0 \<mapsto> ?x, 1 \<mapsto> pending []]"
  have "run_job wrap_user 0 ?st = Some ?st"
    by (rule rejection_not_propagated [of _ _ ?x PNull]) (simp_all add: example_of_def pending_def on_rejected_def on_finally_def)
  then show ?thesis
    by (intro exI [of _ ?st]) (simp add: example_of_def pending_def resolution_of_def sub_promise_def)
qed

text \<open>
  \<open>Promise.allSettled\<close> and \<open>Promise.any\<close> store the results and never settle the promise they return.
\<close>

lemma all_settled_never_settles:
  assumes "ps_promises st outer = Some x" "pr_mode x = Some AllSettled \<or> pr_mode x = Some Any"
    "resolve_single_tracked outer i res st = Some (r, st')"
  shows "resolution_of st' = resolution_of st"
  using assms
  by (intro ext) (auto simp: resolve_single_tracked_def put_promise_def resolution_of_def bind_eq_Some_conv Let_def split: if_splits)

end
