(* ===== verification/Date_Model.thy ===== *)
theory Date_Model
  imports F64 "HOL-Library.Signed_Division"
begin

text \<open>
  Dates (jsrt/date.rs). A \<open>NaiveDateTime\<close> is the number of nanoseconds since the epoch, without leap
  seconds; an invalid date is \<^term>\<open>None\<close>. The calendar and the time zone belong to the crate
  \<open>chrono\<close> and are the parameter \<open>chrono\<close>: \<open>ch_ymd\<close> is \<open>NaiveDate::from_ymd_opt\<close> as the day since the
  epoch, \<open>ch_date\<close> the year, month and day of a day, \<open>ch_add\<close> is \<open>checked_add_signed\<close> of milliseconds,
  \<open>ch_local\<close> and \<open>ch_from_local\<close> are the conversions of the local time zone.
\<close>

datatype local_result = LNone | LSingle int | LAmbiguous int int

record chrono =
  ch_ymd :: "int \<Rightarrow> int \<Rightarrow> int \<Rightarrow> int option"
  ch_date :: "int \<Rightarrow> int \<times> int \<times> int"
  ch_add :: "int \<Rightarrow> int \<Rightarrow> int option"
  ch_local :: "int \<Rightarrow> int"
  ch_from_local :: "int \<Rightarrow> local_result"

type_synonym date = "int option"

definition NANOS_PER_MS :: int where "NANOS_PER_MS = 1000000"
definition MILLIS_PER_HOUR :: int where "MILLIS_PER_HOUR = 3600000"
definition MILLIS_PER_MINUTE :: int where "MILLIS_PER_MINUTE = 60000"
definition MILLIS_PER_SECOND :: int where "MILLIS_PER_SECOND = 1000"

section \<open>Integers\<close>

definition checked32 :: "int \<Rightarrow> int option" where
  "checked32 n = (if - (2 ^ 31) \<le> n \<and> n < 2 ^ 31 then Some n else None)"
definition checked64 :: "int \<Rightarrow> int option" where
  "checked64 n = (if - (2 ^ 63) \<le> n \<and> n < 2 ^ 63 then Some n else None)"

definition f64_is_normal :: "f64 \<Rightarrow> bool" where
  "f64_is_normal x = (f64_exponent x \<noteq> 0 \<and> f64_exponent x \<noteq> 2047)"
definition is_zero_or_normal_opt :: "f64 option \<Rightarrow> bool" where
  "is_zero_or_normal_opt v = (case v of None \<Rightarrow> True | Some x \<Rightarrow> f64_magnitude x = 0 \<or> f64_is_normal x)"
definition check_normal_opt :: "f64 option list \<Rightarrow> bool" where
  "check_normal_opt vs = list_all is_zero_or_normal_opt vs"

definition ignore_ambiguity :: "local_result \<Rightarrow> int option" where
  "ignore_ambiguity r = (case r of LAmbiguous v _ \<Rightarrow> Some v | LSingle v \<Rightarrow> Some v | LNone \<Rightarrow> None)"

section \<open>Normalising year, month and day\<close>

text \<open>Months count from zero; \<open>/\<close> and \<open>%\<close> of Rust round towards zero.\<close>

definition num_days_in :: "chrono \<Rightarrow> int \<Rightarrow> int \<Rightarrow> int option" where
  "num_days_in ch year month0 =
     (let month = month0 + 1 in
      do {
        next_year \<leftarrow> (if month = 12 then checked32 (year + 1) else Some year);
        b \<leftarrow> ch_ymd ch next_year (if month = 12 then 1 else month + 1) 1;
        a \<leftarrow> ch_ymd ch year month 1;
        Some ((b - a) mod 2 ^ 32) })"

definition fix_month :: "int \<Rightarrow> int \<Rightarrow> (int \<times> int) option" where
  "fix_month year0 month = do {
     year \<leftarrow> checked32 (year0 + month sdiv 12);
     if month < 0 then do {
       year' \<leftarrow> checked32 (year - 1);
       Some (year', 11 + (month + 1) smod 12) }
     else Some (year, month smod 12) }"

text \<open>The outer \<^term>\<open>None\<close> is a loop that does not end, the inner one an early return of \<open>None\<close>.\<close>

partial_function (option) fix_day :: "chrono \<Rightarrow> int \<Rightarrow> int \<Rightarrow> int \<Rightarrow> (int \<times> int \<times> int) option option" where
  "fix_day ch year month day =
     (if day < 0 then
        (case do {
            month1 \<leftarrow> checked32 (month - 1);
            (fixed_year, fixed_month) \<leftarrow> fix_month year month1;
            n \<leftarrow> num_days_in ch fixed_year fixed_month;
            Some (fixed_year, fixed_month, n) } of
           None \<Rightarrow> Some None
         | Some (fixed_year, fixed_month, n) \<Rightarrow> fix_day ch fixed_year fixed_month (day + n))
      else
        (case do {
            (fixed_year, fixed_month) \<leftarrow> fix_month year month;
            n \<leftarrow> num_days_in ch fixed_year fixed_month;
            Some (fixed_year, fixed_month, n) } of
           None \<Rightarrow> Some None
         | Some (fixed_year, fixed_month, n) \<Rightarrow>
             if day \<ge> n then
               (case checked32 (month + 1) of
                  None \<Rightarrow> Some None
                | Some month1 \<Rightarrow> fix_day ch year month1 (day - n))
             else Some (Some (fixed_year, fixed_month, day))))"

section \<open>The components of a date\<close>

definition timestamp_millis :: "int \<Rightarrow> int" where
  "timestamp_millis t = t div NANOS_PER_MS"
definition time_clip :: "int \<Rightarrow> int option" where
  "time_clip time = (if \<bar>time\<bar> > 8640000000000000 then None else Some time)"
definition to_utc :: "date \<Rightarrow> int option" where "to_utc d = d"
definition to_local :: "chrono \<Rightarrow> date \<Rightarrow> int option" where "to_local ch d = map_option (ch_local ch) d"

definition DAY_NANOS :: int where "DAY_NANOS = 86400 * 1000 * NANOS_PER_MS"
definition nv_date :: "chrono \<Rightarrow> int \<Rightarrow> int \<times> int \<times> int" where "nv_date ch t = ch_date ch (t div DAY_NANOS)"
definition nv_year :: "chrono \<Rightarrow> int \<Rightarrow> int" where "nv_year ch t = fst (nv_date ch t)"
definition nv_month0 :: "chrono \<Rightarrow> int \<Rightarrow> int" where "nv_month0 ch t = fst (snd (nv_date ch t)) - 1"
definition nv_day :: "chrono \<Rightarrow> int \<Rightarrow> int" where "nv_day ch t = snd (snd (nv_date ch t))"
definition nv_hour :: "int \<Rightarrow> int" where "nv_hour t = t mod DAY_NANOS div (MILLIS_PER_HOUR * NANOS_PER_MS)"
definition nv_minute :: "int \<Rightarrow> int" where "nv_minute t = t div (MILLIS_PER_MINUTE * NANOS_PER_MS) mod 60"
definition nv_second :: "int \<Rightarrow> int" where "nv_second t = t div (MILLIS_PER_SECOND * NANOS_PER_MS) mod 60"
definition nv_nanosecond :: "int \<Rightarrow> int" where "nv_nanosecond t = t mod (MILLIS_PER_SECOND * NANOS_PER_MS)"

text \<open>
  \<open>component.unwrap_or_else(|| naive.. as f64) as i32\<close>: the conversion of a component of the date to
  \<open>f64\<close> and back is exact.
\<close>

definition part32 :: "int \<Rightarrow> f64 option \<Rightarrow> int" where
  "part32 own v = (case v of None \<Rightarrow> own | Some x \<Rightarrow> f64_as_i32 x)"
definition part64 :: "int \<Rightarrow> f64 option \<Rightarrow> int" where
  "part64 own v = (case v of None \<Rightarrow> own | Some x \<Rightarrow> f64_as_i64 x)"

record date_parts =
  dp_year :: "f64 option"
  dp_month :: "f64 option"
  dp_day :: "f64 option"
  dp_hour :: "f64 option"
  dp_minute :: "f64 option"
  dp_second :: "f64 option"
  dp_millisecond :: "f64 option"

text \<open>What follows \<open>fix_day\<close> in \<open>set_components\<close>.\<close>

definition date_from_parts :: "chrono \<Rightarrow> bool \<Rightarrow> int \<times> int \<times> int \<Rightarrow> int \<Rightarrow> int \<Rightarrow> int \<Rightarrow> int \<Rightarrow> date" where
  "date_from_parts ch utc ymd hour minute second millisecond =
     (let (year, month, day) = ymd in
      do {
        h \<leftarrow> checked64 (hour * MILLIS_PER_HOUR);
        m \<leftarrow> checked64 (minute * MILLIS_PER_MINUTE);
        s \<leftarrow> checked64 (second * MILLIS_PER_SECOND);
        hm \<leftarrow> checked64 (h + m);
        hms \<leftarrow> checked64 (hm + s);
        duration \<leftarrow> checked64 (hms + millisecond);
        d \<leftarrow> ch_ymd ch year (month + 1) (day + 1);
        t \<leftarrow> ch_add ch (d * DAY_NANOS) duration;
        r \<leftarrow> (if utc then Some t else ignore_ambiguity (ch_from_local ch t));
        _ \<leftarrow> time_clip (timestamp_millis r);
        Some r })"

definition set_components :: "chrono \<Rightarrow> bool \<Rightarrow> date_parts \<Rightarrow> date \<Rightarrow> date option" where
  "set_components ch utc parts self =
     (if \<not> check_normal_opt [dp_year parts, dp_month parts, dp_day parts, dp_hour parts, dp_minute parts, dp_second parts, dp_millisecond parts]
      then Some None
      else
        (case (if utc then to_utc self else to_local ch self) of
           None \<Rightarrow> Some None
         | Some naive \<Rightarrow>
             (let year = part32 (nv_year ch naive) (dp_year parts);
                  month = part32 (nv_month0 ch naive) (dp_month parts);
                  hour = part64 (nv_hour naive) (dp_hour parts);
                  minute = part64 (nv_minute naive) (dp_minute parts);
                  second = part64 (nv_second naive) (dp_second parts);
                  millisecond = part64 (nv_nanosecond naive div NANOS_PER_MS) (dp_millisecond parts)
              in
              (case checked32 (part32 (nv_day ch naive) (dp_day parts) - 1) of
                 None \<Rightarrow> Some None
               | Some day \<Rightarrow>
                   map_option (\<lambda>r. r \<bind> (\<lambda>ymd. date_from_parts ch utc ymd hour minute second millisecond))
                     (fix_day ch year month day)))))"

section \<open>The setters\<close>

definition no_parts :: date_parts where
  "no_parts = \<lparr>dp_year = None, dp_month = None, dp_day = None, dp_hour = None, dp_minute = None, dp_second = None, dp_millisecond = None\<rparr>"

text \<open>A setter whose first argument is missing makes the date invalid.\<close>

definition set_if :: "chrono \<Rightarrow> bool \<Rightarrow> f64 option \<Rightarrow> date_parts \<Rightarrow> date \<Rightarrow> date option" where
  "set_if ch utc required parts self = (if required = None then Some None else set_components ch utc parts self)"
definition set_date :: "chrono \<Rightarrow> f64 option \<Rightarrow> date \<Rightarrow> date option" where
  "set_date ch day = set_if ch False day (no_parts\<lparr>dp_day := day\<rparr>)"
definition set_full_year :: "chrono \<Rightarrow> f64 option \<Rightarrow> f64 option \<Rightarrow> f64 option \<Rightarrow> date \<Rightarrow> date option" where
  "set_full_year ch year month day = set_if ch False year (no_parts\<lparr>dp_year := year, dp_month := month, dp_day := day\<rparr>)"
definition set_hours :: "chrono \<Rightarrow> f64 option \<Rightarrow> f64 option \<Rightarrow> f64 option \<Rightarrow> f64 option \<Rightarrow> date \<Rightarrow> date option" where
  "set_hours ch hour minute second ms =
     set_if ch False hour (no_parts\<lparr>dp_hour := hour, dp_minute := minute, dp_second := second, dp_millisecond := ms\<rparr>)"
definition set_milliseconds :: "chrono \<Rightarrow> f64 option \<Rightarrow> date \<Rightarrow> date option" where
  "set_milliseconds ch ms = set_if ch False ms (no_parts\<lparr>dp_millisecond := ms\<rparr>)"
definition set_minutes :: "chrono \<Rightarrow> f64 option \<Rightarrow> f64 option \<Rightarrow> f64 option \<Rightarrow> date \<Rightarrow> date option" where
  "set_minutes ch minute second ms = set_if ch False minute (no_parts\<lparr>dp_minute := minute, dp_second := second, dp_millisecond := ms\<rparr>)"
definition set_month :: "chrono \<Rightarrow> f64 option \<Rightarrow> f64 option \<Rightarrow> date \<Rightarrow> date option" where
  "set_month ch month day = set_if ch False month (no_parts\<lparr>dp_month := month, dp_day := day\<rparr>)"
definition set_seconds :: "chrono \<Rightarrow> f64 option \<Rightarrow> f64 option \<Rightarrow> date \<Rightarrow> date option" where
  "set_seconds ch second ms = set_if ch False second (no_parts\<lparr>dp_second := second, dp_millisecond := ms\<rparr>)"
definition set_utc_date :: "chrono \<Rightarrow> f64 option \<Rightarrow> date \<Rightarrow> date option" where
  "set_utc_date ch day = set_if ch True day (no_parts\<lparr>dp_day := day\<rparr>)"
definition set_utc_full_year :: "chrono \<Rightarrow> f64 option \<Rightarrow> f64 option \<Rightarrow> f64 option \<Rightarrow> date \<Rightarrow> date option" where
  "set_utc_full_year ch year month day = set_if ch True year (no_parts\<lparr>dp_year := year, dp_month := month, dp_day := day\<rparr>)"
definition set_utc_hours :: "chrono \<Rightarrow> f64 option \<Rightarrow> f64 option \<Rightarrow> f64 option \<Rightarrow> f64 option \<Rightarrow> date \<Rightarrow> date option" where
  "set_utc_hours ch hour minute second ms =
     set_if ch True hour (no_parts\<lparr>dp_hour := hour, dp_minute := minute, dp_second := second, dp_millisecond := ms\<rparr>)"
definition set_utc_milliseconds :: "chrono \<Rightarrow> f64 option \<Rightarrow> date \<Rightarrow> date option" where
  "set_utc_milliseconds ch ms = set_if ch True ms (no_parts\<lparr>dp_millisecond := ms\<rparr>)"
definition set_utc_minutes :: "chrono \<Rightarrow> f64 option \<Rightarrow> f64 option \<Rightarrow> f64 option \<Rightarrow> date \<Rightarrow> date option" where
  "set_utc_minutes ch minute second ms = set_if ch True minute (no_parts\<lparr>dp_minute := minute, dp_second := second, dp_millisecond := ms\<rparr>)"
definition set_utc_month :: "chrono \<Rightarrow> f64 option \<Rightarrow> f64 option \<Rightarrow> date \<Rightarrow> date option" where
  "set_utc_month ch month day = set_if ch True month (no_parts\<lparr>dp_month := month, dp_day := day\<rparr>)"
definition set_utc_seconds :: "chrono \<Rightarrow> f64 option \<Rightarrow> f64 option \<Rightarrow> date \<Rightarrow> date option" where
  "set_utc_seconds ch second ms = set_if ch True second (no_parts\<lparr>dp_second := second, dp_millisecond := ms\<rparr>)"

section \<open>The getters\<close>

definition F64_NAN :: f64 where "F64_NAN = 0x7ff8000000000000"
definition date_number :: "int option \<Rightarrow> f64" where
  "date_number n = (case n of None \<Rightarrow> F64_NAN | Some k \<Rightarrow> f64_of_int k)"
definition get_date :: "chrono \<Rightarrow> date \<Rightarrow> f64" where "get_date ch d = date_number (map_option (nv_day ch) (to_local ch d))"
definition get_full_year :: "chrono \<Rightarrow> date \<Rightarrow> f64" where "get_full_year ch d = date_number (map_option (nv_year ch) (to_local ch d))"
definition get_hours :: "chrono \<Rightarrow> date \<Rightarrow> f64" where "get_hours ch d = date_number (map_option nv_hour (to_local ch d))"
definition get_minutes :: "chrono \<Rightarrow> date \<Rightarrow> f64" where "get_minutes ch d = date_number (map_option nv_minute (to_local ch d))"
definition get_month :: "chrono \<Rightarrow> date \<Rightarrow> f64" where "get_month ch d = date_number (map_option (nv_month0 ch) (to_local ch d))"
definition get_seconds :: "chrono \<Rightarrow> date \<Rightarrow> f64" where "get_seconds ch d = date_number (map_option nv_second (to_local ch d))"
definition get_time :: "date \<Rightarrow> f64" where "get_time d = date_number (map_option timestamp_millis d)"
definition date_value_of :: "date \<Rightarrow> f64" where "date_value_of d = get_time d"
definition get_utc_date :: "chrono \<Rightarrow> date \<Rightarrow> f64" where "get_utc_date ch d = date_number (map_option (nv_day ch) (to_utc d))"
definition get_utc_full_year :: "chrono \<Rightarrow> date \<Rightarrow> f64" where "get_utc_full_year ch d = date_number (map_option (nv_year ch) (to_utc d))"
definition get_utc_hours :: "chrono \<Rightarrow> date \<Rightarrow> f64" where "get_utc_hours ch d = date_number (map_option nv_hour (to_utc d))"
definition get_utc_minutes :: "chrono \<Rightarrow> date \<Rightarrow> f64" where "get_utc_minutes ch d = date_number (map_option nv_minute (to_utc d))"
definition get_utc_month :: "chrono \<Rightarrow> date \<Rightarrow> f64" where "get_utc_month ch d = date_number (map_option (nv_month0 ch) (to_utc d))"
definition get_utc_seconds :: "chrono \<Rightarrow> date \<Rightarrow> f64" where "get_utc_seconds ch d = date_number (map_option nv_second (to_utc d))"

definition get_year :: "chrono \<Rightarrow> date \<Rightarrow> f64" where
  "get_year ch d = date_number (map_option (\<lambda>t. nv_year ch t - 1900) (to_local ch d))"

text \<open>The weekday of \<open>chrono\<close> counts from Monday; the epoch was a Thursday.\<close>

definition nv_weekday :: "int \<Rightarrow> int" where "nv_weekday t = (t div DAY_NANOS + 3) mod 7"
definition get_day :: "chrono \<Rightarrow> date \<Rightarrow> f64" where
  "get_day ch d = date_number (map_option (\<lambda>t. (nv_weekday t + 1) mod 7) (to_local ch d))"
definition get_utc_day :: "chrono \<Rightarrow> date \<Rightarrow> f64" where
  "get_utc_day ch d = date_number (map_option (\<lambda>t. (nv_weekday t + 1) mod 7) (to_utc d))"

section \<open>The functions of the program\<close>

text \<open>
  The arguments of a call are what \<open>to_number\<close> (or \<open>to_numeric_number\<close>) gives for each of them: an
  exception of type \<open>'e\<close> or a number. \<open>and_hms\<close> is \<open>NaiveDate::and_hms_milli_opt\<close> of \<open>chrono\<close>.
\<close>

type_synonym 'e number_args = "('e + f64) list"
type_synonym and_hms_milli = "int \<Rightarrow> int \<Rightarrow> int \<Rightarrow> int \<Rightarrow> int \<Rightarrow> int option"

definition F64_ZERO :: f64 where "F64_ZERO = 0"
definition F64_ONE :: f64 where "F64_ONE = 0x3ff0000000000000"

definition number_arg :: "'e number_args \<Rightarrow> nat \<Rightarrow> f64 \<Rightarrow> 'e + f64" where
  "number_arg args i d = (if i < length args then args ! i else Inr d)"

fun number_args :: "'e number_args \<Rightarrow> nat \<Rightarrow> f64 list \<Rightarrow> 'e + f64 list" where
  "number_args args i [] = Inr []"
| "number_args args i (d # ds) =
     (case number_arg args i d of
        Inl e \<Rightarrow> Inl e
      | Inr x \<Rightarrow> (case number_args args (Suc i) ds of Inl e \<Rightarrow> Inl e | Inr xs \<Rightarrow> Inr (x # xs)))"

text \<open>The date of numbers in the order year, month, day, hour, minute, second, millisecond; \<open>month + 1\<close> wraps at 32 bits.\<close>

definition civil_millis :: "chrono \<Rightarrow> and_hms_milli \<Rightarrow> f64 list \<Rightarrow> int option" where
  "civil_millis ch and_hms xs =
     (let year0 = f64_as_i32 (xs ! 0);
          year = (if 0 \<le> year0 \<and> year0 \<le> 99 then 1900 + year0 else year0)
      in do {
        day \<leftarrow> ch_ymd ch year ((uint (f64_as_u32 (xs ! 1)) + 1) mod 2 ^ 32) (uint (f64_as_u32 (xs ! 2)));
        and_hms day (uint (f64_as_u32 (xs ! 3))) (uint (f64_as_u32 (xs ! 4))) (uint (f64_as_u32 (xs ! 5))) (uint (f64_as_u32 (xs ! 6))) })"

definition date_utc :: "chrono \<Rightarrow> and_hms_milli \<Rightarrow> 'e number_args \<Rightarrow> 'e + f64" where
  "date_utc ch and_hms args =
     (case number_args args 0 [F64_NAN, F64_ONE, F64_ONE, F64_ZERO, F64_ZERO, F64_ZERO, F64_ZERO] of
        Inl e \<Rightarrow> Inl e
      | Inr xs \<Rightarrow>
          if \<not> check_normal_opt (map Some xs) then Inr F64_NAN
          else Inr (date_number (do {
            t \<leftarrow> civil_millis ch and_hms xs;
            time_clip (timestamp_millis t) })))"

text \<open>
  \<open>make_date_multiple\<close> is called with at least two arguments, so that the numbers of a missing year and
  month, which \<open>args.at\<close> would read as undefined, do not matter.
\<close>

definition make_date_multiple :: "chrono \<Rightarrow> and_hms_milli \<Rightarrow> 'e number_args \<Rightarrow> 'e + date" where
  "make_date_multiple ch and_hms args =
     (case number_args args 0 [F64_NAN, F64_NAN, F64_ONE, F64_ZERO, F64_ZERO, F64_ZERO, F64_ZERO] of
        Inl e \<Rightarrow> Inl e
      | Inr xs \<Rightarrow>
          if \<not> check_normal_opt (map Some xs) then Inr None
          else Inr (do {
            t \<leftarrow> civil_millis ch and_hms xs;
            r \<leftarrow> ignore_ambiguity (ch_from_local ch t);
            _ \<leftarrow> time_clip (timestamp_millis r);
            Some r }))"

text \<open>
  What a setter method makes of its argument number \<open>i\<close>: an exception and a number that is neither zero
  nor normal count as a missing argument.
\<close>

definition setter_arg :: "'e number_args \<Rightarrow> nat \<Rightarrow> f64 option" where
  "setter_arg args i =
     (if i < length args
      then (case args ! i of
              Inl _ \<Rightarrow> None
            | Inr x \<Rightarrow> if f64_magnitude x = 0 \<or> f64_is_normal x then Some x else None)
      else None)"

text \<open>A method: the new date and the time it returns.\<close>

definition setter_method :: "(date \<Rightarrow> date option) \<Rightarrow> date \<Rightarrow> (date \<times> f64) option" where
  "setter_method f d = map_option (\<lambda>r. (r, get_time r)) (f d)"
definition date_set_date where "date_set_date ch args = setter_method (set_date ch (setter_arg args 0))"
definition date_set_full_year where
  "date_set_full_year ch args = setter_method (set_full_year ch (setter_arg args 0) (setter_arg args 1) (setter_arg args 2))"
definition date_set_hours where
  "date_set_hours ch args = setter_method (set_hours ch (setter_arg args 0) (setter_arg args 1) (setter_arg args 2) (setter_arg args 3))"
definition date_set_milliseconds where "date_set_milliseconds ch args = setter_method (set_milliseconds ch (setter_arg args 0))"
definition date_set_minutes where
  "date_set_minutes ch args = setter_method (set_minutes ch (setter_arg args 0) (setter_arg args 1) (setter_arg args 2))"
definition date_set_month where "date_set_month ch args = setter_method (set_month ch (setter_arg args 0) (setter_arg args 1))"
definition date_set_seconds where "date_set_seconds ch args = setter_method (set_seconds ch (setter_arg args 0) (setter_arg args 1))"
definition date_set_utc_date where "date_set_utc_date ch args = setter_method (set_utc_date ch (setter_arg args 0))"
definition date_set_utc_full_year where
  "date_set_utc_full_year ch args = setter_method (set_utc_full_year ch (setter_arg args 0) (setter_arg args 1) (setter_arg args 2))"
definition date_set_utc_hours where
  "date_set_utc_hours ch args = setter_method (set_utc_hours ch (setter_arg args 0) (setter_arg args 1) (setter_arg args 2) (setter_arg args 3))"
definition date_set_utc_minutes where
  "date_set_utc_minutes ch args = setter_method (set_utc_minutes ch (setter_arg args 0) (setter_arg args 1) (setter_arg args 2))"
definition date_set_utc_month where "date_set_utc_month ch args = setter_method (set_utc_month ch (setter_arg args 0) (setter_arg args 1))"
definition date_set_utc_seconds where "date_set_utc_seconds ch args = setter_method (set_utc_seconds ch (setter_arg args 0) (setter_arg args 1))"

end
