(* ===== verification/Date_Calendar.thy ===== *)
theory Date_Calendar
  imports Date_Model
begin

text \<open>
  The proleptic Gregorian calendar as the reference: the day since the epoch on which a month starts,
  with the months counted through all years. The contract of the calendar functions of \<open>chrono\<close> is
  stated over it, and \<open>fix_day\<close> is proved to normalise a year, a month and a day over it.
\<close>

definition leap :: "int \<Rightarrow> bool" where
  "leap y \<longleftrightarrow> 4 dvd y \<and> (\<not> 100 dvd y \<or> 400 dvd y)"
definition month_days :: "int \<Rightarrow> int \<Rightarrow> int" where
  "month_days y m = (if m = 1 then (if leap y then 29 else 28) else if m \<in> {3, 5, 8, 10} then 30 else 31)"
definition year_start :: "int \<Rightarrow> int" where
  "year_start y = 365 * (y - 1) + (y - 1) div 4 - (y - 1) div 100 + (y - 1) div 400 - 719162"
definition month_offset :: "int \<Rightarrow> int \<Rightarrow> int" where
  "month_offset y m = [0, 31, 59, 90, 120, 151, 181, 212, 243, 273, 304, 334] ! nat m + (if 2 \<le> m \<and> leap y then 1 else 0)"

text \<open>The month \<open>s\<close> is the month \<open>s mod 12\<close> of the year \<open>s div 12\<close>.\<close>

definition serial_days :: "int \<Rightarrow> int" where
  "serial_days s = month_days (s div 12) (s mod 12)"
definition month_start :: "int \<Rightarrow> int" where
  "month_start s = year_start (s div 12) + month_offset (s div 12) (s mod 12)"

lemma div_pred: "0 < (k::int) \<Longrightarrow> (y - 1) div k = (if k dvd y then y div k - 1 else y div k)"
proof -
  assume k: "0 < k"
  have y: "y = k * (y div k) + y mod k" by simp
  have r: "0 \<le> y mod k" "y mod k < k" using k by simp_all
  show ?thesis
  proof (cases "y mod k = 0")
    case True
    then have "y - 1 = k * (y div k - 1) + (k - 1)" using y by (simp add: algebra_simps)
    then have "(y - 1) div k = y div k - 1" using k by (intro int_div_pos_eq [of _ _ _ "k - 1"]) simp_all
    with True show ?thesis by (simp add: dvd_eq_mod_eq_0)
  next
    case False
    then have "0 \<le> y mod k - 1" "y mod k - 1 < k" using r by linarith+
    then have "(y - 1) div k = y div k" using y by (intro int_div_pos_eq [of _ _ _ "y mod k - 1"]) linarith+
    with False show ?thesis by (simp add: dvd_eq_mod_eq_0)
  qed
qed

lemma year_start_Suc: "year_start (y + 1) = year_start y + (if leap y then 366 else 365)"
proof -
  have d: "400 dvd y \<Longrightarrow> 100 dvd y" "100 dvd y \<Longrightarrow> 4 dvd y"
    using dvd_trans [of 100 400 y] dvd_trans [of 4 100 y] by simp_all
  have p: "(y - 1) div 4 = (if 4 dvd y then y div 4 - 1 else y div 4)" "(y - 1) div 100 = (if 100 dvd y then y div 100 - 1 else y div 100)"
    "(y - 1) div 400 = (if 400 dvd y then y div 400 - 1 else y div 400)"
    by (simp_all only: div_pred zero_less_numeral)
  have e: "year_start (y + 1) = 365 * y + y div 4 - y div 100 + y div 400 - 719162"
    unfolding year_start_def by simp
  show ?thesis unfolding e unfolding year_start_def p leap_def
    using d by (cases "4 dvd y"; cases "100 dvd y"; cases "400 dvd y") simp_all
qed

lemma month_offset_Suc: "0 \<le> m \<Longrightarrow> m < 11 \<Longrightarrow> month_offset y (m + 1) = month_offset y m + month_days y m"
proof -
  assume m: "0 \<le> m" "m < 11"
  obtain n where n: "m = int n" using m(1) nonneg_int_cases by blast
  then have "n \<in> {..<11}" using m(2) by simp
  then have "n \<in> {0, 1, 2, 3, 4, 5, 6, 7, 8, 9, 10}" by (auto simp: lessThan_nat_numeral lessThan_Suc)
  then show ?thesis unfolding n by (elim insertE; simp add: month_offset_def month_days_def nat_add_distrib)
qed

lemma month_offset_year: "month_offset y 11 + month_days y 11 = (if leap y then 366 else 365)" "month_offset y 0 = 0"
  by (simp_all add: month_offset_def month_days_def)

lemma serial_next:
  "s mod 12 \<noteq> 11 \<Longrightarrow> (s + 1) div 12 = s div 12 \<and> (s + 1) mod 12 = s mod 12 + (1::int)"
  "s mod 12 = 11 \<Longrightarrow> (s + 1) div 12 = s div 12 + 1 \<and> (s + 1) mod 12 = (0::int)"
proof -
  have s: "s = 12 * (s div 12) + s mod 12" by simp
  have r: "0 \<le> s mod 12" "s mod 12 < 12" by simp_all
  show "(s + 1) div 12 = s div 12 \<and> (s + 1) mod 12 = s mod 12 + 1" if "s mod 12 \<noteq> 11"
  proof -
    have "(s + 1) div 12 = s div 12" using s r that by (intro int_div_pos_eq [of _ _ _ "s mod 12 + 1"]) linarith+
    then show ?thesis using s minus_div_mult_eq_mod [of "s + 1" 12] by linarith
  qed
  show "(s + 1) div 12 = s div 12 + 1 \<and> (s + 1) mod 12 = 0" if "s mod 12 = 11"
  proof -
    have e: "s + 1 = 12 * (s div 12 + 1) + 0" using s that by simp
    have "(s + 1) div 12 = s div 12 + 1" by (rule int_div_pos_eq [OF e]) simp_all
    moreover have "12 dvd s + 1" by (rule dvdI [of _ _ "s div 12 + 1"]) (use e in linarith)
    ultimately show ?thesis by (simp add: dvd_imp_mod_0)
  qed
qed

lemma month_start_Suc: "month_start (s + 1) = month_start s + serial_days s"
proof (cases "s mod 12 = 11")
  case True
  then show ?thesis using serial_next(2) year_start_Suc [of "s div 12"] month_offset_year
    by (simp add: month_start_def serial_days_def)
next
  case False
  have "0 \<le> s mod 12" "s mod 12 < 12" by simp_all
  then have "s mod 12 < 11" using False by linarith
  then show ?thesis using serial_next(1) [OF False] month_offset_Suc [of "s mod 12" "s div 12"]
    by (simp add: month_start_def serial_days_def)
qed

lemma month_days_bounds: "28 \<le> month_days y m" "month_days y m \<le> 31"
  by (simp_all add: month_days_def)

lemma serial_days_bounds: "28 \<le> serial_days s" "serial_days s \<le> 31"
  using month_days_bounds by (simp_all add: serial_days_def)

section \<open>The contract of chrono\<close>

text \<open>The years \<open>chrono\<close> supports include these.\<close>

definition YEARS :: int where "YEARS = 262000"
definition chrono_ok :: "chrono \<Rightarrow> bool" where
  "chrono_ok ch \<longleftrightarrow>
     (\<forall>s d. - 12 * YEARS \<le> s \<longrightarrow> s < 12 * YEARS \<longrightarrow> 1 \<le> d \<longrightarrow> d \<le> serial_days s \<longrightarrow>
        ch_ymd ch (s div 12) (s mod 12 + 1) d = Some (month_start s + d - 1)) \<and>
     (\<forall>s d. - 12 * YEARS \<le> s \<longrightarrow> s < 12 * YEARS \<longrightarrow> 0 \<le> d \<longrightarrow> d < serial_days s \<longrightarrow>
        ch_date ch (month_start s + d) = (s div 12, s mod 12 + 1, d + 1)) \<and>
     (\<forall>t ms. \<bar>t + ms * NANOS_PER_MS\<bar> \<le> 8640000000000000 * NANOS_PER_MS + NANOS_PER_MS \<longrightarrow> ch_add ch t ms = Some (t + ms * NANOS_PER_MS)) \<and>
     (\<forall>t ms r. ch_add ch t ms = Some r \<longrightarrow> r = t + ms * NANOS_PER_MS)"

lemma chrono_ymd:
  "chrono_ok ch \<Longrightarrow> - 12 * YEARS \<le> s \<Longrightarrow> s < 12 * YEARS \<Longrightarrow> 1 \<le> d \<Longrightarrow> d \<le> serial_days s \<Longrightarrow>
     ch_ymd ch (s div 12) (s mod 12 + 1) d = Some (month_start s + d - 1)"
  by (simp add: chrono_ok_def)

lemma num_days_serial:
  assumes ok: "chrono_ok ch" and s: "- 12 * YEARS \<le> s" "s + 1 < 12 * YEARS"
  shows "num_days_in ch (s div 12) (s mod 12) = Some (serial_days s)"
proof -
  have a: "ch_ymd ch (s div 12) (s mod 12 + 1) 1 = Some (month_start s)"
    using chrono_ymd [OF ok, of s 1] s serial_days_bounds(1) [of s] by simp
  have b: "ch_ymd ch ((s + 1) div 12) ((s + 1) mod 12 + 1) 1 = Some (month_start s + serial_days s)"
    using chrono_ymd [OF ok, of "s + 1" 1] s serial_days_bounds(1) [of "s + 1"] month_start_Suc by simp
  have n: "serial_days s mod 2 ^ 32 = serial_days s" using serial_days_bounds [of s] by simp
  have y: "s div 12 < YEARS" "- YEARS \<le> s div 12" using s by (simp_all add: YEARS_def)
  then have c: "checked32 (s div 12 + 1) = Some (s div 12 + 1)" by (simp add: checked32_def YEARS_def)
  show ?thesis
  proof (cases "s mod 12 = 11")
    case True
    then show ?thesis using a b n c serial_next(2) [OF True] by (simp add: num_days_in_def)
  next
    case False
    then show ?thesis using a b n serial_next(1) [OF False] by (simp add: num_days_in_def)
  qed
qed

section \<open>Normalising a month\<close>

lemma sdiv_smod_nonneg: "0 \<le> (m::int) \<Longrightarrow> m sdiv 12 = m div 12 \<and> m smod 12 = m mod 12"
  by (cases "m = 0") (simp_all add: signed_divide_int_def signed_modulo_int_def)

lemma sdiv_smod_neg: "(m::int) < 0 \<Longrightarrow> m sdiv 12 = - ((- m) div 12) \<and> m smod 12 = - ((- m) mod 12)"
  by (simp add: signed_divide_int_def signed_modulo_int_def sgn_if)

lemma div12_shift: "(12 * y + m) div 12 = y + m div (12::int)" "(12 * y + m) mod 12 = m mod (12::int)"
  by simp_all

lemma fix_month_correct:
  assumes b: "- 12 * YEARS \<le> 12 * year + month" "12 * year + month < 12 * YEARS" "- YEARS \<le> year" "year \<le> YEARS"
    and g: "0 \<le> month \<or> \<not> 12 dvd month"
  shows "fix_month year month = Some ((12 * year + month) div 12, (12 * year + month) mod 12)"
proof (cases "0 \<le> month")
  case True
  have "- (2 ^ 31) \<le> year + month div 12" "year + month div 12 < 2 ^ 31"
    using b div12_shift(1) [of year month] by (simp_all add: YEARS_def)
  then show ?thesis using True sdiv_smod_nonneg [OF True] div12_shift [of year month]
    by (simp add: fix_month_def checked32_def)
next
  case False
  define k where "k = (- month) div 12"
  define r where "r = (- month) mod 12"
  have m: "month = - (12 * k + r)" and r: "0 \<le> r" "r < 12" by (simp_all add: k_def r_def)
  have "r \<noteq> 0"
  proof
    assume "r = 0"
    then have "12 dvd month" using m by simp
    with g False show False by simp
  qed
  then have r1: "1 \<le> r" using r by linarith
  have e: "month = 12 * (- k - 1) + (12 - r)" using m by simp
  have d: "month div 12 = - k - 1" by (rule int_div_pos_eq [OF e]) (use r r1 in simp_all)
  then have md: "month mod 12 = 12 - r" using m minus_div_mult_eq_mod [of month 12] by linarith
  have s1: "month sdiv 12 = - k" using sdiv_smod_neg [of month] False by (simp add: k_def)
  have "(- (month + 1)) mod 12 = r - 1"
  proof -
    have e: "- (month + 1) = 12 * k + (r - 1)" using m by linarith
    have "(r - 1) mod 12 = r - 1" using r r1 by (intro mod_pos_pos_trivial) linarith+
    then show ?thesis unfolding e by (simp only: mod_mult_self4)
  qed
  note m1 = this
  have k0: "0 \<le> k" using False by (simp add: k_def pos_imp_zdiv_nonneg_iff)
  have s2: "(month + 1) smod 12 = 1 - r"
  proof (cases "month + 1 = 0")
    case True
    then have "r = 1" using m k0 r1 by linarith
    with True show ?thesis by (simp add: signed_modulo_int_def)
  next
    case nz: False
    then have "month + 1 < 0" using False by linarith
    then show ?thesis using sdiv_smod_neg [of "month + 1"] m1 by simp
  qed
  have y: "- YEARS \<le> year - k - 1" "year - k - 1 < YEARS"
    using b d div12_shift(1) [of year month] by (simp_all add: YEARS_def) 
  then have "checked32 (year - k) = Some (year - k)" "checked32 (year - k - 1) = Some (year - k - 1)"
    by (simp_all add: checked32_def YEARS_def)
  then show ?thesis using False s1 s2 d md div12_shift [of year month] by (simp add: fix_month_def)
qed

section \<open>Normalising a day\<close>

definition normalised :: "(int \<times> int \<times> int) option option \<Rightarrow> int \<Rightarrow> int \<Rightarrow> bool" where
  "normalised r s day \<longleftrightarrow> (\<exists>s' d. r = Some (Some (s' div 12, s' mod 12, d)) \<and> 0 \<le> d \<and> d < serial_days s' \<and>
     month_start s' + d = month_start s + day \<and> - 12 * YEARS \<le> s' \<and> s' < 12 * YEARS)"

lemma fix_day_pos:
  assumes "chrono_ok ch" "0 \<le> day" "- 11 \<le> month" "month + day < 1073741824" "- YEARS \<le> year" "year \<le> YEARS"
    "- 12 * YEARS \<le> 12 * year + month" "12 * year + month + day + 2 \<le> 12 * YEARS"
  shows "normalised (fix_day ch year month day) (12 * year + month) day"
  using assms
proof (induction "nat day" arbitrary: month day rule: less_induct)
  case less
  let ?s = "12 * year + month"
  have g: "0 \<le> month \<or> \<not> 12 dvd month"
  proof (cases "0 \<le> month")
    case False
    then have "0 < - month" "- month < 12" using less.prems(3) by linarith+
    then have "\<not> 12 dvd - month" using zdvd_not_zless by blast
    then show ?thesis by simp
  qed simp
  have fm: "fix_month year month = Some (?s div 12, ?s mod 12)"
    by (rule fix_month_correct [OF _ _ _ _ g]) (use less.prems in linarith)+
  have n: "num_days_in ch (?s div 12) (?s mod 12) = Some (serial_days ?s)"
    by (rule num_days_serial [OF less.prems(1)]) (use less.prems in linarith)+
  show ?case
  proof (cases "serial_days ?s \<le> day")
    case True
    have "28 \<le> serial_days ?s" by (rule serial_days_bounds)
    then have c: "checked32 (month + 1) = Some (month + 1)" using less.prems(2-4) by (simp add: checked32_def)
    have "normalised (fix_day ch year (month + 1) (day - serial_days ?s)) (12 * year + (month + 1)) (day - serial_days ?s)"
      by (rule less.hyps) (use less.prems True \<open>28 \<le> serial_days ?s\<close> in linarith)+
    moreover have "fix_day ch year month day = fix_day ch year (month + 1) (day - serial_days ?s)"
      using fm n True c less.prems(2) by (subst fix_day.simps) (simp del: div_mult_self3 div_mult_self4 mod_mult_self3 mod_mult_self4)
    moreover have "month_start (12 * year + (month + 1)) = month_start ?s + serial_days ?s"
      using month_start_Suc [of ?s] by (simp add: add.assoc)
    ultimately show ?thesis by (simp add: normalised_def)
  next
    case False
    then have "fix_day ch year month day = Some (Some (?s div 12, ?s mod 12, day))"
      using fm n less.prems(2) by (subst fix_day.simps) (simp del: div_mult_self3 div_mult_self4 mod_mult_self3 mod_mult_self4)
    then show ?thesis using False less.prems unfolding normalised_def by (intro exI [of _ ?s] exI [of _ day]) auto
  qed
qed

lemma fix_day_neg:
  assumes "chrono_ok ch" "day < 0" "0 < month \<or> \<not> 12 dvd month - 1" "\<bar>month\<bar> < 1073741824" "- YEARS \<le> year" "year \<le> YEARS"
    "- 12 * YEARS + 1 \<le> 12 * year + month + day" "12 * year + month + 40 \<le> 12 * YEARS"
  shows "normalised (fix_day ch year month day) (12 * year + month) day"
  using assms
proof (induction "nat (- day)" arbitrary: year month day rule: less_induct)
  case less
  let ?s = "12 * year + month" and ?t = "12 * year + (month - 1)"
  have c: "checked32 (month - 1) = Some (month - 1)" using less.prems(4) by (simp add: checked32_def abs_less_iff)
  have g: "0 \<le> month - 1 \<or> \<not> 12 dvd (month - 1)" using less.prems(3) by linarith
  have fm: "fix_month year (month - 1) = Some (?t div 12, ?t mod 12)"
    by (rule fix_month_correct [OF _ _ _ _ g]) (use less.prems in linarith)+
  have n: "num_days_in ch (?t div 12) (?t mod 12) = Some (serial_days ?t)"
    by (rule num_days_serial [OF less.prems(1)]) (use less.prems in linarith)+
  have sd: "28 \<le> serial_days ?t" "serial_days ?t \<le> 31" by (rule serial_days_bounds)+
  let ?y = "?t div 12" and ?m = "?t mod 12" and ?d = "day + serial_days ?t"
  have step: "fix_day ch year month day = fix_day ch ?y ?m ?d"
    using c fm n less.prems(2) by (subst fix_day.simps) (simp del: div_mult_self3 div_mult_self4 mod_mult_self3 mod_mult_self4)
  have t: "12 * ?y + ?m = ?t" by simp
  have m: "0 \<le> ?m" "?m < 12" by simp_all
  have ty: "- YEARS \<le> ?y" "?y \<le> YEARS" using less.prems(2,7,8) t m by linarith+
  have eq: "month_start ?s + day = month_start ?t + ?d" using month_start_Suc [of ?t] by (simp add: algebra_simps)
  have "normalised (fix_day ch ?y ?m ?d) (12 * ?y + ?m) ?d"
  proof (cases "?d < 0")
    case True
    show ?thesis
    proof (rule less.hyps)
      show "nat (- ?d) < nat (- day)" using True less.prems(2) sd by linarith
      show "0 < ?m \<or> \<not> 12 dvd ?m - 1" using m(1) by (cases "?m = 0") (simp_all only: order_le_less, simp_all)
      show "\<bar>?m\<bar> < 1073741824" using m by linarith
    qed (use less.prems sd t m ty True in linarith)+
  next
    case False
    show ?thesis
    proof (rule fix_day_pos [OF less.prems(1)])
      have "?d < 31" using less.prems(2) sd by linarith
      then show "?m + ?d < 1073741824" using m by linarith
    qed (use less.prems sd t m ty False in linarith)+
  qed
  then show ?case unfolding step t normalised_def eq .
qed

text \<open>The year, month and day of a date, of components in these bounds.\<close>

lemma fix_day_correct:
  assumes "chrono_ok ch" "\<bar>year\<bar> \<le> 200000" "- 10 \<le> month" "month \<le> 100000" "\<bar>day\<bar> \<le> 100000"
  shows "normalised (fix_day ch year month day) (12 * year + month) day"
proof (cases "day < 0")
  have years: "YEARS = 262000" by (simp add: YEARS_def)
  case True
  have g: "0 < month \<or> \<not> 12 dvd month - 1"
  proof (rule ccontr)
    assume n: "\<not> (0 < month \<or> \<not> 12 dvd month - 1)"
    then have "12 dvd 1 - month" "0 < 1 - month" using dvd_minus_iff [of 12 "month - 1"] by simp_all
    then show False using zdvd_imp_le [of 12 "1 - month"] assms(3) by linarith
  qed
  show ?thesis by (rule fix_day_neg [OF assms(1) True g]) (use assms(2-5) years in linarith)+
next
  have years: "YEARS = 262000" by (simp add: YEARS_def)
  case False
  show ?thesis by (rule fix_day_pos [OF assms(1)]) (use assms(2-5) False years in linarith)+
qed

section \<open>The month of a day\<close>

lemma month_start_mono: "a \<le> b \<Longrightarrow> month_start a \<le> month_start b"
proof (induction b rule: int_ge_induct)
  case (step i)
  then show ?case using month_start_Suc [of i] serial_days_bounds(1) [of i] by linarith
qed simp

function find_month :: "int \<Rightarrow> int \<Rightarrow> int" where
  "find_month n s = (if month_start (s + 1) \<le> n then find_month n (s + 1) else s)"
  by pat_completeness auto
termination
proof (relation "measure (\<lambda>(n, s). nat (n - month_start s))")
  fix n s assume "month_start (s + 1) \<le> n"
  then show "((n, s + 1), (n, s)) \<in> measure (\<lambda>(n, s). nat (n - month_start s))"
    using month_start_Suc [of s] serial_days_bounds(1) [of s] by simp
qed simp

declare find_month.simps [simp del]

lemma find_month_correct:
  "month_start s \<le> n \<Longrightarrow> month_start (find_month n s) \<le> n \<and> n < month_start (find_month n s + 1)"
proof (induction n s rule: find_month.induct)
  case (1 n s)
  then show ?case by (subst (1 2) find_month.simps) auto
qed

lemma find_month_ge: "s \<le> find_month n s"
proof (induction n s rule: find_month.induct)
  case (1 n s)
  then show ?case by (subst find_month.simps) auto
qed

lemma month_of_day:
  assumes "month_start a \<le> n" "n < month_start b"
  shows "\<exists>s d. n = month_start s + d \<and> 0 \<le> d \<and> d < serial_days s \<and> a \<le> s \<and> s < b"
proof -
  let ?s = "find_month n a"
  have f: "month_start ?s \<le> n" "n < month_start (?s + 1)" using find_month_correct [OF assms(1)] by simp_all
  have "a \<le> ?s"
  proof (rule ccontr)
    assume "\<not> a \<le> ?s"
    then show False using month_start_mono [of "?s + 1" a] f(2) assms(1) by simp
  qed
  moreover have "?s < b"
  proof (rule ccontr)
    assume "\<not> ?s < b"
    then show False using month_start_mono [of b ?s] f(1) assms(2) by simp
  qed
  ultimately show ?thesis using f month_start_Suc [of ?s]
    by (intro exI [of _ ?s] exI [of _ "n - month_start ?s"]) simp
qed

lemma month_unique:
  assumes "month_start s + d = month_start s' + d'" "0 \<le> d" "d < serial_days s" "0 \<le> d'" "d' < serial_days s'"
  shows "s = s' \<and> d = d'"
proof -
  have "\<not> a < b" if "month_start a + x = month_start b + y" "x < serial_days a" "0 \<le> y" for a b x y
    using that month_start_mono [of "a + 1" b] month_start_Suc [of a] by linarith
  from this [of s d s' d'] this [of s' d' s d] show ?thesis using assms by (simp add: linorder_neq_iff)
qed

lemma find_month_eq:
  assumes "0 \<le> d" "d < serial_days s" "a \<le> s"
  shows "find_month (month_start s + d) a = s"
proof -
  let ?f = "find_month (month_start s + d) a"
  have "month_start a \<le> month_start s + d" using month_start_mono [OF assms(3)] assms(1) by linarith
  from find_month_correct [OF this] have f: "month_start ?f \<le> month_start s + d" "month_start s + d < month_start (?f + 1)" by simp_all
  let ?e = "month_start s + d - month_start ?f"
  have "month_start ?f + ?e = month_start s + d" "0 \<le> ?e" "?e < serial_days ?f" using f month_start_Suc [of ?f] by linarith+
  from month_unique [OF this assms(1,2)] show ?thesis by simp
qed

section \<open>The year that is lost\<close>

text \<open>
  For a negative multiple of twelve \<open>fix_month\<close> answers a year too early. So \<open>fix_day\<close> does for a day
  before the first, when the month before is such a month, and for the days after it, when the
  walk ends in such a month. Days are counted from 0 here.
\<close>

definition month_lost :: "int \<Rightarrow> int \<Rightarrow> int" where
  "month_lost year s = (if s < 12 * year \<and> 12 dvd s then s - 12 else s)"

lemma lost_bounds: "s - 12 \<le> month_lost year s" "month_lost year s \<le> s"
  by (simp_all add: month_lost_def)

lemma january_days: "12 dvd s \<Longrightarrow> serial_days s = 31"
  by (simp add: serial_days_def month_days_def)

lemma fix_month_lost:
  assumes b: "- 12 * YEARS + 12 \<le> 12 * year + month" "12 * year + month < 12 * YEARS" "- YEARS \<le> year" "year \<le> YEARS"
  shows "fix_month year month = Some (month_lost year (12 * year + month) div 12, month_lost year (12 * year + month) mod 12)"
proof (cases "month < 0 \<and> 12 dvd month")
  case True
  then obtain k where k: "month = - 12 * k" "0 < k" by (auto elim!: dvdE intro: that [of "- (month div 12)"])
  have e: "12 * year + month = 12 * (year - k)" using k by simp
  have m: "month_lost year (12 * year + month) = 12 * (year - k - 1)" using True k by (auto simp: month_lost_def)
  have s1: "(- 12 * k) sdiv 12 = - k" using sdiv_smod_neg [of "- 12 * k"] k(2) by simp
  have "(- (- 12 * k + 1)) mod 12 = 11"
  proof -
    have e: "- (- 12 * k + 1) = 12 * (k - 1) + 11" by simp
    show ?thesis unfolding e by (simp only: mod_mult_self4) simp
  qed
  then have s2: "(- 12 * k + 1) smod 12 = - 11" using sdiv_smod_neg [of "- 12 * k + 1"] k(2) by simp
  have "- YEARS \<le> year - k - 1" "year - k < YEARS" using b(1,2) unfolding e by simp_all
  then have "checked32 (year + - k) = Some (year - k)" "checked32 (year - k - 1) = Some (year - k - 1)"
    by (simp_all add: checked32_def YEARS_def)
  then have "fix_month year month = Some (year - k - 1, 0)" using s1 s2 k by (simp add: fix_month_def)
  then show ?thesis unfolding m by simp
next
  case False
  moreover have "12 dvd 12 * year + month \<longleftrightarrow> 12 dvd month" by (rule dvd_add_right_iff) simp
  ultimately have "month_lost year (12 * year + month) = 12 * year + month" by (auto simp: month_lost_def)
  then show ?thesis using fix_month_correct [of year month] False b by (auto simp del: div_mult_self3 div_mult_self4 mod_mult_self3 mod_mult_self4)
qed

lemma fix_day_pos_lost:
  assumes "chrono_ok ch" "0 \<le> day" "\<bar>month\<bar> + day < 1073741824" "- YEARS \<le> year" "year \<le> YEARS"
    "- 12 * YEARS + 12 \<le> 12 * year + month" "12 * year + month + day + 2 \<le> 12 * YEARS"
  shows "\<exists>s d. fix_day ch year month day = Some (Some (month_lost year s div 12, month_lost year s mod 12, d)) \<and>
    0 \<le> d \<and> d < serial_days s \<and> month_start s + d = month_start (12 * year + month) + day \<and>
    12 * year + month \<le> s \<and> s \<le> 12 * year + month + day"
  using assms
proof (induction "nat day" arbitrary: month day rule: less_induct)
  case less
  let ?s = "12 * year + month"
  let ?t = "month_lost year ?s"
  have fm: "fix_month year month = Some (?t div 12, ?t mod 12)"
    by (rule fix_month_lost) (use less.prems in linarith)+
  have t: "?t = ?s \<or> ?t = ?s - 12" "serial_days ?t = serial_days ?s"
    by (auto simp: month_lost_def january_days dvd_diff)
  have n: "num_days_in ch (?t div 12) (?t mod 12) = Some (serial_days ?s)"
    unfolding t(2) [symmetric] by (rule num_days_serial [OF less.prems(1)]) (use t(1) less.prems in linarith)+
  show ?case
  proof (cases "serial_days ?s \<le> day")
    case True
    have sd: "28 \<le> serial_days ?s" by (rule serial_days_bounds)
    then have c: "checked32 (month + 1) = Some (month + 1)" using less.prems(2,3) by (simp add: checked32_def abs_if split: if_splits)
    have "\<exists>s d. fix_day ch year (month + 1) (day - serial_days ?s) = Some (Some (month_lost year s div 12, month_lost year s mod 12, d)) \<and>
      0 \<le> d \<and> d < serial_days s \<and> month_start s + d = month_start (12 * year + (month + 1)) + (day - serial_days ?s) \<and>
      12 * year + (month + 1) \<le> s \<and> s \<le> 12 * year + (month + 1) + (day - serial_days ?s)"
      by (rule less.hyps) (use less.prems True sd in linarith)+
    moreover have "fix_day ch year month day = fix_day ch year (month + 1) (day - serial_days ?s)"
      using fm n True c less.prems(2) by (subst fix_day.simps) simp
    moreover have "month_start (12 * year + (month + 1)) = month_start ?s + serial_days ?s"
      using month_start_Suc [of ?s] by (simp add: add.assoc)
    ultimately show ?thesis using sd by (elim exE conjE) (rule exI, rule exI, intro conjI, simp, assumption, assumption, linarith+)
  next
    case False
    then have "fix_day ch year month day = Some (Some (?t div 12, ?t mod 12, day))"
      using fm n less.prems(2) by (subst fix_day.simps) simp
    then show ?thesis using False less.prems by (intro exI [of _ ?s] exI [of _ day]) auto
  qed
qed

lemma fix_day_neg_lost:
  assumes ok: "chrono_ok ch" and day: "day < 0" and lost: "month \<le> 0" "12 dvd month - 1" and b: "\<bar>month\<bar> < 1073741824" "- YEARS \<le> year" "year \<le> YEARS"
    "- 12 * YEARS + 13 \<le> 12 * year + month + day" "12 * year + month + 40 \<le> 12 * YEARS"
  shows "normalised (fix_day ch year month day) (12 * (year - 1) + month) day"
proof -
  obtain q where q: "month - 1 = 12 * q" using lost(2) by blast
  define y where "y = year - 1 + q"
  have t: "12 * y = 12 * year + month - 13" "12 * year + (month - 1) = 12 * (year + q)" "12 * (year - 1) + month = 12 * y + 1"
    using q by (simp_all add: y_def)
  have c: "checked32 (month - 1) = Some (month - 1)" using b(1) by (simp add: checked32_def abs_less_iff)
  have l: "month_lost year (12 * year + (month - 1)) = 12 * y" using lost(1) q by (simp add: month_lost_def y_def)
  have "fix_month year (month - 1) = Some (12 * y div 12, 12 * y mod 12)"
    unfolding l [symmetric] by (rule fix_month_lost) (use b day lost in linarith)+
  then have fm: "fix_month year (month - 1) = Some (y, 0)" by simp
  have "- 12 * YEARS \<le> 12 * y" "12 * y + 1 < 12 * YEARS" using b(4,5) day lost(1) t(1) by linarith+
  then have "num_days_in ch (12 * y div 12) (12 * y mod 12) = Some (serial_days (12 * y))" by (rule num_days_serial [OF ok])
  then have n: "num_days_in ch y 0 = Some 31" using january_days [of "12 * y"] by simp
  have step: "fix_day ch year month day = fix_day ch y 0 (day + 31)"
    using c fm n day by (subst fix_day.simps) simp
  have ty: "- YEARS \<le> y" "y \<le> YEARS" using t(1) b(4,5) day lost(1) by linarith+
  have "normalised (fix_day ch y 0 (day + 31)) (12 * y + 0) (day + 31)"
  proof (cases "day + 31 < 0")
    case True
    show ?thesis by (rule fix_day_neg [OF ok True]) (use b(4,5) day lost(1) t(1) ty in simp_all)
  next
    case False
    show ?thesis by (rule fix_day_pos [OF ok]) (use False b(4,5) day lost(1) t(1) ty in simp_all)
  qed
  moreover have "month_start (12 * y + 1) = month_start (12 * y) + 31"
    using month_start_Suc [of "12 * y"] january_days [of "12 * y"] by simp
  ultimately show ?thesis unfolding step normalised_def t(3) by (simp add: ac_simps)
qed

definition year_lost :: "int \<Rightarrow> int \<Rightarrow> int \<Rightarrow> bool" where
  "year_lost year month day \<longleftrightarrow>
     (if day < 1 then month \<le> 0 \<and> 12 dvd month - 1
      else month_lost year (find_month (month_start (12 * year + month) + day - 1) (12 * year + month)) \<noteq>
        find_month (month_start (12 * year + month) + day - 1) (12 * year + month))"

text \<open>The day that is set, in days since the epoch. The day of the month counts from 1 again.\<close>

definition set_day :: "int \<Rightarrow> int \<Rightarrow> int \<Rightarrow> int" where
  "set_day year month day =
     (if day < 1 then month_start (12 * (if month \<le> 0 \<and> 12 dvd month - 1 then year - 1 else year) + month) + day - 1
      else let n = month_start (12 * year + month) + day - 1; s = find_month n (12 * year + month)
        in month_start (month_lost year s) + (n - month_start s))"

lemma month_start_less: "a < b \<Longrightarrow> month_start a < month_start b"
  using month_start_mono [of "a + 1" b] month_start_Suc [of a] serial_days_bounds(1) [of a] by linarith

lemma set_day_exact: "set_day year month day = month_start (12 * year + month) + day - 1 \<longleftrightarrow> \<not> year_lost year month day"
proof -
  have "month_start (month_lost year s) = month_start s \<longleftrightarrow> month_lost year s = s" for s
    using month_start_less [of "s - 12" s] by (auto simp: month_lost_def)
  moreover have "month_start (12 * (year - 1) + month) < month_start (12 * year + month)" by (rule month_start_less) simp
  ultimately show ?thesis by (auto simp: set_day_def year_lost_def Let_def)
qed

lemma year_lost_late:
  assumes "- 10 \<le> month"
  shows "\<not> year_lost year month day"
proof -
  have a: "\<not> (month \<le> 0 \<and> 12 dvd month - 1)"
  proof
    assume n: "month \<le> 0 \<and> 12 dvd month - 1"
    then have "12 dvd 1 - month" "0 < 1 - month" using dvd_minus_iff [of 12 "month - 1"] by simp_all
    then show False using zdvd_imp_le [of 12 "1 - month"] assms by linarith
  qed
  have "month_lost year s = s" if "12 * year - 10 \<le> s" for s
  proof -
    have "\<not> (s < 12 * year \<and> 12 dvd s)" using that by presburger
    then show ?thesis by (simp add: month_lost_def)
  qed
  moreover have "12 * year - 10 \<le> find_month n (12 * year + month)" for n
    using find_month_ge [of "12 * year + month" n] assms by linarith
  ultimately show ?thesis using a by (simp add: year_lost_def)
qed

lemma fix_day_set_day:
  assumes "chrono_ok ch" "\<bar>year\<bar> \<le> 200000" "\<bar>month\<bar> \<le> 100000" "\<bar>day\<bar> \<le> 100000"
  shows "\<exists>s d. fix_day ch year month day = Some (Some (s div 12, s mod 12, d)) \<and> 0 \<le> d \<and> d < serial_days s \<and>
    month_start s + d = set_day year month (day + 1) \<and> - 12 * YEARS \<le> s \<and> s < 12 * YEARS"
proof (cases "day < 0")
  have years: "YEARS = 262000" by (simp add: YEARS_def)
  case True
  then have "- 100000 \<le> day" using assms(4) by linarith
  note b = True this years assms(2,3)
  show ?thesis
  proof (cases "month \<le> 0 \<and> 12 dvd month - 1")
    case l: True
    then have "normalised (fix_day ch year month day) (12 * (year - 1) + month) day"
      by (intro fix_day_neg_lost [OF assms(1) True]) (use l b in linarith)+
    then show ?thesis unfolding normalised_def using True l by (simp add: set_day_def)
  next
    case l: False
    then have "normalised (fix_day ch year month day) (12 * year + month) day"
      by (intro fix_day_neg [OF assms(1) True]) (use b in linarith)+
    then show ?thesis unfolding normalised_def using True l by (simp add: set_day_def) blast
  qed
next
  have years: "YEARS = 262000" by (simp add: YEARS_def)
  case False
  then have "0 \<le> day" "day \<le> 100000" using assms(4) by linarith+
  note b = this years assms(2,3)
  have bounds: "\<bar>month\<bar> + day < 1073741824" "- YEARS \<le> year" "year \<le> YEARS" "- 12 * YEARS + 12 \<le> 12 * year + month"
    "12 * year + month + day + 2 \<le> 12 * YEARS" using b by linarith+
  obtain s d where sd: "fix_day ch year month day = Some (Some (month_lost year s div 12, month_lost year s mod 12, d))"
    "0 \<le> d" "d < serial_days s" "month_start s + d = month_start (12 * year + month) + day"
    "12 * year + month \<le> s" "s \<le> 12 * year + month + day"
    using fix_day_pos_lost [OF assms(1) b(1) bounds] by blast
  have f: "find_month (month_start s + d) (12 * year + month) = s" by (rule find_month_eq [OF sd(2,3,5)])
  have "serial_days (month_lost year s) = serial_days s" by (auto simp: month_lost_def january_days)
  moreover have "- 12 * YEARS \<le> month_lost year s" "month_lost year s < 12 * YEARS"
    using lost_bounds(1) [of s year] lost_bounds(2) [of year s] sd(5,6) bounds by linarith+
  moreover have "set_day year month (day + 1) = month_start (month_lost year s) + d"
  proof -
    have "month_start (12 * year + month) + (day + 1) - 1 = month_start s + d" "\<not> day + 1 < 1" using sd(4) False by linarith+
    then show ?thesis using f unfolding set_day_def by (simp only: if_False Let_def)
  qed
  ultimately show ?thesis using sd(1,2,3) by (intro exI [of _ "month_lost year s"] exI [of _ d] conjI) simp_all
qed

section \<open>A calendar that satisfies the contract\<close>

definition gregorian :: chrono where
  "gregorian = \<lparr>ch_ymd = (\<lambda>y m d. if 1 \<le> m \<and> m \<le> 12 \<and> 1 \<le> d \<and> d \<le> month_days y (m - 1)
                             then Some (month_start (12 * y + (m - 1)) + d - 1) else None),
     ch_date = (\<lambda>n. let s = find_month n (- 12 * YEARS) in (s div 12, s mod 12 + 1, n - month_start s + 1)),
     ch_add = (\<lambda>t ms. Some (t + ms * NANOS_PER_MS)),
     ch_local = (\<lambda>t. t), ch_from_local = LSingle\<rparr>"

end
