(* ===== verification/Date_Props.thy ===== *)
theory Date_Props
  imports Date_Calendar
begin

text \<open>The properties of dates, over every \<open>chrono\<close> that satisfies the contract.\<close>

lemma gregorian_ok: "chrono_ok gregorian"
  unfolding chrono_ok_def
proof (intro conjI allI impI)
  fix s d assume "1 \<le> d" "d \<le> serial_days s"
  then have d: "1 \<le> d" "d \<le> month_days (s div 12) (s mod 12)" by (simp_all add: serial_days_def)
  have m: "1 \<le> s mod 12 + 1" "s mod 12 + 1 \<le> 12" "s mod 12 + 1 - 1 = s mod 12" by simp_all
  have e: "12 * (s div 12) + s mod 12 = s" by simp
  show "ch_ymd gregorian (s div 12) (s mod 12 + 1) d = Some (month_start s + d - 1)"
    unfolding gregorian_def chrono.simps m(3) e using d m by simp
next
  fix s d assume s: "- 12 * YEARS \<le> s" "0 \<le> d" "d < serial_days s"
  let ?n = "month_start s + d" and ?s = "find_month (month_start s + d) (- 12 * YEARS)"
  have "month_start (- 12 * YEARS) \<le> ?n" using month_start_mono [OF s(1)] s(2) by simp
  then have f: "month_start ?s \<le> ?n" "?n < month_start (?s + 1)" using find_month_correct by blast+
  have "s = ?s \<and> d = ?n - month_start ?s"
    by (rule month_unique) (use f s month_start_Suc [of ?s] in simp_all)
  then have "?s = s" by simp
  then show "ch_date gregorian ?n = (s div 12, s mod 12 + 1, d + 1)" by (simp add: gregorian_def Let_def)
qed (simp_all add: gregorian_def)

section \<open>Normalisation\<close>

text \<open>
  \<open>fix_day\<close> ends and normalises: for a month from -10 on and components of any size the engine
  can use, the loop returns a year, a month of the year and a day of that month that denote the
  same day as the components it was given.
\<close>

theorem fix_day_normalises:
  assumes "chrono_ok ch" "\<bar>year\<bar> \<le> 200000" "- 10 \<le> month" "month \<le> 100000" "\<bar>day\<bar> \<le> 100000"
  shows "\<exists>y m d. fix_day ch year month day = Some (Some (y, m, d)) \<and> 0 \<le> m \<and> m < 12 \<and> 0 \<le> d \<and> d < month_days y m \<and>
    month_start (12 * y + m) + d = month_start (12 * year + month) + day"
proof -
  obtain s d where s: "fix_day ch year month day = Some (Some (s div 12, s mod 12, d))" "0 \<le> d" "d < serial_days s"
    "month_start s + d = month_start (12 * year + month) + day"
    using fix_day_correct [OF assms] unfolding normalised_def by blast
  then show ?thesis by (intro exI [of _ "s div 12"] exI [of _ "s mod 12"] exI [of _ d]) (simp add: serial_days_def)
qed

theorem fix_day_normalises_witness:
  "\<exists>y m d. fix_day gregorian 2024 14 (- 400) = Some (Some (y, m, d)) \<and> month_start (12 * y + m) + d = month_start (12 * 2024 + 14) - 400"
  using fix_day_normalises [OF gregorian_ok, of 2024 14 "- 400"] by auto

text \<open>
  Twelve months back is two years back: for a month that is a negative multiple of twelve
  \<open>fix_month\<close> subtracts a year too many, so \<open>setMonth(-12)\<close> does not give January of the year before.
\<close>

theorem fix_month_year_too_many:
  assumes "0 < k" "k < 1000" "\<bar>year\<bar> < 200000"
  shows "fix_month year (- 12 * k) = Some (year - k - 1, 0) \<and> (12 * year + - 12 * k) div 12 = year - k"
proof -
  have d: "(- 12 * k) sdiv 12 = - k" using sdiv_smod_neg [of "- 12 * k"] assms(1) by simp
  have "(- (- 12 * k + 1)) mod 12 = 11"
  proof -
    have e: "- (- 12 * k + 1) = 12 * (k - 1) + 11" by simp
    show ?thesis unfolding e by (simp only: mod_mult_self4) simp
  qed
  then have r: "(- 12 * k + 1) smod 12 = - 11" using sdiv_smod_neg [of "- 12 * k + 1"] assms(1) by simp
  have "12 * year + - 12 * k = 12 * (year - k)" by simp
  then have "(12 * year + - 12 * k) div 12 = year - k" by simp
  moreover have "fix_month year (- 12 * k) = Some (year - k - 1, 0)"
  proof -
    have "checked32 (year + - k) = Some (year - k)" "checked32 (year - k - 1) = Some (year - k - 1)"
      unfolding checked32_def using assms by (simp_all add: abs_less_iff)
    then show ?thesis using d r assms(1) by (simp add: fix_month_def)
  qed
  ultimately show ?thesis by simp
qed

theorem fix_month_year_too_many_witness: "fix_month 2024 (- 12) = Some (2022, 0)"
  using fix_month_year_too_many [of 1 2024] by simp

section \<open>The components\<close>

text \<open>The milliseconds since the epoch of components of any size: \<open>MakeDate\<close> and \<open>MakeTime\<close> of the standard.\<close>

definition make_millis :: "int \<Rightarrow> int \<Rightarrow> int \<Rightarrow> int \<Rightarrow> int \<Rightarrow> int \<Rightarrow> int \<Rightarrow> int" where
  "make_millis year month day hour minute second ms =
     (month_start (12 * year + month) + day - 1) * 86400000 + hour * 3600000 + minute * 60000 + second * 1000 + ms"
definition set_millis :: "int \<Rightarrow> int \<Rightarrow> int \<Rightarrow> int \<Rightarrow> int \<Rightarrow> int \<Rightarrow> int \<Rightarrow> int" where
  "set_millis year month day hour minute second ms =
     set_day year month day * 86400000 + hour * 3600000 + minute * 60000 + second * 1000 + ms"

lemma checked64_small: "\<bar>n\<bar> < 2 ^ 63 \<Longrightarrow> checked64 n = Some n"
  by (auto simp: checked64_def)

lemma date_from_parts_utc:
  assumes ok: "chrono_ok ch" and s: "- 12 * YEARS \<le> s" "s < 12 * YEARS" "0 \<le> d" "d < serial_days s"
    and small: "\<bar>hour\<bar> \<le> 10 ^ 11" "\<bar>minute\<bar> \<le> 10 ^ 11" "\<bar>second\<bar> \<le> 10 ^ 11" "\<bar>ms\<bar> \<le> 10 ^ 11"
  defines "T \<equiv> (month_start s + d) * 86400000 + hour * 3600000 + minute * 60000 + second * 1000 + ms"
  shows "date_from_parts ch True (s div 12, s mod 12, d) hour minute second ms =
    (if \<bar>T\<bar> \<le> 8640000000000000 then Some (T * NANOS_PER_MS) else None)"
proof -
  let ?D = "hour * 3600000 + minute * 60000 + second * 1000 + ms"
  have b: "- (10 ^ 11) \<le> hour" "hour \<le> 10 ^ 11" "- (10 ^ 11) \<le> minute" "minute \<le> 10 ^ 11" "- (10 ^ 11) \<le> second" "second \<le> 10 ^ 11"
    "- (10 ^ 11) \<le> ms" "ms \<le> 10 ^ 11"
    using small by (auto simp: abs_le_iff)
  have c: "checked64 (hour * MILLIS_PER_HOUR) = Some (hour * 3600000)" "checked64 (minute * MILLIS_PER_MINUTE) = Some (minute * 60000)"
    "checked64 (second * MILLIS_PER_SECOND) = Some (second * 1000)" "checked64 (hour * 3600000 + minute * 60000) = Some (hour * 3600000 + minute * 60000)"
    "checked64 (hour * 3600000 + minute * 60000 + second * 1000) = Some (hour * 3600000 + minute * 60000 + second * 1000)"
    "checked64 ?D = Some ?D"
    using b by (simp_all add: checked64_def MILLIS_PER_HOUR_def MILLIS_PER_MINUTE_def MILLIS_PER_SECOND_def)
  have ymd: "ch_ymd ch (s div 12) (s mod 12 + 1) (d + 1) = Some (month_start s + d)"
    using chrono_ymd [OF ok s(1,2), of "d + 1"] s(3,4) by simp
  have sum: "(month_start s + d) * DAY_NANOS + ?D * NANOS_PER_MS = T * NANOS_PER_MS"
    by (simp add: T_def DAY_NANOS_def NANOS_PER_MS_def algebra_simps)
  have clip: "time_clip (timestamp_millis (T * NANOS_PER_MS)) = (if \<bar>T\<bar> \<le> 8640000000000000 then Some T else None)"
    by (simp add: time_clip_def timestamp_millis_def NANOS_PER_MS_def)
  note steps = c ymd clip
  show ?thesis
  proof (cases "\<bar>T\<bar> \<le> 8640000000000000")
    case True
    then have "\<bar>T * NANOS_PER_MS\<bar> \<le> 8640000000000000 * NANOS_PER_MS + NANOS_PER_MS" by (simp add: NANOS_PER_MS_def abs_mult)
    then have "ch_add ch ((month_start s + d) * DAY_NANOS) ?D = Some (T * NANOS_PER_MS)"
      using ok unfolding chrono_ok_def sum [symmetric] by blast
    then show ?thesis using True steps by (simp add: date_from_parts_def)
  next
    case False
    have "ch_add ch ((month_start s + d) * DAY_NANOS) ?D = None \<or> ch_add ch ((month_start s + d) * DAY_NANOS) ?D = Some (T * NANOS_PER_MS)"
      using ok unfolding chrono_ok_def sum [symmetric] by (metis option.exhaust)
    then show ?thesis using False steps by (auto simp: date_from_parts_def)
  qed
qed

lemma set_components_parts:
  assumes ok: "chrono_ok ch"
    and n: "check_normal_opt [dp_year parts, dp_month parts, dp_day parts, dp_hour parts, dp_minute parts, dp_second parts, dp_millisecond parts]"
    and p: "part32 (nv_year ch t) (dp_year parts) = year" "part32 (nv_month0 ch t) (dp_month parts) = month"
    "part32 (nv_day ch t) (dp_day parts) = day" "part64 (nv_hour t) (dp_hour parts) = hour" "part64 (nv_minute t) (dp_minute parts) = minute"
    "part64 (nv_second t) (dp_second parts) = second" "part64 (nv_nanosecond t div NANOS_PER_MS) (dp_millisecond parts) = ms"
    and b: "\<bar>year\<bar> \<le> 200000" "\<bar>month\<bar> \<le> 100000" "\<bar>day\<bar> < 100000"
    and small: "\<bar>hour\<bar> \<le> 10 ^ 11" "\<bar>minute\<bar> \<le> 10 ^ 11" "\<bar>second\<bar> \<le> 10 ^ 11" "\<bar>ms\<bar> \<le> 10 ^ 11"
  shows "set_components ch True parts (Some t) =
    Some (if \<bar>set_millis year month day hour minute second ms\<bar> \<le> 8640000000000000
          then Some (set_millis year month day hour minute second ms * NANOS_PER_MS) else None)"
proof -
  have d1: "\<bar>day - 1\<bar> \<le> 100000" using b(3) by linarith
  have c: "checked32 (day - 1) = Some (day - 1)" using d1 by (auto simp: checked32_def abs_le_iff)
  obtain s d where s: "fix_day ch year month (day - 1) = Some (Some (s div 12, s mod 12, d))" "0 \<le> d" "d < serial_days s"
    "month_start s + d = set_day year month (day - 1 + 1)" "- 12 * YEARS \<le> s" "s < 12 * YEARS"
    using fix_day_set_day [OF ok b(1,2) d1] by blast
  have T: "(month_start s + d) * 86400000 + hour * 3600000 + minute * 60000 + second * 1000 + ms = set_millis year month day hour minute second ms"
    unfolding set_millis_def s(4) by simp
  note f = date_from_parts_utc [OF ok s(5,6,2,3) small, unfolded T]
  have "set_components ch True parts (Some t) = Some (date_from_parts ch True (s div 12, s mod 12, d) hour minute second ms)"
    using n p c s(1) by (simp add: set_components_def to_utc_def Let_def)
  then show ?thesis unfolding f .
qed

lemma set_millis_exact:
  "set_millis year month day hour minute second ms = make_millis year month day hour minute second ms \<longleftrightarrow> \<not> year_lost year month day"
proof -
  have "a * 86400000 + r = b * 86400000 + r \<longleftrightarrow> a = b" for a b r :: int by simp
  from this [of _ "hour * 3600000 + minute * 60000 + second * 1000 + ms"] show ?thesis
    unfolding set_millis_def make_millis_def set_day_exact [symmetric] by (simp only: add.assoc)
qed


lemma f64_examples: "f64_as_i32 0x409f940000000000 = 2021" "f64_as_i32 0x402a000000000000 = 13" "f64_as_i32 0 = 0"
    "f64_is_normal 0x409f940000000000" "f64_is_normal 0x402a000000000000" "f64_magnitude 0 = 0"
  by (simp_all add: f64_as_i32_def f64_as_int_def f64_is_nan_def f64_is_infinite_def f64_exponent_def f64_mantissa_def f64_negative_def
      f64_trunc_def f64_trunc_magnitude_def f64_significand_def f64_is_normal_def f64_magnitude_def clamp_int_def Let_def)


section \<open>Setting nothing\<close>

lemma month_start_bounds: "month_start (- 2400000) \<le> - 69500000" "69500000 < month_start 2400000"
  by (simp_all add: month_start_def year_start_def month_offset_def leap_def)

lemma millis_split:
  fixes u :: int
  shows "u mod 86400000 div 3600000 * 3600000 + u div 60000 mod 60 * 60000 + u div 1000 mod 60 * 1000 + u mod 1000 = u mod 86400000"
proof -
  have c: "u div 60000 = u div 1000 div 60" "u div 3600000 = u div 60000 div 60" by (simp_all add: div_mult2_eq [symmetric])
  have e: "1000 * (u div 1000) + u mod 1000 = u" "86400000 * (u div 86400000) + u mod 86400000 = u" by (rule mult_div_mod_eq)+
  have f: "60 * (u div 60000) + u div 1000 mod 60 = u div 1000" unfolding c(1) by (rule mult_div_mod_eq)
  have g: "60 * (u div 3600000) + u div 60000 mod 60 = u div 60000" unfolding c(2) by (rule mult_div_mod_eq)
  have h: "u mod 86400000 div 3600000 = u div 3600000 - 24 * (u div 86400000)"
  proof -
    have "u mod 86400000 = u + 3600000 * (- 24 * (u div 86400000))" using e(2) by linarith
    then have "u mod 86400000 div 3600000 = (u + 3600000 * (- 24 * (u div 86400000))) div 3600000" by simp
    also have "\<dots> = - 24 * (u div 86400000) + u div 3600000" by (rule div_mult_self2) simp
    finally show ?thesis by simp
  qed
  show ?thesis using e f g h by linarith
qed

text \<open>
  Reading the components of a date and writing them back keeps the date: setting no component of a
  UTC date yields the date, cut to a millisecond, for every date up to \<open>6 * 10 ^ 15\<close> milliseconds
  around the epoch.
\<close>

theorem set_nothing_keeps:
  assumes ok: "chrono_ok ch" and t: "\<bar>t\<bar> \<le> 6000000000000000 * NANOS_PER_MS"
  shows "set_components ch True no_parts (Some t) = Some (Some (t div NANOS_PER_MS * NANOS_PER_MS))"
proof -
  let ?u = "t div NANOS_PER_MS" and ?D = "t div DAY_NANOS"
  have N: "NANOS_PER_MS = 1000000" "DAY_NANOS = 86400000 * 1000000" by (simp_all add: NANOS_PER_MS_def DAY_NANOS_def)
  have tb: "- 6000000000000000000000 \<le> t" "t \<le> 6000000000000000000000" using t by (auto simp: N abs_le_iff)
  have Du: "?D = ?u div 86400000" by (simp add: N div_mult2_eq [symmetric] mult.commute)
  have "- 69500000 \<le> ?D" "?D \<le> 69500000"
  proof -
    have "- 6000000000000000000000 div DAY_NANOS \<le> ?D" "?D \<le> 6000000000000000000000 div DAY_NANOS"
      using tb by (simp_all add: zdiv_mono1 N)
    then show "- 69500000 \<le> ?D" "?D \<le> 69500000" by (simp_all add: N)
  qed
  then obtain s d where s: "?D = month_start s + d" "0 \<le> d" "d < serial_days s" "- 2400000 \<le> s" "s < 2400000"
    using month_of_day [of "- 2400000" ?D 2400000] month_start_bounds by auto
  have dt: "ch_date ch ?D = (s div 12, s mod 12 + 1, d + 1)"
    using ok s(2-5) unfolding s(1) chrono_ok_def YEARS_def by simp
  have own: "nv_year ch t = s div 12" "nv_month0 ch t = s mod 12" "nv_day ch t = d + 1"
    by (simp_all add: nv_year_def nv_month0_def nv_day_def nv_date_def dt)
  have tm: "nv_hour t = ?u mod 86400000 div 3600000" "nv_minute t = ?u div 60000 mod 60" "nv_second t = ?u div 1000 mod 60"
    "nv_nanosecond t div NANOS_PER_MS = ?u mod 1000"
  proof -
    have N2: "MILLIS_PER_HOUR * NANOS_PER_MS = 1000000 * 3600000" "MILLIS_PER_MINUTE * NANOS_PER_MS = 1000000 * 60000"
      "MILLIS_PER_SECOND * NANOS_PER_MS = 1000000 * 1000" "DAY_NANOS = 1000000 * 86400000" "NANOS_PER_MS = 1000000"
      by (simp_all add: N MILLIS_PER_HOUR_def MILLIS_PER_MINUTE_def MILLIS_PER_SECOND_def)
    show "nv_hour t = ?u mod 86400000 div 3600000"
      unfolding nv_hour_def N2(1,4) zmod_zmult2_eq [of 86400000, simplified] zdiv_zmult2_eq [of 3600000, simplified] by (simp add: N2(5))
    show "nv_minute t = ?u div 60000 mod 60"
      unfolding nv_minute_def N2(2) zdiv_zmult2_eq [of 60000, simplified] by (simp add: N2(5))
    show "nv_second t = ?u div 1000 mod 60"
      unfolding nv_second_def N2(3) zdiv_zmult2_eq [of 1000, simplified] by (simp add: N2(5))
    show "nv_nanosecond t div NANOS_PER_MS = ?u mod 1000"
      unfolding nv_nanosecond_def N2(3) zmod_zmult2_eq [of 1000, simplified] by (simp add: N2(5))
  qed
  have y: "\<bar>s div 12\<bar> \<le> 200000"
  proof -
    have "- 2400000 div 12 \<le> s div 12" "s div 12 \<le> 2400000 div 12" using s(4,5) by (simp_all add: zdiv_mono1)
    then show ?thesis by simp
  qed
  have m: "make_millis (s div 12) (s mod 12) (d + 1) (?u mod 86400000 div 3600000) (?u div 60000 mod 60) (?u div 1000 mod 60) (?u mod 1000) = ?u"
  proof -
    have i: "12 * (s div 12) + s mod 12 = s" and j: "86400000 * (?u div 86400000) + ?u mod 86400000 = ?u" by (rule mult_div_mod_eq)+
    have k: "month_start (12 * (s div 12) + s mod 12) + (d + 1) - 1 = ?u div 86400000"
      unfolding i using s(1)[unfolded Du] by linarith
    have millis_sum: "?u div 86400000 * 86400000 + h * 3600000 + m * 60000 + sec * 1000 + ms =
        86400000 * (?u div 86400000) + (h * 3600000 + m * 60000 + sec * 1000 + ms)" for h m sec ms :: int by simp
    show ?thesis unfolding make_millis_def k millis_sum millis_split j ..
  qed
  have "- 10 \<le> s mod 12" using pos_mod_sign [of 12 s] by linarith
  note set_m = set_millis_exact [THEN iffD2, OF year_lost_late [OF this], of "s div 12" "d + 1" "?u mod 86400000 div 3600000"
      "?u div 60000 mod 60" "?u div 1000 mod 60" "?u mod 1000", unfolded m]
  have "set_components ch True no_parts (Some t) =
      Some (if \<bar>?u\<bar> \<le> 8640000000000000 then Some (?u * NANOS_PER_MS) else None)"
  proof (rule set_components_parts [OF ok, of no_parts t "s div 12" "s mod 12" "d + 1" "?u mod 86400000 div 3600000"
        "?u div 60000 mod 60" "?u div 1000 mod 60" "?u mod 1000", unfolded set_m])
    show "check_normal_opt [dp_year no_parts, dp_month no_parts, dp_day no_parts, dp_hour no_parts, dp_minute no_parts,
        dp_second no_parts, dp_millisecond no_parts]"
      by (simp add: no_parts_def check_normal_opt_def is_zero_or_normal_opt_def)
    show "part32 (nv_year ch t) (dp_year no_parts) = s div 12" "part32 (nv_month0 ch t) (dp_month no_parts) = s mod 12"
      "part32 (nv_day ch t) (dp_day no_parts) = d + 1"
      by (simp_all add: own part32_def no_parts_def)
    show "part64 (nv_hour t) (dp_hour no_parts) = ?u mod 86400000 div 3600000" "part64 (nv_minute t) (dp_minute no_parts) = ?u div 60000 mod 60"
      "part64 (nv_second t) (dp_second no_parts) = ?u div 1000 mod 60" "part64 (nv_nanosecond t div NANOS_PER_MS) (dp_millisecond no_parts) = ?u mod 1000"
      by (simp_all add: tm part64_def no_parts_def)
    show "\<bar>s div 12\<bar> \<le> 200000" by (rule y)
    have p: "0 \<le> s mod 12" "s mod 12 < 12" by simp_all
    show "\<bar>s mod 12\<bar> \<le> 100000" using p by linarith
    have "serial_days s \<le> 31" by (rule serial_days_bounds)
    then show "\<bar>d + 1\<bar> < 100000" using s(2,3) by simp
    have q: "0 \<le> ?u div 60000 mod 60" "?u div 60000 mod 60 < 60" "0 \<le> ?u div 1000 mod 60" "?u div 1000 mod 60 < 60"
      "0 \<le> ?u mod 1000" "?u mod 1000 < 1000" "0 \<le> ?u mod 86400000" "?u mod 86400000 < 86400000"
      by simp_all
    have "?u mod 86400000 div 3600000 \<le> 86400000 div 3600000" "0 \<le> ?u mod 86400000 div 3600000"
      using q(7,8) by (simp_all add: zdiv_mono1 pos_imp_zdiv_nonneg_iff)
    then show "\<bar>?u mod 86400000 div 3600000\<bar> \<le> 10 ^ 11" by simp
    show "\<bar>?u div 60000 mod 60\<bar> \<le> 10 ^ 11" "\<bar>?u div 1000 mod 60\<bar> \<le> 10 ^ 11" "\<bar>?u mod 1000\<bar> \<le> 10 ^ 11"
      using q by simp_all
  qed
  moreover have "\<bar>?u\<bar> \<le> 8640000000000000"
  proof -
    have "- 6000000000000000000000 div NANOS_PER_MS \<le> ?u" "?u \<le> 6000000000000000000000 div NANOS_PER_MS"
      using tb by (simp_all add: zdiv_mono1 N)
    then show ?thesis by (simp add: N)
  qed
  ultimately show ?thesis by simp
qed

theorem set_nothing_keeps_witness:
  "set_components gregorian True no_parts (Some (- 1)) = Some (Some (- 1000000))"
  using set_nothing_keeps [OF gregorian_ok, of "- 1"] by (simp add: NANOS_PER_MS_def)

section \<open>Arguments\<close>

text \<open>
  A setter method ignores an argument that is not a number: \<open>setUTCMinutes(5, NaN)\<close> sets the minutes and
  keeps the seconds, where the standard makes the date invalid.
\<close>

lemma exponent_magnitude: "f64_exponent x = f64_magnitude x div 4503599627370496"
proof -
  have "unat x mod (4503599627370496 * 2048) = 4503599627370496 * (unat x div 4503599627370496 mod 2048) + unat x mod 4503599627370496"
    by (rule mod_mult2_eq)
  then show ?thesis by (simp add: f64_exponent_def f64_magnitude_def)
qed

lemma setter_ignores_nan:
  assumes "f64_is_nan x"
  shows "date_set_utc_minutes ch [Inr m, Inr x] = date_set_utc_minutes ch [Inr m]"
proof -
  have "f64_magnitude x \<noteq> 0" "\<not> f64_is_normal x"
    using assms exponent_magnitude [of x] by (auto simp: f64_is_nan_def f64_is_normal_def)
  then show ?thesis by (simp add: date_set_utc_minutes_def setter_arg_def)
qed

end
