(* ===== verification/Bytecode.thy ===== *)
theory Bytecode
  imports Cells "HOL-Library.AList"
begin

text \<open>
  Bytecode (bytecode/opcodes.rs, bytecode.rs, vm/code_block.rs): an instruction is one byte of opcode
  followed by operands of 32 bits, little endian. A code block is the bytes with the tables they
  index. A \<open>GcPointer<CodeBlock>\<close> is the number of the block.
\<close>

type_synonym opcode = u8

section \<open>Opcodes\<close>

definition OP_NOP :: opcode where "OP_NOP = 0"
definition OP_SWAP :: opcode where "OP_SWAP = 1"
definition OP_PUSH_LITERAL :: opcode where "OP_PUSH_LITERAL = 2"
definition OP_PUSH_INT :: opcode where "OP_PUSH_INT = 3"
definition OP_PUSH_TRUE :: opcode where "OP_PUSH_TRUE = 4"
definition OP_PUSH_FALSE :: opcode where "OP_PUSH_FALSE = 5"
definition OP_PUSH_UNDEF :: opcode where "OP_PUSH_UNDEF = 6"
definition OP_PUSH_NULL :: opcode where "OP_PUSH_NULL = 7"
definition OP_PUSH_NAN :: opcode where "OP_PUSH_NAN = 8"
definition OP_GET_FUNCTION :: opcode where "OP_GET_FUNCTION = 9"
definition OP_LOOPHINT :: opcode where "OP_LOOPHINT = 10"
definition OP_CALL :: opcode where "OP_CALL = 11"
definition OP_TAILCALL :: opcode where "OP_TAILCALL = 12"
definition OP_TAILNEW :: opcode where "OP_TAILNEW = 13"
definition OP_NEW :: opcode where "OP_NEW = 14"
definition OP_CALL_BUILTIN :: opcode where "OP_CALL_BUILTIN = 15"
definition OP_NEWARRAY :: opcode where "OP_NEWARRAY = 16"
definition OP_NEWOBJECT :: opcode where "OP_NEWOBJECT = 17"
definition OP_RET :: opcode where "OP_RET = 18"
definition OP_JMP :: opcode where "OP_JMP = 19"
definition OP_JMP_IF_TRUE :: opcode where "OP_JMP_IF_TRUE = 20"
definition OP_JMP_IF_FALSE :: opcode where "OP_JMP_IF_FALSE = 21"
definition OP_ADD :: opcode where "OP_ADD = 22"
definition OP_SUB :: opcode where "OP_SUB = 23"
definition OP_DIV :: opcode where "OP_DIV = 24"
definition OP_MUL :: opcode where "OP_MUL = 25"
definition OP_REM :: opcode where "OP_REM = 26"
definition OP_SHR :: opcode where "OP_SHR = 27"
definition OP_SHL :: opcode where "OP_SHL = 28"
definition OP_USHR :: opcode where "OP_USHR = 29"
definition OP_OR :: opcode where "OP_OR = 30"
definition OP_AND :: opcode where "OP_AND = 31"
definition OP_XOR :: opcode where "OP_XOR = 32"
definition OP_IN :: opcode where "OP_IN = 33"
definition OP_EQ :: opcode where "OP_EQ = 34"
definition OP_STRICTEQ :: opcode where "OP_STRICTEQ = 35"
definition OP_NEQ :: opcode where "OP_NEQ = 36"
definition OP_NSTRICTEQ :: opcode where "OP_NSTRICTEQ = 37"
definition OP_GREATER :: opcode where "OP_GREATER = 38"
definition OP_GREATEREQ :: opcode where "OP_GREATEREQ = 39"
definition OP_LESS :: opcode where "OP_LESS = 40"
definition OP_LESSEQ :: opcode where "OP_LESSEQ = 41"
definition OP_INSTANCEOF :: opcode where "OP_INSTANCEOF = 42"
definition OP_TYPEOF :: opcode where "OP_TYPEOF = 43"
definition OP_NOT :: opcode where "OP_NOT = 44"
definition OP_LOGICAL_NOT :: opcode where "OP_LOGICAL_NOT = 45"
definition OP_POS :: opcode where "OP_POS = 46"
definition OP_NEG :: opcode where "OP_NEG = 47"
definition OP_THROW :: opcode where "OP_THROW = 48"
definition OP_PUSH_CATCH :: opcode where "OP_PUSH_CATCH = 49"
definition OP_POP_CATCH :: opcode where "OP_POP_CATCH = 50"
definition OP_GET_BY_ID :: opcode where "OP_GET_BY_ID = 51"
definition OP_TRY_GET_BY_ID :: opcode where "OP_TRY_GET_BY_ID = 52"
definition OP_GET_BY_VAL :: opcode where "OP_GET_BY_VAL = 53"
definition OP_GET_BY_VAL_PUSH_OBJ :: opcode where "OP_GET_BY_VAL_PUSH_OBJ = 54"
definition OP_PUT_BY_ID :: opcode where "OP_PUT_BY_ID = 55"
definition OP_PUT_BY_VAL :: opcode where "OP_PUT_BY_VAL = 56"
definition OP_PUSH_ENV :: opcode where "OP_PUSH_ENV = 57"
definition OP_POP_ENV :: opcode where "OP_POP_ENV = 58"
definition OP_GET_ENV :: opcode where "OP_GET_ENV = 59"
definition OP_SET_ENV :: opcode where "OP_SET_ENV = 60"
definition OP_GET_LOCAL :: opcode where "OP_GET_LOCAL = 61"
definition OP_SET_LOCAL :: opcode where "OP_SET_LOCAL = 62"
definition OP_SET_GLOBAL :: opcode where "OP_SET_GLOBAL = 63"
definition OP_GET_GLOBAL :: opcode where "OP_GET_GLOBAL = 64"
definition OP_DECL_LET :: opcode where "OP_DECL_LET = 65"
definition OP_DECL_CONST :: opcode where "OP_DECL_CONST = 66"
definition OP_PUSH_THIS :: opcode where "OP_PUSH_THIS = 67"
definition OP_DUP :: opcode where "OP_DUP = 68"
definition OP_POP :: opcode where "OP_POP = 69"
definition OP_SPREAD :: opcode where "OP_SPREAD = 70"
definition OP_DELETE_VAR :: opcode where "OP_DELETE_VAR = 71"
definition OP_DELETE_BY_ID :: opcode where "OP_DELETE_BY_ID = 72"
definition OP_DELETE_BY_VAL :: opcode where "OP_DELETE_BY_VAL = 73"
definition OP_GLOBALTHIS :: opcode where "OP_GLOBALTHIS = 74"
definition OP_FORIN_SETUP :: opcode where "OP_FORIN_SETUP = 75"
definition OP_FORIN_ENUMERATE :: opcode where "OP_FORIN_ENUMERATE = 76"
definition OP_FORIN_LEAVE :: opcode where "OP_FORIN_LEAVE = 77"
definition OP_FOROF_SETUP :: opcode where "OP_FOROF_SETUP = 78"
definition OP_FOROF_ENUMERATE :: opcode where "OP_FOROF_ENUMERATE = 79"
definition OP_FOROF_LEAVE :: opcode where "OP_FOROF_LEAVE = 80"
definition OP_GE0GL :: opcode where "OP_GE0GL = 81"
definition OP_GE0SL :: opcode where "OP_GE0SL = 82"
definition OP_GE0DL :: opcode where "OP_GE0DL = 83"
definition OP_GE0DC :: opcode where "OP_GE0DC = 84"
definition OP_TO_OBJECT :: opcode where "OP_TO_OBJECT = 85"
definition OP_TO_LENGTH :: opcode where "OP_TO_LENGTH = 86"
definition OP_TO_INTEGER_OR_INFINITY :: opcode where "OP_TO_INTEGER_OR_INFINITY = 87"
definition OP_IS_CALLABLE :: opcode where "OP_IS_CALLABLE = 88"
definition OP_IS_CTOR :: opcode where "OP_IS_CTOR = 89"
definition OP_INITIAL_YIELD :: opcode where "OP_INITIAL_YIELD = 90"
definition OP_YIELD :: opcode where "OP_YIELD = 91"
definition OP_YIELD_STAR :: opcode where "OP_YIELD_STAR = 92"
definition OP_AWAIT :: opcode where "OP_AWAIT = 93"
definition OP_NEWGENERATOR :: opcode where "OP_NEWGENERATOR = 94"
definition OP_IS_OBJECT :: opcode where "OP_IS_OBJECT = 95"

lemmas opcode_defs =
  OP_NOP_def OP_SWAP_def OP_PUSH_LITERAL_def OP_PUSH_INT_def OP_PUSH_TRUE_def OP_PUSH_FALSE_def
  OP_PUSH_UNDEF_def OP_PUSH_NULL_def OP_PUSH_NAN_def OP_GET_FUNCTION_def OP_LOOPHINT_def OP_CALL_def
  OP_TAILCALL_def OP_TAILNEW_def OP_NEW_def OP_CALL_BUILTIN_def OP_NEWARRAY_def OP_NEWOBJECT_def OP_RET_def
  OP_JMP_def OP_JMP_IF_TRUE_def OP_JMP_IF_FALSE_def OP_ADD_def OP_SUB_def OP_DIV_def OP_MUL_def OP_REM_def
  OP_SHR_def OP_SHL_def OP_USHR_def OP_OR_def OP_AND_def OP_XOR_def OP_IN_def OP_EQ_def OP_STRICTEQ_def
  OP_NEQ_def OP_NSTRICTEQ_def OP_GREATER_def OP_GREATEREQ_def OP_LESS_def OP_LESSEQ_def OP_INSTANCEOF_def
  OP_TYPEOF_def OP_NOT_def OP_LOGICAL_NOT_def OP_POS_def OP_NEG_def OP_THROW_def OP_PUSH_CATCH_def
  OP_POP_CATCH_def OP_GET_BY_ID_def OP_TRY_GET_BY_ID_def OP_GET_BY_VAL_def OP_GET_BY_VAL_PUSH_OBJ_def
  OP_PUT_BY_ID_def OP_PUT_BY_VAL_def OP_PUSH_ENV_def OP_POP_ENV_def OP_GET_ENV_def OP_SET_ENV_def
  OP_GET_LOCAL_def OP_SET_LOCAL_def OP_SET_GLOBAL_def OP_GET_GLOBAL_def OP_DECL_LET_def OP_DECL_CONST_def
  OP_PUSH_THIS_def OP_DUP_def OP_POP_def OP_SPREAD_def OP_DELETE_VAR_def OP_DELETE_BY_ID_def
  OP_DELETE_BY_VAL_def OP_GLOBALTHIS_def OP_FORIN_SETUP_def OP_FORIN_ENUMERATE_def OP_FORIN_LEAVE_def
  OP_FOROF_SETUP_def OP_FOROF_ENUMERATE_def OP_FOROF_LEAVE_def OP_GE0GL_def OP_GE0SL_def OP_GE0DL_def
  OP_GE0DC_def OP_TO_OBJECT_def OP_TO_LENGTH_def OP_TO_INTEGER_OR_INFINITY_def OP_IS_CALLABLE_def OP_IS_CTOR_def
  OP_INITIAL_YIELD_def OP_YIELD_def OP_YIELD_STAR_def OP_AWAIT_def OP_NEWGENERATOR_def OP_IS_OBJECT_def

section \<open>Bytes\<close>

definition to_le_bytes :: "u32 \<Rightarrow> u8 list" where
  "to_le_bytes x = [ucast x, ucast (drop_bit 8 x), ucast (drop_bit 16 x), ucast (drop_bit 24 x)]"
definition from_le_bytes :: "u8 list \<Rightarrow> u32" where
  "from_le_bytes bs =
     ucast (bs ! 0) OR push_bit 8 (ucast (bs ! 1)) OR push_bit 16 (ucast (bs ! 2)) OR push_bit 24 (ucast (bs ! 3))"

text \<open>\<open>ip.cast::<u32>().read()\<close>; a read past the end of the code is \<^term>\<open>None\<close>.\<close>

definition read_u32 :: "u8 list \<Rightarrow> nat \<Rightarrow> u32 panics" where
  "read_u32 code ip = (if ip + 4 \<le> length code then Some (from_le_bytes (take 4 (drop ip code))) else None)"
definition read_u8 :: "u8 list \<Rightarrow> nat \<Rightarrow> u8 panics" where
  "read_u8 code ip = (if ip < length code then Some (code ! ip) else None)"

text \<open>\<open>ip.offset(n)\<close>: a position before the code is \<^term>\<open>None\<close>.\<close>

definition ip_offset :: "nat \<Rightarrow> u32 \<Rightarrow> nat panics" where
  "ip_offset ip off = (if 0 \<le> int ip + sint off then Some (nat (int ip + sint off)) else None)"

lemma length_le_bytes [simp]: "length (to_le_bytes x) = 4"
  by (simp add: to_le_bytes_def)

lemma le_bytes_bit:
  assumes "k < 8" "j < 4"
  shows "bit (from_le_bytes (to_le_bytes x)) (8 * j + k) = bit x (8 * j + k)"
proof -
  have "j = 0 \<or> j = 1 \<or> j = 2 \<or> j = 3" using assms(2) by linarith
  then show ?thesis
    using assms(1) by (elim disjE) (auto simp: from_le_bytes_def to_le_bytes_def bit_simps)
qed

lemma le_bytes_roundtrip [simp]: "from_le_bytes (to_le_bytes x) = x"
proof (rule bit_eqI)
  fix n assume "possible_bit TYPE(32 word) n"
  then show "bit (from_le_bytes (to_le_bytes x)) n = bit x n"
    using le_bytes_bit [of "n mod 8" "n div 8" x] by simp
qed

section \<open>Code blocks\<close>

datatype get_by_id_mode = Default | ProtoLoad u64 | ArrayLength
datatype type_feedback =
    StructureCache u64
  | PropertyCache u64 nat get_by_id_mode
  | PutByIdFeedBack "u64 option" "u64 option" nat "u64 option"
  | NoFeedBack

record code_block =
  cb_name :: symbol
  cb_var_count :: nat
  cb_param_count :: nat
  cb_rest_at :: "nat option"
  cb_names :: "symbol list"
  cb_code :: "u8 list"
  cb_top_level :: bool
  cb_codes :: "nat list"
  cb_literals :: "js_value list"
  cb_strict :: bool
  cb_feedback :: "type_feedback list"
  cb_use_arguments :: bool
  cb_args_at :: nat
  cb_is_generator :: bool
  cb_is_async :: bool

definition code_block_new :: "symbol \<Rightarrow> bool \<Rightarrow> code_block" where
  "code_block_new name strict =
     \<lparr>cb_name = name, cb_var_count = 0, cb_param_count = 0, cb_rest_at = None, cb_names = [], cb_code = [],
      cb_top_level = False, cb_codes = [], cb_literals = [], cb_strict = strict, cb_feedback = [],
      cb_use_arguments = False, cb_args_at = 0, cb_is_generator = False, cb_is_async = False\<rparr>"

end
