(* ===== verification/Js_Syntax.thy ===== *)
theory Js_Syntax
  imports F64
begin

text \<open>
  The syntax trees the compiler walks over. They are those of the crate \<open>swc_ecmascript\<close>, cut to what
  \<open>bytecompiler.rs\<close> distinguishes: a node it answers with \<open>NotYetImpl\<close> whatever it holds is one of the
  constructors \<open>Other..\<close>. The type of functions is a parameter of expressions and of statements; \<open>func\<close> ties the knot.
\<close>

section \<open>Expressions\<close>

datatype lit = LitBool bool | LitNull | LitNum f64 | LitStr string | LitRegex string string | OtherLit
datatype unary_op = UMinus | UPlus | UBang | UTilde | UTypeOf | UVoid | UDelete
datatype update_op = PlusPlus | MinusMinus
datatype assign_op =
    Assign | AddAssign | SubAssign | MulAssign | DivAssign | ModAssign | BitAndAssign | BitOrAssign | BitXorAssign | OtherAssign
datatype binary_op =
    EqEq | NotEq | EqEqEq | NotEqEq | Lt | LtEq | Gt | GtEq | LShift | RShift | ZeroFillRShift | Add | Sub | Mul | Div | Mod
  | BitOr | BitXor | BitAnd | LogicalOr | LogicalAnd | In | InstanceOf | OtherBinary

text \<open>The key of a property; a pattern; an argument, with its flag for the spread \<open>...\<close>.\<close>

datatype prop_name = NameIdent string | NameStr string | NameNum f64 | OtherName
datatype 'e property = Shorthand string | KeyValue prop_name 'e | OtherProp
datatype 'e pat = PatIdent string | PatExpr 'e | OtherPat
datatype 'e arg = Arg (arg_spread: bool) (arg_expr: 'e)

text \<open>
  \<open>Member obj prop computed\<close>; a missing object or callee is \<open>super\<close>. \<open>Update op prefix e\<close>.
  \<open>Yield delegate e\<close>. A hole in an array is \<^term>\<open>None\<close>.
\<close>

datatype 'f expr =
    Ident string
  | Lit lit
  | This
  | Member "'f expr option" "'f expr" bool
  | Object "'f expr property list"
  | Call "'f expr option" "'f expr arg list"
  | Unary unary_op "'f expr"
  | Update update_op bool "'f expr"
  | New "'f expr" "'f expr arg list option"
  | AssignExpr assign_op "'f expr pat" "'f expr"
  | Bin binary_op "'f expr" "'f expr"
  | Arrow 'f
  | Seq "'f expr list"
  | FnExpr "string option" 'f
  | Array "'f expr arg option list"
  | Cond "'f expr" "'f expr" "'f expr"
  | Paren "'f expr"
  | Yield bool "'f expr option"
  | OtherExpr

section \<open>Statements\<close>

datatype var_kind = KVar | KLet | KConst
datatype 'e declarator = Declarator "'e pat" "'e option"
datatype 'e var_decl = VarDecl var_kind "'e declarator list"
datatype 'e for_head = HeadVar "'e var_decl" | HeadPat "'e pat"

text \<open>The head of \<open>for (e; ..)\<close> is \<open>HeadPat (PatExpr e)\<close>.\<close>

datatype ('e, 'f) stmt =
    Switch 'e "('e option \<times> ('e, 'f) stmt list) list"
  | ExprStmt 'e
  | Block "('e, 'f) stmt list"
  | Return "'e option"
  | Break
  | Continue
  | ForIn "'e for_head" 'e "('e, 'f) stmt"
  | ForOf "'e for_head" 'e "('e, 'f) stmt"
  | For "'e for_head option" "'e option" "'e option" "('e, 'f) stmt"
  | While 'e "('e, 'f) stmt"
  | If 'e "('e, 'f) stmt" "('e, 'f) stmt option"
  | DeclVar "'e var_decl"
  | DeclFn string 'f
  | Empty
  | Throw 'e
  | Try "('e, 'f) stmt list" "('e pat option \<times> ('e, 'f) stmt list) option" "('e, 'f) stmt list option"
  | OtherStmt

section \<open>Functions\<close>

datatype param = ParamIdent string | ParamRest string | OtherParam

text \<open>The body of an arrow function may be an expression; it is given as the statement that returns it.\<close>

datatype 's body = BlockBody "'s list" | NoBody | ExprBody 's
datatype func = Func "param list" "(func expr, func) stmt body" (fn_async: bool) (fn_generator: bool)

end
