(* ===== verification/Byte_Emit.thy ===== *)
theory Byte_Emit
  imports Bytecode Js_Syntax
begin

text \<open>
  The state of the bytecode compiler (bytecompiler.rs) and the operations that do not walk over
  syntax: emission of instructions, jumps that are patched later, the tables of a code block, scopes
  and accesses. The scopes are the list of the chain of parents, innermost first: a nested compiler
  only adds to scopes of its own. Nested code blocks are numbered in the pool; the block that is being
  compiled is held by the compiler.
\<close>

datatype variable_kind = VLet | VConst | VVar

record variable =
  va_index :: nat
  va_kind :: variable_kind
  va_dont_free :: bool

record scope =
  sc_variables :: "(symbol \<times> variable) list"
  sc_depth :: nat

text \<open>The closures of \<open>breaks\<close> and \<open>continues\<close> patch a jump: here, the position of the jump.\<close>

record loop_control =
  lci_breaks :: "nat list"
  lci_continues :: "nat list"

datatype js_val = ValFloat u64 | ValStr string

record compiler =
  bc_block :: code_block
  bc_pool :: "code_block list"
  bc_scope :: "scope list"
  bc_val_map :: "(js_val \<times> nat) list"
  bc_name_map :: "(symbol \<times> nat) list"
  bc_lci :: "loop_control list"
  bc_fmap :: "(symbol \<times> nat) list"
  bc_top_level :: bool
  bc_freelist :: "nat list"

text \<open>
  What the compiler takes from elsewhere: the symbol table, the strings and regular expressions it
  allocates for literals, and the order in which a \<open>HashMap\<close> yields its entries.
\<close>

record compiler_host =
  ho_intern :: "string \<Rightarrow> symbol"
  ho_string :: "string \<Rightarrow> js_value"
  ho_regexp :: "string \<Rightarrow> string \<Rightarrow> js_value option"
  ho_order :: "symbol list \<Rightarrow> symbol list"

datatype compile_error = NotYetImpl

type_synonym 'a comp = "compiler \<Rightarrow> (compile_error + 'a \<times> compiler) panics"

definition return_c :: "'a \<Rightarrow> 'a comp" where "return_c x c = Some (Inr (x, c))"
definition nyi :: "'a comp" where "nyi c = Some (Inl NotYetImpl)"
definition panic_c :: "'a comp" where "panic_c c = None"
definition bind_c :: "'a comp \<Rightarrow> ('a \<Rightarrow> 'b comp) \<Rightarrow> 'b comp" where
  "bind_c m f c = (case m c of None \<Rightarrow> None | Some (Inl e) \<Rightarrow> Some (Inl e) | Some (Inr (x, c1)) \<Rightarrow> f x c1)"
definition get_c :: "(compiler \<Rightarrow> 'a) \<Rightarrow> 'a comp" where "get_c f c = Some (Inr (f c, c))"
definition upd_c :: "(compiler \<Rightarrow> compiler) \<Rightarrow> unit comp" where "upd_c f c = Some (Inr ((), f c))"

text \<open>Steps in order.\<close>

primrec steps :: "unit comp list \<Rightarrow> unit comp" where
  "steps [] = return_c ()"
| "steps (a # as) = bind_c a (\<lambda>_. steps as)"

abbreviation upd_block :: "(code_block \<Rightarrow> code_block) \<Rightarrow> compiler \<Rightarrow> compiler" where
  "upd_block f c \<equiv> c\<lparr>bc_block := f (bc_block c)\<rparr>"

abbreviation (input) skip_if :: "bool \<Rightarrow> unit comp \<Rightarrow> unit comp" where
  "skip_if b m \<equiv> (if b then return_c () else m)"

section \<open>Emission\<close>

definition emit :: "opcode \<Rightarrow> u32 list \<Rightarrow> bool \<Rightarrow> unit comp" where
  "emit op operands add_feedback = upd_c (upd_block (\<lambda>b.
     (let code = cb_code b @ [op] @ concat (map to_le_bytes operands) in
      if add_feedback
      then b\<lparr>cb_code := code @ to_le_bytes (of_nat (length (cb_feedback b))), cb_feedback := cb_feedback b @ [NoFeedBack]\<rparr>
      else b\<lparr>cb_code := code\<rparr>)))"

definition code_len :: "compiler \<Rightarrow> nat" where "code_len c = length (cb_code (bc_block c))"

text \<open>The bytes of an instruction with one operand, written over the five bytes at \<open>p\<close>.\<close>

definition write_instr :: "nat \<Rightarrow> opcode \<Rightarrow> u32 \<Rightarrow> u8 list \<Rightarrow> u8 list" where
  "write_instr p op operand code = take p code @ (op # to_le_bytes operand) @ drop (p + 5) code"

definition patch :: "opcode \<Rightarrow> nat \<Rightarrow> unit comp" where
  "patch op p = upd_c (upd_block (\<lambda>b.
     b\<lparr>cb_code := write_instr p op (of_nat (length (cb_code b) - (p + 5))) (cb_code b)\<rparr>))"

text \<open>
  The jumps answer the closure that patches them: \<open>try_\<close>, \<open>cjmp\<close>, \<open>jmp\<close> and \<open>jmp_custom\<close> give the
  continuation the action of that closure.
\<close>

definition jmp_custom :: "opcode \<Rightarrow> (nat \<Rightarrow> 'a comp) \<Rightarrow> 'a comp" where
  "jmp_custom op k = bind_c (get_c code_len) (\<lambda>p. bind_c (emit op [0] False) (\<lambda>_. k p))"
definition jmp :: "(nat \<Rightarrow> 'a comp) \<Rightarrow> 'a comp" where "jmp = jmp_custom OP_JMP"
definition patch_jmp :: "nat \<Rightarrow> unit comp" where "patch_jmp = patch OP_JMP"
definition cjmp :: "(nat \<Rightarrow> 'a comp) \<Rightarrow> 'a comp" where "cjmp = jmp_custom OP_JMP"
definition patch_cjmp :: "bool \<Rightarrow> nat \<Rightarrow> unit comp" where
  "patch_cjmp cond = patch (if cond then OP_JMP_IF_TRUE else OP_JMP_IF_FALSE)"
definition try_jmp :: "(nat \<Rightarrow> 'a comp) \<Rightarrow> 'a comp" where "try_jmp = jmp_custom OP_PUSH_CATCH"
definition patch_try :: "nat \<Rightarrow> unit comp" where "patch_try = patch OP_PUSH_CATCH"

definition goto :: "nat \<Rightarrow> unit comp" where
  "goto target = bind_c (get_c code_len) (\<lambda>n. emit OP_JMP [word_of_int (int target - (int n + 5))] False)"

section \<open>Tables\<close>

definition push_literal :: "js_value \<Rightarrow> nat comp" where
  "push_literal v = bind_c (get_c (\<lambda>c. length (cb_literals (bc_block c)))) (\<lambda>ix.
     bind_c (upd_c (upd_block (\<lambda>b. b\<lparr>cb_literals := cb_literals b @ [v]\<rparr>))) (\<lambda>_. return_c ix))"
definition get_val :: "compiler_host \<Rightarrow> js_val \<Rightarrow> nat comp" where
  "get_val ho v = bind_c (get_c bc_val_map) (\<lambda>m.
     (case map_of m v of
        Some ix \<Rightarrow> return_c ix
      | None \<Rightarrow> bind_c (push_literal (case v of ValFloat x \<Rightarrow> from_f64 x | ValStr s \<Rightarrow> ho_string ho s)) (\<lambda>ix.
          bind_c (upd_c (\<lambda>c. c\<lparr>bc_val_map := AList.update v ix (bc_val_map c)\<rparr>)) (\<lambda>_. return_c ix))))"
definition get_val2 :: "js_value \<Rightarrow> nat comp" where "get_val2 = push_literal"
definition get_sym :: "symbol \<Rightarrow> nat comp" where
  "get_sym name = bind_c (get_c bc_name_map) (\<lambda>m.
     (case map_of m name of
        Some ix \<Rightarrow> return_c ix
      | None \<Rightarrow> bind_c (get_c (\<lambda>c. length (cb_names (bc_block c)))) (\<lambda>ix.
          bind_c (upd_c (upd_block (\<lambda>b. b\<lparr>cb_names := cb_names b @ [name]\<rparr>))) (\<lambda>_.
          bind_c (upd_c (\<lambda>c. c\<lparr>bc_name_map := AList.update name ix (bc_name_map c)\<rparr>)) (\<lambda>_. return_c ix)))))"

section \<open>Scopes\<close>

definition add_var_of :: "variable_kind \<Rightarrow> symbol \<Rightarrow> nat \<Rightarrow> unit comp" where
  "add_var_of kind name ix = upd_c (\<lambda>c.
     (case bc_scope c of
        [] \<Rightarrow> c
      | s # ss \<Rightarrow> c\<lparr>bc_scope := s\<lparr>sc_variables :=
          AList.update name \<lparr>va_index = ix mod 2 ^ 16, va_kind = kind, va_dont_free = (kind \<noteq> VVar)\<rparr> (sc_variables s)\<rparr> # ss\<rparr>))"
definition add_var :: "symbol \<Rightarrow> nat \<Rightarrow> unit comp" where "add_var = add_var_of VVar"
definition add_const_var :: "symbol \<Rightarrow> nat \<Rightarrow> unit comp" where "add_const_var = add_var_of VConst"
definition add_let_var :: "symbol \<Rightarrow> nat \<Rightarrow> unit comp" where "add_let_var = add_var_of VLet"

fun lookup_scope :: "symbol \<Rightarrow> scope list \<Rightarrow> (nat \<times> scope) option" where
  "lookup_scope v [] = None"
| "lookup_scope v (s # ss) =
     (case map_of (sc_variables s) v of Some x \<Rightarrow> Some (va_index x, s) | None \<Rightarrow> lookup_scope v ss)"

text \<open>\<open>ArrayPat\<close> is never built.\<close>

datatype access = AVariable nat nat | AGlobal symbol | AById symbol | AByVal | AThis

definition current_depth :: "scope list \<Rightarrow> nat" where
  "current_depth ss = (case ss of [] \<Rightarrow> 0 | s # _ \<Rightarrow> sc_depth s)"
definition access_of :: "symbol \<Rightarrow> scope list \<Rightarrow> access" where
  "access_of v ss =
     (case lookup_scope v ss of
        Some (ix, s) \<Rightarrow> AVariable ix (current_depth ss - sc_depth s)
      | None \<Rightarrow> AGlobal v)"
definition access_var :: "symbol \<Rightarrow> access comp" where
  "access_var v = get_c (\<lambda>c. access_of v (bc_scope c))"

definition emit_get_local :: "nat \<Rightarrow> nat \<Rightarrow> unit comp" where
  "emit_get_local depth index =
     (if depth = 0 then emit OP_GE0GL [of_nat index] False
      else steps [emit OP_GET_ENV [of_nat depth] False, emit OP_GET_LOCAL [of_nat index] False])"
definition emit_set_local :: "nat \<Rightarrow> nat \<Rightarrow> unit comp" where
  "emit_set_local depth index =
     (if depth = 0 then emit OP_GE0SL [of_nat index] False
      else steps [emit OP_GET_ENV [of_nat depth] False, emit OP_SET_LOCAL [of_nat index] False])"

definition emit_sym :: "opcode \<Rightarrow> symbol \<Rightarrow> bool \<Rightarrow> unit comp" where
  "emit_sym op name fdbk = bind_c (get_sym name) (\<lambda>ix. emit op [of_nat ix] fdbk)"

definition access_delete :: "access \<Rightarrow> unit comp" where
  "access_delete acc =
     (case acc of
        AGlobal x \<Rightarrow> bind_c (get_sym x) (\<lambda>id. steps [emit OP_GLOBALTHIS [] False, emit OP_DELETE_BY_ID [of_nat id] False])
      | AByVal \<Rightarrow> emit OP_DELETE_BY_VAL [] False
      | AById x \<Rightarrow> emit_sym OP_DELETE_BY_ID x False
      | AVariable _ _ \<Rightarrow> emit OP_PUSH_TRUE [] False
      | AThis \<Rightarrow> emit OP_PUSH_THIS [] False)"
definition access_set :: "access \<Rightarrow> unit comp" where
  "access_set acc =
     (case acc of
        AVariable index depth \<Rightarrow> emit_set_local depth index
      | AGlobal x \<Rightarrow> bind_c (get_sym x) (\<lambda>name. steps [emit OP_GLOBALTHIS [] False, emit OP_PUT_BY_ID [of_nat name] True])
      | AById name \<Rightarrow> emit_sym OP_PUT_BY_ID name True
      | AByVal \<Rightarrow> emit OP_PUT_BY_VAL [0] False
      | AThis \<Rightarrow> nyi)"
definition access_get :: "access \<Rightarrow> unit comp" where
  "access_get acc =
     (case acc of
        AVariable index depth \<Rightarrow> emit_get_local depth index
      | AGlobal x \<Rightarrow> bind_c (get_sym x) (\<lambda>name. steps [emit OP_GLOBALTHIS [] False, emit OP_TRY_GET_BY_ID [of_nat name] True])
      | AById name \<Rightarrow> emit_sym OP_GET_BY_ID name True
      | AByVal \<Rightarrow> emit OP_GET_BY_VAL [0] False
      | AThis \<Rightarrow> nyi)"

text \<open>A new variable index: from the free list, or a new slot.\<close>

definition fresh_index :: "nat comp" where
  "fresh_index = bind_c (get_c bc_freelist) (\<lambda>fl.
     (case fl of
        ix # rest \<Rightarrow> bind_c (upd_c (\<lambda>c. c\<lparr>bc_freelist := rest\<rparr>)) (\<lambda>_. return_c (ix mod 2 ^ 16))
      | [] \<Rightarrow> bind_c (upd_c (upd_block (\<lambda>b. b\<lparr>cb_var_count := cb_var_count b + 1\<rparr>))) (\<lambda>_.
           get_c (\<lambda>c. (cb_var_count (bc_block c) - 1) mod 2 ^ 16))))"

definition decl_const :: "symbol \<Rightarrow> unit comp" where
  "decl_const name = bind_c (get_c (\<lambda>c. lookup_scope name (bc_scope c))) (\<lambda>r.
     (case r of None \<Rightarrow> panic_c | Some (ix, _) \<Rightarrow> emit OP_DECL_CONST [of_nat ix] False))"
definition create_const :: "symbol \<Rightarrow> unit comp" where
  "create_const name = bind_c fresh_index (\<lambda>ix. steps [add_const_var name ix, emit OP_DECL_CONST [of_nat ix] False])"
definition decl_let :: "symbol \<Rightarrow> unit comp" where
  "decl_let name = bind_c fresh_index (\<lambda>ix. steps [add_let_var name ix, emit OP_DECL_LET [of_nat ix] False])"

definition push_scope :: "unit comp" where
  "push_scope = upd_c (\<lambda>c. c\<lparr>bc_scope := \<lparr>sc_variables = [], sc_depth = current_depth (bc_scope c)\<rparr> # bc_scope c\<rparr>)"

text \<open>The free list is a stack with its top in front; leaving a scope pushes its \<open>var\<close> slots in the order of the map.\<close>

definition freed_indices :: "compiler_host \<Rightarrow> scope \<Rightarrow> nat list" where
  "freed_indices ho s =
     concat (map (\<lambda>n. case map_of (sc_variables s) n of
         Some x \<Rightarrow> if va_dont_free x then [] else [va_index x]
       | None \<Rightarrow> []) (ho_order ho (map fst (sc_variables s))))"
definition pop_scope :: "compiler_host \<Rightarrow> unit comp" where
  "pop_scope ho c =
     (case bc_scope c of
        s # s1 # ss \<Rightarrow> Some (Inr ((), c\<lparr>bc_scope := s1 # ss, bc_freelist := rev (freed_indices ho s) @ bc_freelist c\<rparr>))
      | _ \<Rightarrow> None)"

definition push_lci :: "unit comp" where
  "push_lci = upd_c (\<lambda>c. c\<lparr>bc_lci := \<lparr>lci_breaks = [], lci_continues = []\<rparr> # bc_lci c\<rparr>)"
definition pop_lci :: "unit comp" where
  "pop_lci c =
     (case bc_lci c of
        [] \<Rightarrow> None
      | l # ls \<Rightarrow> steps (map patch_jmp (rev (lci_breaks l))) (c\<lparr>bc_lci := ls\<rparr>))"

text \<open>The loop that patches and empties the \<open>continues\<close> of the innermost entry.\<close>

definition patch_continues :: "unit comp" where
  "patch_continues c =
     (case bc_lci c of
        [] \<Rightarrow> None
      | l # ls \<Rightarrow> steps (map patch_jmp (rev (lci_continues l))) (c\<lparr>bc_lci := l\<lparr>lci_continues := []\<rparr> # ls\<rparr>))"
definition add_break :: "nat \<Rightarrow> unit comp" where
  "add_break p c =
     (case bc_lci c of [] \<Rightarrow> None | l # ls \<Rightarrow> Some (Inr ((), c\<lparr>bc_lci := l\<lparr>lci_breaks := lci_breaks l @ [p]\<rparr> # ls\<rparr>)))"
definition add_continue :: "nat \<Rightarrow> unit comp" where
  "add_continue p c =
     (case bc_lci c of [] \<Rightarrow> None | l # ls \<Rightarrow> Some (Inr ((), c\<lparr>bc_lci := l\<lparr>lci_continues := lci_continues l @ [p]\<rparr> # ls\<rparr>)))"

end
