(* ===== verification/Expr_Compiler.thy ===== *)
theory Expr_Compiler
  imports Byte_Emit
begin

text \<open>
  The compilation of expressions (\<open>expr\<close>, \<open>compile_access\<close>, \<open>compile_access_pat\<close> and \<open>fn_expr\<close> of
  bytecompiler.rs), outside of the compilation of builtins and without code generation plugins. A
  function is given by what compiles it, in one of the ways a function is used, and by whether it uses
  \<open>arguments\<close>: \<open>Named name True\<close> is a function expression, \<open>Named name False\<close> a declaration.
\<close>

datatype fn_mode = Named symbol bool | ArrowFn
datatype fn_action = FnAction (fa_compile: "fn_mode \<Rightarrow> unit comp") (fa_uses_arguments: bool)

definition ANONYMOUS :: string where "ANONYMOUS = ''<anonymous>''"

definition pop_unless :: "bool \<Rightarrow> unit comp" where
  "pop_unless used = (if used then return_c () else emit OP_POP [] False)"

text \<open>\<open>num.value as i32 as f64 == num.value\<close>\<close>

definition is_i32_literal :: "f64 \<Rightarrow> bool" where
  "is_i32_literal x = f64_eq (f64_of_int (f64_as_i32 x)) x"
definition push_number :: "compiler_host \<Rightarrow> f64 \<Rightarrow> unit comp" where
  "push_number ho x =
     (if is_i32_literal x then emit OP_PUSH_INT [word_of_int (f64_as_i32 x)] False
      else bind_c (get_val ho (ValFloat x)) (\<lambda>ix. emit OP_PUSH_LITERAL [of_nat ix] False))"
definition push_string :: "compiler_host \<Rightarrow> string \<Rightarrow> unit comp" where
  "push_string ho s = bind_c (get_val ho (ValStr s)) (\<lambda>ix. emit OP_PUSH_LITERAL [of_nat ix] False)"

definition literal_c :: "compiler_host \<Rightarrow> lit \<Rightarrow> unit comp" where
  "literal_c ho l =
     (case l of
        LitBool b \<Rightarrow> emit (if b then OP_PUSH_TRUE else OP_PUSH_FALSE) [] False
      | LitNull \<Rightarrow> emit OP_PUSH_NULL [] False
      | LitNum x \<Rightarrow> push_number ho x
      | LitStr s \<Rightarrow> push_string ho s
      | LitRegex exp flags \<Rightarrow>
          (case ho_regexp ho exp flags of
             None \<Rightarrow> nyi
           | Some v \<Rightarrow> bind_c (get_val2 v) (\<lambda>ix. emit OP_PUSH_LITERAL [of_nat ix] False))
      | OtherLit \<Rightarrow> nyi)"

definition unary_op_c :: "unary_op \<Rightarrow> unit comp" where
  "unary_op_c op =
     (case op of
        UMinus \<Rightarrow> emit OP_NEG [] False
      | UPlus \<Rightarrow> emit OP_POS [] False
      | UTilde \<Rightarrow> emit OP_NOT [] False
      | UBang \<Rightarrow> emit OP_LOGICAL_NOT [] False
      | UTypeOf \<Rightarrow> emit OP_TYPEOF [] False
      | UVoid \<Rightarrow> steps [emit OP_POP [] False, emit OP_PUSH_UNDEF [] False]
      | UDelete \<Rightarrow> nyi)"

definition binary_op_c :: "binary_op \<Rightarrow> unit comp" where
  "binary_op_c op =
     (case op of
        Add \<Rightarrow> emit OP_ADD [0] False | Sub \<Rightarrow> emit OP_SUB [0] False | Mul \<Rightarrow> emit OP_MUL [0] False
      | Div \<Rightarrow> emit OP_DIV [0] False | Mod \<Rightarrow> emit OP_REM [0] False
      | BitAnd \<Rightarrow> emit OP_AND [] False | BitOr \<Rightarrow> emit OP_OR [] False | BitXor \<Rightarrow> emit OP_XOR [] False
      | LShift \<Rightarrow> emit OP_SHL [] False | RShift \<Rightarrow> emit OP_SHR [] False | ZeroFillRShift \<Rightarrow> emit OP_USHR [] False
      | EqEq \<Rightarrow> emit OP_EQ [] False | EqEqEq \<Rightarrow> emit OP_STRICTEQ [] False
      | NotEq \<Rightarrow> emit OP_NEQ [] False | NotEqEq \<Rightarrow> emit OP_NSTRICTEQ [] False
      | Gt \<Rightarrow> emit OP_GREATER [] False | GtEq \<Rightarrow> emit OP_GREATEREQ [] False
      | Lt \<Rightarrow> emit OP_LESS [] False | LtEq \<Rightarrow> emit OP_LESSEQ [] False
      | In \<Rightarrow> emit OP_IN [] False | InstanceOf \<Rightarrow> emit OP_INSTANCEOF [] False
      | _ \<Rightarrow> nyi)"

definition assign_op_c :: "assign_op \<Rightarrow> unit comp" where
  "assign_op_c op =
     (case op of
        AddAssign \<Rightarrow> emit OP_ADD [0] False | SubAssign \<Rightarrow> emit OP_SUB [0] False | MulAssign \<Rightarrow> emit OP_MUL [0] False
      | DivAssign \<Rightarrow> emit OP_DIV [0] False | ModAssign \<Rightarrow> emit OP_REM [0] False
      | BitAndAssign \<Rightarrow> emit OP_AND [] False | BitOrAssign \<Rightarrow> emit OP_OR [] False | BitXorAssign \<Rightarrow> emit OP_XOR [] False
      | _ \<Rightarrow> nyi)"

definition update_op_c :: "update_op \<Rightarrow> unit comp" where
  "update_op_c op = emit (case op of PlusPlus \<Rightarrow> OP_ADD | MinusMinus \<Rightarrow> OP_SUB) [0] False"

definition member_name :: "'f expr \<Rightarrow> string option" where
  "member_name e = (case e of Ident n \<Rightarrow> Some n | _ \<Rightarrow> None)"

text \<open>The action of \<open>fn_expr\<close>: the function, and a store to the variable of its name.\<close>

definition fn_expr_c :: "compiler_host \<Rightarrow> string option \<Rightarrow> (symbol \<Rightarrow> unit comp) \<Rightarrow> bool \<Rightarrow> unit comp" where
  "fn_expr_c ho ident f used =
     (let name = (case ident of Some i \<Rightarrow> ho_intern ho i | None \<Rightarrow> ho_intern ho ANONYMOUS) in
      steps [push_scope, f name,
        if name \<noteq> ho_intern ho ANONYMOUS
        then steps [emit OP_DUP [] False, bind_c (access_var name) access_set] else return_c (),
        pop_scope ho, pop_unless used])"

text \<open>Whether any argument is a spread; the number of arguments.\<close>

definition has_spread :: "'e arg list \<Rightarrow> bool" where "has_spread args = list_ex arg_spread args"

abbreviation (input) case_arg_c :: "('e \<Rightarrow> unit comp) \<Rightarrow> 'e arg \<Rightarrow> unit comp" where
  "case_arg_c f a \<equiv> steps [f (arg_expr a), if arg_spread a then emit OP_SPREAD [] False else return_c ()]"

lemma arg_size: "a \<in> set args \<Longrightarrow> size (arg_expr a) \<le> size_list (size_arg size) args"
proof (induction args)
  case (Cons b bs)
  then show ?case by (cases b) (auto simp: less_Suc_eq_le)
qed simp

lemma arg_option_size:
  "Some a \<in> set args \<Longrightarrow> size (arg_expr a) \<le> size_list (size_option (size_arg size)) args"
proof (induction args)
  case (Cons b bs)
  then show ?case by (cases a) auto
qed simp

lemma property_size:
  "KeyValue k x \<in> set ps \<Longrightarrow> size x \<le> size_list (size_property size) ps"
  by (induction ps) auto

lemma nth_size: "i < length es \<Longrightarrow> size (es ! i) \<le> size_list size es"
  using size_list_estimation' [of "es ! i" es "size (es ! i)" size] nth_mem [of i es] by simp

section \<open>Expressions\<close>

function expr_c :: "compiler_host \<Rightarrow> fn_action expr \<Rightarrow> bool \<Rightarrow> bool \<Rightarrow> unit comp"
  and compile_access :: "compiler_host \<Rightarrow> fn_action expr \<Rightarrow> bool \<Rightarrow> access comp"
where
  "expr_c ho e used tail =
     (case e of
        Yield delegate arg \<Rightarrow>
          if delegate then nyi
          else steps [case arg of Some x \<Rightarrow> expr_c ho x True False | None \<Rightarrow> emit OP_PUSH_UNDEF [] False,
                 emit OP_YIELD [] False, pop_unless used]
      | Ident n \<Rightarrow>
          steps [if n = ''undefined'' then emit OP_PUSH_UNDEF [] False
                 else bind_c (access_var (ho_intern ho n)) access_get, pop_unless used]
      | Lit l \<Rightarrow> steps [literal_c ho l, pop_unless used]
      | This \<Rightarrow> if used then emit OP_PUSH_THIS [] False else return_c ()
      | Member _ _ _ \<Rightarrow> steps [bind_c (compile_access ho e False) access_get, pop_unless used]
      | Object props \<Rightarrow>
          steps [emit OP_NEWOBJECT [] False,
            steps (map (\<lambda>p. case p of
                Shorthand n \<Rightarrow>
                  steps [emit OP_DUP [] False,
                    bind_c (access_var (ho_intern ho n)) (\<lambda>acc. bind_c (get_sym (ho_intern ho n)) (\<lambda>sym.
                      steps [access_get acc, emit OP_SWAP [] False, emit OP_PUT_BY_ID [of_nat sym] True]))]
              | KeyValue key x \<Rightarrow>
                  steps [emit OP_DUP [] False, expr_c ho x True False,
                    case key of
                      NameIdent n \<Rightarrow> bind_c (get_sym (ho_intern ho n)) (\<lambda>sym.
                        steps [emit OP_SWAP [] False, emit OP_PUT_BY_ID [of_nat sym] True])
                    | NameStr str \<Rightarrow> bind_c (get_val ho (ValStr str)) (\<lambda>ix.
                        steps [emit OP_SWAP [] False, emit OP_PUSH_LITERAL [of_nat ix] False, emit OP_SWAP [] False,
                          emit OP_PUT_BY_VAL [0] False])
                    | NameNum v \<Rightarrow>
                        if is_i32_literal v
                        then steps [emit OP_SWAP [] False, emit OP_PUSH_INT [word_of_int (f64_as_i32 v)] False,
                               emit OP_SWAP [] False, emit OP_PUT_BY_VAL [0] False]
                        else bind_c (get_val ho (ValFloat v)) (\<lambda>ix.
                               steps [emit OP_SWAP [] False, emit OP_PUSH_LITERAL [of_nat ix] False, emit OP_SWAP [] False,
                                 emit OP_PUT_BY_VAL [0] False])
                    | OtherName \<Rightarrow> nyi]
              | OtherProp \<Rightarrow> nyi) props)]
      | Call callee args \<Rightarrow>
          steps [
            case callee of
              None \<Rightarrow> nyi
            | Some (Member obj prop computed) \<Rightarrow>
                bind_c (case member_name prop of
                    Some n \<Rightarrow> bind_c (get_sym (ho_intern ho n)) (\<lambda>ix. return_c (Some ix))
                  | None \<Rightarrow> bind_c (expr_c ho prop True False) (\<lambda>_. return_c None))
                  (\<lambda>name. steps [
                    case obj of
                      None \<Rightarrow> nyi
                    | Some x \<Rightarrow> steps [expr_c ho x True False, if name \<noteq> None then emit OP_DUP [] False else return_c ()],
                    case name of
                      Some ix \<Rightarrow> emit OP_GET_BY_ID [of_nat ix] True
                    | None \<Rightarrow> emit OP_GET_BY_VAL_PUSH_OBJ [0] False])
            | Some x \<Rightarrow> steps [emit OP_PUSH_UNDEF [] False, expr_c ho x True False],
            if has_spread args
            then steps [steps (map (case_arg_c (\<lambda>x. expr_c ho x True False)) (rev args)),
                   emit OP_NEWARRAY [of_nat (length args)] False]
            else steps (map (\<lambda>a. expr_c ho (arg_expr a) True False) args),
            if has_spread args then emit OP_CALL_BUILTIN [of_nat (length args), 0, 0] False
            else emit (if tail then OP_TAILCALL else OP_CALL) [of_nat (length args)] False,
            pop_unless used]
      | Unary op x \<Rightarrow>
          if op = UDelete
          then steps [bind_c (compile_access ho x False) access_delete, pop_unless used]
          else steps [expr_c ho x True False, unary_op_c op, pop_unless used]
      | Update op prefix x \<Rightarrow>
          if prefix
          then steps [expr_c ho x True False, emit OP_PUSH_INT [1] False, update_op_c op,
                 if used then emit OP_DUP [] False else return_c (), bind_c (compile_access ho x False) access_set]
          else steps [expr_c ho x True False, if used then emit OP_DUP [] False else return_c (),
                 emit OP_PUSH_INT [1] False, update_op_c op, bind_c (compile_access ho x False) access_set]
      | New callee args \<Rightarrow>
          (let argc = (case args of None \<Rightarrow> 0 | Some xs \<Rightarrow> length xs);
               spread = (case args of None \<Rightarrow> False | Some xs \<Rightarrow> has_spread xs) in
           steps [emit OP_PUSH_UNDEF [] False, expr_c ho callee True False,
             case args of
               None \<Rightarrow> return_c ()
             | Some xs \<Rightarrow>
                 if spread
                 then steps [steps (map (case_arg_c (\<lambda>x. expr_c ho x True False)) (rev xs)),
                        emit OP_NEWARRAY [of_nat argc] False]
                 else steps (map (\<lambda>a. expr_c ho (arg_expr a) True False) xs),
             if spread then emit OP_CALL_BUILTIN [of_nat argc, 0, 1] False
             else emit (if tail then OP_TAILNEW else OP_NEW) [of_nat argc] False,
             pop_unless used])
      | AssignExpr op left right \<Rightarrow>
          if op = Assign
          then steps [expr_c ho right True False, if used then emit OP_DUP [] False else return_c (),
                 bind_c (case left of PatIdent n \<Rightarrow> access_var (ho_intern ho n) | PatExpr x \<Rightarrow> compile_access ho x False | OtherPat \<Rightarrow> nyi)
                   access_set]
          else steps [expr_c ho right True False,
                 bind_c (case left of PatIdent n \<Rightarrow> access_var (ho_intern ho n) | PatExpr x \<Rightarrow> compile_access ho x False | OtherPat \<Rightarrow> nyi)
                   access_get,
                 assign_op_c op, if used then emit OP_DUP [] False else return_c (),
                 bind_c (case left of PatIdent n \<Rightarrow> access_var (ho_intern ho n) | PatExpr x \<Rightarrow> compile_access ho x False | OtherPat \<Rightarrow> nyi)
                   access_set]
      | Bin op left right \<Rightarrow>
          if op = LogicalOr
          then steps [expr_c ho left True False, emit OP_DUP [] False,
                 cjmp (\<lambda>jtrue. steps [emit OP_POP [] False, expr_c ho right True False, patch_cjmp True jtrue, pop_unless used])]
          else if op = LogicalAnd
          then steps [expr_c ho left True False, emit OP_DUP [] False,
                 cjmp (\<lambda>jfalse. steps [emit OP_POP [] False, expr_c ho right True False,
                   jmp (\<lambda>jend. steps [patch_cjmp False jfalse, patch_jmp jend, pop_unless used])])]
          else steps [expr_c ho right True False, expr_c ho left True False, binary_op_c op, pop_unless used]
      | Arrow f \<Rightarrow> fa_compile f ArrowFn
      | Seq es \<Rightarrow> steps (map (\<lambda>i. expr_c ho (es ! i) (used \<and> i = length es - 1) tail) [0..<length es])
      | FnExpr ident f \<Rightarrow> fn_expr_c ho ident (\<lambda>name. fa_compile f (Named name True)) used
      | Array elems \<Rightarrow>
          steps [
            steps (map (\<lambda>x. case x of
                Some a \<Rightarrow> case_arg_c (\<lambda>y. expr_c ho y True False) a
              | None \<Rightarrow> emit OP_PUSH_UNDEF [] False) (rev elems)),
            emit OP_NEWARRAY [of_nat (length elems)] False, pop_unless used]
      | Cond test cons alt \<Rightarrow>
          steps [expr_c ho test True False,
            cjmp (\<lambda>jelse. steps [expr_c ho cons used tail,
              jmp (\<lambda>jend. steps [patch_cjmp False jelse, expr_c ho alt used tail, patch_jmp jend])])]
      | Paren x \<Rightarrow> expr_c ho x used False
      | OtherExpr \<Rightarrow> nyi)"
| "compile_access ho e dup =
     (case e of
        Ident n \<Rightarrow> access_var (ho_intern ho n)
      | Member obj prop computed \<Rightarrow>
          (case obj of
             None \<Rightarrow> nyi
           | Some x \<Rightarrow>
               bind_c (steps [expr_c ho x True False, if dup then emit OP_DUP [] False else return_c ()]) (\<lambda>_.
                 (case (if computed then None else member_name prop) of
                    Some n \<Rightarrow> return_c (AById (ho_intern ho n))
                  | None \<Rightarrow> bind_c (steps [expr_c ho prop True False, emit OP_SWAP [] False]) (\<lambda>_. return_c AByVal))))
      | This \<Rightarrow> return_c AThis
      | _ \<Rightarrow> nyi)"
  by pat_completeness auto

termination
  by (relation "measure (\<lambda>x. case x of Inl (_, e, _, _) \<Rightarrow> 2 * size e + 1 | Inr (_, e, _) \<Rightarrow> 2 * size e)") (auto dest!: arg_size arg_option_size property_size nth_size)

end
