(* ===== verification/Scope_Analysis.thy ===== *)
theory Scope_Analysis
  imports Js_Syntax "HOL-Library.AList"
begin

text \<open>
  The walks over syntax that precede compilation (codegen.rs, and the visitors at the end of
  bytecompiler.rs): the variables the statements of a scope declare, the function declarations among
  them, and whether a name is used. The walk into the children of a node that a visitor does not
  override is that of \<open>swc_ecmascript\<close>: all of them, in the order of the fields.
\<close>

datatype binding_kind = BindVar | BindConst | BindLet | BindFunction | BindCatch

section \<open>Declarations\<close>

text \<open>The named function expressions of an expression; functions and arrows are not entered.\<close>

primrec expr_fns :: "'f expr \<Rightarrow> string list" where
  "expr_fns (Ident n) = []"
| "expr_fns (Lit l) = []"
| "expr_fns This = []"
| "expr_fns (Member obj p c) = (case map_option expr_fns obj of None \<Rightarrow> [] | Some ns \<Rightarrow> ns) @ expr_fns p"
| "expr_fns (Object ps) =
     concat (map (\<lambda>p. case p of KeyValue k ns \<Rightarrow> ns | _ \<Rightarrow> []) (map (map_property expr_fns) ps))"
| "expr_fns (Call callee args) =
     (case map_option expr_fns callee of None \<Rightarrow> [] | Some ns \<Rightarrow> ns) @ concat (map arg_expr (map (map_arg expr_fns) args))"
| "expr_fns (Unary op x) = expr_fns x"
| "expr_fns (Update op prefix x) = expr_fns x"
| "expr_fns (New callee args) =
     expr_fns callee @ (case map_option (map (map_arg expr_fns)) args of None \<Rightarrow> [] | Some xs \<Rightarrow> concat (map arg_expr xs))"
| "expr_fns (AssignExpr op left right) =
     (case map_pat expr_fns left of PatExpr ns \<Rightarrow> ns | _ \<Rightarrow> []) @ expr_fns right"
| "expr_fns (Bin op l r) = expr_fns l @ expr_fns r"
| "expr_fns (Arrow f) = []"
| "expr_fns (Seq es) = concat (map expr_fns es)"
| "expr_fns (FnExpr ident f) = (case ident of None \<Rightarrow> [] | Some n \<Rightarrow> [n])"
| "expr_fns (Array es) =
     concat (map (\<lambda>x. case x of None \<Rightarrow> [] | Some a \<Rightarrow> arg_expr a) (map (map_option (map_arg expr_fns)) es))"
| "expr_fns (Cond a b c) = expr_fns a @ expr_fns b @ expr_fns c"
| "expr_fns (Paren x) = expr_fns x"
| "expr_fns (Yield d x) = (case map_option expr_fns x of None \<Rightarrow> [] | Some ns \<Rightarrow> ns)"
| "expr_fns OtherExpr = []"

type_synonym bindings = "(string \<times> binding_kind) list"

definition fn_bindings :: "'f expr \<Rightarrow> bindings" where
  "fn_bindings e = map (\<lambda>n. (n, BindFunction)) (expr_fns e)"
definition fn_bindings_option :: "'f expr option \<Rightarrow> bindings" where
  "fn_bindings_option e = (case e of None \<Rightarrow> [] | Some x \<Rightarrow> fn_bindings x)"
definition pat_bindings :: "binding_kind \<Rightarrow> 'e pat \<Rightarrow> bindings" where
  "pat_bindings kind p = (case p of PatIdent n \<Rightarrow> [(n, kind)] | _ \<Rightarrow> [])"

fun var_decl_bindings :: "'f expr var_decl \<Rightarrow> bindings" where
  "var_decl_bindings (VarDecl kind ds) =
     concat (map (\<lambda>d. case d of Declarator p init \<Rightarrow>
         fn_bindings_option init @
         pat_bindings (case kind of KVar \<Rightarrow> BindVar | KLet \<Rightarrow> BindLet | KConst \<Rightarrow> BindConst) p) ds)"
fun head_bindings :: "'f expr for_head \<Rightarrow> bindings" where
  "head_bindings (HeadVar d) = var_decl_bindings d"
| "head_bindings (HeadPat (PatExpr e)) = fn_bindings e"
| "head_bindings (HeadPat _) = []"

text \<open>What a statement declares, in the order of the visits; blocks are not entered.\<close>

fun declared :: "('f expr, 'g) stmt \<Rightarrow> bindings" where
  "declared (Switch e cases) =
     fn_bindings e @ concat (map (\<lambda>(t, ss). fn_bindings_option t @ concat (map declared ss)) cases)"
| "declared (ExprStmt e) = fn_bindings e"
| "declared (Block ss) = []"
| "declared (Return e) = fn_bindings_option e"
| "declared Break = []"
| "declared Continue = []"
| "declared (ForIn h e s) = head_bindings h @ fn_bindings e @ declared s"
| "declared (ForOf h e s) = head_bindings h @ fn_bindings e @ declared s"
| "declared (For h t u s) =
     (case h of None \<Rightarrow> [] | Some x \<Rightarrow> head_bindings x) @ fn_bindings_option u @ fn_bindings_option t @ declared s"
| "declared (While e s) = fn_bindings e @ declared s"
| "declared (If e s alt) = fn_bindings e @ declared s @ (case alt of None \<Rightarrow> [] | Some x \<Rightarrow> declared x)"
| "declared (DeclVar d) = var_decl_bindings d"
| "declared (DeclFn n f) = [(n, BindFunction)]"
| "declared Empty = []"
| "declared (Throw e) = fn_bindings e"
| "declared (Try b h fin) =
     (case h of Some (Some p, _) \<Rightarrow> pat_bindings BindCatch p @ (case p of PatExpr e \<Rightarrow> fn_bindings e | _ \<Rightarrow> []) | _ \<Rightarrow> [])"
| "declared OtherStmt = []"

text \<open>\<open>analyze_stmts\<close>: the map of names, a later declaration replacing the kind.\<close>

definition analyze_stmts :: "('f expr, 'g) stmt list \<Rightarrow> bindings" where
  "analyze_stmts ss = foldl (\<lambda>m (n, k). AList.update n k m) [] (concat (map declared ss))"

section \<open>Function declarations\<close>

fun fn_decls :: "('e, 'g) stmt \<Rightarrow> (string \<times> 'g) list" where
  "fn_decls (DeclFn n f) = [(n, f)]"
| "fn_decls (Switch e cases) = concat (map (\<lambda>(t, ss). concat (map fn_decls ss)) cases)"
| "fn_decls (ForIn h e s) = fn_decls s"
| "fn_decls (ForOf h e s) = fn_decls s"
| "fn_decls (For h t u s) = fn_decls s"
| "fn_decls (While e s) = fn_decls s"
| "fn_decls (If e s alt) = fn_decls s @ (case alt of None \<Rightarrow> [] | Some x \<Rightarrow> fn_decls x)"
| "fn_decls _ = []"

section \<open>Uses of a name\<close>

text \<open>The functions have been replaced by whether they use the name.\<close>

primrec expr_uses :: "string \<Rightarrow> bool expr \<Rightarrow> bool" where
  "expr_uses x (Ident n) = (n = x)"
| "expr_uses x (Lit l) = False"
| "expr_uses x This = False"
| "expr_uses x (Member obj p c) = (map_option (expr_uses x) obj = Some True \<or> expr_uses x p)"
| "expr_uses x (Object ps) = list_ex (\<lambda>p. case p of KeyValue k b \<Rightarrow> b | _ \<Rightarrow> False) (map (map_property (expr_uses x)) ps)"
| "expr_uses x (Call callee args) =
     (map_option (expr_uses x) callee = Some True \<or> list_ex arg_expr (map (map_arg (expr_uses x)) args))"
| "expr_uses x (Unary op e) = expr_uses x e"
| "expr_uses x (Update op prefix e) = expr_uses x e"
| "expr_uses x (New callee args) =
     (expr_uses x callee \<or> (case map_option (map (map_arg (expr_uses x))) args of None \<Rightarrow> False | Some bs \<Rightarrow> list_ex arg_expr bs))"
| "expr_uses x (AssignExpr op left right) =
     ((case map_pat (expr_uses x) left of PatExpr b \<Rightarrow> b | _ \<Rightarrow> False) \<or> expr_uses x right)"
| "expr_uses x (Bin op l r) = (expr_uses x l \<or> expr_uses x r)"
| "expr_uses x (Arrow b) = b"
| "expr_uses x (Seq es) = list_ex id (map (expr_uses x) es)"
| "expr_uses x (FnExpr ident b) = b"
| "expr_uses x (Array es) =
     list_ex (\<lambda>e. case e of None \<Rightarrow> False | Some a \<Rightarrow> arg_expr a) (map (map_option (map_arg (expr_uses x))) es)"
| "expr_uses x (Cond a b c) = (expr_uses x a \<or> expr_uses x b \<or> expr_uses x c)"
| "expr_uses x (Paren e) = expr_uses x e"
| "expr_uses x (Yield d e) = (map_option (expr_uses x) e = Some True)"
| "expr_uses x OtherExpr = False"

definition option_uses :: "string \<Rightarrow> bool expr option \<Rightarrow> bool" where
  "option_uses x e = (case e of None \<Rightarrow> False | Some y \<Rightarrow> expr_uses x y)"
fun pat_uses :: "string \<Rightarrow> bool expr pat \<Rightarrow> bool" where
  "pat_uses x (PatExpr e) = expr_uses x e"
| "pat_uses x _ = False"
fun var_decl_uses :: "string \<Rightarrow> bool expr var_decl \<Rightarrow> bool" where
  "var_decl_uses x (VarDecl kind ds) = list_ex (\<lambda>d. case d of Declarator p init \<Rightarrow> pat_uses x p \<or> option_uses x init) ds"
fun head_uses :: "string \<Rightarrow> bool expr for_head \<Rightarrow> bool" where
  "head_uses x (HeadVar d) = var_decl_uses x d"
| "head_uses x (HeadPat p) = pat_uses x p"

text \<open>\<open>contains_ident\<close>\<close>

fun contains_ident :: "string \<Rightarrow> (bool expr, bool) stmt \<Rightarrow> bool" where
  "contains_ident x (Switch e cases) =
     (expr_uses x e \<or> list_ex (\<lambda>(t, ss). option_uses x t \<or> list_ex (contains_ident x) ss) cases)"
| "contains_ident x (ExprStmt e) = expr_uses x e"
| "contains_ident x (Block ss) = list_ex (contains_ident x) ss"
| "contains_ident x (Return e) = option_uses x e"
| "contains_ident x Break = False"
| "contains_ident x Continue = False"
| "contains_ident x (ForIn h e s) = (head_uses x h \<or> expr_uses x e \<or> contains_ident x s)"
| "contains_ident x (ForOf h e s) = (head_uses x h \<or> expr_uses x e \<or> contains_ident x s)"
| "contains_ident x (For h t u s) =
     ((case h of None \<Rightarrow> False | Some y \<Rightarrow> head_uses x y) \<or> option_uses x t \<or> option_uses x u \<or> contains_ident x s)"
| "contains_ident x (While e s) = (expr_uses x e \<or> contains_ident x s)"
| "contains_ident x (If e s alt) =
     (expr_uses x e \<or> contains_ident x s \<or> (case alt of None \<Rightarrow> False | Some y \<Rightarrow> contains_ident x y))"
| "contains_ident x (DeclVar d) = var_decl_uses x d"
| "contains_ident x (DeclFn n b) = b"
| "contains_ident x Empty = False"
| "contains_ident x (Throw e) = expr_uses x e"
| "contains_ident x (Try b h fin) =
     (list_ex (contains_ident x) b \<or>
      (case h of None \<Rightarrow> False
       | Some (p, ss) \<Rightarrow> (case p of None \<Rightarrow> False | Some q \<Rightarrow> pat_uses x q) \<or> list_ex (contains_ident x) ss) \<or>
      (case fin of None \<Rightarrow> False | Some ss \<Rightarrow> list_ex (contains_ident x) ss))"
| "contains_ident x OtherStmt = False"

definition body_uses :: "string \<Rightarrow> (bool expr, bool) stmt body \<Rightarrow> bool" where
  "body_uses x b = (case b of BlockBody ss \<Rightarrow> list_ex (contains_ident x) ss | NoBody \<Rightarrow> False | ExprBody s \<Rightarrow> contains_ident x s)"

end
