(* ===== verification/Stmt_Compiler.thy ===== *)
theory Stmt_Compiler
  imports Expr_Compiler Scope_Analysis
begin

text \<open>
  The compilation of statements, functions and scripts (\<open>analyze\<close>, \<open>compile\<close>, \<open>stmt\<close>, \<open>var_decl\<close>,
  \<open>function\<close>, \<open>compile_fn\<close>, \<open>compile_script\<close> and \<open>compile_eval\<close> of bytecompiler.rs). An error in a
  declared function, which the code remembers and returns at the end, ends the compilation here.
\<close>

section \<open>Nested code blocks\<close>

definition reserve_block :: "symbol \<Rightarrow> nat comp" where
  "reserve_block name c =
     Some (Inr (length (bc_pool c), c\<lparr>bc_pool := bc_pool c @ [code_block_new name False]\<rparr>))"
definition push_code :: "nat \<Rightarrow> nat comp" where
  "push_code ptr = bind_c (get_c (\<lambda>c. length (cb_codes (bc_block c)))) (\<lambda>ix.
     bind_c (upd_c (upd_block (\<lambda>b. b\<lparr>cb_codes := cb_codes b @ [ptr]\<rparr>))) (\<lambda>_. return_c ix))"

text \<open>Running a compiler of its own for the block \<open>ptr\<close>, whose scope is inside the present one.\<close>

definition nested :: "symbol \<Rightarrow> nat \<Rightarrow> unit comp \<Rightarrow> unit comp" where
  "nested name ptr body c =
     (case body \<lparr>bc_block = code_block_new name False, bc_pool = bc_pool c,
            bc_scope = \<lparr>sc_variables = [], sc_depth = current_depth (bc_scope c) + 1\<rparr> # bc_scope c,
            bc_val_map = [], bc_name_map = [], bc_lci = [], bc_fmap = [], bc_top_level = False, bc_freelist = []\<rparr> of
        None \<Rightarrow> None
      | Some (Inl e) \<Rightarrow> Some (Inl e)
      | Some (Inr (_, c1)) \<Rightarrow> Some (Inr ((), c\<lparr>bc_pool := (bc_pool c1)[ptr := bc_block c1]\<rparr>)))"

text \<open>The parameters: \<open>p\<close> is the next index.\<close>

fun params_c :: "compiler_host \<Rightarrow> param list \<Rightarrow> nat \<Rightarrow> unit comp" where
  "params_c ho [] p = upd_c (upd_block (\<lambda>b. b\<lparr>cb_var_count := p\<rparr>))"
| "params_c ho (ParamIdent n # ps) p =
     steps [add_var (ho_intern ho n) p, upd_c (upd_block (\<lambda>b. b\<lparr>cb_param_count := cb_param_count b + 1\<rparr>)), params_c ho ps (p + 1)]"
| "params_c ho (ParamRest n # ps) p =
     steps [add_var (ho_intern ho n) p, upd_c (upd_block (\<lambda>b. b\<lparr>cb_rest_at := Some p\<rparr>)), params_c ho ps (p + 1)]"
| "params_c ho (OtherParam # ps) p = nyi"

fun is_use_strict :: "('f expr, 'g) stmt \<Rightarrow> bool" where
  "is_use_strict (ExprStmt (Lit (LitStr s))) = (s = ''use strict'')"
| "is_use_strict _ = False"
definition stmts_strict :: "('f expr, 'g) stmt list \<Rightarrow> bool" where
  "stmts_strict ss = (case ss of [] \<Rightarrow> False | s # _ \<Rightarrow> is_use_strict s)"
definition set_strict :: "bool \<Rightarrow> unit comp" where
  "set_strict b = upd_c (upd_block (\<lambda>blk. blk\<lparr>cb_strict := b\<rparr>))"

section \<open>Declarations\<close>

definition add_slot :: "variable_kind \<Rightarrow> symbol \<Rightarrow> unit comp" where
  "add_slot kind name = bind_c (get_c (\<lambda>c. cb_var_count (bc_block c))) (\<lambda>ix.
     steps [add_var_of kind name ix, upd_c (upd_block (\<lambda>b. b\<lparr>cb_var_count := cb_var_count b + 1\<rparr>))])"

text \<open>The first loop of \<open>analyze\<close>, over the entries of the map in the order it yields them.\<close>

definition declare_c :: "compiler_host \<Rightarrow> string \<times> binding_kind \<Rightarrow> unit comp" where
  "declare_c ho nk = bind_c (get_c bc_top_level) (\<lambda>tl.
     (case nk of (n, k) \<Rightarrow>
        (case k of
           BindVar \<Rightarrow> if tl then return_c () else add_slot VVar (ho_intern ho n)
         | BindFunction \<Rightarrow> if tl then return_c () else add_slot VVar (ho_intern ho n)
         | BindConst \<Rightarrow> add_slot VConst (ho_intern ho n)
         | _ \<Rightarrow> return_c ())))"

definition ordered :: "compiler_host \<Rightarrow> bindings \<Rightarrow> bindings" where
  "ordered ho bs =
     concat (map (\<lambda>s. filter (\<lambda>(n, k). ho_intern ho n = s) bs) (ho_order ho (map (\<lambda>(n, k). ho_intern ho n) bs)))"

text \<open>The search for \<open>arguments\<close>: its slot is the next one, and is not counted.\<close>

definition arguments_c :: "compiler_host \<Rightarrow> (fn_action expr, fn_action) stmt list \<Rightarrow> unit comp" where
  "arguments_c ho ss =
     (if list_ex (\<lambda>s. contains_ident ''arguments'' (map_stmt (map_expr fa_uses_arguments) fa_uses_arguments s)) ss
      then bind_c (get_c (\<lambda>c. cb_var_count (bc_block c))) (\<lambda>ix.
        steps [upd_c (upd_block (\<lambda>b. b\<lparr>cb_use_arguments := True, cb_args_at := ix mod 2 ^ 16\<rparr>)),
          add_var (ho_intern ho ''arguments'') ix])
      else return_c ())"

definition analyze_c :: "compiler_host \<Rightarrow> (fn_action expr, fn_action) stmt list \<Rightarrow> unit comp" where
  "analyze_c ho ss =
     steps [steps (map (declare_c ho) (ordered ho (analyze_stmts ss))),
       steps (map (\<lambda>(n, f).
         (let name = ho_intern ho n in
          bind_c (reserve_block name) (\<lambda>ptr. bind_c (push_code ptr) (\<lambda>ix.
            steps [upd_c (\<lambda>c. c\<lparr>bc_fmap := AList.update name ix (bc_fmap c)\<rparr>), fa_compile f (Named name False),
              bind_c (access_var name) access_set])))) (concat (map fn_decls ss))),
       arguments_c ho ss]"

definition first_name :: "'e var_decl \<Rightarrow> string comp" where
  "first_name d = (case d of VarDecl _ (Declarator (PatIdent n) _ # _) \<Rightarrow> return_c n | _ \<Rightarrow> panic_c)"

definition declarator_c :: "compiler_host \<Rightarrow> var_kind \<Rightarrow> fn_action expr declarator \<Rightarrow> unit comp" where
  "declarator_c ho kind d =
     (case d of Declarator (PatIdent n) init \<Rightarrow>
          (let name = ho_intern ho n;
               value_c = (case init of Some i \<Rightarrow> expr_c ho i True False | None \<Rightarrow> emit OP_PUSH_UNDEF [] False)
           in
           (case kind of
              KLet \<Rightarrow> bind_c fresh_index (\<lambda>ix. steps [add_let_var name ix, value_c, emit OP_DECL_LET [of_nat ix] False])
            | KConst \<Rightarrow> steps [value_c, decl_const name]
            | KVar \<Rightarrow> steps [value_c, bind_c (access_var name) access_set]))
      | _ \<Rightarrow> nyi)"
fun var_decl_c :: "compiler_host \<Rightarrow> fn_action expr var_decl \<Rightarrow> unit comp" where
  "var_decl_c ho (VarDecl kind ds) = steps (map (declarator_c ho kind) ds)"

section \<open>Statements\<close>

text \<open>The cases of a switch: what compiles the test and the body of each. \<open>lj\<close> is \<open>last_jump\<close>.\<close>

fun switch_cases :: "(unit comp option \<times> unit comp) list \<Rightarrow> nat option \<Rightarrow> unit comp" where
  "switch_cases [] lj = return_c ()"
| "switch_cases ((Some test, body) # cs) lj =
     steps [emit OP_DUP [] False, test, emit OP_EQ [] False,
       cjmp (\<lambda>fail. steps [case lj of None \<Rightarrow> return_c () | Some j \<Rightarrow> patch_jmp j, body,
         jmp (\<lambda>j. steps [patch_cjmp False fail, switch_cases cs (Some j)])])]"
| "switch_cases ((None, body) # cs) lj = steps [body, switch_cases cs lj]"

text \<open>The name the head of a loop over an object declares or, without a declaration, gets by \<open>decl_let\<close>.\<close>

definition loop_name :: "compiler_host \<Rightarrow> fn_action expr for_head \<Rightarrow> symbol comp" where
  "loop_name ho h =
     (case h of
        HeadVar d \<Rightarrow> bind_c (var_decl_c ho d) (\<lambda>_. bind_c (first_name d) (\<lambda>n. return_c (ho_intern ho n)))
      | HeadPat (PatIdent n) \<Rightarrow>
          bind_c (steps [emit OP_PUSH_UNDEF [] False, emit OP_GET_ENV [0] False, decl_let (ho_intern ho n)]) (\<lambda>_.
            return_c (ho_intern ho n))
      | _ \<Rightarrow> nyi)"

definition loop_init :: "compiler_host \<Rightarrow> fn_action expr for_head option \<Rightarrow> unit comp" where
  "loop_init ho h =
     (case h of
        None \<Rightarrow> return_c ()
      | Some (HeadVar d) \<Rightarrow> var_decl_c ho d
      | Some (HeadPat (PatExpr e)) \<Rightarrow> expr_c ho e False False
      | Some (HeadPat _) \<Rightarrow> nyi)"

definition private_symbol :: "symbol \<Rightarrow> symbol comp" where
  "private_symbol s = (case s of Key k \<Rightarrow> return_c (Private k) | _ \<Rightarrow> panic_c)"

text \<open>The store of the exception in the variable of a handler.\<close>

definition catch_param_c :: "compiler_host \<Rightarrow> fn_action expr pat option \<Rightarrow> unit comp" where
  "catch_param_c ho p =
     (case p of
        None \<Rightarrow> emit OP_POP [] False
      | Some (PatIdent n) \<Rightarrow> bind_c (access_var (ho_intern ho n)) access_set
      | Some (PatExpr e) \<Rightarrow> bind_c (compile_access ho e False) access_set
      | Some OtherPat \<Rightarrow> nyi)"

fun stmt_c :: "compiler_host \<Rightarrow> (fn_action expr, fn_action) stmt \<Rightarrow> unit comp" where
  "stmt_c ho (Switch e cases) =
     steps [push_lci, expr_c ho e True False,
       switch_cases (map (\<lambda>(t, ss). (map_option (\<lambda>x. expr_c ho x True False) t, steps (map (stmt_c ho) ss))) cases) None,
       pop_lci, emit OP_POP [] False]"
| "stmt_c ho (ExprStmt e) = expr_c ho e False False"
| "stmt_c ho (Block ss) = steps [push_scope, analyze_c ho ss, steps (map (stmt_c ho) ss), pop_scope ho]"
| "stmt_c ho (Return arg) =
     steps [case arg of Some e \<Rightarrow> expr_c ho e True True | None \<Rightarrow> emit OP_PUSH_UNDEF [] False, emit OP_RET [] False]"
| "stmt_c ho Break = jmp add_break"
| "stmt_c ho Continue = jmp add_continue"
| "stmt_c ho (ForIn h e s) =
     steps [push_scope, analyze_c ho [ForIn h e s],
       bind_c (loop_name ho h) (\<lambda>name. steps [expr_c ho e True False,
         jmp_custom OP_FORIN_SETUP (\<lambda>setup. bind_c (get_c code_len) (\<lambda>head. steps [push_lci,
           jmp_custom OP_FORIN_ENUMERATE (\<lambda>enumerate. steps [bind_c (access_var name) access_set, stmt_c ho s,
             patch_continues, goto head, patch OP_FORIN_ENUMERATE enumerate, patch OP_FORIN_SETUP setup,
             pop_scope ho, emit OP_FORIN_LEAVE [] False, pop_lci])]))])]"
| "stmt_c ho (ForOf h e s) =
     steps [push_scope, analyze_c ho [ForOf h e s],
       bind_c (loop_name ho h) (\<lambda>name.
         bind_c (private_symbol (ho_intern ho ''Symbol.iterator'')) (\<lambda>iterator_id.
         bind_c (get_sym iterator_id) (\<lambda>iterator.
         bind_c (get_sym (ho_intern ho ''next'')) (\<lambda>nx.
         bind_c (get_sym (ho_intern ho ''done'')) (\<lambda>dn.
         bind_c (get_sym (ho_intern ho ''value'')) (\<lambda>val.
           steps [expr_c ho e True False, emit OP_DUP [] False, emit OP_GET_BY_ID [of_nat iterator] True, emit OP_CALL [0] False,
             bind_c (get_c code_len) (\<lambda>head. steps [push_lci, emit OP_DUP [] False, emit OP_DUP [] False,
               emit OP_GET_BY_ID [of_nat nx] True, emit OP_CALL [0] False, emit OP_DUP [] False,
               emit OP_GET_BY_ID [of_nat dn] True,
               cjmp (\<lambda>jend. steps [emit OP_GET_BY_ID [of_nat val] True, bind_c (access_var name) access_set,
                 stmt_c ho s, patch_continues, goto head, patch_cjmp True jend, pop_scope ho, emit OP_POP [] False, pop_lci])])]))))))]"
| "stmt_c ho (For h test update s) =
     steps [push_scope, loop_init ho h,
       bind_c (get_c code_len) (\<lambda>head. steps [push_lci,
         case test of Some e \<Rightarrow> expr_c ho e True False | None \<Rightarrow> emit OP_PUSH_TRUE [] False,
         cjmp (\<lambda>jend. steps [stmt_c ho s, patch_continues,
           case update of Some e \<Rightarrow> expr_c ho e False False | None \<Rightarrow> return_c (),
           goto head, pop_lci, pop_scope ho, patch_cjmp False jend])])]"
| "stmt_c ho (While e s) =
     bind_c (get_c code_len) (\<lambda>head. steps [push_lci, expr_c ho e True False,
       cjmp (\<lambda>jend. steps [stmt_c ho s, patch_continues, goto head, patch_cjmp False jend, pop_lci])])"
| "stmt_c ho (If e s alt) =
     steps [expr_c ho e True False,
       cjmp (\<lambda>jelse. steps [stmt_c ho s,
         case alt of
           None \<Rightarrow> patch_cjmp False jelse
         | Some s2 \<Rightarrow> jmp (\<lambda>jend. steps [patch_cjmp False jelse, stmt_c ho s2, patch_jmp jend])])]"
| "stmt_c ho (DeclVar d) = var_decl_c ho d"
| "stmt_c ho (DeclFn n f) = return_c ()"
| "stmt_c ho Empty = return_c ()"
| "stmt_c ho (Throw e) = steps [expr_c ho e True False, emit OP_THROW [] False]"
| "stmt_c ho (Try b handler finalizer) =
     try_jmp (\<lambda>ptry. steps [steps (map (stmt_c ho) b), emit OP_POP_CATCH [] False,
       jmp (\<lambda>jfinally. steps [patch_try ptry,
         case handler of
           Some (p, ss) \<Rightarrow> steps [push_scope, catch_param_c ho p, steps (map (stmt_c ho) ss), pop_scope ho]
         | None \<Rightarrow> emit OP_POP [] False,
         jmp (\<lambda>jcatch. steps [patch_jmp jfinally, patch_jmp jcatch,
           case finalizer of
             Some ss \<Rightarrow> steps [push_scope, steps (map (stmt_c ho) ss), pop_scope ho]
           | None \<Rightarrow> return_c ()])])])"
| "stmt_c ho OtherStmt = nyi"

section \<open>Functions\<close>

definition use_function :: "compiler_host \<Rightarrow> bool \<Rightarrow> unit comp \<Rightarrow> fn_mode \<Rightarrow> unit comp" where
  "use_function ho async body mode =
     (case mode of
        Named name True \<Rightarrow>
          bind_c (reserve_block name) (\<lambda>ptr. bind_c (push_code ptr) (\<lambda>ix.
            if async then nyi else steps [nested name ptr body, emit OP_GET_FUNCTION [of_nat ix] False]))
      | Named name False \<Rightarrow>
          bind_c (get_c (\<lambda>c. (map_of (bc_fmap c) name, cb_codes (bc_block c)))) (\<lambda>(r, codes).
            case r of
              None \<Rightarrow> panic_c
            | Some ix \<Rightarrow>
                if async then nyi else steps [nested name (codes ! ix) body, emit OP_GET_FUNCTION [of_nat ix] False])
      | ArrowFn \<Rightarrow>
          (let name = ho_intern ho ANONYMOUS in
           bind_c (reserve_block name) (\<lambda>ptr. steps [nested name ptr body,
             bind_c (push_code ptr) (\<lambda>ix. steps [bind_c (get_sym name) (\<lambda>_. return_c ()), emit OP_GET_FUNCTION [of_nat ix] False])])))"

definition end_of_function :: "unit comp" where
  "end_of_function = steps [emit OP_PUSH_UNDEF [] False, emit OP_RET [] False]"

text \<open>\<open>compile\<close>, with the value of the last expression as the result for \<open>eval\<close>.\<close>

definition compile_c :: "compiler_host \<Rightarrow> (fn_action expr, fn_action) stmt list \<Rightarrow> bool \<Rightarrow> unit comp" where
  "compile_c ho body last_val_ret =
     steps [analyze_c ho body,
       case (last_val_ret, rev body) of
         (True, ExprStmt e # ss) \<Rightarrow> steps [steps (map (stmt_c ho) (rev ss)), expr_c ho e True False, emit OP_RET [] False]
       | _ \<Rightarrow> steps (map (stmt_c ho) body)]"

definition body_c :: "compiler_host \<Rightarrow> (fn_action expr, fn_action) stmt body \<Rightarrow> unit comp" where
  "body_c ho b =
     (case b of
        BlockBody ss \<Rightarrow> steps [set_strict (stmts_strict ss), compile_c ho ss False, end_of_function]
      | NoBody \<Rightarrow> end_of_function
      | ExprBody s \<Rightarrow> stmt_c ho s)"

text \<open>Only functions are generators; an arrow function is not.\<close>

definition function_action :: "compiler_host \<Rightarrow> param list \<Rightarrow> (fn_action expr, fn_action) stmt body \<Rightarrow> bool \<Rightarrow> bool \<Rightarrow> fn_action" where
  "function_action ho ps b async generator =
     FnAction (\<lambda>mode. use_function ho async
         (steps [if mode \<noteq> ArrowFn \<and> generator then upd_c (upd_block (\<lambda>blk. blk\<lparr>cb_is_generator := True\<rparr>)) else return_c (),
            params_c ho ps 0,
            if mode \<noteq> ArrowFn \<and> generator then emit OP_INITIAL_YIELD [] False else return_c (),
            body_c ho b]) mode)
       (body_uses ''arguments'' (map_body (map_stmt (map_expr fa_uses_arguments) fa_uses_arguments) b))"

primrec function_c :: "compiler_host \<Rightarrow> func \<Rightarrow> fn_action" where
  "function_c ho (Func ps b async generator) =
     function_action ho ps (map_body (map_stmt (map_expr (function_c ho)) (function_c ho)) b) async generator"

section \<open>Scripts\<close>

definition compiler_new :: "code_block \<Rightarrow> bool \<Rightarrow> compiler" where
  "compiler_new blk top_level =
     \<lparr>bc_block = blk, bc_pool = [], bc_scope = [\<lparr>sc_variables = [], sc_depth = 0\<rparr>], bc_val_map = [], bc_name_map = [],
      bc_lci = [], bc_fmap = [], bc_top_level = top_level, bc_freelist = []\<rparr>"

definition compile_program :: "compiler_host \<Rightarrow> (func expr, func) stmt list \<Rightarrow> bool \<Rightarrow> (compile_error + code_block \<times> code_block list) panics" where
  "compile_program ho p last_val_ret =
     (let ss = map (map_stmt (map_expr (function_c ho)) (function_c ho)) p;
          code = (code_block_new (ho_intern ho ''<script>'') False)\<lparr>cb_top_level := True, cb_strict := stmts_strict ss\<rparr>
      in
      (case steps [push_scope, compile_c ho ss last_val_ret, pop_scope ho, end_of_function] (compiler_new code True) of
         None \<Rightarrow> None
       | Some (Inl e) \<Rightarrow> Some (Inl e)
       | Some (Inr (_, c)) \<Rightarrow> Some (Inr (bc_block c, bc_pool c))))"
definition compile_script where "compile_script ho p = compile_program ho p False"
definition compile_eval where "compile_eval ho p = compile_program ho p True"

end
