(* ===== verification/Runtime.thy ===== *)
theory Runtime
  imports Bytecode
begin

text \<open>
  What the interpreter runs on: the environments of variables (vm/environment.rs), the conversions and
  comparisons of values (vm/value.rs) and the rest of the engine, which is the record \<open>runtime\<close> of its
  functions over a state of any type. A call of the runtime may run any program, so it may change the
  environments too; \<^term>\<open>None\<close> is a panic or a call that does not return. Exceptions are values.
\<close>

record environment =
  ev_parent :: "u64 option"
  ev_values :: "(js_value \<times> bool) list"

record 'w store =
  so_envs :: "u64 \<Rightarrow> environment option"
  so_world :: 'w

type_synonym ('a, 'w) effect = "'w store \<Rightarrow> ((js_value + 'a) \<times> 'w store) option"

definition e_return :: "'a \<Rightarrow> ('a, 'w) effect" where "e_return x s = Some (Inr x, s)"
definition e_throw :: "js_value \<Rightarrow> ('a, 'w) effect" where "e_throw e s = Some (Inl e, s)"
definition e_bind :: "('a, 'w) effect \<Rightarrow> ('a \<Rightarrow> ('b, 'w) effect) \<Rightarrow> ('b, 'w) effect" where
  "e_bind m f s = (case m s of None \<Rightarrow> None | Some (Inl e, s1) \<Rightarrow> Some (Inl e, s1) | Some (Inr x, s1) \<Rightarrow> f x s1)"

datatype js_hint = HintNone | HintNumber | HintString

text \<open>
  The runtime, in three layers: values, objects and calls. \<open>rt_cells\<close> is the view of strings and symbols; \<open>rt_add\<close> to \<open>rt_rem\<close> are the operators of \<open>f64\<close>;
  \<open>rt_parse\<close> parses a number. \<open>rt_function\<close> says what a callable is: a function with bytecode (its code
  block and environment) or a native one. \<open>rt_call\<close> calls any function from native code, \<open>rt_array_values\<close> reads an array; \<open>rt_get_by_id\<close> and
  \<open>rt_put_by_id\<close> are given the code block and the index of the feedback, the latter and \<open>rt_put_by_val\<close> also
  whether the code is strict.
\<close>

datatype callee = VmFunction nat u64 | NativeFunction

record 'w value_runtime =
  rt_cells :: "'w \<Rightarrow> cells"
  rt_jsobject :: "'w \<Rightarrow> u64 \<Rightarrow> bool"
  rt_callable :: "'w \<Rightarrow> u64 \<Rightarrow> bool"
  rt_function :: "'w \<Rightarrow> u64 \<Rightarrow> callee"
  rt_global :: "'w \<Rightarrow> js_value"
  rt_add :: "f64 \<Rightarrow> f64 \<Rightarrow> f64"
  rt_sub :: "f64 \<Rightarrow> f64 \<Rightarrow> f64"
  rt_mul :: "f64 \<Rightarrow> f64 \<Rightarrow> f64"
  rt_div :: "f64 \<Rightarrow> f64 \<Rightarrow> f64"
  rt_rem :: "f64 \<Rightarrow> f64 \<Rightarrow> f64"
  rt_parse :: "string \<Rightarrow> f64 option"

record 'w object_runtime = "'w value_runtime" +
  rt_type_error :: "string \<Rightarrow> (js_value, 'w) effect"
  rt_range_error :: "string \<Rightarrow> (js_value, 'w) effect"
  rt_new_string :: "string \<Rightarrow> (js_value, 'w) effect"
  rt_default_value :: "js_hint \<Rightarrow> js_value \<Rightarrow> (js_value, 'w) effect"
  rt_to_primitive :: "js_hint \<Rightarrow> js_value \<Rightarrow> (js_value, 'w) effect"
  rt_to_string :: "js_value \<Rightarrow> (string, 'w) effect"
  rt_to_symbol :: "js_value \<Rightarrow> (symbol, 'w) effect"
  rt_to_object :: "js_value \<Rightarrow> (js_value, 'w) effect"
  rt_get_by_id :: "nat \<Rightarrow> nat \<Rightarrow> bool \<Rightarrow> symbol \<Rightarrow> js_value \<Rightarrow> (js_value, 'w) effect"
  rt_put_by_id :: "bool \<Rightarrow> nat \<Rightarrow> nat \<Rightarrow> symbol \<Rightarrow> js_value \<Rightarrow> js_value \<Rightarrow> (unit, 'w) effect"
  rt_get_by_val :: "js_value \<Rightarrow> js_value \<Rightarrow> (js_value, 'w) effect"
  rt_put_by_val :: "bool \<Rightarrow> js_value \<Rightarrow> js_value \<Rightarrow> js_value \<Rightarrow> (unit, 'w) effect"
  rt_delete :: "bool \<Rightarrow> symbol \<Rightarrow> js_value \<Rightarrow> (bool, 'w) effect"
  rt_has_instance :: "js_value \<Rightarrow> js_value \<Rightarrow> (bool, 'w) effect"

record 'w runtime = "'w object_runtime" +
  rt_has_own :: "js_value \<Rightarrow> symbol \<Rightarrow> (bool, 'w) effect"
  rt_new_object :: "(js_value, 'w) effect"
  rt_new_array :: "nat \<Rightarrow> (js_value, 'w) effect"
  rt_put_index :: "js_value \<Rightarrow> nat \<Rightarrow> js_value \<Rightarrow> (unit, 'w) effect"
  rt_spread :: "js_value \<Rightarrow> (js_value, 'w) effect"
  rt_spread_values :: "'w \<Rightarrow> js_value \<Rightarrow> js_value list option"
  rt_new_function :: "nat \<Rightarrow> bool \<Rightarrow> u64 \<Rightarrow> (js_value, 'w) effect"
  rt_new_env :: "(u64, 'w) effect"
  rt_arguments_object :: "u64 \<Rightarrow> nat \<Rightarrow> js_value list \<Rightarrow> (js_value, 'w) effect"
  rt_construct_object :: "js_value \<Rightarrow> (js_value, 'w) effect"
  rt_call :: "js_value \<Rightarrow> js_value \<Rightarrow> js_value list \<Rightarrow> bool \<Rightarrow> (js_value, 'w) effect"
  rt_array_values :: "js_value \<Rightarrow> (js_value list option, 'w) effect"
  rt_new_iterator :: "js_value \<Rightarrow> (js_value, 'w) effect"
  rt_iterator_next :: "js_value \<Rightarrow> (string option, 'w) effect"

abbreviation cells_of :: "'w runtime \<Rightarrow> 'w store \<Rightarrow> cells" where
  "cells_of rt s \<equiv> rt_cells rt (so_world s)"

section \<open>Values\<close>

definition is_jsobject :: "'w runtime \<Rightarrow> 'w store \<Rightarrow> js_value \<Rightarrow> bool" where
  "is_jsobject rt s v = (is_object v \<and> rt_jsobject rt (so_world s) v)"
definition is_callable :: "'w runtime \<Rightarrow> 'w store \<Rightarrow> js_value \<Rightarrow> bool" where
  "is_callable rt s v = (is_jsobject rt s v \<and> rt_callable rt (so_world s) v)"
definition f64_nan :: f64 where "f64_nan = 0x7ff8000000000000"
definition f64_neg :: "f64 \<Rightarrow> f64" where "f64_neg x = x XOR 0x8000000000000000"

definition type_of :: "'w runtime \<Rightarrow> 'w store \<Rightarrow> js_value \<Rightarrow> string" where
  "type_of rt s v =
     (if is_jsobject rt s v then (if is_callable rt s v then ''function'' else ''object'')
      else if is_number v then ''number''
      else if is_jsstring (cells_of rt s) v then ''string''
      else if is_bool v then ''boolean''
      else if is_undefined v then ''undefined''
      else if is_null v then ''object''
      else ''symbol'')"

definition string_of :: "'w runtime \<Rightarrow> 'w store \<Rightarrow> js_value \<Rightarrow> string" where
  "string_of rt s v = (case jsstrings (cells_of rt s) v of Some x \<Rightarrow> x | None \<Rightarrow> [])"

text \<open>\<open>to_number\<close>: the default value of an object is converted again; the conversion of a cell of another kind is undefined behaviour.\<close>

partial_function (option) to_number :: "'w runtime \<Rightarrow> js_value \<Rightarrow> 'w store \<Rightarrow> ((js_value + f64) \<times> 'w store) option" where
  "to_number rt v s =
     (if is_number v then Some (Inr (number_of v), s)
      else if is_jsstring (cells_of rt s) v then
        Some (Inr (case rt_parse rt (string_of rt s v) of Some x \<Rightarrow> x | None \<Rightarrow> f64_nan), s)
      else if is_bool v then Some (Inr (f64_of_int (if v = encode_bool_value True then 1 else 0)), s)
      else if is_null v then Some (Inr 0, s)
      else if is_undefined v then Some (Inr f64_nan, s)
      else if is_jsobject rt s v then
        (case rt_default_value rt HintNumber v s of
           None \<Rightarrow> None
         | Some (r, s1) \<Rightarrow> (case r of Inl e \<Rightarrow> Some (Inl e, s1) | Inr w \<Rightarrow> to_number rt w s1))
      else if is_symbol (cells_of rt s) v then
        (case rt_type_error rt ''Cannot convectx Symbol to number'' s of
           None \<Rightarrow> None
         | Some (r, s1) \<Rightarrow> (case r of Inl e \<Rightarrow> Some (Inl e, s1) | Inr e \<Rightarrow> Some (Inl e, s1)))
      else None)"

definition f64_finite :: "f64 \<Rightarrow> bool" where
  "f64_finite x = (\<not> f64_is_nan x \<and> \<not> f64_is_infinite x)"

text \<open>\<open>number.floor() as i32\<close> and \<open>as u32\<close> saturate.\<close>

definition to_int32 :: "'w runtime \<Rightarrow> js_value \<Rightarrow> (u32, 'w) effect" where
  "to_int32 rt v =
     (if is_int32 v then e_return (get_int32 v)
      else e_bind (to_number rt v) (\<lambda>x.
        e_return (if f64_finite x then word_of_int (clamp_int (- (2 ^ 31)) (2 ^ 31 - 1) (f64_floor x)) else 0)))"
definition to_uint32 :: "'w runtime \<Rightarrow> js_value \<Rightarrow> (u32, 'w) effect" where
  "to_uint32 rt v =
     (if is_int32 v then e_return (get_int32 v)
      else e_bind (to_number rt v) (\<lambda>x.
        e_return (if f64_finite x then word_of_int (clamp_int 0 (2 ^ 32 - 1) (f64_floor x)) else 0)))"

definition to_primitive :: "'w runtime \<Rightarrow> js_hint \<Rightarrow> js_value \<Rightarrow> (js_value, 'w) effect" where
  "to_primitive rt hint v s = (if is_jsobject rt s v then rt_to_primitive rt hint v s else Some (Inr v, s))"

section \<open>Comparison\<close>

text \<open>Two values that are no numbers: primitive first, then strings or numbers.\<close>

definition compare_primitives :: "'w runtime \<Rightarrow> js_value \<Rightarrow> js_value \<Rightarrow> (int, 'w) effect" where
  "compare_primitives rt px py s =
     (if is_number px \<and> is_number py then Some (Inr (number_compare (number_of px) (number_of py)), s)
      else if is_jsstring (cells_of rt s) px \<and> is_jsstring (cells_of rt s) py then
        map_option (\<lambda>n. (Inr n, s)) (slow_string_cmp (string_of rt s px) (string_of rt s py))
      else e_bind (to_number rt px) (\<lambda>nx. e_bind (to_number rt py) (\<lambda>ny. e_return (number_compare nx ny))) s)"
definition js_compare :: "'w runtime \<Rightarrow> js_value \<Rightarrow> js_value \<Rightarrow> bool \<Rightarrow> (int, 'w) effect" where
  "js_compare rt lhs rhs left_first =
     (if is_number lhs \<and> is_number rhs then e_return (number_compare (number_of lhs) (number_of rhs))
      else if left_first
        then e_bind (to_primitive rt HintNumber lhs) (\<lambda>px. e_bind (to_primitive rt HintNumber rhs) (\<lambda>py. compare_primitives rt px py))
        else e_bind (to_primitive rt HintNumber rhs) (\<lambda>py. e_bind (to_primitive rt HintNumber lhs) (\<lambda>px. compare_primitives rt px py)))"

text \<open>The loop of \<open>abstract_equal\<close>.\<close>

partial_function (option) abstract_equal ::
  "'w runtime \<Rightarrow> js_value \<Rightarrow> js_value \<Rightarrow> 'w store \<Rightarrow> ((js_value + bool) \<times> 'w store) option" where
  "abstract_equal rt lhs rhs s =
     (let h = cells_of rt s;
          nullish = (\<lambda>v. is_undefined v \<or> is_null v)
      in
      if is_int32 lhs \<and> is_int32 rhs then Some (Inr (get_int32 lhs = get_int32 rhs), s)
      else if is_number lhs \<and> is_number rhs then Some (Inr (f64_eq (number_of lhs) (number_of rhs)), s)
      else if nullish lhs \<and> nullish rhs then Some (Inr True, s)
      else if is_jsstring h lhs \<and> is_jsstring h rhs then Some (Inr (string_of rt s lhs = string_of rt s rhs), s)
      else if is_symbol h lhs \<and> is_symbol h rhs then Some (Inr (lhs = rhs), s)
      else if is_jsobject rt s lhs \<and> is_jsobject rt s rhs then Some (Inr (lhs = rhs), s)
      else if is_number lhs \<and> is_jsstring h rhs then
        (case to_number rt rhs s of None \<Rightarrow> None
         | Some (r, s1) \<Rightarrow> (case r of Inl e \<Rightarrow> Some (Inl e, s1) | Inr x \<Rightarrow> abstract_equal rt lhs (from_f64 x) s1))
      else if is_jsstring h lhs \<and> is_number rhs then
        (case to_number rt lhs s of None \<Rightarrow> None
         | Some (r, s1) \<Rightarrow> (case r of Inl e \<Rightarrow> Some (Inl e, s1) | Inr x \<Rightarrow> abstract_equal rt (from_f64 x) rhs s1))
      else if is_bool lhs then
        (case to_number rt lhs s of None \<Rightarrow> None
         | Some (r, s1) \<Rightarrow> (case r of Inl e \<Rightarrow> Some (Inl e, s1) | Inr x \<Rightarrow> abstract_equal rt (from_f64 x) rhs s1))
      else if is_bool rhs then
        (case to_number rt rhs s of None \<Rightarrow> None
         | Some (r, s1) \<Rightarrow> (case r of Inl e \<Rightarrow> Some (Inl e, s1) | Inr x \<Rightarrow> abstract_equal rt lhs (from_f64 x) s1))
      else if (is_jsstring h lhs \<or> is_number lhs) \<and> is_object rhs then
        (case to_primitive rt HintNone rhs s of None \<Rightarrow> None
         | Some (r, s1) \<Rightarrow> (case r of Inl e \<Rightarrow> Some (Inl e, s1) | Inr w \<Rightarrow> abstract_equal rt lhs w s1))
      else if is_object lhs \<and> (is_jsstring h rhs \<or> is_number rhs) then
        (case to_primitive rt HintNone lhs s of None \<Rightarrow> None
         | Some (r, s1) \<Rightarrow> (case r of Inl e \<Rightarrow> Some (Inl e, s1) | Inr w \<Rightarrow> abstract_equal rt w rhs s1))
      else Some (Inr False, s))"

end
