(* ===== verification/Interpreter.thy ===== *)
theory Interpreter
  imports Runtime
begin

text \<open>
  The interpreter (vm/interpreter.rs, vm/interpreter/stack.rs, vm/interpreter/frame.rs). The stack of
  values is one array that all frames share; a frame's \<open>sp\<close> and the stack's \<open>cursor\<close> are indices into it.
  A push past the end of the array and a pop below its start, which the code does not check, are
  \<^term>\<open>None\<close>, as are panics and opcodes that are \<open>todo!()\<close>. The instruction pointer of the running frame
  is an index into its code and is kept in the frame at every instruction.
\<close>

definition STACK_SIZE :: nat where "STACK_SIZE = 16 * 1024"

record frame =
  fr_sp :: nat
  fr_limit :: nat
  fr_callee :: js_value
  fr_ip :: nat
  fr_block :: "nat option"
  fr_this :: js_value
  fr_ctor :: bool
  fr_exit_on_return :: bool
  fr_env :: u64
  fr_try_stack :: "(u64 \<times> nat \<times> nat) list"

record 'w machine =
  mc_stack :: "js_value list"
  mc_cursor :: nat
  mc_frames :: "frame list"
  mc_blocks :: "code_block list"
  mc_store :: "'w store"

text \<open>
  The result of an instruction: an exception, the value the evaluation returns with, or nothing when
  the next instruction follows.
\<close>

type_synonym 'w outcome_i = "((js_value + js_value option) \<times> 'w machine) option"
type_synonym 'w handler = "'w machine \<Rightarrow> 'w outcome_i"

definition next_i :: "'w handler" where "next_i m = Some (Inr None, m)"
definition return_i :: "js_value \<Rightarrow> 'w handler" where "return_i v m = Some (Inr (Some v), m)"
definition throw_i :: "js_value \<Rightarrow> 'w handler" where "throw_i e m = Some (Inl e, m)"
definition panic_i :: "'w handler" where "panic_i m = None"

section \<open>Frames and the stack\<close>

definition frame_of :: "'w machine \<Rightarrow> frame option" where
  "frame_of m = (case mc_frames m of [] \<Rightarrow> None | f # _ \<Rightarrow> Some f)"
definition upd_frame :: "(frame \<Rightarrow> frame) \<Rightarrow> 'w machine \<Rightarrow> 'w machine" where
  "upd_frame g m = (case mc_frames m of [] \<Rightarrow> m | f # fs \<Rightarrow> m\<lparr>mc_frames := g f # fs\<rparr>)"

definition with_frame :: "(frame \<Rightarrow> 'w handler) \<Rightarrow> 'w handler" where
  "with_frame k m = (case frame_of m of None \<Rightarrow> None | Some f \<Rightarrow> k f m)"

definition push_i :: "js_value \<Rightarrow> 'w handler \<Rightarrow> 'w handler" where
  "push_i v k = with_frame (\<lambda>f m.
     if fr_sp f < length (mc_stack m)
     then k (upd_frame (\<lambda>f. f\<lparr>fr_sp := fr_sp f + 1\<rparr>) (m\<lparr>mc_stack := (mc_stack m)[fr_sp f := v]\<rparr>))
     else None)"
definition pop_i :: "(js_value \<Rightarrow> 'w handler) \<Rightarrow> 'w handler" where
  "pop_i k = with_frame (\<lambda>f m.
     if 0 < fr_sp f \<and> fr_sp f \<le> length (mc_stack m)
     then k (mc_stack m ! (fr_sp f - 1)) (upd_frame (\<lambda>f. f\<lparr>fr_sp := fr_sp f - 1\<rparr>) m)
     else None)"

text \<open>\<open>new_frame\<close> (with \<open>iloc_count\<close> 0; it does not store the callee) and \<open>pop_frame\<close>.\<close>

definition new_frame :: "js_value \<Rightarrow> u64 \<Rightarrow> 'w machine \<Rightarrow> 'w machine option" where
  "new_frame callee env m =
     (if mc_cursor m \<ge> length (mc_stack m) then None
      else Some (m\<lparr>mc_frames :=
        \<lparr>fr_sp = mc_cursor m, fr_limit = mc_cursor m, fr_callee = encode_undefined_value, fr_ip = 0, fr_block = None,
         fr_this = encode_empty_value, fr_ctor = False, fr_exit_on_return = True, fr_env = env, fr_try_stack = []\<rparr> # mc_frames m\<rparr>))"
definition pop_frame :: "'w machine \<Rightarrow> (frame \<times> 'w machine) option" where
  "pop_frame m =
     (case mc_frames m of
        [] \<Rightarrow> None
      | f # fs \<Rightarrow> Some (f, m\<lparr>mc_frames := fs, mc_cursor := (case fs of [] \<Rightarrow> 0 | g # _ \<Rightarrow> fr_sp g)\<rparr>))"

section \<open>Operands\<close>

definition block_of :: "'w machine \<Rightarrow> frame \<Rightarrow> code_block option" where
  "block_of m f =
     (case fr_block f of None \<Rightarrow> None | Some b \<Rightarrow> if b < length (mc_blocks m) then Some (mc_blocks m ! b) else None)"
definition with_block :: "(code_block \<Rightarrow> 'w handler) \<Rightarrow> 'w handler" where
  "with_block k = with_frame (\<lambda>f m. case block_of m f of None \<Rightarrow> None | Some b \<Rightarrow> k b m)"

definition set_ip :: "nat \<Rightarrow> 'w machine \<Rightarrow> 'w machine" where
  "set_ip ip = upd_frame (\<lambda>f. f\<lparr>fr_ip := ip\<rparr>)"

definition operand :: "(u32 \<Rightarrow> 'w handler) \<Rightarrow> 'w handler" where
  "operand k = with_frame (\<lambda>f. with_block (\<lambda>b m.
     case read_u32 (cb_code b) (fr_ip f) of None \<Rightarrow> None | Some x \<Rightarrow> k x (set_ip (fr_ip f + 4) m)))"
definition jump_i :: "u32 \<Rightarrow> 'w handler \<Rightarrow> 'w handler" where
  "jump_i off k = with_frame (\<lambda>f m. case ip_offset (fr_ip f) off of None \<Rightarrow> None | Some ip \<Rightarrow> k (set_ip ip m))"

text \<open>Running a part of the rest of the engine, above the values of this frame.\<close>

definition effect_i :: "('a, 'w) effect \<Rightarrow> ('a \<Rightarrow> 'w handler) \<Rightarrow> 'w handler" where
  "effect_i e k m =
     (case e (mc_store m) of
        None \<Rightarrow> None
      | Some (Inl x, s) \<Rightarrow> Some (Inl x, m\<lparr>mc_store := s\<rparr>)
      | Some (Inr x, s) \<Rightarrow> k x (m\<lparr>mc_store := s\<rparr>))"
definition throw_effect :: "(js_value, 'w) effect \<Rightarrow> 'w handler" where
  "throw_effect e = effect_i e throw_i"
definition with_store :: "('w store \<Rightarrow> 'w handler) \<Rightarrow> 'w handler" where
  "with_store k m = k (mc_store m) m"

definition env_of :: "'w machine \<Rightarrow> u64 \<Rightarrow> environment option" where
  "env_of m a = so_envs (mc_store m) a"
definition put_env :: "u64 \<Rightarrow> environment \<Rightarrow> 'w machine \<Rightarrow> 'w machine" where
  "put_env a e m = m\<lparr>mc_store := (mc_store m)\<lparr>so_envs := (so_envs (mc_store m))(a \<mapsto> e)\<rparr>\<rparr>"

section \<open>Variables\<close>

text \<open>\<open>env.parent\<close>, \<open>depth\<close> times; a missing parent is undefined behaviour.\<close>

fun env_up :: "('w store) \<Rightarrow> nat \<Rightarrow> u64 \<Rightarrow> u64 option" where
  "env_up s 0 a = Some a"
| "env_up s (Suc n) a =
     (case so_envs s a of None \<Rightarrow> None | Some e \<Rightarrow> (case ev_parent e of None \<Rightarrow> None | Some p \<Rightarrow> env_up s n p))"

definition get_local_at :: "u64 \<Rightarrow> u32 \<Rightarrow> 'w handler" where
  "get_local_at a ix m =
     (case env_of m a of
        None \<Rightarrow> None
      | Some e \<Rightarrow> if unat ix < length (ev_values e) then push_i (fst (ev_values e ! unat ix)) next_i m else None)"
definition set_local_at :: "'w runtime \<Rightarrow> u64 \<Rightarrow> u32 \<Rightarrow> 'w handler" where
  "set_local_at rt a ix = pop_i (\<lambda>val m.
     case env_of m a of
       None \<Rightarrow> None
     | Some e \<Rightarrow>
         if \<not> unat ix < length (ev_values e) then None
         else if \<not> snd (ev_values e ! unat ix) then
           throw_effect (rt_type_error rt ''Cannot assign to immutable variable'') m
         else next_i (put_env a (e\<lparr>ev_values := (ev_values e)[unat ix := (val, True)]\<rparr>) m))"

definition h_ge0gl :: "'w runtime \<Rightarrow> 'w handler" where
  "h_ge0gl rt = operand (\<lambda>ix. with_frame (\<lambda>f. get_local_at (fr_env f) ix))"
definition h_ge0sl :: "'w runtime \<Rightarrow> 'w handler" where
  "h_ge0sl rt = operand (\<lambda>ix. with_frame (\<lambda>f. set_local_at rt (fr_env f) ix))"
definition h_get_local :: "'w runtime \<Rightarrow> 'w handler" where
  "h_get_local rt = operand (\<lambda>ix. pop_i (\<lambda>v. get_local_at v ix))"
definition h_set_local :: "'w runtime \<Rightarrow> 'w handler" where
  "h_set_local rt = operand (\<lambda>ix. pop_i (\<lambda>v. set_local_at rt v ix))"
definition h_get_env :: "'w runtime \<Rightarrow> 'w handler" where
  "h_get_env rt = operand (\<lambda>depth. with_frame (\<lambda>f m.
     case env_up (mc_store m) (unat depth) (fr_env f) of
       None \<Rightarrow> None
     | Some a \<Rightarrow> push_i (encode_object_value a) next_i m))"
definition h_decl :: "bool \<Rightarrow> 'w runtime \<Rightarrow> 'w handler" where
  "h_decl mutable rt = operand (\<lambda>ix. pop_i (\<lambda>val. with_frame (\<lambda>f m.
     case env_of m (fr_env f) of
       None \<Rightarrow> None
     | Some e \<Rightarrow>
         if unat ix < length (ev_values e)
         then next_i (put_env (fr_env f) (e\<lparr>ev_values := (ev_values e)[unat ix := (val, mutable)]\<rparr>) m)
         else None)))"

section \<open>Values and jumps\<close>

definition h_push :: "js_value \<Rightarrow> 'w handler" where "h_push v = push_i v next_i"
definition h_pop :: "'w handler" where "h_pop = pop_i (\<lambda>_. next_i)"
definition h_dup :: "'w handler" where "h_dup = pop_i (\<lambda>v. push_i v (push_i v next_i))"
definition h_swap :: "'w handler" where "h_swap = pop_i (\<lambda>v1. pop_i (\<lambda>v2. push_i v1 (push_i v2 next_i)))"
definition h_push_literal :: "'w handler" where
  "h_push_literal = operand (\<lambda>ix. with_block (\<lambda>b.
     if unat ix < length (cb_literals b) then push_i (cb_literals b ! unat ix) next_i else panic_i))"
definition h_push_this :: "'w handler" where "h_push_this = with_frame (\<lambda>f. push_i (fr_this f) next_i)"
definition h_push_int :: "'w handler" where "h_push_int = operand (\<lambda>x. push_i (encode_int32 x) next_i)"
definition h_globalthis :: "'w runtime \<Rightarrow> 'w handler" where
  "h_globalthis rt = with_store (\<lambda>s. push_i (rt_global rt (so_world s)) next_i)"

definition h_jmp :: "'w handler" where "h_jmp = operand (\<lambda>off. jump_i off next_i)"
definition h_jmp_if :: "'w runtime \<Rightarrow> bool \<Rightarrow> 'w handler" where
  "h_jmp_if rt cond = operand (\<lambda>off. pop_i (\<lambda>v. with_store (\<lambda>s.
     if to_boolean (cells_of rt s) v = cond then jump_i off next_i else next_i)))"

definition h_ret :: "'w runtime \<Rightarrow> 'w handler" where
  "h_ret rt = with_frame (\<lambda>f.
     let finish = (\<lambda>v0. with_store (\<lambda>s m.
         let v = (if fr_ctor f \<and> \<not> is_jsobject rt s v0 then fr_this f else v0) in
         (case pop_frame m of
            None \<Rightarrow> None
          | Some (prev, m1) \<Rightarrow>
              if fr_exit_on_return prev \<or> mc_frames m1 = [] then return_i v m1 else push_i v next_i m1)))
     in if fr_sp f \<le> fr_limit f then finish encode_undefined_value else pop_i finish)"

section \<open>Operators\<close>

definition in_i32 :: "int \<Rightarrow> bool" where "in_i32 n = (- (2 ^ 31) \<le> n \<and> n < 2 ^ 31)"

text \<open>A checked operation on two \<open>int32\<close>, then one on numbers; the profiles are not modelled.\<close>

definition arith_fast :: "(int \<Rightarrow> int \<Rightarrow> int) \<Rightarrow> (f64 \<Rightarrow> f64 \<Rightarrow> f64) \<Rightarrow> js_value \<Rightarrow> js_value \<Rightarrow> js_value option" where
  "arith_fast iop fop lhs rhs =
     (if is_int32 lhs \<and> is_int32 rhs \<and> in_i32 (iop (sint (get_int32 lhs)) (sint (get_int32 rhs)))
      then Some (encode_int32 (word_of_int (iop (sint (get_int32 lhs)) (sint (get_int32 rhs)))))
      else if is_number lhs \<and> is_number rhs then Some (from_f64 (fop (number_of lhs) (number_of rhs)))
      else None)"
definition to_numbers :: "'w runtime \<Rightarrow> (f64 \<Rightarrow> f64 \<Rightarrow> f64) \<Rightarrow> js_value \<Rightarrow> js_value \<Rightarrow> (js_value, 'w) effect" where
  "to_numbers rt fop lhs rhs =
     e_bind (to_number rt lhs) (\<lambda>x. e_bind (to_number rt rhs) (\<lambda>y. e_return (from_f64 (fop x y))))"

definition add_slowpath :: "'w runtime \<Rightarrow> js_value \<Rightarrow> js_value \<Rightarrow> (js_value, 'w) effect" where
  "add_slowpath rt lhs0 rhs0 =
     e_bind (to_primitive rt HintNone lhs0) (\<lambda>lhs. e_bind (to_primitive rt HintNone rhs0) (\<lambda>rhs s.
       if is_jsstring (cells_of rt s) lhs \<or> is_jsstring (cells_of rt s) rhs
       then e_bind (rt_to_string rt lhs) (\<lambda>x. e_bind (rt_to_string rt rhs) (\<lambda>y. rt_new_string rt (x @ y))) s
       else to_numbers rt (rt_add rt) lhs rhs s))"
definition op_add :: "'w runtime \<Rightarrow> js_value \<Rightarrow> js_value \<Rightarrow> (js_value, 'w) effect" where
  "op_add rt lhs rhs =
     (case arith_fast (+) (rt_add rt) lhs rhs of Some v \<Rightarrow> e_return v | None \<Rightarrow> add_slowpath rt lhs rhs)"
definition op_sub :: "'w runtime \<Rightarrow> js_value \<Rightarrow> js_value \<Rightarrow> (js_value, 'w) effect" where
  "op_sub rt lhs rhs =
     (case arith_fast (-) (rt_sub rt) lhs rhs of Some v \<Rightarrow> e_return v | None \<Rightarrow> to_numbers rt (rt_sub rt) lhs rhs)"
definition op_mul :: "'w runtime \<Rightarrow> js_value \<Rightarrow> js_value \<Rightarrow> (js_value, 'w) effect" where
  "op_mul rt lhs rhs =
     (case arith_fast (*) (rt_mul rt) lhs rhs of Some v \<Rightarrow> e_return v | None \<Rightarrow> to_numbers rt (rt_mul rt) lhs rhs)"
definition op_div :: "'w runtime \<Rightarrow> js_value \<Rightarrow> js_value \<Rightarrow> (js_value, 'w) effect" where
  "op_div rt = to_numbers rt (rt_div rt)"
definition op_rem :: "'w runtime \<Rightarrow> js_value \<Rightarrow> js_value \<Rightarrow> (js_value, 'w) effect" where
  "op_rem rt = to_numbers rt (rt_rem rt)"

definition op_shl :: "'w runtime \<Rightarrow> js_value \<Rightarrow> js_value \<Rightarrow> (js_value, 'w) effect" where
  "op_shl rt lhs rhs = e_bind (to_int32 rt lhs) (\<lambda>l. e_bind (to_uint32 rt rhs) (\<lambda>r.
     e_return (from_f64 (f64_of_int (sint (push_bit (unat (r AND 0x1f)) l))))))"
definition op_shr :: "'w runtime \<Rightarrow> js_value \<Rightarrow> js_value \<Rightarrow> (js_value, 'w) effect" where
  "op_shr rt lhs rhs = e_bind (to_int32 rt lhs) (\<lambda>l. e_bind (to_uint32 rt rhs) (\<lambda>r.
     e_return (from_f64 (f64_of_int (sint (signed_drop_bit (unat (r AND 0x1f)) l))))))"
definition op_ushr :: "'w runtime \<Rightarrow> js_value \<Rightarrow> js_value \<Rightarrow> (js_value, 'w) effect" where
  "op_ushr rt lhs rhs = e_bind (to_uint32 rt lhs) (\<lambda>l. e_bind (to_uint32 rt rhs) (\<lambda>r.
     e_return (from_f64 (f64_of_int (uint (drop_bit (unat (r AND 0x1f)) l))))))"

definition both_int32 :: "js_value \<Rightarrow> js_value \<Rightarrow> bool" where
  "both_int32 lhs rhs = (is_int32 lhs \<and> is_int32 rhs)"
definition op_less :: "'w runtime \<Rightarrow> js_value \<Rightarrow> js_value \<Rightarrow> (js_value, 'w) effect" where
  "op_less rt lhs rhs =
     (if both_int32 lhs rhs then e_return (from_bool (sint (get_int32 lhs) < sint (get_int32 rhs)))
      else e_bind (js_compare rt lhs rhs True) (\<lambda>c. e_return (encode_bool_value (c = CMP_TRUE))))"
definition op_lesseq :: "'w runtime \<Rightarrow> js_value \<Rightarrow> js_value \<Rightarrow> (js_value, 'w) effect" where
  "op_lesseq rt lhs rhs =
     (if both_int32 lhs rhs then e_return (from_bool (sint (get_int32 lhs) \<le> sint (get_int32 rhs)))
      else e_bind (js_compare rt rhs lhs False) (\<lambda>c. e_return (encode_bool_value (c = CMP_FALSE))))"
definition op_greater :: "'w runtime \<Rightarrow> js_value \<Rightarrow> js_value \<Rightarrow> (js_value, 'w) effect" where
  "op_greater rt lhs rhs =
     (if both_int32 lhs rhs then e_return (from_bool (sint (get_int32 rhs) < sint (get_int32 lhs)))
      else e_bind (js_compare rt rhs lhs False) (\<lambda>c. e_return (encode_bool_value (c = CMP_TRUE))))"
definition op_greatereq :: "'w runtime \<Rightarrow> js_value \<Rightarrow> js_value \<Rightarrow> (js_value, 'w) effect" where
  "op_greatereq rt lhs rhs =
     (if both_int32 lhs rhs then e_return (from_bool (sint (get_int32 rhs) \<le> sint (get_int32 lhs)))
      else e_bind (js_compare rt lhs rhs True) (\<lambda>c. e_return (encode_bool_value (c = CMP_FALSE))))"

definition op_eq :: "'w runtime \<Rightarrow> bool \<Rightarrow> js_value \<Rightarrow> js_value \<Rightarrow> (js_value, 'w) effect" where
  "op_eq rt negate lhs rhs =
     e_bind (abstract_equal rt lhs rhs) (\<lambda>b. e_return (encode_bool_value (if negate then \<not> b else b)))"
definition op_stricteq :: "'w runtime \<Rightarrow> bool \<Rightarrow> js_value \<Rightarrow> js_value \<Rightarrow> (js_value, 'w) effect" where
  "op_stricteq rt negate lhs rhs s =
     (let b = strict_equal (cells_of rt s) lhs rhs in e_return (encode_bool_value (if negate then \<not> b else b)) s)"

definition quoted :: "string \<Rightarrow> string" where "quoted s = CHR 0x27 # s @ [CHR 0x27]"

definition op_in :: "'w runtime \<Rightarrow> js_value \<Rightarrow> js_value \<Rightarrow> (js_value, 'w) effect" where
  "op_in rt lhs rhs s =
     (if \<not> is_jsobject rt s rhs then e_bind (rt_type_error rt (quoted ''in'' @ '' requires object'')) e_throw s
      else e_bind (rt_to_symbol rt lhs) (\<lambda>sym. e_bind (rt_has_own rt rhs sym) (\<lambda>b. e_return (encode_bool_value b))) s)"
definition op_instanceof :: "'w runtime \<Rightarrow> js_value \<Rightarrow> js_value \<Rightarrow> (js_value, 'w) effect" where
  "op_instanceof rt lhs rhs s =
     (if \<not> is_jsobject rt s rhs then e_bind (rt_type_error rt (quoted ''instanceof'' @ '' requires object'')) e_throw s
      else if \<not> is_callable rt s rhs then e_bind (rt_type_error rt (quoted ''instanceof'' @ '' requires constructor'')) e_throw s
      else e_bind (rt_has_instance rt rhs lhs) (\<lambda>b. e_return (encode_bool_value b)) s)"

text \<open>An operator takes its left operand from the top of the stack.\<close>

definition h_binary :: "(js_value \<Rightarrow> js_value \<Rightarrow> (js_value, 'w) effect) \<Rightarrow> 'w handler" where
  "h_binary g = pop_i (\<lambda>lhs. pop_i (\<lambda>rhs. effect_i (g lhs rhs) (\<lambda>v. push_i v next_i)))"
definition h_profiled :: "(js_value \<Rightarrow> js_value \<Rightarrow> (js_value, 'w) effect) \<Rightarrow> 'w handler" where
  "h_profiled g = operand (\<lambda>_. h_binary g)"

definition h_bits :: "'w runtime \<Rightarrow> (u32 \<Rightarrow> u32 \<Rightarrow> u32) \<Rightarrow> 'w handler" where
  "h_bits rt g = pop_i (\<lambda>a. effect_i (to_int32 rt a) (\<lambda>x.
     pop_i (\<lambda>b. effect_i (to_int32 rt b) (\<lambda>y. push_i (from_i32 (g x y)) next_i))))"

definition op_neg :: "'w runtime \<Rightarrow> js_value \<Rightarrow> (js_value, 'w) effect" where
  "op_neg rt v = e_bind (to_number rt v) (\<lambda>x. e_return (from_f64 (f64_neg x)))"
definition op_not :: "'w runtime \<Rightarrow> js_value \<Rightarrow> (js_value, 'w) effect" where
  "op_not rt v = e_bind (to_number rt v) (\<lambda>x. e_return (from_i32 (NOT (word_of_int (f64_as_i32 x)))))"
definition op_logical_not :: "'w runtime \<Rightarrow> js_value \<Rightarrow> (js_value, 'w) effect" where
  "op_logical_not rt v s = Some (Inr (encode_bool_value (\<not> to_boolean (cells_of rt s) v)), s)"
definition op_typeof :: "'w runtime \<Rightarrow> js_value \<Rightarrow> (js_value, 'w) effect" where
  "op_typeof rt v s = rt_new_string rt (type_of rt s v) s"
definition h_unary :: "(js_value \<Rightarrow> (js_value, 'w) effect) \<Rightarrow> 'w handler" where
  "h_unary g = pop_i (\<lambda>v. effect_i (g v) (\<lambda>w. push_i w next_i))"

text \<open>\<open>OP_POS\<close> pushes a number twice: the branch for numbers does not leave the handler.\<close>

definition h_pos :: "'w runtime \<Rightarrow> 'w handler" where
  "h_pos rt = pop_i (\<lambda>v.
     let convert = effect_i (to_number rt v) (\<lambda>x. push_i (from_f64 x) next_i) in
     if is_number v then push_i v convert else convert)"

section \<open>Properties\<close>

definition with_name :: "u32 \<Rightarrow> (symbol \<Rightarrow> 'w handler) \<Rightarrow> 'w handler" where
  "with_name ix k = with_block (\<lambda>b. if unat ix < length (cb_names b) then k (cb_names b ! unat ix) else panic_i)"
definition block_ptr :: "frame \<Rightarrow> nat" where "block_ptr f = (case fr_block f of Some b \<Rightarrow> b | None \<Rightarrow> 0)"

definition h_get_by_id :: "'w runtime \<Rightarrow> bool \<Rightarrow> 'w handler" where
  "h_get_by_id rt is_try = operand (\<lambda>n. with_name n (\<lambda>name. operand (\<lambda>fdbk. with_frame (\<lambda>f. pop_i (\<lambda>object.
     effect_i (rt_get_by_id rt (block_ptr f) (unat fdbk) is_try name object) (\<lambda>v. push_i v next_i))))))"

text \<open>A value that is no object loses the store without an error.\<close>

definition h_put_by_id :: "'w runtime \<Rightarrow> 'w handler" where
  "h_put_by_id rt = operand (\<lambda>n. with_name n (\<lambda>name. operand (\<lambda>fdbk. with_frame (\<lambda>f. pop_i (\<lambda>object. pop_i (\<lambda>val.
     with_block (\<lambda>b. with_store (\<lambda>s.
       if is_jsobject rt s object
       then effect_i (rt_put_by_id rt (cb_strict b) (block_ptr f) (unat fdbk) name object val) (\<lambda>_. next_i)
       else next_i))))))))"
definition h_get_by_val :: "'w runtime \<Rightarrow> bool \<Rightarrow> 'w handler" where
  "h_get_by_val rt push_obj = operand (\<lambda>_. pop_i (\<lambda>object. pop_i (\<lambda>key.
     effect_i (rt_get_by_val rt object key) (\<lambda>v.
       if push_obj then push_i object (push_i v next_i) else push_i v next_i))))"
definition h_put_by_val :: "'w runtime \<Rightarrow> 'w handler" where
  "h_put_by_val rt = operand (\<lambda>_. pop_i (\<lambda>object. pop_i (\<lambda>key. pop_i (\<lambda>val. with_block (\<lambda>b.
     effect_i (rt_put_by_val rt (cb_strict b) object key val) (\<lambda>_. next_i))))))"

definition coercible :: "'w runtime \<Rightarrow> js_value \<Rightarrow> 'w handler \<Rightarrow> 'w handler" where
  "coercible rt v k =
     (if is_null v \<or> is_undefined v
      then throw_effect (rt_type_error rt ''null or undefined has no properties'') else k)"
definition delete_from :: "'w runtime \<Rightarrow> symbol \<Rightarrow> js_value \<Rightarrow> 'w handler" where
  "delete_from rt name object = coercible rt object (with_block (\<lambda>b.
     effect_i (rt_to_object rt object) (\<lambda>o1. effect_i (rt_delete rt (cb_strict b) name o1) (\<lambda>r.
       push_i (from_bool r) next_i))))"
definition h_delete_by_id :: "'w runtime \<Rightarrow> 'w handler" where
  "h_delete_by_id rt = operand (\<lambda>n. with_name n (\<lambda>name. pop_i (\<lambda>object. delete_from rt name object)))"
definition h_delete_by_val :: "'w runtime \<Rightarrow> 'w handler" where
  "h_delete_by_val rt = pop_i (\<lambda>object. pop_i (\<lambda>key. effect_i (rt_to_symbol rt key) (\<lambda>name. delete_from rt name object)))"

section \<open>Objects, functions and iteration\<close>

definition h_newobject :: "'w runtime \<Rightarrow> 'w handler" where
  "h_newobject rt = effect_i (rt_new_object rt) (\<lambda>v. push_i v next_i)"

fun put_values :: "'w runtime \<Rightarrow> js_value \<Rightarrow> nat \<Rightarrow> js_value list \<Rightarrow> (unit, 'w) effect" where
  "put_values rt arr index [] = e_return ()"
| "put_values rt arr index (v # vs) = e_bind (rt_put_index rt arr index v) (\<lambda>_. put_values rt arr (index + 1) vs)"

text \<open>The loop of \<open>OP_NEWARRAY\<close>: a spread value contributes all of its elements.\<close>

fun fill_array :: "'w runtime \<Rightarrow> js_value \<Rightarrow> nat \<Rightarrow> nat \<Rightarrow> 'w handler" where
  "fill_array rt arr 0 index = push_i arr next_i"
| "fill_array rt arr (Suc n) index = pop_i (\<lambda>v. with_store (\<lambda>s.
     case rt_spread_values rt (so_world s) v of
       Some vs \<Rightarrow> effect_i (put_values rt arr index vs) (\<lambda>_. fill_array rt arr n (index + length vs))
     | None \<Rightarrow> effect_i (rt_put_index rt arr index v) (\<lambda>_. fill_array rt arr n (index + 1))))"
definition h_newarray :: "'w runtime \<Rightarrow> 'w handler" where
  "h_newarray rt = operand (\<lambda>count. effect_i (rt_new_array rt (unat count)) (\<lambda>arr. fill_array rt arr (unat count) 0))"
definition h_spread :: "'w runtime \<Rightarrow> 'w handler" where "h_spread rt = h_unary (rt_spread rt)"

definition h_get_function :: "'w runtime \<Rightarrow> 'w handler" where
  "h_get_function rt = operand (\<lambda>ix. with_block (\<lambda>b. with_frame (\<lambda>f m.
     if \<not> unat ix < length (cb_codes b) then None
     else (let ptr = cb_codes b ! unat ix in
       if \<not> ptr < length (mc_blocks m) then None
       else (let code = mc_blocks m ! ptr in
         effect_i (rt_new_function rt ptr (cb_is_async code \<or> cb_is_generator code) (fr_env f)) (\<lambda>v. push_i v next_i) m)))))"

definition h_forin_setup :: "'w runtime \<Rightarrow> 'w handler" where
  "h_forin_setup rt = operand (\<lambda>off. pop_i (\<lambda>v.
     if is_null v \<or> is_undefined v then jump_i off (push_i encode_empty_value next_i)
     else effect_i (rt_new_iterator rt v) (\<lambda>it. push_i it next_i)))"
definition h_forin_enumerate :: "'w runtime \<Rightarrow> 'w handler" where
  "h_forin_enumerate rt = operand (\<lambda>off. pop_i (\<lambda>it. push_i it (effect_i (rt_iterator_next rt it) (\<lambda>r.
     case r of
       Some desc \<Rightarrow> effect_i (rt_new_string rt desc) (\<lambda>v. push_i v next_i)
     | None \<Rightarrow> push_i encode_empty_value (jump_i off next_i)))))"

section \<open>Calls\<close>

definition arg_of :: "js_value list \<Rightarrow> nat \<Rightarrow> js_value" where
  "arg_of args i = (if i < length args then args ! i else encode_undefined_value)"

text \<open>\<open>args_.size() as u32 - i as u32\<close> wraps when there are fewer arguments than parameters.\<close>

definition rest_array :: "'w runtime \<Rightarrow> nat \<Rightarrow> js_value list \<Rightarrow> (js_value, 'w) effect" where
  "rest_array rt n args =
     e_bind (rt_new_array rt (unat (of_nat (length args) - of_nat n :: u32))) (\<lambda>arr.
       e_bind (put_values rt arr 0 (drop n args)) (\<lambda>_. e_return arr))"

text \<open>A store to a slot of the new environment; an index past its end panics.\<close>

definition put_env_slot :: "u64 \<Rightarrow> nat \<Rightarrow> js_value \<Rightarrow> (unit, 'w) effect" where
  "put_env_slot a ix v s =
     (case so_envs s a of
        None \<Rightarrow> None
      | Some e \<Rightarrow>
          if ix < length (ev_values e)
          then Some (Inr (), s\<lparr>so_envs := (so_envs s)(a \<mapsto> e\<lparr>ev_values := (ev_values e)[ix := (v, snd (ev_values e ! ix))]\<rparr>)\<rparr>)
          else None)"

definition env_new :: "'w runtime \<Rightarrow> nat \<Rightarrow> u64 \<Rightarrow> (u64, 'w) effect" where
  "env_new rt cap parent = e_bind (rt_new_env rt) (\<lambda>a s.
     Some (Inr a, s\<lparr>so_envs := (so_envs s)(a \<mapsto> \<lparr>ev_parent = Some parent, ev_values = replicate cap (encode_undefined_value, True)\<rparr>)\<rparr>))"

fun put_params :: "u64 \<Rightarrow> nat \<Rightarrow> js_value list \<Rightarrow> (unit, 'w) effect" where
  "put_params a 0 args = e_return ()"
| "put_params a (Suc n) args = e_bind (put_params a n args) (\<lambda>_. put_env_slot a n (arg_of args n))"

definition this_for_call :: "'w runtime \<Rightarrow> bool \<Rightarrow> js_value \<Rightarrow> 'w store \<Rightarrow> js_value" where
  "this_for_call rt strict this s =
     (if strict \<and> \<not> is_object this then encode_undefined_value
      else if is_undefined this then rt_global rt (so_world s)
      else this)"

definition setup_for_vm_call ::
  "'w runtime \<Rightarrow> code_block \<Rightarrow> u64 \<Rightarrow> js_value \<Rightarrow> js_value list \<Rightarrow> (js_value \<times> u64, 'w) effect" where
  "setup_for_vm_call rt code parent this args =
     e_bind (env_new rt (cb_param_count code + cb_var_count code + (if cb_rest_at code = None then 0 else 1)
         + (if cb_use_arguments code then 1 else 0)) parent) (\<lambda>a.
     e_bind (put_params a (cb_param_count code) args) (\<lambda>_.
     e_bind (case cb_rest_at code of
         None \<Rightarrow> e_return ()
       | Some rest \<Rightarrow> e_bind (rest_array rt (cb_param_count code) args) (\<lambda>arr. put_env_slot a rest arr)) (\<lambda>_.
     e_bind (if cb_use_arguments code
         then e_bind (rt_arguments_object rt a (cb_param_count code) args) (\<lambda>v. put_env_slot a (cb_args_at code) v)
         else e_return ()) (\<lambda>_ s. Some (Inr (this_for_call rt (cb_strict code) this s, a), s)))))"

text \<open>A new frame on a function with bytecode.\<close>

definition enter_frame :: "'w runtime \<Rightarrow> js_value \<Rightarrow> nat \<Rightarrow> js_value \<Rightarrow> u64 \<Rightarrow> bool \<Rightarrow> bool \<Rightarrow> 'w handler" where
  "enter_frame rt func code this env ctor exit m =
     (case new_frame func env m of
        None \<Rightarrow> throw_effect (rt_range_error rt ''stack overflow'') m
      | Some m1 \<Rightarrow> next_i (upd_frame (\<lambda>f. f\<lparr>fr_block := Some code, fr_this := this, fr_ctor := ctor, fr_exit_on_return := exit\<rparr>) m1))"

text \<open>The arguments stay in the stack above \<open>sp\<close>.\<close>

definition pop_args :: "nat \<Rightarrow> (js_value list \<Rightarrow> 'w handler) \<Rightarrow> 'w handler" where
  "pop_args argc k = with_frame (\<lambda>f m.
     if argc \<le> fr_sp f \<and> fr_sp f \<le> length (mc_stack m)
     then k (take argc (drop (fr_sp f - argc) (mc_stack m))) (upd_frame (\<lambda>f. f\<lparr>fr_sp := fr_sp f - argc\<rparr>) m)
     else None)"

definition peek_ops :: "'w machine \<Rightarrow> frame \<Rightarrow> opcode \<Rightarrow> opcode \<Rightarrow> bool" where
  "peek_ops m f op1 op2 =
     (case block_of m f of
        None \<Rightarrow> False
      | Some b \<Rightarrow> fr_ip f + 1 < length (cb_code b) \<and> cb_code b ! fr_ip f = op1 \<and> cb_code b ! (fr_ip f + 1) = op2)"

definition sync_cursor :: "'w machine \<Rightarrow> 'w machine" where
  "sync_cursor m = (case frame_of m of None \<Rightarrow> m | Some f \<Rightarrow> m\<lparr>mc_cursor := fr_sp f\<rparr>)"

text \<open>\<open>this\<close> is what the function is called with; the frame that calls is left first when the call is in tail position.\<close>

definition call_function :: "'w runtime \<Rightarrow> js_value \<Rightarrow> js_value \<Rightarrow> js_value list \<Rightarrow> bool \<Rightarrow> ('w machine \<Rightarrow> frame \<Rightarrow> bool) \<Rightarrow> 'w handler" where
  "call_function rt func this args ctor tail = with_store (\<lambda>s.
     case rt_function rt (so_world s) func of
       NativeFunction \<Rightarrow> effect_i (rt_call rt func this args ctor) (\<lambda>v. push_i v next_i)
     | VmFunction ptr scope \<Rightarrow> (\<lambda>m.
         if \<not> ptr < length (mc_blocks m) then None
         else effect_i (setup_for_vm_call rt (mc_blocks m ! ptr) scope this args) (\<lambda>(this1, env). with_frame (\<lambda>f m1.
           if \<not> fr_exit_on_return f \<and> tail m1 f
           then (case pop_frame m1 of
                   None \<Rightarrow> None
                 | Some (prev, m2) \<Rightarrow> enter_frame rt func ptr this1 env ctor (fr_exit_on_return prev) m2)
           else enter_frame rt func ptr this1 env ctor False m1)) m))"

definition h_call :: "'w runtime \<Rightarrow> bool \<Rightarrow> 'w handler" where
  "h_call rt tail = operand (\<lambda>argc. pop_args (unat argc) (\<lambda>args. pop_i (\<lambda>func. pop_i (\<lambda>this. with_store (\<lambda>s m.
     if \<not> is_callable rt s func then throw_effect (rt_type_error rt ''not a callable object'') m
     else call_function rt func this args False (\<lambda>m1 f. tail \<or> peek_ops m1 f OP_POP OP_RET) (sync_cursor m))))))"

text \<open>\<open>OP_NEW\<close> leaves the cursor above the arguments.\<close>

definition h_new :: "'w runtime \<Rightarrow> bool \<Rightarrow> 'w handler" where
  "h_new rt tail = operand (\<lambda>argc. pop_args (unat argc) (\<lambda>args. pop_i (\<lambda>func. pop_i (\<lambda>_. with_store (\<lambda>s.
     if \<not> is_callable rt s func then throw_effect (rt_type_error rt ''not a callable constructor object '')
     else effect_i (rt_construct_object rt func) (\<lambda>object. call_function rt func object args True (\<lambda>_ _. tail)))))))"

section \<open>Exceptions\<close>

definition h_throw :: "'w handler" where "h_throw = pop_i throw_i"
definition h_push_catch :: "'w handler" where
  "h_push_catch = operand (\<lambda>off. with_frame (\<lambda>f m.
     case ip_offset (fr_ip f) off of
       None \<Rightarrow> None
     | Some target \<Rightarrow> next_i (upd_frame (\<lambda>f. f\<lparr>fr_try_stack := (fr_env f, target, fr_sp f) # fr_try_stack f\<rparr>) m)))"
definition h_pop_catch :: "'w handler" where
  "h_pop_catch = with_frame (\<lambda>f m.
     if fr_try_stack f = [] then None else next_i (upd_frame (\<lambda>f. f\<lparr>fr_try_stack := tl (fr_try_stack f)\<rparr>) m))"

text \<open>
  \<open>unwind\<close>: the frames are popped down to one with a handler; a frame that was entered from native code
  is the last one that is popped. The flag says whether there is a handler.
\<close>

function unwind :: "'w machine \<Rightarrow> bool \<times> 'w machine" where
  "unwind m =
     (case mc_frames m of
        [] \<Rightarrow> (False, m)
      | f # fs \<Rightarrow>
          if fr_try_stack f \<noteq> [] then (True, m)
          else (let m1 = m\<lparr>mc_frames := fs, mc_cursor := (case fs of [] \<Rightarrow> 0 | g # _ \<Rightarrow> fr_sp g)\<rparr> in
            if fr_exit_on_return f then (False, m1) else unwind m1))"
  by pat_completeness auto
termination by (relation "measure (\<lambda>m. length (mc_frames m))") auto

text \<open>What \<open>eval_internal\<close> does with an exception: to the handler, with the exception on its stack.\<close>

definition handle_exception :: "js_value \<Rightarrow> 'w machine \<Rightarrow> ((js_value + unit) \<times> 'w machine) option" where
  "handle_exception e m =
     (case unwind m of
        (False, m1) \<Rightarrow> Some (Inl e, m1)
      | (True, m1) \<Rightarrow>
          (case frame_of m1 of
             None \<Rightarrow> None
           | Some f \<Rightarrow>
               (case fr_try_stack f of
                  [] \<Rightarrow> None
                | (env, ip, sp) # ts \<Rightarrow>
                    map_option (\<lambda>(_, m2). (Inr (), m2))
                      (push_i e next_i (upd_frame (\<lambda>f. f\<lparr>fr_try_stack := ts, fr_env := env, fr_ip := ip, fr_sp := sp\<rparr>) m1)))))"

section \<open>Builtins\<close>

text \<open>\<open>reflect_apply\<close> (vm/builtins.rs), the only entry of \<open>BUILTINS\<close>.\<close>

definition reflect_apply :: "'w runtime \<Rightarrow> bool \<Rightarrow> 'w handler" where
  "reflect_apply rt construct = pop_i (\<lambda>args. pop_i (\<lambda>func. pop_i (\<lambda>this. with_store (\<lambda>s.
     if \<not> is_jsobject rt s args then throw_effect (rt_type_error rt ''expected array as arguments'')
     else effect_i (rt_array_values rt args) (\<lambda>r.
       case r of
         None \<Rightarrow> throw_effect (rt_type_error rt ''not a callable object'')
       | Some argsv \<Rightarrow> with_store (\<lambda>s1.
           if \<not> is_callable rt s1 func then throw_effect (rt_type_error rt ''not a callable object'')
           else effect_i (rt_call rt func this argsv construct) (\<lambda>v. push_i v next_i)))))))"
definition h_call_builtin :: "'w runtime \<Rightarrow> 'w handler" where
  "h_call_builtin rt = operand (\<lambda>argc. operand (\<lambda>builtin_id. operand (\<lambda>effect.
     if builtin_id = 0 then reflect_apply rt ((ucast effect :: u8) \<noteq> 0) else panic_i)))"

definition f64_trunc_value :: "f64 \<Rightarrow> f64" where
  "f64_trunc_value x =
     (if f64_is_infinite x then x
      else if f64_trunc x = 0 then (if f64_negative x then 0x8000000000000000 else 0)
      else f64_of_int (f64_trunc x))"
definition op_to_integer :: "'w runtime \<Rightarrow> js_value \<Rightarrow> (js_value, 'w) effect" where
  "op_to_integer rt v = e_bind (to_number rt v) (\<lambda>x.
     e_return (if f64_is_nan x \<or> f64_eq x 0 then encode_int32 0 else from_f64 (f64_trunc_value x)))"
definition h_to_object :: "'w runtime \<Rightarrow> 'w handler" where
  "h_to_object rt = pop_i (\<lambda>target. pop_i (\<lambda>message.
     if is_null target \<or> is_undefined target
     then effect_i (rt_to_string rt message) (\<lambda>msg. throw_effect (rt_type_error rt msg))
     else effect_i (rt_to_object rt target) (\<lambda>v. push_i v next_i)))"
definition op_is_callable :: "'w runtime \<Rightarrow> js_value \<Rightarrow> (js_value, 'w) effect" where
  "op_is_callable rt v s = Some (Inr (from_bool (is_callable rt s v)), s)"
definition op_is_object :: "'w runtime \<Rightarrow> js_value \<Rightarrow> (js_value, 'w) effect" where
  "op_is_object rt v s = Some (Inr (from_bool (is_jsobject rt s v)), s)"

text \<open>Generators leave the evaluation with a code for what they want.\<close>

datatype func_ret = Await | YieldStar | FuncYield
definition func_ret_value :: "func_ret \<Rightarrow> js_value" where
  "func_ret_value r = encode_native_u32 (case r of Await \<Rightarrow> 0 | YieldStar \<Rightarrow> 1 | FuncYield \<Rightarrow> 2)"

section \<open>The loop\<close>

text \<open>The opcodes that are missing here are \<open>todo!()\<close>.\<close>

definition handlers :: "'w runtime \<Rightarrow> (opcode \<times> 'w handler) list" where
  "handlers rt =
     [(OP_GE0GL, h_ge0gl rt), (OP_GE0SL, h_ge0sl rt), (OP_GET_LOCAL, h_get_local rt), (OP_SET_LOCAL, h_set_local rt),
      (OP_GET_ENV, h_get_env rt), (OP_JMP, h_jmp), (OP_JMP_IF_FALSE, h_jmp_if rt False), (OP_JMP_IF_TRUE, h_jmp_if rt True),
      (OP_POP, h_pop), (OP_PUSH_TRUE, h_push (encode_bool_value True)), (OP_PUSH_FALSE, h_push (encode_bool_value False)),
      (OP_PUSH_LITERAL, h_push_literal), (OP_PUSH_THIS, h_push_this), (OP_PUSH_INT, h_push_int),
      (OP_PUSH_NAN, h_push encode_nan_value), (OP_PUSH_NULL, h_push encode_null_value), (OP_RET, h_ret rt),
      (OP_ADD, h_profiled (op_add rt)), (OP_SUB, h_profiled (op_sub rt)), (OP_DIV, h_profiled (op_div rt)),
      (OP_MUL, h_profiled (op_mul rt)), (OP_REM, h_profiled (op_rem rt)),
      (OP_SHL, h_binary (op_shl rt)), (OP_SHR, h_binary (op_shr rt)), (OP_USHR, h_binary (op_ushr rt)),
      (OP_LESS, h_binary (op_less rt)), (OP_LESSEQ, h_binary (op_lesseq rt)),
      (OP_GREATER, h_binary (op_greater rt)), (OP_GREATEREQ, h_binary (op_greatereq rt)),
      (OP_GET_BY_ID, h_get_by_id rt False), (OP_TRY_GET_BY_ID, h_get_by_id rt True), (OP_PUT_BY_ID, h_put_by_id rt),
      (OP_CALL, h_call rt False), (OP_TAILCALL, h_call rt True), (OP_NEW, h_new rt False), (OP_TAILNEW, h_new rt True),
      (OP_DUP, h_dup), (OP_SWAP, h_swap), (OP_NEG, h_unary (op_neg rt)),
      (OP_EQ, h_binary (op_eq rt False)), (OP_STRICTEQ, h_binary (op_stricteq rt False)),
      (OP_NEQ, h_binary (op_eq rt True)), (OP_NSTRICTEQ, h_binary (op_stricteq rt True)),
      (OP_PUT_BY_VAL, h_put_by_val rt), (OP_GET_BY_VAL, h_get_by_val rt False), (OP_GET_BY_VAL_PUSH_OBJ, h_get_by_val rt True),
      (OP_INSTANCEOF, h_binary (op_instanceof rt)), (OP_IN, h_binary (op_in rt)),
      (OP_FORIN_SETUP, h_forin_setup rt), (OP_FORIN_ENUMERATE, h_forin_enumerate rt), (OP_FORIN_LEAVE, h_pop),
      (OP_THROW, h_throw), (OP_GLOBALTHIS, h_globalthis rt), (OP_NEWOBJECT, h_newobject rt),
      (OP_PUSH_CATCH, h_push_catch), (OP_POP_CATCH, h_pop_catch),
      (OP_LOGICAL_NOT, h_unary (op_logical_not rt)), (OP_NOT, h_unary (op_not rt)), (OP_POS, h_pos rt),
      (OP_DECL_CONST, h_decl False rt), (OP_DECL_LET, h_decl True rt),
      (OP_DELETE_BY_ID, h_delete_by_id rt), (OP_DELETE_BY_VAL, h_delete_by_val rt),
      (OP_AND, h_bits rt (AND)), (OP_OR, h_bits rt (OR)), (OP_XOR, h_bits rt (XOR)),
      (OP_GET_FUNCTION, h_get_function rt), (OP_PUSH_UNDEF, h_push encode_undefined_value), (OP_NEWARRAY, h_newarray rt),
      (OP_CALL_BUILTIN, h_call_builtin rt), (OP_SPREAD, h_spread rt), (OP_TYPEOF, h_unary (op_typeof rt)),
      (OP_TO_INTEGER_OR_INFINITY, h_unary (op_to_integer rt)), (OP_TO_LENGTH, h_unary (op_to_integer rt)),
      (OP_TO_OBJECT, h_to_object rt), (OP_IS_CALLABLE, h_unary (op_is_callable rt)), (OP_IS_CTOR, h_unary (op_is_callable rt)),
      (OP_INITIAL_YIELD, return_i encode_undefined_value), (OP_YIELD, return_i (func_ret_value FuncYield)),
      (OP_YIELD_STAR, return_i (func_ret_value YieldStar)), (OP_AWAIT, return_i (func_ret_value Await)),
      (OP_IS_OBJECT, h_unary (op_is_object rt))]"

text \<open>One round of the loop of \<open>eval\<close>.\<close>

definition step :: "'w runtime \<Rightarrow> 'w handler" where
  "step rt = with_frame (\<lambda>f. with_block (\<lambda>b m.
     case read_u8 (cb_code b) (fr_ip f) of
       None \<Rightarrow> None
     | Some op \<Rightarrow>
         (case map_of (handlers rt) op of
            None \<Rightarrow> None
          | Some h \<Rightarrow> h (set_ip (fr_ip f + 1) (m\<lparr>mc_cursor := fr_sp f\<rparr>)))))"

text \<open>\<open>eval\<close> and the loop of \<open>eval_internal\<close>; \<^term>\<open>None\<close> is a panic or an evaluation that does not end.\<close>

partial_function (option) eval :: "'w runtime \<Rightarrow> 'w machine \<Rightarrow> ((js_value + js_value) \<times> 'w machine) option" where
  "eval rt m =
     (case step rt m of
        None \<Rightarrow> None
      | Some (r, m1) \<Rightarrow>
          (case r of
             Inl e \<Rightarrow> Some (Inl e, m1)
           | Inr v \<Rightarrow> (case v of None \<Rightarrow> eval rt m1 | Some x \<Rightarrow> Some (Inr x, m1))))"

partial_function (option) eval_frames :: "'w runtime \<Rightarrow> 'w machine \<Rightarrow> ((js_value + js_value) \<times> 'w machine) option" where
  "eval_frames rt m =
     (case eval rt m of
        None \<Rightarrow> None
      | Some (r, m1) \<Rightarrow>
          (case r of
             Inr v \<Rightarrow> Some (Inr v, m1)
           | Inl e \<Rightarrow>
               (case handle_exception e m1 of
                  None \<Rightarrow> None
                | Some (r2, m2) \<Rightarrow> (case r2 of Inl x \<Rightarrow> Some (Inl x, m2) | Inr _ \<Rightarrow> eval_frames rt m2))))"

definition eval_internal ::
  "'w runtime \<Rightarrow> nat \<Rightarrow> js_value \<Rightarrow> bool \<Rightarrow> u64 \<Rightarrow> js_value \<Rightarrow> 'w machine \<Rightarrow> ((js_value + js_value) \<times> 'w machine) option" where
  "eval_internal rt code this ctor scope callee m =
     (case new_frame callee scope m of
        None \<Rightarrow>
          (case rt_range_error rt ''stack overflow'' (mc_store m) of
             None \<Rightarrow> None
           | Some (Inl e, s) \<Rightarrow> Some (Inl e, m\<lparr>mc_store := s\<rparr>)
           | Some (Inr e, s) \<Rightarrow> Some (Inl e, m\<lparr>mc_store := s\<rparr>))
      | Some m1 \<Rightarrow>
          eval_frames rt (upd_frame (\<lambda>f. f\<lparr>fr_block := Some code, fr_this := this, fr_ctor := ctor, fr_exit_on_return := True\<rparr>) m1))"

text \<open>\<open>perform_vm_call\<close>: a call from native code.\<close>

definition perform_vm_call ::
  "'w runtime \<Rightarrow> nat \<Rightarrow> u64 \<Rightarrow> js_value \<Rightarrow> js_value list \<Rightarrow> bool \<Rightarrow> js_value \<Rightarrow> 'w machine \<Rightarrow> ((js_value + js_value) \<times> 'w machine) option" where
  "perform_vm_call rt ptr parent this args ctor callee m =
     (if \<not> ptr < length (mc_blocks m) then None
      else (case setup_for_vm_call rt (mc_blocks m ! ptr) parent this args (mc_store m) of
         None \<Rightarrow> None
       | Some (Inl e, s) \<Rightarrow> Some (Inl e, m\<lparr>mc_store := s\<rparr>)
       | Some (Inr (this1, scope), s) \<Rightarrow> eval_internal rt ptr this1 ctor scope callee (m\<lparr>mc_store := s\<rparr>)))"

end
