(* ===== verification/Machine_Steps.thy ===== *)
theory Machine_Steps
  imports Interpreter
begin

text \<open>
  Reasoning about the running frame: its configuration is an instruction pointer, the values below its
  stack pointer and the store. The lemmas turn every handler into a step between configurations; what
  lies above the stack pointer does not matter.
\<close>

record run_ctx =
  rc_frame :: frame
  rc_frames :: "frame list"
  rc_blocks :: "code_block list"
  rc_size :: nat

definition in_state :: "run_ctx \<Rightarrow> nat \<Rightarrow> js_value list \<Rightarrow> 'w store \<Rightarrow> 'w machine \<Rightarrow> bool" where
  "in_state C ip st s m \<longleftrightarrow>
     mc_frames m = (rc_frame C)\<lparr>fr_ip := ip, fr_sp := length st\<rparr> # rc_frames C \<and> length (mc_stack m) = rc_size C \<and>
     length st \<le> rc_size C \<and> take (length st) (mc_stack m) = st \<and> mc_blocks m = rc_blocks C \<and> mc_store m = s"

definition ctx_block :: "run_ctx \<Rightarrow> code_block option" where
  "ctx_block C =
     (case fr_block (rc_frame C) of
        None \<Rightarrow> None
      | Some b \<Rightarrow> if b < length (rc_blocks C) then Some (rc_blocks C ! b) else None)"

text \<open>What a handler answers: the next configuration, or an exception with the values of \<open>B\<close> still on the stack.\<close>

definition lands :: "run_ctx \<Rightarrow> nat \<Rightarrow> js_value list \<Rightarrow> 'w store \<Rightarrow> 'w outcome_i \<Rightarrow> bool" where
  "lands C ip st s r \<longleftrightarrow> (\<exists>m. r = Some (Inr None, m) \<and> in_state C ip st s m)"
definition fails :: "run_ctx \<Rightarrow> js_value list \<Rightarrow> js_value \<Rightarrow> 'w store \<Rightarrow> 'w outcome_i \<Rightarrow> bool" where
  "fails C B e s r \<longleftrightarrow> (\<exists>m ip ys. r = Some (Inl e, m) \<and> in_state C ip (B @ ys) s m)"

definition does :: "run_ctx \<Rightarrow> 'w handler \<Rightarrow> nat \<Rightarrow> js_value list \<Rightarrow> 'w store \<Rightarrow> ('w outcome_i \<Rightarrow> bool) \<Rightarrow> bool" where
  "does C k ip st s Q \<longleftrightarrow> (\<forall>m. in_state C ip st s m \<longrightarrow> Q (k m))"

named_theorems doing \<open>rules for the parts of handlers\<close>

section \<open>Rules\<close>

lemma does_next [doing]: "does C next_i ip st s (lands C ip st s)"
  by (auto simp: does_def lands_def next_i_def)

lemma does_throw [doing]: "does C (throw_i e) ip (B @ ys) s (fails C B e s)"
  by (auto simp: does_def fails_def throw_i_def)

lemma does_frame [doing]:
  "does C (k ((rc_frame C)\<lparr>fr_ip := ip, fr_sp := length st\<rparr>)) ip st s Q \<Longrightarrow> does C (with_frame k) ip st s Q"
  by (auto simp: does_def with_frame_def frame_of_def in_state_def)

lemma does_block [doing]:
  "ctx_block C = Some b \<Longrightarrow> does C (k b) ip st s Q \<Longrightarrow> does C (with_block k) ip st s Q"
  by (auto simp: does_def with_block_def with_frame_def frame_of_def in_state_def block_of_def ctx_block_def
      split: option.splits if_splits)

lemma does_store [doing]: "does C (k s) ip st s Q \<Longrightarrow> does C (with_store k) ip st s Q"
  by (auto simp: does_def with_store_def in_state_def)

lemma does_pop [doing]: "does C (k v) ip st s Q \<Longrightarrow> does C (pop_i k) ip (st @ [v]) s Q"
  unfolding does_def
proof (intro allI impI)
  fix m assume k: "\<forall>m. in_state C ip st s m \<longrightarrow> Q (k v m)" and m: "in_state C ip (st @ [v]) s m"
  from m have f: "mc_frames m = (rc_frame C)\<lparr>fr_ip := ip, fr_sp := Suc (length st)\<rparr> # rc_frames C"
    and t: "take (Suc (length st)) (mc_stack m) = st @ [v]" and l: "Suc (length st) \<le> length (mc_stack m)"
    by (simp_all add: in_state_def)
  have v: "mc_stack m ! length st = v"
    using t l by (metis append_Nil2 length_append_singleton lessI nth_append_length nth_take)
  have st: "take (length st) (mc_stack m) = st"
    using arg_cong [OF t, of "take (length st)"] by (simp add: min_def)
  let ?m = "upd_frame (\<lambda>f. f\<lparr>fr_sp := fr_sp f - 1\<rparr>) m"
  have "in_state C ip st s ?m" using m f st by (simp add: in_state_def upd_frame_def)
  moreover have "pop_i k m = k v ?m" using f v l by (simp add: pop_i_def with_frame_def frame_of_def)
  ultimately show "Q (pop_i k m)" using k by simp
qed

lemma does_push [doing]:
  "length st < rc_size C \<Longrightarrow> does C k ip (st @ [v]) s Q \<Longrightarrow> does C (push_i v k) ip st s Q"
  unfolding does_def
proof (intro allI impI)
  fix m assume k: "\<forall>m. in_state C ip (st @ [v]) s m \<longrightarrow> Q (k m)" and m: "in_state C ip st s m" and l: "length st < rc_size C"
  from m have f: "mc_frames m = (rc_frame C)\<lparr>fr_ip := ip, fr_sp := length st\<rparr> # rc_frames C"
    and t: "take (length st) (mc_stack m) = st" and n: "length (mc_stack m) = rc_size C"
    by (simp_all add: in_state_def)
  let ?m = "upd_frame (\<lambda>f. f\<lparr>fr_sp := fr_sp f + 1\<rparr>) (m\<lparr>mc_stack := (mc_stack m)[length st := v]\<rparr>)"
  have "take (Suc (length st)) ((mc_stack m)[length st := v]) = st @ [v]"
    using t l n by (simp add: take_Suc_conv_app_nth)
  then have "in_state C ip (st @ [v]) s ?m" using m f l n by (simp add: in_state_def upd_frame_def)
  moreover have "push_i v k m = k ?m" using f l n by (simp add: push_i_def with_frame_def frame_of_def)
  ultimately show "Q (push_i v k m)" using k by simp
qed

lemma in_state_set_ip: "in_state C ip st s m \<Longrightarrow> in_state C ip' st s (set_ip ip' m)"
  by (simp add: in_state_def set_ip_def upd_frame_def)

lemma does_operand [doing]:
  assumes "ctx_block C = Some b" "read_u32 (cb_code b) ip = Some x" "does C (k x) (ip + 4) st s Q"
  shows "does C (operand k) ip st s Q"
  unfolding operand_def
proof (rule does_frame, rule does_block [OF assms(1)])
  show "does C (\<lambda>m. case read_u32 (cb_code b) (fr_ip ((rc_frame C)\<lparr>fr_ip := ip, fr_sp := length st\<rparr>)) of
       None \<Rightarrow> None | Some x \<Rightarrow> k x (set_ip (fr_ip ((rc_frame C)\<lparr>fr_ip := ip, fr_sp := length st\<rparr>) + 4) m)) ip st s Q"
    using assms(2,3) in_state_set_ip [of C ip st s _ "ip + 4"] by (simp add: does_def)
qed

lemma does_jump [doing]:
  assumes "ip_offset ip off = Some ip'" "does C k ip' st s Q"
  shows "does C (jump_i off k) ip st s Q"
  unfolding jump_i_def
  by (rule does_frame) (use assms in_state_set_ip [of C ip st s _ ip'] in \<open>simp add: does_def\<close>)

lemma in_state_store: "in_state C ip st s m \<Longrightarrow> in_state C ip st s' (m\<lparr>mc_store := s'\<rparr>)"
  by (simp add: in_state_def)

lemma does_effect:
  "e s = Some (Inr x, s') \<Longrightarrow> does C (k x) ip st s' Q \<Longrightarrow> does C (effect_i e k) ip st s Q"
  using in_state_store [of C ip st s _ s'] by (auto simp: does_def effect_i_def in_state_def)

lemma does_effect_throw:
  assumes "e s = Some (Inl x, s')"
  shows "does C (effect_i e k) ip (B @ ys) s (fails C B x s')"
  unfolding does_def fails_def
proof (intro allI impI)
  fix m assume m: "in_state C ip (B @ ys) s m"
  then have "effect_i e k m = Some (Inl x, m\<lparr>mc_store := s'\<rparr>)" using assms by (simp add: effect_i_def in_state_def)
  then show "\<exists>m' ip' zs. effect_i e k m = Some (Inl x, m') \<and> in_state C ip' (B @ zs) s' m'"
    using in_state_store [OF m] by blast
qed

section \<open>Code\<close>

definition code_at :: "run_ctx \<Rightarrow> nat \<Rightarrow> u8 list \<Rightarrow> bool" where
  "code_at C ip bs \<longleftrightarrow>
     (case ctx_block C of
        None \<Rightarrow> False
      | Some b \<Rightarrow> ip + length bs \<le> length (cb_code b) \<and> take (length bs) (drop ip (cb_code b)) = bs)"

lemma code_at_append: "code_at C ip (xs @ ys) \<longleftrightarrow> code_at C ip xs \<and> code_at C (ip + length xs) ys"
  by (auto simp: code_at_def take_add add.commute split: option.splits)

lemma code_at_Cons: "code_at C ip (x # xs) \<longleftrightarrow> code_at C ip [x] \<and> code_at C (ip + 1) xs"
  using code_at_append [of C ip "[x]" xs] by simp

lemma code_at_op:
  assumes "code_at C ip (op # bs)"
  obtains b where "ctx_block C = Some b" "read_u8 (cb_code b) ip = Some op"
proof -
  from assms obtain b where b: "ctx_block C = Some b" "ip + length (op # bs) \<le> length (cb_code b)"
      "take (length (op # bs)) (drop ip (cb_code b)) = op # bs"
    by (auto simp: code_at_def split: option.splits)
  have "drop ip (cb_code b) ! 0 = op" using b(3) by (metis length_Cons nth_Cons_0 nth_take zero_less_Suc)
  then have "read_u8 (cb_code b) ip = Some op" using b(2) by (simp add: read_u8_def)
  with b(1) show thesis by (rule that)
qed

lemma code_at_u32: "code_at C ip (to_le_bytes x) \<Longrightarrow> ctx_block C = Some b \<Longrightarrow> read_u32 (cb_code b) ip = Some x"
  by (simp add: code_at_def read_u32_def)

lemma step_op:
  assumes "code_at C ip (op # bs)" "map_of (handlers rt) op = Some h" "does C h (ip + 1) st s Q" "in_state C ip st s m"
  shows "Q (step rt m)"
proof -
  obtain b where b: "ctx_block C = Some b" "read_u8 (cb_code b) ip = Some op" using code_at_op [OF assms(1)] by blast
  have m: "in_state C (ip + 1) st s (set_ip (ip + 1) (m\<lparr>mc_cursor := length st\<rparr>))"
    by (rule in_state_set_ip) (use assms(4) in \<open>simp add: in_state_def\<close>)
  have "does C (step rt) ip st s Q"
    unfolding step_def
  proof (rule does_frame, rule does_block [OF b(1)])
    show "does C (\<lambda>m. case read_u8 (cb_code b) (fr_ip ((rc_frame C)\<lparr>fr_ip := ip, fr_sp := length st\<rparr>)) of None \<Rightarrow> None
         | Some op \<Rightarrow> (case map_of (handlers rt) op of None \<Rightarrow> None
           | Some h \<Rightarrow> h (set_ip (fr_ip ((rc_frame C)\<lparr>fr_ip := ip, fr_sp := length st\<rparr>) + 1)
               (m\<lparr>mc_cursor := fr_sp ((rc_frame C)\<lparr>fr_ip := ip, fr_sp := length st\<rparr>)\<rparr>)))) ip st s Q"
      using b(2) assms(2,3) in_state_set_ip [of C ip st s "_\<lparr>mc_cursor := length st\<rparr>" "ip + 1"]
      by (simp add: does_def in_state_def)
  qed
  then show ?thesis using assms(4) by (simp add: does_def)
qed

section \<open>Runs\<close>

definition next_step :: "'w runtime \<Rightarrow> 'w machine \<Rightarrow> 'w machine \<Rightarrow> bool" where
  "next_step rt m m' \<longleftrightarrow> step rt m = Some (Inr None, m')"
definition goes :: "'w runtime \<Rightarrow> run_ctx \<Rightarrow> nat \<Rightarrow> js_value list \<Rightarrow> 'w store \<Rightarrow> nat \<Rightarrow> js_value list \<Rightarrow> 'w store \<Rightarrow> bool" where
  "goes rt C ip st s ip' st' s' \<longleftrightarrow>
     (\<forall>m. in_state C ip st s m \<longrightarrow> (\<exists>m'. (next_step rt)\<^sup>*\<^sup>* m m' \<and> in_state C ip' st' s' m'))"
definition raises :: "'w runtime \<Rightarrow> run_ctx \<Rightarrow> js_value list \<Rightarrow> nat \<Rightarrow> js_value list \<Rightarrow> 'w store \<Rightarrow> js_value \<Rightarrow> 'w store \<Rightarrow> bool" where
  "raises rt C B ip st s e s' \<longleftrightarrow>
     (\<forall>m. in_state C ip st s m \<longrightarrow> (\<exists>m1. (next_step rt)\<^sup>*\<^sup>* m m1 \<and> fails C B e s' (step rt m1)))"

text \<open>
  The code from \<open>ip\<close> to \<open>ip'\<close> implements an effect: when the effect has a result, the code gets there
  with the stack \<open>g\<close> of the result, and when it throws, so does the code, with \<open>B\<close> still on the stack.
\<close>

definition implements ::
  "'w runtime \<Rightarrow> run_ctx \<Rightarrow> js_value list \<Rightarrow> nat \<Rightarrow> js_value list \<Rightarrow> ('a, 'w) effect \<Rightarrow> nat \<Rightarrow> ('a \<Rightarrow> js_value list) \<Rightarrow> ('a \<Rightarrow> bool) \<Rightarrow> bool" where
  "implements rt C B ip st m ip' g P \<longleftrightarrow>
     (\<forall>s. case m s of
        None \<Rightarrow> True
      | Some (Inl e, s') \<Rightarrow> raises rt C B ip st s e s'
      | Some (Inr x, s') \<Rightarrow> P x \<and> goes rt C ip st s ip' (g x) s')"

lemma goes_refl: "goes rt C ip st s ip st s"
  by (auto simp: goes_def)

lemma goes_trans: "goes rt C ip st s ip1 st1 s1 \<Longrightarrow> goes rt C ip1 st1 s1 ip2 st2 s2 \<Longrightarrow> goes rt C ip st s ip2 st2 s2"
  unfolding goes_def by (meson rtranclp_trans)

lemma goes_raises: "goes rt C ip st s ip1 st1 s1 \<Longrightarrow> raises rt C B ip1 st1 s1 e s2 \<Longrightarrow> raises rt C B ip st s e s2"
  unfolding goes_def raises_def by (meson rtranclp_trans)

lemma raises_weaken: "raises rt C (B @ ys) ip st s e s' \<Longrightarrow> raises rt C B ip st s e s'"
  unfolding raises_def fails_def append_assoc by blast

lemma goes_op:
  assumes "code_at C ip (op # bs)" "map_of (handlers rt) op = Some h" "does C h (ip + 1) st s (lands C ip' st' s')"
  shows "goes rt C ip st s ip' st' s'"
  unfolding goes_def
proof (intro allI impI)
  fix m assume "in_state C ip st s m"
  from step_op [OF assms this] obtain m' where "step rt m = Some (Inr None, m')" "in_state C ip' st' s' m'"
    by (auto simp: lands_def)
  then show "\<exists>m'. (next_step rt)\<^sup>*\<^sup>* m m' \<and> in_state C ip' st' s' m'"
    by (intro exI [of _ m']) (simp add: next_step_def r_into_rtranclp)
qed

lemma raises_op:
  assumes "code_at C ip (op # bs)" "map_of (handlers rt) op = Some h" "does C h (ip + 1) st s (fails C B e s')"
  shows "raises rt C B ip st s e s'"
  unfolding raises_def using step_op [OF assms] by blast

section \<open>Implementing effects\<close>

lemma implements_op:
  assumes "code_at C ip (op # bs)" "map_of (handlers rt) op = Some h"
    "\<And>s x s'. m s = Some (Inr x, s') \<Longrightarrow> P x \<and> does C h (ip + 1) st s (lands C ip' (g x) s')"
    "\<And>s e s'. m s = Some (Inl e, s') \<Longrightarrow> does C h (ip + 1) st s (fails C B e s')"
  shows "implements rt C B ip st m ip' g P"
  unfolding implements_def
proof
  fix s
  show "case m s of None \<Rightarrow> True | Some (Inl e, s') \<Rightarrow> raises rt C B ip st s e s'
      | Some (Inr x, s') \<Rightarrow> P x \<and> goes rt C ip st s ip' (g x) s'"
  proof (cases "m s")
    case (Some r)
    then show ?thesis
      using assms(3,4) goes_op [OF assms(1,2)] raises_op [OF assms(1,2)] by (cases r; cases "fst r") fastforce+
  qed simp
qed

lemma implements_bind:
  assumes "implements rt C B ip st m ip1 g1 P1" "\<And>x. P1 x \<Longrightarrow> implements rt C B ip1 (g1 x) (f x) ip2 g2 P2"
  shows "implements rt C B ip st (e_bind m f) ip2 g2 P2"
  unfolding implements_def
proof
  fix s
  show "case e_bind m f s of None \<Rightarrow> True | Some (Inl e, s') \<Rightarrow> raises rt C B ip st s e s'
      | Some (Inr x, s') \<Rightarrow> P2 x \<and> goes rt C ip st s ip2 (g2 x) s'"
  proof (cases "m s")
    case None
    then show ?thesis by (simp add: e_bind_def)
  next
    case (Some r)
    obtain q s1 where r: "r = (q, s1)" by (cases r)
    have m: "case q of Inl e \<Rightarrow> raises rt C B ip st s e s1 | Inr x \<Rightarrow> P1 x \<and> goes rt C ip st s ip1 (g1 x) s1"
      using assms(1) Some unfolding implements_def r by (auto dest: spec [of _ s] split: sum.splits)
    show ?thesis
    proof (cases q)
      case (Inl e)
      then show ?thesis using m Some r by (simp add: e_bind_def)
    next
      case (Inr x)
      then have f: "case f x s1 of None \<Rightarrow> True | Some (Inl e, s') \<Rightarrow> raises rt C B ip1 (g1 x) s1 e s'
          | Some (Inr y, s') \<Rightarrow> P2 y \<and> goes rt C ip1 (g1 x) s1 ip2 (g2 y) s'"
        using m assms(2) by (simp add: implements_def)
      have "e_bind m f s = f x s1" using Some r Inr by (simp add: e_bind_def)
      then show ?thesis using f m Inr goes_trans goes_raises
        by (auto split: option.splits sum.splits)
    qed
  qed
qed

lemma implements_return: "P x \<Longrightarrow> g x = st \<Longrightarrow> implements rt C B ip st (e_return x) ip g P"
  by (auto simp: implements_def e_return_def goes_refl)

lemma implements_before:
  assumes "\<And>s. goes rt C ip st s ip1 st1 s" "implements rt C B ip1 st1 m ip2 g P"
  shows "implements rt C B ip st m ip2 g P"
  using assms(2) goes_trans [OF assms(1)] goes_raises [OF assms(1)]
  unfolding implements_def by (fastforce split: option.splits sum.splits)

lemma implements_after:
  assumes "implements rt C B ip st m ip1 g1 P" "\<And>x s. P x \<Longrightarrow> goes rt C ip1 (g1 x) s ip2 (g2 x) s"
  shows "implements rt C B ip st m ip2 g2 P"
  using assms(1) goes_trans [OF _ assms(2)] unfolding implements_def by (fastforce split: option.splits sum.splits)

lemma implements_weaken: "implements rt C (B @ ys) ip st m ip' g P \<Longrightarrow> implements rt C B ip st m ip' g P"
  unfolding implements_def using raises_weaken by (fastforce split: option.splits sum.splits)

lemma implements_store: "(\<And>s. goes rt C ip st s ip' (g (f s)) s) \<Longrightarrow> implements rt C B ip st (\<lambda>s. Some (Inr (f s), s)) ip' g (\<lambda>_. True)"
  by (auto simp: implements_def)

end
