(* ===== verification/Expr_Semantics.thy ===== *)
theory Expr_Semantics
  imports Interpreter Expr_Compiler
begin

text \<open>
  What the compiled code of an expression does: a big-step evaluation over the runtime, with references
  (as the standard calls them) for what can be assigned, in the order of the engine, which evaluates the
  right operand first. It is the half-way house of the proof: \<open>Standard_Evaluation\<close> has the order of the
  standard. Calls, functions, generators and the unary plus are outside of it; its value on them is \<^term>\<open>None\<close>.
\<close>

datatype reference = RVariable nat nat | RGlobal symbol | RById js_value symbol | RByVal js_value js_value | RThis

text \<open>Where an expression is: the scopes, the environment, \<open>this\<close> and the mode.\<close>

record eval_context =
  cx_scopes :: "scope list"
  cx_env :: u64
  cx_this :: js_value
  cx_strict :: bool

definition e_panic :: "('a, 'w) effect" where "e_panic s = None"
definition e_store :: "('w store \<Rightarrow> 'a) \<Rightarrow> ('a, 'w) effect" where "e_store f s = Some (Inr (f s), s)"

definition name_ref :: "compiler_host \<Rightarrow> eval_context \<Rightarrow> string \<Rightarrow> reference" where
  "name_ref ho cx n =
     (case access_of (ho_intern ho n) (cx_scopes cx) of
        AVariable ix depth \<Rightarrow> RVariable ix depth
      | _ \<Rightarrow> RGlobal (ho_intern ho n))"

section \<open>References\<close>

definition variable_env :: "eval_context \<Rightarrow> nat \<Rightarrow> (u64 \<times> environment, 'w) effect" where
  "variable_env cx depth s =
     (case env_up s depth (cx_env cx) of
        None \<Rightarrow> None
      | Some a \<Rightarrow> (case so_envs s a of None \<Rightarrow> None | Some e \<Rightarrow> Some (Inr (a, e), s)))"

definition get_value :: "'w runtime \<Rightarrow> eval_context \<Rightarrow> reference \<Rightarrow> (js_value, 'w) effect" where
  "get_value rt cx r =
     (case r of
        RVariable ix depth \<Rightarrow> e_bind (variable_env cx depth) (\<lambda>(a, e).
          if ix < length (ev_values e) then e_return (fst (ev_values e ! ix)) else e_panic)
      | RGlobal x \<Rightarrow> e_bind (e_store (\<lambda>s. rt_global rt (so_world s))) (\<lambda>g. rt_get_by_id rt 0 0 True x g)
      | RById object x \<Rightarrow> rt_get_by_id rt 0 0 False x object
      | RByVal object key \<Rightarrow> rt_get_by_val rt object key
      | RThis \<Rightarrow> e_panic)"

definition put_variable :: "'w runtime \<Rightarrow> u64 \<Rightarrow> nat \<Rightarrow> js_value \<Rightarrow> (unit, 'w) effect" where
  "put_variable rt a ix v s =
     (case so_envs s a of
        None \<Rightarrow> None
      | Some e \<Rightarrow>
          if \<not> ix < length (ev_values e) then None
          else if \<not> snd (ev_values e ! ix) then e_bind (rt_type_error rt ''Cannot assign to immutable variable'') e_throw s
          else Some (Inr (), s\<lparr>so_envs := (so_envs s)(a \<mapsto> e\<lparr>ev_values := (ev_values e)[ix := (v, True)]\<rparr>)\<rparr>))"

definition put_property :: "'w runtime \<Rightarrow> bool \<Rightarrow> symbol \<Rightarrow> js_value \<Rightarrow> js_value \<Rightarrow> (unit, 'w) effect" where
  "put_property rt strict x object v s =
     (if is_jsobject rt s object then rt_put_by_id rt strict 0 0 x object v s else Some (Inr (), s))"

definition put_value :: "'w runtime \<Rightarrow> eval_context \<Rightarrow> reference \<Rightarrow> js_value \<Rightarrow> (unit, 'w) effect" where
  "put_value rt cx r v =
     (case r of
        RVariable ix depth \<Rightarrow> e_bind (variable_env cx depth) (\<lambda>(a, _). put_variable rt a ix v)
      | RGlobal x \<Rightarrow> e_bind (e_store (\<lambda>s. rt_global rt (so_world s))) (\<lambda>g. put_property rt (cx_strict cx) x g v)
      | RById object x \<Rightarrow> put_property rt (cx_strict cx) x object v
      | RByVal object key \<Rightarrow> rt_put_by_val rt (cx_strict cx) object key v
      | RThis \<Rightarrow> e_panic)"

section \<open>Operators\<close>

definition op_bits :: "'w runtime \<Rightarrow> (u32 \<Rightarrow> u32 \<Rightarrow> u32) \<Rightarrow> js_value \<Rightarrow> js_value \<Rightarrow> (js_value, 'w) effect" where
  "op_bits rt g lhs rhs = e_bind (to_int32 rt lhs) (\<lambda>x. e_bind (to_int32 rt rhs) (\<lambda>y. e_return (from_i32 (g x y))))"

definition binary_value :: "'w runtime \<Rightarrow> binary_op \<Rightarrow> js_value \<Rightarrow> js_value \<Rightarrow> (js_value, 'w) effect" where
  "binary_value rt op =
     (case op of
        Add \<Rightarrow> op_add rt | Sub \<Rightarrow> op_sub rt | Mul \<Rightarrow> op_mul rt | Div \<Rightarrow> op_div rt | Mod \<Rightarrow> op_rem rt
      | BitAnd \<Rightarrow> op_bits rt (AND) | BitOr \<Rightarrow> op_bits rt (OR) | BitXor \<Rightarrow> op_bits rt (XOR)
      | LShift \<Rightarrow> op_shl rt | RShift \<Rightarrow> op_shr rt | ZeroFillRShift \<Rightarrow> op_ushr rt
      | EqEq \<Rightarrow> op_eq rt False | NotEq \<Rightarrow> op_eq rt True | EqEqEq \<Rightarrow> op_stricteq rt False | NotEqEq \<Rightarrow> op_stricteq rt True
      | Lt \<Rightarrow> op_less rt | LtEq \<Rightarrow> op_lesseq rt | Gt \<Rightarrow> op_greater rt | GtEq \<Rightarrow> op_greatereq rt
      | In \<Rightarrow> op_in rt | InstanceOf \<Rightarrow> op_instanceof rt
      | _ \<Rightarrow> (\<lambda>_ _. e_panic))"
definition assign_binary :: "assign_op \<Rightarrow> binary_op" where
  "assign_binary op =
     (case op of
        AddAssign \<Rightarrow> Add | SubAssign \<Rightarrow> Sub | MulAssign \<Rightarrow> Mul | DivAssign \<Rightarrow> Div | ModAssign \<Rightarrow> Mod
      | BitAndAssign \<Rightarrow> BitAnd | BitOrAssign \<Rightarrow> BitOr | BitXorAssign \<Rightarrow> BitXor | _ \<Rightarrow> OtherBinary)"
definition unary_value :: "'w runtime \<Rightarrow> unary_op \<Rightarrow> js_value \<Rightarrow> (js_value, 'w) effect" where
  "unary_value rt op =
     (case op of
        UMinus \<Rightarrow> op_neg rt | UTilde \<Rightarrow> op_not rt | UBang \<Rightarrow> op_logical_not rt | UTypeOf \<Rightarrow> op_typeof rt
      | UVoid \<Rightarrow> (\<lambda>_. e_return encode_undefined_value) | _ \<Rightarrow> (\<lambda>_. e_panic))"

text \<open>The update operators apply the operator to 1 and the value, in this order.\<close>

definition update_value :: "'w runtime \<Rightarrow> update_op \<Rightarrow> js_value \<Rightarrow> (js_value, 'w) effect" where
  "update_value rt op v = (case op of PlusPlus \<Rightarrow> op_add rt (encode_int32 1) v | MinusMinus \<Rightarrow> op_sub rt (encode_int32 1) v)"

definition number_value :: "f64 \<Rightarrow> js_value" where
  "number_value x = (if is_i32_literal x then encode_int32 (word_of_int (f64_as_i32 x)) else from_f64 x)"
definition literal_value :: "compiler_host \<Rightarrow> lit \<Rightarrow> js_value option" where
  "literal_value ho l =
     (case l of
        LitBool b \<Rightarrow> Some (encode_bool_value b)
      | LitNull \<Rightarrow> Some encode_null_value
      | LitNum x \<Rightarrow> Some (number_value x)
      | LitStr s \<Rightarrow> Some (ho_string ho s)
      | LitRegex exp flags \<Rightarrow> ho_regexp ho exp flags
      | OtherLit \<Rightarrow> None)"

section \<open>Expressions\<close>

function ev :: "'w runtime \<Rightarrow> compiler_host \<Rightarrow> eval_context \<Rightarrow> 'f expr \<Rightarrow> (js_value, 'w) effect"
  and ev_ref :: "'w runtime \<Rightarrow> compiler_host \<Rightarrow> eval_context \<Rightarrow> 'f expr \<Rightarrow> (reference, 'w) effect"
where
  "ev rt ho cx e =
     (case e of
        Ident n \<Rightarrow>
          if n = ''undefined'' then e_return encode_undefined_value else get_value rt cx (name_ref ho cx n)
      | Lit l \<Rightarrow> (case literal_value ho l of Some v \<Rightarrow> e_return v | None \<Rightarrow> e_panic)
      | This \<Rightarrow> e_return (cx_this cx)
      | Member _ _ _ \<Rightarrow> e_bind (ev_ref rt ho cx e) (get_value rt cx)
      | Unary op x \<Rightarrow> if op = UDelete \<or> op = UPlus then e_panic else e_bind (ev rt ho cx x) (unary_value rt op)
      | Update op prefix x \<Rightarrow>
          e_bind (ev rt ho cx x) (\<lambda>v. e_bind (update_value rt op v) (\<lambda>w. e_bind (ev_ref rt ho cx x) (\<lambda>r.
            e_bind (put_value rt cx r w) (\<lambda>_. e_return (if prefix then w else v)))))
      | AssignExpr op left right \<Rightarrow>
          (let left_ref = (case left of PatIdent n \<Rightarrow> e_return (name_ref ho cx n) | PatExpr x \<Rightarrow> ev_ref rt ho cx x | OtherPat \<Rightarrow> e_panic) in
           if op = Assign
           then e_bind (ev rt ho cx right) (\<lambda>v. e_bind left_ref (\<lambda>r. e_bind (put_value rt cx r v) (\<lambda>_. e_return v)))
           else e_bind (ev rt ho cx right) (\<lambda>rhs. e_bind left_ref (\<lambda>r. e_bind (get_value rt cx r) (\<lambda>lhs.
             e_bind (binary_value rt (assign_binary op) lhs rhs) (\<lambda>v.
             e_bind left_ref (\<lambda>r2. e_bind (put_value rt cx r2 v) (\<lambda>_. e_return v)))))))
      | Bin op left right \<Rightarrow>
          if op = LogicalOr
          then e_bind (ev rt ho cx left) (\<lambda>v s. if to_boolean (cells_of rt s) v then Some (Inr v, s) else ev rt ho cx right s)
          else if op = LogicalAnd
          then e_bind (ev rt ho cx left) (\<lambda>v s. if to_boolean (cells_of rt s) v then ev rt ho cx right s else Some (Inr v, s))
          else e_bind (ev rt ho cx right) (\<lambda>rhs. e_bind (ev rt ho cx left) (\<lambda>lhs. binary_value rt op lhs rhs))
      | Cond test cons alt \<Rightarrow>
          e_bind (ev rt ho cx test) (\<lambda>v s. if to_boolean (cells_of rt s) v then ev rt ho cx cons s else ev rt ho cx alt s)
      | Paren x \<Rightarrow> ev rt ho cx x
      | _ \<Rightarrow> e_panic)"
| "ev_ref rt ho cx e =
     (case e of
        Ident n \<Rightarrow> e_return (name_ref ho cx n)
      | Member obj prop computed \<Rightarrow>
          (case obj of
             None \<Rightarrow> e_panic
           | Some x \<Rightarrow> e_bind (ev rt ho cx x) (\<lambda>object.
               (case (if computed then None else member_name prop) of
                  Some n \<Rightarrow> e_return (RById object (ho_intern ho n))
                | None \<Rightarrow> e_bind (ev rt ho cx prop) (\<lambda>key. e_return (RByVal object key)))))
      | This \<Rightarrow> e_return RThis
      | _ \<Rightarrow> e_panic)"
  by pat_completeness auto
termination
  by (relation "measure (\<lambda>x. case x of Inl (_, _, _, e) \<Rightarrow> 2 * size e + 1 | Inr (_, _, _, e) \<Rightarrow> 2 * size e)") auto

end
