(* ===== verification/Instr_Steps.thy ===== *)
theory Instr_Steps
  imports Machine_Steps Expr_Semantics
begin

text \<open>Every instruction that compiled expressions use, as a step between configurations.\<close>

lemma handler_of:
  "map_of (handlers rt) OP_GE0GL = Some (h_ge0gl rt)"
  "map_of (handlers rt) OP_GE0SL = Some (h_ge0sl rt)"
  "map_of (handlers rt) OP_GET_LOCAL = Some (h_get_local rt)"
  "map_of (handlers rt) OP_SET_LOCAL = Some (h_set_local rt)"
  "map_of (handlers rt) OP_GET_ENV = Some (h_get_env rt)"
  "map_of (handlers rt) OP_JMP = Some (h_jmp)"
  "map_of (handlers rt) OP_JMP_IF_FALSE = Some (h_jmp_if rt False)"
  "map_of (handlers rt) OP_JMP_IF_TRUE = Some (h_jmp_if rt True)"
  "map_of (handlers rt) OP_POP = Some (h_pop)"
  "map_of (handlers rt) OP_PUSH_TRUE = Some (h_push (encode_bool_value True))"
  "map_of (handlers rt) OP_PUSH_FALSE = Some (h_push (encode_bool_value False))"
  "map_of (handlers rt) OP_PUSH_LITERAL = Some (h_push_literal)"
  "map_of (handlers rt) OP_PUSH_THIS = Some (h_push_this)"
  "map_of (handlers rt) OP_PUSH_INT = Some (h_push_int)"
  "map_of (handlers rt) OP_PUSH_NAN = Some (h_push encode_nan_value)"
  "map_of (handlers rt) OP_PUSH_NULL = Some (h_push encode_null_value)"
  "map_of (handlers rt) OP_RET = Some (h_ret rt)"
  "map_of (handlers rt) OP_ADD = Some (h_profiled (op_add rt))"
  "map_of (handlers rt) OP_SUB = Some (h_profiled (op_sub rt))"
  "map_of (handlers rt) OP_DIV = Some (h_profiled (op_div rt))"
  "map_of (handlers rt) OP_MUL = Some (h_profiled (op_mul rt))"
  "map_of (handlers rt) OP_REM = Some (h_profiled (op_rem rt))"
  "map_of (handlers rt) OP_SHL = Some (h_binary (op_shl rt))"
  "map_of (handlers rt) OP_SHR = Some (h_binary (op_shr rt))"
  "map_of (handlers rt) OP_USHR = Some (h_binary (op_ushr rt))"
  "map_of (handlers rt) OP_LESS = Some (h_binary (op_less rt))"
  "map_of (handlers rt) OP_LESSEQ = Some (h_binary (op_lesseq rt))"
  "map_of (handlers rt) OP_GREATER = Some (h_binary (op_greater rt))"
  "map_of (handlers rt) OP_GREATEREQ = Some (h_binary (op_greatereq rt))"
  "map_of (handlers rt) OP_GET_BY_ID = Some (h_get_by_id rt False)"
  "map_of (handlers rt) OP_TRY_GET_BY_ID = Some (h_get_by_id rt True)"
  "map_of (handlers rt) OP_PUT_BY_ID = Some (h_put_by_id rt)"
  "map_of (handlers rt) OP_CALL = Some (h_call rt False)"
  "map_of (handlers rt) OP_TAILCALL = Some (h_call rt True)"
  "map_of (handlers rt) OP_NEW = Some (h_new rt False)"
  "map_of (handlers rt) OP_TAILNEW = Some (h_new rt True)"
  "map_of (handlers rt) OP_DUP = Some (h_dup)"
  "map_of (handlers rt) OP_SWAP = Some (h_swap)"
  "map_of (handlers rt) OP_NEG = Some (h_unary (op_neg rt))"
  "map_of (handlers rt) OP_EQ = Some (h_binary (op_eq rt False))"
  "map_of (handlers rt) OP_STRICTEQ = Some (h_binary (op_stricteq rt False))"
  "map_of (handlers rt) OP_NEQ = Some (h_binary (op_eq rt True))"
  "map_of (handlers rt) OP_NSTRICTEQ = Some (h_binary (op_stricteq rt True))"
  "map_of (handlers rt) OP_PUT_BY_VAL = Some (h_put_by_val rt)"
  "map_of (handlers rt) OP_GET_BY_VAL = Some (h_get_by_val rt False)"
  "map_of (handlers rt) OP_GET_BY_VAL_PUSH_OBJ = Some (h_get_by_val rt True)"
  "map_of (handlers rt) OP_INSTANCEOF = Some (h_binary (op_instanceof rt))"
  "map_of (handlers rt) OP_IN = Some (h_binary (op_in rt))"
  "map_of (handlers rt) OP_FORIN_SETUP = Some (h_forin_setup rt)"
  "map_of (handlers rt) OP_FORIN_ENUMERATE = Some (h_forin_enumerate rt)"
  "map_of (handlers rt) OP_FORIN_LEAVE = Some (h_pop)"
  "map_of (handlers rt) OP_THROW = Some (h_throw)"
  "map_of (handlers rt) OP_GLOBALTHIS = Some (h_globalthis rt)"
  "map_of (handlers rt) OP_NEWOBJECT = Some (h_newobject rt)"
  "map_of (handlers rt) OP_PUSH_CATCH = Some (h_push_catch)"
  "map_of (handlers rt) OP_POP_CATCH = Some (h_pop_catch)"
  "map_of (handlers rt) OP_LOGICAL_NOT = Some (h_unary (op_logical_not rt))"
  "map_of (handlers rt) OP_NOT = Some (h_unary (op_not rt))"
  "map_of (handlers rt) OP_POS = Some (h_pos rt)"
  "map_of (handlers rt) OP_DECL_CONST = Some (h_decl False rt)"
  "map_of (handlers rt) OP_DECL_LET = Some (h_decl True rt)"
  "map_of (handlers rt) OP_DELETE_BY_ID = Some (h_delete_by_id rt)"
  "map_of (handlers rt) OP_DELETE_BY_VAL = Some (h_delete_by_val rt)"
  "map_of (handlers rt) OP_AND = Some (h_bits rt (AND))"
  "map_of (handlers rt) OP_OR = Some (h_bits rt (OR))"
  "map_of (handlers rt) OP_XOR = Some (h_bits rt (XOR))"
  "map_of (handlers rt) OP_GET_FUNCTION = Some (h_get_function rt)"
  "map_of (handlers rt) OP_PUSH_UNDEF = Some (h_push encode_undefined_value)"
  "map_of (handlers rt) OP_NEWARRAY = Some (h_newarray rt)"
  "map_of (handlers rt) OP_CALL_BUILTIN = Some (h_call_builtin rt)"
  "map_of (handlers rt) OP_SPREAD = Some (h_spread rt)"
  "map_of (handlers rt) OP_TYPEOF = Some (h_unary (op_typeof rt))"
  "map_of (handlers rt) OP_TO_INTEGER_OR_INFINITY = Some (h_unary (op_to_integer rt))"
  "map_of (handlers rt) OP_TO_LENGTH = Some (h_unary (op_to_integer rt))"
  "map_of (handlers rt) OP_TO_OBJECT = Some (h_to_object rt)"
  "map_of (handlers rt) OP_IS_CALLABLE = Some (h_unary (op_is_callable rt))"
  "map_of (handlers rt) OP_IS_CTOR = Some (h_unary (op_is_callable rt))"
  "map_of (handlers rt) OP_INITIAL_YIELD = Some (return_i encode_undefined_value)"
  "map_of (handlers rt) OP_YIELD = Some (return_i (func_ret_value FuncYield))"
  "map_of (handlers rt) OP_YIELD_STAR = Some (return_i (func_ret_value YieldStar))"
  "map_of (handlers rt) OP_AWAIT = Some (return_i (func_ret_value Await))"
  "map_of (handlers rt) OP_IS_OBJECT = Some (h_unary (op_is_object rt))"
  by (simp_all add: handlers_def opcode_defs)

lemma code_at_operand:
  "code_at C ip (op # to_le_bytes x) \<Longrightarrow> ctx_block C = Some b \<Longrightarrow> read_u32 (cb_code b) (ip + 1) = Some x"
  using code_at_Cons [of C ip op "to_le_bytes x"] code_at_u32 by blast

lemma code_at_block: "code_at C ip bs \<Longrightarrow> \<exists>b. ctx_block C = Some b"
  by (auto simp: code_at_def split: option.splits)

lemma does_first_operand:
  assumes "code_at C ip (op # to_le_bytes x @ bs)" "does C (k x) (ip + 5) st s Q"
  shows "does C (operand k) (ip + 1) st s Q"
proof -
  have c: "code_at C ip (op # to_le_bytes x)" using assms(1) code_at_append [of C ip "op # to_le_bytes x" bs] by simp
  obtain b where b: "ctx_block C = Some b" using code_at_block [OF c] by blast
  show ?thesis
    by (rule does_operand [OF b code_at_operand [OF c b]]) (use assms(2) in \<open>simp add: add.commute\<close>)
qed

lemma does_second_operand:
  assumes "code_at C ip (op # to_le_bytes x @ to_le_bytes y)" "does C (k y) (ip + 9) st s Q"
  shows "does C (operand k) (ip + 5) st s Q"
proof -
  have c: "code_at C (ip + 5) (to_le_bytes y)" using assms(1) code_at_append [of C ip "op # to_le_bytes x" "to_le_bytes y"] by simp
  obtain b where b: "ctx_block C = Some b" using code_at_block [OF c] by blast
  show ?thesis
    by (rule does_operand [OF b code_at_u32 [OF c b]]) (use assms(2) in \<open>simp add: add.commute\<close>)
qed

section \<open>The stack\<close>

lemma goes_push:
  assumes "code_at C ip [op]" "map_of (handlers rt) op = Some (h_push v)" "length st < rc_size C"
  shows "goes rt C ip st s (ip + 1) (st @ [v]) s"
  by (rule goes_op [OF assms(1,2)]) (use assms(3) in \<open>auto simp: h_push_def intro!: doing\<close>)

lemma goes_pop:
  assumes "code_at C ip [OP_POP]"
  shows "goes rt C ip (st @ [v]) s (ip + 1) st s"
  by (rule goes_op [OF assms handler_of(9)]) (auto simp: h_pop_def intro!: doing)

lemma goes_dup:
  assumes "code_at C ip [OP_DUP]" "Suc (length st) < rc_size C"
  shows "goes rt C ip (st @ [v]) s (ip + 1) (st @ [v, v]) s"
proof (rule goes_op [OF assms(1)])
  show "map_of (handlers rt) OP_DUP = Some h_dup" by (rule handler_of)
  have "does C (push_i v (push_i v next_i)) (ip + 1) st s (lands C (ip + 1) ((st @ [v]) @ [v]) s)"
    by (rule does_push, use assms(2) in simp, rule does_push, use assms(2) in simp, rule does_next)
  then show "does C h_dup (ip + 1) (st @ [v]) s (lands C (ip + 1) (st @ [v, v]) s)"
    unfolding h_dup_def by (intro does_pop) simp
qed

lemma goes_swap:
  assumes "code_at C ip [OP_SWAP]" "Suc (length st) < rc_size C"
  shows "goes rt C ip (st @ [v, w]) s (ip + 1) (st @ [w, v]) s"
proof (rule goes_op [OF assms(1)])
  show "map_of (handlers rt) OP_SWAP = Some h_swap" by (rule handler_of)
  have "does C (push_i w (push_i v next_i)) (ip + 1) st s (lands C (ip + 1) ((st @ [w]) @ [v]) s)"
    by (rule does_push, use assms(2) in simp, rule does_push, use assms(2) in simp, rule does_next)
  then have "does C h_swap (ip + 1) ((st @ [v]) @ [w]) s (lands C (ip + 1) ((st @ [w]) @ [v]) s)"
    unfolding h_swap_def by (intro does_pop)
  then show "does C h_swap (ip + 1) (st @ [v, w]) s (lands C (ip + 1) (st @ [w, v]) s)" by simp
qed

lemma goes_push_int:
  assumes "code_at C ip (OP_PUSH_INT # to_le_bytes x)" "length st < rc_size C"
  shows "goes rt C ip st s (ip + 5) (st @ [encode_int32 x]) s"
proof (rule goes_op [OF assms(1)])
  show "map_of (handlers rt) OP_PUSH_INT = Some h_push_int" by (rule handler_of)
  show "does C h_push_int (ip + 1) st s (lands C (ip + 5) (st @ [encode_int32 x]) s)"
    unfolding h_push_int_def
    by (rule does_first_operand [where bs = "[]"]) (use assms in \<open>auto intro!: doing\<close>)
qed

lemma goes_push_literal:
  assumes "code_at C ip (OP_PUSH_LITERAL # to_le_bytes ix)" "length st < rc_size C" "ctx_block C = Some b"
    "unat ix < length (cb_literals b)"
  shows "goes rt C ip st s (ip + 5) (st @ [cb_literals b ! unat ix]) s"
proof (rule goes_op [OF assms(1)])
  show "map_of (handlers rt) OP_PUSH_LITERAL = Some h_push_literal" by (rule handler_of)
  show "does C h_push_literal (ip + 1) st s (lands C (ip + 5) (st @ [cb_literals b ! unat ix]) s)"
    unfolding h_push_literal_def
    by (rule does_first_operand [where bs = "[]"], use assms(1) in simp, rule does_block [OF assms(3)])
      (use assms(2,4) in \<open>auto intro!: doing\<close>)
qed

lemma goes_push_this:
  assumes "code_at C ip [OP_PUSH_THIS]" "length st < rc_size C"
  shows "goes rt C ip st s (ip + 1) (st @ [fr_this (rc_frame C)]) s"
proof (rule goes_op [OF assms(1)])
  show "map_of (handlers rt) OP_PUSH_THIS = Some h_push_this" by (rule handler_of)
  show "does C h_push_this (ip + 1) st s (lands C (ip + 1) (st @ [fr_this (rc_frame C)]) s)"
    unfolding h_push_this_def by (rule does_frame) (use assms(2) in \<open>auto intro!: doing\<close>)
qed

lemma goes_globalthis:
  assumes "code_at C ip [OP_GLOBALTHIS]" "length st < rc_size C"
  shows "goes rt C ip st s (ip + 1) (st @ [rt_global rt (so_world s)]) s"
proof (rule goes_op [OF assms(1)])
  show "map_of (handlers rt) OP_GLOBALTHIS = Some (h_globalthis rt)" by (rule handler_of)
  show "does C (h_globalthis rt) (ip + 1) st s (lands C (ip + 1) (st @ [rt_global rt (so_world s)]) s)"
    unfolding h_globalthis_def by (rule does_store) (use assms(2) in \<open>auto intro!: doing\<close>)
qed

section \<open>Jumps\<close>

lemma goes_jmp:
  assumes "code_at C ip (OP_JMP # to_le_bytes off)" "ip_offset (ip + 5) off = Some ip'"
  shows "goes rt C ip st s ip' st s"
proof (rule goes_op [OF assms(1)])
  show "map_of (handlers rt) OP_JMP = Some h_jmp" by (rule handler_of)
  show "does C h_jmp (ip + 1) st s (lands C ip' st s)"
    unfolding h_jmp_def
    by (rule does_first_operand [where bs = "[]"], use assms(1) in simp, rule does_jump [OF assms(2)]) (rule does_next)
qed

lemma goes_jmp_if:
  assumes "code_at C ip (op # to_le_bytes off)" "op = (if cond then OP_JMP_IF_TRUE else OP_JMP_IF_FALSE)"
    "ip_offset (ip + 5) off = Some ip'"
  shows "goes rt C ip (st @ [v]) s (if to_boolean (cells_of rt s) v = cond then ip' else ip + 5) st s"
proof (rule goes_op [OF assms(1)])
  show "map_of (handlers rt) op = Some (h_jmp_if rt cond)" unfolding assms(2) by (cases cond) (simp_all add: handler_of)
  show "does C (h_jmp_if rt cond) (ip + 1) (st @ [v]) s
      (lands C (if to_boolean (cells_of rt s) v = cond then ip' else ip + 5) st s)"
    unfolding h_jmp_if_def
    by (rule does_first_operand [where bs = "[]"], use assms(1) in simp, rule does_pop, rule does_store)
      (auto intro!: does_jump [OF assms(3)] does_next)
qed

section \<open>Operators\<close>

lemma implements_unary:
  assumes "code_at C ip [op]" "map_of (handlers rt) op = Some (h_unary h)" "length st < rc_size C"
  shows "implements rt C st ip (st @ [v]) (h v) (ip + 1) (\<lambda>w. st @ [w]) (\<lambda>_. True)"
proof (rule implements_op [OF assms(1,2)])
  fix s x s' assume "h v s = Some (Inr x, s')"
  then show "True \<and> does C (h_unary h) (ip + 1) (st @ [v]) s (lands C (ip + 1) (st @ [x]) s')"
    unfolding h_unary_def using assms(3) by (auto intro!: does_pop does_effect does_push does_next)
next
  fix s e s' assume "h v s = Some (Inl e, s')"
  then have "does C (effect_i (h v) (\<lambda>w. push_i w next_i)) (ip + 1) (st @ []) s (fails C st e s')" by (rule does_effect_throw)
  then show "does C (h_unary h) (ip + 1) (st @ [v]) s (fails C st e s')"
    unfolding h_unary_def by (intro does_pop) simp
qed

lemma does_binary_value:
  assumes "h lhs rhs s = Some (Inr x, s')" "length st < rc_size C"
  shows "does C (h_binary h) ip (st @ [rhs, lhs]) s (lands C ip (st @ [x]) s')"
proof -
  have "does C (effect_i (h lhs rhs) (\<lambda>v. push_i v next_i)) ip st s (lands C ip (st @ [x]) s')"
    by (rule does_effect [where e = "h lhs rhs", OF assms(1)]) (use assms(2) in \<open>auto intro!: does_push does_next\<close>)
  then have "does C (h_binary h) ip ((st @ [rhs]) @ [lhs]) s (lands C ip (st @ [x]) s')"
    unfolding h_binary_def by (intro does_pop)
  then show ?thesis by simp
qed

lemma does_binary_throw:
  assumes "h lhs rhs s = Some (Inl e, s')"
  shows "does C (h_binary h) ip (st @ [rhs, lhs]) s (fails C st e s')"
proof -
  have "does C (effect_i (h lhs rhs) (\<lambda>v. push_i v next_i)) ip (st @ []) s (fails C st e s')"
    by (rule does_effect_throw [where e = "h lhs rhs", OF assms])
  then have "does C (h_binary h) ip ((st @ [rhs]) @ [lhs]) s (fails C st e s')"
    unfolding h_binary_def by (intro does_pop) simp
  then show ?thesis by simp
qed

lemma implements_binary:
  assumes "code_at C ip [op]" "map_of (handlers rt) op = Some (h_binary h)" "length st < rc_size C"
  shows "implements rt C st ip (st @ [rhs, lhs]) (h lhs rhs) (ip + 1) (\<lambda>w. st @ [w]) (\<lambda>_. True)"
  by (rule implements_op [OF assms(1,2)]) (auto intro!: does_binary_value does_binary_throw assms(3))

lemma implements_profiled:
  assumes "code_at C ip (op # to_le_bytes x)" "map_of (handlers rt) op = Some (h_profiled h)" "length st < rc_size C"
  shows "implements rt C st ip (st @ [rhs, lhs]) (h lhs rhs) (ip + 5) (\<lambda>w. st @ [w]) (\<lambda>_. True)"
proof (rule implements_op [OF assms(1,2)])
  have c: "code_at C ip (op # to_le_bytes x @ [])" using assms(1) by simp
  show "True \<and> does C (h_profiled h) (ip + 1) (st @ [rhs, lhs]) s (lands C (ip + 5) (st @ [y]) s')"
    if "h lhs rhs s = Some (Inr y, s')" for s y s'
    unfolding h_profiled_def using does_first_operand [OF c does_binary_value [where h = h and lhs = lhs and rhs = rhs, OF that assms(3)]] by simp
  show "does C (h_profiled h) (ip + 1) (st @ [rhs, lhs]) s (fails C st e s')"
    if "h lhs rhs s = Some (Inl e, s')" for s e s'
    unfolding h_profiled_def by (rule does_first_operand [OF c does_binary_throw [where h = h and lhs = lhs and rhs = rhs, OF that]])
qed

lemma does_bits_value:
  assumes "op_bits rt h lhs rhs s = Some (Inr x, s')" "length st < rc_size C"
  shows "does C (h_bits rt h) ip (st @ [rhs, lhs]) s (lands C ip (st @ [x]) s')"
proof -
  from assms(1) obtain l s1 r where l: "to_int32 rt lhs s = Some (Inr l, s1)"
      and r: "to_int32 rt rhs s1 = Some (Inr r, s')" and x: "x = from_i32 (h l r)"
    by (auto simp: op_bits_def e_bind_def e_return_def split: option.splits sum.splits)
  have "does C (effect_i (to_int32 rt rhs) (\<lambda>y. push_i (from_i32 (h l y)) next_i)) ip st s1 (lands C ip (st @ [x]) s')"
    by (rule does_effect [where e = "to_int32 rt rhs", OF r]) (use assms(2) x in \<open>auto intro!: does_push does_next\<close>)
  then have "does C (pop_i (\<lambda>b. effect_i (to_int32 rt b) (\<lambda>y. push_i (from_i32 (h l y)) next_i))) ip (st @ [rhs]) s1
      (lands C ip (st @ [x]) s')"
    by (intro does_pop)
  then have "does C (effect_i (to_int32 rt lhs) (\<lambda>x. pop_i (\<lambda>b. effect_i (to_int32 rt b) (\<lambda>y. push_i (from_i32 (h x y)) next_i))))
      ip (st @ [rhs]) s (lands C ip (st @ [x]) s')"
    by (rule does_effect [where e = "to_int32 rt lhs", OF l])
  then have "does C (h_bits rt h) ip ((st @ [rhs]) @ [lhs]) s (lands C ip (st @ [x]) s')"
    unfolding h_bits_def by (intro does_pop)
  then show ?thesis by simp
qed

lemma does_bits_throw:
  assumes "op_bits rt h lhs rhs s = Some (Inl e, s')"
  shows "does C (h_bits rt h) ip (st @ [rhs, lhs]) s (fails C st e s')"
proof -
  from assms consider (left) "to_int32 rt lhs s = Some (Inl e, s')"
    | (right) l s1 where "to_int32 rt lhs s = Some (Inr l, s1)" "to_int32 rt rhs s1 = Some (Inl e, s')"
    by (auto simp: op_bits_def e_bind_def e_return_def split: option.splits sum.splits)
  then have "does C (effect_i (to_int32 rt lhs) (\<lambda>x. pop_i (\<lambda>b. effect_i (to_int32 rt b) (\<lambda>y. push_i (from_i32 (h x y)) next_i))))
      ip (st @ [rhs]) s (fails C st e s')"
  proof cases
    case left
    then show ?thesis by (rule does_effect_throw [where e = "to_int32 rt lhs"])
  next
    case right
    have "does C (effect_i (to_int32 rt rhs) (\<lambda>y. push_i (from_i32 (h l y)) next_i)) ip (st @ []) s1 (fails C st e s')"
      by (rule does_effect_throw [where e = "to_int32 rt rhs", OF right(2)])
    then have "does C (pop_i (\<lambda>b. effect_i (to_int32 rt b) (\<lambda>y. push_i (from_i32 (h l y)) next_i))) ip (st @ [rhs]) s1
        (fails C st e s')"
      by (intro does_pop) simp
    then show ?thesis by (rule does_effect [where e = "to_int32 rt lhs", OF right(1)])
  qed
  then have "does C (h_bits rt h) ip ((st @ [rhs]) @ [lhs]) s (fails C st e s')"
    unfolding h_bits_def by (intro does_pop)
  then show ?thesis by simp
qed

lemma implements_bits:
  assumes "code_at C ip [op]" "map_of (handlers rt) op = Some (h_bits rt h)" "length st < rc_size C"
  shows "implements rt C st ip (st @ [rhs, lhs]) (op_bits rt h lhs rhs) (ip + 1) (\<lambda>w. st @ [w]) (\<lambda>_. True)"
  by (rule implements_op [OF assms(1,2)]) (auto intro!: does_bits_value does_bits_throw assms(3))

section \<open>Properties\<close>

text \<open>
  The build without inline caches (the feature \<open>no-inline-caching\<close> of crates/starlight/Cargo.toml): an
  access of a property ignores the place for feedback that it is given.
\<close>

definition no_inline_caching :: "'w runtime \<Rightarrow> bool" where
  "no_inline_caching rt \<longleftrightarrow> (\<forall>b i. rt_get_by_id rt b i = rt_get_by_id rt 0 0) \<and>
     (\<forall>strict b i. rt_put_by_id rt strict b i = rt_put_by_id rt strict 0 0)"

lemma does_with_name:
  assumes "ctx_block C = Some b" "unat ix < length (cb_names b)" "does C (k (cb_names b ! unat ix)) ip st s Q"
  shows "does C (with_name ix k) ip st s Q"
  unfolding with_name_def by (rule does_block [OF assms(1)]) (use assms in simp)

lemma does_names:
  assumes "code_at C ip (op # to_le_bytes ix @ to_le_bytes fdbk)" "ctx_block C = Some b" "unat ix < length (cb_names b)"
    "\<And>f. does C (k (cb_names b ! unat ix) f) (ip + 9) st s Q"
  shows "does C (operand (\<lambda>n. with_name n (\<lambda>name. operand (\<lambda>fdbk. with_frame (\<lambda>f. k name (block_ptr f, unat fdbk)))))) (ip + 1) st s Q"
  by (rule does_first_operand [OF assms(1)], rule does_with_name [OF assms(2,3)], rule does_second_operand [OF assms(1)],
      rule does_frame, rule assms(4))

lemma does_effect_result:
  assumes "e s = Some (Inr x, s')" "length st < rc_size C"
  shows "does C (effect_i e (\<lambda>v. push_i v next_i)) ip st s (lands C ip (st @ [x]) s')"
  by (rule does_effect [where e = e, OF assms(1)]) (use assms(2) in \<open>auto intro!: does_push does_next\<close>)

lemma implements_get_by_id:
  assumes code: "code_at C ip (op # to_le_bytes ix @ to_le_bytes fdbk)"
    and op: "map_of (handlers rt) op = Some (h_get_by_id rt is_try)"
    and names: "ctx_block C = Some b" "unat ix < length (cb_names b)" "cb_names b ! unat ix = name"
    and rt: "no_inline_caching rt" and size: "length st < rc_size C"
  shows "implements rt C st ip (st @ [object]) (rt_get_by_id rt 0 0 is_try name object) (ip + 9) (\<lambda>v. st @ [v]) (\<lambda>_. True)"
proof (rule implements_op [OF code op])
  let ?get = "\<lambda>f. rt_get_by_id rt (fst f) (snd f) is_try name object"
  have get: "?get f = rt_get_by_id rt 0 0 is_try name object" for f
    using rt unfolding no_inline_caching_def by metis
  have run: "does C (h_get_by_id rt is_try) (ip + 1) (st @ [object]) s Q"
    if "\<And>f. does C (effect_i (?get f) (\<lambda>v. push_i v next_i)) (ip + 9) st s Q" for s Q
  proof -
    have "does C (operand (\<lambda>n. with_name n (\<lambda>name. operand (\<lambda>fdbk. with_frame (\<lambda>f.
        (\<lambda>name f. pop_i (\<lambda>object. effect_i (rt_get_by_id rt (fst f) (snd f) is_try name object) (\<lambda>v. push_i v next_i)))
          name (block_ptr f, unat fdbk)))))) (ip + 1) (st @ [object]) s Q"
      by (rule does_names [OF code names(1,2)], rule does_pop) (use that names(3) in simp)
    then show ?thesis by (simp add: h_get_by_id_def)
  qed
  show "True \<and> does C (h_get_by_id rt is_try) (ip + 1) (st @ [object]) s (lands C (ip + 9) (st @ [x]) s')"
    if "rt_get_by_id rt 0 0 is_try name object s = Some (Inr x, s')" for s x s'
    using run [OF does_effect_result] that get size by simp
  show "does C (h_get_by_id rt is_try) (ip + 1) (st @ [object]) s (fails C st e s')"
    if "rt_get_by_id rt 0 0 is_try name object s = Some (Inl e, s')" for s e s'
    using run [OF does_effect_throw [where ys = "[]", simplified]] that get by simp
qed

lemma implements_put_by_id:
  assumes code: "code_at C ip (OP_PUT_BY_ID # to_le_bytes ix @ to_le_bytes fdbk)"
    and names: "ctx_block C = Some b" "unat ix < length (cb_names b)" "cb_names b ! unat ix = name"
    and rt: "no_inline_caching rt"
  shows "implements rt C st ip (st @ [val, object]) (put_property rt (cb_strict b) name object val) (ip + 9) (\<lambda>_. st) (\<lambda>_. True)"
proof (rule implements_op [OF code])
  show "map_of (handlers rt) OP_PUT_BY_ID = Some (h_put_by_id rt)" by (rule handler_of)
  let ?put = "\<lambda>f. rt_put_by_id rt (cb_strict b) (fst f) (snd f) name object val"
  have put: "?put f = rt_put_by_id rt (cb_strict b) 0 0 name object val" for f
    using rt unfolding no_inline_caching_def by metis
  have run: "does C (h_put_by_id rt) (ip + 1) (st @ [val, object]) s Q"
    if "\<And>f. does C (if is_jsobject rt s object then effect_i (?put f) (\<lambda>_. next_i) else next_i) (ip + 9) st s Q" for s Q
  proof -
    have "does C (operand (\<lambda>n. with_name n (\<lambda>name. operand (\<lambda>fdbk. with_frame (\<lambda>f.
        (\<lambda>name f. pop_i (\<lambda>object. pop_i (\<lambda>val. with_block (\<lambda>b. with_store (\<lambda>s.
           if is_jsobject rt s object then effect_i (rt_put_by_id rt (cb_strict b) (fst f) (snd f) name object val) (\<lambda>_. next_i) else next_i)))))
          name (block_ptr f, unat fdbk)))))) (ip + 1) ((st @ [val]) @ [object]) s Q"
      by (rule does_names [OF code names(1,2)], rule does_pop, rule does_pop, rule does_block [OF names(1)], rule does_store,
          unfold names(3), rule that)
    then show ?thesis by (simp add: h_put_by_id_def cong: if_cong)
  qed
  show "True \<and> does C (h_put_by_id rt) (ip + 1) (st @ [val, object]) s (lands C (ip + 9) st s')"
    if "put_property rt (cb_strict b) name object val s = Some (Inr x, s')" for s x s'
  proof (rule conjI [OF TrueI run])
    show "does C (if is_jsobject rt s object then effect_i (?put f) (\<lambda>_. next_i) else next_i) (ip + 9) st s (lands C (ip + 9) st s')" for f
      using that put by (auto simp: put_property_def intro!: does_next does_effect split: if_splits)
  qed
  show "does C (h_put_by_id rt) (ip + 1) (st @ [val, object]) s (fails C st e s')"
    if "put_property rt (cb_strict b) name object val s = Some (Inl e, s')" for s e s'
  proof (rule run)
    show "does C (if is_jsobject rt s object then effect_i (?put f) (\<lambda>_. next_i) else next_i) (ip + 9) st s (fails C st e s')" for f
      using that put by (auto simp: put_property_def intro!: does_effect_throw [where ys = "[]", simplified] split: if_splits)
  qed
qed

lemma does_get_by_val:
  assumes "code_at C ip (OP_GET_BY_VAL # to_le_bytes x)"
    "does C (effect_i (rt_get_by_val rt object key) (\<lambda>v. push_i v next_i)) (ip + 5) st s Q"
  shows "does C (h_get_by_val rt False) (ip + 1) (st @ [key, object]) s Q"
proof -
  have "does C (pop_i (\<lambda>object. pop_i (\<lambda>key. effect_i (rt_get_by_val rt object key) (\<lambda>v. push_i v next_i)))) (ip + 5)
      ((st @ [key]) @ [object]) s Q"
    by (intro does_pop) (rule assms(2))
  then show ?thesis
    unfolding h_get_by_val_def using does_first_operand [where bs = "[]" and st = "(st @ [key]) @ [object]"] assms(1) by simp
qed

lemma implements_get_by_val:
  assumes code: "code_at C ip (OP_GET_BY_VAL # to_le_bytes x)" and size: "length st < rc_size C"
  shows "implements rt C st ip (st @ [key, object]) (rt_get_by_val rt object key) (ip + 5) (\<lambda>v. st @ [v]) (\<lambda>_. True)"
proof (rule implements_op [OF code])
  show "map_of (handlers rt) OP_GET_BY_VAL = Some (h_get_by_val rt False)" by (rule handler_of)
  show "True \<and> does C (h_get_by_val rt False) (ip + 1) (st @ [key, object]) s (lands C (ip + 5) (st @ [v]) s')"
    if "rt_get_by_val rt object key s = Some (Inr v, s')" for s v s'
    using does_get_by_val [OF code does_effect_result [where e = "rt_get_by_val rt object key", OF that size]] by simp
  show "does C (h_get_by_val rt False) (ip + 1) (st @ [key, object]) s (fails C st e s')"
    if "rt_get_by_val rt object key s = Some (Inl e, s')" for s e s'
    by (rule does_get_by_val [OF code
        does_effect_throw [where e = "rt_get_by_val rt object key" and ys = "[]" and B = st, simplified append_Nil2, OF that]])
qed

lemma does_put_by_val:
  assumes "code_at C ip (OP_PUT_BY_VAL # to_le_bytes x)" "ctx_block C = Some b"
    "does C (effect_i (rt_put_by_val rt (cb_strict b) object key val) (\<lambda>_. next_i)) (ip + 5) st s Q"
  shows "does C (h_put_by_val rt) (ip + 1) (st @ [val, key, object]) s Q"
proof -
  have "does C (pop_i (\<lambda>object. pop_i (\<lambda>key. pop_i (\<lambda>val. with_block (\<lambda>b.
      effect_i (rt_put_by_val rt (cb_strict b) object key val) (\<lambda>_. next_i)))))) (ip + 5) (((st @ [val]) @ [key]) @ [object]) s Q"
    by (intro does_pop does_block [OF assms(2)]) (rule assms(3))
  then show ?thesis
    unfolding h_put_by_val_def
    using does_first_operand [where bs = "[]" and st = "((st @ [val]) @ [key]) @ [object]"] assms(1) by simp
qed

lemma implements_put_by_val:
  assumes code: "code_at C ip (OP_PUT_BY_VAL # to_le_bytes x)" and b: "ctx_block C = Some b" "cb_strict b = strict"
  shows "implements rt C st ip (st @ [val, key, object]) (rt_put_by_val rt strict object key val) (ip + 5) (\<lambda>_. st) (\<lambda>_. True)"
proof (rule implements_op [OF code])
  let ?put = "rt_put_by_val rt (cb_strict b) object key val"
  show "map_of (handlers rt) OP_PUT_BY_VAL = Some (h_put_by_val rt)" by (rule handler_of)
  show "True \<and> does C (h_put_by_val rt) (ip + 1) (st @ [val, key, object]) s (lands C (ip + 5) st s')"
    if "rt_put_by_val rt strict object key val s = Some (Inr v, s')" for s v s'
    by (rule conjI [OF TrueI does_put_by_val [OF code b(1) does_effect [where e = ?put, OF that [folded b(2)] does_next]]])
  show "does C (h_put_by_val rt) (ip + 1) (st @ [val, key, object]) s (fails C st e s')"
    if "rt_put_by_val rt strict object key val s = Some (Inl e, s')" for s e s'
    by (rule does_put_by_val [OF code b(1)
        does_effect_throw [where e = ?put and ys = "[]" and B = st, simplified append_Nil2, OF that [folded b(2)]]])
qed

section \<open>Variables\<close>

definition env_effect :: "eval_context \<Rightarrow> nat \<Rightarrow> (u64, 'w) effect" where
  "env_effect cx depth s = map_option (\<lambda>a. (Inr a, s)) (env_up s depth (cx_env cx))"
definition read_effect :: "nat \<Rightarrow> u64 \<Rightarrow> (js_value, 'w) effect" where
  "read_effect ix a s =
     (case so_envs s a of
        None \<Rightarrow> None
      | Some e \<Rightarrow> if ix < length (ev_values e) then Some (Inr (fst (ev_values e ! ix)), s) else None)"

lemma get_value_variable: "get_value rt cx (RVariable ix depth) = e_bind (env_effect cx depth) (read_effect ix)"
  by (rule ext)
    (simp add: get_value_def variable_env_def env_effect_def read_effect_def e_bind_def e_return_def e_panic_def split: option.split)

lemma put_value_variable: "put_value rt cx (RVariable ix depth) v = e_bind (env_effect cx depth) (\<lambda>a. put_variable rt a ix v)"
  by (rule ext)
    (simp add: put_value_def variable_env_def env_effect_def put_variable_def e_bind_def split: option.split)

lemma implements_get_env:
  assumes code: "code_at C ip (OP_GET_ENV # to_le_bytes d)" and size: "length st < rc_size C"
    and env: "cx_env cx = fr_env (rc_frame C)"
  shows "implements rt C B ip st (env_effect cx (unat d)) (ip + 5) (\<lambda>a. st @ [encode_object_value a]) (\<lambda>_. True)"
proof (rule implements_op [OF code])
  show "map_of (handlers rt) OP_GET_ENV = Some (h_get_env rt)" by (rule handler_of)
  show "True \<and> does C (h_get_env rt) (ip + 1) st s (lands C (ip + 5) (st @ [encode_object_value a]) s')"
    if "env_effect cx (unat d) s = Some (Inr a, s')" for s a s'
  proof -
    have up: "env_up s (unat d) (fr_env (rc_frame C)) = Some a" "s' = s"
      using that env by (auto simp: env_effect_def)
    have "does C (push_i (encode_object_value a) next_i) (ip + 5) st s (lands C (ip + 5) (st @ [encode_object_value a]) s)"
      using size by (auto intro!: does_push does_next)
    then have "does C (\<lambda>m. case env_up (mc_store m) (unat d) (fr_env (rc_frame C)) of
        None \<Rightarrow> None | Some a \<Rightarrow> push_i (encode_object_value a) next_i m) (ip + 5) st s
        (lands C (ip + 5) (st @ [encode_object_value a]) s)"
      using up(1) by (simp add: does_def in_state_def)
    then show ?thesis
      unfolding h_get_env_def up(2)
      by (intro conjI TrueI does_first_operand [where bs = "[]"] does_frame) (use code in simp_all)
  qed
  show "does C (h_get_env rt) (ip + 1) st s (fails C B e s')"
    if "env_effect cx (unat d) s = Some (Inl e, s')" for s e s'
    using that by (simp add: env_effect_def)
qed

lemma does_get_local_at:
  assumes "read_effect (unat ix) a s = Some (Inr v, s')" "length st < rc_size C"
  shows "does C (get_local_at a ix) ip st s (lands C ip (st @ [v]) s')"
proof -
  from assms(1) obtain e where e: "so_envs s a = Some e" "unat ix < length (ev_values e)" "v = fst (ev_values e ! unat ix)" "s' = s"
    by (auto simp: read_effect_def split: option.splits if_splits)
  have "does C (push_i v next_i) ip st s (lands C ip (st @ [v]) s)" using assms(2) by (auto intro!: does_push does_next)
  then show ?thesis using e by (simp add: does_def get_local_at_def env_of_def in_state_def)
qed

lemma read_effect_no_throw: "read_effect ix a s \<noteq> Some (Inl e, s')"
  by (simp add: read_effect_def split: option.split)

lemma implements_get_local:
  assumes code: "code_at C ip (OP_GET_LOCAL # to_le_bytes ix)" and size: "length st < rc_size C"
  shows "implements rt C B ip (st @ [encode_object_value a]) (read_effect (unat ix) a) (ip + 5) (\<lambda>v. st @ [v]) (\<lambda>_. True)"
proof (rule implements_op [OF code])
  show "map_of (handlers rt) OP_GET_LOCAL = Some (h_get_local rt)" by (rule handler_of)
  show "True \<and> does C (h_get_local rt) (ip + 1) (st @ [encode_object_value a]) s (lands C (ip + 5) (st @ [v]) s')"
    if "read_effect (unat ix) a s = Some (Inr v, s')" for s v s'
    using does_get_local_at [OF that size] code
    by (auto simp: h_get_local_def encode_object_value_def intro!: does_first_operand [where bs = "[]", simplified] does_pop)
  show "does C (h_get_local rt) (ip + 1) (st @ [encode_object_value a]) s (fails C B e s')"
    if "read_effect (unat ix) a s = Some (Inl e, s')" for s e s'
    using that read_effect_no_throw by blast
qed

lemma implements_ge0gl:
  assumes code: "code_at C ip (OP_GE0GL # to_le_bytes ix)" and size: "length st < rc_size C"
    and env: "cx_env cx = fr_env (rc_frame C)"
  shows "implements rt C B ip st (get_value rt cx (RVariable (unat ix) 0)) (ip + 5) (\<lambda>v. st @ [v]) (\<lambda>_. True)"
proof (rule implements_op [OF code])
  have get: "get_value rt cx (RVariable (unat ix) 0) = read_effect (unat ix) (fr_env (rc_frame C))"
    by (rule ext) (simp add: get_value_variable env_effect_def e_bind_def env)
  show "map_of (handlers rt) OP_GE0GL = Some (h_ge0gl rt)" by (rule handler_of)
  show "True \<and> does C (h_ge0gl rt) (ip + 1) st s (lands C (ip + 5) (st @ [v]) s')"
    if "get_value rt cx (RVariable (unat ix) 0) s = Some (Inr v, s')" for s v s'
    using does_get_local_at [OF that [unfolded get] size] code
    by (auto simp: h_ge0gl_def intro!: does_first_operand [where bs = "[]", simplified] does_frame)
  show "does C (h_ge0gl rt) (ip + 1) st s (fails C B e s')"
    if "get_value rt cx (RVariable (unat ix) 0) s = Some (Inl e, s')" for s e s'
    using that read_effect_no_throw unfolding get by blast
qed

lemma does_set_local_value:
  assumes "put_variable rt a (unat ix) v s = Some (Inr x, s')"
  shows "does C (set_local_at rt a ix) ip (st @ [v]) s (lands C ip st s')"
  unfolding set_local_at_def
proof (rule does_pop)
  from assms obtain e where e: "so_envs s a = Some e" "unat ix < length (ev_values e)" "snd (ev_values e ! unat ix)"
      "s' = s\<lparr>so_envs := (so_envs s)(a \<mapsto> e\<lparr>ev_values := (ev_values e)[unat ix := (v, True)]\<rparr>)\<rparr>"
    by (auto simp: put_variable_def e_bind_def e_throw_def split: option.splits sum.splits if_splits)
  show "does C (\<lambda>m. case env_of m a of None \<Rightarrow> None
     | Some e \<Rightarrow> if \<not> unat ix < length (ev_values e) then None
         else if \<not> snd (ev_values e ! unat ix) then throw_effect (rt_type_error rt ''Cannot assign to immutable variable'') m
         else next_i (put_env a (e\<lparr>ev_values := (ev_values e)[unat ix := (v, True)]\<rparr>) m)) ip st s (lands C ip st s')"
    using e by (auto simp: does_def env_of_def put_env_def in_state_def lands_def next_i_def)
qed

lemma does_set_local_throw:
  assumes "put_variable rt a (unat ix) v s = Some (Inl x, s')"
  shows "does C (set_local_at rt a ix) ip (st @ [v]) s (fails C st x s')"
  unfolding set_local_at_def
proof (rule does_pop)
  let ?err = "rt_type_error rt ''Cannot assign to immutable variable''"
  from assms obtain e where e: "so_envs s a = Some e" "unat ix < length (ev_values e)" "\<not> snd (ev_values e ! unat ix)"
    by (cases "so_envs s a") (auto simp: put_variable_def split: if_splits)
  then have err: "e_bind ?err e_throw s = Some (Inl x :: js_value + unit, s')" using assms by (simp add: put_variable_def)
  have "does C (effect_i ?err throw_i) ip (st @ []) s (fails C st x s')"
  proof (cases "\<exists>y. ?err s = Some (Inl y, s')")
    case True
    then have "?err s = Some (Inl x, s')" using err by (auto simp: e_bind_def)
    then show ?thesis by (rule does_effect_throw)
  next
    case False
    then have "?err s = Some (Inr x, s')" using err by (auto simp: e_bind_def e_throw_def split: option.splits sum.splits)
    then show ?thesis by (rule does_effect) (rule does_throw)
  qed
  then show "does C (\<lambda>m. case env_of m a of None \<Rightarrow> None
     | Some e \<Rightarrow> if \<not> unat ix < length (ev_values e) then None
         else if \<not> snd (ev_values e ! unat ix) then throw_effect ?err m
         else next_i (put_env a (e\<lparr>ev_values := (ev_values e)[unat ix := (v, True)]\<rparr>) m)) ip st s (fails C st x s')"
    using e by (auto simp: does_def env_of_def in_state_def throw_effect_def)
qed

lemma implements_set_local:
  assumes code: "code_at C ip (OP_SET_LOCAL # to_le_bytes ix)"
  shows "implements rt C st ip (st @ [v, encode_object_value a]) (put_variable rt a (unat ix) v) (ip + 5) (\<lambda>_. st) (\<lambda>_. True)"
proof (rule implements_op [OF code])
  have run: "does C (h_set_local rt) (ip + 1) (st @ [v, encode_object_value a]) s Q"
    if "does C (set_local_at rt a ix) (ip + 5) (st @ [v]) s Q" for s Q
  proof -
    have "does C (pop_i (\<lambda>v. set_local_at rt v ix)) (ip + 5) ((st @ [v]) @ [encode_object_value a]) s Q"
      by (rule does_pop) (use that in \<open>simp add: encode_object_value_def\<close>)
    then show ?thesis
      unfolding h_set_local_def
      using does_first_operand [where bs = "[]" and st = "(st @ [v]) @ [encode_object_value a]"] code by simp
  qed
  show "map_of (handlers rt) OP_SET_LOCAL = Some (h_set_local rt)" by (rule handler_of)
  show "True \<and> does C (h_set_local rt) (ip + 1) (st @ [v, encode_object_value a]) s (lands C (ip + 5) st s')"
    if "put_variable rt a (unat ix) v s = Some (Inr x, s')" for s x s'
    by (rule conjI [OF TrueI run [OF does_set_local_value [OF that]]])
  show "does C (h_set_local rt) (ip + 1) (st @ [v, encode_object_value a]) s (fails C st e s')"
    if "put_variable rt a (unat ix) v s = Some (Inl e, s')" for s e s'
    by (rule run [OF does_set_local_throw [OF that]])
qed

lemma implements_ge0sl:
  assumes code: "code_at C ip (OP_GE0SL # to_le_bytes ix)" and env: "cx_env cx = fr_env (rc_frame C)"
  shows "implements rt C st ip (st @ [v]) (put_value rt cx (RVariable (unat ix) 0) v) (ip + 5) (\<lambda>_. st) (\<lambda>_. True)"
proof (rule implements_op [OF code])
  have put: "put_value rt cx (RVariable (unat ix) 0) v = put_variable rt (fr_env (rc_frame C)) (unat ix) v"
    by (rule ext) (simp add: put_value_variable env_effect_def e_bind_def env)
  have run: "does C (h_ge0sl rt) (ip + 1) (st @ [v]) s Q"
    if "does C (set_local_at rt (fr_env (rc_frame C)) ix) (ip + 5) (st @ [v]) s Q" for s Q
    unfolding h_ge0sl_def
    by (rule does_first_operand [where bs = "[]"], use code in simp, rule does_frame) (use that in simp)
  show "map_of (handlers rt) OP_GE0SL = Some (h_ge0sl rt)" by (rule handler_of)
  show "True \<and> does C (h_ge0sl rt) (ip + 1) (st @ [v]) s (lands C (ip + 5) st s')"
    if "put_value rt cx (RVariable (unat ix) 0) v s = Some (Inr x, s')" for s x s'
    by (rule conjI [OF TrueI run [OF does_set_local_value [OF that [unfolded put]]]])
  show "does C (h_ge0sl rt) (ip + 1) (st @ [v]) s (fails C st e s')"
    if "put_value rt cx (RVariable (unat ix) 0) v s = Some (Inl e, s')" for s e s'
    by (rule run [OF does_set_local_throw [OF that [unfolded put]]])
qed

end
