(* ===== verification/Code_Layout.thy ===== *)
theory Code_Layout
  imports Expr_Compiler "HOL-Library.Sublist"
begin

text \<open>
  What emission does to the block that is being compiled: code only grows, apart from the jumps that
  are patched, the tables of names and literals grow, and the maps from names and values to indices
  agree with them.
\<close>

abbreviation code_of :: "compiler \<Rightarrow> u8 list" where "code_of c \<equiv> cb_code (bc_block c)"
abbreviation names_of :: "compiler \<Rightarrow> symbol list" where "names_of c \<equiv> cb_names (bc_block c)"
abbreviation literals_of :: "compiler \<Rightarrow> js_value list" where "literals_of c \<equiv> cb_literals (bc_block c)"

definition val_literal :: "compiler_host \<Rightarrow> js_val \<Rightarrow> js_value" where
  "val_literal ho v = (case v of ValFloat x \<Rightarrow> from_f64 x | ValStr s \<Rightarrow> ho_string ho s)"

definition tables_ok :: "compiler_host \<Rightarrow> compiler \<Rightarrow> bool" where
  "tables_ok ho c \<longleftrightarrow>
     (\<forall>n ix. map_of (bc_name_map c) n = Some ix \<longrightarrow> ix < length (names_of c) \<and> names_of c ! ix = n) \<and>
     (\<forall>v ix. map_of (bc_val_map c) v = Some ix \<longrightarrow> ix < length (literals_of c) \<and> literals_of c ! ix = val_literal ho v)"

text \<open>From \<open>c\<close> to \<open>c'\<close>, with the first \<open>n\<close> bytes of code as they were.\<close>

definition keeps :: "compiler_host \<Rightarrow> nat \<Rightarrow> compiler \<Rightarrow> compiler \<Rightarrow> bool" where
  "keeps ho n c c' \<longleftrightarrow>
     n \<le> code_len c' \<and> take n (code_of c') = take n (code_of c) \<and> prefix (names_of c) (names_of c') \<and>
     prefix (literals_of c) (literals_of c') \<and> bc_scope c' = bc_scope c \<and> (tables_ok ho c \<longrightarrow> tables_ok ho c')"
definition grows_from :: "compiler_host \<Rightarrow> nat \<Rightarrow> 'a comp \<Rightarrow> bool" where
  "grows_from ho n m \<longleftrightarrow> (\<forall>c a c'. n \<le> code_len c \<longrightarrow> m c = Some (Inr (a, c')) \<longrightarrow> keeps ho n c c')"
definition grows :: "compiler_host \<Rightarrow> 'a comp \<Rightarrow> bool" where
  "grows ho m \<longleftrightarrow> (\<forall>n. grows_from ho n m)"

named_theorems growing \<open>what only adds to the code\<close>

lemma keeps_refl: "n \<le> code_len c \<Longrightarrow> keeps ho n c c"
  by (simp add: keeps_def)

lemma keeps_trans: "keeps ho n c c1 \<Longrightarrow> keeps ho n c1 c2 \<Longrightarrow> keeps ho n c c2"
  unfolding keeps_def by (auto intro: prefix_order.trans)

lemma growsD: "grows ho m \<Longrightarrow> m c = Some (Inr (a, c')) \<Longrightarrow> keeps ho (code_len c) c c'"
  by (simp add: grows_def grows_from_def)

lemma grows_growsfrom: "grows ho m \<Longrightarrow> grows_from ho n m"
  by (simp add: grows_def)

lemma bind_c_Inr: "bind_c m f c = Some (Inr r) \<longleftrightarrow> (\<exists>x c1. m c = Some (Inr (x, c1)) \<and> f x c1 = Some (Inr r))"
  by (auto simp: bind_c_def split: option.split sum.split)

lemma growsfrom_bind:
  assumes "grows_from ho n m" "\<And>x. grows_from ho n (f x)"
  shows "grows_from ho n (bind_c m f)"
  unfolding grows_from_def
proof (intro allI impI)
  fix c a c' assume n: "n \<le> code_len c" and r: "bind_c m f c = Some (Inr (a, c'))"
  from r obtain x c1 where m: "m c = Some (Inr (x, c1))" and f: "f x c1 = Some (Inr (a, c'))"
    unfolding bind_c_Inr by blast
  have k: "keeps ho n c c1" using assms(1) n m unfolding grows_from_def by blast
  moreover from k have "n \<le> code_len c1" by (simp add: keeps_def)
  then have "keeps ho n c1 c'" using assms(2) f unfolding grows_from_def by blast
  ultimately show "keeps ho n c c'" by (rule keeps_trans)
qed

lemma grows_bind [growing]: "grows ho m \<Longrightarrow> (\<And>x. grows ho (f x)) \<Longrightarrow> grows ho (bind_c m f)"
  by (simp add: grows_def growsfrom_bind)

lemma grows_return [growing]: "grows ho (return_c x)"
  by (simp add: grows_def grows_from_def return_c_def keeps_refl)

lemma grows_nyi [growing]: "grows ho nyi"
  by (simp add: grows_def grows_from_def nyi_def)

lemma grows_panic [growing]: "grows ho panic_c"
  by (simp add: grows_def grows_from_def panic_c_def)

lemma grows_get [growing]: "grows ho (get_c f)"
  by (auto simp: grows_def grows_from_def get_c_def keeps_refl)

lemma growsfrom_steps: "\<forall>m\<in>set ms. grows_from ho n m \<Longrightarrow> grows_from ho n (steps ms)"
proof (induction ms)
  case Nil
  then show ?case using grows_return [of ho "()"] by (simp add: grows_def)
next
  case (Cons m ms)
  then show ?case by (auto intro: growsfrom_bind)
qed

lemma grows_steps [growing]: "\<forall>m\<in>set ms. grows ho m \<Longrightarrow> grows ho (steps ms)"
  by (simp add: grows_def growsfrom_steps)

section \<open>Emission\<close>

definition emitted :: "opcode \<Rightarrow> u32 list \<Rightarrow> bool \<Rightarrow> compiler \<Rightarrow> compiler" where
  "emitted op operands fdbk = upd_block (\<lambda>b.
     (let code = cb_code b @ [op] @ concat (map to_le_bytes operands) in
      if fdbk
      then b\<lparr>cb_code := code @ to_le_bytes (of_nat (length (cb_feedback b))), cb_feedback := cb_feedback b @ [NoFeedBack]\<rparr>
      else b\<lparr>cb_code := code\<rparr>))"

lemma emit_eq: "emit op operands fdbk c = Some (Inr ((), emitted op operands fdbk c))"
  by (simp add: emit_def upd_c_def emitted_def)

lemma emitted_fields [simp]:
  "names_of (emitted op xs f c) = names_of c" "literals_of (emitted op xs f c) = literals_of c"
  "bc_scope (emitted op xs f c) = bc_scope c" "bc_name_map (emitted op xs f c) = bc_name_map c"
  "bc_val_map (emitted op xs f c) = bc_val_map c"
  by (simp_all add: emitted_def Let_def)

lemma emitted_code:
  "code_of (emitted op xs f c) = code_of c @ op # concat (map to_le_bytes xs) @
     (if f then to_le_bytes (of_nat (length (cb_feedback (bc_block c)))) else [])"
  by (simp add: emitted_def Let_def)

lemma grows_emit [growing]: "grows ho (emit op xs f)"
  by (auto simp: grows_def grows_from_def emit_eq keeps_def emitted_code code_len_def tables_ok_def)

definition patched :: "opcode \<Rightarrow> nat \<Rightarrow> compiler \<Rightarrow> compiler" where
  "patched op p = upd_block (\<lambda>b.
     b\<lparr>cb_code := write_instr p op (of_nat (length (cb_code b) - (p + 5))) (cb_code b)\<rparr>)"

lemma patch_eq: "patch op p c = Some (Inr ((), patched op p c))"
  by (simp add: patch_def upd_c_def patched_def)

lemma patched_fields [simp]:
  "names_of (patched op p c) = names_of c" "literals_of (patched op p c) = literals_of c"
  "bc_scope (patched op p c) = bc_scope c" "bc_name_map (patched op p c) = bc_name_map c"
  "bc_val_map (patched op p c) = bc_val_map c"
  by (simp_all add: patched_def)

lemma patched_code:
  "code_of (patched op p c) = write_instr p op (of_nat (code_len c - (p + 5))) (code_of c)"
  by (simp add: patched_def code_len_def)

lemma to_le_bytes_length [simp]: "length (to_le_bytes x) = 4"
  by (simp add: to_le_bytes_def)

lemma length_write_instr: "p + 5 \<le> length code \<Longrightarrow> length (write_instr p op x code) = length code"
  by (simp add: write_instr_def)

lemma take_write_instr: "n \<le> p \<Longrightarrow> p \<le> length code \<Longrightarrow> take n (write_instr p op x code) = take n code"
  by (simp add: write_instr_def min_def)

lemma drop_write_instr: "p + 5 \<le> n \<Longrightarrow> p \<le> length code \<Longrightarrow> drop n (write_instr p op x code) = drop n code"
  by (simp add: write_instr_def drop_Cons' add.commute)

lemma growsfrom_patch: "n \<le> p \<Longrightarrow> grows_from ho n (patch op p)"
  by (auto simp: grows_from_def patch_eq keeps_def patched_code write_instr_def code_len_def tables_ok_def min_def)

lemma grows_jmp_custom:
  assumes "\<And>n p. n \<le> p \<Longrightarrow> grows_from ho n (k p)"
  shows "grows ho (jmp_custom op k)"
  unfolding grows_def grows_from_def
proof (intro allI impI)
  fix n c a c' assume n: "n \<le> code_len c" and r: "jmp_custom op k c = Some (Inr (a, c'))"
  let ?c1 = "emitted op [0] False c"
  have k: "keeps ho n c ?c1" using grows_emit n emit_eq unfolding grows_def grows_from_def by blast
  have "k (code_len c) ?c1 = Some (Inr (a, c'))"
    using r by (auto simp: jmp_custom_def bind_c_def get_c_def emit_eq)
  then have "keeps ho n ?c1 c'" using assms [OF n] k unfolding grows_from_def keeps_def by blast
  with k show "keeps ho n c c'" by (rule keeps_trans)
qed

lemma grows_cjmp: "(\<And>n p. n \<le> p \<Longrightarrow> grows_from ho n (k p)) \<Longrightarrow> grows ho (cjmp k)"
  unfolding cjmp_def by (rule grows_jmp_custom)

lemma growsfrom_jmp:
  assumes "\<And>p. n \<le> p \<Longrightarrow> grows_from ho n (k p)"
  shows "grows_from ho n (jmp k)"
  unfolding grows_from_def
proof (intro allI impI)
  fix c a c' assume n: "n \<le> code_len c" and r: "jmp k c = Some (Inr (a, c'))"
  let ?c1 = "emitted OP_JMP [0] False c"
  have k: "keeps ho n c ?c1" using grows_emit n emit_eq unfolding grows_def grows_from_def by blast
  have "k (code_len c) ?c1 = Some (Inr (a, c'))"
    using r by (auto simp: jmp_def jmp_custom_def bind_c_def get_c_def emit_eq)
  then have "keeps ho n ?c1 c'" using assms [OF n] k unfolding grows_from_def keeps_def by blast
  with k show "keeps ho n c c'" by (rule keeps_trans)
qed

section \<open>Tables\<close>

lemma get_sym_run:
  assumes "get_sym name c = Some (Inr (ix, c'))"
  shows "code_of c' = code_of c" "bc_scope c' = bc_scope c" "literals_of c' = literals_of c" "prefix (names_of c) (names_of c')"
    "tables_ok ho c \<Longrightarrow> tables_ok ho c' \<and> ix < length (names_of c') \<and> names_of c' ! ix = name"
  using assms
  by (auto simp: get_sym_def bind_c_def get_c_def upd_c_def return_c_def tables_ok_def update_conv' nth_append less_SucI
      split: option.splits if_splits)

lemma grows_get_sym [growing]: "grows ho (get_sym name)"
  unfolding grows_def grows_from_def keeps_def code_len_def using get_sym_run by fastforce

lemma get_val_run:
  assumes "get_val ho v c = Some (Inr (ix, c'))"
  shows "code_of c' = code_of c" "bc_scope c' = bc_scope c" "names_of c' = names_of c" "prefix (literals_of c) (literals_of c')"
    "tables_ok ho c \<Longrightarrow> tables_ok ho c' \<and> ix < length (literals_of c') \<and> literals_of c' ! ix = val_literal ho v"
  using assms
  by (auto simp: get_val_def push_literal_def bind_c_def get_c_def upd_c_def return_c_def tables_ok_def update_conv' nth_append
      less_SucI val_literal_def split: option.splits if_splits)

lemma grows_get_val [growing]: "grows ho (get_val ho v)"
  unfolding grows_def grows_from_def keeps_def code_len_def using get_val_run [of ho v] by fastforce

lemma push_literal_run:
  assumes "push_literal v c = Some (Inr (ix, c'))"
  shows "code_of c' = code_of c" "bc_scope c' = bc_scope c" "names_of c' = names_of c" "literals_of c' = literals_of c @ [v]"
    "ix = length (literals_of c)" "bc_name_map c' = bc_name_map c" "bc_val_map c' = bc_val_map c"
  using assms by (auto simp: push_literal_def bind_c_def get_c_def upd_c_def return_c_def)

lemma grows_push_literal [growing]: "grows ho (push_literal v)"
  unfolding grows_def grows_from_def keeps_def code_len_def tables_ok_def
  using push_literal_run [of v] by (fastforce simp: nth_append)

section \<open>Expressions\<close>

text \<open>The expressions without functions, calls, literals of objects and arrays, sequences, \<open>delete\<close> and the unary plus.\<close>

fun covered :: "'f expr \<Rightarrow> bool" where
  "covered (Ident n) = True"
| "covered (Lit l) = True"
| "covered This = True"
| "covered (Member (Some x) p c) = (covered x \<and> covered p)"
| "covered (Unary op x) = (op \<noteq> UDelete \<and> op \<noteq> UPlus \<and> covered x)"
| "covered (Update op pre x) = covered x"
| "covered (AssignExpr op (PatIdent n) x) = covered x"
| "covered (AssignExpr op (PatExpr e) x) = (covered e \<and> covered x)"
| "covered (Bin op x y) = (covered x \<and> covered y)"
| "covered (Cond x y z) = (covered x \<and> covered y \<and> covered z)"
| "covered (Paren x) = covered x"
| "covered _ = False"

declare expr_c.simps [simp del] compile_access.simps [simp del]

lemma expr_c_eqs:
  "expr_c ho (Ident n) used tail =
     steps [if n = ''undefined'' then emit OP_PUSH_UNDEF [] False
            else bind_c (access_var (ho_intern ho n)) access_get, pop_unless used]"
  "expr_c ho (Lit l) used tail = steps [literal_c ho l, pop_unless used]"
  "expr_c ho This used tail = (if used then emit OP_PUSH_THIS [] False else return_c ())"
  "expr_c ho (Member obj p cmp) used tail = steps [bind_c (compile_access ho (Member obj p cmp) False) access_get, pop_unless used]"
  "op \<noteq> UDelete \<Longrightarrow> expr_c ho (Unary op x) used tail = steps [expr_c ho x True False, unary_op_c op, pop_unless used]"
  "expr_c ho (Update upd True x) used tail =
     steps [expr_c ho x True False, emit OP_PUSH_INT [1] False, update_op_c upd,
       if used then emit OP_DUP [] False else return_c (), bind_c (compile_access ho x False) access_set]"
  "expr_c ho (Update upd False x) used tail =
     steps [expr_c ho x True False, if used then emit OP_DUP [] False else return_c (),
       emit OP_PUSH_INT [1] False, update_op_c upd, bind_c (compile_access ho x False) access_set]"
  "expr_c ho (Cond x y z) used tail =
     steps [expr_c ho x True False,
       cjmp (\<lambda>jelse. steps [expr_c ho y used tail,
         jmp (\<lambda>jend. steps [patch_cjmp False jelse, expr_c ho z used tail, patch_jmp jend])])]"
  "expr_c ho (Paren x) used tail = expr_c ho x used False"
  by (subst expr_c.simps, simp)+

definition target_c :: "compiler_host \<Rightarrow> fn_action expr pat \<Rightarrow> access comp" where
  "target_c ho left =
     (case left of PatIdent n \<Rightarrow> access_var (ho_intern ho n) | PatExpr x \<Rightarrow> compile_access ho x False | OtherPat \<Rightarrow> nyi)"

lemma expr_c_assign:
  "expr_c ho (AssignExpr Assign left right) used tail =
     steps [expr_c ho right True False, if used then emit OP_DUP [] False else return_c (), bind_c (target_c ho left) access_set]"
  "op \<noteq> Assign \<Longrightarrow> expr_c ho (AssignExpr op left right) used tail =
     steps [expr_c ho right True False, bind_c (target_c ho left) access_get,
       assign_op_c op, if used then emit OP_DUP [] False else return_c (), bind_c (target_c ho left) access_set]"
  by (subst expr_c.simps, simp add: target_c_def)+

lemma expr_c_bin:
  "expr_c ho (Bin LogicalOr x y) used tail =
     steps [expr_c ho x True False, emit OP_DUP [] False,
       cjmp (\<lambda>jtrue. steps [emit OP_POP [] False, expr_c ho y True False, patch_cjmp True jtrue, pop_unless used])]"
  "expr_c ho (Bin LogicalAnd x y) used tail =
     steps [expr_c ho x True False, emit OP_DUP [] False,
       cjmp (\<lambda>jfalse. steps [emit OP_POP [] False, expr_c ho y True False,
         jmp (\<lambda>jend. steps [patch_cjmp False jfalse, patch_jmp jend, pop_unless used])])]"
  "op \<noteq> LogicalOr \<Longrightarrow> op \<noteq> LogicalAnd \<Longrightarrow>
   expr_c ho (Bin op x y) used tail =
     steps [expr_c ho y True False, expr_c ho x True False, binary_op_c op, pop_unless used]"
  by (subst expr_c.simps, simp)+

lemma compile_access_eqs:
  "compile_access ho (Ident n) dup = access_var (ho_intern ho n)"
  "compile_access ho (Member (Some x) p cmp) dup =
     bind_c (steps [expr_c ho x True False, if dup then emit OP_DUP [] False else return_c ()]) (\<lambda>_.
       (case (if cmp then None else member_name p) of
          Some n \<Rightarrow> return_c (AById (ho_intern ho n))
        | None \<Rightarrow> bind_c (steps [expr_c ho p True False, emit OP_SWAP [] False]) (\<lambda>_. return_c AByVal)))"
  "compile_access ho This dup = return_c AThis"
  "compile_access ho (Lit l) dup = nyi"
  "compile_access ho (Unary uop x) dup = nyi"
  "compile_access ho (Update upd pre x) dup = nyi"
  "compile_access ho (AssignExpr aop left x) dup = nyi"
  "compile_access ho (Bin bop x y) dup = nyi"
  "compile_access ho (Cond x y z) dup = nyi"
  "compile_access ho (Paren x) dup = nyi"
  by (subst compile_access.simps, simp)+

lemma grows_access [growing]: "grows ho (access_var v)" "grows ho (access_get a)" "grows ho (access_set a)"
  by (auto simp: access_var_def access_get_def access_set_def emit_get_local_def emit_set_local_def emit_sym_def
      intro!: growing split: access.split)

lemma grows_literal [growing]: "grows ho (literal_c ho l)"
  by (auto simp: literal_c_def push_number_def push_string_def get_val2_def intro!: growing split: lit.split option.split)

lemma grows_operators [growing]:
  "grows ho (unary_op_c uop)" "grows ho (binary_op_c bop)" "grows ho (assign_op_c aop)" "grows ho (update_op_c pop)"
  "grows ho (pop_unless used)"
  by (auto simp: unary_op_c_def binary_op_c_def assign_op_c_def update_op_c_def pop_unless_def intro!: growing
      split: unary_op.split binary_op.split assign_op.split)

lemma covered_grows:
  "covered e \<Longrightarrow> (\<forall>used tail. grows ho (expr_c ho e used tail)) \<and> (\<forall>dup. grows ho (compile_access ho e dup))"
proof (induction e rule: covered.induct)
  case (1 n)
  then show ?case by (auto simp: expr_c_eqs compile_access_eqs intro!: growing)
next
  case (2 l)
  then show ?case by (auto simp: expr_c_eqs compile_access_eqs intro!: growing)
next
  case 3
  then show ?case by (auto simp: expr_c_eqs compile_access_eqs intro!: growing)
next
  case (4 x p c)
  then show ?case by (auto simp: expr_c_eqs compile_access_eqs intro!: growing split: option.split)
next
  case (5 op x)
  then show ?case by (auto simp: expr_c_eqs compile_access_eqs intro!: growing)
next
  case (6 op pre x)
  then show ?case by (cases pre) (auto simp: expr_c_eqs compile_access_eqs intro!: growing)
next
  case (7 op n x)
  then show ?case by (cases "op = Assign") (auto simp: expr_c_assign target_c_def compile_access_eqs intro!: growing)
next
  case (8 op e x)
  then show ?case by (cases "op = Assign") (auto simp: expr_c_assign target_c_def compile_access_eqs intro!: growing)
next
  case (9 op x y)
  then have g: "grows ho (expr_c ho x True False)" "grows ho (expr_c ho y True False)" by auto
  have "grows ho (expr_c ho (Bin op x y) used tail)" for used tail
  proof -
    consider (or) "op = LogicalOr" | (conj) "op = LogicalAnd" | (other) "op \<noteq> LogicalOr" "op \<noteq> LogicalAnd" by blast
    then show ?thesis
    proof cases
      case or
      then show ?thesis
        using g by (auto simp: expr_c_bin patch_cjmp_def intro!: grows_bind grows_cjmp growsfrom_bind intro: growsfrom_patch grows_growsfrom growing)
    next
      case conj
      then show ?thesis
        using g by (auto simp: expr_c_bin patch_cjmp_def patch_jmp_def
            intro!: grows_bind grows_cjmp growsfrom_bind growsfrom_jmp intro: growsfrom_patch grows_growsfrom growing order_trans)
    next
      case other
      then show ?thesis using g by (auto simp: expr_c_bin intro!: growing)
    qed
  qed
  then show ?case by (auto simp: compile_access_eqs intro!: growing)
next
  case (10 x y z)
  then have g: "\<And>used tail. grows ho (expr_c ho x used tail)" "\<And>used tail. grows ho (expr_c ho y used tail)"
      "\<And>used tail. grows ho (expr_c ho z used tail)" by auto
  show ?case
    using g by (auto simp: expr_c_eqs compile_access_eqs patch_cjmp_def patch_jmp_def
        intro!: grows_bind grows_cjmp growsfrom_bind growsfrom_jmp intro: growsfrom_patch grows_growsfrom growing order_trans)
next
  case (11 x)
  then show ?case by (auto simp: expr_c_eqs compile_access_eqs intro!: growing)
qed simp_all

end
