(* ===== verification/Compile_Rules.thy ===== *)
theory Compile_Rules
  imports Instr_Steps Code_Layout
begin

text \<open>
  What compiled code does: the rules by which the code that a compilation appends is shown to implement
  an effect, one for each way the compiler composes code.
\<close>

text \<open>The running block has the names and literals of \<open>c\<close>, and the operands of its instructions do not overflow.\<close>

definition fits :: "run_ctx \<Rightarrow> compiler \<Rightarrow> bool" where
  "fits C c \<longleftrightarrow>
     length (code_of c) < 2 ^ 31 \<and> length (names_of c) < 2 ^ 32 \<and> length (literals_of c) < 2 ^ 32 \<and>
     (\<exists>b. ctx_block C = Some b \<and> prefix (names_of c) (cb_names b) \<and> prefix (literals_of c) (cb_literals b))"

definition compiles ::
  "compiler_host \<Rightarrow> 'w runtime \<Rightarrow> run_ctx \<Rightarrow> js_value list \<Rightarrow> js_value list \<Rightarrow> 'a comp \<Rightarrow> compiler \<Rightarrow> ('x, 'w) effect \<Rightarrow>
   ('a \<Rightarrow> 'x \<Rightarrow> js_value list) \<Rightarrow> ('a \<Rightarrow> 'x \<Rightarrow> bool) \<Rightarrow> bool" where
  "compiles ho rt C B st m c eff g P \<longleftrightarrow>
     (\<forall>a c'. m c = Some (Inr (a, c')) \<longrightarrow> tables_ok ho c \<longrightarrow> fits C c' \<longrightarrow>
        code_at C (code_len c) (drop (code_len c) (code_of c')) \<longrightarrow>
        implements rt C B (code_len c) st eff (code_len c') (g a) (P a))"
definition moves ::
  "compiler_host \<Rightarrow> 'w runtime \<Rightarrow> run_ctx \<Rightarrow> js_value list \<Rightarrow> 'a comp \<Rightarrow> compiler \<Rightarrow> js_value list \<Rightarrow> bool" where
  "moves ho rt C st m c st' \<longleftrightarrow>
     (\<forall>a c'. m c = Some (Inr (a, c')) \<longrightarrow> tables_ok ho c \<longrightarrow> fits C c' \<longrightarrow>
        code_at C (code_len c) (drop (code_len c) (code_of c')) \<longrightarrow>
        (\<forall>s. goes rt C (code_len c) st s (code_len c') st' s))"

lemma keeps_code: "keeps ho (code_len c) c c1 \<Longrightarrow> code_of c1 = code_of c @ drop (code_len c) (code_of c1)"
  unfolding keeps_def code_len_def by (metis append_take_drop_id order_refl take_all)

lemma keeps_split:
  assumes "keeps ho (code_len c) c c1" "keeps ho (code_len c1) c1 c2"
  shows "drop (code_len c) (code_of c2) = drop (code_len c) (code_of c1) @ drop (code_len c1) (code_of c2)"
    "code_len c + length (drop (code_len c) (code_of c1)) = code_len c1"
proof -
  have l: "code_len c \<le> code_len c1" using assms(1) by (simp add: keeps_def)
  have "code_of c2 = code_of c1 @ drop (code_len c1) (code_of c2)" by (rule keeps_code [OF assms(2)])
  then show "drop (code_len c) (code_of c2) = drop (code_len c) (code_of c1) @ drop (code_len c1) (code_of c2)"
    using l by (metis code_len_def diff_is_0_eq drop0 drop_append)
  show "code_len c + length (drop (code_len c) (code_of c1)) = code_len c1" using l by (simp add: code_len_def)
qed

lemma fits_before: "keeps ho (code_len c) c c' \<Longrightarrow> fits C c' \<Longrightarrow> fits C c"
  unfolding keeps_def fits_def code_len_def by (meson le_less_trans prefix_length_le prefix_order.trans)

lemma keeps_tables: "keeps ho n c c' \<Longrightarrow> tables_ok ho c \<Longrightarrow> tables_ok ho c'"
  by (simp add: keeps_def)

lemma bind_c_assoc [simp]: "bind_c (bind_c m f) k = bind_c m (\<lambda>x. bind_c (f x) k)"
  by (rule ext) (simp add: bind_c_def split: option.split sum.split prod.split)

lemma bind_return [simp]: "bind_c (return_c x) f = f x"
  by (rule ext) (simp add: bind_c_def return_c_def)

lemma e_bind_return: "e_bind m e_return = m"
  by (rule ext) (simp add: e_bind_def e_return_def split: option.split sum.split prod.split)

section \<open>Composition\<close>

lemma compiles_bind:
  assumes grows: "grows ho m" "\<And>a. grows ho (f a)"
    and m: "compiles ho rt C B st m c eff g P"
    and f: "\<And>a c1 x. m c = Some (Inr (a, c1)) \<Longrightarrow> tables_ok ho c \<Longrightarrow> bc_scope c1 = bc_scope c \<Longrightarrow> P a x \<Longrightarrow>
      compiles ho rt C B (g a x) (f a) c1 (eff2 x) g2 P2"
  shows "compiles ho rt C B st (bind_c m f) c (e_bind eff eff2) g2 P2"
  unfolding compiles_def
proof (intro allI impI)
  fix a c2 assume r: "bind_c m f c = Some (Inr (a, c2))" and t: "tables_ok ho c" and fit: "fits C c2"
    and code: "code_at C (code_len c) (drop (code_len c) (code_of c2))"
  from r obtain x c1 where r1: "m c = Some (Inr (x, c1))" and r2: "f x c1 = Some (Inr (a, c2))"
    unfolding bind_c_Inr by blast
  have k1: "keeps ho (code_len c) c c1" by (rule growsD [OF grows(1) r1])
  have k2: "keeps ho (code_len c1) c1 c2" by (rule growsD [OF grows(2) r2])
  have c1: "code_at C (code_len c) (drop (code_len c) (code_of c1))"
    and c2: "code_at C (code_len c1) (drop (code_len c1) (code_of c2))"
    using code keeps_split(2) [OF k1 k2] unfolding keeps_split(1) [OF k1 k2] code_at_append by auto
  have i1: "implements rt C B (code_len c) st eff (code_len c1) (g x) (P x)"
    by (rule m [unfolded compiles_def, rule_format, OF r1 t fits_before [OF k2 fit] c1])
  have i2: "implements rt C B (code_len c1) (g x y) (eff2 y) (code_len c2) (g2 a) (P2 a)" if "P x y" for y
  proof -
    have "bc_scope c1 = bc_scope c" using k1 by (simp add: keeps_def)
    note f = f [OF r1 t this that]
    show ?thesis by (rule f [unfolded compiles_def, rule_format, OF r2 keeps_tables [OF k1 t] fit c2])
  qed
  show "implements rt C B (code_len c) st (e_bind eff eff2) (code_len c2) (g2 a) (P2 a)"
    by (rule implements_bind [OF i1 i2])
qed

lemma compiles_end:
  assumes "grows ho m" "\<And>a. grows ho (f a)" "compiles ho rt C B st m c eff g P"
    and "\<And>a c1 x. m c = Some (Inr (a, c1)) \<Longrightarrow> tables_ok ho c \<Longrightarrow> bc_scope c1 = bc_scope c \<Longrightarrow> P a x \<Longrightarrow>
      compiles ho rt C B (g a x) (f a) c1 (e_return x) g2 P2"
  shows "compiles ho rt C B st (bind_c m f) c eff g2 P2"
proof -
  have "compiles ho rt C B st (bind_c m f) c (e_bind eff e_return) g2 P2"
    by (rule compiles_bind [OF assms(1-3)]) (rule assms(4))
  then show ?thesis by (simp only: e_bind_return)
qed

lemma compiles_move:
  assumes grows: "grows ho m" "\<And>a. grows ho (f a)"
    and m: "moves ho rt C st m c st1"
    and f: "\<And>a c1. m c = Some (Inr (a, c1)) \<Longrightarrow> tables_ok ho c \<Longrightarrow> bc_scope c1 = bc_scope c \<Longrightarrow>
      compiles ho rt C B st1 (f a) c1 eff g P"
  shows "compiles ho rt C B st (bind_c m f) c eff g P"
  unfolding compiles_def
proof (intro allI impI)
  fix a c2 assume r: "bind_c m f c = Some (Inr (a, c2))" and t: "tables_ok ho c" and fit: "fits C c2"
    and code: "code_at C (code_len c) (drop (code_len c) (code_of c2))"
  from r obtain x c1 where r1: "m c = Some (Inr (x, c1))" and r2: "f x c1 = Some (Inr (a, c2))"
    unfolding bind_c_Inr by blast
  have k1: "keeps ho (code_len c) c c1" by (rule growsD [OF grows(1) r1])
  have k2: "keeps ho (code_len c1) c1 c2" by (rule growsD [OF grows(2) r2])
  have c1: "code_at C (code_len c) (drop (code_len c) (code_of c1))"
    and c2: "code_at C (code_len c1) (drop (code_len c1) (code_of c2))"
    using code keeps_split(2) [OF k1 k2] unfolding keeps_split(1) [OF k1 k2] code_at_append by auto
  have i1: "goes rt C (code_len c) st s (code_len c1) st1 s" for s
    by (rule m [unfolded moves_def, rule_format, OF r1 t fits_before [OF k2 fit] c1])
  have i2: "implements rt C B (code_len c1) st1 eff (code_len c2) (g a) (P a)"
  proof -
    have "bc_scope c1 = bc_scope c" using k1 by (simp add: keeps_def)
    note f = f [OF r1 t this]
    show ?thesis by (rule f [unfolded compiles_def, rule_format, OF r2 keeps_tables [OF k1 t] fit c2])
  qed
  show "implements rt C B (code_len c) st eff (code_len c2) (g a) (P a)"
    by (rule implements_before [OF i1 i2])
qed

lemma compiles_return: "g a x = st \<Longrightarrow> P a x \<Longrightarrow> compiles ho rt C B st (return_c a) c (e_return x) g P"
  by (auto simp: compiles_def return_c_def intro: implements_return)

lemma compiles_weaken: "compiles ho rt C (B @ ys) st m c eff g P \<Longrightarrow> compiles ho rt C B st m c eff g P"
  unfolding compiles_def using implements_weaken by blast

lemma moves_return: "moves ho rt C st (return_c a) c st"
  by (auto simp: moves_def return_c_def goes_refl)

lemma compiles_nyi: "compiles ho rt C B st nyi c eff g P"
  by (simp add: compiles_def nyi_def)

section \<open>Instructions\<close>

definition instr :: "opcode \<Rightarrow> u32 list \<Rightarrow> u8 list" where
  "instr op xs = op # concat (map to_le_bytes xs)"

lemma instr_length: "length (instr op xs) = 1 + 4 * length xs"
  by (induction xs) (simp_all add: instr_def)

lemma compiles_emit:
  assumes "\<And>b. code_at C (code_len c) (instr op xs) \<Longrightarrow> ctx_block C = Some b \<Longrightarrow>
      prefix (names_of c) (cb_names b) \<Longrightarrow> prefix (literals_of c) (cb_literals b) \<Longrightarrow>
      length (names_of c) < 2 ^ 32 \<Longrightarrow> length (literals_of c) < 2 ^ 32 \<Longrightarrow> tables_ok ho c \<Longrightarrow>
      implements rt C B (code_len c) st eff (code_len c + (1 + 4 * length xs)) (g ()) (P ())"
  shows "compiles ho rt C B st (emit op xs False) c eff g P"
  unfolding compiles_def emit_eq
  using assms instr_length [of op xs] by (auto simp: emitted_code code_len_def instr_def fits_def)

lemma compiles_emit_fdbk:
  assumes "\<And>b fd. code_at C (code_len c) (instr op (xs @ [fd])) \<Longrightarrow> ctx_block C = Some b \<Longrightarrow>
      prefix (names_of c) (cb_names b) \<Longrightarrow> prefix (literals_of c) (cb_literals b) \<Longrightarrow>
      length (names_of c) < 2 ^ 32 \<Longrightarrow> length (literals_of c) < 2 ^ 32 \<Longrightarrow> tables_ok ho c \<Longrightarrow>
      implements rt C B (code_len c) st eff (code_len c + (5 + 4 * length xs)) (g ()) (P ())"
  shows "compiles ho rt C B st (emit op xs True) c eff g P"
  unfolding compiles_def emit_eq
  using assms instr_length [of op xs] by (auto simp: emitted_code code_len_def instr_def fits_def)

lemma moves_emit:
  assumes "\<And>b s. code_at C (code_len c) (instr op xs) \<Longrightarrow> ctx_block C = Some b \<Longrightarrow>
      prefix (literals_of c) (cb_literals b) \<Longrightarrow> length (literals_of c) < 2 ^ 32 \<Longrightarrow> tables_ok ho c \<Longrightarrow>
      goes rt C (code_len c) st s (code_len c + (1 + 4 * length xs)) st1 s"
  shows "moves ho rt C st (emit op xs False) c st1"
  unfolding moves_def emit_eq
  using assms instr_length [of op xs] by (auto simp: emitted_code code_len_def instr_def fits_def)

section \<open>Jumps\<close>

definition answers ::
  "'w runtime \<Rightarrow> run_ctx \<Rightarrow> js_value list \<Rightarrow> nat \<Rightarrow> js_value list \<Rightarrow> 'w store \<Rightarrow> nat \<Rightarrow> ('a \<Rightarrow> js_value list) \<Rightarrow> ('a \<Rightarrow> bool) \<Rightarrow>
   ((js_value + 'a) \<times> 'w store) option \<Rightarrow> bool" where
  "answers rt C B ip st s ip' g P r \<longleftrightarrow>
     (case r of
        None \<Rightarrow> True
      | Some (Inl e, s') \<Rightarrow> raises rt C B ip st s e s'
      | Some (Inr x, s') \<Rightarrow> P x \<and> goes rt C ip st s ip' (g x) s')"

lemma implements_answers: "implements rt C B ip st m ip' g P \<longleftrightarrow> (\<forall>s. answers rt C B ip st s ip' g P (m s))"
  by (simp add: implements_def answers_def)

lemma answers_before:
  assumes "goes rt C ip st s ip1 st1 s1" "answers rt C B ip1 st1 s1 ip' g P r"
  shows "answers rt C B ip st s ip' g P r"
  using assms(2) goes_trans [OF assms(1)] goes_raises [OF assms(1)]
  by (auto simp: answers_def split: option.splits sum.splits)

lemma implements_branch:
  assumes "\<And>s. goes rt C ip st s (if Q s then ip1 else ip2) st1 s"
    "implements rt C B ip1 st1 eff1 ip3 g P" "implements rt C B ip2 st1 eff2 ip3 g P"
  shows "implements rt C B ip st (\<lambda>s. if Q s then eff1 s else eff2 s) ip3 g P"
  unfolding implements_answers
proof
  fix s
  show "answers rt C B ip st s ip3 g P (if Q s then eff1 s else eff2 s)"
    by (rule answers_before [OF assms(1)]) (use assms(2,3) in \<open>simp add: implements_answers\<close>)
qed

lemma sint_small: "n < 2 ^ 31 \<Longrightarrow> sint (of_nat n :: u32) = int n"
  by (simp add: signed_of_nat signed_take_bit_int_eq_self)

lemma offset_zero: "ip_offset ip 0 = Some ip"
  using sint_small [of 0] by (simp add: ip_offset_def)

lemma offset_ahead:
  assumes "ip \<le> target" "target < 2 ^ 31"
  shows "ip_offset ip (of_nat (target - ip)) = Some target"
proof -
  obtain n where "n = target - ip" by blast
  then show ?thesis using assms sint_small [of n] by (simp add: ip_offset_def del: of_nat_diff)
qed

lemma cjmp_run: "cjmp k c = k (code_len c) (emitted OP_JMP [0] False c)"
  by (simp add: cjmp_def jmp_custom_def bind_c_def get_c_def emit_eq)

lemma jmp_run: "jmp k c = k (code_len c) (emitted OP_JMP [0] False c)"
  by (simp add: jmp_def jmp_custom_def bind_c_def get_c_def emit_eq)

lemma write_instr_app:
  "length xs = p \<Longrightarrow> length ys = 5 \<Longrightarrow> write_instr p op x (xs @ ys @ zs) = xs @ instr op [x] @ zs"
  by (simp add: write_instr_def instr_def)

lemma emitted_len: "code_len (emitted op xs False c) = code_len c + (1 + 4 * length xs)"
  using instr_length [of op xs] by (simp add: code_len_def emitted_code instr_def)

lemma emitted_instr: "code_of (emitted op xs False c) = code_of c @ instr op xs"
  by (simp add: emitted_code instr_def)

lemma emitted_tables: "tables_ok ho (emitted op xs f c) = tables_ok ho c"
  by (simp add: tables_ok_def)

lemma patched_tables: "tables_ok ho (patched op p c) = tables_ok ho c"
  by (simp add: tables_ok_def)

lemma patched_len: "p + 5 \<le> code_len c \<Longrightarrow> code_len (patched op p c) = code_len c"
  by (simp add: code_len_def patched_code length_write_instr)

lemma fits_same:
  "length (code_of c) \<le> length (code_of c') \<Longrightarrow> names_of c' = names_of c \<Longrightarrow> literals_of c' = literals_of c \<Longrightarrow>
   fits C c' \<Longrightarrow> fits C c"
  by (auto simp: fits_def)

lemma implements_pop_unless:
  assumes "code_at C ip (if used then [] else [OP_POP])"
    "implements rt C B ip0 st0 eff ip (\<lambda>v. st @ [v]) (\<lambda>_. True)"
  shows "implements rt C B ip0 st0 eff (ip + (if used then 0 else 1)) (\<lambda>v. if used then st @ [v] else st) (\<lambda>_. True)"
  by (rule implements_after [OF assms(2)])
    (use assms(1) in \<open>auto intro: goes_refl goes_pop [where ip = ip, unfolded Suc_eq_plus1 [symmetric]]\<close>)

lemma pop_unless_run:
  "pop_unless used c = Some (Inr (a, c')) \<Longrightarrow>
   code_of c' = code_of c @ (if used then [] else [OP_POP]) \<and> names_of c' = names_of c \<and> literals_of c' = literals_of c"
  by (auto simp: pop_unless_def return_c_def emit_eq emitted_code split: if_splits)

text \<open>The operator \<open>||\<close>, after the code of its left operand and the \<open>OP_DUP\<close>.\<close>

lemma compiles_or:
  assumes Y: "\<And>c1. bc_scope c1 = bc_scope c \<Longrightarrow> compiles ho rt C B st Y c1 eff (\<lambda>_ w. st @ [w]) (\<lambda>_ _. True)" "grows ho Y"
    and size: "length st < rc_size C"
  shows "compiles ho rt C B (st @ [v, v])
     (cjmp (\<lambda>jtrue. steps [emit OP_POP [] False, Y, patch_cjmp True jtrue, pop_unless used])) c
     (\<lambda>s. if to_boolean (cells_of rt s) v then Some (Inr v, s) else eff s)
     (\<lambda>_ w. if used then st @ [w] else st) (\<lambda>_ _. True)"
  unfolding compiles_def
proof (intro allI impI)
  fix a c5
  define p where "p = code_len c"
  define c2 where "c2 = emitted OP_POP [] False (emitted OP_JMP [0] False c)"
  assume r: "cjmp (\<lambda>jtrue. steps [emit OP_POP [] False, Y, patch_cjmp True jtrue, pop_unless used]) c = Some (Inr (a, c5))"
    and t: "tables_ok ho c" and fit: "fits C c5" and code: "code_at C (code_len c) (drop (code_len c) (code_of c5))"
  from r obtain c3 where y: "Y c2 = Some (Inr ((), c3))" and q: "pop_unless used (patched OP_JMP_IF_TRUE p c3) = Some (Inr ((), c5))"
    by (auto simp: cjmp_run bind_c_Inr emit_eq patch_cjmp_def patch_eq return_c_def c2_def p_def)
  define Yc where "Yc = drop (p + 6) (code_of c3)"
  define off where "off = (of_nat (code_len c3 - (p + 5)) :: u32)"
  define T where "T = (if used then [] else [OP_POP])"
  have len2: "code_len c2 = p + 6" by (simp add: c2_def emitted_len p_def)
  have k: "keeps ho (code_len c2) c2 c3" by (rule growsD [OF Y(2) y])
  have code3: "code_of c3 = code_of c @ instr OP_JMP [0] @ OP_POP # Yc"
    using keeps_code [OF k] len2 by (simp add: c2_def Yc_def emitted_instr instr_def [of OP_POP])
  have len3: "p + 6 \<le> code_len c3" using k len2 by (simp add: keeps_def)
  have code4: "code_of (patched OP_JMP_IF_TRUE p c3) = code_of c @ instr OP_JMP_IF_TRUE [off] @ OP_POP # Yc"
    unfolding patched_code off_def [symmetric] code3
    by (rule write_instr_app) (simp_all add: p_def code_len_def instr_length)
  have code5: "drop (code_len c) (code_of c5) = instr OP_JMP_IF_TRUE [off] @ [OP_POP] @ Yc @ T"
    using pop_unless_run [OF q] code4 by (simp add: code_len_def T_def)
  have len5: "code_len c5 = code_len c3 + (if used then 0 else 1)"
    using pop_unless_run [OF q] patched_len [of p c3] len3 by (simp add: code_len_def)
  have "p + (6 + length Yc) = code_len c3" using len3 by (simp add: code_len_def Yc_def)
  then have at: "code_at C p (instr OP_JMP_IF_TRUE [off])" "code_at C (p + 5) [OP_POP]" "code_at C (p + 6) Yc" "code_at C (code_len c3) T"
    using code [unfolded code5 code_at_append, folded p_def] by (simp_all add: instr_length ac_simps)
  have fit3: "fits C c3"
    by (rule fits_same [OF _ _ _ fit]) (use pop_unless_run [OF q] len5 in \<open>simp_all add: code_len_def\<close>)
  have target: "ip_offset (p + 5) off = Some (code_len c3)"
    unfolding off_def by (rule offset_ahead) (use len3 fit3 in \<open>simp_all add: fits_def code_len_def\<close>)
  have jump: "goes rt C p ((st @ [v]) @ [v]) s (if to_boolean (cells_of rt s) v = True then code_len c3 else p + 5) (st @ [v]) s" for s
    by (rule goes_jmp_if [where off = off]) (use at(1) target in \<open>simp_all add: instr_def\<close>)
  have yes: "implements rt C B (code_len c3) (st @ [v]) (\<lambda>s. Some (Inr v, s)) (code_len c3) (\<lambda>w. st @ [w]) (\<lambda>_. True)"
    by (auto simp: implements_def goes_refl)
  have run: "implements rt C B (p + 6) st eff (code_len c3) (\<lambda>w. st @ [w]) (\<lambda>_. True)"
    using Y(1) [of c2] y t fit3 at(3) len2 unfolding compiles_def Yc_def by (auto simp: c2_def emitted_tables)
  have pop: "goes rt C (p + 5) (st @ [v]) s (p + 6) st s" for s using goes_pop [OF at(2)] by (simp add: add.commute)
  have no: "implements rt C B (p + 5) (st @ [v]) eff (code_len c3) (\<lambda>w. st @ [w]) (\<lambda>_. True)"
    by (rule implements_before [OF pop run])
  have "implements rt C B p (st @ [v, v]) (\<lambda>s. if to_boolean (cells_of rt s) v then Some (Inr v, s) else eff s)
      (code_len c3) (\<lambda>w. st @ [w]) (\<lambda>_. True)"
    by (rule implements_branch [OF _ yes no]) (use jump in simp)
  from implements_pop_unless [OF at(4) [unfolded T_def] this]
  show "implements rt C B (code_len c) (st @ [v, v]) (\<lambda>s. if to_boolean (cells_of rt s) v then Some (Inr v, s) else eff s)
      (code_len c5) (\<lambda>w. if used then st @ [w] else st) (\<lambda>_. True)"
    by (simp add: len5 p_def)
qed

text \<open>The operator \<open>&&\<close>; the jump after the right operand goes to the next instruction.\<close>

lemma compiles_and:
  assumes Y: "\<And>c1. bc_scope c1 = bc_scope c \<Longrightarrow> compiles ho rt C B st Y c1 eff (\<lambda>_ w. st @ [w]) (\<lambda>_ _. True)" "grows ho Y"
  shows "compiles ho rt C B (st @ [v, v])
     (cjmp (\<lambda>jfalse. steps [emit OP_POP [] False, Y,
        jmp (\<lambda>jend. steps [patch_cjmp False jfalse, patch_jmp jend, pop_unless used])])) c
     (\<lambda>s. if to_boolean (cells_of rt s) v then eff s else Some (Inr v, s))
     (\<lambda>_ w. if used then st @ [w] else st) (\<lambda>_ _. True)"
  unfolding compiles_def
proof (intro allI impI)
  fix a c5
  define p where "p = code_len c"
  define c2 where "c2 = emitted OP_POP [] False (emitted OP_JMP [0] False c)"
  assume r: "cjmp (\<lambda>jfalse. steps [emit OP_POP [] False, Y,
        jmp (\<lambda>jend. steps [patch_cjmp False jfalse, patch_jmp jend, pop_unless used])]) c = Some (Inr (a, c5))"
    and t: "tables_ok ho c" and fit: "fits C c5" and code: "code_at C (code_len c) (drop (code_len c) (code_of c5))"
  from r obtain c3 where y: "Y c2 = Some (Inr ((), c3))"
    and q: "pop_unless used (patched OP_JMP (code_len c3) (patched OP_JMP_IF_FALSE p (emitted OP_JMP [0] False c3))) = Some (Inr ((), c5))"
    by (auto simp: cjmp_run jmp_run bind_c_Inr emit_eq patch_cjmp_def patch_jmp_def patch_eq return_c_def c2_def p_def)
  define q3 where "q3 = code_len c3"
  define c4 where "c4 = emitted OP_JMP [0] False c3"
  define Yc where "Yc = drop (p + 6) (code_of c3)"
  define off where "off = (of_nat (code_len c4 - (p + 5)) :: u32)"
  define T where "T = (if used then [] else [OP_POP])"
  have len2: "code_len c2 = p + 6" by (simp add: c2_def emitted_len p_def)
  have k: "keeps ho (code_len c2) c2 c3" by (rule growsD [OF Y(2) y])
  have code3: "code_of c3 = code_of c @ instr OP_JMP [0] @ OP_POP # Yc"
    using keeps_code [OF k] len2 by (simp add: c2_def Yc_def emitted_instr instr_def [of OP_POP])
  have len3: "p + 6 \<le> q3" using k len2 by (simp add: keeps_def q3_def)
  have len4: "code_len c4 = q3 + 5" by (simp add: c4_def q3_def emitted_len)
  have "code_of c4 = code_of c @ instr OP_JMP [0] @ OP_POP # Yc @ instr OP_JMP [0]"
    by (simp add: c4_def emitted_instr code3)
  then have code4: "code_of (patched OP_JMP_IF_FALSE p c4) = code_of c @ instr OP_JMP_IF_FALSE [off] @ OP_POP # Yc @ instr OP_JMP [0]"
    unfolding patched_code off_def [symmetric]
    by (simp only:) (rule write_instr_app, simp_all add: p_def code_len_def instr_length)
  have len4p: "code_len (patched OP_JMP_IF_FALSE p c4) = q3 + 5" using patched_len [of p c4] len3 len4 by simp
  have l3: "length (code_of c @ instr OP_JMP_IF_FALSE [off] @ OP_POP # Yc) = q3"
    using len3 by (simp add: q3_def code_len_def p_def instr_length code3)
  have code4q: "code_of (patched OP_JMP q3 (patched OP_JMP_IF_FALSE p c4)) =
      code_of c @ instr OP_JMP_IF_FALSE [off] @ OP_POP # Yc @ instr OP_JMP [0]"
    unfolding patched_code [of OP_JMP] len4p code4
    using write_instr_app [OF l3, where ys = "instr OP_JMP [0]" and zs = "[]" and x = 0 and op = OP_JMP] by (simp add: instr_length)
  have code5: "drop (code_len c) (code_of c5) = instr OP_JMP_IF_FALSE [off] @ [OP_POP] @ Yc @ instr OP_JMP [0] @ T"
    using pop_unless_run [OF q] code4q by (simp add: code_len_def T_def q3_def c4_def)
  have len5: "code_len c5 = q3 + 5 + (if used then 0 else 1)"
    using pop_unless_run [OF q] patched_len [of q3 "patched OP_JMP_IF_FALSE p c4" OP_JMP] len4p
    by (simp add: code_len_def q3_def c4_def)
  have "p + (6 + length Yc) = q3" using len3 by (simp add: code_len_def Yc_def q3_def)
  then have at: "code_at C p (instr OP_JMP_IF_FALSE [off])" "code_at C (p + 5) [OP_POP]" "code_at C (p + 6) Yc"
    "code_at C q3 (instr OP_JMP [0])" "code_at C (q3 + 5) T"
    using code [unfolded code5 code_at_append, folded p_def] by (simp_all add: instr_length ac_simps)
  have fit3: "fits C c3"
    by (rule fits_same [OF _ _ _ fit]) (use pop_unless_run [OF q] len5 in \<open>simp_all add: code_len_def q3_def\<close>)
  have small: "q3 + 5 < 2 ^ 31" using fit len5 by (simp add: fits_def code_len_def)
  have target: "ip_offset (p + 5) off = Some (q3 + 5)"
    unfolding off_def len4 by (rule offset_ahead) (use len3 small in simp_all)
  have jump: "goes rt C p ((st @ [v]) @ [v]) s (if to_boolean (cells_of rt s) v = False then q3 + 5 else p + 5) (st @ [v]) s" for s
    by (rule goes_jmp_if [where off = off]) (use at(1) target in \<open>simp_all add: instr_def\<close>)
  have no: "implements rt C B (q3 + 5) (st @ [v]) (\<lambda>s. Some (Inr v, s)) (q3 + 5) (\<lambda>w. st @ [w]) (\<lambda>_. True)"
    by (auto simp: implements_def goes_refl)
  have run: "implements rt C B (p + 6) st eff q3 (\<lambda>w. st @ [w]) (\<lambda>_. True)"
    using Y(1) [of c2] y t fit3 at(3) len2 unfolding compiles_def Yc_def q3_def by (auto simp: c2_def emitted_tables)
  have pop: "goes rt C (p + 5) (st @ [v]) s (p + 6) st s" for s using goes_pop [OF at(2)] by (simp add: add.commute)
  have skip: "goes rt C q3 st' s (q3 + 5) st' s" for st' s
    by (rule goes_jmp [OF _ offset_zero]) (use at(4) in \<open>simp add: instr_def\<close>)
  have yes: "implements rt C B (p + 5) (st @ [v]) eff (q3 + 5) (\<lambda>w. st @ [w]) (\<lambda>_. True)"
    by (rule implements_before [OF pop implements_after [OF run skip]])
  have "implements rt C B p (st @ [v, v]) (\<lambda>s. if to_boolean (cells_of rt s) v then eff s else Some (Inr v, s))
      (q3 + 5) (\<lambda>w. st @ [w]) (\<lambda>_. True)"
  proof (rule implements_branch [OF _ yes no])
    show "goes rt C p (st @ [v, v]) s (if to_boolean (cells_of rt s) v then p + 5 else q3 + 5) (st @ [v]) s" for s
      using jump [of s] by (cases "to_boolean (cells_of rt s) v") simp_all
  qed
  from implements_pop_unless [OF at(5) [unfolded T_def] this]
  show "implements rt C B (code_len c) (st @ [v, v]) (\<lambda>s. if to_boolean (cells_of rt s) v then eff s else Some (Inr v, s))
      (code_len c5) (\<lambda>w. if used then st @ [w] else st) (\<lambda>_. True)"
    by (simp add: len5 p_def)
qed

text \<open>The conditional, after the code of its test.\<close>

lemma compiles_cond:
  assumes Y: "\<And>c1. bc_scope c1 = bc_scope c \<Longrightarrow> compiles ho rt C B st Y c1 eff1 (\<lambda>_. g) (\<lambda>_ _. True)" "grows ho Y"
    and Z: "\<And>c1. bc_scope c1 = bc_scope c \<Longrightarrow> compiles ho rt C B st Z c1 eff2 (\<lambda>_. g) (\<lambda>_ _. True)" "grows ho Z"
  shows "compiles ho rt C B (st @ [v])
     (cjmp (\<lambda>jelse. steps [Y, jmp (\<lambda>jend. steps [patch_cjmp False jelse, Z, patch_jmp jend])])) c
     (\<lambda>s. if to_boolean (cells_of rt s) v then eff1 s else eff2 s) (\<lambda>_. g) (\<lambda>_ _. True)"
  unfolding compiles_def
proof (intro allI impI)
  fix a c6
  define p where "p = code_len c"
  define c1 where "c1 = emitted OP_JMP [0] False c"
  assume r: "cjmp (\<lambda>jelse. steps [Y, jmp (\<lambda>jend. steps [patch_cjmp False jelse, Z, patch_jmp jend])]) c = Some (Inr (a, c6))"
    and t: "tables_ok ho c" and fit: "fits C c6" and code: "code_at C (code_len c) (drop (code_len c) (code_of c6))"
  from r obtain c2 where y: "Y c1 = Some (Inr ((), c2))"
    and r2: "steps [patch_cjmp False p, Z, patch_jmp (code_len c2)] (emitted OP_JMP [0] False c2) = Some (Inr (a, c6))"
    by (auto simp: cjmp_run jmp_run bind_c_Inr return_c_def c1_def p_def)
  define q where "q = code_len c2"
  define c3 where "c3 = emitted OP_JMP [0] False c2"
  define c4 where "c4 = patched OP_JMP_IF_FALSE p c3"
  from r2 obtain c5 where z: "Z c4 = Some (Inr ((), c5))" and c6: "c6 = patched OP_JMP q c5"
    by (auto simp: bind_c_Inr patch_eq return_c_def patch_cjmp_def patch_jmp_def c3_def c4_def q_def)
  define Yc where "Yc = drop (p + 5) (code_of c2)"
  define Zc where "Zc = drop (q + 5) (code_of c5)"
  define off where "off = (of_nat (code_len c3 - (p + 5)) :: u32)"
  define off2 where "off2 = (of_nat (code_len c5 - (q + 5)) :: u32)"
  have len1: "code_len c1 = p + 5" by (simp add: c1_def emitted_len p_def)
  have ky: "keeps ho (code_len c1) c1 c2" by (rule growsD [OF Y(2) y])
  have kz: "keeps ho (code_len c4) c4 c5" by (rule growsD [OF Z(2) z])
  have code2: "code_of c2 = code_of c @ instr OP_JMP [0] @ Yc"
    using keeps_code [OF ky] len1 by (simp add: c1_def Yc_def emitted_instr)
  have len2: "p + 5 \<le> q" using ky len1 by (simp add: keeps_def q_def)
  have len3: "code_len c3 = q + 5" by (simp add: c3_def q_def emitted_len)
  have "code_of c3 = code_of c @ instr OP_JMP [0] @ Yc @ instr OP_JMP [0]"
    by (simp add: c3_def emitted_instr code2)
  then have code4: "code_of c4 = code_of c @ instr OP_JMP_IF_FALSE [off] @ Yc @ instr OP_JMP [0]"
    unfolding c4_def patched_code off_def [symmetric]
    by (simp only:) (rule write_instr_app, simp_all add: p_def code_len_def instr_length)
  have len4: "code_len c4 = q + 5" using patched_len [of p c3] len2 len3 by (simp add: c4_def)
  have code5: "code_of c5 = (code_of c @ instr OP_JMP_IF_FALSE [off] @ Yc) @ instr OP_JMP [0] @ Zc"
    using keeps_code [OF kz] len4 code4 by (simp add: Zc_def)
  have len5: "q + 5 \<le> code_len c5" using kz len4 by (simp add: keeps_def)
  have l2: "length (code_of c @ instr OP_JMP_IF_FALSE [off] @ Yc) = q"
    by (simp add: q_def code_len_def instr_length code2)
  have "code_of c6 = (code_of c @ instr OP_JMP_IF_FALSE [off] @ Yc) @ instr OP_JMP [off2] @ Zc"
    unfolding c6 patched_code off2_def [symmetric] code5 by (rule write_instr_app [OF l2]) (simp add: instr_length)
  then have code6: "drop (code_len c) (code_of c6) = instr OP_JMP_IF_FALSE [off] @ Yc @ instr OP_JMP [off2] @ Zc"
    by (simp add: code_len_def)
  have len6: "code_len c6 = code_len c5" using patched_len [of q c5] len5 by (simp add: c6)
  have "p + (5 + length Yc) = q" using len2 by (simp add: code_len_def Yc_def q_def)
  then have at: "code_at C p (instr OP_JMP_IF_FALSE [off])" "code_at C (p + 5) Yc" "code_at C q (instr OP_JMP [off2])" "code_at C (q + 5) Zc"
    using code [unfolded code6 code_at_append, folded p_def] by (simp_all add: instr_length ac_simps)
  have fit5: "fits C c5" by (rule fits_same [OF _ _ _ fit]) (use len6 in \<open>simp_all add: c6 code_len_def\<close>)
  have fit2: "fits C c2"
    by (rule fits_same [OF _ _ _ fits_before [OF kz fit5]]) (use len4 in \<open>simp_all add: c4_def c3_def code_len_def q_def\<close>)
  have small: "code_len c5 < 2 ^ 31" using fit5 by (simp add: fits_def code_len_def)
  have target: "ip_offset (p + 5) off = Some (q + 5)"
    unfolding off_def len3 by (rule offset_ahead) (use len2 len5 small in simp_all)
  have target2: "ip_offset (q + 5) off2 = Some (code_len c5)"
    unfolding off2_def by (rule offset_ahead) (use len5 small in simp_all)
  have jump: "goes rt C p (st @ [v]) s (if to_boolean (cells_of rt s) v = False then q + 5 else p + 5) st s" for s
    by (rule goes_jmp_if [where off = off]) (use at(1) target in \<open>simp_all add: instr_def\<close>)
  have over: "goes rt C q st' s (code_len c5) st' s" for st' s
    by (rule goes_jmp [OF _ target2]) (use at(3) in \<open>simp add: instr_def\<close>)
  have tc: "tables_ok ho c1" using t by (simp add: c1_def emitted_tables)
  have t4: "tables_ok ho c4" using keeps_tables [OF ky tc] by (simp add: c4_def c3_def patched_tables emitted_tables)
  have "implements rt C B (p + 5) st eff1 q g (\<lambda>_. True)"
    using Y(1) [of c1] y tc fit2 at(2) len1 unfolding compiles_def Yc_def q_def by (auto simp: c1_def)
  then have yes: "implements rt C B (p + 5) st eff1 (code_len c5) g (\<lambda>_. True)"
    by (rule implements_after) (rule over)
  have "bc_scope c4 = bc_scope c" using ky by (simp add: keeps_def c4_def c3_def c1_def)
  then have no: "implements rt C B (q + 5) st eff2 (code_len c5) g (\<lambda>_. True)"
    using Z(1) [of c4] z t4 fit5 at(4) len4 unfolding compiles_def Zc_def by auto
  have "implements rt C B p (st @ [v]) (\<lambda>s. if to_boolean (cells_of rt s) v then eff1 s else eff2 s) (code_len c5) g (\<lambda>_. True)"
  proof (rule implements_branch [OF _ yes no])
    show "goes rt C p (st @ [v]) s (if to_boolean (cells_of rt s) v then p + 5 else q + 5) st s" for s
      using jump [of s] by (cases "to_boolean (cells_of rt s) v") simp_all
  qed
  then show "implements rt C B (code_len c) (st @ [v]) (\<lambda>s. if to_boolean (cells_of rt s) v then eff1 s else eff2 s)
      (code_len c6) g (\<lambda>_. True)"
    by (simp add: len6 p_def)
qed

end
