(* ===== verification/Compile_Access.thy ===== *)
theory Compile_Access
  imports Compile_Rules
begin

text \<open>The compiled parts of expressions: literals, operators and the accesses to what can be assigned.\<close>

text \<open>What the running frame gives an expression, and a runtime whose property accesses are those without a cache.\<close>

definition scope_fits :: "scope list \<Rightarrow> bool" where
  "scope_fits ss \<longleftrightarrow> (\<forall>s\<in>set ss. sc_depth s < 2 ^ 32 \<and> (\<forall>x\<in>snd ` set (sc_variables s). va_index x < 2 ^ 32))"
definition matches :: "'w runtime \<Rightarrow> run_ctx \<Rightarrow> eval_context \<Rightarrow> bool" where
  "matches rt C cx \<longleftrightarrow>
     no_inline_caching rt \<and> cx_env cx = fr_env (rc_frame C) \<and> cx_this cx = fr_this (rc_frame C) \<and>
     (\<forall>b. ctx_block C = Some b \<longrightarrow> cb_strict b = cx_strict cx) \<and> scope_fits (cx_scopes cx)"

text \<open>The values a reference has on the stack, and the access it was compiled to.\<close>

definition ref_stack :: "reference \<Rightarrow> js_value list" where
  "ref_stack r = (case r of RById object _ \<Rightarrow> [object] | RByVal object key \<Rightarrow> [key, object] | _ \<Rightarrow> [])"
definition acc_ref :: "access \<Rightarrow> reference \<Rightarrow> bool" where
  "acc_ref acc r =
     (case acc of
        AVariable ix d \<Rightarrow> r = RVariable ix d \<and> ix < 2 ^ 32 \<and> d < 2 ^ 32
      | AGlobal x \<Rightarrow> r = RGlobal x
      | AById x \<Rightarrow> (\<exists>object. r = RById object x)
      | AByVal \<Rightarrow> (\<exists>object key. r = RByVal object key)
      | AThis \<Rightarrow> r = RThis)"

lemma lookup_fits:
  "scope_fits ss \<Longrightarrow> lookup_scope v ss = Some (ix, s) \<Longrightarrow> s \<in> set ss \<and> ix < 2 ^ 32"
proof (induction ss)
  case (Cons s0 ss)
  have fit: "\<forall>x\<in>snd ` set (sc_variables s0). va_index x < 2 ^ 32" "scope_fits ss"
    using Cons.prems(1) by (auto simp: scope_fits_def)
  show ?case
  proof (cases "map_of (sc_variables s0) v")
    case None
    then show ?thesis using Cons.IH [OF fit(2)] Cons.prems(2) by auto
  next
    case (Some x)
    then have "x \<in> snd ` set (sc_variables s0)" using map_of_SomeD [OF Some] by force
    then show ?thesis using fit(1) Some Cons.prems(2) by auto
  qed
qed simp

lemma current_depth_fits: "scope_fits ss \<Longrightarrow> current_depth ss < 2 ^ 32"
  by (cases ss) (auto simp: current_depth_def scope_fits_def)

lemma acc_ref_name: "scope_fits (cx_scopes cx) \<Longrightarrow> acc_ref (access_of (ho_intern ho n) (cx_scopes cx)) (name_ref ho cx n)"
  using lookup_fits [of "cx_scopes cx" "ho_intern ho n"] current_depth_fits [of "cx_scopes cx"]
  by (auto simp: access_of_def name_ref_def acc_ref_def split: option.split)

section \<open>Rules\<close>

lemma implements_goes:
  "(\<And>s. goes rt C ip st s ip' (g x) s) \<Longrightarrow> P x \<Longrightarrow> implements rt C B ip st (e_return x) ip' g P"
  by (auto simp: implements_def e_return_def)

lemma implements_e_store:
  "(\<And>s. goes rt C ip st s ip' (g (f s)) s) \<Longrightarrow> implements rt C B ip st (e_store f) ip' g (\<lambda>_. True)"
  by (auto simp: implements_def e_store_def)

lemma compiles_last:
  assumes "grows ho m" "compiles ho rt C B st m c eff g P"
  shows "compiles ho rt C B st (bind_c m return_c) c eff g P"
proof (rule compiles_end [OF assms(1) grows_return assms(2)])
  fix a c1 x assume "P a x"
  then show "compiles ho rt C B (g a x) (return_c a) c1 (e_return x) g P" by (intro compiles_return) simp_all
qed

lemma steps_last: "steps [m] = bind_c m return_c"
proof -
  have "(\<lambda>_ :: unit. return_c ()) = return_c" by (rule ext) simp
  then show ?thesis by simp
qed

lemma compiles_used:
  assumes "grows ho m" "compiles ho rt C B st0 m c eff (\<lambda>_ v. st @ [v]) (\<lambda>_ _. True)"
  shows "compiles ho rt C B st0 (steps [m, pop_unless used]) c eff (\<lambda>_ v. if used then st @ [v] else st) (\<lambda>_ _. True)"
  unfolding steps.simps(2) [of m]
proof (rule compiles_end [OF assms(1) _ assms(2)])
  show "grows ho (steps [pop_unless used])" by (auto intro: growing)
  fix c1 x
  have "moves ho rt C (st @ [x]) (pop_unless used) c1 (if used then st @ [x] else st)"
  proof (cases used)
    case True
    then show ?thesis by (simp add: pop_unless_def moves_return)
  next
    case False
    have "moves ho rt C (st @ [x]) (emit OP_POP [] False) c1 st"
      by (rule moves_emit) (simp add: instr_def, metis Suc_eq_plus1 goes_pop)
    then show ?thesis using False by (simp add: pop_unless_def)
  qed
  then show "compiles ho rt C B (st @ [x]) (steps [pop_unless used]) c1 (e_return x) (\<lambda>_ v. if used then st @ [v] else st) (\<lambda>_ _. True)"
    unfolding steps_last by (rule compiles_move [rotated 2]) (auto intro: growing compiles_return)
qed

lemma compiles_prefix:
  assumes "prefix B st" "compiles ho rt C st st0 m c eff g P"
  shows "compiles ho rt C B st0 m c eff g P"
proof -
  obtain ys where "st = B @ ys" using assms(1) by (auto simp: prefix_def)
  then show ?thesis using assms(2) compiles_weaken by blast
qed

lemma access_var_run: "access_var v c = Some (Inr (access_of v (bc_scope c), c))"
  by (simp add: access_var_def get_c_def)

lemma compiles_access_var:
  "compiles ho rt C B st (f (access_of v (bc_scope c))) c eff g P \<Longrightarrow> compiles ho rt C B st (bind_c (access_var v) f) c eff g P"
  by (simp add: compiles_def bind_c_def access_var_run)

lemma compiles_push:
  assumes "map_of (handlers rt) op = Some (h_push v)" "length st < rc_size C"
  shows "compiles ho rt C B st (emit op [] False) c (e_return v) (\<lambda>_ w. st @ [w]) (\<lambda>_ _. True)"
  by (rule compiles_emit, rule implements_goes) (use goes_push [OF _ assms] in \<open>simp_all add: instr_def\<close>)

lemma moves_dup:
  assumes "Suc (length st) < rc_size C"
  shows "moves ho rt C (st @ [v]) (emit OP_DUP [] False) c (st @ [v, v])"
  by (rule moves_emit) (use goes_dup [OF _ assms] in \<open>simp add: instr_def\<close>)

lemma moves_pop: "moves ho rt C (st @ [v]) (emit OP_POP [] False) c st"
  by (rule moves_emit) (use goes_pop [of C "code_len c"] in \<open>simp add: instr_def\<close>)

lemma moves_stay:
  assumes "\<And>a c'. m c = Some (Inr (a, c')) \<Longrightarrow> code_of c' = code_of c"
  shows "moves ho rt C st m c st"
  unfolding moves_def code_len_def using assms goes_refl by metis

lemma moves_swap:
  assumes "Suc (length st) < rc_size C"
  shows "moves ho rt C (st @ [v, w]) (emit OP_SWAP [] False) c (st @ [w, v])"
  by (rule moves_emit) (use goes_swap [OF _ assms] in \<open>simp add: instr_def\<close>)

section \<open>Literals\<close>

lemma compiles_push_int:
  assumes "length st < rc_size C"
  shows "compiles ho rt C B st (emit OP_PUSH_INT [x] False) c (e_return (encode_int32 x)) (\<lambda>_ w. st @ [w]) (\<lambda>_ _. True)"
  by (rule compiles_emit, rule implements_goes) (use goes_push_int [OF _ assms] in \<open>simp_all add: instr_def\<close>)

lemma compiles_push_literal:
  assumes "ix < length (literals_of c)" "literals_of c ! ix = v" "length st < rc_size C"
  shows "compiles ho rt C B st (emit OP_PUSH_LITERAL [of_nat ix] False) c (e_return v) (\<lambda>_ w. st @ [w]) (\<lambda>_ _. True)"
proof (rule compiles_emit, rule implements_goes)
  fix b s
  assume code: "code_at C (code_len c) (instr OP_PUSH_LITERAL [of_nat ix])" and b: "ctx_block C = Some b"
    and pre: "prefix (literals_of c) (cb_literals b)" and len: "length (literals_of c) < 2 ^ 32"
  have ix: "unat (of_nat ix :: u32) = ix" using assms(1) len by (simp add: unat_word_of_nat_less)
  have lit: "ix < length (cb_literals b)" "cb_literals b ! ix = v"
    using pre assms(1,2) by (auto simp: prefix_def nth_append)
  have at: "code_at C (code_len c) (OP_PUSH_LITERAL # to_le_bytes (of_nat ix))" using code by (simp add: instr_def)
  show "goes rt C (code_len c) st s (code_len c + (1 + 4 * length [of_nat ix :: u32])) (st @ [v]) s"
    using goes_push_literal [OF at assms(3) b] lit by (simp add: ix)
qed simp

lemma compiles_get_val:
  assumes "length st < rc_size C"
  shows "compiles ho rt C B st (bind_c (get_val ho v) (\<lambda>ix. emit OP_PUSH_LITERAL [of_nat ix] False)) c (e_return (val_literal ho v))
     (\<lambda>_ w. st @ [w]) (\<lambda>_ _. True)"
proof (rule compiles_move)
  show "moves ho rt C st (get_val ho v) c st" by (rule moves_stay) (rule get_val_run(1))
  fix ix c1 assume "get_val ho v c = Some (Inr (ix, c1))" "tables_ok ho c"
  then show "compiles ho rt C B st (emit OP_PUSH_LITERAL [of_nat ix] False) c1 (e_return (val_literal ho v)) (\<lambda>_ w. st @ [w]) (\<lambda>_ _. True)"
    using get_val_run(5) by (intro compiles_push_literal assms) blast+
qed (auto intro: growing)

lemma compiles_get_val2:
  assumes "length st < rc_size C"
  shows "compiles ho rt C B st (bind_c (get_val2 v) (\<lambda>ix. emit OP_PUSH_LITERAL [of_nat ix] False)) c (e_return v) (\<lambda>_ w. st @ [w]) (\<lambda>_ _. True)"
proof (rule compiles_move)
  show "moves ho rt C st (get_val2 v) c st" unfolding get_val2_def by (rule moves_stay) (rule push_literal_run(1))
  fix ix c1 assume "get_val2 v c = Some (Inr (ix, c1))"
  then have "literals_of c1 = literals_of c @ [v]" "ix = length (literals_of c)"
    using push_literal_run(4,5) unfolding get_val2_def by blast+
  then show "compiles ho rt C B st (emit OP_PUSH_LITERAL [of_nat ix] False) c1 (e_return v) (\<lambda>_ w. st @ [w]) (\<lambda>_ _. True)"
    by (intro compiles_push_literal assms) simp_all
qed (auto simp: get_val2_def intro: growing)

lemma compiles_literal:
  assumes "length st < rc_size C" "literal_value ho l = Some v"
  shows "compiles ho rt C B st (literal_c ho l) c (e_return v) (\<lambda>_ w. st @ [w]) (\<lambda>_ _. True)"
proof (cases l)
  case (LitNum x)
  then show ?thesis
    using assms(2) compiles_push_int [OF assms(1)] compiles_get_val [OF assms(1), of ho rt B "ValFloat x" c]
    by (auto simp: literal_c_def push_number_def literal_value_def number_value_def val_literal_def)
next
  case (LitStr x)
  then show ?thesis
    using assms(2) compiles_get_val [OF assms(1), of ho rt B "ValStr x" c]
    by (auto simp: literal_c_def push_string_def literal_value_def val_literal_def)
next
  case (LitRegex x f)
  then show ?thesis using assms compiles_get_val2 [OF assms(1)] by (auto simp: literal_c_def literal_value_def)
next
  case (LitBool b)
  then show ?thesis using assms by (cases b) (auto simp: literal_c_def literal_value_def intro!: compiles_push handler_of)
next
  case LitNull
  then show ?thesis using assms by (auto simp: literal_c_def literal_value_def intro!: compiles_push handler_of)
next
  case OtherLit
  then show ?thesis using assms by (simp add: literal_value_def)
qed

section \<open>Operators\<close>

lemma compiles_unary_emit:
  assumes "map_of (handlers rt) op = Some (h_unary h)" "length st < rc_size C"
  shows "compiles ho rt C st (st @ [v]) (emit op [] False) c (h v) (\<lambda>_ w. st @ [w]) (\<lambda>_ _. True)"
  by (rule compiles_emit) (use implements_unary [OF _ assms] in \<open>simp add: instr_def\<close>)

lemma compiles_unary:
  assumes size: "length st < rc_size C" and op: "op \<noteq> UDelete" "op \<noteq> UPlus"
  shows "compiles ho rt C st (st @ [v]) (unary_op_c op) c (unary_value rt op v) (\<lambda>_ w. st @ [w]) (\<lambda>_ _. True)"
proof (cases op)
  case UVoid
  have "compiles ho rt C st (st @ [v]) (steps [emit OP_POP [] False, emit OP_PUSH_UNDEF [] False]) c (e_return encode_undefined_value)
      (\<lambda>_ w. st @ [w]) (\<lambda>_ _. True)"
    unfolding steps.simps(2) [of "emit OP_POP [] False"]
  proof (rule compiles_move [OF _ _ moves_pop])
    show "compiles ho rt C st st (steps [emit OP_PUSH_UNDEF [] False]) c1 (e_return encode_undefined_value)
        (\<lambda>_ w. st @ [w]) (\<lambda>_ _. True)" for c1
      unfolding steps_last by (intro compiles_last compiles_push growing handler_of size)
  qed (auto intro: growing)
  then show ?thesis using UVoid by (simp add: unary_op_c_def unary_value_def)
qed (use op in \<open>simp_all add: unary_op_c_def unary_value_def compiles_unary_emit [OF _ size] handler_of\<close>)

lemma compiles_binary_emit:
  assumes "map_of (handlers rt) op = Some (h_binary h)" "length st < rc_size C"
  shows "compiles ho rt C st (st @ [rhs, lhs]) (emit op [] False) c (h lhs rhs) (\<lambda>_ w. st @ [w]) (\<lambda>_ _. True)"
  by (rule compiles_emit) (use implements_binary [OF _ assms] in \<open>simp add: instr_def\<close>)

lemma compiles_profiled_emit:
  assumes "map_of (handlers rt) op = Some (h_profiled h)" "length st < rc_size C"
  shows "compiles ho rt C st (st @ [rhs, lhs]) (emit op [x] False) c (h lhs rhs) (\<lambda>_ w. st @ [w]) (\<lambda>_ _. True)"
  by (rule compiles_emit) (use implements_profiled [OF _ assms] in \<open>simp add: instr_def\<close>)

lemma compiles_bits_emit:
  assumes "map_of (handlers rt) op = Some (h_bits rt h)" "length st < rc_size C"
  shows "compiles ho rt C st (st @ [rhs, lhs]) (emit op [] False) c (op_bits rt h lhs rhs) (\<lambda>_ w. st @ [w]) (\<lambda>_ _. True)"
  by (rule compiles_emit) (use implements_bits [OF _ assms] in \<open>simp add: instr_def\<close>)

lemmas compiles_operators = compiles_binary_emit compiles_profiled_emit compiles_bits_emit

lemma compiles_binary:
  assumes "length st < rc_size C"
  shows "compiles ho rt C st (st @ [rhs, lhs]) (binary_op_c op) c (binary_value rt op lhs rhs) (\<lambda>_ w. st @ [w]) (\<lambda>_ _. True)"
  using assms
  by (cases op) (simp_all add: binary_op_c_def binary_value_def compiles_nyi compiles_operators handler_of)

lemma compiles_assign:
  assumes "length st < rc_size C"
  shows "compiles ho rt C st (st @ [rhs, lhs]) (assign_op_c op) c (binary_value rt (assign_binary op) lhs rhs) (\<lambda>_ w. st @ [w]) (\<lambda>_ _. True)"
  using assms
  by (cases op) (simp_all add: assign_op_c_def assign_binary_def binary_value_def compiles_nyi compiles_operators handler_of)

lemma compiles_update:
  assumes "length st < rc_size C"
  shows "compiles ho rt C st (st @ [v, encode_int32 1]) (update_op_c op) c (update_value rt op v) (\<lambda>_ w. st @ [w]) (\<lambda>_ _. True)"
  using assms by (cases op) (simp_all add: update_op_c_def update_value_def compiles_operators handler_of)

section \<open>Accesses\<close>

lemma name_at:
  assumes "ix < length (names_of c)" "names_of c ! ix = x" "prefix (names_of c) (cb_names b)" "length (names_of c) < 2 ^ 32"
  shows "unat (of_nat ix :: u32) < length (cb_names b)" "cb_names b ! unat (of_nat ix :: u32) = x"
  using assms by (auto simp: unat_word_of_nat_less prefix_def nth_append)

lemma compiles_global:
  assumes "length st < rc_size C"
  shows "compiles ho rt C B st (emit OP_GLOBALTHIS [] False) c (e_store (\<lambda>s. rt_global rt (so_world s))) (\<lambda>_ g. st @ [g]) (\<lambda>_ _. True)"
  by (rule compiles_emit, rule implements_e_store) (use goes_globalthis [OF _ assms] in \<open>simp_all add: instr_def\<close>)

lemma compiles_get_by_id:
  assumes "map_of (handlers rt) op = Some (h_get_by_id rt is_try)" "no_inline_caching rt" "length st < rc_size C"
    "ix < length (names_of c)" "names_of c ! ix = x"
  shows "compiles ho rt C st (st @ [object]) (emit op [of_nat ix] True) c (rt_get_by_id rt 0 0 is_try x object) (\<lambda>_ v. st @ [v]) (\<lambda>_ _. True)"
proof (rule compiles_emit_fdbk)
  fix b fd
  assume code: "code_at C (code_len c) (instr op ([of_nat ix] @ [fd]))" and b: "ctx_block C = Some b"
    and pre: "prefix (names_of c) (cb_names b)" and len: "length (names_of c) < 2 ^ 32"
  have at: "code_at C (code_len c) (op # to_le_bytes (of_nat ix) @ to_le_bytes fd)" using code by (simp add: instr_def)
  show "implements rt C st (code_len c) (st @ [object]) (rt_get_by_id rt 0 0 is_try x object)
      (code_len c + (5 + 4 * length [of_nat ix :: u32])) (\<lambda>v. st @ [v]) (\<lambda>_. True)"
    using implements_get_by_id [OF at assms(1) b name_at [OF assms(4,5) pre len] assms(2,3)] by simp
qed

lemma compiles_put_by_id:
  assumes "no_inline_caching rt" "\<forall>b. ctx_block C = Some b \<longrightarrow> cb_strict b = strict" "ix < length (names_of c)" "names_of c ! ix = x"
  shows "compiles ho rt C st (st @ [v, object]) (emit OP_PUT_BY_ID [of_nat ix] True) c (put_property rt strict x object v) (\<lambda>_ _. st) (\<lambda>_ _. True)"
proof (rule compiles_emit_fdbk)
  fix b fd
  assume code: "code_at C (code_len c) (instr OP_PUT_BY_ID ([of_nat ix] @ [fd]))" and b: "ctx_block C = Some b"
    and pre: "prefix (names_of c) (cb_names b)" and len: "length (names_of c) < 2 ^ 32"
  have at: "code_at C (code_len c) (OP_PUT_BY_ID # to_le_bytes (of_nat ix) @ to_le_bytes fd)" using code by (simp add: instr_def)
  show "implements rt C st (code_len c) (st @ [v, object]) (put_property rt strict x object v)
      (code_len c + (5 + 4 * length [of_nat ix :: u32])) (\<lambda>_. st) (\<lambda>_. True)"
    using implements_put_by_id [OF at b name_at [OF assms(3,4) pre len] assms(1)] assms(2) b by simp
qed

text \<open>\<open>get_sym\<close> writes no code and answers the index of the name.\<close>

lemma compiles_sym:
  assumes "\<And>ix c1. bc_scope c1 = bc_scope c \<Longrightarrow> ix < length (names_of c1) \<Longrightarrow> names_of c1 ! ix = x \<Longrightarrow>
      compiles ho rt C B st (f ix) c1 eff g P" "\<And>ix. grows ho (f ix)"
  shows "compiles ho rt C B st (bind_c (get_sym x) f) c eff g P"
proof (rule compiles_move [OF grows_get_sym assms(2)])
  show "moves ho rt C st (get_sym x) c st" by (rule moves_stay) (rule get_sym_run(1))
  fix ix c1 assume r: "get_sym x c = Some (Inr (ix, c1))" and t: "tables_ok ho c"
  show "compiles ho rt C B st (f ix) c1 eff g P"
    using assms(1) get_sym_run(2) [OF r] get_sym_run(5) [OF r t] by blast
qed

lemma compiles_env:
  assumes "cx_env cx = fr_env (rc_frame C)" "d < 2 ^ 32" "length st < rc_size C"
  shows "compiles ho rt C B st (emit OP_GET_ENV [of_nat d] False) c (env_effect cx d) (\<lambda>_ a. st @ [encode_object_value a]) (\<lambda>_ _. True)"
  by (rule compiles_emit) (use implements_get_env [OF _ assms(3,1), of _ "of_nat d"] assms(2) in \<open>simp add: instr_def unat_word_of_nat_less\<close>)

lemma compiles_get_local:
  assumes env: "cx_env cx = fr_env (rc_frame C)" and ix: "ix < 2 ^ 32" "d < 2 ^ 32" and size: "length st < rc_size C"
  shows "compiles ho rt C B st (emit_get_local d ix) c (get_value rt cx (RVariable ix d)) (\<lambda>_ v. st @ [v]) (\<lambda>_ _. True)"
proof (cases "d = 0")
  case True
  have "compiles ho rt C B st (emit OP_GE0GL [of_nat ix] False) c (get_value rt cx (RVariable ix 0)) (\<lambda>_ v. st @ [v]) (\<lambda>_ _. True)"
    by (rule compiles_emit)
      (use implements_ge0gl [OF _ size env, of _ "of_nat ix"] ix(1) in \<open>simp add: instr_def unat_word_of_nat_less\<close>)
  then show ?thesis using True by (simp add: emit_get_local_def)
next
  case False
  have local: "compiles ho rt C B (st @ [encode_object_value a]) (emit OP_GET_LOCAL [of_nat ix] False) c1 (read_effect ix a)
      (\<lambda>_ v. st @ [v]) (\<lambda>_ _. True)" for a c1
    by (rule compiles_emit)
      (use implements_get_local [OF _ size, where ix = "of_nat ix"] ix(1) in \<open>simp add: instr_def unat_word_of_nat_less\<close>)
  have "compiles ho rt C B st (steps [emit OP_GET_ENV [of_nat d] False, emit OP_GET_LOCAL [of_nat ix] False]) c
      (e_bind (env_effect cx d) (read_effect ix)) (\<lambda>_ v. st @ [v]) (\<lambda>_ _. True)"
    unfolding steps.simps(2) [of "emit OP_GET_ENV [of_nat d] False"] steps_last
    by (rule compiles_bind [OF _ _ compiles_env [OF env ix(2) size]]) (auto intro: growing intro!: compiles_last local)
  then show ?thesis using False by (simp add: emit_get_local_def get_value_variable)
qed

lemma compiles_set_local:
  assumes env: "cx_env cx = fr_env (rc_frame C)" and ix: "ix < 2 ^ 32" "d < 2 ^ 32" and size: "Suc (length st) < rc_size C"
  shows "compiles ho rt C st (st @ [v]) (emit_set_local d ix) c (put_value rt cx (RVariable ix d) v) (\<lambda>_ _. st) (\<lambda>_ _. True)"
proof (cases "d = 0")
  case True
  have "compiles ho rt C st (st @ [v]) (emit OP_GE0SL [of_nat ix] False) c (put_value rt cx (RVariable ix 0) v) (\<lambda>_ _. st) (\<lambda>_ _. True)"
    by (rule compiles_emit)
      (use implements_ge0sl [OF _ env, of _ "of_nat ix"] ix(1) in \<open>simp add: instr_def unat_word_of_nat_less\<close>)
  then show ?thesis using True by (simp add: emit_set_local_def)
next
  case False
  have local: "compiles ho rt C st ((st @ [v]) @ [encode_object_value a]) (emit OP_SET_LOCAL [of_nat ix] False) c1 (put_variable rt a ix v)
      (\<lambda>_ _. st) (\<lambda>_ _. True)" for a c1
    by (rule compiles_emit)
      (use implements_set_local [where ix = "of_nat ix"] ix(1) in \<open>simp add: instr_def unat_word_of_nat_less\<close>)
  have "compiles ho rt C st (st @ [v]) (steps [emit OP_GET_ENV [of_nat d] False, emit OP_SET_LOCAL [of_nat ix] False]) c
      (e_bind (env_effect cx d) (\<lambda>a. put_variable rt a ix v)) (\<lambda>_ _. st) (\<lambda>_ _. True)"
    unfolding steps.simps(2) [of "emit OP_GET_ENV [of_nat d] False"] steps_last
  proof (rule compiles_bind [OF _ _ compiles_env [OF env ix(2)]])
    show "length (st @ [v]) < rc_size C" using size by simp
    show "compiles ho rt C st ((st @ [v]) @ [encode_object_value a]) (bind_c (emit OP_SET_LOCAL [of_nat ix] False) return_c) c1
        (put_variable rt a ix v) (\<lambda>_ _. st) (\<lambda>_ _. True)" for a c1
      by (rule compiles_last [OF _ local]) (rule growing)
  qed (auto intro: growing)
  then show ?thesis using False by (simp add: emit_set_local_def put_value_variable)
qed

lemma matchesD:
  "matches rt C cx \<Longrightarrow> no_inline_caching rt" "matches rt C cx \<Longrightarrow> cx_env cx = fr_env (rc_frame C)"
  "matches rt C cx \<Longrightarrow> cx_this cx = fr_this (rc_frame C)" "matches rt C cx \<Longrightarrow> scope_fits (cx_scopes cx)"
  "matches rt C cx \<Longrightarrow> ctx_block C = Some b \<Longrightarrow> cb_strict b = cx_strict cx"
  by (auto simp: matches_def)

lemma compiles_access_get:
  assumes m: "matches rt C cx" and r: "acc_ref acc r" and size: "length st < rc_size C"
  shows "compiles ho rt C st (st @ ref_stack r) (access_get acc) c (get_value rt cx r) (\<lambda>_ v. st @ [v]) (\<lambda>_ _. True)"
proof (cases acc)
  case (AVariable ix d)
  then have "r = RVariable ix d" "ix < 2 ^ 32" "d < 2 ^ 32" using r by (auto simp: acc_ref_def)
  then show ?thesis
    using AVariable compiles_get_local [OF matchesD(2) [OF m] _ _ size] by (simp add: access_get_def ref_stack_def)
next
  case (AGlobal x)
  have "compiles ho rt C st st (steps [emit OP_GLOBALTHIS [] False, emit OP_TRY_GET_BY_ID [of_nat name] True]) c1
      (e_bind (e_store (\<lambda>s. rt_global rt (so_world s))) (\<lambda>g. rt_get_by_id rt 0 0 True x g)) (\<lambda>_ v. st @ [v]) (\<lambda>_ _. True)"
    if "name < length (names_of c1)" "names_of c1 ! name = x" for name c1
    unfolding steps.simps(2) [of "emit OP_GLOBALTHIS [] False"] steps_last
  proof (rule compiles_bind [OF _ _ compiles_global [OF size]])
    fix a c2 g assume "emit OP_GLOBALTHIS [] False c1 = Some (Inr (a, c2))"
    then have n: "names_of c2 = names_of c1" by (simp add: emit_eq) (metis emitted_fields(1))
    show "compiles ho rt C st (st @ [g]) (bind_c (emit OP_TRY_GET_BY_ID [of_nat name] True) return_c) c2 (rt_get_by_id rt 0 0 True x g)
        (\<lambda>_ v. st @ [v]) (\<lambda>_ _. True)"
      by (intro compiles_last compiles_get_by_id growing handler_of matchesD(1) [OF m] size) (use that n in simp_all)
  qed (auto intro: growing)
  then have "compiles ho rt C st st (access_get (AGlobal x)) c (get_value rt cx (RGlobal x)) (\<lambda>_ v. st @ [v]) (\<lambda>_ _. True)"
    unfolding access_get_def access.case get_value_def reference.case
    by (intro compiles_sym) (auto intro: growing simp del: steps.simps intro!: grows_steps)
  then show ?thesis using AGlobal r by (simp add: acc_ref_def ref_stack_def)
next
  case (AById x)
  then obtain object where o: "r = RById object x" using r by (auto simp: acc_ref_def)
  have "compiles ho rt C st (st @ [object]) (access_get (AById x)) c (rt_get_by_id rt 0 0 False x object) (\<lambda>_ v. st @ [v]) (\<lambda>_ _. True)"
    unfolding access_get_def access.case emit_sym_def
    by (rule compiles_sym) (auto intro!: growing compiles_get_by_id handler_of matchesD(1) [OF m] size)
  then show ?thesis using AById o by (simp add: ref_stack_def get_value_def)
next
  case AByVal
  then obtain object key where o: "r = RByVal object key" using r by (auto simp: acc_ref_def)
  have "compiles ho rt C st (st @ [key, object]) (emit OP_GET_BY_VAL [0] False) c (rt_get_by_val rt object key) (\<lambda>_ v. st @ [v]) (\<lambda>_ _. True)"
    by (rule compiles_emit) (use implements_get_by_val [OF _ size] in \<open>simp add: instr_def\<close>)
  then show ?thesis using AByVal o by (simp add: access_get_def ref_stack_def get_value_def)
next
  case AThis
  then show ?thesis by (simp add: access_get_def compiles_nyi)
qed

lemma compiles_access_set:
  assumes m: "matches rt C cx" and r: "acc_ref acc r" and size: "Suc (length st) < rc_size C"
  shows "compiles ho rt C st (st @ v # ref_stack r) (access_set acc) c (put_value rt cx r v) (\<lambda>_ _. st) (\<lambda>_ _. True)"
proof (cases acc)
  case (AVariable ix d)
  then have "r = RVariable ix d" "ix < 2 ^ 32" "d < 2 ^ 32" using r by (auto simp: acc_ref_def)
  then show ?thesis
    using AVariable compiles_set_local [OF matchesD(2) [OF m] _ _ size] by (simp add: access_set_def ref_stack_def)
next
  case (AGlobal x)
  have "compiles ho rt C st (st @ [v]) (steps [emit OP_GLOBALTHIS [] False, emit OP_PUT_BY_ID [of_nat name] True]) c1
      (e_bind (e_store (\<lambda>s. rt_global rt (so_world s))) (\<lambda>g. put_property rt (cx_strict cx) x g v)) (\<lambda>_ _. st) (\<lambda>_ _. True)"
    if "name < length (names_of c1)" "names_of c1 ! name = x" for name c1
    unfolding steps.simps(2) [of "emit OP_GLOBALTHIS [] False"] steps_last
  proof (rule compiles_bind [OF _ _ compiles_global])
    show "length (st @ [v]) < rc_size C" using size by simp
    fix a c2 g assume "emit OP_GLOBALTHIS [] False c1 = Some (Inr (a, c2))"
    then have n: "names_of c2 = names_of c1" by (simp add: emit_eq) (metis emitted_fields(1))
    have "compiles ho rt C st (st @ [v, g]) (emit OP_PUT_BY_ID [of_nat name] True) c2 (put_property rt (cx_strict cx) x g v) (\<lambda>_ _. st) (\<lambda>_ _. True)"
      by (rule compiles_put_by_id [OF matchesD(1) [OF m]]) (use that n matchesD(5) [OF m] in simp_all)
    then show "compiles ho rt C st ((st @ [v]) @ [g]) (bind_c (emit OP_PUT_BY_ID [of_nat name] True) return_c) c2 (put_property rt (cx_strict cx) x g v)
        (\<lambda>_ _. st) (\<lambda>_ _. True)"
      by (intro compiles_last growing) simp
  qed (auto intro: growing)
  then have "compiles ho rt C st (st @ [v]) (access_set (AGlobal x)) c (put_value rt cx (RGlobal x) v) (\<lambda>_ _. st) (\<lambda>_ _. True)"
    unfolding access_set_def access.case put_value_def reference.case
    by (intro compiles_sym) (auto intro: growing simp del: steps.simps intro!: grows_steps)
  then show ?thesis using AGlobal r by (simp add: acc_ref_def ref_stack_def)
next
  case (AById x)
  then obtain object where o: "r = RById object x" using r by (auto simp: acc_ref_def)
  have "compiles ho rt C st (st @ [v, object]) (access_set (AById x)) c (put_property rt (cx_strict cx) x object v) (\<lambda>_ _. st) (\<lambda>_ _. True)"
    unfolding access_set_def access.case emit_sym_def
    by (rule compiles_sym) (auto intro!: growing compiles_put_by_id matchesD(1) [OF m] matchesD(5) [OF m])
  then show ?thesis using AById o by (simp add: ref_stack_def put_value_def)
next
  case AByVal
  then obtain object key where o: "r = RByVal object key" using r by (auto simp: acc_ref_def)
  have "compiles ho rt C st (st @ [v, key, object]) (emit OP_PUT_BY_VAL [0] False) c (rt_put_by_val rt (cx_strict cx) object key v)
      (\<lambda>_ _. st) (\<lambda>_ _. True)"
    by (rule compiles_emit) (use implements_put_by_val matchesD(5) [OF m] in \<open>simp add: instr_def\<close>)
  then show ?thesis using AByVal o by (simp add: access_set_def ref_stack_def put_value_def)
next
  case AThis
  then show ?thesis by (simp add: access_set_def compiles_nyi)
qed

end
