(* ===== verification/Compile_Correct.thy ===== *)
theory Compile_Correct
  imports Compile_Access
begin

text \<open>
  The compiler is correct on expressions without calls and functions: the code \<open>expr_c\<close> appends, run by
  the interpreter's steps, computes what the evaluation \<open>ev\<close> says, exceptions included.
\<close>

declare ev.simps [simp del] ev_ref.simps [simp del] expr_c.simps [simp del] compile_access.simps [simp del]

definition target_ref :: "'w runtime \<Rightarrow> compiler_host \<Rightarrow> eval_context \<Rightarrow> 'f expr pat \<Rightarrow> (reference, 'w) effect" where
  "target_ref rt ho cx left =
     (case left of PatIdent n \<Rightarrow> e_return (name_ref ho cx n) | PatExpr x \<Rightarrow> ev_ref rt ho cx x | OtherPat \<Rightarrow> e_panic)"

lemma ev_eqs:
  "ev rt ho cx (Ident n) =
     (if n = ''undefined'' then e_return encode_undefined_value else get_value rt cx (name_ref ho cx n))"
  "ev rt ho cx (Lit l) = (case literal_value ho l of Some v \<Rightarrow> e_return v | None \<Rightarrow> e_panic)"
  "ev rt ho cx This = e_return (cx_this cx)"
  "ev rt ho cx (Member obj p cmp) = e_bind (ev_ref rt ho cx (Member obj p cmp)) (get_value rt cx)"
  "uop \<noteq> UDelete \<Longrightarrow> uop \<noteq> UPlus \<Longrightarrow> ev rt ho cx (Unary uop x) = e_bind (ev rt ho cx x) (unary_value rt uop)"
  "ev rt ho cx (Update upd pre x) =
     e_bind (ev rt ho cx x) (\<lambda>v. e_bind (update_value rt upd v) (\<lambda>w. e_bind (ev_ref rt ho cx x) (\<lambda>r.
       e_bind (put_value rt cx r w) (\<lambda>_. e_return (if pre then w else v)))))"
  "ev rt ho cx (Cond x y z) =
     e_bind (ev rt ho cx x) (\<lambda>v s. if to_boolean (cells_of rt s) v then ev rt ho cx y s else ev rt ho cx z s)"
  "ev rt ho cx (Paren x) = ev rt ho cx x"
  by (subst ev.simps, simp)+

lemma ev_assign:
  "ev rt ho cx (AssignExpr Assign left right) =
     e_bind (ev rt ho cx right) (\<lambda>v. e_bind (target_ref rt ho cx left) (\<lambda>r. e_bind (put_value rt cx r v) (\<lambda>_. e_return v)))"
  "op \<noteq> Assign \<Longrightarrow> ev rt ho cx (AssignExpr op left right) =
     e_bind (ev rt ho cx right) (\<lambda>rhs. e_bind (target_ref rt ho cx left) (\<lambda>r. e_bind (get_value rt cx r) (\<lambda>lhs.
       e_bind (binary_value rt (assign_binary op) lhs rhs) (\<lambda>v.
       e_bind (target_ref rt ho cx left) (\<lambda>r2. e_bind (put_value rt cx r2 v) (\<lambda>_. e_return v))))))"
  by (subst ev.simps, simp add: target_ref_def Let_def)+

lemma ev_bin:
  "ev rt ho cx (Bin LogicalOr x y) =
     e_bind (ev rt ho cx x) (\<lambda>v s. if to_boolean (cells_of rt s) v then Some (Inr v, s) else ev rt ho cx y s)"
  "ev rt ho cx (Bin LogicalAnd x y) =
     e_bind (ev rt ho cx x) (\<lambda>v s. if to_boolean (cells_of rt s) v then ev rt ho cx y s else Some (Inr v, s))"
  "op \<noteq> LogicalOr \<Longrightarrow> op \<noteq> LogicalAnd \<Longrightarrow>
   ev rt ho cx (Bin op x y) = e_bind (ev rt ho cx y) (\<lambda>rhs. e_bind (ev rt ho cx x) (\<lambda>lhs. binary_value rt op lhs rhs))"
  by (subst ev.simps, simp)+

lemma ev_ref_eqs:
  "ev_ref rt ho cx (Ident n) = e_return (name_ref ho cx n)"
  "ev_ref rt ho cx (Member (Some x) p cmp) =
     e_bind (ev rt ho cx x) (\<lambda>object. (case (if cmp then None else member_name p) of
        Some n \<Rightarrow> e_return (RById object (ho_intern ho n))
      | None \<Rightarrow> e_bind (ev rt ho cx p) (\<lambda>key. e_return (RByVal object key))))"
  "ev_ref rt ho cx This = e_return RThis"
  by (subst ev_ref.simps, simp)+

section \<open>What is proved of an expression\<close>

definition expr_ok :: "compiler_host \<Rightarrow> 'w runtime \<Rightarrow> run_ctx \<Rightarrow> eval_context \<Rightarrow> fn_action expr \<Rightarrow> bool" where
  "expr_ok ho rt C cx e \<longleftrightarrow>
     (\<forall>used tail c st B. prefix B st \<longrightarrow> bc_scope c = cx_scopes cx \<longrightarrow> length st + 2 * size e + 3 \<le> rc_size C \<longrightarrow>
        compiles ho rt C B st (expr_c ho e used tail) c (ev rt ho cx e) (\<lambda>_ v. if used then st @ [v] else st) (\<lambda>_ _. True))"
definition access_ok :: "compiler_host \<Rightarrow> 'w runtime \<Rightarrow> run_ctx \<Rightarrow> eval_context \<Rightarrow> fn_action expr \<Rightarrow> bool" where
  "access_ok ho rt C cx e \<longleftrightarrow>
     (\<forall>c st B. prefix B st \<longrightarrow> bc_scope c = cx_scopes cx \<longrightarrow> length st + 2 * size e + 3 \<le> rc_size C \<longrightarrow>
        compiles ho rt C B st (compile_access ho e False) c (ev_ref rt ho cx e) (\<lambda>_ r. st @ ref_stack r) acc_ref)"

lemma expr_okI:
  assumes "\<And>used tail c st. bc_scope c = cx_scopes cx \<Longrightarrow> length st + 2 * size e + 3 \<le> rc_size C \<Longrightarrow>
    compiles ho rt C st st (expr_c ho e used tail) c (ev rt ho cx e) (\<lambda>_ v. if used then st @ [v] else st) (\<lambda>_ _. True)"
  shows "expr_ok ho rt C cx e"
  unfolding expr_ok_def using assms compiles_prefix by blast

lemma access_okI:
  assumes "\<And>c st. bc_scope c = cx_scopes cx \<Longrightarrow> length st + 2 * size e + 3 \<le> rc_size C \<Longrightarrow>
    compiles ho rt C st st (compile_access ho e False) c (ev_ref rt ho cx e) (\<lambda>_ r. st @ ref_stack r) acc_ref"
  shows "access_ok ho rt C cx e"
  unfolding access_ok_def using assms compiles_prefix by blast

lemma expr_used:
  assumes "expr_ok ho rt C cx e" "prefix B st" "bc_scope c = cx_scopes cx" "length st + 2 * size e + 3 \<le> rc_size C"
  shows "compiles ho rt C B st (expr_c ho e True False) c (ev rt ho cx e) (\<lambda>_ v. st @ [v]) (\<lambda>_ _. True)"
  using assms(1) [unfolded expr_ok_def, rule_format, OF assms(2-4), of True False] by simp

lemma access_run:
  assumes "access_ok ho rt C cx e" "prefix B st" "bc_scope c = cx_scopes cx" "length st + 2 * size e + 3 \<le> rc_size C"
  shows "compiles ho rt C B st (compile_access ho e False) c (ev_ref rt ho cx e) (\<lambda>_ r. st @ ref_stack r) acc_ref"
  using assms(1) [unfolded access_ok_def, rule_format, OF assms(2-4)] .

lemma access_nyi: "compile_access ho e False = nyi \<Longrightarrow> access_ok ho rt C cx e"
  by (simp add: access_ok_def compiles_nyi)

lemma covered_expr: "covered e \<Longrightarrow> grows ho (expr_c ho e used tail)"
  and covered_access: "covered e \<Longrightarrow> grows ho (compile_access ho e dup)"
  using covered_grows by blast+

section \<open>The constructs\<close>

lemma e_return_bind: "e_bind (e_return x) f = f x"
  by (rule ext) (simp add: e_bind_def e_return_def)

lemma e_bind_assoc: "e_bind (e_bind m f) k = e_bind m (\<lambda>x. e_bind (f x) k)"
  by (rule ext) (simp add: e_bind_def split: option.split sum.split prod.split)

lemma compiles_name:
  assumes "matches rt C cx" "bc_scope c = cx_scopes cx"
  shows "compiles ho rt C B st (access_var (ho_intern ho n)) c (e_return (name_ref ho cx n)) (\<lambda>_ r. st @ ref_stack r) acc_ref"
proof -
  have "acc_ref (access_of (ho_intern ho n) (bc_scope c)) (name_ref ho cx n)"
    unfolding assms(2) by (rule acc_ref_name [OF matchesD(4) [OF assms(1)]])
  moreover have "ref_stack (name_ref ho cx n) = []"
    by (simp add: name_ref_def ref_stack_def split: access.split)
  ultimately show ?thesis by (auto simp: compiles_def access_var_run intro!: implements_return)
qed

lemma ok_ident:
  assumes m: "matches rt C cx"
  shows "expr_ok ho rt C cx (Ident n)" "access_ok ho rt C cx (Ident n)"
proof -
  show "access_ok ho rt C cx (Ident n)"
    by (rule access_okI) (simp add: compile_access_eqs ev_ref_eqs compiles_name [OF m])
  show "expr_ok ho rt C cx (Ident n)"
  proof (rule expr_okI)
    fix used tail and c :: compiler and st :: "js_value list"
    assume sc: "bc_scope c = cx_scopes cx" and size: "length st + 2 * size (Ident n :: fn_action expr) + 3 \<le> rc_size C"
    have "compiles ho rt C st st (bind_c (access_var (ho_intern ho n)) access_get) c
        (e_bind (e_return (name_ref ho cx n)) (get_value rt cx)) (\<lambda>_ v. st @ [v]) (\<lambda>_ _. True)"
      by (rule compiles_bind [OF _ _ compiles_name [OF m sc]]) (use size in \<open>auto intro!: growing compiles_access_get [OF m]\<close>)
    then have "compiles ho rt C st st (if n = ''undefined'' then emit OP_PUSH_UNDEF [] False
        else bind_c (access_var (ho_intern ho n)) access_get) c (ev rt ho cx (Ident n)) (\<lambda>_ v. st @ [v]) (\<lambda>_ _. True)"
      using size by (auto simp: ev_eqs e_return_bind intro!: compiles_push handler_of)
    then show "compiles ho rt C st st (expr_c ho (Ident n) used tail) c (ev rt ho cx (Ident n))
        (\<lambda>_ v. if used then st @ [v] else st) (\<lambda>_ _. True)"
      unfolding expr_c_eqs by (intro compiles_used) (auto intro: growing)
  qed
qed

lemma ok_lit: "expr_ok ho rt C cx (Lit l)"
proof (rule expr_okI)
  fix used tail c and st :: "js_value list"
  assume size: "length st + 2 * size (Lit l :: fn_action expr) + 3 \<le> rc_size C"
  have "compiles ho rt C st st (literal_c ho l) c (ev rt ho cx (Lit l)) (\<lambda>_ v. st @ [v]) (\<lambda>_ _. True)"
  proof (cases "literal_value ho l")
    case None
    then show ?thesis by (auto simp: compiles_def implements_def ev_eqs e_panic_def)
  next
    case (Some v)
    have "length st < rc_size C" using size by simp
    from compiles_literal [OF this Some] show ?thesis using Some by (simp add: ev_eqs)
  qed
  then show "compiles ho rt C st st (expr_c ho (Lit l) used tail) c (ev rt ho cx (Lit l))
      (\<lambda>_ v. if used then st @ [v] else st) (\<lambda>_ _. True)"
    unfolding expr_c_eqs by (rule compiles_used [OF grows_literal])
qed

lemma ok_this:
  assumes m: "matches rt C cx"
  shows "expr_ok ho rt C cx This" "access_ok ho rt C cx This"
proof -
  show "access_ok ho rt C cx This"
    by (rule access_okI) (auto simp: compile_access_eqs ev_ref_eqs acc_ref_def ref_stack_def intro: compiles_return)
  show "expr_ok ho rt C cx This"
  proof (rule expr_okI)
    fix used tail c and st :: "js_value list"
    assume size: "length st + 2 * size (This :: fn_action expr) + 3 \<le> rc_size C"
    have "compiles ho rt C st st (emit OP_PUSH_THIS [] False) c (e_return (cx_this cx)) (\<lambda>_ v. st @ [v]) (\<lambda>_ _. True)"
      by (rule compiles_emit, rule implements_goes)
        (use goes_push_this [of C _ st rt] size matchesD(3) [OF m] in \<open>simp_all add: instr_def\<close>)
    then show "compiles ho rt C st st (expr_c ho This used tail) c (ev rt ho cx This)
        (\<lambda>_ v. if used then st @ [v] else st) (\<lambda>_ _. True)"
      by (auto simp: expr_c_eqs ev_eqs intro: compiles_return)
  qed
qed

lemma ok_member:
  assumes m: "matches rt C cx" and x: "expr_ok ho rt C cx x" "covered x" and p: "expr_ok ho rt C cx p" "covered p"
  shows "expr_ok ho rt C cx (Member (Some x) p cmp)" "access_ok ho rt C cx (Member (Some x) p cmp)"
proof -
  let ?e = "Member (Some x) p cmp"
  show acc: "access_ok ho rt C cx ?e"
  proof (rule access_okI)
    fix c :: compiler and st :: "js_value list"
    assume sc: "bc_scope c = cx_scopes cx" and size: "length st + 2 * size ?e + 3 \<le> rc_size C"
    have "compiles ho rt C st (st @ [object])
        (case if cmp then None else member_name p of
           Some n \<Rightarrow> return_c (AById (ho_intern ho n))
         | None \<Rightarrow> bind_c (expr_c ho p True False) (\<lambda>_. bind_c (emit OP_SWAP [] False) (\<lambda>_. return_c AByVal))) c1
        (case if cmp then None else member_name p of
           Some n \<Rightarrow> e_return (RById object (ho_intern ho n))
         | None \<Rightarrow> e_bind (ev rt ho cx p) (\<lambda>key. e_return (RByVal object key))) (\<lambda>_ r. st @ ref_stack r) acc_ref"
      if sc1: "bc_scope c1 = cx_scopes cx" for object c1
    proof (cases "if cmp then None else member_name p")
      case None
      have "compiles ho rt C st (st @ [object])
          (bind_c (expr_c ho p True False) (\<lambda>_. bind_c (emit OP_SWAP [] False) (\<lambda>_. return_c AByVal))) c1
          (e_bind (ev rt ho cx p) (\<lambda>key. e_return (RByVal object key))) (\<lambda>_ r. st @ ref_stack r) acc_ref"
      proof (rule compiles_bind)
        show "compiles ho rt C st (st @ [object]) (expr_c ho p True False) c1 (ev rt ho cx p) (\<lambda>_ v. (st @ [object]) @ [v]) (\<lambda>_ _. True)"
          by (rule expr_used [OF p(1) _ sc1]) (use size in simp_all)
        show "compiles ho rt C st ((st @ [object]) @ [key]) (bind_c (emit OP_SWAP [] False) (\<lambda>_. return_c AByVal)) c2
            (e_return (RByVal object key)) (\<lambda>_ r. st @ ref_stack r) acc_ref" for key c2
        proof (rule compiles_move)
          show "moves ho rt C ((st @ [object]) @ [key]) (emit OP_SWAP [] False) c2 (st @ [key, object])"
            using moves_swap [of st C ho rt object key c2] size by simp
        qed (auto intro: growing compiles_return simp: ref_stack_def acc_ref_def)
      qed (auto intro: growing covered_expr p)
      then show ?thesis using None by simp
    next
      case (Some n)
      then show ?thesis by (auto simp: ref_stack_def acc_ref_def intro: compiles_return)
    qed
    then have "compiles ho rt C st st (bind_c (expr_c ho x True False) (\<lambda>_.
        (case if cmp then None else member_name p of
           Some n \<Rightarrow> return_c (AById (ho_intern ho n))
         | None \<Rightarrow> bind_c (expr_c ho p True False) (\<lambda>_. bind_c (emit OP_SWAP [] False) (\<lambda>_. return_c AByVal))))) c
        (ev_ref rt ho cx ?e) (\<lambda>_ r. st @ ref_stack r) acc_ref"
      unfolding ev_ref_eqs
      by (intro compiles_bind [OF _ _ expr_used [OF x(1) _ sc]])
        (use size sc p(2) x(2) in \<open>auto intro: growing covered_expr split: option.split\<close>)
    then show "compiles ho rt C st st (compile_access ho ?e False) c (ev_ref rt ho cx ?e) (\<lambda>_ r. st @ ref_stack r) acc_ref"
      by (cases cmp; cases "member_name p") (simp_all add: compile_access_eqs)
  qed
  show "expr_ok ho rt C cx ?e"
  proof (rule expr_okI)
    fix used tail and c :: compiler and st :: "js_value list"
    assume sc: "bc_scope c = cx_scopes cx" and size: "length st + 2 * size ?e + 3 \<le> rc_size C"
    have g: "grows ho (compile_access ho ?e False)" by (rule covered_access) (use x(2) p(2) in simp)
    have "compiles ho rt C st st (bind_c (compile_access ho ?e False) access_get) c (ev rt ho cx ?e) (\<lambda>_ v. st @ [v]) (\<lambda>_ _. True)"
      unfolding ev_eqs
      by (rule compiles_bind [OF g _ access_run [OF acc _ sc size]])
        (use size in \<open>auto intro!: growing compiles_access_get [OF m]\<close>)
    then show "compiles ho rt C st st (expr_c ho ?e used tail) c (ev rt ho cx ?e) (\<lambda>_ v. if used then st @ [v] else st) (\<lambda>_ _. True)"
      unfolding expr_c_eqs by (intro compiles_used grows_bind g growing)
  qed
qed

lemma ok_unary:
  assumes x: "expr_ok ho rt C cx x" "covered x" and op: "op \<noteq> UDelete" "op \<noteq> UPlus"
  shows "expr_ok ho rt C cx (Unary op x)"
proof (rule expr_okI)
  fix used tail and c :: compiler and st :: "js_value list"
  assume sc: "bc_scope c = cx_scopes cx" and size: "length st + 2 * size (Unary op x) + 3 \<le> rc_size C"
  have "compiles ho rt C st st (bind_c (expr_c ho x True False) (\<lambda>_. unary_op_c op)) c (ev rt ho cx (Unary op x))
      (\<lambda>_ v. st @ [v]) (\<lambda>_ _. True)"
    unfolding ev_eqs(5) [OF op]
    by (rule compiles_bind [OF _ _ expr_used [OF x(1) _ sc]])
      (use size op x(2) in \<open>auto intro!: covered_expr compiles_unary growing\<close>)
  then have "compiles ho rt C st st (steps [bind_c (expr_c ho x True False) (\<lambda>_. unary_op_c op), pop_unless used]) c
      (ev rt ho cx (Unary op x)) (\<lambda>_ v. if used then st @ [v] else st) (\<lambda>_ _. True)"
    by (intro compiles_used grows_bind covered_expr x(2) growing)
  then show "compiles ho rt C st st (expr_c ho (Unary op x) used tail) c (ev rt ho cx (Unary op x))
      (\<lambda>_ v. if used then st @ [v] else st) (\<lambda>_ _. True)"
    by (simp add: expr_c_eqs(5) [OF op(1)])
qed

text \<open>A store: the reference on top of the value, and what stays on the stack is the value of the expression.\<close>

lemma compiles_store:
  assumes m: "matches rt C cx" and acc: "grows ho acc" "compiles ho rt C B (K @ [w]) acc c reff (\<lambda>_ r. (K @ [w]) @ ref_stack r) acc_ref"
    and K: "prefix B K" "Suc (length K) < rc_size C" "g () y = K"
  shows "compiles ho rt C B (K @ [w]) (steps [bind_c acc access_set]) c
     (e_bind reff (\<lambda>r. e_bind (put_value rt cx r w) (\<lambda>_. e_return y))) g (\<lambda>_ _. True)"
  unfolding steps_last bind_c_assoc
proof (rule compiles_bind [OF acc(1) _ acc(2)])
  fix a c1 r assume r: "acc_ref a r"
  show "compiles ho rt C B ((K @ [w]) @ ref_stack r) (bind_c (access_set a) return_c) c1
      (e_bind (put_value rt cx r w) (\<lambda>_. e_return y)) g (\<lambda>_ _. True)"
  proof (rule compiles_bind)
    show "compiles ho rt C B ((K @ [w]) @ ref_stack r) (access_set a) c1 (put_value rt cx r w) (\<lambda>_ _. K) (\<lambda>_ _. True)"
      using compiles_prefix [OF K(1) compiles_access_set [OF m r K(2)]] by simp
  qed (auto intro: growing compiles_return simp: K(3))
qed (auto intro: growing)

lemma moves_keep:
  assumes "Suc (length st) < rc_size C"
  shows "moves ho rt C (st @ [v]) (if used then emit OP_DUP [] False else return_c ()) c ((if used then st @ [v] else st) @ [v])"
  using assms by (cases used) (auto intro: moves_dup moves_return)

lemma grows_keep [growing]: "grows ho (if used then emit OP_DUP [] False else return_c ())"
  by (auto intro: growing)

lemma moves_one:
  assumes "length st < rc_size C"
  shows "moves ho rt C st (emit OP_PUSH_INT [1] False) c (st @ [encode_int32 1])"
  by (rule moves_emit) (use goes_push_int [OF _ assms] in \<open>simp add: instr_def\<close>)

lemma ok_paren: "expr_ok ho rt C cx x \<Longrightarrow> expr_ok ho rt C cx (Paren x)"
  unfolding expr_ok_def by (simp add: expr_c_eqs ev_eqs)

lemma ok_update:
  assumes m: "matches rt C cx" and x: "expr_ok ho rt C cx x" "access_ok ho rt C cx x" "covered x"
  shows "expr_ok ho rt C cx (Update upd pre x)"
proof (rule expr_okI)
  fix used tail and c :: compiler and st :: "js_value list"
  assume sc: "bc_scope c = cx_scopes cx" and size: "length st + 2 * size (Update upd pre x) + 3 \<le> rc_size C"
  let ?keep = "if used then emit OP_DUP [] False else return_c ()"
  let ?store = "steps [bind_c (compile_access ho x False) access_set]"
  let ?K = "\<lambda>v. if used then st @ [v] else st"
  let ?put = "\<lambda>w v. e_bind (ev_ref rt ho cx x) (\<lambda>r. e_bind (put_value rt cx r w) (\<lambda>_. e_return v))"
  have g: "grows ho (expr_c ho x True False)" "grows ho ?store" "grows ho ?keep"
    using x(3) by (auto intro!: growing covered_expr covered_access)
  have store: "compiles ho rt C st (?K v @ [w]) ?store c1 (?put w v) (\<lambda>_ v. ?K v) (\<lambda>_ _. True)"
    if "bc_scope c1 = cx_scopes cx" for v w c1
    by (rule compiles_store [OF m covered_access [OF x(3)] access_run [OF x(2) _ that]]) (use size in auto)
  show "compiles ho rt C st st (expr_c ho (Update upd pre x) used tail) c (ev rt ho cx (Update upd pre x)) (\<lambda>_ v. ?K v) (\<lambda>_ _. True)"
  proof (cases pre)
    case True
    have "compiles ho rt C st (st @ [v]) (bind_c (emit OP_PUSH_INT [1] False) (\<lambda>_. bind_c (update_op_c upd) (\<lambda>_. bind_c ?keep (\<lambda>_. ?store)))) c1
        (e_bind (update_value rt upd v) (\<lambda>w. ?put w w)) (\<lambda>_ v. ?K v) (\<lambda>_ _. True)"
      if sc1: "bc_scope c1 = cx_scopes cx" for v c1
    proof (rule compiles_move [OF _ _ moves_one])
      fix c2 :: compiler assume sc2: "bc_scope c2 = bc_scope c1"
      show "compiles ho rt C st ((st @ [v]) @ [encode_int32 1]) (bind_c (update_op_c upd) (\<lambda>_. bind_c ?keep (\<lambda>_. ?store))) c2
          (e_bind (update_value rt upd v) (\<lambda>w. ?put w w)) (\<lambda>_ v. ?K v) (\<lambda>_ _. True)"
        unfolding append_assoc append.simps
      proof (rule compiles_bind [OF _ _ compiles_update])
        fix c3 :: compiler and w assume sc3: "bc_scope c3 = bc_scope c2"
        show "compiles ho rt C st (st @ [w]) (bind_c ?keep (\<lambda>_. ?store)) c3 (?put w w) (\<lambda>_ v. ?K v) (\<lambda>_ _. True)"
          by (rule compiles_move [OF g(3,2) moves_keep], (use size in simp), rule store) (use sc1 sc2 sc3 in simp)
      qed (use size in \<open>auto intro!: growing g simp del: steps.simps\<close>)
    qed (use size in \<open>auto intro!: growing g simp del: steps.simps\<close>)
    then have "compiles ho rt C st st (bind_c (expr_c ho x True False) (\<lambda>_.
        bind_c (emit OP_PUSH_INT [1] False) (\<lambda>_. bind_c (update_op_c upd) (\<lambda>_. bind_c ?keep (\<lambda>_. ?store))))) c
        (e_bind (ev rt ho cx x) (\<lambda>v. e_bind (update_value rt upd v) (\<lambda>w. ?put w w))) (\<lambda>_ v. ?K v) (\<lambda>_ _. True)"
      by (intro compiles_bind [OF g(1) _ expr_used [OF x(1) _ sc]]) (use size sc in \<open>auto intro!: growing g simp del: steps.simps\<close>)
    then show ?thesis using True by (simp add: expr_c_eqs ev_eqs)
  next
    case False
    have "compiles ho rt C st (st @ [v]) (bind_c ?keep (\<lambda>_. bind_c (emit OP_PUSH_INT [1] False) (\<lambda>_. bind_c (update_op_c upd) (\<lambda>_. ?store)))) c1
        (e_bind (update_value rt upd v) (\<lambda>w. ?put w v)) (\<lambda>_ v. ?K v) (\<lambda>_ _. True)"
      if sc1: "bc_scope c1 = cx_scopes cx" for v c1
    proof (rule compiles_move [OF g(3) _ moves_keep])
      fix c2 :: compiler assume sc2: "bc_scope c2 = bc_scope c1"
      have "compiles ho rt C (?K v) (?K v @ [v, encode_int32 1]) (update_op_c upd) c3 (update_value rt upd v) (\<lambda>_ w. ?K v @ [w]) (\<lambda>_ _. True)" for c3
        by (rule compiles_update) (use size in auto)
      from compiles_prefix [OF _ this] have up: "compiles ho rt C st (?K v @ [v, encode_int32 1]) (update_op_c upd) c3
          (update_value rt upd v) (\<lambda>_ w. ?K v @ [w]) (\<lambda>_ _. True)" for c3 by simp
      show "compiles ho rt C st (?K v @ [v]) (bind_c (emit OP_PUSH_INT [1] False) (\<lambda>_. bind_c (update_op_c upd) (\<lambda>_. ?store))) c2
          (e_bind (update_value rt upd v) (\<lambda>w. ?put w v)) (\<lambda>_ v. ?K v) (\<lambda>_ _. True)"
      proof (rule compiles_move [OF _ _ moves_one])
        fix c3 :: compiler assume sc3: "bc_scope c3 = bc_scope c2"
        show "compiles ho rt C st ((?K v @ [v]) @ [encode_int32 1]) (bind_c (update_op_c upd) (\<lambda>_. ?store)) c3
            (e_bind (update_value rt upd v) (\<lambda>w. ?put w v)) (\<lambda>_ v. ?K v) (\<lambda>_ _. True)"
          unfolding append_assoc append.simps
          by (rule compiles_bind [OF _ _ up], rule growing, rule g(2), rule store) (use sc1 sc2 sc3 in simp)
      qed (use size in \<open>auto intro!: growing g simp del: steps.simps\<close>)
    qed (use size in \<open>auto intro!: growing g simp del: steps.simps\<close>)
    then have "compiles ho rt C st st (bind_c (expr_c ho x True False) (\<lambda>_.
        bind_c ?keep (\<lambda>_. bind_c (emit OP_PUSH_INT [1] False) (\<lambda>_. bind_c (update_op_c upd) (\<lambda>_. ?store))))) c
        (e_bind (ev rt ho cx x) (\<lambda>v. e_bind (update_value rt upd v) (\<lambda>w. ?put w v))) (\<lambda>_ v. ?K v) (\<lambda>_ _. True)"
      by (intro compiles_bind [OF g(1) _ expr_used [OF x(1) _ sc]]) (use size sc in \<open>auto intro!: growing g simp del: steps.simps\<close>)
    then show ?thesis using False by (simp add: expr_c_eqs ev_eqs)
  qed
qed

text \<open>What can stand at the left of an assignment.\<close>

definition target_ok :: "compiler_host \<Rightarrow> 'w runtime \<Rightarrow> run_ctx \<Rightarrow> eval_context \<Rightarrow> fn_action expr pat \<Rightarrow> bool" where
  "target_ok ho rt C cx left \<longleftrightarrow> grows ho (target_c ho left) \<and>
     (\<forall>c st B. prefix B st \<longrightarrow> bc_scope c = cx_scopes cx \<longrightarrow> length st + 2 * size_pat size left + 3 \<le> rc_size C \<longrightarrow>
        compiles ho rt C B st (target_c ho left) c (target_ref rt ho cx left) (\<lambda>_ r. st @ ref_stack r) acc_ref)"

lemma target_ok_name: "matches rt C cx \<Longrightarrow> target_ok ho rt C cx (PatIdent n)"
  by (auto simp: target_ok_def target_c_def target_ref_def intro: growing compiles_name)

lemma target_ok_access: "access_ok ho rt C cx e \<Longrightarrow> covered e \<Longrightarrow> target_ok ho rt C cx (PatExpr e)"
  by (auto simp: target_ok_def target_c_def target_ref_def intro!: covered_access access_run)

lemma target_run:
  assumes "target_ok ho rt C cx left"
  shows "grows ho (target_c ho left)"
    "prefix B st \<Longrightarrow> bc_scope c = cx_scopes cx \<Longrightarrow> length st + 2 * size_pat size left + 3 \<le> rc_size C \<Longrightarrow>
     compiles ho rt C B st (target_c ho left) c (target_ref rt ho cx left) (\<lambda>_ r. st @ ref_stack r) acc_ref"
  using assms by (simp_all add: target_ok_def)

lemma ok_assign:
  assumes m: "matches rt C cx" and x: "expr_ok ho rt C cx x" "covered x" and left: "target_ok ho rt C cx left"
  shows "expr_ok ho rt C cx (AssignExpr op left x)"
proof (rule expr_okI)
  fix used tail and c :: compiler and st :: "js_value list"
  assume sc: "bc_scope c = cx_scopes cx" and size: "length st + 2 * size (AssignExpr op left x) + 3 \<le> rc_size C"
  let ?keep = "if used then emit OP_DUP [] False else return_c ()"
  let ?store = "steps [bind_c (target_c ho left) access_set]"
  let ?get = "bind_c (target_c ho left) access_get"
  let ?K = "\<lambda>v. if used then st @ [v] else st"
  let ?put = "\<lambda>v. e_bind (target_ref rt ho cx left) (\<lambda>r. e_bind (put_value rt cx r v) (\<lambda>_. e_return v))"
  note target = target_run [OF left]
  have g: "grows ho (expr_c ho x True False)" "grows ho ?store" "grows ho ?keep" "grows ho ?get"
    "grows ho (bind_c ?keep (\<lambda>_. ?store))" "\<And>op. grows ho (bind_c (assign_op_c op) (\<lambda>_. bind_c ?keep (\<lambda>_. ?store)))"
    using x(2) by (auto intro!: growing covered_expr target(1))
  have store: "compiles ho rt C st (st @ [v]) (bind_c ?keep (\<lambda>_. ?store)) c1 (?put v) (\<lambda>_ v. ?K v) (\<lambda>_ _. True)"
    if sc1: "bc_scope c1 = cx_scopes cx" for v c1
  proof (rule compiles_move [OF g(3,2) moves_keep])
    fix c2 :: compiler assume "bc_scope c2 = bc_scope c1"
    then have sc2: "bc_scope c2 = cx_scopes cx" using sc1 by simp
    show "compiles ho rt C st (?K v @ [v]) ?store c2 (?put v) (\<lambda>_ v. ?K v) (\<lambda>_ _. True)"
      by (rule compiles_store [OF m target(1) target(2) [OF _ sc2]]) (use size in auto)
  qed (use size in simp)
  show "compiles ho rt C st st (expr_c ho (AssignExpr op left x) used tail) c (ev rt ho cx (AssignExpr op left x)) (\<lambda>_ v. ?K v) (\<lambda>_ _. True)"
  proof (cases "op = Assign")
    case True
    have "compiles ho rt C st st (bind_c (expr_c ho x True False) (\<lambda>_. bind_c ?keep (\<lambda>_. ?store))) c
        (e_bind (ev rt ho cx x) ?put) (\<lambda>_ v. ?K v) (\<lambda>_ _. True)"
      by (rule compiles_bind [OF g(1) _ expr_used [OF x(1) _ sc]], rule g(5), simp, (use size in simp), rule store) (use sc in simp)
    then show ?thesis using True by (simp add: expr_c_assign ev_assign)
  next
    case False
    let ?rest = "\<lambda>v. ?put v"
    have get: "compiles ho rt C st (st @ [rhs]) ?get c1
        (e_bind (target_ref rt ho cx left) (get_value rt cx)) (\<lambda>_ lhs. st @ [rhs, lhs]) (\<lambda>_ _. True)"
      if sc1: "bc_scope c1 = cx_scopes cx" for rhs c1
    proof (rule compiles_bind [OF target(1) _ target(2) [OF _ sc1]])
      fix a c2 r assume r: "acc_ref a r"
      have "compiles ho rt C (st @ [rhs]) ((st @ [rhs]) @ ref_stack r) (access_get a) c2 (get_value rt cx r)
          (\<lambda>_ v. (st @ [rhs]) @ [v]) (\<lambda>_ _. True)"
        by (rule compiles_access_get [OF m r]) (use size in simp)
      from compiles_prefix [OF _ this]
      show "compiles ho rt C st ((st @ [rhs]) @ ref_stack r) (access_get a) c2 (get_value rt cx r) (\<lambda>_ v. st @ [rhs, v]) (\<lambda>_ _. True)"
        by simp
    qed (use size in \<open>auto intro: growing\<close>)
    have op: "compiles ho rt C st (st @ [rhs, lhs]) (bind_c (assign_op_c op) (\<lambda>_. bind_c ?keep (\<lambda>_. ?store))) c1
        (e_bind (binary_value rt (assign_binary op) lhs rhs) ?put) (\<lambda>_ v. ?K v) (\<lambda>_ _. True)"
      if sc1: "bc_scope c1 = cx_scopes cx" for lhs rhs c1
      by (rule compiles_bind [OF _ _ compiles_assign], rule growing, rule g(5), (use size in simp), rule store) (use sc1 in simp)
    have "compiles ho rt C st (st @ [rhs]) (bind_c ?get (\<lambda>_. bind_c (assign_op_c op) (\<lambda>_. bind_c ?keep (\<lambda>_. ?store)))) c1
        (e_bind (e_bind (target_ref rt ho cx left) (get_value rt cx)) (\<lambda>lhs. e_bind (binary_value rt (assign_binary op) lhs rhs) ?put))
        (\<lambda>_ v. ?K v) (\<lambda>_ _. True)"
      if sc1: "bc_scope c1 = cx_scopes cx" for rhs c1
      by (rule compiles_bind [OF g(4) _ get [OF sc1]], rule g(6), rule op) (use sc1 in simp)
    then have "compiles ho rt C st st (bind_c (expr_c ho x True False) (\<lambda>_.
        bind_c ?get (\<lambda>_. bind_c (assign_op_c op) (\<lambda>_. bind_c ?keep (\<lambda>_. ?store))))) c
        (e_bind (ev rt ho cx x) (\<lambda>rhs. e_bind (e_bind (target_ref rt ho cx left) (get_value rt cx))
          (\<lambda>lhs. e_bind (binary_value rt (assign_binary op) lhs rhs) ?put))) (\<lambda>_ v. ?K v) (\<lambda>_ _. True)"
      by (intro compiles_bind [OF g(1) _ expr_used [OF x(1) _ sc]]) (use size sc in \<open>auto intro!: growing g target(1) simp del: steps.simps\<close>)
    then show ?thesis by (simp add: expr_c_assign(2) [OF False] ev_assign(2) [OF False] e_bind_assoc)
  qed
qed

section \<open>Expressions with jumps\<close>

lemma grows_choice:
  assumes "grows ho y"
  shows "grows ho (cjmp (\<lambda>jtrue. steps [emit OP_POP [] False, y, patch_cjmp True jtrue, pop_unless used]))"
    "grows ho (cjmp (\<lambda>jfalse. steps [emit OP_POP [] False, y,
       jmp (\<lambda>jend. steps [patch_cjmp False jfalse, patch_jmp jend, pop_unless used])]))"
  using assms
  by (auto simp: patch_cjmp_def patch_jmp_def intro!: grows_bind grows_cjmp growsfrom_bind growsfrom_jmp
      intro: growsfrom_patch grows_growsfrom growing order_trans)

lemma grows_cond:
  assumes "grows ho y" "grows ho z"
  shows "grows ho (cjmp (\<lambda>jelse. steps [y, jmp (\<lambda>jend. steps [patch_cjmp False jelse, z, patch_jmp jend])]))"
  using assms
  by (auto simp: patch_cjmp_def patch_jmp_def intro!: grows_bind grows_cjmp growsfrom_bind growsfrom_jmp
      intro: growsfrom_patch grows_growsfrom growing order_trans)

lemma ok_logical:
  assumes x: "expr_ok ho rt C cx x" "covered x" and y: "expr_ok ho rt C cx y" "covered y" and op: "op = LogicalOr \<or> op = LogicalAnd"
  shows "expr_ok ho rt C cx (Bin op x y)"
proof (rule expr_okI)
  fix used tail and c :: compiler and st :: "js_value list"
  assume sc: "bc_scope c = cx_scopes cx" and size: "length st + 2 * size (Bin op x y) + 3 \<le> rc_size C"
  let ?K = "\<lambda>v. if used then st @ [v] else st"
  note gy = covered_expr [OF y(2)]
  have "compiles ho rt C st (st @ [v]) (steps [emit OP_DUP [] False, choice]) c1 eff (\<lambda>_ v. ?K v) (\<lambda>_ _. True)"
    if "grows ho choice" "\<And>c2. bc_scope c2 = bc_scope c1 \<Longrightarrow> compiles ho rt C st (st @ [v, v]) choice c2 eff (\<lambda>_ v. ?K v) (\<lambda>_ _. True)"
    for v c1 choice eff
    unfolding steps.simps(2) [of "emit OP_DUP [] False"] steps_last
    by (rule compiles_move [OF _ _ moves_dup], rule growing, intro growing that(1), use size in simp, intro compiles_last that)
  then have after: "compiles ho rt C st st (steps [expr_c ho x True False, emit OP_DUP [] False, choice]) c (e_bind (ev rt ho cx x) eff)
      (\<lambda>_ v. ?K v) (\<lambda>_ _. True)"
    if "grows ho choice" "\<And>v c2. bc_scope c2 = bc_scope c \<Longrightarrow> compiles ho rt C st (st @ [v, v]) choice c2 (eff v) (\<lambda>_ v. ?K v) (\<lambda>_ _. True)"
    for choice eff
    unfolding steps.simps(2) [of "expr_c ho x True False"]
    by (intro compiles_bind [OF _ _ expr_used [OF x(1) _ sc]])
      (use size that in \<open>auto intro!: growing covered_expr x(2) simp del: steps.simps\<close>)
  show "compiles ho rt C st st (expr_c ho (Bin op x y) used tail) c (ev rt ho cx (Bin op x y)) (\<lambda>_ v. ?K v) (\<lambda>_ _. True)"
  proof (cases "op = LogicalOr")
    case True
    show ?thesis
      unfolding True expr_c_bin ev_bin
      by (rule after [OF grows_choice(1) [OF gy]], rule compiles_or [OF expr_used [OF y(1)] gy]) (use size sc in simp_all)
  next
    case False
    then have op: "op = LogicalAnd" using op by simp
    show ?thesis
      unfolding op expr_c_bin ev_bin
      by (rule after [OF grows_choice(2) [OF gy]], rule compiles_and [OF expr_used [OF y(1)] gy]) (use size sc in simp_all)
  qed
qed

lemma ok_bin:
  assumes x: "expr_ok ho rt C cx x" "covered x" and y: "expr_ok ho rt C cx y" "covered y"
  shows "expr_ok ho rt C cx (Bin op x y)"
proof (cases "op = LogicalOr \<or> op = LogicalAnd")
  case True
  then show ?thesis by (rule ok_logical [OF x y])
next
  case False
  then have op: "op \<noteq> LogicalOr" "op \<noteq> LogicalAnd" by auto
  show ?thesis
  proof (rule expr_okI)
    fix used tail and c :: compiler and st :: "js_value list"
    assume sc: "bc_scope c = cx_scopes cx" and size: "length st + 2 * size (Bin op x y) + 3 \<le> rc_size C"
    note gx = covered_expr [OF x(2)] and gy = covered_expr [OF y(2)]
    have "compiles ho rt C st (st @ [rhs]) (bind_c (expr_c ho x True False) (\<lambda>_. binary_op_c op)) c1
        (e_bind (ev rt ho cx x) (\<lambda>lhs. binary_value rt op lhs rhs)) (\<lambda>_ v. st @ [v]) (\<lambda>_ _. True)"
      if sc1: "bc_scope c1 = cx_scopes cx" for rhs c1
    proof (rule compiles_bind [OF gx _ expr_used [OF x(1) _ sc1]])
      show "compiles ho rt C st ((st @ [rhs]) @ [lhs]) (binary_op_c op) c2 (binary_value rt op lhs rhs) (\<lambda>_ v. st @ [v]) (\<lambda>_ _. True)"
        for lhs c2 using compiles_binary [of st C ho rt rhs lhs] size by simp
    qed (use size in \<open>auto intro: growing\<close>)
    then have "compiles ho rt C st st (bind_c (expr_c ho y True False) (\<lambda>_. bind_c (expr_c ho x True False) (\<lambda>_. binary_op_c op))) c
        (ev rt ho cx (Bin op x y)) (\<lambda>_ v. st @ [v]) (\<lambda>_ _. True)"
      unfolding ev_bin(3) [OF op]
      by (intro compiles_bind [OF gy _ expr_used [OF y(1) _ sc]]) (use size sc gx in \<open>auto intro!: growing\<close>)
    then have "compiles ho rt C st st (steps [bind_c (expr_c ho y True False) (\<lambda>_. bind_c (expr_c ho x True False) (\<lambda>_. binary_op_c op)),
        pop_unless used]) c (ev rt ho cx (Bin op x y)) (\<lambda>_ v. if used then st @ [v] else st) (\<lambda>_ _. True)"
      by (intro compiles_used grows_bind gx gy growing)
    then show "compiles ho rt C st st (expr_c ho (Bin op x y) used tail) c (ev rt ho cx (Bin op x y))
        (\<lambda>_ v. if used then st @ [v] else st) (\<lambda>_ _. True)"
      by (simp add: expr_c_bin(3) [OF op])
  qed
qed

lemma ok_cond:
  assumes x: "expr_ok ho rt C cx x" "covered x" and y: "expr_ok ho rt C cx y" "covered y" and z: "expr_ok ho rt C cx z" "covered z"
  shows "expr_ok ho rt C cx (Cond x y z)"
proof (rule expr_okI)
  fix used tail and c :: compiler and st :: "js_value list"
  assume sc: "bc_scope c = cx_scopes cx" and size: "length st + 2 * size (Cond x y z) + 3 \<le> rc_size C"
  let ?K = "\<lambda>v. if used then st @ [v] else st"
  let ?jumps = "cjmp (\<lambda>jelse. steps [expr_c ho y used tail,
      jmp (\<lambda>jend. steps [patch_cjmp False jelse, expr_c ho z used tail, patch_jmp jend])])"
  note gy = covered_expr [OF y(2)] and gz = covered_expr [OF z(2)]
  have gj: "grows ho ?jumps" by (rule grows_cond [OF gy gz])
  have run: "compiles ho rt C st st (expr_c ho e used tail) c1 (ev rt ho cx e) (\<lambda>_ v. ?K v) (\<lambda>_ _. True)"
    if "expr_ok ho rt C cx e" "size e \<le> size (Cond x y z)" "bc_scope c1 = cx_scopes cx" for e c1
    by (rule that(1) [unfolded expr_ok_def, rule_format, OF _ that(3)]) (use size that(2) in simp_all)
  have "compiles ho rt C st (st @ [v]) ?jumps c1
      (\<lambda>s. if to_boolean (cells_of rt s) v then ev rt ho cx y s else ev rt ho cx z s) (\<lambda>_ v. ?K v) (\<lambda>_ _. True)"
    if sc1: "bc_scope c1 = cx_scopes cx" for v c1
    by (rule compiles_cond [OF run [OF y(1)] gy run [OF z(1)] gz]) (use sc1 in simp_all)
  then show "compiles ho rt C st st (expr_c ho (Cond x y z) used tail) c (ev rt ho cx (Cond x y z)) (\<lambda>_ v. ?K v) (\<lambda>_ _. True)"
    unfolding expr_c_eqs ev_eqs steps.simps(2) [of "expr_c ho x True False"] steps_last
    by (intro compiles_bind [OF _ _ expr_used [OF x(1) _ sc]] compiles_last gj)
      (use size sc gj in \<open>auto intro!: growing covered_expr x(2) simp del: steps.simps\<close>)
qed

section \<open>All of them\<close>

lemma covered_ok:
  assumes m: "matches rt C cx"
  shows "covered e \<Longrightarrow> expr_ok ho rt C cx e \<and> access_ok ho rt C cx e"
proof (induction e rule: covered.induct)
  case (1 n)
  then show ?case using ok_ident [OF m] by blast
next
  case (2 l)
  then show ?case by (simp add: ok_lit access_nyi compile_access_eqs)
next
  case 3
  then show ?case using ok_this [OF m] by blast
next
  case (4 x p cmp)
  then show ?case by (simp add: ok_member [OF m])
next
  case (5 op x)
  then show ?case by (simp add: ok_unary access_nyi compile_access_eqs)
next
  case (6 upd pre x)
  then show ?case by (simp add: ok_update [OF m] access_nyi compile_access_eqs)
next
  case (7 op n x)
  then show ?case by (simp add: ok_assign [OF m] target_ok_name [OF m] access_nyi compile_access_eqs)
next
  case (8 op e x)
  then show ?case by (simp add: ok_assign [OF m] target_ok_access access_nyi compile_access_eqs)
next
  case (9 op x y)
  then show ?case by (simp add: ok_bin access_nyi compile_access_eqs)
next
  case (10 x y z)
  then show ?case by (simp add: ok_cond access_nyi compile_access_eqs)
next
  case (11 x)
  then show ?case by (simp add: ok_paren access_nyi compile_access_eqs)
qed simp_all

end
