(* ===== verification/Standard_Evaluation.thy ===== *)
theory Standard_Evaluation
  imports Compile_Correct
begin

text \<open>
  The evaluation of expressions in the order of the standard: the operands of an operator from left to
  right, the target of an assignment before the value, and the target of a compound assignment once.
  What the operators, the conversions and the accesses of properties do is up to the runtime. Where the
  standard and the engine differ in the store of a value, or where the standard has more to say than the
  runtime shows, there is no value: an assignment to a property of a value that is no object (which the
  engine drops) and, in strict mode, to a global name (which must exist). Calls, functions, literals
  of objects, arrays and regular expressions, sequences, \<open>delete\<close> and the unary plus are outside.
\<close>

section \<open>Evaluation\<close>

definition std_put :: "'w runtime \<Rightarrow> eval_context \<Rightarrow> reference \<Rightarrow> js_value \<Rightarrow> (unit, 'w) effect" where
  "std_put rt cx r v =
     (case r of
        RVariable _ _ \<Rightarrow> put_value rt cx r v
      | RGlobal _ \<Rightarrow> if cx_strict cx then e_panic
          else (\<lambda>s. if is_jsobject rt s (rt_global rt (so_world s)) then put_value rt cx r v s else None)
      | RById object _ \<Rightarrow> (\<lambda>s. if is_jsobject rt s object then put_value rt cx r v s else None)
      | RByVal object _ \<Rightarrow> (\<lambda>s. if is_jsobject rt s object then put_value rt cx r v s else None)
      | RThis \<Rightarrow> e_panic)"

text \<open>An identifier, in parentheses or not: \<open>typeof\<close> of a global name that does not exist is no error.\<close>

fun bare_name :: "'f expr \<Rightarrow> string option" where
  "bare_name (Ident n) = Some n"
| "bare_name (Paren e) = bare_name e"
| "bare_name _ = None"

definition std_name :: "'w runtime \<Rightarrow> compiler_host \<Rightarrow> eval_context \<Rightarrow> bool \<Rightarrow> string \<Rightarrow> (js_value, 'w) effect" where
  "std_name rt ho cx must_exist n =
     (case name_ref ho cx n of
        RGlobal x \<Rightarrow>
          if n = ''undefined'' then e_return encode_undefined_value
          else e_bind (e_store (\<lambda>s. rt_global rt (so_world s))) (\<lambda>g. rt_get_by_id rt 0 0 must_exist x g)
      | r \<Rightarrow> get_value rt cx r)"

definition std_update :: "'w runtime \<Rightarrow> update_op \<Rightarrow> f64 \<Rightarrow> f64" where
  "std_update rt op x = (case op of PlusPlus \<Rightarrow> rt_add rt x 0x3ff0000000000000 | MinusMinus \<Rightarrow> rt_sub rt x 0x3ff0000000000000)"

function std :: "'w runtime \<Rightarrow> compiler_host \<Rightarrow> eval_context \<Rightarrow> 'f expr \<Rightarrow> (js_value, 'w) effect"
  and std_ref :: "'w runtime \<Rightarrow> compiler_host \<Rightarrow> eval_context \<Rightarrow> 'f expr \<Rightarrow> (reference, 'w) effect"
where
  "std rt ho cx e =
     (case e of
        Ident n \<Rightarrow> std_name rt ho cx True n
      | Lit l \<Rightarrow>
          (case l of LitRegex _ _ \<Rightarrow> e_panic
           | _ \<Rightarrow> (case literal_value ho l of Some v \<Rightarrow> e_return v | None \<Rightarrow> e_panic))
      | This \<Rightarrow> e_return (cx_this cx)
      | Member _ _ _ \<Rightarrow> e_bind (std_ref rt ho cx e) (get_value rt cx)
      | Unary op x \<Rightarrow>
          if op = UDelete \<or> op = UPlus then e_panic
          else e_bind (case (if op = UTypeOf then bare_name x else None) of
              Some n \<Rightarrow> std_name rt ho cx False n | None \<Rightarrow> std rt ho cx x) (unary_value rt op)
      | Update op pre x \<Rightarrow>
          e_bind (std_ref rt ho cx x) (\<lambda>r. e_bind (get_value rt cx r) (\<lambda>v. e_bind (to_number rt v) (\<lambda>old.
            let new = from_f64 (std_update rt op old) in
            e_bind (std_put rt cx r new) (\<lambda>_. e_return (if pre then new else from_f64 old)))))
      | AssignExpr op left right \<Rightarrow>
          e_bind (case left of PatIdent n \<Rightarrow> e_return (name_ref ho cx n) | PatExpr x \<Rightarrow> std_ref rt ho cx x | OtherPat \<Rightarrow> e_panic) (\<lambda>r.
            if op = Assign
            then e_bind (std rt ho cx right) (\<lambda>v. e_bind (std_put rt cx r v) (\<lambda>_. e_return v))
            else e_bind (get_value rt cx r) (\<lambda>lhs. e_bind (std rt ho cx right) (\<lambda>rhs.
              e_bind (binary_value rt (assign_binary op) lhs rhs) (\<lambda>v. e_bind (std_put rt cx r v) (\<lambda>_. e_return v)))))
      | Bin op left right \<Rightarrow>
          e_bind (std rt ho cx left) (\<lambda>lhs s.
            if op = LogicalOr then (if to_boolean (cells_of rt s) lhs then Some (Inr lhs, s) else std rt ho cx right s)
            else if op = LogicalAnd then (if to_boolean (cells_of rt s) lhs then std rt ho cx right s else Some (Inr lhs, s))
            else e_bind (std rt ho cx right) (\<lambda>rhs. binary_value rt op lhs rhs) s)
      | Cond test cons alt \<Rightarrow>
          e_bind (std rt ho cx test) (\<lambda>v s. if to_boolean (cells_of rt s) v then std rt ho cx cons s else std rt ho cx alt s)
      | Paren x \<Rightarrow> std rt ho cx x
      | _ \<Rightarrow> e_panic)"
| "std_ref rt ho cx e =
     (case e of
        Ident n \<Rightarrow> e_return (name_ref ho cx n)
      | Member (Some x) prop computed \<Rightarrow>
          e_bind (std rt ho cx x) (\<lambda>object.
            (case (if computed then None else member_name prop) of
               Some n \<Rightarrow> e_return (RById object (ho_intern ho n))
             | None \<Rightarrow> e_bind (std rt ho cx prop) (\<lambda>key. e_return (RByVal object key))))
      | Paren x \<Rightarrow> std_ref rt ho cx x
      | _ \<Rightarrow> e_panic)"
  by pat_completeness auto
termination
  by (relation "measure (\<lambda>x. case x of Inl (_, _, _, e) \<Rightarrow> 2 * size e + 1 | Inr (_, _, _, e) \<Rightarrow> 2 * size e)") auto

section \<open>Where the order cannot be seen\<close>

text \<open>
  \<open>constant_expr\<close>: the value does not depend on the store. \<open>silent\<close>: the evaluation has no effect and throws
  nothing. \<open>regular\<close>: the order of evaluation of the engine gives what the order of the standard gives.
  The update operators are not regular (\<open>--\<close> computes 1 - x), nor is \<open>typeof\<close> of a global name (it throws
  when the name does not exist), a variable called \<open>undefined\<close> (the engine does not look it up), or a regular
  expression (the engine makes one object for all evaluations).
\<close>

definition local_name :: "compiler_host \<Rightarrow> eval_context \<Rightarrow> string \<Rightarrow> bool" where
  "local_name ho cx n = (case name_ref ho cx n of RGlobal _ \<Rightarrow> False | _ \<Rightarrow> True)"

fun constant_expr :: "compiler_host \<Rightarrow> eval_context \<Rightarrow> 'f expr \<Rightarrow> bool" where
  "constant_expr ho cx (Ident n) = (n = ''undefined'' \<and> \<not> local_name ho cx n)"
| "constant_expr ho cx (Lit l) = (literal_value ho l \<noteq> None)"
| "constant_expr ho cx This = True"
| "constant_expr ho cx (Paren e) = constant_expr ho cx e"
| "constant_expr ho cx _ = False"

fun silent :: "compiler_host \<Rightarrow> eval_context \<Rightarrow> 'f expr \<Rightarrow> bool" where
  "silent ho cx (Ident n) = (local_name ho cx n \<or> n = ''undefined'')"
| "silent ho cx (Lit l) = True"
| "silent ho cx This = True"
| "silent ho cx (Paren e) = silent ho cx e"
| "silent ho cx (Unary op e) = ((op = UBang \<or> op = UVoid) \<and> silent ho cx e)"
| "silent ho cx (Bin op x y) = (op \<in> {LogicalOr, LogicalAnd, EqEqEq, NotEqEq} \<and> silent ho cx x \<and> silent ho cx y)"
| "silent ho cx (Cond x y z) = (silent ho cx x \<and> silent ho cx y \<and> silent ho cx z)"
| "silent ho cx _ = False"

text \<open>The parts of a target that are evaluated.\<close>

fun target_parts :: "'f expr \<Rightarrow> 'f expr list" where
  "target_parts (Member (Some x) prop computed) = (if \<not> computed \<and> member_name prop \<noteq> None then [x] else [x, prop])"
| "target_parts _ = []"

definition regular_target :: "compiler_host \<Rightarrow> eval_context \<Rightarrow> bool \<Rightarrow> 'f expr pat \<Rightarrow> 'f expr \<Rightarrow> bool" where
  "regular_target ho cx plain left right =
     (case left of
        PatIdent n \<Rightarrow> plain \<or> constant_expr ho cx right \<or> local_name ho cx n \<and> silent ho cx right
      | PatExpr x \<Rightarrow>
          if plain then constant_expr ho cx right \<or> list_all (constant_expr ho cx) (target_parts x) \<or>
            list_all (silent ho cx) (target_parts x) \<and> silent ho cx right
          else constant_expr ho cx right \<and> list_all (constant_expr ho cx) (target_parts x)
      | OtherPat \<Rightarrow> False)"

function regular :: "compiler_host \<Rightarrow> eval_context \<Rightarrow> 'f expr \<Rightarrow> bool" where
  "regular ho cx e =
     (case e of
        Ident n \<Rightarrow> n = ''undefined'' \<longrightarrow> \<not> local_name ho cx n
      | Lit l \<Rightarrow> (case l of LitRegex _ _ \<Rightarrow> False | _ \<Rightarrow> True)
      | This \<Rightarrow> True
      | Member (Some x) prop computed \<Rightarrow> regular ho cx x \<and> (computed \<or> member_name prop = None \<longrightarrow> regular ho cx prop)
      | Unary op x \<Rightarrow> regular ho cx x \<and>
          (case bare_name x of Some n \<Rightarrow> op = UTypeOf \<longrightarrow> local_name ho cx n \<or> n = ''undefined'' | None \<Rightarrow> True)
      | AssignExpr op left right \<Rightarrow> regular ho cx right \<and> regular_target ho cx (op = Assign) left right \<and>
          (case left of PatExpr x \<Rightarrow> (case x of Member _ _ _ \<Rightarrow> regular ho cx x | _ \<Rightarrow> False) | _ \<Rightarrow> True)
      | Bin op x y \<Rightarrow> regular ho cx x \<and> regular ho cx y \<and>
          (op = LogicalOr \<or> op = LogicalAnd \<or> constant_expr ho cx x \<or> constant_expr ho cx y \<or> silent ho cx x \<and> silent ho cx y)
      | Cond x y z \<Rightarrow> regular ho cx x \<and> regular ho cx y \<and> regular ho cx z
      | Paren x \<Rightarrow> regular ho cx x
      | _ \<Rightarrow> False)"
  by pat_completeness auto
termination by (relation "measure (\<lambda>(_, _, e). size e)") auto

declare std.simps [simp del] std_ref.simps [simp del] regular.simps [simp del]

section \<open>Refinement\<close>

text \<open>Where the evaluation of the standard has a value or throws, the other one does the same.\<close>

definition refines :: "('a, 'w) effect \<Rightarrow> ('a, 'w) effect \<Rightarrow> bool" where
  "refines f g \<longleftrightarrow> (\<forall>s. f s = None \<or> f s = g s)"
definition has_no_effect :: "('a, 'w) effect \<Rightarrow> bool" where
  "has_no_effect f \<longleftrightarrow> (\<forall>s. f s = None \<or> (\<exists>v. f s = Some (Inr v, s)))"

named_theorems refining \<open>refinement of effects\<close>

lemma refines_refl [refining, simp]: "refines f f" and refines_panic [refining]: "refines e_panic f"
  by (simp_all add: refines_def e_panic_def)

lemma refines_bind [refining]:
  assumes "refines f f'" "\<And>x. refines (k x) (k' x)"
  shows "refines (e_bind f k) (e_bind f' k')"
  unfolding refines_def
proof
  fix s
  consider "f s = None" | e s' where "f s = Some (Inl e, s')" | x s' where "f s = Some (Inr x, s')"
    by (metis option.exhaust sum.exhaust surj_pair)
  then show "e_bind f k s = None \<or> e_bind f k s = e_bind f' k' s"
  proof cases
    case 2
    then have "f' s = Some (Inl e, s')" using assms(1) by (metis option.distinct(1) refines_def)
    with 2 show ?thesis by (simp add: e_bind_def)
  next
    case (3 x s')
    then have "f' s = Some (Inr x, s')" using assms(1) by (metis option.distinct(1) refines_def)
    with 3 assms(2) [of x] show ?thesis by (simp add: e_bind_def refines_def)
  qed (simp add: e_bind_def)
qed

lemma refines_if [refining]:
  "refines f f' \<Longrightarrow> refines g g' \<Longrightarrow> refines (\<lambda>s. if b s then f s else g s) (\<lambda>s. if b s then f' s else g' s)"
  by (simp add: refines_def)

lemma refines_trans: "refines f g \<Longrightarrow> refines g h \<Longrightarrow> refines f h"
  unfolding refines_def by metis

lemma refines_guard: "refines (\<lambda>s. if b s then f s else None) f"
  by (simp add: refines_def)

lemma refines_put [refining]: "refines (std_put rt cx r v) (put_value rt cx r v)"
  by (cases r) (simp_all add: std_put_def refines_guard refining)

lemma return_bind: "e_bind (e_return v) k = k v"
  by (simp add: e_bind_def e_return_def fun_eq_iff)

lemma bind_assoc: "e_bind (e_bind f g) h = e_bind f (\<lambda>x. e_bind (g x) h)"
  by (simp add: e_bind_def fun_eq_iff split: option.split sum.split)

lemma swap_silent:
  assumes "has_no_effect f" "has_no_effect g"
  shows "e_bind f (\<lambda>x. e_bind g (k x)) = e_bind g (\<lambda>y. e_bind f (\<lambda>x. k x y))"
proof
  fix s
  have "f s = None \<or> (\<exists>v. f s = Some (Inr v, s))" "g s = None \<or> (\<exists>v. g s = Some (Inr v, s))"
    using assms by (simp_all add: has_no_effect_def)
  then show "e_bind f (\<lambda>x. e_bind g (k x)) s = e_bind g (\<lambda>y. e_bind f (\<lambda>x. k x y)) s"
    by (auto simp: e_bind_def)
qed

lemma swap_return: "e_bind (e_return v) (\<lambda>x. e_bind g (k x)) = e_bind g (k v)"
  by (simp add: return_bind)

section \<open>Constants and silent expressions\<close>

lemma constant_value: "constant_expr ho cx e \<Longrightarrow> \<exists>v. ev rt ho cx e = e_return v"
  by (induction ho cx e rule: constant_expr.induct) (auto simp: ev_eqs)

lemma no_effect_bind:
  assumes "has_no_effect f" "\<And>v. has_no_effect (k v)"
  shows "has_no_effect (e_bind f k)"
  unfolding has_no_effect_def
proof
  fix s
  have "f s = None \<or> (\<exists>v. f s = Some (Inr v, s))" using assms(1) by (simp add: has_no_effect_def)
  then show "e_bind f k s = None \<or> (\<exists>v. e_bind f k s = Some (Inr v, s))"
  proof (elim disjE exE)
    fix v assume "f s = Some (Inr v, s)"
    then show ?thesis using assms(2) [of v] by (simp add: e_bind_def has_no_effect_def)
  qed (simp add: e_bind_def)
qed

lemma no_effect_if: "has_no_effect f \<Longrightarrow> has_no_effect g \<Longrightarrow> has_no_effect (\<lambda>s. if b s then f s else g s)"
  by (simp add: has_no_effect_def)

lemma no_effect_simple: "has_no_effect (e_return v)" "has_no_effect e_panic" "has_no_effect (\<lambda>s. Some (Inr v, s))"
  by (simp_all add: has_no_effect_def e_return_def e_panic_def)

lemma silent_no_effect: "silent ho cx e \<Longrightarrow> has_no_effect (ev rt ho cx e)"
proof (induction ho cx e rule: silent.induct)
  case (1 ho cx n)
  have "has_no_effect (get_value rt cx (RVariable ix d))" for ix d
    by (auto simp: get_value_def has_no_effect_def e_bind_def variable_env_def e_return_def e_panic_def split: option.split)
  then show ?case using 1
    by (auto simp: ev_eqs local_name_def name_ref_def no_effect_simple split: access.splits)
next
  case (2 ho cx l)
  then show ?case by (simp add: ev_eqs no_effect_simple split: option.split)
next
  case (5 ho cx op e)
  have u: "op = UBang \<or> op = UVoid" and h: "has_no_effect (ev rt ho cx e)" using 5 by simp_all
  have "has_no_effect (unary_value rt op v)" for v using u
    by (auto simp: unary_value_def has_no_effect_def op_logical_not_def e_return_def)
  then show ?case using u by (subst ev_eqs) (auto intro: no_effect_bind h)
next
  case (6 ho cx op x y)
  then have o: "op \<in> {LogicalOr, LogicalAnd, EqEqEq, NotEqEq}" and h: "has_no_effect (ev rt ho cx x)" "has_no_effect (ev rt ho cx y)" by simp_all
  have eq: "has_no_effect (op_stricteq rt b v w)" for b v w by (simp add: has_no_effect_def op_stricteq_def e_return_def Let_def)
  from o show ?case
    by (auto simp: ev_bin binary_value_def intro!: no_effect_bind no_effect_if no_effect_simple h eq)
next
  case (7 ho cx x y z)
  then show ?case by (simp add: ev_eqs) (intro no_effect_bind no_effect_if; simp)
qed (simp_all add: ev_eqs no_effect_simple)

section \<open>The engine and the standard\<close>

lemma std_eqs:
  "std rt ho cx (Ident n) = std_name rt ho cx True n"
  "std rt ho cx (Lit l) = (case l of LitRegex _ _ \<Rightarrow> e_panic
     | _ \<Rightarrow> (case literal_value ho l of Some v \<Rightarrow> e_return v | None \<Rightarrow> e_panic))"
  "std rt ho cx This = e_return (cx_this cx)"
  "std rt ho cx (Member obj p cmp) = e_bind (std_ref rt ho cx (Member obj p cmp)) (get_value rt cx)"
  "std rt ho cx (Unary uop x) = (if uop = UDelete \<or> uop = UPlus then e_panic
     else e_bind (case (if uop = UTypeOf then bare_name x else None) of
       Some n \<Rightarrow> std_name rt ho cx False n | None \<Rightarrow> std rt ho cx x) (unary_value rt uop))"
  "std rt ho cx (Cond x y z) =
     e_bind (std rt ho cx x) (\<lambda>v s. if to_boolean (cells_of rt s) v then std rt ho cx y s else std rt ho cx z s)"
  "std rt ho cx (Paren x) = std rt ho cx x"
  by (subst std.simps, simp)+

definition std_target :: "'w runtime \<Rightarrow> compiler_host \<Rightarrow> eval_context \<Rightarrow> 'f expr pat \<Rightarrow> (reference, 'w) effect" where
  "std_target rt ho cx left =
     (case left of PatIdent n \<Rightarrow> e_return (name_ref ho cx n) | PatExpr x \<Rightarrow> std_ref rt ho cx x | OtherPat \<Rightarrow> e_panic)"

lemma std_assign:
  "std rt ho cx (AssignExpr Assign left right) =
     e_bind (std_target rt ho cx left) (\<lambda>r. e_bind (std rt ho cx right) (\<lambda>v. e_bind (std_put rt cx r v) (\<lambda>_. e_return v)))"
  "op \<noteq> Assign \<Longrightarrow> std rt ho cx (AssignExpr op left right) =
     e_bind (std_target rt ho cx left) (\<lambda>r. e_bind (get_value rt cx r) (\<lambda>lhs. e_bind (std rt ho cx right) (\<lambda>rhs.
       e_bind (binary_value rt (assign_binary op) lhs rhs) (\<lambda>v. e_bind (std_put rt cx r v) (\<lambda>_. e_return v)))))"
  by (subst std.simps, simp add: std_target_def)+

lemma std_bin:
  "std rt ho cx (Bin LogicalOr x y) =
     e_bind (std rt ho cx x) (\<lambda>v s. if to_boolean (cells_of rt s) v then Some (Inr v, s) else std rt ho cx y s)"
  "std rt ho cx (Bin LogicalAnd x y) =
     e_bind (std rt ho cx x) (\<lambda>v s. if to_boolean (cells_of rt s) v then std rt ho cx y s else Some (Inr v, s))"
  "op \<noteq> LogicalOr \<Longrightarrow> op \<noteq> LogicalAnd \<Longrightarrow>
   std rt ho cx (Bin op x y) = e_bind (std rt ho cx x) (\<lambda>lhs. e_bind (std rt ho cx y) (\<lambda>rhs. binary_value rt op lhs rhs))"
  by (subst std.simps, simp)+

lemma std_ref_member:
  "std_ref rt ho cx (Member (Some x) p cmp) =
     e_bind (std rt ho cx x) (\<lambda>object. (case (if cmp then None else member_name p) of
        Some n \<Rightarrow> e_return (RById object (ho_intern ho n))
      | None \<Rightarrow> e_bind (std rt ho cx p) (\<lambda>key. e_return (RByVal object key))))"
  by (subst std_ref.simps) simp

lemma std_name_known: "local_name ho cx n \<or> n = ''undefined'' \<Longrightarrow> std_name rt ho cx b n = std_name rt ho cx True n"
  by (auto simp: std_name_def local_name_def split: reference.split)

lemma std_name_ident:
  assumes "n = ''undefined'' \<longrightarrow> \<not> local_name ho cx n"
  shows "refines (std_name rt ho cx True n) (ev rt ho cx (Ident n))"
  using assms by (auto simp: std_name_def ev_eqs local_name_def get_value_def split: reference.splits)

lemma bare_value:
  "bare_name x = Some n \<Longrightarrow> std rt ho cx x = std_name rt ho cx True n"
  by (induction x rule: bare_name.induct) (auto simp: std_eqs)

text \<open>A target whose parts are constant is a constant reference, one whose parts are silent has no effect.\<close>

lemma constant_target:
  assumes "list_all (constant_expr ho cx) (target_parts x)" "\<exists>u p b. x = Member (Some u) p b"
  shows "\<exists>r. ev_ref rt ho cx x = e_return r"
proof -
  obtain y p b where x: "x = Member (Some y) p b" using assms(2) by blast
  have "constant_expr ho cx y" using assms(1) x by (simp split: if_splits)
  from constant_value [OF this] obtain v where v: "ev rt ho cx y = e_return v" by blast
  show ?thesis
  proof (cases "if b then None else member_name p")
    case None
    then have "constant_expr ho cx p" using assms(1) x by (auto split: if_splits)
    from constant_value [OF this] obtain w where "ev rt ho cx p = e_return w" by blast
    then show ?thesis using x v None by (auto simp: ev_ref_eqs return_bind)
  next
    case (Some n)
    then show ?thesis using x v by (auto simp: ev_ref_eqs return_bind)
  qed
qed

lemma silent_target:
  assumes "list_all (silent ho cx) (target_parts x)" "x = Member (Some y) p b"
  shows "has_no_effect (ev_ref rt ho cx x)"
proof -
  have y: "has_no_effect (ev rt ho cx y)" using assms silent_no_effect by (auto split: if_splits)
  show ?thesis
  proof (cases "if b then None else member_name p")
    case None
    then have "has_no_effect (ev rt ho cx p)" using assms silent_no_effect by (auto split: if_splits)
    then show ?thesis using assms(2) None y by (auto simp: ev_ref_eqs intro!: no_effect_bind no_effect_simple)
  next
    case (Some n)
    then show ?thesis using assms(2) y by (auto simp: ev_ref_eqs intro!: no_effect_bind no_effect_simple)
  qed
qed

lemma refines_constant:
  assumes "refines f (e_return v)" "\<And>y. refines (k y) (k' y)"
  shows "refines (e_bind f k) (k' v)"
  using refines_bind [OF assms] by (simp add: return_bind)

text \<open>The order of two evaluations, one of them constant or both without effect.\<close>

lemma refines_swap:
  assumes f: "refines f f'" and g: "refines g g'" and k: "\<And>x y. refines (k x y) (k' x y)"
    and free: "(\<exists>v. f' = e_return v) \<or> (\<exists>w. g' = e_return w) \<or> has_no_effect f' \<and> has_no_effect g'"
  shows "refines (e_bind f (\<lambda>x. e_bind g (k x))) (e_bind g' (\<lambda>y. e_bind f' (\<lambda>x. k' x y)))"
proof -
  have "refines (e_bind f (\<lambda>x. e_bind g (k x))) (e_bind f' (\<lambda>x. e_bind g' (k' x)))" by (intro refines_bind f g k)
  moreover have "e_bind f' (\<lambda>x. e_bind g' (k' x)) = e_bind g' (\<lambda>y. e_bind f' (\<lambda>x. k' x y))"
    using free swap_silent [of f' g' k'] by (auto simp: return_bind)
  ultimately show ?thesis by simp
qed

lemma target_refines:
  assumes "\<And>x. left = PatExpr x \<Longrightarrow> refines (std_ref rt ho cx x) (ev_ref rt ho cx x)"
  shows "refines (std_target rt ho cx left) (target_ref rt ho cx left)"
  using assms by (cases left) (simp_all add: std_target_def target_ref_def refining)

lemma local_get: "local_name ho cx n \<Longrightarrow> has_no_effect (get_value rt cx (name_ref ho cx n))"
  using silent_no_effect [of ho cx "Ident n" rt]
  by (auto simp: ev_eqs local_name_def name_ref_def get_value_def has_no_effect_def e_bind_def variable_env_def e_return_def e_panic_def
      split: access.splits option.splits)

text \<open>An assignment whose target and value can be evaluated in either order.\<close>

lemma assign_refines:
  assumes t: "refines (std_target rt ho cx left) (target_ref rt ho cx left)" and r: "refines (std rt ho cx right) (ev rt ho cx right)"
    and reg: "regular_target ho cx True left right" and m: "\<And>x. left = PatExpr x \<Longrightarrow> \<exists>u p b. x = Member (Some u) p b"
  shows "refines (std rt ho cx (AssignExpr Assign left right)) (ev rt ho cx (AssignExpr Assign left right))"
  unfolding std_assign ev_assign
proof (rule refines_swap [OF t r])
  show "(\<exists>v. target_ref rt ho cx left = e_return v) \<or> (\<exists>w. ev rt ho cx right = e_return w) \<or>
      has_no_effect (target_ref rt ho cx left) \<and> has_no_effect (ev rt ho cx right)"
  proof (cases left)
    case (PatExpr x)
    have "constant_expr ho cx right \<Longrightarrow> \<exists>w. ev rt ho cx right = e_return w" using constant_value by blast
    moreover have "list_all (constant_expr ho cx) (target_parts x) \<Longrightarrow> \<exists>v. ev_ref rt ho cx x = e_return v"
      using constant_target [OF _ m [OF PatExpr]] by blast
    moreover have "list_all (silent ho cx) (target_parts x) \<Longrightarrow> has_no_effect (ev_ref rt ho cx x)"
      using silent_target m [OF PatExpr] by blast
    ultimately show ?thesis using reg PatExpr silent_no_effect by (auto simp: regular_target_def target_ref_def)
  qed (use reg in \<open>auto simp: regular_target_def target_ref_def\<close>)
qed (intro refining)

lemma compound_refines:
  assumes t: "refines (std_target rt ho cx left) (target_ref rt ho cx left)" and r: "refines (std rt ho cx right) (ev rt ho cx right)"
    and reg: "regular_target ho cx False left right" and m: "\<And>x. left = PatExpr x \<Longrightarrow> \<exists>u p b. x = Member (Some u) p b" and op: "op \<noteq> Assign"
  shows "refines (std rt ho cx (AssignExpr op left right)) (ev rt ho cx (AssignExpr op left right))"
proof -
  obtain q where q: "target_ref rt ho cx left = e_return q"
  proof (cases left)
    case (PatExpr x)
    then show ?thesis using that reg constant_target [OF _ m [OF PatExpr]] by (auto simp: regular_target_def target_ref_def; blast)
  qed (use reg that in \<open>auto simp: regular_target_def target_ref_def\<close>)
  have free: "(\<exists>v. get_value rt cx q = e_return v) \<or> (\<exists>w. ev rt ho cx right = e_return w) \<or>
      has_no_effect (get_value rt cx q) \<and> has_no_effect (ev rt ho cx right)"
  proof (cases left)
    case (PatIdent n)
    then have qn: "q = name_ref ho cx n" using q by (simp add: target_ref_def e_return_def fun_eq_iff)
    show ?thesis using reg PatIdent qn constant_value [of ho cx right rt] local_get silent_no_effect
      by (auto simp: regular_target_def)
  next
    case (PatExpr x)
    then show ?thesis using reg constant_value [of ho cx right rt] by (auto simp: regular_target_def)
  qed (use reg in \<open>simp add: regular_target_def\<close>)
  let ?k = "\<lambda>lhs rhs. e_bind (binary_value rt (assign_binary op) lhs rhs) (\<lambda>v. e_bind (put_value rt cx q v) (\<lambda>_. e_return v))"
  have e: "ev rt ho cx (AssignExpr op left right) = e_bind (ev rt ho cx right) (\<lambda>rhs. e_bind (get_value rt cx q) (\<lambda>lhs. ?k lhs rhs))"
    unfolding ev_assign(2) [OF op] q return_bind ..
  let ?f = "\<lambda>q. e_bind (get_value rt cx q) (\<lambda>lhs. e_bind (std rt ho cx right) (\<lambda>rhs.
      e_bind (binary_value rt (assign_binary op) lhs rhs) (\<lambda>v. e_bind (std_put rt cx q v) (\<lambda>_. e_return v))))"
  have "refines (e_bind (std_target rt ho cx left) ?f) (e_bind (e_return q) ?f)"
    unfolding q [symmetric] by (rule refines_bind [OF t refines_refl])
  moreover have "refines (?f q) (ev rt ho cx (AssignExpr op left right))"
    unfolding e by (rule refines_swap [OF refines_refl r _ free]) (intro refining)
  ultimately show ?thesis unfolding std_assign(2) [OF op] return_bind by (rule refines_trans)
qed

lemma regular_super: "\<not> regular ho cx (Member None p b)"
  by (subst regular.simps) simp

lemma regular_refines:
  fixes e :: "'f expr"
  shows "regular ho cx e \<Longrightarrow> refines (std rt ho cx e) (ev rt ho cx e) \<and>
     ((\<exists>u p b. e = Member (Some u) p b) \<longrightarrow> refines (std_ref rt ho cx e) (ev_ref rt ho cx e))"
proof (induction e rule: measure_induct_rule [of size])
  case (less e)
  note reg = less.prems [unfolded regular.simps [of ho cx e]]
  have IH: "refines (std rt ho cx x) (ev rt ho cx x)" if "size x < size e" "regular ho cx x" for x :: "'f expr"
    using less.IH [OF that] by simp
  show ?case
  proof (cases e)
    case (Ident n)
    then show ?thesis using reg std_name_ident by (simp add: std_eqs)
  next
    case (Lit l)
    then show ?thesis by (auto simp: std_eqs ev_eqs refining split: lit.split)
  next
    case This
    then show ?thesis by (simp add: std_eqs ev_eqs)
  next
    case (Member obj p b)
    then obtain u where u: "obj = Some u" using reg by (cases obj) simp_all
    have x: "refines (std rt ho cx u) (ev rt ho cx u)" using reg Member u by (intro IH) auto
    have k: "refines (std rt ho cx p) (ev rt ho cx p)" if "(if b then None else member_name p) = None"
      using reg Member u that by (intro IH) (auto split: if_splits)
    have "refines (std_ref rt ho cx e) (ev_ref rt ho cx e)"
    proof (cases "if b then None else member_name p")
      case None
      then show ?thesis unfolding Member u std_ref_member ev_ref_eqs by (simp only: option.case) (intro refining x k [OF None])
    next
      case (Some n)
      then show ?thesis unfolding Member u std_ref_member ev_ref_eqs by (simp only: option.case) (intro refining x)
    qed
    then show ?thesis unfolding Member std_eqs ev_eqs by (auto intro: refining)
  next
    case (Unary op x)
    have r: "regular ho cx x" using reg Unary by simp
    have "refines (case (if op = UTypeOf then bare_name x else None) of Some n \<Rightarrow> std_name rt ho cx False n | None \<Rightarrow> std rt ho cx x) (ev rt ho cx x)"
    proof (cases "op = UTypeOf \<and> (\<exists>n. bare_name x = Some n)")
      case True
      then obtain n where n: "op = UTypeOf" "bare_name x = Some n" by blast
      have "local_name ho cx n \<or> n = ''undefined''" using reg Unary n by simp
      then have "std_name rt ho cx False n = std rt ho cx x" using std_name_known [of ho cx n rt False] bare_value [OF n(2), of rt ho cx] by simp
      then show ?thesis using n IH [OF _ r] Unary by simp
    next
      case False
      then show ?thesis using IH [OF _ r] Unary by (cases "bare_name x") auto
    qed
    then show ?thesis unfolding Unary std_eqs
      by (cases "op = UDelete \<or> op = UPlus") (auto simp: ev_eqs intro!: refining)
  next
    case (AssignExpr op left right)
    have r: "refines (std rt ho cx right) (ev rt ho cx right)" using reg AssignExpr by (intro IH) auto
    have m: "\<exists>u p b. x = Member (Some u) p b" "regular ho cx x" "size x < size e" if x: "left = PatExpr x" for x :: "'f expr"
    proof -
      obtain w p b where w: "x = Member w p b" "regular ho cx x" using reg AssignExpr x by (auto split: expr.splits)
      have "w \<noteq> None"
      proof
        assume "w = None"
        then show False using w regular_super [of ho cx p b] by simp
      qed
      then show "\<exists>u p b. x = Member (Some u) p b" "regular ho cx x" using w by auto
      show "size x < size e" using AssignExpr x by simp
    qed
    have t: "refines (std_target rt ho cx left) (target_ref rt ho cx left)"
    proof (rule target_refines)
      fix x :: "'f expr"
      assume x: "left = PatExpr x"
      show "refines (std_ref rt ho cx x) (ev_ref rt ho cx x)" using less.IH [OF m(3) [OF x] m(2) [OF x]] m(1) [OF x] by simp
    qed
    show ?thesis
    proof (cases "op = Assign")
      case True
      then show ?thesis using assign_refines [OF t r _ m(1)] reg AssignExpr by auto
    next
      case False
      then show ?thesis using compound_refines [OF t r _ m(1) False] reg AssignExpr by auto
    qed
  next
    case (Bin op x y)
    have xy: "refines (std rt ho cx x) (ev rt ho cx x)" "refines (std rt ho cx y) (ev rt ho cx y)" using reg Bin by (auto intro!: IH)
    consider "op = LogicalOr" | "op = LogicalAnd" | "op \<noteq> LogicalOr" "op \<noteq> LogicalAnd" by blast
    then have "refines (std rt ho cx (Bin op x y)) (ev rt ho cx (Bin op x y))"
    proof cases
      case 3
      have "(\<exists>v. ev rt ho cx x = e_return v) \<or> (\<exists>w. ev rt ho cx y = e_return w) \<or>
          has_no_effect (ev rt ho cx x) \<and> has_no_effect (ev rt ho cx y)"
        using reg Bin 3 constant_value [of ho cx x rt] constant_value [of ho cx y rt] silent_no_effect by auto
      then show ?thesis unfolding std_bin(3) [OF 3] ev_bin(3) [OF 3] by (intro refines_swap xy refines_refl)
    qed (auto simp: std_bin ev_bin intro!: refining xy)
    then show ?thesis using Bin by simp
  next
    case (Cond x y z)
    then show ?thesis using reg by (auto simp: std_eqs ev_eqs intro!: refining IH)
  next
    case (Paren x)
    then show ?thesis using reg IH by (simp add: std_eqs ev_eqs)
  qed (use reg in simp_all)
qed

lemma regular_value:
  fixes e :: "'f expr" and rt :: "'w runtime"
  assumes "regular ho cx e"
  shows "std rt ho cx e s = None \<or> std rt ho cx e s = ev rt ho cx e s"
proof -
  have "refines (std rt ho cx e) (ev rt ho cx e)" using regular_refines [OF assms, of rt] by (rule conjunct1)
  then show ?thesis by (simp add: refines_def)
qed

end
