(* ===== verification/Compile_Props.thy ===== *)
theory Compile_Props
  imports Standard_Evaluation
begin

text \<open>The property of compiled expressions, and an expression it is applied to.\<close>

section \<open>An example\<close>

definition example_runtime :: "unit runtime" where
  "example_runtime =
     \<lparr>rt_cells = (\<lambda>_. empty_cells), rt_jsobject = (\<lambda>_ _. False), rt_callable = (\<lambda>_ _. False),
      rt_function = (\<lambda>_ _. NativeFunction), rt_global = (\<lambda>_. encode_undefined_value),
      rt_add = (\<lambda>x _. x), rt_sub = (\<lambda>x _. x), rt_mul = (\<lambda>x _. x), rt_div = (\<lambda>x _. x), rt_rem = (\<lambda>x _. x),
      rt_parse = (\<lambda>_. None), rt_type_error = (\<lambda>_. e_return encode_null_value), rt_range_error = (\<lambda>_. e_return encode_null_value),
      rt_new_string = (\<lambda>_. e_panic), rt_default_value = (\<lambda>_ _. e_panic), rt_to_primitive = (\<lambda>_ _. e_panic),
      rt_to_string = (\<lambda>_. e_panic), rt_to_symbol = (\<lambda>_. e_panic), rt_to_object = (\<lambda>_. e_panic),
      rt_get_by_id = (\<lambda>_ _ is_try _ _. if is_try then e_return (encode_int32 5) else e_throw encode_null_value),
      rt_put_by_id = (\<lambda>_ _ _ _ _ _. e_return ()), rt_get_by_val = (\<lambda>_ _. e_panic), rt_put_by_val = (\<lambda>_ _ _ _. e_panic),
      rt_delete = (\<lambda>_ _ _. e_panic), rt_has_instance = (\<lambda>_ _. e_panic), rt_has_own = (\<lambda>_ _. e_panic), rt_new_object = e_panic,
      rt_new_array = (\<lambda>_. e_panic), rt_put_index = (\<lambda>_ _ _. e_panic), rt_spread = (\<lambda>_. e_panic), rt_spread_values = (\<lambda>_ _. None),
      rt_new_function = (\<lambda>_ _ _. e_panic), rt_new_env = e_panic, rt_arguments_object = (\<lambda>_ _ _. e_panic),
      rt_construct_object = (\<lambda>_. e_panic), rt_call = (\<lambda>_ _ _ _. e_panic), rt_array_values = (\<lambda>_. e_panic),
      rt_new_iterator = (\<lambda>_. e_panic), rt_iterator_next = (\<lambda>_. e_panic)\<rparr>"

definition example_host :: compiler_host where
  "example_host = \<lparr>ho_intern = (\<lambda>_. Key 7), ho_string = (\<lambda>_. encode_null_value), ho_regexp = (\<lambda>_ _. None), ho_order = (\<lambda>xs. xs)\<rparr>"

definition example_compiler :: compiler where
  "example_compiler =
     \<lparr>bc_block = code_block_new (Key 0) False, bc_pool = [], bc_scope = [], bc_val_map = [], bc_name_map = [], bc_lci = [], bc_fmap = [],
      bc_top_level = True, bc_freelist = []\<rparr>"

text \<open>The expression \<open>true ? !x : this\<close>.\<close>

definition example_expr :: "fn_action expr" where
  "example_expr = Cond (Lit (LitBool True)) (Unary UBang (Ident ''x'')) This"

definition example_compiled :: compiler where
  "example_compiled =
     example_compiler\<lparr>bc_block := (code_block_new (Key 0) False)\<lparr>cb_names := [Key 7],
        cb_code := [4, 21, 16, 0, 0, 0, 74, 52, 0, 0, 0, 0, 0, 0, 0, 0, 45, 19, 1, 0, 0, 0, 67],
        cb_feedback := [NoFeedBack]\<rparr>, bc_name_map := [(Key 7, 0)]\<rparr>"

definition example_scopes :: eval_context where
  "example_scopes = \<lparr>cx_scopes = [], cx_env = 0, cx_this = encode_null_value, cx_strict = False\<rparr>"

definition example_ctx :: run_ctx where
  "example_ctx =
     \<lparr>rc_frame = \<lparr>fr_sp = 0, fr_limit = 100, fr_callee = encode_undefined_value, fr_ip = 0, fr_block = Some 0, fr_this = encode_null_value,
        fr_ctor = False, fr_exit_on_return = True, fr_env = 0, fr_try_stack = []\<rparr>,
      rc_frames = [], rc_blocks = [bc_block example_compiled], rc_size = 100\<rparr>"

definition example_store :: "unit store" where
  "example_store = \<lparr>so_envs = (\<lambda>_. None), so_world = ()\<rparr>"

lemmas example_defs = example_runtime_def example_host_def example_compiler_def example_expr_def example_compiled_def
  example_scopes_def example_ctx_def example_store_def

lemma example_compiles: "expr_c example_host example_expr True False example_compiler = Some (Inr ((), example_compiled))"
  by code_simp

lemma example_block: "ctx_block example_ctx = Some (bc_block example_compiled)"
  by (simp add: ctx_block_def example_ctx_def)

lemma example_fits:
  "matches example_runtime example_ctx example_scopes" "fits example_ctx example_compiled"
  "code_at example_ctx 0 (code_of example_compiled)" "tables_ok example_host example_compiler"
proof -
  show "matches example_runtime example_ctx example_scopes"
    unfolding matches_def example_block
    by (simp add: no_inline_caching_def scope_fits_def example_runtime_def example_ctx_def example_scopes_def example_compiled_def
        example_compiler_def code_block_new_def)
  show "fits example_ctx example_compiled"
    unfolding fits_def example_block by (simp add: example_compiled_def code_block_new_def)
  show "code_at example_ctx 0 (code_of example_compiled)" by (simp add: code_at_def example_block)
  show "tables_ok example_host example_compiler" by (simp add: tables_ok_def example_compiler_def)
qed

lemma example_value:
  "ev example_runtime example_host example_scopes example_expr example_store = Some (Inr (encode_bool_value False), example_store)"
proof -
  have "to_boolean empty_cells (encode_bool_value True)"
    by (simp add: to_boolean_def encode_bool_words is_jsstring_def empty_cells_def, code_simp)
  moreover have "to_boolean empty_cells (encode_int32 5)" by (simp add: to_boolean_int32)
  ultimately show ?thesis
    by (simp add: example_expr_def ev_eqs literal_value_def name_ref_def access_of_def get_value_def e_bind_def e_return_def e_store_def
        unary_value_def op_logical_not_def example_runtime_def example_scopes_def example_store_def)
qed

lemma example_standard: "std example_runtime example_host example_scopes example_expr example_store \<noteq> None"
proof -
  have "to_boolean empty_cells (encode_bool_value True)"
    by (simp add: to_boolean_def encode_bool_words is_jsstring_def empty_cells_def, code_simp)
  then show ?thesis
    by (simp add: op_logical_not_def example_expr_def std_eqs std_name_def literal_value_def name_ref_def access_of_def get_value_def e_bind_def e_return_def
        e_store_def unary_value_def example_runtime_def example_scopes_def example_store_def)
qed

lemma example_regular: "regular example_host example_scopes example_expr"
  by (simp add: example_expr_def regular.simps)

lemma example_std_value:
  "std example_runtime example_host example_scopes example_expr example_store = Some (Inr (encode_bool_value False), example_store)"
  using regular_value [OF example_regular, of example_runtime example_store] example_standard by (simp add: example_value)

section \<open>The property\<close>

text \<open>C1. Compiled expressions. The value meant is that of the engine's operators in the order of the standard. The forms covered are identifiers, literals other than regular expressions, \<open>this\<close>, member
  access, the unary operators but \<open>delete\<close> and plus, plain and compound assignment to a name or a member, the binary, logical and
  conditional operators and parentheses; calls, functions, literals of objects and arrays, sequences and \<open>++\<close> and \<open>--\<close> are not. Of these
  the expression has to be \<open>regular\<close>: the compiler evaluates the operands of an operator from right to left and the value of an assignment
  before its target, against the standard, so the property is about expressions in which, by their form, the order cannot
  be seen (of the two parts one is constant, or both have no effect). The code of such an expression is appended to
  the code so far. When the interpreter, built without inline caching, runs it in a frame of the same scopes, environment, \<open>this\<close> and mode, over a
  stack with room, it ends at the end of this code, with the value that the evaluation in the order of the standard gives on top of what was on the
  stack (or without it when the value is not used) and with the store of that evaluation; and when that evaluation throws, the interpreter throws
  the same value, with the stack of before still below. Nothing is said where \<open>std\<close> has no value: a panic, an assignment
  to a property of a value that is no object, and one to a global name in strict mode. A variable is what its environment holds, in \<open>std\<close> too: the
  engine has no temporal dead zone.\<close>

theorem expr_compiled_correctly:
  assumes "matches rt C cx" "covered e" "regular ho cx e" "bc_scope c = cx_scopes cx" "tables_ok ho c"
    and "expr_c ho e used tail c = Some (Inr ((), c'))" "fits C c'"
    and "code_at C (code_len c) (drop (code_len c) (code_of c'))" "length st + 2 * size e + 3 \<le> rc_size C"
  shows "take (code_len c) (code_of c') = code_of c \<and>
    (case std rt ho cx e s of
       None \<Rightarrow> True
     | Some (Inl exn, s') \<Rightarrow> raises rt C st (code_len c) st s exn s'
     | Some (Inr v, s') \<Rightarrow> goes rt C (code_len c) st s (code_len c') (if used then st @ [v] else st) s')"
proof
  have "keeps ho (code_len c) c c'" by (rule growsD [OF covered_expr [OF assms(2)] assms(6)])
  then show "take (code_len c) (code_of c') = code_of c" by (simp add: keeps_def code_len_def)
  have "compiles ho rt C st st (expr_c ho e used tail) c (ev rt ho cx e) (\<lambda>_ v. if used then st @ [v] else st) (\<lambda>_ _. True)"
    using covered_ok [OF assms(1,2)] assms(4,9) unfolding expr_ok_def by simp
  note engine = this [unfolded compiles_def, rule_format, OF assms(6,5,7,8), unfolded implements_def, rule_format, of s]
  have "std rt ho cx e s = None \<or> std rt ho cx e s = ev rt ho cx e s"
    by (rule regular_value [OF assms(3)])
  then show "case std rt ho cx e s of
       None \<Rightarrow> True
     | Some (Inl exn, s') \<Rightarrow> raises rt C st (code_len c) st s exn s'
     | Some (Inr v, s') \<Rightarrow> goes rt C (code_len c) st s (code_len c') (if used then st @ [v] else st) s'"
  proof
    assume "std rt ho cx e s = ev rt ho cx e s"
    then show ?thesis using engine by (simp only: simp_thms)
  next
    assume "std rt ho cx e s = None"
    then show ?thesis by simp
  qed
qed

theorem expr_compiled_correctly_witness:
  "goes example_runtime example_ctx 0 [] example_store 23 [encode_bool_value False] example_store"
proof -
  have sc: "bc_scope example_compiler = cx_scopes example_scopes" "code_len example_compiler = 0" "code_len example_compiled = 23"
    by (simp_all add: code_len_def code_block_new_def example_compiler_def example_compiled_def example_scopes_def)
  have "covered example_expr" "length ([] :: js_value list) + 2 * size example_expr + 3 \<le> rc_size example_ctx"
    by (simp_all add: example_expr_def example_ctx_def)
  from expr_compiled_correctly [OF example_fits(1) this(1) example_regular sc(1) example_fits(4) example_compiles example_fits(2) _ this(2), of example_store]
  show ?thesis using example_fits(3) by (simp add: example_std_value sc)
qed

end
