(* ===== verification/Snapshot_Bytes.thy ===== *)
theory Snapshot_Bytes
  imports Cells
begin

text \<open>
  The bytes of a snapshot (\<open>gc/snapshot/serializer.rs\<close>, \<open>gc/snapshot/deserializer.rs\<close>): the serializer,
  which appends to its output, the deserializer, which reads at its position, and what it means that the
  one reads what the other wrote. References are written as indices into a map of references, symbols as
  indices into a map of symbols; a snapshot read by another process gets other addresses and other symbols,
  so a value is read up to a renaming of both.
\<close>

record serializer =
  sr_refs :: "u64 list"
  sr_out :: "u8 list"
  sr_symbols :: "(symbol \<times> u32) list"

record deserializer =
  ds_reader :: "u8 list"
  ds_pc :: nat
  ds_refs :: "u64 list"
  ds_symbols :: "symbol list"

type_synonym writer = "serializer \<Rightarrow> serializer panics"
type_synonym 'a reader = "deserializer \<Rightarrow> ('a \<times> deserializer) panics"

text \<open>Steps of the serializer in order, and of the deserializer.\<close>

primrec in_order :: "writer list \<Rightarrow> writer" where
  "in_order [] s = Some s"
| "in_order (w # ws) s = (case w s of None \<Rightarrow> None | Some s1 \<Rightarrow> in_order ws s1)"

definition r_return :: "'a \<Rightarrow> 'a reader" where "r_return x d = Some (x, d)"
definition r_panic :: "'a reader" where "r_panic d = None"
definition r_bind :: "'a reader \<Rightarrow> ('a \<Rightarrow> 'b reader) \<Rightarrow> 'b reader" where
  "r_bind m f d = (case m d of None \<Rightarrow> None | Some (x, d1) \<Rightarrow> f x d1)"

text \<open>A loop that reads \<open>n\<close> items.\<close>

primrec read_many :: "nat \<Rightarrow> 'a reader \<Rightarrow> 'a list reader" where
  "read_many 0 g = r_return []"
| "read_many (Suc n) g = r_bind g (\<lambda>x. r_bind (read_many n g) (\<lambda>xs. r_return (x # xs)))"

section \<open>Integers\<close>

fun le_bytes :: "nat \<Rightarrow> 'a::len word \<Rightarrow> u8 list" where
  "le_bytes 0 x = []"
| "le_bytes (Suc n) x = ucast x # le_bytes n (drop_bit 8 x)"

primrec of_le_bytes :: "u8 list \<Rightarrow> 'a::len word" where
  "of_le_bytes [] = 0"
| "of_le_bytes (b # bs) = ucast b OR push_bit 8 (of_le_bytes bs)"

definition write_all :: "u8 list \<Rightarrow> writer" where
  "write_all bs s = Some (s\<lparr>sr_out := sr_out s @ bs\<rparr>)"
definition write_u8 :: "u8 \<Rightarrow> writer" where "write_u8 x = write_all (le_bytes 1 x)"
definition write_u16 :: "u16 \<Rightarrow> writer" where "write_u16 x = write_all (le_bytes 2 x)"
definition write_u32 :: "u32 \<Rightarrow> writer" where "write_u32 x = write_all (le_bytes 4 x)"
definition write_u64 :: "u64 \<Rightarrow> writer" where "write_u64 x = write_all (le_bytes 8 x)"

definition read_bytes :: "nat \<Rightarrow> u8 list reader" where
  "read_bytes n d =
     (if ds_pc d + n \<le> length (ds_reader d) then Some (take n (drop (ds_pc d) (ds_reader d)), d\<lparr>ds_pc := ds_pc d + n\<rparr>) else None)"
definition get_u8 :: "u8 reader" where
  "get_u8 d = (if ds_pc d < length (ds_reader d) then Some (ds_reader d ! ds_pc d, d\<lparr>ds_pc := ds_pc d + 1\<rparr>) else None)"
definition get_u16 :: "u16 reader" where "get_u16 = r_bind (read_bytes 2) (\<lambda>bs. r_return (of_le_bytes bs))"
definition get_u32 :: "u32 reader" where "get_u32 = r_bind (read_bytes 4) (\<lambda>bs. r_return (of_le_bytes bs))"
definition get_u64 :: "u64 reader" where "get_u64 = r_bind (read_bytes 8) (\<lambda>bs. r_return (of_le_bytes bs))"

lemma le_bytes_length [simp]: "length (le_bytes n x) = n"
  by (induction n arbitrary: x) simp_all

lemma of_le_bytes_le: "of_le_bytes (le_bytes n x) = take_bit (8 * n) x"
proof (induction n arbitrary: x)
  case (Suc n)
  show ?case
  proof (rule bit_eqI)
    fix i assume i: "possible_bit TYPE('a word) i"
    then have "bit (of_le_bytes (le_bytes (Suc n) x) :: 'a word) i \<longleftrightarrow> i < 8 \<and> bit x i \<or> 8 \<le> i \<and> i - 8 < 8 * n \<and> bit x i"
      by (auto simp: Suc.IH bit_or_iff bit_push_bit_iff bit_take_bit_iff bit_drop_bit_eq bit_ucast_iff)
    moreover have "\<dots> \<longleftrightarrow> i < 8 * Suc n \<and> bit x i" by auto
    ultimately show "bit (of_le_bytes (le_bytes (Suc n) x) :: 'a word) i \<longleftrightarrow> bit (take_bit (8 * Suc n) x) i"
      by (simp only: bit_take_bit_iff)
  qed
qed simp

section \<open>References and symbols\<close>

text \<open>\<open>reference_map.iter().enumerate().find(..)\<close>: the first index of a reference.\<close>

primrec find_ref :: "u64 \<Rightarrow> u64 list \<Rightarrow> nat option" where
  "find_ref r [] = None"
| "find_ref r (x # xs) = (if x = r then Some 0 else map_option Suc (find_ref r xs))"

definition write_reference :: "u64 \<Rightarrow> writer" where
  "write_reference r s = (case find_ref r (sr_refs s) of None \<Rightarrow> None | Some ix \<Rightarrow> write_u32 (of_nat ix) s)"
definition get_reference :: "u64 reader" where
  "get_reference = r_bind get_u32 (\<lambda>index d. if unat index < length (ds_refs d) then Some (ds_refs d ! unat index, d) else None)"

text \<open>\<open>SymbolID::PUBLIC_START\<close>: the symbols below are those of the engine.\<close>

definition public_start :: u32 where "public_start = 128"

definition symbol_index :: "symbol \<Rightarrow> writer" where
  "symbol_index name s = (case map_of (sr_symbols s) name of None \<Rightarrow> None | Some ix \<Rightarrow> write_u32 ix s)"
definition write_symbol :: "symbol \<Rightarrow> writer" where
  "write_symbol name =
     (case name of
        Index index \<Rightarrow> in_order [write_u8 0xff, write_u32 index]
      | Key key \<Rightarrow> if key < public_start then in_order [write_u8 0x1f, write_u32 key] else in_order [write_u8 0x2f, symbol_index name]
      | Private key \<Rightarrow> in_order [write_u8 0x3f, symbol_index (Key key)])"

definition symbol_at :: "u32 \<Rightarrow> symbol reader" where
  "symbol_at ix d = (if unat ix < length (ds_symbols d) then Some (ds_symbols d ! unat ix, d) else None)"
definition symbol_private :: "symbol \<Rightarrow> symbol panics" where
  "symbol_private name = (case name of Key x \<Rightarrow> Some (Private x) | _ \<Rightarrow> None)"
definition get_symbol :: "symbol reader" where
  "get_symbol = r_bind get_u8 (\<lambda>ty.
     if ty = 0xff then r_bind get_u32 (\<lambda>x. r_return (Index x))
     else if ty = 0x1f then r_bind get_u32 (\<lambda>x. r_return (Key x))
     else if ty = 0x2f then r_bind get_u32 symbol_at
     else if ty = 0x3f then r_bind get_u32 (\<lambda>ix. r_bind (symbol_at ix) (\<lambda>name d.
       (case symbol_private name of None \<Rightarrow> None | Some p \<Rightarrow> Some (p, d))))
     else r_panic)"

section \<open>Reading what was written\<close>

text \<open>The maps of the two sides; the renaming is what they amount to.\<close>

record renaming =
  rn_refs :: "u64 list"
  rn_symbols :: "(symbol \<times> u32) list"
  rn_new_refs :: "u64 list"
  rn_new_symbols :: "symbol list"

definition ren_ref :: "renaming \<Rightarrow> u64 \<Rightarrow> u64" where
  "ren_ref E r = (case find_ref r (rn_refs E) of None \<Rightarrow> r | Some ix \<Rightarrow> rn_new_refs E ! ix)"
definition ren_key :: "renaming \<Rightarrow> u32 \<Rightarrow> symbol" where
  "ren_key E key = (case map_of (rn_symbols E) (Key key) of None \<Rightarrow> Key key | Some ix \<Rightarrow> rn_new_symbols E ! unat ix)"
definition ren_symbol :: "renaming \<Rightarrow> symbol \<Rightarrow> symbol" where
  "ren_symbol E name =
     (case name of
        Index index \<Rightarrow> Index index
      | Key key \<Rightarrow> if key < public_start then Key key else ren_key E key
      | Private key \<Rightarrow> (case ren_key E key of Key x \<Rightarrow> Private x | y \<Rightarrow> y))"

definition renaming_ok :: "renaming \<Rightarrow> bool" where
  "renaming_ok E \<longleftrightarrow>
     length (rn_new_refs E) = length (rn_refs E) \<and> length (rn_refs E) < 2 ^ 32 \<and>
     (\<forall>ix\<in>snd ` set (rn_symbols E). unat ix < length (rn_new_symbols E)) \<and>
     (\<forall>name\<in>set (rn_new_symbols E). \<exists>x. name = Key x)"
definition writes_in :: "renaming \<Rightarrow> serializer \<Rightarrow> bool" where
  "writes_in E s \<longleftrightarrow> renaming_ok E \<and> sr_refs s = rn_refs E \<and> sr_symbols s = rn_symbols E"
definition reads_in :: "renaming \<Rightarrow> deserializer \<Rightarrow> bool" where
  "reads_in E d \<longleftrightarrow> ds_refs d = rn_new_refs E \<and> ds_symbols d = rn_new_symbols E"

definition bytes_at :: "deserializer \<Rightarrow> u8 list \<Rightarrow> bool" where
  "bytes_at d bs \<longleftrightarrow> ds_pc d + length bs \<le> length (ds_reader d) \<and> take (length bs) (drop (ds_pc d) (ds_reader d)) = bs"

text \<open>\<open>w\<close> only appends bytes, and \<open>g\<close> reads them as \<open>v\<close>, in a snapshot of less than 4 GB.\<close>

definition carries :: "renaming \<Rightarrow> writer \<Rightarrow> 'a reader \<Rightarrow> 'a \<Rightarrow> bool" where
  "carries E w g v \<longleftrightarrow>
     (\<forall>s s'. w s = Some s' \<longrightarrow>
        (\<exists>bs. s' = s\<lparr>sr_out := sr_out s @ bs\<rparr> \<and>
           (writes_in E s \<longrightarrow> length (sr_out s') < 2 ^ 32 \<longrightarrow>
              (\<forall>d. reads_in E d \<longrightarrow> bytes_at d bs \<longrightarrow> g d = Some (v, d\<lparr>ds_pc := ds_pc d + length bs\<rparr>)))))"

named_theorems carrying \<open>what is read as it was written\<close>

lemma carriesI:
  assumes "\<And>s s'. w s = Some s' \<Longrightarrow> \<exists>bs. s' = s\<lparr>sr_out := sr_out s @ bs\<rparr> \<and>
      (\<forall>d. writes_in E s \<longrightarrow> length (sr_out s') < 2 ^ 32 \<longrightarrow> reads_in E d \<longrightarrow> bytes_at d bs \<longrightarrow>
         g d = Some (v, d\<lparr>ds_pc := ds_pc d + length bs\<rparr>))"
  shows "carries E w g v"
  unfolding carries_def using assms by blast

lemma carriesE:
  assumes "carries E w g v" "w s = Some s'"
  obtains bs where "s' = s\<lparr>sr_out := sr_out s @ bs\<rparr>"
    "\<And>d. writes_in E s \<Longrightarrow> length (sr_out s') < 2 ^ 32 \<Longrightarrow> reads_in E d \<Longrightarrow> bytes_at d bs \<Longrightarrow>
       g d = Some (v, d\<lparr>ds_pc := ds_pc d + length bs\<rparr>)"
  using assms unfolding carries_def by blast

lemma bytes_at_append: "bytes_at d (xs @ ys) \<longleftrightarrow> bytes_at d xs \<and> bytes_at (d\<lparr>ds_pc := ds_pc d + length xs\<rparr>) ys"
  by (auto simp: bytes_at_def take_add add.commute append_eq_append_conv)

lemma carries_return: "carries E (in_order []) (r_return v) v"
  by (rule carriesI, rule exI [of _ "[]"]) (auto simp: r_return_def)

lemma carries_bind:
  assumes w: "carries E w g u" and ws: "carries E (in_order ws) (h u) v"
  shows "carries E (in_order (w # ws)) (r_bind g h) v"
proof (rule carriesI)
  fix s s' assume "in_order (w # ws) s = Some s'"
  then obtain s1 where s1: "w s = Some s1" and s2: "in_order ws s1 = Some s'" by (auto split: option.splits)
  obtain xs where xs: "s1 = s\<lparr>sr_out := sr_out s @ xs\<rparr>"
    "\<And>d. writes_in E s \<Longrightarrow> length (sr_out s1) < 2 ^ 32 \<Longrightarrow> reads_in E d \<Longrightarrow> bytes_at d xs \<Longrightarrow>
       g d = Some (u, d\<lparr>ds_pc := ds_pc d + length xs\<rparr>)"
    using carriesE [OF w s1] by blast
  obtain ys where ys: "s' = s1\<lparr>sr_out := sr_out s1 @ ys\<rparr>"
    "\<And>d. writes_in E s1 \<Longrightarrow> length (sr_out s') < 2 ^ 32 \<Longrightarrow> reads_in E d \<Longrightarrow> bytes_at d ys \<Longrightarrow>
       h u d = Some (v, d\<lparr>ds_pc := ds_pc d + length ys\<rparr>)"
    using carriesE [OF ws s2] by blast
  show "\<exists>bs. s' = s\<lparr>sr_out := sr_out s @ bs\<rparr> \<and>
      (\<forall>d. writes_in E s \<longrightarrow> length (sr_out s') < 2 ^ 32 \<longrightarrow> reads_in E d \<longrightarrow> bytes_at d bs \<longrightarrow>
         r_bind g h d = Some (v, d\<lparr>ds_pc := ds_pc d + length bs\<rparr>))"
  proof (intro exI [of _ "xs @ ys"] conjI allI impI)
    show "s' = s\<lparr>sr_out := sr_out s @ xs @ ys\<rparr>" by (simp add: ys(1) xs(1))
    fix d assume E: "writes_in E s" "length (sr_out s') < 2 ^ 32" "reads_in E d" and b: "bytes_at d (xs @ ys)"
    let ?d = "d\<lparr>ds_pc := ds_pc d + length xs\<rparr>"
    have "g d = Some (u, ?d)" using xs E b by (simp add: bytes_at_append ys(1))
    moreover have "h u ?d = Some (v, ?d\<lparr>ds_pc := ds_pc ?d + length ys\<rparr>)"
      using ys(2) [of ?d] E b xs(1) by (simp add: bytes_at_append writes_in_def reads_in_def)
    ultimately show "r_bind g h d = Some (v, d\<lparr>ds_pc := ds_pc d + length (xs @ ys)\<rparr>)"
      by (simp add: r_bind_def add.assoc)
  qed
qed

lemma carries_last: "carries E w g v \<Longrightarrow> carries E (in_order [w]) g v"
  unfolding carries_def by (auto split: option.splits)

lemma carries_all:
  assumes "\<And>bs d. bytes_at d bs \<Longrightarrow> length bs = n \<Longrightarrow> g d = Some (f bs, d\<lparr>ds_pc := ds_pc d + n\<rparr>)" "length xs = n"
  shows "carries E (write_all xs) g (f xs)"
  by (rule carriesI) (use assms in \<open>auto simp: write_all_def\<close>)

lemma carries_u8 [carrying]: "carries E (write_u8 x) get_u8 x"
proof -
  have "get_u8 d = Some (hd bs, d\<lparr>ds_pc := ds_pc d + 1\<rparr>)" if "bytes_at d bs" "length bs = 1" for d bs
    using that by (auto simp: bytes_at_def get_u8_def hd_drop_conv_nth take_Suc_conv_app_nth length_Suc_conv)
  then have "carries E (write_all (le_bytes 1 x)) get_u8 (hd (le_bytes 1 x))" by (rule carries_all) simp_all
  then show ?thesis by (simp add: write_u8_def)
qed

lemma read_bytes_at: "bytes_at d bs \<Longrightarrow> read_bytes (length bs) d = Some (bs, d\<lparr>ds_pc := ds_pc d + length bs\<rparr>)"
  by (simp add: bytes_at_def read_bytes_def)

lemma carries_le:
  fixes x :: "'a::len word"
  shows "carries E (write_all (le_bytes n x)) (r_bind (read_bytes n) (\<lambda>bs. r_return (of_le_bytes bs :: 'a word))) (take_bit (8 * n) x)"
proof -
  have "r_bind (read_bytes n) (\<lambda>bs. r_return (of_le_bytes bs :: 'a word)) d = Some (of_le_bytes bs :: 'a word, d\<lparr>ds_pc := ds_pc d + n\<rparr>)"
    if "bytes_at d bs" "length bs = n" for n bs d
    using read_bytes_at [OF that(1)] that(2) by (simp add: r_bind_def r_return_def)
  then have "carries E (write_all (le_bytes n x)) (r_bind (read_bytes n) (\<lambda>bs. r_return (of_le_bytes bs :: 'a word))) (of_le_bytes (le_bytes n x) :: 'a word)"
    by (rule carries_all) simp_all
  then show ?thesis by (simp only: of_le_bytes_le)
qed

lemma carries_word [carrying]:
  "carries E (write_u16 x) get_u16 x" "carries E (write_u32 y) get_u32 y" "carries E (write_u64 z) get_u64 z"
  using carries_le [of E 2 x] carries_le [of E 4 y] carries_le [of E 8 z]
  by (simp_all add: write_u16_def write_u32_def write_u64_def get_u16_def get_u32_def get_u64_def take_bit_word_eq_self)

lemma find_ref_Some: "find_ref r xs = Some i \<Longrightarrow> i < length xs \<and> xs ! i = r"
  by (induction xs arbitrary: i) (auto split: if_splits simp: nth_Cons split: nat.splits)

text \<open>What is written as an index and looked up by the reader.\<close>

lemma carries_indexed:
  assumes "\<And>s s'. w s = Some s' \<Longrightarrow> \<exists>ix. write_u32 ix s = Some s' \<and> (\<forall>d. writes_in E s \<longrightarrow> reads_in E d \<longrightarrow> h ix d = Some (v, d))"
  shows "carries E w (r_bind get_u32 h) v"
proof (rule carriesI)
  fix s s' assume "w s = Some s'"
  then obtain ix where w: "write_u32 ix s = Some s'" and h: "\<And>d. writes_in E s \<Longrightarrow> reads_in E d \<Longrightarrow> h ix d = Some (v, d)"
    using assms by blast
  obtain bs where bs: "s' = s\<lparr>sr_out := sr_out s @ bs\<rparr>"
    "\<And>d. writes_in E s \<Longrightarrow> length (sr_out s') < 2 ^ 32 \<Longrightarrow> reads_in E d \<Longrightarrow> bytes_at d bs \<Longrightarrow>
       get_u32 d = Some (ix, d\<lparr>ds_pc := ds_pc d + length bs\<rparr>)"
    using carriesE [OF carries_word(2) w] by blast
  have "r_bind get_u32 h d = Some (v, d\<lparr>ds_pc := ds_pc d + length bs\<rparr>)"
    if "writes_in E s" "length (sr_out s') < 2 ^ 32" "reads_in E d" "bytes_at d bs" for d
    using bs(2) [OF that] h [OF that(1), of "d\<lparr>ds_pc := ds_pc d + length bs\<rparr>"] that(3) by (simp add: r_bind_def reads_in_def)
  with bs(1) show "\<exists>bs. s' = s\<lparr>sr_out := sr_out s @ bs\<rparr> \<and> (\<forall>d. writes_in E s \<longrightarrow> length (sr_out s') < 2 ^ 32 \<longrightarrow>
      reads_in E d \<longrightarrow> bytes_at d bs \<longrightarrow> r_bind get_u32 h d = Some (v, d\<lparr>ds_pc := ds_pc d + length bs\<rparr>))"
    by blast
qed

lemma carries_reference [carrying]: "carries E (write_reference r) get_reference (ren_ref E r)"
  unfolding get_reference_def
proof (rule carries_indexed)
  fix s s' assume "write_reference r s = Some s'"
  then obtain ix where ix: "find_ref r (sr_refs s) = Some ix" and w: "write_u32 (of_nat ix) s = Some s'"
    by (auto simp: write_reference_def split: option.splits)
  have "ix < length (rn_new_refs E) \<and> ix < 2 ^ 32 \<and> ren_ref E r = rn_new_refs E ! ix" if "writes_in E s"
    using that find_ref_Some [OF ix] ix by (auto simp: writes_in_def renaming_ok_def ren_ref_def)
  then show "\<exists>i. write_u32 i s = Some s' \<and> (\<forall>d. writes_in E s \<longrightarrow> reads_in E d \<longrightarrow>
      (if unat i < length (ds_refs d) then Some (ds_refs d ! unat i, d) else None) = Some (ren_ref E r, d))"
    using w by (intro exI [of _ "of_nat ix"]) (simp add: reads_in_def unat_word_of_nat_less)
qed

lemma symbol_index_run:
  assumes "symbol_index (Key x) s = Some s'"
  shows "\<exists>ix. write_u32 ix s = Some s' \<and> (\<forall>d. writes_in E s \<longrightarrow> reads_in E d \<longrightarrow> symbol_at ix d = Some (ren_key E x, d)) \<and>
    (writes_in E s \<longrightarrow> (\<exists>y. ren_key E x = Key y))"
proof -
  from assms obtain ix where ix: "map_of (sr_symbols s) (Key x) = Some ix" and w: "write_u32 ix s = Some s'"
    by (auto simp: symbol_index_def split: option.splits)
  have "unat ix < length (rn_new_symbols E) \<and> ren_key E x = rn_new_symbols E ! unat ix \<and> (\<exists>y. ren_key E x = Key y)" if "writes_in E s"
  proof -
    have "ix \<in> snd ` set (rn_symbols E)" using ix that map_of_SomeD by (force simp: writes_in_def)
    then have l: "unat ix < length (rn_new_symbols E)" using that by (auto simp: writes_in_def renaming_ok_def)
    then have "rn_new_symbols E ! unat ix \<in> set (rn_new_symbols E)" by simp
    then have "\<exists>y. rn_new_symbols E ! unat ix = Key y" using that unfolding writes_in_def renaming_ok_def by blast
    then show ?thesis using l ix that by (simp add: ren_key_def writes_in_def)
  qed
  note key = this
  have "symbol_at ix d = Some (ren_key E x, d)" if "writes_in E s" "reads_in E d" for d
    using key [OF that(1)] that(2) by (simp add: symbol_at_def reads_in_def)
  then show ?thesis using w key by blast
qed

lemma carries_symbol_index: "carries E (symbol_index (Key x)) (r_bind get_u32 symbol_at) (ren_key E x)"
  by (rule carries_indexed) (use symbol_index_run in blast)

lemma carries_private_index:
  "carries E (symbol_index (Key x)) (r_bind get_u32 (\<lambda>ix. r_bind (symbol_at ix) (\<lambda>name d.
     (case symbol_private name of None \<Rightarrow> None | Some p \<Rightarrow> Some (p, d))))) (case ren_key E x of Key y \<Rightarrow> Private y | y \<Rightarrow> y)"
proof (rule carries_indexed)
  fix s s' assume "symbol_index (Key x) s = Some s'"
  from symbol_index_run [OF this, of E] obtain ix where w: "write_u32 ix s = Some s'"
    and ix: "\<And>d. writes_in E s \<Longrightarrow> reads_in E d \<Longrightarrow> symbol_at ix d = Some (ren_key E x, d)"
    and key: "writes_in E s \<Longrightarrow> \<exists>y. ren_key E x = Key y" by blast
  then show "\<exists>ix. write_u32 ix s = Some s' \<and> (\<forall>d. writes_in E s \<longrightarrow> reads_in E d \<longrightarrow>
      r_bind (symbol_at ix) (\<lambda>name d. case symbol_private name of None \<Rightarrow> None | Some p \<Rightarrow> Some (p, d)) d
        = Some (case ren_key E x of Key y \<Rightarrow> Private y | y \<Rightarrow> y, d))"
    by (intro exI [of _ ix]) (auto simp: r_bind_def symbol_private_def)
qed

lemma carries_tag:
  assumes "carries E (in_order ws) (h t) v"
  shows "carries E (in_order (write_u8 t # ws)) (r_bind get_u8 h) v"
  by (rule carries_bind [where u = t]) (rule carries_u8, rule assms)

lemma carries_map: "carries E w g x \<Longrightarrow> carries E (in_order [w]) (r_bind g (\<lambda>x. r_return (f x))) (f x)"
  by (rule carries_bind [OF _ carries_return])

lemma carries_symbol [carrying]: "carries E (write_symbol name) get_symbol (ren_symbol E name)"
proof (cases name)
  case (Key x)
  show ?thesis
  proof (cases "x < public_start")
    case True
    have "carries E (in_order [write_u8 0x1f, write_u32 x]) get_symbol (Key x)"
      unfolding get_symbol_def by (rule carries_tag) (simp add: carries_map carrying)
    then show ?thesis using Key True by (simp add: write_symbol_def ren_symbol_def)
  next
    case False
    have "carries E (in_order [write_u8 0x2f, symbol_index (Key x)]) get_symbol (ren_key E x)"
      unfolding get_symbol_def by (rule carries_tag) (simp add: carries_last carries_symbol_index)
    then show ?thesis using Key False by (simp add: write_symbol_def ren_symbol_def)
  qed
next
  case (Private x)
  have "carries E (in_order [write_u8 0x3f, symbol_index (Key x)]) get_symbol (case ren_key E x of Key y \<Rightarrow> Private y | y \<Rightarrow> y)"
    unfolding get_symbol_def by (rule carries_tag) (simp add: carries_last carries_private_index)
  then show ?thesis using Private by (simp add: write_symbol_def ren_symbol_def)
next
  case (Index x)
  have "carries E (in_order [write_u8 0xff, write_u32 x]) get_symbol (Index x)"
    unfolding get_symbol_def by (rule carries_tag) (simp add: carries_map carrying)
  then show ?thesis using Index by (simp add: write_symbol_def ren_symbol_def)
qed

end
