(* ===== verification/Snapshot_Codec.thy ===== *)
theory Snapshot_Codec
  imports Snapshot_Bytes Js_Value "HOL-Library.AList"
begin

text \<open>
  The interface \<open>Serializable\<close>/\<open>Deserializable\<close> as a locale, and the types that implement it for any
  parameter: options, vectors, slices, strings and hash maps. A vector and a hash map are their
  capacity and their items, in the order of iteration.
\<close>

text \<open>\<open>put\<close> is \<open>serialize\<close> and \<open>get\<close> is \<open>deserialize_inplace\<close>; \<open>ren\<close> says what becomes of a value.\<close>

locale codec =
  fixes put :: "'a \<Rightarrow> writer" and get :: "'b reader" and ren :: "renaming \<Rightarrow> 'a \<Rightarrow> 'b"
  assumes law: "carries E (put x) get (ren E x)"
    and progress: "put x s = Some s' \<Longrightarrow> length (sr_out s) < length (sr_out s')"

section \<open>Progress\<close>

definition writes_some :: "writer \<Rightarrow> bool" where
  "writes_some w \<longleftrightarrow> (\<forall>s s'. w s = Some s' \<longrightarrow> length (sr_out s) < length (sr_out s'))"

lemma carries_extends: "carries E w g v \<Longrightarrow> w s = Some s' \<Longrightarrow> length (sr_out s) \<le> length (sr_out s')"
  unfolding carries_def by fastforce

definition appends :: "writer \<Rightarrow> bool" where
  "appends w \<longleftrightarrow> (\<forall>s s'. w s = Some s' \<longrightarrow> length (sr_out s) \<le> length (sr_out s'))"

lemma carries_appends: "carries E w g v \<Longrightarrow> appends w"
  unfolding appends_def by (intro allI impI) (rule carries_extends)

lemma appends_in_order: "\<forall>w\<in>set ws. appends w \<Longrightarrow> appends (in_order ws)"
proof (induction ws)
  case (Cons w ws)
  have w: "appends w" and ws: "appends (in_order ws)" using Cons by simp_all
  show ?case
    unfolding appends_def
  proof (intro allI impI)
    fix s s' assume "in_order (w # ws) s = Some s'"
    then obtain s1 where "w s = Some s1" "in_order ws s1 = Some s'" by (auto split: option.splits)
    then show "length (sr_out s) \<le> length (sr_out s')" using w ws unfolding appends_def by (meson order_trans)
  qed
qed (simp add: appends_def)

lemma progress_words [carrying]:
  "writes_some (write_u8 a)" "writes_some (write_u16 b)" "writes_some (write_u32 c)" "writes_some (write_u64 e)"
  by (auto simp: writes_some_def write_u8_def write_u16_def write_u32_def write_u64_def write_all_def)

lemma progress_in_order:
  assumes "writes_some w" "\<forall>w\<in>set ws. appends w"
  shows "writes_some (in_order (w # ws))"
  unfolding writes_some_def
proof (intro allI impI)
  fix s s' assume "in_order (w # ws) s = Some s'"
  then obtain s1 where "w s = Some s1" "in_order ws s1 = Some s'" by (auto split: option.splits)
  then show "length (sr_out s) < length (sr_out s')"
    using assms(1) appends_in_order [OF assms(2)] unfolding writes_some_def appends_def by (meson less_le_trans)
qed

lemma progress_first: "writes_some w \<Longrightarrow> carries E (in_order ws) g v \<Longrightarrow> writes_some (in_order (w # ws))"
  unfolding writes_some_def
proof (intro allI impI)
  fix s s' assume w: "\<forall>s s'. w s = Some s' \<longrightarrow> length (sr_out s) < length (sr_out s')" and ws: "carries E (in_order ws) g v"
    and "in_order (w # ws) s = Some s'"
  then obtain s1 where "w s = Some s1" "in_order ws s1 = Some s'" by (auto split: option.splits)
  then show "length (sr_out s) < length (sr_out s')" using w carries_extends [OF ws] by (meson less_le_trans)
qed

lemma progress_reference [carrying]: "writes_some (write_reference r)"
  using progress_words(3) by (auto simp: writes_some_def write_reference_def split: option.splits)

section \<open>Integers, references and symbols\<close>

definition put_bool :: "bool \<Rightarrow> writer" where "put_bool b = (if b then write_u8 1 else write_u8 0)"
definition get_bool_r :: "bool reader" where "get_bool_r = r_bind get_u8 (\<lambda>val. r_return (val \<noteq> 0))"

lemma carries_bool [carrying]: "carries E (put_bool b) get_bool_r b"
proof -
  have "carries E (in_order [write_u8 (if b then 1 else 0)]) get_bool_r ((if b then 1 else (0 :: u8)) \<noteq> 0)"
    unfolding get_bool_r_def by (rule carries_map) (rule carries_u8)
  moreover have "in_order [write_u8 (if b then 1 else 0)] = put_bool b"
    by (rule ext) (simp add: put_bool_def split: option.split)
  ultimately show ?thesis by (cases b) simp_all
qed

interpretation u8_codec: codec write_u8 get_u8 "\<lambda>_ x. x"
  by unfold_locales (use progress_words carrying in \<open>auto simp: writes_some_def\<close>)

interpretation u32_codec: codec write_u32 get_u32 "\<lambda>_ x. x"
  by unfold_locales (use progress_words carrying in \<open>auto simp: writes_some_def\<close>)

interpretation ref_codec: codec write_reference get_reference ren_ref
  by unfold_locales (use progress_reference carrying in \<open>auto simp: writes_some_def\<close>)

interpretation bool_codec: codec put_bool get_bool_r "\<lambda>_ b. b"
  by unfold_locales (use progress_words carrying in \<open>auto simp: writes_some_def put_bool_def split: if_splits\<close>)

section \<open>Values\<close>

definition put_value_s :: "js_value \<Rightarrow> writer" where
  "put_value_s v =
     (if is_object v then in_order [write_u8 0xff, write_reference v]
      else in_order [write_u8 0x1f, write_u64 v])"
definition get_value_s :: "js_value reader" where
  "get_value_s = r_bind get_u8 (\<lambda>ty.
     if ty = 0xff then r_bind get_reference (\<lambda>r. r_return (encode_object_value r)) else r_bind get_u64 r_return)"
definition ren_value :: "renaming \<Rightarrow> js_value \<Rightarrow> js_value" where
  "ren_value E v = (if is_object v then encode_object_value (ren_ref E v) else v)"

lemma carries_value: "carries E (put_value_s v) get_value_s (ren_value E v)"
proof (cases "is_object v")
  case True
  have "carries E (in_order [write_u8 0xff, write_reference v]) get_value_s (encode_object_value (ren_ref E v))"
    unfolding get_value_s_def by (rule carries_tag) (simp add: carries_map carrying)
  then show ?thesis using True by (simp add: put_value_s_def ren_value_def)
next
  case False
  have "carries E (in_order [write_u8 0x1f, write_u64 v]) get_value_s v"
    unfolding get_value_s_def by (rule carries_tag) (simp add: carries_map [where f = "\<lambda>x. x"] carrying)
  then show ?thesis using False by (simp add: put_value_s_def ren_value_def)
qed

lemma progress_tag [carrying]: "carries E (in_order ws) g v \<Longrightarrow> writes_some (in_order (write_u8 t # ws))"
  by (rule progress_first [OF progress_words(1)])

interpretation value_codec: codec put_value_s get_value_s ren_value
proof
  show "carries E (put_value_s v) get_value_s (ren_value E v)" for E v by (rule carries_value)
  have "writes_some (put_value_s v)" for v
    using progress_tag [OF carries_last [OF carries_reference]] progress_tag [OF carries_last [OF carries_word(3)]]
    by (simp add: put_value_s_def del: in_order.simps)
  then show "put_value_s v s = Some s' \<Longrightarrow> length (sr_out s) < length (sr_out s')" for v s s'
    by (simp add: writes_some_def)
qed

interpretation symbol_codec: codec write_symbol get_symbol ren_symbol
proof
  show "carries E (write_symbol name) get_symbol (ren_symbol E name)" for E name by (rule carries_symbol)
  have "writes_some (write_symbol name)" for name
    using progress_tag [OF carries_last [OF carries_word(2)]] progress_tag [OF carries_last [OF carries_symbol_index]]
    by (simp add: write_symbol_def del: in_order.simps split: symbol.split)
  then show "write_symbol name s = Some s' \<Longrightarrow> length (sr_out s) < length (sr_out s')" for name s s'
    by (simp add: writes_some_def)
qed

section \<open>Options\<close>

definition put_option :: "('a \<Rightarrow> writer) \<Rightarrow> 'a option \<Rightarrow> writer" where
  "put_option put x = (case x of Some item \<Rightarrow> in_order [write_u8 1, put item] | None \<Rightarrow> write_u8 0)"
definition get_option :: "'b reader \<Rightarrow> 'b option reader" where
  "get_option get = r_bind get_u8 (\<lambda>is_empty.
     if is_empty = 0 then r_return None
     else if is_empty = 1 then r_bind get (\<lambda>val. r_return (Some val))
     else r_panic)"

section \<open>Sequences\<close>

type_synonym 'a vec = "u64 \<times> 'a list"

definition put_vec :: "('a \<Rightarrow> writer) \<Rightarrow> 'a vec \<Rightarrow> writer" where
  "put_vec put v = in_order [write_u64 (of_nat (length (snd v))), write_u64 (fst v), in_order (map put (snd v))]"
definition get_vec :: "'b reader \<Rightarrow> 'b vec reader" where
  "get_vec get = r_bind get_u64 (\<lambda>len. r_bind get_u64 (\<lambda>cap. r_bind (read_many (unat len) get) (\<lambda>this. r_return (cap, this))))"

text \<open>\<open>&[T]\<close> and \<open>SegmentedVec\<close> have no capacity.\<close>

definition put_slice :: "('a \<Rightarrow> writer) \<Rightarrow> 'a list \<Rightarrow> writer" where
  "put_slice put xs = in_order [write_u64 (of_nat (length xs)), in_order (map put xs)]"
definition get_slice :: "'b reader \<Rightarrow> 'b list reader" where
  "get_slice get = r_bind get_u64 (\<lambda>len. read_many (unat len) get)"

text \<open>\<open>SegmentedVec\<close>: the same bytes.\<close>

definition put_segmented :: "('a \<Rightarrow> writer) \<Rightarrow> 'a list \<Rightarrow> writer" where
  "put_segmented put xs = in_order [write_u64 (of_nat (length xs)), in_order (map put xs)]"
definition get_segmented :: "'b reader \<Rightarrow> 'b list reader" where
  "get_segmented get = r_bind get_u64 (\<lambda>len. r_bind (read_many (unat len) get) (\<lambda>vec. r_return vec))"

text \<open>\<open>String\<close>: its bytes.\<close>

definition put_string :: "u8 vec \<Rightarrow> writer" where
  "put_string v = in_order [write_u64 (of_nat (length (snd v))), write_u64 (fst v), in_order (map write_u8 (snd v))]"
definition get_string :: "u8 vec reader" where
  "get_string = r_bind get_u64 (\<lambda>len. r_bind get_u64 (\<lambda>capacity. r_bind (read_many (unat len) get_u8) (\<lambda>bytes. r_return (capacity, bytes))))"

section \<open>Hash maps\<close>

definition put_map :: "('k \<Rightarrow> writer) \<Rightarrow> ('v \<Rightarrow> writer) \<Rightarrow> ('k \<times> 'v) vec \<Rightarrow> writer" where
  "put_map putk putv m =
     in_order [write_u64 (of_nat (length (snd m))), write_u64 (fst m),
       in_order (map (\<lambda>(key, value). in_order [putk key, putv value]) (snd m))]"
definition get_map :: "'k reader \<Rightarrow> 'v reader \<Rightarrow> ('k \<times> 'v) vec reader" where
  "get_map getk getv = r_bind get_u64 (\<lambda>len. r_bind get_u64 (\<lambda>cap.
     r_bind (read_many (unat len) (r_bind getk (\<lambda>key. r_bind getv (\<lambda>val. r_return (key, val))))) (\<lambda>entries.
       r_return (cap, fold (\<lambda>(key, val). AList.update key val) entries []))))"
definition ren_map :: "('a \<Rightarrow> 'k) \<Rightarrow> ('b \<Rightarrow> 'v) \<Rightarrow> ('a \<times> 'b) vec \<Rightarrow> ('k \<times> 'v) vec" where
  "ren_map rk rv m = (fst m, fold (\<lambda>(key, val). AList.update key val) (map (\<lambda>(key, val). (rk key, rv val)) (snd m)) [])"

text \<open>When the keys stay distinct, nothing is lost.\<close>

lemma update_new: "k \<notin> fst ` set ys \<Longrightarrow> AList.update k v ys = ys @ [(k, v)]"
  by (induction ys) auto

lemma fold_update_distinct:
  "distinct (map fst (ys @ xs)) \<Longrightarrow> fold (\<lambda>(key, val). AList.update key val) xs ys = ys @ xs"
proof (induction xs arbitrary: ys)
  case (Cons x xs)
  have "AList.update (fst x) (snd x) ys = ys @ [x]"
    using Cons.prems update_new [of "fst x" ys "snd x"] by auto
  then show ?case using Cons.IH [of "ys @ [x]"] Cons.prems by (simp add: split_beta)
qed simp

lemma ren_map_distinct:
  "distinct (map (rk \<circ> fst) (snd m)) \<Longrightarrow> ren_map rk rv m = (fst m, map (\<lambda>(key, val). (rk key, rv val)) (snd m))"
  using fold_update_distinct [of "[]" "map (\<lambda>(key, val). (rk key, rv val)) (snd m)"]
  by (simp add: ren_map_def comp_def split_beta)

section \<open>Their contracts\<close>

lemma r_bind_return [simp]: "r_bind m r_return = m" "r_bind (r_return x) f = f x"
  by (rule ext, simp add: r_bind_def r_return_def split: option.split)+

lemma r_bind_assoc [simp]: "r_bind (r_bind m f) k = r_bind m (\<lambda>x. r_bind (f x) k)"
  by (rule ext) (simp add: r_bind_def split: option.split)

lemma in_order_single: "in_order [w] = w"
  by (rule ext) (simp split: option.split)

lemma carries_post: "carries E w g x \<Longrightarrow> carries E w (r_bind g (\<lambda>x. r_return (f x))) (f x)"
  using carries_map [of E w g x f] by (simp only: in_order_single)

context codec
begin

lemma appending: "appends (put x)"
  by (rule carries_appends [OF law])

lemma writing: "writes_some (put x)"
  using progress by (simp add: writes_some_def)

lemma many: "carries E (in_order (map put xs)) (read_many (length xs) get) (map (ren E) xs)"
proof (induction xs)
  case Nil
  show ?case by (simp only: list.map list.size read_many.simps carries_return)
next
  case (Cons x xs)
  have "carries E (in_order (put x # map put xs)) (r_bind get (\<lambda>y. r_bind (read_many (length xs) get) (\<lambda>ys. r_return (y # ys))))
      (ren E x # map (ren E) xs)"
    by (rule carries_bind [where u = "ren E x"]) (rule law, rule carries_post [OF Cons.IH])
  then show ?case by (simp del: in_order.simps)
qed

lemma many_long: "in_order (map put xs) s = Some s' \<Longrightarrow> length (sr_out s) + length xs \<le> length (sr_out s')"
proof (induction xs arbitrary: s)
  case (Cons x xs)
  then obtain s1 where "put x s = Some s1" "in_order (map put xs) s1 = Some s'" by (auto split: option.splits)
  then show ?case using progress [of x s s1] Cons.IH [of s1] by simp
qed simp

text \<open>A sequence does not have more items than the snapshot has bytes, so its length is read back.\<close>

lemma counted_at:
  assumes "length xs < 2 ^ 32 \<Longrightarrow> n = length xs"
  shows "carries E (in_order (map put xs)) (read_many n get) (map (ren E) xs)"
proof (cases "length xs < 2 ^ 32")
  case True
  then show ?thesis using many assms by simp
next
  case False
  show ?thesis
  proof (rule carriesI)
    fix s s' assume r: "in_order (map put xs) s = Some s'"
    then obtain bs where "s' = s\<lparr>sr_out := sr_out s @ bs\<rparr>" using carriesE [OF many] by blast
    moreover have "\<not> length (sr_out s') < 2 ^ 32" using many_long [OF r] False by simp
    ultimately show "\<exists>bs. s' = s\<lparr>sr_out := sr_out s @ bs\<rparr> \<and> (\<forall>d. writes_in E s \<longrightarrow> length (sr_out s') < 2 ^ 32 \<longrightarrow> reads_in E d \<longrightarrow>
        bytes_at d bs \<longrightarrow> read_many n get d = Some (map (ren E) xs, d\<lparr>ds_pc := ds_pc d + length bs\<rparr>))"
      by blast
  qed
qed

lemma counted: "carries E (in_order (map put xs)) (read_many (unat (of_nat (length xs) :: u64)) get) (map (ren E) xs)"
  and counted32: "carries E (in_order (map put xs)) (read_many (unat (of_nat (length xs) :: u32)) get) (map (ren E) xs)"
  by (rule counted_at; simp add: unat_of_nat)+

lemma option_codec: "codec (put_option put) (get_option get) (\<lambda>E. map_option (ren E))"
proof
  show "carries E (put_option put x) (get_option get) (map_option (ren E) x)" for E x
  proof (cases x)
    case None
    have "carries E (in_order [write_u8 0]) (get_option get) None"
      unfolding get_option_def by (rule carries_tag) (simp add: carries_return del: in_order.simps)
    then show ?thesis using None unfolding in_order_single by (simp add: put_option_def)
  next
    case (Some y)
    have "carries E (in_order [write_u8 1, put y]) (get_option get) (Some (ren E y))"
      unfolding get_option_def by (rule carries_tag) (simp add: carries_map law)
    then show ?thesis using Some by (simp add: put_option_def)
  qed
  have "writes_some (put_option put x)" for x
    using progress_words(1) progress_tag [OF carries_last [OF law]] by (simp add: put_option_def del: in_order.simps split: option.split)
  then show "put_option put x s = Some s' \<Longrightarrow> length (sr_out s) < length (sr_out s')" for x s s'
    by (simp add: writes_some_def)
qed

lemma vec_codec: "codec (put_vec put) (get_vec get) (\<lambda>E v. (fst v, map (ren E) (snd v)))"
proof
  have c: "carries E (in_order [write_u64 (fst v), in_order (map put (snd v))]) (r_bind get_u64 (\<lambda>cap.
      r_bind (read_many (unat (of_nat (length (snd v)) :: u64)) get) (\<lambda>this. r_return (cap, this)))) (fst v, map (ren E) (snd v))"
    for E v by (rule carries_bind [OF carries_word(3)], rule carries_map [OF counted])
  show "carries E (put_vec put v) (get_vec get) (fst v, map (ren E) (snd v))" for E v
    unfolding put_vec_def get_vec_def by (rule carries_bind [where u = "of_nat (length (snd v))"]) (rule carries_word, rule c)
  show "put_vec put v s = Some s' \<Longrightarrow> length (sr_out s) < length (sr_out s')" for v s s'
    using progress_first [OF progress_words(4) c] unfolding put_vec_def writes_some_def by blast
qed

lemma slice_codec: "codec (put_slice put) (get_slice get) (\<lambda>E. map (ren E))"
proof
  have c: "carries E (in_order [in_order (map put xs)]) (read_many (unat (of_nat (length xs) :: u64)) get) (map (ren E) xs)"
    for E xs by (rule carries_last [OF counted])
  show "carries E (put_slice put xs) (get_slice get) (map (ren E) xs)" for E xs
    unfolding put_slice_def get_slice_def by (rule carries_bind [where u = "of_nat (length xs)"]) (rule carries_word, rule c)
  show "put_slice put xs s = Some s' \<Longrightarrow> length (sr_out s) < length (sr_out s')" for xs s s'
    using progress_first [OF progress_words(4) c] unfolding put_slice_def writes_some_def by blast
qed

lemma segmented_codec: "codec (put_segmented put) (get_segmented get) (\<lambda>E. map (ren E))"
proof -
  have "get_segmented get = get_slice get" "put_segmented put = put_slice put"
    by (simp_all add: get_segmented_def get_slice_def put_segmented_def put_slice_def fun_eq_iff)
  then show ?thesis using slice_codec by simp
qed

end

interpretation string_codec: codec put_string get_string "\<lambda>_ v. v"
proof -
  have "put_string = put_vec write_u8" "get_string = get_vec get_u8"
    by (auto simp: put_string_def put_vec_def get_string_def get_vec_def fun_eq_iff)
  then show "codec put_string get_string (\<lambda>_ v. v)" using u8_codec.vec_codec by simp
qed

text \<open>Entries, and hash maps.\<close>

definition put_pair :: "('k \<Rightarrow> writer) \<Rightarrow> ('v \<Rightarrow> writer) \<Rightarrow> 'k \<times> 'v \<Rightarrow> writer" where
  "put_pair putk putv e = in_order [putk (fst e), putv (snd e)]"
definition get_pair :: "'k reader \<Rightarrow> 'v reader \<Rightarrow> ('k \<times> 'v) reader" where
  "get_pair getk getv = r_bind getk (\<lambda>key. r_bind getv (\<lambda>val. r_return (key, val)))"

lemma pair_codec:
  assumes k: "codec putk getk rk" and v: "codec putv getv rv"
  shows "codec (put_pair putk putv) (get_pair getk getv) (\<lambda>E e. (rk E (fst e), rv E (snd e)))"
proof
  have c: "carries E (in_order [putv y]) (r_bind getv (\<lambda>val. r_return (x, val))) (x, rv E y)" for E x y
    by (rule carries_map [OF codec.law [OF v]])
  show "carries E (put_pair putk putv e) (get_pair getk getv) (rk E (fst e), rv E (snd e))" for E e
    unfolding put_pair_def get_pair_def by (rule carries_bind [OF codec.law [OF k]]) (rule c)
  have "writes_some (put_pair putk putv e)" for e
    unfolding put_pair_def using progress_first [OF _ c] codec.progress [OF k] unfolding writes_some_def by blast
  then show "put_pair putk putv e s = Some s' \<Longrightarrow> length (sr_out s) < length (sr_out s')" for e s s'
    by (simp add: writes_some_def)
qed

lemma map_codec:
  assumes "codec putk getk rk" "codec putv getv rv"
  shows "codec (put_map putk putv) (get_map getk getv) (\<lambda>E. ren_map (rk E) (rv E))"
proof -
  let ?f = "\<lambda>m. (fst m, fold (\<lambda>(key, val). AList.update key val) (snd m) [])"
  have v: "codec (put_vec (put_pair putk putv)) (get_vec (get_pair getk getv))
      (\<lambda>E m. (fst m, map (\<lambda>e. (rk E (fst e), rv E (snd e))) (snd m)))"
    by (rule codec.vec_codec [OF pair_codec [OF assms]])
  have put: "put_map putk putv = put_vec (put_pair putk putv)"
  proof -
    have "(\<lambda>(key, value). in_order [putk key, putv value]) = put_pair putk putv"
      by (rule ext) (simp only: put_pair_def split_beta)
    then show ?thesis by (intro ext) (simp only: put_map_def put_vec_def)
  qed
  have get: "get_map getk getv = r_bind (get_vec (get_pair getk getv)) (\<lambda>m. r_return (?f m))"
    by (simp add: get_map_def get_vec_def get_pair_def)
  have ren: "ren_map (rk E) (rv E) m = ?f (fst m, map (\<lambda>e. (rk E (fst e), rv E (snd e))) (snd m))" for E m
    by (simp add: ren_map_def case_prod_unfold)
  show ?thesis
    unfolding put get ren by (rule codec.intro) (rule carries_post [OF codec.law [OF v]], rule codec.progress [OF v])
qed

end
