(* ===== verification/Snapshot_Cells.thy ===== *)
theory Snapshot_Cells
  imports Snapshot_Codec Bytecode
begin

text \<open>
  The cells of a snapshot: for each type of cell its fields as they are written, \<open>serialize\<close>, \<open>deserialize\<close>
  and what becomes of its references and symbols. A pointer is the address of its cell.
\<close>

lemma carries_return_eq: "v' = v \<Longrightarrow> carries E (in_order []) (r_return v') v"
  by (simp only: carries_return)

section \<open>Entries of structures\<close>

record map_entry_s =
  ms_offset :: u32
  ms_attrs :: u32
record transition_key_s =
  tk_name :: symbol
  tk_attrs :: u32
record stored_slot_s =
  ss_value :: js_value
  ss_attributes :: u32

definition put_map_entry :: "map_entry_s \<Rightarrow> writer" where
  "put_map_entry e = in_order [write_u32 (ms_offset e), write_u32 (ms_attrs e)]"
definition get_map_entry :: "map_entry_s reader" where
  "get_map_entry = r_bind get_u32 (\<lambda>offset. r_bind get_u32 (\<lambda>attrs. r_return \<lparr>ms_offset = offset, ms_attrs = attrs\<rparr>))"

definition put_transition_key :: "transition_key_s \<Rightarrow> writer" where
  "put_transition_key k = in_order [write_symbol (tk_name k), write_u32 (tk_attrs k)]"
definition get_transition_key :: "transition_key_s reader" where
  "get_transition_key = r_bind get_symbol (\<lambda>name. r_bind get_u32 (\<lambda>attrs. r_return \<lparr>tk_name = name, tk_attrs = attrs\<rparr>))"
definition ren_transition_key :: "renaming \<Rightarrow> transition_key_s \<Rightarrow> transition_key_s" where
  "ren_transition_key E k = k\<lparr>tk_name := ren_symbol E (tk_name k)\<rparr>"

definition put_stored_slot :: "stored_slot_s \<Rightarrow> writer" where
  "put_stored_slot x = in_order [put_value_s (ss_value x), write_u32 (ss_attributes x)]"
definition get_stored_slot :: "stored_slot_s reader" where
  "get_stored_slot = r_bind get_value_s (\<lambda>value. r_bind get_u32 (\<lambda>attributes. r_return \<lparr>ss_value = value, ss_attributes = attributes\<rparr>))"
definition ren_stored_slot :: "renaming \<Rightarrow> stored_slot_s \<Rightarrow> stored_slot_s" where
  "ren_stored_slot E x = x\<lparr>ss_value := ren_value E (ss_value x)\<rparr>"

text \<open>A compound writer makes progress when its first writer does.\<close>

lemma codecI:
  assumes "\<And>E x. carries E (put x) get (ren E x)" "\<And>x. put x = in_order (w x # ws x)" "\<And>x. writes_some (w x)"
    "\<And>x. \<forall>w\<in>set (ws x). appends w"
  shows "codec put get ren"
proof
  show "carries E (put x) get (ren E x)" for E x by (rule assms(1))
  have "writes_some (put x)" for x unfolding assms(2) by (rule progress_in_order [OF assms(3,4)])
  then show "put x s = Some s' \<Longrightarrow> length (sr_out s) < length (sr_out s')" for x s s' by (simp add: writes_some_def)
qed

named_theorems appending \<open>what only appends\<close>

declare u8_codec.appending [appending] u32_codec.appending [appending] ref_codec.appending [appending] bool_codec.appending [appending]
  value_codec.appending [appending] symbol_codec.appending [appending] string_codec.appending [appending]
declare value_codec.law [carrying]

interpretation map_entry: codec put_map_entry get_map_entry "\<lambda>_ e. e"
proof (rule codecI)
  show "carries E (put_map_entry e) get_map_entry e" for E e
    unfolding put_map_entry_def get_map_entry_def by ((rule carries_return_eq carries_bind carrying)+) simp
qed (auto simp: put_map_entry_def appending carrying)

interpretation transition_key: codec put_transition_key get_transition_key ren_transition_key
proof (rule codecI)
  show "carries E (put_transition_key k) get_transition_key (ren_transition_key E k)" for E k
    unfolding put_transition_key_def get_transition_key_def
    by ((rule carries_return_eq carries_bind carrying)+) (simp add: ren_transition_key_def)
qed (auto simp: put_transition_key_def appending symbol_codec.writing)

interpretation stored_slot: codec put_stored_slot get_stored_slot ren_stored_slot
proof (rule codecI)
  show "carries E (put_stored_slot x) get_stored_slot (ren_stored_slot E x)" for E x
    unfolding put_stored_slot_def get_stored_slot_def
    by ((rule carries_return_eq carries_bind carrying)+) (simp add: ren_stored_slot_def)
qed (auto simp: put_stored_slot_def appending value_codec.writing)

text \<open>The containers that the cells use.\<close>

interpretation ref_option: codec "put_option write_reference" "get_option get_reference" "\<lambda>E. map_option (ren_ref E)"
  by (rule ref_codec.option_codec)
interpretation u32_option: codec "put_option write_u32" "get_option get_u32" "\<lambda>_ x. x"
proof -
  have "map_option (\<lambda>x. x) = (\<lambda>x :: u32 option. x)" by (rule ext) (simp add: option.map_ident)
  then show "codec (put_option write_u32) (get_option get_u32) (\<lambda>_ x. x)" using u32_codec.option_codec by simp
qed
interpretation symbol_vec: codec "put_vec write_symbol" "get_vec get_symbol" "\<lambda>E v. (fst v, map (ren_symbol E) (snd v))"
  by (rule symbol_codec.vec_codec)
interpretation value_vec: codec "put_vec put_value_s" "get_vec get_value_s" "\<lambda>E v. (fst v, map (ren_value E) (snd v))"
  by (rule value_codec.vec_codec)
interpretation ref_vec: codec "put_vec write_reference" "get_vec get_reference" "\<lambda>E v. (fst v, map (ren_ref E) (snd v))"
  by (rule ref_codec.vec_codec)
interpretation byte_vec: codec "put_vec write_u8" "get_vec get_u8" "\<lambda>_ v. v"
  using u8_codec.vec_codec by (simp add: list.map_ident)
interpretation symbol_slice: codec "put_slice write_symbol" "get_slice get_symbol" "\<lambda>E. map (ren_symbol E)"
  by (rule symbol_codec.slice_codec)
interpretation variables_codec: codec "put_segmented put_stored_slot" "get_segmented get_stored_slot" "\<lambda>E. map (ren_stored_slot E)"
  by (rule stored_slot.segmented_codec)
interpretation names_map: codec "put_map write_symbol write_u32" "get_map get_symbol get_u32" "\<lambda>E. ren_map (ren_symbol E) (\<lambda>x. x)"
  by (rule map_codec [OF symbol_codec.codec_axioms u32_codec.codec_axioms])
interpretation symbol_refs: codec "put_map write_symbol write_reference" "get_map get_symbol get_reference" "\<lambda>E. ren_map (ren_symbol E) (ren_ref E)"
  by (rule map_codec [OF symbol_codec.codec_axioms ref_codec.codec_axioms])
interpretation target_table: codec "put_map write_symbol put_map_entry" "get_map get_symbol get_map_entry" "\<lambda>E. ren_map (ren_symbol E) (\<lambda>e. e)"
  by (rule map_codec [OF symbol_codec.codec_axioms map_entry.codec_axioms])
interpretation transition_table: codec "put_map put_transition_key write_reference" "get_map get_transition_key get_reference"
    "\<lambda>E. ren_map (ren_transition_key E) (ren_ref E)"
  by (rule map_codec [OF transition_key.codec_axioms ref_codec.codec_axioms])
interpretation sparse_map: codec "put_map write_u32 put_stored_slot" "get_map get_u32 get_stored_slot" "\<lambda>E. ren_map (\<lambda>k. k) (ren_stored_slot E)"
  by (rule map_codec [OF u32_codec.codec_axioms stored_slot.codec_axioms])

lemmas container_laws [carrying] =
  ref_option.law u32_option.law symbol_vec.law value_vec.law ref_vec.law byte_vec.law symbol_slice.law variables_codec.law
  names_map.law symbol_refs.law target_table.law transition_table.law sparse_map.law string_codec.law
  map_entry.law transition_key.law stored_slot.law
lemmas container_appending [appending] =
  ref_option.appending u32_option.appending symbol_vec.appending value_vec.appending ref_vec.appending byte_vec.appending
  names_map.appending symbol_refs.appending map_entry.appending transition_key.appending

section \<open>Structures\<close>

text \<open>A weak reference is the address of its slot.\<close>

datatype transition_s = TransNone | TransTable "u64 option" | TransPair transition_key_s u64

record transitions_s =
  tt_var :: transition_s
  tt_enabled :: bool
  tt_unique :: bool
  tt_indexed :: bool

record deleted_holder_s =
  dh_entry :: "u64 option"
  dh_size :: u32

record structure_s =
  st_transitions :: transitions_s
  st_table :: "u64 option"
  st_deleted :: deleted_holder_s
  st_added :: "symbol \<times> map_entry_s"
  st_previous :: "u64 option"
  st_prototype :: "u64 option"
  st_calculated_size :: u32
  st_transit_count :: u32
  st_flattened :: bool
  st_chain :: "u64 option"
  st_id :: u32

definition put_transition :: "transition_s \<Rightarrow> writer" where
  "put_transition t =
     (case t of
        TransNone \<Rightarrow> in_order [write_u8 0]
      | TransTable table \<Rightarrow> in_order [write_u8 1, put_option write_reference table]
      | TransPair key structure \<Rightarrow> in_order [write_u8 2, put_transition_key key, write_reference structure])"
definition get_transition :: "transition_s reader" where
  "get_transition = r_bind get_u8 (\<lambda>ty.
     if ty = 0 then r_return TransNone
     else if ty = 1 then r_bind (get_option get_reference) (\<lambda>table. r_return (TransTable table))
     else if ty = 2 then r_bind get_transition_key (\<lambda>key. r_bind get_reference (\<lambda>structure. r_return (TransPair key structure)))
     else r_panic)"
definition ren_transition :: "renaming \<Rightarrow> transition_s \<Rightarrow> transition_s" where
  "ren_transition E t =
     (case t of
        TransNone \<Rightarrow> TransNone
      | TransTable table \<Rightarrow> TransTable (map_option (ren_ref E) table)
      | TransPair key structure \<Rightarrow> TransPair (ren_transition_key E key) (ren_ref E structure))"

lemma carries_transition [carrying]: "carries E (put_transition t) get_transition (ren_transition E t)"
proof (cases t)
  case TransNone
  have "carries E (in_order [write_u8 0]) get_transition TransNone"
    unfolding get_transition_def by (rule carries_tag) (simp only: if_True refl carries_return)
  then show ?thesis using TransNone by (simp only: put_transition_def ren_transition_def transition_s.case)
next
  case (TransTable table)
  have "carries E (in_order [write_u8 1, put_option write_reference table]) get_transition (TransTable (map_option (ren_ref E) table))"
    unfolding get_transition_def by (rule carries_tag) (simp add: carries_map carrying del: in_order.simps)
  then show ?thesis using TransTable by (simp only: put_transition_def ren_transition_def transition_s.case)
next
  case (TransPair key shape)
  have "carries E (in_order [put_transition_key key, write_reference shape])
      (r_bind get_transition_key (\<lambda>key. r_bind get_reference (\<lambda>structure. r_return (TransPair key structure))))
      (TransPair (ren_transition_key E key) (ren_ref E shape))"
    by ((rule carries_return_eq carries_bind carrying)+) simp
  then have "carries E (in_order [write_u8 2, put_transition_key key, write_reference shape]) get_transition
      (TransPair (ren_transition_key E key) (ren_ref E shape))"
    unfolding get_transition_def by (intro carries_tag) (simp del: in_order.simps)
  then show ?thesis using TransPair by (simp only: put_transition_def ren_transition_def transition_s.case)
qed

definition put_transitions :: "transitions_s \<Rightarrow> writer" where
  "put_transitions t = in_order [put_transition (tt_var t), put_bool (tt_enabled t), put_bool (tt_unique t), put_bool (tt_indexed t)]"
definition get_transitions :: "transitions_s reader" where
  "get_transitions = r_bind get_transition (\<lambda>var. r_bind get_bool_r (\<lambda>enabled. r_bind get_bool_r (\<lambda>unique. r_bind get_bool_r (\<lambda>indexed.
     r_return \<lparr>tt_var = var, tt_enabled = enabled, tt_unique = unique, tt_indexed = indexed\<rparr>))))"
definition ren_transitions :: "renaming \<Rightarrow> transitions_s \<Rightarrow> transitions_s" where
  "ren_transitions E t = t\<lparr>tt_var := ren_transition E (tt_var t)\<rparr>"

lemma carries_transitions [carrying]: "carries E (put_transitions t) get_transitions (ren_transitions E t)"
  unfolding put_transitions_def get_transitions_def
  by ((rule carries_return_eq carries_bind carrying)+) (simp add: ren_transitions_def)

definition put_deleted_holder :: "deleted_holder_s \<Rightarrow> writer" where
  "put_deleted_holder h = in_order [put_option write_reference (dh_entry h), write_u32 (dh_size h)]"
definition get_deleted_holder :: "deleted_holder_s reader" where
  "get_deleted_holder = r_bind (get_option get_reference) (\<lambda>entry. r_bind get_u32 (\<lambda>size. r_return \<lparr>dh_entry = entry, dh_size = size\<rparr>))"
definition ren_deleted_holder :: "renaming \<Rightarrow> deleted_holder_s \<Rightarrow> deleted_holder_s" where
  "ren_deleted_holder E h = h\<lparr>dh_entry := map_option (ren_ref E) (dh_entry h)\<rparr>"

lemma carries_deleted_holder [carrying]: "carries E (put_deleted_holder h) get_deleted_holder (ren_deleted_holder E h)"
  unfolding put_deleted_holder_def get_deleted_holder_def
  by ((rule carries_return_eq carries_bind carrying)+) (simp add: ren_deleted_holder_def)

text \<open>The identity of a structure is not part of the snapshot.\<close>

definition put_structure :: "structure_s \<Rightarrow> writer" where
  "put_structure x =
     in_order [put_transitions (st_transitions x), put_option write_reference (st_table x), put_deleted_holder (st_deleted x),
       write_symbol (fst (st_added x)), put_map_entry (snd (st_added x)), put_option write_reference (st_previous x),
       put_option write_reference (st_prototype x), write_u32 (st_calculated_size x), write_u32 (st_transit_count x),
       put_bool (st_flattened x), put_option write_reference (st_chain x)]"
definition get_structure :: "structure_s reader" where
  "get_structure =
     r_bind get_transitions (\<lambda>transitions. r_bind (get_option get_reference) (\<lambda>table. r_bind get_deleted_holder (\<lambda>deleted.
     r_bind get_symbol (\<lambda>key. r_bind get_map_entry (\<lambda>val. r_bind (get_option get_reference) (\<lambda>previous.
     r_bind (get_option get_reference) (\<lambda>prototype. r_bind get_u32 (\<lambda>calculated_size. r_bind get_u32 (\<lambda>transit_count.
     r_bind get_bool_r (\<lambda>has_been_flattened_before. r_bind (get_option get_reference) (\<lambda>cached_prototype_chain.
       r_return \<lparr>st_transitions = transitions, st_table = table, st_deleted = deleted, st_added = (key, val), st_previous = previous,
         st_prototype = prototype, st_calculated_size = calculated_size, st_transit_count = transit_count,
         st_flattened = has_been_flattened_before, st_chain = cached_prototype_chain, st_id = 0\<rparr>)))))))))))"
definition ren_structure :: "renaming \<Rightarrow> structure_s \<Rightarrow> structure_s" where
  "ren_structure E x =
     x\<lparr>st_transitions := ren_transitions E (st_transitions x), st_table := map_option (ren_ref E) (st_table x),
       st_deleted := ren_deleted_holder E (st_deleted x), st_added := (ren_symbol E (fst (st_added x)), snd (st_added x)),
       st_previous := map_option (ren_ref E) (st_previous x), st_prototype := map_option (ren_ref E) (st_prototype x),
       st_chain := map_option (ren_ref E) (st_chain x), st_id := 0\<rparr>"

lemma carries_structure: "carries E (put_structure x) get_structure (ren_structure E x)"
  unfolding put_structure_def get_structure_def
  by ((rule carries_return_eq carries_bind carrying)+) (simp add: ren_structure_def)

text \<open>A deleted entry is not read as it is written: \<open>prev\<close> is an option, but read as a reference.\<close>

record deleted_entry_s =
  de_prev :: "u64 option"
  de_offset :: u32

definition put_deleted_entry :: "deleted_entry_s \<Rightarrow> writer" where
  "put_deleted_entry e = in_order [put_option write_reference (de_prev e), write_u32 (de_offset e)]"
definition get_deleted_entry :: "deleted_entry_s reader" where
  "get_deleted_entry = r_bind get_reference (\<lambda>prev. r_bind get_u32 (\<lambda>offset.
     r_return \<lparr>de_prev = (if prev = 0 then None else Some prev), de_offset = offset\<rparr>))"

end
