(* ===== verification/Snapshot_Objects.thy ===== *)
theory Snapshot_Objects
  imports Snapshot_Cells
begin

text \<open>Objects, functions, code blocks, environments and contexts in a snapshot.\<close>

section \<open>Feedback and code blocks\<close>

definition put_feedback :: "type_feedback \<Rightarrow> writer" where
  "put_feedback fb =
     (case fb of
        PropertyCache structure offset mode \<Rightarrow>
          in_order [write_u8 1, write_reference structure, write_u32 (of_nat offset),
            (case mode of ArrayLength \<Rightarrow> in_order [write_u8 0] | Default \<Rightarrow> in_order [write_u8 1]
             | ProtoLoad slot \<Rightarrow> in_order [write_u8 2, write_reference slot])]
      | StructureCache structure \<Rightarrow> in_order [write_u8 2, write_reference structure]
      | PutByIdFeedBack new_structure old_structure offset chain \<Rightarrow>
          in_order [write_u8 3, put_option write_reference new_structure, put_option write_reference old_structure,
            write_u32 (of_nat offset), put_option write_reference chain]
      | NoFeedBack \<Rightarrow> in_order [write_u8 0])"
definition get_mode :: "get_by_id_mode reader" where
  "get_mode = r_bind get_u8 (\<lambda>mode.
     if mode = 0 then r_return ArrayLength
     else if mode = 1 then r_return Default
     else if mode = 2 then r_bind get_reference (\<lambda>gc. r_return (ProtoLoad gc))
     else r_panic)"
definition get_feedback :: "type_feedback reader" where
  "get_feedback = r_bind get_u8 (\<lambda>ty.
     if ty = 1 then r_bind get_reference (\<lambda>structure. r_bind get_u32 (\<lambda>offset. r_bind get_mode (\<lambda>mode.
       r_return (PropertyCache structure (unat offset) mode))))
     else if ty = 2 then r_bind get_reference (\<lambda>structure. r_return (StructureCache structure))
     else if ty = 3 then r_bind (get_option get_reference) (\<lambda>new_structure. r_bind (get_option get_reference) (\<lambda>old_structure.
       r_bind get_u32 (\<lambda>offset. r_bind (get_option get_reference) (\<lambda>chain.
       r_return (PutByIdFeedBack new_structure old_structure (unat offset) chain)))))
     else if ty = 0 then r_return NoFeedBack
     else r_panic)"
definition ren_mode :: "renaming \<Rightarrow> get_by_id_mode \<Rightarrow> get_by_id_mode" where
  "ren_mode E mode = (case mode of ProtoLoad slot \<Rightarrow> ProtoLoad (ren_ref E slot) | m \<Rightarrow> m)"
definition ren_feedback :: "renaming \<Rightarrow> type_feedback \<Rightarrow> type_feedback" where
  "ren_feedback E fb =
     (case fb of
        PropertyCache structure offset mode \<Rightarrow> PropertyCache (ren_ref E structure) (unat (of_nat offset :: u32)) (ren_mode E mode)
      | StructureCache structure \<Rightarrow> StructureCache (ren_ref E structure)
      | PutByIdFeedBack new_structure old_structure offset chain \<Rightarrow>
          PutByIdFeedBack (map_option (ren_ref E) new_structure) (map_option (ren_ref E) old_structure) (unat (of_nat offset :: u32))
            (map_option (ren_ref E) chain)
      | NoFeedBack \<Rightarrow> NoFeedBack)"

lemma carries_mode [carrying]:
  "carries E (case mode of ArrayLength \<Rightarrow> in_order [write_u8 0] | Default \<Rightarrow> in_order [write_u8 1]
     | ProtoLoad slot \<Rightarrow> in_order [write_u8 2, write_reference slot]) get_mode (ren_mode E mode)"
proof (cases mode)
  case (ProtoLoad slot)
  have "carries E (in_order [write_u8 2, write_reference slot]) get_mode (ProtoLoad (ren_ref E slot))"
    unfolding get_mode_def by (rule carries_tag) (simp add: carries_map carrying del: in_order.simps)
  then show ?thesis using ProtoLoad by (simp only: get_by_id_mode.case ren_mode_def)
next
  case Default
  have "carries E (in_order [write_u8 1]) get_mode Default"
    unfolding get_mode_def by (rule carries_tag) (simp add: carries_return del: in_order.simps)
  then show ?thesis using Default by (simp only: get_by_id_mode.case ren_mode_def)
next
  case ArrayLength
  have "carries E (in_order [write_u8 0]) get_mode ArrayLength"
    unfolding get_mode_def by (rule carries_tag) (simp add: carries_return del: in_order.simps)
  then show ?thesis using ArrayLength by (simp only: get_by_id_mode.case ren_mode_def)
qed

lemma carries_feedback [carrying]: "carries E (put_feedback fb) get_feedback (ren_feedback E fb)"
proof (cases fb)
  case (StructureCache shape)
  have "carries E (in_order [write_u8 2, write_reference shape]) get_feedback (StructureCache (ren_ref E shape))"
    unfolding get_feedback_def by (rule carries_tag) (simp add: carries_map carrying del: in_order.simps)
  then show ?thesis using StructureCache by (simp only: put_feedback_def ren_feedback_def type_feedback.case)
next
  case (PropertyCache shape offset mode)
  have "carries E (put_feedback fb) get_feedback (ren_feedback E fb)"
    unfolding PropertyCache put_feedback_def ren_feedback_def type_feedback.case get_feedback_def
    by (rule carries_tag, simp only: if_True refl) ((rule carries_return_eq carries_bind carrying)+, simp)
  then show ?thesis .
next
  case (PutByIdFeedBack new_structure old_structure offset chain)
  show ?thesis
    unfolding PutByIdFeedBack put_feedback_def ren_feedback_def type_feedback.case get_feedback_def
    by (rule carries_tag, simp del: in_order.simps) ((rule carries_return_eq carries_bind carrying)+, simp)
next
  case NoFeedBack
  have "carries E (in_order [write_u8 0]) get_feedback NoFeedBack"
    unfolding get_feedback_def by (rule carries_tag) (simp add: carries_return del: in_order.simps)
  then show ?thesis using NoFeedBack by (simp only: put_feedback_def ren_feedback_def type_feedback.case)
qed

lemma progress_feedback: "writes_some (put_feedback fb)"
  by (cases fb; simp only: put_feedback_def type_feedback.case; rule progress_in_order)
    (auto intro: carrying appending carries_appends [OF carries_mode] appending simp del: in_order.simps)

interpretation feedback_codec: codec put_feedback get_feedback ren_feedback
  by unfold_locales (use progress_feedback carries_feedback in \<open>auto simp: writes_some_def\<close>)

interpretation feedback_vec: codec "put_vec put_feedback" "get_vec get_feedback" "\<lambda>E v. (fst v, map (ren_feedback E) (snd v))"
  by (rule feedback_codec.vec_codec)

text \<open>The ranges of source locations are \<open>usize\<close>, written as \<open>u32\<close>.\<close>

type_synonym location_s = "(u64 \<times> u64) \<times> u32 \<times> u32"

record code_block_s =
  cs_name :: symbol
  cs_names :: "symbol vec"
  cs_strict :: bool
  cs_code :: "u8 vec"
  cs_feedback :: "type_feedback vec"
  cs_literals :: "js_value vec"
  cs_codes :: "u64 vec"
  cs_top_level :: bool
  cs_use_arguments :: bool
  cs_file_name :: "u8 vec"
  cs_rest_at :: "u32 option"
  cs_var_count :: u32
  cs_param_count :: u32
  cs_args_at :: u32
  cs_is_constructor :: bool
  cs_loc :: "location_s list"
  cs_path :: "u8 list"
  cs_is_generator :: bool
  cs_is_async :: bool

definition put_location :: "location_s \<Rightarrow> writer" where
  "put_location l =
     in_order [write_u32 (ucast (fst (fst l))), write_u32 (ucast (snd (fst l))), write_u32 (fst (snd l)), write_u32 (snd (snd l))]"
definition get_location :: "location_s reader" where
  "get_location = r_bind get_u32 (\<lambda>start. r_bind get_u32 (\<lambda>end_at. r_bind get_u32 (\<lambda>line. r_bind get_u32 (\<lambda>col.
     r_return ((ucast start, ucast end_at), (line, col))))))"
definition low32 :: "u64 \<Rightarrow> u64" where "low32 x = ucast (ucast x :: u32)"
definition ren_location :: "location_s \<Rightarrow> location_s" where
  "ren_location l = ((low32 (fst (fst l)), low32 (snd (fst l))), snd l)"

interpretation location_codec: codec put_location get_location "\<lambda>_. ren_location"
proof (rule codecI)
  show "carries E (put_location l) get_location (ren_location l)" for E l
    unfolding put_location_def get_location_def
    by ((rule carries_return_eq carries_bind carrying)+) (simp add: ren_location_def low32_def)
qed (auto simp: put_location_def appending carrying)

definition put_code_block :: "code_block_s \<Rightarrow> writer" where
  "put_code_block b =
     in_order [write_symbol (cs_name b), put_vec write_symbol (cs_names b), put_bool (cs_strict b), put_vec write_u8 (cs_code b),
       put_vec put_feedback (cs_feedback b), put_vec put_value_s (cs_literals b), put_vec write_reference (cs_codes b),
       put_bool (cs_top_level b), put_bool (cs_use_arguments b), put_string (cs_file_name b), put_option write_u32 (cs_rest_at b),
       write_u32 (cs_var_count b), write_u32 (cs_param_count b), write_u32 (cs_args_at b), put_bool (cs_is_constructor b),
       write_u32 (of_nat (length (cs_loc b))), in_order (map put_location (cs_loc b)),
       put_string (of_nat (length (cs_path b)), cs_path b), put_bool (cs_is_generator b), put_bool (cs_is_async b)]"
definition get_code_block :: "code_block_s reader" where
  "get_code_block =
     r_bind get_symbol (\<lambda>name. r_bind (get_vec get_symbol) (\<lambda>names. r_bind get_bool_r (\<lambda>strict. r_bind (get_vec get_u8) (\<lambda>code.
     r_bind (get_vec get_feedback) (\<lambda>feedback. r_bind (get_vec get_value_s) (\<lambda>literals. r_bind (get_vec get_reference) (\<lambda>codes.
     r_bind get_bool_r (\<lambda>top_level. r_bind get_bool_r (\<lambda>use_arguments. r_bind get_string (\<lambda>file_name.
     r_bind (get_option get_u32) (\<lambda>rest_at. r_bind get_u32 (\<lambda>var_count. r_bind get_u32 (\<lambda>param_count. r_bind get_u32 (\<lambda>args_at.
     r_bind get_bool_r (\<lambda>is_constructor. r_bind get_u32 (\<lambda>len. r_bind (read_many (unat len) get_location) (\<lambda>loc.
     r_bind get_string (\<lambda>path. r_bind get_bool_r (\<lambda>is_generator. r_bind get_bool_r (\<lambda>is_async.
       r_return \<lparr>cs_name = name, cs_names = names, cs_strict = strict, cs_code = code, cs_feedback = feedback, cs_literals = literals,
         cs_codes = codes, cs_top_level = top_level, cs_use_arguments = use_arguments, cs_file_name = file_name, cs_rest_at = rest_at,
         cs_var_count = var_count, cs_param_count = param_count, cs_args_at = args_at, cs_is_constructor = is_constructor, cs_loc = loc,
         cs_path = snd path, cs_is_generator = is_generator, cs_is_async = is_async\<rparr>))))))))))))))))))))"
definition ren_code_block :: "renaming \<Rightarrow> code_block_s \<Rightarrow> code_block_s" where
  "ren_code_block E b =
     b\<lparr>cs_name := ren_symbol E (cs_name b), cs_names := (fst (cs_names b), map (ren_symbol E) (snd (cs_names b))),
       cs_feedback := (fst (cs_feedback b), map (ren_feedback E) (snd (cs_feedback b))),
       cs_literals := (fst (cs_literals b), map (ren_value E) (snd (cs_literals b))),
       cs_codes := (fst (cs_codes b), map (ren_ref E) (snd (cs_codes b))), cs_loc := map ren_location (cs_loc b)\<rparr>"

lemma carries_code_block: "carries E (put_code_block b) get_code_block (ren_code_block E b)"
  unfolding put_code_block_def get_code_block_def
  by ((rule carries_return_eq location_codec.counted32 carries_bind carrying feedback_vec.law)+) (simp add: ren_code_block_def)

section \<open>Environments\<close>

record environment_s =
  ev_parent_s :: "u64 option"
  ev_values_s :: "(js_value \<times> bool) list"

definition put_variable_s :: "js_value \<times> bool \<Rightarrow> writer" where
  "put_variable_s x = in_order [put_value_s (fst x), put_bool (snd x)]"
definition get_variable_s :: "(js_value \<times> bool) reader" where
  "get_variable_s = r_bind get_value_s (\<lambda>value. r_bind get_bool_r (\<lambda>mutable. r_return (value, mutable)))"

interpretation variable_codec: codec put_variable_s get_variable_s "\<lambda>E x. (ren_value E (fst x), snd x)"
proof (rule codecI)
  show "carries E (put_variable_s x) get_variable_s (ren_value E (fst x), snd x)" for E x
    unfolding put_variable_s_def get_variable_s_def by ((rule carries_return_eq carries_bind carrying)+) simp
qed (auto simp: put_variable_s_def appending value_codec.writing)

definition put_environment :: "environment_s \<Rightarrow> writer" where
  "put_environment e =
     in_order [put_option write_reference (ev_parent_s e), write_u32 (of_nat (length (ev_values_s e))),
       in_order (map put_variable_s (ev_values_s e))]"
definition get_environment :: "environment_s reader" where
  "get_environment = r_bind (get_option get_reference) (\<lambda>parent. r_bind get_u32 (\<lambda>cap.
     r_bind (read_many (unat cap) get_variable_s) (\<lambda>values. r_return \<lparr>ev_parent_s = parent, ev_values_s = values\<rparr>)))"
definition ren_environment :: "renaming \<Rightarrow> environment_s \<Rightarrow> environment_s" where
  "ren_environment E e =
     e\<lparr>ev_parent_s := map_option (ren_ref E) (ev_parent_s e),
       ev_values_s := map (\<lambda>x. (ren_value E (fst x), snd x)) (ev_values_s e)\<rparr>"

lemma carries_environment: "carries E (put_environment e) get_environment (ren_environment E e)"
  unfolding put_environment_def get_environment_def
  by ((rule carries_return_eq variable_codec.counted32 carries_bind carrying)+) (simp add: ren_environment_def)

section \<open>Functions\<close>

datatype func_type_s =
    FuncUser u64 u64
  | FuncNative u64
  | FuncClosure
  | FuncBound u64 u64 js_value
  | FuncGenerator u64

text \<open>A function over a closure of Rust cannot be written.\<close>

definition put_func_type :: "func_type_s \<Rightarrow> writer" where
  "put_func_type ty =
     (case ty of
        FuncUser scope code \<Rightarrow> in_order [write_u8 1, write_reference scope, write_reference code]
      | FuncNative func \<Rightarrow> in_order [write_u8 2, write_reference func]
      | FuncClosure \<Rightarrow> (\<lambda>_. None)
      | FuncBound args target this \<Rightarrow> in_order [write_u8 3, write_reference args, write_reference target, put_value_s this]
      | FuncGenerator function \<Rightarrow> in_order [write_u8 4, write_reference function])"
definition get_func_type :: "func_type_s reader" where
  "get_func_type = r_bind get_u8 (\<lambda>ty.
     if ty = 1 then r_bind get_reference (\<lambda>scope. r_bind get_reference (\<lambda>code. r_return (FuncUser scope code)))
     else if ty = 2 then r_bind get_reference (\<lambda>func. r_return (FuncNative func))
     else if ty = 3 then r_bind get_reference (\<lambda>args. r_bind get_reference (\<lambda>target. r_bind get_value_s (\<lambda>this.
       r_return (FuncBound args target this))))
     else if ty = 4 then r_bind get_reference (\<lambda>func. r_return (FuncGenerator func))
     else r_panic)"
definition ren_func_type :: "renaming \<Rightarrow> func_type_s \<Rightarrow> func_type_s" where
  "ren_func_type E ty =
     (case ty of
        FuncUser scope code \<Rightarrow> FuncUser (ren_ref E scope) (ren_ref E code)
      | FuncNative func \<Rightarrow> FuncNative (ren_ref E func)
      | FuncClosure \<Rightarrow> FuncClosure
      | FuncBound args target this \<Rightarrow> FuncBound (ren_ref E args) (ren_ref E target) (ren_value E this)
      | FuncGenerator function \<Rightarrow> FuncGenerator (ren_ref E function))"

lemma carries_func_type [carrying]: "carries E (put_func_type ty) get_func_type (ren_func_type E ty)"
proof (cases ty)
  case (FuncUser scope code)
  show ?thesis
    unfolding FuncUser put_func_type_def ren_func_type_def func_type_s.case get_func_type_def
    by (rule carries_tag, simp only: if_True refl) ((rule carries_return_eq carries_bind carrying)+, simp)
next
  case (FuncNative func)
  show ?thesis
    unfolding FuncNative put_func_type_def ren_func_type_def func_type_s.case get_func_type_def
    by (rule carries_tag, simp del: in_order.simps) ((rule carries_return_eq carries_bind carrying)+, simp)
next
  case FuncClosure
  then show ?thesis by (simp add: put_func_type_def carries_def)
next
  case (FuncBound args target recv)
  show ?thesis
    unfolding FuncBound put_func_type_def ren_func_type_def func_type_s.case get_func_type_def
    by (rule carries_tag, simp del: in_order.simps) ((rule carries_return_eq carries_bind carrying)+, simp)
next
  case (FuncGenerator func)
  show ?thesis
    unfolding FuncGenerator put_func_type_def ren_func_type_def func_type_s.case get_func_type_def
    by (rule carries_tag, simp del: in_order.simps) ((rule carries_return_eq carries_bind carrying)+, simp)
qed

section \<open>Objects\<close>

record indexed_s =
  ix_vector :: u64
  ix_map :: "u64 option"
  ix_length :: u32
  ix_flags :: u32

definition put_indexed :: "indexed_s \<Rightarrow> writer" where
  "put_indexed x = in_order [write_reference (ix_vector x), put_option write_reference (ix_map x), write_u32 (ix_length x), write_u32 (ix_flags x)]"
definition get_indexed :: "indexed_s reader" where
  "get_indexed = r_bind get_reference (\<lambda>vector. r_bind (get_option get_reference) (\<lambda>map. r_bind get_u32 (\<lambda>len. r_bind get_u32 (\<lambda>flags.
     r_return \<lparr>ix_vector = vector, ix_map = map, ix_length = len, ix_flags = flags\<rparr>))))"
definition ren_indexed :: "renaming \<Rightarrow> indexed_s \<Rightarrow> indexed_s" where
  "ren_indexed E x = x\<lparr>ix_vector := ren_ref E (ix_vector x), ix_map := map_option (ren_ref E) (ix_map x)\<rparr>"

lemma carries_indexed_elements [carrying]: "carries E (put_indexed x) get_indexed (ren_indexed E x)"
  unfolding put_indexed_def get_indexed_def
  by ((rule carries_return_eq carries_bind carrying)+) (simp add: ren_indexed_def)

text \<open>The tags of objects with data of their own, as numbered in \<open>ObjectTag\<close>.\<close>

definition tag_string :: u8 where "tag_string = 3"
definition tag_global :: u8 where "tag_global = 7"
definition tag_function :: u8 where "tag_function = 9"
definition tag_arguments :: u8 where "tag_arguments = 32"

lemmas object_tags = tag_string_def tag_global_def tag_function_def tag_arguments_def

datatype object_data_s =
    ArgumentsData "symbol list" u64
  | GlobalObject u64 "(symbol \<times> u32) vec" "stored_slot_s list"
  | FunctionData "u64 option" func_type_s
  | StringData u64
  | PlainData

record object_s =
  os_tag :: u8
  os_class :: u64
  os_slots :: u64
  os_structure :: u64
  os_indexed :: indexed_s
  os_flags :: u32
  os_data :: object_data_s

text \<open>\<open>as_arguments\<close>, \<open>as_global\<close>, \<open>as_function\<close> and \<open>as_string_object\<close>, by the tag.\<close>

definition put_object_data :: "u8 \<Rightarrow> object_data_s \<Rightarrow> writer" where
  "put_object_data tag data =
     (if tag = tag_arguments then
        (case data of ArgumentsData mapping env \<Rightarrow> in_order [put_slice write_symbol mapping, write_reference env] | _ \<Rightarrow> (\<lambda>_. None))
      else if tag = tag_global then
        (case data of GlobalObject ctx sym_map variables \<Rightarrow>
           in_order [write_reference ctx, put_map write_symbol write_u32 sym_map, put_segmented put_stored_slot variables] | _ \<Rightarrow> (\<lambda>_. None))
      else if tag = tag_function then
        (case data of FunctionData construct_struct ty \<Rightarrow>
           in_order [put_option write_reference construct_struct, put_func_type ty] | _ \<Rightarrow> (\<lambda>_. None))
      else if tag = tag_string then (case data of StringData value \<Rightarrow> in_order [write_reference value] | _ \<Rightarrow> (\<lambda>_. None))
      else in_order [])"
definition get_object_data :: "u8 \<Rightarrow> object_data_s reader" where
  "get_object_data tag =
     (if tag = tag_arguments then
        r_bind get_u64 (\<lambda>size. r_bind (read_many (unat size) get_symbol) (\<lambda>vec. r_bind get_reference (\<lambda>env. r_return (ArgumentsData vec env))))
      else if tag = tag_global then
        r_bind get_reference (\<lambda>ctx. r_bind (get_map get_symbol get_u32) (\<lambda>sym_map. r_bind (get_segmented get_stored_slot) (\<lambda>variables.
          r_return (GlobalObject ctx sym_map variables))))
      else if tag = tag_function then
        r_bind (get_option get_reference) (\<lambda>construct_struct. r_bind get_func_type (\<lambda>ty. r_return (FunctionData construct_struct ty)))
      else if tag = tag_string then r_bind get_reference (\<lambda>str. r_return (StringData str))
      else r_return PlainData)"
definition ren_object_data :: "renaming \<Rightarrow> u8 \<Rightarrow> object_data_s \<Rightarrow> object_data_s" where
  "ren_object_data E tag data =
     (if tag \<notin> {tag_arguments, tag_global, tag_function, tag_string} then PlainData else case data of
        ArgumentsData mapping env \<Rightarrow> ArgumentsData (map (ren_symbol E) mapping) (ren_ref E env)
      | GlobalObject ctx sym_map variables \<Rightarrow>
          GlobalObject (ren_ref E ctx) (ren_map (ren_symbol E) (\<lambda>x. x) sym_map) (map (ren_stored_slot E) variables)
      | FunctionData construct_struct ty \<Rightarrow> FunctionData (map_option (ren_ref E) construct_struct) (ren_func_type E ty)
      | StringData value \<Rightarrow> StringData (ren_ref E value)
      | PlainData \<Rightarrow> PlainData)"

lemma carries_object_data [carrying]: "carries E (put_object_data tag data) (get_object_data tag) (ren_object_data E tag data)"
proof -
  consider (arguments) "tag = tag_arguments" | (global) "tag = tag_global" | (func) "tag = tag_function" | (string) "tag = tag_string"
    | (plain) "tag \<notin> {tag_arguments, tag_global, tag_function, tag_string}" by blast
  then show ?thesis
  proof cases
    case arguments
    have read: "get_object_data tag_arguments = r_bind (get_slice get_symbol) (\<lambda>vec. r_bind get_reference (\<lambda>env. r_return (ArgumentsData vec env)))"
      by (simp add: get_object_data_def get_slice_def)
    have "carries E (in_order [put_slice write_symbol mapping, write_reference env]) (get_object_data tag_arguments)
        (ArgumentsData (map (ren_symbol E) mapping) (ren_ref E env))" for mapping env
      unfolding read by ((rule carries_return_eq carries_bind carrying)+) simp
    then show ?thesis
      using arguments by (cases data) (simp_all add: put_object_data_def ren_object_data_def carries_def del: in_order.simps)
  next
    case global
    have "carries E (in_order [write_reference ctx, put_map write_symbol write_u32 sym_map, put_segmented put_stored_slot variables])
        (get_object_data tag_global) (GlobalObject (ren_ref E ctx) (ren_map (ren_symbol E) (\<lambda>x. x) sym_map) (map (ren_stored_slot E) variables))"
      for ctx sym_map variables
      by (simp add: get_object_data_def object_tags del: in_order.simps) ((rule carries_return_eq carries_bind carrying)+, simp)
    then show ?thesis
      using global by (cases data) (simp_all add: put_object_data_def ren_object_data_def carries_def object_tags del: in_order.simps)
  next
    case func
    have "carries E (in_order [put_option write_reference construct_struct, put_func_type ty]) (get_object_data tag_function)
        (FunctionData (map_option (ren_ref E) construct_struct) (ren_func_type E ty))" for construct_struct ty
      by (simp add: get_object_data_def object_tags del: in_order.simps) ((rule carries_return_eq carries_bind carrying)+, simp)
    then show ?thesis
      using func by (cases data) (simp_all add: put_object_data_def ren_object_data_def carries_def object_tags del: in_order.simps)
  next
    case string
    have "carries E (in_order [write_reference v]) (get_object_data tag_string) (StringData (ren_ref E v))" for v
      by (simp add: get_object_data_def object_tags del: in_order.simps) ((rule carries_return_eq carries_bind carrying)+, simp)
    then show ?thesis
      using string by (cases data) (simp_all add: put_object_data_def ren_object_data_def carries_def object_tags del: in_order.simps)
  next
    case plain
    then show ?thesis by (simp add: put_object_data_def get_object_data_def ren_object_data_def carries_return del: in_order.simps)
  qed
qed

text \<open>
  The hooks of the class of an object write and read what else the object has. Their address is that of
  the class; what they write is not part of the model, which must only be read by the other hook.
\<close>

record class_hooks =
  ch_serialize :: "u64 \<Rightarrow> (object_s \<Rightarrow> writer) option"
  ch_deserialize :: "u64 \<Rightarrow> (object_s \<Rightarrow> object_s reader) option"

definition run_serialize :: "class_hooks \<Rightarrow> object_s \<Rightarrow> writer" where
  "run_serialize H x = (case ch_serialize H (os_class x) of None \<Rightarrow> in_order [] | Some ser \<Rightarrow> ser x)"
definition run_deserialize :: "class_hooks \<Rightarrow> object_s \<Rightarrow> object_s reader" where
  "run_deserialize H x = (case ch_deserialize H (os_class x) of None \<Rightarrow> r_return x | Some deser_fn \<Rightarrow> deser_fn x)"

definition put_object :: "class_hooks \<Rightarrow> object_s \<Rightarrow> writer" where
  "put_object H x =
     in_order [write_u32 (ucast (os_tag x)), write_reference (os_class x), write_reference (os_slots x), write_reference (os_structure x),
       put_indexed (os_indexed x), write_u32 (os_flags x), put_object_data (os_tag x) (os_data x), run_serialize H x]"
definition get_object_s :: "class_hooks \<Rightarrow> object_s reader" where
  "get_object_s H =
     r_bind get_u32 (\<lambda>tag. r_bind get_reference (\<lambda>class_at. r_bind get_reference (\<lambda>slots. r_bind get_reference (\<lambda>structure.
     r_bind get_indexed (\<lambda>indexed. r_bind get_u32 (\<lambda>flags. r_bind (get_object_data (ucast tag)) (\<lambda>data.
     run_deserialize H \<lparr>os_tag = ucast tag, os_class = class_at, os_slots = slots, os_structure = structure, os_indexed = indexed,
       os_flags = flags, os_data = data\<rparr>)))))))"
definition ren_object :: "renaming \<Rightarrow> object_s \<Rightarrow> object_s" where
  "ren_object E x =
     x\<lparr>os_class := ren_ref E (os_class x), os_slots := ren_ref E (os_slots x), os_structure := ren_ref E (os_structure x),
       os_indexed := ren_indexed E (os_indexed x), os_data := ren_object_data E (os_tag x) (os_data x)\<rparr>"

text \<open>The hooks of the two sides fit together.\<close>

definition hooks_fit :: "class_hooks \<Rightarrow> class_hooks \<Rightarrow> renaming \<Rightarrow> bool" where
  "hooks_fit H H' E \<longleftrightarrow> (\<forall>x. carries E (run_serialize H x) (run_deserialize H' (ren_object E x)) (ren_object E x))"

lemma carries_object:
  assumes "hooks_fit H H' E"
  shows "carries E (put_object H x) (get_object_s H') (ren_object E x)"
proof -
  have tag: "ucast (ucast t :: u32) = t" for t :: u8 by (rule bit_word_eqI) (simp add: bit_unsigned_iff)
  have data: "carries E (put_object_data (os_tag x) (os_data x)) (get_object_data (ucast (ucast (os_tag x) :: u32)))
      (ren_object_data E (os_tag x) (os_data x))"
    by (simp only: tag carries_object_data)
  have "carries E (in_order [run_serialize H x]) (run_deserialize H' (ren_object E x)) (ren_object E x)"
    by (rule carries_last) (use assms in \<open>simp add: hooks_fit_def\<close>)
  moreover have "ren_object E x = \<lparr>os_tag = os_tag x, os_class = ren_ref E (os_class x), os_slots = ren_ref E (os_slots x),
      os_structure = ren_ref E (os_structure x), os_indexed = ren_indexed E (os_indexed x), os_flags = os_flags x,
      os_data = ren_object_data E (os_tag x) (os_data x)\<rparr>"
    by (simp add: ren_object_def)
  ultimately have "carries E (in_order [run_serialize H x]) (run_deserialize H' \<lparr>os_tag = ucast (ucast (os_tag x) :: u32),
      os_class = ren_ref E (os_class x), os_slots = ren_ref E (os_slots x), os_structure = ren_ref E (os_structure x),
      os_indexed = ren_indexed E (os_indexed x), os_flags = os_flags x, os_data = ren_object_data E (os_tag x) (os_data x)\<rparr>) (ren_object E x)"
    by (simp only: tag)
  then show ?thesis
    unfolding put_object_def get_object_s_def
    by - (rule carries_bind, rule carrying, rule carries_bind, rule carrying, rule carries_bind, rule carrying, rule carries_bind, rule carrying,
        rule carries_bind, rule carrying, rule carries_bind, rule carrying, rule carries_bind, rule data)
qed

section \<open>Contexts\<close>

datatype module_kind_s = ModuleInitialized u64 | NativeUninit u64

definition put_module :: "module_kind_s \<Rightarrow> writer" where
  "put_module x =
     (case x of
        ModuleInitialized m \<Rightarrow> in_order [write_u8 0, write_reference m]
      | NativeUninit f \<Rightarrow> in_order [write_u8 1, write_reference f])"
definition get_module :: "module_kind_s reader" where
  "get_module = r_bind get_u8 (\<lambda>byte.
     if byte = 0 then r_bind get_reference (\<lambda>x. r_return (ModuleInitialized x))
     else if byte = 1 then r_bind get_reference (\<lambda>x. r_return (NativeUninit x))
     else r_panic)"
definition ren_module :: "renaming \<Rightarrow> module_kind_s \<Rightarrow> module_kind_s" where
  "ren_module E x = (case x of ModuleInitialized m \<Rightarrow> ModuleInitialized (ren_ref E m) | NativeUninit f \<Rightarrow> NativeUninit (ren_ref E f))"

interpretation module_codec: codec put_module get_module ren_module
proof
  show "carries E (put_module x) get_module (ren_module E x)" for E x
  proof (cases x)
    case (ModuleInitialized m)
    have "carries E (in_order [write_u8 0, write_reference m]) get_module (ModuleInitialized (ren_ref E m))"
      unfolding get_module_def by (rule carries_tag) (simp add: carries_map carrying del: in_order.simps)
    then show ?thesis using ModuleInitialized by (simp only: put_module_def ren_module_def module_kind_s.case)
  next
    case (NativeUninit f)
    have "carries E (in_order [write_u8 1, write_reference f]) get_module (NativeUninit (ren_ref E f))"
      unfolding get_module_def by (rule carries_tag) (simp add: carries_map carrying del: in_order.simps)
    then show ?thesis using NativeUninit by (simp only: put_module_def ren_module_def module_kind_s.case)
  qed
  have "writes_some (put_module x)" for x
    by (cases x; simp only: put_module_def module_kind_s.case; rule progress_in_order) (auto intro: carrying simp: appending)
  then show "put_module x s = Some s' \<Longrightarrow> length (sr_out s) < length (sr_out s')" for x s s' by (simp add: writes_some_def)
qed

interpretation modules_codec: codec "put_map put_string put_module" "get_map get_string get_module" "\<lambda>E. ren_map (\<lambda>k. k) (ren_module E)"
  by (rule map_codec [OF string_codec.codec_axioms module_codec.codec_axioms])

text \<open>The fields of \<open>GlobalData\<close>, in the order they are written and in the order they are read.\<close>

definition written_globals :: "string list" where
  "written_globals =
    [''normal_arguments_structure'', ''empty_object_struct'', ''function_struct'', ''object_prototype'',
     ''number_prototype'', ''string_prototype'', ''boolean_prototype'', ''symbol_prototype'', ''error'', ''type_error'',
     ''uri_error'', ''reference_error'', ''range_error'', ''syntax_error'', ''internal_error'', ''eval_error'',
     ''array_prototype'', ''func_prototype'', ''string_structure'', ''number_structure'', ''array_structure'',
     ''error_structure'', ''range_error_structure'', ''reference_error_structure'', ''syntax_error_structure'',
     ''type_error_structure'', ''uri_error_structure'', ''eval_error_structure'', ''map_prototype'', ''map_structure'',
     ''set_prototype'', ''set_structure'', ''regexp_structure'', ''regexp_prototype'', ''generator_prototype'',
     ''generator_structure'', ''array_buffer_prototype'', ''array_buffer_structure'', ''data_view_structure'',
     ''data_view_prototype'', ''spread_builtin'', ''weak_ref_structure'', ''weak_ref_prototype'', ''object_constructor'',
     ''symbol_structure'', ''date_structure'', ''boolean_structure'', ''date_prototype'']"
definition read_globals :: "string list" where
  "read_globals =
    [''normal_arguments_structure'', ''empty_object_struct'', ''function_struct'', ''object_prototype'',
     ''number_prototype'', ''string_prototype'', ''boolean_prototype'', ''symbol_prototype'', ''error'', ''type_error'',
     ''uri_error'', ''reference_error'', ''range_error'', ''syntax_error'', ''internal_error'', ''eval_error'',
     ''array_prototype'', ''func_prototype'', ''string_structure'', ''number_structure'', ''array_structure'',
     ''error_structure'', ''range_error_structure'', ''reference_error_structure'', ''syntax_error_structure'',
     ''type_error_structure'', ''uri_error_structure'', ''eval_error_structure'', ''map_prototype'', ''map_structure'',
     ''set_prototype'', ''set_structure'', ''regexp_structure'', ''regexp_prototype'', ''generator_prototype'',
     ''generator_structure'', ''array_buffer_prototype'', ''array_buffer_structure'', ''data_view_structure'',
     ''data_view_prototype'', ''spread_builtin'', ''weak_ref_structure'', ''weak_ref_prototype'', ''object_constructor'',
     ''symbol_structure'', ''date_structure'', ''boolean_structure'', ''date_prototype'']"

lemma global_orders: "read_globals = written_globals"
  by (simp only: written_globals_def read_globals_def)

lemma distinct_globals: "distinct written_globals"
  by code_simp

definition put_global_data :: "(string \<Rightarrow> u64 option) \<Rightarrow> writer" where
  "put_global_data g = in_order (map (\<lambda>f. put_option write_reference (g f)) written_globals)"

primrec get_fields :: "string list \<Rightarrow> (string \<Rightarrow> u64 option) reader" where
  "get_fields [] = r_return (\<lambda>_. None)"
| "get_fields (f # fs) = r_bind (get_option get_reference) (\<lambda>x. r_bind (get_fields fs) (\<lambda>g. r_return (g(f := x))))"
definition get_global_data :: "(string \<Rightarrow> u64 option) reader" where
  "get_global_data = get_fields read_globals"
definition ren_global_data :: "renaming \<Rightarrow> (string \<Rightarrow> u64 option) \<Rightarrow> string \<Rightarrow> u64 option" where
  "ren_global_data E g f = (if f \<in> set written_globals then map_option (ren_ref E) (g f) else None)"

lemma carries_fields:
  "distinct fs \<Longrightarrow> carries E (in_order (map (\<lambda>f. put_option write_reference (g f)) fs)) (get_fields fs)
     (\<lambda>f. if f \<in> set fs then map_option (ren_ref E) (g f) else None)"
proof (induction fs)
  case Nil
  then show ?case by (simp add: carries_return del: in_order.simps)
next
  case (Cons f fs)
  let ?ren = "\<lambda>fs f. if f \<in> set fs then map_option (ren_ref E) (g f) else None"
  have "(?ren fs)(f := map_option (ren_ref E) (g f)) = ?ren (f # fs)" by auto
  then have "carries E (in_order (map (\<lambda>f. put_option write_reference (g f)) fs))
      (r_bind (get_fields fs) (\<lambda>h. r_return (h(f := map_option (ren_ref E) (g f))))) (?ren (f # fs))"
    using carries_post [OF Cons.IH, of "\<lambda>h. h(f := map_option (ren_ref E) (g f))"] Cons.prems by simp
  then show ?case unfolding list.map get_fields.simps by (rule carries_bind [OF ref_option.law])
qed

lemma carries_global_data [carrying]: "carries E (put_global_data g) get_global_data (ren_global_data E g)"
proof -
  have "ren_global_data E g = (\<lambda>f. if f \<in> set written_globals then map_option (ren_ref E) (g f) else None)"
    by (simp add: ren_global_data_def fun_eq_iff)
  then show ?thesis
    using carries_fields [OF distinct_globals, of E g] by (simp only: put_global_data_def get_global_data_def global_orders)
qed

record context_s =
  xs_global_data :: "string \<Rightarrow> u64 option"
  xs_global_object :: "u64 option"
  xs_symbol_table :: "(symbol \<times> u64) vec"
  xs_module_loader :: "u64 option"
  xs_modules :: "(u8 vec \<times> module_kind_s) vec"

definition put_context :: "context_s \<Rightarrow> writer" where
  "put_context x =
     in_order [put_global_data (xs_global_data x), put_option write_reference (xs_global_object x),
       put_map write_symbol write_reference (xs_symbol_table x), put_option write_reference (xs_module_loader x),
       put_map put_string put_module (xs_modules x)]"
definition get_context :: "context_s reader" where
  "get_context =
     r_bind get_global_data (\<lambda>global_data. r_bind (get_option get_reference) (\<lambda>global_object.
     r_bind (get_map get_symbol get_reference) (\<lambda>symbol_table. r_bind (get_option get_reference) (\<lambda>module_loader.
     r_bind (get_map get_string get_module) (\<lambda>modules.
       r_return \<lparr>xs_global_data = global_data, xs_global_object = global_object, xs_symbol_table = symbol_table,
         xs_module_loader = module_loader, xs_modules = modules\<rparr>)))))"
definition ren_context :: "renaming \<Rightarrow> context_s \<Rightarrow> context_s" where
  "ren_context E x =
     \<lparr>xs_global_data = ren_global_data E (xs_global_data x), xs_global_object = map_option (ren_ref E) (xs_global_object x),
      xs_symbol_table = ren_map (ren_symbol E) (ren_ref E) (xs_symbol_table x), xs_module_loader = map_option (ren_ref E) (xs_module_loader x),
      xs_modules = ren_map (\<lambda>k. k) (ren_module E) (xs_modules x)\<rparr>"

lemma carries_context: "carries E (put_context x) get_context (ren_context E x)"
  unfolding put_context_def get_context_def
  by ((rule carries_return_eq carries_bind carrying modules_codec.law)+) (simp add: ren_context_def)

end
