(* ===== verification/Symbol_Table.thy ===== *)
theory Symbol_Table
  imports Cells "HOL-Library.AList"
begin

text \<open>
  The symbol table (\<open>vm/symbol_table.rs\<close>): strings, as their bytes, and the identities they are interned
  to. The concurrent maps of the source are association lists in the order of their iteration.
\<close>

record symbol_table =
  sy_symbols :: "(u8 list \<times> u32) list"
  sy_ids :: "(u32 \<times> u8 list) list"
  sy_key :: u32

definition symbol_table_new :: symbol_table where
  "symbol_table_new = \<lparr>sy_symbols = [], sy_ids = [], sy_key = 128\<rparr>"

definition description :: "symbol_table \<Rightarrow> u32 \<Rightarrow> u8 list panics" where
  "description st key = map_of (sy_ids st) key"

definition intern :: "u8 list \<Rightarrow> symbol_table \<Rightarrow> u32 \<times> symbol_table" where
  "intern str st =
     (case map_of (sy_symbols st) str of
        Some key \<Rightarrow> (key, st)
      | None \<Rightarrow>
          (let key = sy_key st in
           (key, st\<lparr>sy_symbols := AList.update str key (sy_symbols st), sy_ids := AList.update key str (sy_ids st), sy_key := key + 1\<rparr>)))"

text \<open>The numbers of indices: \<open>usize\<close> values that are not \<open>u32\<close> become the string of their digits.\<close>

definition intern_u32 :: "u32 \<Rightarrow> symbol" where "intern_u32 x = Index x"
definition intern_usize :: "(u64 \<Rightarrow> u8 list) \<Rightarrow> u64 \<Rightarrow> symbol_table \<Rightarrow> symbol \<times> symbol_table" where
  "intern_usize digits x st =
     (if ucast (ucast x :: u32) = x then (intern_u32 (ucast x), st)
      else (case intern (digits x) st of (key, st1) \<Rightarrow> (Key key, st1)))"

text \<open>The two maps are inverse to each other and all identities were given out by the counter.\<close>

definition symbol_table_wf :: "symbol_table \<Rightarrow> bool" where
  "symbol_table_wf st \<longleftrightarrow>
     (\<forall>str key. map_of (sy_symbols st) str = Some key \<longleftrightarrow> map_of (sy_ids st) key = Some str) \<and>
     (\<forall>str key. map_of (sy_symbols st) str = Some key \<longrightarrow> 128 \<le> key \<and> key < sy_key st) \<and> 128 \<le> sy_key st"

lemma symbol_table_new_wf: "symbol_table_wf symbol_table_new"
  by (simp add: symbol_table_wf_def symbol_table_new_def)

lemma intern_found: "map_of (sy_symbols st) str = Some key \<Longrightarrow> intern str st = (key, st)"
  by (simp add: intern_def)

lemma intern_known: "map_of (sy_symbols (snd (intern str st))) str = Some (fst (intern str st))"
  by (simp add: intern_def Let_def update_conv' split: option.split)

lemma intern_keeps: "map_of (sy_symbols st) other = Some key \<Longrightarrow> map_of (sy_symbols (snd (intern str st))) other = Some key"
  by (auto simp: intern_def Let_def update_conv' split: option.split)

lemma intern_wf:
  assumes wf: "symbol_table_wf st" and room: "unat (sy_key st) + 1 < 2 ^ 32"
  shows "symbol_table_wf (snd (intern str st))"
proof (cases "map_of (sy_symbols st) str")
  case (Some key)
  then show ?thesis using wf by (simp add: intern_def)
next
  case None
  have next_key: "sy_key st < sy_key st + 1" using room by (simp add: word_less_nat_alt unat_word_ariths)
  have free: "map_of (sy_ids st) (sy_key st) = None"
    using wf unfolding symbol_table_wf_def by (metis less_irrefl not_None_eq)
  have fresh: "map_of (sy_ids st) key \<noteq> Some str" for key
    using wf None unfolding symbol_table_wf_def by (metis option.distinct(1))
  have below: "key < sy_key st + 1" if "map_of (sy_ids st) key = Some other" for key other
  proof -
    have "key < sy_key st" using wf that unfolding symbol_table_wf_def by blast
    then show ?thesis using next_key by simp
  qed
  show ?thesis
    using wf None next_key free fresh below
    by (auto simp: symbol_table_wf_def intern_def Let_def update_conv' split: if_splits intro: less_trans order.trans less_imp_le)
qed

text \<open>What interning gives: an identity that describes the string, the same for the same string and different for another.\<close>

lemma intern_describes:
  assumes "symbol_table_wf st" "unat (sy_key st) + 1 < 2 ^ 32"
  shows "description (snd (intern str st)) (fst (intern str st)) = Some str"
  using intern_wf [OF assms] intern_known [of str st] by (simp add: symbol_table_wf_def description_def)

end
