(* ===== verification/Snapshot.thy ===== *)
theory Snapshot
  imports Snapshot_Objects Symbol_Table
begin

text \<open>
  Snapshots of a runtime (\<open>gc/snapshot.rs\<close>): the references, the symbols, the cells of the heap with their
  contents, the weak slots and the contexts, as \<open>Snapshot::take\<close> writes them and \<open>Deserializer::deserialize\<close>
  reads them.
\<close>

section \<open>Cells\<close>

datatype cell_kind =
    KStorage | KString | KSymbol | KObject | KAccessor | KStructure | KCode | KContext | KTable | KTransitions | KSparse | KDeleted
  | KEnvironment | KWeakSlot | KChain | KSpread

datatype snap_cell =
    CellStorage u32 "js_value list"
  | CellString "u8 list"
  | CellSymbol symbol
  | CellObject object_s
  | CellAccessor js_value js_value
  | CellStructure structure_s
  | CellCode code_block_s
  | CellContext context_s
  | CellTable "(symbol \<times> map_entry_s) vec"
  | CellTransitions "(transition_key_s \<times> u64) vec"
  | CellSparse "(u32 \<times> stored_slot_s) vec"
  | CellDeleted deleted_entry_s
  | CellEnvironment environment_s
  | CellWeakSlot "u64 option"
  | CellChain "u64 list"
  | CellSpread "js_value vec"

fun kind_of :: "snap_cell \<Rightarrow> cell_kind" where
  "kind_of (CellStorage _ _) = KStorage"
| "kind_of (CellString _) = KString"
| "kind_of (CellSymbol _) = KSymbol"
| "kind_of (CellObject _) = KObject"
| "kind_of (CellAccessor _ _) = KAccessor"
| "kind_of (CellStructure _) = KStructure"
| "kind_of (CellCode _) = KCode"
| "kind_of (CellContext _) = KContext"
| "kind_of (CellTable _) = KTable"
| "kind_of (CellTransitions _) = KTransitions"
| "kind_of (CellSparse _) = KSparse"
| "kind_of (CellDeleted _) = KDeleted"
| "kind_of (CellEnvironment _) = KEnvironment"
| "kind_of (CellWeakSlot _) = KWeakSlot"
| "kind_of (CellChain _) = KChain"
| "kind_of (CellSpread _) = KSpread"

text \<open>Storages: \<open>size\<close> values of \<open>capacity\<close>; strings; accessors; spread values; chains of structures.\<close>

definition put_storage :: "u32 \<Rightarrow> js_value list \<Rightarrow> writer" where
  "put_storage capacity items = in_order [write_u32 (of_nat (length items)), write_u32 capacity, in_order (map put_value_s items)]"
definition get_storage :: "snap_cell reader" where
  "get_storage = r_bind get_u32 (\<lambda>size. r_bind get_u32 (\<lambda>capacity. r_bind (read_many (unat size) get_value_s) (\<lambda>items.
     r_return (CellStorage capacity items))))"
definition put_js_string :: "u8 list \<Rightarrow> writer" where
  "put_js_string bytes = in_order [write_u32 (of_nat (length bytes)), in_order (map write_u8 bytes)]"
definition get_js_string :: "snap_cell reader" where
  "get_js_string = r_bind get_u32 (\<lambda>size. r_bind (read_many (unat size) get_u8) (\<lambda>bytes. r_return (CellString bytes)))"
definition put_accessor :: "js_value \<Rightarrow> js_value \<Rightarrow> writer" where
  "put_accessor get_fn set_fn = in_order [put_value_s get_fn, put_value_s set_fn]"
definition get_accessor :: "snap_cell reader" where
  "get_accessor = r_bind get_value_s (\<lambda>get_fn. r_bind get_value_s (\<lambda>set_fn. r_return (CellAccessor get_fn set_fn)))"
definition put_chain :: "u64 list \<Rightarrow> writer" where
  "put_chain vector = in_order [write_u32 (of_nat (length vector)), in_order (map write_reference vector)]"
definition get_chain :: "snap_cell reader" where
  "get_chain = r_bind get_u32 (\<lambda>len. r_bind (read_many (unat len) get_reference) (\<lambda>vec. r_return (CellChain vec)))"

text \<open>\<open>serialize\<close> of the type of the cell, and \<open>deserialize\<close>.\<close>

definition put_cell :: "class_hooks \<Rightarrow> snap_cell \<Rightarrow> writer" where
  "put_cell H c =
     (case c of
        CellStorage capacity items \<Rightarrow> put_storage capacity items
      | CellString bytes \<Rightarrow> put_js_string bytes
      | CellSymbol name \<Rightarrow> write_symbol name
      | CellObject x \<Rightarrow> put_object H x
      | CellAccessor get_fn set_fn \<Rightarrow> put_accessor get_fn set_fn
      | CellStructure x \<Rightarrow> put_structure x
      | CellCode b \<Rightarrow> put_code_block b
      | CellContext x \<Rightarrow> put_context x
      | CellTable m \<Rightarrow> put_map write_symbol put_map_entry m
      | CellTransitions m \<Rightarrow> put_map put_transition_key write_reference m
      | CellSparse m \<Rightarrow> put_map write_u32 put_stored_slot m
      | CellDeleted e \<Rightarrow> put_deleted_entry e
      | CellEnvironment e \<Rightarrow> put_environment e
      | CellWeakSlot value \<Rightarrow> put_option write_reference value
      | CellChain vector \<Rightarrow> put_chain vector
      | CellSpread array \<Rightarrow> put_vec put_value_s array)"
definition get_cell :: "class_hooks \<Rightarrow> cell_kind \<Rightarrow> snap_cell reader" where
  "get_cell H kind =
     (case kind of
        KStorage \<Rightarrow> get_storage
      | KString \<Rightarrow> get_js_string
      | KSymbol \<Rightarrow> r_bind get_symbol (\<lambda>x. r_return (CellSymbol x))
      | KObject \<Rightarrow> r_bind (get_object_s H) (\<lambda>x. r_return (CellObject x))
      | KAccessor \<Rightarrow> get_accessor
      | KStructure \<Rightarrow> r_bind get_structure (\<lambda>x. r_return (CellStructure x))
      | KCode \<Rightarrow> r_bind get_code_block (\<lambda>x. r_return (CellCode x))
      | KContext \<Rightarrow> r_bind get_context (\<lambda>x. r_return (CellContext x))
      | KTable \<Rightarrow> r_bind (get_map get_symbol get_map_entry) (\<lambda>x. r_return (CellTable x))
      | KTransitions \<Rightarrow> r_bind (get_map get_transition_key get_reference) (\<lambda>x. r_return (CellTransitions x))
      | KSparse \<Rightarrow> r_bind (get_map get_u32 get_stored_slot) (\<lambda>x. r_return (CellSparse x))
      | KDeleted \<Rightarrow> r_bind get_deleted_entry (\<lambda>x. r_return (CellDeleted x))
      | KEnvironment \<Rightarrow> r_bind get_environment (\<lambda>x. r_return (CellEnvironment x))
      | KWeakSlot \<Rightarrow> r_bind (get_option get_reference) (\<lambda>x. r_return (CellWeakSlot x))
      | KChain \<Rightarrow> get_chain
      | KSpread \<Rightarrow> r_bind (get_vec get_value_s) (\<lambda>x. r_return (CellSpread x)))"

definition ren_cell :: "renaming \<Rightarrow> snap_cell \<Rightarrow> snap_cell" where
  "ren_cell E c =
     (case c of
        CellStorage capacity items \<Rightarrow> CellStorage capacity (map (ren_value E) items)
      | CellString bytes \<Rightarrow> CellString bytes
      | CellSymbol name \<Rightarrow> CellSymbol (ren_symbol E name)
      | CellObject x \<Rightarrow> CellObject (ren_object E x)
      | CellAccessor get_fn set_fn \<Rightarrow> CellAccessor (ren_value E get_fn) (ren_value E set_fn)
      | CellStructure x \<Rightarrow> CellStructure (ren_structure E x)
      | CellCode b \<Rightarrow> CellCode (ren_code_block E b)
      | CellContext x \<Rightarrow> CellContext (ren_context E x)
      | CellTable m \<Rightarrow> CellTable (ren_map (ren_symbol E) (\<lambda>e. e) m)
      | CellTransitions m \<Rightarrow> CellTransitions (ren_map (ren_transition_key E) (ren_ref E) m)
      | CellSparse m \<Rightarrow> CellSparse (ren_map (\<lambda>k. k) (ren_stored_slot E) m)
      | CellDeleted e \<Rightarrow> CellDeleted e
      | CellEnvironment e \<Rightarrow> CellEnvironment (ren_environment E e)
      | CellWeakSlot value \<Rightarrow> CellWeakSlot (map_option (ren_ref E) value)
      | CellChain vector \<Rightarrow> CellChain (map (ren_ref E) vector)
      | CellSpread array \<Rightarrow> CellSpread (fst array, map (ren_value E) (snd array)))"

lemma carries_storage: "carries E (put_storage capacity items) get_storage (CellStorage capacity (map (ren_value E) items))"
  unfolding put_storage_def get_storage_def
  by ((rule carries_return_eq value_codec.counted32 carries_bind carrying)+) simp

lemma carries_js_string: "carries E (put_js_string bytes) get_js_string (CellString bytes)"
  unfolding put_js_string_def get_js_string_def
  by ((rule carries_return_eq u8_codec.counted32 carries_bind carrying)+) simp

lemma carries_accessor: "carries E (put_accessor get_fn set_fn) get_accessor (CellAccessor (ren_value E get_fn) (ren_value E set_fn))"
  unfolding put_accessor_def get_accessor_def by ((rule carries_return_eq carries_bind carrying)+) simp

lemma carries_chain: "carries E (put_chain vector) get_chain (CellChain (map (ren_ref E) vector))"
  unfolding put_chain_def get_chain_def
  by ((rule carries_return_eq ref_codec.counted32 carries_bind carrying)+) simp

lemma carries_cell:
  assumes hooks: "hooks_fit H H' E" and kind: "kind_of c \<noteq> KDeleted"
  shows "carries E (put_cell H c) (get_cell H' (kind_of c)) (ren_cell E c)"
  using kind
  by (cases c)
    (simp_all add: put_cell_def get_cell_def ren_cell_def carries_storage carries_js_string carries_accessor carries_chain
      carries_post carrying carries_object [OF hooks] carries_structure carries_code_block carries_context carries_environment)

end
