(* ===== verification/Snapshot_Heap.thy ===== *)
theory Snapshot_Heap
  imports Snapshot
begin

text \<open>Taking a snapshot of a runtime, and the runtime that is made from it.\<close>

section \<open>Taking a snapshot\<close>

text \<open>
  What the serializer takes from the process: \<open>VM_NATIVE_REFERENCES\<close>, the external references, the
  functions of \<open>deser_pair\<close> and the hooks of classes.
\<close>

record write_host =
  wh_natives :: "u64 list"
  wh_externals :: "u64 list"
  wh_deserialize :: "cell_kind \<Rightarrow> u64"
  wh_allocate :: "cell_kind \<Rightarrow> u64"
  wh_hooks :: class_hooks

text \<open>The runtime: its symbols, its cells in the order of the walk through the heap, its weak slots and its contexts.\<close>

record live_runtime =
  lr_symbols :: "(u8 list \<times> u32) list"
  lr_cells :: "(u64 \<times> snap_cell) list"
  lr_weak :: "u64 list"
  lr_contexts :: "u64 list"

definition serializer_new :: serializer where
  "serializer_new = \<lparr>sr_refs = [], sr_out = [], sr_symbols = []\<rparr>"

text \<open>The four bytes at \<open>at\<close> are overwritten.\<close>

definition patch_u32 :: "nat \<Rightarrow> u32 \<Rightarrow> writer" where
  "patch_u32 at x s =
     (if at + 4 \<le> length (sr_out s)
      then Some (s\<lparr>sr_out := (sr_out s)[at := le_bytes 4 x ! 0, at + 1 := le_bytes 4 x ! 1, at + 2 := le_bytes 4 x ! 2, at + 3 := le_bytes 4 x ! 3]\<rparr>)
      else None)"

definition add_references :: "u64 list \<Rightarrow> writer" where
  "add_references rs s = Some (s\<lparr>sr_refs := sr_refs s @ rs\<rparr>)"
definition build_reference_map :: "write_host \<Rightarrow> writer" where
  "build_reference_map W = in_order [add_references (wh_natives W), add_references (wh_externals W)]"

definition write_symbol_entry :: "u8 list \<times> u32 \<Rightarrow> writer" where
  "write_symbol_entry entry s =
     (let ix = of_nat (length (sr_symbols s)) :: u32 in
      in_order [write_u32 ix, write_u32 (of_nat (length (fst entry))), in_order (map write_u8 (fst entry))]
        (s\<lparr>sr_symbols := AList.update (Key (snd entry)) ix (sr_symbols s)\<rparr>))"
definition build_symbol_table :: "(u8 list \<times> u32) list \<Rightarrow> writer" where
  "build_symbol_table entries s =
     (let patch_at = length (sr_out s) in
      in_order [write_u32 0, in_order (map write_symbol_entry entries), patch_u32 patch_at (of_nat (length entries))] s)"

definition write_cell :: "write_host \<Rightarrow> u64 \<times> snap_cell \<Rightarrow> writer" where
  "write_cell W cell s =
     (case in_order [write_reference (fst cell), write_reference (wh_deserialize W (kind_of (snd cell))),
         write_reference (wh_allocate W (kind_of (snd cell)))] s of
        None \<Rightarrow> None
      | Some s1 \<Rightarrow>
          (case in_order [write_u32 0, put_cell (wh_hooks W) (snd cell)] s1 of
             None \<Rightarrow> None
           | Some s2 \<Rightarrow> patch_u32 (length (sr_out s1)) (of_nat (length (sr_out s2))) s2))"

text \<open>\<open>Runtime::serialize\<close>.\<close>

definition put_runtime :: "live_runtime \<Rightarrow> writer" where
  "put_runtime rt = in_order [write_u32 (of_nat (length (lr_contexts rt))), in_order (map write_reference (lr_contexts rt))]"

definition write_heap :: "write_host \<Rightarrow> live_runtime \<Rightarrow> writer" where
  "write_heap W rt s =
     (let patch_at = length (sr_out s) in
      case in_order [write_u32 0, in_order (map (write_cell W) (lr_cells rt)), patch_u32 patch_at (of_nat (length (lr_cells rt)))] s of
        None \<Rightarrow> None
      | Some s1 \<Rightarrow>
          in_order [write_u32 0, in_order (map write_reference (lr_weak rt)),
            patch_u32 (length (sr_out s1)) (of_nat (length (lr_weak rt))), put_runtime rt] s1)"

text \<open>\<open>Snapshot::take\<close>; the callback may write more.\<close>

definition take_snapshot :: "write_host \<Rightarrow> writer \<Rightarrow> live_runtime \<Rightarrow> u8 list panics" where
  "take_snapshot W callback rt =
     (case in_order [write_u32 0, build_reference_map W, build_symbol_table (lr_symbols rt), add_references (map fst (lr_cells rt)),
         write_heap W rt, callback] serializer_new of
        None \<Rightarrow> None
      | Some s \<Rightarrow> (case patch_u32 0 (of_nat (length (sr_refs s))) s of None \<Rightarrow> None | Some s1 \<Rightarrow> Some (sr_out s1)))"

section \<open>Reading a snapshot\<close>

text \<open>
  What the deserializer takes from its process: its references, what a function of the references does
  (for a cell of which type it allocates or reads), the hooks, the sizes of the types and the allocator.
\<close>

type_synonym snap_heap = "u64 \<Rightarrow> (cell_kind \<times> nat \<times> snap_cell option) option"

record read_host =
  rh_natives :: "u64 list"
  rh_externals :: "u64 list"
  rh_deserialize :: "u64 \<Rightarrow> cell_kind option"
  rh_allocate :: "u64 \<Rightarrow> cell_kind option"
  rh_hooks :: class_hooks
  rh_size_of :: "cell_kind \<Rightarrow> nat"
  rh_additional_size :: "u64 \<Rightarrow> nat"
  rh_data_size :: "u8 \<Rightarrow> nat"
  rh_allocate_raw :: "nat \<Rightarrow> snap_heap \<Rightarrow> u64"

record read_runtime =
  rr_heap :: snap_heap
  rr_weak :: "u64 list"
  rr_contexts :: "u64 list"
  rr_symbols :: symbol_table

definition set_pc :: "nat \<Rightarrow> deserializer \<Rightarrow> deserializer" where "set_pc pc d = d\<lparr>ds_pc := pc\<rparr>"

text \<open>\<open>*reference_map.get_mut(ix).unwrap() = r\<close>.\<close>

definition set_reference :: "nat \<Rightarrow> u64 \<Rightarrow> deserializer \<Rightarrow> deserializer panics" where
  "set_reference ix r d = (if ix < length (ds_refs d) then Some (d\<lparr>ds_refs := (ds_refs d)[ix := r]\<rparr>) else None)"

primrec set_references :: "nat \<Rightarrow> u64 list \<Rightarrow> deserializer \<Rightarrow> deserializer panics" where
  "set_references ix [] d = Some d"
| "set_references ix (r # rs) d = (case set_reference ix r d of None \<Rightarrow> None | Some d1 \<Rightarrow> set_references (ix + 1) rs d1)"

definition read_reference_map :: "read_host \<Rightarrow> deserializer \<Rightarrow> deserializer panics" where
  "read_reference_map R d =
     (case set_references 0 (rh_natives R) d of None \<Rightarrow> None | Some d1 \<Rightarrow> set_references (length (rh_natives R)) (rh_externals R) d1)"

primrec read_symbols :: "nat \<Rightarrow> symbol_table \<Rightarrow> symbol_table reader" where
  "read_symbols 0 st = r_return st"
| "read_symbols (Suc n) st =
     r_bind get_u32 (\<lambda>index. r_bind get_u32 (\<lambda>len. r_bind (read_bytes (unat len)) (\<lambda>bytes d.
       (case intern bytes st of (key, st1) \<Rightarrow>
          if unat index < length (ds_symbols d)
          then read_symbols n st1 (d\<lparr>ds_symbols := (ds_symbols d)[unat index := Key key]\<rparr>)
          else None))))"

text \<open>\<open>vec![DUMMY_SYMBOL; count]\<close>.\<close>

definition read_symbol_table :: "symbol_table \<Rightarrow> symbol_table reader" where
  "read_symbol_table st = r_bind get_u32 (\<lambda>count d. read_symbols (unat count) st (d\<lparr>ds_symbols := replicate (unat count) (Key 0)\<rparr>))"

text \<open>The \<open>allocate\<close> of each type: the size of the cell, which storages, strings and objects read from the snapshot.\<close>

definition storage_size :: "read_host \<Rightarrow> nat reader" where
  "storage_size R = r_bind get_u32 (\<lambda>size. r_bind get_u32 (\<lambda>capacity d.
     Some (rh_size_of R KStorage + unat capacity * 8, set_pc (ds_pc d - 8) d)))"
definition string_size :: "read_host \<Rightarrow> nat reader" where
  "string_size R = r_bind get_u32 (\<lambda>size. r_bind (read_many (unat size) get_u8) (\<lambda>_. r_return (rh_size_of R KString)))"
definition object_size_with_tag :: "read_host \<Rightarrow> u8 \<Rightarrow> u64 \<Rightarrow> nat" where
  "object_size_with_tag R tag class_at =
     (let size = rh_size_of R KObject + rh_additional_size R class_at in
      if tag = tag_global \<or> tag = tag_function \<or> tag = tag_arguments \<or> tag = tag_string then size + rh_data_size R tag else size)"
definition object_size :: "read_host \<Rightarrow> nat reader" where
  "object_size R = r_bind get_u32 (\<lambda>tag. r_bind get_reference (\<lambda>class_at d.
     Some (object_size_with_tag R (ucast tag) class_at, set_pc (ds_pc d - 8) d)))"
definition cell_size :: "read_host \<Rightarrow> cell_kind \<Rightarrow> nat reader" where
  "cell_size R kind =
     (case kind of
        KStorage \<Rightarrow> storage_size R
      | KString \<Rightarrow> string_size R
      | KObject \<Rightarrow> object_size R
      | _ \<Rightarrow> r_return (rh_size_of R kind))"

text \<open>The cells are allocated first, so that they can refer to each other, and then read.\<close>

primrec allocate_cells :: "read_host \<Rightarrow> nat \<Rightarrow> snap_heap \<Rightarrow> snap_heap reader" where
  "allocate_cells R 0 h = r_return h"
| "allocate_cells R (Suc n) h =
     r_bind get_u32 (\<lambda>ref_id. r_bind get_reference (\<lambda>_. r_bind get_reference (\<lambda>alloc. r_bind get_u32 (\<lambda>offset d.
       (case rh_allocate R alloc of
          None \<Rightarrow> None
        | Some kind \<Rightarrow>
            (case cell_size R kind d of
               None \<Rightarrow> None
             | Some (sz, d1) \<Rightarrow>
                 (let ptr = rh_allocate_raw R sz h in
                  case set_reference (unat ref_id) ptr (set_pc (unat offset) d1) of
                    None \<Rightarrow> None
                  | Some d2 \<Rightarrow> allocate_cells R n (h(ptr \<mapsto> (kind, sz, None))) d2)))))))"

primrec read_cells :: "read_host \<Rightarrow> nat \<Rightarrow> snap_heap \<Rightarrow> snap_heap reader" where
  "read_cells R 0 h = r_return h"
| "read_cells R (Suc n) h =
     r_bind get_u32 (\<lambda>ref_id d0. if \<not> unat ref_id < length (ds_refs d0) then None else
       (let base = ds_refs d0 ! unat ref_id in
        r_bind get_reference (\<lambda>deser. r_bind get_reference (\<lambda>_. r_bind get_u32 (\<lambda>_ d.
          (case (rh_deserialize R deser, h base) of
             (Some kind, Some (k, sz, _)) \<Rightarrow>
               (case get_cell (rh_hooks R) kind d of
                  None \<Rightarrow> None
                | Some (c, d1) \<Rightarrow> read_cells R n (h(base \<mapsto> (k, sz, Some c))) d1)
           | _ \<Rightarrow> None)))) d0))"

definition read_heap :: "read_host \<Rightarrow> symbol_table \<Rightarrow> read_runtime reader" where
  "read_heap R st =
     r_bind get_u32 (\<lambda>count d0.
       r_bind (allocate_cells R (unat count) (\<lambda>_. None)) (\<lambda>h.
       r_bind get_u32 (\<lambda>weak_count. r_bind (read_many (unat weak_count) get_reference) (\<lambda>weak d1.
         r_bind (read_cells R (unat count) h) (\<lambda>h2 d2.
           r_bind get_u32 (\<lambda>ctx_num.
           r_bind (read_many (if sint ctx_num > 0 then unat ctx_num else 0) get_reference) (\<lambda>contexts.
             r_return \<lparr>rr_heap = h2, rr_weak = weak, rr_contexts = contexts, rr_symbols = st\<rparr>)) (set_pc (ds_pc d1) d2))
         (set_pc (ds_pc d0) d1)))) d0)"

definition read_snapshot :: "read_host \<Rightarrow> symbol_table \<Rightarrow> u8 list \<Rightarrow> read_runtime panics" where
  "read_snapshot R st snapshot =
     (case get_u32 \<lparr>ds_reader = snapshot, ds_pc = 0, ds_refs = [], ds_symbols = []\<rparr> of
        None \<Rightarrow> None
      | Some (ref_count, d) \<Rightarrow>
          (case read_reference_map R (d\<lparr>ds_refs := replicate (unat ref_count) 0\<rparr>) of
             None \<Rightarrow> None
           | Some d1 \<Rightarrow>
               (case r_bind (read_symbol_table st) (read_heap R) d1 of None \<Rightarrow> None | Some (rt, _) \<Rightarrow> Some rt)))"

end
