(* ===== verification/Snapshot_Layout.thy ===== *)
theory Snapshot_Layout
  imports Snapshot_Heap
begin

text \<open>The bytes of a snapshot: how they are laid out, and that each part is what the serializer wrote.\<close>

section \<open>Patches\<close>

abbreviation le4 :: "nat \<Rightarrow> u8 list" where "le4 n \<equiv> le_bytes 4 (of_nat n :: u32)"

lemma le_bytes_nth: "[le_bytes 4 x ! 0, le_bytes 4 x ! 1, le_bytes 4 x ! 2, le_bytes 4 x ! 3] = le_bytes 4 x"
  by (simp add: eval_nat_numeral)

lemma le_bytes_4: "le_bytes 4 x = [ucast x, ucast (drop_bit 8 x), ucast (drop_bit 8 (drop_bit 8 x)), ucast (drop_bit 8 (drop_bit 8 (drop_bit 8 x)))]"
  by (simp add: eval_nat_numeral)

lemma update_4:
  "(xs @ [a, b, c, d] @ ys)[length xs := p, length xs + 1 := q, length xs + 2 := r, length xs + 3 := t] = xs @ [p, q, r, t] @ ys"
proof -
  have "(xs @ zs)[length xs + k := v] = xs @ zs[k := v]" for zs k v by (simp add: list_update_append)
  from this [of _ 0] this [of _ 1] this [of _ 2] this [of _ 3] show ?thesis by (simp add: numeral_2_eq_2 numeral_3_eq_3)
qed

lemma patch_at_run:
  fixes s :: serializer
  assumes "sr_out s = xs @ le_bytes 4 (y :: u32) @ ys"
  shows "patch_u32 (length xs) x s = Some (s\<lparr>sr_out := xs @ le_bytes 4 x @ ys\<rparr>)"
proof -
  have "(sr_out s)[length xs := le_bytes 4 x ! 0, length xs + 1 := le_bytes 4 x ! 1, length xs + 2 := le_bytes 4 x ! 2,
      length xs + 3 := le_bytes 4 x ! 3] = xs @ le_bytes 4 x @ ys"
    unfolding assms le_bytes_4 [of y] update_4 by (simp only: le_bytes_nth)
  then show ?thesis using assms by (simp add: patch_u32_def)
qed

text \<open>A count or an offset is written as 0, and patched after what follows it.\<close>

abbreviation zero4 :: "u8 list" where "zero4 \<equiv> le_bytes 4 (0 :: u32)"

lemma write_zero: "write_u32 0 s = Some (s\<lparr>sr_out := sr_out s @ zero4\<rparr>)"
  by (simp add: write_u32_def write_all_def)

lemma in_order_Cons: "in_order (w # ws) s = Some s' \<longleftrightarrow> (\<exists>s1. w s = Some s1 \<and> in_order ws s1 = Some s')"
  by (simp split: option.split)

section \<open>References\<close>

definition same_maps :: "serializer \<Rightarrow> serializer \<Rightarrow> bool" where
  "same_maps s s' \<longleftrightarrow> sr_refs s' = sr_refs s \<and> sr_symbols s' = sr_symbols s"

lemma write_reference_shape:
  "write_reference r s = Some s' \<Longrightarrow> \<exists>i. find_ref r (sr_refs s) = Some i \<and> s' = s\<lparr>sr_out := sr_out s @ le4 i\<rparr>"
  by (auto simp: write_reference_def write_u32_def write_all_def split: option.splits)

lemma write_references_shape:
  "in_order (map write_reference rs) s = Some s' \<Longrightarrow>
   \<exists>is. list_all2 (\<lambda>r i. find_ref r (sr_refs s) = Some i) rs is \<and> s' = s\<lparr>sr_out := sr_out s @ concat (map le4 is)\<rparr>"
proof (induction rs arbitrary: s)
  case (Cons r rs)
  then obtain s1 where "write_reference r s = Some s1" and s': "in_order (map write_reference rs) s1 = Some s'" by (auto split: option.splits)
  then obtain i where i: "find_ref r (sr_refs s) = Some i" "s1 = s\<lparr>sr_out := sr_out s @ le4 i\<rparr>" using write_reference_shape by blast
  obtain "is" where "list_all2 (\<lambda>r i. find_ref r (sr_refs s1) = Some i) rs is" "s' = s1\<lparr>sr_out := sr_out s1 @ concat (map le4 is)\<rparr>"
    using Cons.IH [OF s'] by blast
  then show ?case using i by (intro exI [of _ "i # is"]) simp
qed simp

section \<open>Cells\<close>

text \<open>A cell as it is laid out: the indices of its address, of its two functions, and its contents.\<close>

type_synonym cell_record = "nat \<times> nat \<times> nat \<times> u8 list"

fun cell_bytes :: "nat \<Rightarrow> cell_record list \<Rightarrow> u8 list" where
  "cell_bytes p [] = []"
| "cell_bytes p ((i, j, k, payload) # rs) =
     le4 i @ le4 j @ le4 k @ le4 (p + 16 + length payload) @ payload @ cell_bytes (p + 16 + length payload) rs"

text \<open>\<open>bs\<close> is what \<open>w\<close> writes.\<close>

definition written_by :: "serializer \<Rightarrow> writer \<Rightarrow> u8 list \<Rightarrow> bool" where
  "written_by s w bs \<longleftrightarrow> (\<exists>s1 s2. same_maps s s1 \<and> w s1 = Some s2 \<and> s2 = s1\<lparr>sr_out := sr_out s1 @ bs\<rparr> \<and> length (sr_out s2) < 2 ^ 32)"

definition cell_record :: "write_host \<Rightarrow> serializer \<Rightarrow> u64 \<times> snap_cell \<Rightarrow> cell_record \<Rightarrow> bool" where
  "cell_record W s cell r \<longleftrightarrow>
     (case r of (i, j, k, payload) \<Rightarrow>
        find_ref (fst cell) (sr_refs s) = Some i \<and> find_ref (wh_deserialize W (kind_of (snd cell))) (sr_refs s) = Some j \<and>
        find_ref (wh_allocate W (kind_of (snd cell))) (sr_refs s) = Some k \<and> written_by s (put_cell (wh_hooks W) (snd cell)) payload)"

definition extends :: "writer \<Rightarrow> bool" where
  "extends w \<longleftrightarrow> (\<forall>s s'. w s = Some s' \<longrightarrow> (\<exists>bs. s' = s\<lparr>sr_out := sr_out s @ bs\<rparr>))"

lemma write_cell_shape:
  assumes r: "write_cell W cell s = Some s'" and e: "extends (put_cell (wh_hooks W) (snd cell))" and l: "length (sr_out s') < 2 ^ 32"
  shows "\<exists>i j k payload. cell_record W s cell (i, j, k, payload) \<and>
    s' = s\<lparr>sr_out := sr_out s @ le4 i @ le4 j @ le4 k @ le4 (length (sr_out s) + 16 + length payload) @ payload\<rparr>"
proof -
  let ?K = "kind_of (snd cell)" and ?put = "put_cell (wh_hooks W) (snd cell)"
  from r obtain s1 where s1: "in_order (map write_reference [fst cell, wh_deserialize W ?K, wh_allocate W ?K]) s = Some s1"
    by (auto simp: write_cell_def split: option.splits)
  from write_references_shape [OF s1] obtain i j k where ijk: "find_ref (fst cell) (sr_refs s) = Some i"
    "find_ref (wh_deserialize W ?K) (sr_refs s) = Some j" "find_ref (wh_allocate W ?K) (sr_refs s) = Some k"
    and s1': "s1 = s\<lparr>sr_out := sr_out s @ le4 i @ le4 j @ le4 k\<rparr>"
    by (auto simp: list_all2_Cons1)
  let ?s = "s1\<lparr>sr_out := sr_out s1 @ zero4\<rparr> :: serializer"
  from r s1 obtain s2 where s2: "?put ?s = Some s2" and s': "patch_u32 (length (sr_out s1)) (of_nat (length (sr_out s2))) s2 = Some s'"
    by (auto simp: write_cell_def write_u32_def write_all_def split: option.splits)
  obtain payload where p: "s2 = ?s\<lparr>sr_out := sr_out ?s @ payload\<rparr>" using e s2 unfolding extends_def by blast
  have out2: "sr_out s2 = sr_out s1 @ zero4 @ payload" by (simp add: p)
  have s'': "s' = s2\<lparr>sr_out := sr_out s1 @ le4 (length (sr_out s2)) @ payload\<rparr>"
    using patch_at_run [OF out2, of "of_nat (length (sr_out s2))"] s' by simp
  have "length (sr_out s2) = length (sr_out s')" by (simp add: s'' out2)
  then have "written_by s ?put payload"
    using s2 p l s1' unfolding written_by_def same_maps_def by (intro exI [of _ ?s] exI [of _ s2]) simp
  moreover have "s' = s\<lparr>sr_out := sr_out s @ le4 i @ le4 j @ le4 k @ le4 (length (sr_out s) + 16 + length payload) @ payload\<rparr>"
  proof -
    have len: "length (sr_out s2) = length (sr_out s) + 16 + length payload" by (simp add: p s1')
    show ?thesis unfolding s'' len by (simp add: p s1' del: of_nat_add)
  qed
  ultimately show ?thesis using ijk by (auto simp: cell_record_def)
qed

lemma write_cells_shape:
  assumes "in_order (map (write_cell W) cells) s = Some s'" "\<And>c. c \<in> snd ` set cells \<Longrightarrow> extends (put_cell (wh_hooks W) c)" "length (sr_out s') < 2 ^ 32"
  shows "\<exists>rs. list_all2 (cell_record W s) cells rs \<and> s' = s\<lparr>sr_out := sr_out s @ cell_bytes (length (sr_out s)) rs\<rparr>"
  using assms
proof (induction cells arbitrary: s)
  case (Cons cell cells)
  from Cons.prems(1) obtain s1 where s1: "write_cell W cell s = Some s1" and s': "in_order (map (write_cell W) cells) s1 = Some s'"
    by (auto split: option.splits)
  obtain rs where rs: "list_all2 (cell_record W s1) cells rs" "s' = s1\<lparr>sr_out := sr_out s1 @ cell_bytes (length (sr_out s1)) rs\<rparr>"
    using Cons.IH [OF s'] Cons.prems(2,3) by auto
  have l: "length (sr_out s1) < 2 ^ 32" using Cons.prems(3) rs(2) by simp
  obtain i j k payload where c: "cell_record W s cell (i, j, k, payload)"
    and s1': "s1 = s\<lparr>sr_out := sr_out s @ le4 i @ le4 j @ le4 k @ le4 (length (sr_out s) + 16 + length payload) @ payload\<rparr>"
    using write_cell_shape [OF s1 _ l] Cons.prems(2) by auto
  have "cell_record W s1 = cell_record W s" by (intro ext) (simp add: cell_record_def written_by_def same_maps_def s1')
  moreover have "length (sr_out s1) = length (sr_out s) + 16 + length payload" by (simp add: s1')
  ultimately show ?case
    using rs c s1' by (intro exI [of _ "(i, j, k, payload) # rs"]) (simp add: add.assoc)
qed simp

end
