(* ===== verification/Snapshot_Restore.thy ===== *)
theory Snapshot_Restore
  imports Snapshot_Layout
begin

text \<open>Reading the laid out parts of a snapshot back.\<close>

section \<open>Words and references\<close>

lemma bytes_at_Nil [simp]: "bytes_at d [] \<longleftrightarrow> ds_pc d \<le> length (ds_reader d)"
  by (auto simp: bytes_at_def)

lemma get_u32_at:
  assumes "bytes_at d (le_bytes 4 x @ rest)"
  shows "get_u32 d = Some (x, d\<lparr>ds_pc := ds_pc d + 4\<rparr>)"
proof -
  have "bytes_at d (le_bytes 4 x)" using assms by (simp add: bytes_at_append)
  from read_bytes_at [OF this] show ?thesis
    by (simp add: get_u32_def r_bind_def r_return_def of_le_bytes_le take_bit_word_eq_self)
qed

lemma get_reference_at:
  assumes "bytes_at d (le4 i @ rest)" "i < length (ds_refs d)" "length (ds_refs d) \<le> 2 ^ 32"
  shows "get_reference d = Some (ds_refs d ! i, d\<lparr>ds_pc := ds_pc d + 4\<rparr>)"
  using get_u32_at [OF assms(1)] assms(2,3) by (simp add: get_reference_def r_bind_def unat_word_of_nat_less)

lemma bytes_at_step: "bytes_at d (xs @ ys) \<Longrightarrow> bytes_at (d\<lparr>ds_pc := ds_pc d + length xs\<rparr>) ys"
  by (simp add: bytes_at_append)

lemma bytes_at_cong:
  "bytes_at d bs \<Longrightarrow> ds_pc d' = ds_pc d \<Longrightarrow> ds_reader d' = ds_reader d \<Longrightarrow> bytes_at d' bs"
  by (simp add: bytes_at_def)

lemma read_references_at:
  assumes "bytes_at d (concat (map le4 is) @ rest)" "\<forall>i\<in>set is. i < length (ds_refs d)" "length (ds_refs d) \<le> 2 ^ 32"
  shows "read_many (length is) get_reference d = Some (map (\<lambda>i. ds_refs d ! i) is, d\<lparr>ds_pc := ds_pc d + 4 * length is\<rparr>)"
  using assms
proof (induction "is" arbitrary: d)
  case Nil
  then show ?case by (simp add: r_return_def)
next
  case (Cons i "is")
  let ?d = "d\<lparr>ds_pc := ds_pc d + 4\<rparr>"
  have "get_reference d = Some (ds_refs d ! i, ?d)" using Cons.prems get_reference_at [of d i] by simp
  moreover have "bytes_at ?d (concat (map le4 is) @ rest)"
    using bytes_at_step [of d "le4 i" "concat (map le4 is) @ rest"] Cons.prems(1) by simp
  then have "read_many (length is) get_reference ?d = Some (map (\<lambda>i. ds_refs d ! i) is, ?d\<lparr>ds_pc := ds_pc ?d + 4 * length is\<rparr>)"
    using Cons.IH [of ?d] Cons.prems by simp
  ultimately show ?case by (simp add: r_bind_def r_return_def)
qed

section \<open>Symbols\<close>

fun symbol_bytes :: "nat \<Rightarrow> (u8 list \<times> u32) list \<Rightarrow> u8 list" where
  "symbol_bytes n [] = []"
| "symbol_bytes n ((str, key) # es) = le4 n @ le4 (length str) @ str @ symbol_bytes (n + 1) es"

fun symbol_indices :: "nat \<Rightarrow> (u8 list \<times> u32) list \<Rightarrow> (symbol \<times> u32) list" where
  "symbol_indices n [] = []"
| "symbol_indices n ((str, key) # es) = (Key key, of_nat n) # symbol_indices (n + 1) es"

fun intern_all :: "u8 list list \<Rightarrow> symbol_table \<Rightarrow> u32 list \<times> symbol_table" where
  "intern_all [] st = ([], st)"
| "intern_all (str # strs) st =
     (let (key, st1) = intern str st; (keys, st2) = intern_all strs st1 in (key # keys, st2))"

lemma write_bytes_run: "in_order (map write_u8 bs) s = Some (s\<lparr>sr_out := sr_out s @ bs\<rparr>)"
  by (induction bs arbitrary: s) (simp_all add: write_u8_def write_all_def)

lemma symbol_indices_keys: "fst ` set (symbol_indices n es) = Key ` snd ` set es"
  by (induction n es rule: symbol_indices.induct) auto

lemma write_symbols_run:
  assumes "distinct (map snd es)" "Key ` snd ` set es \<inter> fst ` set (sr_symbols s) = {}" "length (sr_symbols s) = n"
  shows "in_order (map write_symbol_entry es) s =
    Some (s\<lparr>sr_out := sr_out s @ symbol_bytes n es, sr_symbols := sr_symbols s @ symbol_indices n es\<rparr>)"
  using assms
proof (induction n es arbitrary: s rule: symbol_bytes.induct)
  case (1 n)
  then show ?case by simp
next
  case (2 n str key es)
  let ?s = "s\<lparr>sr_out := sr_out s @ le4 n @ le4 (length str) @ str, sr_symbols := sr_symbols s @ [(Key key, of_nat n)]\<rparr>"
  have "AList.update (Key key) (of_nat n) (sr_symbols s) = sr_symbols s @ [(Key key, of_nat n)]"
    using 2 by (intro update_new) auto
  then have "write_symbol_entry (str, key) s = Some ?s"
    using 2(4) by (simp add: write_symbol_entry_def write_u32_def write_all_def write_bytes_run Let_def)
  moreover have "in_order (map write_symbol_entry es) ?s =
      Some (?s\<lparr>sr_out := sr_out ?s @ symbol_bytes (n + 1) es, sr_symbols := sr_symbols ?s @ symbol_indices (n + 1) es\<rparr>)"
    using 2 by (intro 2(1)) auto
  ultimately show ?case by simp
qed

lemma read_symbols_run:
  assumes "bytes_at d (symbol_bytes n es)" "n + length es \<le> length (ds_symbols d)" "length (ds_symbols d) \<le> 2 ^ 32"
    "\<forall>str\<in>fst ` set es. length str < 2 ^ 32"
  shows "read_symbols (length es) st d =
    Some (snd (intern_all (map fst es) st),
      d\<lparr>ds_pc := ds_pc d + length (symbol_bytes n es),
        ds_symbols := take n (ds_symbols d) @ map Key (fst (intern_all (map fst es) st)) @ drop (n + length es) (ds_symbols d)\<rparr>)"
  using assms
proof (induction n es arbitrary: d st rule: symbol_bytes.induct)
  case (1 n)
  then show ?case by (simp add: r_return_def)
next
  case (2 n str key es)
  obtain k st1 where k: "intern str st = (k, st1)" by fastforce
  obtain ks st2 where ks: "intern_all (map fst es) st1 = (ks, st2)" by fastforce
  let ?d1 = "d\<lparr>ds_pc := ds_pc d + 4\<rparr>" and ?d2 = "d\<lparr>ds_pc := ds_pc d + 8\<rparr>"
  let ?d3 = "d\<lparr>ds_pc := ds_pc d + (8 + length str)\<rparr>"
  let ?d4 = "?d3\<lparr>ds_symbols := (ds_symbols d)[n := Key k]\<rparr>"
  have b: "bytes_at d (le4 n @ le4 (length str) @ str @ symbol_bytes (n + 1) es)" using 2(2) by simp
  have b1: "bytes_at ?d1 (le4 (length str) @ str @ symbol_bytes (n + 1) es)" using bytes_at_step [OF b] by simp
  have b2: "bytes_at ?d2 (str @ symbol_bytes (n + 1) es)" using bytes_at_step [OF b1] by (simp add: add.commute)
  have b3: "bytes_at ?d4 (symbol_bytes (n + 1) es)"
    by (rule bytes_at_cong [OF bytes_at_step [OF b2]]) (simp_all add: add.assoc)
  have read: "read_bytes (length str) ?d2 = Some (str, ?d3)"
    using read_bytes_at [of ?d2 str] b2 by (simp add: bytes_at_append add.assoc)
  have n: "unat (of_nat n :: u32) = n" "unat (of_nat (length str) :: u32) = length str"
    using 2 by (auto simp: unat_word_of_nat_less)
  have rest: "read_symbols (length es) st1 ?d4 = Some (st2, ?d4\<lparr>ds_pc := ds_pc ?d4 + length (symbol_bytes (n + 1) es),
      ds_symbols := take (n + 1) (ds_symbols ?d4) @ map Key ks @ drop (n + 1 + length es) (ds_symbols ?d4)\<rparr>)"
    using 2(1) [OF b3, of st1] 2(3-5) by (simp add: ks)
  have "take (n + 1) ((ds_symbols d)[n := Key k]) = take n (ds_symbols d) @ [Key k]"
    using 2(3) by (simp add: take_Suc_conv_app_nth)
  then show ?case
    using get_u32_at [OF b] get_u32_at [OF b1] read n rest 2(3)
    by (simp add: r_bind_def k ks add.assoc add.commute)
qed

section \<open>The reference map\<close>

lemma set_references_run:
  assumes "ix + length rs \<le> length (ds_refs d)"
  shows "set_references ix rs d = Some (d\<lparr>ds_refs := take ix (ds_refs d) @ rs @ drop (ix + length rs) (ds_refs d)\<rparr>)"
  using assms
proof (induction rs arbitrary: ix d)
  case Nil
  then show ?case by simp
next
  case (Cons r rs)
  let ?d = "d\<lparr>ds_refs := (ds_refs d)[ix := r]\<rparr>"
  have "take (ix + 1) ((ds_refs d)[ix := r]) = take ix (ds_refs d) @ [r]" using Cons.prems by (simp add: take_Suc_conv_app_nth)
  moreover have "set_references (ix + 1) rs ?d =
      Some (?d\<lparr>ds_refs := take (ix + 1) (ds_refs ?d) @ rs @ drop (ix + 1 + length rs) (ds_refs ?d)\<rparr>)"
    by (rule Cons.IH) (use Cons.prems in simp)
  ultimately show ?case using Cons.prems by (simp add: set_reference_def)
qed

lemma read_reference_map_run:
  assumes "ds_refs d = replicate (length (rh_natives R @ rh_externals R) + n) 0"
  shows "read_reference_map R d = Some (d\<lparr>ds_refs := rh_natives R @ rh_externals R @ replicate n 0\<rparr>)"
proof -
  let ?N = "rh_natives R" and ?X = "rh_externals R"
  let ?d1 = "d\<lparr>ds_refs := ?N @ replicate (length ?X + n) 0\<rparr>"
  have "set_references 0 ?N d = Some ?d1"
    using set_references_run [of 0 ?N d] assms by (simp add: drop_replicate)
  moreover have "set_references (length ?N) ?X ?d1 = Some (d\<lparr>ds_refs := ?N @ ?X @ replicate n 0\<rparr>)"
    using set_references_run [of "length ?N" ?X ?d1] by (simp add: drop_replicate)
  ultimately show ?thesis by (simp add: read_reference_map_def)
qed

section \<open>Cells\<close>

text \<open>The functions of a cell are found among the first references, and its size can be read.\<close>

definition sized_by :: "read_host \<Rightarrow> cell_kind \<Rightarrow> nat \<Rightarrow> u8 list \<Rightarrow> bool" where
  "sized_by R kind m payload \<longleftrightarrow>
     (\<forall>d. bytes_at d payload \<longrightarrow> m \<le> length (ds_refs d) \<longrightarrow> (\<exists>sz pc. cell_size R kind d = Some (sz, d\<lparr>ds_pc := pc\<rparr>)))"

definition functions_of :: "read_host \<Rightarrow> nat \<Rightarrow> u64 list \<Rightarrow> cell_kind \<Rightarrow> cell_record \<Rightarrow> bool" where
  "functions_of R N pre kind r \<longleftrightarrow>
     (case r of (i, j, k, payload) \<Rightarrow>
        j < length pre \<and> k < length pre \<and> rh_deserialize R (pre ! j) = Some kind \<and> rh_allocate R (pre ! k) = Some kind \<and>
        sized_by R kind N payload)"

text \<open>While there are fewer than \<open>n\<close> cells, the allocator returns an address that no cell has.\<close>

definition fresh_allocator :: "nat \<Rightarrow> read_host \<Rightarrow> bool" where
  "fresh_allocator n R \<longleftrightarrow> (\<forall>sz h. card (dom h) < n \<longrightarrow> h (rh_allocate_raw R sz h) = None)"

lemma header_at:
  assumes "bytes_at d (le4 i @ le4 j @ le4 k @ le4 p @ rest)"
  shows "bytes_at (d\<lparr>ds_pc := ds_pc d + 4\<rparr>) (le4 j @ le4 k @ le4 p @ rest)"
    "bytes_at (d\<lparr>ds_pc := ds_pc d + 8\<rparr>) (le4 k @ le4 p @ rest)"
    "bytes_at (d\<lparr>ds_pc := ds_pc d + 12\<rparr>) (le4 p @ rest)" "bytes_at (d\<lparr>ds_pc := ds_pc d + 16\<rparr>) rest"
proof -
  show 1: "bytes_at (d\<lparr>ds_pc := ds_pc d + 4\<rparr>) (le4 j @ le4 k @ le4 p @ rest)" using bytes_at_step [OF assms] by simp
  show 2: "bytes_at (d\<lparr>ds_pc := ds_pc d + 8\<rparr>) (le4 k @ le4 p @ rest)" using bytes_at_step [OF 1] by (simp add: add.commute)
  show 3: "bytes_at (d\<lparr>ds_pc := ds_pc d + 12\<rparr>) (le4 p @ rest)" using bytes_at_step [OF 2] by (simp add: add.commute)
  show "bytes_at (d\<lparr>ds_pc := ds_pc d + 16\<rparr>) rest" using bytes_at_step [OF 3] by (simp add: add.commute)
qed

lemma allocate_step:
  assumes b: "bytes_at d (le4 i @ le4 j @ le4 k @ le4 p @ payload @ rest)"
    and f: "functions_of R (length (ds_refs d)) (take m (ds_refs d)) kind (i, j, k, payload)"
    and i: "i < length (ds_refs d)" "length (ds_refs d) \<le> 2 ^ 32" "p < 2 ^ 32"
  shows "\<exists>sz. allocate_cells R (Suc n) h d =
    (let ptr = rh_allocate_raw R sz h in
     allocate_cells R n (h(ptr \<mapsto> (kind, sz, None))) (d\<lparr>ds_pc := p, ds_refs := (ds_refs d)[i := ptr]\<rparr>))"
proof -
  let ?d = "\<lambda>n. d\<lparr>ds_pc := ds_pc d + n\<rparr>"
  note h = header_at [OF b]
  have jk: "j < length (ds_refs d)" "k < length (ds_refs d)" "take m (ds_refs d) ! k = ds_refs d ! k"
    and alloc: "rh_allocate R (ds_refs d ! k) = Some kind" using f by (auto simp: functions_of_def)
  have "bytes_at (?d 16) payload" using h(4) by (simp add: bytes_at_append)
  then obtain sz pc where sz: "cell_size R kind (?d 16) = Some (sz, d\<lparr>ds_pc := pc\<rparr>)"
    using f by (auto simp: functions_of_def sized_by_def)
  have r: "get_u32 d = Some (of_nat i, ?d 4)" "get_reference (?d 4) = Some (ds_refs d ! j, ?d 8)"
    "get_reference (?d 8) = Some (ds_refs d ! k, ?d 12)" "get_u32 (?d 12) = Some (of_nat p, ?d 16)"
    using get_u32_at [OF b] get_reference_at [OF h(1)] get_reference_at [OF h(2)] get_u32_at [OF h(3)] jk i(2)
    by (simp_all add: add.commute)
  have w: "unat (of_nat i :: u32) = i" "unat (of_nat p :: u32) = p" using i by (auto simp: unat_word_of_nat_less)
  show ?thesis
    using r alloc sz w i(1) by (intro exI [of _ sz]) (simp add: r_bind_def set_reference_def set_pc_def Let_def)
qed

lemma allocate_run:
  assumes "list_all2 (functions_of R N pre) kinds rs" "map fst rs = [q..<q + length rs]" "length pre \<le> q"
    "q + length rs \<le> length (ds_refs d)" "length (ds_refs d) = N" "N \<le> 2 ^ 32" "take (length pre) (ds_refs d) = pre"
    "bytes_at d (cell_bytes (ds_pc d) rs)" "ds_pc d + length (cell_bytes (ds_pc d) rs) < 2 ^ 32" "fresh_allocator M R"
    "card (dom h) + length rs \<le> M"
  shows "\<exists>as h'. length as = length rs \<and> distinct as \<and> (\<forall>a\<in>set as. h a = None) \<and> (\<forall>a. a \<notin> set as \<longrightarrow> h' a = h a) \<and>
    list_all2 (\<lambda>kind a. \<exists>sz. h' a = Some (kind, sz, None)) kinds as \<and>
    allocate_cells R (length rs) h d = Some (h', d\<lparr>ds_pc := ds_pc d + length (cell_bytes (ds_pc d) rs),
      ds_refs := take q (ds_refs d) @ as @ drop (q + length rs) (ds_refs d)\<rparr>)"
  using assms
proof (induction kinds rs arbitrary: q d h rule: list_all2_induct)
  case Nil
  then show ?case by (intro exI [of _ "[]"] exI [of _ h]) (simp add: r_return_def)
next
  case (Cons kind kinds r rs)
  obtain i j k payload where r: "r = (i, j, k, payload)" by (cases r)
  let ?p = "ds_pc d + 16 + length payload"
  have i: "i = q" and rest: "map fst rs = [q + 1..<q + 1 + length rs]"
    using Cons.prems(1) r by (simp_all add: upt_conv_Cons del: upt_Suc)
  have b: "bytes_at d (le4 i @ le4 j @ le4 k @ le4 ?p @ payload @ cell_bytes ?p rs)" using Cons.prems(7) r by simp
  have "?p < 2 ^ 32" using Cons.prems(8) r by simp
  moreover have "functions_of R N (take (length pre) (ds_refs d)) kind (i, j, k, payload)" using Cons.hyps(1) Cons.prems(6) r by simp
  ultimately obtain sz where step: "allocate_cells R (Suc (length rs)) h d =
    (let ptr = rh_allocate_raw R sz h in
     allocate_cells R (length rs) (h(ptr \<mapsto> (kind, sz, None))) (d\<lparr>ds_pc := ?p, ds_refs := (ds_refs d)[i := ptr]\<rparr>))"
    using allocate_step [OF b, of R "length pre" kind "length rs" h] Cons.prems(3,4,5) i by auto
  define ptr where "ptr = rh_allocate_raw R sz h"
  define h1 where "h1 = h(ptr \<mapsto> (kind, sz, None))"
  define d1 where "d1 = d\<lparr>ds_pc := ?p, ds_refs := (ds_refs d)[i := ptr]\<rparr>"
  have new: "h ptr = None" using Cons.prems(9,10) by (simp add: fresh_allocator_def ptr_def)
  have card: "card (dom h1) + length rs \<le> M" using new Cons.prems(10) by (simp add: h1_def domIff)
  have "bytes_at (d\<lparr>ds_pc := ?p\<rparr>) (cell_bytes ?p rs)"
    using bytes_at_step [OF header_at(4) [OF b]] by (simp add: add.commute add.left_commute)
  then have b1: "bytes_at d1 (cell_bytes (ds_pc d1) rs)" by (simp add: d1_def bytes_at_def)
  have "\<exists>as h'. length as = length rs \<and> distinct as \<and> (\<forall>a\<in>set as. h1 a = None) \<and> (\<forall>a. a \<notin> set as \<longrightarrow> h' a = h1 a) \<and>
    list_all2 (\<lambda>kind a. \<exists>sz. h' a = Some (kind, sz, None)) kinds as \<and>
    allocate_cells R (length rs) h1 d1 = Some (h', d1\<lparr>ds_pc := ds_pc d1 + length (cell_bytes (ds_pc d1) rs),
      ds_refs := take (q + 1) (ds_refs d1) @ as @ drop (q + 1 + length rs) (ds_refs d1)\<rparr>)"
    by (rule Cons.IH [OF rest _ _ _ _ _ b1 _ Cons.prems(9) card])
      (use Cons.prems i r in \<open>simp_all add: d1_def h1_def\<close>)
  then obtain as h' where as: "length as = length rs" "distinct as" "\<forall>a\<in>set as. h1 a = None" "\<forall>a. a \<notin> set as \<longrightarrow> h' a = h1 a"
    "list_all2 (\<lambda>kind a. \<exists>sz. h' a = Some (kind, sz, None)) kinds as"
    "allocate_cells R (length rs) h1 d1 = Some (h', d1\<lparr>ds_pc := ds_pc d1 + length (cell_bytes (ds_pc d1) rs),
      ds_refs := take (q + 1) (ds_refs d1) @ as @ drop (q + 1 + length rs) (ds_refs d1)\<rparr>)" by blast
  have ptr: "ptr \<notin> set as" using as(3) by (auto simp: h1_def)
  have "take (q + 1) ((ds_refs d)[q := ptr]) = take q (ds_refs d) @ [ptr]" using Cons.prems(3) by (simp add: take_Suc_conv_app_nth)
  then have run: "allocate_cells R (length (r # rs)) h d = Some (h', d\<lparr>ds_pc := ds_pc d + length (cell_bytes (ds_pc d) (r # rs)),
      ds_refs := take q (ds_refs d) @ (ptr # as) @ drop (q + length (r # rs)) (ds_refs d)\<rparr>)"
    using step as(6) i Cons.prems(3) by (simp add: ptr_def [symmetric] h1_def [symmetric] d1_def [symmetric] Let_def)
      (simp add: d1_def r add.assoc)
  have "\<forall>a\<in>set as. h a = None" using as(3) ptr by (metis fun_upd_apply h1_def)
  moreover have "h' ptr = Some (kind, sz, None)" using as(4) ptr by (simp add: h1_def)
  moreover have "\<forall>a. a \<notin> set (ptr # as) \<longrightarrow> h' a = h a" using as(4) by (simp add: h1_def)
  ultimately show ?case
    using as(1,2,5) ptr new run by (intro exI [of _ "ptr # as"] exI [of _ h']) (simp del: cell_bytes.simps)
qed

end
