(* ===== verification/Snapshot_Contents.thy ===== *)
theory Snapshot_Contents
  imports Snapshot_Restore
begin

text \<open>The second pass over the cells of a snapshot, which reads their contents into the allocated cells.\<close>

lemma written_read:
  assumes w: "written_by s w bs" and c: "carries E w g v" and E: "writes_in E s" "reads_in E d" and b: "bytes_at d bs"
  shows "g d = Some (v, d\<lparr>ds_pc := ds_pc d + length bs\<rparr>)"
proof -
  from w obtain s1 s2 where s: "same_maps s s1" "w s1 = Some s2" "s2 = s1\<lparr>sr_out := sr_out s1 @ bs\<rparr>" "length (sr_out s2) < 2 ^ 32"
    unfolding written_by_def by blast
  obtain bs' where bs': "s2 = s1\<lparr>sr_out := sr_out s1 @ bs'\<rparr>"
    "\<And>d. writes_in E s1 \<Longrightarrow> length (sr_out s2) < 2 ^ 32 \<Longrightarrow> reads_in E d \<Longrightarrow> bytes_at d bs' \<Longrightarrow>
       g d = Some (v, d\<lparr>ds_pc := ds_pc d + length bs'\<rparr>)"
    using carriesE [OF c s(2)] by blast
  have eq: "bs' = bs" using s(3) bs'(1) by (metis same_append_eq serializer.ext_inject serializer.surjective serializer.update_convs(2))
  have "writes_in E s1" using E(1) s(1) by (simp add: writes_in_def same_maps_def)
  from bs'(2) [OF this s(4) E(2)] show ?thesis using b by (simp add: eq)
qed

lemma header_read:
  assumes b: "bytes_at d (le4 i @ le4 j @ le4 k @ le4 p @ rest)"
    and refs: "i < length (ds_refs d)" "j < length (ds_refs d)" "k < length (ds_refs d)" "length (ds_refs d) \<le> 2 ^ 32"
    and kind: "rh_deserialize R (ds_refs d ! j) = Some kind" and cell: "h (ds_refs d ! i) = Some (k0, sz, old)"
  shows "read_cells R (Suc n) h d =
    (case get_cell (rh_hooks R) kind (d\<lparr>ds_pc := ds_pc d + 16\<rparr>) of
       None \<Rightarrow> None
     | Some (c, d1) \<Rightarrow> read_cells R n (h(ds_refs d ! i \<mapsto> (k0, sz, Some c))) d1)"
proof -
  let ?d = "\<lambda>n. d\<lparr>ds_pc := ds_pc d + n\<rparr>"
  note h = header_at [OF b]
  have r: "get_u32 d = Some (of_nat i, ?d 4)" "get_reference (?d 4) = Some (ds_refs d ! j, ?d 8)"
    "get_reference (?d 8) = Some (ds_refs d ! k, ?d 12)" "get_u32 (?d 12) = Some (of_nat p, ?d 16)"
    using get_u32_at [OF b] get_reference_at [OF h(1)] get_reference_at [OF h(2)] get_u32_at [OF h(3)] refs
    by (simp_all add: add.commute)
  have w: "unat (of_nat i :: u32) = i" using refs by (auto simp: unat_word_of_nat_less)
  show ?thesis using r kind cell w refs(1) by (simp add: r_bind_def Let_def)
qed

text \<open>A record of the cell, its function of deserialization among the references of the reader.\<close>

definition readable :: "renaming \<Rightarrow> write_host \<Rightarrow> read_host \<Rightarrow> serializer \<Rightarrow> u64 \<times> snap_cell \<Rightarrow> cell_record \<Rightarrow> bool" where
  "readable E W R s cell r \<longleftrightarrow> cell_record W s cell r \<and> kind_of (snd cell) \<noteq> KDeleted \<and>
     rh_deserialize R (ren_ref E (wh_deserialize W (kind_of (snd cell)))) = Some (kind_of (snd cell))"

definition restored :: "renaming \<Rightarrow> snap_heap \<Rightarrow> snap_heap \<Rightarrow> u64 \<times> snap_cell \<Rightarrow> u64 \<Rightarrow> bool" where
  "restored E h h' cell a \<longleftrightarrow> (\<exists>k sz old. h a = Some (k, sz, old) \<and> h' a = Some (k, sz, Some (ren_cell E (snd cell))))"

lemma ren_ref_at:
  assumes "writes_in E s" "find_ref r (sr_refs s) = Some i"
  shows "i < length (rn_new_refs E)" "rn_new_refs E ! i = ren_ref E r"
  using assms find_ref_Some [OF assms(2)] by (auto simp: writes_in_def renaming_ok_def ren_ref_def)

lemma read_run:
  assumes "list_all2 (readable E W R s) cells rs" "writes_in E s" "reads_in E d" "hooks_fit (wh_hooks W) (rh_hooks R) E"
    "distinct (map (\<lambda>c. ren_ref E (fst c)) cells)" "\<forall>c\<in>set cells. h (ren_ref E (fst c)) \<noteq> None"
    "bytes_at d (cell_bytes (ds_pc d) rs)"
  shows "\<exists>h'. (\<forall>a. a \<notin> (\<lambda>c. ren_ref E (fst c)) ` set cells \<longrightarrow> h' a = h a) \<and>
    (\<forall>c\<in>set cells. restored E h h' c (ren_ref E (fst c))) \<and>
    read_cells R (length rs) h d = Some (h', d\<lparr>ds_pc := ds_pc d + length (cell_bytes (ds_pc d) rs)\<rparr>)"
  using assms
proof (induction cells rs arbitrary: d h rule: list_all2_induct)
  case Nil
  then show ?case by (intro exI [of _ h]) (simp add: r_return_def)
next
  case (Cons cell cells r rs)
  obtain i j k payload where r: "r = (i, j, k, payload)" by (cases r)
  let ?a = "ren_ref E (fst cell)" and ?p = "ds_pc d + 16 + length payload" and ?K = "kind_of (snd cell)"
  have rec: "find_ref (fst cell) (sr_refs s) = Some i" "find_ref (wh_deserialize W ?K) (sr_refs s) = Some j"
    "find_ref (wh_allocate W ?K) (sr_refs s) = Some k" and w: "written_by s (put_cell (wh_hooks W) (snd cell)) payload"
    and K: "?K \<noteq> KDeleted" "rh_deserialize R (ren_ref E (wh_deserialize W ?K)) = Some ?K"
    using Cons.hyps(1) r by (auto simp: readable_def cell_record_def)
  note ren = ren_ref_at [OF Cons.prems(1)]
  have b: "bytes_at d (le4 i @ le4 j @ le4 k @ le4 ?p @ payload @ cell_bytes ?p rs)" using Cons.prems(6) r by simp
  obtain k0 sz old where cell: "h ?a = Some (k0, sz, old)" using Cons.prems(5) by (cases "h ?a") auto
  have refs: "ds_refs d = rn_new_refs E" "length (ds_refs d) \<le> 2 ^ 32"
    using Cons.prems(1,2) by (auto simp: reads_in_def writes_in_def renaming_ok_def)
  let ?d = "d\<lparr>ds_pc := ds_pc d + 16\<rparr>"
  have bp: "bytes_at ?d (payload @ cell_bytes ?p rs)" by (rule header_at(4) [OF b])
  have "get_cell (rh_hooks R) ?K ?d = Some (ren_cell E (snd cell), ?d\<lparr>ds_pc := ds_pc ?d + length payload\<rparr>)"
    by (rule written_read [OF w carries_cell [OF Cons.prems(3) K(1)] Cons.prems(1)])
      (use Cons.prems(2) bp in \<open>simp_all add: reads_in_def bytes_at_append\<close>)
  then have step: "read_cells R (Suc (length rs)) h d =
      read_cells R (length rs) (h(?a \<mapsto> (k0, sz, Some (ren_cell E (snd cell))))) (d\<lparr>ds_pc := ?p\<rparr>)"
    using header_read [OF b, of R ?K h k0 sz old "length rs"] ren [OF rec(1)] ren [OF rec(2)] ren [OF rec(3)] refs K(2) cell
    by (simp add: refs)
  let ?h = "h(?a \<mapsto> (k0, sz, Some (ren_cell E (snd cell))))"
  have b1: "bytes_at (d\<lparr>ds_pc := ?p\<rparr>) (cell_bytes ?p rs)" using bytes_at_step [OF bp] by (simp add: add.assoc)
  have "\<exists>h'. (\<forall>a. a \<notin> (\<lambda>c. ren_ref E (fst c)) ` set cells \<longrightarrow> h' a = ?h a) \<and>
    (\<forall>c\<in>set cells. restored E ?h h' c (ren_ref E (fst c))) \<and>
    read_cells R (length rs) ?h (d\<lparr>ds_pc := ?p\<rparr>) = Some (h', d\<lparr>ds_pc := ?p + length (cell_bytes ?p rs)\<rparr>)"
  proof -
    have "reads_in E (d\<lparr>ds_pc := ?p\<rparr>)" using Cons.prems(2) by (simp add: reads_in_def)
    moreover have "distinct (map (\<lambda>c. ren_ref E (fst c)) cells)" using Cons.prems(4) by simp
    moreover have "\<forall>c\<in>set cells. ?h (ren_ref E (fst c)) \<noteq> None" using Cons.prems(5) by simp
    moreover have "bytes_at (d\<lparr>ds_pc := ?p\<rparr>) (cell_bytes (ds_pc (d\<lparr>ds_pc := ?p\<rparr>)) rs)" using b1 by simp
    ultimately have "\<exists>h'. (\<forall>a. a \<notin> (\<lambda>c. ren_ref E (fst c)) ` set cells \<longrightarrow> h' a = ?h a) \<and>
      (\<forall>c\<in>set cells. restored E ?h h' c (ren_ref E (fst c))) \<and>
      read_cells R (length rs) ?h (d\<lparr>ds_pc := ?p\<rparr>) =
        Some (h', d\<lparr>ds_pc := ?p, ds_pc := ds_pc (d\<lparr>ds_pc := ?p\<rparr>) + length (cell_bytes (ds_pc (d\<lparr>ds_pc := ?p\<rparr>)) rs)\<rparr>)"
      by (rule Cons.IH [OF Cons.prems(1) _ Cons.prems(3)])
    then show ?thesis by simp
  qed
  then obtain h' where h': "\<forall>a. a \<notin> (\<lambda>c. ren_ref E (fst c)) ` set cells \<longrightarrow> h' a = ?h a"
    "\<forall>c\<in>set cells. restored E ?h h' c (ren_ref E (fst c))"
    "read_cells R (length rs) ?h (d\<lparr>ds_pc := ?p\<rparr>) = Some (h', d\<lparr>ds_pc := ?p + length (cell_bytes ?p rs)\<rparr>)" by blast
  have new: "?a \<notin> (\<lambda>c. ren_ref E (fst c)) ` set cells" using Cons.prems(4) by auto
  have "\<forall>c\<in>set cells. restored E h h' c (ren_ref E (fst c))"
  proof
    fix c assume c: "c \<in> set cells"
    then have "ren_ref E (fst c) \<noteq> ?a" using new by (metis image_eqI)
    then have "?h (ren_ref E (fst c)) = h (ren_ref E (fst c))" by simp
    then show "restored E h h' c (ren_ref E (fst c))" using bspec [OF h'(2) c] unfolding restored_def by simp
  qed
  moreover have "restored E h h' cell ?a" using h'(1) new cell by (simp add: restored_def)
  moreover have "\<forall>a. a \<notin> (\<lambda>c. ren_ref E (fst c)) ` set (cell # cells) \<longrightarrow> h' a = h a" using h'(1) by auto
  ultimately show ?case using h'(3) step r by (intro exI [of _ h']) (simp add: add.assoc)
qed

end
