(* ===== verification/Snapshot_Sizes.thy ===== *)
theory Snapshot_Sizes
  imports Snapshot_Contents
begin

text \<open>The first pass over the cells finds the size of every cell that the serializer wrote.\<close>

lemma same_pc [simp]: "\<exists>pc. d = d\<lparr>ds_pc := pc\<rparr>" "\<exists>pc. d\<lparr>ds_pc := q\<rparr> = d\<lparr>ds_pc := pc\<rparr>"
  by (rule exI [of _ "ds_pc d"], simp) (rule exI [of _ q], simp)

lemma extends_carried: "carries E w g v \<Longrightarrow> extends w"
  unfolding carries_def extends_def by blast

lemma extends_words [simp]: "extends (write_u8 x)" "extends (write_u32 y)"
  by (auto simp: extends_def write_u8_def write_u32_def write_all_def)

lemma extends_reference [simp]: "extends (write_reference r)"
  unfolding extends_def by (blast dest: write_reference_shape)

lemma extends_in_order:
  "\<forall>w\<in>set ws. extends w \<Longrightarrow> extends (in_order ws)"
proof (induction ws)
  case Nil
  have "s = s\<lparr>sr_out := sr_out s @ []\<rparr>" for s :: serializer by simp
  then show ?case unfolding extends_def in_order.simps by blast
next
  case (Cons w ws)
  show ?case
    unfolding extends_def
  proof (intro allI impI)
    fix s s' assume "in_order (w # ws) s = Some s'"
    then obtain s1 where s1: "w s = Some s1" "in_order ws s1 = Some s'" unfolding in_order_Cons by blast
    obtain xs where xs: "s1 = s\<lparr>sr_out := sr_out s @ xs\<rparr>" using Cons.prems s1(1) by (auto simp: extends_def)
    obtain ys where ys: "s' = s1\<lparr>sr_out := sr_out s1 @ ys\<rparr>" using Cons s1(2) unfolding extends_def by auto
    show "\<exists>bs. s' = s\<lparr>sr_out := sr_out s @ bs\<rparr>" using xs ys by (intro exI [of _ "xs @ ys"]) simp
  qed
qed

lemma extends_option: "(\<And>x. extends (put x)) \<Longrightarrow> extends (put_option put v)"
  unfolding put_option_def
  by (cases v) (simp_all add: extends_in_order del: in_order.simps)

lemma extends_cell:
  assumes "hooks_fit H H' E"
  shows "extends (put_cell H c)"
proof (cases "kind_of c = KDeleted")
  case True
  then obtain e where "c = CellDeleted e" by (cases c) auto
  then show ?thesis
    by (simp add: put_cell_def put_deleted_entry_def extends_in_order extends_option del: in_order.simps)
next
  case False
  then show ?thesis by (rule extends_carried [OF carries_cell [OF assms]])
qed

lemma read_u8s: "bytes_at d bs \<Longrightarrow> read_many (length bs) get_u8 d = Some (bs, d\<lparr>ds_pc := ds_pc d + length bs\<rparr>)"
proof (induction bs arbitrary: d)
  case Nil
  then show ?case by (simp add: r_return_def)
next
  case (Cons b bs)
  let ?d = "d\<lparr>ds_pc := ds_pc d + 1\<rparr>"
  have "bytes_at d ([b] @ bs)" using Cons.prems by simp
  then have "bytes_at d [b]" "bytes_at ?d bs" unfolding bytes_at_append by simp_all
  then have "get_u8 d = Some (b, ?d)"
    by (auto simp: get_u8_def bytes_at_def take_Suc_conv_app_nth length_Suc_conv)
  moreover have "read_many (length bs) get_u8 ?d = Some (bs, ?d\<lparr>ds_pc := ds_pc ?d + length bs\<rparr>)"
    by (rule Cons.IH) fact
  ultimately show ?case by (simp add: r_bind_def r_return_def)
qed

text \<open>What a writer starts with.\<close>

lemma written_u32:
  assumes "written_by s (in_order (write_u32 x # ws)) bs" "extends (in_order ws)"
  shows "\<exists>rest. bs = le_bytes 4 x @ rest \<and> written_by s (in_order ws) rest"
proof -
  from assms(1) obtain s1 s2 where s: "same_maps s s1" "in_order (write_u32 x # ws) s1 = Some s2" "s2 = s1\<lparr>sr_out := sr_out s1 @ bs\<rparr>"
    "length (sr_out s2) < 2 ^ 32" unfolding written_by_def by blast
  let ?s = "s1\<lparr>sr_out := sr_out s1 @ le_bytes 4 x\<rparr>"
  have r: "in_order ws ?s = Some s2" using s(2) by (simp add: write_u32_def write_all_def)
  then obtain rest where rest: "s2 = ?s\<lparr>sr_out := sr_out ?s @ rest\<rparr>" using assms(2) unfolding extends_def by blast
  have "same_maps s ?s" using s(1) by (simp add: same_maps_def)
  then have "written_by s (in_order ws) rest" unfolding written_by_def using r rest s(4) by blast
  moreover have "bs = le_bytes 4 x @ rest" using arg_cong [OF rest, of sr_out] s(3) by simp
  ultimately show ?thesis by blast
qed

lemma written_reference:
  assumes "written_by s (in_order (write_reference r # ws)) bs" "extends (in_order ws)"
  shows "\<exists>i rest. find_ref r (sr_refs s) = Some i \<and> bs = le4 i @ rest"
proof -
  from assms(1) obtain s1 s2 where s: "same_maps s s1" "in_order (write_reference r # ws) s1 = Some s2" "s2 = s1\<lparr>sr_out := sr_out s1 @ bs\<rparr>"
    unfolding written_by_def by blast
  then obtain s3 where s3: "write_reference r s1 = Some s3" "in_order ws s3 = Some s2" unfolding in_order_Cons by blast
  obtain i where i: "find_ref r (sr_refs s1) = Some i" "s3 = s1\<lparr>sr_out := sr_out s1 @ le4 i\<rparr>" using write_reference_shape [OF s3(1)] by blast
  obtain rest where rest: "s2 = s3\<lparr>sr_out := sr_out s3 @ rest\<rparr>" using assms(2) s3(2) unfolding extends_def by blast
  have "bs = le4 i @ rest" using arg_cong [OF rest, of sr_out] s(3) i(2) by simp
  then show ?thesis using i(1) s(1) by (auto simp: same_maps_def)
qed

lemma sized_storage:
  assumes w: "written_by s (put_storage capacity items) bs" and e: "extends (in_order (map put_value_s items))"
  shows "sized_by R KStorage m bs"
proof -
  obtain rest where "bs = le4 (length items) @ rest" "written_by s (in_order [write_u32 capacity, in_order (map put_value_s items)]) rest"
    using written_u32 [OF w [unfolded put_storage_def] extends_in_order] e by auto
  moreover from this obtain rest' where "rest = le_bytes 4 capacity @ rest'"
    using written_u32 [of s capacity "[in_order (map put_value_s items)]" rest, OF _ extends_in_order] e by auto
  ultimately have bs: "bs = le4 (length items) @ le_bytes 4 capacity @ rest'" by simp
  show ?thesis
    unfolding sized_by_def bs
  proof (intro allI impI)
    fix d assume b: "bytes_at d (le4 (length items) @ le_bytes 4 capacity @ rest')"
    have b1: "bytes_at (d\<lparr>ds_pc := ds_pc d + 4\<rparr>) (le_bytes 4 capacity @ rest')" using bytes_at_step [OF b] by simp
    show "\<exists>sz pc. cell_size R KStorage d = Some (sz, d\<lparr>ds_pc := pc\<rparr>)"
      using get_u32_at [OF b] get_u32_at [OF b1] by (simp add: cell_size_def storage_size_def r_bind_def set_pc_def)
  qed
qed

lemma sized_string:
  assumes "written_by s (put_js_string bytes) bs"
  shows "sized_by R KString m bs"
proof -
  from assms obtain s1 s2 where s: "put_js_string bytes s1 = Some s2" "s2 = s1\<lparr>sr_out := sr_out s1 @ bs\<rparr>" "length (sr_out s2) < 2 ^ 32"
    unfolding written_by_def by blast
  have "s2 = s1\<lparr>sr_out := sr_out s1 @ le4 (length bytes) @ bytes\<rparr>"
    using s(1) by (simp add: put_js_string_def write_u32_def write_all_def write_bytes_run)
  then have bs: "bs = le4 (length bytes) @ bytes" using s(2) by (metis same_append_eq serializer.ext_inject serializer.surjective serializer.update_convs(2))
  then have len: "unat (of_nat (length bytes) :: u32) = length bytes" using s(2,3) by (intro unat_word_of_nat_less) simp
  show ?thesis
    unfolding sized_by_def bs
  proof (intro allI impI)
    fix d assume b: "bytes_at d (le4 (length bytes) @ bytes)"
    have b1: "bytes_at (d\<lparr>ds_pc := ds_pc d + 4\<rparr>) bytes" using bytes_at_step [OF b] by simp
    show "\<exists>sz pc. cell_size R KString d = Some (sz, d\<lparr>ds_pc := pc\<rparr>)"
      using get_u32_at [OF b] read_u8s [OF b1] len by (simp add: cell_size_def string_size_def r_bind_def r_return_def)
  qed
qed

lemma sized_object:
  assumes w: "written_by s (put_object H x) bs" and hooks: "hooks_fit H H' E" and m: "length (sr_refs s) = m" "m < 2 ^ 32"
  shows "sized_by R KObject m bs"
proof -
  have "extends (run_serialize H x)"
    by (rule extends_carried, rule spec [OF hooks [unfolded hooks_fit_def]])
  moreover have "extends (put_indexed (os_indexed x))" "extends (put_object_data (os_tag x) (os_data x))"
    by (rule extends_carried, rule carrying) (rule extends_carried, rule carries_object_data)
  ultimately have e: "\<forall>w\<in>set [write_reference (os_slots x), write_reference (os_structure x), put_indexed (os_indexed x),
      write_u32 (os_flags x), put_object_data (os_tag x) (os_data x), run_serialize H x]. extends w" by simp
  then obtain rest where rest: "bs = le_bytes 4 (ucast (os_tag x) :: u32) @ rest"
    "written_by s (in_order (write_reference (os_class x) # [write_reference (os_slots x), write_reference (os_structure x),
      put_indexed (os_indexed x), write_u32 (os_flags x), put_object_data (os_tag x) (os_data x), run_serialize H x])) rest"
    using written_u32 [OF w [unfolded put_object_def] extends_in_order] by auto
  obtain i rest' where i: "find_ref (os_class x) (sr_refs s) = Some i" "rest = le4 i @ rest'"
    using written_reference [OF rest(2) extends_in_order [OF e]] by blast
  have "i < m" using find_ref_Some [OF i(1)] m by simp
  then have w: "unat (of_nat i :: u32) = i" using m(2) by (intro unat_word_of_nat_less) simp
  show ?thesis
    unfolding sized_by_def rest(1) i(2)
  proof (intro allI impI)
    fix d assume b: "bytes_at d (le_bytes 4 (ucast (os_tag x) :: u32) @ le4 i @ rest')" and len: "m \<le> length (ds_refs d)"
    let ?d = "d\<lparr>ds_pc := ds_pc d + 4\<rparr>"
    have b1: "bytes_at ?d (le4 i @ rest')" using bytes_at_step [OF b] by simp
    have "get_reference ?d = Some (ds_refs d ! i, d\<lparr>ds_pc := ds_pc d + 8\<rparr>)"
      using get_u32_at [OF b1] w \<open>i < m\<close> len by (simp add: get_reference_def r_bind_def)
    then show "\<exists>sz pc. cell_size R KObject d = Some (sz, d\<lparr>ds_pc := pc\<rparr>)"
      using get_u32_at [OF b] by (simp add: cell_size_def object_size_def r_bind_def set_pc_def)
  qed
qed

lemma sized_cell:
  assumes w: "written_by s (put_cell H c) bs" and hooks: "hooks_fit H H' E" and m: "length (sr_refs s) = m" "m < 2 ^ 32"
  shows "sized_by R (kind_of c) m bs"
proof (cases c)
  case (CellStorage capacity items)
  have "extends (in_order (map put_value_s items))"
    by (rule extends_carried [OF value_codec.counted32])
  then show ?thesis using w CellStorage sized_storage by (simp add: put_cell_def)
next
  case (CellString bytes)
  then show ?thesis using w sized_string by (simp add: put_cell_def)
next
  case (CellObject x)
  then show ?thesis using w sized_object [OF _ hooks m] by (simp add: put_cell_def)
qed (simp_all add: sized_by_def cell_size_def r_return_def)

end
