(* ===== verification/Snapshot_Image.thy ===== *)
theory Snapshot_Image
  imports Snapshot_Sizes
begin

text \<open>The bytes of a whole snapshot.\<close>

section \<open>What the serializer writes\<close>

text \<open>All references of a runtime, in the order of their indices.\<close>

definition all_refs :: "write_host \<Rightarrow> live_runtime \<Rightarrow> u64 list" where
  "all_refs W rt = wh_natives W @ wh_externals W @ map fst (lr_cells rt)"

definition snapshot_maps :: "write_host \<Rightarrow> live_runtime \<Rightarrow> serializer" where
  "snapshot_maps W rt = \<lparr>sr_refs = all_refs W rt, sr_out = [], sr_symbols = symbol_indices 0 (lr_symbols rt)\<rparr>"

definition heap_bytes :: "nat \<Rightarrow> cell_record list \<Rightarrow> nat list \<Rightarrow> nat list \<Rightarrow> u8 list" where
  "heap_bytes p rs ws cs =
     le4 (length rs) @ cell_bytes (p + 4) rs @ le4 (length ws) @ concat (map le4 ws) @ le4 (length cs) @ concat (map le4 cs)"

definition index_of :: "serializer \<Rightarrow> u64 \<Rightarrow> nat \<Rightarrow> bool" where
  "index_of s r i \<longleftrightarrow> find_ref r (sr_refs s) = Some i"

lemma build_symbol_table_run:
  assumes "distinct (map snd es)" "sr_symbols s = []"
  shows "build_symbol_table es s =
    Some (s\<lparr>sr_out := sr_out s @ le4 (length es) @ symbol_bytes 0 es, sr_symbols := symbol_indices 0 es\<rparr>)"
proof -
  let ?s = "s\<lparr>sr_out := sr_out s @ zero4\<rparr>"
  let ?s1 = "?s\<lparr>sr_out := sr_out ?s @ symbol_bytes 0 es, sr_symbols := sr_symbols ?s @ symbol_indices 0 es\<rparr>"
  have w: "in_order (map write_symbol_entry es) ?s = Some ?s1" by (rule write_symbols_run) (use assms in simp_all)
  have "sr_out ?s1 = sr_out s @ zero4 @ symbol_bytes 0 es" by simp
  from patch_at_run [OF this] have "patch_u32 (length (sr_out s)) (of_nat (length es)) ?s1 =
      Some (?s1\<lparr>sr_out := sr_out s @ le4 (length es) @ symbol_bytes 0 es\<rparr>)" .
  then show ?thesis using w assms(2) by (simp add: build_symbol_table_def write_zero Let_def)
qed

lemma counted_references:
  assumes "in_order [write_u32 x, in_order (map write_reference rs)] s = Some s'"
  shows "\<exists>is. list_all2 (index_of s) rs is \<and> s' = s\<lparr>sr_out := sr_out s @ le_bytes 4 x @ concat (map le4 is)\<rparr>"
proof -
  let ?s = "s\<lparr>sr_out := sr_out s @ le_bytes 4 x\<rparr>"
  have "in_order (map write_reference rs) ?s = Some s'"
    using assms by (simp add: write_u32_def write_all_def split: option.splits)
  from write_references_shape [OF this] show ?thesis by (simp add: index_of_def [abs_def])
qed

lemma cell_record_cong: "same_maps s s1 \<Longrightarrow> cell_record W s1 = cell_record W s"
  by (intro ext) (simp add: cell_record_def written_by_def same_maps_def)

lemma write_heap_shape:
  assumes r: "write_heap W rt s = Some s'" and e: "\<And>c. extends (put_cell (wh_hooks W) c)" and l: "length (sr_out s') < 2 ^ 32"
  shows "\<exists>rs ws cs. list_all2 (cell_record W s) (lr_cells rt) rs \<and> list_all2 (index_of s) (lr_weak rt) ws \<and>
    list_all2 (index_of s) (lr_contexts rt) cs \<and> s' = s\<lparr>sr_out := sr_out s @ heap_bytes (length (sr_out s)) rs ws cs\<rparr>"
proof -
  let ?s = "s\<lparr>sr_out := sr_out s @ zero4\<rparr>" and ?n = "length (lr_cells rt)" and ?m = "length (lr_weak rt)"
  from r obtain s2 s1 where cells: "in_order (map (write_cell W) (lr_cells rt)) ?s = Some s2" "patch_u32 (length (sr_out s)) (of_nat ?n) s2 = Some s1"
    and rest: "in_order [write_u32 0, in_order (map write_reference (lr_weak rt)), patch_u32 (length (sr_out s1)) (of_nat ?m), put_runtime rt] s1 = Some s'"
    by (auto simp: write_heap_def write_zero Let_def split: option.splits)
  from rest obtain s3 s4 where weak: "in_order [write_u32 0, in_order (map write_reference (lr_weak rt))] s1 = Some s3"
    and p3: "patch_u32 (length (sr_out s1)) (of_nat ?m) s3 = Some s4" and ctx: "put_runtime rt s4 = Some s'"
    by (auto split: option.splits)
  obtain ws where ws: "list_all2 (index_of s1) (lr_weak rt) ws" "s3 = s1\<lparr>sr_out := sr_out s1 @ zero4 @ concat (map le4 ws)\<rparr>"
    using counted_references [OF weak] by blast
  have s4: "s4 = s1\<lparr>sr_out := sr_out s1 @ le4 ?m @ concat (map le4 ws)\<rparr>"
    using patch_at_run [of s3 "sr_out s1" 0 "concat (map le4 ws)"] p3 ws(2) by simp
  obtain cs where cs: "list_all2 (index_of s4) (lr_contexts rt) cs"
    "s' = s4\<lparr>sr_out := sr_out s4 @ le4 (length (lr_contexts rt)) @ concat (map le4 cs)\<rparr>"
    using counted_references [OF ctx [unfolded put_runtime_def]] by blast
  have "length (sr_out s2) = length (sr_out s1)" using cells(2) by (auto simp: patch_u32_def split: if_splits)
  then have l2: "length (sr_out s2) < 2 ^ 32" using l cs(2) s4 by simp
  obtain rs where rs: "list_all2 (cell_record W ?s) (lr_cells rt) rs"
    "s2 = ?s\<lparr>sr_out := sr_out ?s @ cell_bytes (length (sr_out ?s)) rs\<rparr>"
    using write_cells_shape [OF cells(1) _ l2] e by blast
  have s1: "s1 = s\<lparr>sr_out := sr_out s @ le4 ?n @ cell_bytes (length (sr_out s) + 4) rs\<rparr>"
    using patch_at_run [of s2 "sr_out s" 0 "cell_bytes (length (sr_out s) + 4) rs"] cells(2) rs(2) by simp
  have lens: "length rs = ?n" "length ws = ?m" "length cs = length (lr_contexts rt)"
    using rs(1) ws(1) cs(1) by (auto dest: list_all2_lengthD)
  have "list_all2 (cell_record W s) (lr_cells rt) rs" using rs(1) cell_record_cong [of s ?s W] by (simp add: same_maps_def)
  moreover have "index_of s1 = index_of s" "index_of s4 = index_of s" by (intro ext, simp add: index_of_def s4 s1)+
  moreover have "s' = s\<lparr>sr_out := sr_out s @ heap_bytes (length (sr_out s)) rs ws cs\<rparr>"
    using lens by (simp add: heap_bytes_def cs(2) s4 s1)
  ultimately show ?thesis using ws(1) cs(1) by metis
qed

definition image_bytes :: "nat \<Rightarrow> (u8 list \<times> u32) list \<Rightarrow> cell_record list \<Rightarrow> nat list \<Rightarrow> nat list \<Rightarrow> u8 list" where
  "image_bytes n es rs ws cs =
     le4 n @ le4 (length es) @ symbol_bytes 0 es @ heap_bytes (8 + length (symbol_bytes 0 es)) rs ws cs"

lemma take_snapshot_shape:
  assumes r: "take_snapshot W callback rt = Some buf" and cb: "extends callback" and dist: "distinct (map snd (lr_symbols rt))"
    and e: "\<And>c. extends (put_cell (wh_hooks W) c)" and l: "length buf < 2 ^ 32"
  shows "\<exists>rs ws cs extra. list_all2 (cell_record W (snapshot_maps W rt)) (lr_cells rt) rs \<and>
    list_all2 (index_of (snapshot_maps W rt)) (lr_weak rt) ws \<and> list_all2 (index_of (snapshot_maps W rt)) (lr_contexts rt) cs \<and>
    buf = image_bytes (length (all_refs W rt)) (lr_symbols rt) rs ws cs @ extra"
proof -
  let ?es = "lr_symbols rt"
  let ?s = "\<lparr>sr_refs = all_refs W rt, sr_out = zero4 @ le4 (length ?es) @ symbol_bytes 0 ?es, sr_symbols = symbol_indices 0 ?es\<rparr>"
  let ?start = "\<lparr>sr_refs = wh_natives W @ wh_externals W, sr_out = zero4, sr_symbols = []\<rparr>"
  have "build_symbol_table ?es ?start = Some (?start\<lparr>sr_out := zero4 @ le4 (length ?es) @ symbol_bytes 0 ?es, sr_symbols := symbol_indices 0 ?es\<rparr>)"
    using build_symbol_table_run [OF dist, of ?start] by simp
  then obtain s1 s2 s3 where heap: "write_heap W rt ?s = Some s1" and cb1: "callback s1 = Some s2"
    and p3: "patch_u32 0 (of_nat (length (sr_refs s2))) s2 = Some s3" and s3: "buf = sr_out s3"
    using r by (auto simp: take_snapshot_def write_zero build_reference_map_def add_references_def serializer_new_def all_refs_def
        split: option.splits)
  obtain extra where s2: "s2 = s1\<lparr>sr_out := sr_out s1 @ extra\<rparr>" using cb cb1 unfolding extends_def by blast
  have "length (sr_out s2) = length buf" using p3 s3 by (auto simp: patch_u32_def split: if_splits)
  then have l1: "length (sr_out s1) < 2 ^ 32" using l s2 by simp
  obtain rs ws cs where c: "list_all2 (cell_record W ?s) (lr_cells rt) rs" "list_all2 (index_of ?s) (lr_weak rt) ws"
    "list_all2 (index_of ?s) (lr_contexts rt) cs" and s1: "s1 = ?s\<lparr>sr_out := sr_out ?s @ heap_bytes (length (sr_out ?s)) rs ws cs\<rparr>"
    using write_heap_shape [OF heap e l1] by blast
  let ?rest = "le4 (length ?es) @ symbol_bytes 0 ?es @ heap_bytes (8 + length (symbol_bytes 0 ?es)) rs ws cs @ extra"
  have out: "sr_out s2 = [] @ zero4 @ ?rest" by (simp add: s2 s1)
  have "patch_u32 0 (of_nat (length (sr_refs s2))) s2 = Some (s2\<lparr>sr_out := le4 (length (all_refs W rt)) @ ?rest\<rparr>)"
    using patch_at_run [OF out] by (simp add: s2 s1)
  then have "buf = le4 (length (all_refs W rt)) @ ?rest" using p3 s3 by simp
  moreover have "cell_record W ?s = cell_record W (snapshot_maps W rt)" "index_of ?s = index_of (snapshot_maps W rt)"
    using cell_record_cong [of "snapshot_maps W rt" ?s W] by (auto simp: same_maps_def snapshot_maps_def index_of_def fun_eq_iff)
  ultimately show ?thesis using c by (auto simp: image_bytes_def)
qed

end
