(* ===== verification/Snapshot_Runtime.thy ===== *)
theory Snapshot_Runtime
  imports Snapshot_Image
begin

text \<open>The runtime that is made from a snapshot.\<close>

section \<open>Indices of the cells\<close>

lemma find_ref_None: "find_ref r xs = None \<longleftrightarrow> r \<notin> set xs"
  by (induction xs) auto

lemma find_ref_append:
  "find_ref r (xs @ ys) = (case find_ref r xs of Some i \<Rightarrow> Some i | None \<Rightarrow> map_option (\<lambda>i. length xs + i) (find_ref r ys))"
proof (induction xs)
  case Nil
  show ?case by (cases "find_ref r ys") simp_all
next
  case (Cons x xs)
  then show ?case by (cases "find_ref r xs"; cases "find_ref r ys") simp_all
qed

lemma find_ref_nth: "distinct xs \<Longrightarrow> i < length xs \<Longrightarrow> find_ref (xs ! i) xs = Some i"
proof (induction xs arbitrary: i)
  case (Cons x xs)
  then show ?case by (cases i) (auto simp: nth_mem)
qed simp

definition own_refs :: "write_host \<Rightarrow> u64 list" where "own_refs W = wh_natives W @ wh_externals W"
definition new_refs :: "read_host \<Rightarrow> u64 list" where "new_refs R = rh_natives R @ rh_externals R"

lemma cell_index:
  assumes "distinct (map fst cells)" "set (own_refs W) \<inter> fst ` set cells = {}" "i < length cells" "lr_cells rt = cells"
  shows "find_ref (fst (cells ! i)) (all_refs W rt) = Some (length (own_refs W) + i)"
proof -
  have "fst (cells ! i) \<notin> set (own_refs W)" using assms(2,3) by (auto simp: nth_mem)
  then have "find_ref (fst (cells ! i)) (own_refs W) = None" by (simp add: find_ref_None)
  moreover have "find_ref (map fst cells ! i) (map fst cells) = Some i" using assms(1,3) by (intro find_ref_nth) simp_all
  ultimately have "find_ref (fst (cells ! i)) (own_refs W @ map fst cells) = Some (length (own_refs W) + i)"
    using assms(3) by (simp add: find_ref_append)
  then show ?thesis using assms(4) by (simp add: all_refs_def own_refs_def)
qed

section \<open>The two processes\<close>

text \<open>
  The reading process has as many references, and its functions at the places of the functions of the
  writing process are those for the same kinds of cells.
\<close>

definition hosts_agree :: "write_host \<Rightarrow> read_host \<Rightarrow> cell_kind \<Rightarrow> bool" where
  "hosts_agree W R K \<longleftrightarrow>
     (case (find_ref (wh_deserialize W K) (own_refs W), find_ref (wh_allocate W K) (own_refs W)) of
        (Some j, Some k) \<Rightarrow> rh_deserialize R (new_refs R ! j) = Some K \<and> rh_allocate R (new_refs R ! k) = Some K
      | _ \<Rightarrow> False)"

definition ready :: "write_host \<Rightarrow> read_host \<Rightarrow> live_runtime \<Rightarrow> bool" where
  "ready W R rt \<longleftrightarrow>
     length (rh_natives R) = length (wh_natives W) \<and> length (rh_externals R) = length (wh_externals W) \<and>
     length (all_refs W rt) < 2 ^ 32 \<and> distinct (map fst (lr_cells rt)) \<and> set (own_refs W) \<inter> fst ` set (lr_cells rt) = {} \<and>
     distinct (map snd (lr_symbols rt)) \<and>
     list_all (\<lambda>c. hosts_agree W R (kind_of (snd c)) \<and> kind_of (snd c) \<noteq> KDeleted) (lr_cells rt)"

text \<open>The renaming between the two runtimes, given the addresses of the new cells.\<close>

definition renaming_to :: "write_host \<Rightarrow> read_host \<Rightarrow> symbol_table \<Rightarrow> live_runtime \<Rightarrow> u64 list \<Rightarrow> renaming" where
  "renaming_to W R st rt as =
     \<lparr>rn_refs = all_refs W rt, rn_symbols = symbol_indices 0 (lr_symbols rt), rn_new_refs = new_refs R @ as,
      rn_new_symbols = map Key (fst (intern_all (map fst (lr_symbols rt)) st))\<rparr>"

lemma intern_all_length [simp]: "length (fst (intern_all strs st)) = length strs"
  by (induction strs st rule: intern_all.induct) (auto simp: Let_def split: prod.splits)

lemma symbol_bytes_length: "length (symbol_bytes n es) = 8 * length es + sum_list (map (length \<circ> fst) es)"
  by (induction n es rule: symbol_bytes.induct) auto

lemma symbol_indices_snd: "snd ` set (symbol_indices n es) = of_nat ` {n..<n + length es}"
proof (induction n es rule: symbol_indices.induct)
  case (2 n str key es)
  have "{n..<n + length ((str, key) # es)} = insert n {n + 1..<n + 1 + length es}" by auto
  then show ?case using 2 by simp
qed simp

lemma renaming_to_ok:
  assumes r: "ready W R rt" and as: "length as = length (lr_cells rt)" and l: "length (lr_symbols rt) < 2 ^ 32"
  shows "writes_in (renaming_to W R st rt as) (snapshot_maps W rt)"
proof -
  have "unat ix < length (lr_symbols rt)" if "ix \<in> snd ` set (symbol_indices 0 (lr_symbols rt))" for ix
    using that l unfolding symbol_indices_snd by (auto simp: unat_word_of_nat_less)
  then show ?thesis
    using r as by (auto simp: writes_in_def renaming_ok_def renaming_to_def snapshot_maps_def ready_def new_refs_def all_refs_def)
qed

lemma ren_cell_address:
  assumes "ready W R rt" "i < length (lr_cells rt)"
  shows "ren_ref (renaming_to W R st rt as) (fst (lr_cells rt ! i)) = as ! i"
proof -
  have "find_ref (fst (lr_cells rt ! i)) (all_refs W rt) = Some (length (own_refs W) + i)"
    by (rule cell_index [OF _ _ assms(2) refl]) (use assms(1) in \<open>simp_all add: ready_def\<close>)
  moreover have "length (own_refs W) = length (new_refs R)" using assms(1) by (simp add: ready_def own_refs_def new_refs_def)
  ultimately show ?thesis by (simp add: ren_ref_def renaming_to_def)
qed

section \<open>The records of the cells\<close>

lemma record_functions:
  assumes r: "ready W R rt" and c: "cell \<in> set (lr_cells rt)" and rec: "cell_record W (snapshot_maps W rt) cell x"
    and hooks: "hooks_fit (wh_hooks W) H' E"
  shows "functions_of R (length (all_refs W rt)) (new_refs R) (kind_of (snd cell)) x"
proof -
  obtain i j k payload where x: "x = (i, j, k, payload)" by (cases x)
  let ?K = "kind_of (snd cell)"
  have "hosts_agree W R ?K" using r c by (auto simp: ready_def list_all_iff)
  then obtain j' k' where jk: "find_ref (wh_deserialize W ?K) (own_refs W) = Some j'" "find_ref (wh_allocate W ?K) (own_refs W) = Some k'"
    and f: "rh_deserialize R (new_refs R ! j') = Some ?K" "rh_allocate R (new_refs R ! k') = Some ?K"
    by (auto simp: hosts_agree_def split: option.splits)
  have refs: "sr_refs (snapshot_maps W rt) = own_refs W @ map fst (lr_cells rt)" by (simp add: snapshot_maps_def all_refs_def own_refs_def)
  have "j = j'" "k = k'" using rec jk unfolding x cell_record_def by (auto simp: refs find_ref_append)
  moreover have "j' < length (new_refs R)" "k' < length (new_refs R)"
    using find_ref_Some [OF jk(1)] find_ref_Some [OF jk(2)] r by (auto simp: ready_def own_refs_def new_refs_def)
  moreover have "sized_by R ?K (length (all_refs W rt)) payload"
    by (rule sized_cell [OF _ hooks]) (use rec r in \<open>auto simp: x cell_record_def snapshot_maps_def ready_def\<close>)
  ultimately show ?thesis using f by (simp add: functions_of_def x)
qed

lemma record_readable:
  assumes r: "ready W R rt" and c: "cell \<in> set (lr_cells rt)" and rec: "cell_record W (snapshot_maps W rt) cell x"
  shows "readable (renaming_to W R st rt as) W R (snapshot_maps W rt) cell x"
proof -
  let ?K = "kind_of (snd cell)"
  have K: "hosts_agree W R ?K" "?K \<noteq> KDeleted" using r c by (auto simp: ready_def list_all_iff)
  then obtain j where j: "find_ref (wh_deserialize W ?K) (own_refs W) = Some j" "rh_deserialize R (new_refs R ! j) = Some ?K"
    by (auto simp: hosts_agree_def split: option.splits)
  have "j < length (new_refs R)" using find_ref_Some [OF j(1)] r by (auto simp: ready_def own_refs_def new_refs_def)
  moreover have "find_ref (wh_deserialize W ?K) (all_refs W rt) = Some j"
    using j(1) find_ref_append [of _ "own_refs W" "map fst (lr_cells rt)"] by (simp add: all_refs_def own_refs_def)
  ultimately have "ren_ref (renaming_to W R st rt as) (wh_deserialize W ?K) = new_refs R ! j"
    by (simp add: ren_ref_def renaming_to_def nth_append)
  then show ?thesis using rec K(2) j(2) by (simp add: readable_def)
qed

lemma record_indices:
  assumes r: "ready W R rt" and rec: "list_all2 (cell_record W (snapshot_maps W rt)) (lr_cells rt) rs"
  shows "map fst rs = [length (new_refs R)..<length (new_refs R) + length rs]"
proof (rule nth_equalityI)
  fix i assume i: "i < length (map fst rs)"
  have len: "length rs = length (lr_cells rt)" using rec by (simp add: list_all2_lengthD)
  have "find_ref (fst (lr_cells rt ! i)) (all_refs W rt) = Some (length (own_refs W) + i)"
    by (rule cell_index) (use r i len in \<open>auto simp: ready_def\<close>)
  moreover have "cell_record W (snapshot_maps W rt) (lr_cells rt ! i) (rs ! i)" using rec i by (simp add: list_all2_conv_all_nth)
  moreover have "length (own_refs W) = length (new_refs R)" using r by (simp add: ready_def own_refs_def new_refs_def)
  ultimately show "map fst rs ! i = [length (new_refs R)..<length (new_refs R) + length rs] ! i"
    using i by (cases "rs ! i") (auto simp: cell_record_def snapshot_maps_def)
qed simp

end
