(* ===== verification/Snapshot_Reading.thy ===== *)
theory Snapshot_Reading
  imports Snapshot_Runtime
begin

text \<open>Reading the image of a runtime gives the runtime, up to the renaming.\<close>

lemma concat_le4_length [simp]: "length (concat (map le4 is)) = 4 * length is"
  by (induction "is") simp_all

lemma indexed_refs:
  assumes "list_all2 (index_of s) rs is" "writes_in E s"
  shows "map (\<lambda>i. rn_new_refs E ! i) is = map (ren_ref E) rs" "\<forall>i\<in>set is. i < length (rn_new_refs E)"
  using assms(1)
  by (induction rs "is" rule: list_all2_induct) (auto simp: index_of_def dest: ren_ref_at [OF assms(2)])

text \<open>What is kept: cells, with their contents, weak slots and contexts.\<close>

definition restores :: "renaming \<Rightarrow> live_runtime \<Rightarrow> read_runtime \<Rightarrow> bool" where
  "restores E rt rt' \<longleftrightarrow>
     (\<forall>c\<in>set (lr_cells rt). \<exists>sz. rr_heap rt' (ren_ref E (fst c)) = Some (kind_of (snd c), sz, Some (ren_cell E (snd c)))) \<and>
     dom (rr_heap rt') = (\<lambda>c. ren_ref E (fst c)) ` set (lr_cells rt) \<and> distinct (map (\<lambda>c. ren_ref E (fst c)) (lr_cells rt)) \<and>
     rr_weak rt' = map (ren_ref E) (lr_weak rt) \<and> rr_contexts rt' = map (ren_ref E) (lr_contexts rt)"

lemma counted_references_read:
  assumes b: "bytes_at d (le4 (length is) @ concat (map le4 is) @ rest)" and "is": "\<forall>i\<in>set is. i < length (ds_refs d)"
    and l: "length (ds_refs d) \<le> 2 ^ 32" "length is < 2 ^ 32"
  shows "get_u32 d = Some (of_nat (length is), d\<lparr>ds_pc := ds_pc d + 4\<rparr>)"
    "read_many (length is) get_reference (d\<lparr>ds_pc := ds_pc d + 4\<rparr>) =
       Some (map (\<lambda>i. ds_refs d ! i) is, d\<lparr>ds_pc := ds_pc d + 4 + 4 * length is\<rparr>)"
    "bytes_at (d\<lparr>ds_pc := ds_pc d + 4 + 4 * length is\<rparr>) rest"
proof -
  show "get_u32 d = Some (of_nat (length is), d\<lparr>ds_pc := ds_pc d + 4\<rparr>)" by (rule get_u32_at [OF b])
  have b1: "bytes_at (d\<lparr>ds_pc := ds_pc d + 4\<rparr>) (concat (map le4 is) @ rest)" using bytes_at_step [OF b] by simp
  show "read_many (length is) get_reference (d\<lparr>ds_pc := ds_pc d + 4\<rparr>) =
       Some (map (\<lambda>i. ds_refs d ! i) is, d\<lparr>ds_pc := ds_pc d + 4 + 4 * length is\<rparr>)"
    using read_references_at [OF b1] "is" l by simp
  show "bytes_at (d\<lparr>ds_pc := ds_pc d + 4 + 4 * length is\<rparr>) rest" using bytes_at_step [OF b1] by simp
qed

lemma count_word:
  assumes "4 * n < 2 ^ 32"
  shows "unat (of_nat n :: u32) = n" "(if sint (of_nat n :: u32) > 0 then unat (of_nat n :: u32) else 0) = n"
proof -
  show w: "unat (of_nat n :: u32) = n" using assms by (intro unat_word_of_nat_less) simp
  have "sint (of_nat n :: u32) = int n"
    using assms by (simp add: signed_of_nat signed_take_bit_int_eq_self)
  then show "(if sint (of_nat n :: u32) > 0 then unat (of_nat n :: u32) else 0) = n" using w by simp
qed

lemma cell_bytes_length: "16 * length rs \<le> length (cell_bytes p rs)"
  by (induction p rs rule: cell_bytes.induct) auto

lemma allocated_restored:
  assumes alloc: "list_all2 (\<lambda>kind a. \<exists>sz. h a = Some (kind, sz, None)) (map (\<lambda>c. kind_of (snd c)) cells) as"
    and at: "\<And>i. i < length cells \<Longrightarrow> ren_ref E (fst (cells ! i)) = as ! i"
    and r: "\<forall>c\<in>set cells. restored E h h' c (ren_ref E (fst c))"
  shows "\<forall>c\<in>set cells. \<exists>sz. h' (ren_ref E (fst c)) = Some (kind_of (snd c), sz, Some (ren_cell E (snd c)))"
proof
  fix c assume c: "c \<in> set cells"
  then obtain i where i: "i < length cells" "c = cells ! i" by (auto simp: in_set_conv_nth)
  then obtain sz where "h (ren_ref E (fst c)) = Some (kind_of (snd c), sz, None)"
    using alloc at by (auto simp: list_all2_conv_all_nth)
  then show "\<exists>sz. h' (ren_ref E (fst c)) = Some (kind_of (snd c), sz, Some (ren_cell E (snd c)))"
    using bspec [OF r c] by (auto simp: restored_def)
qed

lemma read_heap_steps:
  assumes "get_u32 d = Some (cnt, d0)" "unat cnt = n" "allocate_cells R n (\<lambda>_. None) d0 = Some (h, d1)"
    "get_u32 d1 = Some (wc, d2)" "unat wc = m" "read_many m get_reference d2 = Some (weak, d3)"
    "read_cells R n h (set_pc (ds_pc d0) d3) = Some (h2, d4)"
    "get_u32 (set_pc (ds_pc d3) d4) = Some (cc, d5)" "(if sint cc > 0 then unat cc else 0) = k" "read_many k get_reference d5 = Some (cs, d6)"
  shows "read_heap R st d = Some (\<lparr>rr_heap = h2, rr_weak = weak, rr_contexts = cs, rr_symbols = st\<rparr>, d6)"
  using assms by (simp add: read_heap_def r_bind_def r_return_def)

lemma read_heap_run:
  assumes ready: "ready W R rt" and hooks: "\<And>E. hooks_fit (wh_hooks W) (rh_hooks R) E" and fresh: "fresh_allocator (length (lr_cells rt)) R"
    and rec: "list_all2 (cell_record W (snapshot_maps W rt)) (lr_cells rt) rs" "list_all2 (index_of (snapshot_maps W rt)) (lr_weak rt) ws"
      "list_all2 (index_of (snapshot_maps W rt)) (lr_contexts rt) cs"
    and refs: "ds_refs d = new_refs R @ replicate (length (lr_cells rt)) 0"
    and syms: "ds_symbols d = map Key (fst (intern_all (map fst (lr_symbols rt)) st))" "length (lr_symbols rt) < 2 ^ 32"
    and b: "bytes_at d (heap_bytes (ds_pc d) rs ws cs @ rest)" and l: "ds_pc d + length (heap_bytes (ds_pc d) rs ws cs) < 2 ^ 32"
  shows "\<exists>as rt' d'. read_heap R st' d = Some (rt', d') \<and> length as = length (lr_cells rt) \<and>
    restores (renaming_to W R st rt as) rt rt' \<and> rr_symbols rt' = st'"
proof -
  let ?n = "length (lr_cells rt)" and ?p = "ds_pc d" and ?s = "snapshot_maps W rt" and ?N = "length (all_refs W rt)"
  let ?kinds = "map (\<lambda>c. kind_of (snd c)) (lr_cells rt)" and ?d0 = "d\<lparr>ds_pc := ds_pc d + 4\<rparr>"
  let ?w = "?p + 4 + length (cell_bytes (?p + 4) rs)"
  have len: "length rs = ?n" "length ws = length (lr_weak rt)" "length cs = length (lr_contexts rt)"
    using rec by (auto dest: list_all2_lengthD)
  have N: "?N = length (new_refs R) + ?n" "?N < 2 ^ 32" "length (ds_refs d) = ?N"
    using ready refs by (auto simp: ready_def all_refs_def new_refs_def)
  have b': "bytes_at d (le4 ?n @ cell_bytes (?p + 4) rs @ le4 (length ws) @ concat (map le4 ws) @ le4 (length cs) @ concat (map le4 cs) @ rest)"
    using b len by (simp add: heap_bytes_def)
  have b0: "bytes_at ?d0 (cell_bytes (?p + 4) rs @ le4 (length ws) @ concat (map le4 ws) @ le4 (length cs) @ concat (map le4 cs) @ rest)"
    using bytes_at_step [OF b'] by simp
  have b1: "bytes_at (d\<lparr>ds_pc := ?w\<rparr>) (le4 (length ws) @ concat (map le4 ws) @ le4 (length cs) @ concat (map le4 cs) @ rest)"
    using bytes_at_step [OF b0] by simp
  have small: "4 * ?n < 2 ^ 32" "4 * length ws < 2 ^ 32" "4 * length cs < 2 ^ 32"
    using l cell_bytes_length [of rs "?p + 4"] len by (auto simp: heap_bytes_def)
  have "list_all2 (functions_of R ?N (new_refs R)) ?kinds rs"
    using rec(1) record_functions [OF ready _ _ hooks] by (auto simp: list_all2_conv_all_nth)
  then obtain as h where as: "length as = ?n" "distinct as" "\<forall>a. a \<notin> set as \<longrightarrow> h a = None"
    "list_all2 (\<lambda>kind a. \<exists>sz. h a = Some (kind, sz, None)) ?kinds as"
    "allocate_cells R ?n (\<lambda>_. None) ?d0 = Some (h, d\<lparr>ds_pc := ?w, ds_refs := new_refs R @ as\<rparr>)"
    using allocate_run [of R ?N "new_refs R" ?kinds rs "length (new_refs R)" ?d0 ?n "\<lambda>_. None"]
      record_indices [OF ready rec(1)] N len fresh l b0 refs by (auto simp: heap_bytes_def bytes_at_append)
  define E where "E = renaming_to W R st rt as"
  have E: "writes_in E ?s" unfolding E_def by (rule renaming_to_ok [OF ready as(1) syms(2)])
  have new: "rn_new_refs E = new_refs R @ as" "rn_new_symbols E = ds_symbols d" by (simp_all add: E_def renaming_to_def syms)
  let ?e = "d\<lparr>ds_refs := new_refs R @ as\<rparr>"
  have at: "ren_ref E (fst (lr_cells rt ! i)) = as ! i" if "i < ?n" for i
    unfolding E_def by (rule ren_cell_address [OF ready that])
  then have as': "map (\<lambda>c. ren_ref E (fst c)) (lr_cells rt) = as" using as(1) by (intro nth_equalityI) simp_all
  have b1': "bytes_at (?e\<lparr>ds_pc := ?w\<rparr>) (le4 (length ws) @ concat (map le4 ws) @ le4 (length cs) @ concat (map le4 cs) @ rest)"
    by (rule bytes_at_cong [OF b1]) simp_all
  note iw = indexed_refs [OF rec(2) E] and ic = indexed_refs [OF rec(3) E]
  have lN: "length (ds_refs ?e) \<le> 2 ^ 32" using N as(1) by simp
  let ?v = "?w + 4 + 4 * length ws" and ?f = "?w + 4 + 4 * length ws + 4 + 4 * length cs"
  have rw: "get_u32 (?e\<lparr>ds_pc := ?w\<rparr>) = Some (of_nat (length ws), ?e\<lparr>ds_pc := ?w + 4\<rparr>)"
    "read_many (length ws) get_reference (?e\<lparr>ds_pc := ?w + 4\<rparr>) = Some (map (ren_ref E) (lr_weak rt), ?e\<lparr>ds_pc := ?v\<rparr>)"
    and bv: "bytes_at (?e\<lparr>ds_pc := ?v\<rparr>) (le4 (length cs) @ concat (map le4 cs) @ rest)"
    using counted_references_read [OF b1'] iw small(2) lN by (simp_all add: new)
  have rc: "get_u32 (?e\<lparr>ds_pc := ?v\<rparr>) = Some (of_nat (length cs), ?e\<lparr>ds_pc := ?v + 4\<rparr>)"
    "read_many (length cs) get_reference (?e\<lparr>ds_pc := ?v + 4\<rparr>) = Some (map (ren_ref E) (lr_contexts rt), ?e\<lparr>ds_pc := ?f\<rparr>)"
    using counted_references_read [OF bv] ic small(3) lN by (simp_all add: new)
  have read: "\<exists>h'. (\<forall>a. a \<notin> (\<lambda>c. ren_ref E (fst c)) ` set (lr_cells rt) \<longrightarrow> h' a = h a) \<and>
    (\<forall>c\<in>set (lr_cells rt). restored E h h' c (ren_ref E (fst c))) \<and>
    read_cells R (length rs) h (?e\<lparr>ds_pc := ?p + 4\<rparr>) = Some (h', ?e\<lparr>ds_pc := ?p + 4,
      ds_pc := ds_pc (?e\<lparr>ds_pc := ?p + 4\<rparr>) + length (cell_bytes (ds_pc (?e\<lparr>ds_pc := ?p + 4\<rparr>)) rs)\<rparr>)"
  proof (rule read_run [OF _ E _ hooks])
    show "list_all2 (readable E W R ?s) (lr_cells rt) rs"
      using rec(1) record_readable [OF ready] unfolding E_def by (auto simp: list_all2_conv_all_nth)
    show "reads_in E (?e\<lparr>ds_pc := ?p + 4\<rparr>)" by (simp add: reads_in_def new)
    show "distinct (map (\<lambda>c. ren_ref E (fst c)) (lr_cells rt))" using as' as(2) by simp
    show "\<forall>c\<in>set (lr_cells rt). h (ren_ref E (fst c)) \<noteq> None"
    proof
      fix c assume "c \<in> set (lr_cells rt)"
      then obtain i where i: "i < ?n" "c = lr_cells rt ! i" by (auto simp: in_set_conv_nth)
      have "h (as ! i) \<noteq> None" using as(1,4) i(1) by (auto simp: list_all2_conv_all_nth)
      then show "h (ren_ref E (fst c)) \<noteq> None" by (simp only: i(2) at [OF i(1)] not_False_eq_True)
    qed
    show "bytes_at (?e\<lparr>ds_pc := ?p + 4\<rparr>) (cell_bytes (ds_pc (?e\<lparr>ds_pc := ?p + 4\<rparr>)) rs)"
      by (rule bytes_at_cong [of ?d0]) (use b0 in \<open>simp_all add: bytes_at_append\<close>)
  qed
  have addresses: "(\<lambda>c. ren_ref E (fst c)) ` set (lr_cells rt) = set as" using arg_cong [OF as', of set] by simp
  from read obtain h' where h': "\<forall>a. a \<notin> set as \<longrightarrow> h' a = h a" "\<forall>c\<in>set (lr_cells rt). restored E h h' c (ren_ref E (fst c))"
    "read_cells R ?n h (?e\<lparr>ds_pc := ?p + 4\<rparr>) = Some (h', ?e\<lparr>ds_pc := ?w\<rparr>)"
    unfolding addresses len(1) by auto
  let ?rt = "\<lparr>rr_heap = h', rr_weak = map (ren_ref E) (lr_weak rt), rr_contexts = map (ren_ref E) (lr_contexts rt), rr_symbols = st'\<rparr>"
  have cells: "\<forall>c\<in>set (lr_cells rt). \<exists>sz. h' (ren_ref E (fst c)) = Some (kind_of (snd c), sz, Some (ren_cell E (snd c)))"
    by (rule allocated_restored [OF as(4) at h'(2)])
  have "h' a = None \<longleftrightarrow> a \<notin> set as" for a
  proof
    assume none: "h' a = None"
    show "a \<notin> set as"
    proof
      assume "a \<in> set as"
      then obtain c where c: "c \<in> set (lr_cells rt)" "a = ren_ref E (fst c)" unfolding addresses [symmetric] by (rule imageE)
      show False using bspec [OF cells c(1)] none by (simp add: c(2))
    qed
  qed (use h'(1) as(3) in simp)
  then have "dom h' = (\<lambda>c. ren_ref E (fst c)) ` set (lr_cells rt)" unfolding addresses by (auto simp: dom_def)
  then have "restores E rt ?rt" using cells as' as(2) by (simp add: restores_def)
  moreover have "read_heap R st' d = Some (?rt, ?e\<lparr>ds_pc := ?f\<rparr>)"
  proof (rule read_heap_steps)
    show "get_u32 d = Some (of_nat ?n, ?d0)" by (rule get_u32_at [OF b'])
    show "unat (of_nat ?n :: u32) = ?n" "unat (of_nat (length ws) :: u32) = length ws"
      by (rule count_word(1) [OF small(1)], rule count_word(1) [OF small(2)])
    show "allocate_cells R ?n (\<lambda>_. None) ?d0 = Some (h, ?e\<lparr>ds_pc := ?w\<rparr>)" using as(5) by simp
    show "read_cells R ?n h (set_pc (ds_pc ?d0) (?e\<lparr>ds_pc := ?v\<rparr>)) = Some (h', ?e\<lparr>ds_pc := ?w\<rparr>)"
      using h'(3) by (simp add: set_pc_def)
    show "get_u32 (set_pc (ds_pc (?e\<lparr>ds_pc := ?v\<rparr>)) (?e\<lparr>ds_pc := ?w\<rparr>)) = Some (of_nat (length cs), ?e\<lparr>ds_pc := ?v + 4\<rparr>)"
      using rc(1) by (simp add: set_pc_def)
    show "(if sint (of_nat (length cs) :: u32) > 0 then unat (of_nat (length cs) :: u32) else 0) = length cs"
      by (rule count_word(2) [OF small(3)])
  qed (rule rw rc(2))+
  ultimately show ?thesis
    by (intro exI [of _ as] exI [of _ ?rt] exI [of _ "?e\<lparr>ds_pc := ?f\<rparr>"]) (simp add: as(1) E_def)
qed

end
