(* ===== verification/Snapshot_Props.thy ===== *)
theory Snapshot_Props
  imports Snapshot_Reading
begin

text \<open>The properties of snapshots and of the symbol table.\<close>

section \<open>Symbols\<close>

lemma intern_counts: "unat (sy_key st) + 1 < 2 ^ 32 \<Longrightarrow> unat (sy_key (snd (intern str st))) \<le> unat (sy_key st) + 1"
  by (auto simp: intern_def Let_def unat_word_ariths split: option.split)

lemma intern_all_keeps:
  "map_of (sy_symbols st) other = Some key \<Longrightarrow> map_of (sy_symbols (snd (intern_all strs st))) other = Some key"
proof (induction strs st rule: intern_all.induct)
  case (2 str strs st)
  then show ?case using intern_keeps [OF 2(2), of str] by (auto simp: Let_def split: prod.splits)
qed simp

lemma intern_all_known:
  "i < length strs \<Longrightarrow> map_of (sy_symbols (snd (intern_all strs st))) (strs ! i) = Some (fst (intern_all strs st) ! i)"
proof (induction strs st arbitrary: i rule: intern_all.induct)
  case (2 str strs st)
  obtain key st1 where k: "intern str st = (key, st1)" by fastforce
  obtain keys st2 where ks: "intern_all strs st1 = (keys, st2)" by fastforce
  have "map_of (sy_symbols st1) str = Some key" using intern_known [of str st] k by simp
  then have "map_of (sy_symbols st2) str = Some key" using intern_all_keeps [of st1 str key strs] ks by simp
  then show ?case using 2(1) [OF k [symmetric] refl, of "i - 1"] 2(2) k ks by (cases i) auto
qed simp

lemma intern_all_wf:
  "symbol_table_wf st \<Longrightarrow> unat (sy_key st) + length strs < 2 ^ 32 \<Longrightarrow> symbol_table_wf (snd (intern_all strs st))"
proof (induction strs st rule: intern_all.induct)
  case (2 str strs st)
  obtain key st1 where k: "intern str st = (key, st1)" by fastforce
  have room: "unat (sy_key st) + 1 < 2 ^ 32" using 2(3) by simp
  have "symbol_table_wf st1" "unat (sy_key st1) \<le> unat (sy_key st) + 1"
    using intern_wf [OF 2(2) room, of str] intern_counts [OF room, of str] k by simp_all
  then show ?case using 2(1) [OF k [symmetric] refl] 2(3) k by (auto simp: Let_def split: prod.splits)
qed simp

lemma symbol_indices_at:
  "distinct (map snd es) \<Longrightarrow> i < length es \<Longrightarrow> map_of (symbol_indices n es) (Key (snd (es ! i))) = Some (of_nat (n + i))"
proof (induction n es arbitrary: i rule: symbol_indices.induct)
  case (2 n str key es)
  show ?case
  proof (cases i)
    case (Suc j)
    then have "snd (es ! j) \<noteq> key" using 2(2,3) by (auto simp: nth_mem)
    then show ?thesis using 2(1) [of j] 2(2,3) Suc by simp
  qed simp
qed simp

section \<open>Reading a snapshot\<close>

lemma read_image:
  assumes ready: "ready W R rt" and hooks: "\<And>E. hooks_fit (wh_hooks W) (rh_hooks R) E" and fresh: "fresh_allocator (length (lr_cells rt)) R"
    and rec: "list_all2 (cell_record W (snapshot_maps W rt)) (lr_cells rt) rs" "list_all2 (index_of (snapshot_maps W rt)) (lr_weak rt) ws"
      "list_all2 (index_of (snapshot_maps W rt)) (lr_contexts rt) cs"
    and buf: "buf = image_bytes (length (all_refs W rt)) (lr_symbols rt) rs ws cs @ rest" "length buf < 2 ^ 32"
  shows "\<exists>as rt'. read_snapshot R st buf = Some rt' \<and> length as = length (lr_cells rt) \<and>
    restores (renaming_to W R st rt as) rt rt' \<and> rr_symbols rt' = snd (intern_all (map fst (lr_symbols rt)) st)"
proof -
  let ?es = "lr_symbols rt" and ?n = "length (all_refs W rt)" and ?m = "length (lr_symbols rt)"
  let ?keys = "map Key (fst (intern_all (map fst (lr_symbols rt)) st))" and ?st = "snd (intern_all (map fst (lr_symbols rt)) st)"
  let ?d = "\<lparr>ds_reader = buf, ds_pc = 0, ds_refs = [], ds_symbols = []\<rparr>" and ?refs = "new_refs R @ replicate (length (lr_cells rt)) 0"
  let ?len = "length (symbol_bytes 0 (lr_symbols rt))"
  let ?d2 = "\<lparr>ds_reader = buf, ds_pc = 8 + ?len, ds_refs = ?refs, ds_symbols = ?keys\<rparr>"
  have n: "?n < 2 ^ 32" "?n = length (rh_natives R @ rh_externals R) + length (lr_cells rt)"
    using ready by (auto simp: ready_def all_refs_def)
  have l: "8 + ?len + length (heap_bytes (8 + ?len) rs ws cs) < 2 ^ 32" using buf by (simp add: image_bytes_def)
  then have m: "?m < 2 ^ 32" by (simp add: symbol_bytes_length)
  have strs: "\<forall>str\<in>fst ` set ?es. length str < 2 ^ 32"
  proof
    fix str assume "str \<in> fst ` set ?es"
    then have "length str \<in> set (map (length \<circ> fst) ?es)" by auto
    then have "length str \<le> sum_list (map (length \<circ> fst) ?es)" by (rule member_le_sum_list) simp
    then show "length str < 2 ^ 32" using l by (simp add: symbol_bytes_length)
  qed
  have b: "bytes_at ?d (le4 ?n @ le4 ?m @ symbol_bytes 0 ?es @ heap_bytes (8 + ?len) rs ws cs @ rest)"
    using buf by (simp add: bytes_at_def image_bytes_def)
  let ?d1 = "\<lparr>ds_reader = buf, ds_pc = 4, ds_refs = ?refs, ds_symbols = []\<rparr>"
  have b1: "bytes_at ?d1 (le4 ?m @ symbol_bytes 0 ?es @ heap_bytes (8 + ?len) rs ws cs @ rest)"
    by (rule bytes_at_cong [OF bytes_at_step [OF b]]) simp_all
  let ?d3 = "?d1\<lparr>ds_pc := 8, ds_symbols := replicate ?m (Key 0)\<rparr>"
  have b3: "bytes_at ?d3 (symbol_bytes 0 ?es @ heap_bytes (8 + ?len) rs ws cs @ rest)"
    by (rule bytes_at_cong [OF bytes_at_step [OF b1]]) simp_all
  have "get_u32 ?d = Some (of_nat ?n, ?d\<lparr>ds_pc := 4\<rparr>)" "unat (of_nat ?n :: u32) = ?n"
    using get_u32_at [OF b] n(1) by (simp_all add: unat_word_of_nat_less)
  moreover have "read_reference_map R (?d\<lparr>ds_pc := 4, ds_refs := replicate ?n 0\<rparr>) = Some ?d1"
    using read_reference_map_run [of "?d\<lparr>ds_pc := 4, ds_refs := replicate ?n 0\<rparr>" R "length (lr_cells rt)"] n(2) by (simp add: new_refs_def)
  moreover have "read_symbol_table st ?d1 = Some (?st, ?d2)"
  proof -
    have "read_symbols ?m st ?d3 = Some (?st, ?d2)"
      using read_symbols_run [of ?d3 0 ?es st] b3 m strs by (simp add: bytes_at_append)
    moreover have "get_u32 ?d1 = Some (of_nat ?m, ?d1\<lparr>ds_pc := 8\<rparr>)" "unat (of_nat ?m :: u32) = ?m"
      using get_u32_at [OF b1] m by (simp_all add: unat_word_of_nat_less)
    ultimately show ?thesis by (simp add: read_symbol_table_def r_bind_def)
  qed
  moreover have b2: "bytes_at ?d2 (heap_bytes (8 + ?len) rs ws cs @ rest)"
    by (rule bytes_at_cong [OF bytes_at_step [OF b3]]) simp_all
  have "\<exists>as rt' d'. read_heap R ?st ?d2 = Some (rt', d') \<and> length as = length (lr_cells rt) \<and>
      restores (renaming_to W R st rt as) rt rt' \<and> rr_symbols rt' = ?st"
    by (intro read_heap_run [OF ready hooks fresh rec]) (use l m b2 in simp_all)
  ultimately show ?thesis by (auto simp: read_snapshot_def r_bind_def)
qed

text \<open>
  C2. What a snapshot keeps. Reading the snapshot of a runtime, in a process with the same functions and
  references, gives a runtime with the same cells, weak slots and contexts, all references renamed to the
  addresses of the new cells (different for different cells) and to the references of the new process; and
  every symbol of the old runtime is renamed to the one that the new symbol table describes by the same
  string. The hooks of classes must read what they write, the allocator must give free addresses, and the
  runtime must not have cells of deleted entries.
\<close>

theorem snapshot_restores_runtime:
  assumes "take_snapshot W callback rt = Some buf" "extends callback" "length buf < 2 ^ 32"
    and "ready W R rt" "fresh_allocator (length (lr_cells rt)) R" "\<And>E. hooks_fit (wh_hooks W) (rh_hooks R) E"
    and "symbol_table_wf st" "unat (sy_key st) + length (lr_symbols rt) < 2 ^ 32"
  shows "\<exists>E rt'. read_snapshot R st buf = Some rt' \<and> restores E rt rt' \<and>
    rn_refs E = all_refs W rt \<and> take (length (new_refs R)) (rn_new_refs E) = new_refs R \<and>
    (\<forall>(str, key)\<in>set (lr_symbols rt). \<exists>k. ren_key E key = Key k \<and> description (rr_symbols rt') k = Some str)"
proof -
  let ?es = "lr_symbols rt"
  have e: "extends (put_cell (wh_hooks W) c)" for c by (rule extends_cell [OF assms(6)])
  have dist: "distinct (map snd ?es)" using assms(4) by (simp add: ready_def)
  obtain rs ws cs extra where rec: "list_all2 (cell_record W (snapshot_maps W rt)) (lr_cells rt) rs"
    "list_all2 (index_of (snapshot_maps W rt)) (lr_weak rt) ws" "list_all2 (index_of (snapshot_maps W rt)) (lr_contexts rt) cs"
    and buf: "buf = image_bytes (length (all_refs W rt)) ?es rs ws cs @ extra"
    using take_snapshot_shape [OF assms(1,2) dist e assms(3)] by blast
  obtain as rt' where r: "read_snapshot R st buf = Some rt'" "restores (renaming_to W R st rt as) rt rt'"
    and st': "rr_symbols rt' = snd (intern_all (map fst ?es) st)"
    using read_image [OF assms(4,6,5) rec buf assms(3)] by blast
  let ?E = "renaming_to W R st rt as"
  have wf: "symbol_table_wf (rr_symbols rt')" unfolding st' by (rule intern_all_wf) (use assms(7,8) in simp_all)
  have "\<exists>k. ren_key ?E key = Key k \<and> description (rr_symbols rt') k = Some str" if sym: "(str, key) \<in> set ?es" for str key
  proof -
    obtain i where i: "i < length ?es" "?es ! i = (str, key)" using sym unfolding in_set_conv_nth by blast
    have "map_of (symbol_indices 0 ?es) (Key key) = Some (of_nat i)" using symbol_indices_at [OF dist i(1), of 0] i(2) by simp
    moreover have "unat (of_nat i :: u32) = i" using i(1) assms(8) by (intro unat_word_of_nat_less) simp
    ultimately have "ren_key ?E key = Key (fst (intern_all (map fst ?es) st) ! i)"
      using i(1) by (simp add: ren_key_def renaming_to_def)
    moreover have "description (rr_symbols rt') (fst (intern_all (map fst ?es) st) ! i) = Some str"
      using intern_all_known [of i "map fst ?es" st] i wf unfolding description_def symbol_table_wf_def by (simp add: st')
    ultimately show ?thesis by blast
  qed
  then show ?thesis using r by (intro exI [of _ ?E] exI [of _ rt']) (auto simp: renaming_to_def)
qed

text \<open>A runtime with three cells, the process that writes it and the process that reads it.\<close>

definition example_kind :: "u64 list \<Rightarrow> u64 \<Rightarrow> cell_kind option" where
  "example_kind rs r = map_of (zip rs [KString, KString, KSymbol, KSymbol, KWeakSlot, KWeakSlot]) r"

definition example_writer :: write_host where
  "example_writer =
     \<lparr>wh_natives = [1, 2, 3, 4, 5, 6], wh_externals = [7],
      wh_deserialize = (\<lambda>k. if k = KString then 1 else if k = KSymbol then 3 else 5),
      wh_allocate = (\<lambda>k. if k = KString then 2 else if k = KSymbol then 4 else 6),
      wh_hooks = \<lparr>ch_serialize = (\<lambda>_. None), ch_deserialize = (\<lambda>_. None)\<rparr>\<rparr>"

definition example_reader :: read_host where
  "example_reader =
     \<lparr>rh_natives = [11, 12, 13, 14, 15, 16], rh_externals = [17],
      rh_deserialize = example_kind [11, 12, 13, 14, 15, 16], rh_allocate = example_kind [11, 12, 13, 14, 15, 16],
      rh_hooks = \<lparr>ch_serialize = (\<lambda>_. None), ch_deserialize = (\<lambda>_. None)\<rparr>,
      rh_size_of = (\<lambda>_. 16), rh_additional_size = (\<lambda>_. 0), rh_data_size = (\<lambda>_. 0),
      rh_allocate_raw = (\<lambda>sz h. if h 5000 = None then 5000 else if h 6000 = None then 6000 else 7000)\<rparr>"

definition example_runtime :: live_runtime where
  "example_runtime =
     \<lparr>lr_symbols = [([97], 128)], lr_cells = [(1000, CellString [104, 105]), (2000, CellSymbol (Key 128)), (3000, CellWeakSlot (Some 1000))],
      lr_weak = [3000], lr_contexts = []\<rparr>"

lemma example_hooks: "hooks_fit (wh_hooks example_writer) (rh_hooks example_reader) E"
  by (simp add: hooks_fit_def run_serialize_def run_deserialize_def example_writer_def example_reader_def carries_return del: in_order.simps)

lemma example_allocator: "fresh_allocator (length (lr_cells example_runtime)) example_reader"
  unfolding fresh_allocator_def
proof (intro allI impI)
  fix sz and h :: snap_heap assume c: "card (dom h) < length (lr_cells example_runtime)"
  show "h (rh_allocate_raw example_reader sz h) = None"
  proof (rule ccontr)
    assume "\<not> ?thesis"
    then have "{5000, 6000, 7000} \<subseteq> dom h" by (auto simp: example_reader_def dom_def split: if_splits)
    then have "card {5000, 6000, 7000 :: u64} \<le> card (dom h)" by (rule card_mono [rotated]) simp
    then show False using c by (simp add: example_runtime_def)
  qed
qed

definition example_bytes :: "u8 list" where "example_bytes = the (take_snapshot example_writer Some example_runtime)"

lemma example_snapshot: "take_snapshot example_writer Some example_runtime = Some example_bytes" "length example_bytes < 2 ^ 32"
proof -
  have "take_snapshot example_writer Some example_runtime \<noteq> None" by code_simp
  then show "take_snapshot example_writer Some example_runtime = Some example_bytes" by (auto simp: example_bytes_def)
  have "length example_bytes \<le> 200" by code_simp
  then show "length example_bytes < 2 ^ 32" by simp
qed

lemma example_ready: "ready example_writer example_reader example_runtime"
proof -
  have "list_all (\<lambda>c. hosts_agree example_writer example_reader (kind_of (snd c)) \<and> kind_of (snd c) \<noteq> KDeleted) (lr_cells example_runtime)"
    by code_simp
  then show ?thesis by (simp add: ready_def) (simp add: example_writer_def example_reader_def example_runtime_def all_refs_def own_refs_def)
qed

theorem snapshot_restores_runtime_witness:
  "\<exists>E rt'. read_snapshot example_reader symbol_table_new example_bytes = Some rt' \<and> restores E example_runtime rt' \<and>
    (\<exists>k. ren_key E 128 = Key k \<and> description (rr_symbols rt') k = Some [97])"
proof -
  have "extends Some" by (auto simp: extends_def intro: exI [of _ "[]"])
  moreover have "unat (sy_key symbol_table_new) + length (lr_symbols example_runtime) < 2 ^ 32"
    by (simp add: symbol_table_new_def example_runtime_def)
  ultimately have "\<exists>E rt'. read_snapshot example_reader symbol_table_new example_bytes = Some rt' \<and> restores E example_runtime rt' \<and>
    rn_refs E = all_refs example_writer example_runtime \<and> take (length (new_refs example_reader)) (rn_new_refs E) = new_refs example_reader \<and>
    (\<forall>(str, key)\<in>set (lr_symbols example_runtime). \<exists>k. ren_key E key = Key k \<and> description (rr_symbols rt') k = Some str)"
    by (intro snapshot_restores_runtime [OF example_snapshot(1) _ example_snapshot(2) example_ready example_allocator example_hooks symbol_table_new_wf])
  then show ?thesis by (auto simp: example_runtime_def)
qed

section \<open>Deleted entries\<close>

lemma write_reference_length: "write_reference r s = Some s' \<Longrightarrow> length (sr_out s') = length (sr_out s) + 4"
  using write_reference_shape by fastforce

lemma get_u32_length: "get_u32 d = Some (x, d') \<Longrightarrow> ds_pc d' = ds_pc d + 4"
  by (auto simp: get_u32_def r_bind_def r_return_def read_bytes_def split: option.splits if_splits)

text \<open>
  C40. A deleted entry cannot be read back. What the serializer writes for an entry is 5 bytes long, or 9 with a
  previous entry; the deserializer reads 8 bytes. It never stops where the serializer did, so that what follows
  the entry in the snapshot is read from the wrong place.
\<close>

theorem deleted_entry_misread:
  assumes "put_deleted_entry e s = Some s'" "get_deleted_entry d = Some (e', d')"
  shows "length (sr_out s') = length (sr_out s) + (if de_prev e = None then 5 else 9) \<and> ds_pc d' = ds_pc d + 8 \<and>
    length (sr_out s') - length (sr_out s) \<noteq> ds_pc d' - ds_pc d"
proof -
  obtain s1 where s1: "put_option write_reference (de_prev e) s = Some s1" "sr_out s' = sr_out s1 @ le_bytes 4 (de_offset e)"
    using assms(1) by (auto simp: put_deleted_entry_def write_u32_def write_all_def split: option.splits)
  have "length (sr_out s1) = length (sr_out s) + (if de_prev e = None then 1 else 5)"
    using s1(1) by (auto simp: put_option_def write_u8_def write_all_def dest: write_reference_length split: option.splits)
  moreover have "ds_pc d' = ds_pc d + 8"
    using assms(2) by (auto simp: get_deleted_entry_def get_reference_def r_bind_def r_return_def dest!: get_u32_length split: option.splits if_splits)
  ultimately show ?thesis using s1(2) by simp
qed

definition example_entry :: deleted_entry_s where "example_entry = \<lparr>de_prev = Some 9, de_offset = 3\<rparr>"

definition example_written :: "u8 list" where "example_written = [1, 0, 0, 0, 0, 3, 0, 0, 0]"

lemma example_entry_runs:
  "put_deleted_entry example_entry \<lparr>sr_refs = [9], sr_out = [], sr_symbols = []\<rparr> =
     Some \<lparr>sr_refs = [9], sr_out = example_written, sr_symbols = []\<rparr>"
  "get_deleted_entry \<lparr>ds_reader = example_written, ds_pc = 0, ds_refs = [4, 5], ds_symbols = []\<rparr> =
     Some (\<lparr>de_prev = Some 5, de_offset = 768\<rparr>, \<lparr>ds_reader = example_written, ds_pc = 8, ds_refs = [4, 5], ds_symbols = []\<rparr>)"
  by code_simp+

theorem deleted_entry_misread_witness:
  "length example_written = 9 \<and> (8 :: nat) \<noteq> length example_written"
  using deleted_entry_misread [OF example_entry_runs] by (simp add: example_entry_def)

section \<open>Interning\<close>

text \<open>
  C39. Interning. Two strings interned one after the other get the same identity exactly if they are equal, and each
  identity still describes its string.
\<close>

theorem interned_once:
  assumes "symbol_table_wf st" "unat (sy_key st) + 2 < 2 ^ 32" "intern a st = (j, st1)" "intern b st1 = (k, st2)"
  shows "(j = k \<longleftrightarrow> a = b) \<and> description st2 j = Some a \<and> description st2 k = Some b"
proof -
  have "intern_all [a, b] st = ([j, k], st2)" using assms(3,4) by simp
  moreover have "symbol_table_wf (snd (intern_all [a, b] st))" by (rule intern_all_wf) (use assms(1,2) in simp_all)
  ultimately have wf: "symbol_table_wf st2"
    and known: "map_of (sy_symbols st2) a = Some j" "map_of (sy_symbols st2) b = Some k"
    using intern_all_known [of 0 "[a, b]" st] intern_all_known [of 1 "[a, b]" st] by simp_all
  then have "description st2 j = Some a" "description st2 k = Some b" by (auto simp: symbol_table_wf_def description_def)
  then show ?thesis using known by auto
qed

theorem interned_once_witness:
  "(case intern [97] symbol_table_new of (j, st1) \<Rightarrow> (case intern [98] st1 of (k, st2) \<Rightarrow>
     (j = k \<longleftrightarrow> [97 :: u8] = [98]) \<and> description st2 j = Some [97] \<and> description st2 k = Some [98]))"
proof -
  obtain j st1 where j: "intern [97] symbol_table_new = (j, st1)" by fastforce
  obtain k st2 where k: "intern [98] st1 = (k, st2)" by fastforce
  have "unat (sy_key symbol_table_new) + 2 < 2 ^ 32" by (simp add: symbol_table_new_def)
  then show ?thesis using interned_once [OF symbol_table_new_wf _ j k] j k by simp
qed

end
